(* ===== verification/Rv_Prelude.thy ===== *)
theory Rv_Prelude
  imports Main "HOL-Library.Word" "HOL-Library.Signed_Division"
begin

unbundle bit_operations_syntax

text \<open>
  The vocabulary the components share: the C integer types as words, the C shift and
  comparison operators that have no one-symbol counterpart on words, the named fact
  collections of the development, and the generic lemmas on words, bit masks and lists
  that the component theories use.
\<close>

type_synonym u8 = "8 word"
type_synonym u16 = "16 word"
type_synonym u32 = "32 word"
type_synonym u64 = "64 word"

text \<open>
  Collections: \<open>frame\<close> holds the equations that say which fields of a state an
  operation leaves alone, \<open>field_defs\<close> the definitions of instruction fields and
  immediates, \<open>enc_defs\<close> the instruction encoders.
\<close>

named_theorems frame
named_theorems field_defs
named_theorems enc_defs

text \<open>
  C operators. The shifts take the amount as a word, as the C expressions do; the amount
  is below the width at every use, so C leaves nothing undefined. A cast of an unsigned
  word to the signed type of the same width is the identity on the bits.
\<close>

definition shl :: "'a::len word \<Rightarrow> u32 \<Rightarrow> 'a word" where
  "shl w n = push_bit (unat n) w"

definition shr :: "'a::len word \<Rightarrow> u32 \<Rightarrow> 'a word" where
  "shr w n = drop_bit (unat n) w"

definition sar :: "'a::len word \<Rightarrow> u32 \<Rightarrow> 'a word" where
  "sar w n = signed_drop_bit (unat n) w"

text \<open>The value of a C comparison, an \<open>int\<close> that is 0 or 1.\<close>

definition c_bool :: "bool \<Rightarrow> u32" where
  "c_bool b = (if b then 1 else 0)"

lemma c_bool_simps [simp]: "c_bool True = 1" "c_bool False = 0"
  by (simp_all add: c_bool_def)

lemma c_bool_eq_0 [simp]: "c_bool b = 0 \<longleftrightarrow> \<not> b"
  by (simp add: c_bool_def)

text \<open>C's casts \<open>(uint32_t)(int32_t)(int8_t)v\<close> and \<open>(uint32_t)(int32_t)(int16_t)v\<close>.\<close>

definition sext8 :: "u32 \<Rightarrow> u32" where
  "sext8 v = scast (ucast v :: u8)"

definition sext16 :: "u32 \<Rightarrow> u32" where
  "sext16 v = scast (ucast v :: u16)"

subsection \<open>Bit-level equality\<close>

text \<open>
  Two words are equal when their bits are. On a concrete width the positions are listed, so
  that the simplifier computes the bit of every field expression at every position.
\<close>

lemma bit_beyond [simp]: "LENGTH('a) \<le> n \<Longrightarrow> \<not> bit (w::'a::len word) n"
  by (auto dest: bit_imp_le_length)

abbreviation positions32 :: "nat set" where
  "positions32 \<equiv> {0, 1, 2, 3, 4, 5, 6, 7, 8, 9, 10, 11, 12, 13, 14, 15,
     16, 17, 18, 19, 20, 21, 22, 23, 24, 25, 26, 27, 28, 29, 30, 31}"

abbreviation positions16 :: "nat set" where
  "positions16 \<equiv> {0, 1, 2, 3, 4, 5, 6, 7, 8, 9, 10, 11, 12, 13, 14, 15}"

lemma u32_eqI:
  assumes "\<forall>n\<in>positions32. bit a n = bit b n"
  shows "a = (b::u32)"
proof (rule bit_word_eqI)
  fix n assume "n < LENGTH(32)"
  then have "n \<in> positions32" by (simp, presburger)
  with assms show "bit a n = bit b n" by blast
qed

lemma u16_eqI:
  assumes "\<forall>n\<in>positions16. bit a n = bit b n"
  shows "a = (b::u16)"
proof (rule bit_word_eqI)
  fix n assume "n < LENGTH(16)"
  then have "n \<in> positions16" by (simp, presburger)
  with assms show "bit a n = bit b n" by blast
qed

lemmas bits_at = bit_simps numeral_2_eq_2 [symmetric]

lemma u32_less_8: "(w::u32) < 8 \<Longrightarrow> w = 0 \<or> w = 1 \<or> w = 2 \<or> w = 3 \<or> w = 4 \<or> w = 5 \<or> w = 6 \<or> w = 7"
  by (simp add: word_less_nat_alt word_unat_eq_iff) presburger

subsection \<open>Byte and halfword masks\<close>

lemma and_ff_take: "(w::u32) AND 0xff = take_bit 8 w"
  by (simp add: take_bit_eq_mask mask_numeral)

lemma and_ffff_take: "(w::u32) AND 0xffff = take_bit 16 w"
  by (simp add: take_bit_eq_mask mask_numeral)

lemma ucast_u8_and_ff [simp]: "ucast (b::u8) AND (0xff::u32) = ucast b"
  unfolding and_ff_take by (rule bit_word_eqI) (auto simp: bit_simps dest: bit_imp_le_length)

lemma ucast_and_ff [simp]: "(ucast ((w::u32) AND 0xff) :: u8) = ucast w"
  unfolding and_ff_take by (rule bit_word_eqI) (auto simp: bit_simps)

subsection \<open>Aligned addresses\<close>

text \<open>
  An aligned halfword or word never wraps around the end of the address space.
\<close>

lemma aligned_dvd: "(a :: u32) AND 1 = 0 \<longleftrightarrow> 2 dvd unat a" "a AND 3 = 0 \<longleftrightarrow> 4 dvd unat a"
  using and_mask_dvd_nat [of 1 a] and_mask_dvd_nat [of 2 a] by (simp_all add: mask_eq_exp_minus_1)

lemma u32_bound: "unat (a :: u32) < 4294967296"
  using unsigned_less [of a] by simp

lemma aligned_room: 
  "(a :: u32) AND 1 = 0 \<Longrightarrow> unat a + 1 < 4294967296"
  "a AND 3 = 0 \<Longrightarrow> unat a + 3 < 4294967296"
  unfolding aligned_dvd using u32_bound [of a] by presburger+

lemma u32_add_less: "unat a + k < 4294967296 \<Longrightarrow> (a :: u32) + of_nat k < n \<Longrightarrow> j \<le> k \<Longrightarrow> a + of_nat j < n"
  by (simp add: word_less_nat_alt unat_word_ariths take_bit_eq_mod unat_of_nat)

lemma halfword_inside: "(a :: u32) AND 1 = 0 \<Longrightarrow> a + 1 < n \<Longrightarrow> a < n"
  using u32_add_less [of a 1 n 0] aligned_room by simp

lemma word_inside: 
  assumes "(a :: u32) AND 3 = 0" "a + 3 < n" shows "a < n" "a + 1 < n" "a + 2 < n"
  using u32_add_less [of a 3 n 0] u32_add_less [of a 3 n 1] u32_add_less [of a 3 n 2] aligned_room assms by simp_all

lemma all_bytes: "(\<forall>i<(2::nat). P i) \<longleftrightarrow> P 0 \<and> P 1" "(\<forall>i<(4::nat). P i) \<longleftrightarrow> P 0 \<and> P 1 \<and> P 2 \<and> P 3"
  by (auto simp: eval_nat_numeral All_less_Suc)

end
