(* ===== verification/Rv_Decode.thy ===== *)
theory Rv_Decode
  imports Rv_Prelude
begin

text \<open>
  Instruction fields, immediates and encoders of \<^verbatim>\<open>src/rv32-emulator/demo/rv32.c\<close>: the field
  macros, the five immediate decoders the executor uses and the five encoders the compressed
  expander uses. The lemmas at the end show that each decoder inverts its encoder on every
  immediate the format can carry.
\<close>

subsection \<open>Fields\<close>

definition OPCODE :: "u32 \<Rightarrow> u32" where [field_defs]: "OPCODE i = i AND 0x7f"
definition RD :: "u32 \<Rightarrow> u32" where [field_defs]: "RD i = drop_bit 7 i AND 0x1f"
definition FUNCT3 :: "u32 \<Rightarrow> u32" where [field_defs]: "FUNCT3 i = drop_bit 12 i AND 0x07"
definition RS1 :: "u32 \<Rightarrow> u32" where [field_defs]: "RS1 i = drop_bit 15 i AND 0x1f"
definition RS2 :: "u32 \<Rightarrow> u32" where [field_defs]: "RS2 i = drop_bit 20 i AND 0x1f"
definition RS3 :: "u32 \<Rightarrow> u32" where [field_defs]: "RS3 i = drop_bit 27 i AND 0x1f"
definition FUNCT7 :: "u32 \<Rightarrow> u32" where [field_defs]: "FUNCT7 i = drop_bit 25 i AND 0x7f"

definition OP_LOAD :: u32 where "OP_LOAD = 0x03"
definition OP_LOAD_FP :: u32 where "OP_LOAD_FP = 0x07"
definition OP_AMO :: u32 where "OP_AMO = 0x2f"
definition OP_MISC_MEM :: u32 where "OP_MISC_MEM = 0x0f"
definition OP_IMM :: u32 where "OP_IMM = 0x13"
definition OP_AUIPC :: u32 where "OP_AUIPC = 0x17"
definition OP_STORE :: u32 where "OP_STORE = 0x23"
definition OP_STORE_FP :: u32 where "OP_STORE_FP = 0x27"
definition OP_REG :: u32 where "OP_REG = 0x33"
definition OP_LUI :: u32 where "OP_LUI = 0x37"
definition OP_MADD :: u32 where "OP_MADD = 0x43"
definition OP_MSUB :: u32 where "OP_MSUB = 0x47"
definition OP_NMSUB :: u32 where "OP_NMSUB = 0x4b"
definition OP_NMADD :: u32 where "OP_NMADD = 0x4f"
definition OP_FP :: u32 where "OP_FP = 0x53"
definition OP_BRANCH :: u32 where "OP_BRANCH = 0x63"
definition OP_JALR :: u32 where "OP_JALR = 0x67"
definition OP_JAL :: u32 where "OP_JAL = 0x6f"
definition OP_SYSTEM :: u32 where "OP_SYSTEM = 0x73"

lemmas opcodes = OP_LOAD_def OP_LOAD_FP_def OP_AMO_def OP_MISC_MEM_def OP_IMM_def OP_AUIPC_def
  OP_STORE_def OP_STORE_FP_def OP_REG_def OP_LUI_def OP_MADD_def OP_MSUB_def OP_NMSUB_def
  OP_NMADD_def OP_FP_def OP_BRANCH_def OP_JALR_def OP_JAL_def OP_SYSTEM_def

subsection \<open>Immediates\<close>

text \<open>
  The decoders return \<open>int32_t\<close>; the model keeps the two's complement bits. An arithmetic
  right shift followed by a left shift is C's \<open>(int32_t)i >> 25 << 5\<close>.
\<close>

definition imm_i :: "u32 \<Rightarrow> u32" where
  "imm_i i = signed_drop_bit 20 i"

definition imm_s :: "u32 \<Rightarrow> u32" where
  "imm_s i = push_bit 5 (signed_drop_bit 25 i) OR (drop_bit 7 i AND 0x1f)"

definition imm_b :: "u32 \<Rightarrow> u32" where
  "imm_b i = push_bit 12 (signed_drop_bit 31 i) OR push_bit 5 (drop_bit 25 i AND 0x3f) OR
     push_bit 1 (drop_bit 8 i AND 0x0f) OR push_bit 11 (drop_bit 7 i AND 0x01)"

definition imm_u :: "u32 \<Rightarrow> u32" where
  "imm_u i = i AND 0xfffff000"

definition imm_j :: "u32 \<Rightarrow> u32" where
  "imm_j i = push_bit 20 (signed_drop_bit 31 i) OR push_bit 1 (drop_bit 21 i AND 0x3ff) OR
     push_bit 11 (drop_bit 20 i AND 0x01) OR push_bit 12 (drop_bit 12 i AND 0xff)"

subsection \<open>Encoders\<close>

definition enc_i :: "u32 \<Rightarrow> u32 \<Rightarrow> u32 \<Rightarrow> u32 \<Rightarrow> u32 \<Rightarrow> u32" where [enc_defs]:
  "enc_i imm rs1 f3 rd opc =
     push_bit 20 (imm AND 0xfff) OR push_bit 15 rs1 OR push_bit 12 f3 OR push_bit 7 rd OR opc"

definition enc_s :: "u32 \<Rightarrow> u32 \<Rightarrow> u32 \<Rightarrow> u32 \<Rightarrow> u32 \<Rightarrow> u32" where [enc_defs]:
  "enc_s imm rs2 rs1 f3 opc =
     push_bit 25 (drop_bit 5 imm AND 0x7f) OR push_bit 20 rs2 OR push_bit 15 rs1 OR
     push_bit 12 f3 OR push_bit 7 (imm AND 0x1f) OR opc"

definition enc_b :: "u32 \<Rightarrow> u32 \<Rightarrow> u32 \<Rightarrow> u32 \<Rightarrow> u32 \<Rightarrow> u32" where [enc_defs]:
  "enc_b imm rs2 rs1 f3 opc =
     push_bit 31 (drop_bit 12 imm AND 1) OR push_bit 25 (drop_bit 5 imm AND 0x3f) OR
     push_bit 20 rs2 OR push_bit 15 rs1 OR push_bit 12 f3 OR
     push_bit 8 (drop_bit 1 imm AND 0xf) OR push_bit 7 (drop_bit 11 imm AND 1) OR opc"

definition enc_j :: "u32 \<Rightarrow> u32 \<Rightarrow> u32 \<Rightarrow> u32" where [enc_defs]:
  "enc_j imm rd opc =
     push_bit 31 (drop_bit 20 imm AND 1) OR push_bit 21 (drop_bit 1 imm AND 0x3ff) OR
     push_bit 20 (drop_bit 11 imm AND 1) OR push_bit 12 (drop_bit 12 imm AND 0xff) OR
     push_bit 7 rd OR opc"

definition enc_r :: "u32 \<Rightarrow> u32 \<Rightarrow> u32 \<Rightarrow> u32 \<Rightarrow> u32 \<Rightarrow> u32 \<Rightarrow> u32" where [enc_defs]:
  "enc_r f7 rs2 rs1 f3 rd opc =
     push_bit 25 f7 OR push_bit 20 rs2 OR push_bit 15 rs1 OR push_bit 12 f3 OR
     push_bit 7 rd OR opc"

subsection \<open>Decoding inverts encoding\<close>

text \<open>
  Fields of the widths the formats give them are words of those widths, widened by
  \<^const>\<open>ucast\<close>; immediates are sign-extended by \<^const>\<open>scast\<close>. Branch and jump offsets carry
  no bit 0.
\<close>

lemmas decode_defs = field_defs imm_i_def imm_s_def imm_b_def imm_u_def imm_j_def

lemma enc_i_fields:
  fixes imm :: "12 word" and rs1 rd :: "5 word" and f3 :: "3 word" and opc :: "7 word"
  defines "i \<equiv> enc_i (ucast imm) (ucast rs1) (ucast f3) (ucast rd) (ucast opc)"
  shows "OPCODE i = ucast opc" "RD i = ucast rd" "FUNCT3 i = ucast f3" "RS1 i = ucast rs1"
    "imm_i i = scast imm"
  unfolding i_def
  by (rule u32_eqI, simp add: decode_defs enc_defs bits_at del: push_bit_Suc drop_bit_Suc)+

lemma enc_s_fields:
  fixes imm :: "12 word" and rs1 rs2 :: "5 word" and f3 :: "3 word" and opc :: "7 word"
  defines "i \<equiv> enc_s (ucast imm) (ucast rs2) (ucast rs1) (ucast f3) (ucast opc)"
  shows "OPCODE i = ucast opc" "RS2 i = ucast rs2" "FUNCT3 i = ucast f3" "RS1 i = ucast rs1"
    "imm_s i = scast imm"
  unfolding i_def
  by (rule u32_eqI, simp add: decode_defs enc_defs bits_at del: push_bit_Suc drop_bit_Suc)+

lemma enc_b_fields:
  fixes imm :: "13 word" and rs1 rs2 :: "5 word" and f3 :: "3 word" and opc :: "7 word"
  defines "i \<equiv> enc_b (ucast imm) (ucast rs2) (ucast rs1) (ucast f3) (ucast opc)"
  shows "OPCODE i = ucast opc" "RS2 i = ucast rs2" "FUNCT3 i = ucast f3" "RS1 i = ucast rs1"
    "imm_b i = scast (imm AND NOT 1)"
  unfolding i_def
  by (rule u32_eqI, simp add: decode_defs enc_defs bits_at del: push_bit_Suc drop_bit_Suc)+

lemma enc_j_fields:
  fixes imm :: "21 word" and rd :: "5 word" and opc :: "7 word"
  defines "i \<equiv> enc_j (ucast imm) (ucast rd) (ucast opc)"
  shows "OPCODE i = ucast opc" "RD i = ucast rd" "imm_j i = scast (imm AND NOT 1)"
  unfolding i_def
  by (rule u32_eqI, simp add: decode_defs enc_defs bits_at del: push_bit_Suc drop_bit_Suc)+

lemma enc_r_fields:
  fixes f7 :: "7 word" and rs1 rs2 rd :: "5 word" and f3 :: "3 word" and opc :: "7 word"
  defines "i \<equiv> enc_r (ucast f7) (ucast rs2) (ucast rs1) (ucast f3) (ucast rd) (ucast opc)"
  shows "OPCODE i = ucast opc" "RD i = ucast rd" "FUNCT3 i = ucast f3" "RS1 i = ucast rs1"
    "RS2 i = ucast rs2" "FUNCT7 i = ucast f7"
  unfolding i_def
  by (rule u32_eqI, simp add: decode_defs enc_defs bits_at del: push_bit_Suc drop_bit_Suc)+

text \<open>
  Decoding inverts encoding for the five formats the expander builds: every register, funct and
  opcode field comes back, the immediate comes back sign-extended, and branch and jump offsets come
  back without bit 0.
\<close>

theorem encode_decode:
  fixes imm12 :: "12 word" and imm13 :: "13 word" and imm21 :: "21 word"
    and rs1 rs2 rd :: "5 word" and f3 :: "3 word" and f7 opc :: "7 word"
  shows "imm_i (enc_i (ucast imm12) (ucast rs1) (ucast f3) (ucast rd) (ucast opc)) = scast imm12 \<and>
    RD (enc_i (ucast imm12) (ucast rs1) (ucast f3) (ucast rd) (ucast opc)) = ucast rd \<and>
    imm_s (enc_s (ucast imm12) (ucast rs2) (ucast rs1) (ucast f3) (ucast opc)) = scast imm12 \<and>
    RS2 (enc_s (ucast imm12) (ucast rs2) (ucast rs1) (ucast f3) (ucast opc)) = ucast rs2 \<and>
    imm_b (enc_b (ucast imm13) (ucast rs2) (ucast rs1) (ucast f3) (ucast opc)) = scast (imm13 AND NOT 1) \<and>
    RS1 (enc_b (ucast imm13) (ucast rs2) (ucast rs1) (ucast f3) (ucast opc)) = ucast rs1 \<and>
    imm_j (enc_j (ucast imm21) (ucast rd) (ucast opc)) = scast (imm21 AND NOT 1) \<and>
    OPCODE (enc_j (ucast imm21) (ucast rd) (ucast opc)) = ucast opc \<and>
    FUNCT7 (enc_r (ucast f7) (ucast rs2) (ucast rs1) (ucast f3) (ucast rd) (ucast opc)) = ucast f7 \<and>
    FUNCT3 (enc_r (ucast f7) (ucast rs2) (ucast rs1) (ucast f3) (ucast rd) (ucast opc)) = ucast f3"
  by (simp only: enc_i_fields enc_s_fields enc_b_fields enc_j_fields enc_r_fields simp_thms)

end
