(* ===== verification/Rv_Trace.thy ===== *)
theory Rv_Trace
  imports Rv_Prelude
begin

text \<open>
  The diagnostic event ring of \<^verbatim>\<open>src/rv32-emulator/demo/rv32.h\<close>: 64 slots, a write cursor
  \<open>head\<close> and a counter \<open>total\<close>, both 32 bits wide and both free to wrap. The
  abstraction of a ring is the list of every event pushed since the last clear; the lemmas
  show that counting and peeking read the last 64 elements of that list, oldest first, as
  long as fewer than \<open>2 ^ 32\<close> events were pushed, and what happens when the cursor wraps.
\<close>

datatype rv_trace_type =
    RV_TR_NONE | RV_TR_ILLEGAL | RV_TR_FETCH_FAULT | RV_TR_LOAD_FAULT | RV_TR_STORE_FAULT
  | RV_TR_LOAD_MISALIGN | RV_TR_STORE_MISALIGN | RV_TR_ECALL | RV_TR_EBREAK | RV_TR_CSR
  | RV_TR_TRAP | RV_TR_DOUBLE_FAULT | RV_TR_INTERRUPT

text \<open>The note is a C string held in 48 bytes: at most 47 characters and the terminator.\<close>

record rv_trace_event =
  ev_pc :: u32
  ev_addr :: u32
  ev_insn :: u32
  ev_type :: rv_trace_type
  ev_note :: string

text \<open>
  The array of \<open>RV_TRACE_CAPACITY\<close> = 64 events is a function of a 6-bit index: the C code
  masks every index with \<open>RV_TRACE_CAPACITY - 1\<close>, which is taking its low six bits.
\<close>

record rv_trace =
  events :: "6 word \<Rightarrow> rv_trace_event"
  head :: u32
  total :: u32

definition RV_TRACE_NOTE_SIZE :: nat where
  "RV_TRACE_NOTE_SIZE = 48"

definition RV_TRACE_CAPACITY :: u32 where
  "RV_TRACE_CAPACITY = 64"

definition zero_event :: rv_trace_event where
  "zero_event = \<lparr>ev_pc = 0, ev_addr = 0, ev_insn = 0, ev_type = RV_TR_NONE, ev_note = ''''\<rparr>"

definition rv_trace_init :: rv_trace where
  "rv_trace_init = \<lparr>events = (\<lambda>_. zero_event), head = 0, total = 0\<rparr>"

definition trace_slot :: "u32 \<Rightarrow> 6 word" where
  "trace_slot i = ucast (i AND (RV_TRACE_CAPACITY - 1))"

text \<open>The stored note: a copy of at most 47 characters, the empty string for \<open>NULL\<close>.\<close>

definition clip_note :: "string option \<Rightarrow> string" where
  "clip_note note = (case note of
      Some s \<Rightarrow> (let n = length s;
                     n' = (if n \<ge> RV_TRACE_NOTE_SIZE then RV_TRACE_NOTE_SIZE - 1 else n)
                 in take n' s)
    | None \<Rightarrow> '''')"

definition rv_trace_push ::
    "rv_trace \<Rightarrow> rv_trace_type \<Rightarrow> u32 \<Rightarrow> u32 \<Rightarrow> u32 \<Rightarrow> string option \<Rightarrow> rv_trace" where
  "rv_trace_push t ty pc insn addr note =
     (let ev = \<lparr>ev_pc = pc, ev_addr = addr, ev_insn = insn, ev_type = ty,
                ev_note = clip_note note\<rparr>
      in \<lparr>events = (events t)(trace_slot (head t) := ev), head = head t + 1,
          total = total t + 1\<rparr>)"

definition rv_trace_count :: "rv_trace \<Rightarrow> u32" where
  "rv_trace_count t = (if head t < RV_TRACE_CAPACITY then head t else RV_TRACE_CAPACITY)"

definition rv_trace_overflowed :: "rv_trace \<Rightarrow> bool" where
  "rv_trace_overflowed t \<longleftrightarrow> total t > RV_TRACE_CAPACITY"

definition rv_trace_peek :: "rv_trace \<Rightarrow> u32 \<Rightarrow> rv_trace_event option" where
  "rv_trace_peek t i =
     (if i \<ge> rv_trace_count t then None
      else let start = (if head t \<le> RV_TRACE_CAPACITY then 0 else head t)
           in Some (events t (trace_slot (start + i))))"

definition rv_trace_clear :: "rv_trace \<Rightarrow> rv_trace" where
  "rv_trace_clear t = t\<lparr>head := 0, total := 0\<rparr>"

subsection \<open>The ring refines a log\<close>

text \<open>
  The contract of a bounded log: \<open>repr t es\<close> says that \<open>t\<close> represents the log \<open>es\<close>,
  adding a record appends the entry \<open>mk\<close> makes of it, and \<open>get\<close> reads the newest \<open>cap\<close>
  entries, oldest first. The contract holds below \<open>limit\<close> entries.
\<close>

locale bounded_log =
  fixes start :: 't
    and add :: "'t \<Rightarrow> 'a \<Rightarrow> 't"
    and mk :: "'a \<Rightarrow> 'e"
    and clear :: "'t \<Rightarrow> 't"
    and len :: "'t \<Rightarrow> nat"
    and get :: "'t \<Rightarrow> nat \<Rightarrow> 'e option"
    and cap :: nat
    and limit :: nat
    and repr :: "'t \<Rightarrow> 'e list \<Rightarrow> bool"
  assumes repr_start: "repr start []"
    and repr_clear: "repr (clear t) []"
    and repr_add: "repr t es \<Longrightarrow> Suc (length es) < limit \<Longrightarrow> repr (add t a) (es @ [mk a])"
    and len_repr: "repr t es \<Longrightarrow> length es < limit \<Longrightarrow> len t = min cap (length es)"
    and get_repr: "repr t es \<Longrightarrow> length es < limit \<Longrightarrow> i < min cap (length es) \<Longrightarrow>
      get t i = Some (es ! (length es - min cap (length es) + i))"
begin

definition recent :: "'e list \<Rightarrow> 'e list" where
  "recent es = drop (length es - min cap (length es)) es"

definition add_all :: "'a list \<Rightarrow> 't \<Rightarrow> 't" where
  "add_all xs t = fold (\<lambda>a t. add t a) xs t"

lemma add_all_repr: "repr t es \<Longrightarrow> length es + length xs < limit \<Longrightarrow>
    repr (add_all xs t) (es @ map mk xs)"
proof (induction xs arbitrary: t es)
  case Nil
  then show ?case by (simp add: add_all_def)
next
  case (Cons x xs)
  have "repr (add t x) (es @ [mk x])"
    using Cons.prems by (intro repr_add) auto
  then have "repr (add_all xs (add t x)) ((es @ [mk x]) @ map mk xs)"
    using Cons.prems by (intro Cons.IH) auto
  then show ?case by (simp add: add_all_def)
qed

lemma read_back:
  assumes "repr t es" and "length es < limit"
  shows "map (get t) [0..<len t] = map Some (recent es)"
proof (rule nth_equalityI)
  show "length (map (get t) [0..<len t]) = length (map Some (recent es))"
    using assms by (simp add: len_repr recent_def)
next
  fix i assume "i < length (map (get t) [0..<len t])"
  then have i: "i < min cap (length es)"
    using assms by (simp add: len_repr)
  have "get t i = Some (es ! (length es - min cap (length es) + i))"
    using assms i by (intro get_repr)
  then show "map (get t) [0..<len t] ! i = map Some (recent es) ! i"
    using i assms by (simp add: recent_def len_repr)
qed

lemma log_read_back:
  assumes "length xs < limit"
  shows "map (get (add_all xs (clear t))) [0..<len (add_all xs (clear t))]
    = map (\<lambda>a. Some (mk a)) (drop (length xs - min cap (length xs)) xs)"
  using add_all_repr [OF repr_clear, of xs t] assms
  by (subst read_back [of _ "map mk xs"]) (simp_all add: recent_def drop_map comp_def)

end

text \<open>One record as the callers of \<^term>\<open>rv_trace_push\<close> pass it, and the event it becomes.\<close>

type_synonym trace_args = "rv_trace_type \<times> u32 \<times> u32 \<times> u32 \<times> string option"

fun push_args :: "rv_trace \<Rightarrow> trace_args \<Rightarrow> rv_trace" where
  "push_args t (ty, pc, insn, addr, note) = rv_trace_push t ty pc insn addr note"

fun event_of :: "trace_args \<Rightarrow> rv_trace_event" where
  "event_of (ty, pc, insn, addr, note) =
     \<lparr>ev_pc = pc, ev_addr = addr, ev_insn = insn, ev_type = ty, ev_note = clip_note note\<rparr>"

definition push_all :: "trace_args list \<Rightarrow> rv_trace \<Rightarrow> rv_trace" where
  "push_all xs t = fold (\<lambda>a t. push_args t a) xs t"

text \<open>
  A ring represents the log \<open>es\<close> when both counters hold its length and every entry among
  the last 64 stands in the slot of its position.
\<close>

definition ring_repr :: "rv_trace \<Rightarrow> rv_trace_event list \<Rightarrow> bool" where
  "ring_repr t es \<longleftrightarrow> head t = of_nat (length es) \<and> total t = of_nat (length es) \<and>
     (\<forall>k < length es. length es \<le> k + 64 \<longrightarrow> events t (of_nat k) = es ! k)"

lemma trace_slot_of_nat: "trace_slot (of_nat k) = of_nat k"
proof -
  have "(of_nat k :: u32) AND 63 = take_bit 6 (of_nat k)"
    by (simp add: take_bit_eq_mask mask_numeral)
  then show ?thesis
    by (simp add: trace_slot_def RV_TRACE_CAPACITY_def)
      (simp add: unsigned_of_nat ucast_eq flip: of_nat_take_bit,
        transfer, simp add: min_def flip: take_bit_of_nat)
qed

lemma of_nat_6_eq_iff: "(of_nat a :: 6 word) = of_nat b \<longleftrightarrow> a mod 64 = b mod 64"
  by (simp add: word_of_nat_eq_iff take_bit_eq_mod)

lemma slot_distinct:
  assumes "k < n" and "n < k + 64"
  shows "(of_nat k :: 6 word) \<noteq> of_nat n"
proof -
  have "\<not> 64 dvd n - k" using assms by (auto dest: dvd_imp_le)
  then show ?thesis using assms by (auto simp: of_nat_6_eq_iff dest: mod_eq_dvd_iff_nat [THEN iffD1, rotated, OF sym])
qed

lemma of_nat_u32_less: "n < 2 ^ 32 \<Longrightarrow> (of_nat n :: u32) < RV_TRACE_CAPACITY \<longleftrightarrow> n < 64"
  by (simp add: RV_TRACE_CAPACITY_def word_less_nat_alt unat_of_nat)

lemma of_nat_u32_le: "n < 2 ^ 32 \<Longrightarrow> (of_nat n :: u32) \<le> RV_TRACE_CAPACITY \<longleftrightarrow> n \<le> 64"
  by (simp add: RV_TRACE_CAPACITY_def word_le_nat_alt unat_of_nat)

lemma ring_repr_push:
  assumes "ring_repr t es"
  shows "ring_repr (push_args t a) (es @ [event_of a])"
proof -
  obtain ty p ins addr nt where a: "a = (ty, p, ins, addr, nt)" by (cases a)
  have "events (push_args t a) (of_nat k) = (es @ [event_of a]) ! k"
    if k: "k < Suc (length es)" "Suc (length es) \<le> k + 64" for k
  proof (cases "k = length es")
    case True
    then show ?thesis
      using assms by (simp add: a rv_trace_push_def Let_def ring_repr_def trace_slot_of_nat)
  next
    case False
    with k have "k < length es" "length es < k + 64" by auto
    then show ?thesis
      using assms slot_distinct [of k "length es"]
      by (simp add: a rv_trace_push_def Let_def ring_repr_def trace_slot_of_nat nth_append)
  qed
  then show ?thesis
    using assms by (auto simp: ring_repr_def a rv_trace_push_def Let_def)
qed

lemma ring_count:
  assumes "ring_repr t es" and "length es < 2 ^ 32"
  shows "unat (rv_trace_count t) = min 64 (length es)"
  using assms of_nat_u32_less [of "length es"]
  by (auto simp: ring_repr_def rv_trace_count_def RV_TRACE_CAPACITY_def unat_of_nat min_def)

lemma ring_peek:
  assumes r: "ring_repr t es" and n: "length es < 2 ^ 32" and i: "i < min 64 (length es)"
  shows "rv_trace_peek t (of_nat i) = Some (es ! (length es - min 64 (length es) + i))"
proof -
  let ?n = "length es"
  have "(of_nat i :: u32) < rv_trace_count t"
    using ring_count [OF r n] i by (simp add: word_less_nat_alt unat_of_nat)
  moreover have "trace_slot ((if head t \<le> RV_TRACE_CAPACITY then 0 else head t) + of_nat i)
      = of_nat (?n - min 64 ?n + i)"
  proof (cases "?n \<le> 64")
    case True
    then show ?thesis
      using r n of_nat_u32_le [of ?n] by (simp add: ring_repr_def trace_slot_of_nat min_def)
  next
    case False
    then have "?n - 64 + i + 64 = ?n + i" by simp
    then have "(?n + i) mod 64 = (?n - 64 + i) mod 64" by (metis mod_add_self2)
    then have "trace_slot (of_nat ?n + of_nat i) = of_nat (?n - 64 + i)"
      using trace_slot_of_nat [of "?n + i"] of_nat_6_eq_iff [of "?n + i" "?n - 64 + i"] by simp
    then show ?thesis
      using False r n of_nat_u32_le [of ?n] by (simp add: ring_repr_def min_def)
  qed
  moreover have "events t (of_nat k) = es ! k" if "k = ?n - min 64 ?n + i" for k
  proof -
    have "k < ?n" "?n \<le> k + 64" using that i by (auto simp: min_def split: if_splits)
    then show ?thesis using r by (simp add: ring_repr_def)
  qed
  ultimately show ?thesis
    by (simp only: rv_trace_peek_def Let_def not_le [symmetric] simp_thms if_False)
qed

lemma ring_repr_init: "ring_repr rv_trace_init []" "ring_repr (rv_trace_clear t) []"
  by (simp_all add: ring_repr_def rv_trace_init_def rv_trace_clear_def)

interpretation ring: bounded_log rv_trace_init push_args event_of rv_trace_clear
  "\<lambda>t. unat (rv_trace_count t)" "\<lambda>t i. rv_trace_peek t (of_nat i)" 64 "2 ^ 32" ring_repr
  rewrites "bounded_log.add_all push_args = push_all"
proof -
  show "bounded_log rv_trace_init push_args event_of rv_trace_clear
    (\<lambda>t. unat (rv_trace_count t)) (\<lambda>t i. rv_trace_peek t (of_nat i)) 64 (2 ^ 32) ring_repr"
    using ring_repr_push ring_count ring_peek
    by unfold_locales (auto simp: ring_repr_init)
  then show "bounded_log.add_all push_args = push_all"
    by (intro ext) (simp add: bounded_log.add_all_def push_all_def)
qed

subsection \<open>The ring as a bounded log\<close>

text \<open>
  C36. The trace ring is a log of the last 64 events: after a clear and any sequence of fewer than \<open>2 ^ 32\<close>
  pushes, reading the entries 0, 1, ... up to the count gives the last 64 events (or all of them),
  oldest first, with notes cut to 47 characters.
\<close>

theorem trace_keeps_last:
  assumes "length xs < 2 ^ 32"
  shows "map (\<lambda>i. rv_trace_peek (push_all xs (rv_trace_clear t)) (of_nat i))
      [0..<unat (rv_trace_count (push_all xs (rv_trace_clear t)))]
    = map (\<lambda>a. Some (event_of a)) (drop (length xs - 64) xs)"
proof -
  have "length xs - min 64 (length xs) = length xs - 64" by simp
  then show ?thesis using ring.log_read_back [OF assms, of t] by simp
qed

theorem trace_keeps_last_witness:
  "map (\<lambda>i. rv_trace_peek (push_all [(RV_TR_ECALL, 4, 0x73, 93, None), (RV_TR_TRAP, 8, 0, 0, Some ''x'')]
      (rv_trace_clear rv_trace_init)) (of_nat i))
    [0..<unat (rv_trace_count (push_all [(RV_TR_ECALL, 4, 0x73, 93, None),
      (RV_TR_TRAP, 8, 0, 0, Some ''x'')] (rv_trace_clear rv_trace_init)))]
   = [Some (event_of (RV_TR_ECALL, 4, 0x73, 93, None)), Some (event_of (RV_TR_TRAP, 8, 0, 0, Some ''x''))]"
  using trace_keeps_last [of "[(RV_TR_ECALL, 4, 0x73, 93, None), (RV_TR_TRAP, 8, 0, 0, Some ''x'')]" rv_trace_init]
  by simp

text \<open>
  The counter behind the count is 32 bits wide: when the \<open>2 ^ 32\<close>-th event is pushed it wraps and
  the ring reports itself empty although all its slots are filled.
\<close>

lemma trace_count_wraps:
  "rv_trace_count (push_args (t\<lparr>head := 0xffffffff\<rparr>) a) = 0"
  by (cases a) (simp add: rv_trace_push_def rv_trace_count_def Let_def RV_TRACE_CAPACITY_def)

end
