(* ===== verification/Rv_State.thy ===== *)
theory Rv_State
  imports Rv_Trace
begin

text \<open>
  The processor state of \<^verbatim>\<open>src/rv32-emulator/demo/rv32.h\<close> (\<open>struct rv_cpu\<close>), the host callbacks it
  is embedded through, and the parts of \<^verbatim>\<open>rv32.c\<close> that move it between instructions: trap entry
  (\<open>rv_trap\<close>), the interrupt lines (\<open>rv_set_irq\<close>, \<open>rv_irq_pending\<close>), reset and the
  register accessors.
\<close>

subsection \<open>State\<close>

text \<open>
  The register files are functions of a 5-bit index: the C arrays have 32 entries and every
  index the code uses is masked to five bits. The \<open>int\<close> fields that the code only tests
  for zero are \<^typ>\<open>bool\<close>. \<open>bus_ctx\<close> is what the two context pointers (\<open>bus_ctx\<close> and
  \<open>ecall_ctx\<close>) lead to: the state \<open>'w\<close> of the embedding host.
\<close>

type_synonym regfile = "5 word \<Rightarrow> u32"

record 'w rv_cpu =
  regs :: regfile
  pc :: u32
  fregs :: regfile
  fcsr :: u32
  mstatus :: u32
  mtvec :: u32
  mepc :: u32
  mcause :: u32
  mtval :: u32
  mscratch :: u32
  mie :: u32
  mip :: u32
  mcycle :: u64
  minstret :: u64
  halted :: bool
  in_trap :: bool
  trap_misaligned :: bool
  waiting :: bool
  zcmp :: bool
  atomics :: bool
  res_addr :: u32
  res_valid :: bool
  bitmanip :: bool
  zcb :: bool
  cycles :: u64
  trace :: rv_trace
  bus_ctx :: 'w

text \<open>
  The callbacks. A read may change the host's state (a device register), so it returns the
  new state beside the value. The access check is a question about an access: it answers
  whether to refuse it (nonzero in C) and leaves the host's state alone. The environment
  call may change the whole processor; its flag is true when the C callback returns 0,
  meaning the call was handled. \<open>NULL\<close> is \<^const>\<open>None\<close>.
\<close>

record 'w rv_host =
  read8 :: "'w \<Rightarrow> u32 \<Rightarrow> u32 \<times> 'w"
  read16 :: "'w \<Rightarrow> u32 \<Rightarrow> u32 \<times> 'w"
  read32 :: "'w \<Rightarrow> u32 \<Rightarrow> u32 \<times> 'w"
  write8 :: "'w \<Rightarrow> u32 \<Rightarrow> u32 \<Rightarrow> 'w"
  write16 :: "'w \<Rightarrow> u32 \<Rightarrow> u32 \<Rightarrow> 'w"
  write32 :: "'w \<Rightarrow> u32 \<Rightarrow> u32 \<Rightarrow> 'w"
  probe :: "('w \<Rightarrow> u32 \<Rightarrow> u32 \<Rightarrow> bool \<Rightarrow> bool) option"
  ecall :: "('w rv_cpu \<Rightarrow> 'w rv_cpu \<times> bool) option"

subsection \<open>Constants of the machine-mode interface\<close>

definition RV_MSTATUS_MIE :: u32 where "RV_MSTATUS_MIE = 0x8"
definition RV_MSTATUS_MPIE :: u32 where "RV_MSTATUS_MPIE = 0x80"
definition RV_MSTATUS_MPP :: u32 where "RV_MSTATUS_MPP = 0x1800"
definition RV_MSTATUS_FS :: u32 where "RV_MSTATUS_FS = 0x6000"

lemmas mstatus_bits = RV_MSTATUS_MIE_def RV_MSTATUS_MPIE_def RV_MSTATUS_MPP_def RV_MSTATUS_FS_def

definition RV_CAUSE_INSN_MISALIGNED :: u32 where "RV_CAUSE_INSN_MISALIGNED = 0"
definition RV_CAUSE_INSN_ACCESS_FAULT :: u32 where "RV_CAUSE_INSN_ACCESS_FAULT = 1"
definition RV_CAUSE_ILLEGAL_INSN :: u32 where "RV_CAUSE_ILLEGAL_INSN = 2"
definition RV_CAUSE_BREAKPOINT :: u32 where "RV_CAUSE_BREAKPOINT = 3"
definition RV_CAUSE_LOAD_MISALIGNED :: u32 where "RV_CAUSE_LOAD_MISALIGNED = 4"
definition RV_CAUSE_LOAD_ACCESS_FAULT :: u32 where "RV_CAUSE_LOAD_ACCESS_FAULT = 5"
definition RV_CAUSE_STORE_MISALIGNED :: u32 where "RV_CAUSE_STORE_MISALIGNED = 6"
definition RV_CAUSE_STORE_ACCESS_FAULT :: u32 where "RV_CAUSE_STORE_ACCESS_FAULT = 7"
definition RV_CAUSE_ECALL_M :: u32 where "RV_CAUSE_ECALL_M = 11"
definition RV_CAUSE_INTERRUPT :: u32 where "RV_CAUSE_INTERRUPT = 0x80000000"

lemmas cause_codes = RV_CAUSE_INSN_MISALIGNED_def RV_CAUSE_INSN_ACCESS_FAULT_def
  RV_CAUSE_ILLEGAL_INSN_def RV_CAUSE_BREAKPOINT_def RV_CAUSE_LOAD_MISALIGNED_def
  RV_CAUSE_LOAD_ACCESS_FAULT_def RV_CAUSE_STORE_MISALIGNED_def
  RV_CAUSE_STORE_ACCESS_FAULT_def RV_CAUSE_ECALL_M_def RV_CAUSE_INTERRUPT_def

definition RV_IRQ_SOFT :: u32 where "RV_IRQ_SOFT = 3"
definition RV_IRQ_TIMER :: u32 where "RV_IRQ_TIMER = 7"
definition RV_IRQ_EXT :: u32 where "RV_IRQ_EXT = 11"

definition RV_MIP_MSIP :: u32 where "RV_MIP_MSIP = shl 1 RV_IRQ_SOFT"
definition RV_MIP_MTIP :: u32 where "RV_MIP_MTIP = shl 1 RV_IRQ_TIMER"
definition RV_MIP_MEIP :: u32 where "RV_MIP_MEIP = shl 1 RV_IRQ_EXT"

lemma mip_bits [simp]: "RV_MIP_MSIP = 0x8" "RV_MIP_MTIP = 0x80" "RV_MIP_MEIP = 0x800"
  by (simp_all add: RV_MIP_MSIP_def RV_MIP_MTIP_def RV_MIP_MEIP_def shl_def RV_IRQ_SOFT_def
      RV_IRQ_TIMER_def RV_IRQ_EXT_def)

subsection \<open>Registers and the trace\<close>

text \<open>
  \<open>cpu->x[r]\<close> and \<open>cpu->x[r] = v\<close>, for a register number held in a 32-bit word below 32.
\<close>

definition getx :: "'w rv_cpu \<Rightarrow> u32 \<Rightarrow> u32" where
  "getx s r = regs s (ucast r)"

definition setx :: "u32 \<Rightarrow> u32 \<Rightarrow> 'w rv_cpu \<Rightarrow> 'w rv_cpu" where
  "setx r v s = s\<lparr>regs := (regs s)(ucast r := v)\<rparr>"

definition getf :: "'w rv_cpu \<Rightarrow> u32 \<Rightarrow> u32" where
  "getf s r = fregs s (ucast r)"

definition setf :: "u32 \<Rightarrow> u32 \<Rightarrow> 'w rv_cpu \<Rightarrow> 'w rv_cpu" where
  "setf r v s = s\<lparr>fregs := (fregs s)(ucast r := v)\<rparr>"

definition tr_push ::
    "rv_trace_type \<Rightarrow> u32 \<Rightarrow> u32 \<Rightarrow> u32 \<Rightarrow> string option \<Rightarrow> 'w rv_cpu \<Rightarrow> 'w rv_cpu" where
  "tr_push ty p insn addr nt s = s\<lparr>trace := rv_trace_push (trace s) ty p insn addr nt\<rparr>"

subsection \<open>Trap entry\<close>

definition rv_trap :: "u32 \<Rightarrow> u32 \<Rightarrow> 'w rv_cpu \<Rightarrow> 'w rv_cpu" where
  "rv_trap cause tval s =
     (let is_irq = (cause AND RV_CAUSE_INTERRUPT \<noteq> 0) in
      if in_trap s
      then (tr_push RV_TR_DOUBLE_FAULT (pc s) 0 tval (Some ''double fault'') s)\<lparr>halted := True\<rparr>
      else
        let s = s\<lparr>mepc := pc s, mcause := cause, mtval := tval, res_valid := False\<rparr>;
            s = s\<lparr>mstatus := mstatus s AND NOT RV_MSTATUS_MPIE\<rparr>;
            s = (if mstatus s AND RV_MSTATUS_MIE \<noteq> 0
                 then s\<lparr>mstatus := mstatus s OR RV_MSTATUS_MPIE\<rparr> else s);
            s = s\<lparr>mstatus := mstatus s AND NOT RV_MSTATUS_MIE\<rparr>;
            s = s\<lparr>mstatus := mstatus s OR RV_MSTATUS_MPP, waiting := False\<rparr>;
            base = mtvec s AND NOT 3;
            base = (if mtvec s AND 3 = 1 \<and> is_irq
                    then base + (cause AND NOT RV_CAUSE_INTERRUPT) * 4 else base);
            s = s\<lparr>pc := base, in_trap := True\<rparr>
        in tr_push (if is_irq then RV_TR_INTERRUPT else RV_TR_TRAP) (mepc s) 0 tval None s)"

subsection \<open>Interrupts\<close>

definition rv_set_irq :: "u32 \<Rightarrow> bool \<Rightarrow> 'w rv_cpu \<Rightarrow> 'w rv_cpu" where
  "rv_set_irq cause level s =
     (let bit = shl 1 (cause AND 31) in
      if level then s\<lparr>mip := mip s OR bit\<rparr> else s\<lparr>mip := mip s AND NOT bit\<rparr>)"

definition rv_irq_pending :: "'w rv_cpu \<Rightarrow> u32" where
  "rv_irq_pending s =
     (let ready = mip s AND mie s in
      if mstatus s AND RV_MSTATUS_MIE = 0 then 0
      else if ready AND RV_MIP_MEIP \<noteq> 0 then RV_CAUSE_INTERRUPT OR RV_IRQ_EXT
      else if ready AND RV_MIP_MSIP \<noteq> 0 then RV_CAUSE_INTERRUPT OR RV_IRQ_SOFT
      else if ready AND RV_MIP_MTIP \<noteq> 0 then RV_CAUSE_INTERRUPT OR RV_IRQ_TIMER
      else 0)"

subsection \<open>Construction, reset and the accessors of the public interface\<close>

text \<open>
  \<open>rv_init\<close> zeroes the structure, stores the callbacks and turns the extensions on. The
  callbacks live in the host record, so the function returns both.
\<close>

definition rv_init ::
    "('w \<Rightarrow> u32 \<Rightarrow> u32 \<times> 'w) \<Rightarrow> ('w \<Rightarrow> u32 \<Rightarrow> u32 \<times> 'w) \<Rightarrow> ('w \<Rightarrow> u32 \<Rightarrow> u32 \<times> 'w) \<Rightarrow>
     ('w \<Rightarrow> u32 \<Rightarrow> u32 \<Rightarrow> 'w) \<Rightarrow> ('w \<Rightarrow> u32 \<Rightarrow> u32 \<Rightarrow> 'w) \<Rightarrow> ('w \<Rightarrow> u32 \<Rightarrow> u32 \<Rightarrow> 'w) \<Rightarrow> 'w \<Rightarrow>
     'w rv_host \<times> 'w rv_cpu" where
  "rv_init r8 r16 r32 w8 w16 w32 ctx =
     (\<lparr>read8 = r8, read16 = r16, read32 = r32, write8 = w8, write16 = w16, write32 = w32,
       probe = None, ecall = None\<rparr>,
      \<lparr>regs = (\<lambda>_. 0), pc = 0, fregs = (\<lambda>_. 0), fcsr = 0, mstatus = 0, mtvec = 0, mepc = 0,
       mcause = 0, mtval = 0, mscratch = 0, mie = 0, mip = 0, mcycle = 0, minstret = 0,
       halted = False, in_trap = False, trap_misaligned = False, waiting = False,
       zcmp = True, atomics = True, res_addr = 0, res_valid = False, bitmanip = True,
       zcb = True, cycles = 0, trace = rv_trace_init, bus_ctx = ctx\<rparr>)"

definition rv_reset :: "u32 \<Rightarrow> 'w rv_cpu \<Rightarrow> 'w rv_cpu" where
  "rv_reset entry s =
     s\<lparr>regs := (\<lambda>_. 0), fregs := (\<lambda>_. 0), pc := entry, fcsr := 0,
       mstatus := RV_MSTATUS_MPP OR RV_MSTATUS_FS, mtvec := 0, mepc := 0, mcause := 0,
       mtval := 0, mscratch := 0, mie := 0, mip := 0, mcycle := 0, minstret := 0,
       halted := False, in_trap := False, waiting := False, cycles := 0,
       res_valid := False, res_addr := 0, trace := rv_trace_clear (trace s)\<rparr>"

definition rv_set_ecall ::
    "('w rv_cpu \<Rightarrow> 'w rv_cpu \<times> bool) option \<Rightarrow> 'w rv_host \<Rightarrow> 'w rv_host" where
  "rv_set_ecall fn h = h\<lparr>ecall := fn\<rparr>"

definition rv_set_probe ::
    "('w \<Rightarrow> u32 \<Rightarrow> u32 \<Rightarrow> bool \<Rightarrow> bool) option \<Rightarrow> 'w rv_host \<Rightarrow> 'w rv_host" where
  "rv_set_probe fn h = h\<lparr>probe := fn\<rparr>"

definition rv_halt :: "'w rv_cpu \<Rightarrow> 'w rv_cpu" where
  "rv_halt s = s\<lparr>halted := True\<rparr>"

definition rv_get_x :: "'w rv_cpu \<Rightarrow> u32 \<Rightarrow> u32" where
  "rv_get_x s n = (if n = 0 then 0 else getx s (n AND 31))"

definition rv_set_x :: "u32 \<Rightarrow> u32 \<Rightarrow> 'w rv_cpu \<Rightarrow> 'w rv_cpu" where
  "rv_set_x n val s = (if n \<noteq> 0 then setx (n AND 31) val s else s)"

definition rv_get_pc :: "'w rv_cpu \<Rightarrow> u32" where
  "rv_get_pc s = pc s"

definition rv_set_pc :: "u32 \<Rightarrow> 'w rv_cpu \<Rightarrow> 'w rv_cpu" where
  "rv_set_pc val s = s\<lparr>pc := val\<rparr>"

definition rv_get_f :: "'w rv_cpu \<Rightarrow> u32 \<Rightarrow> u32" where
  "rv_get_f s n = getf s (n AND 31)"

definition rv_set_f :: "u32 \<Rightarrow> u32 \<Rightarrow> 'w rv_cpu \<Rightarrow> 'w rv_cpu" where
  "rv_set_f n bits s = setf (n AND 31) bits s"

text \<open>A processor as \<open>rv_init\<close> leaves it, over a host state \<open>w\<close>.\<close>

definition cpu0 :: "'w \<Rightarrow> 'w rv_cpu" where
  "cpu0 w = snd (rv_init (\<lambda>w a. (0, w)) (\<lambda>w a. (0, w)) (\<lambda>w a. (0, w))
     (\<lambda>w a v. w) (\<lambda>w a v. w) (\<lambda>w a v. w) w)"

lemma cpu0_fields [simp]:
  "regs (cpu0 w) = (\<lambda>_. 0)" "pc (cpu0 w) = 0" "fregs (cpu0 w) = (\<lambda>_. 0)" "fcsr (cpu0 w) = 0"
  "mstatus (cpu0 w) = 0" "mtvec (cpu0 w) = 0" "mepc (cpu0 w) = 0" "mcause (cpu0 w) = 0"
  "mie (cpu0 w) = 0" "mip (cpu0 w) = 0" "\<not> halted (cpu0 w)" "\<not> in_trap (cpu0 w)"
  "\<not> trap_misaligned (cpu0 w)" "zcmp (cpu0 w)" "atomics (cpu0 w)" "\<not> res_valid (cpu0 w)"
  "bitmanip (cpu0 w)" "zcb (cpu0 w)" "minstret (cpu0 w) = 0" "bus_ctx (cpu0 w) = w"
  by (simp_all add: cpu0_def rv_init_def)

subsection \<open>What the primitives leave alone\<close>

lemma tr_push_frame [simp, frame]:
  "regs (tr_push ty p i a nt s) = regs s" "pc (tr_push ty p i a nt s) = pc s"
  "fregs (tr_push ty p i a nt s) = fregs s" "fcsr (tr_push ty p i a nt s) = fcsr s"
  "mstatus (tr_push ty p i a nt s) = mstatus s" "mtvec (tr_push ty p i a nt s) = mtvec s"
  "mepc (tr_push ty p i a nt s) = mepc s" "mcause (tr_push ty p i a nt s) = mcause s"
  "mtval (tr_push ty p i a nt s) = mtval s" "mscratch (tr_push ty p i a nt s) = mscratch s"
  "mie (tr_push ty p i a nt s) = mie s" "mip (tr_push ty p i a nt s) = mip s"
  "mcycle (tr_push ty p i a nt s) = mcycle s" "minstret (tr_push ty p i a nt s) = minstret s"
  "halted (tr_push ty p i a nt s) = halted s" "in_trap (tr_push ty p i a nt s) = in_trap s"
  "trap_misaligned (tr_push ty p i a nt s) = trap_misaligned s"
  "waiting (tr_push ty p i a nt s) = waiting s" "zcmp (tr_push ty p i a nt s) = zcmp s"
  "atomics (tr_push ty p i a nt s) = atomics s" "res_addr (tr_push ty p i a nt s) = res_addr s"
  "res_valid (tr_push ty p i a nt s) = res_valid s" "bitmanip (tr_push ty p i a nt s) = bitmanip s"
  "zcb (tr_push ty p i a nt s) = zcb s" "cycles (tr_push ty p i a nt s) = cycles s"
  "bus_ctx (tr_push ty p i a nt s) = bus_ctx s"
  by (simp_all add: tr_push_def)

lemma rv_trap_frame [simp, frame]:
  "regs (rv_trap c t s) = regs s" "fregs (rv_trap c t s) = fregs s"
  "fcsr (rv_trap c t s) = fcsr s" "mtvec (rv_trap c t s) = mtvec s"
  "mscratch (rv_trap c t s) = mscratch s" "mie (rv_trap c t s) = mie s"
  "mip (rv_trap c t s) = mip s" "mcycle (rv_trap c t s) = mcycle s"
  "minstret (rv_trap c t s) = minstret s"
  "trap_misaligned (rv_trap c t s) = trap_misaligned s" "zcmp (rv_trap c t s) = zcmp s"
  "atomics (rv_trap c t s) = atomics s" "res_addr (rv_trap c t s) = res_addr s"
  "bitmanip (rv_trap c t s) = bitmanip s" "zcb (rv_trap c t s) = zcb s"
  "cycles (rv_trap c t s) = cycles s" "bus_ctx (rv_trap c t s) = bus_ctx s"
  by (simp_all add: rv_trap_def Let_def)

lemma rv_trap_in_trap [simp]: "in_trap (rv_trap c t s)"
  by (simp add: rv_trap_def Let_def)

lemma setx_frame [simp, frame]:
  "pc (setx r v s) = pc s" "fregs (setx r v s) = fregs s" "fcsr (setx r v s) = fcsr s"
  "mstatus (setx r v s) = mstatus s" "mtvec (setx r v s) = mtvec s" "mepc (setx r v s) = mepc s"
  "mcause (setx r v s) = mcause s" "mtval (setx r v s) = mtval s"
  "mscratch (setx r v s) = mscratch s" "mie (setx r v s) = mie s" "mip (setx r v s) = mip s"
  "mcycle (setx r v s) = mcycle s" "minstret (setx r v s) = minstret s"
  "halted (setx r v s) = halted s" "in_trap (setx r v s) = in_trap s"
  "trap_misaligned (setx r v s) = trap_misaligned s" "waiting (setx r v s) = waiting s"
  "zcmp (setx r v s) = zcmp s" "atomics (setx r v s) = atomics s"
  "res_addr (setx r v s) = res_addr s" "res_valid (setx r v s) = res_valid s"
  "bitmanip (setx r v s) = bitmanip s" "zcb (setx r v s) = zcb s" "cycles (setx r v s) = cycles s"
  "trace (setx r v s) = trace s" "bus_ctx (setx r v s) = bus_ctx s"
  by (simp_all add: setx_def)

lemma setf_frame [simp, frame]:
  "regs (setf r v s) = regs s" "pc (setf r v s) = pc s" "fcsr (setf r v s) = fcsr s"
  "mstatus (setf r v s) = mstatus s" "mtvec (setf r v s) = mtvec s" "mepc (setf r v s) = mepc s"
  "halted (setf r v s) = halted s" "in_trap (setf r v s) = in_trap s"
  "trap_misaligned (setf r v s) = trap_misaligned s" "waiting (setf r v s) = waiting s"
  "zcmp (setf r v s) = zcmp s" "atomics (setf r v s) = atomics s"
  "res_addr (setf r v s) = res_addr s" "res_valid (setf r v s) = res_valid s"
  "bitmanip (setf r v s) = bitmanip s" "zcb (setf r v s) = zcb s" "cycles (setf r v s) = cycles s"
  "mcycle (setf r v s) = mcycle s" "minstret (setf r v s) = minstret s"
  "trace (setf r v s) = trace s" "bus_ctx (setf r v s) = bus_ctx s"
  by (simp_all add: setf_def)

text \<open>
  \<open>rv_set_x\<close> tests the register number before it reduces it to five bits, so a number that is a
  nonzero multiple of 32 gets past the test and writes x0.
\<close>

lemma set_x_32_writes_x0: "regs (rv_set_x 32 v s) 0 = v"
  by (simp add: rv_set_x_def setx_def)

end
