(* ===== verification/Rv_Bus.thy ===== *)
theory Rv_Bus
  imports Rv_State
begin

text \<open>
  The memory bus of \<^verbatim>\<open>src/rv32-emulator/demo/rv32.c\<close>: \<open>mem_read\<close> and \<open>mem_write\<close> with their
  alignment check, access check, aligned fast path and byte-by-byte slow path. The locale
  \<open>bus_memory\<close> states what a host that backs the bus with byte memory promises, and proves
  once that a store is read back, at every size and alignment, and touches no other byte.
\<close>

subsection \<open>Definitions\<close>

definition misaligned :: "u32 \<Rightarrow> u32 \<Rightarrow> bool" where
  "misaligned addr sz \<longleftrightarrow> addr AND (sz - 1) \<noteq> 0"

definition refused :: "'w rv_host \<Rightarrow> 'w \<Rightarrow> u32 \<Rightarrow> u32 \<Rightarrow> bool \<Rightarrow> bool" where
  "refused h w addr sz is_write =
     (case probe h of None \<Rightarrow> False | Some p \<Rightarrow> p w addr sz is_write)"

text \<open>The loops of the misaligned paths: \<open>n\<close> bytes are left, the next one is byte \<open>i\<close>.\<close>

fun read_bytes :: "'w rv_host \<Rightarrow> u32 \<Rightarrow> nat \<Rightarrow> nat \<Rightarrow> u32 \<Rightarrow> 'w \<Rightarrow> u32 \<times> 'w" where
  "read_bytes h addr i 0 v w = (v, w)"
| "read_bytes h addr i (Suc n) v w =
     (let (b, w') = read8 h w (addr + of_nat i)
      in read_bytes h addr (Suc i) n (v OR push_bit (8 * i) (b AND 0xff)) w')"

fun write_bytes :: "'w rv_host \<Rightarrow> u32 \<Rightarrow> nat \<Rightarrow> nat \<Rightarrow> u32 \<Rightarrow> 'w \<Rightarrow> 'w" where
  "write_bytes h addr i 0 v w = w"
| "write_bytes h addr i (Suc n) v w =
     write_bytes h addr (Suc i) n v (write8 h w (addr + of_nat i) (drop_bit (8 * i) v AND 0xff))"

text \<open>\<open>mem_read\<close> yields \<^const>\<open>None\<close> where the C function returns -1 because a trap was taken.\<close>

definition mem_read :: "'w rv_host \<Rightarrow> u32 \<Rightarrow> u32 \<Rightarrow> 'w rv_cpu \<Rightarrow> 'w rv_cpu \<times> u32 option" where
  "mem_read h addr sz s =
     (if trap_misaligned s \<and> misaligned addr sz then
        (rv_trap RV_CAUSE_LOAD_MISALIGNED addr
           (tr_push RV_TR_LOAD_MISALIGN (pc s) 0 addr None s), None)
      else if refused h (bus_ctx s) addr sz False then
        (rv_trap RV_CAUSE_LOAD_ACCESS_FAULT addr
           (tr_push RV_TR_LOAD_FAULT (pc s) 0 addr None s), None)
      else
        let (v, w) =
          (if \<not> misaligned addr sz then
             (if sz = 1 then
                let (v, w) = read8 h (bus_ctx s) addr in (v AND 0xff, w)
              else if sz = 2 then
                let (v, w) = read16 h (bus_ctx s) addr in (v AND 0xffff, w)
              else read32 h (bus_ctx s) addr)
           else read_bytes h addr 0 (unat sz) 0 (bus_ctx s))
        in (s\<lparr>bus_ctx := w\<rparr>, Some v))"

text \<open>The flag of \<open>mem_write\<close> is true when the C function returns 0.\<close>

definition mem_write :: "'w rv_host \<Rightarrow> u32 \<Rightarrow> u32 \<Rightarrow> u32 \<Rightarrow> 'w rv_cpu \<Rightarrow> 'w rv_cpu \<times> bool" where
  "mem_write h addr sz val s =
     (if trap_misaligned s \<and> misaligned addr sz then
        (rv_trap RV_CAUSE_STORE_MISALIGNED addr
           (tr_push RV_TR_STORE_MISALIGN (pc s) 0 addr None s), False)
      else if refused h (bus_ctx s) addr sz True then
        (rv_trap RV_CAUSE_STORE_ACCESS_FAULT addr
           (tr_push RV_TR_STORE_FAULT (pc s) 0 addr None s), False)
      else
        let w =
          (if \<not> misaligned addr sz then
             (if sz = 1 then write8 h (bus_ctx s) addr (val AND 0xff)
              else if sz = 2 then write16 h (bus_ctx s) addr (val AND 0xffff)
              else write32 h (bus_ctx s) addr val)
           else write_bytes h addr 0 (unat sz) val (bus_ctx s))
        in (s\<lparr>bus_ctx := w\<rparr>, True))"

subsection \<open>Little-endian byte views\<close>

text \<open>
  The specification both paths implement: the word made of \<open>n\<close> bytes from \<open>a\<close> upwards,
  addresses wrapping at \<open>2 ^ 32\<close>, and the byte view after \<open>n\<close> bytes were stored there.
\<close>

fun le_word :: "(u32 \<Rightarrow> u8) \<Rightarrow> u32 \<Rightarrow> nat \<Rightarrow> u32" where
  "le_word f a 0 = 0"
| "le_word f a (Suc n) = le_word f a n OR push_bit (8 * n) (ucast (f (a + of_nat n)))"

fun le_store :: "(u32 \<Rightarrow> u8) \<Rightarrow> u32 \<Rightarrow> nat \<Rightarrow> u32 \<Rightarrow> u32 \<Rightarrow> u8" where
  "le_store f a 0 v = f"
| "le_store f a (Suc n) v = (le_store f a n v)(a + of_nat n := ucast (drop_bit (8 * n) v))"

definition access_size :: "u32 \<Rightarrow> bool" where
  "access_size sz \<longleftrightarrow> sz = 1 \<or> sz = 2 \<or> sz = 4"

lemma bit_le_word: "bit (le_word f a n) k \<longleftrightarrow> k < 32 \<and> k < 8 * n \<and> bit (f (a + of_nat (k div 8))) (k mod 8)"
proof (induction n)
  case 0
  then show ?case by simp
next
  case (Suc n)
  have d: "k div 8 = n" if "8 * n \<le> k" "k < 8 * Suc n"
    using that by (intro div_nat_eqI) auto
  have m: "k mod 8 = k - 8 * n" if "8 * n \<le> k" "k < 8 * Suc n"
    using d [OF that] by (simp add: modulo_nat_def mult.commute)
  show ?case
  proof (cases "8 * n \<le> k \<and> k < 8 * Suc n")
    case True
    with Suc d m show ?thesis by (auto simp: bit_simps)
  next
    case False
    then have "k < 8 * n \<or> 8 * Suc n \<le> k" by auto
    with Suc show ?thesis by (auto simp: bit_simps)
  qed
qed

lemma le_store_inside:
  "i < n \<Longrightarrow> n \<le> 4 \<Longrightarrow> le_store f a n v (a + of_nat i) = ucast (drop_bit (8 * i) v)"
proof (induction n)
  case 0
  then show ?case by simp
next
  case (Suc n)
  then have "(of_nat i :: u32) = of_nat n \<longleftrightarrow> i = n"
    by (simp add: word_of_nat_eq_iff take_bit_nat_eq_self)
  with Suc show ?case by auto
qed

lemma le_store_outside: "(\<forall>i < n. x \<noteq> a + of_nat i) \<Longrightarrow> le_store f a n v x = f x"
  by (induction n) auto

lemma le_word_cong: "(\<And>i. i < n \<Longrightarrow> f (a + of_nat i) = g (a + of_nat i)) \<Longrightarrow> le_word f a n = le_word g a n"
  by (induction n) auto

lemma le_word_store: "n \<le> 4 \<Longrightarrow> le_word (le_store f a n v) a n = take_bit (8 * n) v"
proof (rule bit_word_eqI)
  fix k assume n: "n \<le> 4" and k: "k < LENGTH(32)"
  show "bit (le_word (le_store f a n v) a n) k = bit (take_bit (8 * n) v) k"
  proof (cases "k < 8 * n")
    case True
    then have "k div 8 < n" by auto
    with n have "le_store f a n v (a + of_nat (k div 8)) = ucast (drop_bit (8 * (k div 8)) v)"
      by (intro le_store_inside)
    with True k show ?thesis by (simp add: bit_le_word bit_simps)
  next
    case False
    then show ?thesis by (simp add: bit_le_word bit_simps)
  qed
qed

lemma write_bytes_snoc:
  "write_bytes h a i (Suc n) v w =
     write8 h (write_bytes h a i n v w) (a + of_nat (i + n)) (drop_bit (8 * (i + n)) v AND 0xff)"
proof (induction n arbitrary: i w)
  case 0
  then show ?case by simp
next
  case (Suc n)
  show ?case
    by (subst write_bytes.simps(2), subst Suc.IH) simp
qed

lemma le_word_2_mask: "le_word f a 2 AND 0xffff = le_word f a 2"
  unfolding and_ffff_take by (rule bit_word_eqI) (auto simp: bit_simps bit_le_word)

lemma le_store_2_mask: "le_store f a 2 (v AND 0xffff) = le_store f a 2 v"
  unfolding and_ffff_take
  by (auto simp: numeral_2_eq_2 intro!: arg_cong2 [where f = "\<lambda>x y. _(_ := x, _ := y)"] bit_word_eqI)
    (auto simp: bit_simps fun_eq_iff)

lemma le_word_bytes:
  "le_word f a 1 = ucast (f a)"
  "le_word f a 2 = ucast (f a) OR push_bit 8 (ucast (f (a + 1)))"
  "le_word f a 4 = ucast (f a) OR push_bit 8 (ucast (f (a + 1))) OR push_bit 16 (ucast (f (a + 2)))
     OR push_bit 24 (ucast (f (a + 3)))"
  by (simp_all add: eval_nat_numeral or.assoc)

lemma le_store_bytes:
  "le_store f a 1 v = f(a := ucast v)"
  "le_store f a 2 v = f(a := ucast v, a + 1 := ucast (drop_bit 8 v))"
  "le_store f a 4 v = f(a := ucast v, a + 1 := ucast (drop_bit 8 v),
     a + 2 := ucast (drop_bit 16 v), a + 3 := ucast (drop_bit 24 v))"
  by (simp_all add: eval_nat_numeral)

subsection \<open>Hosts that back the bus with byte memory\<close>

text \<open>
  What a memory host promises: \<open>good\<close> states are kept, a read of mapped bytes returns them
  little-endian and changes nothing, a write replaces exactly the bytes it covers. The
  16-bit and 32-bit callbacks are only promised for aligned addresses, the only ones the
  emulator uses them with.
\<close>

locale bus_memory =
  fixes h :: "'w rv_host"
    and good :: "'w \<Rightarrow> bool"
    and mapped :: "'w \<Rightarrow> u32 \<Rightarrow> bool"
    and view :: "'w \<Rightarrow> u32 \<Rightarrow> u8"
  assumes read8: "good w \<Longrightarrow> mapped w a \<Longrightarrow> read8 h w a = (le_word (view w) a 1, w)"
    and read16: "good w \<Longrightarrow> a AND 1 = 0 \<Longrightarrow> (\<forall>i<2. mapped w (a + of_nat i)) \<Longrightarrow>
      read16 h w a = (le_word (view w) a 2, w)"
    and read32: "good w \<Longrightarrow> a AND 3 = 0 \<Longrightarrow> (\<forall>i<4. mapped w (a + of_nat i)) \<Longrightarrow>
      read32 h w a = (le_word (view w) a 4, w)"
    and write8: "good w \<Longrightarrow> mapped w a \<Longrightarrow> view (write8 h w a v) = le_store (view w) a 1 v"
    and write16: "good w \<Longrightarrow> a AND 1 = 0 \<Longrightarrow> (\<forall>i<2. mapped w (a + of_nat i)) \<Longrightarrow>
      view (write16 h w a v) = le_store (view w) a 2 v"
    and write32: "good w \<Longrightarrow> a AND 3 = 0 \<Longrightarrow> (\<forall>i<4. mapped w (a + of_nat i)) \<Longrightarrow>
      view (write32 h w a v) = le_store (view w) a 4 v"
    and good8: "good w \<Longrightarrow> mapped w a \<Longrightarrow> good (write8 h w a v)"
    and good16: "good w \<Longrightarrow> a AND 1 = 0 \<Longrightarrow> (\<forall>i<2. mapped w (a + of_nat i)) \<Longrightarrow> good (write16 h w a v)"
    and good32: "good w \<Longrightarrow> a AND 3 = 0 \<Longrightarrow> (\<forall>i<4. mapped w (a + of_nat i)) \<Longrightarrow> good (write32 h w a v)"
    and mapped8: "good w \<Longrightarrow> mapped (write8 h w a v) = mapped w"
    and mapped16: "good w \<Longrightarrow> mapped (write16 h w a v) = mapped w"
    and mapped32: "good w \<Longrightarrow> mapped (write32 h w a v) = mapped w"
begin

text \<open>An access the bus carries out: mapped throughout, not refused, not trapped.\<close>

definition plain :: "'w rv_cpu \<Rightarrow> u32 \<Rightarrow> u32 \<Rightarrow> bool \<Rightarrow> bool" where
  "plain s addr sz wr \<longleftrightarrow> good (bus_ctx s) \<and> access_size sz \<and>
     (\<forall>i < unat sz. mapped (bus_ctx s) (addr + of_nat i)) \<and>
     \<not> (trap_misaligned s \<and> misaligned addr sz) \<and> \<not> refused h (bus_ctx s) addr sz wr"

lemma read_bytes_view:
  assumes "good w" "\<forall>j < i + n. mapped w (a + of_nat j)" "v = le_word (view w) a i"
  shows "read_bytes h a i n v w = (le_word (view w) a (i + n), w)"
  using assms
proof (induction n arbitrary: i v)
  case 0
  then show ?case by simp
next
  case (Suc n)
  have "read8 h w (a + of_nat i) = (ucast (view w (a + of_nat i)), w)"
    using Suc.prems by (subst read8) auto
  then have "read_bytes h a i (Suc n) v w =
      read_bytes h a (Suc i) n (le_word (view w) a (Suc i)) w"
    using Suc.prems(3) by (simp del: push_bit_and)
  also have "\<dots> = (le_word (view w) a (Suc i + n), w)"
    using Suc.prems by (intro Suc.IH) auto
  finally show ?case by simp
qed

lemma write_bytes_view:
  assumes "good w" "\<forall>j < n. mapped w (a + of_nat j)"
  shows "view (write_bytes h a 0 n v w) = le_store (view w) a n v
    \<and> good (write_bytes h a 0 n v w) \<and> mapped (write_bytes h a 0 n v w) = mapped w"
  using assms
proof (induction n)
  case 0
  then show ?case by simp
next
  case (Suc n)
  let ?w = "write_bytes h a 0 n v w"
  have IH: "view ?w = le_store (view w) a n v" "good ?w" "mapped ?w = mapped w"
    using Suc by auto
  have "mapped ?w (a + of_nat n)" using Suc.prems IH by simp
  with IH show ?case
    by (simp add: write_bytes_snoc write8 good8 mapped8 del: write_bytes.simps)
qed

text \<open>Loads and stores meet the byte specification on the fast and on the slow path.\<close>

lemma mem_read_spec:
  assumes "plain s addr sz False"
  shows "mem_read h addr sz s = (s, Some (le_word (view (bus_ctx s)) addr (unat sz)))"
proof -
  have sz: "sz = 1 \<or> sz = 2 \<or> sz = 4" and g: "good (bus_ctx s)"
    and m: "\<forall>i < unat sz. mapped (bus_ctx s) (addr + of_nat i)"
    using assms by (auto simp: plain_def access_size_def)
  have slow: "read_bytes h addr 0 (unat sz) 0 (bus_ctx s)
      = (le_word (view (bus_ctx s)) addr (unat sz), bus_ctx s)"
    using read_bytes_view [of "bus_ctx s" 0 "unat sz" addr 0] g m by simp
  show ?thesis
  proof (cases "misaligned addr sz")
    case True
    then show ?thesis using assms slow by (auto simp: mem_read_def plain_def)
  next
    case False
    with sz show ?thesis
    proof (elim disjE)
      assume "sz = 1"
      then show ?thesis using assms m g False read8 [of "bus_ctx s" addr]
        by (simp add: mem_read_def plain_def)
    next
      assume "sz = 2"
      then show ?thesis using assms m g False read16 [of "bus_ctx s" addr]
        by (simp add: mem_read_def plain_def misaligned_def le_word_2_mask)
    next
      assume "sz = 4"
      then show ?thesis using assms m g False read32 [of "bus_ctx s" addr]
        by (simp add: mem_read_def plain_def misaligned_def)
    qed
  qed
qed

lemma mem_write_spec:
  assumes "plain s addr sz True"
  obtains w where "mem_write h addr sz v s = (s\<lparr>bus_ctx := w\<rparr>, True)" "good w"
    "mapped w = mapped (bus_ctx s)" "view w = le_store (view (bus_ctx s)) addr (unat sz) v"
proof -
  have sz: "sz = 1 \<or> sz = 2 \<or> sz = 4" and g: "good (bus_ctx s)"
    and m: "\<forall>i < unat sz. mapped (bus_ctx s) (addr + of_nat i)"
    using assms by (auto simp: plain_def access_size_def)
  show ?thesis
  proof (cases "misaligned addr sz")
    case True
    then have "mem_write h addr sz v s
        = (s\<lparr>bus_ctx := write_bytes h addr 0 (unat sz) v (bus_ctx s)\<rparr>, True)"
      using assms by (auto simp: mem_write_def plain_def)
    then show ?thesis
      using write_bytes_view [OF g m, of v]
      by (intro that [of "write_bytes h addr 0 (unat sz) v (bus_ctx s)"]) simp_all
  next
    case False
    with sz show ?thesis
    proof (elim disjE)
      assume "sz = 1"
      then show ?thesis using assms m g False
        by (intro that [of "write8 h (bus_ctx s) addr (v AND 0xff)"])
          (auto simp: mem_write_def plain_def write8 good8 mapped8)
    next
      assume "sz = 2"
      then show ?thesis using assms m g False
        by (intro that [of "write16 h (bus_ctx s) addr (v AND 0xffff)"])
          (auto simp: mem_write_def plain_def misaligned_def write16 good16 mapped16
            le_store_2_mask)
    next
      assume "sz = 4"
      then show ?thesis using assms m g False
        by (intro that [of "write32 h (bus_ctx s) addr v"])
          (auto simp: mem_write_def plain_def misaligned_def write32 good32 mapped32)
    qed
  qed
qed

text \<open>A store is read back, and no other byte changes.\<close>

lemma store_load:
  assumes "plain s addr sz True" and "plain s' addr sz False"
    and "mem_write h addr sz v s = (s', ok)"
  shows "mem_read h addr sz s' = (s', Some (take_bit (8 * unat sz) v))"
proof -
  obtain w where w: "mem_write h addr sz v s = (s\<lparr>bus_ctx := w\<rparr>, True)"
    "view w = le_store (view (bus_ctx s)) addr (unat sz) v"
    using mem_write_spec [OF assms(1)] by metis
  have "unat sz \<le> 4" using assms(1) by (auto simp: plain_def access_size_def)
  then show ?thesis
    using w assms(3) mem_read_spec [OF assms(2)] by (auto simp: le_word_store)
qed

end

end
