(* ===== verification/Rv_Csr.thy ===== *)
theory Rv_Csr
  imports Rv_State
begin

text \<open>
  Control and status registers: \<open>csr_read\<close> and \<open>csr_write\<close> of
  \<^verbatim>\<open>src/rv32-emulator/demo/rv32.c\<close>, with the register numbers of \<^verbatim>\<open>rv32.h\<close>. A read that the C code
  answers with -1 is \<^const>\<open>None\<close>, and so is such a write.
\<close>

definition RV_CSR_FFLAGS :: u32 where "RV_CSR_FFLAGS = 0x001"
definition RV_CSR_FRM :: u32 where "RV_CSR_FRM = 0x002"
definition RV_CSR_FCSR :: u32 where "RV_CSR_FCSR = 0x003"
definition RV_CSR_CYCLE :: u32 where "RV_CSR_CYCLE = 0xC00"
definition RV_CSR_TIME :: u32 where "RV_CSR_TIME = 0xC01"
definition RV_CSR_INSTRET :: u32 where "RV_CSR_INSTRET = 0xC02"
definition RV_CSR_CYCLEH :: u32 where "RV_CSR_CYCLEH = 0xC80"
definition RV_CSR_TIMEH :: u32 where "RV_CSR_TIMEH = 0xC81"
definition RV_CSR_INSTRETH :: u32 where "RV_CSR_INSTRETH = 0xC82"
definition RV_CSR_MSTATUS :: u32 where "RV_CSR_MSTATUS = 0x300"
definition RV_CSR_MISA :: u32 where "RV_CSR_MISA = 0x301"
definition RV_CSR_MIE :: u32 where "RV_CSR_MIE = 0x304"
definition RV_CSR_MTVEC :: u32 where "RV_CSR_MTVEC = 0x305"
definition RV_CSR_MSCRATCH :: u32 where "RV_CSR_MSCRATCH = 0x340"
definition RV_CSR_MEPC :: u32 where "RV_CSR_MEPC = 0x341"
definition RV_CSR_MCAUSE :: u32 where "RV_CSR_MCAUSE = 0x342"
definition RV_CSR_MTVAL :: u32 where "RV_CSR_MTVAL = 0x343"
definition RV_CSR_MIP :: u32 where "RV_CSR_MIP = 0x344"
definition RV_CSR_MCYCLE :: u32 where "RV_CSR_MCYCLE = 0xB00"
definition RV_CSR_MINSTRET :: u32 where "RV_CSR_MINSTRET = 0xB02"
definition RV_CSR_MCYCLEH :: u32 where "RV_CSR_MCYCLEH = 0xB80"
definition RV_CSR_MINSTRETH :: u32 where "RV_CSR_MINSTRETH = 0xB82"
definition RV_CSR_MVENDORID :: u32 where "RV_CSR_MVENDORID = 0xF11"
definition RV_CSR_MARCHID :: u32 where "RV_CSR_MARCHID = 0xF12"
definition RV_CSR_MIMPID :: u32 where "RV_CSR_MIMPID = 0xF13"
definition RV_CSR_MHARTID :: u32 where "RV_CSR_MHARTID = 0xF14"

lemmas csr_numbers = RV_CSR_FFLAGS_def RV_CSR_FRM_def RV_CSR_FCSR_def RV_CSR_CYCLE_def
  RV_CSR_TIME_def RV_CSR_INSTRET_def RV_CSR_CYCLEH_def RV_CSR_TIMEH_def RV_CSR_INSTRETH_def
  RV_CSR_MSTATUS_def RV_CSR_MISA_def RV_CSR_MIE_def RV_CSR_MTVEC_def RV_CSR_MSCRATCH_def
  RV_CSR_MEPC_def RV_CSR_MCAUSE_def RV_CSR_MTVAL_def RV_CSR_MIP_def RV_CSR_MCYCLE_def
  RV_CSR_MINSTRET_def RV_CSR_MCYCLEH_def RV_CSR_MINSTRETH_def RV_CSR_MVENDORID_def
  RV_CSR_MARCHID_def RV_CSR_MIMPID_def RV_CSR_MHARTID_def

definition csr_read :: "'w rv_cpu \<Rightarrow> u32 \<Rightarrow> u32 option" where
  "csr_read s csr =
    (if csr = RV_CSR_FFLAGS then Some (fcsr s AND 0x1f)
     else if csr = RV_CSR_FRM then Some (drop_bit 5 (fcsr s) AND 7)
     else if csr = RV_CSR_FCSR then Some (fcsr s AND 0xff)
     else if csr = RV_CSR_CYCLE \<or> csr = RV_CSR_MCYCLE then Some (ucast (mcycle s))
     else if csr = RV_CSR_CYCLEH \<or> csr = RV_CSR_MCYCLEH then Some (ucast (drop_bit 32 (mcycle s)))
     else if csr = RV_CSR_TIME then Some (ucast (mcycle s))
     else if csr = RV_CSR_TIMEH then Some (ucast (drop_bit 32 (mcycle s)))
     else if csr = RV_CSR_INSTRET \<or> csr = RV_CSR_MINSTRET then Some (ucast (minstret s))
     else if csr = RV_CSR_INSTRETH \<or> csr = RV_CSR_MINSTRETH
       then Some (ucast (drop_bit 32 (minstret s)))
     else if csr = RV_CSR_MSTATUS then Some (mstatus s)
     else if csr = RV_CSR_MISA then
       Some (push_bit 30 1 OR push_bit 8 1 OR push_bit 12 1 OR push_bit 5 1 OR push_bit 2 1 OR
             (if atomics s then push_bit 0 1 else 0) OR (if bitmanip s then push_bit 1 1 else 0))
     else if csr = RV_CSR_MIE then Some (mie s)
     else if csr = RV_CSR_MTVEC then Some (mtvec s)
     else if csr = RV_CSR_MSCRATCH then Some (mscratch s)
     else if csr = RV_CSR_MEPC then Some (mepc s)
     else if csr = RV_CSR_MCAUSE then Some (mcause s)
     else if csr = RV_CSR_MTVAL then Some (mtval s)
     else if csr = RV_CSR_MIP then Some (mip s)
     else if csr = RV_CSR_MVENDORID \<or> csr = RV_CSR_MARCHID \<or> csr = RV_CSR_MIMPID \<or>
             csr = RV_CSR_MHARTID then Some 0
     else None)"

definition csr_write :: "u32 \<Rightarrow> u32 \<Rightarrow> 'w rv_cpu \<Rightarrow> 'w rv_cpu option" where
  "csr_write csr val s =
    (if csr = RV_CSR_FFLAGS then Some (s\<lparr>fcsr := (fcsr s AND NOT 0x1f) OR (val AND 0x1f)\<rparr>)
     else if csr = RV_CSR_FRM
       then Some (s\<lparr>fcsr := (fcsr s AND NOT 0xe0) OR push_bit 5 (val AND 7)\<rparr>)
     else if csr = RV_CSR_FCSR then Some (s\<lparr>fcsr := val AND 0xff\<rparr>)
     else if csr = RV_CSR_MSTATUS then Some (s\<lparr>mstatus := val\<rparr>)
     else if csr = RV_CSR_MIE then Some (s\<lparr>mie := val\<rparr>)
     else if csr = RV_CSR_MTVEC then Some (s\<lparr>mtvec := val\<rparr>)
     else if csr = RV_CSR_MSCRATCH then Some (s\<lparr>mscratch := val\<rparr>)
     else if csr = RV_CSR_MEPC then Some (s\<lparr>mepc := val AND NOT 1\<rparr>)
     else if csr = RV_CSR_MCAUSE then Some (s\<lparr>mcause := val\<rparr>)
     else if csr = RV_CSR_MTVAL then Some (s\<lparr>mtval := val\<rparr>)
     else if csr = RV_CSR_MIP then Some (s\<lparr>mip := val\<rparr>)
     else if csr = RV_CSR_MCYCLE
       then Some (s\<lparr>mcycle := (mcycle s AND 0xffffffff00000000) OR ucast val\<rparr>)
     else if csr = RV_CSR_MCYCLEH
       then Some (s\<lparr>mcycle := (mcycle s AND 0xffffffff) OR push_bit 32 (ucast val)\<rparr>)
     else if csr = RV_CSR_MINSTRET
       then Some (s\<lparr>minstret := (minstret s AND 0xffffffff00000000) OR ucast val\<rparr>)
     else if csr = RV_CSR_MINSTRETH
       then Some (s\<lparr>minstret := (minstret s AND 0xffffffff) OR push_bit 32 (ucast val)\<rparr>)
     else if csr = RV_CSR_MISA then Some s
     else None)"

subsection \<open>Writable and read-only registers\<close>

text \<open>The registers a program can write, and which bits of each a write keeps.\<close>

definition csr_mask :: "u32 \<Rightarrow> u32" where
  "csr_mask csr = (if csr = RV_CSR_FFLAGS then 0x1f else if csr = RV_CSR_FRM then 7
     else if csr = RV_CSR_FCSR then 0xff else if csr = RV_CSR_MEPC then NOT 1 else NOT 0)"

definition csr_writable :: "u32 list" where
  "csr_writable = [RV_CSR_FFLAGS, RV_CSR_FRM, RV_CSR_FCSR, RV_CSR_MSTATUS, RV_CSR_MIE, RV_CSR_MTVEC,
     RV_CSR_MSCRATCH, RV_CSR_MEPC, RV_CSR_MCAUSE, RV_CSR_MTVAL, RV_CSR_MIP, RV_CSR_MCYCLE,
     RV_CSR_MCYCLEH, RV_CSR_MINSTRET, RV_CSR_MINSTRETH]"

text \<open>
  Every writable register is written and reads back what was written, in the bits it keeps:
  the flag and rounding fields share one register without disturbing each other, the two halves
  of a counter likewise, mepc drops bit 0. No write touches the register file, the program
  counter or memory.
\<close>

theorem csr_write_read:
  assumes "csr \<in> set csr_writable"
  shows "\<exists>s'. csr_write csr v s = Some s' \<and> csr_read s' csr = Some (v AND csr_mask csr) \<and> regs s' = regs s \<and> pc s' = pc s \<and> bus_ctx s' = bus_ctx s"
  using assms unfolding csr_writable_def list.set insert_iff empty_iff simp_thms
  by (elim disjE; simp add: csr_numbers csr_write_def csr_read_def csr_mask_def)
    (rule u32_eqI; simp add: bits_at del: push_bit_Suc drop_bit_Suc)+

theorem csr_write_read_witness:
  "\<exists>s'. csr_write 0x341 0x1003 (cpu0 ()) = Some s' \<and> csr_read s' 0x341 = Some 0x1002"
  using csr_write_read [of "0x341" "0x1003" "cpu0 ()"]
  by (auto simp: csr_writable_def csr_mask_def csr_numbers)

text \<open>
  The registers whose number starts with 11 are read-only, as the ISA reserves them: a write
  is refused, which \<open>exec\<close> turns into an illegal-instruction trap.
\<close>

theorem csr_read_only: "csr AND 0xc00 = 0xc00 \<Longrightarrow> csr_write csr v s = None"
  by (auto simp: csr_write_def csr_numbers)

theorem csr_read_only_witness: "csr_write 0xf14 1 (cpu0 ()) = None"
  using csr_read_only [of "0xf14" 1 "cpu0 ()"] by simp

end
