(* ===== verification/Rv_Bitmanip.thy ===== *)
theory Rv_Bitmanip
  imports Rv_Decode
begin

text \<open>
  The bit-manipulation extensions of \<^verbatim>\<open>src/rv32-emulator/demo/rv32.c\<close>: the word helpers and the
  two evaluators \<open>bitmanip_reg\<close> and \<open>bitmanip_imm\<close>. Where the C code offers a compiler
  builtin and a portable loop, the model has both: the builtin as its documented meaning, the
  loop as written, and a lemma that they agree.
\<close>

subsection \<open>Word helpers\<close>

definition rotr32 :: "u32 \<Rightarrow> u32 \<Rightarrow> u32" where
  "rotr32 v n = (let n = n AND 31 in if n \<noteq> 0 then shr v n OR shl v (32 - n) else v)"

definition rotl32 :: "u32 \<Rightarrow> u32 \<Rightarrow> u32" where
  "rotl32 v n = (let n = n AND 31 in if n \<noteq> 0 then shl v n OR shr v (32 - n) else v)"

text \<open>
  GCC documents \<open>__builtin_clz(v)\<close> as the number of leading 0-bits and \<open>__builtin_ctz(v)\<close>
  as the number of trailing 0-bits of a nonzero argument, and \<open>__builtin_popcount(v)\<close> as
  the number of 1-bits.
\<close>

definition builtin_clz :: "u32 \<Rightarrow> u32" where
  "builtin_clz v = of_nat (length (takeWhile (\<lambda>i. \<not> bit v i) (rev [0..<32])))"

definition builtin_ctz :: "u32 \<Rightarrow> u32" where
  "builtin_ctz v = of_nat (length (takeWhile (\<lambda>i. \<not> bit v i) [0..<32]))"

definition builtin_popcount :: "u32 \<Rightarrow> u32" where
  "builtin_popcount v = of_nat (length (filter (bit v) [0..<32]))"

definition clz32 :: "u32 \<Rightarrow> u32" where
  "clz32 v = (if v \<noteq> 0 then builtin_clz v else 32)"

definition ctz32 :: "u32 \<Rightarrow> u32" where
  "ctz32 v = (if v \<noteq> 0 then builtin_ctz v else 32)"

definition cpop32 :: "u32 \<Rightarrow> u32" where
  "cpop32 v = builtin_popcount v"

text \<open>
  The portable loops. Each turn uses one unit of fuel; the lemmas below show that 32 units
  are enough for every argument, so running out never happens.
\<close>

fun clz_loop :: "nat \<Rightarrow> u32 \<Rightarrow> u32 \<Rightarrow> u32 option" where
  "clz_loop 0 v n = (if v AND 0x80000000 = 0 then None else Some n)"
| "clz_loop (Suc k) v n =
     (if v AND 0x80000000 = 0 then clz_loop k (push_bit 1 v) (n + 1) else Some n)"

definition clz32_portable :: "u32 \<Rightarrow> u32 option" where
  "clz32_portable v = (if v = 0 then Some 32 else clz_loop 32 v 0)"

fun ctz_loop :: "nat \<Rightarrow> u32 \<Rightarrow> u32 \<Rightarrow> u32 option" where
  "ctz_loop 0 v n = (if v AND 1 = 0 then None else Some n)"
| "ctz_loop (Suc k) v n = (if v AND 1 = 0 then ctz_loop k (drop_bit 1 v) (n + 1) else Some n)"

definition ctz32_portable :: "u32 \<Rightarrow> u32 option" where
  "ctz32_portable v = (if v = 0 then Some 32 else ctz_loop 32 v 0)"

fun cpop_loop :: "nat \<Rightarrow> u32 \<Rightarrow> u32 \<Rightarrow> u32 option" where
  "cpop_loop 0 v n = (if v \<noteq> 0 then None else Some n)"
| "cpop_loop (Suc k) v n = (if v \<noteq> 0 then cpop_loop k (v AND (v - 1)) (n + 1) else Some n)"

definition cpop32_portable :: "u32 \<Rightarrow> u32 option" where
  "cpop32_portable v = cpop_loop 32 v 0"

text \<open>The loop of \<open>orcb32\<close> runs over the bit offsets 0, 8, 16 and 24.\<close>

definition orcb32 :: "u32 \<Rightarrow> u32" where
  "orcb32 v = fold (\<lambda>i out. if drop_bit i v AND 0xff \<noteq> 0 then out OR push_bit i 0xff else out)
     [0, 8, 16, 24] 0"

definition rev8_32 :: "u32 \<Rightarrow> u32" where
  "rev8_32 v = drop_bit 24 v OR (drop_bit 8 v AND 0xff00) OR (push_bit 8 v AND 0xff0000) OR
     push_bit 24 v"

subsection \<open>Evaluators\<close>

text \<open>\<^const>\<open>None\<close> is the return value 0: not an encoding of these extensions.\<close>

definition bitmanip_reg :: "u32 \<Rightarrow> u32 \<Rightarrow> u32 \<Rightarrow> u32 \<Rightarrow> u32 \<Rightarrow> u32 option" where
  "bitmanip_reg insn f3 f7 a b =
    (let shamt = b AND 31 in
     if f7 = 0x04 then
       (if f3 = 4 \<and> RS2 insn = 0 then Some (a AND 0xffff) else None)         \<comment> \<open>zext.h\<close>
     else if f7 = 0x05 then
       (if f3 = 4 then Some (if a <s b then a else b)                        \<comment> \<open>min\<close>
        else if f3 = 5 then Some (if a < b then a else b)                    \<comment> \<open>minu\<close>
        else if f3 = 6 then Some (if b <s a then a else b)                   \<comment> \<open>max\<close>
        else if f3 = 7 then Some (if b < a then a else b)                    \<comment> \<open>maxu\<close>
        else None)
     else if f7 = 0x10 then
       (if f3 = 2 then Some (push_bit 1 a + b)                               \<comment> \<open>sh1add\<close>
        else if f3 = 4 then Some (push_bit 2 a + b)                          \<comment> \<open>sh2add\<close>
        else if f3 = 6 then Some (push_bit 3 a + b)                          \<comment> \<open>sh3add\<close>
        else None)
     else if f7 = 0x14 then
       (if f3 = 1 then Some (a OR shl 1 shamt) else None)                    \<comment> \<open>bset\<close>
     else if f7 = 0x20 then
       (if f3 = 4 then Some (NOT (a XOR b))                                  \<comment> \<open>xnor\<close>
        else if f3 = 6 then Some (a OR NOT b)                                \<comment> \<open>orn\<close>
        else if f3 = 7 then Some (a AND NOT b)                               \<comment> \<open>andn\<close>
        else None)
     else if f7 = 0x24 then
       (if f3 = 1 then Some (a AND NOT (shl 1 shamt))                        \<comment> \<open>bclr\<close>
        else if f3 = 5 then Some (shr a shamt AND 1)                         \<comment> \<open>bext\<close>
        else None)
     else if f7 = 0x30 then
       (if f3 = 1 then Some (rotl32 a shamt)                                 \<comment> \<open>rol\<close>
        else if f3 = 5 then Some (rotr32 a shamt)                            \<comment> \<open>ror\<close>
        else None)
     else if f7 = 0x34 then
       (if f3 = 1 then Some (a XOR shl 1 shamt) else None)                   \<comment> \<open>binv\<close>
     else None)"

definition bitmanip_imm :: "u32 \<Rightarrow> u32 \<Rightarrow> u32 \<Rightarrow> u32 \<Rightarrow> u32 option" where
  "bitmanip_imm insn f3 f7 a =
    (let shamt = RS2 insn in
     if f7 = 0x14 then
       (if f3 = 1 then Some (a OR shl 1 shamt)                               \<comment> \<open>bseti\<close>
        else if f3 = 5 \<and> shamt = 0x07 then Some (orcb32 a)                   \<comment> \<open>orc.b\<close>
        else None)
     else if f7 = 0x24 then
       (if f3 = 1 then Some (a AND NOT (shl 1 shamt))                        \<comment> \<open>bclri\<close>
        else if f3 = 5 then Some (shr a shamt AND 1)                         \<comment> \<open>bexti\<close>
        else None)
     else if f7 = 0x30 then
       (if f3 = 5 then Some (rotr32 a shamt)                                 \<comment> \<open>rori\<close>
        else if f3 = 1 then
          (if shamt = 0x00 then Some (clz32 a)
           else if shamt = 0x01 then Some (ctz32 a)
           else if shamt = 0x02 then Some (cpop32 a)
           else if shamt = 0x04 then Some (sext8 a)
           else if shamt = 0x05 then Some (sext16 a)
           else None)
        else None)
     else if f7 = 0x34 then
       (if f3 = 1 then Some (a XOR shl 1 shamt)                              \<comment> \<open>binvi\<close>
        else if f3 = 5 \<and> shamt = 0x18 then Some (rev8_32 a)                  \<comment> \<open>rev8\<close>
        else None)
     else None)"

subsection \<open>The portable loops compute the builtins\<close>

lemma first_bit_down:
  assumes "(v :: u32) \<noteq> 0"
  obtains j where "j < 32" "bit v (31 - j)" "\<And>i. i < j \<Longrightarrow> \<not> bit v (31 - i)"
proof -
  obtain m where m: "bit v m" using assms by (metis bit_eqI bit_0_eq bot_apply bot_bool_def)
  then have "m < 32" using bit_imp_le_length [of v m] by simp
  with m have "bit v (31 - (31 - m))" by simp
  then have "\<exists>j. bit v (31 - j)" by blast
  then obtain j where j: "bit v (31 - j)" "\<And>i. i < j \<Longrightarrow> \<not> bit v (31 - i)"
    using exists_least_iff [of "\<lambda>j. bit v (31 - j)"] by blast
  have "j \<le> 31 - m" using j(2) \<open>bit v (31 - (31 - m))\<close> by (meson not_le_imp_less)
  then show ?thesis using j by (intro that [of j]) auto
qed

lemma first_bit_up:
  assumes "(v :: u32) \<noteq> 0"
  obtains j where "j < 32" "bit v j" "\<And>i. i < j \<Longrightarrow> \<not> bit v i"
proof -
  have "\<exists>j. bit v j" using assms by (metis bit_eqI bit_0_eq bot_apply bot_bool_def)
  then obtain j where "bit v j" "\<And>i. i < j \<Longrightarrow> \<not> bit v i"
    using exists_least_iff [of "bit v"] by blast
  then show ?thesis using that bit_imp_le_length [of v j] by simp
qed

lemma takeWhile_first:
  "j < length xs \<Longrightarrow> (\<And>i. i < j \<Longrightarrow> P (xs ! i)) \<Longrightarrow> \<not> P (xs ! j) \<Longrightarrow> length (takeWhile P xs) = j"
  by (subst takeWhile_eq_take_P_nth [of j xs P]) auto

lemma top_bit: "(v :: u32) AND 0x80000000 = 0 \<longleftrightarrow> \<not> bit v 31"
  using and_exp_eq_0_iff_not_bit [of v 31] by simp

lemma clz_loop_result:
  "j < 32 \<Longrightarrow> j \<le> k \<Longrightarrow> bit v (31 - j) \<Longrightarrow> (\<And>i. i < j \<Longrightarrow> \<not> bit v (31 - i)) \<Longrightarrow>
     clz_loop k v n = Some (n + of_nat j)"
proof (induction j arbitrary: k v n)
  case 0
  then show ?case by (cases k) (simp_all add: top_bit)
next
  case (Suc j)
  then obtain k' where k: "k = Suc k'" "j \<le> k'" by (cases k) auto
  have "\<not> bit v 31" using Suc.prems(4) [of 0] by simp
  moreover have "clz_loop k' (push_bit 1 v) (n + 1) = Some ((n + 1) + of_nat j)"
  proof (rule Suc.IH)
    show "bit (push_bit 1 v) (31 - j)" unfolding bit_push_bit_iff using Suc.prems by auto
    show "\<not> bit (push_bit 1 v) (31 - i)" if "i < j" for i
      unfolding bit_push_bit_iff using Suc.prems(4) [of "Suc i"] Suc.prems(1) that by simp
  qed (use Suc.prems k in auto)
  ultimately show ?case using k by (simp add: top_bit add.assoc)
qed

lemma ctz_loop_result:
  "j < 32 \<Longrightarrow> j \<le> k \<Longrightarrow> bit v j \<Longrightarrow> (\<And>i. i < j \<Longrightarrow> \<not> bit v i) \<Longrightarrow>
     ctz_loop k v n = Some (n + of_nat j)"
proof (induction j arbitrary: k v n)
  case 0
  then show ?case by (cases k) (simp_all add: and_one_eq bit_0 mod_2_eq_odd)
next
  case (Suc j)
  then obtain k' where k: "k = Suc k'" "j \<le> k'" by (cases k) auto
  have "even v" using Suc.prems(4) [of 0] by (simp add: bit_0)
  moreover have "ctz_loop k' (drop_bit 1 v) (n + 1) = Some ((n + 1) + of_nat j)"
    using Suc.prems k by (intro Suc.IH) (auto simp: bit_simps)
  ultimately show ?case using k by (simp add: and_one_eq mod_2_eq_odd add.assoc)
qed

lemma clz_agree: "clz32_portable v = Some (clz32 v)"
proof (cases "v = 0")
  case False
  then obtain j where j: "j < 32" "bit v (31 - j)" "\<And>i. i < j \<Longrightarrow> \<not> bit v (31 - i)"
    using first_bit_down by blast
  have "length (takeWhile (\<lambda>i. \<not> bit v i) (rev [0..<32])) = j"
    using j by (intro takeWhile_first) (auto simp: rev_nth)
  then show ?thesis
    using False clz_loop_result [of j 32 v 0] j
    by (simp add: clz32_portable_def clz32_def builtin_clz_def)
qed (simp add: clz32_portable_def clz32_def)

lemma ctz_agree: "ctz32_portable v = Some (ctz32 v)"
proof (cases "v = 0")
  case False
  then obtain j where j: "j < 32" "bit v j" "\<And>i. i < j \<Longrightarrow> \<not> bit v i"
    using first_bit_up by blast
  have "length (takeWhile (\<lambda>i. \<not> bit v i) [0..<32]) = j"
    using j by (intro takeWhile_first) auto
  then show ?thesis
    using False ctz_loop_result [of j 32 v 0] j
    by (simp add: ctz32_portable_def ctz32_def builtin_ctz_def)
qed (simp add: ctz32_portable_def ctz32_def)

text \<open>\<open>v AND (v - 1)\<close> clears the lowest set bit.\<close>

lemma clear_lowest:
  assumes "j < 32" "bit (v :: u32) j" "\<And>i. i < j \<Longrightarrow> \<not> bit v i"
  shows "bit (v AND (v - 1)) i \<longleftrightarrow> bit v i \<and> i \<noteq> j"
proof -
  let ?hi = "push_bit (Suc j) (drop_bit (Suc j) v)"
  have "take_bit (Suc j) v = 2 ^ j"
    using assms by (intro bit_word_eqI) (auto simp: bit_simps less_Suc_eq)
  then have "v = ?hi + 2 ^ j" using bits_ident [of "Suc j" v] by (simp add: add.commute)
  then have "v - 1 = ?hi + mask j" by (simp add: mask_eq_exp_minus_1)
  also have "\<dots> = ?hi OR mask j"
    by (rule disjunctive_add) (auto simp: bit_push_bit_iff bit_mask_iff simp del: push_bit_Suc)
  finally have "v - 1 = ?hi OR mask j" .
  then have "bit (v - 1) i \<longleftrightarrow> i < 32 \<and> (Suc j \<le> i \<and> bit v i \<or> i < j)"
    by (auto simp: bit_or_iff bit_push_bit_iff bit_drop_bit_eq bit_mask_iff simp del: push_bit_Suc)
  then show ?thesis using assms bit_imp_le_length [of v i]
    by (auto simp: bit_and_iff)
qed

lemma cpop_loop_result:
  "card {i. i < 32 \<and> bit v i} \<le> k \<Longrightarrow> cpop_loop k v n = Some (n + of_nat (card {i. i < 32 \<and> bit v i}))"
proof (induction k arbitrary: v n)
  case 0
  then have "v = 0" by (intro bit_word_eqI) (auto simp: card_eq_0_iff)
  then show ?case by simp
next
  case (Suc k)
  show ?case
  proof (cases "v = 0")
    case False
    then obtain j where j: "j < 32" "bit v j" "\<And>i. i < j \<Longrightarrow> \<not> bit v i"
      using first_bit_up by blast
    have s: "{i. i < 32 \<and> bit (v AND (v - 1)) i} = {i. i < 32 \<and> bit v i} - {j}"
      using clear_lowest [OF j] by blast
    have c: "card {i. i < 32 \<and> bit v i} = Suc (card {i. i < 32 \<and> bit (v AND (v - 1)) i})"
      unfolding s using j by (intro card.remove) auto
    then show ?thesis using Suc False by (simp add: add.assoc)
  qed simp
qed

lemma cpop_agree: "cpop32_portable v = Some (cpop32 v)"
proof -
  have "length (filter (bit v) [0..<32]) = card {i. i < 32 \<and> bit v i}"
    unfolding length_filter_conv_card by (intro arg_cong [of _ _ card]) auto
  moreover have "card {i. i < 32 \<and> bit v i} \<le> card {..<32::nat}"
    by (intro card_mono) auto
  ultimately show ?thesis
    using cpop_loop_result [of v 32 0] by (simp add: cpop32_portable_def cpop32_def builtin_popcount_def)
qed

text \<open>
  C36. The portable loops of \<open>clz32\<close>, \<open>ctz32\<close> and \<open>cpop32\<close> end within 32 turns for every argument,
  zero included, and return what the compiler builtins are documented to return.
\<close>

theorem counts_agree:
  "clz32_portable v = Some (clz32 v) \<and> ctz32_portable v = Some (ctz32 v) \<and>
   cpop32_portable v = Some (cpop32 v)"
  by (simp add: clz_agree ctz_agree cpop_agree)

subsection \<open>Rotations and byte reversal\<close>

lemma amount_31: "unat (n AND 31 :: u32) = unat n mod 32"
proof -
  have "n AND 31 = take_bit 5 n" by (simp add: take_bit_eq_mask mask_eq_exp_minus_1)
  then show ?thesis by (simp add: unsigned_take_bit_eq take_bit_eq_mod [where 'a = nat])
qed

lemma mod_32_sum: "k < 32 \<Longrightarrow> (k + n) mod 32 = (if k + n mod 32 < 32 then k + n mod 32 else k + n mod 32 - 32)" for k n :: nat
proof -
  assume k: "k < 32"
  have "(k + n) mod 32 = (k + n mod 32) mod 32" by (simp add: mod_add_right_eq)
  moreover have "k + n mod 32 < 64" using k mod_less_divisor [of 32 n] by linarith
  ultimately show ?thesis
    using le_mod_geq [of 32 "k + n mod 32"] by (cases "k + n mod 32 < 32") simp_all
qed

lemma amount_rest: "unat (32 - (n AND 31) :: u32) = 32 - unat n mod 32"
  using amount_31 [of n] by (simp add: unat_sub_if_size word_size)

lemma rotr_bits: "k < 32 \<Longrightarrow> bit (rotr32 v n) k \<longleftrightarrow> bit v ((k + unat n) mod 32)"
proof -
  assume k: "k < 32"
  have z: "n AND 31 = 0 \<longleftrightarrow> unat n mod 32 = 0" using amount_31 [of n] by (metis unat_eq_zero)
  show ?thesis
  proof (cases "n AND 31 = 0")
    case True
    then show ?thesis using k z by (simp add: rotr32_def Let_def mod_32_sum)
  next
    case False
    then have "bit (rotr32 v n) k \<longleftrightarrow> bit (drop_bit (unat n mod 32) v) k \<or> bit (push_bit (32 - unat n mod 32) v) k"
      by (simp add: rotr32_def Let_def shr_def shl_def amount_31 amount_rest bit_or_iff)
    also have "\<dots> \<longleftrightarrow> bit v ((k + unat n) mod 32)"
      unfolding mod_32_sum [OF k] using k bit_imp_le_length [of v]
      by (auto simp: bit_drop_bit_eq bit_push_bit_iff add.commute) 
    finally show ?thesis .
  qed
qed

lemma rotl_bits: "k < 32 \<Longrightarrow> bit (rotl32 v n) k \<longleftrightarrow> bit v ((k + (32 - unat n mod 32)) mod 32)"
proof -
  assume k: "k < 32"
  have z: "n AND 31 = 0 \<longleftrightarrow> unat n mod 32 = 0" using amount_31 [of n] by (metis unat_eq_zero)
  show ?thesis
  proof (cases "n AND 31 = 0")
    case True
    then show ?thesis using k z by (simp add: rotl32_def Let_def)
  next
    case False
    then have "bit (rotl32 v n) k \<longleftrightarrow> bit (push_bit (unat n mod 32) v) k \<or> bit (drop_bit (32 - unat n mod 32) v) k"
      by (simp add: rotl32_def Let_def shr_def shl_def amount_31 amount_rest bit_or_iff)
    also have "\<dots> \<longleftrightarrow> bit v ((k + (32 - unat n mod 32)) mod 32)"
      unfolding mod_32_sum [OF k] using k False z bit_imp_le_length [of v]
      by (auto simp: bit_drop_bit_eq bit_push_bit_iff add.commute)
    finally show ?thesis .
  qed
qed

text \<open>
  \<open>rotr32\<close> and \<open>rotl32\<close> are the rotations of a 32-bit word, for every amount: the guard for a
  zero amount makes the shift by 32 that C leaves undefined unreachable.
\<close>

theorem rotations_agree: "rotr32 v n = word_rotr (unat n) v \<and> rotl32 v n = word_rotl (unat n) v"
  by (intro conjI; rule bit_word_eqI)
    (simp_all add: bit_word_rotr_iff bit_word_rotl_iff rotr_bits rotl_bits)

lemma rev8_twice: "rev8_32 (rev8_32 v) = v"
  by (rule u32_eqI) (simp add: rev8_32_def bits_at del: push_bit_Suc drop_bit_Suc)

end
