(* ===== verification/Rv_Double.thy ===== *)
theory Rv_Double
  imports Rv_Prelude
begin

text \<open>
  The C types \<open>double\<close> and \<open>float\<close> as the emulator uses them: IEEE 754 binary64 and
  binary32 values held as bit patterns, with the arithmetic in the default rounding mode
  (to nearest, ties to even), as every host the emulator targets provides it. Each operation
  decodes its operands to an integer significand and a power of two, computes exactly on
  integers, and rounds once. A NaN result has one canonical pattern: the emulator never looks
  at the payload of a double. The portable helpers of \<^verbatim>\<open>src/rv32-emulator/demo/rv32.c\<close>
  (\<open>d_floor\<close>, \<open>d_frexp\<close>, \<open>d_ldexp\<close>, \<open>two_sum\<close>, ...) follow, translated on top.
\<close>

subsection \<open>Rounding a dyadic number to a binary format\<close>

function bitlen :: "int \<Rightarrow> int" where
  "bitlen n = (if n \<le> 0 then 0 else 1 + bitlen (n div 2))"
  by pat_completeness auto
termination
  by (relation "measure nat") auto

declare bitlen.simps [simp del]

text \<open>
  \<open>rne_shift k m st\<close>: the integer nearest to \<open>(m + \<epsilon>) / 2 ^ k\<close>, ties to even, for some
  \<open>0 \<le> \<epsilon> < 1\<close> that is nonzero exactly when \<open>st\<close> holds.
\<close>

definition rne_shift :: "nat \<Rightarrow> int \<Rightarrow> bool \<Rightarrow> int" where
  "rne_shift k m st =
    (let q = m div 2 ^ k; r = m mod 2 ^ k; half = 2 ^ (k - 1);
         up = (k \<noteq> 0 \<and> (r > half \<or> (r = half \<and> (st \<or> odd q))))
     in if up then q + 1 else q)"

text \<open>
  \<open>pack p qmin einf m e st\<close>: the magnitude bits of \<open>(m + \<epsilon>) * 2 ^ e\<close> in the format with
  \<open>p\<close> significand bits, least exponent \<open>qmin\<close> and exponent field \<open>einf\<close> for infinity. The
  exponent field and the significand are added, so a carry out of the significand moves to
  the next exponent by itself.
\<close>

definition pack :: "nat \<Rightarrow> int \<Rightarrow> int \<Rightarrow> int \<Rightarrow> int \<Rightarrow> bool \<Rightarrow> int" where
  "pack p qmin einf m e st =
    (if m = 0 then 0
     else let q = max (e + bitlen m - int p) qmin;
              mm = (if q \<le> e then m * 2 ^ nat (e - q) else rne_shift (nat (q - e)) m st)
          in min ((q - qmin) * 2 ^ (p - 1) + mm) (einf * 2 ^ (p - 1)))"

definition d_pack :: "bool \<Rightarrow> int \<Rightarrow> int \<Rightarrow> bool \<Rightarrow> u64" where
  "d_pack neg m e st =
     word_of_int (pack 53 (-1074) 2047 m e st) OR (if neg then 0x8000000000000000 else 0)"

definition f_pack :: "bool \<Rightarrow> int \<Rightarrow> int \<Rightarrow> bool \<Rightarrow> u32" where
  "f_pack neg m e st = word_of_int (pack 24 (-149) 255 m e st) OR (if neg then 0x80000000 else 0)"

subsection \<open>Decoding\<close>

definition d_neg_p :: "u64 \<Rightarrow> bool" where
  "d_neg_p b \<longleftrightarrow> bit b 63"

definition d_expf :: "u64 \<Rightarrow> int" where
  "d_expf b = uint (drop_bit 52 b AND 0x7ff)"

definition d_frac :: "u64 \<Rightarrow> int" where
  "d_frac b = uint (b AND 0xfffffffffffff)"

definition d_nan_p :: "u64 \<Rightarrow> bool" where
  "d_nan_p b \<longleftrightarrow> d_expf b = 2047 \<and> d_frac b \<noteq> 0"

definition d_inf_p :: "u64 \<Rightarrow> bool" where
  "d_inf_p b \<longleftrightarrow> d_expf b = 2047 \<and> d_frac b = 0"

definition d_man :: "u64 \<Rightarrow> int" where
  "d_man b = (if d_expf b = 0 then d_frac b else d_frac b + 2 ^ 52)"

definition d_exp :: "u64 \<Rightarrow> int" where
  "d_exp b = (if d_expf b = 0 then -1074 else d_expf b - 1075)"

text \<open>The significand as a signed integer: the value is \<open>d_sman b * 2 ^ d_exp b\<close>.\<close>

definition d_sman :: "u64 \<Rightarrow> int" where
  "d_sman b = (if d_neg_p b then - d_man b else d_man b)"

definition d_NaN :: u64 where
  "d_NaN = 0x7ff8000000000000"

definition d_zero :: "bool \<Rightarrow> u64" where
  "d_zero neg = (if neg then 0x8000000000000000 else 0)"

definition d_Inf :: "bool \<Rightarrow> u64" where
  "d_Inf neg = (if neg then 0xfff0000000000000 else 0x7ff0000000000000)"

subsection \<open>Arithmetic\<close>

definition d_minus :: "u64 \<Rightarrow> u64" where
  "d_minus x = x XOR 0x8000000000000000"

definition d_add :: "u64 \<Rightarrow> u64 \<Rightarrow> u64" where
  "d_add x y =
    (if d_nan_p x \<or> d_nan_p y then d_NaN
     else if d_inf_p x then (if d_inf_p y \<and> d_neg_p x \<noteq> d_neg_p y then d_NaN else x)
     else if d_inf_p y then y
     else let e = min (d_exp x) (d_exp y);
              z = d_sman x * 2 ^ nat (d_exp x - e) + d_sman y * 2 ^ nat (d_exp y - e)
          in if z = 0 then d_zero (d_neg_p x \<and> d_neg_p y)
             else d_pack (z < 0) \<bar>z\<bar> e False)"

definition d_sub :: "u64 \<Rightarrow> u64 \<Rightarrow> u64" where
  "d_sub x y = d_add x (d_minus y)"

definition d_mul :: "u64 \<Rightarrow> u64 \<Rightarrow> u64" where
  "d_mul x y =
    (let neg = (d_neg_p x \<noteq> d_neg_p y) in
     if d_nan_p x \<or> d_nan_p y then d_NaN
     else if d_inf_p x \<or> d_inf_p y then (if d_man x = 0 \<or> d_man y = 0 then d_NaN else d_Inf neg)
     else if d_man x = 0 \<or> d_man y = 0 then d_zero neg
     else d_pack neg (d_man x * d_man y) (d_exp x + d_exp y) False)"

text \<open>
  The quotient is computed to at least 55 bits with the remainder folded into the sticky
  flag, so that the one rounding sees which side of a midpoint the exact quotient is on.
\<close>

definition d_div :: "u64 \<Rightarrow> u64 \<Rightarrow> u64" where
  "d_div x y =
    (let neg = (d_neg_p x \<noteq> d_neg_p y) in
     if d_nan_p x \<or> d_nan_p y then d_NaN
     else if d_inf_p x then (if d_inf_p y then d_NaN else d_Inf neg)
     else if d_inf_p y then d_zero neg
     else if d_man y = 0 then (if d_man x = 0 then d_NaN else d_Inf neg)
     else if d_man x = 0 then d_zero neg
     else let k = 56 + bitlen (d_man y);
              n = d_man x * 2 ^ nat k
          in d_pack neg (n div d_man y) (d_exp x - k - d_exp y) (n mod d_man y \<noteq> 0))"

text \<open>The integer square root, rounded down.\<close>

function isqrt :: "int \<Rightarrow> int" where
  "isqrt n = (if n \<le> 0 then 0
              else let r = 2 * isqrt (n div 4) in if (r + 1) * (r + 1) \<le> n then r + 1 else r)"
  by pat_completeness auto
termination
  by (relation "measure nat") auto

declare isqrt.simps [simp del]

definition d_sqrt :: "u64 \<Rightarrow> u64" where
  "d_sqrt x =
    (if d_nan_p x then d_NaN
     else if d_man x = 0 \<and> \<not> d_inf_p x then x
     else if d_neg_p x then d_NaN
     else if d_inf_p x then x
     else let k = (if even (d_exp x) then 112 else 113);
              n = d_man x * 2 ^ nat k;
              r = isqrt n
          in d_pack False r ((d_exp x - k) div 2) (r * r \<noteq> n))"

text \<open>
  Comparison. The magnitude bits order the non-negative values, so a signed magnitude orders
  them all, and the two zeros compare equal. A NaN compares with nothing.
\<close>

definition d_key :: "u64 \<Rightarrow> int" where
  "d_key b = (let m = uint (b AND 0x7fffffffffffffff) in if d_neg_p b then - m else m)"

definition d_lt :: "u64 \<Rightarrow> u64 \<Rightarrow> bool" where
  "d_lt x y \<longleftrightarrow> \<not> d_nan_p x \<and> \<not> d_nan_p y \<and> d_key x < d_key y"

definition d_ge :: "u64 \<Rightarrow> u64 \<Rightarrow> bool" where
  "d_ge x y \<longleftrightarrow> \<not> d_nan_p x \<and> \<not> d_nan_p y \<and> d_key x \<ge> d_key y"

definition d_eq :: "u64 \<Rightarrow> u64 \<Rightarrow> bool" where
  "d_eq x y \<longleftrightarrow> \<not> d_nan_p x \<and> \<not> d_nan_p y \<and> d_key x = d_key y"

subsection \<open>Conversions\<close>

text \<open>
  \<open>(int64_t)x\<close>, \<open>(int32_t)x\<close>, \<open>(uint32_t)x\<close>: truncation toward zero. C leaves a result
  outside the type undefined; the emulator converts only values it has bounded first.
\<close>

definition d_trunc :: "u64 \<Rightarrow> int" where
  "d_trunc x = (let m = (if d_exp x \<ge> 0 then d_man x * 2 ^ nat (d_exp x)
                         else d_man x div 2 ^ nat (- d_exp x))
                in if d_neg_p x then - m else m)"

definition d_of_int :: "int \<Rightarrow> u64" where
  "d_of_int i = d_pack (i < 0) \<bar>i\<bar> 0 False"

definition f_man :: "u32 \<Rightarrow> int" where
  "f_man b = (if drop_bit 23 b AND 0xff = 0 then uint (b AND 0x7fffff)
              else uint (b AND 0x7fffff) + 2 ^ 23)"

definition f_exp :: "u32 \<Rightarrow> int" where
  "f_exp b = (let e = uint (drop_bit 23 b AND 0xff) in if e = 0 then -149 else e - 150)"

text \<open>\<open>(double)f\<close>, exact, and \<open>(float)d\<close>, rounded to nearest.\<close>

definition d_of_f :: "u32 \<Rightarrow> u64" where
  "d_of_f b =
    (if drop_bit 23 b AND 0xff = 0xff
     then (if b AND 0x7fffff = 0 then d_Inf (bit b 31) else d_NaN)
     else d_pack (bit b 31) (f_man b) (f_exp b) False)"

definition f_of_d :: "u64 \<Rightarrow> u32" where
  "f_of_d x =
    (if d_nan_p x then 0x7fc00000
     else if d_inf_p x then (if d_neg_p x then 0xff800000 else 0x7f800000)
     else f_pack (d_neg_p x) (d_man x) (d_exp x) False)"

text \<open>Comparison of two floats that are not NaN.\<close>

definition f_key :: "u32 \<Rightarrow> int" where
  "f_key b = (let m = uint (b AND 0x7fffffff) in if bit b 31 then - m else m)"

subsection \<open>The portable helpers of rv32.c\<close>

definition d_abs :: "u64 \<Rightarrow> u64" where
  "d_abs x = x AND 0x7fffffffffffffff"

definition d_is_inf :: "u64 \<Rightarrow> bool" where
  "d_is_inf x \<longleftrightarrow> x AND 0x7fffffffffffffff = 0x7ff0000000000000"

text \<open>The constants 1, 0.5, \<open>2 ^ 52\<close>, \<open>2 ^ 53\<close> and \<open>2 ^ 54\<close> as doubles.\<close>

definition d_1 :: u64 where "d_1 = 0x3ff0000000000000"
definition d_half :: u64 where "d_half = 0x3fe0000000000000"
definition d_2p52 :: u64 where "d_2p52 = 0x4330000000000000"
definition d_2p53 :: u64 where "d_2p53 = 0x4340000000000000"
definition d_2p54 :: u64 where "d_2p54 = 0x4350000000000000"

definition d_floor :: "u64 \<Rightarrow> u64" where
  "d_floor x =
    (if d_ge (d_abs x) d_2p52 then x
     else let t = d_of_int (d_trunc x) in if d_lt x t then d_sub t d_1 else t)"

definition d_ceil :: "u64 \<Rightarrow> u64" where
  "d_ceil x =
    (if d_ge (d_abs x) d_2p52 then x
     else let t = d_of_int (d_trunc x) in if d_lt t x then d_add t d_1 else t)"

definition d_is_odd :: "u64 \<Rightarrow> bool" where
  "d_is_odd x = (if d_ge (d_abs x) d_2p53 then False else odd (d_trunc x))"

text \<open>\<open>d_frexp\<close> returns the fraction and the exponent it stores through its pointer.\<close>

definition d_frexp :: "u64 \<Rightarrow> u64 \<times> int" where
  "d_frexp x =
    (let b = x; ex = uint (drop_bit 52 b AND 0x7ff) in
     if d_eq x 0 \<or> ex = 0x7ff then (x, 0)
     else
       let (b, ex, e) =
         (if ex = 0 then
            let x = d_mul x d_2p54; b = x; ex = uint (drop_bit 52 b AND 0x7ff)
            in (b, ex, -54)
          else (b, ex, 0));
           e = e + ex - 1022
       in ((b AND 0x800fffffffffffff) OR push_bit 52 1022, e))"

text \<open>\<open>(uint64_t)(1023 + n) << 52\<close>: the double \<open>2 ^ n\<close>.\<close>

definition d_pow2 :: "int \<Rightarrow> u64" where
  "d_pow2 n = push_bit 52 (word_of_int (1023 + n))"

function d_ldexp_up :: "u64 \<Rightarrow> int \<Rightarrow> u64 \<times> int" where
  "d_ldexp_up x n = (if n > 1000 then d_ldexp_up (d_mul x (d_pow2 1000)) (n - 1000) else (x, n))"
  by pat_completeness auto
termination
  by (relation "measure (\<lambda>(x, n). nat n)") auto

function d_ldexp_down :: "u64 \<Rightarrow> int \<Rightarrow> u64 \<times> int" where
  "d_ldexp_down x n =
     (if n < -1000 then d_ldexp_down (d_mul x (d_pow2 (-1000))) (n + 1000) else (x, n))"
  by pat_completeness auto
termination
  by (relation "measure (\<lambda>(x, n). nat (- n))") auto

declare d_ldexp_up.simps [simp del] d_ldexp_down.simps [simp del]

definition d_ldexp :: "u64 \<Rightarrow> int \<Rightarrow> u64" where
  "d_ldexp x n =
    (let (x, n) = d_ldexp_up x n; (x, n) = d_ldexp_down x n in d_mul x (d_pow2 n))"

definition two_product :: "u64 \<Rightarrow> u64 \<Rightarrow> u64 \<times> u64" where
  "two_product x y =
    (let splitter = 0x41a0000002000000;
         p = d_mul x y;
         cx = d_mul splitter x;
         cy = d_mul splitter y;
         xh = d_sub cx (d_sub cx x); xl = d_sub x xh;
         yh = d_sub cy (d_sub cy y); yl = d_sub y yh;
         err = d_add (d_add (d_add (d_sub (d_mul xh yh) p) (d_mul xh yl)) (d_mul xl yh))
                 (d_mul xl yl)
     in (p, err))"

definition remainder_exact :: "u64 \<Rightarrow> u64 \<Rightarrow> u64 \<Rightarrow> u64" where
  "remainder_exact a x y = (let (p, err) = two_product x y in d_sub (d_sub a p) err)"

definition two_sum :: "u64 \<Rightarrow> u64 \<Rightarrow> u64 \<times> u64" where
  "two_sum x y =
    (let s = d_add x y; bv = d_sub s x
     in (s, d_add (d_sub x (d_sub s bv)) (d_sub y bv)))"

end
