(* ===== verification/Rv_Fp.thy ===== *)
theory Rv_Fp
  imports Rv_Double
begin

text \<open>
  Single-precision arithmetic of \<^verbatim>\<open>src/rv32-emulator/demo/rv32.c\<close>. The only part of the processor
  these functions touch is \<open>fcsr\<close>, which they take and return: the flags in bits 4:0 are
  accrued, the rounding mode in bits 7:5 is read by \<open>resolve_rm\<close>.
\<close>

subsection \<open>Flags, modes and classification\<close>

definition RV_FFLAG_NX :: u32 where "RV_FFLAG_NX = 1"
definition RV_FFLAG_UF :: u32 where "RV_FFLAG_UF = 2"
definition RV_FFLAG_OF :: u32 where "RV_FFLAG_OF = 4"
definition RV_FFLAG_DZ :: u32 where "RV_FFLAG_DZ = 8"
definition RV_FFLAG_NV :: u32 where "RV_FFLAG_NV = 16"

definition RV_RM_RNE :: u32 where "RV_RM_RNE = 0"
definition RV_RM_RTZ :: u32 where "RV_RM_RTZ = 1"
definition RV_RM_RDN :: u32 where "RV_RM_RDN = 2"
definition RV_RM_RUP :: u32 where "RV_RM_RUP = 3"
definition RV_RM_RMM :: u32 where "RV_RM_RMM = 4"
definition RV_RM_DYN :: u32 where "RV_RM_DYN = 7"

lemmas fflag_bits = RV_FFLAG_NX_def RV_FFLAG_UF_def RV_FFLAG_OF_def RV_FFLAG_DZ_def RV_FFLAG_NV_def
lemmas rm_codes = RV_RM_RNE_def RV_RM_RTZ_def RV_RM_RDN_def RV_RM_RUP_def RV_RM_RMM_def
  RV_RM_DYN_def

definition F32_CANON_NAN :: u32 where
  "F32_CANON_NAN = 0x7fc00000"

datatype frac_pos = FRAC_ZERO | FRAC_BELOW_HALF | FRAC_HALF | FRAC_ABOVE_HALF

definition f32_is_nan :: "u32 \<Rightarrow> bool" where
  "f32_is_nan b \<longleftrightarrow> b AND 0x7f800000 = 0x7f800000 \<and> b AND 0x007fffff \<noteq> 0"

definition f32_is_snan :: "u32 \<Rightarrow> bool" where
  "f32_is_snan b \<longleftrightarrow> f32_is_nan b \<and> b AND 0x00400000 = 0"

definition f32_is_inf :: "u32 \<Rightarrow> bool" where
  "f32_is_inf b \<longleftrightarrow> b AND 0x7fffffff = 0x7f800000"

definition f32_is_zero :: "u32 \<Rightarrow> bool" where
  "f32_is_zero b \<longleftrightarrow> b AND 0x7fffffff = 0"

definition f32_sign :: "u32 \<Rightarrow> bool" where
  "f32_sign b \<longleftrightarrow> drop_bit 31 b \<noteq> 0"

text \<open>\<open>f32_val\<close> reads the bits as a \<open>float\<close>, which the code compares or widens.\<close>

definition f32_lt :: "u32 \<Rightarrow> u32 \<Rightarrow> bool" where
  "f32_lt a b \<longleftrightarrow> \<not> f32_is_nan a \<and> \<not> f32_is_nan b \<and> f_key a < f_key b"

definition f32_le :: "u32 \<Rightarrow> u32 \<Rightarrow> bool" where
  "f32_le a b \<longleftrightarrow> \<not> f32_is_nan a \<and> \<not> f32_is_nan b \<and> f_key a \<le> f_key b"

definition f32_eq :: "u32 \<Rightarrow> u32 \<Rightarrow> bool" where
  "f32_eq a b \<longleftrightarrow> \<not> f32_is_nan a \<and> \<not> f32_is_nan b \<and> f_key a = f_key b"

definition fflags_set :: "u32 \<Rightarrow> u32 \<Rightarrow> u32" where
  "fflags_set fcs flags = fcs OR (flags AND 0x1f)"

definition resolve_rm :: "u32 \<Rightarrow> u32 \<Rightarrow> u32 option" where
  "resolve_rm fcs rm =
    (let rm = (if rm = RV_RM_DYN then drop_bit 5 fcs AND 7 else rm)
     in if rm > RV_RM_RMM then None else Some rm)"

subsection \<open>Rounding to single precision\<close>

text \<open>The position of the exact value between the integers \<open>ip\<close> and \<open>ip + 1\<close>.\<close>

definition frac_of :: "u64 \<Rightarrow> u64 \<Rightarrow> u64 \<Rightarrow> u64 \<times> frac_pos" where
  "frac_of ip fr lo_mag =
    (if d_eq fr 0 then
       (if d_eq lo_mag 0 then (ip, FRAC_ZERO)
        else if d_lt 0 lo_mag then (ip, FRAC_BELOW_HALF)
        else (d_sub ip d_1, FRAC_ABOVE_HALF))
     else if d_lt fr d_half then (ip, FRAC_BELOW_HALF)
     else if d_lt d_half fr then (ip, FRAC_ABOVE_HALF)
     else if d_lt 0 lo_mag then (ip, FRAC_ABOVE_HALF)
     else if d_lt lo_mag 0 then (ip, FRAC_BELOW_HALF)
     else (ip, FRAC_HALF))"

definition round_up :: "u32 \<Rightarrow> bool \<Rightarrow> frac_pos \<Rightarrow> u64 \<Rightarrow> bool" where
  "round_up rm sign frac ip =
    (let inexact = (frac \<noteq> FRAC_ZERO) in
     if rm = RV_RM_RNE then frac = FRAC_ABOVE_HALF \<or> (frac = FRAC_HALF \<and> d_is_odd ip)
     else if rm = RV_RM_RTZ then False
     else if rm = RV_RM_RDN then sign \<and> inexact
     else if rm = RV_RM_RUP then \<not> sign \<and> inexact
     else frac = FRAC_ABOVE_HALF \<or> frac = FRAC_HALF)"

definition overflow_result :: "u32 \<Rightarrow> bool \<Rightarrow> u32" where
  "overflow_result rm sign =
    (if rm = RV_RM_RTZ then (if sign then 0xff7fffff else 0x7f7fffff)
     else if rm = RV_RM_RDN then (if sign then 0xff800000 else 0x7f7fffff)
     else if rm = RV_RM_RUP then (if sign then 0xff7fffff else 0x7f800000)
     else (if sign then 0xff800000 else 0x7f800000))"

text \<open>The precision \<open>p\<close> and exponent \<open>e\<close> at which the magnitude is cut.\<close>

definition cut_at :: "int \<Rightarrow> int \<times> int" where
  "cut_at e =
    (let p = (if e < -125 then 24 + (e + 125) else 24)
     in if p \<le> 0 then (0, -149) else (p, e))"

definition f32_round :: "u32 \<Rightarrow> u64 \<Rightarrow> u64 \<Rightarrow> u32 \<Rightarrow> bool \<Rightarrow> u32 \<times> u32" where
  "f32_round fcs hi lo rm sign_of_zero =
    (if \<not> d_eq hi hi then (F32_CANON_NAN, fcs)
     else if d_eq hi 0 \<and> d_eq lo 0 then (if sign_of_zero then 0x80000000 else 0, fcs)
     else
       let (hi, lo) = (if d_eq hi 0 then (lo, 0) else (hi, lo));
           sign = d_lt hi 0;
           a = (if sign then d_minus hi else hi);
           lo_mag = (if sign then d_minus lo else lo)
       in if d_is_inf a then (if sign then 0xff800000 else 0x7f800000, fcs)
       else
         let (m, e) = d_frexp a;
             e = (if d_eq m d_half \<and> d_lt lo_mag 0 then e - 1 else e);
             (p, e) = cut_at e;
             scaled = d_ldexp a (p - e);
             ip = d_floor scaled;
             fr = d_sub scaled ip;
             (ip, frac) = frac_of ip fr lo_mag;
             inexact = (frac \<noteq> FRAC_ZERO);
             ip = (if round_up rm sign frac ip then d_add ip d_1 else ip);
             mag = d_ldexp ip (e - p)
         in if d_ge mag (d_ldexp d_1 128)
            then (overflow_result rm sign, fflags_set fcs (RV_FFLAG_OF OR RV_FFLAG_NX))
            else
              let fcs = (if inexact then fflags_set fcs RV_FFLAG_NX else fcs);
                  fcs = (if inexact \<and> d_lt mag (d_ldexp d_1 (-126))
                         then fflags_set fcs RV_FFLAG_UF else fcs)
              in if d_eq mag 0 then (if sign then 0x80000000 else 0, fcs)
                 else (f_of_d (if sign then d_minus mag else mag), fcs))"

subsection \<open>Arithmetic\<close>

text \<open>\<open>fp_nan2\<close>: the new flags, and the result when an operand is NaN.\<close>

definition fp_nan2 :: "u32 \<Rightarrow> u32 \<Rightarrow> u32 \<Rightarrow> u32 \<times> u32 option" where
  "fp_nan2 fcs a b =
    (let fcs = (if f32_is_snan a \<or> f32_is_snan b then fflags_set fcs RV_FFLAG_NV else fcs)
     in (fcs, if f32_is_nan a \<or> f32_is_nan b then Some F32_CANON_NAN else None))"

definition fp_add :: "u32 \<Rightarrow> u32 \<Rightarrow> u32 \<Rightarrow> u32 \<Rightarrow> u32 \<times> u32" where
  "fp_add fcs a b rm =
    (case fp_nan2 fcs a b of
       (fcs, Some out) \<Rightarrow> (out, fcs)
     | (fcs, None) \<Rightarrow>
         if f32_is_inf a \<or> f32_is_inf b then
           (if f32_is_inf a \<and> f32_is_inf b \<and> f32_sign a \<noteq> f32_sign b
            then (F32_CANON_NAN, fflags_set fcs RV_FFLAG_NV)
            else (if f32_is_inf a then a else b, fcs))
         else if f32_is_zero a \<and> f32_is_zero b then
           (if f32_sign a = f32_sign b then (a, fcs)
            else (if rm = RV_RM_RDN then 0x80000000 else 0, fcs))
         else let (hi, lo) = two_sum (d_of_f a) (d_of_f b)
              in f32_round fcs hi lo rm (rm = RV_RM_RDN))"

definition fp_mul :: "u32 \<Rightarrow> u32 \<Rightarrow> u32 \<Rightarrow> u32 \<Rightarrow> u32 \<times> u32" where
  "fp_mul fcs a b rm =
    (case fp_nan2 fcs a b of
       (fcs, Some out) \<Rightarrow> (out, fcs)
     | (fcs, None) \<Rightarrow>
         let sign = (f32_sign a \<noteq> f32_sign b) in
         if f32_is_inf a \<or> f32_is_inf b then
           (if f32_is_zero a \<or> f32_is_zero b
            then (F32_CANON_NAN, fflags_set fcs RV_FFLAG_NV)
            else (if sign then 0xff800000 else 0x7f800000, fcs))
         else if f32_is_zero a \<or> f32_is_zero b then (if sign then 0x80000000 else 0, fcs)
         else f32_round fcs (d_mul (d_of_f a) (d_of_f b)) 0 rm sign)"

definition fp_div :: "u32 \<Rightarrow> u32 \<Rightarrow> u32 \<Rightarrow> u32 \<Rightarrow> u32 \<times> u32" where
  "fp_div fcs a b rm =
    (case fp_nan2 fcs a b of
       (fcs, Some out) \<Rightarrow> (out, fcs)
     | (fcs, None) \<Rightarrow>
         let sign = (f32_sign a \<noteq> f32_sign b) in
         if f32_is_inf a \<and> f32_is_inf b then (F32_CANON_NAN, fflags_set fcs RV_FFLAG_NV)
         else if f32_is_zero a \<and> f32_is_zero b then (F32_CANON_NAN, fflags_set fcs RV_FFLAG_NV)
         else if f32_is_inf a then (if sign then 0xff800000 else 0x7f800000, fcs)
         else if f32_is_inf b \<or> f32_is_zero a then (if sign then 0x80000000 else 0, fcs)
         else if f32_is_zero b then
           (if sign then 0xff800000 else 0x7f800000, fflags_set fcs RV_FFLAG_DZ)
         else
           let da = d_of_f a; db = d_of_f b; q = d_div da db; r = remainder_exact da q db
           in f32_round fcs q (if d_eq r 0 then 0 else if d_lt db 0 then d_minus r else r)
                rm sign)"

definition fp_sqrt :: "u32 \<Rightarrow> u32 \<Rightarrow> u32 \<Rightarrow> u32 \<times> u32" where
  "fp_sqrt fcs a rm =
    (let fcs = (if f32_is_snan a then fflags_set fcs RV_FFLAG_NV else fcs) in
     if f32_is_nan a then (F32_CANON_NAN, fcs)
     else if f32_is_zero a then (a, fcs)
     else if f32_sign a then (F32_CANON_NAN, fflags_set fcs RV_FFLAG_NV)
     else if f32_is_inf a then (a, fcs)
     else let da = d_of_f a; q = d_sqrt da; r = remainder_exact da q q
          in f32_round fcs q r rm False)"

definition fp_fma :: "u32 \<Rightarrow> u32 \<Rightarrow> u32 \<Rightarrow> u32 \<Rightarrow> u32 \<Rightarrow> u32 \<times> u32" where
  "fp_fma fcs a b c rm =
    (let fcs = (if f32_is_snan a \<or> f32_is_snan b \<or> f32_is_snan c
                then fflags_set fcs RV_FFLAG_NV else fcs);
         psign = (f32_sign a \<noteq> f32_sign b);
         invalid = ((f32_is_inf a \<and> f32_is_zero b) \<or> (f32_is_zero a \<and> f32_is_inf b))
     in if invalid then (F32_CANON_NAN, fflags_set fcs RV_FFLAG_NV)
     else if f32_is_nan a \<or> f32_is_nan b \<or> f32_is_nan c then (F32_CANON_NAN, fcs)
     else if f32_is_inf a \<or> f32_is_inf b then
       (if f32_is_inf c \<and> f32_sign c \<noteq> psign then (F32_CANON_NAN, fflags_set fcs RV_FFLAG_NV)
        else (if psign then 0xff800000 else 0x7f800000, fcs))
     else if f32_is_inf c then (c, fcs)
     else
       let p = d_mul (d_of_f a) (d_of_f b) in
       if d_eq p 0 \<and> f32_is_zero c then
         (if psign = f32_sign c then (if psign then 0x80000000 else 0, fcs)
          else (if rm = RV_RM_RDN then 0x80000000 else 0, fcs))
       else let (hi, err) = two_sum p (d_of_f c); lo = err
            in f32_round fcs hi lo rm (rm = RV_RM_RDN))"

definition fp_minmax :: "u32 \<Rightarrow> u32 \<Rightarrow> u32 \<Rightarrow> bool \<Rightarrow> u32 \<times> u32" where
  "fp_minmax fcs a b is_max =
    (let fcs = (if f32_is_snan a \<or> f32_is_snan b then fflags_set fcs RV_FFLAG_NV else fcs) in
     if f32_is_nan a \<and> f32_is_nan b then (F32_CANON_NAN, fcs)
     else if f32_is_nan a then (b, fcs)
     else if f32_is_nan b then (a, fcs)
     else if f32_is_zero a \<and> f32_is_zero b then
       (let sa = f32_sign a in
        if is_max then (if sa then b else a, fcs) else (if sa then a else b, fcs))
     else if is_max then (if f32_lt b a then a else b, fcs)
     else (if f32_lt a b then a else b, fcs))"

subsection \<open>Conversion to integers and classification\<close>

definition round_integral :: "u64 \<Rightarrow> u32 \<Rightarrow> u64" where
  "round_integral d rm =
    (let f = d_floor d; diff = d_sub d f in
     if rm = RV_RM_RTZ then (if d_lt d 0 then d_ceil d else f)
     else if rm = RV_RM_RDN then f
     else if rm = RV_RM_RUP then d_ceil d
     else if rm = RV_RM_RMM then
       (if d_lt d_half diff then d_add f d_1
        else if d_lt diff d_half then f
        else if d_lt d 0 then f else d_add f d_1)
     else
       (if d_lt d_half diff then d_add f d_1
        else if d_lt diff d_half then f
        else if d_is_odd f then d_add f d_1 else f))"

text \<open>The four limits: 0, \<open>-2 ^ 31\<close>, \<open>2 ^ 32 - 1\<close> and \<open>2 ^ 31 - 1\<close> as doubles.\<close>

definition fp_to_int :: "u32 \<Rightarrow> u32 \<Rightarrow> bool \<Rightarrow> u32 \<Rightarrow> u32 \<times> u32" where
  "fp_to_int fcs a is_unsigned rm =
    (if f32_is_nan a then
       (if is_unsigned then 0xffffffff else 0x7fffffff, fflags_set fcs RV_FFLAG_NV)
     else
       let lim_lo = (if is_unsigned then 0 else 0xc1e0000000000000);
           lim_hi = (if is_unsigned then 0x41efffffffe00000 else 0x41dfffffffc00000)
       in if f32_is_inf a then
         (if f32_sign a then (if is_unsigned then 0 else 0x80000000)
          else (if is_unsigned then 0xffffffff else 0x7fffffff), fflags_set fcs RV_FFLAG_NV)
       else
         let d = d_of_f a; r = round_integral d rm in
         if d_lt r lim_lo then
           (if is_unsigned then 0 else 0x80000000, fflags_set fcs RV_FFLAG_NV)
         else if d_lt lim_hi r then
           (if is_unsigned then 0xffffffff else 0x7fffffff, fflags_set fcs RV_FFLAG_NV)
         else (word_of_int (d_trunc r),
               if \<not> d_eq r d then fflags_set fcs RV_FFLAG_NX else fcs))"

definition fp_class :: "u32 \<Rightarrow> u32" where
  "fp_class a =
    (let sign = f32_sign a; ex = drop_bit 23 a AND 0xff; man = a AND 0x7fffff in
     if ex = 0xff then
       (if man = 0 then (if sign then push_bit 0 1 else push_bit 7 1)
        else if man AND 0x400000 \<noteq> 0 then push_bit 9 1 else push_bit 8 1)
     else if ex = 0 then
       (if man = 0 then (if sign then push_bit 3 1 else push_bit 4 1)
        else if sign then push_bit 2 1 else push_bit 5 1)
     else if sign then push_bit 1 1 else push_bit 6 1)"

end
