(* ===== verification/Rv_Exec.thy ===== *)
theory Rv_Exec
  imports Rv_Decode Rv_Bus Rv_Csr Rv_Bitmanip Rv_Fp
begin

text \<open>
  Execution of one 32-bit encoding: the function \<open>exec\<close> of \<^verbatim>\<open>src/rv32-emulator/demo/rv32.c\<close>, one
  definition per major opcode. The C function leaves its big switch in four ways: by
  \<open>break\<close>, after which x0 is cleared and \<open>next\<close> returned; by an early \<open>return\<close>; and by a
  jump to one of the labels \<open>zb_reg\<close> and \<open>zb_imm\<close>, always before anything was changed.
\<close>

datatype 'w flow = Brk "'w rv_cpu" u32 | Ret "'w rv_cpu" u32 | Zb_reg | Zb_imm

definition illegal :: "u32 \<Rightarrow> 'w rv_cpu \<Rightarrow> 'w rv_cpu" where
  "illegal insn s = rv_trap RV_CAUSE_ILLEGAL_INSN insn (tr_push RV_TR_ILLEGAL (pc s) insn 0 None s)"

subsection \<open>Jumps and branches\<close>

definition exec_jal :: "u32 \<Rightarrow> u32 \<Rightarrow> 'w rv_cpu \<Rightarrow> 'w flow" where
  "exec_jal insn nxt s = (let val = pc s + imm_j insn in Brk (setx (RD insn) nxt s) val)"

definition exec_jalr :: "u32 \<Rightarrow> u32 \<Rightarrow> 'w rv_cpu \<Rightarrow> 'w flow" where
  "exec_jalr insn nxt s =
    (if FUNCT3 insn \<noteq> 0 then Ret (illegal insn s) nxt
     else let val = (getx s (RS1 insn) + imm_i insn) AND NOT 1
          in Brk (setx (RD insn) nxt s) val)"

text \<open>The branch condition; \<^const>\<open>None\<close> for the two funct3 codes that name no branch.\<close>

definition branch_taken :: "u32 \<Rightarrow> u32 \<Rightarrow> u32 \<Rightarrow> bool option" where
  "branch_taken f3 a b =
    (if f3 = 0 then Some (a = b)                                 \<comment> \<open>beq\<close>
     else if f3 = 1 then Some (a \<noteq> b)                            \<comment> \<open>bne\<close>
     else if f3 = 4 then Some (a <s b)                           \<comment> \<open>blt\<close>
     else if f3 = 5 then Some (b \<le>s a)                           \<comment> \<open>bge\<close>
     else if f3 = 6 then Some (a < b)                            \<comment> \<open>bltu\<close>
     else if f3 = 7 then Some (b \<le> a)                            \<comment> \<open>bgeu\<close>
     else None)"

definition exec_branch :: "u32 \<Rightarrow> u32 \<Rightarrow> 'w rv_cpu \<Rightarrow> 'w flow" where
  "exec_branch insn nxt s =
    (case branch_taken (FUNCT3 insn) (getx s (RS1 insn)) (getx s (RS2 insn)) of
       None \<Rightarrow> Ret (illegal insn s) nxt
     | Some taken \<Rightarrow> Brk s (if taken then pc s + imm_b insn else nxt))"

subsection \<open>Loads and stores\<close>

definition load_into ::
    "'w rv_host \<Rightarrow> u32 \<Rightarrow> u32 \<Rightarrow> (u32 \<Rightarrow> u32) \<Rightarrow> u32 \<Rightarrow> u32 \<Rightarrow> 'w rv_cpu \<Rightarrow> 'w flow" where
  "load_into h addr sz ext rd nxt s =
    (case mem_read h addr sz s of
       (s, None) \<Rightarrow> Ret s nxt
     | (s, Some val) \<Rightarrow> Brk (setx rd (ext val) s) nxt)"

definition exec_load :: "'w rv_host \<Rightarrow> u32 \<Rightarrow> u32 \<Rightarrow> 'w rv_cpu \<Rightarrow> 'w flow" where
  "exec_load h insn nxt s =
    (let addr = getx s (RS1 insn) + imm_i insn; rd = RD insn; f3 = FUNCT3 insn in
     if f3 = 0 then load_into h addr 1 sext8 rd nxt s                        \<comment> \<open>lb\<close>
     else if f3 = 1 then load_into h addr 2 sext16 rd nxt s                  \<comment> \<open>lh\<close>
     else if f3 = 2 then load_into h addr 4 (\<lambda>v. v) rd nxt s                 \<comment> \<open>lw\<close>
     else if f3 = 4 then load_into h addr 1 (\<lambda>v. v AND 0xff) rd nxt s        \<comment> \<open>lbu\<close>
     else if f3 = 5 then load_into h addr 2 (\<lambda>v. v AND 0xffff) rd nxt s      \<comment> \<open>lhu\<close>
     else Ret (illegal insn s) nxt)"

definition exec_store :: "'w rv_host \<Rightarrow> u32 \<Rightarrow> u32 \<Rightarrow> 'w rv_cpu \<Rightarrow> 'w flow" where
  "exec_store h insn nxt s =
    (let addr = getx s (RS1 insn) + imm_s insn; b = getx s (RS2 insn); f3 = FUNCT3 insn in
     if f3 = 0 then Brk (fst (mem_write h addr 1 b s)) nxt
     else if f3 = 1 then Brk (fst (mem_write h addr 2 b s)) nxt
     else if f3 = 2 then Brk (fst (mem_write h addr 4 b s)) nxt
     else Ret (illegal insn s) nxt)"

definition exec_load_fp :: "'w rv_host \<Rightarrow> u32 \<Rightarrow> u32 \<Rightarrow> 'w rv_cpu \<Rightarrow> 'w flow" where
  "exec_load_fp h insn nxt s =
    (if FUNCT3 insn \<noteq> 2 then Ret (illegal insn s) nxt
     else case mem_read h (getx s (RS1 insn) + imm_i insn) 4 s of
       (s, None) \<Rightarrow> Ret s nxt
     | (s, Some val) \<Rightarrow> Brk (setf (RD insn) val s) nxt)"

definition exec_store_fp :: "'w rv_host \<Rightarrow> u32 \<Rightarrow> u32 \<Rightarrow> 'w rv_cpu \<Rightarrow> 'w flow" where
  "exec_store_fp h insn nxt s =
    (if FUNCT3 insn \<noteq> 2 then Ret (illegal insn s) nxt
     else Brk (fst (mem_write h (getx s (RS1 insn) + imm_s insn) 4 (getf s (RS2 insn)) s)) nxt)"

subsection \<open>Integer arithmetic\<close>

text \<open>
  The value of a register-immediate instruction; \<^const>\<open>None\<close> is the jump to \<open>zb_imm\<close>.
\<close>

definition alu_imm :: "u32 \<Rightarrow> u32 \<Rightarrow> u32 \<Rightarrow> u32 \<Rightarrow> u32 option" where
  "alu_imm f3 f7 a imm =
    (let shamt = imm AND 0x1f in
     if f3 = 0 then Some (a + imm)                               \<comment> \<open>addi\<close>
     else if f3 = 2 then Some (c_bool (a <s imm))                \<comment> \<open>slti\<close>
     else if f3 = 3 then Some (c_bool (a < imm))                 \<comment> \<open>sltiu\<close>
     else if f3 = 4 then Some (a XOR imm)                        \<comment> \<open>xori\<close>
     else if f3 = 6 then Some (a OR imm)                         \<comment> \<open>ori\<close>
     else if f3 = 7 then Some (a AND imm)                        \<comment> \<open>andi\<close>
     else if f3 = 1 then (if f7 \<noteq> 0 then None else Some (shl a shamt))       \<comment> \<open>slli\<close>
     else if f7 = 0 then Some (shr a shamt)                      \<comment> \<open>srli\<close>
     else if f7 = 0x20 then Some (sar a shamt)                   \<comment> \<open>srai\<close>
     else None)"

definition exec_op_imm :: "u32 \<Rightarrow> u32 \<Rightarrow> 'w rv_cpu \<Rightarrow> 'w flow" where
  "exec_op_imm insn nxt s =
    (case alu_imm (FUNCT3 insn) (FUNCT7 insn) (getx s (RS1 insn)) (imm_i insn) of
       None \<Rightarrow> Zb_imm
     | Some v \<Rightarrow> Brk (setx (RD insn) v s) nxt)"

text \<open>The M extension. The casts to 64 bits follow the operand's signedness.\<close>

definition alu_m :: "u32 \<Rightarrow> u32 \<Rightarrow> u32 \<Rightarrow> u32" where
  "alu_m f3 a b =
    (if f3 = 0 then a * b                                                    \<comment> \<open>mul\<close>
     else if f3 = 1 then ucast (signed_drop_bit 32 (scast a * scast b :: u64))   \<comment> \<open>mulh\<close>
     else if f3 = 2 then ucast (signed_drop_bit 32 (scast a * ucast b :: u64))   \<comment> \<open>mulhsu\<close>
     else if f3 = 3 then ucast (drop_bit 32 (ucast a * ucast b :: u64))          \<comment> \<open>mulhu\<close>
     else if f3 = 4 then                                                     \<comment> \<open>div\<close>
       (if b = 0 then 0xffffffff
        else if a = 0x80000000 \<and> b = 0xffffffff then 0x80000000
        else word_of_int (sint a sdiv sint b))
     else if f3 = 5 then (if b = 0 then 0xffffffff else a div b)             \<comment> \<open>divu\<close>
     else if f3 = 6 then                                                     \<comment> \<open>rem\<close>
       (if b = 0 then a
        else if a = 0x80000000 \<and> b = 0xffffffff then 0
        else word_of_int (sint a smod sint b))
     else (if b = 0 then a else a mod b))"                                   \<comment> \<open>remu\<close>

text \<open>The value of a register-register instruction; \<^const>\<open>None\<close> is the jump to \<open>zb_reg\<close>.\<close>

definition alu_reg :: "u32 \<Rightarrow> u32 \<Rightarrow> u32 \<Rightarrow> u32 \<Rightarrow> u32 option" where
  "alu_reg f3 f7 a b =
    (if f7 = 0x01 then Some (alu_m f3 a b)
     else if f7 \<noteq> 0 \<and> f7 \<noteq> 0x20 then None
     else if f3 = 0 then Some (if f7 = 0x20 then a - b else a + b)           \<comment> \<open>add / sub\<close>
     else if f3 = 1 then (if f7 \<noteq> 0 then None else Some (shl a (b AND 0x1f)))        \<comment> \<open>sll\<close>
     else if f3 = 2 then (if f7 \<noteq> 0 then None else Some (c_bool (a <s b)))           \<comment> \<open>slt\<close>
     else if f3 = 3 then (if f7 \<noteq> 0 then None else Some (c_bool (a < b)))            \<comment> \<open>sltu\<close>
     else if f3 = 4 then (if f7 \<noteq> 0 then None else Some (a XOR b))           \<comment> \<open>xor\<close>
     else if f3 = 5 then
       (if f7 = 0 then Some (shr a (b AND 0x1f)) else Some (sar a (b AND 0x1f)))     \<comment> \<open>srl / sra\<close>
     else if f3 = 6 then (if f7 \<noteq> 0 then None else Some (a OR b))            \<comment> \<open>or\<close>
     else (if f7 \<noteq> 0 then None else Some (a AND b)))"                        \<comment> \<open>and\<close>

definition exec_op_reg :: "u32 \<Rightarrow> u32 \<Rightarrow> 'w rv_cpu \<Rightarrow> 'w flow" where
  "exec_op_reg insn nxt s =
    (case alu_reg (FUNCT3 insn) (FUNCT7 insn) (getx s (RS1 insn)) (getx s (RS2 insn)) of
       None \<Rightarrow> Zb_reg
     | Some v \<Rightarrow> Brk (setx (RD insn) v s) nxt)"

subsection \<open>Atomics\<close>

text \<open>The new memory value of a read-modify-write; \<^const>\<open>None\<close> for an unknown funct5.\<close>

definition amo_op :: "u32 \<Rightarrow> u32 \<Rightarrow> u32 \<Rightarrow> u32 option" where
  "amo_op funct5 old b =
    (if funct5 = 0x00 then Some (old + b)                        \<comment> \<open>amoadd\<close>
     else if funct5 = 0x01 then Some b                           \<comment> \<open>amoswap\<close>
     else if funct5 = 0x04 then Some (old XOR b)                 \<comment> \<open>amoxor\<close>
     else if funct5 = 0x08 then Some (old OR b)                  \<comment> \<open>amoor\<close>
     else if funct5 = 0x0c then Some (old AND b)                 \<comment> \<open>amoand\<close>
     else if funct5 = 0x10 then Some (if old <s b then old else b)
     else if funct5 = 0x14 then Some (if b <s old then old else b)
     else if funct5 = 0x18 then Some (if old < b then old else b)            \<comment> \<open>amominu\<close>
     else if funct5 = 0x1c then Some (if b < old then old else b)            \<comment> \<open>amomaxu\<close>
     else None)"

definition exec_lr :: "'w rv_host \<Rightarrow> u32 \<Rightarrow> u32 \<Rightarrow> u32 \<Rightarrow> 'w rv_cpu \<Rightarrow> 'w flow" where
  "exec_lr h insn addr nxt s =
    (if RS2 insn \<noteq> 0 then Ret (illegal insn s) nxt
     else case mem_read h addr 4 s of
       (s, None) \<Rightarrow> Ret s nxt
     | (s, Some old) \<Rightarrow> Brk (setx (RD insn) old (s\<lparr>res_addr := addr, res_valid := True\<rparr>)) nxt)"

definition exec_sc :: "'w rv_host \<Rightarrow> u32 \<Rightarrow> u32 \<Rightarrow> u32 \<Rightarrow> u32 \<Rightarrow> 'w rv_cpu \<Rightarrow> 'w flow" where
  "exec_sc h insn addr b nxt s =
    (if res_valid s \<and> res_addr s = addr then
       (case mem_write h addr 4 b s of
          (s, False) \<Rightarrow> Ret s nxt
        | (s, True) \<Rightarrow> Brk ((setx (RD insn) 0 s)\<lparr>res_valid := False\<rparr>) nxt)
     else Brk ((setx (RD insn) 1 s)\<lparr>res_valid := False\<rparr>) nxt)"

definition exec_amo :: "'w rv_host \<Rightarrow> u32 \<Rightarrow> u32 \<Rightarrow> 'w rv_cpu \<Rightarrow> 'w flow" where
  "exec_amo h insn nxt s =
    (let funct5 = drop_bit 27 insn AND 0x1f;
         addr = getx s (RS1 insn); b = getx s (RS2 insn)
     in if \<not> atomics s \<or> FUNCT3 insn \<noteq> 2 then Ret (illegal insn s) nxt
     else if addr AND 3 \<noteq> 0 then
       (let cause = (if funct5 = 0x02 then RV_CAUSE_LOAD_MISALIGNED else RV_CAUSE_STORE_MISALIGNED);
            s = tr_push (if funct5 = 0x02 then RV_TR_LOAD_MISALIGN else RV_TR_STORE_MISALIGN)
                  (pc s) insn addr (Some ''unaligned atomic'') s
        in Ret (rv_trap cause addr s) nxt)
     else if funct5 = 0x02 then exec_lr h insn addr nxt s
     else if funct5 = 0x03 then exec_sc h insn addr b nxt s
     else case mem_read h addr 4 s of
       (s, None) \<Rightarrow> Ret s nxt
     | (s, Some old) \<Rightarrow>
         (case amo_op funct5 old b of
            None \<Rightarrow> Ret (illegal insn s) nxt
          | Some val \<Rightarrow>
              (case mem_write h addr 4 val s of
                 (s, False) \<Rightarrow> Ret s nxt
               | (s, True) \<Rightarrow> Brk (setx (RD insn) old s) nxt)))"

subsection \<open>Floating point\<close>

text \<open>Store a result with the flags it accrued, into a float or an integer register.\<close>

definition put_f :: "u32 \<Rightarrow> u32 \<times> u32 \<Rightarrow> 'w rv_cpu \<Rightarrow> 'w rv_cpu" where
  "put_f rd r s = setf rd (fst r) (s\<lparr>fcsr := snd r\<rparr>)"

definition put_x :: "u32 \<Rightarrow> u32 \<times> u32 \<Rightarrow> 'w rv_cpu \<Rightarrow> 'w rv_cpu" where
  "put_x rd r s = setx rd (fst r) (s\<lparr>fcsr := snd r\<rparr>)"

definition exec_fma :: "u32 \<Rightarrow> u32 \<Rightarrow> 'w rv_cpu \<Rightarrow> 'w flow" where
  "exec_fma insn nxt s =
    (let fa = getf s (RS1 insn); fb = getf s (RS2 insn); fc = getf s (RS3 insn) in
     if drop_bit 25 insn AND 3 \<noteq> 0 then Ret (illegal insn s) nxt
     else case resolve_rm (fcsr s) (FUNCT3 insn) of
       None \<Rightarrow> Ret (illegal insn s) nxt
     | Some rm \<Rightarrow>
         let opc = OPCODE insn;
             (fa, fc) =
               (if opc = OP_MADD then (fa, fc)
                else if opc = OP_MSUB then (fa, fc XOR 0x80000000)
                else if opc = OP_NMSUB then (fa XOR 0x80000000, fc)
                else (fa XOR 0x80000000, fc XOR 0x80000000))
         in Brk (put_f (RD insn) (fp_fma (fcsr s) fa fb fc rm) s) nxt)"

text \<open>The comparisons feq, flt and fle, with the flags.\<close>

definition fp_compare :: "u32 \<Rightarrow> u32 \<Rightarrow> u32 \<Rightarrow> u32 \<Rightarrow> u32 \<times> u32" where
  "fp_compare fcs f3 fa fb =
    (if f3 = 2 then
       (c_bool (\<not> f32_is_nan fa \<and> \<not> f32_is_nan fb \<and> f32_eq fa fb),
        if f32_is_snan fa \<or> f32_is_snan fb then fflags_set fcs RV_FFLAG_NV else fcs)
     else if f32_is_nan fa \<or> f32_is_nan fb then (0, fflags_set fcs RV_FFLAG_NV)
     else if f3 = 1 then (c_bool (f32_lt fa fb), fcs)
     else (c_bool (f32_le fa fb), fcs))"

definition with_rm :: "u32 \<Rightarrow> u32 \<Rightarrow> 'w rv_cpu \<Rightarrow> (u32 \<Rightarrow> 'w rv_cpu) \<Rightarrow> 'w flow" where
  "with_rm insn nxt s body =
    (case resolve_rm (fcsr s) (FUNCT3 insn) of
       None \<Rightarrow> Ret (illegal insn s) nxt
     | Some rm \<Rightarrow> Brk (body rm) nxt)"

definition exec_fp :: "u32 \<Rightarrow> u32 \<Rightarrow> 'w rv_cpu \<Rightarrow> 'w flow" where
  "exec_fp insn nxt s =
    (let rd = RD insn; rs2 = RS2 insn; f3 = FUNCT3 insn; f7 = FUNCT7 insn;
         a = getx s (RS1 insn); fa = getf s (RS1 insn); fb = getf s rs2; fcs = fcsr s;
         k = drop_bit 2 f7; bad = Ret (illegal insn s) nxt
     in if f7 AND 3 \<noteq> 0 then bad
     else if k = 0x00 then with_rm insn nxt s (\<lambda>rm. put_f rd (fp_add fcs fa fb rm) s)
     else if k = 0x01 then
       with_rm insn nxt s (\<lambda>rm. put_f rd (fp_add fcs fa (fb XOR 0x80000000) rm) s)
     else if k = 0x02 then with_rm insn nxt s (\<lambda>rm. put_f rd (fp_mul fcs fa fb rm) s)
     else if k = 0x03 then with_rm insn nxt s (\<lambda>rm. put_f rd (fp_div fcs fa fb rm) s)
     else if k = 0x0b then
       (if rs2 \<noteq> 0 then bad else with_rm insn nxt s (\<lambda>rm. put_f rd (fp_sqrt fcs fa rm) s))
     else if k = 0x04 then
       (if f3 = 0 then Brk (setf rd ((fa AND 0x7fffffff) OR (fb AND 0x80000000)) s) nxt
        else if f3 = 1 then Brk (setf rd ((fa AND 0x7fffffff) OR (NOT fb AND 0x80000000)) s) nxt
        else if f3 = 2 then Brk (setf rd (fa XOR (fb AND 0x80000000)) s) nxt
        else bad)
     else if k = 0x05 then
       (if f3 > 1 then bad else Brk (put_f rd (fp_minmax fcs fa fb (f3 \<noteq> 0)) s) nxt)
     else if k = 0x14 then
       (if f3 > 2 then bad else Brk (put_x rd (fp_compare fcs f3 fa fb) s) nxt)
     else if k = 0x18 then
       (if rs2 > 1 then bad
        else with_rm insn nxt s (\<lambda>rm. put_x rd (fp_to_int fcs fa (rs2 \<noteq> 0) rm) s))
     else if k = 0x1a then
       (if rs2 > 1 then bad
        else with_rm insn nxt s (\<lambda>rm.
          put_f rd (if rs2 = 0 then f32_round fcs (d_of_int (sint a)) 0 rm (sint a < 0)
                    else f32_round fcs (d_of_int (uint a)) 0 rm False) s))
     else if k = 0x1c then
       (if rs2 \<noteq> 0 then bad
        else if f3 = 0 then Brk (setx rd fa s) nxt
        else if f3 = 1 then Brk (setx rd (fp_class fa) s) nxt
        else bad)
     else if k = 0x1e then
       (if rs2 \<noteq> 0 \<or> f3 \<noteq> 0 then bad else Brk (setf rd a s) nxt)
     else bad)"

subsection \<open>System instructions\<close>

definition exec_ecall :: "'w rv_host \<Rightarrow> u32 \<Rightarrow> u32 \<Rightarrow> 'w rv_cpu \<Rightarrow> 'w flow" where
  "exec_ecall h insn nxt s =
    (let s = tr_push RV_TR_ECALL (pc s) insn (getx s 17) None s in
     case ecall h of
       None \<Rightarrow> Ret (rv_trap RV_CAUSE_ECALL_M 0 s) nxt
     | Some call \<Rightarrow>
         (case call s of
            (s, True) \<Rightarrow> Brk s nxt
          | (s, False) \<Rightarrow> Ret (rv_trap RV_CAUSE_ECALL_M 0 s) nxt))"

definition exec_mret :: "'w rv_cpu \<Rightarrow> 'w flow" where
  "exec_mret s =
    (let s = s\<lparr>mstatus := mstatus s OR RV_MSTATUS_MIE\<rparr>;
         s = (if mstatus s AND RV_MSTATUS_MPIE = 0
              then s\<lparr>mstatus := mstatus s AND NOT RV_MSTATUS_MIE\<rparr> else s);
         s = s\<lparr>mstatus := mstatus s OR RV_MSTATUS_MPIE\<rparr>
     in Ret s (mepc s))"

text \<open>Zicsr.\<close>

definition exec_csr :: "u32 \<Rightarrow> u32 \<Rightarrow> 'w rv_cpu \<Rightarrow> 'w flow" where
  "exec_csr insn nxt s =
    (let rd = RD insn; rs1 = RS1 insn; f3 = FUNCT3 insn;
         csr = drop_bit 20 insn;
         val = (if f3 AND 4 \<noteq> 0 then rs1 else getx s rs1)
     in if f3 = 4 then Ret (illegal insn s) nxt
     else case (if f3 AND 3 = 1 \<and> rd = 0 then Some 0 else csr_read s csr) of
       None \<Rightarrow> Ret (illegal insn s) nxt
     | Some old \<Rightarrow>
         if f3 AND 3 \<noteq> 1 \<and> rs1 = 0 then Brk (setx rd old s) nxt
         else
           let val = (if f3 AND 3 = 1 then val
                      else if f3 AND 3 = 2 then old OR val
                      else old AND NOT val)
           in case csr_write csr val s of
                None \<Rightarrow> Ret (illegal insn s) nxt
              | Some s \<Rightarrow> Brk (tr_push RV_TR_CSR (pc s) insn csr None (setx rd old s)) nxt)"

definition exec_system :: "'w rv_host \<Rightarrow> u32 \<Rightarrow> u32 \<Rightarrow> 'w rv_cpu \<Rightarrow> 'w flow" where
  "exec_system h insn nxt s =
    (if FUNCT3 insn = 0 then
       (if insn = 0x00000073 then exec_ecall h insn nxt s
        else if insn = 0x00100073 then
          Ret (rv_trap RV_CAUSE_BREAKPOINT 0 (tr_push RV_TR_EBREAK (pc s) insn 0 None s)) nxt
        else if insn = 0x30200073 then exec_mret s
        else if insn = 0x10500073 then Brk (s\<lparr>waiting := True\<rparr>) nxt
        else Ret (illegal insn s) nxt)
     else exec_csr insn nxt s)"

subsection \<open>The whole function\<close>

definition exec_switch :: "'w rv_host \<Rightarrow> u32 \<Rightarrow> u32 \<Rightarrow> 'w rv_cpu \<Rightarrow> 'w flow" where
  "exec_switch h insn nxt s =
    (let opc = OPCODE insn in
     if opc = OP_LUI then Brk (setx (RD insn) (imm_u insn) s) nxt
     else if opc = OP_AUIPC then Brk (setx (RD insn) (pc s + imm_u insn) s) nxt
     else if opc = OP_JAL then exec_jal insn nxt s
     else if opc = OP_JALR then exec_jalr insn nxt s
     else if opc = OP_BRANCH then exec_branch insn nxt s
     else if opc = OP_LOAD then exec_load h insn nxt s
     else if opc = OP_STORE then exec_store h insn nxt s
     else if opc = OP_IMM then exec_op_imm insn nxt s
     else if opc = OP_REG then exec_op_reg insn nxt s
     else if opc = OP_AMO then exec_amo h insn nxt s
     else if opc = OP_MISC_MEM then
       Brk (if FUNCT3 insn \<noteq> 0 \<and> FUNCT3 insn \<noteq> 1 then illegal insn s else s) nxt
     else if opc = OP_LOAD_FP then exec_load_fp h insn nxt s
     else if opc = OP_STORE_FP then exec_store_fp h insn nxt s
     else if opc = OP_MADD \<or> opc = OP_MSUB \<or> opc = OP_NMSUB \<or> opc = OP_NMADD
       then exec_fma insn nxt s
     else if opc = OP_FP then exec_fp insn nxt s
     else if opc = OP_SYSTEM then exec_system h insn nxt s
     else Ret (illegal insn s) nxt)"

definition clear_x0 :: "'w rv_cpu \<Rightarrow> 'w rv_cpu" where
  "clear_x0 s = s\<lparr>regs := (regs s)(0 := 0)\<rparr>"

definition exec_zb :: "bool \<Rightarrow> u32 option \<Rightarrow> u32 \<Rightarrow> u32 \<Rightarrow> 'w rv_cpu \<Rightarrow> 'w rv_cpu \<times> u32" where
  "exec_zb on r insn nxt s =
    (case (if on then r else None) of
       Some val \<Rightarrow> (clear_x0 (setx (RD insn) val s), nxt)
     | None \<Rightarrow> (illegal insn s, nxt))"

definition exec :: "'w rv_host \<Rightarrow> u32 \<Rightarrow> u32 \<Rightarrow> 'w rv_cpu \<Rightarrow> 'w rv_cpu \<times> u32" where
  "exec h insn nxt s =
    (let f3 = FUNCT3 insn; f7 = FUNCT7 insn; a = getx s (RS1 insn); b = getx s (RS2 insn) in
     case exec_switch h insn nxt s of
       Brk s' n \<Rightarrow> (clear_x0 s', n)
     | Ret s' n \<Rightarrow> (s', n)
     | Zb_reg \<Rightarrow> exec_zb (bitmanip s) (bitmanip_reg insn f3 f7 a b) insn nxt s
     | Zb_imm \<Rightarrow> exec_zb (bitmanip s) (bitmanip_imm insn f3 f7 a) insn nxt s)"

end
