(* ===== verification/Rv_Compressed.thy ===== *)
theory Rv_Compressed
  imports Rv_Decode
begin

text \<open>
  The compressed-instruction expanders \<open>rv_expand_c\<close> and \<open>rv_expand_zcb\<close> of
  \<^verbatim>\<open>src/rv32-emulator/demo/rv32.c\<close>. C promotes the 16-bit argument to \<open>int\<close> before every shift; the
  promoted value is the argument widened to 32 bits, which is what \<open>cw\<close> names. The result 0
  stands for an illegal or reserved encoding.
\<close>

subsection \<open>Definitions\<close>

definition CRS1P :: "u32 \<Rightarrow> u32" where [field_defs]: "CRS1P c = (drop_bit 7 c AND 7) + 8"
definition CRS2P :: "u32 \<Rightarrow> u32" where [field_defs]: "CRS2P c = (drop_bit 2 c AND 7) + 8"
definition CRD :: "u32 \<Rightarrow> u32" where [field_defs]: "CRD c = drop_bit 7 c AND 0x1f"
definition CRS2 :: "u32 \<Rightarrow> u32" where [field_defs]: "CRS2 c = drop_bit 2 c AND 0x1f"

definition rv_expand_zcb :: "u16 \<Rightarrow> u32" where
  "rv_expand_zcb c =
    (let cw = ucast c :: u32 in
     if drop_bit 13 cw AND 7 \<noteq> 4 then 0
     else if cw AND 3 = 0 then
       (if cw AND 0x1000 \<noteq> 0 then 0
        else let k = drop_bit 10 cw AND 3 in
          if k = 0 then                                          \<comment> \<open>c.lbu\<close>
            (let imm = (drop_bit 6 cw AND 1) OR push_bit 1 (drop_bit 5 cw AND 1)
             in enc_i imm (CRS1P cw) 4 (CRS2P cw) OP_LOAD)
          else if k = 1 then                                     \<comment> \<open>c.lhu and c.lh\<close>
            (let imm = push_bit 1 (drop_bit 5 cw AND 1)
             in enc_i imm (CRS1P cw) (if drop_bit 6 cw AND 1 \<noteq> 0 then 1 else 5) (CRS2P cw) OP_LOAD)
          else if k = 2 then                                     \<comment> \<open>c.sb\<close>
            (let imm = (drop_bit 6 cw AND 1) OR push_bit 1 (drop_bit 5 cw AND 1)
             in enc_s imm (CRS2P cw) (CRS1P cw) 0 OP_STORE)
          else if cw AND 0x40 \<noteq> 0 then 0
          else                                                   \<comment> \<open>c.sh\<close>
            (let imm = push_bit 1 (drop_bit 5 cw AND 1)
             in enc_s imm (CRS2P cw) (CRS1P cw) 1 OP_STORE))
     else if cw AND 3 \<noteq> 1 \<or> drop_bit 10 cw AND 7 \<noteq> 7 then 0
     else if drop_bit 5 cw AND 3 = 2 then                        \<comment> \<open>c.mul\<close>
       enc_r 0x01 (CRS2P cw) (CRS1P cw) 0 (CRS1P cw) OP_REG
     else if drop_bit 5 cw AND 3 \<noteq> 3 then 0
     else let k = drop_bit 2 cw AND 7 in
       if k = 0 then enc_i 0xff (CRS1P cw) 7 (CRS1P cw) OP_IMM               \<comment> \<open>c.zext.b\<close>
       else if k = 1 then
         enc_i (push_bit 5 0x30 OR 4) (CRS1P cw) 1 (CRS1P cw) OP_IMM         \<comment> \<open>c.sext.b\<close>
       else if k = 2 then enc_r 0x04 0 (CRS1P cw) 4 (CRS1P cw) OP_REG        \<comment> \<open>c.zext.h\<close>
       else if k = 3 then
         enc_i (push_bit 5 0x30 OR 5) (CRS1P cw) 1 (CRS1P cw) OP_IMM         \<comment> \<open>c.sext.h\<close>
       else if k = 5 then enc_i 0xfff (CRS1P cw) 4 (CRS1P cw) OP_IMM         \<comment> \<open>c.not\<close>
       else 0)"

text \<open>The jump offset that c.jal and c.j share, sign-extended from bit 11.\<close>

definition cj_imm :: "u32 \<Rightarrow> u32" where
  "cj_imm cw =
    (let imm = push_bit 11 (drop_bit 12 cw AND 1) OR push_bit 4 (drop_bit 11 cw AND 1) OR
               push_bit 8 (drop_bit 9 cw AND 3) OR push_bit 10 (drop_bit 8 cw AND 1) OR
               push_bit 6 (drop_bit 7 cw AND 1) OR push_bit 7 (drop_bit 6 cw AND 1) OR
               push_bit 1 (drop_bit 3 cw AND 7) OR push_bit 5 (drop_bit 2 cw AND 1)
     in if imm AND 0x800 \<noteq> 0 then imm OR 0xfffff000 else imm)"

text \<open>The branch offset of c.beqz and c.bnez, sign-extended from bit 8.\<close>

definition cb_imm :: "u32 \<Rightarrow> u32" where
  "cb_imm cw =
    (let imm = push_bit 8 (drop_bit 12 cw AND 1) OR push_bit 3 (drop_bit 10 cw AND 3) OR
               push_bit 6 (drop_bit 5 cw AND 3) OR push_bit 1 (drop_bit 3 cw AND 3) OR
               push_bit 5 (drop_bit 2 cw AND 1)
     in if imm AND 0x100 \<noteq> 0 then imm OR 0xfffffe00 else imm)"

text \<open>The six-bit immediate of c.addi, c.li and c.andi, sign-extended from bit 5.\<close>

definition ci_imm :: "u32 \<Rightarrow> u32" where
  "ci_imm cw = (drop_bit 2 cw AND 0x1f) OR (if drop_bit 12 cw AND 1 \<noteq> 0 then 0xffffffe0 else 0)"

text \<open>Quadrant 0.\<close>

definition expand_q0 :: "u32 \<Rightarrow> u32" where
  "expand_q0 cw =
    (let f3 = drop_bit 13 cw AND 7 in
     if f3 = 0 then                                              \<comment> \<open>c.addi4spn\<close>
       (let imm = push_bit 6 (drop_bit 7 cw AND 0x0f) OR push_bit 4 (drop_bit 11 cw AND 3) OR
                  push_bit 3 (drop_bit 5 cw AND 1) OR push_bit 2 (drop_bit 6 cw AND 1)
        in if imm = 0 then 0 else enc_i imm 2 0 (CRS2P cw) OP_IMM)
     else if f3 = 2 \<or> f3 = 3 then                                \<comment> \<open>c.lw, c.flw\<close>
       (let imm = push_bit 3 (drop_bit 10 cw AND 7) OR push_bit 2 (drop_bit 6 cw AND 1) OR
                  push_bit 6 (drop_bit 5 cw AND 1)
        in enc_i imm (CRS1P cw) 2 (CRS2P cw) (if f3 = 2 then OP_LOAD else OP_LOAD_FP))
     else if f3 = 6 \<or> f3 = 7 then                                \<comment> \<open>c.sw, c.fsw\<close>
       (let imm = push_bit 3 (drop_bit 10 cw AND 7) OR push_bit 2 (drop_bit 6 cw AND 1) OR
                  push_bit 6 (drop_bit 5 cw AND 1)
        in enc_s imm (CRS2P cw) (CRS1P cw) 2 (if f3 = 6 then OP_STORE else OP_STORE_FP))
     else 0)"

text \<open>Quadrant 1: the funct3 100 group, then the whole quadrant.\<close>

definition expand_q1_arith :: "u32 \<Rightarrow> u32" where
  "expand_q1_arith cw =
    (let k = drop_bit 10 cw AND 3 in
     if k = 0 \<or> k = 1 then                                       \<comment> \<open>c.srli, c.srai\<close>
       (if cw AND 0x1000 \<noteq> 0 then 0
        else let imm = drop_bit 2 cw AND 0x1f
             in enc_i (imm OR (if drop_bit 10 cw AND 1 \<noteq> 0 then 0x400 else 0)) (CRS1P cw) 5
                  (CRS1P cw) OP_IMM)
     else if k = 2 then enc_i (ci_imm cw) (CRS1P cw) 7 (CRS1P cw) OP_IMM     \<comment> \<open>c.andi\<close>
     else if cw AND 0x1000 \<noteq> 0 then 0
     else let j = drop_bit 5 cw AND 3 in
       if j = 0 then enc_r 0x20 (CRS2P cw) (CRS1P cw) 0 (CRS1P cw) OP_REG    \<comment> \<open>c.sub\<close>
       else if j = 1 then enc_r 0x00 (CRS2P cw) (CRS1P cw) 4 (CRS1P cw) OP_REG \<comment> \<open>c.xor\<close>
       else if j = 2 then enc_r 0x00 (CRS2P cw) (CRS1P cw) 6 (CRS1P cw) OP_REG \<comment> \<open>c.or\<close>
       else enc_r 0x00 (CRS2P cw) (CRS1P cw) 7 (CRS1P cw) OP_REG)"           \<comment> \<open>c.and\<close>

definition expand_q1 :: "u32 \<Rightarrow> u32" where
  "expand_q1 cw =
    (let f3 = drop_bit 13 cw AND 7 in
     if f3 = 0 then enc_i (ci_imm cw) (CRD cw) 0 (CRD cw) OP_IMM             \<comment> \<open>c.addi\<close>
     else if f3 = 1 then enc_j (cj_imm cw) 1 OP_JAL                          \<comment> \<open>c.jal\<close>
     else if f3 = 2 then enc_i (ci_imm cw) 0 0 (CRD cw) OP_IMM               \<comment> \<open>c.li\<close>
     else if f3 = 3 then
       (let rd = CRD cw in
        if rd = 2 then                                           \<comment> \<open>c.addi16sp\<close>
          (let imm = push_bit 9 (drop_bit 12 cw AND 1) OR push_bit 4 (drop_bit 6 cw AND 1) OR
                     push_bit 6 (drop_bit 5 cw AND 1) OR push_bit 7 (drop_bit 3 cw AND 3) OR
                     push_bit 5 (drop_bit 2 cw AND 1)
           in if imm = 0 then 0
              else enc_i (if imm AND 0x200 \<noteq> 0 then imm OR 0xfffffc00 else imm) 2 0 2 OP_IMM)
        else                                                     \<comment> \<open>c.lui\<close>
          (let imm = push_bit 17 (drop_bit 12 cw AND 1) OR push_bit 12 (drop_bit 2 cw AND 0x1f)
           in if imm = 0 then 0
              else let imm = (if imm AND 0x20000 \<noteq> 0 then imm OR 0xfffc0000 else imm)
                   in (imm AND 0xfffff000) OR push_bit 7 rd OR OP_LUI))
     else if f3 = 4 then expand_q1_arith cw
     else if f3 = 5 then enc_j (cj_imm cw) 0 OP_JAL                          \<comment> \<open>c.j\<close>
     else                                                        \<comment> \<open>c.beqz, c.bnez\<close>
       enc_b (cb_imm cw) 0 (CRS1P cw) (if f3 = 6 then 0 else 1) OP_BRANCH)"

text \<open>Quadrant 2.\<close>

definition expand_q2 :: "u32 \<Rightarrow> u32" where
  "expand_q2 cw =
    (let f3 = drop_bit 13 cw AND 7 in
     if f3 = 0 then                                              \<comment> \<open>c.slli\<close>
       (if cw AND 0x1000 \<noteq> 0 then 0
        else enc_i (drop_bit 2 cw AND 0x1f) (CRD cw) 1 (CRD cw) OP_IMM)
     else if f3 = 2 \<or> f3 = 3 then                                \<comment> \<open>c.lwsp, c.flwsp\<close>
       (if f3 = 2 \<and> CRD cw = 0 then 0
        else let imm = push_bit 5 (drop_bit 12 cw AND 1) OR push_bit 2 (drop_bit 4 cw AND 7) OR
                       push_bit 6 (drop_bit 2 cw AND 3)
             in enc_i imm 2 2 (CRD cw) (if f3 = 2 then OP_LOAD else OP_LOAD_FP))
     else if f3 = 4 then
       (if cw AND 0x1000 = 0 then
          (if CRS2 cw = 0 then                                   \<comment> \<open>c.jr\<close>
             (if CRD cw = 0 then 0 else enc_i 0 (CRD cw) 0 0 OP_JALR)
           else enc_r 0 (CRS2 cw) 0 0 (CRD cw) OP_REG)           \<comment> \<open>c.mv\<close>
        else if CRS2 cw = 0 then
          (if CRD cw = 0 then enc_i 1 0 0 0 OP_SYSTEM            \<comment> \<open>c.ebreak\<close>
           else enc_i 0 (CRD cw) 0 1 OP_JALR)                    \<comment> \<open>c.jalr\<close>
        else enc_r 0 (CRS2 cw) (CRD cw) 0 (CRD cw) OP_REG)       \<comment> \<open>c.add\<close>
     else if f3 = 6 \<or> f3 = 7 then                                \<comment> \<open>c.swsp, c.fswsp\<close>
       (let imm = push_bit 2 (drop_bit 9 cw AND 0xf) OR push_bit 6 (drop_bit 7 cw AND 3)
        in enc_s imm (CRS2 cw) 2 2 (if f3 = 6 then OP_STORE else OP_STORE_FP))
     else 0)"

definition rv_expand_c :: "u16 \<Rightarrow> u32" where
  "rv_expand_c c =
    (let cw = ucast c :: u32; opc = cw AND 3 in
     if c = 0 then 0
     else if opc = 0 then expand_q0 cw
     else if opc = 1 then expand_q1 cw
     else if opc = 2 then expand_q2 cw
     else 0)"

end
