(* ===== verification/Rv_Zcmp.thy ===== *)
theory Rv_Zcmp
  imports Rv_Bus
begin

text \<open>
  The Zcmp instructions of \<^verbatim>\<open>src/rv32-emulator/demo/rv32.c\<close>: pushing and popping a whole stack
  frame, and the two register-pair moves.
\<close>

subsection \<open>Definitions\<close>

definition zcmp_sreg :: "u32 list" where
  "zcmp_sreg = [8, 9, 18, 19, 20, 21, 22, 23, 24, 25, 26, 27]"

text \<open>The registers an rlist field names, in slot order; empty for the reserved encodings.\<close>

definition zcmp_regs :: "u32 \<Rightarrow> u32 list" where
  "zcmp_regs rlist =
    (if rlist < 4 then []
     else let count = (if rlist = 15 then 12 else unat rlist - 4)
          in 1 # take count zcmp_sreg)"

definition zcmp_stack_adj :: "u32 \<Rightarrow> u32 \<Rightarrow> u32" where
  "zcmp_stack_adj rlist spimm =
    (let base = (if rlist \<le> 7 then 16 else if rlist \<le> 11 then 32 else if rlist \<le> 14 then 48
                 else 64)
     in base + spimm * 16)"

text \<open>
  The two loops. The flag is false when an access trapped, which ends the instruction: the
  trap has already redirected control.
\<close>

fun push_regs :: "'w rv_host \<Rightarrow> u32 \<Rightarrow> nat \<Rightarrow> u32 list \<Rightarrow> 'w rv_cpu \<Rightarrow> 'w rv_cpu \<times> bool" where
  "push_regs h addr i [] s = (s, True)"
| "push_regs h addr i (r # rs) s =
    (case mem_write h (addr + of_nat i * 4) 4 (getx s r) s of
       (s, False) \<Rightarrow> (s, False)
     | (s, True) \<Rightarrow> push_regs h addr (Suc i) rs s)"

fun pop_regs :: "'w rv_host \<Rightarrow> u32 \<Rightarrow> nat \<Rightarrow> u32 list \<Rightarrow> 'w rv_cpu \<Rightarrow> 'w rv_cpu \<times> bool" where
  "pop_regs h addr i [] s = (s, True)"
| "pop_regs h addr i (r # rs) s =
    (case mem_read h (addr + of_nat i * 4) 4 s of
       (s, None) \<Rightarrow> (s, False)
     | (s, Some v) \<Rightarrow> pop_regs h addr (Suc i) rs (setx r v s))"

definition cm_push :: "'w rv_host \<Rightarrow> u32 list \<Rightarrow> u32 \<Rightarrow> 'w rv_cpu \<Rightarrow> 'w rv_cpu" where
  "cm_push h rl adj s =
    (let n = of_nat (length rl); addr = getx s 2 - n * 4 in
     case push_regs h addr 0 rl s of
       (s, False) \<Rightarrow> s
     | (s, True) \<Rightarrow> setx 2 (getx s 2 - adj) s)"

definition cm_pop ::
    "'w rv_host \<Rightarrow> u32 \<Rightarrow> u32 list \<Rightarrow> u32 \<Rightarrow> u32 \<Rightarrow> 'w rv_cpu \<Rightarrow> 'w rv_cpu \<times> u32" where
  "cm_pop h funct5 rl adj nxt s =
    (let n = of_nat (length rl); addr = getx s 2 + adj - n * 4 in
     case pop_regs h addr 0 rl s of
       (s, False) \<Rightarrow> (s, nxt)
     | (s, True) \<Rightarrow>
         let s = setx 2 (getx s 2 + adj) s;
             s = (if funct5 = 0x1c then setx 10 0 s else s)
         in (s, if funct5 \<noteq> 0x1a then getx s 1 else nxt))"

text \<open>
  \<^const>\<open>None\<close> is the return value -1: not a valid Zcmp encoding, nothing changed. Otherwise the
  new state and the following program counter.
\<close>

definition exec_zcmp :: "'w rv_host \<Rightarrow> u16 \<Rightarrow> u32 \<Rightarrow> 'w rv_cpu \<Rightarrow> ('w rv_cpu \<times> u32) option" where
  "exec_zcmp h insn16 nxt s =
    (let insn = ucast insn16 :: u32 in
     if drop_bit 10 insn AND 7 = 3 then
       (let r1 = drop_bit 7 insn AND 7; r2 = drop_bit 2 insn AND 7;
            s1 = zcmp_sreg ! unat r1; s2 = zcmp_sreg ! unat r2;
            k = drop_bit 5 insn AND 3
        in if r1 = r2 then None
           else if k = 1 then                                    \<comment> \<open>cm.mvsa01\<close>
             (let s = setx s1 (getx s 10) s; s = setx s2 (getx s 11) s in Some (s, nxt))
           else if k = 3 then                                    \<comment> \<open>cm.mva01s\<close>
             (let s = setx 10 (getx s s1) s; s = setx 11 (getx s s2) s in Some (s, nxt))
           else None)
     else
       let funct5 = drop_bit 8 insn AND 0x1f;
           rlist = drop_bit 4 insn AND 0x0f;
           spimm = drop_bit 2 insn AND 0x03;
           rl = zcmp_regs rlist;
           adj = zcmp_stack_adj rlist spimm
       in if rl = [] then None
          else if funct5 = 0x18 then Some (cm_push h rl adj s, nxt)
          else if funct5 = 0x1a \<or> funct5 = 0x1c \<or> funct5 = 0x1e
            then Some (cm_pop h funct5 rl adj nxt s)
          else None)"

definition is_zcmp :: "u16 \<Rightarrow> bool" where
  "is_zcmp insn16 =
    (let insn = ucast insn16 :: u32 in
     if insn AND 0xe003 \<noteq> 0xa002 then False
     else if drop_bit 10 insn AND 7 = 3 then True
     else drop_bit 11 insn AND 3 = 3)"

end
