(* ===== verification/Rv_Step.thy ===== *)
theory Rv_Step
  imports Rv_Exec Rv_Compressed Rv_Zcmp
begin

text \<open>
  Fetch, decode and execute: \<open>rv_step\<close> and \<open>rv_run\<close> of \<^verbatim>\<open>src/rv32-emulator/demo/rv32.c\<close>. The flag
  of a step is true where the C function returns 0, false where it returns -1.
\<close>

subsection \<open>Definitions\<close>

definition retire :: "'w rv_cpu \<Rightarrow> 'w rv_cpu" where
  "retire s = s\<lparr>cycles := cycles s + 1, mcycle := mcycle s + 1, minstret := minstret s + 1\<rparr>"

text \<open>\<open>if (!cpu->in_trap) cpu->pc = next;\<close> and the counters.\<close>

definition finish :: "u32 \<Rightarrow> 'w rv_cpu \<Rightarrow> 'w rv_cpu" where
  "finish nxt s = retire (if \<not> in_trap s then s\<lparr>pc := nxt\<rparr> else s)"

text \<open>The second half of a step on a compressed encoding \<open>lo\<close>.\<close>

definition step_compressed :: "'w rv_host \<Rightarrow> u32 \<Rightarrow> 'w rv_cpu \<Rightarrow> 'w rv_cpu" where
  "step_compressed h lo s =
    (let nxt = pc s + 2; c = ucast lo :: u16 in
     if zcmp s \<and> is_zcmp c then
       (case exec_zcmp h c nxt s of
          None \<Rightarrow> illegal lo s
        | Some (s, nxt) \<Rightarrow> finish nxt (clear_x0 s))
     else
       let insn = rv_expand_c c;
           insn = (if insn = 0 \<and> zcb s then rv_expand_zcb c else insn)
       in if insn = 0 then illegal lo s
          else let (s, nxt) = exec h insn nxt s in finish nxt s)"

text \<open>The second half of a step on a 32-bit encoding whose low half is \<open>lo\<close>.\<close>

definition step_full :: "'w rv_host \<Rightarrow> u32 \<Rightarrow> 'w rv_cpu \<Rightarrow> 'w rv_cpu" where
  "step_full h lo s =
    (if refused h (bus_ctx s) (pc s + 2) 2 False then
       rv_trap RV_CAUSE_INSN_ACCESS_FAULT (pc s + 2)
         (tr_push RV_TR_FETCH_FAULT (pc s) 0 (pc s + 2) None s)
     else
       let (hi, w) = read16 h (bus_ctx s) (pc s + 2);
           s = s\<lparr>bus_ctx := w\<rparr>;
           insn = lo OR push_bit 16 (hi AND 0xffff);
           (s, nxt) = exec h insn (pc s + 4) s
       in finish nxt s)"

definition step_fetch :: "'w rv_host \<Rightarrow> 'w rv_cpu \<Rightarrow> 'w rv_cpu" where
  "step_fetch h s =
    (if pc s AND 1 \<noteq> 0 then rv_trap RV_CAUSE_INSN_MISALIGNED (pc s) s
     else if refused h (bus_ctx s) (pc s) 2 False then
       rv_trap RV_CAUSE_INSN_ACCESS_FAULT (pc s)
         (tr_push RV_TR_FETCH_FAULT (pc s) 0 (pc s) None s)
     else
       let (v, w) = read16 h (bus_ctx s) (pc s);
           s = s\<lparr>bus_ctx := w\<rparr>;
           lo = v AND 0xffff
       in if lo AND 3 \<noteq> 3 then step_compressed h lo s else step_full h lo s)"

definition rv_step :: "'w rv_host \<Rightarrow> 'w rv_cpu \<Rightarrow> 'w rv_cpu \<times> bool" where
  "rv_step h s =
    (if halted s then (s, False)
     else
       let s = s\<lparr>in_trap := False\<rparr>;
           irq = (if mip s AND mie s \<noteq> 0 then rv_irq_pending s else 0);
           s = (if irq \<noteq> 0 then rv_trap irq 0 s else step_fetch h s)
       in (s, \<not> halted s))"

text \<open>
  \<open>rv_run\<close>: the loop makes at most \<open>count\<close> turns, so it recurses on the turns left; the
  result is the state and how many steps returned 0. A negative count makes no turn.
\<close>

fun run_loop :: "'w rv_host \<Rightarrow> nat \<Rightarrow> nat \<Rightarrow> 'w rv_cpu \<Rightarrow> 'w rv_cpu \<times> nat" where
  "run_loop h i 0 s = (s, i)"
| "run_loop h i (Suc k) s =
    (case rv_step h s of
       (s, False) \<Rightarrow> (s, i)
     | (s, True) \<Rightarrow> run_loop h (Suc i) k s)"

definition rv_run :: "'w rv_host \<Rightarrow> int \<Rightarrow> 'w rv_cpu \<Rightarrow> 'w rv_cpu \<times> nat" where
  "rv_run h count s = run_loop h 0 (nat count) s"

subsection \<open>Runs\<close>

lemma run_loop_shift: "run_loop h i k s = (fst (run_loop h 0 k s), i + snd (run_loop h 0 k s))"
proof (induction k arbitrary: i s)
  case (Suc k)
  show ?case
    using Suc.IH [of "Suc i"] Suc.IH [of "Suc 0"] by (auto split: prod.split bool.split)
qed simp

lemma run_loop_add:
  "run_loop h 0 (j + k) s =
    (let (s', i) = run_loop h 0 j s
     in if i < j then (s', i) else let (s'', i') = run_loop h 0 k s' in (s'', i + i'))"
proof (induction j arbitrary: s)
  case 0
  then show ?case by (simp add: case_prod_beta Let_def)
next
  case (Suc j)
  obtain t b where t: "rv_step h s = (t, b)" by fastforce
  show ?case
  proof (cases b)
    case True
    then show ?thesis using Suc.IH [of t] t
      by (simp add: run_loop_shift [of h "Suc 0"] case_prod_beta Let_def)
  next
    case False
    then show ?thesis using t by simp
  qed
qed

lemma run_loop_stops: "snd (run_loop h 0 k s) \<le> k \<and> (snd (run_loop h 0 k s) < k \<longrightarrow> halted (fst (run_loop h 0 k s)))"
proof (induction k arbitrary: s)
  case (Suc k)
  obtain t b where t: "rv_step h s = (t, b)" by fastforce
  then have "b \<longleftrightarrow> \<not> halted t" by (auto simp: rv_step_def Let_def split: if_splits)
  then show ?case using Suc.IH [of t] t by (cases b) (simp_all add: run_loop_shift [of h "Suc 0"])
qed simp

text \<open>
  C35. Runs compose: running \<open>m + n\<close> instructions is running \<open>m\<close> and then, unless that stopped
  early, \<open>n\<close> more, with the counts added; a run makes at most the steps asked for, and makes fewer
  only when the processor halted.
\<close>

theorem run_compose:
  assumes "0 \<le> m" and "0 \<le> n"
  shows "rv_run h (m + n) s =
      (let (s', i) = rv_run h m s
       in if int i < m then (s', i) else let (s'', i') = rv_run h n s' in (s'', i + i')) \<and>
    int (snd (rv_run h m s)) \<le> m \<and>
    (int (snd (rv_run h m s)) < m \<longrightarrow> halted (fst (rv_run h m s)))"
proof -
  have "int i < m \<longleftrightarrow> i < nat m" "int i \<le> m \<longleftrightarrow> i \<le> nat m" for i using assms by auto
  then show ?thesis
    using run_loop_add [of h "nat m" "nat n" s] run_loop_stops [of h "nat m" s] assms
    by (simp add: rv_run_def nat_add_distrib case_prod_beta Let_def)
qed

theorem run_compose_witness:
  "\<forall>h :: unit rv_host. rv_run h (3 + 4) (rv_halt (cpu0 ())) = (rv_halt (cpu0 ()), 0)"
proof
  fix h :: "unit rv_host"
  have "rv_run h 3 (rv_halt (cpu0 ())) = (rv_halt (cpu0 ()), 0)"
    by (simp add: rv_run_def numeral_eq_Suc rv_step_def rv_halt_def)
  then show "rv_run h (3 + 4) (rv_halt (cpu0 ())) = (rv_halt (cpu0 ()), 0)"
    using run_compose [of 3 4 h "rv_halt (cpu0 ())"] by simp
qed

end
