(* ===== verification/Rv_Invariant.thy ===== *)
theory Rv_Invariant
  imports Rv_Step
begin

text \<open>
  What instructions may do to the host. The locale \<open>bus_invariant\<close> is the contract between
  the emulator and an embedding: a property of the host's state that the callbacks keep, given
  that the 16-bit and 32-bit ones are called with aligned addresses only, that stores are only
  made where the access check granted them, and that every environment call keeps it. Inside
  the locale the property is proved of \<open>exec\<close>, \<open>rv_step\<close> and \<open>rv_run\<close>; the hosts instantiate
  it.
\<close>

fun flow_ctx :: "('w \<Rightarrow> bool) \<Rightarrow> 'w flow \<Rightarrow> bool" where
  "flow_ctx P (Brk s n) = P (bus_ctx s)"
| "flow_ctx P (Ret s n) = P (bus_ctx s)"
| "flow_ctx P Zb_reg = True"
| "flow_ctx P Zb_imm = True"

lemma illegal_ctx [simp]: "bus_ctx (illegal insn s) = bus_ctx s"
  by (simp add: illegal_def)

lemma finish_ctx [simp]: "bus_ctx (finish n s) = bus_ctx s"
  by (simp add: finish_def retire_def)

lemma clear_x0_ctx [simp]: "bus_ctx (clear_x0 s) = bus_ctx s"
  by (simp add: clear_x0_def)

lemma put_ctx [simp]: "bus_ctx (put_f r v s) = bus_ctx s" "bus_ctx (put_x r v s) = bus_ctx s"
  by (simp_all add: put_f_def put_x_def)

lemma csr_write_ctx: "csr_write csr v s = Some s' \<Longrightarrow> bus_ctx s' = bus_ctx s"
  by (auto simp: csr_write_def split: if_splits)

lemma access_sizes [simp]: "access_size 1" "access_size 2" "access_size 4"
  by (simp_all add: access_size_def)

locale bus_invariant =
  fixes h :: "'w rv_host" and P :: "'w \<Rightarrow> bool"
  assumes r8: "P w \<Longrightarrow> P (snd (read8 h w a))"
    and r16: "P w \<Longrightarrow> a AND 1 = 0 \<Longrightarrow> P (snd (read16 h w a))"
    and r32: "P w \<Longrightarrow> a AND 3 = 0 \<Longrightarrow> P (snd (read32 h w a))"
    and w8: "P w \<Longrightarrow> P w' \<Longrightarrow> access_size sz \<Longrightarrow> \<not> refused h w a sz True \<Longrightarrow> i < unat sz \<Longrightarrow>
      P (write8 h w' (a + of_nat i) v)"
    and w16: "P w \<Longrightarrow> \<not> refused h w a 2 True \<Longrightarrow> a AND 1 = 0 \<Longrightarrow> P (write16 h w a v)"
    and w32: "P w \<Longrightarrow> \<not> refused h w a 4 True \<Longrightarrow> a AND 3 = 0 \<Longrightarrow> P (write32 h w a v)"
    and call: "ecall h = Some c \<Longrightarrow> P (bus_ctx s) \<Longrightarrow> P (bus_ctx (fst (c s)))"
begin

lemma read_bytes_P: "P w \<Longrightarrow> P (snd (read_bytes h a i n v w))"
proof (induction n arbitrary: i v w)
  case 0
  then show ?case by simp
next
  case (Suc n)
  then show ?case using r8 [of w "a + of_nat i"] by (auto split: prod.splits)
qed

lemma mem_read_P:
  assumes "P (bus_ctx s)" and "access_size sz"
  shows "P (bus_ctx (fst (mem_read h a sz s)))"
  using assms r8 [of "bus_ctx s" a] r16 [of "bus_ctx s" a] r32 [of "bus_ctx s" a]
    read_bytes_P [of "bus_ctx s" a 0 "unat sz" 0]
  by (auto simp: mem_read_def misaligned_def access_size_def split: prod.splits)

lemma write_bytes_P:
  assumes "P w0" "P w" "access_size sz" "\<not> refused h w0 a sz True" "i + n \<le> unat sz"
  shows "P (write_bytes h a i n v w)"
  using assms
proof (induction n arbitrary: i w)
  case 0
  then show ?case by simp
next
  case (Suc n)
  then have "P (write8 h w (a + of_nat i) (drop_bit (8 * i) v AND 0xff))"
    using w8 [of w0 w sz a i] by auto
  with Suc show ?case by simp
qed

lemma mem_write_P:
  assumes "P (bus_ctx s)" and "access_size sz"
  shows "P (bus_ctx (fst (mem_write h a sz v s)))"
  using assms w8 [of "bus_ctx s" "bus_ctx s" 1 a 0] w16 [of "bus_ctx s" a] w32 [of "bus_ctx s" a]
    write_bytes_P [of "bus_ctx s" "bus_ctx s" sz a 0 "unat sz" v]
  by (auto simp: mem_write_def misaligned_def access_size_def Let_def)

lemma mem_read_P':
  "P (bus_ctx s) \<Longrightarrow> access_size sz \<Longrightarrow> mem_read h a sz s = (s', r) \<Longrightarrow> P (bus_ctx s')"
  using mem_read_P [of s sz a] by simp

lemma mem_write_P':
  "P (bus_ctx s) \<Longrightarrow> access_size sz \<Longrightarrow> mem_write h a sz v s = (s', r) \<Longrightarrow> P (bus_ctx s')"
  using mem_write_P [of s sz a v] by simp

lemma push_regs_P: "P (bus_ctx s) \<Longrightarrow> P (bus_ctx (fst (push_regs h a i rs s)))"
proof (induction rs arbitrary: i s)
  case Nil
  then show ?case by simp
next
  case (Cons r rs)
  then show ?case
    by (auto split: prod.splits bool.splits intro: mem_write_P' [of s 4] intro!: Cons.IH)
qed

lemma pop_regs_P: "P (bus_ctx s) \<Longrightarrow> P (bus_ctx (fst (pop_regs h a i rs s)))"
proof (induction rs arbitrary: i s)
  case Nil
  then show ?case by simp
next
  case (Cons r rs)
  then show ?case
    by (auto split: prod.splits option.splits dest: mem_read_P' [of s 4] intro!: Cons.IH)
qed

lemma cm_push_P: "P (bus_ctx s) \<Longrightarrow> P (bus_ctx (cm_push h rl adj s))"
  using push_regs_P [of s "getx s 2 - of_nat (length rl) * 4" 0 rl]
  by (auto simp: cm_push_def Let_def split: prod.splits bool.splits)

lemma cm_pop_P: "P (bus_ctx s) \<Longrightarrow> P (bus_ctx (fst (cm_pop h f rl adj n s)))"
  using pop_regs_P [of s "getx s 2 + adj - of_nat (length rl) * 4" 0 rl]
  by (auto simp: cm_pop_def Let_def split: prod.splits bool.splits)

lemma exec_zcmp_P: "P (bus_ctx s) \<Longrightarrow> exec_zcmp h c n s = Some (s', n') \<Longrightarrow> P (bus_ctx s')"
  using cm_push_P [of s] cm_pop_P [of s]
  by (auto simp: exec_zcmp_def Let_def split: if_splits) (metis fst_conv)+

lemma load_P: "P (bus_ctx s) \<Longrightarrow> flow_ctx P (exec_load h insn n s)"
  by (auto simp: exec_load_def load_into_def Let_def split: prod.splits option.splits
      intro: mem_read_P' [of s 1] mem_read_P' [of s 2] mem_read_P' [of s 4])

lemma store_P: "P (bus_ctx s) \<Longrightarrow> flow_ctx P (exec_store h insn n s)"
  by (auto simp: exec_store_def Let_def intro!: mem_write_P)

lemma load_fp_P: "P (bus_ctx s) \<Longrightarrow> flow_ctx P (exec_load_fp h insn n s)"
  by (auto simp: exec_load_fp_def split: prod.splits option.splits intro: mem_read_P' [of s 4])

lemma store_fp_P: "P (bus_ctx s) \<Longrightarrow> flow_ctx P (exec_store_fp h insn n s)"
  by (auto simp: exec_store_fp_def intro!: mem_write_P)

lemma lr_P: "P (bus_ctx s) \<Longrightarrow> flow_ctx P (exec_lr h insn a n s)"
  by (auto simp: exec_lr_def split: prod.splits option.splits intro: mem_read_P' [of s 4])

lemma sc_P: "P (bus_ctx s) \<Longrightarrow> flow_ctx P (exec_sc h insn a b n s)"
  by (auto simp: exec_sc_def split: prod.splits bool.splits intro: mem_write_P' [of s 4])

lemma amo_P: "P (bus_ctx s) \<Longrightarrow> flow_ctx P (exec_amo h insn n s)"
proof -
  assume s: "P (bus_ctx s)"
  have rmw: "P (bus_ctx s2)" if "mem_read h a 4 s = (s1, r)" "mem_write h a 4 v s1 = (s2, r')"
    for a v s1 s2 r r'
    using mem_write_P' [OF mem_read_P' [OF s _ that(1)] _ that(2)] by simp
  show ?thesis
    using s lr_P sc_P rmw mem_read_P' [OF s, of 4]
    by (auto simp: exec_amo_def Let_def split: prod.splits option.splits bool.splits)
qed

lemma fp_P: "P (bus_ctx s) \<Longrightarrow> flow_ctx P (exec_fp insn n s)"
  by (simp add: exec_fp_def with_rm_def Let_def split: option.split)

lemma fma_P: "P (bus_ctx s) \<Longrightarrow> flow_ctx P (exec_fma insn n s)"
  by (simp add: exec_fma_def Let_def case_prod_beta split: option.split)

lemma csr_P: "P (bus_ctx s) \<Longrightarrow> flow_ctx P (exec_csr insn n s)"
  by (auto simp: exec_csr_def Let_def csr_write_ctx split: option.split)

lemma system_P: "P (bus_ctx s) \<Longrightarrow> flow_ctx P (exec_system h insn n s)"
proof -
  assume s: "P (bus_ctx s)"
  have "P (bus_ctx t')" if "ecall h = Some c" "c t = (t', r)" "P (bus_ctx t)" for c t t' r
    using call [OF that(1,3)] that(2) by simp
  with s csr_P show ?thesis
    by (auto simp: exec_system_def exec_ecall_def exec_mret_def Let_def
        split: option.split prod.split bool.split)
qed

lemma jump_P: "P (bus_ctx s) \<Longrightarrow> flow_ctx P (exec_jal insn n s)"
    "P (bus_ctx s) \<Longrightarrow> flow_ctx P (exec_jalr insn n s)"
    "P (bus_ctx s) \<Longrightarrow> flow_ctx P (exec_branch insn n s)"
  by (simp_all add: exec_jal_def exec_jalr_def exec_branch_def Let_def split: option.split)

lemma alu_P: "P (bus_ctx s) \<Longrightarrow> flow_ctx P (exec_op_imm insn n s)"
    "P (bus_ctx s) \<Longrightarrow> flow_ctx P (exec_op_reg insn n s)"
  by (simp_all add: exec_op_imm_def exec_op_reg_def split: option.split)

lemmas opcode_P = load_P store_P load_fp_P store_fp_P amo_P fp_P fma_P system_P jump_P alu_P

lemma switch_P: "P (bus_ctx s) \<Longrightarrow> flow_ctx P (exec_switch h insn n s)"
  by (simp add: exec_switch_def Let_def opcode_P if_distrib [of "flow_ctx P"]
      if_distrib [of bus_ctx] del: if_split cong: if_weak_cong)

lemma exec_P: "P (bus_ctx s) \<Longrightarrow> P (bus_ctx (fst (exec h insn n s)))"
  using switch_P [of s insn n]
  by (cases "exec_switch h insn n s") (auto simp: exec_def exec_zb_def Let_def split: option.split)

lemma compressed_P: "P (bus_ctx s) \<Longrightarrow> P (bus_ctx (step_compressed h lo s))"
  using exec_P [of s _ "pc s + 2"] exec_zcmp_P [of s]
  by (auto simp: step_compressed_def Let_def split: option.split prod.split) (metis fst_conv)+

lemma full_P: "P (bus_ctx s) \<Longrightarrow> pc s AND 1 = 0 \<Longrightarrow> P (bus_ctx (step_full h lo s))"
proof -
  assume s: "P (bus_ctx s)" and p: "pc s AND 1 = 0"
  have "(pc s + 2) AND 1 = 0"
    using p by (simp add: and_one_eq mod_2_eq_odd)
  then have w: "P w" if "read16 h (bus_ctx s) (pc s + 2) = (v, w)" for v w
    using r16 [OF s, of "pc s + 2"] that by simp
  then have "P (bus_ctx (fst (exec h i n (s\<lparr>bus_ctx := w\<rparr>))))"
    if "read16 h (bus_ctx s) (pc s + 2) = (v, w)" for v w i n
    using that by (intro exec_P) auto
  with s show ?thesis
    by (auto simp: step_full_def Let_def split: prod.split) (metis fst_conv)
qed

lemma fetch_P: "P (bus_ctx s) \<Longrightarrow> P (bus_ctx (step_fetch h s))"
proof -
  assume s: "P (bus_ctx s)"
  have "P w" if "read16 h (bus_ctx s) (pc s) = (v, w)" "pc s AND 1 = 0" for v w
    using r16 [OF s that(2)] that(1) by simp
  with s show ?thesis
    by (auto simp: step_fetch_def Let_def split: prod.split intro!: compressed_P full_P)
qed

lemma step_P: "P (bus_ctx s) \<Longrightarrow> P (bus_ctx (fst (rv_step h s)))"
  by (auto simp: rv_step_def Let_def intro!: fetch_P)

lemma run_loop_P: "P (bus_ctx s) \<Longrightarrow> P (bus_ctx (fst (run_loop h i k s)))"
proof (induction k arbitrary: i s)
  case 0
  then show ?case by simp
next
  case (Suc k)
  then show ?case using step_P [of s] by (auto split: prod.split bool.split)
qed

lemma run_P: "P (bus_ctx s) \<Longrightarrow> P (bus_ctx (fst (rv_run h count s)))"
  by (simp add: rv_run_def run_loop_P)

end

subsection \<open>The hardwired zero\<close>

text \<open>
  Register x0 is an ordinary array element that the interpreter clears after every instruction.
  The contract: the environment call leaves it zero.
\<close>

lemma mem_read_regs [simp]: "regs (fst (mem_read h a sz s)) = regs s"
  by (simp add: mem_read_def Let_def split: prod.splits)

lemma mem_write_regs [simp]: "regs (fst (mem_write h a sz v s)) = regs s"
  by (simp add: mem_write_def Let_def)

lemma mem_read_regs': "mem_read h a sz s = (s', r) \<Longrightarrow> regs s' = regs s"
  using mem_read_regs [of h a sz s] by simp
lemma mem_write_regs': "mem_write h a sz v s = (s', r) \<Longrightarrow> regs s' = regs s"
  using mem_write_regs [of h a sz v s] by simp
lemma illegal_regs [simp]: "regs (illegal insn s) = regs s"
  by (simp add: illegal_def)

fun flow_x0 :: "'w flow \<Rightarrow> bool" where
  "flow_x0 (Ret s n) \<longleftrightarrow> regs s 0 = 0"
| "flow_x0 _ \<longleftrightarrow> True"

lemma clear_x0_zero [simp]: "regs (clear_x0 s) 0 = 0"
  by (simp add: clear_x0_def)

lemma finish_regs [simp]: "regs (finish n s) = regs s"
  by (simp add: finish_def retire_def)

locale x0_host =
  fixes h :: "'w rv_host"
  assumes call_x0: "ecall h = Some c \<Longrightarrow> regs s 0 = 0 \<Longrightarrow> regs (fst (c s)) 0 = 0"
begin

lemma memory_x0:
  assumes "regs s 0 = 0"
  shows "flow_x0 (exec_load h insn n s)" "flow_x0 (exec_store h insn n s)"
    "flow_x0 (exec_load_fp h insn n s)" "flow_x0 (exec_store_fp h insn n s)"
  using assms
  by (auto simp: exec_load_def load_into_def exec_store_def exec_load_fp_def exec_store_fp_def
      Let_def mem_read_regs' split: prod.splits option.splits)

lemma amo_x0: "regs s 0 = 0 \<Longrightarrow> flow_x0 (exec_amo h insn n s)"
  by (auto simp: exec_amo_def exec_lr_def exec_sc_def Let_def mem_read_regs' mem_write_regs'
      split: prod.splits option.splits bool.splits)

lemma csr_x0: "regs s 0 = 0 \<Longrightarrow> flow_x0 (exec_csr insn n s)"
  by (simp add: exec_csr_def Let_def split: option.split)

lemma system_x0: "regs s 0 = 0 \<Longrightarrow> flow_x0 (exec_system h insn n s)"
proof -
  assume s: "regs s 0 = 0"
  have "regs t' 0 = 0" if "ecall h = Some c" "c t = (t', r)" "regs t 0 = 0" for c t t' r
    using call_x0 [OF that(1,3)] that(2) by simp
  with s csr_x0 show ?thesis
    by (auto simp: exec_system_def exec_ecall_def exec_mret_def Let_def
        split: option.split prod.split bool.split)
qed

lemma alu_x0:
  assumes "regs s 0 = 0"
  shows "flow_x0 (exec_jal insn n s)" "flow_x0 (exec_jalr insn n s)" "flow_x0 (exec_branch insn n s)"
    "flow_x0 (exec_op_imm insn n s)" "flow_x0 (exec_op_reg insn n s)" "flow_x0 (exec_fma insn n s)"
    "flow_x0 (exec_fp insn n s)"
  using assms
  by (simp_all add: exec_jal_def exec_jalr_def exec_branch_def exec_op_imm_def exec_op_reg_def
      exec_fma_def exec_fp_def with_rm_def Let_def case_prod_beta split: option.split)

lemma switch_x0: "regs s 0 = 0 \<Longrightarrow> flow_x0 (exec_switch h insn n s)"
  by (simp add: exec_switch_def Let_def memory_x0 amo_x0 system_x0 alu_x0 if_distrib [of flow_x0]
      del: if_split cong: if_weak_cong)

lemma exec_x0: "regs s 0 = 0 \<Longrightarrow> regs (fst (exec h insn n s)) 0 = 0"
  using switch_x0 [of s insn n]
  by (cases "exec_switch h insn n s") (auto simp: exec_def exec_zb_def Let_def split: option.split)

lemma fetch_x0: "regs s 0 = 0 \<Longrightarrow> regs (step_fetch h s) 0 = 0"
  by (auto simp: step_fetch_def step_compressed_def step_full_def Let_def case_prod_beta exec_x0 split: option.split)

lemma step_x0: "regs s 0 = 0 \<Longrightarrow> regs (fst (rv_step h s)) 0 = 0"
  by (auto simp: rv_step_def Let_def intro!: fetch_x0)

lemma run_loop_x0: "regs s 0 = 0 \<Longrightarrow> regs (fst (run_loop h i k s)) 0 = 0"
proof (induction k arbitrary: i s)
  case (Suc k)
  then show ?case using step_x0 [of s] by (auto split: prod.split bool.split)
qed simp

lemma run_x0: "regs s 0 = 0 \<Longrightarrow> regs (fst (rv_run h count s)) 0 = 0"
  by (simp add: rv_run_def run_loop_x0)

end

end
