(* ===== verification/Rv_Halt.thy ===== *)
theory Rv_Halt
  imports Rv_Invariant
begin

text \<open>
  When the processor stops. \<open>rv_step\<close> clears the flag that \<open>rv_trap\<close> tests for a double fault, and
  an instruction enters at most one trap, so only an environment call can halt a stepping
  processor. The locale \<open>halt_host\<close> states it for a host with a property \<open>Q\<close> that holds from the
  moment a call asked for the stop.
\<close>

locale halt_host =
  fixes h :: "'w rv_host" and Q :: "'w \<Rightarrow> bool"
  assumes q_r8: "Q w \<Longrightarrow> Q (snd (read8 h w a))"
    and q_r16: "Q w \<Longrightarrow> Q (snd (read16 h w a))"
    and q_r32: "Q w \<Longrightarrow> Q (snd (read32 h w a))"
    and q_w8: "Q w \<Longrightarrow> Q (write8 h w a v)"
    and q_w16: "Q w \<Longrightarrow> Q (write16 h w a v)"
    and q_w32: "Q w \<Longrightarrow> Q (write32 h w a v)"
    and q_call: "ecall h = Some c \<Longrightarrow> halted s \<longrightarrow> Q (bus_ctx s) \<Longrightarrow>
      halted (fst (c s)) \<longrightarrow> Q (bus_ctx (fst (c s)))"
    and call_in_trap: "ecall h = Some c \<Longrightarrow> in_trap (fst (c s)) = in_trap s"
begin

definition ok :: "'w rv_cpu \<Rightarrow> bool" where
  "ok s \<longleftrightarrow> (halted s \<longrightarrow> Q (bus_ctx s))"

definition live :: "'w rv_cpu \<Rightarrow> bool" where
  "live s \<longleftrightarrow> ok s \<and> \<not> in_trap s"

lemma live_ok: "live s \<Longrightarrow> ok s" by (simp add: live_def)

lemma trap_ok [intro]: "live s \<Longrightarrow> ok (rv_trap c t s)"
  by (simp add: live_def ok_def rv_trap_def Let_def)

lemma illegal_ok [intro]: "live s \<Longrightarrow> ok (illegal insn s)"
  unfolding illegal_def by (rule trap_ok) (simp add: live_def ok_def)

lemma read_bytes_Q: "Q w \<Longrightarrow> Q (snd (read_bytes h a i n v w))"
proof (induction n arbitrary: i v w)
  case 0
  then show ?case by simp
next
  case (Suc n)
  then show ?case using q_r8 [of w "a + of_nat i"] by (auto split: prod.splits)
qed

lemma write_bytes_Q: "Q w \<Longrightarrow> Q (write_bytes h a i n v w)"
  by (induction n arbitrary: i w) (auto simp: q_w8)

lemma mem_read_ok:
  assumes "live s" "mem_read h a sz s = (s', r)"
  shows "ok s'" "r = Some v \<Longrightarrow> live s'"
proof -
  have t: "live (tr_push ty p i x nt s)" for ty p i x nt
    using assms by (simp add: live_def ok_def)
  show "ok s'" "r = Some v \<Longrightarrow> live s'"
    using assms trap_ok [OF t] q_r8 [of "bus_ctx s"] q_r16 [of "bus_ctx s"] q_r32 [of "bus_ctx s"]
      read_bytes_Q [of "bus_ctx s"]
    by (auto simp: mem_read_def live_def ok_def split: if_splits prod.splits) (metis snd_conv)+
qed

lemma mem_write_ok:
  assumes "live s" "mem_write h a sz x s = (s', r)"
  shows "ok s'" "r \<Longrightarrow> live s'"
proof -
  have t: "live (tr_push ty p i x nt s)" for ty p i x nt
    using assms by (simp add: live_def ok_def)
  show "ok s'" "r \<Longrightarrow> live s'"
    using assms trap_ok [OF t] q_w8 [of "bus_ctx s"] q_w16 [of "bus_ctx s"] q_w32 [of "bus_ctx s"]
      write_bytes_Q [of "bus_ctx s"]
    by (auto simp: mem_write_def live_def ok_def Let_def split: if_splits)
qed

lemma upd_ok [simp]: "ok (setx r v s) = ok s" "live (setx r v s) = live s"
  "ok (setf r v s) = ok s" "live (setf r v s) = live s" "ok (tr_push ty p i x nt s) = ok s"
  "live (tr_push ty p i x nt s) = live s" "ok (clear_x0 s) = ok s" "ok (put_f r z s) = ok s"
  "ok (put_x r z s) = ok s" "ok (finish n s) = ok s" "ok (s\<lparr>mstatus := x\<rparr>) = ok s"
  "ok (s\<lparr>res_valid := b\<rparr>) = ok s" "ok (s\<lparr>res_addr := x\<rparr>) = ok s" "ok (s\<lparr>waiting := b\<rparr>) = ok s"
  by (simp_all add: ok_def live_def clear_x0_def put_f_def put_x_def finish_def retire_def)

lemma mem_write_fst: "live s \<Longrightarrow> ok (fst (mem_write h a sz x s))"
  using mem_write_ok [of s a sz x] by (cases "mem_write h a sz x s") auto

fun flow_ok :: "'w flow \<Rightarrow> bool" where
  "flow_ok (Brk s n) = ok s"
| "flow_ok (Ret s n) = ok s"
| "flow_ok _ = True"

lemma push_regs_ok:
  "live s \<Longrightarrow> push_regs h a i rs s = (s', r) \<Longrightarrow> ok s'"
proof (induction rs arbitrary: i s)
  case (Cons x rs)
  then show ?case
    by (auto split: prod.splits bool.splits dest: mem_write_ok intro: Cons.IH)
qed (simp add: live_ok)

lemma pop_regs_ok:
  "live s \<Longrightarrow> pop_regs h a i rs s = (s', r) \<Longrightarrow> ok s'"
proof (induction rs arbitrary: i s)
  case (Cons x rs)
  from Cons.prems show ?case
    by (auto split: prod.splits option.splits dest: mem_read_ok(1) dest!: Cons.IH[rotated] intro: mem_read_ok(2))
qed (simp add: live_ok)

lemma zcmp_ok: "live s \<Longrightarrow> exec_zcmp h c n s = Some (s', n') \<Longrightarrow> ok s'"
  using push_regs_ok [of s] pop_regs_ok [of s] live_ok [of s]
  by (auto simp: exec_zcmp_def cm_push_def cm_pop_def Let_def
      split: if_splits prod.splits bool.splits)

lemma memory_ok:
  assumes "live s"
  shows "flow_ok (exec_load h insn n s)" "flow_ok (exec_store h insn n s)"
    "flow_ok (exec_load_fp h insn n s)" "flow_ok (exec_store_fp h insn n s)"
proof -
  have r: "ok s'" if "mem_read h a sz s = (s', r)" for a sz s' r
    using mem_read_ok(1) [OF assms that] .
  show "flow_ok (exec_load h insn n s)" "flow_ok (exec_load_fp h insn n s)"
    using assms r
    by (auto simp: exec_load_def load_into_def exec_load_fp_def Let_def split: prod.splits option.splits)
  show "flow_ok (exec_store h insn n s)" "flow_ok (exec_store_fp h insn n s)"
    using assms by (auto simp: exec_store_def exec_store_fp_def Let_def mem_write_fst)
qed

lemma amo_ok: "live s \<Longrightarrow> flow_ok (exec_amo h insn n s)"
proof -
  assume s: "live s"
  note rd = mem_read_ok(1) [OF s] and rd' = mem_read_ok(2) [OF s _ refl]
  note wr = mem_write_ok(1) [OF rd'] and wr' = mem_write_ok(1) [OF s]
  have lr: "flow_ok (exec_lr h insn a n s)" for a
    using s by (auto simp: exec_lr_def split: prod.splits option.splits dest: rd)
  have sc: "flow_ok (exec_sc h insn a b n s)" for a b
    using s live_ok [OF s] by (auto simp: exec_sc_def split: prod.splits bool.splits dest: wr')
  show ?thesis
    using s lr sc
    by (auto simp: exec_amo_def Let_def split: prod.splits option.splits bool.splits
        dest: rd wr intro!: illegal_ok intro: rd')
qed

lemma csr_write_ok: "csr_write k v s = Some s' \<Longrightarrow> ok s' = ok s"
  by (auto simp: csr_write_def ok_def split: if_splits)

lemma csr_ok: "live s \<Longrightarrow> flow_ok (exec_csr insn n s)"
  by (auto simp: exec_csr_def Let_def live_ok csr_write_ok split: option.split)

lemma system_ok: "live s \<Longrightarrow> flow_ok (exec_system h insn n s)"
proof -
  assume s: "live s"
  have "ok t'" "live t'" if "ecall h = Some c" "c t = (t', r)" "live t" for c t t' r
    using q_call [OF that(1), of t] call_in_trap [OF that(1), of t] that(2,3)
    by (auto simp: ok_def live_def)
  with s csr_ok show ?thesis
    by (auto simp: exec_system_def exec_ecall_def exec_mret_def Let_def live_ok
        split: option.split prod.split bool.split)
qed

lemma alu_ok:
  assumes "live s"
  shows "flow_ok (exec_jal insn n s)" "flow_ok (exec_jalr insn n s)" "flow_ok (exec_branch insn n s)"
    "flow_ok (exec_op_imm insn n s)" "flow_ok (exec_op_reg insn n s)" "flow_ok (exec_fma insn n s)"
    "flow_ok (exec_fp insn n s)"
  using live_ok [OF assms] illegal_ok [OF assms]
  by (simp_all add: exec_jal_def exec_jalr_def exec_branch_def exec_op_imm_def exec_op_reg_def
      exec_fma_def exec_fp_def with_rm_def Let_def case_prod_beta split: option.split)

lemma switch_ok: "live s \<Longrightarrow> flow_ok (exec_switch h insn n s)"
  by (simp add: exec_switch_def Let_def memory_ok amo_ok system_ok alu_ok live_ok illegal_ok
      if_distrib [of flow_ok] if_distrib [of ok] del: if_split cong: if_weak_cong)

lemma exec_ok: "live s \<Longrightarrow> ok (fst (exec h insn n s))"
  using switch_ok [of s insn n] live_ok [of s]
  by (cases "exec_switch h insn n s") (auto simp: exec_def exec_zb_def Let_def split: option.split)

lemma compressed_ok: "live s \<Longrightarrow> ok (step_compressed h lo s)"
  by (auto simp: step_compressed_def Let_def case_prod_beta exec_ok zcmp_ok split: option.split)

lemma ctx_live: "live s \<Longrightarrow> (Q (bus_ctx s) \<Longrightarrow> Q w) \<Longrightarrow> live (s\<lparr>bus_ctx := w\<rparr>)"
  by (auto simp: live_def ok_def)

lemma full_ok: "live s \<Longrightarrow> ok (step_full h lo s)"
  by (auto simp: step_full_def Let_def case_prod_beta intro!: exec_ok ctx_live q_r16)

lemma fetch_ok: "live s \<Longrightarrow> ok (step_fetch h s)"
  by (auto simp: step_fetch_def Let_def case_prod_beta intro!: compressed_ok full_ok ctx_live q_r16)

lemma step_ok: "ok s \<Longrightarrow> ok (fst (rv_step h s))"
proof -
  assume "ok s"
  then have "live (s\<lparr>in_trap := False\<rparr>)" by (simp add: live_def ok_def)
  then show ?thesis using \<open>ok s\<close> by (auto simp: rv_step_def Let_def intro!: fetch_ok)
qed

lemma run_loop_ok: "ok s \<Longrightarrow> ok (fst (run_loop h i k s))"
proof (induction k arbitrary: i s)
  case (Suc k)
  then show ?case using step_ok [of s] by (auto split: prod.split bool.split)
qed simp

lemma run_halt: "halted s \<longrightarrow> Q (bus_ctx s) \<Longrightarrow>
    halted (fst (rv_run h n s)) \<longrightarrow> Q (bus_ctx (fst (rv_run h n s)))"
  using run_loop_ok [of s 0 "nat n"] by (simp add: rv_run_def ok_def)

lemma step_halt: "\<not> halted s \<Longrightarrow> halted (fst (rv_step h s)) \<Longrightarrow> Q (bus_ctx (fst (rv_step h s)))"
  using step_ok [of s] by (simp add: ok_def)

end

end
