(* ===== verification/Rv_Machine.thy ===== *)
theory Rv_Machine
  imports Rv_Halt
begin

text \<open>
  The flat-memory host of \<^verbatim>\<open>src/rv32-emulator/demo/machine.c\<close>: the six bus callbacks, the system
  call layer and the construction of a machine. The C arrays are unchecked, so the model
  carries a flag \<open>oob\<close> that is raised the moment the code indexes \<open>m->mem\<close> at or beyond
  \<open>m->mem_size\<close>; the flag has no counterpart in the code and nothing reads it.
\<close>

subsection \<open>State\<close>

text \<open>
  \<open>console\<close> is what \<open>fputc\<close> wrote: the file descriptor (1 for stdout, 2 for stderr) and
  the byte, oldest first.
\<close>

record machine =
  mem :: "u32 \<Rightarrow> u8"
  mem_size :: u32
  exited :: bool
  exit_code :: u32
  quiet :: bool
  syscalls :: u64
  console :: "(u32 \<times> u8) list"
  oob :: bool

definition MACHINE_MEM_SIZE :: u32 where
  "MACHINE_MEM_SIZE = 16 * 1024 * 1024"

text \<open>Indexing \<open>m->mem[a]\<close>, for reading and for writing.\<close>

definition mget :: "machine \<Rightarrow> u32 \<Rightarrow> u32" where
  "mget m a = ucast (mem m a)"

definition touch :: "u32 \<Rightarrow> machine \<Rightarrow> machine" where
  "touch a m = m\<lparr>oob := oob m \<or> \<not> a < mem_size m\<rparr>"

definition mput :: "u32 \<Rightarrow> u8 \<Rightarrow> machine \<Rightarrow> machine" where
  "mput a v m = touch a (m\<lparr>mem := (mem m)(a := v)\<rparr>)"

subsection \<open>Bus callbacks\<close>

definition mem_r8 :: "machine \<Rightarrow> u32 \<Rightarrow> u32 \<times> machine" where
  "mem_r8 m addr = (if addr \<ge> mem_size m then (0, m) else (mget m addr, touch addr m))"

definition mem_r16 :: "machine \<Rightarrow> u32 \<Rightarrow> u32 \<times> machine" where
  "mem_r16 m addr =
    (if addr + 1 \<ge> mem_size m then (0, m)
     else (mget m addr OR push_bit 8 (mget m (addr + 1)), touch (addr + 1) (touch addr m)))"

definition mem_r32 :: "machine \<Rightarrow> u32 \<Rightarrow> u32 \<times> machine" where
  "mem_r32 m addr =
    (if addr + 3 \<ge> mem_size m then (0, m)
     else (mget m addr OR push_bit 8 (mget m (addr + 1)) OR push_bit 16 (mget m (addr + 2)) OR
             push_bit 24 (mget m (addr + 3)),
           touch (addr + 3) (touch (addr + 2) (touch (addr + 1) (touch addr m)))))"

definition mem_w8 :: "machine \<Rightarrow> u32 \<Rightarrow> u32 \<Rightarrow> machine" where
  "mem_w8 m addr val = (if addr < mem_size m then mput addr (ucast val) m else m)"

definition mem_w16 :: "machine \<Rightarrow> u32 \<Rightarrow> u32 \<Rightarrow> machine" where
  "mem_w16 m addr val =
    (if addr + 1 < mem_size m
     then mput (addr + 1) (ucast (drop_bit 8 val)) (mput addr (ucast val) m) else m)"

definition mem_w32 :: "machine \<Rightarrow> u32 \<Rightarrow> u32 \<Rightarrow> machine" where
  "mem_w32 m addr val =
    (if addr + 3 < mem_size m
     then mput (addr + 3) (ucast (drop_bit 24 val)) (mput (addr + 2) (ucast (drop_bit 16 val))
            (mput (addr + 1) (ucast (drop_bit 8 val)) (mput addr (ucast val) m)))
     else m)"

subsection \<open>System calls\<close>

definition SYS_WRITE :: u32 where "SYS_WRITE = 64"
definition SYS_EXIT :: u32 where "SYS_EXIT = 93"
definition SYS_EXIT_GROUP :: u32 where "SYS_EXIT_GROUP = 94"

text \<open>
  The output loop, \<open>for (i = 0; i < a2 \<and> a1 + i < mem_size; i++)\<close>. It makes at most
  \<open>a2\<close> turns, so it recurses on the turns left; \<open>p\<close> is \<open>a1 + i\<close>.
\<close>

fun put_bytes :: "u32 \<Rightarrow> nat \<Rightarrow> u32 \<Rightarrow> machine \<Rightarrow> machine" where
  "put_bytes fd 0 p m = m"
| "put_bytes fd (Suc k) p m =
    (if p < mem_size m
     then put_bytes fd k (p + 1) (touch p (m\<lparr>console := console m @ [(fd, mem m p)]\<rparr>))
     else m)"

definition do_ecall :: "machine rv_cpu \<Rightarrow> machine rv_cpu \<times> bool" where
  "do_ecall s =
    (let nr = getx s 17; a0 = getx s 10; a1 = getx s 11; a2 = getx s 12;
         m = bus_ctx s; m = m\<lparr>syscalls := syscalls m + 1\<rparr>
     in if nr = SYS_WRITE then
          (let m = (if \<not> quiet m \<and> (a0 = 1 \<or> a0 = 2) then put_bytes a0 (unat a2) a1 m else m)
           in (setx 10 a2 (s\<lparr>bus_ctx := m\<rparr>), True))
        else if nr = SYS_EXIT \<or> nr = SYS_EXIT_GROUP then
          (rv_halt (s\<lparr>bus_ctx := m\<lparr>exited := True, exit_code := a0\<rparr>\<rparr>), True)
        else (setx 10 (- 38) (s\<lparr>bus_ctx := m\<rparr>), True))"

subsection \<open>Construction\<close>

definition machine_poke :: "machine \<Rightarrow> u32 \<Rightarrow> u8 \<Rightarrow> machine" where
  "machine_poke m addr byte = (if addr < mem_size m then mput addr byte m else m)"

text \<open>
  \<open>machine_init\<close>: \<open>alloc_ok\<close> is whether \<open>calloc\<close> succeeded; without memory the function
  returns -1 before it wires the processor.
\<close>

definition fresh_machine :: machine where
  "fresh_machine = \<lparr>mem = (\<lambda>_. 0), mem_size = MACHINE_MEM_SIZE, exited = False, exit_code = 0,
     quiet = False, syscalls = 0, console = [], oob = False\<rparr>"

definition machine_init :: "bool \<Rightarrow> (machine rv_host \<times> machine rv_cpu) option" where
  "machine_init alloc_ok =
    (if \<not> alloc_ok then None
     else let (h, s) = rv_init mem_r8 mem_r16 mem_r32 mem_w8 mem_w16 mem_w32 fresh_machine
          in Some (rv_set_ecall (Some do_ecall) h, s))"

text \<open>The host record that \<open>machine_init\<close> wires.\<close>

definition machine_host :: "machine rv_host" where
  "machine_host = \<lparr>read8 = mem_r8, read16 = mem_r16, read32 = mem_r32, write8 = mem_w8,
     write16 = mem_w16, write32 = mem_w32, probe = None, ecall = Some do_ecall\<rparr>"

lemma machine_host_simps [simp]:
  "read8 machine_host = mem_r8" "read16 machine_host = mem_r16" "read32 machine_host = mem_r32"
  "write8 machine_host = mem_w8" "write16 machine_host = mem_w16" "write32 machine_host = mem_w32"
  "probe machine_host = None" "ecall machine_host = Some do_ecall"
  by (simp_all add: machine_host_def)

subsection \<open>The contracts of the emulator, met by this host\<close>

lemma touch_simps [simp]: "mem (touch a m) = mem m" "mem_size (touch a m) = mem_size m"
  "a < mem_size m \<Longrightarrow> touch a m = m" "oob (touch a m) \<longleftrightarrow> oob m \<or> \<not> a < mem_size m"
  by (auto simp add: touch_def)
lemma mput_simps [simp]: "mem (mput a v m) = (mem m)(a := v)" "mem_size (mput a v m) = mem_size m"
  "oob (mput a v m) \<longleftrightarrow> oob m \<or> \<not> a < mem_size m"
  by (simp_all add: mput_def touch_def)

lemmas bus_callbacks = mem_r8_def mem_r16_def mem_r32_def mem_w8_def mem_w16_def mem_w32_def

interpretation flat: bus_memory machine_host "\<lambda>_. True" "\<lambda>m a. a < mem_size m" mem
  by unfold_locales (auto simp: bus_callbacks mget_def le_word_bytes le_store_bytes all_bytes)

lemma put_bytes_oob [simp]: "oob (put_bytes fd k p m) = oob m"
  by (induction fd k p m rule: put_bytes.induct) auto

lemma mem_reads_safe:
   "\<not> oob m \<Longrightarrow> \<not> oob (snd (mem_r8 m a))"
  "\<not> oob m \<Longrightarrow> a AND 1 = 0 \<Longrightarrow> \<not> oob (snd (mem_r16 m a))"
  "\<not> oob m \<Longrightarrow> a AND 3 = 0 \<Longrightarrow> \<not> oob (snd (mem_r32 m a))"
  using halfword_inside [of a "mem_size m"] word_inside [of a "mem_size m"]
  by (auto simp: bus_callbacks not_le)
interpretation flat_safe: bus_invariant machine_host "\<lambda>m. \<not> oob m"
proof unfold_locales
  fix w w' :: machine and a v :: u32 
  show "\<not> oob w \<Longrightarrow> a AND 1 = 0 \<Longrightarrow> \<not> oob (write16 machine_host w a v)"
    using halfword_inside [of a "mem_size w"] by (auto simp: bus_callbacks)
  show "\<not> oob w \<Longrightarrow> a AND 3 = 0 \<Longrightarrow> \<not> oob (write32 machine_host w a v)"
    using word_inside [of a "mem_size w"] by (auto simp: bus_callbacks)
qed (auto simp: mem_reads_safe mem_w8_def do_ecall_def Let_def rv_halt_def)

interpretation flat_x0: x0_host machine_host
  by unfold_locales (auto simp: do_ecall_def Let_def rv_halt_def setx_def)

lemma touch_exited [simp]: "exited (touch a m) = exited m" "exited (mput a v m) = exited m"
  by (simp_all add: touch_def mput_def)

lemma put_bytes_exited [simp]: "exited (put_bytes fd k p m) = exited m"
  by (induction fd k p m rule: put_bytes.induct) auto

interpretation flat_halt: halt_host machine_host exited
  by unfold_locales (auto simp: bus_callbacks do_ecall_def Let_def rv_halt_def split: if_splits)

subsection \<open>Properties of the machine\<close>

text \<open>\<open>machine_init\<close> wires the host record above to a zeroed processor.\<close>

lemma machine_init_wires: "machine_init True = Some (machine_host, cpu0 fresh_machine)"
  by (simp add: machine_init_def rv_init_def rv_set_ecall_def machine_host_def cpu0_def)

text \<open>
  C1. Memory safety of the native embedding: from a state in which the host has not indexed its
  memory array out of bounds, running any number of instructions, whatever the guest program,
  never makes it do so. The 16-bit and 32-bit callbacks, whose bound check can wrap around, are
  only ever called with aligned addresses.
\<close>

theorem machine_memory_safe:
  assumes "\<not> oob (bus_ctx s)"
  shows "\<not> oob (bus_ctx (fst (rv_run machine_host n s)))"
  using assms by (rule flat_safe.run_P)

theorem machine_memory_safe_witness:
  "\<not> oob (bus_ctx (fst (rv_run machine_host 1000 (cpu0 fresh_machine))))"
  using machine_memory_safe [of "cpu0 fresh_machine" 1000] by (simp add: fresh_machine_def)

text \<open>
  Register x0 reads as zero at every instruction boundary: no instruction, trap or system
  call of the machine leaves anything else in it.
\<close>

theorem machine_x0:
  assumes "regs s 0 = 0"
  shows "regs (fst (rv_run machine_host n s)) 0 = 0"
  using assms by (rule flat_x0.run_x0)

theorem machine_x0_witness: "regs (fst (rv_run machine_host 1000 (cpu0 fresh_machine))) 0 = 0"
  using machine_x0 [of "cpu0 fresh_machine" 1000] by simp


text \<open>One \<open>ecall\<close> with 93 in a7.\<close>

definition exit_guest :: "machine rv_cpu" where
  "exit_guest = cpu0 (fresh_machine\<lparr>mem := (\<lambda>_. 0)(0 := 0x73)\<rparr>)\<lparr>regs := (\<lambda>_. 0)(17 := 93)\<rparr>"

lemma exit_guest_halts: "\<not> halted exit_guest \<and> halted (fst (rv_run machine_host 1 exit_guest))"
  by code_simp




text \<open>
  Called directly with an odd address at the end of the address space, the 16-bit callback does
  index out of bounds: its bound check wraps around.
\<close>

lemma mem_r16_wraps: "oob (snd (mem_r16 fresh_machine 0xffffffff))"
  by (simp add: mem_r16_def fresh_machine_def MACHINE_MEM_SIZE_def)

end
