(* ===== verification/Rv_Wasm.thy ===== *)
theory Rv_Wasm
  imports Rv_Invariant
begin

text \<open>
  The browser host of \<^verbatim>\<open>src/rv32-emulator/demo/wasm/rv32_wasm.c\<close>: one mebibyte of guest memory, an
  access check installed as a sandbox, a draw list and a console filled by environment calls,
  and the loop that runs one animation frame. The flag \<open>w_oob\<close> is raised when the code
  indexes \<open>guest_mem\<close>, \<open>draw_cmds\<close> or \<open>console\<close> outside the array; nothing reads it.
\<close>

definition GUEST_MEM_SIZE :: u32 where "GUEST_MEM_SIZE = push_bit 20 1"
definition DRAW_MAX :: u32 where "DRAW_MAX = 4096"

record wasm =
  guest_mem :: "u32 \<Rightarrow> u8"
  draw_cmds :: "u32 \<Rightarrow> u32"
  draw_count :: u32
  w_console :: "u32 \<Rightarrow> u32"
  console_len :: u32
  frame_done :: bool
  w_oob :: bool

subsection \<open>Memory bus\<close>

definition gget :: "wasm \<Rightarrow> u32 \<Rightarrow> u32" where
  "gget m a = ucast (guest_mem m a)"

definition gtouch :: "u32 \<Rightarrow> wasm \<Rightarrow> wasm" where
  "gtouch a m = m\<lparr>w_oob := w_oob m \<or> \<not> a < GUEST_MEM_SIZE\<rparr>"

definition gput :: "u32 \<Rightarrow> u8 \<Rightarrow> wasm \<Rightarrow> wasm" where
  "gput a v m = gtouch a (m\<lparr>guest_mem := (guest_mem m)(a := v)\<rparr>)"

definition wasm_r8 :: "wasm \<Rightarrow> u32 \<Rightarrow> u32 \<times> wasm" where
  "wasm_r8 m addr = (if addr < GUEST_MEM_SIZE then (gget m addr, gtouch addr m) else (0, m))"

definition wasm_r16 :: "wasm \<Rightarrow> u32 \<Rightarrow> u32 \<times> wasm" where
  "wasm_r16 m addr =
    (if addr + 1 \<ge> GUEST_MEM_SIZE then (0, m)
     else (gget m addr OR push_bit 8 (gget m (addr + 1)), gtouch (addr + 1) (gtouch addr m)))"

definition wasm_r32 :: "wasm \<Rightarrow> u32 \<Rightarrow> u32 \<times> wasm" where
  "wasm_r32 m addr =
    (if addr + 3 \<ge> GUEST_MEM_SIZE then (0, m)
     else (gget m addr OR push_bit 8 (gget m (addr + 1)) OR push_bit 16 (gget m (addr + 2)) OR
             push_bit 24 (gget m (addr + 3)),
           gtouch (addr + 3) (gtouch (addr + 2) (gtouch (addr + 1) (gtouch addr m)))))"

definition wasm_w8 :: "wasm \<Rightarrow> u32 \<Rightarrow> u32 \<Rightarrow> wasm" where
  "wasm_w8 m addr val = (if addr < GUEST_MEM_SIZE then gput addr (ucast val) m else m)"

definition wasm_w16 :: "wasm \<Rightarrow> u32 \<Rightarrow> u32 \<Rightarrow> wasm" where
  "wasm_w16 m addr val =
    (if addr + 1 < GUEST_MEM_SIZE
     then gput (addr + 1) (ucast (drop_bit 8 val)) (gput addr (ucast val) m) else m)"

definition wasm_w32 :: "wasm \<Rightarrow> u32 \<Rightarrow> u32 \<Rightarrow> wasm" where
  "wasm_w32 m addr val =
    (if addr + 3 < GUEST_MEM_SIZE
     then gput (addr + 3) (ucast (drop_bit 24 val)) (gput (addr + 2) (ucast (drop_bit 16 val))
            (gput (addr + 1) (ucast (drop_bit 8 val)) (gput addr (ucast val) m)))
     else m)"

definition mem_probe :: "wasm \<Rightarrow> u32 \<Rightarrow> u32 \<Rightarrow> bool \<Rightarrow> bool" where
  "mem_probe m addr sz is_write \<longleftrightarrow> addr + sz > GUEST_MEM_SIZE"

subsection \<open>Environment calls\<close>

definition WSYS_EXIT :: u32 where "WSYS_EXIT = 93"
definition WSYS_DRAW :: u32 where "WSYS_DRAW = 1024"
definition WSYS_PUTCHAR :: u32 where "WSYS_PUTCHAR = 1025"
definition WSYS_FRAME :: u32 where "WSYS_FRAME = 1026"

definition draw_put :: "u32 \<Rightarrow> u32 \<Rightarrow> wasm \<Rightarrow> wasm" where
  "draw_put i v m = m\<lparr>draw_cmds := (draw_cmds m)(i := v), w_oob := w_oob m \<or> \<not> i < DRAW_MAX * 4\<rparr>"

definition console_put :: "u32 \<Rightarrow> u32 \<Rightarrow> wasm \<Rightarrow> wasm" where
  "console_put i v m = m\<lparr>w_console := (w_console m)(i := v), w_oob := w_oob m \<or> \<not> i < 1024\<rparr>"

definition wasm_ecall :: "wasm rv_cpu \<Rightarrow> wasm rv_cpu \<times> bool" where
  "wasm_ecall c =
    (let nr = getx c 17; m = bus_ctx c in
     if nr = WSYS_EXIT then (rv_halt c, True)
     else if nr = WSYS_DRAW then
       (let k = draw_count m;
            m = (if k < DRAW_MAX then
                   (draw_put (k * 4 + 3) (getx c 13) (draw_put (k * 4 + 2) (getx c 12)
                     (draw_put (k * 4 + 1) (getx c 11) (draw_put (k * 4 + 0) (getx c 10) m))))
                     \<lparr>draw_count := k + 1\<rparr>
                 else m)
        in (c\<lparr>bus_ctx := m\<rparr>, True))
     else if nr = WSYS_PUTCHAR then
       (let k = console_len m;
            m = (if k < 1024 then (console_put k (getx c 10) m)\<lparr>console_len := k + 1\<rparr> else m)
        in (c\<lparr>bus_ctx := m\<rparr>, True))
     else if nr = WSYS_FRAME then (c\<lparr>bus_ctx := m\<lparr>frame_done := True\<rparr>\<rparr>, True)
     else (setx 10 (- 38) c, True))"

subsection \<open>Exports\<close>

definition wasm_host :: "wasm rv_host" where
  "wasm_host = \<lparr>read8 = wasm_r8, read16 = wasm_r16, read32 = wasm_r32, write8 = wasm_w8,
     write16 = wasm_w16, write32 = wasm_w32, probe = Some mem_probe, ecall = Some wasm_ecall\<rparr>"

lemma wasm_host_simps [simp]:
  "read8 wasm_host = wasm_r8" "read16 wasm_host = wasm_r16" "read32 wasm_host = wasm_r32"
  "write8 wasm_host = wasm_w8" "write16 wasm_host = wasm_w16" "write32 wasm_host = wasm_w32"
  "probe wasm_host = Some mem_probe" "ecall wasm_host = Some wasm_ecall"
  by (simp_all add: wasm_host_def)

text \<open>\<open>rvw_reset\<close> builds the processor afresh over the module's static state \<open>m\<close>.\<close>

definition rvw_reset :: "u32 \<Rightarrow> wasm \<Rightarrow> wasm rv_host \<times> wasm rv_cpu" where
  "rvw_reset entry m =
    (let (h, s) = rv_init wasm_r8 wasm_r16 wasm_r32 wasm_w8 wasm_w16 wasm_w32 m;
         h = rv_set_ecall (Some wasm_ecall) h;
         h = rv_set_probe (Some mem_probe) h;
         s = rv_reset entry s
     in (h, s\<lparr>bus_ctx := (bus_ctx s)\<lparr>draw_count := 0, console_len := 0, frame_done := False\<rparr>\<rparr>))"

text \<open>
  \<open>rvw_run_frame\<close>: \<open>executed\<close> climbs to \<open>budget\<close> at most, so the loop recurses on the
  difference.
\<close>

fun frame_loop :: "wasm rv_host \<Rightarrow> nat \<Rightarrow> u32 \<Rightarrow> wasm rv_cpu \<Rightarrow> wasm rv_cpu \<times> u32" where
  "frame_loop h 0 executed s = (s, executed)"
| "frame_loop h (Suc k) executed s =
    (if frame_done (bus_ctx s) then (s, executed)
     else case rv_step h s of
       (s, False) \<Rightarrow> (s, executed)
     | (s, True) \<Rightarrow> frame_loop h k (executed + 1) s)"

definition rvw_run_frame :: "wasm rv_host \<Rightarrow> u32 \<Rightarrow> wasm rv_cpu \<Rightarrow> wasm rv_cpu \<times> u32" where
  "rvw_run_frame h budget s =
    (let s = s\<lparr>bus_ctx := (bus_ctx s)\<lparr>draw_count := 0, frame_done := False\<rparr>\<rparr>
     in frame_loop h (unat budget) 0 s)"

subsection \<open>The contracts of the emulator, met by this host\<close>

lemma gtouch_simps [simp]:
  "guest_mem (gtouch a m) = guest_mem m" "draw_count (gtouch a m) = draw_count m"
  "console_len (gtouch a m) = console_len m"
  "a < GUEST_MEM_SIZE \<Longrightarrow> gtouch a m = m" "w_oob (gtouch a m) \<longleftrightarrow> w_oob m \<or> \<not> a < GUEST_MEM_SIZE"
  by (auto simp: gtouch_def)

lemma gput_simps [simp]:
  "guest_mem (gput a v m) = (guest_mem m)(a := v)" "draw_count (gput a v m) = draw_count m"
  "console_len (gput a v m) = console_len m"
  "w_oob (gput a v m) \<longleftrightarrow> w_oob m \<or> \<not> a < GUEST_MEM_SIZE"
  by (simp_all add: gput_def)

lemmas wasm_callbacks = wasm_r8_def wasm_r16_def wasm_r32_def wasm_w8_def wasm_w16_def wasm_w32_def

interpretation sandbox: bus_memory wasm_host "\<lambda>_. True" "\<lambda>m a. a < GUEST_MEM_SIZE" guest_mem
  by unfold_locales (auto simp: wasm_callbacks gget_def le_word_bytes le_store_bytes all_bytes)

text \<open>Nothing was indexed out of bounds and the counts the page reads are within the arrays.\<close>

definition wasm_safe :: "wasm \<Rightarrow> bool" where
  "wasm_safe m \<longleftrightarrow> \<not> w_oob m \<and> draw_count m \<le> DRAW_MAX \<and> console_len m \<le> 1024"

lemma draw_slot_bound: "k < DRAW_MAX \<Longrightarrow> j < 4 \<Longrightarrow> k * 4 + j < DRAW_MAX * 4"
  by (simp add: DRAW_MAX_def word_less_nat_alt unat_word_ariths)

lemma wasm_ecall_safe: "wasm_safe (bus_ctx c) \<Longrightarrow> wasm_safe (bus_ctx (fst (wasm_ecall c)))"
  using draw_slot_bound [of "draw_count (bus_ctx c)"] draw_slot_bound [of "draw_count (bus_ctx c)" 0]
  by (auto simp: wasm_safe_def wasm_ecall_def Let_def rv_halt_def draw_put_def console_put_def inc_le)

lemma wasm_reads_safe:
  "wasm_safe m \<Longrightarrow> wasm_safe (snd (wasm_r8 m a))"
  "wasm_safe m \<Longrightarrow> a AND 1 = 0 \<Longrightarrow> wasm_safe (snd (wasm_r16 m a))"
  "wasm_safe m \<Longrightarrow> a AND 3 = 0 \<Longrightarrow> wasm_safe (snd (wasm_r32 m a))"
  using halfword_inside [of a GUEST_MEM_SIZE] word_inside [of a GUEST_MEM_SIZE]
  by (auto simp: wasm_safe_def wasm_callbacks not_le)

interpretation sandbox_safe: bus_invariant wasm_host wasm_safe
proof unfold_locales
  fix w :: wasm and a v :: u32
  show "wasm_safe w \<Longrightarrow> a AND 1 = 0 \<Longrightarrow> wasm_safe (write16 wasm_host w a v)"
    using halfword_inside [of a GUEST_MEM_SIZE] by (auto simp: wasm_safe_def wasm_callbacks)
  show "wasm_safe w \<Longrightarrow> a AND 3 = 0 \<Longrightarrow> wasm_safe (write32 wasm_host w a v)"
    using word_inside [of a GUEST_MEM_SIZE] by (auto simp: wasm_safe_def wasm_callbacks)
  show "wasm_safe w \<Longrightarrow> wasm_safe (write8 wasm_host w a v)"
    by (auto simp: wasm_safe_def wasm_callbacks)
qed (auto simp: wasm_reads_safe wasm_ecall_safe)

interpretation sandbox_x0: x0_host wasm_host
  by unfold_locales (auto simp: wasm_ecall_def Let_def rv_halt_def setx_def)

subsection \<open>Properties of the browser host\<close>

lemma frame_loop_safe: "wasm_safe (bus_ctx s) \<Longrightarrow> wasm_safe (bus_ctx (fst (frame_loop wasm_host k e s)))"
proof (induction k arbitrary: e s)
  case (Suc k)
  then show ?case using sandbox_safe.step_P [of s] by (auto split: prod.split bool.split)
qed simp

lemma frame_loop_count:
  "frame_loop h k e s = (s', e') \<Longrightarrow> unat e + k < 2 ^ 32 \<Longrightarrow>
     unat e \<le> unat e' \<and> unat e' \<le> unat e + k \<and>
     (unat e' < unat e + k \<longrightarrow> frame_done (bus_ctx s') \<or> halted s')"
proof (induction k arbitrary: e s)
  case (Suc k)
  have e1: "unat (e + 1) = unat e + 1"
    using Suc.prems(2) by (simp add: unat_word_ariths)
  obtain t b where t: "rv_step h s = (t, b)" by fastforce
  then have b: "b \<longleftrightarrow> \<not> halted t"
    by (auto simp: rv_step_def Let_def split: if_splits)
  show ?case
  proof (cases "frame_done (bus_ctx s) \<or> \<not> b")
    case True
    then show ?thesis using Suc.prems t b by (auto split: if_splits)
  next
    case False
    then have "frame_loop h k (e + 1) t = (s', e')" using Suc.prems(1) t by auto
    from Suc.IH [OF this] show ?thesis using Suc.prems(2) e1 by auto
  qed
qed simp

text \<open>
  C16. One animation frame of the browser host: whatever the guest does, the host never indexes
  guest memory, the draw list or the console out of bounds, the counts the page reads stay
  within the arrays, at most \<open>budget\<close> instructions run, and fewer run only when the guest
  yielded or halted.
\<close>

theorem wasm_frame_safe:
  assumes "wasm_safe (bus_ctx s)" and "rvw_run_frame wasm_host budget s = (s', executed)"
  shows "wasm_safe (bus_ctx s') \<and> executed \<le> budget \<and>
    (executed < budget \<longrightarrow> frame_done (bus_ctx s') \<or> halted s')"
proof -
  let ?s = "s\<lparr>bus_ctx := (bus_ctx s)\<lparr>draw_count := 0, frame_done := False\<rparr>\<rparr>"
  have "wasm_safe (bus_ctx ?s)" using assms(1) by (simp add: wasm_safe_def)
  moreover have r: "frame_loop wasm_host (unat budget) 0 ?s = (s', executed)"
    using assms(2) by (simp add: rvw_run_frame_def Let_def)
  ultimately show ?thesis
    using frame_loop_safe [of ?s "unat budget" 0] frame_loop_count [OF r] u32_bound [of budget]
    by (simp add: word_le_nat_alt word_less_nat_alt)
qed

definition blank_wasm :: wasm where
  "blank_wasm = \<lparr>guest_mem = (\<lambda>_. 0), draw_cmds = (\<lambda>_. 0), draw_count = 0, w_console = (\<lambda>_. 0),
     console_len = 0, frame_done = False, w_oob = False\<rparr>"

lemma rvw_reset_wires: "fst (rvw_reset entry m) = wasm_host"
  by (simp add: rvw_reset_def rv_init_def rv_set_ecall_def rv_set_probe_def wasm_host_def Let_def)

lemma rvw_reset_safe: "\<not> w_oob m \<Longrightarrow> wasm_safe (bus_ctx (snd (rvw_reset entry m)))"
  by (simp add: rvw_reset_def rv_init_def rv_reset_def wasm_safe_def Let_def case_prod_beta)

theorem wasm_frame_safe_witness:
  "wasm_safe (bus_ctx (fst (rvw_run_frame wasm_host 100000 (snd (rvw_reset 0 blank_wasm)))))"
  using wasm_frame_safe [of "snd (rvw_reset 0 blank_wasm)" 100000] rvw_reset_safe [of blank_wasm 0]
  by (metis blank_wasm_def prod.collapse wasm.select_convs(7))

text \<open>
  The access check refuses exactly the accesses that leave guest memory, as long as the end of
  the access does not wrap around the address space.
\<close>

lemma probe_exact:
  assumes "unat addr + unat sz < 2 ^ 32"
  shows "mem_probe m addr sz wr \<longleftrightarrow> unat addr + unat sz > 2 ^ 20"
  using assms
  by (simp add: mem_probe_def GUEST_MEM_SIZE_def word_less_nat_alt unat_word_ariths)

text \<open>
  At the very top of the address space the sum wraps and the check grants accesses that lie
  wholly outside guest memory, which the comment on the function says it refuses: a byte at
  0xffffffff, a halfword at 0xfffffffe, a word at 0xfffffffc, to read or to write. The callbacks
  still answer them without touching an array, with 0 and by dropping the store.
\<close>

theorem probe_grants_outside:
  "\<not> mem_probe m 0xffffffff 1 wr \<and> \<not> mem_probe m 0xfffffffe 2 wr \<and>
   \<not> mem_probe m 0xfffffffc 4 wr \<and>
   mem_read wasm_host 0xfffffffc 4 (cpu0 m) = (cpu0 m, Some 0) \<and>
   mem_write wasm_host 0xfffffffc 4 v (cpu0 m) = (cpu0 m, True)"
  by (simp add: mem_probe_def GUEST_MEM_SIZE_def mem_read_def mem_write_def refused_def
      misaligned_def wasm_callbacks)

subsection \<open>A handler that cannot be reached\<close>

definition lost :: "wasm rv_cpu \<Rightarrow> bool" where
  "lost s \<longleftrightarrow> \<not> halted s \<and> mie s = 0 \<and> pc s = 0x200000 \<and> mtvec s = 0x200000"

lemma lost_step: "lost s \<Longrightarrow> \<exists>s'. rv_step wasm_host s = (s', True) \<and> lost s'"
  by (simp add: lost_def rv_step_def step_fetch_def refused_def mem_probe_def GUEST_MEM_SIZE_def
      Let_def) (simp add: rv_trap_def Let_def cause_codes)

lemma lost_loop: "lost s \<Longrightarrow> snd (run_loop wasm_host i k s) = i + k \<and> lost (fst (run_loop wasm_host i k s))"
proof (induction k arbitrary: i s)
  case (Suc k)
  then show ?case using lost_step [of s] by fastforce
qed simp

text \<open>
  C36. A guest whose program counter and trap handler both lie outside guest memory spins
  forever: every step takes the instruction access fault again and none halts the processor, so
  the run uses up its whole count. The comment in \<open>rv_trap\<close> says an unreachable handler stops the
  processor rather than spin; \<open>rv_step\<close> has cleared the flag it tests.
\<close>

theorem unreachable_handler_spins:
  assumes "lost s"
  shows "snd (rv_run wasm_host n s) = nat n \<and> \<not> halted (fst (rv_run wasm_host n s))"
  using lost_loop [OF assms, of 0 "nat n"] by (simp add: rv_run_def lost_def)

theorem unreachable_handler_spins_witness:
  "snd (rv_run wasm_host 1000000 (cpu0 blank_wasm\<lparr>pc := 0x200000, mtvec := 0x200000\<rparr>)) = 1000000"
  using unreachable_handler_spins [of "cpu0 blank_wasm\<lparr>pc := 0x200000, mtvec := 0x200000\<rparr>" 1000000]
  by (simp add: lost_def)

end
