(* ===== verification/Rv_Traps.thy ===== *)
theory Rv_Traps
  imports Rv_Step
begin

text \<open>
  Trap entry, trap return and interrupts: what \<open>rv_trap\<close>, \<open>mret\<close> and \<open>rv_irq_pending\<close> do to
  the machine-mode state, bit by bit.
\<close>

subsection \<open>The status bits\<close>

lemma mask_bit [field_defs]:
  "bit RV_MSTATUS_MIE k \<longleftrightarrow> k = 3" "bit RV_MSTATUS_MPIE k \<longleftrightarrow> k = 7"
  "bit RV_MSTATUS_MPP k \<longleftrightarrow> k = 11 \<or> k = 12" "bit RV_CAUSE_INTERRUPT k \<longleftrightarrow> k = 31"
proof -
  have pow: "RV_MSTATUS_MIE = 2 ^ 3" "RV_MSTATUS_MPIE = 2 ^ 7" "RV_CAUSE_INTERRUPT = 2 ^ 31"
    "RV_MSTATUS_MPP = 2 ^ 11 OR 2 ^ 12"
    by (simp_all add: mstatus_bits RV_CAUSE_INTERRUPT_def)
  show "bit RV_MSTATUS_MIE k \<longleftrightarrow> k = 3" "bit RV_MSTATUS_MPIE k \<longleftrightarrow> k = 7"
    "bit RV_MSTATUS_MPP k \<longleftrightarrow> k = 11 \<or> k = 12" "bit RV_CAUSE_INTERRUPT k \<longleftrightarrow> k = 31"
    unfolding pow bit_or_iff bit_exp_iff by auto
qed

lemma mask_test [field_defs]:
  "x AND RV_MSTATUS_MIE = 0 \<longleftrightarrow> \<not> bit x 3" "x AND RV_MSTATUS_MPIE = 0 \<longleftrightarrow> \<not> bit x 7"
  "x AND RV_CAUSE_INTERRUPT = 0 \<longleftrightarrow> \<not> bit x 31"
  "x AND RV_MIP_MSIP = 0 \<longleftrightarrow> \<not> bit x 3" "x AND RV_MIP_MTIP = 0 \<longleftrightarrow> \<not> bit x 7"
  "x AND RV_MIP_MEIP = 0 \<longleftrightarrow> \<not> bit x 11"
  using and_exp_eq_0_iff_not_bit [of x 3] and_exp_eq_0_iff_not_bit [of x 7]
    and_exp_eq_0_iff_not_bit [of x 11] and_exp_eq_0_iff_not_bit [of x 31]
  by (simp_all add: mstatus_bits RV_CAUSE_INTERRUPT_def)

lemma trap_mstatus:
  "\<not> in_trap s \<Longrightarrow> bit (mstatus (rv_trap c t s)) k \<longleftrightarrow>
     (if k = 3 then False else if k = 7 then bit (mstatus s) 3
      else if k = 11 \<or> k = 12 then True else bit (mstatus s) k)"
  by (auto simp: rv_trap_def Let_def mask_test mask_bit bit_and_iff bit_or_iff bit_not_iff_eq)

text \<open>
  The handler address: the base of \<open>mtvec\<close>, and in vectored mode, for interrupts only, the
  entry of the table for the cause.
\<close>

definition handler_address :: "u32 \<Rightarrow> u32 \<Rightarrow> u32" where
  "handler_address tvec cause =
    (tvec AND NOT 3) + (if tvec AND 3 = 1 \<and> bit cause 31 then 4 * take_bit 31 cause else 0)"

lemma clear_irq_flag: "c AND NOT RV_CAUSE_INTERRUPT = take_bit 31 c"
  by (rule bit_word_eqI) (auto simp: bit_and_iff bit_not_iff_eq bit_take_bit_iff mask_bit)

lemma trap_pc: "\<not> in_trap s \<Longrightarrow> pc (rv_trap c t s) = handler_address (mtvec s) c"
  by (simp add: rv_trap_def Let_def handler_address_def mask_test clear_irq_flag)

text \<open>
  C25. Trap entry (\<open>rv_trap\<close>), taken while no other trap is being entered: the program counter is
  saved in mepc, the cause and value are recorded, control goes to the handler (vectored for
  interrupts only), MIE moves to MPIE and is cleared, MPP becomes machine mode, every other
  status bit stands; the reservation and the wait flag are dropped, and the register files and
  the memory are untouched.
\<close>

theorem trap_entry:
  assumes "\<not> in_trap s"
  shows "let s' = rv_trap c t s in
    mepc s' = pc s \<and> mcause s' = c \<and> mtval s' = t \<and> pc s' = handler_address (mtvec s) c \<and>
    (\<forall>k. bit (mstatus s') k \<longleftrightarrow>
       (if k = 3 then False else if k = 7 then bit (mstatus s) 3
        else if k = 11 \<or> k = 12 then True else bit (mstatus s) k)) \<and>
    in_trap s' \<and> halted s' = halted s \<and> \<not> res_valid s' \<and> \<not> waiting s' \<and>
    regs s' = regs s \<and> fregs s' = fregs s \<and> bus_ctx s' = bus_ctx s"
  using assms trap_mstatus [OF assms] trap_pc [OF assms]
  unfolding Let_def by simp (simp add: rv_trap_def Let_def)

text \<open>The timer interrupt in vectored mode, and an exception under the same \<open>mtvec\<close>.\<close>

theorem trap_entry_witness:
  "pc (rv_trap 0x80000007 0 (cpu0 ()\<lparr>mtvec := 0x101\<rparr>)) = 0x11c \<and>
   pc (rv_trap 2 0 (cpu0 ()\<lparr>mtvec := 0x101\<rparr>)) = 0x100"
  using trap_entry [of "cpu0 ()\<lparr>mtvec := 0x101\<rparr>" "0x80000007" 0]
    trap_entry [of "cpu0 ()\<lparr>mtvec := 0x101\<rparr>" 2 0]
  by (simp add: Let_def handler_address_def take_bit_eq_mod)

text \<open>
  A trap taken while a trap is already being entered halts the processor, changes none of
  the machine-mode registers, and no later step runs.
\<close>

theorem double_fault_halts:
  assumes "in_trap s"
  shows "let s' = rv_trap c t s in
    halted s' \<and> pc s' = pc s \<and> mepc s' = mepc s \<and> mcause s' = mcause s \<and> mtval s' = mtval s \<and>
    mstatus s' = mstatus s \<and> rv_step h s' = (s', False) \<and> rv_run h n s' = (s', 0)"
  using assms by (cases "nat n") (simp_all add: rv_trap_def rv_step_def rv_run_def Let_def)

theorem double_fault_halts_witness:
  "mepc (rv_trap 5 0x40 (rv_trap 2 0 (cpu0 ()\<lparr>pc := 0x20\<rparr>))) = 0x20 \<and>
   halted (rv_trap 5 0x40 (rv_trap 2 0 (cpu0 ()\<lparr>pc := 0x20\<rparr>)))"
  using double_fault_halts [of "rv_trap 2 0 (cpu0 ()\<lparr>pc := 0x20\<rparr>)" 5 "0x40"]
  by (simp add: Let_def rv_trap_def)

subsection \<open>Interrupt selection\<close>

text \<open>An interrupt line that is raised and enabled.\<close>

definition irq_ready :: "'w rv_cpu \<Rightarrow> nat \<Rightarrow> bool" where
  "irq_ready s k \<longleftrightarrow> bit (mip s) k \<and> bit (mie s) k"

lemma irq_causes:
  "RV_CAUSE_INTERRUPT OR RV_IRQ_EXT = 0x8000000b" "RV_CAUSE_INTERRUPT OR RV_IRQ_SOFT = 0x80000003"
  "RV_CAUSE_INTERRUPT OR RV_IRQ_TIMER = 0x80000007"
  by (simp_all add: RV_CAUSE_INTERRUPT_def RV_IRQ_EXT_def RV_IRQ_SOFT_def RV_IRQ_TIMER_def)

lemma pending_cases:
  "rv_irq_pending s =
    (if \<not> bit (mstatus s) 3 then 0
     else if irq_ready s 11 then 0x8000000b
     else if irq_ready s 3 then 0x80000003
     else if irq_ready s 7 then 0x80000007 else 0)"
  unfolding irq_ready_def bit_and_iff [symmetric]
  by (simp add: rv_irq_pending_def Let_def mask_test irq_causes del: mip_bits)

lemma pending_ready: "rv_irq_pending s \<noteq> 0 \<Longrightarrow> mip s AND mie s \<noteq> 0"
  by (auto simp: rv_irq_pending_def Let_def split: if_splits)

subsection \<open>Interrupts between instructions\<close>

lemma mret_bits:
  "exec_mret s = Ret s' n \<Longrightarrow> bit (mstatus s') k \<longleftrightarrow>
     (if k = 3 then bit (mstatus s) 7 else if k = 7 then True else bit (mstatus s) k)"
  by (auto simp: exec_mret_def Let_def mask_test mask_bit bit_and_iff bit_or_iff bit_not_iff_eq
      split: if_splits)

lemma trap_then_mret:
  assumes "\<not> in_trap s"
  obtains s' where "exec_mret (rv_trap c t s) = Ret s' (pc s)" "regs s' = regs s"
    "fregs s' = fregs s" "fcsr s' = fcsr s" "bus_ctx s' = bus_ctx s"
    "bit (mstatus s') 3 = bit (mstatus s) 3"
proof -
  obtain s' where r: "exec_mret (rv_trap c t s) = Ret s' (pc s)"
    using assms by (simp add: exec_mret_def Let_def rv_trap_def)
  have "bit (mstatus s') 3 = bit (mstatus s) 3"
    using mret_bits [OF r] trap_mstatus [OF assms] by simp
  moreover have "regs s' = regs s" "fregs s' = fregs s" "fcsr s' = fcsr s" "bus_ctx s' = bus_ctx s"
    using r by (auto simp: exec_mret_def Let_def split: if_splits)
  ultimately show ?thesis using r by (intro that)
qed

text \<open>
  C15. Interrupts are precise and transparent. When interrupts are enabled and a line is raised
  and enabled, a step takes the interrupt instead of an instruction, with external before
  software before timer: nothing retires, no register or memory changes, interrupts are
  disabled, and mepc names the instruction that has not run. An mret from there resumes at that
  instruction with the registers, the memory and the interrupt enable as they were.
\<close>

theorem interrupt_transparent:
  assumes "\<not> halted s" and "bit (mstatus s) 3" and "irq_ready s 3 \<or> irq_ready s 7 \<or> irq_ready s 11"
  shows "\<exists>s1 s2. rv_step h s = (s1, True) \<and>
    mcause s1 = (if irq_ready s 11 then 0x8000000b else if irq_ready s 3 then 0x80000003
                 else 0x80000007) \<and>
    mepc s1 = pc s \<and> minstret s1 = minstret s \<and> mcycle s1 = mcycle s \<and> regs s1 = regs s \<and>
    bus_ctx s1 = bus_ctx s \<and> \<not> bit (mstatus s1) 3 \<and>
    exec_mret s1 = Ret s2 (pc s) \<and> regs s2 = regs s \<and> fregs s2 = fregs s \<and> fcsr s2 = fcsr s \<and>
    bus_ctx s2 = bus_ctx s \<and> bit (mstatus s2) 3"
proof -
  let ?s = "s\<lparr>in_trap := False\<rparr>"
  let ?c = "rv_irq_pending s"
  have c: "?c = (if irq_ready s 11 then 0x8000000b else if irq_ready s 3 then 0x80000003
      else 0x80000007)" and c0: "?c \<noteq> 0"
    using assms by (auto simp: pending_cases)
  have c': "rv_irq_pending ?s = ?c"
    by (simp add: rv_irq_pending_def)
  have step: "rv_step h s = (rv_trap ?c 0 ?s, True)"
    using assms(1) c0 pending_ready [OF c0] c' by (simp add: rv_step_def Let_def) (simp add: rv_trap_def Let_def)
  obtain s2 where "exec_mret (rv_trap ?c 0 ?s) = Ret s2 (pc ?s)" "regs s2 = regs ?s"
    "fregs s2 = fregs ?s" "fcsr s2 = fcsr ?s" "bus_ctx s2 = bus_ctx ?s"
    "bit (mstatus s2) 3 = bit (mstatus ?s) 3"
    by (rule trap_then_mret [of ?s]) simp
  moreover have "mepc (rv_trap ?c 0 ?s) = pc s" "mcause (rv_trap ?c 0 ?s) = ?c"
    by (simp_all add: rv_trap_def Let_def)
  moreover have "\<not> bit (mstatus (rv_trap ?c 0 ?s)) 3"
    by (subst trap_mstatus) simp_all
  ultimately show ?thesis using step c assms(2) by (intro exI [of _ "rv_trap ?c 0 ?s"] exI [of _ s2]) simp
qed

theorem interrupt_transparent_witness:
  "\<forall>h :: unit rv_host. \<exists>s1. rv_step h (cpu0 ()\<lparr>mstatus := 8, mie := 0x88, mip := 0x88, pc := 0x1234\<rparr>) = (s1, True) \<and>
     mcause s1 = 0x80000003 \<and> mepc s1 = 0x1234"
  using interrupt_transparent [of "cpu0 ()\<lparr>mstatus := 8, mie := 0x88, mip := 0x88, pc := 0x1234\<rparr>"]
  by (auto simp: irq_ready_def)

end
