(* ===== verification/Rv_Alu.thy ===== *)
theory Rv_Alu
  imports Rv_Exec
begin

text \<open>
  The M extension as integer arithmetic: the four multiplications against the full product, the
  divisions and remainders against the division law, with the cases the ISA fixes for a zero
  divisor and for the overflowing quotient.
\<close>

subsection \<open>Products\<close>

lemma low_half_sint: "(ucast (x :: u64) :: u32) = word_of_int (sint x)"
  by (rule bit_word_eqI) (simp add: bit_simps bit_sint_iff)

lemma sint_of_int_u32: "- (2 ^ 31) \<le> p \<Longrightarrow> p < 2 ^ 31 \<Longrightarrow> sint (word_of_int p :: u32) = p"
  by (simp add: sint_sbintrunc' signed_take_bit_int_eq_self)

lemma sint_of_int_u64: "- (2 ^ 63) \<le> p \<Longrightarrow> p < 2 ^ 63 \<Longrightarrow> sint (word_of_int p :: u64) = p"
  by (simp add: sint_sbintrunc' signed_take_bit_int_eq_self)

lemma u32_sint_range: "- (2 ^ 31) \<le> sint (a :: u32)" "sint a < 2 ^ 31"
  using sint_greater_eq [of a] sint_less [of a] by simp_all

lemma high_half:
  assumes "x = (word_of_int p :: u64)" "- (2 ^ 63) \<le> p" "p < 2 ^ 63"
  shows "sint (ucast (signed_drop_bit 32 x) :: u32) * 2 ^ 32 + p mod 2 ^ 32 = p"
proof -
  have d: "sint (signed_drop_bit 32 x) = p div 2 ^ 32"
    using sint_of_int_u64 [OF assms(2,3)] assms(1) by (simp add: sint_signed_drop_bit_eq drop_bit_eq_div)
  have "- (2 ^ 31) \<le> p div 2 ^ 32" "p div 2 ^ 32 < 2 ^ 31" using assms(2,3) by auto
  then have "sint (ucast (signed_drop_bit 32 x) :: u32) = p div 2 ^ 32"
    unfolding low_half_sint d by (rule sint_of_int_u32)
  then show ?thesis by (simp add: div_mult_mod_eq mult.commute)
qed

lemma prod_bound: 
  fixes x y :: int
  assumes "- (2 ^ 31) \<le> x" "x < 2 ^ 31" "- (2 ^ 31) \<le> y" "y < 2 ^ 32"
  shows "- (2 ^ 63) \<le> x * y" "x * y < 2 ^ 63"
proof -
  have "\<bar>x\<bar> \<le> 2 ^ 31" "\<bar>y\<bar> < 2 ^ 32" using assms by auto
  then have "\<bar>x * y\<bar> \<le> 2 ^ 31 * \<bar>y\<bar>" by (simp add: abs_mult mult_right_mono)
  also have "\<dots> < 2 ^ 31 * 2 ^ 32" using \<open>\<bar>y\<bar> < 2 ^ 32\<close> by simp
  finally show "- (2 ^ 63) \<le> x * y" "x * y < 2 ^ 63" by simp_all
qed

lemma word_mul_low: "uint (a * b :: u32) = sint a * sint b mod 2 ^ 32" "uint (a * b :: u32) = sint a * uint b mod 2 ^ 32"
   "uint (a * b :: u32) = uint a * uint b mod 2 ^ 32"
proof -
  have e: "uint a mod 2 ^ 32 = sint a mod 2 ^ 32" for a :: u32
    using uint_sint [of a] by (simp add: take_bit_eq_mod)
  show "uint (a * b) = uint a * uint b mod 2 ^ 32" by (simp add: uint_word_ariths)
  then show "uint (a * b) = sint a * uint b mod 2 ^ 32"
    using e [of a] by (metis mod_mult_left_eq)
  then show "uint (a * b) = sint a * sint b mod 2 ^ 32"
    using e [of b] by (metis mod_mult_right_eq)
qed

lemma wide_products:
  "(scast a * scast b :: u64) = word_of_int (sint a * sint b)"
  "(scast a * ucast b :: u64) = word_of_int (sint a * uint b)"
  "uint (ucast a * ucast b :: u64) = uint a * uint b" for a b :: u32
proof -
  show "(scast a * scast b :: u64) = word_of_int (sint a * sint b)" "(scast a * ucast b :: u64) = word_of_int (sint a * uint b)"
    by simp_all
  have "uint a * uint b < 2 ^ 32 * 2 ^ 32"
    using unsigned_less [of a, where 'a = int] unsigned_less [of b, where 'a = int] by (intro mult_strict_mono) auto
  moreover have "take_bit 64 (uint a) = uint a" "take_bit 64 (uint b) = uint b"
    using unsigned_less [of a, where 'a = int] unsigned_less [of b, where 'a = int]
    by (simp_all add: take_bit_int_eq_self)
  ultimately show "uint (ucast a * ucast b :: u64) = uint a * uint b"
    by (simp add: uint_word_ariths unsigned_ucast_eq)
qed

text \<open>
  The full product of two registers: the high-half instruction of each signedness (mulh,
  mulhsu, mulhu) and mul together give the exact 64-bit product.
\<close>

theorem mul_full_product:
  "sint (alu_m 1 a b) * 2 ^ 32 + uint (alu_m 0 a b) = sint a * sint b \<and>
   sint (alu_m 2 a b) * 2 ^ 32 + uint (alu_m 0 a b) = sint a * uint b \<and>
   uint (alu_m 3 a b) * 2 ^ 32 + uint (alu_m 0 a b) = uint a * uint b"
proof (intro conjI)
  note r = u32_sint_range [of a] u32_sint_range [of b]
  have u: "0 \<le> uint b" "uint b < 2 ^ 32" "0 \<le> uint a" "uint a < 2 ^ 32"
    using unsigned_less [of a, where 'a = int] unsigned_less [of b, where 'a = int] by simp_all
  show "sint (alu_m 1 a b) * 2 ^ 32 + uint (alu_m 0 a b) = sint a * sint b"
    using high_half [OF wide_products(1) prod_bound [of "sint a" "sint b"]] r
    by (simp add: alu_m_def word_mul_low(1))
  show "sint (alu_m 2 a b) * 2 ^ 32 + uint (alu_m 0 a b) = sint a * uint b"
    using high_half [OF wide_products(2) prod_bound [of "sint a" "uint b"]] r u
    by (simp add: alu_m_def word_mul_low(2))
  have "uint a * uint b < 2 ^ 32 * 2 ^ 32"
    using u by (intro mult_strict_mono) auto
  then have "0 \<le> uint a * uint b div 2 ^ 32" "uint a * uint b div 2 ^ 32 < 2 ^ 32" using u by (auto simp: pos_imp_zdiv_nonneg_iff)
  then have "uint (alu_m 3 a b) = uint a * uint b div 2 ^ 32"
    unfolding alu_m_def unsigned_ucast_eq
    by (simp add: unsigned_ucast_eq unsigned_drop_bit_eq wide_products drop_bit_eq_div [where 'a = int] take_bit_int_eq_self)
  then show "uint (alu_m 3 a b) * 2 ^ 32 + uint (alu_m 0 a b) = uint a * uint b"
    by (simp add: alu_m_def word_mul_low(3) mult.commute)
qed


subsection \<open>Division\<close>

lemma div_rem_word: "alu_m 4 a b * b + alu_m 6 a b = a"
proof -
  have "word_of_int (sint a sdiv sint b) * b + word_of_int (sint a smod sint b)
      = (word_of_int (sint a sdiv sint b * sint b + sint a smod sint b) :: u32)"
    by simp
  then show ?thesis by (simp add: alu_m_def sdiv_mult_smod_eq)
qed

lemma sint_nonzero: "b \<noteq> 0 \<Longrightarrow> sint (b :: u32) \<noteq> 0"
  by (metis of_int_0 of_int_sint scast_id)

lemma rem_value: "b \<noteq> 0 \<Longrightarrow> sint (alu_m 6 a b) = sint a smod sint b"
proof -
  assume "b \<noteq> 0"
  then have b0: "sint b \<noteq> 0" by (rule sint_nonzero)
  have "\<bar>sint b\<bar> \<le> 2 ^ 31" using u32_sint_range [of b] by auto
  then have "sint (word_of_int (sint a smod sint b) :: u32) = sint a smod sint b"
    using smod_int_range [OF b0, of "sint a"] by (intro sint_of_int_u32) auto
  moreover have "sint (0xffffffff :: u32) = - 1" by simp
  ultimately show ?thesis using \<open>b \<noteq> 0\<close>
    by (auto simp: alu_m_def smod_int_alt_def)
qed

text \<open>
  C35. Division and remainder obey \<open>q * b + r = a\<close> for all operands, a zero divisor and the
  overflowing -2147483648 / -1 included. For a nonzero divisor the signed remainder is smaller than the
  divisor in magnitude and has the sign of the dividend, and the unsigned one is below the
  divisor; for a zero divisor both quotients are all ones.
\<close>

theorem div_rem_law:
  "alu_m 4 a b * b + alu_m 6 a b = a \<and> alu_m 5 a b * b + alu_m 7 a b = a \<and>
   (if b = 0 then alu_m 4 a b = - 1 \<and> alu_m 5 a b = - 1
    else \<bar>sint (alu_m 6 a b)\<bar> < \<bar>sint b\<bar> \<and> sint (alu_m 6 a b) * sint a \<ge> 0 \<and> alu_m 7 a b < b)"
proof (intro conjI)
  show "alu_m 4 a b * b + alu_m 6 a b = a" by (rule div_rem_word)
  show "alu_m 5 a b * b + alu_m 7 a b = a" by (simp add: alu_m_def div_mult_mod_eq)
  show "if b = 0 then alu_m 4 a b = - 1 \<and> alu_m 5 a b = - 1
    else \<bar>sint (alu_m 6 a b)\<bar> < \<bar>sint b\<bar> \<and> sint (alu_m 6 a b) * sint a \<ge> 0 \<and> alu_m 7 a b < b"
  proof (cases "b = 0")
    case True
    then show ?thesis by (simp add: alu_m_def)
  next
    case False
    then have b0: "sint b \<noteq> 0" by (rule sint_nonzero)
    have "\<bar>sint a smod sint b\<bar> < \<bar>sint b\<bar>" using smod_int_range [OF b0, of "sint a"] by auto
    moreover have "sint a smod sint b * sint a \<ge> 0"
      using b0 pos_mod_sign [of "\<bar>sint b\<bar>" "\<bar>sint a\<bar>"]
      by (cases "0 < sint a") (auto simp: smod_int_alt_def sgn_if mult_nonneg_nonpos)
    moreover have "a mod b < b" using False by (simp add: word_mod_less_divisor word_neq_0_conv)
    ultimately show ?thesis using False by (simp add: rem_value) (simp add: alu_m_def)
  qed
qed
end
