(* ===== verification/Rv_Expand.thy ===== *)
theory Rv_Expand
  imports Rv_Compressed Rv_Zcmp
begin

text \<open>
  What the compressed expanders produce: 32-bit encodings only, from encoding spaces that do not
  overlap, with offsets and registers as the ISA lays them out.
\<close>

subsection \<open>Every expansion is a 32-bit encoding\<close>

lemma and_3_or: "(push_bit n x OR y) AND 3 = y AND (3 :: u32)" if "2 \<le> n"
proof -
  have "push_bit n x AND 3 = (0 :: u32)"
  proof -
    have "push_bit n x AND mask 2 = (0 :: u32)"
      using that by (intro bit_word_eqI) (auto simp: bit_simps)
    then show ?thesis by (simp add: mask_eq_exp_minus_1)
  qed
  then show ?thesis by (simp add: and.commute [of _ 3] bit.conj_disj_distrib)
qed

lemma enc_low_bits [simp]:
  "enc_i imm rs1 f3 rd opc AND 3 = opc AND 3" "enc_s imm rs2 rs1 f3 opc AND 3 = opc AND 3"
  "enc_b imm rs2 rs1 f3 opc AND 3 = opc AND 3" "enc_j imm rd opc AND 3 = opc AND 3"
  "enc_r f7 rs2 rs1 f3 rd opc AND 3 = opc AND 3"
  unfolding enc_defs or.assoc by (simp_all add: and_3_or del: push_bit_Suc push_bit_and)

lemma lui_low_bits [simp]: "((imm AND 0xfffff000) OR push_bit 7 rd OR OP_LUI) AND 3 = 3"
proof -
  have "(imm AND 0xfffff000) = push_bit 12 (drop_bit 12 imm)" for imm :: u32
    by (rule u32_eqI) (simp add: bits_at)
  then show ?thesis by (simp add: or.assoc and_3_or opcodes)
qed

lemma opcodes_low_bits [simp]: 
  "OP_IMM AND 3 = 3" "OP_LOAD AND 3 = 3" "OP_LOAD_FP AND 3 = 3" "OP_STORE AND 3 = 3" "OP_STORE_FP AND 3 = 3"
  "OP_REG AND 3 = 3" "OP_JAL AND 3 = 3" "OP_JALR AND 3 = 3" "OP_BRANCH AND 3 = 3" "OP_SYSTEM AND 3 = 3"
  by (simp_all add: opcodes)

text \<open>
  Whatever the 16 bits, an expander answers 0, meaning illegal, or an encoding whose two low
  bits are 11, so a compressed instruction never expands into another compressed one.
\<close>

theorem expansions_are_full:
  "(rv_expand_c c = 0 \<or> rv_expand_c c AND 3 = 3) \<and> (rv_expand_zcb c = 0 \<or> rv_expand_zcb c AND 3 = 3)"
  by (simp add: rv_expand_c_def expand_q0_def expand_q1_def expand_q1_arith_def expand_q2_def
      rv_expand_zcb_def Let_def)

subsection \<open>The three decoders do not overlap\<close>

lemma zcb_base_disjoint: "rv_expand_zcb c \<noteq> 0 \<Longrightarrow> rv_expand_c c = 0"
proof -
  assume z: "rv_expand_zcb c \<noteq> 0"
  let ?w = "ucast c :: u32"
  have f3: "drop_bit 13 ?w AND 7 = 4" using z by (simp add: rv_expand_zcb_def Let_def split: if_splits)
  consider "?w AND 3 = 0" | "?w AND 3 = 1" "drop_bit 10 ?w AND 7 = 7"
    using z by (auto simp add: rv_expand_zcb_def Let_def split: if_splits)
  then show ?thesis
  proof cases
    case 1
    then show ?thesis using f3 by (simp add: rv_expand_c_def expand_q0_def Let_def)
  next
    case 2
    have "drop_bit 10 ?w AND 3 = (drop_bit 10 ?w AND 7) AND 3" by (simp add: and.assoc)
    then have k: "drop_bit 10 ?w AND 3 = 3" using 2 by simp
    have "bit (drop_bit 10 ?w AND 7) 2" using 2 by simp
    then have "bit ?w 12" by (simp add: bit_and_iff bit_drop_bit_eq del: drop_bit_Suc)
    then have "?w AND 0x1000 \<noteq> 0" using and_exp_eq_0_iff_not_bit [of ?w 12] by simp
    with 2 f3 k show ?thesis by (simp add: rv_expand_c_def expand_q1_def expand_q1_arith_def Let_def)
  qed
qed

lemma zcmp_base_disjoint: "is_zcmp c \<Longrightarrow> rv_expand_c c = 0 \<and> rv_expand_zcb c = 0"
proof -
  assume z: "is_zcmp c"
  let ?w = "ucast c :: u32"
  have m: "?w AND 0xe003 = 0xa002" using z by (simp add: is_zcmp_def Let_def split: if_splits)
  have "?w AND 3 = (?w AND 0xe003) AND 3" by (simp add: and.assoc)
  then have op: "?w AND 3 = 2" using m by simp
  have "drop_bit 13 ?w AND 7 = drop_bit 13 (?w AND 0xe003) AND 7" by (simp add: drop_bit_and and.assoc del: drop_bit_Suc)
  then have f3: "drop_bit 13 ?w AND 7 = 5" using m by simp
  show ?thesis using op f3 by (simp add: rv_expand_c_def expand_q2_def rv_expand_zcb_def Let_def)
qed

text \<open>
  The compressed encoding spaces are disjoint: an encoding that Zcb expands is illegal in the
  base set, and one that Zcmp claims is illegal in both, so the order in which \<open>rv_step\<close> tries the
  decoders decides only the cost.
\<close>

theorem compressed_spaces_disjoint:
  "(rv_expand_zcb c = 0 \<or> rv_expand_c c = 0) \<and>
   (if is_zcmp c then rv_expand_c c = 0 \<and> rv_expand_zcb c = 0 else True)"
  using zcb_base_disjoint [of c] zcmp_base_disjoint [of c] by auto

subsection \<open>Jump and branch offsets\<close>

lemma less_32_cases: "(\<forall>k<(32::nat). P k) \<longleftrightarrow> (\<forall>k \<in> positions32. P k)"
proof -
  have "{k. k < (32 :: nat)} = positions32" by (auto, presburger)
  then show ?thesis by (metis mem_Collect_eq)
qed

lemma jump_imm_bits:
  "\<forall>k<32. bit (imm_j (enc_j x (ucast (rd :: 5 word)) OP_JAL)) k \<longleftrightarrow> k \<noteq> 0 \<and> bit x (min k 20)"
  unfolding less_32_cases
  by (simp add: decode_defs enc_defs opcodes bits_at del: push_bit_Suc drop_bit_Suc)

lemma test_bit: "x AND 0x800 = 0 \<longleftrightarrow> \<not> bit x 11" "x AND 0x100 = 0 \<longleftrightarrow> \<not> bit x 8" for x :: u32
  using and_exp_eq_0_iff_not_bit [of x 11] and_exp_eq_0_iff_not_bit [of x 8] by simp_all

lemma cj_imm_bits:
  "\<forall>k<32. bit (cj_imm cw) k \<longleftrightarrow> k \<noteq> 0 \<and> bit cw ([0, 3, 4, 5, 11, 2, 7, 6, 9, 10, 8, 12] ! min k 11)"
  unfolding less_32_cases
  by (simp add: cj_imm_def Let_def test_bit bits_at nth_Cons' del: push_bit_Suc drop_bit_Suc)

lemma cb_imm_bits:
  "\<forall>k<32. bit (cb_imm cw) k \<longleftrightarrow> k \<noteq> 0 \<and> bit cw ([0, 3, 4, 10, 11, 2, 5, 6, 12] ! min k 8)"
  unfolding less_32_cases
  by (simp add: cb_imm_def Let_def test_bit bits_at nth_Cons' del: push_bit_Suc drop_bit_Suc)

lemma reg_prime_or: "CRS1P cw = (drop_bit 7 cw AND 7) OR 8" "CRS2P cw = (drop_bit 2 cw AND 7) OR 8"
proof -
  have "bit (8 :: u32) n \<longleftrightarrow> n = 3" for n
    using bit_exp_iff [of 3 n, where 'a = u32] by auto
  moreover have "\<not> bit (x AND 7) 3" for x :: u32 by (simp add: bit_simps)
  ultimately have "(x AND 7) + 8 = (x AND 7) OR 8" for x :: u32
    by (intro disjunctive_add) metis
  then show "CRS1P cw = (drop_bit 7 cw AND 7) OR 8" "CRS2P cw = (drop_bit 2 cw AND 7) OR 8"
    by (simp_all add: CRS1P_def CRS2P_def)
qed

lemmas bit_blast = reg_prime_or decode_defs enc_defs opcodes bits_at nth_Cons'

lemma jal_fields:
  "OPCODE (enc_j x (ucast (rd :: 5 word)) OP_JAL) = OP_JAL"
  "RD (enc_j x (ucast (rd :: 5 word)) OP_JAL) = ucast rd"
  by (intro u32_eqI; simp add: bit_blast del: push_bit_Suc drop_bit_Suc)+

lemma beqz_fields:
  fixes f3 cw :: u32
  assumes "f3 = 0 \<or> f3 = 1"
  defines "i \<equiv> enc_b (cb_imm cw) 0 (CRS1P cw) f3 OP_BRANCH"
  shows "OPCODE i = OP_BRANCH" "FUNCT3 i = f3" "RS1 i = CRS1P cw" "RS2 i = 0"
    and "\<forall>k<32. bit (imm_b i) k \<longleftrightarrow> k \<noteq> 0 \<and> bit (cb_imm cw) (min k 12)"
proof -
  show "OPCODE i = OP_BRANCH" "FUNCT3 i = f3" "RS1 i = CRS1P cw" "RS2 i = 0"
    using assms(1) unfolding i_def
    by (elim disjE; intro u32_eqI; simp add: bit_blast del: push_bit_Suc drop_bit_Suc)+
  show "\<forall>k<32. bit (imm_b i) k \<longleftrightarrow> k \<noteq> 0 \<and> bit (cb_imm cw) (min k 12)"
    using assms(1) unfolding i_def less_32_cases
    by (elim disjE; simp add: bit_blast del: push_bit_Suc drop_bit_Suc)
qed

text \<open>Which bit of the encoding each offset bit comes from, lowest first; the last one is the sign.\<close>

definition cj_source :: "nat list" where
  "cj_source = [0, 3, 4, 5, 11, 2, 7, 6, 9, 10, 8, 12]"

definition cb_source :: "nat list" where
  "cb_source = [0, 3, 4, 10, 11, 2, 5, 6, 12]"

text \<open>
  The control transfers of the compressed set decode to what the ISA says: c.j and c.jal to a
  jal that links nothing or x1, c.beqz and c.bnez to a comparison with x0, each with its offset
  gathered from the scattered bits of the encoding and sign-extended.
\<close>

theorem compressed_jumps:
  fixes c :: u16
  defines "cw \<equiv> ucast c :: u32" and "i \<equiv> rv_expand_c c"
  assumes "cw AND 3 = 1"
  shows "(drop_bit 13 cw AND 7 = 5 \<or> drop_bit 13 cw AND 7 = 1 \<longrightarrow>
      OPCODE i = OP_JAL \<and> RD i = (if drop_bit 13 cw AND 7 = 1 then 1 else 0) \<and>
      (\<forall>k<32. bit (imm_j i) k \<longleftrightarrow> k \<noteq> 0 \<and> bit cw (cj_source ! min k 11))) \<and>
    (drop_bit 13 cw AND 7 = 6 \<or> drop_bit 13 cw AND 7 = 7 \<longrightarrow>
      OPCODE i = OP_BRANCH \<and> FUNCT3 i = (if drop_bit 13 cw AND 7 = 6 then 0 else 1) \<and>
      RS1 i = CRS1P cw \<and> RS2 i = 0 \<and>
      (\<forall>k<32. bit (imm_b i) k \<longleftrightarrow> k \<noteq> 0 \<and> bit cw (cb_source ! min k 8)))"
proof -
  let ?f3 = "drop_bit 13 cw AND 7"
  have c0: "c \<noteq> 0" using assms(3) by (auto simp: cw_def)
  have i: "i = expand_q1 cw" using assms(3) c0 by (simp add: i_def cw_def rv_expand_c_def Let_def)
  have j: "\<forall>k<32. bit (imm_j (enc_j (cj_imm cw) (ucast (rd :: 5 word)) OP_JAL)) k
      \<longleftrightarrow> k \<noteq> 0 \<and> bit cw (cj_source ! min k 11)" for rd
    using jump_imm_bits [of "cj_imm cw" rd] cj_imm_bits [of cw] by (simp add: cj_source_def min.assoc)
  have b: "\<forall>k<32. bit (imm_b (enc_b (cb_imm cw) 0 (CRS1P cw) f OP_BRANCH)) k
      \<longleftrightarrow> k \<noteq> 0 \<and> bit cw (cb_source ! min k 8)" if "f = 0 \<or> f = 1" for f
    using beqz_fields(5) [OF that, of cw] cb_imm_bits [of cw] by (simp add: cb_source_def min.assoc)
  have "?f3 = 5 \<Longrightarrow> i = enc_j (cj_imm cw) (ucast (0 :: 5 word)) OP_JAL"
    "?f3 = 1 \<Longrightarrow> i = enc_j (cj_imm cw) (ucast (1 :: 5 word)) OP_JAL"
    "?f3 = 6 \<Longrightarrow> i = enc_b (cb_imm cw) 0 (CRS1P cw) 0 OP_BRANCH"
    "?f3 = 7 \<Longrightarrow> i = enc_b (cb_imm cw) 0 (CRS1P cw) 1 OP_BRANCH"
    by (simp_all add: i expand_q1_def Let_def)
  then show ?thesis
    using j [of 0] j [of 1] b [of 0] b [of 1] jal_fields [of "cj_imm cw" 0] jal_fields [of "cj_imm cw" 1]
      beqz_fields(1-4) [of 0 cw] beqz_fields(1-4) [of 1 cw]
    by (intro conjI impI; elim disjE; simp)
qed

text \<open>\<open>c.j -2\<close> is 0xbffd.\<close>

theorem compressed_jumps_witness:
  "OPCODE (rv_expand_c 0xbffd) = OP_JAL \<and> RD (rv_expand_c 0xbffd) = 0 \<and>
   bit (imm_j (rv_expand_c 0xbffd)) 31 \<and> \<not> bit (imm_j (rv_expand_c 0xbffd)) 0"
  using compressed_jumps [of "0xbffd"] by (simp add: cj_source_def)

end
