(* ===== verification/Rv_Frames.thy ===== *)
theory Rv_Frames
  imports Rv_Machine Rv_Wasm
begin

text \<open>
  Stack frames: the Zcmp push and pop instructions over a host that backs the bus with memory.
  The locale \<open>steady_memory\<close> adds to \<open>bus_memory\<close> that the access check does not depend on the
  contents of memory; both hosts meet it.
\<close>

subsection \<open>The registers a frame saves\<close>

definition saved_regs :: "u32 set" where
  "saved_regs = {1, 8, 9, 18, 19, 20, 21, 22, 23, 24, 25, 26, 27}"

lemma zcmp_sreg_set: "set (zcmp_regs rlist) \<subseteq> saved_regs" "length (zcmp_regs rlist) \<le> 13"
proof -
  have "set zcmp_sreg = {8, 9, 18, 19, 20, 21, 22, 23, 24, 25, 26, 27}" by (simp add: zcmp_sreg_def)
  then show "set (zcmp_regs rlist) \<subseteq> saved_regs"
    using set_take_subset [of _ zcmp_sreg] by (auto simp: zcmp_regs_def saved_regs_def Let_def)
  show "length (zcmp_regs rlist) \<le> 13" by (simp add: zcmp_regs_def zcmp_sreg_def Let_def min_def)
qed

lemma ucast5_inj: "r < 32 \<Longrightarrow> x < 32 \<Longrightarrow> (ucast (r :: u32) :: 5 word) = ucast x \<longleftrightarrow> r = x"
proof -
  assume "r < 32" "x < 32"
  then have "unat (ucast r :: 5 word) = unat r" "unat (ucast x :: 5 word) = unat x"
    by (simp_all add: unsigned_ucast_eq word_less_nat_alt take_bit_nat_eq_self)
  then show ?thesis by (metis word_unat_eq_iff)
qed

lemma saved_inj: "r \<in> saved_regs \<Longrightarrow> x \<in> insert 2 saved_regs \<Longrightarrow> (ucast r :: 5 word) = ucast x \<longleftrightarrow> r = x"
  by (rule ucast5_inj) (auto simp: saved_regs_def)

lemma getx_setx_saved: "r \<in> saved_regs \<Longrightarrow> x \<in> insert 2 saved_regs \<Longrightarrow> getx (setx r v t) x = (if x = r then v else getx t x)"
  using saved_inj [of r x] by (auto simp: getx_def setx_def)

lemma getx_restore:
  "set rs \<subseteq> saved_regs \<Longrightarrow> x \<in> insert 2 saved_regs \<Longrightarrow>
     getx (fold (\<lambda>r. setx r (f r)) rs t) x = (if x \<in> set rs then f x else getx t x)"
  by (induction rs arbitrary: t) (auto simp: getx_setx_saved)

lemma restore_frame [simp]: "bus_ctx (fold (\<lambda>r. setx r (f r)) rs t) = bus_ctx t"
  by (induction rs arbitrary: t) auto

subsection \<open>Pushing and popping\<close>

locale steady_memory = bus_memory +
  assumes refused_cong: "mapped w = mapped w' \<Longrightarrow> refused h w a sz wr = refused h w' a sz wr"
begin

definition frame_ok :: "'a rv_cpu \<Rightarrow> u32 \<Rightarrow> nat \<Rightarrow> bool" where
  "frame_ok s a n \<longleftrightarrow> (\<forall>k < n. plain s (a + of_nat k * 4) 4 True \<and> plain s (a + of_nat k * 4) 4 False)"

lemma frame_ok_cong:
  assumes "frame_ok s a n" "good (bus_ctx t)" "mapped (bus_ctx t) = mapped (bus_ctx s)" "trap_misaligned t = trap_misaligned s"
  shows "frame_ok t a n"
  using assms refused_cong [of "bus_ctx t" "bus_ctx s"] by (auto simp: frame_ok_def plain_def)

lemma slots_apart:
  assumes "j < 16" "k < 16" "j \<noteq> k" "i < 4" "l < 4"
  shows "a + of_nat k * 4 + of_nat l \<noteq> (a + of_nat j * 4 + of_nat i :: u32)"
proof -
  have "(of_nat (k * 4 + l) :: u32) \<noteq> of_nat (j * 4 + i)"
  proof -
    have "k * 4 + l < 2 ^ 32" "j * 4 + i < 2 ^ 32" "k * 4 + l \<noteq> j * 4 + i" using assms by (simp, simp, presburger)
    then show ?thesis by (simp add: word_of_nat_eq_iff take_bit_nat_eq_self del: of_nat_add of_nat_mult)
  qed
  then show ?thesis by (simp add: add.assoc)
qed

lemma other_slot:
  assumes "j < 16" "k < 16" "j \<noteq> k"
  shows "le_word (le_store f (a + of_nat j * 4) 4 v) (a + of_nat k * 4) 4 = le_word f (a + of_nat k * 4) 4"
  using slots_apart [OF assms] by (intro le_word_cong le_store_outside) auto

lemma push_regs_spec:
  assumes "frame_ok s a (i + length rs)" "i + length rs \<le> 16" "good (bus_ctx s)"
  shows "\<exists>w. push_regs h a i rs s = (s\<lparr>bus_ctx := w\<rparr>, True) \<and> good w \<and> mapped w = mapped (bus_ctx s) \<and>
    (\<forall>j < length rs. le_word (view w) (a + of_nat (i + j) * 4) 4 = getx s (rs ! j)) \<and>
    (\<forall>k < i. le_word (view w) (a + of_nat k * 4) 4 = le_word (view (bus_ctx s)) (a + of_nat k * 4) 4)"
  using assms
proof (induction rs arbitrary: i s)
  case Nil
  then show ?case by (intro exI [of _ "bus_ctx s"]) simp
next
  case (Cons r rs)
  have "plain s (a + of_nat i * 4) 4 True" using Cons.prems(1) by (simp add: frame_ok_def)
  then obtain w1 where w1: "mem_write h (a + of_nat i * 4) 4 (getx s r) s = (s\<lparr>bus_ctx := w1\<rparr>, True)" "good w1"
    "mapped w1 = mapped (bus_ctx s)" "view w1 = le_store (view (bus_ctx s)) (a + of_nat i * 4) 4 (getx s r)"
    by (rule mem_write_spec [where v = "getx s r"]) auto
  let ?s = "s\<lparr>bus_ctx := w1\<rparr>"
  have "frame_ok ?s a (Suc i + length rs)"
    using frame_ok_cong [OF Cons.prems(1), of ?s] w1 by simp
  then obtain w where w: "push_regs h a (Suc i) rs ?s = (?s\<lparr>bus_ctx := w\<rparr>, True)" "good w"
    "mapped w = mapped (bus_ctx ?s)"
    "\<forall>j < length rs. le_word (view w) (a + of_nat (Suc i + j) * 4) 4 = getx ?s (rs ! j)"
    "\<forall>k < Suc i. le_word (view w) (a + of_nat k * 4) 4 = le_word (view (bus_ctx ?s)) (a + of_nat k * 4) 4"
    using Cons.IH [of ?s "Suc i"] Cons.prems w1 by (auto simp del: of_nat_Suc of_nat_add)
  have here: "le_word (view w) (a + of_nat i * 4) 4 = getx s r"
    using w(5) w1(4) take_bit_length_eq [of "getx s r"] by (simp add: le_word_store del: of_nat_Suc)
  have before: "le_word (view w) (a + of_nat k * 4) 4 = le_word (view (bus_ctx s)) (a + of_nat k * 4) 4" if "k < i" for k
    using w(5) w1(4) that Cons.prems(2) other_slot [of i k] by simp
  have "le_word (view w) (a + of_nat (i + j) * 4) 4 = getx s ((r # rs) ! j)" if "j < length (r # rs)" for j
  proof (cases j)
    case 0
    then show ?thesis using here by simp
  next
    case (Suc j')
    then show ?thesis using w(4) that by (auto simp: getx_def)
  qed
  then show ?case using w1 w before by (intro exI [of _ w]) auto
qed

lemma pop_regs_spec:
  assumes "frame_ok s a (i + length rs)" "good (bus_ctx s)" "\<forall>j < length rs. le_word (view (bus_ctx s)) (a + of_nat (i + j) * 4) 4 = f (rs ! j)"
  shows "pop_regs h a i rs s = (fold (\<lambda>r. setx r (f r)) rs s, True)"
  using assms
proof (induction rs arbitrary: i s)
  case (Cons r rs)
  have "plain s (a + of_nat i * 4) 4 False" using Cons.prems(1) by (simp add: frame_ok_def)
  then have rd: "mem_read h (a + of_nat i * 4) 4 s = (s, Some (f r))"
    using mem_read_spec [of s] Cons.prems(3) by fastforce
  have "frame_ok (setx r (f r) s) a (Suc i + length rs)"
    using frame_ok_cong [OF Cons.prems(1), of "setx r (f r) s"] Cons.prems(2) by simp
  then have "pop_regs h a (Suc i) rs (setx r (f r) s) = (fold (\<lambda>r. setx r (f r)) rs (setx r (f r) s), True)"
    using Cons.prems(2,3) by (intro Cons.IH) (auto simp del: of_nat_Suc of_nat_add)
  then show ?case using rd by simp
qed simp

lemma push_pop:
  assumes rl: "set rl \<subseteq> saved_regs" "length rl \<le> 13" and fr: "frame_ok s (getx s 2 - of_nat (length rl) * 4) (length rl)"
    and g: "good (bus_ctx s)"
    and t: "bus_ctx t = bus_ctx (cm_push h rl adj s)" "getx t 2 = getx (cm_push h rl adj s) 2"
      "trap_misaligned t = trap_misaligned s"
  shows "\<exists>t'. cm_pop h 0x1e rl adj nxt t = (t', getx t' 1) \<and> getx t' 2 = getx s 2 \<and> (\<forall>r \<in> set rl. getx t' r = getx s r) \<and> bus_ctx t' = bus_ctx t"
proof -
  let ?a = "getx s 2 - of_nat (length rl) * 4"
  obtain w where w: "push_regs h ?a 0 rl s = (s\<lparr>bus_ctx := w\<rparr>, True)" "good w" "mapped w = mapped (bus_ctx s)"
    "\<forall>j < length rl. le_word (view w) (?a + of_nat j * 4) 4 = getx s (rl ! j)"
    using push_regs_spec [of s ?a 0 rl] fr rl g by auto
  have p: "cm_push h rl adj s = setx 2 (getx s 2 - adj) (s\<lparr>bus_ctx := w\<rparr>)"
    using w(1) by (simp add: cm_push_def Let_def getx_def)
  have sp: "getx t 2 = getx s 2 - adj" and bt: "bus_ctx t = w"
    using t p by (simp_all add: getx_def setx_def)
  have "pop_regs h ?a 0 rl t = (fold (\<lambda>r. setx r (getx s r)) rl t, True)"
    using frame_ok_cong [OF fr, of t] t(3) w bt by (intro pop_regs_spec) auto
  then have "cm_pop h 0x1e rl adj nxt t =
      (let u = setx 2 (getx s 2) (fold (\<lambda>r. setx r (getx s r)) rl t) in (u, getx u 1))"
    using sp getx_restore [OF rl(1), of 2 "getx s" t] rl(1)
    by (auto simp: cm_pop_def Let_def saved_regs_def)
  moreover have "getx (setx 2 v u) r = getx u r" if "r \<in> saved_regs" for r v u
    using that saved_inj [of r 2] by (auto simp: getx_def setx_def saved_regs_def)
  ultimately show ?thesis
    using getx_restore [OF rl(1), of _ "getx s" t] rl(1)
    by (auto simp: Let_def getx_def setx_def subset_iff)
qed

end

interpretation flat_frame: steady_memory machine_host "\<lambda>_. True" "\<lambda>m a. a < mem_size m" mem
  by unfold_locales (simp add: refused_def)
interpretation sandbox_frame: steady_memory wasm_host "\<lambda>_. True" "\<lambda>m a. a < GUEST_MEM_SIZE" guest_mem
  by unfold_locales (simp add: refused_def mem_probe_def)

text \<open>
  C29. A function that saves its frame with cm.push and leaves with cm.popret gets it back: whatever
  happened to the registers in between, as long as the stack pointer, the frame's memory and the
  alignment setting are as the push left them, popret restores the stack pointer and every saved
  register, for every register list and stack adjustment, and continues at the restored return
  address.
\<close>

theorem zcmp_push_pop:
  fixes s t :: "machine rv_cpu" and rlist :: u32
  defines "rl \<equiv> zcmp_regs rlist"
  assumes "\<forall>k < 4 * length rl. getx s 2 - of_nat (length rl) * 4 + of_nat k < mem_size (bus_ctx s)"
    and "\<not> trap_misaligned s" and "\<not> trap_misaligned t"
    and "bus_ctx t = bus_ctx (cm_push machine_host rl adj s)"
    and "getx t 2 = getx (cm_push machine_host rl adj s) 2"
  shows "\<exists>t'. cm_pop machine_host 0x1e rl adj nxt t = (t', getx t' 1) \<and> getx t' 2 = getx s 2 \<and>
    (\<forall>r \<in> set rl. getx t' r = getx s r) \<and> bus_ctx t' = bus_ctx t"
proof -
  let ?a = "getx s 2 - of_nat (length rl) * 4"
  have "?a + of_nat k * 4 + of_nat i < mem_size (bus_ctx s)" if "k < length rl" "i < 4" for k i
    using assms(2) [rule_format, of "k * 4 + i"] that by (simp add: add.assoc)
  then have "flat_frame.frame_ok s ?a (length rl)"
    using assms(3) by (simp add: flat_frame.frame_ok_def flat.plain_def refused_def)
  then show ?thesis
    using zcmp_sreg_set [of rlist] assms(3-6)
    by (intro flat_frame.push_pop) (simp_all add: rl_def)
qed

text \<open>\<open>{ra, s0-s1}\<close> below 0x2000, with both saved registers overwritten in between.\<close>

definition framed :: "machine rv_cpu" where
  "framed = cpu0 fresh_machine\<lparr>regs := (\<lambda>_. 0)(1 := 0x100, 2 := 0x2000, 8 := 7)\<rparr>"

theorem zcmp_push_pop_witness:
  "\<exists>t'. cm_pop machine_host 0x1e (zcmp_regs 6) 16 0
      (setx 8 99 (setx 1 98 (cm_push machine_host (zcmp_regs 6) 16 framed))) = (t', getx t' 1) \<and>
    getx t' 2 = 0x2000 \<and> getx t' 8 = 7 \<and> getx t' 1 = 0x100"
proof -
  let ?s = "cm_push machine_host (zcmp_regs 6) 16 framed"
  have rl: "zcmp_regs 6 = [1, 8, 9]" by code_simp
  have all12: "(\<forall>k<(12::nat). P k) \<longleftrightarrow> P 0 \<and> P 1 \<and> P 2 \<and> P 3 \<and> P 4 \<and> P 5 \<and> P 6 \<and> P 7 \<and> P 8 \<and> P 9
      \<and> P 10 \<and> P 11" for P
    by (auto simp: eval_nat_numeral All_less_Suc)
  have room: "\<forall>k < 4 * length (zcmp_regs 6). getx framed 2 - of_nat (length (zcmp_regs 6)) * 4 + of_nat k
      < mem_size (bus_ctx framed)"
    by (simp add: rl all12 framed_def getx_def fresh_machine_def MACHINE_MEM_SIZE_def)
  have "\<not> trap_misaligned framed" "\<not> trap_misaligned ?s"
    by (simp add: framed_def) code_simp
  then show ?thesis
    using zcmp_push_pop [OF room, of "setx 8 99 (setx 1 98 ?s)" 16 0]
    by (simp add: rl framed_def getx_def) (auto simp: setx_def)
qed

end
