(* ===== verification/Rv_Faults.thy ===== *)
theory Rv_Faults
  imports Rv_Machine Rv_Traps
begin

text \<open>
  Memory instructions that fail, and the reservation of the atomic pair: an access the host
  refuses leaves the program's registers and memory alone, and a store conditional writes only
  under a reservation that nothing has cancelled.
\<close>

subsection \<open>Access faults are precise\<close>

text \<open>The size of a load or store by its funct3.\<close>

definition access_bytes :: "u32 \<Rightarrow> u32" where
  "access_bytes f3 = (if f3 AND 3 = 0 then 1 else if f3 AND 3 = 1 then 2 else 4)"

lemma refused_read:
  assumes "refused h (bus_ctx s) a sz False" and "\<not> (trap_misaligned s \<and> misaligned a sz)"
  shows "mem_read h a sz s = (rv_trap RV_CAUSE_LOAD_ACCESS_FAULT a
    (tr_push RV_TR_LOAD_FAULT (pc s) 0 a None s), None)"
  using assms by (auto simp: mem_read_def)

lemma refused_write:
  assumes "refused h (bus_ctx s) a sz True" and "\<not> (trap_misaligned s \<and> misaligned a sz)"
  shows "mem_write h a sz v s = (rv_trap RV_CAUSE_STORE_ACCESS_FAULT a
    (tr_push RV_TR_STORE_FAULT (pc s) 0 a None s), False)"
  using assms by (auto simp: mem_write_def)

lemma trap_fields:
  "\<not> in_trap s \<Longrightarrow> mcause (rv_trap c t s) = c \<and> mtval (rv_trap c t s) = t \<and> mepc (rv_trap c t s) = pc s"
  by (simp add: rv_trap_def Let_def)

lemma opcode_apart [simp]: "OP_LOAD \<noteq> OP_LUI" "OP_LOAD \<noteq> OP_AUIPC" "OP_LOAD \<noteq> OP_JAL" "OP_LOAD \<noteq> OP_JALR"
  "OP_LOAD \<noteq> OP_BRANCH" "OP_STORE \<noteq> OP_LUI" "OP_STORE \<noteq> OP_AUIPC" "OP_STORE \<noteq> OP_JAL"
  "OP_STORE \<noteq> OP_JALR" "OP_STORE \<noteq> OP_BRANCH" "OP_STORE \<noteq> OP_LOAD"
  by (simp_all add: opcodes)

lemma load_refused:
  assumes "OPCODE insn = OP_LOAD" and "FUNCT3 insn \<in> {0, 1, 2, 4, 5}"
    and "refused h (bus_ctx s) (getx s (RS1 insn) + imm_i insn) (access_bytes (FUNCT3 insn)) False"
    and "\<not> trap_misaligned s"
  shows "exec h insn nxt s = (rv_trap RV_CAUSE_LOAD_ACCESS_FAULT (getx s (RS1 insn) + imm_i insn)
    (tr_push RV_TR_LOAD_FAULT (pc s) 0 (getx s (RS1 insn) + imm_i insn) None s), nxt)"
  using assms
  by (auto simp: exec_def exec_switch_def exec_load_def load_into_def access_bytes_def refused_read
      Let_def)

lemma store_refused:
  assumes "OPCODE insn = OP_STORE" and "FUNCT3 insn \<in> {0, 1, 2}"
    and "refused h (bus_ctx s) (getx s (RS1 insn) + imm_s insn) (access_bytes (FUNCT3 insn)) True"
    and "\<not> trap_misaligned s"
  shows "exec h insn nxt s = (clear_x0 (rv_trap RV_CAUSE_STORE_ACCESS_FAULT
    (getx s (RS1 insn) + imm_s insn)
    (tr_push RV_TR_STORE_FAULT (pc s) 0 (getx s (RS1 insn) + imm_s insn) None s)), nxt)"
  using assms
  by (auto simp: exec_def exec_switch_def exec_store_def access_bytes_def refused_write Let_def)

text \<open>
  C28. Access faults are precise, on every host with an access check: a load or store it refuses
  changes no register and no memory, and the trap records the faulting instruction in mepc, the
  address in mtval and the load or store cause.
\<close>

theorem refused_access_precise:
  fixes insn :: u32
  defines "addr \<equiv> (if OPCODE insn = OP_LOAD then imm_i insn else imm_s insn)"
  assumes "OPCODE insn = OP_LOAD \<and> FUNCT3 insn \<in> {0, 1, 2, 4, 5} \<or>
      OPCODE insn = OP_STORE \<and> FUNCT3 insn \<in> {0, 1, 2}"
    and "refused h (bus_ctx s) (getx s (RS1 insn) + addr) (access_bytes (FUNCT3 insn))
      (OPCODE insn = OP_STORE)"
    and "\<not> trap_misaligned s" and "\<not> in_trap s" and "regs s 0 = 0"
  shows "let s' = fst (exec h insn nxt s) in
    regs s' = regs s \<and> bus_ctx s' = bus_ctx s \<and> mepc s' = pc s \<and>
    mtval s' = getx s (RS1 insn) + addr \<and>
    mcause s' = (if OPCODE insn = OP_STORE then 7 else 5)"
  using assms(2)
proof (elim disjE conjE)
  assume l: "OPCODE insn = OP_LOAD" "FUNCT3 insn \<in> {0, 1, 2, 4, 5}"
  then show ?thesis
    using load_refused [of insn h s nxt] assms(1,3-6) trap_fields
    by (simp add: Let_def trap_fields opcodes RV_CAUSE_LOAD_ACCESS_FAULT_def)
next
  assume l: "OPCODE insn = OP_STORE" "FUNCT3 insn \<in> {0, 1, 2}"
  have z: "(regs s)(0 := 0) = regs s" using assms(6) by auto
  from l show ?thesis
    using store_refused [of insn h s nxt] assms(1,3-6)
    by (simp add: Let_def trap_fields opcodes RV_CAUSE_STORE_ACCESS_FAULT_def clear_x0_def z)
qed

text \<open>A host that refuses everything, and \<open>sw x2, 4(x1)\<close> on it.\<close>

definition locked_host :: "unit rv_host" where
  "locked_host = \<lparr>read8 = \<lambda>w a. (0, w), read16 = \<lambda>w a. (0, w), read32 = \<lambda>w a. (0, w),
     write8 = \<lambda>w a v. w, write16 = \<lambda>w a v. w, write32 = \<lambda>w a v. w,
     probe = Some (\<lambda>w a sz wr. True), ecall = None\<rparr>"

theorem refused_access_precise_witness:
  "let s' = fst (exec locked_host 0x0020a223 4 (cpu0 ()\<lparr>regs := (\<lambda>_. 0)(1 := 0x100)\<rparr>)) in
   mtval s' = 0x104 \<and> mcause s' = 7"
proof -
  let ?s = "cpu0 ()\<lparr>regs := (\<lambda>_. 0)(1 := 0x100)\<rparr>"
  have f: "OPCODE 0x0020a223 = OP_STORE" "FUNCT3 0x0020a223 = 2" "RS1 0x0020a223 = 1" "imm_s 0x0020a223 = 4"
    by code_simp+
  have "refused locked_host (bus_ctx ?s) a sz wr" for a sz wr
    by (simp add: refused_def locked_host_def)
  then show ?thesis
    using refused_access_precise [of "0x0020a223" locked_host ?s 4] f
    by (simp add: Let_def getx_def opcodes)
qed

subsection \<open>Load reserved and store conditional\<close>

text \<open>
  The atomic pair. A load reserved at an aligned address inside memory returns the word there
  and makes the reservation; a store conditional at that address then stores its word, reports
  success with 0 and drops the reservation. A store conditional without a matching reservation,
  for example after any trap in between, reports 1 and stores nothing, on every host.
\<close>

theorem lr_sc_pair:
  assumes "addr AND 3 = 0" and "addr + 3 < mem_size (bus_ctx s)" and "RS2 lr = 0" and "\<not> in_trap s"
  shows "\<exists>s1 s2. exec_lr machine_host lr addr n s = Brk s1 n \<and>
    getx s1 (RD lr) = le_word (mem (bus_ctx s)) addr 4 \<and>
    exec_sc machine_host sc addr b n s1 = Brk s2 n \<and> getx s2 (RD sc) = 0 \<and>
    le_word (mem (bus_ctx s2)) addr 4 = b \<and> \<not> res_valid s2 \<and>
    (\<forall>h c t. exec_sc h sc addr b n (rv_trap c t s1) = Brk ((setx (RD sc) 1 (rv_trap c t s1))\<lparr>res_valid := False\<rparr>) n)"
proof -
  have inside: "\<forall>i < unat (4 :: u32). addr + of_nat i < mem_size (bus_ctx s)"
    using assms(2) word_inside [OF assms(1,2)] by (simp add: all_bytes)
  have pl': "flat.plain s addr 4 wr" for wr
    using inside assms(1) by (simp add: flat.plain_def refused_def misaligned_def)
  let ?s1 = "setx (RD lr) (le_word (mem (bus_ctx s)) addr 4) (s\<lparr>res_addr := addr, res_valid := True\<rparr>)"
  have pl1: "flat.plain ?s1 addr 4 True"
    using inside assms(1) by (simp add: flat.plain_def refused_def misaligned_def)
  have lr: "exec_lr machine_host lr addr n s = Brk ?s1 n"
    using flat.mem_read_spec [OF pl'] assms(3) by (simp add: exec_lr_def)
  obtain m where m: "mem_write machine_host addr 4 b ?s1 = (?s1\<lparr>bus_ctx := m\<rparr>, True)"
    "mem m = le_store (mem (bus_ctx ?s1)) addr (unat (4 :: u32)) b"
    using flat.mem_write_spec [of ?s1 addr 4 b] pl1 by metis
  then have sc: "exec_sc machine_host sc addr b n ?s1 = Brk ((setx (RD sc) 0 (?s1\<lparr>bus_ctx := m\<rparr>))\<lparr>res_valid := False\<rparr>) n"
    by (simp add: exec_sc_def)
  have "\<not> res_valid (rv_trap c t ?s1)" for c t
    using assms(4) by (simp add: rv_trap_def Let_def)
  then show ?thesis
    using lr sc m take_bit_length_eq [of b]
    by (intro exI [of _ ?s1] exI) (auto simp: getx_def setx_def le_word_store exec_sc_def)
qed

theorem lr_sc_pair_witness:
  "\<exists>s1 s2. exec_lr machine_host 0x1000a52f 0x40 4 (cpu0 fresh_machine) = Brk s1 4 \<and>
    exec_sc machine_host 0x18b0a5af 0x40 77 4 s1 = Brk s2 4 \<and> le_word (mem (bus_ctx s2)) 0x40 4 = 77"
proof -
  have "RS2 0x1000a52f = 0" by code_simp
  moreover have "(0x40 + 3 :: u32) < mem_size (bus_ctx (cpu0 fresh_machine))"
    by (simp add: fresh_machine_def MACHINE_MEM_SIZE_def)
  ultimately show ?thesis
    using lr_sc_pair [of "0x40" "cpu0 fresh_machine" "0x1000a52f" 4 "0x18b0a5af" 77] by auto
qed

end
