(* ===== verification/Rv_Float_Laws.thy ===== *)
theory Rv_Float_Laws
  imports Rv_Exec
begin

text \<open>
  Laws of the floating-point unit that hold for every operand, NaNs and infinities included: the
  exception flags are sticky, comparisons order the numbers and leave NaNs out, minimum and
  maximum are lattice operations on them, and fclass agrees with the predicates the arithmetic
  uses.
\<close>

subsection \<open>Sticky flags\<close>

text \<open>\<open>fcs'\<close> has the flags of \<open>fcs\<close> and perhaps more, and the same rounding mode.\<close>

definition accrues :: "u32 \<Rightarrow> u32 \<Rightarrow> bool" where
  "accrues fcs fcs' \<longleftrightarrow> (\<exists>f. fcs' = fcs OR (f AND 0x1f))"

lemma accrues_refl [simp]: "accrues fcs fcs"
  unfolding accrues_def by (rule exI [of _ 0]) simp

lemma accrues_set [simp]: "accrues fcs (fflags_set fcs f)"
  by (auto simp: accrues_def fflags_set_def)

lemma accrues_trans: "accrues a b \<Longrightarrow> accrues b c \<Longrightarrow> accrues a c"
proof -
  assume "accrues a b" "accrues b c"
  then obtain f g where "b = a OR (f AND 0x1f)" "c = b OR (g AND 0x1f)" by (auto simp: accrues_def)
  then have "c = a OR ((f OR g) AND 0x1f)" by (simp add: or.assoc bit.conj_disj_distrib2)
  then show ?thesis unfolding accrues_def by blast
qed

lemma accrues_set2 [simp]: "accrues fcs (fflags_set (fflags_set fcs f) g)"
  by (rule accrues_trans [OF accrues_set accrues_set])

lemma accrues_more: "accrues fcs x \<Longrightarrow> accrues fcs (fflags_set x f)"
  by (rule accrues_trans [OF _ accrues_set])

lemma round_accrues: "accrues fcs (snd (f32_round fcs hi lo rm z))"
  by (simp add: f32_round_def Let_def case_prod_beta if_distrib [of snd]
      if_distrib [of "accrues fcs"] accrues_more del: if_split cong: if_weak_cong)

lemma round_accrues2: "accrues fcs (snd (f32_round (fflags_set fcs f) hi lo rm z))"
  by (rule accrues_trans [OF accrues_set round_accrues])

text \<open>
  The exception flags are sticky: every arithmetic, conversion and comparison operation keeps
  the flags that were set and the rounding mode, and may only add flags, for all operands and
  rounding modes.
\<close>

theorem fp_flags_sticky:
  "accrues fcs (snd (fp_add fcs a b rm)) \<and> accrues fcs (snd (fp_mul fcs a b rm)) \<and>
   accrues fcs (snd (fp_div fcs a b rm)) \<and> accrues fcs (snd (fp_sqrt fcs a rm)) \<and>
   accrues fcs (snd (fp_fma fcs a b c rm)) \<and> accrues fcs (snd (fp_minmax fcs a b mx)) \<and>
   accrues fcs (snd (fp_to_int fcs a us rm)) \<and> accrues fcs (snd (fp_compare fcs f3 a b))"
proof (intro conjI)
  show "accrues fcs (snd (fp_add fcs a b rm))"
    by (simp add: fp_add_def fp_nan2_def Let_def case_prod_beta round_accrues round_accrues2)
  show "accrues fcs (snd (fp_mul fcs a b rm))"
    by (simp add: fp_mul_def fp_nan2_def Let_def case_prod_beta round_accrues round_accrues2)
  show "accrues fcs (snd (fp_div fcs a b rm))"
    by (simp add: fp_div_def fp_nan2_def Let_def case_prod_beta round_accrues round_accrues2)
  show "accrues fcs (snd (fp_sqrt fcs a rm))"
    by (simp add: fp_sqrt_def Let_def round_accrues round_accrues2)
  show "accrues fcs (snd (fp_fma fcs a b c rm))"
    by (simp add: fp_fma_def Let_def case_prod_beta round_accrues round_accrues2)
  show "accrues fcs (snd (fp_minmax fcs a b mx))"
    by (simp add: fp_minmax_def Let_def)
  show "accrues fcs (snd (fp_to_int fcs a us rm))"
    by (simp add: fp_to_int_def Let_def)
  show "accrues fcs (snd (fp_compare fcs f3 a b))"
    by (simp add: fp_compare_def)
qed

subsection \<open>Comparison, minimum and maximum\<close>

lemma not_nan_cases:
  "f32_is_nan a \<or> f32_is_nan b \<or> f32_lt a b \<or> f32_eq a b \<or> f32_lt b a"
  by (auto simp: f32_lt_def f32_eq_def)

lemma key_zero: "f32_is_zero a \<Longrightarrow> f_key a = 0"
  by (simp add: f32_is_zero_def f_key_def Let_def)

text \<open>
  The comparisons: with a NaN operand feq, flt and fle all give 0; between numbers exactly one
  of a < b, a = b and b < a holds, fle is the union of the first two, and both zeros are equal.
  The comparison raises the invalid flag for any NaN in flt and fle, and for signalling NaNs only
  in feq.
\<close>

theorem fp_compare_laws:
  "(if f32_is_nan a \<or> f32_is_nan b
    then fst (fp_compare fcs 2 a b) = 0 \<and> fst (fp_compare fcs 1 a b) = 0 \<and>
      fst (fp_compare fcs 0 a b) = 0 \<and> bit (snd (fp_compare fcs 1 a b)) 4
    else fst (fp_compare fcs 1 a b) + fst (fp_compare fcs 2 a b) + fst (fp_compare fcs 1 b a) = 1 \<and>
      fst (fp_compare fcs 0 a b) = fst (fp_compare fcs 1 a b) OR fst (fp_compare fcs 2 a b) \<and>
      snd (fp_compare fcs 1 a b) = fcs \<and> snd (fp_compare fcs 2 a b) = fcs) \<and>
   fst (fp_compare fcs 2 0 0x80000000) = 1"
proof -
  have nv: "bit (fflags_set fcs RV_FFLAG_NV) 4"
    by (simp add: fflags_set_def RV_FFLAG_NV_def bit_or_iff)
  have z: "fst (fp_compare fcs 2 0 0x80000000) = 1"
    by (simp add: fp_compare_def f32_is_nan_def f32_eq_def f_key_def)
  consider "f32_is_nan a \<or> f32_is_nan b" | "\<not> f32_is_nan a" "\<not> f32_is_nan b" "f_key a < f_key b"
    | "\<not> f32_is_nan a" "\<not> f32_is_nan b" "f_key a = f_key b"
    | "\<not> f32_is_nan a" "\<not> f32_is_nan b" "f_key a > f_key b"
    by force
  then show ?thesis
    by cases (use nv z in \<open>auto simp: fp_compare_def f32_lt_def f32_le_def f32_eq_def f32_is_snan_def\<close>)
qed

text \<open>
  fmin and fmax return one of their operands unless both are NaN, when they return the
  canonical NaN; a single NaN loses to a number; between numbers the result is below (above)
  both, and of two zeros fmin takes the negative one.
\<close>

theorem fp_minmax_laws:
  "(if f32_is_nan a \<and> f32_is_nan b then fst (fp_minmax fcs a b mx) = F32_CANON_NAN
    else if f32_is_nan a then fst (fp_minmax fcs a b mx) = b
    else if f32_is_nan b then fst (fp_minmax fcs a b mx) = a
    else fst (fp_minmax fcs a b mx) \<in> {a, b} \<and>
      f_key (fst (fp_minmax fcs a b mx)) = (if mx then max (f_key a) (f_key b) else min (f_key a) (f_key b))) \<and>
   fst (fp_minmax fcs 0 0x80000000 False) = 0x80000000 \<and>
   fst (fp_minmax fcs 0x80000000 0 False) = 0x80000000 \<and>
   fst (fp_minmax fcs 0 0x80000000 True) = 0 \<and> fst (fp_minmax fcs 0x80000000 0 True) = 0"
proof (intro conjI)
  show "if f32_is_nan a \<and> f32_is_nan b then fst (fp_minmax fcs a b mx) = F32_CANON_NAN
    else if f32_is_nan a then fst (fp_minmax fcs a b mx) = b
    else if f32_is_nan b then fst (fp_minmax fcs a b mx) = a
    else fst (fp_minmax fcs a b mx) \<in> {a, b} \<and>
      f_key (fst (fp_minmax fcs a b mx)) = (if mx then max (f_key a) (f_key b) else min (f_key a) (f_key b))"
    using key_zero [of a] key_zero [of b]
    by (cases "f32_is_nan a"; cases "f32_is_nan b"; cases mx;
        cases "f32_is_zero a \<and> f32_is_zero b"; simp add: fp_minmax_def Let_def f32_lt_def)
qed (simp_all add: fp_minmax_def Let_def f32_is_nan_def f32_is_zero_def f32_sign_def)

subsection \<open>Classification\<close>

lemma exponent_field:
  "a AND 0x7f800000 = 0x7f800000 \<longleftrightarrow> drop_bit 23 a AND 0xff = (0xff :: u32)"
  "a AND 0x7f800000 = 0 \<longleftrightarrow> drop_bit 23 a AND 0xff = (0 :: u32)"
proof -
  have m: "a AND 0x7f800000 = push_bit 23 (drop_bit 23 a AND 0xff)"
    by (rule u32_eqI) (simp add: bits_at del: push_bit_Suc drop_bit_Suc)
  have d: "drop_bit 23 a AND 0xff = drop_bit 23 (a AND 0x7f800000)"
    by (rule u32_eqI) (simp add: bits_at del: push_bit_Suc drop_bit_Suc)
  show "a AND 0x7f800000 = 0x7f800000 \<longleftrightarrow> drop_bit 23 a AND 0xff = 0xff"
  proof
    assume "a AND 0x7f800000 = 0x7f800000"
    then show "drop_bit 23 a AND 0xff = 0xff" unfolding d by simp
  next
    assume "drop_bit 23 a AND 0xff = 0xff"
    then show "a AND 0x7f800000 = 0x7f800000" unfolding m by simp
  qed
  show "a AND 0x7f800000 = 0 \<longleftrightarrow> drop_bit 23 a AND 0xff = 0"
  proof
    assume "a AND 0x7f800000 = 0"
    then show "drop_bit 23 a AND 0xff = 0" unfolding d by simp
  next
    assume "drop_bit 23 a AND 0xff = 0"
    then show "a AND 0x7f800000 = 0" unfolding m by simp
  qed
qed

lemma magnitude_field:
  "a AND 0x7fffffff = (0x7f800000 :: u32) \<longleftrightarrow> a AND 0x7f800000 = 0x7f800000 \<and> a AND 0x7fffff = 0"
  "a AND 0x7fffffff = (0 :: u32) \<longleftrightarrow> a AND 0x7f800000 = 0 \<and> a AND 0x7fffff = 0"
proof -
  have s: "a AND 0x7fffffff = (a AND 0x7f800000) OR (a AND 0x7fffff)"
    and e: "a AND 0x7f800000 = (a AND 0x7fffffff) AND 0x7f800000"
    and m: "a AND 0x7fffff = (a AND 0x7fffffff) AND 0x7fffff"
    by (simp_all add: and.assoc flip: bit.conj_disj_distrib)
  show "a AND 0x7fffffff = 0x7f800000 \<longleftrightarrow> a AND 0x7f800000 = 0x7f800000 \<and> a AND 0x7fffff = 0"
  proof
    assume "a AND 0x7fffffff = 0x7f800000"
    then show "a AND 0x7f800000 = 0x7f800000 \<and> a AND 0x7fffff = 0" using e m by simp
  qed (use s in simp)
  show "a AND 0x7fffffff = 0 \<longleftrightarrow> a AND 0x7f800000 = 0 \<and> a AND 0x7fffff = 0"
  proof
    assume "a AND 0x7fffffff = 0"
    then show "a AND 0x7f800000 = 0 \<and> a AND 0x7fffff = 0" using e m by simp
  qed (use s in simp)
qed

lemma quiet_field: "(a AND 0x7fffff) AND 0x400000 = (a :: u32) AND 0x400000"
  by (simp add: and.assoc)

text \<open>
  fclass sets exactly the bit of the operand's class, and its classes are those of the
  predicates the arithmetic branches on: signalling NaN (bit 8), quiet NaN (9), infinities (0, 7),
  zeros (3, 4), subnormals (2, 5, a zero exponent field) and normals (1, 6).
\<close>

theorem fp_class_table:
  "fp_class a = push_bit
     (if f32_is_snan a then 8 else if f32_is_nan a then 9
      else if f32_is_inf a then (if f32_sign a then 0 else 7)
      else if f32_is_zero a then (if f32_sign a then 3 else 4)
      else if a AND 0x7f800000 = 0 then (if f32_sign a then 2 else 5)
      else (if f32_sign a then 1 else 6)) 1"
  by (simp add: fp_class_def Let_def f32_is_snan_def f32_is_nan_def f32_is_inf_def f32_is_zero_def
      magnitude_field quiet_field exponent_field del: push_bit_Suc)

end
