(* ===== verification/Rv_Elf.thy ===== *)
theory Rv_Elf
  imports Rv_Machine
begin

text \<open>
  The ELF loader of \<^verbatim>\<open>src/rv32-emulator/demo/elf_loader.c\<close>. The bytes of the file are an argument
  (\<^const>\<open>None\<close> when it cannot be opened or read), since opening and reading it is the C library's
  work. The buffer is a C array without bounds checks: a read beyond it is the outcome \<open>Wild\<close>, so
  the model says for which files the C code stays within the buffer. \<open>Rejected\<close> is the return
  value 0 after a diagnostic.
\<close>

subsection \<open>Bytes of the file\<close>

definition ET_EXEC :: u16 where "ET_EXEC = 2"
definition EM_RISCV :: u16 where "EM_RISCV = 243"
definition PT_LOAD :: u32 where "PT_LOAD = 1"
definition SHT_SYMTAB :: u32 where "SHT_SYMTAB = 2"
definition ELFCLASS32 :: u8 where "ELFCLASS32 = 1"
definition ELFDATA2LSB :: u8 where "ELFDATA2LSB = 1"

lemmas elf_codes = ET_EXEC_def EM_RISCV_def PT_LOAD_def SHT_SYMTAB_def ELFCLASS32_def ELFDATA2LSB_def

definition rd8 :: "u8 list \<Rightarrow> nat \<Rightarrow> u8 option" where
  "rd8 buf i = (if i < length buf then Some (buf ! i) else None)"

definition rd16le :: "u8 list \<Rightarrow> nat \<Rightarrow> u16 option" where
  "rd16le buf i =
    (case (rd8 buf i, rd8 buf (i + 1)) of
       (Some a, Some b) \<Rightarrow> Some (ucast a OR push_bit 8 (ucast b))
     | _ \<Rightarrow> None)"

definition rd32le :: "u8 list \<Rightarrow> nat \<Rightarrow> u32 option" where
  "rd32le buf i =
    (case (rd8 buf i, rd8 buf (i + 1), rd8 buf (i + 2), rd8 buf (i + 3)) of
       (Some a, Some b, Some c, Some d) \<Rightarrow>
         Some (ucast a OR push_bit 8 (ucast b) OR push_bit 16 (ucast c) OR push_bit 24 (ucast d))
     | _ \<Rightarrow> None)"

subsection \<open>The header\<close>

datatype elf_error = Cannot_open | Too_small | Bad_magic | Not_elf32 | Not_little | Not_exec | Not_riscv

definition read_elf :: "u8 list option \<Rightarrow> elf_error + u8 list" where
  "read_elf file =
    (case file of
       None \<Rightarrow> Inl Cannot_open
     | Some buf \<Rightarrow>
         if length buf < 52 then Inl Too_small
         else if take 4 buf \<noteq> [0x7f, 0x45, 0x4c, 0x46] then Inl Bad_magic
         else if buf ! 4 \<noteq> ELFCLASS32 then Inl Not_elf32
         else if buf ! 5 \<noteq> ELFDATA2LSB then Inl Not_little
         else if rd16le buf 16 \<noteq> Some ET_EXEC then Inl Not_exec
         else if rd16le buf 18 \<noteq> Some EM_RISCV then Inl Not_riscv
         else Inr buf)"

subsection \<open>Loading segments\<close>

datatype 'w load_result = Rejected 'w | Wild | Loaded u32 'w

text \<open>
  The two inner loops: \<open>k\<close> turns are left and \<open>j\<close> is the loop variable. \<open>buf[p_offset + j]\<close> is
  indexed by a 32-bit sum.
\<close>

fun copy_bytes :: "('w \<Rightarrow> u32 \<Rightarrow> u8 \<Rightarrow> 'w) \<Rightarrow> u8 list \<Rightarrow> u32 \<Rightarrow> u32 \<Rightarrow> u32 \<Rightarrow> nat \<Rightarrow> 'w \<Rightarrow> 'w option" where
  "copy_bytes put buf off va j 0 ctx = Some ctx"
| "copy_bytes put buf off va j (Suc k) ctx =
    (case rd8 buf (unat (off + j)) of
       None \<Rightarrow> None
     | Some b \<Rightarrow> copy_bytes put buf off va (j + 1) k (put ctx (va + j) b))"

fun zero_bytes :: "('w \<Rightarrow> u32 \<Rightarrow> u8 \<Rightarrow> 'w) \<Rightarrow> u32 \<Rightarrow> u32 \<Rightarrow> nat \<Rightarrow> 'w \<Rightarrow> 'w" where
  "zero_bytes put va j 0 ctx = ctx"
| "zero_bytes put va j (Suc k) ctx = zero_bytes put va (j + 1) k (put ctx (va + j) 0)"

definition load_segment ::
    "('w \<Rightarrow> u32 \<Rightarrow> u8 \<Rightarrow> 'w) \<Rightarrow> u8 list \<Rightarrow> u32 \<Rightarrow> u32 \<Rightarrow> u32 \<Rightarrow> u32 \<Rightarrow> 'w \<Rightarrow> 'w option" where
  "load_segment put buf off va filesz memsz ctx =
    (case copy_bytes put buf off va 0 (unat filesz) ctx of
       None \<Rightarrow> None
     | Some ctx \<Rightarrow> Some (zero_bytes put va filesz (unat memsz - unat filesz) ctx))"

text \<open>The loop over the program headers: \<open>k\<close> are left, \<open>pos\<close> is the offset of the next one.\<close>

fun load_headers ::
    "('w \<Rightarrow> u32 \<Rightarrow> u8 \<Rightarrow> 'w) \<Rightarrow> u8 list \<Rightarrow> u32 \<Rightarrow> nat \<Rightarrow> nat \<Rightarrow> nat \<Rightarrow> 'w \<Rightarrow> 'w load_result" where
  "load_headers put buf entry phentsize pos 0 ctx = Loaded entry ctx"
| "load_headers put buf entry phentsize pos (Suc k) ctx =
    (if pos + phentsize > length buf then Loaded entry ctx
     else case (rd32le buf pos, rd32le buf (pos + 4), rd32le buf (pos + 8), rd32le buf (pos + 16),
                rd32le buf (pos + 20)) of
       (Some p_type, Some p_offset, Some p_vaddr, Some p_filesz, Some p_memsz) \<Rightarrow>
         if p_type \<noteq> PT_LOAD then load_headers put buf entry phentsize (pos + phentsize) k ctx
         else if p_offset + p_filesz > of_nat (length buf) then Rejected ctx
         else (case load_segment put buf p_offset p_vaddr p_filesz p_memsz ctx of
                 None \<Rightarrow> Wild
               | Some ctx \<Rightarrow> load_headers put buf entry phentsize (pos + phentsize) k ctx)
     | _ \<Rightarrow> Wild)"

definition elf_load :: "u8 list option \<Rightarrow> ('w \<Rightarrow> u32 \<Rightarrow> u8 \<Rightarrow> 'w) \<Rightarrow> 'w \<Rightarrow> 'w load_result" where
  "elf_load file put ctx =
    (case read_elf file of
       Inl _ \<Rightarrow> Rejected ctx
     | Inr buf \<Rightarrow>
         (case (rd32le buf 24, rd32le buf 28, rd16le buf 42, rd16le buf 44) of
            (Some entry, Some phoff, Some phentsize, Some phnum) \<Rightarrow>
              load_headers put buf entry (unat phentsize) (unat phoff) (unat phnum) ctx
          | _ \<Rightarrow> Wild))"

subsection \<open>Symbols\<close>

text \<open>
  \<open>strcmp\<close> of the NUL-terminated string at offset \<open>i\<close> with \<open>name\<close>; \<^const>\<open>None\<close> when the comparison
  reads beyond the buffer.
\<close>

fun str_at :: "u8 list \<Rightarrow> nat \<Rightarrow> u8 list \<Rightarrow> bool option" where
  "str_at buf i [] = (case rd8 buf i of None \<Rightarrow> None | Some b \<Rightarrow> Some (b = 0))"
| "str_at buf i (c # cs) =
    (case rd8 buf i of None \<Rightarrow> None | Some b \<Rightarrow> if b = c then str_at buf (i + 1) cs else Some False)"

datatype sym_result = Sym_wild | Sym_absent | Sym_found u32 | Sym_stuck

text \<open>
  The scan of one symbol table, \<open>for (k = 0; k + entsize <= size; k += entsize)\<close> with 32-bit
  arithmetic. A turn costs one unit of fuel; \<open>Sym_stuck\<close> is its exhaustion.
\<close>

fun scan_symbols ::
    "nat \<Rightarrow> u8 list \<Rightarrow> nat \<Rightarrow> u8 list \<Rightarrow> u32 \<Rightarrow> u32 \<Rightarrow> u32 \<Rightarrow> u32 \<Rightarrow> sym_result" where
  "scan_symbols 0 buf strtab name off sz entsize k = Sym_stuck"
| "scan_symbols (Suc n) buf strtab name off sz entsize k =
    (if \<not> k + entsize \<le> sz then Sym_absent
     else case rd32le buf (unat off + unat k) of
       None \<Rightarrow> Sym_wild
     | Some nameoff \<Rightarrow>
         (case str_at buf (strtab + unat nameoff) name of
            None \<Rightarrow> Sym_wild
          | Some True \<Rightarrow>
              (case rd32le buf (unat off + unat k + 4) of
                 None \<Rightarrow> Sym_wild | Some v \<Rightarrow> Sym_found v)
          | Some False \<Rightarrow> scan_symbols n buf strtab name off sz entsize (k + entsize)))"

text \<open>
  The loop over the sections; it goes on while \<open>result\<close> is 0, so a symbol whose value is 0 does
  not end it.
\<close>

fun scan_sections ::
    "u8 list \<Rightarrow> u8 list \<Rightarrow> nat \<Rightarrow> nat \<Rightarrow> u32 \<Rightarrow> nat \<Rightarrow> nat \<Rightarrow> u32 \<Rightarrow> sym_result" where
  "scan_sections buf name shoff shentsize shnum i 0 result = Sym_found result"
| "scan_sections buf name shoff shentsize shnum i (Suc k) result =
    (let sh = shoff + i * shentsize in
     if result \<noteq> 0 then Sym_found result
     else if sh + shentsize > length buf then Sym_found result
     else case rd32le buf (sh + 4) of
       None \<Rightarrow> Sym_wild
     | Some ty \<Rightarrow>
         if ty \<noteq> SHT_SYMTAB then scan_sections buf name shoff shentsize shnum (i + 1) k result
         else (case (rd32le buf (sh + 16), rd32le buf (sh + 20), rd32le buf (sh + 24),
                     rd32le buf (sh + 36)) of
           (Some off, Some sz, Some link, Some entsize) \<Rightarrow>
             if entsize = 0 \<or> link \<ge> shnum
             then scan_sections buf name shoff shentsize shnum (i + 1) k result
             else (case rd32le buf (shoff + unat (link * of_nat shentsize) + 16) of
                None \<Rightarrow> Sym_wild
              | Some strtab \<Rightarrow>
                  (case scan_symbols (Suc (length buf)) buf (unat strtab) name off sz entsize 0 of
                     Sym_found v \<Rightarrow> scan_sections buf name shoff shentsize shnum (i + 1) k v
                   | Sym_absent \<Rightarrow> scan_sections buf name shoff shentsize shnum (i + 1) k result
                   | r \<Rightarrow> r))
         | _ \<Rightarrow> Sym_wild))"

definition elf_symbol :: "u8 list option \<Rightarrow> u8 list \<Rightarrow> sym_result" where
  "elf_symbol file name =
    (case read_elf file of
       Inl _ \<Rightarrow> Sym_found 0
     | Inr buf \<Rightarrow>
         (case (rd32le buf 32, rd16le buf 46, rd16le buf 48) of
            (Some shoff, Some shentsize, Some shnum) \<Rightarrow>
              scan_sections buf name (unat shoff) (unat shentsize) (ucast shnum) 0 (unat shnum) 0
          | _ \<Rightarrow> Sym_wild))"

subsection \<open>What a loaded segment leaves in memory\<close>

lemma poke_simps [simp]:
  "mem_size (machine_poke m a b) = mem_size m"
  "mem (machine_poke m a b) x = (if x = a \<and> x < mem_size m then b else mem m x)"
  by (auto simp: machine_poke_def)

lemma zero_bytes_mem:
  "unat j + k < 2 ^ 32 \<Longrightarrow> mem_size (zero_bytes machine_poke va j k m) = mem_size m \<and>
     mem (zero_bytes machine_poke va j k m) x =
       (if x < mem_size m \<and> unat j \<le> unat (x - va) \<and> unat (x - va) < unat j + k then 0 else mem m x)"
proof (induction k arbitrary: j m)
  case (Suc k)
  have j1: "unat (j + 1) = unat j + 1" using Suc.prems by (simp add: unat_word_ariths)
  have x: "x = va + j \<longleftrightarrow> unat (x - va) = unat j" by (metis add_diff_cancel_left' diff_add_cancel add.commute word_unat_eq_iff)
  show ?case
    using Suc.IH [of "j + 1" "machine_poke m (va + j) 0"] Suc.prems j1 by (auto simp: x)
qed auto

lemma copy_bytes_mem:
  "unat off + unat j + k \<le> length buf \<Longrightarrow> length buf < 2 ^ 32 \<Longrightarrow>
   \<exists>m'. copy_bytes machine_poke buf off va j k m = Some m' \<and> mem_size m' = mem_size m \<and>
     (\<forall>x. mem m' x =
       (if x < mem_size m \<and> unat j \<le> unat (x - va) \<and> unat (x - va) < unat j + k
        then buf ! (unat off + unat (x - va)) else mem m x))"
proof (induction k arbitrary: j m)
  case (Suc k)
  have j1: "unat (j + 1) = unat j + 1" using Suc.prems by (simp add: unat_word_ariths)
  have x: "x = va + j \<longleftrightarrow> unat (x - va) = unat j" for x
    by (metis add_diff_cancel_left' diff_add_cancel add.commute word_unat_eq_iff)
  have o: "unat (off + j) = unat off + unat j" using Suc.prems by (simp add: unat_word_ariths)
  then have r: "rd8 buf (unat (off + j)) = Some (buf ! (unat off + unat j))"
    using Suc.prems by (simp add: rd8_def)
  obtain m' where m': "copy_bytes machine_poke buf off va (j + 1) k
        (machine_poke m (va + j) (buf ! (unat off + unat j))) = Some m'"
    "mem_size m' = mem_size m"
    "\<forall>x. mem m' x = (if x < mem_size m \<and> unat (j + 1) \<le> unat (x - va) \<and> unat (x - va) < unat (j + 1) + k
       then buf ! (unat off + unat (x - va)) else mem (machine_poke m (va + j) (buf ! (unat off + unat j))) x)"
    using Suc.IH [of "j + 1" "machine_poke m (va + j) (buf ! (unat off + unat j))"] Suc.prems j1 by auto
  show ?case using m' r by (intro exI [of _ m']) (auto simp: j1 x)
qed auto

text \<open>
  C30. A segment inside the file is loaded as the ELF format says: the byte at offset \<open>j\<close> of the
  segment is byte \<open>p_offset + j\<close> of the file up to \<open>p_filesz\<close>, zero from there up to \<open>p_memsz\<close>, and
  nothing else in memory changes; addresses outside the machine's memory are dropped.
\<close>

theorem load_segment_mem:
  assumes "unat off + unat filesz \<le> length buf" and "length buf < 2 ^ 32"
  shows "\<exists>m'. load_segment machine_poke buf off va filesz memsz m = Some m' \<and>
    (\<forall>x. mem m' x =
      (if \<not> x < mem_size m then mem m x
       else if unat (x - va) < unat filesz then buf ! (unat off + unat (x - va))
       else if unat (x - va) < unat memsz then 0 else mem m x))"
proof -
  obtain m1 where m1: "copy_bytes machine_poke buf off va 0 (unat filesz) m = Some m1"
    "mem_size m1 = mem_size m"
    "\<forall>x. mem m1 x = (if x < mem_size m \<and> unat (x - va) < unat filesz
       then buf ! (unat off + unat (x - va)) else mem m x)"
    using copy_bytes_mem [of off 0 "unat filesz" buf va m] assms by auto
  have "unat filesz + (unat memsz - unat filesz) < 2 ^ 32"
    using u32_bound [of filesz] u32_bound [of memsz] by simp
  from zero_bytes_mem [OF this] show ?thesis
    using m1 by (auto simp: load_segment_def)
qed

theorem load_segment_mem_witness:
  "\<exists>m'. load_segment machine_poke [1, 2, 3, 4] 1 0x100 2 4 fresh_machine = Some m' \<and>
    mem m' 0x100 = 2 \<and> mem m' 0x101 = 3 \<and> mem m' 0x103 = 0"
  using load_segment_mem [of 1 2 "[1, 2, 3, 4]" "0x100" 4 fresh_machine]
  by (auto simp: fresh_machine_def MACHINE_MEM_SIZE_def)

subsection \<open>Staying within the buffer\<close>

lemma rd32le_defined: "i + 4 \<le> length buf \<Longrightarrow> \<exists>v. rd32le buf i = Some v"
  by (simp add: rd32le_def rd8_def)

lemma rd16le_defined: "i + 2 \<le> length buf \<Longrightarrow> \<exists>v. rd16le buf i = Some v"
  by (simp add: rd16le_def rd8_def)

text \<open>No segment of the file ends beyond \<open>2 ^ 32\<close>, for the headers from \<open>pos\<close> on.\<close>

fun segments_fit :: "u8 list \<Rightarrow> nat \<Rightarrow> nat \<Rightarrow> nat \<Rightarrow> bool" where
  "segments_fit buf phentsize pos 0 = True"
| "segments_fit buf phentsize pos (Suc k) =
    ((case (rd32le buf (pos + 4), rd32le buf (pos + 16)) of
        (Some off, Some filesz) \<Rightarrow> unat off + unat filesz < 2 ^ 32 | _ \<Rightarrow> True) \<and>
     segments_fit buf phentsize (pos + phentsize) k)"

lemma copy_bytes_defined:
  "unat off + unat j + k \<le> length buf \<Longrightarrow> length buf < 2 ^ 32 \<Longrightarrow>
   \<exists>c'. copy_bytes put buf off va j k c = Some c'"
proof (induction k arbitrary: j c)
  case (Suc k)
  have j1: "unat (j + 1) = unat j + 1" using Suc.prems by (simp add: unat_word_ariths)
  have "unat (off + j) = unat off + unat j" using Suc.prems by (simp add: unat_word_ariths)
  then show ?case using Suc.IH [of "j + 1"] Suc.prems j1 by (simp add: rd8_def)
qed simp

lemma copy_bytes_wild: "0 < k \<Longrightarrow> length buf \<le> unat (off + j) \<Longrightarrow> copy_bytes put buf off va j k c = None"
  by (cases k) (simp_all add: rd8_def)

lemma load_headers_in_bounds:
  "24 \<le> phentsize \<Longrightarrow> length buf < 2 ^ 32 \<Longrightarrow> segments_fit buf phentsize pos k \<Longrightarrow>
   load_headers put buf entry phentsize pos k c \<noteq> Wild"
proof (induction k arbitrary: pos c)
  case (Suc k)
  show ?case
  proof (cases "pos + phentsize > length buf")
    case False
    then obtain ty off va fs ms where f: "rd32le buf pos = Some ty" "rd32le buf (pos + 4) = Some off"
      "rd32le buf (pos + 8) = Some va" "rd32le buf (pos + 16) = Some fs" "rd32le buf (pos + 20) = Some ms"
      using Suc.prems(1) rd32le_defined [of pos buf] rd32le_defined [of "pos + 4" buf]
        rd32le_defined [of "pos + 8" buf] rd32le_defined [of "pos + 16" buf]
        rd32le_defined [of "pos + 20" buf]
      by (auto simp: not_less)
    have fit: "unat off + unat fs < 2 ^ 32" using Suc.prems(3) f by simp
    have "\<exists>c'. load_segment put buf off va fs ms c = Some c'" if "\<not> off + fs > of_nat (length buf)"
    proof -
      have "unat off + unat fs \<le> length buf"
        using that fit Suc.prems(2) by (simp add: word_less_nat_alt unat_word_ariths unat_of_nat)
      then show ?thesis
        using copy_bytes_defined [of off 0 "unat fs" buf put va c] Suc.prems(2)
        by (auto simp: load_segment_def)
    qed
    then show ?thesis using f Suc False by (auto split: option.split)
  qed simp
qed simp


text \<open>A file with one four-byte segment, and the same file with its segment placed at the wrap.\<close>

definition sample_elf :: "u8 list" where
  "sample_elf = [127, 69, 76, 70, 1, 1, 1, 0, 0, 0, 0, 0, 0, 0, 0, 0, 2, 0, 243, 0, 1, 0, 0, 0, 0, 0, 1, 0,
     52, 0, 0, 0, 0, 0, 0, 0, 0, 0, 0, 0, 52, 0, 32, 0, 1, 0, 0, 0, 0, 0, 0, 0, 1, 0, 0, 0, 84,
     0, 0, 0, 0, 0, 1, 0, 0, 0, 1, 0, 4, 0, 0, 0, 8, 0, 0, 0, 5, 0, 0, 0, 4, 0, 0, 0, 115, 0, 0, 0]"

definition wrapping_elf :: "u8 list" where
  "wrapping_elf = [127, 69, 76, 70, 1, 1, 1, 0, 0, 0, 0, 0, 0, 0, 0, 0, 2, 0, 243, 0, 1, 0, 0, 0, 0, 0, 1, 0,
     52, 0, 0, 0, 0, 0, 0, 0, 0, 0, 0, 0, 52, 0, 32, 0, 1, 0, 0, 0, 0, 0, 0, 0, 1, 0, 0, 0, 240,
     255, 255, 255, 0, 0, 1, 0, 0, 0, 1, 0, 32, 0, 0, 0, 32, 0, 0, 0, 5, 0, 0, 0, 4, 0, 0, 0,
     115, 0, 0, 0]"


text \<open>
  The bound check adds offset and size in 32 bits: a file that places a segment across the wrap
  passes the header checks and the bound check and makes the loader read far outside its buffer.
\<close>

theorem elf_load_wraps: "elf_load (Some wrapping_elf) machine_poke fresh_machine = Wild"
proof -
  have "read_elf (Some wrapping_elf) = Inr wrapping_elf" by code_simp
  moreover have "rd32le wrapping_elf 24 = Some 0x10000" "rd32le wrapping_elf 28 = Some 52"
    "rd16le wrapping_elf 42 = Some 32" "rd16le wrapping_elf 44 = Some 1" by code_simp+
  moreover have "rd32le wrapping_elf 52 = Some 1" "rd32le wrapping_elf 56 = Some 0xfffffff0"
    "rd32le wrapping_elf 60 = Some 0x10000" "rd32le wrapping_elf 68 = Some 32"
    "rd32le wrapping_elf 72 = Some 32" by code_simp+
  moreover have "length wrapping_elf = 88" by (simp add: wrapping_elf_def)
  moreover have "copy_bytes machine_poke wrapping_elf 0xfffffff0 0x10000 0 32 fresh_machine = None"
    by (rule copy_bytes_wild) (simp_all add: wrapping_elf_def)
  ultimately show ?thesis
    by (simp add: elf_load_def load_segment_def elf_codes)
qed

subsection \<open>The symbol scan ends\<close>

lemma rd32le_bound: "rd32le buf i = Some v \<Longrightarrow> i + 4 \<le> length buf"
  by (auto simp: rd32le_def rd8_def split: if_splits)

lemma scan_symbols_ends:
  assumes "entsize \<noteq> 0" and "length buf < 2 ^ 31"
  shows "1 \<le> n \<Longrightarrow> length buf < unat k + n \<Longrightarrow>
    unat entsize < 2 ^ 31 \<or> k = 0 \<or> length buf < unat k \<Longrightarrow>
    scan_symbols n buf strtab name off sz entsize k \<noteq> Sym_stuck"
proof (induction n arbitrary: k)
  case (Suc n)
  have e: "1 \<le> unat entsize" using assms(1) by (simp add: Suc_le_eq unat_gt_0)
  show ?case
  proof (cases "rd32le buf (unat off + unat k)")
    case (Some v)
    then have k: "unat k + 4 \<le> length buf" using rd32le_bound by fastforce
    then have "unat (k + entsize) = unat k + unat entsize"
      using Suc.prems(3) assms(2) u32_bound [of entsize] by (auto simp: unat_word_ariths)
    then have "scan_symbols n buf strtab name off sz entsize (k + entsize) \<noteq> Sym_stuck"
      using Suc.prems k e assms(2) by (intro Suc.IH) auto
    then show ?thesis using Some by (simp split: option.split bool.split)
  qed simp
qed simp

lemma scan_sections_ends:
  "length buf < 2 ^ 31 \<Longrightarrow> scan_sections buf name shoff shentsize shnum i k result \<noteq> Sym_stuck"
proof (induction k arbitrary: i result)
  case (Suc k)
  have "scan_symbols (Suc (length buf)) buf s name off sz entsize 0 \<noteq> Sym_stuck" if "entsize \<noteq> 0" for s off sz entsize
    using scan_symbols_ends [OF that Suc.prems, of "Suc (length buf)" 0] by simp
  then show ?case
    using Suc by (auto simp: Let_def simp del: scan_symbols.simps split: option.split sym_result.split)
qed simp

text \<open>
  The symbol lookup ends on every file below 2 GiB, although the scan of a table counts in
  32-bit arithmetic that may wrap: after at most as many entries as the file has bytes it has
  found the name, passed the end of the table or left the file.
\<close>

theorem elf_symbol_ends:
  assumes "file = None \<or> length (the file) < 2 ^ 31"
  shows "elf_symbol file name \<noteq> Sym_stuck"
proof (cases "read_elf file")
  case (Inr buf)
  then have "file = Some buf"
    by (auto simp: read_elf_def split: option.splits if_splits)
  then show ?thesis
    using Inr assms scan_sections_ends [of buf] by (simp add: elf_symbol_def split: option.split)
qed (simp add: elf_symbol_def)

theorem elf_symbol_ends_witness: "elf_symbol (Some sample_elf) [0x6d] \<noteq> Sym_stuck"
  using elf_symbol_ends [of "Some sample_elf" "[0x6d]"] by (simp add: sample_elf_def)

end
