(* ===== verification/Nc_Wire.thy ===== *)
theory Nc_Wire
  imports Rv_Prelude
begin

text \<open>
  The wire vocabulary of \<^verbatim>\<open>src/netchan-auth/demo/netchan.c\<close>: frame codes, the big-endian integer
  helpers, and the control frames as the bytes that the \<open>ctrl_\<close> functions append to the control
  queue. A packet is a list of bytes; \<open>p[i]\<close> of the code is \<open>p ! i\<close>, always below the length that the
  code has checked.
\<close>

subsection \<open>Constants\<close>

definition NC_VERSION :: u8 where "NC_VERSION = 0x01"
definition NC_PKT_FLAG_INIT :: u8 where "NC_PKT_FLAG_INIT = 0x01"
definition NC_PKT_FLAG_PKTNUM :: u8 where "NC_PKT_FLAG_PKTNUM = 0x02"
definition NC_HDR_INIT_SIZE :: nat where "NC_HDR_INIT_SIZE = 5"
definition NC_HDR_FULL_SIZE :: nat where "NC_HDR_FULL_SIZE = 7"

definition NC_FRAME_PADDING :: u8 where "NC_FRAME_PADDING = 0x00"
definition NC_FRAME_CONNECT_INIT :: u8 where "NC_FRAME_CONNECT_INIT = 0x01"
definition NC_FRAME_CONNECT_ACCEPT :: u8 where "NC_FRAME_CONNECT_ACCEPT = 0x02"
definition NC_FRAME_CONNECT_REDIRECT :: u8 where "NC_FRAME_CONNECT_REDIRECT = 0x03"
definition NC_FRAME_DISCONNECT :: u8 where "NC_FRAME_DISCONNECT = 0x04"
definition NC_FRAME_PING :: u8 where "NC_FRAME_PING = 0x05"
definition NC_FRAME_PONG :: u8 where "NC_FRAME_PONG = 0x06"
definition NC_FRAME_CHANNEL_OPEN :: u8 where "NC_FRAME_CHANNEL_OPEN = 0x07"
definition NC_FRAME_CHANNEL_CLOSE :: u8 where "NC_FRAME_CHANNEL_CLOSE = 0x08"
definition NC_FRAME_DATA :: u8 where "NC_FRAME_DATA = 0x09"
definition NC_FRAME_ACK :: u8 where "NC_FRAME_ACK = 0x0A"
definition NC_FRAME_WINDOW_UPDATE :: u8 where "NC_FRAME_WINDOW_UPDATE = 0x0B"

lemmas frame_codes = NC_FRAME_PADDING_def NC_FRAME_CONNECT_INIT_def NC_FRAME_CONNECT_ACCEPT_def
  NC_FRAME_CONNECT_REDIRECT_def NC_FRAME_DISCONNECT_def NC_FRAME_PING_def NC_FRAME_PONG_def
  NC_FRAME_CHANNEL_OPEN_def NC_FRAME_CHANNEL_CLOSE_def NC_FRAME_DATA_def NC_FRAME_ACK_def
  NC_FRAME_WINDOW_UPDATE_def

subsection \<open>Big-endian integers\<close>

definition wr16 :: "u16 \<Rightarrow> u8 list" where
  "wr16 v = [ucast (drop_bit 8 v), ucast v]"

definition wr32 :: "u32 \<Rightarrow> u8 list" where
  "wr32 v = [ucast (drop_bit 24 v), ucast (drop_bit 16 v), ucast (drop_bit 8 v), ucast v]"

text \<open>\<open>rd16(p + i)\<close> and \<open>rd32(p + i)\<close>.\<close>

definition rd16 :: "u8 list \<Rightarrow> nat \<Rightarrow> u16" where
  "rd16 p i = push_bit 8 (ucast (p ! i)) OR ucast (p ! (i + 1))"

definition rd32 :: "u8 list \<Rightarrow> nat \<Rightarrow> u32" where
  "rd32 p i = push_bit 24 (ucast (p ! i)) OR push_bit 16 (ucast (p ! (i + 1))) OR
     push_bit 8 (ucast (p ! (i + 2))) OR ucast (p ! (i + 3))"

lemma wr_length [simp]: "length (wr16 a) = 2" "length (wr32 b) = 4"
  by (simp_all add: wr16_def wr32_def)

lemma rd16_wr16: "rd16 (xs @ wr16 v @ ys) (length xs) = v"
  by (rule u16_eqI) (simp add: rd16_def wr16_def nth_append bits_at del: push_bit_Suc drop_bit_Suc)

lemma rd32_wr32: "rd32 (xs @ wr32 v @ ys) (length xs) = v"
  by (rule u32_eqI) (simp add: rd32_def wr32_def nth_append bits_at del: push_bit_Suc drop_bit_Suc)

end
