(* ===== verification/Nc_State.thy ===== *)
theory Nc_State
  imports Nc_Wire
begin

text \<open>
  The state of a netchan connection (\<^verbatim>\<open>src/netchan-auth/demo/netchan.c\<close>, \<^verbatim>\<open>netchan.h\<close>) and its
  bookkeeping: the buffer pool, the event queue, the control queue, channel slots.

  A C array is a function of its index; a pointer to a channel is its slot in \<open>chan_pool\<close>; the
  index of a pool buffer is an optional number, \<^const>\<open>None\<close> being \<open>NC_NOBUF\<close>. The stack of free
  buffers is a list whose head is its top. Time and random numbers come from the operating system:
  the connection carries the readings still to come as streams. The flag \<open>nc_ub\<close> has no counterpart
  in the code: it is raised where the C code would leave an array, divide by zero or shift out of
  range, and nothing reads it.
\<close>

subsection \<open>Limits\<close>

definition NC_EVENT_QUEUE :: nat where "NC_EVENT_QUEUE = 16"
definition NC_CTRL_BUF_SIZE :: nat where "NC_CTRL_BUF_SIZE = 1024"
definition NC_OUTGOING_SLOTS :: nat where "NC_OUTGOING_SLOTS = 64"
definition NC_RECV_QUEUE :: nat where "NC_RECV_QUEUE = 64"
definition NC_REORDER_SLOTS :: nat where "NC_REORDER_SLOTS = 64"
definition NC_FRAG_SLOTS :: nat where "NC_FRAG_SLOTS = 4"
definition NC_MAX_FRAGS :: nat where "NC_MAX_FRAGS = 32"
definition NC_MAX_CHAN :: nat where "NC_MAX_CHAN = 16"
definition NC_MAX_MSG :: nat where "NC_MAX_MSG = 2048"
definition NC_POOL_BUFS :: nat where "NC_POOL_BUFS = 64"

lemmas nc_limits = NC_EVENT_QUEUE_def NC_CTRL_BUF_SIZE_def NC_OUTGOING_SLOTS_def NC_RECV_QUEUE_def
  NC_REORDER_SLOTS_def NC_FRAG_SLOTS_def NC_MAX_FRAGS_def NC_MAX_CHAN_def NC_MAX_MSG_def
  NC_POOL_BUFS_def

definition NC_DEFAULT_MTU :: u32 where "NC_DEFAULT_MTU = 1200"
definition NC_DEFAULT_WINDOW :: u32 where "NC_DEFAULT_WINDOW = 65536"
definition NC_DEFAULT_IDLE_MS :: u32 where "NC_DEFAULT_IDLE_MS = 30000"
definition NC_DEFAULT_RT_MS :: u32 where "NC_DEFAULT_RT_MS = 100"
definition NC_MAX_RT_MS :: u32 where "NC_MAX_RT_MS = 1000"
definition NC_MAX_RT_ATTEMPTS :: u8 where "NC_MAX_RT_ATTEMPTS = 5"
definition NC_CONNECT_RETRY_MS :: u32 where "NC_CONNECT_RETRY_MS = 500"
definition NC_CONNECT_RETRIES :: u8 where "NC_CONNECT_RETRIES = 5"
definition NC_PING_INTERVAL_MS :: u32 where "NC_PING_INTERVAL_MS = 5000"

definition NETCHAN_OK :: int where "NETCHAN_OK = 0"
definition NETCHAN_ERR :: int where "NETCHAN_ERR = -1"
definition NETCHAN_ERR_NOMEM :: int where "NETCHAN_ERR_NOMEM = -2"
definition NETCHAN_ERR_AGAIN :: int where "NETCHAN_ERR_AGAIN = -3"
definition NETCHAN_ERR_CLOSED :: int where "NETCHAN_ERR_CLOSED = -4"
definition NETCHAN_ERR_FLOW :: int where "NETCHAN_ERR_FLOW = -5"
definition NETCHAN_ERR_PROTO :: int where "NETCHAN_ERR_PROTO = -6"
definition NETCHAN_ERR_TOOBIG :: int where "NETCHAN_ERR_TOOBIG = -7"

lemmas nc_errors = NETCHAN_OK_def NETCHAN_ERR_def NETCHAN_ERR_NOMEM_def NETCHAN_ERR_AGAIN_def
  NETCHAN_ERR_CLOSED_def NETCHAN_ERR_FLOW_def NETCHAN_ERR_PROTO_def NETCHAN_ERR_TOOBIG_def

text \<open>Channel types and directions arrive as bytes of the peer, so they stay numbers.\<close>

definition NETCHAN_RELIABLE :: nat where "NETCHAN_RELIABLE = 0"
definition NETCHAN_UNRELIABLE :: nat where "NETCHAN_UNRELIABLE = 1"
definition NETCHAN_DIR_SEND :: nat where "NETCHAN_DIR_SEND = 0"

datatype nc_conn_state =
  NETCHAN_STATE_NEW | NETCHAN_STATE_CONNECTING | NETCHAN_STATE_CONNECTED | NETCHAN_STATE_CLOSING
| NETCHAN_STATE_CLOSED

datatype nc_event_type =
  NETCHAN_EV_NONE | NETCHAN_EV_CONNECTED | NETCHAN_EV_DISCONNECTED | NETCHAN_EV_REDIRECT
| NETCHAN_EV_CHAN_OPEN | NETCHAN_EV_CHAN_CLOSE | NETCHAN_EV_DATA

subsection \<open>Records\<close>

text \<open>An address is the bytes in use; the empty list is the unset address.\<close>

type_synonym nc_addr = "u8 list"

record nc_outgoing =
  o_seq :: u16
  o_buf :: "nat option"
  o_len :: nat
  o_sent_ms :: u32
  o_attempts :: u8
  o_frag_sent :: u8
  o_frag_total :: u8
  o_active :: bool

record nc_recv_entry =
  re_buf :: "nat option"
  re_len :: nat

record nc_reorder =
  ro_seq :: u16
  ro_buf :: "nat option"
  ro_len :: nat
  ro_valid :: bool

record nc_frag_asm =
  fa_seq :: u16
  fa_total :: u8
  fa_have :: u8
  fa_bitmask :: u32
  fa_buf :: "nat option"
  fa_offsets :: "nat \<Rightarrow> nat"
  fa_active :: bool

text \<open>\<open>ch_role\<close> is 0 for the sender and 1 for the receiver; \<open>ch_state\<close> 0 opening, 1 open, 2 closing, 3 closed.\<close>

record netchan_chan =
  ch_id :: u8
  ch_type :: nat
  ch_dir :: nat
  ch_role :: nat
  ch_state :: nat
  ch_content_type :: "u8 list"
  ch_send_seq :: u16
  ch_send_window :: u32
  ch_in_flight :: u32
  ch_outgoing :: "nat \<Rightarrow> nc_outgoing"
  ch_out_head :: nat
  ch_out_tail :: nat
  ch_recv_seq :: u16
  ch_recv_window :: u32
  ch_recv_buffered :: u32
  ch_recv_queue :: "nat \<Rightarrow> nc_recv_entry"
  ch_rq_head :: nat
  ch_rq_tail :: nat
  ch_reorder :: "nat \<Rightarrow> nc_reorder"
  ch_frags :: "nat \<Rightarrow> nc_frag_asm"
  ch_need_ack :: bool
  ch_ack_seq :: u16
  ch_need_window_update :: bool
  ch_msgs_sent :: u32
  ch_msgs_acked :: u32
  ch_retransmissions :: u32
  ch_msgs_recv :: u32

record netchan_cfg =
  cfg_mtu :: u32
  cfg_chan_window :: u32
  cfg_idle_timeout_ms :: u32
  cfg_retransmit_ms :: u32

record netchan_event =
  ev_type :: nc_event_type
  ev_ch :: "nat option"
  ev_redirect_addr :: nc_addr
  ev_redirect_conn_id :: u32

record netchan_conn =
  c_local_id :: u32
  c_remote_id :: u32
  c_server :: bool
  c_state :: nc_conn_state
  c_peer_addr :: nc_addr
  c_next_pkt_num :: u16
  c_last_recv_ms :: u32
  c_last_send_ms :: u32
  c_connect_sent_ms :: u32
  c_connect_attempts :: u8
  c_ping_sent_ms :: u32
  c_ping_opaque :: u32
  c_rtt_ms :: u32
  c_rtt_min_ms :: u32
  c_pkts_sent :: u32
  c_pkts_recv :: u32
  c_cfg :: netchan_cfg
  c_channels :: "u8 \<Rightarrow> nat option"
  c_next_chan_id :: u8
  c_chan_pool :: "nat \<Rightarrow> netchan_chan"
  c_chan_used :: "nat \<Rightarrow> bool"
  c_pool_free :: "nat list"
  c_pool_store :: "nat \<Rightarrow> u8"
  c_events :: "nat \<Rightarrow> netchan_event"
  c_ev_head :: nat
  c_ev_tail :: nat
  c_ctrl_buf :: "u8 list"
  c_clock :: "nat \<Rightarrow> u32"
  c_entropy :: "nat \<Rightarrow> u32"
  nc_ub :: bool

text \<open>The zeroed records that \<open>memset\<close> and \<open>calloc\<close> leave.\<close>

definition zero_outgoing :: nc_outgoing where
  "zero_outgoing = \<lparr>o_seq = 0, o_buf = None, o_len = 0, o_sent_ms = 0, o_attempts = 0,
     o_frag_sent = 0, o_frag_total = 0, o_active = False\<rparr>"

definition zero_frag :: nc_frag_asm where
  "zero_frag = \<lparr>fa_seq = 0, fa_total = 0, fa_have = 0, fa_bitmask = 0, fa_buf = None,
     fa_offsets = (\<lambda>_. 0), fa_active = False\<rparr>"

definition zero_chan :: netchan_chan where
  "zero_chan = \<lparr>ch_id = 0, ch_type = 0, ch_dir = 0, ch_role = 0, ch_state = 0, ch_content_type = [],
     ch_send_seq = 0, ch_send_window = 0, ch_in_flight = 0, ch_outgoing = (\<lambda>_. zero_outgoing),
     ch_out_head = 0, ch_out_tail = 0, ch_recv_seq = 0, ch_recv_window = 0, ch_recv_buffered = 0,
     ch_recv_queue = (\<lambda>_. \<lparr>re_buf = None, re_len = 0\<rparr>), ch_rq_head = 0, ch_rq_tail = 0,
     ch_reorder = (\<lambda>_. \<lparr>ro_seq = 0, ro_buf = None, ro_len = 0, ro_valid = False\<rparr>),
     ch_frags = (\<lambda>_. zero_frag), ch_need_ack = False, ch_ack_seq = 0, ch_need_window_update = False,
     ch_msgs_sent = 0, ch_msgs_acked = 0, ch_retransmissions = 0, ch_msgs_recv = 0\<rparr>"

definition nc_zero_event :: netchan_event where
  "nc_zero_event = \<lparr>ev_type = NETCHAN_EV_NONE, ev_ch = None, ev_redirect_addr = [],
     ev_redirect_conn_id = 0\<rparr>"

subsection \<open>Time and random numbers\<close>

definition nc_now_ms :: "netchan_conn \<Rightarrow> u32 \<times> netchan_conn" where
  "nc_now_ms c = (c_clock c 0, c\<lparr>c_clock := \<lambda>n. c_clock c (n + 1)\<rparr>)"

text \<open>
  The first draw is what \<open>/dev/urandom\<close> gave (0 when it is not readable), the second the combined
  \<open>rand()\<close> values the code falls back on.
\<close>

definition nc_random_id :: "netchan_conn \<Rightarrow> u32 \<times> netchan_conn" where
  "nc_random_id c =
    (let id1 = c_entropy c 0; id2 = (if id1 = 0 then c_entropy c 1 else id1);
         id3 = (if id2 = 0 then 1 else id2)
     in (id3, c\<lparr>c_entropy := \<lambda>n. c_entropy c (n + 2)\<rparr>))"

subsection \<open>Message-buffer pool\<close>

definition pool_init :: "netchan_conn \<Rightarrow> netchan_conn" where
  "pool_init c = c\<lparr>c_pool_free := rev [0..<NC_POOL_BUFS]\<rparr>"

definition pool_get :: "netchan_conn \<Rightarrow> nat option \<times> netchan_conn" where
  "pool_get c = (case c_pool_free c of [] \<Rightarrow> (None, c) | b # bs \<Rightarrow> (Some b, c\<lparr>c_pool_free := bs\<rparr>))"

definition pool_put :: "nat option \<Rightarrow> netchan_conn \<Rightarrow> netchan_conn" where
  "pool_put idx c =
    (case idx of
       None \<Rightarrow> c
     | Some b \<Rightarrow> c\<lparr>c_pool_free := b # c_pool_free c,
                   nc_ub := nc_ub c \<or> NC_POOL_BUFS \<le> length (c_pool_free c)\<rparr>)"

text \<open>
  \<open>pool_store\<close> is one array, and a buffer is the \<open>NC_MAX_MSG\<close> bytes from \<open>pool_ptr\<close> on; a copy that
  runs past the end of its buffer reaches the next one, and the flag is raised only where it leaves
  the array. \<open>memcpy\<close> into and out of \<open>pool_ptr(c, idx) + off\<close>:
\<close>

definition pool_ptr :: "nat \<Rightarrow> nat" where
  "pool_ptr idx = idx * NC_MAX_MSG"

definition buf_write :: "nat option \<Rightarrow> nat \<Rightarrow> u8 list \<Rightarrow> netchan_conn \<Rightarrow> netchan_conn" where
  "buf_write idx off data c =
    (case idx of
       None \<Rightarrow> c\<lparr>nc_ub := True\<rparr>
     | Some b \<Rightarrow>
         let a = pool_ptr b + off in
         c\<lparr>c_pool_store := \<lambda>i. if a \<le> i \<and> i < a + length data then data ! (i - a) else c_pool_store c i,
           nc_ub := nc_ub c \<or> NC_POOL_BUFS * NC_MAX_MSG < a + length data\<rparr>)"

definition buf_read :: "nat option \<Rightarrow> nat \<Rightarrow> nat \<Rightarrow> netchan_conn \<Rightarrow> u8 list \<times> netchan_conn" where
  "buf_read idx off n c =
    (case idx of
       None \<Rightarrow> (replicate n 0, c\<lparr>nc_ub := True\<rparr>)
     | Some b \<Rightarrow>
         let a = pool_ptr b + off in
         (map (c_pool_store c) [a..<a + n],
          c\<lparr>nc_ub := nc_ub c \<or> NC_POOL_BUFS * NC_MAX_MSG < a + n\<rparr>))"

subsection \<open>Event queue\<close>

definition ev_put :: "netchan_event \<Rightarrow> netchan_conn \<Rightarrow> netchan_conn" where
  "ev_put e c =
    (let nxt = (c_ev_tail c + 1) mod NC_EVENT_QUEUE in
     if nxt = c_ev_head c then c
     else c\<lparr>c_events := (c_events c)(c_ev_tail c := e), c_ev_tail := nxt\<rparr>)"

definition ev_push :: "nc_event_type \<Rightarrow> nat option \<Rightarrow> netchan_conn \<Rightarrow> netchan_conn" where
  "ev_push ty ch c = ev_put (nc_zero_event\<lparr>ev_type := ty, ev_ch := ch\<rparr>) c"

definition ev_push_redirect :: "nc_addr \<Rightarrow> u32 \<Rightarrow> netchan_conn \<Rightarrow> netchan_conn" where
  "ev_push_redirect addr conn_id c =
    ev_put (nc_zero_event\<lparr>ev_type := NETCHAN_EV_REDIRECT, ev_redirect_addr := addr,
      ev_redirect_conn_id := conn_id\<rparr>) c"

definition netchan_poll :: "netchan_conn \<Rightarrow> netchan_event option \<times> netchan_conn" where
  "netchan_poll c =
    (if c_ev_head c = c_ev_tail c then (None, c)
     else (Some (c_events c (c_ev_head c)), c\<lparr>c_ev_head := (c_ev_head c + 1) mod NC_EVENT_QUEUE\<rparr>))"

subsection \<open>Control frame queue\<close>

text \<open>\<open>ctrl_reserve\<close> and the stores into the space it returned: all of the frame or none of it.\<close>

definition ctrl_append :: "u8 list \<Rightarrow> netchan_conn \<Rightarrow> netchan_conn" where
  "ctrl_append frame c =
    (if length (c_ctrl_buf c) + length frame > NC_CTRL_BUF_SIZE then c
     else c\<lparr>c_ctrl_buf := c_ctrl_buf c @ frame\<rparr>)"

definition ctrl_connect_init :: "netchan_conn \<Rightarrow> netchan_conn" where
  "ctrl_connect_init c =
    ctrl_append (NC_FRAME_CONNECT_INIT # wr32 (c_local_id c) @ [NC_VERSION]) c"

definition ctrl_connect_accept :: "netchan_conn \<Rightarrow> netchan_conn" where
  "ctrl_connect_accept c =
    ctrl_append (NC_FRAME_CONNECT_ACCEPT # wr32 (c_local_id c) @ [NC_VERSION] @
      wr32 (cfg_idle_timeout_ms (c_cfg c))) c"

definition ctrl_disconnect :: "u16 \<Rightarrow> netchan_conn \<Rightarrow> netchan_conn" where
  "ctrl_disconnect reason c = ctrl_append (NC_FRAME_DISCONNECT # wr16 reason) c"

definition ctrl_ping :: "u32 \<Rightarrow> netchan_conn \<Rightarrow> netchan_conn" where
  "ctrl_ping opaque c = ctrl_append (NC_FRAME_PING # wr32 opaque) c"

definition ctrl_pong :: "u32 \<Rightarrow> netchan_conn \<Rightarrow> netchan_conn" where
  "ctrl_pong opaque c = ctrl_append (NC_FRAME_PONG # wr32 opaque) c"

definition ctrl_channel_open :: "netchan_chan \<Rightarrow> netchan_conn \<Rightarrow> netchan_conn" where
  "ctrl_channel_open ch c =
    (let ct = take 63 (ch_content_type ch) in
     ctrl_append ([NC_FRAME_CHANNEL_OPEN, ch_id ch, of_nat (ch_type ch), of_nat (ch_dir ch),
       of_nat (length ct)] @ ct) c)"

definition ctrl_channel_close :: "u8 \<Rightarrow> u16 \<Rightarrow> netchan_conn \<Rightarrow> netchan_conn" where
  "ctrl_channel_close chan_id err c =
    ctrl_append ([NC_FRAME_CHANNEL_CLOSE, chan_id] @ wr16 err) c"

definition ctrl_window_update :: "u8 \<Rightarrow> u32 \<Rightarrow> netchan_conn \<Rightarrow> netchan_conn" where
  "ctrl_window_update chan_id window c =
    ctrl_append ([NC_FRAME_WINDOW_UPDATE, chan_id] @ wr32 window) c"

subsection \<open>Channels\<close>

text \<open>\<open>c->cfg.mtu - NC_HDR_FULL_SIZE - 8\<close> in unsigned arithmetic.\<close>

definition max_frag_payload :: "netchan_conn \<Rightarrow> nat" where
  "max_frag_payload c = unat (cfg_mtu (c_cfg c) - 7 - 8)"

definition chan_at :: "netchan_conn \<Rightarrow> nat \<Rightarrow> netchan_chan" where
  "chan_at c k = c_chan_pool c k"

definition upd_chan :: "nat \<Rightarrow> (netchan_chan \<Rightarrow> netchan_chan) \<Rightarrow> netchan_conn \<Rightarrow> netchan_conn" where
  "upd_chan k f c = c\<lparr>c_chan_pool := (c_chan_pool c)(k := f (c_chan_pool c k))\<rparr>"

text \<open>
  \<open>content_type\<close> is the C string up to its terminator; \<open>snprintf\<close> keeps 63 bytes of it. The result
  is the slot of the new channel.
\<close>

definition chan_new ::
    "u8 \<Rightarrow> nat \<Rightarrow> nat \<Rightarrow> nat \<Rightarrow> u8 list \<Rightarrow> netchan_conn \<Rightarrow> nat option \<times> netchan_conn" where
  "chan_new cid ty dir role content_type c =
    (case find (\<lambda>i. \<not> c_chan_used c i) [0..<NC_MAX_CHAN] of
       None \<Rightarrow> (None, c)
     | Some slot \<Rightarrow>
         (Some slot,
          c\<lparr>c_chan_pool := (c_chan_pool c)(slot := zero_chan\<lparr>ch_id := cid, ch_type := ty, ch_dir := dir,
               ch_role := role, ch_content_type := take 63 (takeWhile (\<lambda>b. b \<noteq> 0) content_type),
               ch_recv_window := cfg_chan_window (c_cfg c)\<rparr>),
            c_chan_used := (c_chan_used c)(slot := True),
            c_channels := (c_channels c)(cid := Some slot)\<rparr>))"

definition chan_free :: "nat option \<Rightarrow> netchan_conn \<Rightarrow> netchan_conn" where
  "chan_free ch c =
    (case ch of
       None \<Rightarrow> c
     | Some k \<Rightarrow>
         let s = chan_at c k;
             c = fold (\<lambda>i c. if o_active (ch_outgoing s i) then pool_put (o_buf (ch_outgoing s i)) c
                             else c) [0..<NC_OUTGOING_SLOTS] c;
             c = fold (\<lambda>i c. pool_put (re_buf (ch_recv_queue s i)) c) [0..<NC_RECV_QUEUE] c;
             c = fold (\<lambda>i c. pool_put (ro_buf (ch_reorder s i)) c) [0..<NC_REORDER_SLOTS] c;
             c = fold (\<lambda>i c. pool_put (fa_buf (ch_frags s i)) c) [0..<NC_FRAG_SLOTS] c
         in c\<lparr>c_channels := (c_channels c)(ch_id s := None), c_chan_used := (c_chan_used c)(k := False)\<rparr>)"

subsection \<open>Configuration and lifecycle\<close>

definition netchan_cfg_default :: netchan_cfg where
  "netchan_cfg_default = \<lparr>cfg_mtu = NC_DEFAULT_MTU, cfg_chan_window = NC_DEFAULT_WINDOW,
     cfg_idle_timeout_ms = NC_DEFAULT_IDLE_MS, cfg_retransmit_ms = NC_DEFAULT_RT_MS\<rparr>"

text \<open>\<open>netchan_open\<close> when the allocation succeeds, over given clock and entropy readings.\<close>

definition netchan_open :: "bool \<Rightarrow> (nat \<Rightarrow> u32) \<Rightarrow> (nat \<Rightarrow> u32) \<Rightarrow> netchan_conn" where
  "netchan_open server clock entropy =
    pool_init \<lparr>c_local_id = 0, c_remote_id = 0, c_server = server, c_state = NETCHAN_STATE_NEW,
      c_peer_addr = [], c_next_pkt_num = 0, c_last_recv_ms = 0, c_last_send_ms = 0,
      c_connect_sent_ms = 0, c_connect_attempts = 0, c_ping_sent_ms = 0, c_ping_opaque = 0,
      c_rtt_ms = 100, c_rtt_min_ms = 0, c_pkts_sent = 0, c_pkts_recv = 0, c_cfg = netchan_cfg_default,
      c_channels = (\<lambda>_. None), c_next_chan_id = (if server then 1 else 0),
      c_chan_pool = (\<lambda>_. zero_chan), c_chan_used = (\<lambda>_. False), c_pool_free = [],
      c_pool_store = (\<lambda>_. 0), c_events = (\<lambda>_. nc_zero_event), c_ev_head = 0, c_ev_tail = 0,
      c_ctrl_buf = [], c_clock = clock, c_entropy = entropy, nc_ub = False\<rparr>"

definition netchan_close :: "netchan_conn \<Rightarrow> netchan_conn" where
  "netchan_close c =
    (let c = (if c_state c = NETCHAN_STATE_CONNECTED then ctrl_disconnect 0 c else c)
     in fold (\<lambda>i c. chan_free (c_channels c (of_nat i)) c) [0..<256] c)"

definition netchan_config :: "netchan_cfg \<Rightarrow> netchan_conn \<Rightarrow> netchan_conn" where
  "netchan_config cfg c = c\<lparr>c_cfg := cfg\<rparr>"

definition netchan_state :: "netchan_conn \<Rightarrow> nc_conn_state" where
  "netchan_state c = c_state c"

definition netchan_id :: "netchan_conn \<Rightarrow> u32" where
  "netchan_id c = c_local_id c"

definition netchan_connect :: "nc_addr \<Rightarrow> netchan_conn \<Rightarrow> netchan_conn \<times> int" where
  "netchan_connect addr c =
    (if c_server c \<or> c_state c \<noteq> NETCHAN_STATE_NEW then (c, NETCHAN_ERR)
     else
       let (lid, c) = nc_random_id c;
           c = ctrl_connect_init (c\<lparr>c_local_id := lid, c_peer_addr := addr,
                 c_state := NETCHAN_STATE_CONNECTING\<rparr>);
           (now, c) = nc_now_ms c
       in (c\<lparr>c_connect_sent_ms := now, c_connect_attempts := 1\<rparr>, NETCHAN_OK))"

definition netchan_accept :: "netchan_conn \<Rightarrow> netchan_conn \<times> int" where
  "netchan_accept c =
    (if \<not> c_server c \<or> c_state c \<noteq> NETCHAN_STATE_CONNECTING then (c, NETCHAN_ERR)
     else (ev_push NETCHAN_EV_CONNECTED None
             ((ctrl_connect_accept c)\<lparr>c_state := NETCHAN_STATE_CONNECTED\<rparr>), NETCHAN_OK))"

end
