(* ===== verification/Nc_Recv.thy ===== *)
theory Nc_Recv
  imports Nc_State
begin

text \<open>
  The receiving half of \<^verbatim>\<open>src/netchan-auth/demo/netchan.c\<close>: delivery into a channel's receive
  queue, the reorder window, fragment reassembly, one function per frame type, the frame parser and
  \<open>netchan_feed\<close>. A handler gets the rest of the packet, from its own type byte on, and returns the
  connection and the C \<open>int\<close>: the number of bytes it used, or an error below 0.
\<close>

subsection \<open>Delivery\<close>

definition chan_recv_enqueue :: "nat \<Rightarrow> u8 list \<Rightarrow> netchan_conn \<Rightarrow> netchan_conn \<times> int" where
  "chan_recv_enqueue k data c =
    (let nxt = (ch_rq_tail (chan_at c k) + 1) mod NC_RECV_QUEUE in
     if nxt = ch_rq_head (chan_at c k) then (c, NETCHAN_ERR)
     else if length data > NC_MAX_MSG then (c, NETCHAN_ERR_TOOBIG)
     else
       case pool_get c of
         (None, c) \<Rightarrow> (c, NETCHAN_ERR_NOMEM)
       | (Some b, c) \<Rightarrow>
           (upd_chan k (\<lambda>ch. ch\<lparr>
                ch_recv_queue := (ch_recv_queue ch)(ch_rq_tail ch := \<lparr>re_buf = Some b, re_len = length data\<rparr>),
                ch_rq_tail := nxt,
                ch_recv_buffered := ch_recv_buffered ch + of_nat (length data),
                ch_msgs_recv := ch_msgs_recv ch + 1\<rparr>)
              (buf_write (Some b) 0 data c), NETCHAN_OK))"

text \<open>One turn of the loop in \<open>chan_deliver_reordered\<close>, whose guard is \<open>reordered_ready\<close>.\<close>

definition reordered_ready :: "netchan_chan \<Rightarrow> bool" where
  "reordered_ready ch =
    (let r = ch_reorder ch (unat (ch_recv_seq ch) mod NC_REORDER_SLOTS)
     in ro_valid r \<and> ro_seq r = ch_recv_seq ch)"

definition deliver_one :: "nat \<Rightarrow> netchan_conn \<Rightarrow> netchan_conn" where
  "deliver_one k c =
    (let slot = unat (ch_recv_seq (chan_at c k)) mod NC_REORDER_SLOTS;
         r = ch_reorder (chan_at c k) slot;
         (data, c) = buf_read (ro_buf r) 0 (ro_len r) c;
         c = fst (chan_recv_enqueue k data c);
         c = ev_push NETCHAN_EV_DATA (Some k) c;
         c = pool_put (ro_buf r) c
     in upd_chan k (\<lambda>ch. ch\<lparr>ch_reorder := (ch_reorder ch)(slot := r\<lparr>ro_buf := None, ro_valid := False\<rparr>),
          ch_recv_seq := ch_recv_seq ch + 1\<rparr>) c)"

text \<open>
  Every turn empties one of the \<open>NC_REORDER_SLOTS\<close> slots, so that many turns always suffice: the
  loop has then ended by its own test (\<open>deliver_reordered_done\<close> below).
\<close>

fun deliver_loop :: "nat \<Rightarrow> nat \<Rightarrow> netchan_conn \<Rightarrow> netchan_conn" where
  "deliver_loop 0 k c = c"
| "deliver_loop (Suc n) k c =
    (if reordered_ready (chan_at c k) then deliver_loop n k (deliver_one k c) else c)"

definition chan_deliver_reordered :: "nat \<Rightarrow> netchan_conn \<Rightarrow> netchan_conn" where
  "chan_deliver_reordered k c = deliver_loop NC_REORDER_SLOTS k c"

subsection \<open>Fragment reassembly\<close>

definition frag_find :: "netchan_chan \<Rightarrow> u16 \<Rightarrow> nat option" where
  "frag_find ch seq = find (\<lambda>i. fa_active (ch_frags ch i) \<and> fa_seq (ch_frags ch i) = seq) [0..<NC_FRAG_SLOTS]"

definition frag_alloc :: "nat \<Rightarrow> u16 \<Rightarrow> u8 \<Rightarrow> netchan_conn \<Rightarrow> nat option \<times> netchan_conn" where
  "frag_alloc k seq tot c =
    (if unat tot > NC_MAX_FRAGS then (None, c)
     else
       case find (\<lambda>i. \<not> fa_active (ch_frags (chan_at c k) i)) [0..<NC_FRAG_SLOTS] of
         None \<Rightarrow> (None, c)
       | Some i \<Rightarrow>
           case pool_get c of
             (None, c) \<Rightarrow> (None, c)
           | (Some b, c) \<Rightarrow>
               (Some i, upd_chan k (\<lambda>ch. ch\<lparr>ch_frags := (ch_frags ch)(i := zero_frag\<lparr>fa_seq := seq,
                    fa_total := tot, fa_active := True, fa_buf := Some b\<rparr>)\<rparr>) c))"

definition frag_free :: "nat \<Rightarrow> nat \<Rightarrow> netchan_conn \<Rightarrow> netchan_conn" where
  "frag_free k j c =
    upd_chan k (\<lambda>ch. ch\<lparr>ch_frags := (ch_frags ch)(j := zero_frag)\<rparr>)
      (pool_put (fa_buf (ch_frags (chan_at c k) j)) c)"

text \<open>
  Compaction: fragment \<open>i\<close> moves from \<open>base + i * fp\<close> to the end of the bytes gathered so far. A
  \<open>memmove\<close> reads all its bytes before it writes. The result is the length of the message.
\<close>

definition frag_move :: "nat \<Rightarrow> nc_frag_asm \<Rightarrow> nat \<Rightarrow> nat \<times> netchan_conn \<Rightarrow> nat \<times> netchan_conn" where
  "frag_move fp f i s =
    (let (pos, c) = s;
         c = (if pos \<noteq> i * fp then
                let (data, c) = buf_read (fa_buf f) (i * fp) (fa_offsets f i) c
                in buf_write (fa_buf f) pos data c
              else c)
     in (pos + fa_offsets f i, c))"

definition frag_compact :: "nc_frag_asm \<Rightarrow> netchan_conn \<Rightarrow> nat \<times> netchan_conn" where
  "frag_compact f c = fold (frag_move (max_frag_payload c) f) [0..<unat (fa_total f)] (0, c)"

text \<open>
  The part of \<open>process_data\<close> that the reliable and the unreliable branch share: find or allocate the
  reassembly slot, store the fragment unless it is out of range or already there, and compact the
  message once it is complete. The first component is the slot and the length of a complete message.
\<close>

definition frag_store ::
    "nat \<Rightarrow> u16 \<Rightarrow> u8 \<Rightarrow> u8 \<Rightarrow> u8 list \<Rightarrow> netchan_conn \<Rightarrow> (nat \<times> nat) option \<times> netchan_conn" where
  "frag_store k seq frag_idx frag_total payload c =
    (let (slot, c) = (case frag_find (chan_at c k) seq of
                        Some j \<Rightarrow> (Some j, c) | None \<Rightarrow> frag_alloc k seq frag_total c) in
     case slot of
       None \<Rightarrow> (None, c)
     | Some j \<Rightarrow>
         let f = ch_frags (chan_at c k) j in
         if frag_idx < fa_total f \<and> \<not> bit (fa_bitmask f) (unat frag_idx) then
           let off = unat frag_idx * max_frag_payload c in
           if off + length payload \<le> NC_MAX_MSG then
             let c = buf_write (fa_buf f) off payload c;
                 f = f\<lparr>fa_offsets := (fa_offsets f)(unat frag_idx := length payload),
                       fa_bitmask := fa_bitmask f OR push_bit (unat frag_idx) 1,
                       fa_have := fa_have f + 1\<rparr>;
                 c = upd_chan k (\<lambda>ch. ch\<lparr>ch_frags := (ch_frags ch)(j := f)\<rparr>) c
             in if fa_have f = fa_total f then
                  let (pos, c) = frag_compact f c in (Some (j, pos), c)
                else (None, c)
           else (None, c)
         else (None, c))"

subsection \<open>Frames of the connection\<close>

definition process_connect_init :: "u8 list \<Rightarrow> netchan_conn \<Rightarrow> netchan_conn \<times> int" where
  "process_connect_init p c =
    (if length p < 6 then (c, NETCHAN_ERR_PROTO)
     else if \<not> c_server c then (c, NETCHAN_ERR_PROTO)
     else if p ! 5 \<noteq> NC_VERSION then (c, NETCHAN_ERR_PROTO)
     else
       let c = c\<lparr>c_remote_id := rd32 p 1\<rparr> in
       if c_state c = NETCHAN_STATE_NEW then
         let (lid, c) = nc_random_id c
         in (c\<lparr>c_local_id := lid, c_state := NETCHAN_STATE_CONNECTING\<rparr>, 6)
       else (c, 6))"

definition process_connect_accept :: "u8 list \<Rightarrow> netchan_conn \<Rightarrow> netchan_conn \<times> int" where
  "process_connect_accept p c =
    (if length p < 10 then (c, NETCHAN_ERR_PROTO)
     else if c_server c then (c, NETCHAN_ERR_PROTO)
     else (ev_push NETCHAN_EV_CONNECTED None
             (c\<lparr>c_remote_id := rd32 p 1, c_state := NETCHAN_STATE_CONNECTED\<rparr>), 10))"

definition process_connect_redirect :: "u8 list \<Rightarrow> netchan_conn \<Rightarrow> netchan_conn \<times> int" where
  "process_connect_redirect p c =
    (if length p < 12 then (c, NETCHAN_ERR_PROTO)
     else if p ! 5 = 4 then
       (ev_push_redirect (4 # take 4 (drop 6 p) @ take 2 (drop 10 p)) (rd32 p 1) c, 12)
     else if p ! 5 = 6 then
       if length p < 24 then (c, NETCHAN_ERR_PROTO)
       else (ev_push_redirect (6 # take 16 (drop 6 p) @ take 2 (drop 22 p)) (rd32 p 1) c, 24)
     else (c, NETCHAN_ERR_PROTO))"

definition process_disconnect :: "u8 list \<Rightarrow> netchan_conn \<Rightarrow> netchan_conn \<times> int" where
  "process_disconnect p c =
    (if length p < 3 then (c, NETCHAN_ERR_PROTO)
     else (ev_push NETCHAN_EV_DISCONNECTED None (c\<lparr>c_state := NETCHAN_STATE_CLOSED\<rparr>), 3))"

definition process_ping :: "u8 list \<Rightarrow> netchan_conn \<Rightarrow> netchan_conn \<times> int" where
  "process_ping p c =
    (if length p < 5 then (c, NETCHAN_ERR_PROTO) else (ctrl_pong (rd32 p 1) c, 5))"

definition process_pong :: "u8 list \<Rightarrow> netchan_conn \<Rightarrow> netchan_conn \<times> int" where
  "process_pong p c =
    (if length p < 5 then (c, NETCHAN_ERR_PROTO)
     else if rd32 p 1 = c_ping_opaque c \<and> c_ping_sent_ms c \<noteq> 0 then
       let (now, c) = nc_now_ms c;
           rtt = now - c_ping_sent_ms c
       in (c\<lparr>c_rtt_ms := rtt,
             c_rtt_min_ms := (if c_rtt_min_ms c = 0 \<or> rtt < c_rtt_min_ms c then rtt else c_rtt_min_ms c),
             c_ping_sent_ms := 0\<rparr>, 5)
     else (c, 5))"

subsection \<open>Frames of a channel\<close>

definition process_channel_open :: "u8 list \<Rightarrow> netchan_conn \<Rightarrow> netchan_conn \<times> int" where
  "process_channel_open p c =
    (if length p < 5 then (c, NETCHAN_ERR_PROTO)
     else
       let chan_id = p ! 1; ty = unat (p ! 2); dir = unat (p ! 3); ct_len = unat (p ! 4) in
       if length p < 5 + ct_len then (c, NETCHAN_ERR_PROTO)
       else if c_channels c chan_id \<noteq> None then (ctrl_channel_close chan_id 1 c, int (5 + ct_len))
       else
         let local_role = (if dir = NETCHAN_DIR_SEND then 1 else 0);
             ct = take (min ct_len 63) (drop 5 p)
         in case chan_new chan_id ty dir local_role ct c of
              (None, c) \<Rightarrow> (ctrl_channel_close chan_id 1 c, int (5 + ct_len))
            | (Some k, c) \<Rightarrow>
                let c = upd_chan k (\<lambda>ch. ch\<lparr>ch_state := 1\<rparr>) c;
                    c = (if local_role = (1::nat)
                         then ctrl_window_update chan_id (ch_recv_window (chan_at c k)) c else c)
                in (ev_push NETCHAN_EV_CHAN_OPEN (Some k) c, int (5 + ct_len)))"

definition process_channel_close :: "u8 list \<Rightarrow> netchan_conn \<Rightarrow> netchan_conn \<times> int" where
  "process_channel_close p c =
    (if length p < 4 then (c, NETCHAN_ERR_PROTO)
     else
       case c_channels c (p ! 1) of
         None \<Rightarrow> (c, 4)
       | Some k \<Rightarrow> (ev_push NETCHAN_EV_CHAN_CLOSE (Some k) (upd_chan k (\<lambda>ch. ch\<lparr>ch_state := 3\<rparr>) c), 4))"

text \<open>A message ahead of its turn waits in the reorder window if it is within it and its slot is free.\<close>

definition reorder_store :: "nat \<Rightarrow> u16 \<Rightarrow> u8 list \<Rightarrow> netchan_conn \<Rightarrow> netchan_conn" where
  "reorder_store k seq data c =
    (let diff = sint (seq - ch_recv_seq (chan_at c k)); slot = unat seq mod NC_REORDER_SLOTS in
     if 0 < diff \<and> diff < int NC_REORDER_SLOTS then
       if \<not> ro_valid (ch_reorder (chan_at c k) slot) \<and> length data \<le> NC_MAX_MSG then
         case pool_get c of
           (None, c) \<Rightarrow> c
         | (Some b, c) \<Rightarrow>
             upd_chan k (\<lambda>ch. ch\<lparr>ch_reorder := (ch_reorder ch)(slot := \<lparr>ro_seq = seq, ro_buf = Some b,
                 ro_len = length data, ro_valid = True\<rparr>)\<rparr>) (buf_write (Some b) 0 data c)
       else c
     else c)"

text \<open>A whole reliable message: delivered with its successors when it is the next, else kept.\<close>

definition reliable_message :: "nat \<Rightarrow> u16 \<Rightarrow> u8 list \<Rightarrow> netchan_conn \<Rightarrow> netchan_conn" where
  "reliable_message k seq data c =
    (if seq = ch_recv_seq (chan_at c k) then
       let c = fst (chan_recv_enqueue k data c);
           c = ev_push NETCHAN_EV_DATA (Some k) c;
           c = upd_chan k (\<lambda>ch. ch\<lparr>ch_recv_seq := ch_recv_seq ch + 1\<rparr>) c
       in chan_deliver_reordered k c
     else reorder_store k seq data c)"

definition data_unreliable :: "nat \<Rightarrow> u16 \<Rightarrow> u8 \<Rightarrow> u8 \<Rightarrow> u8 list \<Rightarrow> netchan_conn \<Rightarrow> netchan_conn" where
  "data_unreliable k seq frag_idx frag_total payload c =
    (if frag_total \<le> 1 then
       ev_push NETCHAN_EV_DATA (Some k) (fst (chan_recv_enqueue k payload c))
     else
       case frag_store k seq frag_idx frag_total payload c of
         (None, c) \<Rightarrow> c
       | (Some (j, pos), c) \<Rightarrow>
           let (data, c) = buf_read (fa_buf (ch_frags (chan_at c k) j)) 0 pos c;
               c = ev_push NETCHAN_EV_DATA (Some k) (fst (chan_recv_enqueue k data c))
           in frag_free k j c)"

definition data_reliable :: "nat \<Rightarrow> u16 \<Rightarrow> u8 \<Rightarrow> u8 \<Rightarrow> u8 list \<Rightarrow> netchan_conn \<Rightarrow> netchan_conn" where
  "data_reliable k seq frag_idx frag_total payload c =
    (let c = (if frag_total \<le> 1 then reliable_message k seq payload c
              else
                case frag_store k seq frag_idx frag_total payload c of
                  (None, c) \<Rightarrow> c
                | (Some (j, pos), c) \<Rightarrow>
                    let (data, c) = buf_read (fa_buf (ch_frags (chan_at c k) j)) 0 pos c
                    in frag_free k j (reliable_message k seq data c))
     in upd_chan k (\<lambda>ch. ch\<lparr>ch_need_ack := True,
          ch_ack_seq := (if 0 < ch_recv_seq ch then ch_recv_seq ch - 1 else 0)\<rparr>) c)"

definition process_data :: "u8 list \<Rightarrow> netchan_conn \<Rightarrow> netchan_conn \<times> int" where
  "process_data p c =
    (if length p < 8 then (c, NETCHAN_ERR_PROTO)
     else
       let chan_id = p ! 1; seq = rd16 p 2; data_len = unat (rd16 p 4);
           frag_idx = p ! 6; frag_total = p ! 7 in
       if length p < 8 + data_len then (c, NETCHAN_ERR_PROTO)
       else
         let payload = take data_len (drop 8 p) in
         case c_channels c chan_id of
           None \<Rightarrow> (c, int (8 + data_len))
         | Some k \<Rightarrow>
             if ch_role (chan_at c k) \<noteq> 1 then (c, int (8 + data_len))
             else if ch_type (chan_at c k) = NETCHAN_UNRELIABLE then
               (data_unreliable k seq frag_idx frag_total payload c, int (8 + data_len))
             else (data_reliable k seq frag_idx frag_total payload c, int (8 + data_len)))"

text \<open>The two loops of \<open>process_ack\<close>; the second one is shared with \<open>netchan_send_next\<close>.\<close>

definition ack_slot :: "nat \<Rightarrow> u16 \<Rightarrow> nat \<Rightarrow> netchan_conn \<Rightarrow> netchan_conn" where
  "ack_slot k acked_seq i c =
    (let ou = ch_outgoing (chan_at c k) i in
     if o_active ou \<and> sint (o_seq ou - acked_seq) \<le> 0 then
       upd_chan k (\<lambda>ch. ch\<lparr>ch_in_flight := ch_in_flight ch - of_nat (o_len ou),
           ch_msgs_acked := ch_msgs_acked ch + 1,
           ch_outgoing := (ch_outgoing ch)(i := ou\<lparr>o_buf := None, o_active := False\<rparr>)\<rparr>)
         (pool_put (o_buf ou) c)
     else c)"

fun advance_loop :: "nat \<Rightarrow> netchan_chan \<Rightarrow> netchan_chan" where
  "advance_loop 0 ch = ch"
| "advance_loop (Suc n) ch =
    (if ch_out_head ch \<noteq> ch_out_tail ch \<and> \<not> o_active (ch_outgoing ch (ch_out_head ch))
     then advance_loop n (ch\<lparr>ch_out_head := (ch_out_head ch + 1) mod NC_OUTGOING_SLOTS\<rparr>)
     else ch)"

definition advance_head :: "netchan_chan \<Rightarrow> netchan_chan" where
  "advance_head ch = advance_loop NC_OUTGOING_SLOTS ch"

definition process_ack :: "u8 list \<Rightarrow> netchan_conn \<Rightarrow> netchan_conn \<times> int" where
  "process_ack p c =
    (if length p < 4 then (c, NETCHAN_ERR_PROTO)
     else
       case c_channels c (p ! 1) of
         None \<Rightarrow> (c, 4)
       | Some k \<Rightarrow>
           if ch_role (chan_at c k) \<noteq> 0 then (c, 4)
           else (upd_chan k advance_head (fold (ack_slot k (rd16 p 2)) [0..<NC_OUTGOING_SLOTS] c), 4))"

definition process_window_update :: "u8 list \<Rightarrow> netchan_conn \<Rightarrow> netchan_conn \<times> int" where
  "process_window_update p c =
    (if length p < 6 then (c, NETCHAN_ERR_PROTO)
     else
       case c_channels c (p ! 1) of
         None \<Rightarrow> (c, 6)
       | Some k \<Rightarrow>
           if ch_role (chan_at c k) = 0 then
             (upd_chan k (\<lambda>ch. ch\<lparr>ch_send_window := rd32 p 2,
                ch_state := (if ch_state ch = 0 then 1 else ch_state ch)\<rparr>) c, 6)
           else (c, 6))"

subsection \<open>Packets\<close>

definition process_frame :: "u8 list \<Rightarrow> netchan_conn \<Rightarrow> netchan_conn \<times> int" where
  "process_frame p c =
    (let ty = hd p in
     if ty = NC_FRAME_CONNECT_INIT then process_connect_init p c
     else if ty = NC_FRAME_CONNECT_ACCEPT then process_connect_accept p c
     else if ty = NC_FRAME_CONNECT_REDIRECT then process_connect_redirect p c
     else if ty = NC_FRAME_DISCONNECT then process_disconnect p c
     else if ty = NC_FRAME_PING then process_ping p c
     else if ty = NC_FRAME_PONG then process_pong p c
     else if ty = NC_FRAME_CHANNEL_OPEN then process_channel_open p c
     else if ty = NC_FRAME_CHANNEL_CLOSE then process_channel_close p c
     else if ty = NC_FRAME_DATA then process_data p c
     else if ty = NC_FRAME_ACK then process_ack p c
     else if ty = NC_FRAME_WINDOW_UPDATE then process_window_update p c
     else (c, NETCHAN_ERR_PROTO))"

lemmas frame_handlers = process_connect_init_def process_connect_accept_def
  process_connect_redirect_def process_disconnect_def process_ping_def process_pong_def
  process_channel_open_def process_channel_close_def process_data_def process_ack_def
  process_window_update_def

text \<open>A handler fails, or uses at least its type byte and never more than the packet has left.\<close>

definition frame_used :: "u8 list \<Rightarrow> int \<Rightarrow> bool" where
  "frame_used p n \<longleftrightarrow> n < 0 \<or> 0 < n \<and> nat n \<le> length p"

lemma frame_used_int: "frame_used p (int n) \<longleftrightarrow> 0 < n \<and> n \<le> length p"
  by (simp add: frame_used_def)

lemma frame_used_var [simp]:
  "frame_used p (5 + uint (a :: u8)) \<longleftrightarrow> 5 + unat a \<le> length p"
  "frame_used p (8 + uint (b :: u16)) \<longleftrightarrow> 8 + unat b \<le> length p"
  using frame_used_int [of p "5 + unat a"] frame_used_int [of p "8 + unat b"] by simp_all

lemma frame_used_const [simp]:
  "frame_used p (numeral n) \<longleftrightarrow> numeral n \<le> length p" "frame_used p NETCHAN_ERR_PROTO"
  by (simp_all add: frame_used_def NETCHAN_ERR_PROTO_def)

lemma handler_consumes:
  "frame_used p (snd (process_connect_init p c))"
  "frame_used p (snd (process_connect_accept p c))"
  "frame_used p (snd (process_connect_redirect p c))"
  "frame_used p (snd (process_disconnect p c))"
  "frame_used p (snd (process_ping p c))"
  "frame_used p (snd (process_pong p c))"
  "frame_used p (snd (process_channel_open p c))"
  "frame_used p (snd (process_channel_close p c))"
  "frame_used p (snd (process_data p c))"
  "frame_used p (snd (process_ack p c))"
  "frame_used p (snd (process_window_update p c))"
  by (auto simp: frame_handlers Let_def split: if_splits prod.splits option.splits)

lemma process_frame_consumes: "frame_used p (snd (process_frame p c))"
  unfolding process_frame_def Let_def by (simp add: handler_consumes)

function parse_frames :: "u8 list \<Rightarrow> netchan_conn \<Rightarrow> netchan_conn \<times> int" where
  "parse_frames [] c = (c, NETCHAN_OK)"
| "parse_frames (b # rest) c =
    (if b = NC_FRAME_PADDING then parse_frames rest c
     else
       let (c', consumed) = process_frame (b # rest) c in
       if consumed < 0 then (c', consumed) else parse_frames (drop (nat consumed) (b # rest)) c')"
  by pat_completeness auto

termination
proof (relation "measure (\<lambda>(p, c). length p)", goal_cases)
  case (3 b rest c r c' consumed)
  then have "process_frame (b # rest) c = (c', consumed)"
    by simp
  with 3 process_frame_consumes [of "b # rest" c] show ?case
    by (auto simp: frame_used_def)
qed auto

text \<open>Only the first frame of the packet is looked at: the loop of the code breaks in its first turn.\<close>

definition validate_migration :: "u8 list \<Rightarrow> netchan_conn \<Rightarrow> bool" where
  "validate_migration frames c =
    (case frames of
       [] \<Rightarrow> False
     | ftype # _ \<Rightarrow>
         (ftype = NC_FRAME_DATA \<and> 4 \<le> length frames \<and> c_channels c (frames ! 1) \<noteq> None) \<or>
         (ftype = NC_FRAME_ACK \<and> 2 \<le> length frames \<and> c_channels c (frames ! 1) \<noteq> None))"

definition netchan_peek_id :: "u8 list \<Rightarrow> u32" where
  "netchan_peek_id p = (if length p < NC_HDR_INIT_SIZE then 0 else rd32 p 1)"

text \<open>The sender's address is the empty list when the caller passes none.\<close>

definition netchan_feed :: "u8 list \<Rightarrow> nc_addr \<Rightarrow> netchan_conn \<Rightarrow> netchan_conn \<times> int" where
  "netchan_feed p from c =
    (if length p < NC_HDR_INIT_SIZE then (c, NETCHAN_ERR_PROTO)
     else
       let init = (p ! 0 AND NC_PKT_FLAG_INIT \<noteq> 0); conn_id = rd32 p 1 in
       if \<not> init \<and> length p < NC_HDR_FULL_SIZE then (c, NETCHAN_ERR_PROTO)
       else if \<not> init \<and> conn_id \<noteq> c_local_id c then (c, NETCHAN_ERR_PROTO)
       else
         let frames = drop (if init then NC_HDR_INIT_SIZE else NC_HDR_FULL_SIZE) p;
             c = (if from \<noteq> [] \<and> c_peer_addr c \<noteq> [] \<and> c_state c = NETCHAN_STATE_CONNECTED \<and>
                     from \<noteq> c_peer_addr c \<and> validate_migration frames c
                  then c\<lparr>c_peer_addr := from\<rparr> else c);
             c = (if c_peer_addr c = [] \<and> from \<noteq> [] then c\<lparr>c_peer_addr := from\<rparr> else c);
             (now, c) = nc_now_ms c
         in parse_frames frames (c\<lparr>c_last_recv_ms := now, c_pkts_recv := c_pkts_recv c + 1\<rparr>))"

end
