(* ===== verification/Nc_Send.thy ===== *)
theory Nc_Send
  imports Nc_Recv
begin

text \<open>
  The sending half of \<^verbatim>\<open>src/netchan-auth/demo/netchan.c\<close>: \<open>netchan_send_next\<close>, the timers of
  \<open>netchan_service\<close>, the channel calls and the counters. The packet under construction is the list of
  the bytes written so far, so that its length is the \<open>pos\<close> of the code. A loop over the channel
  table that can stop early is a recursion over the list of identifiers still to visit.
\<close>

subsection \<open>Choosing what to send\<close>

text \<open>The window \<open>[out_head, out_tail)\<close> has fewer than \<open>NC_OUTGOING_SLOTS\<close> entries, the turns given.\<close>

fun sendable_loop :: "nat \<Rightarrow> nat \<Rightarrow> netchan_chan \<Rightarrow> nat option" where
  "sendable_loop 0 idx ch = None"
| "sendable_loop (Suc n) idx ch =
    (if idx = ch_out_tail ch then None
     else if o_active (ch_outgoing ch idx) \<and> o_frag_sent (ch_outgoing ch idx) < o_frag_total (ch_outgoing ch idx)
     then Some idx
     else sendable_loop n ((idx + 1) mod NC_OUTGOING_SLOTS) ch)"

definition chan_next_sendable :: "netchan_chan \<Rightarrow> nat option" where
  "chan_next_sendable ch = sendable_loop NC_OUTGOING_SLOTS (ch_out_head ch) ch"

definition nc_has_data :: "netchan_conn \<Rightarrow> bool" where
  "nc_has_data c =
    (c_ctrl_buf c \<noteq> [] \<or>
     list_ex (\<lambda>i. case c_channels c (of_nat i) of
          None \<Rightarrow> False
        | Some k \<Rightarrow>
            let ch = chan_at c k in
            ch_role ch = 0 \<and>
            (ch_state ch = 1 \<and> chan_next_sendable ch \<noteq> None \<or> ch_need_ack ch \<or> ch_need_window_update ch))
       [0..<256] \<or>
     list_ex (\<lambda>i. case c_channels c (of_nat i) of
          None \<Rightarrow> False
        | Some k \<Rightarrow>
            let ch = chan_at c k in
            ch_role ch = 1 \<and> (ch_need_ack ch \<or> ch_need_window_update ch))
       [0..<256])"

subsection \<open>Building a packet\<close>

definition send_header :: "netchan_conn \<Rightarrow> u8 list \<times> netchan_conn" where
  "send_header c =
    (if c_state c = NETCHAN_STATE_CONNECTING \<and> \<not> c_server c
     then (NC_PKT_FLAG_INIT # wr32 (c_local_id c), c)
     else (NC_PKT_FLAG_PKTNUM # wr32 (c_remote_id c) @ wr16 (c_next_pkt_num c),
           c\<lparr>c_next_pkt_num := c_next_pkt_num c + 1\<rparr>))"

text \<open>
  When the MTU is below the header size, \<open>mtu - pos\<close> wraps around to a huge \<open>size_t\<close> and the whole
  queue is copied, wherever the buffer of \<open>buflen\<close> bytes ends.
\<close>

definition flush_ctrl :: "nat \<Rightarrow> nat \<Rightarrow> u8 list \<times> netchan_conn \<Rightarrow> u8 list \<times> netchan_conn" where
  "flush_ctrl buflen mtu s =
    (let (p, c) = s;
         n = (if length p \<le> mtu then min (length (c_ctrl_buf c)) (mtu - length p)
              else length (c_ctrl_buf c))
     in (p @ take n (c_ctrl_buf c),
         c\<lparr>c_ctrl_buf := drop n (c_ctrl_buf c), nc_ub := nc_ub c \<or> buflen < length p + n\<rparr>))"

definition put_ack :: "nat \<Rightarrow> nat \<Rightarrow> u8 list \<times> netchan_conn \<Rightarrow> u8 list \<times> netchan_conn" where
  "put_ack mtu k s =
    (let (p, c) = s; ch = chan_at c k in
     if ch_need_ack ch \<and> length p + 4 \<le> mtu then
       (p @ [NC_FRAME_ACK, ch_id ch] @ wr16 (ch_ack_seq ch), upd_chan k (\<lambda>ch. ch\<lparr>ch_need_ack := False\<rparr>) c)
     else s)"

definition put_window :: "nat \<Rightarrow> nat \<Rightarrow> u8 list \<times> netchan_conn \<Rightarrow> u8 list \<times> netchan_conn" where
  "put_window mtu k s =
    (let (p, c) = s; ch = chan_at c k in
     if ch_need_window_update ch \<and> length p + 6 \<le> mtu then
       (p @ [NC_FRAME_WINDOW_UPDATE, ch_id ch] @
          wr32 (if ch_recv_buffered ch < ch_recv_window ch then ch_recv_window ch - ch_recv_buffered ch else 0),
        upd_chan k (\<lambda>ch. ch\<lparr>ch_need_window_update := False\<rparr>) c)
     else s)"

fun flush_acks :: "nat list \<Rightarrow> nat \<Rightarrow> u8 list \<times> netchan_conn \<Rightarrow> u8 list \<times> netchan_conn" where
  "flush_acks [] mtu s = s"
| "flush_acks (i # rest) mtu s =
    (if length (fst s) + 6 \<le> mtu then
       flush_acks rest mtu
         (case c_channels (snd s) (of_nat i) of
            None \<Rightarrow> s
          | Some k \<Rightarrow> put_window mtu k (put_ack mtu k s))
     else s)"

text \<open>
  The fragment that slot \<open>j\<close> of channel \<open>k\<close> owes: its number, its offset in the message, its
  length. Where the MTU was raised after the message was cut, \<open>o->len - offset\<close> wraps around
  and the minimum with \<open>frag_payload\<close> is the latter.
\<close>

definition frag_at :: "nat \<Rightarrow> nc_outgoing \<Rightarrow> nat \<times> nat" where
  "frag_at frag_payload ou =
    (let offset = unat (o_frag_sent ou) * frag_payload
     in (offset, if o_len ou < offset then frag_payload else min (o_len ou - offset) frag_payload))"

definition send_fragment :: "nat \<Rightarrow> nat \<Rightarrow> u8 list \<times> netchan_conn \<Rightarrow> u8 list \<times> netchan_conn" where
  "send_fragment k j s =
    (let (p, c) = s;
         ou = ch_outgoing (chan_at c k) j;
         (offset, dlen) = frag_at (max_frag_payload c) ou;
         (data, c) = buf_read (o_buf ou) offset dlen c;
         (now, c) = nc_now_ms c;
         p = p @ [NC_FRAME_DATA, ch_id (chan_at c k)] @ wr16 (o_seq ou) @ wr16 (of_nat dlen) @
               [o_frag_sent ou, o_frag_total ou] @ data;
         ou = ou\<lparr>o_frag_sent := o_frag_sent ou + 1, o_sent_ms := now,
               o_attempts := (if o_attempts ou = 0 then 1 else o_attempts ou)\<rparr>;
         c = upd_chan k (\<lambda>ch. ch\<lparr>ch_outgoing := (ch_outgoing ch)(j := ou)\<rparr>) c
     in if o_frag_total ou \<le> o_frag_sent ou \<and> ch_type (chan_at c k) = NETCHAN_UNRELIABLE then
          (p, upd_chan k (\<lambda>ch. advance_head (ch\<lparr>ch_outgoing := (ch_outgoing ch)(j := ou\<lparr>o_buf := None,
                 o_active := False\<rparr>)\<rparr>)) (pool_put (o_buf ou) c))
        else (p, c))"

fun flush_data :: "nat list \<Rightarrow> nat \<Rightarrow> u8 list \<times> netchan_conn \<Rightarrow> u8 list \<times> netchan_conn" where
  "flush_data [] mtu s = s"
| "flush_data (i # rest) mtu s =
    (if length (fst s) + 9 \<le> mtu then
       case c_channels (snd s) (of_nat i) of
         None \<Rightarrow> flush_data rest mtu s
       | Some k \<Rightarrow>
           let ch = chan_at (snd s) k in
           if ch_role ch \<noteq> 0 \<or> ch_state ch \<noteq> 1 then flush_data rest mtu s
           else
             case chan_next_sendable ch of
               None \<Rightarrow> flush_data rest mtu s
             | Some j \<Rightarrow>
                 if snd (frag_at (max_frag_payload (snd s)) (ch_outgoing ch j)) > mtu - length (fst s) - 8 then s
                 else flush_data rest mtu (send_fragment k j s)
     else s)"

text \<open>The packet with the address it goes to, or \<^const>\<open>None\<close> where the code returns 0.\<close>

definition netchan_send_next :: "nat \<Rightarrow> netchan_conn \<Rightarrow> (u8 list \<times> nc_addr) option \<times> netchan_conn" where
  "netchan_send_next buflen c =
    (if \<not> nc_has_data c then (None, c)
     else if buflen < (if c_state c = NETCHAN_STATE_CONNECTING \<and> \<not> c_server c
                       then NC_HDR_INIT_SIZE else NC_HDR_FULL_SIZE) then (None, c)
     else
       let mtu = min (unat (cfg_mtu (c_cfg c))) buflen;
           s = send_header c;
           s = (if c_ctrl_buf c \<noteq> [] then flush_ctrl buflen mtu s else s);
           s = flush_acks [0..<256] mtu s;
           (p, c) = flush_data [0..<256] mtu s;
           (now, c) = nc_now_ms c
       in (Some (p, c_peer_addr c), c\<lparr>c_last_send_ms := now, c_pkts_sent := c_pkts_sent c + 1\<rparr>))"

subsection \<open>Timers\<close>

text \<open>\<open>if (next_ms < 0 || remain < next_ms) next_ms = remain;\<close>\<close>

definition sooner :: "int \<Rightarrow> int \<Rightarrow> int" where
  "sooner remain next_ms = (if next_ms < 0 \<or> remain < next_ms then remain else next_ms)"

text \<open>Each part returns whether the service call ends there, the connection and \<open>next_ms\<close>.\<close>

definition service_connect :: "u32 \<Rightarrow> netchan_conn \<times> int \<Rightarrow> bool \<times> netchan_conn \<times> int" where
  "service_connect now_ms s =
    (let (c, next_ms) = s in
     if c_state c = NETCHAN_STATE_CONNECTING \<and> \<not> c_server c then
       let elapsed = now_ms - c_connect_sent_ms c in
       if NC_CONNECT_RETRY_MS \<le> elapsed \<and> NC_CONNECT_RETRIES \<le> c_connect_attempts c then
         (True, ev_push NETCHAN_EV_DISCONNECTED None (c\<lparr>c_state := NETCHAN_STATE_CLOSED\<rparr>), -1)
       else
         let c = (if NC_CONNECT_RETRY_MS \<le> elapsed
                  then (ctrl_connect_init c)\<lparr>c_connect_sent_ms := now_ms,
                         c_connect_attempts := c_connect_attempts c + 1\<rparr>
                  else c)
         in (False, c, sooner (max 0 (sint (NC_CONNECT_RETRY_MS - elapsed))) next_ms)
     else (False, c, next_ms))"

definition service_idle :: "u32 \<Rightarrow> netchan_conn \<times> int \<Rightarrow> bool \<times> netchan_conn \<times> int" where
  "service_idle now_ms s =
    (let (c, next_ms) = s in
     if c_state c = NETCHAN_STATE_CONNECTED \<and> 0 < c_last_recv_ms c then
       let idle = now_ms - c_last_recv_ms c in
       if cfg_idle_timeout_ms (c_cfg c) \<le> idle then
         (True, ev_push NETCHAN_EV_DISCONNECTED None (c\<lparr>c_state := NETCHAN_STATE_CLOSED\<rparr>), -1)
       else (False, c, sooner (sint (cfg_idle_timeout_ms (c_cfg c) - idle)) next_ms)
     else (False, c, next_ms))"

definition service_ping :: "u32 \<Rightarrow> netchan_conn \<times> int \<Rightarrow> netchan_conn \<times> int" where
  "service_ping now_ms s =
    (let (c, next_ms) = s in
     if c_state c = NETCHAN_STATE_CONNECTED \<and> 0 < c_last_send_ms c then
       let since_send = now_ms - c_last_send_ms c;
           c = (if NC_PING_INTERVAL_MS \<le> since_send \<and> c_ping_sent_ms c = 0 then
                  let (opaque, c) = nc_random_id c
                  in (ctrl_ping opaque (c\<lparr>c_ping_opaque := opaque\<rparr>))\<lparr>c_ping_sent_ms := now_ms\<rparr>
                else c)
       in (c, if since_send < NC_PING_INTERVAL_MS
              then sooner (sint (NC_PING_INTERVAL_MS - since_send)) next_ms else next_ms)
     else (c, next_ms))"

text \<open>A message is sent again after \<open>retransmit_ms << (attempts - 1)\<close> milliseconds, at most one second.\<close>

definition rt_timeout :: "netchan_conn \<Rightarrow> nc_outgoing \<Rightarrow> u32" where
  "rt_timeout c ou =
    min (push_bit (unat (o_attempts ou) - 1) (cfg_retransmit_ms (c_cfg c))) NC_MAX_RT_MS"

fun service_slots :: "nat list \<Rightarrow> u32 \<Rightarrow> nat \<Rightarrow> netchan_conn \<times> int \<Rightarrow> netchan_conn \<times> int" where
  "service_slots [] now_ms k s = s"
| "service_slots (j # rest) now_ms k s =
    (let (c, next_ms) = s; ou = ch_outgoing (chan_at c k) j in
     if \<not> o_active ou \<or> o_sent_ms ou = 0 then service_slots rest now_ms k s
     else
       let c = c\<lparr>nc_ub := nc_ub c \<or> o_attempts ou = 0 \<or> 32 < unat (o_attempts ou)\<rparr>;
           timeout = rt_timeout c ou;
           elapsed = now_ms - o_sent_ms ou
       in if timeout \<le> elapsed then
            if NC_MAX_RT_ATTEMPTS \<le> o_attempts ou then
              (ev_push NETCHAN_EV_CHAN_CLOSE (Some k) (upd_chan k (\<lambda>ch. ch\<lparr>ch_state := 3\<rparr>) c), next_ms)
            else
              service_slots rest now_ms k
                (upd_chan k (\<lambda>ch. ch\<lparr>
                   ch_outgoing := (ch_outgoing ch)(j := ou\<lparr>o_frag_sent := 0, o_sent_ms := now_ms,
                                                          o_attempts := o_attempts ou + 1\<rparr>),
                   ch_retransmissions := ch_retransmissions ch + 1\<rparr>) c, next_ms)
          else service_slots rest now_ms k (c, sooner (sint (timeout - elapsed)) next_ms))"

definition service_channel :: "u32 \<Rightarrow> nat \<Rightarrow> netchan_conn \<times> int \<Rightarrow> netchan_conn \<times> int" where
  "service_channel now_ms i s =
    (case c_channels (fst s) (of_nat i) of
       None \<Rightarrow> s
     | Some k \<Rightarrow>
         let ch = chan_at (fst s) k in
         if ch_role ch \<noteq> 0 \<or> ch_type ch \<noteq> NETCHAN_RELIABLE then s
         else service_slots [0..<NC_OUTGOING_SLOTS] now_ms k s)"

definition netchan_service :: "u32 \<Rightarrow> netchan_conn \<Rightarrow> netchan_conn \<times> int" where
  "netchan_service now_ms c =
    (let (stop, s) = service_connect now_ms (c, -1) in
     if stop then s
     else
       let (stop, s) = service_idle now_ms s in
       if stop then s
       else fold (service_channel now_ms) [0..<256] (service_ping now_ms s))"

subsection \<open>Channels\<close>

definition netchan_chan_open ::
    "nat \<Rightarrow> nat \<Rightarrow> u8 list \<Rightarrow> netchan_conn \<Rightarrow> nat option \<times> netchan_conn" where
  "netchan_chan_open ty dir content_type c =
    (if c_state c \<noteq> NETCHAN_STATE_CONNECTED then (None, c)
     else
       let cid = c_next_chan_id c in
       if c_channels c cid \<noteq> None then (None, c)
       else
         let c = c\<lparr>c_next_chan_id := cid + 2\<rparr>;
             local_role = (if dir = NETCHAN_DIR_SEND then 0 else 1)
         in case chan_new cid ty dir local_role content_type c of
              (None, c) \<Rightarrow> (None, c)
            | (Some k, c) \<Rightarrow>
                let c = ctrl_channel_open (chan_at c k) c
                in (Some k,
                    if local_role = (1::nat)
                    then upd_chan k (\<lambda>ch. ch\<lparr>ch_state := 1\<rparr>)
                           (ctrl_window_update cid (ch_recv_window (chan_at c k)) c)
                    else c))"

definition netchan_chan_close :: "nat \<Rightarrow> netchan_conn \<Rightarrow> netchan_conn" where
  "netchan_chan_close k c =
    (if 2 \<le> ch_state (chan_at c k) then c
     else upd_chan k (\<lambda>ch. ch\<lparr>ch_state := 2\<rparr>) (ctrl_channel_close (ch_id (chan_at c k)) 0 c))"

definition netchan_chan_id :: "nat \<Rightarrow> netchan_conn \<Rightarrow> u8" where
  "netchan_chan_id k c = ch_id (chan_at c k)"

definition netchan_chan_type :: "nat \<Rightarrow> netchan_conn \<Rightarrow> nat" where
  "netchan_chan_type k c = ch_type (chan_at c k)"

definition netchan_chan_state :: "nat \<Rightarrow> netchan_conn \<Rightarrow> nat" where
  "netchan_chan_state k c = ch_state (chan_at c k)"

text \<open>
  The number of fragments, cut to a byte as in the code. A fragment size of 0 (an MTU of 15) divides
  by zero.
\<close>

definition frag_count :: "nat \<Rightarrow> nat \<Rightarrow> u8" where
  "frag_count frag_payload len =
    (let n = of_nat ((len + frag_payload - 1) div frag_payload) in if n = 0 then 1 else n)"

definition netchan_chan_write :: "nat \<Rightarrow> u8 list \<Rightarrow> netchan_conn \<Rightarrow> netchan_conn \<times> int" where
  "netchan_chan_write k data c =
    (let ch = chan_at c k; len = length data in
     if ch_role ch \<noteq> 0 then (c, NETCHAN_ERR)
     else if ch_state ch = 3 then (c, NETCHAN_ERR_CLOSED)
     else if len = 0 then (c, 0)
     else if len > NC_MAX_MSG then (c, NETCHAN_ERR_TOOBIG)
     else if ch_type ch = NETCHAN_RELIABLE \<and> ch_state ch = 1 \<and>
             unat (ch_in_flight ch) + len > unat (ch_send_window ch) then (c, NETCHAN_ERR_FLOW)
     else
       let nxt = (ch_out_tail ch + 1) mod NC_OUTGOING_SLOTS in
       if nxt = ch_out_head ch then (c, NETCHAN_ERR_AGAIN)
       else
         case pool_get c of
           (None, c) \<Rightarrow> (c, NETCHAN_ERR_NOMEM)
         | (Some b, c) \<Rightarrow>
             let c = buf_write (Some b) 0 data c;
                 fp = max_frag_payload c;
                 tot = frag_count fp len;
                 c = c\<lparr>nc_ub := nc_ub c \<or> fp = 0\<rparr>;
                 ou = zero_outgoing\<lparr>o_buf := Some b, o_len := len, o_seq := ch_send_seq ch,
                        o_active := True, o_frag_total := tot\<rparr>;
                 c = upd_chan k (\<lambda>ch. ch\<lparr>ch_send_seq := ch_send_seq ch + 1\<rparr>) c
             in if unat tot > NC_MAX_FRAGS then
                  (upd_chan k (\<lambda>ch. ch\<lparr>ch_outgoing := (ch_outgoing ch)(ch_out_tail ch := zero_outgoing)\<rparr>)
                     (pool_put (Some b) c), NETCHAN_ERR_TOOBIG)
                else
                  (upd_chan k (\<lambda>ch. ch\<lparr>
                       ch_outgoing := (ch_outgoing ch)(ch_out_tail ch := ou),
                       ch_in_flight := (if ch_type ch = NETCHAN_RELIABLE
                                        then ch_in_flight ch + of_nat len else ch_in_flight ch),
                       ch_msgs_sent := ch_msgs_sent ch + 1,
                       ch_out_tail := nxt\<rparr>) c, int len))"

text \<open>The bytes that land in the caller's buffer, and the returned count.\<close>

definition netchan_chan_read :: "nat \<Rightarrow> nat \<Rightarrow> netchan_conn \<Rightarrow> (u8 list \<times> int) \<times> netchan_conn" where
  "netchan_chan_read k buflen c =
    (let ch = chan_at c k in
     if ch_role ch \<noteq> 1 then (([], NETCHAN_ERR), c)
     else if ch_rq_head ch = ch_rq_tail ch then (([], 0), c)
     else
       let e = ch_recv_queue ch (ch_rq_head ch);
           n = min (re_len e) buflen;
           (data, c) = buf_read (re_buf e) 0 n c;
           c = pool_put (re_buf e) c
       in ((data, int n),
           upd_chan k (\<lambda>ch. ch\<lparr>
             ch_recv_queue := (ch_recv_queue ch)(ch_rq_head ch := \<lparr>re_buf = None, re_len = 0\<rparr>),
             ch_rq_head := (ch_rq_head ch + 1) mod NC_RECV_QUEUE,
             ch_recv_buffered := ch_recv_buffered ch - of_nat n,
             ch_need_window_update := True\<rparr>) c))"

subsection \<open>Counters\<close>

record netchan_conn_stats =
  cs_rtt_ms :: u32
  cs_rtt_min_ms :: u32
  cs_pkts_sent :: u32
  cs_pkts_recv :: u32

record netchan_chan_stats =
  hs_msgs_sent :: u32
  hs_msgs_acked :: u32
  hs_retransmissions :: u32
  hs_msgs_recv :: u32

definition netchan_get_conn_stats :: "netchan_conn \<Rightarrow> netchan_conn_stats" where
  "netchan_get_conn_stats c = \<lparr>cs_rtt_ms = c_rtt_ms c, cs_rtt_min_ms = c_rtt_min_ms c,
     cs_pkts_sent = c_pkts_sent c, cs_pkts_recv = c_pkts_recv c\<rparr>"

definition netchan_get_chan_stats :: "nat \<Rightarrow> netchan_conn \<Rightarrow> netchan_chan_stats" where
  "netchan_get_chan_stats k c =
    (let ch = chan_at c k in
     \<lparr>hs_msgs_sent = ch_msgs_sent ch, hs_msgs_acked = ch_msgs_acked ch,
      hs_retransmissions = ch_retransmissions ch, hs_msgs_recv = ch_msgs_recv ch\<rparr>)"

end
