(* ===== verification/Nc_Ring.thy ===== *)
theory Nc_Ring
  imports Nc_Send
begin

text \<open>
  Ring buffers as \<^verbatim>\<open>netchan.c\<close> keeps them, a head and a tail index into an array of which one entry
  stays unused, and the interface that its queues share: a bounded queue that drops what does not fit.
  The event queue implements it.
\<close>

subsection \<open>Ring indices\<close>

text \<open>The indices in use, oldest first.\<close>

definition ring_slots :: "nat \<Rightarrow> nat \<Rightarrow> nat \<Rightarrow> nat list" where
  "ring_slots n h t = (if h \<le> t then [h..<t] else [h..<n] @ [0..<t])"

lemma ring_empty [simp]: "ring_slots n h h = []"
  by (simp add: ring_slots_def)

lemma ring_empty_iff: "h < n \<Longrightarrow> t < n \<Longrightarrow> ring_slots n h t = [] \<longleftrightarrow> h = t"
  by (auto simp: ring_slots_def)

lemma ring_distinct [simp]: "h < n \<Longrightarrow> t < n \<Longrightarrow> distinct (ring_slots n h t)"
  by (auto simp: ring_slots_def)

lemma ring_less: "i \<in> set (ring_slots n h t) \<Longrightarrow> h < n \<Longrightarrow> t < n \<Longrightarrow> i < n"
  by (auto simp: ring_slots_def split: if_splits)

lemma ring_tail_free [simp]: "t \<notin> set (ring_slots n h t)" if "h < n" "t < n"
  using that by (auto simp: ring_slots_def)

lemma ring_succ: "0 < n \<Longrightarrow> i < n \<Longrightarrow> Suc i mod n = (if Suc i = n then 0 else Suc i)"
  by auto

lemma ring_push:
  assumes "h < n" "t < n" "Suc t mod n \<noteq> h"
  shows "ring_slots n h (Suc t mod n) = ring_slots n h t @ [t]"
proof (cases "Suc t = n")
  case True
  with assms have "h \<noteq> 0" "h \<le> t" by auto
  with True show ?thesis by (auto simp: ring_slots_def)
next
  case False
  with assms have "Suc t mod n = Suc t" "h \<noteq> Suc t" by auto
  with assms show ?thesis by (cases "h \<le> t") (auto simp: ring_slots_def)
qed

lemma ring_pop:
  assumes "h < n" "t < n" "h \<noteq> t"
  shows "ring_slots n h t = h # ring_slots n (Suc h mod n) t"
  using assms by (auto simp: ring_slots_def ring_succ upt_conv_Cons)

lemma ring_length: "h < n \<Longrightarrow> t < n \<Longrightarrow> length (ring_slots n h t) = (t + n - h) mod n"
  by (auto simp: ring_slots_def mod_if)

lemma ring_full: "h < n \<Longrightarrow> t < n \<Longrightarrow> Suc t mod n = h \<longleftrightarrow> length (ring_slots n h t) = n - 1"
  by (auto simp: ring_slots_def ring_succ)

lemma ring_room: "h < n \<Longrightarrow> t < n \<Longrightarrow> length (ring_slots n h t) \<le> n - 1"
  by (auto simp: ring_slots_def)

subsection \<open>Bounded queues\<close>

text \<open>
  \<open>valid\<close> is the invariant, \<open>contents\<close> the abstract value, \<open>room a s\<close> the condition under which
  \<open>a\<close> is accepted; what is not accepted is dropped.
\<close>

locale bounded_queue =
  fixes valid :: "'s \<Rightarrow> bool"
    and contents :: "'s \<Rightarrow> 'a list"
    and room :: "'a \<Rightarrow> 's \<Rightarrow> bool"
    and push :: "'a \<Rightarrow> 's \<Rightarrow> 's"
    and pop :: "'s \<Rightarrow> 'a option \<times> 's"
  assumes push_valid: "valid s \<Longrightarrow> valid (push a s)"
    and push_contents: "valid s \<Longrightarrow> contents (push a s) = contents s @ (if room a s then [a] else [])"
    and pop_valid: "valid s \<Longrightarrow> valid (snd (pop s))"
    and pop_empty: "valid s \<Longrightarrow> contents s = [] \<Longrightarrow> pop s = (None, s)"
    and pop_first: "valid s \<Longrightarrow> contents s = a # as \<Longrightarrow> fst (pop s) = Some a \<and> contents (snd (pop s)) = as"
begin

fun pops :: "nat \<Rightarrow> 's \<Rightarrow> 'a list \<times> 's" where
  "pops 0 s = ([], s)"
| "pops (Suc n) s =
    (case pop s of (None, s') \<Rightarrow> ([], s') | (Some a, s') \<Rightarrow> let (as, s'') = pops n s' in (a # as, s''))"

lemma pushes_valid: "valid s \<Longrightarrow> valid (fold push xs s)"
  by (induction xs arbitrary: s) (auto simp: push_valid)

lemma pops_contents:
  "valid s \<Longrightarrow> valid (snd (pops n s)) \<and> fst (pops n s) = take n (contents s) \<and>
     contents (snd (pops n s)) = drop n (contents s)"
proof (induction n arbitrary: s)
  case (Suc n)
  show ?case
  proof (cases "contents s")
    case Nil
    then show ?thesis using Suc.prems by (simp add: pop_empty)
  next
    case (Cons a as)
    obtain r s' where p: "pop s = (r, s')" by (cases "pop s")
    have "r = Some a" "contents s' = as" "valid s'"
      using pop_first [OF Suc.prems Cons] pop_valid [OF Suc.prems] p by auto
    then show ?thesis using Suc.IH [of s'] p Cons by (simp add: case_prod_beta Let_def)
  qed
qed simp

end

text \<open>With a fixed capacity the queue keeps the oldest elements and drops the newest.\<close>

locale capped_queue = bounded_queue +
  fixes cap :: nat
  assumes room_cap: "valid s \<Longrightarrow> room a s \<longleftrightarrow> length (contents s) < cap"
    and within_cap: "valid s \<Longrightarrow> length (contents s) \<le> cap"
begin

lemma pushes_contents:
  "valid s \<Longrightarrow> contents (fold push xs s) = take cap (contents s @ xs)"
proof (induction xs arbitrary: s)
  case (Cons x xs)
  have "contents (fold push (x # xs) s) = take cap (contents (push x s) @ xs)"
    using Cons.IH [OF push_valid [OF Cons.prems]] by simp
  then show ?case
    using within_cap [OF Cons.prems] by (auto simp: push_contents [OF Cons.prems] room_cap [OF Cons.prems] take_Cons')
qed (simp add: within_cap)

lemma drained:
  assumes "valid s" and "contents s = []"
  shows "fst (pops n (fold push xs s)) = take (min n cap) xs"
  using pops_contents [OF pushes_valid [OF assms(1)]] pushes_contents [OF assms(1)] assms(2)
  by (simp add: min.commute)

end

subsection \<open>The event queue\<close>

definition ev_ok :: "netchan_conn \<Rightarrow> bool" where
  "ev_ok c \<longleftrightarrow> c_ev_head c < NC_EVENT_QUEUE \<and> c_ev_tail c < NC_EVENT_QUEUE"

definition ev_list :: "netchan_conn \<Rightarrow> netchan_event list" where
  "ev_list c = map (c_events c) (ring_slots NC_EVENT_QUEUE (c_ev_head c) (c_ev_tail c))"

lemma ev_ok_16: "ev_ok c \<Longrightarrow> c_ev_head c < 16 \<and> c_ev_tail c < 16"
  by (simp add: ev_ok_def NC_EVENT_QUEUE_def)

lemma ev_put_list:
  assumes "ev_ok c"
  shows "ev_list (ev_put e c) = ev_list c @ (if length (ev_list c) < 15 then [e] else [])"
proof (cases "Suc (c_ev_tail c) mod 16 = c_ev_head c")
  case True
  with ring_full [of "c_ev_head c" 16 "c_ev_tail c"] ev_ok_16 [OF assms] show ?thesis
    by (simp add: ev_put_def ev_list_def NC_EVENT_QUEUE_def)
next
  case False
  then have "length (ring_slots 16 (c_ev_head c) (c_ev_tail c)) < 15"
    using ring_full [of "c_ev_head c" 16 "c_ev_tail c"] ring_room [of "c_ev_head c" 16 "c_ev_tail c"]
      ev_ok_16 [OF assms] by simp
  with False ev_ok_16 [OF assms] ring_push [of "c_ev_head c" 16 "c_ev_tail c"] show ?thesis
    by (auto simp: ev_put_def ev_list_def NC_EVENT_QUEUE_def)
qed

interpretation evq: capped_queue ev_ok ev_list "\<lambda>e c. length (ev_list c) < 15" ev_put netchan_poll 15
proof (unfold_locales, goal_cases)
  case (2 c e)
  then show ?case by (rule ev_put_list)
next
  case (5 c e es)
  then have "c_ev_head c \<noteq> c_ev_tail c"
    by (auto simp: ev_list_def)
  with 5 ring_pop [of "c_ev_head c" 16 "c_ev_tail c"] ev_ok_16 show ?case
    by (auto simp: netchan_poll_def ev_list_def NC_EVENT_QUEUE_def)
next
  case (7 c)
  with ring_room [of "c_ev_head c" 16 "c_ev_tail c"] ev_ok_16 show ?case
    by (auto simp: ev_list_def NC_EVENT_QUEUE_def)
qed (auto simp: ev_put_list ev_ok_def ev_put_def netchan_poll_def Let_def NC_EVENT_QUEUE_def
    ev_list_def ring_empty_iff)

end
