(* ===== verification/Nc_Pool.thy ===== *)
theory Nc_Pool
  imports Nc_Ring "HOL-Library.Multiset"
begin

text \<open>
  Ownership of the message buffers. A buffer is on the free stack or held by one slot of one channel
  in use: an outgoing message, a received one, one that waits in the reorder window or one under
  reassembly. The invariant \<open>netchan_inv\<close> says so, with the shape of the queues; the rules here say
  how the primitive operations move buffers, with \<open>lent\<close> for the buffers in the hands of the running
  function and \<open>dup\<close> for those already returned but not yet struck from their slot.
\<close>

subsection \<open>Buffers held by a channel\<close>

definition bufm :: "nat option \<Rightarrow> nat multiset" where
  "bufm x = (case x of None \<Rightarrow> {#} | Some b \<Rightarrow> {#b#})"

lemma bufm_simps [simp]: "bufm None = {#}" "bufm (Some b) = {#b#}"
  by (simp_all add: bufm_def)

definition slot_bufs :: "nat \<Rightarrow> ('a \<Rightarrow> nat option) \<Rightarrow> (nat \<Rightarrow> 'a) \<Rightarrow> nat multiset" where
  "slot_bufs n g a = (\<Sum>i<n. bufm (g (a i)))"

definition chan_bufs :: "netchan_chan \<Rightarrow> nat multiset" where
  "chan_bufs ch = slot_bufs 64 o_buf (ch_outgoing ch) + slot_bufs 64 re_buf (ch_recv_queue ch) +
     slot_bufs 64 ro_buf (ch_reorder ch) + slot_bufs 4 fa_buf (ch_frags ch)"

definition in_use :: "netchan_conn \<Rightarrow> nat \<Rightarrow> bool" where
  "in_use c k \<longleftrightarrow> k < NC_MAX_CHAN \<and> c_chan_used c k"

definition owned :: "netchan_conn \<Rightarrow> nat multiset" where
  "owned c = (\<Sum>k \<in> {k. in_use c k}. chan_bufs (chan_at c k))"

text \<open>Replacing one entry of an array replaces its share of the sum.\<close>

lemma slot_upd:
  assumes "i < n"
  shows "slot_bufs n g (a(i := x)) + bufm (g (a i)) = slot_bufs n g a + bufm (g x)"
proof -
  have n: "{..<n} = insert i ({..<n} - {i})" using assms by auto
  have "slot_bufs n g (a(i := x)) = bufm (g x) + (\<Sum>j\<in>{..<n} - {i}. bufm (g (a j)))"
    unfolding slot_bufs_def by (subst n, subst sum.insert) (auto intro!: arg_cong2 [where f = "(+)"] sum.cong)
  moreover have "slot_bufs n g a = bufm (g (a i)) + (\<Sum>j\<in>{..<n} - {i}. bufm (g (a j)))"
    unfolding slot_bufs_def by (subst n, subst sum.insert) auto
  ultimately show ?thesis by (simp add: ac_simps)
qed

lemma slot_put: "i < n \<Longrightarrow> g (a i) = None \<Longrightarrow> slot_bufs n g (a(i := x)) = slot_bufs n g a + bufm (g x)"
  using slot_upd [of i n g a x] by simp

lemma slot_clear: "i < n \<Longrightarrow> g x = None \<Longrightarrow> slot_bufs n g (a(i := x)) + bufm (g (a i)) = slot_bufs n g a"
  using slot_upd [of i n g a x] by simp

lemma slot_keep: "g x = g (a i) \<Longrightarrow> slot_bufs n g (a(i := x)) = slot_bufs n g a"
  unfolding slot_bufs_def by (rule sum.cong) auto

lemma slot_empty [simp]: "(\<And>i. g (a i) = None) \<Longrightarrow> slot_bufs n g a = {#}"
  by (simp add: slot_bufs_def)

subsection \<open>The invariant\<close>

text \<open>
  A channel: queue indices in range; a slot holds a buffer exactly when it is in use, which for the
  receive queue means within the ring, and for the outgoing queue implies it.
\<close>

definition chan_ok :: "netchan_chan \<Rightarrow> bool" where
  "chan_ok ch \<longleftrightarrow>
    ch_out_head ch < 64 \<and> ch_out_tail ch < 64 \<and> ch_rq_head ch < 64 \<and> ch_rq_tail ch < 64 \<and>
    (\<forall>i<64. o_active (ch_outgoing ch i) \<longleftrightarrow> o_buf (ch_outgoing ch i) \<noteq> None) \<and>
    (\<forall>i<64. o_active (ch_outgoing ch i) \<longrightarrow> i \<in> set (ring_slots 64 (ch_out_head ch) (ch_out_tail ch))) \<and>
    (\<forall>i<64. re_buf (ch_recv_queue ch i) \<noteq> None \<longleftrightarrow>
       i \<in> set (ring_slots 64 (ch_rq_head ch) (ch_rq_tail ch))) \<and>
    (\<forall>i<64. ro_valid (ch_reorder ch i) \<longleftrightarrow> ro_buf (ch_reorder ch i) \<noteq> None) \<and>
    (\<forall>i<4. fa_active (ch_frags ch i) \<longleftrightarrow> fa_buf (ch_frags ch i) \<noteq> None)"

definition netchan_inv_with :: "nat multiset \<Rightarrow> nat multiset \<Rightarrow> netchan_conn \<Rightarrow> bool" where
  "netchan_inv_with lent dup c \<longleftrightarrow>
    mset (c_pool_free c) + owned c + lent = mset [0..<NC_POOL_BUFS] + dup \<and>
    (\<forall>k. in_use c k \<longrightarrow> chan_ok (chan_at c k)) \<and>
    (\<forall>i k. c_channels c i = Some k \<longrightarrow> in_use c k) \<and>
    ev_ok c \<and> length (c_ctrl_buf c) \<le> NC_CTRL_BUF_SIZE"

abbreviation netchan_inv :: "netchan_conn \<Rightarrow> bool" where
  "netchan_inv \<equiv> netchan_inv_with {#} {#}"

lemma inv_chan_ok: "netchan_inv_with X Y c \<Longrightarrow> in_use c k \<Longrightarrow> chan_ok (chan_at c k)"
  by (simp add: netchan_inv_with_def)

lemma inv_channel: "netchan_inv_with X Y c \<Longrightarrow> c_channels c i = Some k \<Longrightarrow> in_use c k"
  by (simp add: netchan_inv_with_def)

text \<open>Operations that move no buffer: they keep the parts of the state the ownership depends on.\<close>

definition same_res :: "netchan_conn \<Rightarrow> netchan_conn \<Rightarrow> bool" where
  "same_res c c' \<longleftrightarrow> c_pool_free c' = c_pool_free c \<and> c_chan_pool c' = c_chan_pool c \<and>
     c_chan_used c' = c_chan_used c \<and> c_channels c' = c_channels c"

lemma same_res_inv:
  assumes "same_res c c'" and "netchan_inv_with X Y c"
    and "ev_ok c'" and "length (c_ctrl_buf c') \<le> NC_CTRL_BUF_SIZE"
  shows "netchan_inv_with X Y c'"
proof -
  have "in_use c' = in_use c" and "chan_at c' = chan_at c"
    using assms(1) by (auto simp: same_res_def in_use_def chan_at_def fun_eq_iff)
  then have "owned c' = owned c" by (simp add: owned_def)
  with assms \<open>in_use c' = in_use c\<close> \<open>chan_at c' = chan_at c\<close> show ?thesis
    by (simp add: netchan_inv_with_def same_res_def)
qed


lemma inv_fields [simp]:
  "netchan_inv_with X Y (c\<lparr>c_local_id := a\<rparr>) = netchan_inv_with X Y c"
  "netchan_inv_with X Y (c\<lparr>c_remote_id := a\<rparr>) = netchan_inv_with X Y c"
  "netchan_inv_with X Y (c\<lparr>c_state := st\<rparr>) = netchan_inv_with X Y c"
  "netchan_inv_with X Y (c\<lparr>c_peer_addr := ad\<rparr>) = netchan_inv_with X Y c"
  "netchan_inv_with X Y (c\<lparr>c_next_pkt_num := pn\<rparr>) = netchan_inv_with X Y c"
  "netchan_inv_with X Y (c\<lparr>c_last_recv_ms := a\<rparr>) = netchan_inv_with X Y c"
  "netchan_inv_with X Y (c\<lparr>c_last_send_ms := a\<rparr>) = netchan_inv_with X Y c"
  "netchan_inv_with X Y (c\<lparr>c_connect_sent_ms := a\<rparr>) = netchan_inv_with X Y c"
  "netchan_inv_with X Y (c\<lparr>c_connect_attempts := ca\<rparr>) = netchan_inv_with X Y c"
  "netchan_inv_with X Y (c\<lparr>c_ping_sent_ms := a\<rparr>) = netchan_inv_with X Y c"
  "netchan_inv_with X Y (c\<lparr>c_ping_opaque := a\<rparr>) = netchan_inv_with X Y c"
  "netchan_inv_with X Y (c\<lparr>c_rtt_ms := a\<rparr>) = netchan_inv_with X Y c"
  "netchan_inv_with X Y (c\<lparr>c_rtt_min_ms := a\<rparr>) = netchan_inv_with X Y c"
  "netchan_inv_with X Y (c\<lparr>c_pkts_sent := a\<rparr>) = netchan_inv_with X Y c"
  "netchan_inv_with X Y (c\<lparr>c_pkts_recv := a\<rparr>) = netchan_inv_with X Y c"
  "netchan_inv_with X Y (c\<lparr>c_cfg := cf\<rparr>) = netchan_inv_with X Y c"
  "netchan_inv_with X Y (c\<lparr>c_next_chan_id := ci\<rparr>) = netchan_inv_with X Y c"
  "netchan_inv_with X Y (c\<lparr>c_pool_store := ps\<rparr>) = netchan_inv_with X Y c"
  "netchan_inv_with X Y (c\<lparr>c_clock := ck\<rparr>) = netchan_inv_with X Y c"
  "netchan_inv_with X Y (c\<lparr>c_entropy := ck\<rparr>) = netchan_inv_with X Y c"
  "netchan_inv_with X Y (c\<lparr>nc_ub := u\<rparr>) = netchan_inv_with X Y c"
  by (simp_all add: netchan_inv_with_def owned_def in_use_def chan_at_def ev_ok_def cong: conj_cong)

subsection \<open>Primitive operations\<close>

lemma same_res_prims [simp]:
  "same_res c (ev_put e c)" "same_res c (ctrl_append fr c)" "same_res c (buf_write b off d c)"
  "same_res c (snd (buf_read b off n c))" "same_res c (snd (nc_now_ms c))" "same_res c (snd (nc_random_id c))"
  by (simp_all add: same_res_def ev_put_def ctrl_append_def buf_write_def buf_read_def nc_now_ms_def
      nc_random_id_def Let_def split: option.split)

lemma inv_ev: "netchan_inv_with X Y c \<Longrightarrow> ev_ok c \<and> length (c_ctrl_buf c) \<le> NC_CTRL_BUF_SIZE"
  by (simp add: netchan_inv_with_def)

lemma inv_prims [simp]:
  assumes "netchan_inv_with X Y c"
  shows "netchan_inv_with X Y (ev_put e c)" "netchan_inv_with X Y (ctrl_append fr c)"
    "netchan_inv_with X Y (buf_write b off d c)" "netchan_inv_with X Y (snd (buf_read b off n c))"
    "netchan_inv_with X Y (snd (nc_now_ms c))" "netchan_inv_with X Y (snd (nc_random_id c))"
proof -
  show "netchan_inv_with X Y (ev_put e c)"
    by (rule same_res_inv [OF same_res_prims(1) assms]) (use inv_ev [OF assms] evq.push_valid in
        \<open>auto simp: ev_put_def Let_def\<close>)
  show "netchan_inv_with X Y (ctrl_append fr c)"
    by (rule same_res_inv [OF same_res_prims(2) assms]) (use inv_ev [OF assms] in
        \<open>auto simp: ctrl_append_def ev_ok_def\<close>)
qed (use assms in \<open>simp_all add: buf_write_def buf_read_def nc_now_ms_def nc_random_id_def Let_def
      split: option.split\<close>)

lemma inv_pool_get:
  assumes "netchan_inv_with X Y c" and "pool_get c = (Some b, c')"
  shows "netchan_inv_with (add_mset b X) Y c'"
  using assms by (auto simp: pool_get_def netchan_inv_with_def owned_def in_use_def chan_at_def ev_ok_def
      split: list.splits)

lemma inv_pool_put:
  assumes "netchan_inv_with X Y c"
  shows "netchan_inv_with X (bufm b + Y) (pool_put b c)"
  using assms by (cases b) (auto simp: pool_put_def netchan_inv_with_def owned_def in_use_def chan_at_def ev_ok_def)

lemma in_use_finite [simp]: "finite {k. in_use c k}"
  by (rule finite_subset [of _ "{..<NC_MAX_CHAN}"]) (auto simp: in_use_def)

lemma owned_upd_set: "owned (upd_chan k f c) = (\<Sum>j\<in>{j. in_use c j}. chan_bufs (chan_at (upd_chan k f c) j))"
  by (simp add: owned_def in_use_def upd_chan_def)

lemma owned_upd:
  assumes "in_use c k"
  shows "owned (upd_chan k f c) + chan_bufs (chan_at c k) = owned c + chan_bufs (f (chan_at c k))"
proof -
  have u: "{j. in_use c j} = insert k ({j. in_use c j} - {k})" using assms by auto
  have "owned (upd_chan k f c) = chan_bufs (f (chan_at c k)) + (\<Sum>j\<in>{j. in_use c j} - {k}. chan_bufs (chan_at c j))"
    by (subst owned_upd_set, subst u, subst sum.insert)
      (auto simp: upd_chan_def chan_at_def intro!: arg_cong2 [where f = "(+)"] sum.cong)
  moreover have "owned c = chan_bufs (chan_at c k) + (\<Sum>j\<in>{j. in_use c j} - {k}. chan_bufs (chan_at c j))"
    unfolding owned_def by (subst u, subst sum.insert) auto
  ultimately show ?thesis by (simp add: ac_simps)
qed

lemma upd_chan_frame [simp]:
  "in_use (upd_chan k f c) = in_use c" "chan_at (upd_chan k f c) k = f (chan_at c k)"
  "j \<noteq> k \<Longrightarrow> chan_at (upd_chan k f c) j = chan_at c j" "c_channels (upd_chan k f c) = c_channels c"
  "c_pool_free (upd_chan k f c) = c_pool_free c" "ev_ok (upd_chan k f c) = ev_ok c"
  "c_ctrl_buf (upd_chan k f c) = c_ctrl_buf c"
  by (simp_all add: upd_chan_def chan_at_def in_use_def fun_eq_iff ev_ok_def)

lemma swap_share:
  fixes F :: "'a multiset"
  assumes "F + A + X = U + Y" and "A' + B = A + B'" and "B' + X' + Y = B + X + Y'"
  shows "F + A' + X' = U + Y'"
proof -
  have "(F + A' + X') + (B + Y) = F + (A' + B) + X' + Y" by (simp add: ac_simps)
  also have "\<dots> = F + A + (B' + X' + Y)" by (simp add: assms(2) ac_simps)
  also have "\<dots> = (F + A + X) + (B + Y')" unfolding assms(3) by (simp add: ac_simps)
  also have "\<dots> = (U + Y') + (B + Y)" unfolding assms(1) by (simp add: ac_simps)
  finally show ?thesis by simp
qed

text \<open>A channel update may take over lent buffers and strike returned ones.\<close>

lemma inv_upd_chan:
  assumes "netchan_inv_with X Y c" and "in_use c k" and "chan_ok (f (chan_at c k))"
    and "chan_bufs (f (chan_at c k)) + X' + Y = chan_bufs (chan_at c k) + X + Y'"
  shows "netchan_inv_with X' Y' (upd_chan k f c)"
proof -
  have "mset (c_pool_free c) + owned (upd_chan k f c) + X' = mset [0..<NC_POOL_BUFS] + Y'"
  proof -
    have "mset (c_pool_free c) + owned c + X = mset [0..<NC_POOL_BUFS] + Y"
      using assms(1) by (simp add: netchan_inv_with_def)
    then show ?thesis
      using owned_upd [OF assms(2), of f] assms(4) by (rule swap_share)
  qed
  moreover have "chan_ok (chan_at (upd_chan k f c) j)" if "in_use c j" for j
    using assms that by (cases "j = k") (auto intro: inv_chan_ok)
  ultimately show ?thesis
    using assms(1) by (simp add: netchan_inv_with_def)
qed

lemma inv_upd_same:
  assumes "netchan_inv_with X Y c" and "in_use c k"
    and "chan_ok (chan_at c k) \<Longrightarrow> chan_ok (f (chan_at c k))"
    and "chan_bufs (f (chan_at c k)) = chan_bufs (chan_at c k)"
  shows "netchan_inv_with X Y (upd_chan k f c)"
  using assms inv_chan_ok [OF assms(1,2)] by (auto intro: inv_upd_chan)

end
