(* ===== verification/Nc_Inv.thy ===== *)
theory Nc_Inv
  imports Nc_Pool
begin

text \<open>
  The receiving half keeps the invariant of \<open>Nc_Pool\<close>: the helpers of delivery and reassembly,
  then the frame handlers, the parser and \<open>netchan_feed\<close>.
\<close>

subsection \<open>What the primitives leave alone\<close>

lemma prim_chan_at [simp]:
  "chan_at (ev_put e c) = chan_at c" "chan_at (ctrl_append fr c) = chan_at c"
  "chan_at (buf_write b off d c) = chan_at c" "chan_at (snd (buf_read b off n c)) = chan_at c"
  "chan_at (snd (nc_now_ms c)) = chan_at c" "chan_at (snd (nc_random_id c)) = chan_at c"
  "chan_at (pool_put b c) = chan_at c" "chan_at (c\<lparr>nc_ub := u\<rparr>) = chan_at c"
  by (simp_all add: fun_eq_iff chan_at_def ev_put_def ctrl_append_def buf_write_def buf_read_def
      nc_now_ms_def nc_random_id_def pool_put_def Let_def split: option.split)

lemma prim_in_use [simp]:
  "in_use (ev_put e c) = in_use c" "in_use (ctrl_append fr c) = in_use c"
  "in_use (buf_write b off d c) = in_use c" "in_use (snd (buf_read b off n c)) = in_use c"
  "in_use (snd (nc_now_ms c)) = in_use c" "in_use (snd (nc_random_id c)) = in_use c"
  "in_use (pool_put b c) = in_use c" "in_use (c\<lparr>nc_ub := u\<rparr>) = in_use c"
  by (simp_all add: fun_eq_iff in_use_def ev_put_def ctrl_append_def buf_write_def buf_read_def
      nc_now_ms_def nc_random_id_def pool_put_def Let_def split: option.split)

lemma prim_channels [simp]:
  "c_channels (ev_put e c) = c_channels c" "c_channels (ctrl_append fr c) = c_channels c"
  "c_channels (buf_write b off d c) = c_channels c" "c_channels (snd (buf_read b off n c)) = c_channels c"
  "c_channels (snd (nc_now_ms c)) = c_channels c" "c_channels (snd (nc_random_id c)) = c_channels c"
  "c_channels (pool_put b c) = c_channels c"
  by (simp_all add: ev_put_def ctrl_append_def buf_write_def buf_read_def
      nc_now_ms_def nc_random_id_def pool_put_def Let_def split: option.split)

lemma pool_get_frame:
  assumes "pool_get c = (x, c')"
  shows "chan_at c' = chan_at c" "in_use c' = in_use c" "c_channels c' = c_channels c"
  using assms by (auto simp: pool_get_def fun_eq_iff chan_at_def in_use_def split: list.splits)

lemma inv_pool_get_none: "netchan_inv_with X Y c \<Longrightarrow> pool_get c = (None, c') \<Longrightarrow> netchan_inv_with X Y c'"
  by (auto simp: pool_get_def split: list.splits)

lemma inv_evs [simp]:
  "netchan_inv_with X Y c \<Longrightarrow> netchan_inv_with X Y (ev_push ty k c)"
  "netchan_inv_with X Y c \<Longrightarrow> netchan_inv_with X Y (ev_push_redirect ad i c)"
  "chan_at (ev_push ty k c) = chan_at c" "in_use (ev_push ty k c) = in_use c"
  "c_channels (ev_push ty k c) = c_channels c"
  by (simp_all add: ev_push_def ev_push_redirect_def)

lemma inv_ctrls [simp]:
  assumes "netchan_inv_with X Y c"
  shows "netchan_inv_with X Y (ctrl_connect_init c)" "netchan_inv_with X Y (ctrl_connect_accept c)"
    "netchan_inv_with X Y (ctrl_disconnect r c)" "netchan_inv_with X Y (ctrl_ping x c)"
    "netchan_inv_with X Y (ctrl_pong x c)" "netchan_inv_with X Y (ctrl_channel_open ch c)"
    "netchan_inv_with X Y (ctrl_channel_close i r c)" "netchan_inv_with X Y (ctrl_window_update i x c)"
  using assms by (simp_all add: ctrl_connect_init_def ctrl_connect_accept_def ctrl_disconnect_def
      ctrl_ping_def ctrl_pong_def ctrl_channel_open_def ctrl_channel_close_def ctrl_window_update_def Let_def)

lemma ctrl_frame [simp]:
  "chan_at (ctrl_window_update i x c) = chan_at c" "in_use (ctrl_window_update i x c) = in_use c"
  "chan_at (ctrl_channel_open ch c) = chan_at c" "in_use (ctrl_channel_open ch c) = in_use c"
  "chan_at (ctrl_channel_close i r c) = chan_at c" "in_use (ctrl_channel_close i r c) = in_use c"
  by (simp_all add: ctrl_channel_open_def ctrl_channel_close_def ctrl_window_update_def Let_def)

subsection \<open>Channel updates\<close>

text \<open>Updates of counters and flags: the parts that the invariant reads stay.\<close>

lemma chan_bufs_cong:
  assumes "ch_outgoing ch' = ch_outgoing ch" "ch_recv_queue ch' = ch_recv_queue ch"
    "ch_reorder ch' = ch_reorder ch" "ch_frags ch' = ch_frags ch"
  shows "chan_bufs ch' = chan_bufs ch"
  using assms by (simp add: chan_bufs_def)

lemma inv_upd_plain:
  assumes "netchan_inv_with X Y c" and "in_use c k"
    and "\<And>ch. ch_outgoing (f ch) = ch_outgoing ch" "\<And>ch. ch_recv_queue (f ch) = ch_recv_queue ch"
    "\<And>ch. ch_reorder (f ch) = ch_reorder ch" "\<And>ch. ch_frags (f ch) = ch_frags ch"
    "\<And>ch. ch_out_head (f ch) = ch_out_head ch" "\<And>ch. ch_out_tail (f ch) = ch_out_tail ch"
    "\<And>ch. ch_rq_head (f ch) = ch_rq_head ch" "\<And>ch. ch_rq_tail (f ch) = ch_rq_tail ch"
  shows "netchan_inv_with X Y (upd_chan k f c)"
  by (rule inv_upd_same) (use assms in \<open>auto simp: chan_ok_def intro!: chan_bufs_cong\<close>)

subsection \<open>Receiving\<close>

lemma enqueue_chan_ok:
  assumes "chan_ok ch" and "Suc (ch_rq_tail ch) mod 64 \<noteq> ch_rq_head ch"
  shows "chan_ok (ch\<lparr>ch_recv_queue := (ch_recv_queue ch)(ch_rq_tail ch := \<lparr>re_buf = Some b, re_len = n\<rparr>),
      ch_rq_tail := Suc (ch_rq_tail ch) mod 64, ch_recv_buffered := x, ch_msgs_recv := y\<rparr>)"
  using assms ring_push [of "ch_rq_head ch" 64 "ch_rq_tail ch"]
  by (auto simp: chan_ok_def)

lemma rq_tail_empty: "chan_ok ch \<Longrightarrow> re_buf (ch_recv_queue ch (ch_rq_tail ch)) = None"
  by (auto simp: chan_ok_def dest: ring_tail_free)

lemma enqueue_accepted:
  assumes "pool_get c = (Some b, c1)" and "length data \<le> NC_MAX_MSG"
    and "Suc (ch_rq_tail (chan_at c k)) mod 64 \<noteq> ch_rq_head (chan_at c k)"
  shows "chan_recv_enqueue k data c = (upd_chan k (\<lambda>ch. ch\<lparr>
                ch_recv_queue := (ch_recv_queue ch)(ch_rq_tail ch := \<lparr>re_buf = Some b, re_len = length data\<rparr>),
                ch_rq_tail := Suc (ch_rq_tail (chan_at c k)) mod 64,
                ch_recv_buffered := ch_recv_buffered ch + of_nat (length data),
                ch_msgs_recv := ch_msgs_recv ch + 1\<rparr>)
              (buf_write (Some b) 0 data c1), NETCHAN_OK)"
  using assms by (simp add: chan_recv_enqueue_def NC_RECV_QUEUE_def)

lemma enqueue_cases:
  obtains (dropped) c1 e where "chan_recv_enqueue k data c = (c1, e)" and "e \<noteq> NETCHAN_OK" and "c1 = c"
  | (queued) b c1 where "pool_get c = (Some b, c1)" and "length data \<le> NC_MAX_MSG"
    and "Suc (ch_rq_tail (chan_at c k)) mod 64 \<noteq> ch_rq_head (chan_at c k)"
    and "chan_recv_enqueue k data c = (upd_chan k (\<lambda>ch. ch\<lparr>
                ch_recv_queue := (ch_recv_queue ch)(ch_rq_tail ch := \<lparr>re_buf = Some b, re_len = length data\<rparr>),
                ch_rq_tail := Suc (ch_rq_tail (chan_at c k)) mod 64,
                ch_recv_buffered := ch_recv_buffered ch + of_nat (length data),
                ch_msgs_recv := ch_msgs_recv ch + 1\<rparr>)
              (buf_write (Some b) 0 data c1), NETCHAN_OK)"
proof (cases "(ch_rq_tail (chan_at c k) + 1) mod NC_RECV_QUEUE = ch_rq_head (chan_at c k) \<or>
    length data > NC_MAX_MSG \<or> c_pool_free c = []")
  case True
  then show ?thesis
    by (intro dropped [of "fst (chan_recv_enqueue k data c)" "snd (chan_recv_enqueue k data c)"])
      (auto simp: chan_recv_enqueue_def Let_def pool_get_def nc_errors)
next
  case False
  then obtain b bs where "c_pool_free c = b # bs" by (auto simp: neq_Nil_conv)
  then have g: "pool_get c = (Some b, c\<lparr>c_pool_free := bs\<rparr>)" by (simp add: pool_get_def)
  show ?thesis
    by (rule queued [OF g _ _ enqueue_accepted [OF g]]) (use False in \<open>simp_all add: NC_RECV_QUEUE_def\<close>)
qed

lemma enqueue_inv:
  assumes "netchan_inv_with X Y c" and "in_use c k"
  shows "netchan_inv_with X Y (fst (chan_recv_enqueue k data c))"
proof (cases k data c rule: enqueue_cases)
  case dropped
  then show ?thesis using assms by simp
next
  case (queued b c1)
  note ok = inv_chan_ok [OF assms]
  have t: "ch_rq_tail (chan_at c k) < 64" using ok by (simp add: chan_ok_def)
  have inv: "netchan_inv_with (add_mset b X) Y (buf_write (Some b) 0 data c1)"
    using inv_pool_get [OF assms(1) queued(1)] by simp
  show ?thesis
    unfolding queued(4) fst_conv
  proof (rule inv_upd_chan [OF inv], goal_cases)
    case 2
    then show ?case using enqueue_chan_ok [OF ok queued(3)] by (simp add: pool_get_frame [OF queued(1)])
  qed (use assms(2) t rq_tail_empty [OF ok] in
      \<open>simp_all add: pool_get_frame [OF queued(1)] chan_bufs_def slot_put\<close>)
qed

lemma chan_at_upd: "chan_at (upd_chan k f c) j = (if j = k then f (chan_at c k) else chan_at c j)"
  by (simp add: upd_chan_def chan_at_def)

lemma enqueue_frame [simp]:
  "in_use (fst (chan_recv_enqueue k data c)) = in_use c"
  "c_channels (fst (chan_recv_enqueue k data c)) = c_channels c"
  "ch_reorder (chan_at (fst (chan_recv_enqueue k data c)) j) = ch_reorder (chan_at c j)"
  "ch_recv_seq (chan_at (fst (chan_recv_enqueue k data c)) j) = ch_recv_seq (chan_at c j)"
  "ch_frags (chan_at (fst (chan_recv_enqueue k data c)) j) = ch_frags (chan_at c j)"
  by (cases k data c rule: enqueue_cases; simp add: pool_get_frame chan_at_upd)+

lemma deliver_one_inv:
  assumes "netchan_inv_with X Y c" and "in_use c k"
  shows "netchan_inv_with X Y (deliver_one k c)"
proof -
  define slot where "slot = unat (ch_recv_seq (chan_at c k)) mod NC_REORDER_SLOTS"
  define r where "r = ch_reorder (chan_at c k) slot"
  define c1 where "c1 = ev_push NETCHAN_EV_DATA (Some k)
    (fst (chan_recv_enqueue k (fst (buf_read (ro_buf r) 0 (ro_len r) c)) (snd (buf_read (ro_buf r) 0 (ro_len r) c))))"
  have s: "slot < 64" by (simp add: slot_def NC_REORDER_SLOTS_def)
  have inv1: "netchan_inv_with X Y c1" and k1: "in_use c1 k"
    using assms by (simp_all add: c1_def enqueue_inv)
  have r1: "ch_reorder (chan_at c1 k) slot = r" by (simp add: c1_def r_def)
  have "netchan_inv_with X Y (upd_chan k (\<lambda>ch. ch\<lparr>ch_reorder := (ch_reorder ch)(slot := r\<lparr>ro_buf := None,
      ro_valid := False\<rparr>), ch_recv_seq := ch_recv_seq ch + 1\<rparr>) (pool_put (ro_buf r) c1))"
    by (rule inv_upd_chan [OF inv_pool_put [OF inv1]])
      (use k1 r1 s inv_chan_ok [OF inv1 k1] slot_clear [OF s, of ro_buf "r\<lparr>ro_buf := None, ro_valid := False\<rparr>" "ch_reorder (chan_at c1 k)"]
        in \<open>auto simp: chan_ok_def chan_bufs_def ac_simps\<close>)
  then show ?thesis
    by (simp add: deliver_one_def Let_def case_prod_beta c1_def r_def slot_def)
qed


lemma deliver_one_in_use [simp]: "in_use (deliver_one k c) = in_use c"
  by (simp add: deliver_one_def Let_def case_prod_beta)

lemma deliver_inv:
  "netchan_inv_with X Y c \<Longrightarrow> in_use c k \<Longrightarrow> netchan_inv_with X Y (deliver_loop n k c)"
  by (induction n arbitrary: c) (simp_all add: deliver_one_inv)

lemma deliver_in_use [simp]: "in_use (deliver_loop n k c) = in_use c"
  by (induction n arbitrary: c) simp_all

lemma reorder_store_inv:
  assumes "netchan_inv_with X Y c" and "in_use c k"
  shows "netchan_inv_with X Y (reorder_store k seq data c) \<and> in_use (reorder_store k seq data c) k"
proof (cases "0 < sint (seq - ch_recv_seq (chan_at c k)) \<and> sint (seq - ch_recv_seq (chan_at c k)) < int NC_REORDER_SLOTS \<and>
    \<not> ro_valid (ch_reorder (chan_at c k) (unat seq mod NC_REORDER_SLOTS)) \<and> length data \<le> NC_MAX_MSG \<and> c_pool_free c \<noteq> []")
  case False
  then have "reorder_store k seq data c = c"
    by (auto simp: reorder_store_def Let_def pool_get_def)
  with assms show ?thesis by simp
next
  case True
  then obtain b bs where "c_pool_free c = b # bs" by (auto simp: neq_Nil_conv)
  then have g: "pool_get c = (Some b, c\<lparr>c_pool_free := bs\<rparr>)" (is "_ = (_, ?c1)") by (simp add: pool_get_def)
  note ok = inv_chan_ok [OF assms]
  define slot where "slot = unat seq mod 64"
  have s: "slot < 64" by (simp add: slot_def)
  have empty: "ro_buf (ch_reorder (chan_at c k) slot) = None"
    using True ok s by (auto simp: chan_ok_def slot_def NC_REORDER_SLOTS_def)
  have inv: "netchan_inv_with (add_mset b X) Y (buf_write (Some b) 0 data ?c1)"
    using inv_pool_get [OF assms(1) g] by simp
  have "netchan_inv_with X Y (upd_chan k (\<lambda>ch. ch\<lparr>ch_reorder := (ch_reorder ch)(slot := \<lparr>ro_seq = seq, ro_buf = Some b,
      ro_len = length data, ro_valid = True\<rparr>)\<rparr>) (buf_write (Some b) 0 data ?c1))"
    by (rule inv_upd_chan [OF inv])
      (use assms(2) s empty ok in \<open>simp_all add: pool_get_frame [OF g] chan_bufs_def slot_put chan_ok_def\<close>)
  then show ?thesis
    using True g assms(2) pool_get_frame [OF g]
    by (simp add: reorder_store_def slot_def NC_REORDER_SLOTS_def)
qed

lemma reliable_message_inv:
  assumes "netchan_inv_with X Y c" and "in_use c k"
  shows "netchan_inv_with X Y (reliable_message k seq data c) \<and> in_use (reliable_message k seq data c) k"
proof (cases "seq = ch_recv_seq (chan_at c k)")
  case True
  have "netchan_inv_with X Y (upd_chan k (\<lambda>ch. ch\<lparr>ch_recv_seq := ch_recv_seq ch + 1\<rparr>)
      (ev_push NETCHAN_EV_DATA (Some k) (fst (chan_recv_enqueue k data c))))"
    using assms by (auto intro!: inv_upd_plain simp: enqueue_inv)
  then show ?thesis
    using True assms by (simp add: reliable_message_def Let_def chan_deliver_reordered_def deliver_inv)
next
  case False
  then show ?thesis using reorder_store_inv [OF assms] by (simp add: reliable_message_def)
qed

subsection \<open>Reassembly\<close>

lemma find_slot: "find P [0..<n] = Some i \<Longrightarrow> i < n \<and> P i"
  by (auto simp: find_Some_iff)

lemma frag_alloc_inv:
  assumes "netchan_inv_with X Y c" and "in_use c k" and "frag_alloc k seq tot c = (r, c')"
  shows "netchan_inv_with X Y c'" and "in_use c' = in_use c" and "\<forall>j. r = Some j \<longrightarrow> j < 4"
proof -
  have all: "netchan_inv_with X Y c' \<and> in_use c' = in_use c \<and> (\<forall>j. r = Some j \<longrightarrow> j < 4)"
  proof (cases r)
    case None
    then have "c' = c"
      using assms(3) by (auto simp: frag_alloc_def pool_get_def split: if_splits option.splits list.splits prod.splits)
    with None assms(1) show ?thesis by simp
  next
    case (Some i)
    then obtain b c1 where g: "pool_get c = (Some b, c1)"
      and f: "find (\<lambda>i. \<not> fa_active (ch_frags (chan_at c k) i)) [0..<4] = Some i"
      and c': "c' = upd_chan k (\<lambda>ch. ch\<lparr>ch_frags := (ch_frags ch)(i := zero_frag\<lparr>fa_seq := seq,
                    fa_total := tot, fa_active := True, fa_buf := Some b\<rparr>)\<rparr>) c1"
      using assms(3) by (auto simp: frag_alloc_def NC_FRAG_SLOTS_def split: if_splits option.splits prod.splits)
    note i = find_slot [OF f] and ok = inv_chan_ok [OF assms(1,2)]
    then have "fa_buf (ch_frags (chan_at c k) i) = None" by (auto simp: chan_ok_def)
    then have "netchan_inv_with X Y c'"
      unfolding c' by (intro inv_upd_chan [OF inv_pool_get [OF assms(1) g]])
        (use assms(2) i ok in \<open>simp_all add: pool_get_frame [OF g] chan_bufs_def slot_put chan_ok_def\<close>)
    with Some i c' show ?thesis by (simp add: pool_get_frame [OF g])
  qed
  then show "netchan_inv_with X Y c'" "in_use c' = in_use c" "\<forall>j. r = Some j \<longrightarrow> j < 4" by simp_all
qed

lemma frag_free_inv:
  assumes "netchan_inv_with X Y c" and "in_use c k" and "j < 4"
  shows "netchan_inv_with X Y (frag_free k j c) \<and> in_use (frag_free k j c) k"
proof -
  have "netchan_inv_with X Y (frag_free k j c)"
    unfolding frag_free_def
    by (rule inv_upd_chan [OF inv_pool_put [OF assms(1)]])
      (use assms inv_chan_ok [OF assms(1,2)] slot_clear [OF assms(3), of fa_buf zero_frag "ch_frags (chan_at c k)"]
        in \<open>auto simp: chan_ok_def chan_bufs_def zero_frag_def ac_simps\<close>)
  with assms(2) show ?thesis by (simp add: frag_free_def)
qed

lemma frag_move_inv:
  "netchan_inv_with X Y c \<Longrightarrow> netchan_inv_with X Y (snd (frag_move fp f i (pos, c))) \<and>
     chan_at (snd (frag_move fp f i (pos, c))) = chan_at c \<and> in_use (snd (frag_move fp f i (pos, c))) = in_use c"
  by (simp add: frag_move_def case_prod_beta Let_def)

lemma frag_compact_inv:
  assumes "netchan_inv_with X Y c"
  shows "netchan_inv_with X Y (snd (frag_compact f c)) \<and> chan_at (snd (frag_compact f c)) = chan_at c \<and>
     in_use (snd (frag_compact f c)) = in_use c"
proof -
  have "netchan_inv_with X Y (snd s) \<Longrightarrow> netchan_inv_with X Y (snd (fold (frag_move fp f) is s)) \<and>
      chan_at (snd (fold (frag_move fp f) is s)) = chan_at (snd s) \<and>
      in_use (snd (fold (frag_move fp f) is s)) = in_use (snd s)" for fp "is" and s :: "nat \<times> netchan_conn"
  proof (induction "is" arbitrary: s)
    case (Cons i "is")
    then show ?case using frag_move_inv [of X Y "snd s" fp f i "fst s"] by simp
  qed simp
  from this [of "(0, c)"] assms show ?thesis by (simp add: frag_compact_def)
qed


text \<open>Storing one fragment in slot \<open>j\<close> and, when it was the last, compacting the message.\<close>

lemma frag_keep_inv:
  assumes "netchan_inv_with X Y c" and "in_use c k" and "j < 4"
    and "fa_buf f = fa_buf (ch_frags (chan_at c k) j)" and "fa_active f = fa_active (ch_frags (chan_at c k) j)"
  shows "netchan_inv_with X Y (upd_chan k (\<lambda>ch. ch\<lparr>ch_frags := (ch_frags ch)(j := f)\<rparr>) c)"
  by (rule inv_upd_same [OF assms(1,2)]) (use assms in \<open>auto simp: chan_ok_def chan_bufs_def slot_keep\<close>)

lemma frag_store_inv:
  assumes "netchan_inv_with X Y c" and "in_use c k" and "frag_store k seq fi ft payload c = (r, c')"
  shows "netchan_inv_with X Y c' \<and> in_use c' k \<and> (\<forall>j pos. r = Some (j, pos) \<longrightarrow> j < 4)"
proof -
  obtain x c1 where s: "(case frag_find (chan_at c k) seq of Some j \<Rightarrow> (Some j, c) | None \<Rightarrow> frag_alloc k seq ft c) = (x, c1)"
    by (metis surj_pair)
  have 1: "netchan_inv_with X Y c1" "in_use c1 k" "\<forall>j. x = Some j \<longrightarrow> j < 4"
    using s assms(1,2) frag_alloc_inv [OF assms(1,2)]
    by (auto simp: frag_find_def NC_FRAG_SLOTS_def dest!: find_slot split: option.splits)
  show ?thesis
  proof (cases x)
    case None
    then show ?thesis using s 1 assms(3) by (simp add: frag_store_def)
  next
    case (Some j)
    define f where "f = ch_frags (chan_at c1 k) j"
    define f' where "f' = f\<lparr>fa_offsets := (fa_offsets f)(unat fi := length payload),
      fa_bitmask := fa_bitmask f OR push_bit (unat fi) 1, fa_have := fa_have f + 1\<rparr>"
    define c2 where "c2 = upd_chan k (\<lambda>ch. ch\<lparr>ch_frags := (ch_frags ch)(j := f')\<rparr>)
      (buf_write (fa_buf f) (unat fi * max_frag_payload c1) payload c1)"
    have j: "j < 4" using Some 1 by simp
    have 2: "netchan_inv_with X Y c2" "in_use c2 k"
      unfolding c2_def by (rule frag_keep_inv) (use 1 j in \<open>simp_all add: f'_def f_def\<close>)
    have "c' = c1 \<and> r = None \<or> c' = c2 \<and> r = None \<or>
        (c' = snd (frag_compact f' c2) \<and> r = Some (j, fst (frag_compact f' c2)))"
      using assms(3) s Some
      unfolding frag_store_def Let_def c2_def f'_def f_def
      by (auto split: if_splits prod.splits)
    then show ?thesis
      using 1 2 j frag_compact_inv [OF 2(1), of f'] by auto
  qed
qed

lemma data_unreliable_inv:
  assumes "netchan_inv_with X Y c" and "in_use c k"
  shows "netchan_inv_with X Y (data_unreliable k seq fi ft payload c)"
proof (cases "ft \<le> 1")
  case True
  then show ?thesis using assms by (simp add: data_unreliable_def enqueue_inv)
next
  case False
  obtain r c1 where s: "frag_store k seq fi ft payload c = (r, c1)" by (metis surj_pair)
  note 1 = frag_store_inv [OF assms s]
  show ?thesis
  proof (cases r)
    case None
    then show ?thesis using False s 1 by (simp add: data_unreliable_def)
  next
    case (Some jp)
    then show ?thesis
      using False s 1
      by (cases jp) (auto simp: data_unreliable_def Let_def case_prod_beta enqueue_inv
          intro!: frag_free_inv [THEN conjunct1])
  qed
qed

lemma data_reliable_inv:
  assumes "netchan_inv_with X Y c" and "in_use c k"
  shows "netchan_inv_with X Y (data_reliable k seq fi ft payload c)"
proof -
  obtain r c1 where s: "frag_store k seq fi ft payload c = (r, c1)" by (metis surj_pair)
  define c2 where "c2 = (if ft \<le> 1 then reliable_message k seq payload c
    else case r of None \<Rightarrow> c1
    | Some (j, pos) \<Rightarrow> frag_free k j (reliable_message k seq (fst (buf_read (fa_buf (ch_frags (chan_at c1 k) j)) 0 pos c1))
        (snd (buf_read (fa_buf (ch_frags (chan_at c1 k) j)) 0 pos c1))))"
  note 1 = frag_store_inv [OF assms s]
  have 2: "netchan_inv_with X Y c2 \<and> in_use c2 k"
  proof (cases "ft \<le> 1 \<or> r = None")
    case True
    then show ?thesis using 1 reliable_message_inv [OF assms] by (auto simp: c2_def)
  next
    case False
    then obtain j pos where jp: "r = Some (j, pos)" by (cases r) auto
    let ?b = "snd (buf_read (fa_buf (ch_frags (chan_at c1 k) j)) 0 pos c1)"
    have "netchan_inv_with X Y ?b" "in_use ?b k" using 1 by simp_all
    from reliable_message_inv [OF this] have m: "netchan_inv_with X Y (reliable_message k seq d ?b)"
        "in_use (reliable_message k seq d ?b) k" for d by auto
    have "j < 4" using 1 jp by simp
    from frag_free_inv [OF m this] False jp show ?thesis by (simp add: c2_def)
  qed
  have "data_reliable k seq fi ft payload c = upd_chan k (\<lambda>ch. ch\<lparr>ch_need_ack := True,
      ch_ack_seq := (if 0 < ch_recv_seq ch then ch_recv_seq ch - 1 else 0)\<rparr>) c2"
    using s unfolding data_reliable_def c2_def Let_def by (auto simp: case_prod_beta split: option.split)
  then show ?thesis using 2 by (auto intro!: inv_upd_plain)
qed


subsection \<open>Acknowledgements\<close>

lemma advance_loop_frame:
  "chan_ok ch \<Longrightarrow> chan_ok (advance_loop n ch) \<and> ch_outgoing (advance_loop n ch) = ch_outgoing ch \<and>
     ch_recv_queue (advance_loop n ch) = ch_recv_queue ch \<and> ch_reorder (advance_loop n ch) = ch_reorder ch \<and>
     ch_frags (advance_loop n ch) = ch_frags ch"
proof (induction n arbitrary: ch)
  case (Suc n)
  show ?case
  proof (cases "ch_out_head ch \<noteq> ch_out_tail ch \<and> \<not> o_active (ch_outgoing ch (ch_out_head ch))")
    case True
    let ?ch = "ch\<lparr>ch_out_head := (ch_out_head ch + 1) mod NC_OUTGOING_SLOTS\<rparr>"
    have "set (ring_slots 64 (ch_out_head ch) (ch_out_tail ch)) =
        insert (ch_out_head ch) (set (ring_slots 64 (Suc (ch_out_head ch) mod 64) (ch_out_tail ch)))"
      using True Suc.prems by (subst ring_pop) (auto simp: chan_ok_def)
    then have "chan_ok ?ch"
      using True Suc.prems by (auto simp: chan_ok_def NC_OUTGOING_SLOTS_def)
    with Suc.IH [of ?ch] True show ?thesis by simp
  next
    case False
    with Suc.prems show ?thesis by auto
  qed
qed simp

lemma advance_head_inv:
  assumes "netchan_inv_with X Y c" and "in_use c k"
  shows "netchan_inv_with X Y (upd_chan k advance_head c)"
  by (rule inv_upd_same [OF assms])
    (use advance_loop_frame [OF inv_chan_ok [OF assms], of NC_OUTGOING_SLOTS] in
      \<open>auto simp: advance_head_def chan_bufs_def\<close>)

text \<open>Returning the buffer of an outgoing slot and marking the slot free.\<close>

lemma out_release_inv:
  assumes "netchan_inv_with X Y c" and "in_use c k" and "i < 64"
    and "o_buf ou = o_buf (ch_outgoing (chan_at c k) i)"
    and f: "\<And>ch. ch_outgoing (f ch) = (ch_outgoing ch)(i := ou\<lparr>o_buf := None, o_active := False\<rparr>)"
    "\<And>ch. ch_recv_queue (f ch) = ch_recv_queue ch" "\<And>ch. ch_reorder (f ch) = ch_reorder ch"
    "\<And>ch. ch_frags (f ch) = ch_frags ch"
    "\<And>ch. ch_out_head (f ch) = ch_out_head ch" "\<And>ch. ch_out_tail (f ch) = ch_out_tail ch"
    "\<And>ch. ch_rq_head (f ch) = ch_rq_head ch" "\<And>ch. ch_rq_tail (f ch) = ch_rq_tail ch"
  shows "netchan_inv_with X Y (upd_chan k f (pool_put (o_buf ou) c))"
  by (rule inv_upd_chan [OF inv_pool_put [OF assms(1)]])
    (use assms inv_chan_ok [OF assms(1,2)]
      slot_clear [OF assms(3), of o_buf "ou\<lparr>o_buf := None, o_active := False\<rparr>" "ch_outgoing (chan_at c k)"]
      in \<open>auto simp: chan_ok_def chan_bufs_def ac_simps\<close>)

lemma ack_slot_inv:
  assumes "netchan_inv_with X Y c" and "in_use c k" and "i < 64"
  shows "netchan_inv_with X Y (ack_slot k seq i c) \<and> in_use (ack_slot k seq i c) k"
  using assms by (auto simp: ack_slot_def Let_def intro!: out_release_inv)

lemma ack_slots_inv:
  assumes "netchan_inv_with X Y c" and "in_use c k" and "set is \<subseteq> {..<64}"
  shows "netchan_inv_with X Y (fold (ack_slot k seq) is c) \<and> in_use (fold (ack_slot k seq) is c) k"
  using assms
proof (induction "is" arbitrary: c)
  case (Cons i "is")
  then show ?case using ack_slot_inv [OF Cons.prems(1,2), of i seq] by simp
qed simp

subsection \<open>Frames and packets\<close>

lemma zero_chan_ok: "chan_ok (zero_chan\<lparr>ch_id := i, ch_type := ty, ch_dir := dir, ch_role := role,
    ch_content_type := ct, ch_recv_window := w\<rparr>)"
  by (simp add: chan_ok_def zero_chan_def zero_outgoing_def zero_frag_def)

lemma zero_chan_bufs: "chan_bufs (zero_chan\<lparr>ch_id := i, ch_type := ty, ch_dir := dir, ch_role := role,
    ch_content_type := ct, ch_recv_window := w\<rparr>) = {#}"
  by (simp add: chan_bufs_def zero_chan_def zero_outgoing_def zero_frag_def)

lemma chan_new_inv:
  assumes "netchan_inv_with X Y c" and "chan_new i ty dir role ct c = (r, c')"
  shows "netchan_inv_with X Y c' \<and> (\<forall>k. r = Some k \<longrightarrow> in_use c' k)"
proof (cases "find (\<lambda>i. \<not> c_chan_used c i) [0..<NC_MAX_CHAN]")
  case None
  with assms show ?thesis by (simp add: chan_new_def)
next
  case (Some s)
  note s = find_slot [OF Some]
  define ch where "ch = zero_chan\<lparr>ch_id := i, ch_type := ty, ch_dir := dir, ch_role := role,
    ch_content_type := take 63 (takeWhile (\<lambda>b. b \<noteq> 0) ct), ch_recv_window := cfg_chan_window (c_cfg c)\<rparr>"
  have c': "r = Some s" "c' = c\<lparr>c_chan_pool := (c_chan_pool c)(s := ch), c_chan_used := (c_chan_used c)(s := True),
      c_channels := (c_channels c)(i := Some s)\<rparr>"
    using assms(2) Some by (auto simp: chan_new_def ch_def)
  have u: "in_use c' j \<longleftrightarrow> j = s \<or> in_use c j" for j
    using s by (auto simp: c' in_use_def)
  have at: "chan_at c' j = (if j = s then ch else chan_at c j)" for j
    by (simp add: c' chan_at_def)
  have "{j. in_use c' j} = insert s {j. in_use c j}" using u by auto
  moreover have "s \<notin> {j. in_use c j}" using s by (simp add: in_use_def)
  moreover have "chan_bufs ch = {#}" unfolding ch_def by (rule zero_chan_bufs)
  ultimately have "owned c' = owned c"
    unfolding owned_def by (auto simp: at sum.insert intro!: sum.cong)
  moreover have "chan_ok ch" unfolding ch_def by (rule zero_chan_ok)
  moreover have "c_pool_free c' = c_pool_free c" "c_channels c' = (c_channels c)(i := Some s)"
    "ev_ok c' = ev_ok c" "c_ctrl_buf c' = c_ctrl_buf c"
    by (simp_all add: c' ev_ok_def)
  ultimately show ?thesis
    using assms(1) u c'(1) by (auto simp: netchan_inv_with_def at)
qed


lemma connection_frames_inv:
  assumes "netchan_inv_with X Y c"
  shows "netchan_inv_with X Y (fst (process_connect_init p c))" "netchan_inv_with X Y (fst (process_connect_accept p c))"
    "netchan_inv_with X Y (fst (process_connect_redirect p c))" "netchan_inv_with X Y (fst (process_disconnect p c))"
    "netchan_inv_with X Y (fst (process_ping p c))" "netchan_inv_with X Y (fst (process_pong p c))"
  using assms by (simp_all add: frame_handlers Let_def case_prod_beta)

lemma process_channel_open_inv:
  assumes "netchan_inv_with X Y c"
  shows "netchan_inv_with X Y (fst (process_channel_open p c))"
proof -
  define role where "role = (if unat (p ! 3) = NETCHAN_DIR_SEND then 1 else 0 :: nat)"
  define n where "n = chan_new (p ! Suc 0) (unat (p ! 2)) (unat (p ! 3)) role (take (min (unat (p ! 4)) 63) (drop 5 p)) c"
  obtain r c1 where rc: "n = (r, c1)" by (cases n)
  note 1 = chan_new_inv [OF assms rc [unfolded n_def]]
  show ?thesis
  proof (cases r)
    case None
    then show ?thesis
      using assms 1 rc by (simp add: process_channel_open_def Let_def flip: role_def, simp add: flip: n_def)
  next
    case (Some k)
    have "netchan_inv_with X Y (upd_chan k (\<lambda>ch. ch\<lparr>ch_state := 1\<rparr>) c1)"
      by (rule inv_upd_plain) (use 1 Some in simp_all)
    then show ?thesis
      using assms rc Some by (simp add: process_channel_open_def Let_def flip: role_def, simp add: Let_def flip: n_def)
  qed
qed

lemma channel_frames_inv:
  assumes "netchan_inv_with X Y c"
  shows "netchan_inv_with X Y (fst (process_channel_close p c))" "netchan_inv_with X Y (fst (process_data p c))"
    "netchan_inv_with X Y (fst (process_ack p c))" "netchan_inv_with X Y (fst (process_window_update p c))"
proof -
  note use = inv_channel [OF assms]
  show "netchan_inv_with X Y (fst (process_channel_close p c))"
    using assms use by (auto simp: process_channel_close_def split: option.split intro!: inv_evs(1) inv_upd_plain)
  show "netchan_inv_with X Y (fst (process_window_update p c))"
    using assms use by (auto simp: process_window_update_def split: option.split intro!: inv_upd_plain)
  show "netchan_inv_with X Y (fst (process_data p c))"
    using assms use by (auto simp: process_data_def Let_def data_reliable_inv data_unreliable_inv split: option.split)
  show "netchan_inv_with X Y (fst (process_ack p c))"
  proof (cases "c_channels c (p ! 1)")
    case (Some k)
    have "netchan_inv_with X Y (fold (ack_slot k (rd16 p 2)) [0..<64] c) \<and> in_use (fold (ack_slot k (rd16 p 2)) [0..<64] c) k"
      by (rule ack_slots_inv [OF assms use [OF Some]]) auto
    with assms Some show ?thesis
      by (simp add: process_ack_def NC_OUTGOING_SLOTS_def advance_head_inv)
  qed (use assms in \<open>simp add: process_ack_def\<close>)
qed

lemma process_frame_inv: "netchan_inv_with X Y c \<Longrightarrow> netchan_inv_with X Y (fst (process_frame p c))"
  unfolding process_frame_def Let_def
  by (simp add: connection_frames_inv process_channel_open_inv channel_frames_inv)

text \<open>One step of the parser, with the result of the handler named.\<close>

lemma parse_frames_step:
  assumes "process_frame (b # rest) c = (c', n)"
  shows "parse_frames (b # rest) c =
    (if b = NC_FRAME_PADDING then parse_frames rest c
     else if n < 0 then (c', n) else parse_frames (drop (nat n) (b # rest)) c')"
  by (subst parse_frames.simps(2)) (simp only: assms Let_def prod.case)

lemma parse_frames_inv: "netchan_inv_with X Y c \<Longrightarrow> netchan_inv_with X Y (fst (parse_frames p c))"
proof (induction p c rule: parse_frames.induct)
  case (2 b rest c)
  obtain c' n where f: "process_frame (b # rest) c = (c', n)" by (metis surj_pair)
  have c': "netchan_inv_with X Y c'" using process_frame_inv [OF 2(3), of "b # rest"] f by simp
  have "netchan_inv_with X Y (fst (parse_frames (drop (nat n) (b # rest)) c'))" if "\<not> n < 0" "b \<noteq> NC_FRAME_PADDING"
    using 2(2) [OF that(2) f [symmetric] refl that(1) c'] .
  then show ?case
    unfolding parse_frames_step [OF f] using 2(1) [OF _ 2(3)] c' by (auto simp del: drop_Suc_Cons)
qed simp

text \<open>\<open>netchan_feed\<close> in two steps: what it does before it parses, and the frames it parses.\<close>

definition feed_entry :: "u8 list \<Rightarrow> nc_addr \<Rightarrow> netchan_conn \<Rightarrow> netchan_conn" where
  "feed_entry frames from c =
    (let c1 = (if from \<noteq> [] \<and> c_peer_addr c \<noteq> [] \<and> c_state c = NETCHAN_STATE_CONNECTED \<and>
                  from \<noteq> c_peer_addr c \<and> validate_migration frames c
               then c\<lparr>c_peer_addr := from\<rparr> else c);
         c2 = (if c_peer_addr c1 = [] \<and> from \<noteq> [] then c1\<lparr>c_peer_addr := from\<rparr> else c1);
         c3 = snd (nc_now_ms c2)
     in c3\<lparr>c_last_recv_ms := fst (nc_now_ms c2), c_pkts_recv := c_pkts_recv c3 + 1\<rparr>)"

definition feed_frames :: "u8 list \<Rightarrow> u8 list" where
  "feed_frames p = drop (if p ! 0 AND NC_PKT_FLAG_INIT \<noteq> 0 then NC_HDR_INIT_SIZE else NC_HDR_FULL_SIZE) p"

lemma netchan_feed_alt:
  "netchan_feed p from c =
    (if length p < NC_HDR_INIT_SIZE \<or> p ! 0 AND NC_PKT_FLAG_INIT = 0 \<and>
        (length p < NC_HDR_FULL_SIZE \<or> rd32 p 1 \<noteq> c_local_id c)
     then (c, NETCHAN_ERR_PROTO)
     else parse_frames (feed_frames p) (feed_entry (feed_frames p) from c))"
proof -
  have prod: "(case x of (a, b) \<Rightarrow> f a b) = f (fst x) (snd x)" for x :: "u32 \<times> netchan_conn"
      and f :: "_ \<Rightarrow> _ \<Rightarrow> netchan_conn \<times> int"
    by (cases x) simp
  have "netchan_feed p from c =
    (if length p < NC_HDR_INIT_SIZE then (c, NETCHAN_ERR_PROTO)
     else if \<not> p ! 0 AND NC_PKT_FLAG_INIT \<noteq> 0 \<and> length p < NC_HDR_FULL_SIZE then (c, NETCHAN_ERR_PROTO)
     else if \<not> p ! 0 AND NC_PKT_FLAG_INIT \<noteq> 0 \<and> rd32 p 1 \<noteq> c_local_id c then (c, NETCHAN_ERR_PROTO)
     else parse_frames (feed_frames p) (feed_entry (feed_frames p) from c))"
    unfolding netchan_feed_def feed_entry_def feed_frames_def Let_def prod ..
  then show ?thesis by argo
qed

lemma inv_if: "netchan_inv_with X Y a \<Longrightarrow> netchan_inv_with X Y b \<Longrightarrow> netchan_inv_with X Y (if P then a else b)"
  by simp

definition feed_peer :: "u8 list \<Rightarrow> nc_addr \<Rightarrow> netchan_conn \<Rightarrow> nc_addr" where
  "feed_peer frames from c =
    (if from \<noteq> [] \<and> (c_peer_addr c = [] \<or> c_state c = NETCHAN_STATE_CONNECTED \<and> validate_migration frames c)
     then from else c_peer_addr c)"

lemma feed_entry_eq:
  "feed_entry frames from c = c\<lparr>c_peer_addr := feed_peer frames from c, c_last_recv_ms := c_clock c 0,
     c_pkts_recv := c_pkts_recv c + 1, c_clock := \<lambda>n. c_clock c (n + 1)\<rparr>"
proof (cases "from \<noteq> [] \<and> c_peer_addr c \<noteq> [] \<and> c_state c = NETCHAN_STATE_CONNECTED \<and>
    from \<noteq> c_peer_addr c \<and> validate_migration frames c")
  case True
  then have "feed_peer frames from c = from" by (auto simp: feed_peer_def)
  with True show ?thesis unfolding feed_entry_def Let_def nc_now_ms_def by (simp only: if_True) simp
next
  case False
  show ?thesis
  proof (cases "c_peer_addr c = [] \<and> from \<noteq> []")
    case True
    then have "feed_peer frames from c = from" by (simp add: feed_peer_def)
    with True show ?thesis unfolding feed_entry_def Let_def nc_now_ms_def by simp
  next
    case keep: False
    with False have "feed_peer frames from c = c_peer_addr c" by (auto simp: feed_peer_def)
    with False keep show ?thesis unfolding feed_entry_def Let_def nc_now_ms_def by (simp only: if_False) simp
  qed
qed

lemma feed_entry_inv: "netchan_inv_with X Y c \<Longrightarrow> netchan_inv_with X Y (feed_entry frames from c)"
  by (simp add: feed_entry_eq)

lemma netchan_feed_inv:
  assumes "netchan_inv_with X Y c"
  shows "netchan_inv_with X Y (fst (netchan_feed p from c))"
  unfolding netchan_feed_alt if_distrib [of fst] fst_conv
  by (intro inv_if assms parse_frames_inv feed_entry_inv)

end
