(* ===== verification/Nc_Session.thy ===== *)
theory Nc_Session
  imports Nc_Inv
begin

text \<open>
  The sending half keeps the invariant too, and with it every sequence of calls: a session is a
  step relation over the calls of the interface, with arbitrary packets, times and buffer sizes from
  outside, and the invariant holds in every state it reaches.
\<close>

subsection \<open>Building a packet\<close>

lemma sendable_slot:
  "sendable_loop n idx ch = Some j \<Longrightarrow> idx < 64 \<Longrightarrow> j < 64 \<and> o_active (ch_outgoing ch j)"
  by (induction n arbitrary: idx) (auto simp: NC_OUTGOING_SLOTS_def split: if_splits)

lemma next_sendable_slot:
  assumes "chan_ok ch" and "chan_next_sendable ch = Some j"
  shows "j < 64 \<and> o_active (ch_outgoing ch j)"
  using sendable_slot assms by (auto simp: chan_next_sendable_def chan_ok_def)

lemma send_header_inv: "netchan_inv_with X Y c \<Longrightarrow> netchan_inv_with X Y (snd (send_header c))"
  by (simp add: send_header_def)

lemma flush_ctrl_inv:
  assumes "netchan_inv_with X Y (snd s)"
  shows "netchan_inv_with X Y (snd (flush_ctrl buflen mtu s))"
proof -
  let ?c = "snd s"
  have "netchan_inv_with X Y (?c\<lparr>c_ctrl_buf := xs\<rparr>)" if "length xs \<le> length (c_ctrl_buf ?c)" for xs
    by (rule same_res_inv [OF _ assms]) (use inv_ev [OF assms] that in \<open>auto simp: same_res_def ev_ok_def\<close>)
  then show ?thesis by (cases s) (simp add: flush_ctrl_def Let_def)
qed

lemma put_inv:
  assumes "netchan_inv_with X Y (snd s)" and "in_use (snd s) k"
  shows "netchan_inv_with X Y (snd (put_ack mtu k s)) \<and> in_use (snd (put_ack mtu k s)) k"
    and "netchan_inv_with X Y (snd (put_window mtu k s))"
  using assms by (auto simp: put_ack_def put_window_def Let_def split: prod.split intro!: inv_upd_plain)

lemma flush_acks_inv: "netchan_inv_with X Y (snd s) \<Longrightarrow> netchan_inv_with X Y (snd (flush_acks is mtu s))"
proof (induction "is" mtu s rule: flush_acks.induct)
  case (2 i rest mtu s)
  have "netchan_inv_with X Y (snd (put_window mtu k (put_ack mtu k s)))" if "c_channels (snd s) (of_nat i) = Some k" for k
    using put_inv(1) [OF 2(2) inv_channel [OF 2(2) that], of mtu] put_inv(2) by blast
  with 2 show ?case by (auto split: option.split)
qed simp

lemma out_keep_inv:
  assumes "netchan_inv_with X Y c" and "in_use c k" and "j < 64"
    and "o_buf ou = o_buf (ch_outgoing (chan_at c k) j)" and "o_active ou = o_active (ch_outgoing (chan_at c k) j)"
    and f: "\<And>ch. ch_outgoing (f ch) = (ch_outgoing ch)(j := ou)"
    "\<And>ch. ch_recv_queue (f ch) = ch_recv_queue ch" "\<And>ch. ch_reorder (f ch) = ch_reorder ch"
    "\<And>ch. ch_frags (f ch) = ch_frags ch"
    "\<And>ch. ch_out_head (f ch) = ch_out_head ch" "\<And>ch. ch_out_tail (f ch) = ch_out_tail ch"
    "\<And>ch. ch_rq_head (f ch) = ch_rq_head ch" "\<And>ch. ch_rq_tail (f ch) = ch_rq_tail ch"
  shows "netchan_inv_with X Y (upd_chan k f c)"
  by (rule inv_upd_same [OF assms(1,2)]) (use assms in \<open>auto simp: chan_ok_def chan_bufs_def slot_keep\<close>)

lemma send_fragment_inv:
  assumes "netchan_inv_with X Y (snd s)" and "in_use (snd s) k" and "j < 64"
  shows "netchan_inv_with X Y (snd (send_fragment k j s))"
proof -
  define ou where "ou = ch_outgoing (chan_at (snd s) k) j"
  define fr where "fr = frag_at (max_frag_payload (snd s)) ou"
  define c1 where "c1 = snd (buf_read (o_buf ou) (fst fr) (snd fr) (snd s))"
  define ou' where "ou' = ou\<lparr>o_frag_sent := o_frag_sent ou + 1, o_sent_ms := fst (nc_now_ms c1),
               o_attempts := (if o_attempts ou = 0 then 1 else o_attempts ou)\<rparr>"
  define c2 where "c2 = upd_chan k (\<lambda>ch. ch\<lparr>ch_outgoing := (ch_outgoing ch)(j := ou')\<rparr>) (snd (nc_now_ms c1))"
  define c3 where "c3 = upd_chan k (\<lambda>ch. ch\<lparr>ch_outgoing := (ch_outgoing ch)(j := ou'\<lparr>o_buf := None,
                 o_active := False\<rparr>)\<rparr>) (pool_put (o_buf ou') c2)"
  have 2: "netchan_inv_with X Y c2" "in_use c2 k" "o_buf ou' = o_buf (ch_outgoing (chan_at c2 k) j)"
    unfolding c2_def using assms
    by (auto intro!: out_keep_inv [where ou = ou'] simp: chan_at_upd) (simp_all add: c1_def ou'_def ou_def)
  have 3: "netchan_inv_with X Y c3" "in_use c3 k"
    unfolding c3_def by (rule out_release_inv) (use 2 assms(3) in simp_all)
  have "upd_chan k (\<lambda>ch. advance_head (ch\<lparr>ch_outgoing := (ch_outgoing ch)(j := ou'\<lparr>o_buf := None,
                 o_active := False\<rparr>)\<rparr>)) (pool_put (o_buf ou') c2) = upd_chan k advance_head c3"
    by (simp add: c3_def upd_chan_def)
  moreover have "snd (send_fragment k j s) =
      (if o_frag_total ou' \<le> o_frag_sent ou' \<and> ch_type (chan_at c2 k) = NETCHAN_UNRELIABLE
       then upd_chan k (\<lambda>ch. advance_head (ch\<lparr>ch_outgoing := (ch_outgoing ch)(j := ou'\<lparr>o_buf := None,
                 o_active := False\<rparr>)\<rparr>)) (pool_put (o_buf ou') c2) else c2)"
    unfolding send_fragment_def Let_def case_prod_beta c2_def ou'_def c1_def fr_def ou_def if_distrib [of snd] snd_conv ..
  ultimately show ?thesis
    using 2 advance_head_inv [OF 3] by simp
qed

lemma flush_data_inv: "netchan_inv_with X Y (snd s) \<Longrightarrow> netchan_inv_with X Y (snd (flush_data is mtu s))"
proof (induction "is" mtu s rule: flush_data.induct)
  case (2 i rest mtu s)
  have "netchan_inv_with X Y (snd (send_fragment k j s))"
    if "c_channels (snd s) (of_nat i) = Some k" "chan_next_sendable (chan_at (snd s) k) = Some j" for k j
    using send_fragment_inv [OF 2(5) inv_channel [OF 2(5) that(1)]] inv_chan_ok [OF 2(5) inv_channel [OF 2(5) that(1)]]
      next_sendable_slot that(2) by blast
  with 2 show ?case by (auto simp: Let_def split: option.split)
qed simp

lemma netchan_send_next_inv: "netchan_inv_with X Y c \<Longrightarrow> netchan_inv_with X Y (snd (netchan_send_next buflen c))"
  by (simp add: netchan_send_next_def Let_def case_prod_beta flush_data_inv flush_acks_inv flush_ctrl_inv send_header_inv)


subsection \<open>Timers\<close>

lemma service_slots_inv:
  "netchan_inv_with X Y (fst s) \<Longrightarrow> in_use (fst s) k \<Longrightarrow> set js \<subseteq> {..<64} \<Longrightarrow>
     netchan_inv_with X Y (fst (service_slots js now k s))"
proof (induction js arbitrary: s)
  case (Cons j js)
  obtain c n where s: "s = (c, n)" by (cases s)
  define ou where "ou = ch_outgoing (chan_at c k) j"
  define c1 where "c1 = c\<lparr>nc_ub := nc_ub c \<or> o_attempts ou = 0 \<or> 32 < unat (o_attempts ou)\<rparr>"
  define c2 where "c2 = upd_chan k (\<lambda>ch. ch\<lparr>
      ch_outgoing := (ch_outgoing ch)(j := ou\<lparr>o_frag_sent := 0, o_sent_ms := now, o_attempts := o_attempts ou + 1\<rparr>),
      ch_retransmissions := ch_retransmissions ch + 1\<rparr>) c1"
  have 1: "netchan_inv_with X Y c1" "in_use c1 k" "chan_at c1 = chan_at c"
    using Cons.prems s by (simp_all add: c1_def)
  have 2: "netchan_inv_with X Y c2" "in_use c2 k"
    unfolding c2_def using 1 Cons.prems s
    by (auto intro!: out_keep_inv [where ou = "ou\<lparr>o_frag_sent := 0, o_sent_ms := now, o_attempts := o_attempts ou + 1\<rparr>"]
        simp: ou_def)
  have 3: "netchan_inv_with X Y (upd_chan k (\<lambda>ch. ch\<lparr>ch_state := 3\<rparr>) c1)"
    using 1 by (auto intro!: inv_upd_plain)
  have "service_slots (j # js) now k s =
      (if \<not> o_active ou \<or> o_sent_ms ou = 0 then service_slots js now k s
       else if rt_timeout c1 ou \<le> now - o_sent_ms ou then
         if NC_MAX_RT_ATTEMPTS \<le> o_attempts ou
         then (ev_push NETCHAN_EV_CHAN_CLOSE (Some k) (upd_chan k (\<lambda>ch. ch\<lparr>ch_state := 3\<rparr>) c1), n)
         else service_slots js now k (c2, n)
       else service_slots js now k (c1, sooner (sint (rt_timeout c1 ou - (now - o_sent_ms ou))) n))"
    unfolding s service_slots.simps Let_def prod.case c2_def c1_def ou_def ..
  then show ?case
    using Cons.IH [of s] Cons.IH [of "(c2, n)"] Cons.IH [of "(c1, m)" for m] Cons.prems 1 2 3 s by simp
qed simp

lemma netchan_service_inv:
  assumes "netchan_inv_with X Y c"
  shows "netchan_inv_with X Y (fst (netchan_service now c))"
proof -
  have conn: "netchan_inv_with X Y (fst (snd (service_connect now s)))" if "netchan_inv_with X Y (fst s)" for s
    using that by (cases s) (simp add: service_connect_def Let_def)
  have idle: "netchan_inv_with X Y (fst (snd (service_idle now s)))" if "netchan_inv_with X Y (fst s)" for s
    using that by (cases s) (simp add: service_idle_def Let_def)
  have ping: "netchan_inv_with X Y (fst (service_ping now s))" if "netchan_inv_with X Y (fst s)" for s
    using that by (cases s) (simp add: service_ping_def Let_def case_prod_beta)
  have chan: "netchan_inv_with X Y (fst (service_channel now i s))" if "netchan_inv_with X Y (fst s)" for s i
    using that inv_channel [OF that]
    by (auto simp: service_channel_def Let_def NC_OUTGOING_SLOTS_def intro!: service_slots_inv split: option.split)
  have "netchan_inv_with X Y (fst (fold (service_channel now) is s))" if "netchan_inv_with X Y (fst s)" for s "is"
    using that by (induction "is" arbitrary: s) (simp_all add: chan)
  then show ?thesis
    using assms conn [of "(c, - 1)"] idle [of "snd (service_connect now (c, - 1))"]
      ping [of "snd (service_idle now (snd (service_connect now (c, - 1))))"]
    by (simp add: netchan_service_def Let_def case_prod_beta)
qed

subsection \<open>Calls on channels\<close>

lemma netchan_chan_open_inv:
  assumes "netchan_inv_with X Y c"
  shows "netchan_inv_with X Y (snd (netchan_chan_open ty dir ct c))"
proof -
  define role where "role = (if dir = NETCHAN_DIR_SEND then 0 else 1 :: nat)"
  define c0 where "c0 = c\<lparr>c_next_chan_id := c_next_chan_id c + 2\<rparr>"
  obtain r c1 where n: "chan_new (c_next_chan_id c) ty dir role ct c0 = (r, c1)" by (metis surj_pair)
  have 1: "netchan_inv_with X Y c1 \<and> (\<forall>k. r = Some k \<longrightarrow> in_use c1 k)"
    using chan_new_inv [OF _ n, of X Y] assms by (simp add: c0_def)
  then have 2: "netchan_inv_with X Y (upd_chan k (\<lambda>ch. ch\<lparr>ch_state := 1\<rparr>)
      (ctrl_window_update i w (ctrl_channel_open ch c1)))" if "r = Some k" for k i w ch
    using that by (auto intro!: inv_upd_plain)
  show ?thesis
    using assms 1 2 n unfolding netchan_chan_open_def Let_def role_def [symmetric] c0_def [symmetric]
    by (simp split: option.split)
qed

lemma netchan_chan_close_inv:
  "netchan_inv_with X Y c \<Longrightarrow> in_use c k \<Longrightarrow> netchan_inv_with X Y (netchan_chan_close k c)"
  by (auto simp: netchan_chan_close_def intro!: inv_upd_plain)

lemma write_chan_ok:
  assumes "chan_ok ch" and "Suc (ch_out_tail ch) mod 64 \<noteq> ch_out_head ch" and "o_active ou \<and> o_buf ou \<noteq> None"
  shows "chan_ok (ch\<lparr>ch_send_seq := q, ch_outgoing := (ch_outgoing ch)(ch_out_tail ch := ou), ch_in_flight := x,
      ch_msgs_sent := y, ch_out_tail := Suc (ch_out_tail ch) mod 64\<rparr>)"
  using assms ring_push [of "ch_out_head ch" 64 "ch_out_tail ch"] by (auto simp: chan_ok_def)

lemma out_tail_empty: "chan_ok ch \<Longrightarrow> o_buf (ch_outgoing ch (ch_out_tail ch)) = None"
  by (auto simp: chan_ok_def dest: ring_tail_free)


text \<open>
  The three ways a write ends: refused with the connection unchanged, refused after the buffer was
  taken because the message has too many fragments, accepted.
\<close>

definition write_entry :: "nat \<Rightarrow> u8 list \<Rightarrow> netchan_conn \<Rightarrow> nat \<Rightarrow> nc_outgoing" where
  "write_entry k data c b = zero_outgoing\<lparr>o_buf := Some b, o_len := length data,
     o_seq := ch_send_seq (chan_at c k), o_active := True,
     o_frag_total := frag_count (max_frag_payload c) (length data)\<rparr>"

lemma max_frag_frame [simp]:
  "max_frag_payload (buf_write b off d c) = max_frag_payload c"
  "max_frag_payload (c\<lparr>c_pool_free := bs\<rparr>) = max_frag_payload c"
  by (simp_all add: max_frag_payload_def buf_write_def Let_def split: option.split)

lemma write_accepted:
  assumes "pool_get c = (Some b, c1)" and "max_frag_payload c1 = max_frag_payload c" and "ch_role (chan_at c k) = 0"
    and "ch_state (chan_at c k) \<noteq> 3" and "0 < length data" and "length data \<le> NC_MAX_MSG"
    and "Suc (ch_out_tail (chan_at c k)) mod 64 \<noteq> ch_out_head (chan_at c k)"
    and flow: "ch_type (chan_at c k) = NETCHAN_RELIABLE \<and> ch_state (chan_at c k) = 1 \<Longrightarrow>
      unat (ch_in_flight (chan_at c k)) + length data \<le> unat (ch_send_window (chan_at c k))"
    and "unat (frag_count (max_frag_payload c) (length data)) \<le> NC_MAX_FRAGS"
  shows "netchan_chan_write k data c = (upd_chan k (\<lambda>ch. ch\<lparr>ch_send_seq := ch_send_seq ch + 1,
        ch_outgoing := (ch_outgoing ch)(ch_out_tail ch := write_entry k data c b),
        ch_in_flight := (if ch_type ch = NETCHAN_RELIABLE then ch_in_flight ch + of_nat (length data) else ch_in_flight ch),
        ch_msgs_sent := ch_msgs_sent ch + 1, ch_out_tail := Suc (ch_out_tail (chan_at c k)) mod 64\<rparr>)
      ((buf_write (Some b) 0 data c1)\<lparr>nc_ub := nc_ub (buf_write (Some b) 0 data c1) \<or> max_frag_payload c = 0\<rparr>),
      int (length data))"
proof -
  have no: "(ch_type (chan_at c k) = NETCHAN_RELIABLE \<and> ch_state (chan_at c k) = 1 \<and>
      unat (ch_in_flight (chan_at c k)) + length data > unat (ch_send_window (chan_at c k))) = False"
    using flow by (meson not_le)
  show ?thesis
    unfolding netchan_chan_write_def Let_def no
    using assms(1-7,9) by (simp add: write_entry_def NC_OUTGOING_SLOTS_def upd_chan_def)
qed

lemma write_cases:
  obtains (refused) e where "netchan_chan_write k data c = (c, e)" and "e \<le> 0"
  | (cut) b c1 where "pool_get c = (Some b, c1)"
    and "netchan_chan_write k data c = (upd_chan k (\<lambda>ch. ch\<lparr>ch_send_seq := ch_send_seq ch + 1,
        ch_outgoing := (ch_outgoing ch)(ch_out_tail ch := zero_outgoing)\<rparr>)
      (pool_put (Some b) ((buf_write (Some b) 0 data c1)\<lparr>nc_ub := nc_ub (buf_write (Some b) 0 data c1) \<or> max_frag_payload c = 0\<rparr>)),
      NETCHAN_ERR_TOOBIG)" and "length data \<le> NC_MAX_MSG"
  | (accepted) b c1 where "pool_get c = (Some b, c1)" and "ch_role (chan_at c k) = 0"
    and "ch_state (chan_at c k) \<noteq> 3" and "0 < length data" and "length data \<le> NC_MAX_MSG"
    and "Suc (ch_out_tail (chan_at c k)) mod 64 \<noteq> ch_out_head (chan_at c k)"
    and "ch_type (chan_at c k) = NETCHAN_RELIABLE \<Longrightarrow> ch_state (chan_at c k) = 1 \<Longrightarrow>
      unat (ch_in_flight (chan_at c k)) + length data \<le> unat (ch_send_window (chan_at c k))"
    and "unat (frag_count (max_frag_payload c) (length data)) \<le> NC_MAX_FRAGS"
    and "netchan_chan_write k data c = (upd_chan k (\<lambda>ch. ch\<lparr>ch_send_seq := ch_send_seq ch + 1,
        ch_outgoing := (ch_outgoing ch)(ch_out_tail ch := write_entry k data c b),
        ch_in_flight := (if ch_type ch = NETCHAN_RELIABLE then ch_in_flight ch + of_nat (length data) else ch_in_flight ch),
        ch_msgs_sent := ch_msgs_sent ch + 1, ch_out_tail := Suc (ch_out_tail (chan_at c k)) mod 64\<rparr>)
      ((buf_write (Some b) 0 data c1)\<lparr>nc_ub := nc_ub (buf_write (Some b) 0 data c1) \<or> max_frag_payload c = 0\<rparr>),
      int (length data))"
proof (cases "ch_role (chan_at c k) \<noteq> 0 \<or> ch_state (chan_at c k) = 3 \<or> length data = 0 \<or> length data > NC_MAX_MSG \<or>
    (ch_type (chan_at c k) = NETCHAN_RELIABLE \<and> ch_state (chan_at c k) = 1 \<and>
      unat (ch_in_flight (chan_at c k)) + length data > unat (ch_send_window (chan_at c k))) \<or>
    Suc (ch_out_tail (chan_at c k)) mod 64 = ch_out_head (chan_at c k) \<or> c_pool_free c = []")
  case True
  then have "fst (netchan_chan_write k data c) = c" "snd (netchan_chan_write k data c) \<le> 0"
    by (auto simp: netchan_chan_write_def Let_def pool_get_def nc_errors NC_OUTGOING_SLOTS_def)
  then show ?thesis by (metis refused surjective_pairing)
next
  case False
  then obtain b bs where "c_pool_free c = b # bs" by (auto simp: neq_Nil_conv)
  then have g: "pool_get c = (Some b, c\<lparr>c_pool_free := bs\<rparr>)" by (simp add: pool_get_def)
  have flow: "(ch_type (chan_at c k) = NETCHAN_RELIABLE \<and> ch_state (chan_at c k) = 1 \<and>
      unat (ch_in_flight (chan_at c k)) + length data > unat (ch_send_window (chan_at c k))) = False"
    using False by blast
  have more: "ch_role (chan_at c k) = 0" "ch_state (chan_at c k) \<noteq> 3" "length data \<noteq> 0" "\<not> NC_MAX_MSG < length data"
    "Suc (ch_out_tail (chan_at c k)) mod 64 \<noteq> ch_out_head (chan_at c k)"
    using False by blast+
  show ?thesis
  proof (cases "unat (frag_count (max_frag_payload c) (length data)) \<le> NC_MAX_FRAGS")
    case True
    show ?thesis
      by (rule accepted [OF g more(1,2) _ _ more(5) _ True write_accepted [OF g]])
        (use more flow True in auto)
  next
    case cut': False
    show ?thesis
      by (rule cut [OF g], unfold netchan_chan_write_def Let_def flow)
        (use more cut' g in \<open>simp_all add: NC_OUTGOING_SLOTS_def upd_chan_def pool_put_def\<close>)
  qed
qed

lemma netchan_chan_write_inv:
  assumes "netchan_inv_with X Y c" and "in_use c k"
  shows "netchan_inv_with X Y (fst (netchan_chan_write k data c))"
proof (cases k data c rule: write_cases)
  case refused
  then show ?thesis using assms by simp
next
  case (cut b c1)
  note ok = inv_chan_ok [OF assms]
  have inv: "netchan_inv_with (add_mset b X) (bufm (Some b) + Y) (pool_put (Some b)
      ((buf_write (Some b) 0 data c1)\<lparr>nc_ub := nc_ub (buf_write (Some b) 0 data c1) \<or> max_frag_payload c = 0\<rparr>))"
    by (rule inv_pool_put) (use inv_pool_get [OF assms(1) cut(1)] in simp)
  show ?thesis
    unfolding cut(2) fst_conv
    by (rule inv_upd_chan [OF inv]) (use assms ok out_tail_empty [OF ok] in
      \<open>auto simp: pool_get_frame [OF cut(1)] chan_bufs_def slot_keep chan_ok_def zero_outgoing_def\<close>)
next
  case (accepted b c1)
  note ok = inv_chan_ok [OF assms]
  have t: "ch_out_tail (chan_at c k) < 64" using ok by (simp add: chan_ok_def)
  have inv: "netchan_inv_with (add_mset b X) Y
      ((buf_write (Some b) 0 data c1)\<lparr>nc_ub := nc_ub (buf_write (Some b) 0 data c1) \<or> max_frag_payload c = 0\<rparr>)"
    using inv_pool_get [OF assms(1) accepted(1)] by simp
  show ?thesis
    unfolding accepted(9) fst_conv
  proof (rule inv_upd_chan [OF inv], goal_cases)
    case 2
    then show ?case
      using write_chan_ok [OF ok accepted(6), of "write_entry k data c b"]
      by (simp add: pool_get_frame [OF accepted(1)] write_entry_def)
  qed (use assms t out_tail_empty [OF ok] in
      \<open>simp_all add: pool_get_frame [OF accepted(1)] chan_bufs_def slot_put write_entry_def\<close>)
qed

lemma read_chan_ok:
  assumes "chan_ok ch" and "ch_rq_head ch \<noteq> ch_rq_tail ch"
  shows "chan_ok (ch\<lparr>ch_recv_queue := (ch_recv_queue ch)(ch_rq_head ch := \<lparr>re_buf = None, re_len = 0\<rparr>),
      ch_rq_head := Suc (ch_rq_head ch) mod 64, ch_recv_buffered := x, ch_need_window_update := True\<rparr>)"
proof -
  have h: "ch_rq_head ch < 64" "ch_rq_tail ch < 64" using assms by (simp_all add: chan_ok_def)
  note pop = ring_pop [OF h assms(2)]
  have "ch_rq_head ch \<notin> set (ring_slots 64 (Suc (ch_rq_head ch) mod 64) (ch_rq_tail ch))"
    using ring_distinct [OF h] pop by simp
  with assms pop show ?thesis by (auto simp: chan_ok_def)
qed

lemma netchan_chan_read_inv:
  assumes "netchan_inv_with X Y c" and "in_use c k"
  shows "netchan_inv_with X Y (snd (netchan_chan_read k buflen c))"
proof (cases "ch_role (chan_at c k) \<noteq> 1 \<or> ch_rq_head (chan_at c k) = ch_rq_tail (chan_at c k)")
  case True
  with assms show ?thesis by (auto simp: netchan_chan_read_def Let_def)
next
  case False
  note ok = inv_chan_ok [OF assms]
  define e where "e = ch_recv_queue (chan_at c k) (ch_rq_head (chan_at c k))"
  define n where "n = min (re_len e) buflen"
  have h: "ch_rq_head (chan_at c k) < 64" using ok by (simp add: chan_ok_def)
  have inv: "netchan_inv_with X (bufm (re_buf e) + Y) (pool_put (re_buf e) (snd (buf_read (re_buf e) 0 n c)))"
    by (rule inv_pool_put) (simp add: assms)
  have eq: "snd (netchan_chan_read k buflen c) = upd_chan k (\<lambda>ch. ch\<lparr>
             ch_recv_queue := (ch_recv_queue ch)(ch_rq_head ch := \<lparr>re_buf = None, re_len = 0\<rparr>),
             ch_rq_head := (ch_rq_head ch + 1) mod NC_RECV_QUEUE,
             ch_recv_buffered := ch_recv_buffered ch - of_nat n,
             ch_need_window_update := True\<rparr>) (pool_put (re_buf e) (snd (buf_read (re_buf e) 0 n c)))"
    using False by (simp add: netchan_chan_read_def Let_def case_prod_beta e_def n_def)
  show ?thesis
    unfolding eq
  proof (rule inv_upd_chan [OF inv], goal_cases)
    case 2
    then show ?case using read_chan_ok [OF ok] False by (simp add: NC_RECV_QUEUE_def)
  qed (use assms slot_clear [OF h, of re_buf "\<lparr>re_buf = None, re_len = 0\<rparr>" "ch_recv_queue (chan_at c k)"] in
      \<open>auto simp: chan_bufs_def e_def ac_simps\<close>)
qed


subsection \<open>Sessions\<close>

text \<open>
  One call of the interface. The caller holds channels that are in use; packets, addresses, times and
  buffer sizes are arbitrary.
\<close>

inductive nc_step :: "netchan_conn \<Rightarrow> netchan_conn \<Rightarrow> bool" where
  config: "nc_step c (netchan_config cfg c)"
| connect: "nc_step c (fst (netchan_connect addr c))"
| accept: "nc_step c (fst (netchan_accept c))"
| feed: "nc_step c (fst (netchan_feed p from c))"
| send_next: "nc_step c (snd (netchan_send_next buflen c))"
| service: "nc_step c (fst (netchan_service now c))"
| poll: "nc_step c (snd (netchan_poll c))"
| chan_open: "nc_step c (snd (netchan_chan_open ty dir ct c))"
| chan_close: "in_use c k \<Longrightarrow> nc_step c (netchan_chan_close k c)"
| chan_write: "in_use c k \<Longrightarrow> nc_step c (fst (netchan_chan_write k data c))"
| chan_read: "in_use c k \<Longrightarrow> nc_step c (snd (netchan_chan_read k buflen c))"

inductive nc_session :: "netchan_conn \<Rightarrow> netchan_conn \<Rightarrow> bool" where
  start: "nc_session c c"
| call: "nc_session c c' \<Longrightarrow> nc_step c' c'' \<Longrightarrow> nc_session c c''"

inductive_cases nc_stepE: "nc_step c c'"

lemma netchan_open_inv: "netchan_inv (netchan_open server clock entropy)"
proof -
  have "owned (netchan_open server clock entropy) = {#}"
    by (simp add: owned_def in_use_def netchan_open_def pool_init_def)
  then show ?thesis
    by (simp add: netchan_inv_with_def netchan_open_def pool_init_def in_use_def ev_ok_def NC_EVENT_QUEUE_def)
qed

lemma poll_inv: "netchan_inv_with X Y c \<Longrightarrow> netchan_inv_with X Y (snd (netchan_poll c))"
  by (rule same_res_inv [of c]) (auto simp: same_res_def netchan_poll_def ev_ok_def NC_EVENT_QUEUE_def dest: inv_ev)

lemma nc_step_inv: "nc_step c c' \<Longrightarrow> netchan_inv c \<Longrightarrow> netchan_inv c'"
  by (induction rule: nc_step.induct)
    (simp_all add: netchan_config_def netchan_connect_def netchan_accept_def Let_def case_prod_beta netchan_feed_inv
      netchan_send_next_inv netchan_service_inv poll_inv netchan_chan_open_inv netchan_chan_close_inv
      netchan_chan_write_inv netchan_chan_read_inv)

lemma nc_session_inv: "nc_session c c' \<Longrightarrow> netchan_inv c \<Longrightarrow> netchan_inv c'"
  by (induction rule: nc_session.induct) (auto intro: nc_step_inv)




end
