(* ===== verification/Nc_Roundtrip.thy ===== *)
theory Nc_Roundtrip
  imports Nc_Session
begin

text \<open>
  The two halves together. Every frame that one side writes is parsed by the other side into the
  effect of its handler, one frame after another; from this follow the handshake and the journey of
  a message from \<open>netchan_chan_write\<close> on one connection to \<open>netchan_chan_read\<close> on another.
\<close>

subsection \<open>Frames\<close>

lemma parse_one:
  assumes "process_frame (f @ rest) c = (c', int (length f))" and "f \<noteq> []" and "hd f \<noteq> NC_FRAME_PADDING"
  shows "parse_frames (f @ rest) c = parse_frames rest c'"
proof -
  obtain b bs where f: "f = b # bs" using assms(2) by (cases f) auto
  have "process_frame (b # bs @ rest) c = (c', int (length f))" using assms(1) f by simp
  from parse_frames_step [OF this] assms(3) f
  have "parse_frames (f @ rest) c = parse_frames (drop (nat (int (length f))) (f @ rest)) c'"
    by (simp only: append.simps list.sel if_False of_nat_less_0_iff simp_thms)
  then show ?thesis by (simp only: nat_int append_eq_conv_conj drop_append drop_all drop_0 diff_self_eq_0 append_Nil le_refl)
qed

lemma rd_wr [simp]:
  "rd32 (a # wr32 v @ ys) (Suc 0) = v" "rd32 (a # b # wr32 v @ ys) 2 = v"
  "rd16 (a # b # wr16 w @ ys) 2 = w" "rd32 (a # wr32 v) (Suc 0) = v" "rd16 (a # b # wr16 w) 2 = w"
  "rd16 (a # b # wr16 w @ wr16 u @ ys) 4 = u"
  using rd32_wr32 [of "[a]" v ys] rd32_wr32 [of "[a, b]" v ys] rd16_wr16 [of "[a, b]" w ys]
    rd32_wr32 [of "[a]" v "[]"] rd16_wr16 [of "[a, b]" w "[]"] rd16_wr16 [of "a # b # wr16 w" u ys]
  by (simp_all add: eval_nat_numeral)

lemma wr_nth [simp]:
  "(wr32 v @ b # ys) ! 4 = b"
  by (simp add: wr32_def)

lemma parse_ping: "parse_frames ((NC_FRAME_PING # wr32 x) @ rest) c = parse_frames rest (ctrl_pong x c)"
  by (rule parse_one) (simp_all add: process_frame_def process_ping_def frame_codes)

lemma parse_disconnect:
  "parse_frames ((NC_FRAME_DISCONNECT # wr16 r) @ rest) c =
     parse_frames rest (ev_push NETCHAN_EV_DISCONNECTED None (c\<lparr>c_state := NETCHAN_STATE_CLOSED\<rparr>))"
  by (rule parse_one) (simp_all add: process_frame_def process_disconnect_def frame_codes)

lemma parse_connect_init:
  assumes "c_server c" and "c_state c = NETCHAN_STATE_NEW"
  shows "parse_frames ((NC_FRAME_CONNECT_INIT # wr32 x @ [NC_VERSION]) @ rest) c =
     parse_frames rest ((snd (nc_random_id (c\<lparr>c_remote_id := x\<rparr>)))\<lparr>c_local_id := fst (nc_random_id c),
       c_state := NETCHAN_STATE_CONNECTING\<rparr>)"
  by (rule parse_one) (use assms in \<open>simp_all add: process_frame_def process_connect_init_def frame_codes
      nc_random_id_def Let_def\<close>)

lemma parse_connect_accept:
  assumes "\<not> c_server c"
  shows "parse_frames ((NC_FRAME_CONNECT_ACCEPT # wr32 x @ [NC_VERSION] @ wr32 idle) @ rest) c =
     parse_frames rest (ev_push NETCHAN_EV_CONNECTED None
       (c\<lparr>c_remote_id := x, c_state := NETCHAN_STATE_CONNECTED\<rparr>))"
  by (rule parse_one) (use assms in \<open>simp_all add: process_frame_def process_connect_accept_def frame_codes\<close>)

lemma parse_window_update:
  assumes "c_channels c i = Some k" and "ch_role (chan_at c k) = 0"
  shows "parse_frames (([NC_FRAME_WINDOW_UPDATE, i] @ wr32 w) @ rest) c =
     parse_frames rest (upd_chan k (\<lambda>ch. ch\<lparr>ch_send_window := w,
       ch_state := (if ch_state ch = 0 then 1 else ch_state ch)\<rparr>) c)"
  by (rule parse_one) (use assms in \<open>simp_all add: process_frame_def process_window_update_def frame_codes\<close>)

lemma parse_ack:
  assumes "c_channels c i = Some k" and "ch_role (chan_at c k) = 0"
  shows "parse_frames (([NC_FRAME_ACK, i] @ wr16 q) @ rest) c =
     parse_frames rest (upd_chan k advance_head (fold (ack_slot k q) [0..<NC_OUTGOING_SLOTS] c))"
  by (rule parse_one) (use assms in \<open>simp_all add: process_frame_def process_ack_def frame_codes\<close>)

text \<open>A data frame as \<open>send_fragment\<close> lays it out.\<close>

definition data_frame :: "u8 \<Rightarrow> u16 \<Rightarrow> u8 \<Rightarrow> u8 \<Rightarrow> u8 list \<Rightarrow> u8 list" where
  "data_frame i seq fi ft data =
    [NC_FRAME_DATA, i] @ wr16 seq @ wr16 (of_nat (length data)) @ [fi, ft] @ data"

lemma data_frame_fields:
  assumes "length data < 2 ^ 16"
  shows "data_frame i seq fi ft data @ rest = [NC_FRAME_DATA, i] @ wr16 seq @ wr16 (of_nat (length data)) @ [fi, ft] @ data @ rest"
    and "(data_frame i seq fi ft data @ rest) ! 6 = fi" and "(data_frame i seq fi ft data @ rest) ! 7 = ft"
    and "drop 8 (data_frame i seq fi ft data @ rest) = data @ rest"
    and "length (data_frame i seq fi ft data) = 8 + length data"
    and "unat (of_nat (length data) :: u16) = length data"
  using assms by (simp_all add: data_frame_def wr16_def unat_of_nat)

lemma parse_data:
  assumes "c_channels c i = Some k" and "ch_role (chan_at c k) = 1" and "length data < 2 ^ 16"
  shows "parse_frames (data_frame i seq fi ft data @ rest) c =
     parse_frames rest (if ch_type (chan_at c k) = NETCHAN_UNRELIABLE then data_unreliable k seq fi ft data c
       else data_reliable k seq fi ft data c)"
proof -
  note f = data_frame_fields [OF assms(3)]
  let ?p = "data_frame i seq fi ft data @ rest"
  have "?p ! 1 = i" "rd16 ?p 2 = seq" "rd16 ?p 4 = of_nat (length data)"
    unfolding f(1) by simp_all
  then have "process_data ?p c = (if ch_type (chan_at c k) = NETCHAN_UNRELIABLE then data_unreliable k seq fi ft data c
       else data_reliable k seq fi ft data c, int (8 + length data))"
    using assms f by (simp add: process_data_def Let_def)
  moreover have "hd ?p = NC_FRAME_DATA" "?p \<noteq> []" by (simp_all add: data_frame_def)
  ultimately show ?thesis
    by (intro parse_one) (simp_all add: process_frame_def frame_codes f(5) data_frame_def)
qed


subsection \<open>The handshake\<close>

lemma flush_no_channels:
  assumes "c_channels (snd s) = (\<lambda>_. None)"
  shows "flush_acks is mtu s = s" "flush_data is mtu s = s"
proof -
  show "flush_acks is mtu s = s"
    using assms by (induction "is" mtu s rule: flush_acks.induct) auto
  show "flush_data is mtu s = s"
    using assms by (induction "is" mtu s rule: flush_data.induct) auto
qed

text \<open>A connection without channels sends its control queue.\<close>

lemma send_ctrl_only:
  assumes "c_channels c = (\<lambda>_. None)" and "c_ctrl_buf c \<noteq> []"
    and "length (fst (send_header c)) + length (c_ctrl_buf c) \<le> min (unat (cfg_mtu (c_cfg c))) buflen"
  shows "\<exists>c'. netchan_send_next buflen c = (Some (fst (send_header c) @ c_ctrl_buf c, c_peer_addr c), c') \<and>
    c_ctrl_buf c' = [] \<and> c_state c' = c_state c \<and> c_server c' = c_server c \<and> c_local_id c' = c_local_id c \<and>
    c_remote_id c' = c_remote_id c \<and> c_channels c' = c_channels c \<and> c_peer_addr c' = c_peer_addr c"
proof -
  define mtu where "mtu = min (unat (cfg_mtu (c_cfg c))) buflen"
  define h where "h = send_header c"
  define s where "s = (fst h @ c_ctrl_buf c, (snd h)\<lparr>c_ctrl_buf := []\<rparr>)"
  have h: "c_ctrl_buf (snd h) = c_ctrl_buf c" "c_channels (snd h) = c_channels c" "c_state (snd h) = c_state c"
    "c_server (snd h) = c_server c" "c_local_id (snd h) = c_local_id c" "c_remote_id (snd h) = c_remote_id c"
    "c_peer_addr (snd h) = c_peer_addr c"
    "length (fst h) = (if c_state c = NETCHAN_STATE_CONNECTING \<and> \<not> c_server c then NC_HDR_INIT_SIZE else NC_HDR_FULL_SIZE)"
    by (simp_all add: h_def send_header_def NC_HDR_INIT_SIZE_def NC_HDR_FULL_SIZE_def)
  have len: "length (fst h) + length (c_ctrl_buf c) \<le> mtu" "mtu \<le> buflen"
    using assms(3) by (simp_all add: h_def mtu_def)
  have fl: "flush_ctrl buflen mtu h = s"
    using len h by (cases h) (simp add: flush_ctrl_def s_def Let_def)
  have "c_channels (snd s) = (\<lambda>_. None)" by (simp add: s_def h assms(1))
  note nc = flush_no_channels [OF this]
  have big: "\<not> buflen < (if c_state c = NETCHAN_STATE_CONNECTING \<and> \<not> c_server c then NC_HDR_INIT_SIZE else NC_HDR_FULL_SIZE)"
    using len h by linarith
  have eq: "netchan_send_next buflen c = (Some (fst s, c_peer_addr (snd (nc_now_ms (snd s)))), (snd (nc_now_ms (snd s)))\<lparr>
      c_last_send_ms := fst (nc_now_ms (snd s)), c_pkts_sent := c_pkts_sent (snd (nc_now_ms (snd s))) + 1\<rparr>)"
    using assms(2) big nc fl unfolding netchan_send_next_def Let_def mtu_def [symmetric] h_def [symmetric]
    by (simp add: nc_has_data_def case_prod_beta)
  then show ?thesis
    by (simp add: s_def h nc_now_ms_def flip: h_def)
qed


lemma feed_entry_fields [simp]:
  "c_state (feed_entry fs from c) = c_state c" "c_server (feed_entry fs from c) = c_server c"
  "c_channels (feed_entry fs from c) = c_channels c" "c_local_id (feed_entry fs from c) = c_local_id c"
  "c_remote_id (feed_entry fs from c) = c_remote_id c" "c_ctrl_buf (feed_entry fs from c) = c_ctrl_buf c"
  "c_cfg (feed_entry fs from c) = c_cfg c" "chan_at (feed_entry fs from c) = chan_at c"
  "c_peer_addr c = [] \<Longrightarrow> c_peer_addr (feed_entry fs from c) = from"
  by (simp_all add: feed_entry_eq feed_peer_def chan_at_def fun_eq_iff)

lemma ev_fields [simp]:
  "c_state (ev_push ty k c) = c_state c" "c_remote_id (ev_push ty k c) = c_remote_id c"
  "c_local_id (ev_push ty k c) = c_local_id c" "c_server (ev_push ty k c) = c_server c"
  "c_ctrl_buf (ev_push ty k c) = c_ctrl_buf c" "c_cfg (ev_push ty k c) = c_cfg c"
  "c_peer_addr (ev_push ty k c) = c_peer_addr c"
  by (simp_all add: ev_push_def ev_put_def Let_def)

lemma random_id_fields [simp]:
  "c_remote_id (snd (nc_random_id c)) = c_remote_id c" "c_server (snd (nc_random_id c)) = c_server c"
  "c_ctrl_buf (snd (nc_random_id c)) = c_ctrl_buf c" "c_cfg (snd (nc_random_id c)) = c_cfg c"
  "c_peer_addr (snd (nc_random_id c)) = c_peer_addr c" "c_channels (snd (nc_random_id c)) = c_channels c"
  by (simp_all add: nc_random_id_def Let_def)

text \<open>The header that \<open>send_header\<close> writes is the one that \<open>netchan_feed\<close> reads.\<close>

lemma feed_init_packet:
  "netchan_feed (NC_PKT_FLAG_INIT # wr32 x @ fs) from c = parse_frames fs (feed_entry fs from c)"
  by (simp add: netchan_feed_alt feed_frames_def NC_PKT_FLAG_INIT_def NC_HDR_INIT_SIZE_def wr32_def)

lemma feed_full_packet:
  "netchan_feed (NC_PKT_FLAG_PKTNUM # wr32 (c_local_id c) @ wr16 n @ fs) from c = parse_frames fs (feed_entry fs from c)"
proof -
  have "rd32 (NC_PKT_FLAG_PKTNUM # wr32 (c_local_id c) @ wr16 n @ fs) 1 = c_local_id c" by simp
  then show ?thesis
    unfolding netchan_feed_alt feed_frames_def
    by (simp add: NC_PKT_FLAG_INIT_def NC_PKT_FLAG_PKTNUM_def NC_HDR_INIT_SIZE_def NC_HDR_FULL_SIZE_def wr32_def wr16_def)
qed

text \<open>
  C17. The handshake. A fresh client connects, its packet reaches a fresh server, the server accepts and
  its packet reaches the client: both ends are then connected, each knows the other's connection
  identifier as its remote one, and the packets went to the address given to the client and to
  the address the server saw. This holds for every pair of addresses, every clock and every random
  source, and for all send buffers of at least 17 bytes.
\<close>

theorem handshake_connects:
  fixes ck ck' en en' :: "nat \<Rightarrow> u32"
  assumes "17 \<le> buflen" and "caddr \<noteq> []"
  shows "\<exists>c1 p1 c2 s1 s2 p2 s3 c3.
    netchan_connect saddr (netchan_open False ck en) = (c1, NETCHAN_OK) \<and>
    netchan_send_next buflen c1 = (Some (p1, saddr), c2) \<and>
    netchan_feed p1 caddr (netchan_open True ck' en') = (s1, NETCHAN_OK) \<and>
    netchan_accept s1 = (s2, NETCHAN_OK) \<and>
    netchan_send_next buflen s2 = (Some (p2, caddr), s3) \<and>
    netchan_feed p2 saddr c2 = (c3, NETCHAN_OK) \<and>
    netchan_state c3 = NETCHAN_STATE_CONNECTED \<and> netchan_state s3 = NETCHAN_STATE_CONNECTED \<and>
    c_remote_id c3 = netchan_id s3 \<and> c_remote_id s3 = netchan_id c3"
proof -
  define c0 where "c0 = netchan_open False ck en"
  define s0 where "s0 = netchan_open True ck' en'"
  define c1 where "c1 = fst (netchan_connect saddr c0)"
  have c0: "\<not> c_server c0" "c_state c0 = NETCHAN_STATE_NEW" "c_ctrl_buf c0 = []" "c_channels c0 = (\<lambda>_. None)"
      "unat (cfg_mtu (c_cfg c0)) = 1200"
    and s0: "c_server s0" "c_state s0 = NETCHAN_STATE_NEW" "c_ctrl_buf s0 = []" "c_channels s0 = (\<lambda>_. None)"
      "unat (cfg_mtu (c_cfg s0)) = 1200" "c_peer_addr s0 = []"
    by (simp_all add: c0_def s0_def netchan_open_def pool_init_def netchan_cfg_default_def NC_DEFAULT_MTU_def)
  have c1: "netchan_connect saddr c0 = (c1, NETCHAN_OK)" "\<not> c_server c1" "c_state c1 = NETCHAN_STATE_CONNECTING"
      "c_ctrl_buf c1 = NC_FRAME_CONNECT_INIT # wr32 (c_local_id c1) @ [NC_VERSION]" "c_channels c1 = (\<lambda>_. None)"
      "unat (cfg_mtu (c_cfg c1)) = 1200" "c_peer_addr c1 = saddr"
    using c0 by (simp_all add: c1_def netchan_connect_def nc_random_id_def nc_now_ms_def ctrl_connect_init_def
        ctrl_append_def Let_def NC_CTRL_BUF_SIZE_def)
  have "send_header c1 = (NC_PKT_FLAG_INIT # wr32 (c_local_id c1), c1)" using c1 by (simp add: send_header_def)
  with send_ctrl_only [of c1 buflen] c1 assms(1) obtain c2 where
    c2: "netchan_send_next buflen c1 = (Some (NC_PKT_FLAG_INIT # wr32 (c_local_id c1) @ c_ctrl_buf c1, saddr), c2)"
      "c_server c2 = c_server c1" "c_local_id c2 = c_local_id c1"
    by auto
  define e where "e = feed_entry (c_ctrl_buf c1) caddr s0"
  define s1 where "s1 = (snd (nc_random_id (e\<lparr>c_remote_id := c_local_id c1\<rparr>)))\<lparr>c_local_id := fst (nc_random_id e),
       c_state := NETCHAN_STATE_CONNECTING\<rparr>"
  have s1: "netchan_feed (NC_PKT_FLAG_INIT # wr32 (c_local_id c1) @ c_ctrl_buf c1) caddr s0 = (s1, NETCHAN_OK)"
    unfolding feed_init_packet e_def [symmetric]
    using parse_connect_init [of e "c_local_id c1" "[]"] s0 by (simp add: c1(4) s1_def e_def)
  define s2 where "s2 = fst (netchan_accept s1)"
  have s2: "netchan_accept s1 = (s2, NETCHAN_OK)" "c_state s2 = NETCHAN_STATE_CONNECTED" "c_channels s2 = (\<lambda>_. None)"
      "c_ctrl_buf s2 = NC_FRAME_CONNECT_ACCEPT # wr32 (c_local_id s2) @ [NC_VERSION] @ wr32 (cfg_idle_timeout_ms (c_cfg s2))"
      "unat (cfg_mtu (c_cfg s2)) = 1200" "c_peer_addr s2 = caddr" "c_remote_id s2 = c_local_id c1"
    using s0 by (simp_all add: s2_def netchan_accept_def s1_def e_def ctrl_connect_accept_def ctrl_append_def
        NC_CTRL_BUF_SIZE_def)
  have "send_header s2 = (NC_PKT_FLAG_PKTNUM # wr32 (c_local_id c1) @ wr16 (c_next_pkt_num s2),
      s2\<lparr>c_next_pkt_num := c_next_pkt_num s2 + 1\<rparr>)"
    using s2 by (simp add: send_header_def)
  with send_ctrl_only [of s2 buflen] s2 assms(1) obtain s3 where
    s3: "netchan_send_next buflen s2 = (Some (NC_PKT_FLAG_PKTNUM # wr32 (c_local_id c1) @ wr16 (c_next_pkt_num s2) @ c_ctrl_buf s2, caddr), s3)"
      "c_state s3 = NETCHAN_STATE_CONNECTED" "c_local_id s3 = c_local_id s2" "c_remote_id s3 = c_local_id c1"
    by auto
  define c3 where "c3 = ev_push NETCHAN_EV_CONNECTED None ((feed_entry (c_ctrl_buf s2) saddr c2)\<lparr>
      c_remote_id := c_local_id s2, c_state := NETCHAN_STATE_CONNECTED\<rparr>)"
  have c3: "netchan_feed (NC_PKT_FLAG_PKTNUM # wr32 (c_local_id c1) @ wr16 (c_next_pkt_num s2) @ c_ctrl_buf s2) saddr c2 = (c3, NETCHAN_OK)"
    using feed_full_packet [of c2 "c_next_pkt_num s2" "c_ctrl_buf s2" saddr] c2 c1(2)
      parse_connect_accept [of "feed_entry (c_ctrl_buf s2) saddr c2" "c_local_id s2" "cfg_idle_timeout_ms (c_cfg s2)" "[]"]
    by (simp add: s2(4) c3_def)
  show ?thesis
    using c1(1) c2 s1 s2(1) s3 c3
    by (intro exI [of _ c1] exI [of _ c2] exI [of _ s1] exI [of _ s2] exI [of _ s3] exI [of _ c3]) 
      (auto simp: c0_def s0_def netchan_state_def netchan_id_def c3_def)
qed


theorem handshake_connects_witness:
  "\<exists>c1 p1 c2 s1 s2 p2 s3 c3.
    netchan_connect [4, 2] (netchan_open False (\<lambda>_. 7) (\<lambda>_. 9)) = (c1, NETCHAN_OK) \<and>
    netchan_send_next 1500 c1 = (Some (p1, [4, 2]), c2) \<and>
    netchan_feed p1 [4, 1] (netchan_open True (\<lambda>_. 8) (\<lambda>_. 3)) = (s1, NETCHAN_OK) \<and>
    netchan_accept s1 = (s2, NETCHAN_OK) \<and>
    netchan_send_next 1500 s2 = (Some (p2, [4, 1]), s3) \<and>
    netchan_feed p2 [4, 2] c2 = (c3, NETCHAN_OK) \<and>
    netchan_state c3 = NETCHAN_STATE_CONNECTED \<and> netchan_state s3 = NETCHAN_STATE_CONNECTED \<and>
    c_remote_id c3 = netchan_id s3 \<and> c_remote_id s3 = netchan_id c3"
  by (rule handshake_connects) simp_all

end
