(* ===== verification/Nc_Journey.thy ===== *)
theory Nc_Journey
  imports Nc_Roundtrip
begin

text \<open>
  The journey of a message: written to a channel of one connection, sent, fed to the other connection
  and read there. A message that fits one packet arrives whole with one packet; a fragmented one is
  put together from its fragments in whatever order they come.
\<close>

subsection \<open>Buffers\<close>

lemma read_bytes_store: "fst (buf_read (Some b) off n c) = map (c_pool_store c) [pool_ptr b + off..<pool_ptr b + off + n]"
  by (simp add: buf_read_def Let_def)

lemma store_write:
  "c_pool_store (buf_write (Some b) off d c) i =
     (if pool_ptr b + off \<le> i \<and> i < pool_ptr b + off + length d then d ! (i - (pool_ptr b + off)) else c_pool_store c i)"
  by (simp add: buf_write_def Let_def)

lemma read_write_same: "fst (buf_read (Some b) off (length d) (buf_write (Some b) off d c)) = d"
  unfolding read_bytes_store by (rule nth_equalityI) (simp_all add: store_write)

text \<open>Two buffers do not overlap.\<close>

lemma pool_ptr_apart:
  assumes "b \<noteq> b'" and "i < 2048" and "j < 2048"
  shows "pool_ptr b + i \<noteq> pool_ptr b' + j"
proof
  assume "pool_ptr b + i = pool_ptr b' + j"
  then have "(b * 2048 + i) div 2048 = (b' * 2048 + j) div 2048" by (simp add: pool_ptr_def NC_MAX_MSG_def)
  with assms show False by simp
qed

lemma store_frame [simp]:
  "c_pool_store (upd_chan k f c) = c_pool_store c" "c_pool_store (ev_push ty x c) = c_pool_store c"
  "c_pool_store (pool_put y c) = c_pool_store c" "c_pool_store (c\<lparr>nc_ub := u\<rparr>) = c_pool_store c"
  "c_pool_store (snd (buf_read y off n c)) = c_pool_store c" "c_pool_store (snd (nc_now_ms c)) = c_pool_store c"
  by (simp_all add: upd_chan_def ev_push_def ev_put_def pool_put_def buf_read_def nc_now_ms_def Let_def split: option.split)

subsection \<open>The sending side\<close>

lemma flush_data_skip:
  assumes "\<forall>j \<in> set is. c_channels (snd s) (of_nat j) = None"
  shows "flush_data (is @ js) mtu s = (if is \<noteq> [] \<and> \<not> length (fst s) + 9 \<le> mtu then s else flush_data js mtu s)"
  using assms
proof (induction "is")
  case (Cons i "is")
  then show ?case by (cases "length (fst s) + 9 \<le> mtu") auto
qed simp

lemma flush_acks_idle:
  assumes "\<forall>i k. c_channels (snd s) i = Some k \<longrightarrow> \<not> ch_need_ack (chan_at (snd s) k) \<and> \<not> ch_need_window_update (chan_at (snd s) k)"
  shows "flush_acks is mtu s = s"
proof (induction "is")
  case (Cons i "is")
  have "put_window mtu k (put_ack mtu k s) = s" if "c_channels (snd s) (of_nat i) = Some k" for k
    using assms that by (auto simp: put_window_def put_ack_def Let_def split: prod.split)
  with Cons show ?case by (auto split: option.split)
qed simp

lemma flush_data_after:
  assumes "\<forall>j \<in> set js. c_channels (snd s) (of_nat j) = None"
  shows "flush_data js mtu s = s"
  using flush_data_skip [OF assms, of "[]"] by simp

text \<open>One channel in the table: the loop sends its fragment.\<close>

lemma flush_data_single:
  assumes "c_channels (snd s) = [i \<mapsto> k]" and "c_channels (snd (send_fragment k j s)) = [i \<mapsto> k]"
    and "ch_role (chan_at (snd s) k) = 0" and "ch_state (chan_at (snd s) k) = 1"
    and "chan_next_sendable (chan_at (snd s) k) = Some j" and "length (fst s) + 9 \<le> mtu"
    and "snd (frag_at (max_frag_payload (snd s)) (ch_outgoing (chan_at (snd s) k) j)) \<le> mtu - length (fst s) - 8"
  shows "flush_data [0..<256] mtu s = send_fragment k j s"
proof -
  have i: "unat i < 256" using unsigned_less [of i] by simp
  have split: "[0..<256] = [0..<unat i] @ unat i # [Suc (unat i)..<256]"
    using i upt_add_eq_append [of 0 "unat i" "256 - unat i"] by (simp add: upt_conv_Cons)
  have other: "(of_nat j :: u8) \<noteq> i" if "j < 256" "j \<noteq> unat i" for j
    using that by (auto simp: unsigned_of_nat take_bit_nat_eq_self)
  have 1: "\<forall>j \<in> set [0..<unat i]. c_channels (snd s) (of_nat j) = None"
    using other i by (auto simp: assms(1))
  have 2: "flush_data [Suc (unat i)..<256] mtu (send_fragment k j s) = send_fragment k j s"
    by (rule flush_data_after) (use other in \<open>auto simp: assms(2)\<close>)
  show ?thesis
    unfolding split flush_data_skip [OF 1] using assms 2 by simp
qed


lemma send_fragment_bytes:
  assumes "ou = ch_outgoing (chan_at (snd s) k) j" and "frag_at (max_frag_payload (snd s)) ou = (off, n)"
  shows "fst (send_fragment k j s) = fst s @ [NC_FRAME_DATA, ch_id (chan_at (snd s) k)] @ wr16 (o_seq ou) @ wr16 (of_nat n) @
     [o_frag_sent ou, o_frag_total ou] @ fst (buf_read (o_buf ou) off n (snd s))"
  using assms by (simp add: send_fragment_def Let_def case_prod_beta chan_at_upd)

lemma send_fragment_channels [simp]: "c_channels (snd (send_fragment k j s)) = c_channels (snd s)"
  by (simp add: send_fragment_def Let_def case_prod_beta)

lemma peer_frame [simp]:
  "c_peer_addr (upd_chan k f c) = c_peer_addr c" "c_peer_addr (pool_put y c) = c_peer_addr c"
  "c_peer_addr (snd (buf_read y off n c)) = c_peer_addr c" "c_peer_addr (snd (nc_now_ms c)) = c_peer_addr c"
  by (simp_all add: upd_chan_def pool_put_def buf_read_def nc_now_ms_def Let_def split: option.split)

lemma send_fragment_peer [simp]: "c_peer_addr (snd (send_fragment k j s)) = c_peer_addr (snd s)"
  by (simp add: send_fragment_def Let_def case_prod_beta)

lemma frag_count_one: "0 < len \<Longrightarrow> len \<le> fp \<Longrightarrow> frag_count fp len = 1"
proof -
  assume "0 < len" "len \<le> fp"
  then have "(len + fp - 1) div fp = 1" by (auto simp: div_nat_eqI)
  then show ?thesis by (simp add: frag_count_def)
qed

lemma sendable_first:
  assumes "ch_out_head ch \<noteq> ch_out_tail ch" and "o_active (ch_outgoing ch (ch_out_head ch))"
    and "o_frag_sent (ch_outgoing ch (ch_out_head ch)) < o_frag_total (ch_outgoing ch (ch_out_head ch))"
  shows "chan_next_sendable ch = Some (ch_out_head ch)"
proof -
  have n: "NC_OUTGOING_SLOTS = Suc 63" by (simp add: NC_OUTGOING_SLOTS_def)
  show ?thesis unfolding chan_next_sendable_def n sendable_loop.simps using assms by simp
qed

text \<open>
  An idle sender: connected, one open reliable channel with an empty queue and room for \<open>n\<close> bytes in
  the peer's window. A waiting receiver: the channel expects the sequence number \<open>seq\<close>, has an empty
  receive queue, and no successor of that message waits in the reorder window.
\<close>

definition sender_ready :: "netchan_conn \<Rightarrow> nat \<Rightarrow> u8 \<Rightarrow> nat \<Rightarrow> bool" where
  "sender_ready c k i n \<longleftrightarrow> netchan_inv c \<and> c_channels c = [i \<mapsto> k] \<and> c_state c = NETCHAN_STATE_CONNECTED \<and>
     c_ctrl_buf c = [] \<and> c_pool_free c \<noteq> [] \<and>
     (let ch = chan_at c k in ch_id ch = i \<and> ch_role ch = 0 \<and> ch_state ch = 1 \<and> ch_type ch = NETCHAN_RELIABLE \<and>
        ch_out_head ch = ch_out_tail ch \<and> \<not> ch_need_ack ch \<and> \<not> ch_need_window_update ch \<and>
        unat (ch_in_flight ch) + n \<le> unat (ch_send_window ch))"

definition receiver_ready :: "netchan_conn \<Rightarrow> nat \<Rightarrow> u8 \<Rightarrow> u16 \<Rightarrow> bool" where
  "receiver_ready c m i seq \<longleftrightarrow> netchan_inv c \<and> c_channels c i = Some m \<and> c_pool_free c \<noteq> [] \<and>
     (let ch = chan_at c m; r = ch_reorder ch (unat (seq + 1) mod NC_REORDER_SLOTS) in
        ch_role ch = 1 \<and> ch_type ch \<noteq> NETCHAN_UNRELIABLE \<and> ch_recv_seq ch = seq \<and> ch_rq_head ch = ch_rq_tail ch \<and>
        \<not> (ro_valid r \<and> ro_seq r = seq + 1))"

lemma send_single:
  assumes "c_channels c = [i \<mapsto> k]" and "c_state c = NETCHAN_STATE_CONNECTED" and "c_ctrl_buf c = []"
    and ch: "ch_role (chan_at c k) = 0" "ch_state (chan_at c k) = 1" "ch_id (chan_at c k) = i"
    "\<not> ch_need_ack (chan_at c k)" "\<not> ch_need_window_update (chan_at c k)"
    "chan_next_sendable (chan_at c k) = Some h"
    and ou: "ou = ch_outgoing (chan_at c k) h" "frag_at (max_frag_payload c) ou = (off, n)"
    and n: "0 < n" "15 + n \<le> min (unat (cfg_mtu (c_cfg c))) buflen"
  shows "\<exists>c'. netchan_send_next buflen c = (Some (NC_PKT_FLAG_PKTNUM # wr32 (c_remote_id c) @ wr16 (c_next_pkt_num c) @
      [NC_FRAME_DATA, i] @ wr16 (o_seq ou) @ wr16 (of_nat n) @ [o_frag_sent ou, o_frag_total ou] @
      fst (buf_read (o_buf ou) off n c), c_peer_addr c), c')"
proof -
  define mtu where "mtu = min (unat (cfg_mtu (c_cfg c))) buflen"
  define e where "e = c\<lparr>c_next_pkt_num := c_next_pkt_num c + 1\<rparr>"
  define s where "s = (NC_PKT_FLAG_PKTNUM # wr32 (c_remote_id c) @ wr16 (c_next_pkt_num c), e)"
  have hd: "send_header c = s" using assms(2) by (simp add: send_header_def s_def e_def)
  have e: "c_channels e = [i \<mapsto> k]" "chan_at e = chan_at c" "max_frag_payload e = max_frag_payload c"
      "fst (buf_read y off n e) = fst (buf_read y off n c)" "c_peer_addr e = c_peer_addr c" for y
    using assms(1) by (auto simp: e_def chan_at_def fun_eq_iff max_frag_payload_def buf_read_def Let_def split: option.split)
  have "unat i < 256" using unsigned_less [of i] by simp
  then have has: "nc_has_data c"
    using assms(1) ch unfolding nc_has_data_def list_ex_iff by (auto intro!: bexI [of _ "unat i"])
  have acks: "flush_acks [0..<256] mtu s = s"
    by (rule flush_acks_idle) (use e ch in \<open>simp add: s_def\<close>)
  have data: "flush_data [0..<256] mtu s = send_fragment k h s"
    by (rule flush_data_single) (use e ch ou n in \<open>auto simp: s_def mtu_def\<close>)
  have frame: "fst (send_fragment k h s) = fst s @ [NC_FRAME_DATA, i] @ wr16 (o_seq ou) @ wr16 (of_nat n) @
      [o_frag_sent ou, o_frag_total ou] @ fst (buf_read (o_buf ou) off n c)"
    using send_fragment_bytes [of ou s k h off n] e ou ch by (simp add: s_def)
  have "\<not> buflen < (if c_state c = NETCHAN_STATE_CONNECTING \<and> \<not> c_server c then NC_HDR_INIT_SIZE else NC_HDR_FULL_SIZE)"
    using n by (simp add: NC_HDR_FULL_SIZE_def assms(2))
  with has acks data hd assms(3) have
    "netchan_send_next buflen c = (Some (fst (send_fragment k h s), c_peer_addr (snd (nc_now_ms (snd (send_fragment k h s))))),
      (snd (nc_now_ms (snd (send_fragment k h s))))\<lparr>c_last_send_ms := fst (nc_now_ms (snd (send_fragment k h s))),
        c_pkts_sent := c_pkts_sent (snd (nc_now_ms (snd (send_fragment k h s)))) + 1\<rparr>)"
    unfolding netchan_send_next_def Let_def mtu_def [symmetric] by (simp add: case_prod_beta)
  with e(5) show ?thesis unfolding frame by (simp add: s_def)
qed

lemma sender_packet:
  assumes "sender_ready a k i (length data)" and "0 < length data" and "length data \<le> NC_MAX_MSG"
    and "length data \<le> max_frag_payload a" and "15 + length data \<le> min (unat (cfg_mtu (c_cfg a))) buflen"
  shows "\<exists>a1 a2. netchan_chan_write k data a = (a1, int (length data)) \<and>
    netchan_send_next buflen a1 = (Some (NC_PKT_FLAG_PKTNUM # wr32 (c_remote_id a) @ wr16 (c_next_pkt_num a) @
      data_frame i (ch_send_seq (chan_at a k)) 0 1 data, c_peer_addr a), a2)"
proof -
  let ?ch = "chan_at a k"
  define h where "h = ch_out_head ?ch"
  have ready: "netchan_inv a" "c_channels a = [i \<mapsto> k]" "c_state a = NETCHAN_STATE_CONNECTED"
     "c_ctrl_buf a = []" "ch_id ?ch = i" "ch_role ?ch = 0" "ch_state ?ch = 1"
     "ch_type ?ch = NETCHAN_RELIABLE" "ch_out_tail ?ch = h" "\<not> ch_need_ack ?ch" "\<not> ch_need_window_update ?ch"
     "unat (ch_in_flight ?ch) + length data \<le> unat (ch_send_window ?ch)"
    using assms(1) by (auto simp: sender_ready_def Let_def h_def)
  have "in_use a k" using inv_channel [OF ready(1)] ready(2) by simp
  then have h64: "h < 64" using inv_chan_ok [OF ready(1)] by (simp add: chan_ok_def h_def)
  obtain b bs where bs: "c_pool_free a = b # bs" using assms(1) by (auto simp: sender_ready_def neq_Nil_conv)
  define c1 where "c1 = a\<lparr>c_pool_free := bs\<rparr>"
  have g: "pool_get a = (Some b, c1)" by (simp add: pool_get_def bs c1_def)
  have next_ne: "Suc h mod 64 \<noteq> h" using h64 by (cases "Suc h = 64") auto
  define a1 where "a1 = fst (netchan_chan_write k data a)"
  define d where "d = (buf_write (Some b) 0 data c1)\<lparr>nc_ub := nc_ub (buf_write (Some b) 0 data c1) \<or> max_frag_payload a = 0\<rparr>"
  have w: "netchan_chan_write k data a = (upd_chan k (\<lambda>ch. ch\<lparr>ch_send_seq := ch_send_seq ch + 1,
        ch_outgoing := (ch_outgoing ch)(ch_out_tail ch := write_entry k data a b),
        ch_in_flight := (if ch_type ch = NETCHAN_RELIABLE then ch_in_flight ch + of_nat (length data) else ch_in_flight ch),
        ch_msgs_sent := ch_msgs_sent ch + 1, ch_out_tail := Suc (ch_out_tail ?ch) mod 64\<rparr>) d, int (length data))"
    unfolding d_def by (rule write_accepted [OF g])
      (use ready next_ne assms frag_count_one in \<open>simp_all add: c1_def h_def [symmetric] NC_MAX_FRAGS_def\<close>)
  have d: "c_channels d = [i \<mapsto> k]" "c_state d = NETCHAN_STATE_CONNECTED" "c_ctrl_buf d = []" "c_cfg d = c_cfg a"
      "c_remote_id d = c_remote_id a" "c_next_pkt_num d = c_next_pkt_num a" "c_peer_addr d = c_peer_addr a"
      "chan_at d = chan_at a" "c_pool_store d = c_pool_store (buf_write (Some b) 0 data c1)"
    using ready pool_get_frame [OF g] by (simp_all add: d_def c1_def buf_write_def Let_def chan_at_def fun_eq_iff)
  define a1 where "a1 = upd_chan k (\<lambda>ch. ch\<lparr>ch_send_seq := ch_send_seq ch + 1,
        ch_outgoing := (ch_outgoing ch)(ch_out_tail ch := write_entry k data a b),
        ch_in_flight := (if ch_type ch = NETCHAN_RELIABLE then ch_in_flight ch + of_nat (length data) else ch_in_flight ch),
        ch_msgs_sent := ch_msgs_sent ch + 1, ch_out_tail := Suc (ch_out_tail ?ch) mod 64\<rparr>) d"
  have a1: "c_channels a1 = [i \<mapsto> k]" "c_state a1 = NETCHAN_STATE_CONNECTED" "c_ctrl_buf a1 = []" "c_cfg a1 = c_cfg a"
      "c_remote_id a1 = c_remote_id a" "c_next_pkt_num a1 = c_next_pkt_num a" "c_peer_addr a1 = c_peer_addr a"
      "c_pool_store a1 = c_pool_store (buf_write (Some b) 0 data c1)"
    using d by (simp_all add: a1_def upd_chan_def)
  have ch: "ch_role (chan_at a1 k) = 0" "ch_state (chan_at a1 k) = 1" "ch_id (chan_at a1 k) = i"
      "\<not> ch_need_ack (chan_at a1 k)" "\<not> ch_need_window_update (chan_at a1 k)"
      "ch_outgoing (chan_at a1 k) h = write_entry k data a b" "chan_next_sendable (chan_at a1 k) = Some h"
    using ready d next_ne frag_count_one [OF assms(2,4)]
      sendable_first [of "chan_at a1 k"]
    by (simp_all add: a1_def chan_at_upd write_entry_def zero_outgoing_def h_def)
  have frag: "frag_at (max_frag_payload a1) (write_entry k data a b) = (0, length data)"
    using assms(4) a1(4) by (simp add: frag_at_def write_entry_def zero_outgoing_def max_frag_payload_def)
  have bytes: "fst (buf_read (Some b) 0 (length data) a1) = data"
    using read_write_same [of b 0 data c1] unfolding read_bytes_store a1(8) .
  have entry: "o_buf (write_entry k data a b) = Some b" "o_seq (write_entry k data a b) = ch_send_seq ?ch"
      "o_frag_sent (write_entry k data a b) = 0" "o_frag_total (write_entry k data a b) = 1"
    by (simp_all add: write_entry_def zero_outgoing_def frag_count_one [OF assms(2,4)])
  from send_single [OF a1(1-3) ch(1-5,7) ch(6) [symmetric] frag assms(2), of buflen] assms(5) a1(4)
  obtain a2 where "netchan_send_next buflen a1 = (Some (NC_PKT_FLAG_PKTNUM # wr32 (c_remote_id a) @ wr16 (c_next_pkt_num a) @
      data_frame i (ch_send_seq ?ch) 0 1 data, c_peer_addr a), a2)"
    by (auto simp: entry bytes data_frame_def a1(5-7))
  with w show ?thesis unfolding a1_def by blast
qed


subsection \<open>The receiving side\<close>

lemma deliver_idle: "\<not> reordered_ready (chan_at c k) \<Longrightarrow> chan_deliver_reordered k c = c"
proof -
  have "\<not> reordered_ready (chan_at c k) \<Longrightarrow> deliver_loop n k c = c" for n
    by (cases n) simp_all
  then show "\<not> reordered_ready (chan_at c k) \<Longrightarrow> chan_deliver_reordered k c = c"
    by (simp add: chan_deliver_reordered_def)
qed

lemma receiver_gets:
  assumes "receiver_ready c m i seq" and "length data \<le> NC_MAX_MSG"
  shows "\<exists>c1. parse_frames (data_frame i seq 0 1 data) c = (c1, NETCHAN_OK) \<and>
    (\<forall>n \<ge> length data. fst (netchan_chan_read m n c1) = (data, int (length data))) \<and>
    ch_recv_seq (chan_at c1 m) = seq + 1 \<and> ch_need_ack (chan_at c1 m)"
proof -
  let ?ch = "chan_at c m"
  define t where "t = ch_rq_tail ?ch"
  have ready: "netchan_inv c" "c_channels c i = Some m" "ch_role ?ch = 1" "ch_type ?ch \<noteq> NETCHAN_UNRELIABLE"
      "ch_recv_seq ?ch = seq" "ch_rq_head ?ch = t"
    using assms(1) by (auto simp: receiver_ready_def Let_def t_def)
  have "chan_ok ?ch" using inv_chan_ok [OF ready(1) inv_channel [OF ready(1,2)]] .
  then have "t < 64" by (simp add: chan_ok_def t_def)
  then have ne: "Suc t mod 64 \<noteq> t" by (cases "Suc t = 64") auto
  obtain b bs where "c_pool_free c = b # bs" using assms(1) by (auto simp: receiver_ready_def neq_Nil_conv)
  then have g: "pool_get c = (Some b, c\<lparr>c_pool_free := bs\<rparr>)" (is "_ = (_, ?c0)") by (simp add: pool_get_def)
  define q where "q = chan_recv_enqueue m data c"
  have "chan_recv_enqueue m data c = (upd_chan m (\<lambda>ch. ch\<lparr>
        ch_recv_queue := (ch_recv_queue ch)(ch_rq_tail ch := \<lparr>re_buf = Some b, re_len = length data\<rparr>),
        ch_rq_tail := Suc (ch_rq_tail ?ch) mod 64, ch_recv_buffered := ch_recv_buffered ch + of_nat (length data),
        ch_msgs_recv := ch_msgs_recv ch + 1\<rparr>) (buf_write (Some b) 0 data ?c0), NETCHAN_OK)"
    by (rule enqueue_accepted [OF g assms(2)]) (use ne ready(6) in \<open>simp add: t_def\<close>)
  then have q: "ch_rq_head (chan_at (fst q) m) = t" "ch_rq_tail (chan_at (fst q) m) = Suc t mod 64" "ch_role (chan_at (fst q) m) = 1"
      "ch_recv_queue (chan_at (fst q) m) t = \<lparr>re_buf = Some b, re_len = length data\<rparr>" "ch_recv_seq (chan_at (fst q) m) = seq"
      "c_pool_store (fst q) = c_pool_store (buf_write (Some b) 0 data ?c0)" "ch_reorder (chan_at (fst q) m) = ch_reorder ?ch"
    using ready by (simp_all add: q_def pool_get_frame [OF g] t_def)
  define c2 where "c2 = upd_chan m (\<lambda>ch. ch\<lparr>ch_recv_seq := ch_recv_seq ch + 1\<rparr>) (ev_push NETCHAN_EV_DATA (Some m) (fst q))"
  have "\<not> reordered_ready (chan_at c2 m)"
    using assms(1) q by (auto simp: c2_def reordered_ready_def receiver_ready_def Let_def)
  then have rel: "reliable_message m seq data c = c2"
    using ready(5) by (simp add: reliable_message_def Let_def q_def [symmetric] c2_def [symmetric] deliver_idle)
  define c1 where "c1 = data_reliable m seq 0 1 data c"
  have c1: "c1 = upd_chan m (\<lambda>ch. ch\<lparr>ch_need_ack := True, ch_ack_seq := (if 0 < ch_recv_seq ch then ch_recv_seq ch - 1 else 0)\<rparr>) c2"
    by (simp add: c1_def data_reliable_def rel)
  have "parse_frames (data_frame i seq 0 1 data) c = (c1, NETCHAN_OK)"
    using parse_data [of c i m data seq 0 1 "[]"] ready assms(2) by (simp add: c1_def NC_MAX_MSG_def)
  moreover have "fst (netchan_chan_read m n c1) = (data, int (length data))" if "length data \<le> n" for n
    using q ne that read_write_same [of b 0 data ?c0]
    by (simp add: netchan_chan_read_def Let_def case_prod_beta c1 c2_def min_def read_bytes_store)
  ultimately show ?thesis
    using q by (auto simp: c1 c2_def)
qed

lemma receiver_ready_entry: "receiver_ready c m i seq \<Longrightarrow> receiver_ready (feed_entry fs from c) m i seq"
  by (simp add: receiver_ready_def feed_entry_inv) (simp add: feed_entry_eq)

text \<open>
  C5. A message arrives. A message of at least one byte that fits one fragment is written to an idle
  open reliable channel; the packet that \<open>netchan_send_next\<close> then builds, fed to a connection that
  waits for that sequence number, is accepted, and \<open>netchan_chan_read\<close> there returns exactly the
  bytes written; the receiver expects the next number and owes an acknowledgement.
\<close>

theorem message_delivered:
  assumes "sender_ready a k i (length data)" and "receiver_ready b m i (ch_send_seq (chan_at a k))"
    and "c_remote_id a = c_local_id b" and "0 < length data" and "length data \<le> NC_MAX_MSG"
    and "length data \<le> max_frag_payload a" and "15 + length data \<le> min (unat (cfg_mtu (c_cfg a))) buflen"
    and "length data \<le> n"
  shows "\<exists>a1 a2 pkt b1. netchan_chan_write k data a = (a1, int (length data)) \<and>
    netchan_send_next buflen a1 = (Some (pkt, c_peer_addr a), a2) \<and>
    netchan_feed pkt from b = (b1, NETCHAN_OK) \<and>
    fst (netchan_chan_read m n b1) = (data, int (length data)) \<and>
    ch_recv_seq (chan_at b1 m) = ch_send_seq (chan_at a k) + 1 \<and> ch_need_ack (chan_at b1 m)"
proof -
  obtain a1 a2 where a: "netchan_chan_write k data a = (a1, int (length data))"
      "netchan_send_next buflen a1 = (Some (NC_PKT_FLAG_PKTNUM # wr32 (c_local_id b) @ wr16 (c_next_pkt_num a) @
        data_frame i (ch_send_seq (chan_at a k)) 0 1 data, c_peer_addr a), a2)"
    using sender_packet [OF assms(1,4,5,6,7)] assms(3) by auto
  let ?f = "data_frame i (ch_send_seq (chan_at a k)) 0 1 data"
  obtain b1 where "parse_frames ?f (feed_entry ?f from b) = (b1, NETCHAN_OK)"
      "\<forall>n \<ge> length data. fst (netchan_chan_read m n b1) = (data, int (length data))"
      "ch_recv_seq (chan_at b1 m) = ch_send_seq (chan_at a k) + 1" "ch_need_ack (chan_at b1 m)"
    using receiver_gets [OF receiver_ready_entry [OF assms(2)] assms(5)] by blast
  with a assms(8) feed_full_packet [of b] show ?thesis by metis
qed


text \<open>Two connections that meet these conditions, with channel 0 open between them.\<close>

definition fresh_chan :: "nat \<Rightarrow> netchan_conn" where
  "fresh_chan role = snd (chan_new 0 NETCHAN_RELIABLE 0 role []
     ((netchan_open False (\<lambda>_. 7) (\<lambda>_. 9))\<lparr>c_state := NETCHAN_STATE_CONNECTED, c_local_id := 5, c_remote_id := 5\<rparr>))"

definition idle_sender :: netchan_conn where
  "idle_sender = upd_chan 0 (\<lambda>ch. ch\<lparr>ch_state := 1, ch_send_window := 1000\<rparr>) (fresh_chan 0)"

definition idle_receiver :: netchan_conn where
  "idle_receiver = upd_chan 0 (\<lambda>ch. ch\<lparr>ch_state := 1\<rparr>) (fresh_chan 1)"

lemma first_slot: "find (\<lambda>i. True) [0..<NC_MAX_CHAN] = Some 0"
  by (simp add: NC_MAX_CHAN_def upt_conv_Cons)

lemma fresh_chan_ok:
  "netchan_inv (fresh_chan role)" "in_use (fresh_chan role) 0"
  "c_channels (fresh_chan role) = [0 \<mapsto> 0]" "c_state (fresh_chan role) = NETCHAN_STATE_CONNECTED"
  "c_ctrl_buf (fresh_chan role) = []" "c_pool_free (fresh_chan role) \<noteq> []" "c_cfg (fresh_chan role) = netchan_cfg_default"
  "c_local_id (fresh_chan role) = 5" "c_remote_id (fresh_chan role) = 5"
  "chan_at (fresh_chan role) 0 = zero_chan\<lparr>ch_id := 0, ch_type := NETCHAN_RELIABLE, ch_dir := 0, ch_role := role,
     ch_content_type := [], ch_recv_window := NC_DEFAULT_WINDOW\<rparr>"
proof -
  let ?c = "(netchan_open False (\<lambda>_. 7) (\<lambda>_. 9))\<lparr>c_state := NETCHAN_STATE_CONNECTED, c_local_id := 5, c_remote_id := 5\<rparr>"
  obtain r c' where n: "chan_new 0 NETCHAN_RELIABLE 0 role [] ?c = (r, c')" by (metis surj_pair)
  have "r = Some 0" using n by (auto simp: chan_new_def netchan_open_def pool_init_def first_slot)
  with chan_new_inv [of "{#}" "{#}", OF _ n] netchan_open_inv n show "netchan_inv (fresh_chan role)" "in_use (fresh_chan role) 0"
    by (simp_all add: fresh_chan_def)
qed (simp_all add: fresh_chan_def chan_new_def first_slot netchan_open_def pool_init_def chan_at_def
    netchan_cfg_default_def NC_POOL_BUFS_def)

lemma idle_ready:
  "sender_ready idle_sender 0 0 3" "receiver_ready idle_receiver 0 0 0"
  "max_frag_payload idle_sender = 1185" "unat (cfg_mtu (c_cfg idle_sender)) = 1200"
  "c_remote_id idle_sender = c_local_id idle_receiver" "ch_send_seq (chan_at idle_sender 0) = 0"
proof -
  have "netchan_inv idle_sender" "netchan_inv idle_receiver"
    unfolding idle_sender_def idle_receiver_def by (rule inv_upd_plain; simp add: fresh_chan_ok)+
  then show "sender_ready idle_sender 0 0 3" "receiver_ready idle_receiver 0 0 0"
    by (simp_all add: sender_ready_def receiver_ready_def idle_sender_def idle_receiver_def fresh_chan_ok Let_def
        zero_chan_def NETCHAN_RELIABLE_def NETCHAN_UNRELIABLE_def) (simp_all add: upd_chan_def fresh_chan_ok)
qed (simp_all add: idle_sender_def idle_receiver_def upd_chan_def fresh_chan_ok max_frag_payload_def netchan_cfg_default_def
    NC_DEFAULT_MTU_def chan_at_def fresh_chan_ok(10) [unfolded chan_at_def] zero_chan_def)

theorem message_delivered_witness:
  "\<exists>a1 a2 pkt b1. netchan_chan_write 0 [1, 2, 3] idle_sender = (a1, 3) \<and>
    netchan_send_next 1500 a1 = (Some (pkt, c_peer_addr idle_sender), a2) \<and>
    netchan_feed pkt [4] idle_receiver = (b1, NETCHAN_OK) \<and>
    fst (netchan_chan_read 0 100 b1) = ([1, 2, 3], 3) \<and>
    ch_recv_seq (chan_at b1 0) = 1 \<and> ch_need_ack (chan_at b1 0)"
  using message_delivered [of idle_sender 0 0 "[1, 2, 3]" idle_receiver 0 1500 100 "[4]"] idle_ready
  by (simp add: NC_MAX_MSG_def numeral_3_eq_3)

end
