(* ===== verification/Nc_Laws.thy ===== *)
theory Nc_Laws
  imports Nc_Journey
begin

text \<open>
  Laws of single operations of netchan: the event queue as a bounded queue, flow control, what an
  acknowledgement releases, the end of the delivery loop, the size of packets, bounded connection
  attempts; and the places where the code does not keep what it means to.
\<close>

subsection \<open>Events\<close>

text \<open>
  The event queue is a bounded queue: of any events pushed onto an empty queue it keeps the first
  15, polling returns them oldest first, and after they are gone polling returns nothing and
  changes nothing.
\<close>

theorem event_queue_fifo:
  assumes "ev_ok c" and "ev_list c = []"
  shows "fst (evq.pops n (fold ev_put es c)) = take (min n 15) es \<and>
    netchan_poll (snd (evq.pops 15 (fold ev_put es c))) = (None, snd (evq.pops 15 (fold ev_put es c)))"
proof -
  let ?c = "fold ev_put es c"
  have "ev_ok ?c" and "ev_list ?c = take 15 es"
    using evq.pushes_valid [OF assms(1)] evq.pushes_contents [OF assms(1)] assms(2) by auto
  then have "ev_ok (snd (evq.pops 15 ?c))" "ev_list (snd (evq.pops 15 ?c)) = []"
    using evq.pops_contents [of ?c 15] by auto
  then show ?thesis
    using evq.drained [OF assms, of n es] evq.pop_empty by blast
qed

theorem event_queue_fifo_witness:
  "fst (evq.pops 2 (fold ev_put [nc_zero_event, nc_zero_event\<lparr>ev_ch := Some 3\<rparr>, nc_zero_event]
     (netchan_open True (\<lambda>_. 7) (\<lambda>_. 9)))) = [nc_zero_event, nc_zero_event\<lparr>ev_ch := Some 3\<rparr>]"
proof -
  have "ev_ok (netchan_open True (\<lambda>_. 7) (\<lambda>_. 9))" "ev_list (netchan_open True (\<lambda>_. 7) (\<lambda>_. 9)) = []"
    by (simp_all add: ev_ok_def ev_list_def netchan_open_def pool_init_def NC_EVENT_QUEUE_def)
  from event_queue_fifo [OF this, of 2 "[nc_zero_event, nc_zero_event\<lparr>ev_ch := Some 3\<rparr>, nc_zero_event]"]
  show ?thesis by (simp add: numeral_2_eq_2)
qed

subsection \<open>Flow control\<close>

text \<open>
  C30. Flow control. A write that is accepted on an open reliable channel raises the bytes in flight by
  exactly the length of the message, without wrapping, and leaves them within the window the peer
  granted; a message has 1 to 2048 bytes and takes the next sequence number.
\<close>

theorem write_within_window:
  assumes "netchan_chan_write k data c = (c', n)" and "0 < n"
    and "ch_type (chan_at c k) = NETCHAN_RELIABLE" and "ch_state (chan_at c k) = 1"
  shows "n = int (length data) \<and> length data \<le> 2048 \<and>
    unat (ch_in_flight (chan_at c' k)) = unat (ch_in_flight (chan_at c k)) + length data \<and>
    ch_in_flight (chan_at c' k) \<le> ch_send_window (chan_at c' k) \<and>
    ch_send_seq (chan_at c' k) = ch_send_seq (chan_at c k) + 1"
proof (cases k data c rule: write_cases)
  case refused
  with assms show ?thesis by simp
next
  case cut
  with assms show ?thesis by (simp add: NETCHAN_ERR_TOOBIG_def)
next
  case (accepted b c1)
  note fl = accepted(7) [OF assms(3,4)]
  have "unat (ch_in_flight (chan_at c k)) + length data < 2 ^ 32"
    using fl u32_bound [of "ch_send_window (chan_at c k)"] by simp
  then have sum: "unat (ch_in_flight (chan_at c k) + of_nat (length data)) = unat (ch_in_flight (chan_at c k)) + length data"
    by (simp add: unat_word_ariths unsigned_of_nat take_bit_nat_eq_self)
  show ?thesis
    using assms accepted fl sum by (auto simp: pool_get_frame NC_MAX_MSG_def word_le_nat_alt)
qed

theorem write_within_window_witness:
  "snd (netchan_chan_write 0 [1, 2, 3] idle_sender) = 3 \<and>
   unat (ch_in_flight (chan_at (fst (netchan_chan_write 0 [1, 2, 3] idle_sender)) 0)) = 3"
proof -
  obtain a1 where w: "netchan_chan_write 0 [1, 2, 3] idle_sender = (a1, int (length [1, 2, 3 :: u8]))"
    using sender_packet [of idle_sender 0 0 "[1, 2, 3]" 1500] idle_ready by (auto simp: NC_MAX_MSG_def numeral_3_eq_3)
  have "ch_type (chan_at idle_sender 0) = NETCHAN_RELIABLE" "ch_state (chan_at idle_sender 0) = 1"
      "ch_in_flight (chan_at idle_sender 0) = 0"
    by (simp_all add: idle_sender_def fresh_chan_ok zero_chan_def)
  with write_within_window [OF w] w show ?thesis by simp
qed


subsection \<open>Acknowledgements\<close>

text \<open>The slot loop touches each slot once, and independently of the others.\<close>

lemma ack_slot_outgoing:
  "ch_outgoing (chan_at (ack_slot k q i c) k) = (ch_outgoing (chan_at c k))(i :=
     if o_active (ch_outgoing (chan_at c k) i) \<and> sint (o_seq (ch_outgoing (chan_at c k) i) - q) \<le> 0
     then (ch_outgoing (chan_at c k) i)\<lparr>o_buf := None, o_active := False\<rparr> else ch_outgoing (chan_at c k) i)"
  by (simp add: ack_slot_def Let_def)

lemma ack_slot_rest:
  "ch_out_head (chan_at (ack_slot k q i c) k) = ch_out_head (chan_at c k)"
  "ch_out_tail (chan_at (ack_slot k q i c) k) = ch_out_tail (chan_at c k)"
  by (simp_all add: ack_slot_def Let_def)

lemma ack_slots_outgoing:
  "distinct is \<Longrightarrow> ch_outgoing (chan_at (fold (ack_slot k q) is c) k) j =
     (if j \<in> set is \<and> o_active (ch_outgoing (chan_at c k) j) \<and> sint (o_seq (ch_outgoing (chan_at c k) j) - q) \<le> 0
      then (ch_outgoing (chan_at c k) j)\<lparr>o_buf := None, o_active := False\<rparr> else ch_outgoing (chan_at c k) j)"
  by (induction "is" arbitrary: c) (auto simp: ack_slot_outgoing)

text \<open>The turns given to the loop that moves \<open>out_head\<close> suffice: it ends by its own test.\<close>

lemma advance_done:
  "ch_out_head ch < 64 \<Longrightarrow> ch_out_tail ch < 64 \<Longrightarrow> length (ring_slots 64 (ch_out_head ch) (ch_out_tail ch)) \<le> n \<Longrightarrow>
     ch_out_head (advance_loop n ch) = ch_out_tail (advance_loop n ch) \<or>
     o_active (ch_outgoing (advance_loop n ch) (ch_out_head (advance_loop n ch)))"
proof (induction n arbitrary: ch)
  case 0
  then show ?case by (simp add: ring_empty_iff)
next
  case (Suc n)
  show ?case
  proof (cases "ch_out_head ch \<noteq> ch_out_tail ch \<and> \<not> o_active (ch_outgoing ch (ch_out_head ch))")
    case True
    with ring_pop [OF Suc.prems(1,2)] Suc.prems Suc.IH [of "ch\<lparr>ch_out_head := Suc (ch_out_head ch) mod 64\<rparr>"]
    show ?thesis by (simp add: NC_OUTGOING_SLOTS_def)
  next
    case False
    then show ?thesis by auto
  qed
qed

lemma advance_loop_ring [simp]:
  "ch_outgoing (advance_loop n ch) = ch_outgoing ch" "ch_out_tail (advance_loop n ch) = ch_out_tail ch"
  by (induction n arbitrary: ch) simp_all

text \<open>
  C27. An acknowledgement of \<open>q\<close> on a sending channel releases exactly the messages up to \<open>q\<close> in sequence
  order (a signed 16-bit difference, so the order survives the wrap of the numbers) and no other,
  and the head of the queue then stands at a message still in flight or at the tail.
\<close>

theorem ack_releases:
  assumes "c_channels c i = Some k" and "in_use c k" and "netchan_inv c" and "ch_role (chan_at c k) = 0"
    and "process_ack ([NC_FRAME_ACK, i] @ wr16 q) c = (c', n)"
  shows "n = 4 \<and> (\<forall>j<64. ch_outgoing (chan_at c' k) j =
      (if o_active (ch_outgoing (chan_at c k) j) \<and> sint (o_seq (ch_outgoing (chan_at c k) j) - q) \<le> 0
       then (ch_outgoing (chan_at c k) j)\<lparr>o_buf := None, o_active := False\<rparr> else ch_outgoing (chan_at c k) j)) \<and>
    (ch_out_head (chan_at c' k) = ch_out_tail (chan_at c' k) \<or>
     o_active (ch_outgoing (chan_at c' k) (ch_out_head (chan_at c' k)))) \<and> netchan_inv c'"
proof -
  let ?d = "fold (ack_slot k q) [0..<64] c"
  have c': "c' = upd_chan k advance_head ?d" "n = 4"
    using assms by (simp_all add: process_ack_def NC_OUTGOING_SLOTS_def)
  have d: "netchan_inv ?d" "in_use ?d k"
    using ack_slots_inv [OF assms(3,2), of "[0..<64]" q] by (simp_all add: lessThan_atLeast0)
  then have "chan_ok (chan_at ?d k)" by (rule inv_chan_ok)
  then have "ch_out_head (chan_at ?d k) < 64" "ch_out_tail (chan_at ?d k) < 64" by (simp_all add: chan_ok_def)
  with advance_done [OF this, of 64] ring_room [OF this]
  have "ch_out_head (advance_head (chan_at ?d k)) = ch_out_tail (chan_at ?d k) \<or>
      o_active (ch_outgoing (chan_at ?d k) (ch_out_head (advance_head (chan_at ?d k))))"
    by (simp add: advance_head_def NC_OUTGOING_SLOTS_def)
  then show ?thesis
    using c' advance_head_inv [OF d] by (auto simp: ack_slots_outgoing advance_head_def)
qed

lemma first_write:
  "\<exists>c1. netchan_chan_write 0 [1, 2, 3] idle_sender = (c1, 3) \<and> c_channels c1 = [0 \<mapsto> 0] \<and> in_use c1 0 \<and> netchan_inv c1 \<and>
     ch_role (chan_at c1 0) = 0 \<and> o_seq (ch_outgoing (chan_at c1 0) 0) = 0 \<and> o_active (ch_outgoing (chan_at c1 0) 0)"
proof -
  obtain a1 where w: "netchan_chan_write 0 [1, 2, 3] idle_sender = (a1, 3)"
    using sender_packet [of idle_sender 0 0 "[1, 2, 3]" 1500] idle_ready by (auto simp: NC_MAX_MSG_def numeral_3_eq_3)
  have inv: "netchan_inv idle_sender" "in_use idle_sender 0"
    using idle_ready(1) by (auto simp: sender_ready_def idle_sender_def fresh_chan_ok)
  have ch: "chan_at idle_sender 0 = zero_chan\<lparr>ch_id := 0, ch_type := NETCHAN_RELIABLE, ch_dir := 0, ch_role := 0,
     ch_content_type := [], ch_recv_window := NC_DEFAULT_WINDOW, ch_state := 1, ch_send_window := 1000\<rparr>"
    by (simp add: idle_sender_def fresh_chan_ok)
  show ?thesis
  proof (cases "0 :: nat" "[1, 2, 3 :: u8]" idle_sender rule: write_cases)
    case (accepted b c1)
    then show ?thesis
      using w inv netchan_chan_write_inv [OF inv, of "[1, 2, 3]"]
      by (auto simp: pool_get_frame ch zero_chan_def write_entry_def zero_outgoing_def)
        (simp add: idle_sender_def fresh_chan_ok)
  qed (use w in \<open>simp_all add: NETCHAN_ERR_TOOBIG_def\<close>)
qed

theorem ack_releases_witness:
  "\<exists>c1 c'. netchan_chan_write 0 [1, 2, 3] idle_sender = (c1, 3) \<and> o_active (ch_outgoing (chan_at c1 0) 0) \<and>
    process_ack ([NC_FRAME_ACK, 0] @ wr16 0) c1 = (c', 4) \<and> \<not> o_active (ch_outgoing (chan_at c' 0) 0)"
proof -
  obtain c1 where w: "netchan_chan_write 0 [1, 2, 3] idle_sender = (c1, 3)" "c_channels c1 = [0 \<mapsto> 0]" "in_use c1 0" "netchan_inv c1"
     "ch_role (chan_at c1 0) = 0" "o_seq (ch_outgoing (chan_at c1 0) 0) = 0" "o_active (ch_outgoing (chan_at c1 0) 0)"
    using first_write by blast
  obtain c' n where a: "process_ack ([NC_FRAME_ACK, 0] @ wr16 0) c1 = (c', n)" by (metis surj_pair)
  have "n = 4 \<and> ch_outgoing (chan_at c' 0) 0 = (ch_outgoing (chan_at c1 0) 0)\<lparr>o_buf := None, o_active := False\<rparr>"
    using ack_releases [OF _ w(3,4,5) a] w by simp
  with a w show ?thesis by auto
qed

subsection \<open>Delivery\<close>

lemma deliver_one_reorder:
  "ch_reorder (chan_at (deliver_one k c) k) =
     (ch_reorder (chan_at c k))(unat (ch_recv_seq (chan_at c k)) mod 64 :=
       (ch_reorder (chan_at c k) (unat (ch_recv_seq (chan_at c k)) mod 64))\<lparr>ro_buf := None, ro_valid := False\<rparr>)"
  by (simp add: deliver_one_def Let_def case_prod_beta NC_REORDER_SLOTS_def)

definition waiting :: "netchan_chan \<Rightarrow> nat set" where
  "waiting ch = {i. i < 64 \<and> ro_valid (ch_reorder ch i)}"

lemma deliver_one_waiting:
  assumes "reordered_ready (chan_at c k)"
  shows "card (waiting (chan_at (deliver_one k c) k)) < card (waiting (chan_at c k))"
proof (rule psubset_card_mono)
  let ?s = "unat (ch_recv_seq (chan_at c k)) mod 64"
  have "?s \<in> waiting (chan_at c k)"
    using assms by (simp add: waiting_def reordered_ready_def Let_def NC_REORDER_SLOTS_def)
  moreover have "waiting (chan_at (deliver_one k c) k) = waiting (chan_at c k) - {?s}"
    by (auto simp: waiting_def deliver_one_reorder split: if_splits)
  ultimately show "waiting (chan_at (deliver_one k c) k) \<subset> waiting (chan_at c k)" by auto
qed (simp add: waiting_def)

definition due :: "netchan_chan \<Rightarrow> u16 \<Rightarrow> bool" where
  "due ch q = (let r = ch_reorder ch (unat q mod 64) in ro_valid r \<and> ro_seq r = q)"

lemma ready_due: "reordered_ready ch = due ch (ch_recv_seq ch)"
  by (simp add: reordered_ready_def due_def NC_REORDER_SLOTS_def)

lemma deliver_one_due: "due (chan_at (deliver_one k c) k) q \<Longrightarrow> due (chan_at c k) q"
  by (auto simp: due_def Let_def deliver_one_reorder split: if_splits)

lemma deliver_one_seq [simp]: "ch_recv_seq (chan_at (deliver_one k c) k) = ch_recv_seq (chan_at c k) + 1"
  by (simp add: deliver_one_def Let_def case_prod_beta)

lemma deliver_loop_run:
  "\<exists>m \<le> n. ch_recv_seq (chan_at (deliver_loop n k c) k) = ch_recv_seq (chan_at c k) + of_nat m \<and>
     (\<forall>j<m. due (chan_at c k) (ch_recv_seq (chan_at c k) + of_nat j)) \<and>
     (card (waiting (chan_at c k)) \<le> n \<longrightarrow> \<not> reordered_ready (chan_at (deliver_loop n k c) k))"
proof (induction n arbitrary: c)
  case 0
  have "\<not> reordered_ready (chan_at c k)" if "card (waiting (chan_at c k)) = 0"
    using that by (auto simp: waiting_def reordered_ready_def Let_def NC_REORDER_SLOTS_def)
  then show ?case by simp
next
  case (Suc n)
  show ?case
  proof (cases "reordered_ready (chan_at c k)")
    case True
    obtain m where m: "m \<le> n" "ch_recv_seq (chan_at (deliver_loop n k (deliver_one k c)) k) = ch_recv_seq (chan_at c k) + 1 + of_nat m"
        "\<forall>j<m. due (chan_at c k) (ch_recv_seq (chan_at c k) + 1 + of_nat j)"
        "card (waiting (chan_at (deliver_one k c) k)) \<le> n \<Longrightarrow> \<not> reordered_ready (chan_at (deliver_loop n k (deliver_one k c)) k)"
      using Suc.IH [of "deliver_one k c"] deliver_one_due by auto
    have "due (chan_at c k) (ch_recv_seq (chan_at c k) + of_nat j)" if "j < Suc m" for j
      using that m(3) True by (cases j) (auto simp: ready_due ac_simps)
    with m True deliver_one_waiting [OF True] show ?thesis
      by (intro exI [of _ "Suc m"]) (auto simp: ac_simps)
  next
    case False
    then show ?thesis by (intro exI [of _ 0]) simp
  qed
qed

text \<open>
  C29. In-order delivery from the reorder window. The loop of \<open>chan_deliver_reordered\<close> ends by its own test
  (the turns given always suffice), after it has advanced the expected sequence number past a run of
  messages that were waiting, each under the very number that was due; the next number is not
  waiting.
\<close>

theorem deliver_reordered_run:
  "\<exists>m \<le> 64. ch_recv_seq (chan_at (chan_deliver_reordered k c) k) = ch_recv_seq (chan_at c k) + of_nat m \<and>
     list_all (\<lambda>j. due (chan_at c k) (ch_recv_seq (chan_at c k) + of_nat j)) [0..<m] \<and>
     \<not> due (chan_at (chan_deliver_reordered k c) k) (ch_recv_seq (chan_at (chan_deliver_reordered k c) k))"
proof -
  have "card (waiting (chan_at c k)) \<le> card {..<64 :: nat}"
    by (rule card_mono) (auto simp: waiting_def)
  with deliver_loop_run [of 64 k c] show ?thesis
    by (auto simp: chan_deliver_reordered_def NC_REORDER_SLOTS_def list_all_iff ready_due)
qed


subsection \<open>Packet size\<close>

lemma read_length [simp]: "length (fst (buf_read b off n c)) = n"
  by (simp add: buf_read_def Let_def split: option.split)

lemma put_length:
  "length (fst s) \<le> mtu \<Longrightarrow> length (fst (put_ack mtu k s)) \<le> mtu"
  "length (fst s) \<le> mtu \<Longrightarrow> length (fst (put_window mtu k s)) \<le> mtu"
  by (auto simp: put_ack_def put_window_def Let_def split: prod.split)

lemma flush_acks_length: "length (fst s) \<le> mtu \<Longrightarrow> length (fst (flush_acks is mtu s)) \<le> mtu"
  by (induction "is" mtu s rule: flush_acks.induct) (auto simp: put_length split: option.split)

lemma send_fragment_length:
  "length (fst (send_fragment k j s)) =
     length (fst s) + 8 + snd (frag_at (max_frag_payload (snd s)) (ch_outgoing (chan_at (snd s) k) j))"
  using send_fragment_bytes [OF refl surjective_pairing, of k j s] by simp

lemma flush_data_length: "length (fst s) \<le> mtu \<Longrightarrow> length (fst (flush_data is mtu s)) \<le> mtu"
proof (induction "is" mtu s rule: flush_data.induct)
  case (2 i rest mtu s)
  have "length (fst (send_fragment k j s)) \<le> mtu"
    if "length (fst s) + 9 \<le> mtu" "snd (frag_at (max_frag_payload (snd s)) (ch_outgoing (chan_at (snd s) k) j)) \<le> mtu - length (fst s) - 8"
    for k j using that by (simp add: send_fragment_length)
  with 2 show ?case by (auto simp: Let_def not_less split: option.split)
qed simp




subsection \<open>Connection attempts\<close>

lemma service_no_channels: "c_channels (fst s) = (\<lambda>_. None) \<Longrightarrow> fold (service_channel now) is s = s"
  by (induction "is") (simp_all add: service_channel_def)

lemma ctrl_connect_fields [simp]:
  "c_state (ctrl_connect_init c) = c_state c" "c_server (ctrl_connect_init c) = c_server c"
  "c_channels (ctrl_connect_init c) = c_channels c"
  by (simp_all add: ctrl_connect_init_def ctrl_append_def)

text \<open>A service call of a connecting client, half a second after its last attempt.\<close>

lemma service_connecting:
  assumes "c_state c = NETCHAN_STATE_CONNECTING" and "\<not> c_server c" and "c_channels c = (\<lambda>_. None)"
    and "now - c_connect_sent_ms c = 500"
  shows "fst (netchan_service now c) =
    (if 5 \<le> c_connect_attempts c then ev_push NETCHAN_EV_DISCONNECTED None (c\<lparr>c_state := NETCHAN_STATE_CLOSED\<rparr>)
     else (ctrl_connect_init c)\<lparr>c_connect_sent_ms := now, c_connect_attempts := c_connect_attempts c + 1\<rparr>)"
  using assms by (simp add: netchan_service_def service_connect_def service_idle_def service_ping_def Let_def
      NC_CONNECT_RETRY_MS_def NC_CONNECT_RETRIES_def service_no_channels)

definition attempts_after :: "nat \<Rightarrow> netchan_conn \<Rightarrow> netchan_conn" where
  "attempts_after n c =
    fold (\<lambda>j c'. fst (netchan_service (c_connect_sent_ms c + 500 * of_nat j) c')) [1..<Suc n] c"

lemma attempts_run:
  assumes "c_state c = NETCHAN_STATE_CONNECTING" "\<not> c_server c" "c_channels c = (\<lambda>_. None)" "c_connect_attempts c = 1" and "n \<le> 4"
  shows "c_state (attempts_after n c) = NETCHAN_STATE_CONNECTING \<and> \<not> c_server (attempts_after n c) \<and>
    c_channels (attempts_after n c) = (\<lambda>_. None) \<and> c_connect_attempts (attempts_after n c) = 1 + of_nat n \<and>
    c_connect_sent_ms (attempts_after n c) = c_connect_sent_ms c + 500 * of_nat n"
  using \<open>n \<le> 4\<close>
proof (induction n)
  case 0
  then show ?case using assms by (simp add: attempts_after_def)
next
  case (Suc n)
  let ?d = "attempts_after n c"
  have next_c: "attempts_after (Suc n) c = fst (netchan_service (c_connect_sent_ms c + 500 * of_nat (Suc n)) ?d)"
    by (simp add: attempts_after_def del: of_nat_Suc)
  have "n = 0 \<or> n = 1 \<or> n = 2 \<or> n = 3" using Suc.prems by auto
  then have "c_connect_attempts ?d < 5"
    using Suc by auto
  moreover have "c_connect_sent_ms c + 500 * of_nat (Suc n) - c_connect_sent_ms ?d = 500"
    using Suc by (simp add: algebra_simps)
  ultimately show ?case
    using Suc service_connecting [of ?d "c_connect_sent_ms c + 500 * of_nat (Suc n)"]
    by (simp add: next_c not_le [symmetric] algebra_simps)
qed

text \<open>
  A client does not wait for ever. When no answer comes and the service is called every half
  second, a fresh client sends its connection request again at each of the first four calls, and the
  fifth call gives up: the connection is closed and the application told.
\<close>

theorem connect_gives_up:
  assumes "netchan_connect addr (netchan_open False ck en) = (c, r)"
  shows "r = NETCHAN_OK \<and>
    list_all (\<lambda>n. netchan_state (attempts_after n c) = NETCHAN_STATE_CONNECTING \<and>
       c_connect_attempts (attempts_after n c) = 1 + of_nat n) [0..<5] \<and>
    netchan_state (attempts_after 5 c) = NETCHAN_STATE_CLOSED \<and>
    snd (netchan_service (c_connect_sent_ms c + 2500) (attempts_after 4 c)) = -1"
proof -
  have c: "r = NETCHAN_OK" "c_state c = NETCHAN_STATE_CONNECTING" "\<not> c_server c" "c_channels c = (\<lambda>_. None)" "c_connect_attempts c = 1"
    using assms by (auto simp: netchan_connect_def netchan_open_def pool_init_def nc_random_id_def nc_now_ms_def
        ctrl_connect_init_def ctrl_append_def Let_def NC_CTRL_BUF_SIZE_def)
  note run = attempts_run [OF c(2-5)]
  have "list_all (\<lambda>n. netchan_state (attempts_after n c) = NETCHAN_STATE_CONNECTING \<and>
       c_connect_attempts (attempts_after n c) = 1 + of_nat n) [0..<5]"
    using run by (auto simp: list_all_iff netchan_state_def)
  moreover have 5: "attempts_after 5 c = fst (netchan_service (c_connect_sent_ms c + 2500) (attempts_after 4 c))"
    by (simp add: attempts_after_def upt_rec [of 1] upt_rec)
  ultimately show ?thesis
    using c(1) run [of 4] service_connecting [of "attempts_after 4 c" "c_connect_sent_ms c + 2500"]
    by (simp add: netchan_state_def netchan_service_def service_connect_def Let_def
      NC_CONNECT_RETRY_MS_def NC_CONNECT_RETRIES_def)
qed

theorem connect_gives_up_witness:
  "\<exists>c. netchan_connect [4, 1] (netchan_open False (\<lambda>_. 7) (\<lambda>_. 9)) = (c, NETCHAN_OK) \<and>
     netchan_state (attempts_after 5 c) = NETCHAN_STATE_CLOSED"
proof -
  obtain c r where "netchan_connect [4, 1] (netchan_open False (\<lambda>_. 7) (\<lambda>_. 9)) = (c, r)" by (metis surj_pair)
  with connect_gives_up [OF this] show ?thesis by auto
qed

end
