(* ===== verification/Nc_Flaws.thy ===== *)
theory Nc_Flaws
  imports Nc_Laws
begin

text \<open>
  Behaviour of netchan that its design does not intend, each as a theorem about the model: a packet
  that needs no connection identifier, an acknowledgement for a message that never came, a message
  acknowledged and dropped, and fragments that overrun their buffer.
\<close>

subsection \<open>The connection identifier\<close>

text \<open>
  The identifier check does not protect a connection. A packet with a wrong identifier is refused,
  unchanged state and all, only as long as its INIT flag is clear; with the flag set the identifier
  is not compared, and the packet may carry any frame: eight bytes close any connection, whatever
  identifier they name and wherever they come from.
\<close>

theorem init_flag_bypasses_id:
  "netchan_state (fst (netchan_feed (NC_PKT_FLAG_INIT # wr32 x @ [NC_FRAME_DISCONNECT, 0, 0]) from c)) = NETCHAN_STATE_CLOSED \<and>
   netchan_feed (NC_PKT_FLAG_PKTNUM # wr32 (c_local_id c + 1) @ fs) from c = (c, NETCHAN_ERR_PROTO)"
proof -
  have "wr16 0 = [0, 0]" by (simp add: wr16_def)
  then have "parse_frames [NC_FRAME_DISCONNECT, 0, 0] e =
      (ev_push NETCHAN_EV_DISCONNECTED None (e\<lparr>c_state := NETCHAN_STATE_CLOSED\<rparr>), NETCHAN_OK)" for e
    using parse_disconnect [of 0 "[]" e] by simp
  then have "netchan_state (fst (netchan_feed (NC_PKT_FLAG_INIT # wr32 x @ [NC_FRAME_DISCONNECT, 0, 0]) from c)) = NETCHAN_STATE_CLOSED"
    unfolding feed_init_packet by (simp add: netchan_state_def)
  moreover have "rd32 (NC_PKT_FLAG_PKTNUM # wr32 (c_local_id c + 1) @ fs) 1 \<noteq> c_local_id c" by simp
  ultimately show ?thesis
    unfolding netchan_feed_alt by (simp add: NC_PKT_FLAG_PKTNUM_def NC_PKT_FLAG_INIT_def)
qed

subsection \<open>Acknowledgements of messages that were not delivered\<close>

lemma reorder_store_seq [simp]:
  "ch_recv_seq (chan_at (reorder_store k seq data c) k) = ch_recv_seq (chan_at c k)"
  "ch_recv_queue (chan_at (reorder_store k seq data c) k) = ch_recv_queue (chan_at c k)"
  by (auto simp: reorder_store_def Let_def pool_get_frame split: option.split prod.split)

text \<open>
  C40. The first message of a channel can be lost for good. When message 0 is lost and a later one
  arrives first, the receiver, which has delivered nothing, acknowledges number 0; the sender takes
  that as an acknowledgement of message 0 and releases it, so it is never sent again, while the
  receiver waits for it.
\<close>

theorem early_ack_loses_message:
  assumes "ch_recv_seq (chan_at r m) = 0" and "seq \<noteq> 0"
    and "c_channels s i = Some k" and "ch_role (chan_at s k) = 0" and "j < 64"
    and "o_active (ch_outgoing (chan_at s k) j)" and "o_seq (ch_outgoing (chan_at s k) j) = 0"
  shows "(let r' = data_reliable m seq 0 1 data r; q = ch_ack_seq (chan_at r' m);
              s' = fst (process_ack ([NC_FRAME_ACK, i] @ wr16 q) s) in
    ch_need_ack (chan_at r' m) \<and> ch_recv_queue (chan_at r' m) = ch_recv_queue (chan_at r m) \<and>
    ch_recv_seq (chan_at r' m) = 0 \<and> \<not> o_active (ch_outgoing (chan_at s' k) j))"
proof -
  have r: "data_reliable m seq 0 1 data r = upd_chan m (\<lambda>ch. ch\<lparr>ch_need_ack := True,
      ch_ack_seq := (if 0 < ch_recv_seq ch then ch_recv_seq ch - 1 else 0)\<rparr>) (reorder_store m seq data r)"
    using assms(1,2) by (simp add: data_reliable_def reliable_message_def)
  have "\<not> o_active (ch_outgoing (chan_at (fst (process_ack ([NC_FRAME_ACK, i] @ wr16 0) s)) k) j)"
    using assms by (simp add: process_ack_def NC_OUTGOING_SLOTS_def advance_head_def ack_slots_outgoing)
  then show ?thesis by (simp add: r assms(1))
qed

theorem early_ack_loses_message_witness:
  "\<exists>s. netchan_chan_write 0 [1, 2, 3] idle_sender = (s, 3) \<and> o_active (ch_outgoing (chan_at s 0) 0) \<and>
     (let r' = data_reliable 0 1 0 1 [7] idle_receiver; q = ch_ack_seq (chan_at r' 0);
          s' = fst (process_ack ([NC_FRAME_ACK, 0] @ wr16 q) s) in
      ch_need_ack (chan_at r' 0) \<and> ch_recv_queue (chan_at r' 0) = ch_recv_queue (chan_at idle_receiver 0) \<and>
      ch_recv_seq (chan_at r' 0) = 0 \<and> \<not> o_active (ch_outgoing (chan_at s' 0) 0))"
proof -
  obtain s where w: "netchan_chan_write 0 [1, 2, 3] idle_sender = (s, 3)" "c_channels s = [0 \<mapsto> 0]"
     "ch_role (chan_at s 0) = 0" "o_seq (ch_outgoing (chan_at s 0) 0) = 0" "o_active (ch_outgoing (chan_at s 0) 0)"
    using first_write by blast
  have "ch_recv_seq (chan_at idle_receiver 0) = 0"
    using idle_ready(2) by (simp add: receiver_ready_def Let_def)
  from early_ack_loses_message [OF this, of 1 s 0 0 0 "[7]"] w show ?thesis by auto
qed

text \<open>A reliable message that finds no free buffer is dropped and acknowledged all the same.\<close>

lemma full_pool_loses_message:
  assumes "c_pool_free c = []" and "seq = ch_recv_seq (chan_at c k)" and "\<not> due (chan_at c k) (seq + 1)" and "seq + 1 \<noteq> 0"
  shows "let c' = data_reliable k seq 0 1 data c in
    ch_recv_queue (chan_at c' k) = ch_recv_queue (chan_at c k) \<and> ch_rq_tail (chan_at c' k) = ch_rq_tail (chan_at c k) \<and>
    ch_recv_seq (chan_at c' k) = seq + 1 \<and> ch_need_ack (chan_at c' k) \<and> ch_ack_seq (chan_at c' k) = seq"
proof -
  have e: "fst (chan_recv_enqueue k data c) = c"
    using assms(1) by (simp add: chan_recv_enqueue_def Let_def pool_get_def)
  have "\<not> reordered_ready (ch\<lparr>ch_recv_seq := q\<rparr>)" if "\<not> due ch q" for ch q
    using that by (simp add: ready_due due_def)
  then have "reliable_message k seq data c = upd_chan k (\<lambda>ch. ch\<lparr>ch_recv_seq := ch_recv_seq ch + 1\<rparr>) (ev_push NETCHAN_EV_DATA (Some k) c)"
    using assms e by (simp add: reliable_message_def Let_def deliver_idle)
  then show ?thesis using assms(2,4) by (simp add: data_reliable_def Let_def word_neq_0_conv)
qed

end
