(* ===== verification/Nc_Crypto.thy ===== *)
theory Nc_Crypto
  imports Nc_Wire
begin

text \<open>
  The encrypted session of \<open>nc_crypto.c\<close>: the HELLO exchange that derives the session keys from up to
  three Diffie-Hellman results, the sealing and opening of packets under a counter nonce, and the
  sliding replay window. The primitives of the vendored library monocypher are a parameter of the
  definitions, and what the code relies on is stated as \<open>crypto_laws\<close>. A key is a list of 32 bytes;
  wiping a local buffer has no counterpart.
\<close>

section \<open>Primitives and state\<close>

record nc_prims =
  x25519 :: "u8 list \<Rightarrow> u8 list \<Rightarrow> u8 list"
  x25519_public :: "u8 list \<Rightarrow> u8 list"
  blake2b :: "nat \<Rightarrow> u8 list \<Rightarrow> u8 list"
  aead_lock :: "u8 list \<Rightarrow> u8 list \<Rightarrow> u8 list \<Rightarrow> u8 list \<times> u8 list"
  aead_unlock :: "u8 list \<Rightarrow> u8 list \<Rightarrow> u8 list \<Rightarrow> u8 list \<Rightarrow> u8 list option"
  eddsa_sign :: "u8 list \<Rightarrow> u8 list \<Rightarrow> u8 list"
  eddsa_check :: "u8 list \<Rightarrow> u8 list \<Rightarrow> u8 list \<Rightarrow> bool"

text \<open>\<open>verify_peer\<close> is the application's verdict on the key the peer presented, 0 to accept it.\<close>

record nc_crypto =
  cr_role :: int
  cr_have_key :: bool
  cr_failed :: bool
  cr_eph_sk :: "u8 list"
  cr_eph_pk :: "u8 list"
  cr_have_static :: bool
  cr_static_sk :: "u8 list"
  cr_static_pk :: "u8 list"
  cr_peer_has_static :: bool
  cr_peer_static_pk :: "u8 list"
  cr_tx_key :: "u8 list"
  cr_rx_key :: "u8 list"
  cr_psk :: "u8 list"
  cr_sid :: "u8 list"
  cr_tx_counter :: u64
  cr_rx_max :: u64
  cr_rx_window :: u64
  cr_require_peer_static :: bool
  cr_verify_peer :: "(u8 list option \<Rightarrow> int) option"

record nc_crypto_cfg =
  cc_eph_sk_seed :: "u8 list option"
  cc_psk :: "u8 list option"
  cc_static_sk :: "u8 list option"
  cc_require_peer_static :: bool
  cc_verify_peer :: "(u8 list option \<Rightarrow> int) option"

definition NC_CRYPTO_HELLO :: u8 where "NC_CRYPTO_HELLO = 0x01"
definition NC_CRYPTO_DATA :: u8 where "NC_CRYPTO_DATA = 0x02"
definition NC_CRYPTO_HELLO_LEN :: nat where "NC_CRYPTO_HELLO_LEN = 65"
definition NC_CRYPTO_OVERHEAD :: nat where "NC_CRYPTO_OVERHEAD = 25"
definition LABEL_SID :: u8 where "LABEL_SID = 0"
definition LABEL_I2R :: u8 where "LABEL_I2R = 1"
definition LABEL_R2I :: u8 where "LABEL_R2I = 2"

definition zero32 :: "u8 list" where
  "zero32 = replicate 32 0"

definition is_zero32 :: "u8 list \<Rightarrow> bool" where
  "is_zero32 p \<longleftrightarrow> p = zero32"

text \<open>The loops of \<open>wr64be\<close> and \<open>rd64be\<close>.\<close>

definition wr64be :: "u64 \<Rightarrow> u8 list" where
  "wr64be v = map (\<lambda>i. ucast (drop_bit (8 * (7 - i)) v)) [0..<8]"

definition rd64be :: "u8 list \<Rightarrow> u64" where
  "rd64be p = foldl (\<lambda>v b. push_bit 8 v OR ucast b) 0 (take 8 p)"

definition nonce_of :: "u64 \<Rightarrow> u8 list" where
  "nonce_of counter = wr64be counter @ replicate 16 0"

fun memcmp_gt :: "u8 list \<Rightarrow> u8 list \<Rightarrow> bool" where
  "memcmp_gt (x # xs) (y # ys) = (if x = y then memcmp_gt xs ys else y < x)"
| "memcmp_gt _ _ = False"

section \<open>Key derivation\<close>

definition derive_out ::
  "nc_prims \<Rightarrow> u8 list \<Rightarrow> u8 list \<Rightarrow> u8 list \<Rightarrow> u8 list \<Rightarrow> u8 list \<Rightarrow> u8 list \<Rightarrow> u8 list \<Rightarrow> u8 list \<Rightarrow> u8 \<Rightarrow> u8 list" where
  "derive_out P dh_ee dh_is dh_si eph_lo eph_hi s_init s_resp psk label =
    blake2b P 32 (dh_ee @ dh_is @ dh_si @ eph_lo @ eph_hi @ s_init @ s_resp @ psk @ [label])"

definition derive_session :: "nc_prims \<Rightarrow> u8 list \<Rightarrow> nc_crypto \<Rightarrow> nc_crypto \<times> int" where
  "derive_session P peer_eph c =
    (let dh_ee = x25519 P (cr_eph_sk c) peer_eph in
     if is_zero32 dh_ee then (c, -1)
     else
       let dh_is = (if cr_role c = 0
                    then if cr_peer_has_static c then x25519 P (cr_eph_sk c) (cr_peer_static_pk c) else zero32
                    else if cr_have_static c then x25519 P (cr_static_sk c) peer_eph else zero32);
           dh_si = (if cr_role c = 0
                    then if cr_have_static c then x25519 P (cr_static_sk c) peer_eph else zero32
                    else if cr_peer_has_static c then x25519 P (cr_eph_sk c) (cr_peer_static_pk c) else zero32);
           (eph_lo, eph_hi) = (if memcmp_gt (cr_eph_pk c) peer_eph then (peer_eph, cr_eph_pk c) else (cr_eph_pk c, peer_eph));
           s_init = (if cr_role c = 0 then cr_static_pk c else cr_peer_static_pk c);
           s_resp = (if cr_role c = 0 then cr_peer_static_pk c else cr_static_pk c);
           out = derive_out P dh_ee dh_is dh_si eph_lo eph_hi s_init s_resp (cr_psk c);
           k_i2r = out LABEL_I2R;
           k_r2i = out LABEL_R2I in
       (c\<lparr>cr_sid := out LABEL_SID,
          cr_tx_key := if cr_role c = 0 then k_i2r else k_r2i,
          cr_rx_key := if cr_role c = 0 then k_r2i else k_i2r,
          cr_have_key := True\<rparr>, 0))"

text \<open>
  \<open>nc_crypto_init\<close> takes what the operating system gives for 32 random bytes, \<open>None\<close> where it gives
  nothing (\<open>fill_random\<close>).
\<close>

definition zero_crypto :: nc_crypto where
  "zero_crypto = \<lparr>cr_role = 0, cr_have_key = False, cr_failed = False, cr_eph_sk = zero32, cr_eph_pk = zero32,
     cr_have_static = False, cr_static_sk = zero32, cr_static_pk = zero32, cr_peer_has_static = False,
     cr_peer_static_pk = zero32, cr_tx_key = zero32, cr_rx_key = zero32, cr_psk = zero32, cr_sid = zero32,
     cr_tx_counter = 0, cr_rx_max = 0, cr_rx_window = 0, cr_require_peer_static = False, cr_verify_peer = None\<rparr>"

definition nc_crypto_init :: "nc_prims \<Rightarrow> u8 list option \<Rightarrow> int \<Rightarrow> nc_crypto_cfg option \<Rightarrow> nc_crypto \<times> int" where
  "nc_crypto_init P rnd role cfg =
    (let c = zero_crypto\<lparr>cr_role := if role \<noteq> 0 then 1 else 0\<rparr> in
     case (case Option.bind cfg cc_eph_sk_seed of Some seed \<Rightarrow> Some seed | None \<Rightarrow> rnd) of
       None \<Rightarrow> (c, -1)
     | Some sk \<Rightarrow>
         let c = c\<lparr>cr_eph_sk := sk, cr_eph_pk := x25519_public P sk\<rparr> in
         case cfg of
           None \<Rightarrow> (c, 0)
         | Some g \<Rightarrow>
             let c = (case cc_psk g of Some k \<Rightarrow> c\<lparr>cr_psk := k\<rparr> | None \<Rightarrow> c);
                 c = (case cc_static_sk g of
                        Some s \<Rightarrow> c\<lparr>cr_static_sk := s, cr_static_pk := x25519_public P s, cr_have_static := True\<rparr>
                      | None \<Rightarrow> c) in
             (c\<lparr>cr_require_peer_static := cc_require_peer_static g, cr_verify_peer := cc_verify_peer g\<rparr>, 0))"

definition nc_crypto_identity_public :: "nc_prims \<Rightarrow> u8 list \<Rightarrow> u8 list" where
  "nc_crypto_identity_public P sk = x25519_public P sk"

definition nc_crypto_handshake_packet :: "nc_crypto \<Rightarrow> nat \<Rightarrow> u8 list" where
  "nc_crypto_handshake_packet c cap =
    (if cap < NC_CRYPTO_HELLO_LEN then []
     else NC_CRYPTO_HELLO # cr_eph_pk c @ (if cr_have_static c then cr_static_pk c else zero32))"

definition nc_crypto_ready :: "nc_crypto \<Rightarrow> bool" where
  "nc_crypto_ready c = cr_have_key c"

definition nc_crypto_failed :: "nc_crypto \<Rightarrow> bool" where
  "nc_crypto_failed c = cr_failed c"

definition nc_crypto_session_id :: "nc_crypto \<Rightarrow> u8 list option" where
  "nc_crypto_session_id c = (if cr_have_key c then Some (cr_sid c) else None)"

section \<open>Sealing and opening\<close>

text \<open>The packet, or nothing where the code returns \<open>-1\<close>.\<close>

definition nc_crypto_seal :: "nc_prims \<Rightarrow> u8 list \<Rightarrow> nat \<Rightarrow> nc_crypto \<Rightarrow> nc_crypto \<times> u8 list option" where
  "nc_crypto_seal P plain cap c =
    (if \<not> cr_have_key c then (c, None)
     else if cap < length plain + NC_CRYPTO_OVERHEAD then (c, None)
     else if cr_tx_counter c = - 1 then (c, None)
     else
       let counter = cr_tx_counter c + 1;
           (mac, ct) = aead_lock P (cr_tx_key c) (nonce_of counter) plain in
       (c\<lparr>cr_tx_counter := counter\<rparr>, Some (NC_CRYPTO_DATA # wr64be counter @ mac @ ct)))"

definition replay_check_and_update :: "u64 \<Rightarrow> nc_crypto \<Rightarrow> nc_crypto \<times> int" where
  "replay_check_and_update counter c =
    (if counter = 0 then (c, -1)
     else if cr_rx_max c < counter
     then
       let shift = counter - cr_rx_max c;
           w = (if 64 \<le> shift then 0 else push_bit (unat shift) (cr_rx_window c)) in
       (c\<lparr>cr_rx_window := w OR 1, cr_rx_max := counter\<rparr>, 0)
     else
       let diff = cr_rx_max c - counter in
       if 64 \<le> diff then (c, -1)
       else
         let b = push_bit (unat diff) 1 in
         if cr_rx_window c AND b \<noteq> 0 then (c, -1)
         else (c\<lparr>cr_rx_window := cr_rx_window c OR b\<rparr>, 0))"

definition consume_hello :: "nc_prims \<Rightarrow> u8 list \<Rightarrow> nc_crypto \<Rightarrow> nc_crypto" where
  "consume_hello P body c =
    (let peer_static = take 32 (drop 32 body);
         has = (\<not> is_zero32 peer_static);
         c = c\<lparr>cr_peer_has_static := has,
               cr_peer_static_pk := if has then peer_static else cr_peer_static_pk c\<rparr> in
     if cr_require_peer_static c \<and> \<not> cr_peer_has_static c then c\<lparr>cr_failed := True\<rparr>
     else if (case cr_verify_peer c of
                Some verify \<Rightarrow> verify (if cr_peer_has_static c then Some (cr_peer_static_pk c) else None) \<noteq> 0
              | None \<Rightarrow> False)
     then c\<lparr>cr_failed := True\<rparr>
     else
       let (c', rc) = derive_session P (take 32 body) c in
       if rc \<noteq> 0 then c'\<lparr>cr_failed := True\<rparr> else c')"

definition nc_crypto_open :: "nc_prims \<Rightarrow> u8 list \<Rightarrow> nat \<Rightarrow> nc_crypto \<Rightarrow> nc_crypto \<times> int \<times> u8 list" where
  "nc_crypto_open P pkt cap c =
    (if pkt = [] \<or> cr_failed c then (c, -1, [])
     else if hd pkt = NC_CRYPTO_HELLO
     then if length pkt \<noteq> NC_CRYPTO_HELLO_LEN then (c, -1, [])
       else (if \<not> cr_have_key c then consume_hello P (tl pkt) c else c, 0, [])
     else if hd pkt = NC_CRYPTO_DATA
     then if \<not> cr_have_key c \<or> length pkt < NC_CRYPTO_OVERHEAD then (c, -1, [])
       else
         let ct_len = length pkt - NC_CRYPTO_OVERHEAD in
         if cap < ct_len then (c, -1, [])
         else
           let counter = rd64be (drop 1 pkt) in
           case aead_unlock P (cr_rx_key c) (nonce_of counter) (take 16 (drop 9 pkt)) (drop NC_CRYPTO_OVERHEAD pkt) of
             None \<Rightarrow> (c, -1, [])
           | Some out \<Rightarrow>
               let (c', rc) = replay_check_and_update counter c in
               if rc \<noteq> 0 then (c', -1, []) else (c', int ct_len, out)
     else (c, -1, []))"

end
