(* ===== verification/Nc_Auth.thy ===== *)
theory Nc_Auth
  imports Nc_Crypto
begin

text \<open>
  The login conversation of \<open>nc_auth.c\<close>: a client that announces a name and answers with a signature or a
  password, and a server that offers methods, checks what it is sent and gives up after too many
  attempts. Messages handed to the send callback are collected in \<open>au_sent\<close>. A C string is the list of its
  bytes before the terminating zero; the callbacks of the server's credential store are functions of
  their arguments.
\<close>

section \<open>State\<close>

datatype nc_auth_state = NC_AUTH_PENDING | NC_AUTH_OK | NC_AUTH_DENIED

datatype nc_auth_need = NC_AUTH_NEED_NOTHING | NC_AUTH_NEED_KEY | NC_AUTH_NEED_PASSWORD

record nc_auth_server_cb =
  sc_methods :: "(u8 list \<Rightarrow> u32) option"
  sc_check_key :: "(u8 list \<Rightarrow> u8 list \<Rightarrow> int) option"
  sc_check_password :: "(u8 list \<Rightarrow> u8 list \<Rightarrow> int) option"

record nc_auth =
  au_server :: bool
  au_state :: nc_auth_state
  au_need :: nc_auth_need
  au_greeted :: bool
  au_avail :: u32
  au_tries :: int
  au_sid :: "u8 list"
  au_user :: "u8 list"
  au_send :: bool
  au_sent :: "u8 list list"
  au_scb :: nc_auth_server_cb

definition NC_AUTH_M_PUBKEY :: u32 where "NC_AUTH_M_PUBKEY = 0x01"
definition NC_AUTH_M_PASSWORD :: u32 where "NC_AUTH_M_PASSWORD = 0x02"
definition NC_AUTH_MAX_USER :: nat where "NC_AUTH_MAX_USER = 64"
definition NC_AUTH_MAX_PASS :: nat where "NC_AUTH_MAX_PASS = 128"
definition NC_AUTH_MAX_MSG :: nat where "NC_AUTH_MAX_MSG = 256"
definition NC_AUTH_MAX_TRIES :: int where "NC_AUTH_MAX_TRIES = 6"

definition MSG_HELLO :: u8 where "MSG_HELLO = 0x10"
definition MSG_METHODS :: u8 where "MSG_METHODS = 0x11"
definition MSG_PUBKEY :: u8 where "MSG_PUBKEY = 0x12"
definition MSG_PASSWORD :: u8 where "MSG_PASSWORD = 0x13"
definition MSG_OK :: u8 where "MSG_OK = 0x14"
definition MSG_FAIL :: u8 where "MSG_FAIL = 0x15"

lemmas msg_codes = MSG_HELLO_def MSG_METHODS_def MSG_PUBKEY_def MSG_PASSWORD_def MSG_OK_def MSG_FAIL_def
lemmas auth_limits = NC_AUTH_MAX_USER_def NC_AUTH_MAX_PASS_def NC_AUTH_MAX_MSG_def NC_AUTH_MAX_TRIES_def
lemmas method_bits = NC_AUTH_M_PUBKEY_def NC_AUTH_M_PASSWORD_def

text \<open>The bytes of \<open>"netchan-auth-v1"\<close>, with the terminating zero that \<open>sizeof\<close> counts.\<close>

definition SIG_LABEL :: "u8 list" where
  "SIG_LABEL = [0x6e, 0x65, 0x74, 0x63, 0x68, 0x61, 0x6e, 0x2d, 0x61, 0x75, 0x74, 0x68, 0x2d, 0x76, 0x31, 0]"

definition cstr :: "u8 list \<Rightarrow> u8 list" where
  "cstr bs = takeWhile (\<lambda>b. b \<noteq> 0) bs"

definition emit :: "u8 list \<Rightarrow> nc_auth \<Rightarrow> nc_auth" where
  "emit msg a = (if au_send a then a\<lparr>au_sent := au_sent a @ [msg]\<rparr> else a)"

section \<open>The signed digest\<close>

definition signed_bytes :: "u8 list \<Rightarrow> u8 list \<Rightarrow> u8 list \<Rightarrow> u8 list" where
  "signed_bytes sid user pk =
    (let n = min (length user) NC_AUTH_MAX_USER in SIG_LABEL @ sid @ [of_nat n] @ take n user @ pk)"

definition nc_auth_signed_digest :: "nc_prims \<Rightarrow> u8 list \<Rightarrow> u8 list \<Rightarrow> u8 list \<Rightarrow> u8 list" where
  "nc_auth_signed_digest P sid user pk = blake2b P 32 (signed_bytes sid user pk)"

section \<open>Starting\<close>

definition zero_auth :: nc_auth where
  "zero_auth = \<lparr>au_server = False, au_state = NC_AUTH_PENDING, au_need = NC_AUTH_NEED_NOTHING, au_greeted = False,
     au_avail = 0, au_tries = 0, au_sid = zero32, au_user = [], au_send = False, au_sent = [],
     au_scb = \<lparr>sc_methods = None, sc_check_key = None, sc_check_password = None\<rparr>\<rparr>"

definition nc_auth_client_init :: "u8 list \<Rightarrow> u8 list option \<Rightarrow> bool \<Rightarrow> nc_auth" where
  "nc_auth_client_init sid user send =
    zero_auth\<lparr>au_server := False, au_state := NC_AUTH_PENDING, au_need := NC_AUTH_NEED_NOTHING, au_sid := sid,
      au_user := (case user of Some u \<Rightarrow> take NC_AUTH_MAX_USER u | None \<Rightarrow> []), au_send := send\<rparr>"

definition nc_auth_server_init :: "u8 list \<Rightarrow> nc_auth_server_cb option \<Rightarrow> bool \<Rightarrow> nc_auth" where
  "nc_auth_server_init sid cb send =
    zero_auth\<lparr>au_server := True, au_state := NC_AUTH_PENDING, au_sid := sid,
      au_scb := (case cb of Some c \<Rightarrow> c | None \<Rightarrow> au_scb zero_auth), au_send := send\<rparr>"

definition nc_auth_user :: "nc_auth \<Rightarrow> u8 list" where
  "nc_auth_user a = au_user a"

definition nc_auth_needs :: "nc_auth \<Rightarrow> nc_auth_need" where
  "nc_auth_needs a = au_need a"

definition nc_auth_start :: "nc_auth \<Rightarrow> nc_auth" where
  "nc_auth_start a =
    (if au_server a \<or> au_state a \<noteq> NC_AUTH_PENDING then a
     else emit (MSG_HELLO # of_nat (length (au_user a)) # au_user a) a)"

section \<open>The client\<close>

definition client_try_next :: "nc_auth \<Rightarrow> nc_auth" where
  "client_try_next a =
    (if au_state a \<noteq> NC_AUTH_PENDING then a
     else if au_avail a AND NC_AUTH_M_PUBKEY \<noteq> 0
     then a\<lparr>au_avail := au_avail a AND NOT NC_AUTH_M_PUBKEY, au_need := NC_AUTH_NEED_KEY\<rparr>
     else if au_avail a AND NC_AUTH_M_PASSWORD \<noteq> 0
     then a\<lparr>au_avail := au_avail a AND NOT NC_AUTH_M_PASSWORD, au_need := NC_AUTH_NEED_PASSWORD\<rparr>
     else a\<lparr>au_need := NC_AUTH_NEED_NOTHING, au_state := NC_AUTH_DENIED\<rparr>)"

definition nc_auth_supply_key :: "nc_prims \<Rightarrow> (u8 list \<times> u8 list) option \<Rightarrow> nc_auth \<Rightarrow> nc_auth" where
  "nc_auth_supply_key P key a =
    (if au_server a \<or> au_need a \<noteq> NC_AUTH_NEED_KEY then a
     else
       let a = a\<lparr>au_need := NC_AUTH_NEED_NOTHING\<rparr> in
       case key of
         None \<Rightarrow> client_try_next a
       | Some (sk, pk) \<Rightarrow>
           emit (MSG_PUBKEY # pk @ eddsa_sign P sk (nc_auth_signed_digest P (au_sid a) (au_user a) pk)) a)"

definition nc_auth_supply_password :: "u8 list option \<Rightarrow> nc_auth \<Rightarrow> nc_auth" where
  "nc_auth_supply_password password a =
    (if au_server a \<or> au_need a \<noteq> NC_AUTH_NEED_PASSWORD then a
     else
       let a = a\<lparr>au_need := NC_AUTH_NEED_NOTHING\<rparr> in
       case password of
         None \<Rightarrow> client_try_next a
       | Some p \<Rightarrow>
           if NC_AUTH_MAX_PASS - 1 < length p then client_try_next a
           else emit (MSG_PASSWORD # of_nat (length p) # p) a)"

definition client_feed :: "u8 list \<Rightarrow> nc_auth \<Rightarrow> nc_auth \<times> int" where
  "client_feed msg a =
    (if hd msg = MSG_METHODS
     then if length msg \<noteq> 2 then (a, -1)
       else
         let a = a\<lparr>au_avail := ucast (msg ! 1)\<rparr> in
         if au_avail a = 0 then (a\<lparr>au_state := NC_AUTH_DENIED\<rparr>, 0) else (client_try_next a, 0)
     else if hd msg = MSG_OK then (a\<lparr>au_state := NC_AUTH_OK\<rparr>, 0)
     else if hd msg = MSG_FAIL
     then if length msg \<noteq> 2 then (a, -1)
       else (client_try_next (a\<lparr>au_avail := au_avail a AND ucast (msg ! 1)\<rparr>), 0)
     else (a, -1))"

section \<open>The server\<close>

definition server_reply :: "u8 \<Rightarrow> u32 \<Rightarrow> bool \<Rightarrow> nc_auth \<Rightarrow> nc_auth" where
  "server_reply ty bits has_arg a = emit (if has_arg then [ty, ucast bits] else [ty]) a"

definition server_deny :: "u32 \<Rightarrow> nc_auth \<Rightarrow> nc_auth" where
  "server_deny spent a =
    (let a = a\<lparr>au_avail := au_avail a AND NOT spent, au_tries := au_tries a + 1\<rparr>;
         a = (if NC_AUTH_MAX_TRIES \<le> au_tries a \<or> au_avail a = 0
              then a\<lparr>au_avail := 0, au_state := NC_AUTH_DENIED\<rparr> else a) in
     server_reply MSG_FAIL (au_avail a) True a)"

definition server_hello :: "u8 list \<Rightarrow> nc_auth \<Rightarrow> nc_auth \<times> int" where
  "server_hello msg a =
    (if au_greeted a \<or> length msg < 2 then (a, -1)
     else
       let ulen = unat (msg ! 1) in
       if NC_AUTH_MAX_USER < ulen \<or> length msg \<noteq> 2 + ulen then (a, -1)
       else
         let a = a\<lparr>au_user := cstr (take ulen (drop 2 msg)), au_greeted := True\<rparr>;
             a = a\<lparr>au_avail := (case sc_methods (au_scb a) of Some f \<Rightarrow> f (au_user a) | None \<Rightarrow> 0)\<rparr>;
             a = (if au_avail a = 0 then a\<lparr>au_state := NC_AUTH_DENIED\<rparr> else a) in
         (server_reply MSG_METHODS (au_avail a) True a, 0))"

definition server_pubkey :: "nc_prims \<Rightarrow> u8 list \<Rightarrow> nc_auth \<Rightarrow> nc_auth \<times> int" where
  "server_pubkey P msg a =
    (if \<not> au_greeted a \<or> length msg \<noteq> 1 + 32 + 64 then (a, -1)
     else if au_avail a AND NC_AUTH_M_PUBKEY = 0 then (server_deny 0 a, 0)
     else
       let pk = take 32 (drop 1 msg);
           sig = take 64 (drop 33 msg);
           digest = nc_auth_signed_digest P (au_sid a) (au_user a) pk in
       if eddsa_check P sig pk digest \<and>
          (case sc_check_key (au_scb a) of Some f \<Rightarrow> f (au_user a) pk \<noteq> 0 | None \<Rightarrow> False)
       then (server_reply MSG_OK 0 False (a\<lparr>au_state := NC_AUTH_OK\<rparr>), 0)
       else (server_deny NC_AUTH_M_PUBKEY a, 0))"

definition server_password :: "u8 list \<Rightarrow> nc_auth \<Rightarrow> nc_auth \<times> int" where
  "server_password msg a =
    (if \<not> au_greeted a \<or> length msg < 2 then (a, -1)
     else
       let plen = unat (msg ! 1) in
       if NC_AUTH_MAX_PASS - 1 < plen \<or> length msg \<noteq> 2 + plen then (a, -1)
       else if au_avail a AND NC_AUTH_M_PASSWORD = 0 then (server_deny 0 a, 0)
       else if (case sc_check_password (au_scb a) of
                  Some f \<Rightarrow> f (au_user a) (cstr (take plen (drop 2 msg))) \<noteq> 0 | None \<Rightarrow> False)
       then (server_reply MSG_OK 0 False (a\<lparr>au_state := NC_AUTH_OK\<rparr>), 0)
       else (server_deny NC_AUTH_M_PASSWORD a, 0))"

definition server_feed :: "nc_prims \<Rightarrow> u8 list \<Rightarrow> nc_auth \<Rightarrow> nc_auth \<times> int" where
  "server_feed P msg a =
    (if hd msg = MSG_HELLO then server_hello msg a
     else if hd msg = MSG_PUBKEY then server_pubkey P msg a
     else if hd msg = MSG_PASSWORD then server_password msg a
     else (a, -1))"

definition nc_auth_feed :: "nc_prims \<Rightarrow> u8 list \<Rightarrow> nc_auth \<Rightarrow> nc_auth \<times> int" where
  "nc_auth_feed P msg a =
    (if length msg < 1 \<or> NC_AUTH_MAX_MSG < length msg \<or> au_state a \<noteq> NC_AUTH_PENDING then (a, -1)
     else
       let (a', rc) = (if au_server a then server_feed P msg a else client_feed msg a) in
       (if rc \<noteq> 0 then a'\<lparr>au_state := NC_AUTH_DENIED\<rparr> else a', rc))"

end
