(* ===== verification/Nc_Secure.thy ===== *)
theory Nc_Secure
  imports Nc_Crypto
begin

text \<open>
  What the encrypted session promises: both ends derive the same keys, what one end seals the other
  opens at most once whatever the network does with the packets, nonces are never used twice, and
  nothing that arrives later can change the keys.
\<close>

section \<open>What the session relies on\<close>

text \<open>
  The documented behaviour of the primitives: Diffie-Hellman results agree, public keys have 32 bytes and
  are never zero, and a locked message unlocks to itself, with a tag of 16 bytes and no expansion.
\<close>

definition crypto_laws :: "nc_prims \<Rightarrow> bool" where
  "crypto_laws P \<longleftrightarrow>
    (\<forall>a b. x25519 P a (x25519_public P b) = x25519 P b (x25519_public P a)) \<and>
    (\<forall>a. length (x25519_public P a) = 32 \<and> x25519_public P a \<noteq> zero32) \<and>
    (\<forall>k n p. length (fst (aead_lock P k n p)) = 16 \<and> length (snd (aead_lock P k n p)) = length p) \<and>
    (\<forall>k n p. aead_unlock P k n (fst (aead_lock P k n p)) (snd (aead_lock P k n p)) = Some p)"

text \<open>Primitives that satisfy the laws, for the witnesses.\<close>

definition pad :: "nat \<Rightarrow> u8 list \<Rightarrow> u8 list" where
  "pad n xs = take n (xs @ replicate n 0)"

definition sample_prims :: nc_prims where
  "sample_prims = \<lparr>
     x25519 = (\<lambda>a p. map2 (+) (1 # pad 31 a) p),
     x25519_public = (\<lambda>a. 1 # pad 31 a),
     blake2b = (\<lambda>n m. pad n (rev m)),
     aead_lock = (\<lambda>k n p. (pad 16 (k @ n), p)),
     aead_unlock = (\<lambda>k n mac ct. if mac = pad 16 (k @ n) then Some ct else None),
     eddsa_sign = (\<lambda>sk d. pad 64 (take 32 sk @ d)),
     eddsa_check = (\<lambda>sig pk d. sig = pad 64 (pk @ d))\<rparr>"

lemma pad_length [simp]: "length (pad n xs) = n"
  by (simp add: pad_def)

lemma map2_add_commute: "length xs = length ys \<Longrightarrow> map2 (+) xs ys = map2 (+) ys (xs :: 'a::ab_semigroup_add list)"
  by (induction xs ys rule: list_induct2) (simp_all add: add.commute)

lemma sample_laws: "crypto_laws sample_prims"
  by (auto simp: crypto_laws_def sample_prims_def zero32_def map2_add_commute numeral_eq_Suc)

section \<open>Integers on the wire\<close>

lemma wr64_length [simp]: "length (wr64be v) = 8"
  by (simp add: wr64be_def)

lemma u64_eqI: "(\<And>n. n < 64 \<Longrightarrow> bit a n = bit b n) \<Longrightarrow> a = (b :: u64)"
  by (rule bit_eqI) (auto simp: bit_simps dest: bit_imp_le_length)

lemma upt_8: "[0..<8] = [0, 1, 2, 3, 4, 5, 6, 7 :: nat]"
  by (simp add: upt_rec)

lemma byte_step: "push_bit 8 (drop_bit (m + 8) v) OR ucast (ucast (drop_bit m v) :: u8) = drop_bit m (v :: u64)"
proof (rule u64_eqI)
  fix n :: nat
  assume "n < 64"
  then show "bit (push_bit 8 (drop_bit (m + 8) v) OR ucast (ucast (drop_bit m v) :: u8)) n = bit (drop_bit m v) n"
    by (cases "n < 8") (auto simp: bit_simps add.commute add.left_commute)
qed

lemma rd64_wr64: "rd64be (wr64be v @ ys) = v"
proof -
  have top: "drop_bit 64 v = 0" by (rule u64_eqI) (auto simp: bit_simps dest: bit_imp_le_length)
  note steps = byte_step [of 56 v] byte_step [of 48 v] byte_step [of 40 v] byte_step [of 32 v]
    byte_step [of 24 v] byte_step [of 16 v] byte_step [of 8 v] byte_step [of 0 v]
  have "rd64be (wr64be v @ ys) = foldl (\<lambda>v b. push_bit 8 v OR ucast b) (drop_bit 64 v) (wr64be v)"
    by (simp add: rd64be_def top)
  also have "\<dots> = v"
    using steps by (simp add: wr64be_def upt_8)
  finally show ?thesis .
qed

section \<open>Agreement\<close>

text \<open>A session as \<open>nc_crypto_init\<close> leaves it.\<close>

definition fresh_session :: "nc_prims \<Rightarrow> nc_crypto \<Rightarrow> bool" where
  "fresh_session P c \<longleftrightarrow> cr_eph_pk c = x25519_public P (cr_eph_sk c) \<and>
     cr_static_pk c = (if cr_have_static c then x25519_public P (cr_static_sk c) else zero32) \<and>
     \<not> cr_have_key c \<and> \<not> cr_failed c \<and> \<not> cr_peer_has_static c \<and> cr_peer_static_pk c = zero32 \<and>
     cr_tx_counter c = 0 \<and> cr_rx_max c = 0 \<and> cr_rx_window c = 0"

lemma init_fresh:
  "nc_crypto_init P rnd role cfg = (c, 0) \<Longrightarrow> fresh_session P c \<and> cr_role c = (if role \<noteq> 0 then 1 else 0)"
  by (auto simp: nc_crypto_init_def fresh_session_def zero_crypto_def Let_def split: option.splits)

text \<open>The application's decision on a peer: an identity where one is required, and the verdict of \<open>verify_peer\<close>.\<close>

definition accepts_peer :: "nc_crypto \<Rightarrow> nc_crypto \<Rightarrow> bool" where
  "accepts_peer c peer \<longleftrightarrow> (cr_require_peer_static c \<longrightarrow> cr_have_static peer) \<and>
     (case cr_verify_peer c of
        Some verify \<Rightarrow> verify (if cr_have_static peer then Some (cr_static_pk peer) else None) = 0
      | None \<Rightarrow> True)"

lemma memcmp_total: "length xs = length ys \<Longrightarrow> \<not> memcmp_gt xs ys \<Longrightarrow> \<not> memcmp_gt ys xs \<Longrightarrow> xs = ys"
  by (induction xs ys rule: list_induct2) (auto split: if_splits simp: not_less)

lemma memcmp_asym: "memcmp_gt xs ys \<Longrightarrow> \<not> memcmp_gt ys xs"
  by (induction xs ys rule: memcmp_gt.induct) (auto split: if_splits)

lemma memcmp_cases:
  assumes "length a = length b"
  obtains "memcmp_gt a b" "\<not> memcmp_gt b a" | "memcmp_gt b a" "\<not> memcmp_gt a b" | "a = b"
  using memcmp_total [OF assms] memcmp_asym by blast

definition learned :: "nc_crypto \<Rightarrow> nc_crypto \<Rightarrow> nc_crypto" where
  "learned c peer = c\<lparr>cr_peer_has_static := cr_have_static peer,
     cr_peer_static_pk := if cr_have_static peer then cr_static_pk peer else zero32\<rparr>"

lemma hello_length:
  "crypto_laws P \<Longrightarrow> fresh_session P c \<Longrightarrow> length (nc_crypto_handshake_packet c 65) = 65"
  by (simp add: nc_crypto_handshake_packet_def NC_CRYPTO_HELLO_LEN_def fresh_session_def crypto_laws_def zero32_def)

lemma open_hello:
  assumes "crypto_laws P" and "fresh_session P c" and "fresh_session P peer" and "accepts_peer c peer"
    and "x25519 P (cr_eph_sk c) (cr_eph_pk peer) \<noteq> zero32"
  shows "nc_crypto_open P (nc_crypto_handshake_packet peer 65) cap c =
    (fst (derive_session P (cr_eph_pk peer) (learned c peer)), 0, [])"
proof -
  let ?body = "cr_eph_pk peer @ (if cr_have_static peer then cr_static_pk peer else zero32)"
  have len: "length (cr_eph_pk peer) = 32" "length (cr_static_pk peer) = 32"
    using assms(1,3) by (auto simp: crypto_laws_def fresh_session_def zero32_def)
  then have body: "take 32 ?body = cr_eph_pk peer" "take 32 (drop 32 ?body) = cr_static_pk peer"
    using assms(3) by (auto simp: fresh_session_def zero32_def)
  have has: "is_zero32 (cr_static_pk peer) \<longleftrightarrow> \<not> cr_have_static peer"
    using assms(1,3) by (auto simp: crypto_laws_def fresh_session_def is_zero32_def)
  have rc: "snd (derive_session P (cr_eph_pk peer) (learned c peer)) = 0"
    using assms(5) by (simp add: derive_session_def learned_def is_zero32_def Let_def case_prod_beta)
  have c0: "cr_peer_static_pk c = zero32" "\<not> cr_have_key c" "\<not> cr_failed c" using assms(2) by (auto simp: fresh_session_def)
  have "consume_hello P ?body c = fst (derive_session P (cr_eph_pk peer) (learned c peer))"
    unfolding consume_hello_def body using assms(4) rc c0
    by (auto simp: has Let_def learned_def accepts_peer_def case_prod_beta split: option.split)
  moreover have "nc_crypto_handshake_packet peer 65 = NC_CRYPTO_HELLO # ?body"
    by (simp add: nc_crypto_handshake_packet_def NC_CRYPTO_HELLO_LEN_def)
  ultimately show ?thesis
    using hello_length [OF assms(1,3)] c0 by (simp add: nc_crypto_open_def NC_CRYPTO_HELLO_LEN_def)
qed

text \<open>
  C14. The handshake agrees. An initiator and a responder that share the pre-shared key (or use none),
  each accepting the identity the other presents, exchange one HELLO each, in either order and with or
  without identity keys. Both sessions are then ready with the same session identifier, and each
  sends with the key the other receives with; each has recorded the other's identity key. The only
  escape is a degenerate Diffie-Hellman result, which both refuse.
\<close>

theorem session_agreement:
  assumes "crypto_laws P" and "nc_crypto_init P ra 0 cfga = (a, 0)" and "nc_crypto_init P rb 1 cfgb = (b, 0)"
    and "cr_psk a = cr_psk b" and "accepts_peer a b" and "accepts_peer b a"
    and "x25519 P (cr_eph_sk a) (cr_eph_pk b) \<noteq> zero32"
  shows "\<exists>a' b'. nc_crypto_open P (nc_crypto_handshake_packet b 65) cap a = (a', 0, []) \<and>
    nc_crypto_open P (nc_crypto_handshake_packet a 65) cap' b = (b', 0, []) \<and>
    nc_crypto_ready a' \<and> nc_crypto_ready b' \<and> nc_crypto_session_id a' = nc_crypto_session_id b' \<and>
    cr_tx_key a' = cr_rx_key b' \<and> cr_rx_key a' = cr_tx_key b' \<and>
    cr_peer_static_pk a' = cr_static_pk b' \<and> cr_peer_static_pk b' = cr_static_pk a'"
proof -
  have f: "fresh_session P a" "fresh_session P b" "cr_role a = 0" "cr_role b = 1"
    using init_fresh [OF assms(2)] init_fresh [OF assms(3)] by auto
  have comm: "x25519 P s (x25519_public P t) = x25519 P t (x25519_public P s)" for s t
    using assms(1) by (simp add: crypto_laws_def)
  have pk: "cr_eph_pk a = x25519_public P (cr_eph_sk a)" "cr_eph_pk b = x25519_public P (cr_eph_sk b)"
      "cr_have_static a \<Longrightarrow> cr_static_pk a = x25519_public P (cr_static_sk a)" "\<not> cr_have_static a \<Longrightarrow> cr_static_pk a = zero32"
      "cr_have_static b \<Longrightarrow> cr_static_pk b = x25519_public P (cr_static_sk b)" "\<not> cr_have_static b \<Longrightarrow> cr_static_pk b = zero32"
    using f(1,2) by (auto simp: fresh_session_def)
  have ee: "x25519 P (cr_eph_sk b) (cr_eph_pk a) = x25519 P (cr_eph_sk a) (cr_eph_pk b)" unfolding pk(1,2) by (rule comm)
  have dis: "x25519 P (cr_static_sk b) (cr_eph_pk a) = x25519 P (cr_eph_sk a) (cr_static_pk b)" if "cr_have_static b"
    unfolding pk(1) pk(5) [OF that] by (rule comm)
  have si: "x25519 P (cr_static_sk a) (cr_eph_pk b) = x25519 P (cr_eph_sk b) (cr_static_pk a)" if "cr_have_static a"
    unfolding pk(2) pk(3) [OF that] by (rule comm)
  have len: "length (cr_eph_pk a) = length (cr_eph_pk b)" using assms(1) pk by (simp add: crypto_laws_def)
  define a' where "a' = fst (derive_session P (cr_eph_pk b) (learned a b))"
  define b' where "b' = fst (derive_session P (cr_eph_pk a) (learned b a))"
  have opens: "nc_crypto_open P (nc_crypto_handshake_packet b 65) cap a = (a', 0, [])"
      "nc_crypto_open P (nc_crypto_handshake_packet a 65) cap' b = (b', 0, [])"
    using open_hello [OF assms(1) f(1,2) assms(5)] open_hello [OF assms(1) f(2,1) assms(6)] assms(7) ee
    by (auto simp: a'_def b'_def)
  note defs = a'_def b'_def derive_session_def learned_def is_zero32_def Let_def case_prod_beta
  have "cr_have_key a' \<and> cr_have_key b' \<and> cr_peer_static_pk a' = cr_static_pk b' \<and> cr_peer_static_pk b' = cr_static_pk a'"
    using assms(7) ee pk(4,6) by (simp add: defs)
  moreover have "cr_sid a' = cr_sid b' \<and> cr_tx_key a' = cr_rx_key b' \<and> cr_rx_key a' = cr_tx_key b'"
    using len
  proof (cases rule: memcmp_cases)
    case 1
    then show ?thesis using assms(4,7) f(3,4) ee dis si pk(4,6) by (simp add: defs)
  next
    case 2
    then show ?thesis using assms(4,7) f(3,4) ee dis si pk(4,6) by (simp add: defs)
  next
    case 3
    then show ?thesis using assms(4,7) f(3,4) ee dis si pk(4,6) by (simp add: defs)
  qed
  ultimately show ?thesis using opens by (simp add: nc_crypto_ready_def nc_crypto_session_id_def)
qed

section \<open>The replay window\<close>

text \<open>
  The window stands for the set of counters accepted so far: \<open>rx_max\<close> is the largest, and the mask tells
  for each of the 64 counters up to it whether it was seen. The specification accepts a counter that
  was not accepted before and is less than 64 behind the largest.
\<close>

definition rx_repr :: "nat set \<Rightarrow> nc_crypto \<Rightarrow> bool" where
  "rx_repr S c \<longleftrightarrow> (\<forall>s \<in> S. 0 < s \<and> s \<le> unat (cr_rx_max c)) \<and> (0 < unat (cr_rx_max c) \<longrightarrow> unat (cr_rx_max c) \<in> S) \<and>
     (\<forall>i < 64. bit (cr_rx_window c) i \<longleftrightarrow> i < unat (cr_rx_max c) \<and> unat (cr_rx_max c) - i \<in> S)"

definition fresh_counter :: "nat set \<Rightarrow> nat \<Rightarrow> bool" where
  "fresh_counter S n \<longleftrightarrow> n \<notin> S \<and> (\<forall>s \<in> S. s < n + 64)"

lemma unat_counter: "n < 2 ^ 64 \<Longrightarrow> unat (of_nat n :: u64) = n"
  by (simp add: unat_of_nat)

lemma replay_newer:
  assumes "rx_repr S c" and "unat (cr_rx_max c) < n" and "n < 2 ^ 64"
  shows "fresh_counter S n \<and> (\<exists>w. replay_check_and_update (of_nat n) c = (c\<lparr>cr_rx_window := w, cr_rx_max := of_nat n\<rparr>, 0) \<and>
    rx_repr (insert n S) (c\<lparr>cr_rx_window := w, cr_rx_max := of_nat n\<rparr>))"
proof -
  let ?m = "unat (cr_rx_max c)"
  let ?w = "(if 64 \<le> (of_nat n :: u64) - cr_rx_max c then 0 else push_bit (unat (of_nat n - cr_rx_max c)) (cr_rx_window c)) OR 1"
  have S: "0 < s \<and> s \<le> ?m" if "s \<in> S" for s using assms(1) that by (simp add: rx_repr_def)
  have bits: "bit (cr_rx_window c) i \<longleftrightarrow> i < ?m \<and> ?m - i \<in> S" if "i < 64" for i using assms(1) that by (simp add: rx_repr_def)
  note u = unat_counter [OF assms(3)]
  have lt: "cr_rx_max c < of_nat n" using assms(2) u by (simp add: word_less_nat_alt)
  have sh: "unat ((of_nat n :: u64) - cr_rx_max c) = n - ?m" using unat_sub [of "cr_rx_max c" "of_nat n"] lt u by simp
  have big: "64 \<le> (of_nat n :: u64) - cr_rx_max c \<longleftrightarrow> 64 \<le> n - ?m" by (simp add: word_le_nat_alt sh)
  have new: "bit ?w i \<longleftrightarrow> i < n \<and> n - i \<in> insert n S" if i: "i < 64" for i
  proof (cases "n - ?m \<le> i")
    case True
    then have "n - i = ?m - (i - (n - ?m))" "i \<noteq> 0" using assms(2) by auto
    then show ?thesis
      using True i bits [of "i - (n - ?m)"] assms(2) by (auto simp: big sh bit_simps bit_1_iff)
  next
    case False
    then have "n - i \<notin> S" using S [of "n - i"] by auto
    then show ?thesis using False i assms(2) by (auto simp: big sh bit_simps bit_1_iff)
  qed
  have "replay_check_and_update (of_nat n) c = (c\<lparr>cr_rx_window := ?w, cr_rx_max := of_nat n\<rparr>, 0)"
    using lt by (auto simp: replay_check_and_update_def Let_def)
  moreover have "rx_repr (insert n S) (c\<lparr>cr_rx_window := ?w, cr_rx_max := of_nat n\<rparr>)"
    using new S assms(2) by (auto simp: rx_repr_def u dest: S)
  moreover have "fresh_counter S n" using S assms(2) by (fastforce simp: fresh_counter_def)
  ultimately show ?thesis by blast
qed

lemma replay_older:
  assumes "rx_repr S c" and "n \<le> unat (cr_rx_max c)" and "0 < n" and "n < 2 ^ 64"
  shows "if fresh_counter S n
    then \<exists>w. replay_check_and_update (of_nat n) c = (c\<lparr>cr_rx_window := w\<rparr>, 0) \<and> rx_repr (insert n S) (c\<lparr>cr_rx_window := w\<rparr>)
    else replay_check_and_update (of_nat n) c = (c, -1)"
proof -
  let ?m = "unat (cr_rx_max c)" and ?d = "cr_rx_max c - (of_nat n :: u64)"
  let ?w = "cr_rx_window c OR push_bit (unat ?d) 1"
  have S: "0 < s \<and> s \<le> ?m" if "s \<in> S" for s using assms(1) that by (simp add: rx_repr_def)
  have m: "?m \<in> S" using assms by (simp add: rx_repr_def)
  have bits: "bit (cr_rx_window c) i \<longleftrightarrow> i < ?m \<and> ?m - i \<in> S" if "i < 64" for i using assms(1) that by (simp add: rx_repr_def)
  note u = unat_counter [OF assms(4)]
  have le: "of_nat n \<le> cr_rx_max c" "of_nat n \<noteq> (0 :: u64)" using assms(2,3) u by (auto simp: word_le_nat_alt word_unat_eq_iff)
  have d: "unat ?d = ?m - n" using unat_sub [OF le(1)] u by simp
  have big: "64 \<le> ?d \<longleftrightarrow> 64 \<le> ?m - n" by (simp add: word_le_nat_alt d)
  have seen: "cr_rx_window c AND push_bit (unat ?d) 1 \<noteq> 0 \<longleftrightarrow> n \<in> S" if "\<not> 64 \<le> ?m - n"
    unfolding bit_iff_and_push_bit_not_eq_0 [symmetric] d using that bits [of "?m - n"] assms(2,3) by simp
  have run: "replay_check_and_update (of_nat n) c =
      (if 64 \<le> ?m - n \<or> n \<in> S then (c, -1) else (c\<lparr>cr_rx_window := ?w\<rparr>, 0))"
    using le seen by (auto simp: replay_check_and_update_def Let_def big not_less)
  have fresh: "fresh_counter S n \<longleftrightarrow> \<not> 64 \<le> ?m - n \<and> n \<notin> S"
    using m S by (fastforce simp: fresh_counter_def)
  have "bit ?w i \<longleftrightarrow> i < ?m \<and> ?m - i \<in> insert n S" if "i < 64" for i
    using that bits [OF that] assms(2,3) by (auto simp: d bit_simps bit_1_iff)
  then have "rx_repr (insert n S) (c\<lparr>cr_rx_window := ?w\<rparr>)"
    using S m assms(2,3) by (auto simp: rx_repr_def)
  with run fresh show ?thesis by auto
qed

lemma replay_spec:
  assumes "rx_repr S c" and "0 < n" and "n < 2 ^ 64"
  shows "if fresh_counter S n
    then \<exists>w m. replay_check_and_update (of_nat n) c = (c\<lparr>cr_rx_window := w, cr_rx_max := m\<rparr>, 0) \<and>
      rx_repr (insert n S) (c\<lparr>cr_rx_window := w, cr_rx_max := m\<rparr>)
    else replay_check_and_update (of_nat n) c = (c, -1)"
proof (cases "unat (cr_rx_max c) < n")
  case True
  then show ?thesis using replay_newer [OF assms(1) True assms(3)] by auto
next
  case False
  then have older: "n \<le> unat (cr_rx_max c)" by simp
  show ?thesis
  proof (cases "fresh_counter S n")
    case True
    then obtain w where "replay_check_and_update (of_nat n) c = (c\<lparr>cr_rx_window := w\<rparr>, 0)" "rx_repr (insert n S) (c\<lparr>cr_rx_window := w\<rparr>)"
      using replay_older [OF assms(1) older assms(2,3)] by auto
    then show ?thesis unfolding if_P [OF True] by (intro exI [of _ w] exI [of _ "cr_rx_max c"]) simp
  qed (use replay_older [OF assms(1) older assms(2,3)] in simp)
qed

section \<open>Delivery\<close>

definition sealed_packet :: "nc_prims \<Rightarrow> u8 list \<Rightarrow> nat \<Rightarrow> u8 list \<Rightarrow> u8 list" where
  "sealed_packet P key n m =
    NC_CRYPTO_DATA # wr64be (of_nat n) @ fst (aead_lock P key (nonce_of (of_nat n)) m) @ snd (aead_lock P key (nonce_of (of_nat n)) m)"

text \<open>Sealing one message after another, and opening one packet after another.\<close>

fun seal_all :: "nc_prims \<Rightarrow> nc_crypto \<Rightarrow> u8 list list \<Rightarrow> nc_crypto \<times> u8 list list" where
  "seal_all P c [] = (c, [])"
| "seal_all P c (m # ms) =
    (let (c', r) = nc_crypto_seal P m (length m + NC_CRYPTO_OVERHEAD) c;
         (c'', ps) = seal_all P c' ms in
     (c'', case r of Some p \<Rightarrow> p # ps | None \<Rightarrow> ps))"

fun open_all :: "nc_prims \<Rightarrow> nat \<Rightarrow> nc_crypto \<Rightarrow> u8 list list \<Rightarrow> (int \<times> u8 list) list" where
  "open_all P cap c [] = []"
| "open_all P cap c (p # ps) = (let (c', r) = nc_crypto_open P p cap c in r # open_all P cap c' ps)"

fun opened_once :: "nat set \<Rightarrow> u8 list list \<Rightarrow> nat list \<Rightarrow> (int \<times> u8 list) list" where
  "opened_once S ms [] = []"
| "opened_once S ms (j # js) =
    (if fresh_counter S (Suc j) then (int (length (ms ! j)), ms ! j) # opened_once (insert (Suc j) S) ms js
     else (-1, []) # opened_once S ms js)"

lemma seal_one:
  assumes "cr_have_key c" and "cr_tx_counter c = of_nat k" and "Suc k < 2 ^ 64"
  shows "nc_crypto_seal P m (length m + NC_CRYPTO_OVERHEAD) c =
    (c\<lparr>cr_tx_counter := of_nat (Suc k)\<rparr>, Some (sealed_packet P (cr_tx_key c) (Suc k) m))"
proof -
  have "unat (- 1 :: u64) = 2 ^ 64 - 1" by (simp add: unsigned_minus_1_eq_mask mask_eq_exp_minus_1)
  then have "(of_nat k :: u64) \<noteq> - 1" using unat_counter [of k] assms(3) by auto
  then show ?thesis
    using assms by (simp add: nc_crypto_seal_def sealed_packet_def case_prod_beta Let_def add.commute)
qed

lemma seal_all_packets:
  assumes "cr_have_key c" and "cr_tx_counter c = of_nat k" and "k + length ms < 2 ^ 64"
  shows "snd (seal_all P c ms) = map (\<lambda>i. sealed_packet P (cr_tx_key c) (k + Suc i) (ms ! i)) [0..<length ms]"
  using assms
proof (induction ms arbitrary: c k)
  case (Cons m ms)
  let ?c = "c\<lparr>cr_tx_counter := of_nat (Suc k)\<rparr>"
  have "snd (seal_all P c (m # ms)) = sealed_packet P (cr_tx_key c) (Suc k) m # snd (seal_all P ?c ms)"
    using seal_one [OF Cons.prems(1,2)] Cons.prems(3) by (simp add: case_prod_beta del: of_nat_Suc)
  also have "snd (seal_all P ?c ms) = map (\<lambda>i. sealed_packet P (cr_tx_key c) (Suc k + Suc i) (ms ! i)) [0..<length ms]"
    using Cons.IH [of ?c "Suc k"] Cons.prems by simp
  finally show ?case by (simp add: map_upt_Suc del: upt_Suc seal_all.simps)
qed simp

lemma open_packet:
  assumes "crypto_laws P" and "cr_have_key c" and "\<not> cr_failed c" and "length m \<le> cap"
  shows "nc_crypto_open P (sealed_packet P (cr_rx_key c) n m) cap c =
    (let (c', rc) = replay_check_and_update (of_nat n) c in if rc \<noteq> 0 then (c', -1, []) else (c', int (length m), m))"
proof -
  let ?l = "aead_lock P (cr_rx_key c) (nonce_of (of_nat n)) m"
  have l: "length (fst ?l) = 16" "length (snd ?l) = length m" "aead_unlock P (cr_rx_key c) (nonce_of (of_nat n)) (fst ?l) (snd ?l) = Some m"
    using assms(1) by (simp_all add: crypto_laws_def)
  let ?p = "sealed_packet P (cr_rx_key c) n m"
  have p: "hd ?p = NC_CRYPTO_DATA" "?p \<noteq> []" "length ?p = 25 + length m" "rd64be (drop 1 ?p) = of_nat n"
      "take 16 (drop 9 ?p) = fst ?l" "drop 25 ?p = snd ?l"
    using l by (simp_all add: sealed_packet_def rd64_wr64)
  then show ?thesis
    using assms(2-4) l by (simp add: nc_crypto_open_def NC_CRYPTO_OVERHEAD_def NC_CRYPTO_HELLO_def NC_CRYPTO_DATA_def Let_def del: drop_Suc_Cons)
qed

lemma opened_packets:
  assumes "crypto_laws P" and "cr_have_key c" and "\<not> cr_failed c" and "rx_repr S c" and "length ms < 2 ^ 64"
    and "list_all (\<lambda>m. length m \<le> cap) ms" and "list_all (\<lambda>j. j < length ms) js"
  shows "open_all P cap c (map (\<lambda>j. sealed_packet P (cr_rx_key c) (Suc j) (ms ! j)) js) = opened_once S ms js"
  using assms(2-4,7)
proof (induction js arbitrary: c S)
  case (Cons j js)
  have j: "j < length ms" "length (ms ! j) \<le> cap" "Suc j < 2 ^ 64" "list_all (\<lambda>j. j < length ms) js"
    using Cons.prems(4) assms(5,6) by (auto simp: list_all_length)
  note opens = open_packet [OF assms(1) Cons.prems(1,2) j(2), of "Suc j"]
  show ?case
  proof (cases "fresh_counter S (Suc j)")
    case True
    with replay_spec [OF Cons.prems(3) _ j(3)] obtain w m where
      r: "replay_check_and_update (of_nat (Suc j)) c = (c\<lparr>cr_rx_window := w, cr_rx_max := m\<rparr>, 0)"
        "rx_repr (insert (Suc j) S) (c\<lparr>cr_rx_window := w, cr_rx_max := m\<rparr>)" by auto
    then show ?thesis
      using True opens Cons.IH [OF _ _ r(2) j(4)] Cons.prems(1,2) by (simp del: of_nat_Suc)
  next
    case False
    with replay_spec [OF Cons.prems(3) _ j(3)] have "replay_check_and_update (of_nat (Suc j)) c = (c, -1)" by simp
    then show ?thesis using False opens Cons.IH [OF Cons.prems(1-3) j(4)] by (simp del: of_nat_Suc)
  qed
qed simp

text \<open>
  C13. What is sealed is opened at most once. Messages sealed one after another in a session, and delivered
  by the network in any order, with any losses and any duplicates, open to exactly the bytes that were
  sealed, each at most once; a packet is refused precisely when it was opened before or is 64 or more
  packets behind the newest one opened.
\<close>

theorem opened_at_most_once:
  assumes "crypto_laws P" and "cr_have_key a" and "cr_tx_counter a = 0"
    and "cr_have_key b" and "\<not> cr_failed b" and "cr_rx_max b = 0" and "cr_rx_window b = 0" and "cr_tx_key a = cr_rx_key b"
    and "length ms < 2 ^ 64" and "list_all (\<lambda>m. length m \<le> cap) ms" and "list_all (\<lambda>j. j < length ms) js"
  shows "open_all P cap b (map (\<lambda>j. snd (seal_all P a ms) ! j) js) = opened_once {} ms js"
proof -
  have repr: "rx_repr {} b" using assms(6,7) by (simp add: rx_repr_def)
  have eq: "map (\<lambda>j. snd (seal_all P a ms) ! j) js = map (\<lambda>j. sealed_packet P (cr_rx_key b) (Suc j) (ms ! j)) js"
    using seal_all_packets [of a 0 ms P] assms(2,3,8,9,11) by (auto simp: list_all_iff)
  show ?thesis unfolding eq by (rule opened_packets [OF assms(1,4,5) repr assms(9,10,11)])
qed

section \<open>Nonces and keys\<close>

lemma seal_cases:
  obtains (refused) "nc_crypto_seal P m cap c = (c, None)"
  | (sealed) p where "nc_crypto_seal P m cap c = (c\<lparr>cr_tx_counter := cr_tx_counter c + 1\<rparr>, Some p)"
      "rd64be (drop 1 p) = cr_tx_counter c + 1" "unat (cr_tx_counter c + 1) = Suc (unat (cr_tx_counter c))"
proof (cases "\<not> cr_have_key c \<or> cap < length m + NC_CRYPTO_OVERHEAD \<or> cr_tx_counter c = - 1")
  case True
  then show ?thesis using refused by (auto simp: nc_crypto_seal_def)
next
  case False
  then have "unat (cr_tx_counter c + 1) = Suc (unat (cr_tx_counter c))"
    using unatSuc [of "cr_tx_counter c"] by (metis add.commute add_eq_0_iff)
  with False show ?thesis
    by (intro sealed) (auto simp: nc_crypto_seal_def Let_def case_prod_beta rd64_wr64)
qed

text \<open>The packets that a run of \<open>nc_crypto_seal\<close> calls produces, each with its own buffer size.\<close>

fun sealed_run :: "nc_prims \<Rightarrow> nc_crypto \<Rightarrow> (u8 list \<times> nat) list \<Rightarrow> u8 list list" where
  "sealed_run P c [] = []"
| "sealed_run P c ((m, cap) # ms) =
    (let (c', r) = nc_crypto_seal P m cap c in
     case r of Some p \<Rightarrow> p # sealed_run P c' ms | None \<Rightarrow> sealed_run P c' ms)"

lemma sealed_run_later:
  "p \<in> set (sealed_run P c ms) \<Longrightarrow> unat (cr_tx_counter c) < unat (rd64be (drop 1 p))"
proof (induction ms arbitrary: c)
  case (Cons x ms)
  obtain m cap where x: "x = (m, cap)" by (cases x)
  show ?case
  proof (cases P m cap c rule: seal_cases)
    case refused
    with Cons x show ?thesis by simp
  next
    case (sealed q)
    with Cons.prems x have "p = q \<or> p \<in> set (sealed_run P (c\<lparr>cr_tx_counter := cr_tx_counter c + 1\<rparr>) ms)" by simp
    then show ?thesis using Cons.IH [of "c\<lparr>cr_tx_counter := cr_tx_counter c + 1\<rparr>"] sealed(2,3) by auto
  qed
qed simp

text \<open>
  No nonce is used twice. Whatever a session is asked to seal, and whichever calls are refused for lack
  of room or of keys, the packets it produces carry pairwise different counters, so no two of them are
  locked under the same key and nonce; the last counter is refused rather than wrapped.
\<close>

theorem nonces_distinct: "distinct (map (\<lambda>p. rd64be (drop 1 p)) (sealed_run P c ms))"
proof (induction ms arbitrary: c)
  case (Cons x ms)
  obtain m cap where x: "x = (m, cap)" by (cases x)
  show ?case
  proof (cases P m cap c rule: seal_cases)
    case refused
    with Cons x show ?thesis by simp
  next
    case (sealed q)
    let ?c = "c\<lparr>cr_tx_counter := cr_tx_counter c + 1\<rparr>"
    have "cr_tx_counter c + 1 \<notin> (\<lambda>p. rd64be (drop 1 p)) ` set (sealed_run P ?c ms)"
      using sealed_run_later [of _ P ?c ms] by fastforce
    moreover have "sealed_run P c (x # ms) = q # sealed_run P ?c ms" using sealed(1) x by simp
    ultimately show ?thesis using Cons.IH [of ?c] sealed(2) by simp
  qed
qed simp

definition session_keys :: "nc_crypto \<Rightarrow> u8 list \<times> u8 list \<times> u8 list \<times> int \<times> bool \<times> u8 list \<times> bool \<times> bool" where
  "session_keys c = (cr_tx_key c, cr_rx_key c, cr_sid c, cr_role c, cr_peer_has_static c, cr_peer_static_pk c,
     cr_have_key c, cr_failed c)"

lemma replay_keys: "session_keys (fst (replay_check_and_update n c)) = session_keys c"
  by (simp add: replay_check_and_update_def session_keys_def Let_def)

text \<open>
  The first HELLO fixes the session. Once the keys are derived, no packet whatever, from anyone, changes
  the keys, the session identifier, the role or the identity of the peer, and it does not make the
  session fail; and a session whose peer was refused opens nothing and never becomes ready.
\<close>

theorem session_fixed:
  assumes "cr_have_key c \<or> cr_failed c"
  shows "session_keys (fst (nc_crypto_open P pkt cap c)) = session_keys c \<and>
    (if cr_failed c then snd (nc_crypto_open P pkt cap c) = (-1, []) else True)"
  using assms replay_keys [of "rd64be (drop 1 pkt)" c]
  by (auto simp: nc_crypto_open_def Let_def case_prod_beta split: option.split)

theorem session_fixed_witness:
  "session_keys (fst (nc_crypto_open sample_prims (NC_CRYPTO_HELLO # replicate 64 7) 100 (zero_crypto\<lparr>cr_have_key := True\<rparr>))) =
    session_keys (zero_crypto\<lparr>cr_have_key := True\<rparr>)"
  using session_fixed [of "zero_crypto\<lparr>cr_have_key := True\<rparr>" sample_prims] by simp

text \<open>A client that verifies the server's identity, and a server that has one.\<close>

definition sample_client_cfg :: nc_crypto_cfg where
  "sample_client_cfg = \<lparr>cc_eph_sk_seed = Some (replicate 32 3), cc_psk = None, cc_static_sk = None,
     cc_require_peer_static = True, cc_verify_peer = Some (\<lambda>k. if k = Some (1 # replicate 31 9) then 0 else 1)\<rparr>"

definition sample_server_cfg :: nc_crypto_cfg where
  "sample_server_cfg = \<lparr>cc_eph_sk_seed = None, cc_psk = None, cc_static_sk = Some (replicate 31 9 @ [0]),
     cc_require_peer_static = False, cc_verify_peer = None\<rparr>"

definition sample_client :: nc_crypto where
  "sample_client = fst (nc_crypto_init sample_prims None 0 (Some sample_client_cfg))"

definition sample_server :: nc_crypto where
  "sample_server = fst (nc_crypto_init sample_prims (Some (replicate 32 5)) 1 (Some sample_server_cfg))"

lemmas sample_session_defs = sample_client_def sample_server_def sample_client_cfg_def sample_server_cfg_def nc_crypto_init_def
  zero_crypto_def sample_prims_def

theorem session_agreement_witness:
  "\<exists>a' b'. nc_crypto_open sample_prims (nc_crypto_handshake_packet sample_server 65) 0 sample_client = (a', 0, []) \<and>
    nc_crypto_open sample_prims (nc_crypto_handshake_packet sample_client 65) 0 sample_server = (b', 0, []) \<and>
    nc_crypto_ready a' \<and> nc_crypto_ready b' \<and> cr_tx_key a' = cr_rx_key b'"
proof -
  have i: "nc_crypto_init sample_prims None 0 (Some sample_client_cfg) = (sample_client, 0)"
      "nc_crypto_init sample_prims (Some (replicate 32 5)) 1 (Some sample_server_cfg) = (sample_server, 0)"
    by (simp_all add: prod_eq_iff sample_session_defs)
  have "cr_psk sample_client = cr_psk sample_server" by (simp add: sample_session_defs)
  moreover have "accepts_peer sample_client sample_server" "accepts_peer sample_server sample_client"
    by (simp_all add: accepts_peer_def sample_session_defs pad_def)
  moreover have "x25519 sample_prims (cr_eph_sk sample_client) (cr_eph_pk sample_server) \<noteq> zero32"
    by (simp add: sample_session_defs zero32_def numeral_eq_Suc)
  ultimately show ?thesis
    using session_agreement [OF sample_laws i, of 0 0] by blast
qed

theorem opened_at_most_once_witness:
  "open_all sample_prims 10 (zero_crypto\<lparr>cr_have_key := True\<rparr>)
     (map (\<lambda>j. snd (seal_all sample_prims (zero_crypto\<lparr>cr_have_key := True\<rparr>) [[1, 2], [3]]) ! j) [1, 0, 1]) =
   [(1, [3]), (2, [1, 2]), (-1, [])]"
  using opened_at_most_once [of sample_prims "zero_crypto\<lparr>cr_have_key := True\<rparr>" "zero_crypto\<lparr>cr_have_key := True\<rparr>" "[[1, 2], [3]]" 10 "[1, 0, 1]"]
    sample_laws by (simp add: zero_crypto_def fresh_counter_def)

end
