(* ===== verification/Nc_Login.thy ===== *)
theory Nc_Login
  imports Nc_Auth Nc_Secure
begin

text \<open>
  What the login conversation promises: the server lets in nobody who did not prove the name, it ends
  after a bounded number of messages, a client with a good credential gets in, and a signature commits to
  the session, the name and the key it was made for.
\<close>

fun feed_all :: "nc_prims \<Rightarrow> u8 list list \<Rightarrow> nc_auth \<Rightarrow> nc_auth" where
  "feed_all P [] a = a"
| "feed_all P (m # ms) a = feed_all P ms (fst (nc_auth_feed P m a))"

section \<open>What a server has seen\<close>

text \<open>A message that proves the name: a signature over this session by an authorised key, or the right password.\<close>

definition proves :: "nc_prims \<Rightarrow> u8 list \<Rightarrow> nc_auth_server_cb \<Rightarrow> u8 list \<Rightarrow> u8 list \<Rightarrow> bool" where
  "proves P sid cb user m \<longleftrightarrow>
    (hd m = MSG_PUBKEY \<and> length m = 97 \<and>
       eddsa_check P (take 64 (drop 33 m)) (take 32 (drop 1 m)) (nc_auth_signed_digest P sid user (take 32 (drop 1 m))) \<and>
       (\<exists>f. sc_check_key cb = Some f \<and> f user (take 32 (drop 1 m)) \<noteq> 0)) \<or>
    (hd m = MSG_PASSWORD \<and> length m = 2 + unat (m ! 1) \<and> unat (m ! 1) < NC_AUTH_MAX_PASS \<and>
       (\<exists>f. sc_check_password cb = Some f \<and> f user (cstr (take (unat (m ! 1)) (drop 2 m))) \<noteq> 0))"

lemma emit_fields [simp]:
  "au_state (emit m a) = au_state a" "au_server (emit m a) = au_server a" "au_scb (emit m a) = au_scb a" "au_sid (emit m a) = au_sid a"
  "au_user (emit m a) = au_user a" "au_greeted (emit m a) = au_greeted a" "au_tries (emit m a) = au_tries a"
  "au_avail (emit m a) = au_avail a" "au_need (emit m a) = au_need a" "au_send (emit m a) = au_send a"
  by (simp_all add: emit_def)

lemma server_reply_fields [simp]:
  "au_state (server_reply t b h a) = au_state a" "au_server (server_reply t b h a) = au_server a"
  "au_scb (server_reply t b h a) = au_scb a" "au_sid (server_reply t b h a) = au_sid a"
  "au_user (server_reply t b h a) = au_user a" "au_greeted (server_reply t b h a) = au_greeted a"
  "au_tries (server_reply t b h a) = au_tries a" "au_avail (server_reply t b h a) = au_avail a"
  by (simp_all add: server_reply_def)

lemma server_deny_fields [simp]:
  "au_server (server_deny s a) = au_server a" "au_scb (server_deny s a) = au_scb a" "au_sid (server_deny s a) = au_sid a"
  "au_user (server_deny s a) = au_user a" "au_greeted (server_deny s a) = au_greeted a" "au_tries (server_deny s a) = au_tries a + 1"
  by (simp_all add: server_deny_def Let_def)

lemma server_deny_state: "au_state (server_deny s a) =
    (if 5 \<le> au_tries a \<or> au_avail a AND NOT s = 0 then NC_AUTH_DENIED else au_state a)"
  by (auto simp: server_deny_def Let_def NC_AUTH_MAX_TRIES_def)

text \<open>What one message does to a server that is still waiting.\<close>

lemma server_step:
  assumes "au_server a" and "au_state a = NC_AUTH_PENDING" and "nc_auth_feed P m a = (a', rc)"
    and "0 < length m" and "length m \<le> NC_AUTH_MAX_MSG"
  shows "au_server a' \<and> au_scb a' = au_scb a \<and> au_sid a' = au_sid a \<and>
    (case au_state a' of
       NC_AUTH_DENIED \<Rightarrow> True
     | NC_AUTH_OK \<Rightarrow> au_greeted a \<and> au_user a' = au_user a \<and> proves P (au_sid a) (au_scb a) (au_user a) m
     | NC_AUTH_PENDING \<Rightarrow> au_greeted a' \<and>
         (if au_greeted a then au_user a' = au_user a \<and> au_tries a' = au_tries a + 1 \<and> au_tries a < 5
          else au_tries a' = au_tries a))"
proof -
  have r: "(a', rc) = (let (b, r) = server_feed P m a in (if r \<noteq> 0 then b\<lparr>au_state := NC_AUTH_DENIED\<rparr> else b, r))"
    using assms by (simp add: nc_auth_feed_def)
  consider "hd m = MSG_HELLO" | "hd m = MSG_PUBKEY" | "hd m = MSG_PASSWORD" | "hd m \<notin> {MSG_HELLO, MSG_PUBKEY, MSG_PASSWORD}" by blast
  then show ?thesis
  proof cases
    case 1
    then show ?thesis using r assms(1,2)
      by (auto simp: server_feed_def server_hello_def Let_def split: if_splits nc_auth_state.split)
  next
    case 2
    then show ?thesis using r assms(1,2)
      by (auto simp: server_feed_def server_pubkey_def Let_def msg_codes server_deny_state proves_def
          split: if_splits nc_auth_state.split option.splits)
  next
    case 3
    then show ?thesis using r assms(1,2)
      by (auto simp: server_feed_def server_password_def Let_def msg_codes server_deny_state proves_def auth_limits
          split: if_splits nc_auth_state.split option.splits)
  next
    case 4
    then show ?thesis using r assms(1,2) by (auto simp: server_feed_def)
  qed
qed

lemma feed_done [simp]: "au_state a \<noteq> NC_AUTH_PENDING \<Longrightarrow> feed_all P ms a = a"
  by (induction ms) (simp_all add: nc_auth_feed_def)

lemma feed_ignored: "\<not> (0 < length m \<and> length m \<le> NC_AUTH_MAX_MSG) \<Longrightarrow> fst (nc_auth_feed P m a) = a"
  by (auto simp: nc_auth_feed_def)

lemma feed_sound:
  assumes "au_server a" and "au_state a = NC_AUTH_PENDING" and "au_state (feed_all P ms a) = NC_AUTH_OK"
  shows "\<exists>m \<in> set ms. proves P (au_sid a) (au_scb a) (au_user (feed_all P ms a)) m"
  using assms
proof (induction ms arbitrary: a)
  case (Cons m ms)
  obtain a' rc where f: "nc_auth_feed P m a = (a', rc)" by (metis surj_pair)
  show ?case
  proof (cases "0 < length m \<and> length m \<le> NC_AUTH_MAX_MSG")
    case False
    then have "a' = a" using feed_ignored [OF False, of P a] f by simp
    then show ?thesis using Cons f by auto
  next
    case True
    note step = server_step [OF Cons.prems(1,2) f] 
    show ?thesis
    proof (cases "au_state a'")
      case NC_AUTH_PENDING
      then show ?thesis using step True Cons.IH [of a'] Cons.prems(3) f by auto
    next
      case NC_AUTH_OK
      then show ?thesis using step True f by auto
    next
      case NC_AUTH_DENIED
      then show ?thesis using Cons.prems(3) f by simp
    qed
  qed
qed simp

text \<open>
  C4. Nobody gets in without proof. Whatever messages a server is sent, in whatever order, if it ends
  authenticated then one of them is a proof for the very name it reports: a signature by a key the store
  authorises for that name, over the digest of this session, this name and that key, or the password
  that the store accepts for it.
\<close>

theorem auth_sound:
  assumes "au_state (feed_all P ms (nc_auth_server_init sid (Some cb) send)) = NC_AUTH_OK"
  shows "list_ex (proves P sid cb (nc_auth_user (feed_all P ms (nc_auth_server_init sid (Some cb) send)))) ms"
  using feed_sound [OF _ _ assms]
  by (auto simp: list_ex_iff nc_auth_server_init_def zero_auth_def nc_auth_user_def)

lemma feed_bounded:
  assumes "au_server a" and "au_greeted a" and "au_tries a \<le> 5"
    and "list_all (\<lambda>m. 0 < length m \<and> length m \<le> NC_AUTH_MAX_MSG) ms" and "6 - au_tries a \<le> int (length ms)"
  shows "au_state (feed_all P ms a) \<noteq> NC_AUTH_PENDING"
  using assms
proof (induction ms arbitrary: a)
  case (Cons m ms)
  obtain a' rc where f: "nc_auth_feed P m a = (a', rc)" by (metis surj_pair)
  show ?case
  proof (cases "au_state a")
    case NC_AUTH_PENDING
    then show ?thesis
      using server_step [OF Cons.prems(1) _ f] Cons.IH [of a'] Cons.prems f by (cases "au_state a'") auto
  qed (simp_all add: nc_auth_feed_def)
qed simp

text \<open>
  C34. The conversation is bounded. Seven messages of legal size end it, whatever they are: a server that
  has been sent that many is authenticated or has refused, and it is no longer waiting.
\<close>

theorem auth_bounded:
  assumes "list_all (\<lambda>m. 0 < length m \<and> length m \<le> NC_AUTH_MAX_MSG) ms" and "7 \<le> length ms"
  shows "au_state (feed_all P ms (nc_auth_server_init sid cb send)) \<noteq> NC_AUTH_PENDING"
proof -
  let ?a = "nc_auth_server_init sid cb send"
  obtain m ms' where ms: "ms = m # ms'" using assms(2) by (cases ms) auto
  obtain a' rc where f: "nc_auth_feed P m ?a = (a', rc)" by (metis surj_pair)
  have a: "au_server ?a" "au_state ?a = NC_AUTH_PENDING" "\<not> au_greeted ?a" "au_tries ?a = 0"
    by (simp_all add: nc_auth_server_init_def zero_auth_def)
  show ?thesis
    using server_step [OF a(1,2) f] feed_bounded [of a' ms' P] assms a(3,4) ms f by (cases "au_state a'") auto
qed

section \<open>The signature commits\<close>

text \<open>
  The bytes that are signed determine the session, the name and the key: two logins that sign the same
  bytes agree in all three, so a signature made for one session, name or key is over different bytes
  everywhere else.
\<close>

theorem signed_bytes_commit:
  assumes "length sid = 32" and "length sid' = 32" and "length user \<le> NC_AUTH_MAX_USER" and "length user' \<le> NC_AUTH_MAX_USER"
  shows "signed_bytes sid user pk = signed_bytes sid' user' pk' \<longleftrightarrow> sid = sid' \<and> user = user' \<and> pk = pk'"
proof
  assume "signed_bytes sid user pk = signed_bytes sid' user' pk'"
  then have "sid @ of_nat (length user) # user @ pk = sid' @ of_nat (length user') # user' @ pk'"
    using assms(3,4) by (simp add: signed_bytes_def min_absorb1)
  then have eq: "sid = sid'" "(of_nat (length user) :: u8) = of_nat (length user')" "user @ pk = user' @ pk'"
    using assms(1,2) by auto
  have "unat (of_nat (length user) :: u8) = length user" "unat (of_nat (length user') :: u8) = length user'"
    using assms(3,4) by (simp_all add: unat_of_nat NC_AUTH_MAX_USER_def)
  then have "length user = length user'" using eq(2) by metis
  then show "sid = sid' \<and> user = user' \<and> pk = pk'" using eq by simp
qed simp

theorem signed_bytes_commit_witness:
  "signed_bytes zero32 [1] [2, 7] \<noteq> signed_bytes zero32 [1, 2] [7] \<and>
    signed_bytes zero32 [1] [7] \<noteq> signed_bytes (replicate 32 1) [1] [7]"
  using signed_bytes_commit [of zero32 zero32 "[1]" "[1, 2]" "[2, 7]" "[7]"]
    signed_bytes_commit [of zero32 "replicate 32 1" "[1]" "[1]" "[7]" "[7]"]
  by (simp add: zero32_def NC_AUTH_MAX_USER_def)

section \<open>A login\<close>

text \<open>
  The conversation over a reliable channel: each message reaches the other side before the next is
  written. After the methods the client is asked for its key; where the key is refused, for its password.
\<close>

definition key_stage :: "nc_prims \<Rightarrow> u8 list \<Rightarrow> u8 list \<Rightarrow> nc_auth_server_cb \<Rightarrow> u8 list \<times> u8 list \<Rightarrow> nc_auth \<times> nc_auth" where
  "key_stage P sid user cb key =
    (let c0 = nc_auth_start (nc_auth_client_init sid (Some user) True);
         s1 = fst (nc_auth_feed P (last (au_sent c0)) (nc_auth_server_init sid (Some cb) True));
         c1 = fst (nc_auth_feed P (last (au_sent s1)) c0);
         c2 = nc_auth_supply_key P (Some key) c1;
         s2 = fst (nc_auth_feed P (last (au_sent c2)) s1) in
     (fst (nc_auth_feed P (last (au_sent s2)) c2), s2))"

definition password_stage :: "nc_prims \<Rightarrow> u8 list \<Rightarrow> nc_auth \<times> nc_auth \<Rightarrow> nc_auth \<times> nc_auth" where
  "password_stage P pw cs =
    (let c1 = nc_auth_supply_password (Some pw) (fst cs);
         s1 = fst (nc_auth_feed P (last (au_sent c1)) (snd cs)) in
     (fst (nc_auth_feed P (last (au_sent s1)) c1), s1))"

lemma cstr_id: "list_all (\<lambda>b. b \<noteq> 0) u \<Longrightarrow> cstr u = u"
  by (simp add: cstr_def list_all_iff)

lemma take_user: "length u \<le> NC_AUTH_MAX_USER \<Longrightarrow> take NC_AUTH_MAX_USER u = u"
  by simp

lemma both_methods:
  "(3 :: u32) AND 1 \<noteq> 0" "(3 :: u32) AND NOT 1 = 2" "(2 :: u32) AND 1 = 0" "(2 :: u32) AND 2 \<noteq> 0" "(2 :: u32) AND NOT 2 = 0"
  by simp_all

lemma hello_accepted:
  assumes "list_all (\<lambda>b. b \<noteq> 0) user" and "length user \<le> NC_AUTH_MAX_USER" and "sc_methods cb = Some (\<lambda>_. 3)"
  shows "nc_auth_feed P (MSG_HELLO # of_nat (length user) # user) (nc_auth_server_init sid (Some cb) True) =
    ((nc_auth_server_init sid (Some cb) True)\<lparr>au_user := user, au_greeted := True, au_avail := 3, au_sent := [[MSG_METHODS, 3]]\<rparr>, 0)"
proof -
  have "unat (of_nat (length user) :: u8) = length user" using assms(2) by (simp add: unat_of_nat NC_AUTH_MAX_USER_def)
  then show ?thesis
    using assms by (simp add: nc_auth_feed_def server_feed_def server_hello_def Let_def cstr_id nc_auth_server_init_def zero_auth_def
        server_reply_def emit_def auth_limits)
qed

lemma key_stage_result:
  assumes "list_all (\<lambda>b. b \<noteq> 0) user" and "length user \<le> NC_AUTH_MAX_USER" and "sc_methods cb = Some (\<lambda>_. 3)"
    and "length pk = 32" and "\<And>d. length (eddsa_sign P sk d) = 64 \<and> eddsa_check P (eddsa_sign P sk d) pk d"
    and "sc_check_key cb = Some ck"
  shows "\<exists>pubkey. hd pubkey = MSG_PUBKEY \<and> key_stage P sid user cb (sk, pk) =
    (if ck user pk \<noteq> 0
     then ((nc_auth_client_init sid (Some user) True)\<lparr>au_state := NC_AUTH_OK, au_avail := 2,
              au_sent := [MSG_HELLO # of_nat (length user) # user, pubkey]\<rparr>,
           (nc_auth_server_init sid (Some cb) True)\<lparr>au_user := user, au_greeted := True, au_state := NC_AUTH_OK,
              au_avail := 3, au_sent := [[MSG_METHODS, 3], [MSG_OK]]\<rparr>)
     else ((nc_auth_client_init sid (Some user) True)\<lparr>au_need := NC_AUTH_NEED_PASSWORD, au_avail := 0,
              au_sent := [MSG_HELLO # of_nat (length user) # user, pubkey]\<rparr>,
           (nc_auth_server_init sid (Some cb) True)\<lparr>au_user := user, au_greeted := True, au_tries := 1,
              au_avail := 2, au_sent := [[MSG_METHODS, 3], [MSG_FAIL, 2]]\<rparr>))"
proof -
  let ?hello = "MSG_HELLO # of_nat (length user) # user"
  let ?c = "nc_auth_client_init sid (Some user) True" and ?s = "nc_auth_server_init sid (Some cb) True"
  let ?sig = "eddsa_sign P sk (nc_auth_signed_digest P sid user pk)"
  let ?pub = "MSG_PUBKEY # pk @ ?sig"
  define c0 where "c0 = nc_auth_start ?c"
  define s1 where "s1 = ?s\<lparr>au_user := user, au_greeted := True, au_avail := 3, au_sent := [[MSG_METHODS, 3]]\<rparr>"
  define c1 where "c1 = ?c\<lparr>au_avail := 2, au_need := NC_AUTH_NEED_KEY, au_sent := [?hello]\<rparr>"
  define c2 where "c2 = ?c\<lparr>au_avail := 2, au_sent := [?hello, ?pub]\<rparr>"
  have c0: "c0 = ?c\<lparr>au_sent := [?hello]\<rparr>"
    using assms(2) by (simp add: c0_def nc_auth_start_def nc_auth_client_init_def zero_auth_def emit_def)
  have s1: "fst (nc_auth_feed P ?hello ?s) = s1" using hello_accepted [OF assms(1-3)] by (simp add: s1_def)
  have c1: "fst (nc_auth_feed P [MSG_METHODS, 3] c0) = c1"
    by (simp add: c0 c1_def nc_auth_feed_def client_feed_def client_try_next_def nc_auth_client_init_def zero_auth_def auth_limits method_bits)
  have c2: "nc_auth_supply_key P (Some (sk, pk)) c1 = c2"
    using assms(2) by (simp add: c1_def c2_def nc_auth_supply_key_def nc_auth_client_init_def zero_auth_def emit_def)
  have parts: "length ?pub = 97" "take 32 (drop 1 ?pub) = pk" "take 64 (drop 33 ?pub) = ?sig" using assms(4,5) by auto
  have stage: "key_stage P sid user cb (sk, pk) =
      (fst (nc_auth_feed P (last (au_sent (fst (nc_auth_feed P ?pub s1)))) c2), fst (nc_auth_feed P ?pub s1))"
    using c0 s1 c1 c2 unfolding key_stage_def c0_def [symmetric] Let_def by (simp add: s1_def c2_def)
  have feed: "nc_auth_feed P ?pub s1 = server_pubkey P ?pub s1" if "snd (server_pubkey P ?pub s1) = 0"
    using that parts(1) by (simp add: nc_auth_feed_def server_feed_def msg_codes auth_limits s1_def nc_auth_server_init_def zero_auth_def
        case_prod_beta prod_eq_iff)
  show ?thesis
  proof (cases "ck user pk \<noteq> 0")
    case True
    then have "server_pubkey P ?pub s1 = (s1\<lparr>au_state := NC_AUTH_OK, au_sent := [[MSG_METHODS, 3], [MSG_OK]]\<rparr>, 0)"
      unfolding server_pubkey_def parts using assms(5,6)
      by (simp add: s1_def nc_auth_server_init_def zero_auth_def method_bits server_reply_def emit_def)
    with feed True show ?thesis unfolding stage
      by (intro exI [of _ ?pub]) (simp add: s1_def c2_def nc_auth_feed_def client_feed_def nc_auth_client_init_def
          nc_auth_server_init_def zero_auth_def auth_limits msg_codes)
  next
    case False
    then have "server_pubkey P ?pub s1 = (s1\<lparr>au_avail := 2, au_tries := 1, au_sent := [[MSG_METHODS, 3], [MSG_FAIL, 2]]\<rparr>, 0)"
      unfolding server_pubkey_def parts using assms(5,6)
      by (simp add: s1_def nc_auth_server_init_def zero_auth_def method_bits server_reply_def emit_def server_deny_def auth_limits)
    with feed False show ?thesis unfolding stage
      by (intro exI [of _ ?pub]) (simp add: s1_def c2_def nc_auth_feed_def client_feed_def client_try_next_def nc_auth_client_init_def
          nc_auth_server_init_def zero_auth_def auth_limits msg_codes method_bits)
  qed
qed

lemma password_accepted:
  assumes "list_all (\<lambda>b. b \<noteq> 0) pw" and "length pw < NC_AUTH_MAX_PASS" and "sc_check_password cb = Some cp" and "cp user pw \<noteq> 0"
    and "s = (nc_auth_server_init sid (Some cb) True)\<lparr>au_user := user, au_greeted := True, au_tries := 1, au_avail := 2, au_sent := out\<rparr>"
    and "c = (nc_auth_client_init sid (Some user) True)\<lparr>au_need := NC_AUTH_NEED_PASSWORD, au_avail := 0, au_sent := out'\<rparr>"
  shows "let (c', s') = password_stage P pw (c, s) in au_state c' = NC_AUTH_OK \<and> au_state s' = NC_AUTH_OK \<and> au_user s' = user"
proof -
  let ?m = "MSG_PASSWORD # of_nat (length pw) # pw"
  have u: "unat (of_nat (length pw) :: u8) = length pw" using assms(2) by (simp add: unat_of_nat NC_AUTH_MAX_PASS_def)
  have c1: "nc_auth_supply_password (Some pw) c = c\<lparr>au_need := NC_AUTH_NEED_NOTHING, au_sent := out' @ [?m]\<rparr>"
    using assms(2) by (simp add: assms(6) nc_auth_supply_password_def nc_auth_client_init_def zero_auth_def emit_def auth_limits)
  have s1: "nc_auth_feed P ?m s = (s\<lparr>au_state := NC_AUTH_OK, au_sent := out @ [[MSG_OK]]\<rparr>, 0)"
    using assms(1-4) u by (simp add: assms(5) nc_auth_feed_def server_feed_def server_password_def Let_def cstr_id msg_codes
        auth_limits method_bits nc_auth_server_init_def zero_auth_def server_reply_def emit_def)
  have "password_stage P pw (c, s) =
      (fst (nc_auth_feed P [MSG_OK] (c\<lparr>au_need := NC_AUTH_NEED_NOTHING, au_sent := out' @ [?m]\<rparr>)),
       s\<lparr>au_state := NC_AUTH_OK, au_sent := out @ [[MSG_OK]]\<rparr>)"
    by (simp add: password_stage_def Let_def c1 s1)
  then show ?thesis
    by (simp add: assms(5,6) nc_auth_feed_def client_feed_def msg_codes auth_limits
        nc_auth_client_init_def nc_auth_server_init_def zero_auth_def)
qed

text \<open>
  C22. A good credential gets in. Over a reliable channel, a client with a key pair and a password logs in
  to a server that offers both methods. If the store authorises the key, both sides end authenticated
  under the client's name after one signature and the password is never sent; if it does not, the client is
  asked for its password, and the right one gets it in.
\<close>

theorem login_succeeds:
  assumes "list_all (\<lambda>b. b \<noteq> 0) user" and "length user \<le> NC_AUTH_MAX_USER" and "sc_methods cb = Some (\<lambda>_. 3)"
    and "length pk = 32" and "\<And>d. length (eddsa_sign P sk d) = 64 \<and> eddsa_check P (eddsa_sign P sk d) pk d"
    and "sc_check_key cb = Some ck" and "sc_check_password cb = Some cp"
    and "list_all (\<lambda>b. b \<noteq> 0) pw" and "length pw < NC_AUTH_MAX_PASS" and "cp user pw \<noteq> 0"
  shows "let (c, s) = key_stage P sid user cb (sk, pk) in
    if ck user pk \<noteq> 0
    then au_state c = NC_AUTH_OK \<and> au_state s = NC_AUTH_OK \<and> au_user s = user \<and> MSG_PASSWORD \<notin> hd ` set (au_sent c)
    else nc_auth_needs c = NC_AUTH_NEED_PASSWORD \<and>
      (let (c', s') = password_stage P pw (c, s) in au_state c' = NC_AUTH_OK \<and> au_state s' = NC_AUTH_OK \<and> au_user s' = user)"
proof -
  obtain pub where pub: "hd pub = MSG_PUBKEY" and stage: "key_stage P sid user cb (sk, pk) =
    (if ck user pk \<noteq> 0
     then ((nc_auth_client_init sid (Some user) True)\<lparr>au_state := NC_AUTH_OK, au_avail := 2,
              au_sent := [MSG_HELLO # of_nat (length user) # user, pub]\<rparr>,
           (nc_auth_server_init sid (Some cb) True)\<lparr>au_user := user, au_greeted := True, au_state := NC_AUTH_OK,
              au_avail := 3, au_sent := [[MSG_METHODS, 3], [MSG_OK]]\<rparr>)
     else ((nc_auth_client_init sid (Some user) True)\<lparr>au_need := NC_AUTH_NEED_PASSWORD, au_avail := 0,
              au_sent := [MSG_HELLO # of_nat (length user) # user, pub]\<rparr>,
           (nc_auth_server_init sid (Some cb) True)\<lparr>au_user := user, au_greeted := True, au_tries := 1,
              au_avail := 2, au_sent := [[MSG_METHODS, 3], [MSG_FAIL, 2]]\<rparr>))"
    using key_stage_result [OF assms(1-6)] by blast
  show ?thesis
  proof (cases "ck user pk \<noteq> 0")
    case True
    then show ?thesis using pub by (auto simp: stage msg_codes)
  next
    case False
    then show ?thesis
      using password_accepted [OF assms(8,9,7,10) HOL.refl HOL.refl] by (simp add: stage nc_auth_needs_def)
  qed
qed

text \<open>A store that knows one name, one key and one password.\<close>

definition sample_store :: "u8 list \<Rightarrow> nc_auth_server_cb" where
  "sample_store key = \<lparr>sc_methods = Some (\<lambda>_. 3), sc_check_key = Some (\<lambda>u k. if u = [97] \<and> k = key then 1 else 0),
     sc_check_password = Some (\<lambda>u p. if u = [97] \<and> p = [112, 119] then 1 else 0)\<rparr>"

lemma sample_sign:
  "length (eddsa_sign sample_prims (replicate 64 4) d) = 64 \<and>
    eddsa_check sample_prims (eddsa_sign sample_prims (replicate 64 4) d) (replicate 32 4) d"
  by (simp add: sample_prims_def)

theorem login_succeeds_witness:
  "(let (c, s) = key_stage sample_prims zero32 [97] (sample_store (replicate 32 4)) (replicate 64 4, replicate 32 4) in
     au_state s = NC_AUTH_OK \<and> au_user s = [97]) \<and>
   (let (c, s) = key_stage sample_prims zero32 [97] (sample_store []) (replicate 64 4, replicate 32 4);
        (c', s') = password_stage sample_prims [112, 119] (c, s) in au_state s' = NC_AUTH_OK \<and> au_user s' = [97])"
proof -
  have pk: "length (replicate 32 4 :: u8 list) = 32" by simp
  have u: "list_all (\<lambda>b. b \<noteq> 0) [97 :: u8]" "length [97 :: u8] \<le> NC_AUTH_MAX_USER" by (simp_all add: auth_limits)
  have pw: "list_all (\<lambda>b. b \<noteq> 0) [112, 119 :: u8]" "length [112, 119 :: u8] < NC_AUTH_MAX_PASS" by (simp_all add: auth_limits)
  have cb: "sc_methods (sample_store k) = Some (\<lambda>_. 3)"
      "sc_check_key (sample_store k) = Some (\<lambda>u k'. if u = [97] \<and> k' = k then 1 else 0)"
      "sc_check_password (sample_store k) = Some (\<lambda>u p. if u = [97] \<and> p = [112, 119] then 1 else 0)" for k
    by (simp_all add: sample_store_def)
  note login = login_succeeds [where sid = zero32, OF u cb(1) pk sample_sign cb(2,3) pw]
  show ?thesis
    using login [of "replicate 32 4"] login [of "[]"] by (simp add: case_prod_beta)
qed

lemma sample_login: "au_state (feed_all sample_prims [[MSG_HELLO, 1, 97], [MSG_PASSWORD, 2, 112, 119]]
    (nc_auth_server_init zero32 (Some (sample_store [])) False)) = NC_AUTH_OK"
  by (simp add: nc_auth_feed_def server_feed_def server_hello_def server_password_def Let_def cstr_def msg_codes auth_limits
      method_bits nc_auth_server_init_def zero_auth_def server_reply_def emit_def sample_store_def)

theorem auth_sound_witness:
  "list_ex (proves sample_prims zero32 (sample_store []) (nc_auth_user (feed_all sample_prims [[MSG_HELLO, 1, 97], [MSG_PASSWORD, 2, 112, 119]]
    (nc_auth_server_init zero32 (Some (sample_store [])) False)))) [[MSG_HELLO, 1, 97], [MSG_PASSWORD, 2, 112, 119]]"
  by (rule auth_sound [OF sample_login])

theorem auth_bounded_witness:
  "au_state (feed_all sample_prims (replicate 7 [MSG_PASSWORD, 1, 9]) (nc_auth_server_init zero32 (Some (sample_store [])) True)) \<noteq> NC_AUTH_PENDING"
  by (rule auth_bounded) (simp_all add: list_all_iff auth_limits)

end
