(* ===== verification/Iox_Pq.thy ===== *)
theory Iox_Pq
  imports Rv_Prelude "HOL-Library.Multiset" "HOL-Library.Monad_Syntax"
begin

text \<open>
  The priority queue of \<open>iox/pq.h\<close>: a binary heap in an array of fixed capacity, moved by two loops
  that carry a hole up or down. The header is included with an entry type and a comparison; both are
  parameters here. Counters and indices are \<open>unsigned\<close> and keep their 32 bits; an access outside the
  allocated array, and a loop that does not end, are the value \<open>None\<close>.
\<close>

section \<open>Data and index arithmetic\<close>

record 'e pq =
  pq_nr :: u32
  pq_max :: u32
  pq_entry :: "'e list"

definition PQ_PARENT :: "u32 \<Rightarrow> u32" where
  "PQ_PARENT i = (i - 1) div 2"

definition PQ_LEFT :: "u32 \<Rightarrow> u32" where
  "PQ_LEFT i = 2 * i + 1"

definition entry_at :: "'e list \<Rightarrow> u32 \<Rightarrow> 'e option" where
  "entry_at es i = (if unat i < length es then Some (es ! unat i) else None)"

definition entry_put :: "'e list \<Rightarrow> u32 \<Rightarrow> 'e \<Rightarrow> 'e list option" where
  "entry_put es i e = (if unat i < length es then Some (es[unat i := e]) else None)"

section \<open>Operations\<close>

partial_function (option) pq_siftup :: "('e \<Rightarrow> 'e \<Rightarrow> bool) \<Rightarrow> 'e list \<Rightarrow> u32 \<Rightarrow> 'e \<Rightarrow> ('e list \<times> u32) option" where
  "pq_siftup cmp es i elm =
    (if i = 0 then Some (es, i)
     else do {
       p \<leftarrow> entry_at es (PQ_PARENT i);
       if cmp p elm
       then do { es' \<leftarrow> entry_put es i p; pq_siftup cmp es' (PQ_PARENT i) elm }
       else Some (es, i) })"

definition higher_child :: "('e \<Rightarrow> 'e \<Rightarrow> bool) \<Rightarrow> 'e list \<Rightarrow> u32 \<Rightarrow> u32 \<Rightarrow> u32 option" where
  "higher_child cmp es nr i =
    (let child = PQ_LEFT i in
     if child + 1 < nr
     then do {
       a \<leftarrow> entry_at es child;
       b \<leftarrow> entry_at es (child + 1);
       Some (if cmp a b then child + 1 else child) }
     else Some child)"

partial_function (option) pq_siftdown ::
  "('e \<Rightarrow> 'e \<Rightarrow> bool) \<Rightarrow> 'e list \<Rightarrow> u32 \<Rightarrow> u32 \<Rightarrow> 'e \<Rightarrow> ('e list \<times> u32) option" where
  "pq_siftdown cmp es nr i elm =
    (if PQ_LEFT i < nr
     then do {
       child \<leftarrow> higher_child cmp es nr i;
       e \<leftarrow> entry_at es child;
       if \<not> cmp elm e then Some (es, i)
       else do { es' \<leftarrow> entry_put es i e; pq_siftdown cmp es' nr child elm } }
     else Some (es, i))"

text \<open>
  \<open>init\<close> and \<open>resize\<close> take whether the allocator gives memory; \<open>init\<close> also the all-zero entry that
  \<open>calloc\<close> fills the array with, and \<open>resize\<close> what \<open>realloc\<close> leaves in the cells it adds. The
  array is empty for a null pointer.
\<close>

definition pq_init :: "bool \<Rightarrow> 'e \<Rightarrow> u32 \<Rightarrow> 'e pq \<times> bool" where
  "pq_init alloc zero m =
    (if alloc then (\<lparr>pq_nr = 0, pq_max = m, pq_entry = replicate (unat m) zero\<rparr>, True)
     else (\<lparr>pq_nr = 0, pq_max = 0, pq_entry = []\<rparr>, False))"

definition pq_free :: "'e pq \<Rightarrow> 'e pq" where
  "pq_free q = \<lparr>pq_nr = 0, pq_max = 0, pq_entry = []\<rparr>"

definition pq_resize :: "bool \<Rightarrow> (nat \<Rightarrow> 'e) \<Rightarrow> u32 \<Rightarrow> 'e pq \<Rightarrow> 'e pq \<times> bool" where
  "pq_resize alloc junk newmax q =
    (if newmax < pq_nr q then (q, False)
     else if \<not> alloc \<and> 0 < newmax then (q, False)
     else (q\<lparr>pq_entry := take (unat newmax) (pq_entry q) @ map junk [length (pq_entry q)..<unat newmax],
             pq_max := newmax\<rparr>, True))"

definition pq_enqueue :: "('e \<Rightarrow> 'e \<Rightarrow> bool) \<Rightarrow> 'e \<Rightarrow> 'e pq \<Rightarrow> ('e pq \<times> bool) option" where
  "pq_enqueue cmp e q =
    (if pq_max q \<le> pq_nr q then Some (q, False)
     else do {
       (es, i) \<leftarrow> pq_siftup cmp (pq_entry q) (pq_nr q) e;
       es' \<leftarrow> entry_put es i e;
       Some (q\<lparr>pq_nr := pq_nr q + 1, pq_entry := es'\<rparr>, True) })"

definition pq_remove :: "('e \<Rightarrow> 'e \<Rightarrow> bool) \<Rightarrow> u32 \<Rightarrow> 'e pq \<Rightarrow> ('e pq \<times> 'e option) option" where
  "pq_remove cmp i q =
    (if pq_nr q \<le> i then Some (q, None)
     else do {
       dst \<leftarrow> entry_at (pq_entry q) i;
       let nr = pq_nr q - 1;
       if i = nr then Some (q\<lparr>pq_nr := nr\<rparr>, Some dst)
       else do {
         last \<leftarrow> entry_at (pq_entry q) nr;
         up \<leftarrow> (if 0 < i then do { p \<leftarrow> entry_at (pq_entry q) (PQ_PARENT i); Some (cmp p last) } else Some False);
         (es, j) \<leftarrow> (if up then pq_siftup cmp (pq_entry q) i last else pq_siftdown cmp (pq_entry q) nr i last);
         es' \<leftarrow> entry_put es j last;
         Some (q\<lparr>pq_nr := nr, pq_entry := es'\<rparr>, Some dst) } })"

definition pq_dequeue :: "('e \<Rightarrow> 'e \<Rightarrow> bool) \<Rightarrow> 'e pq \<Rightarrow> ('e pq \<times> 'e option) option" where
  "pq_dequeue cmp q = pq_remove cmp 0 q"

definition pq_peek :: "u32 \<Rightarrow> 'e pq \<Rightarrow> 'e option" where
  "pq_peek i q = (if i < pq_nr q then entry_at (pq_entry q) i else None)"

definition pq_top :: "'e pq \<Rightarrow> 'e option" where
  "pq_top q = pq_peek 0 q"

definition pq_find :: "('e \<Rightarrow> 'k) \<Rightarrow> 'e \<Rightarrow> 'e pq \<Rightarrow> int" where
  "pq_find key e q =
    (case find (\<lambda>i. key (pq_entry q ! i) = key e) [0..<unat (pq_nr q)] of
       Some i \<Rightarrow> sint (of_nat i :: 32 word) | None \<Rightarrow> -1)"

definition pq_size :: "'e pq \<Rightarrow> u32" where
  "pq_size q = pq_nr q"

definition pq_available :: "'e pq \<Rightarrow> u32" where
  "pq_available q = pq_max q - pq_nr q"

definition pq_is_valid :: "('e \<Rightarrow> 'e \<Rightarrow> bool) \<Rightarrow> 'e pq \<Rightarrow> bool" where
  "pq_is_valid cmp q =
    list_all (\<lambda>i. \<not> cmp (pq_entry q ! unat (PQ_PARENT (of_nat i))) (pq_entry q ! i)) [1..<unat (pq_nr q)]"

section \<open>The heap over natural indices\<close>

definition par :: "nat \<Rightarrow> nat" where
  "par i = (i - 1) div 2"

lemma par_less: "0 < i \<Longrightarrow> par i < i"
  by (simp add: par_def)

lemma par_neq [simp]: "0 < i \<Longrightarrow> par i \<noteq> i" "0 < i \<Longrightarrow> i \<noteq> par i"
  using par_less [of i] by simp_all

lemma par_child: "0 < k \<Longrightarrow> par k = i \<longleftrightarrow> k = 2 * i + 1 \<or> k = 2 * i + 2"
  by (auto simp: par_def)

lemma unat_parent: "0 < i \<Longrightarrow> i < 2 ^ 32 \<Longrightarrow> PQ_PARENT (of_nat i) = of_nat (par i)"
proof (cases i)
  case (Suc j)
  moreover assume "i < 2 ^ 32"
  ultimately show ?thesis
    by (simp add: PQ_PARENT_def par_def word_unat_eq_iff unat_div unat_of_nat)
qed simp

lemma left_of_nat: "PQ_LEFT (of_nat i) = of_nat (2 * i + 1)"
  by (simp add: PQ_LEFT_def)

lemma of_nat_less: "a < 2 ^ 32 \<Longrightarrow> b < 2 ^ 32 \<Longrightarrow> (of_nat a :: u32) < of_nat b \<longleftrightarrow> a < b"
  by (simp add: word_less_nat_alt unat_of_nat)

lemma of_nat_eq_zero: "i < 2 ^ 32 \<Longrightarrow> (of_nat i :: u32) = 0 \<longleftrightarrow> i = 0"
  by (simp add: word_unat_eq_iff unat_of_nat)

lemma unat_Suc_nat: "Suc n < 2 ^ 32 \<Longrightarrow> unat (of_nat n + 1 :: u32) = Suc n"
proof -
  assume n: "Suc n < 2 ^ 32"
  have "unat (of_nat (Suc n) :: u32) = Suc n" using n by (simp only: unat_of_nat) simp
  then show ?thesis by (simp only: of_nat_Suc add.commute)
qed

lemma entry_at_nat [simp]: "i < length es \<Longrightarrow> i < 2 ^ 32 \<Longrightarrow> entry_at es (of_nat i) = Some (es ! i)"
  by (simp add: entry_at_def unat_of_nat)

lemma entry_put_nat [simp]: "i < length es \<Longrightarrow> i < 2 ^ 32 \<Longrightarrow> entry_put es (of_nat i) e = Some (es[i := e])"
  by (simp add: entry_put_def unat_of_nat)

text \<open>
  While an element is on its way the heap has a hole: on the way up the hole may be smaller than its
  parent, on the way down larger than its children, and in both cases the parent of the hole is in
  order with the children of the hole.
\<close>

definition heap_ok :: "('e \<Rightarrow> 'e \<Rightarrow> bool) \<Rightarrow> nat \<Rightarrow> 'e list \<Rightarrow> bool" where
  "heap_ok cmp n xs \<longleftrightarrow> (\<forall>k. 0 < k \<and> k < n \<longrightarrow> \<not> cmp (xs ! par k) (xs ! k))"

definition across_hole :: "('e \<Rightarrow> 'e \<Rightarrow> bool) \<Rightarrow> nat \<Rightarrow> nat \<Rightarrow> 'e list \<Rightarrow> bool" where
  "across_hole cmp n i xs \<longleftrightarrow> (\<forall>k. 0 < i \<and> 0 < k \<and> k < n \<and> par k = i \<longrightarrow> \<not> cmp (xs ! par i) (xs ! k))"

definition up_hole :: "('e \<Rightarrow> 'e \<Rightarrow> bool) \<Rightarrow> nat \<Rightarrow> nat \<Rightarrow> 'e list \<Rightarrow> bool" where
  "up_hole cmp n i xs \<longleftrightarrow> (\<forall>k. 0 < k \<and> k < n \<and> k \<noteq> i \<longrightarrow> \<not> cmp (xs ! par k) (xs ! k)) \<and> across_hole cmp n i xs"

definition down_hole :: "('e \<Rightarrow> 'e \<Rightarrow> bool) \<Rightarrow> nat \<Rightarrow> nat \<Rightarrow> 'e list \<Rightarrow> bool" where
  "down_hole cmp n i xs \<longleftrightarrow> (\<forall>k. 0 < k \<and> k < n \<and> par k \<noteq> i \<longrightarrow> \<not> cmp (xs ! par k) (xs ! k)) \<and> across_hole cmp n i xs"

lemma swap_mset:
  assumes "i < n" and "j < n" and "n \<le> length es" and "i \<noteq> j"
  shows "mset (take n (es[i := es ! j, j := e])) = mset (take n (es[i := e]))"
proof -
  let ?ys = "take n (es[i := e])"
  have "take n (es[i := es ! j, j := e]) = ?ys[i := ?ys ! j, j := ?ys ! i]"
    using assms by (simp add: take_update_swap)
  then show ?thesis using assms mset_swap [of j ?ys i] by simp
qed

text \<open>The queue is well formed, and what it holds.\<close>

definition pq_ok :: "('e \<Rightarrow> 'e \<Rightarrow> bool) \<Rightarrow> 'e pq \<Rightarrow> bool" where
  "pq_ok cmp q \<longleftrightarrow> pq_nr q \<le> pq_max q \<and> unat (pq_max q) = length (pq_entry q) \<and> unat (pq_max q) \<le> 2 ^ 31 \<and>
     heap_ok cmp (unat (pq_nr q)) (pq_entry q)"

definition pq_bag :: "'e pq \<Rightarrow> 'e multiset" where
  "pq_bag q = mset (take (unat (pq_nr q)) (pq_entry q))"

lemma take_put: "n < length es \<Longrightarrow> mset (take (Suc n) (es[n := e])) = add_mset e (mset (take n es))"
  by (simp add: take_Suc_conv_app_nth)

lemma take_drop_one:
  assumes "i < n" and "n < length es"
  shows "mset (take n (es[i := es ! n])) = mset (take (Suc n) es) - {#es ! i#}"
proof -
  have "es ! i \<in># mset (take n es)" using assms by (auto simp: in_set_conv_nth intro!: exI [of _ i])
  with assms show ?thesis by (simp add: take_Suc_conv_app_nth take_update_swap mset_update)
qed

locale pq_order =
  fixes cmp :: "'e \<Rightarrow> 'e \<Rightarrow> bool"
  assumes asym: "cmp a b \<Longrightarrow> \<not> cmp b a"
    and below_trans: "\<not> cmp a b \<Longrightarrow> \<not> cmp b c \<Longrightarrow> \<not> cmp a c"
begin

lemma irrefl: "\<not> cmp a a"
  using asym by blast

lemma up_hole_step:
  assumes "up_hole cmp n i (es[i := elm])" and "0 < i" and "i < n" and "n \<le> length es" and "cmp (es ! par i) elm"
  shows "up_hole cmp n (par i) (es[i := es ! par i, par i := elm])"
proof -
  let ?old = "es[i := elm]" and ?new = "es[i := es ! par i, par i := elm]"
  have le: "par i < i" "par i < length es" using assms by (auto simp: par_def)
  have old: "\<not> cmp (?old ! par k) (?old ! k)" if "0 < k" "k < n" "k \<noteq> i" for k
    using assms(1) that by (simp add: up_hole_def)
  have gap: "\<not> cmp (?old ! par i) (?old ! k)" if "0 < k" "k < n" "par k = i" for k
    using assms(1,2) that by (auto simp: up_hole_def across_hole_def)
  have "\<not> cmp (?new ! par k) (?new ! k)" if k: "0 < k" "k < n" "k \<noteq> par i" for k
  proof (cases "k = i")
    case True
    then show ?thesis using assms le asym [OF assms(5)] by simp
  next
    case False
    have lt: "par k < k" using k par_less by simp
    consider "par k = i" | "par k = par i" "par k \<noteq> i" | "par k \<noteq> i" "par k \<noteq> par i" by blast
    then show ?thesis
    proof cases
      case 1
      then show ?thesis using gap [OF k(1,2)] k False le lt assms by (auto simp: nth_list_update)
    next
      case 2
      have "\<not> cmp (es ! par i) (es ! k)" using old [OF k(1,2) False] 2 False le assms by simp
      then have "\<not> cmp elm (es ! k)" using below_trans asym [OF assms(5)] by blast
      then show ?thesis using 2 k False le assms by simp
    next
      case 3
      then show ?thesis using old [OF k(1,2) False] k False le assms by simp
    qed
  qed
  moreover have "\<not> cmp (?new ! par (par i)) (?new ! k)" if "0 < par i" "0 < k" "k < n" "par k = par i" for k
  proof -
    have up: "\<not> cmp (es ! par (par i)) (es ! par i)"
      using old [of "par i"] that le assms par_less [of "par i"] by simp
    have "k \<noteq> par i" "par (par i) \<noteq> par i" "par (par i) \<noteq> i" using that le par_less [of "par i"] par_less [of k] by auto
    then show ?thesis
      using up old [of k] that le assms below_trans [of "es ! par (par i)" "es ! par i" "es ! k"] by (cases "k = i") auto
  qed
  ultimately show ?thesis by (auto simp: up_hole_def across_hole_def)
qed

lemma siftup_ok:
  assumes "i < n" and "n \<le> length es" and "n \<le> 2 ^ 31" and "up_hole cmp n i (es[i := elm])"
  shows "\<exists>es' j. pq_siftup cmp es (of_nat i) elm = Some (es', of_nat j) \<and> j < n \<and> length es' = length es \<and>
    heap_ok cmp n (es'[j := elm]) \<and> mset (take n (es'[j := elm])) = mset (take n (es[i := elm]))"
  using assms
proof (induction i arbitrary: es rule: less_induct)
  case (less i)
  show ?case
  proof (cases "i = 0 \<or> \<not> cmp (es ! par i) elm")
    case True
    have "heap_ok cmp n (es[i := elm])"
      unfolding heap_ok_def
    proof (intro allI impI)
      fix k assume k: "0 < k \<and> k < n"
      show "\<not> cmp (es[i := elm] ! par k) (es[i := elm] ! k)"
      proof (cases "k = i")
        case True
        with k less.prems \<open>i = 0 \<or> \<not> cmp (es ! par i) elm\<close> par_less [of i] show ?thesis by auto
      next
        case False
        with k less.prems(4) show ?thesis by (simp add: up_hole_def)
      qed
    qed
    moreover have "pq_siftup cmp es (of_nat i) elm = Some (es, of_nat i)"
    proof (cases "i = 0")
      case False
      then have "par i < length es" "par i < 2 ^ 32" using less.prems par_less [of i] by auto
      with less.prems False True show ?thesis
        by (subst pq_siftup.simps) (auto simp: unat_parent)
    qed (simp add: pq_siftup.simps)
    ultimately show ?thesis using less.prems by blast
  next
    case False
    let ?es = "es[i := es ! par i]"
    have i: "0 < i" "cmp (es ! par i) elm" "par i < i" "i < 2 ^ 32" using False less.prems par_less [of i] by auto
    have "of_nat i \<noteq> (0 :: u32)" using i by (simp add: of_nat_eq_zero)
    then have run: "pq_siftup cmp es (of_nat i) elm = pq_siftup cmp ?es (of_nat (par i)) elm"
      using i less.prems by (subst pq_siftup.simps) (simp add: unat_parent)
    have hole: "up_hole cmp n (par i) (?es[par i := elm])"
      using up_hole_step [OF less.prems(4) i(1) less.prems(1,2) i(2)] .
    have "mset (take n (?es[par i := elm])) = mset (take n (es[i := elm]))"
      using swap_mset [of i n "par i" es elm] i less.prems by simp
    with less.IH [OF i(3) _ _ less.prems(3) hole] i less.prems show ?thesis unfolding run by auto
  qed
qed

lemma down_hole_step:
  assumes "down_hole cmp n i (es[i := elm])" and "i < n" and "c < n" and "0 < c" and "par c = i" and "n \<le> length es"
    and "cmp elm (es ! c)" and least: "\<And>k. 0 < k \<Longrightarrow> k < n \<Longrightarrow> par k = i \<Longrightarrow> \<not> cmp (es ! c) (es ! k)"
  shows "down_hole cmp n c (es[i := es ! c, c := elm])"
proof -
  let ?old = "es[i := elm]" and ?new = "es[i := es ! c, c := elm]"
  have le: "i < c" using assms par_less by auto
  have old: "\<not> cmp (?old ! par k) (?old ! k)" if "0 < k" "k < n" "par k \<noteq> i" for k
    using assms(1) that by (simp add: down_hole_def)
  have gap: "\<not> cmp (?old ! par i) (?old ! k)" if "0 < i" "0 < k" "k < n" "par k = i" for k
    using assms(1) that by (auto simp: down_hole_def across_hole_def)
  have "\<not> cmp (?new ! par k) (?new ! k)" if k: "0 < k" "k < n" "par k \<noteq> c" for k
  proof -
    have lt: "par k < k" using k par_less by simp
    consider "k = c" | "k = i" | "par k = i" "k \<noteq> c" | "k \<noteq> c" "k \<noteq> i" "par k \<noteq> i" by blast
    then show ?thesis
    proof cases
      case 1
      then show ?thesis using asym [OF assms(7)] assms le by simp
    next
      case 2
      then show ?thesis using gap [of c] k lt assms le by simp
    next
      case 3
      then show ?thesis using least [OF k(1,2)] lt assms le k by simp
    next
      case 4
      then show ?thesis using old [OF k(1,2)] k lt assms le by simp
    qed
  qed
  moreover have "\<not> cmp (?new ! par c) (?new ! k)" if "0 < k" "k < n" "par k = c" for k
    using old [of k] that par_less [of k] le assms by simp
  ultimately show ?thesis unfolding down_hole_def across_hole_def by blast
qed

text \<open>The child that \<open>siftdown_\<close> compares with is the one that belongs higher.\<close>

lemma higher_child_ok:
  assumes "2 * i + 1 < n" and "n \<le> length es" and "n \<le> 2 ^ 31"
  shows "\<exists>c. higher_child cmp es (of_nat n) (of_nat i) = Some (of_nat c) \<and> c < n \<and> 0 < c \<and> par c = i \<and>
    (\<forall>k. 0 < k \<and> k < n \<and> par k = i \<longrightarrow> \<not> cmp (es ! c) (es ! k))"
proof -
  have kids: "0 < k \<Longrightarrow> par k = i \<longleftrightarrow> k = 2 * i + 1 \<or> k = 2 * i + 2" for k by (rule par_child)
  have next_kid: "PQ_LEFT (of_nat i) + 1 = of_nat (2 * i + 2)" by (simp add: PQ_LEFT_def)
  let ?c = "if 2 * i + 2 < n \<and> cmp (es ! (2 * i + 1)) (es ! (2 * i + 2)) then 2 * i + 2 else 2 * i + 1"
  have "higher_child cmp es (of_nat n) (of_nat i) = Some (of_nat ?c)"
    unfolding higher_child_def Let_def next_kid unfolding left_of_nat
    using assms by (simp add: of_nat_less del: of_nat_add of_nat_mult of_nat_Suc of_nat_numeral)
  moreover have "\<not> cmp (es ! ?c) (es ! k)" if "0 < k" "k < n" "par k = i" for k
    using that asym irrefl kids [of k] by (auto split: if_splits)
  ultimately show ?thesis using assms(1) kids [of ?c] by (intro exI [of _ ?c]) auto
qed

lemma siftdown_ok:
  assumes "i < n" and "n \<le> length es" and "n \<le> 2 ^ 31" and "down_hole cmp n i (es[i := elm])"
  shows "\<exists>es' j. pq_siftdown cmp es (of_nat n) (of_nat i) elm = Some (es', of_nat j) \<and> j < n \<and> length es' = length es \<and>
    heap_ok cmp n (es'[j := elm]) \<and> mset (take n (es'[j := elm])) = mset (take n (es[i := elm]))"
  using assms
proof (induction "n - i" arbitrary: i es rule: less_induct)
  case less
  have left: "PQ_LEFT (of_nat i) < of_nat n \<longleftrightarrow> 2 * i + 1 < n"
    unfolding left_of_nat using less.prems by (simp add: of_nat_less del: of_nat_add of_nat_mult of_nat_Suc of_nat_numeral)
  show ?case
  proof (cases "2 * i + 1 < n")
    case False
    then have "par k \<noteq> i" if "0 < k" "k < n" for k using that par_child [of k i] by auto
    with less.prems(4) have "heap_ok cmp n (es[i := elm])" unfolding heap_ok_def down_hole_def by blast
    with False less.prems left show ?thesis by (subst pq_siftdown.simps) auto
  next
    case True
    obtain c where c: "higher_child cmp es (of_nat n) (of_nat i) = Some (of_nat c)" "c < n" "0 < c" "par c = i"
        "\<And>k. 0 < k \<Longrightarrow> k < n \<Longrightarrow> par k = i \<Longrightarrow> \<not> cmp (es ! c) (es ! k)"
      using higher_child_ok [OF True less.prems(2,3)] by blast
    then have le: "i < c" using par_less [of c] by simp
    have b: "c < 2 ^ 32" "i < 2 ^ 32" "c < length es" "i < length es" using c less.prems by auto
    show ?thesis
    proof (cases "cmp elm (es ! c)")
      case False
      have "\<not> cmp (es[i := elm] ! par k) (es[i := elm] ! k)" if k: "0 < k" "k < n" for k
      proof (cases "par k = i")
        case True
        have "\<not> cmp elm (es ! k)" using below_trans [OF False c(5) [OF k True]] .
        with True k less.prems par_less [of k] show ?thesis by simp
      qed (use k less.prems(4) in \<open>simp add: down_hole_def\<close>)
      then have "heap_ok cmp n (es[i := elm])" by (simp add: heap_ok_def)
      moreover have "pq_siftdown cmp es (of_nat n) (of_nat i) elm = Some (es, of_nat i)"
        using left True c b False by (subst pq_siftdown.simps) simp
      ultimately show ?thesis using less.prems by blast
    next
      case swap: True
      let ?es = "es[i := es ! c]"
      have run: "pq_siftdown cmp es (of_nat n) (of_nat i) elm = pq_siftdown cmp ?es (of_nat n) (of_nat c) elm"
        using left True c b swap by (subst pq_siftdown.simps) simp
      have hole: "down_hole cmp n c (?es[c := elm])"
        using down_hole_step [OF less.prems(4,1) c(2,3,4) less.prems(2) swap c(5)] .
      have "mset (take n (?es[c := elm])) = mset (take n (es[i := elm]))"
        using swap_mset [of i n c es elm] le c less.prems by simp
      with less.hyps [of c ?es, OF _ c(2) _ less.prems(3) hole] le c(2) less.prems show ?thesis unfolding run by auto
    qed
  qed
qed

lemma enqueue_ok:
  assumes "pq_ok cmp q" and "pq_nr q < pq_max q"
  shows "\<exists>q'. pq_enqueue cmp e q = Some (q', True) \<and> pq_ok cmp q' \<and> pq_bag q' = add_mset e (pq_bag q) \<and>
    pq_max q' = pq_max q \<and> pq_nr q' = pq_nr q + 1"
proof -
  define n where "n = unat (pq_nr q)"
  have nr: "pq_nr q = of_nat n" by (simp add: n_def)
  let ?es = "pq_entry q"
  have n: "n < length ?es" "Suc n \<le> 2 ^ 31" "unat (pq_max q) = length ?es"
    using assms by (auto simp: pq_ok_def n_def word_less_nat_alt)
  have heap: "heap_ok cmp n ?es" using assms by (simp add: pq_ok_def n_def)
  have "up_hole cmp (Suc n) n (?es[n := e])"
  proof -
    have "\<not> cmp (?es[n := e] ! par k) (?es[n := e] ! k)" if "0 < k" "k < n" for k
      using heap that par_less [of k] by (simp add: heap_ok_def)
    moreover have "par k \<noteq> n" if "0 < k" "k < Suc n" for k using that par_less [of k] by simp
    ultimately show ?thesis by (auto simp: up_hole_def across_hole_def less_Suc_eq)
  qed
  from siftup_ok [OF _ _ n(2) this] n obtain es' j where s: "pq_siftup cmp ?es (of_nat n) e = Some (es', of_nat j)"
      "j < Suc n" "length es' = length ?es" "heap_ok cmp (Suc n) (es'[j := e])"
      "mset (take (Suc n) (es'[j := e])) = mset (take (Suc n) (?es[n := e]))" by auto
  have sn: "unat (of_nat n + 1 :: u32) = Suc n" using n by (intro unat_Suc_nat) simp
  have "pq_enqueue cmp e q = Some (q\<lparr>pq_nr := pq_nr q + 1, pq_entry := es'[j := e]\<rparr>, True)"
    using assms(2) s n by (simp add: pq_enqueue_def nr)
  moreover have "pq_nr q + 1 \<le> pq_max q" using assms(2) by (simp add: word_le_nat_alt nr sn n) (use n in simp)
  ultimately show ?thesis
    using s n assms(1) sn take_put [of n ?es e] by (auto simp: pq_ok_def pq_bag_def nr unat_of_nat)
qed

lemma heap_first:
  assumes "heap_ok cmp n xs" and "k < n"
  shows "\<not> cmp (xs ! 0) (xs ! k)"
  using assms(2)
proof (induction k rule: less_induct)
  case (less k)
  show ?case
  proof (cases "k = 0")
    case False
    then have "par k < k" "\<not> cmp (xs ! par k) (xs ! k)" using assms(1) less.prems par_less by (auto simp: heap_ok_def)
    with less below_trans show ?thesis by (meson less_trans)
  qed (simp add: irrefl)
qed

lemma hole_after_remove:
  assumes "heap_ok cmp (Suc n) es" and "i < n" and "n < length es"
  shows "if 0 < i \<and> cmp (es ! par i) (es ! n) then up_hole cmp n i (es[i := es ! n]) else down_hole cmp n i (es[i := es ! n])"
proof -
  have heap: "\<not> cmp (es ! par k) (es ! k)" if "0 < k" "k < n" for k using assms that by (simp add: heap_ok_def)
  have across: "\<not> cmp (es ! par i) (es ! k)" if "0 < i" "0 < k" "k < n" "par k = i" for k
    using below_trans [OF heap [OF that(1) assms(2)]] heap [OF that(2,3)] that(4) by auto
  have "across_hole cmp n i (es[i := es ! n])"
    using across par_less by (fastforce simp: across_hole_def)
  moreover have "\<not> cmp (es[i := es ! n] ! par k) (es[i := es ! n] ! k)"
    if up: "0 < i" "cmp (es ! par i) (es ! n)" and k: "0 < k" "k < n" "k \<noteq> i" for k
  proof (cases "par k = i")
    case True
    then show ?thesis using below_trans [OF asym [OF up(2)] across [OF up(1) k(1,2) True]] k assms by simp
  qed (use heap [OF k(1,2)] k in simp)
  moreover have "\<not> cmp (es[i := es ! n] ! par k) (es[i := es ! n] ! k)"
    if "\<not> (0 < i \<and> cmp (es ! par i) (es ! n))" and "0 < k" "k < n" "par k \<noteq> i" for k
    using that heap [OF that(2,3)] assms by (cases "k = i") auto
  ultimately show ?thesis unfolding up_hole_def down_hole_def by simp
qed

lemma remove_ok:
  assumes "pq_ok cmp q" and "i < pq_nr q"
  shows "\<exists>q'. pq_remove cmp i q = Some (q', Some (pq_entry q ! unat i)) \<and> pq_ok cmp q' \<and>
    pq_bag q' = pq_bag q - {#pq_entry q ! unat i#} \<and> pq_max q' = pq_max q \<and> pq_nr q' = pq_nr q - 1"
proof -
  define n j where "n = unat (pq_nr q - 1)" and "j = unat i"
  have nr: "pq_nr q - 1 = of_nat n" and i: "i = of_nat j" by (simp_all add: n_def j_def)
  let ?es = "pq_entry q"
  have "0 < unat (pq_nr q)" using assms(2) by (auto simp: word_less_nat_alt)
  moreover have "pq_nr q \<noteq> 0" using assms(2) by auto
  from unat_minus_one [OF this] have "n = unat (pq_nr q) - 1" by (simp add: n_def)
  ultimately have sn: "unat (pq_nr q) = Suc n" by linarith
  then have n: "n < length ?es" "Suc n \<le> 2 ^ 31" "unat (pq_max q) = length ?es" "j \<le> n" "heap_ok cmp (Suc n) ?es"
    using assms by (auto simp: pq_ok_def j_def word_less_nat_alt word_le_nat_alt)
  have fits: "pq_nr q - 1 \<le> pq_max q" using n by (simp add: word_le_nat_alt n_def [symmetric])
  have bag: "pq_bag q = mset (take (Suc n) ?es)" by (simp add: pq_bag_def sn)
  have eq_n: "i = of_nat n \<longleftrightarrow> j = n" using n by (simp add: i word_unat_eq_iff unat_of_nat)
  have at: "entry_at ?es i = Some (?es ! j)" using n by (simp add: i)
  have pos: "\<not> pq_nr q \<le> i" using assms(2) by simp
  have pos': "0 < i \<longleftrightarrow> 0 < j" by (simp add: j_def word_less_nat_alt)
  show ?thesis
  proof (cases "j = n")
    case True
    then have "pq_remove cmp i q = Some (q\<lparr>pq_nr := pq_nr q - 1\<rparr>, Some (?es ! j))"
      using pos at eq_n by (simp add: pq_remove_def Let_def nr)
    moreover have "heap_ok cmp n ?es" using n by (simp add: heap_ok_def)
    ultimately show ?thesis
      using True n fits assms(1) by (auto simp: pq_ok_def pq_bag_def n_def [symmetric] sn take_Suc_conv_app_nth j_def)
  next
    case False
    then have j: "j < n" using n by simp
    let ?last = "?es ! n"
    have par: "par j < length ?es" "par j < 2 ^ 32" "0 < j \<Longrightarrow> PQ_PARENT i = of_nat (par j)"
      using j n par_less [of j] by (auto simp: i unat_parent par_def)
    let ?up = "0 < j \<and> cmp (?es ! par j) ?last"
    have "\<exists>es' k. (if ?up then pq_siftup cmp ?es i ?last else pq_siftdown cmp ?es (of_nat n) i ?last) = Some (es', of_nat k) \<and>
        k < n \<and> length es' = length ?es \<and> heap_ok cmp n (es'[k := ?last]) \<and>
        mset (take n (es'[k := ?last])) = mset (take n (?es[j := ?last]))"
    proof (cases ?up)
      case True
      with hole_after_remove [OF n(5) j n(1)] siftup_ok [OF j, of ?es ?last] n show ?thesis by (simp add: i)
    next
      case False
      then have "down_hole cmp n j (?es[j := ?last])" using hole_after_remove [OF n(5) j n(1)] by (simp split: if_splits)
      with siftdown_ok [OF j, of ?es ?last] n show ?thesis unfolding if_not_P [OF False] by (simp add: i)
    qed
    then obtain es' k where s: "(if ?up then pq_siftup cmp ?es i ?last else pq_siftdown cmp ?es (of_nat n) i ?last) = Some (es', of_nat k)"
        "k < n" "length es' = length ?es" "heap_ok cmp n (es'[k := ?last])"
        "mset (take n (es'[k := ?last])) = mset (take n (?es[j := ?last]))" by blast
    have "pq_remove cmp i q = Some (q\<lparr>pq_nr := pq_nr q - 1, pq_entry := es'[k := ?last]\<rparr>, Some (?es ! j))"
      using s(1-3) n j False pos pos' at eq_n par
      by (cases "0 < j"; cases "cmp (?es ! par j) ?last") (simp_all add: pq_remove_def Let_def nr)
    then show ?thesis
      using s n j fits assms(1) take_drop_one [OF j n(1)] bag by (auto simp: pq_ok_def pq_bag_def n_def [symmetric] j_def)
  qed
qed

lemma dequeue_ok:
  assumes "pq_ok cmp q" and "pq_bag q \<noteq> {#}"
  shows "\<exists>q' e. pq_dequeue cmp q = Some (q', Some e) \<and> pq_top q = Some e \<and> pq_ok cmp q' \<and> e \<in># pq_bag q \<and>
    (\<forall>x \<in># pq_bag q. \<not> cmp e x) \<and> pq_bag q' = pq_bag q - {#e#}"
proof -
  let ?n = "unat (pq_nr q)" and ?e = "pq_entry q ! 0"
  have n: "?n \<le> length (pq_entry q)" "heap_ok cmp ?n (pq_entry q)"
    using assms(1) by (auto simp: pq_ok_def word_le_nat_alt)
  have "pq_nr q \<noteq> 0" using assms(2) by (auto simp: pq_bag_def)
  then have pos: "0 < pq_nr q" "0 < ?n" by (simp_all add: word_neq_0_conv word_less_nat_alt)
  have "\<not> cmp ?e x" if "x \<in># pq_bag q" for x
    using that heap_first [OF n(2)] n(1) by (auto simp: pq_bag_def in_set_conv_nth)
  moreover have "?e \<in># pq_bag q" using pos n(1) by (auto simp: pq_bag_def in_set_conv_nth intro!: exI [of _ 0])
  moreover have "pq_top q = Some ?e" using pos n(1) by (auto simp: pq_top_def pq_peek_def entry_at_def)
  ultimately show ?thesis using remove_ok [OF assms(1) pos(1)] by (auto simp: pq_dequeue_def)
qed

lemma is_valid_iff:
  assumes "unat (pq_nr q) \<le> 2 ^ 31"
  shows "pq_is_valid cmp q \<longleftrightarrow> heap_ok cmp (unat (pq_nr q)) (pq_entry q)"
proof -
  have "unat (PQ_PARENT (of_nat k)) = par k" if "0 < k" "k < unat (pq_nr q)" for k
    using that assms par_less [of k] by (simp add: unat_parent unat_of_nat)
  then show ?thesis by (auto simp: pq_is_valid_def heap_ok_def list_all_iff)
qed

end

section \<open>The contract of a priority queue\<close>

text \<open>
  What a client relies on, over the multiset of what the queue holds. Draining the queue gives its
  contents in order.
\<close>

locale priority_queue =
  fixes valid :: "'q \<Rightarrow> bool"
    and bag :: "'q \<Rightarrow> 'e multiset"
    and room :: "'q \<Rightarrow> bool"
    and cmp :: "'e \<Rightarrow> 'e \<Rightarrow> bool"
    and enq :: "'e \<Rightarrow> 'q \<Rightarrow> ('q \<times> bool) option"
    and deq :: "'q \<Rightarrow> ('q \<times> 'e option) option"
    and top :: "'q \<Rightarrow> 'e option"
  assumes enq_room: "valid q \<Longrightarrow> room q \<Longrightarrow>
      \<exists>q'. enq e q = Some (q', True) \<and> valid q' \<and> bag q' = add_mset e (bag q)"
    and enq_full: "valid q \<Longrightarrow> \<not> room q \<Longrightarrow> enq e q = Some (q, False)"
    and deq_least: "valid q \<Longrightarrow> bag q \<noteq> {#} \<Longrightarrow>
      \<exists>q' e. deq q = Some (q', Some e) \<and> top q = Some e \<and> valid q' \<and> e \<in># bag q \<and>
        (\<forall>x \<in># bag q. \<not> cmp e x) \<and> bag q' = bag q - {#e#}"
    and deq_empty: "valid q \<Longrightarrow> bag q = {#} \<Longrightarrow> deq q = Some (q, None) \<and> top q = None"
begin

fun drain :: "nat \<Rightarrow> 'q \<Rightarrow> ('q \<times> 'e list) option" where
  "drain 0 q = Some (q, [])"
| "drain (Suc n) q =
    (case deq q of
       None \<Rightarrow> None
     | Some (q', None) \<Rightarrow> Some (q', [])
     | Some (q', Some e) \<Rightarrow> (case drain n q' of None \<Rightarrow> None | Some (q'', es) \<Rightarrow> Some (q'', e # es)))"

lemma drain_sorted:
  assumes "valid q"
  shows "\<exists>q' es. drain (size (bag q)) q = Some (q', es) \<and> valid q' \<and> bag q' = {#} \<and> mset es = bag q \<and>
    sorted_wrt (\<lambda>a b. \<not> cmp a b) es"
  using assms
proof (induction "size (bag q)" arbitrary: q)
  case 0
  then show ?case by simp
next
  case (Suc n)
  then have "bag q \<noteq> {#}" by auto
  with deq_least [OF Suc.prems] obtain q' e where d: "deq q = Some (q', Some e)" "valid q'" "e \<in># bag q"
      "\<forall>x \<in># bag q. \<not> cmp e x" "bag q' = bag q - {#e#}" by blast
  then have n: "n = size (bag q')" using Suc.hyps(2) by (simp add: size_Diff_singleton)
  from Suc.hyps(1) [OF n d(2)] obtain q'' es where s: "drain (size (bag q')) q' = Some (q'', es)" "valid q''" "bag q'' = {#}"
      "mset es = bag q'" "sorted_wrt (\<lambda>a b. \<not> cmp a b) es" by blast
  have "\<not> cmp e x" if "x \<in> set es" for x
  proof -
    have "x \<in># bag q - {#e#}" using that s(4) d(5) by (metis set_mset_mset)
    then show ?thesis using d(4) by (meson in_diffD)
  qed
  with s d show ?case by (simp add: Suc.hyps(2) [symmetric] n)
qed

lemma enq_all:
  assumes "valid q" and "\<And>q e q'. valid q \<Longrightarrow> enq e q = Some (q', True) \<Longrightarrow> left q = Suc (left q')"
    and "\<And>q. valid q \<Longrightarrow> room q \<longleftrightarrow> 0 < left q" and "length es \<le> left q"
  shows "\<exists>q'. fold (\<lambda>e s. Option.bind s (\<lambda>q. map_option fst (enq e q))) es (Some q) = Some q' \<and> valid q' \<and>
    bag q' = bag q + mset es"
  using assms(1,4)
proof (induction es arbitrary: q)
  case (Cons e es)
  then have "room q" using assms(3) by (auto simp: Suc_le_eq)
  from enq_room [OF Cons.prems(1) this] obtain q' where e: "enq e q = Some (q', True)" "valid q'" "bag q' = add_mset e (bag q)" by blast
  with Cons.IH [OF e(2)] assms(2) [OF Cons.prems(1) e(1)] Cons.prems(2) show ?case by auto
qed simp

end

text \<open>An array heap over any such order is a priority queue.\<close>

sublocale pq_order \<subseteq> heap: priority_queue "pq_ok cmp" pq_bag "\<lambda>q. pq_nr q < pq_max q" cmp
  "pq_enqueue cmp" "pq_dequeue cmp" pq_top
proof (unfold_locales, goal_cases)
  case (1 q e)
  then show ?case using enqueue_ok by blast
next
  case (2 q e)
  then show ?case by (simp add: pq_enqueue_def not_less)
next
  case (3 q)
  then show ?case by (rule dequeue_ok)
next
  case (4 q)
  then have "pq_nr q = 0"
    by (auto simp: pq_ok_def pq_bag_def word_le_nat_alt unat_eq_0)
  then show ?case by (simp add: pq_dequeue_def pq_remove_def pq_top_def pq_peek_def)
qed

end
