(* ===== verification/Iox_Timer.thy ===== *)
theory Iox_Timer
  imports Iox_Pq
begin

text \<open>
  The one-shot timers of \<open>iox/iox_timer.c\<close>, a client of the priority queue: entries ordered by their
  deadline, cancelled by identifier, fired by \<open>iox_timer_dispatch\<close> when they are due. The file's
  static variables are the state. A clock reading is an argument of the call that takes it, and what
  the allocator answers is another; \<open>tm_ub\<close> is raised where \<open>next_id++\<close> overflows.
\<close>

section \<open>State and operations\<close>

record ('c, 'a) iox_timer_entry =
  te_deadline_ns :: int
  te_cb :: "'c option"
  te_arg :: 'a
  te_id :: int

definition timer_later :: "('c, 'a) iox_timer_entry \<Rightarrow> ('c, 'a) iox_timer_entry \<Rightarrow> bool" where
  "timer_later a b \<longleftrightarrow> te_deadline_ns a > te_deadline_ns b"

record ('c, 'a) iox_timers =
  tm_pq :: "('c, 'a) iox_timer_entry pq"
  tm_next_id :: int
  tm_initialized :: bool
  tm_ub :: bool

definition IOX_MAX_TIMERS :: u32 where
  "IOX_MAX_TIMERS = 16"

definition iox_timer_init :: "bool \<Rightarrow> ('c, 'a) iox_timer_entry \<Rightarrow> ('c, 'a) iox_timers \<Rightarrow> ('c, 'a) iox_timers" where
  "iox_timer_init alloc zero s =
    (if tm_initialized s then s
     else s\<lparr>tm_pq := fst (pq_init alloc zero IOX_MAX_TIMERS), tm_next_id := 0, tm_initialized := True\<rparr>)"

definition iox_timer_shutdown :: "('c, 'a) iox_timers \<Rightarrow> ('c, 'a) iox_timers" where
  "iox_timer_shutdown s =
    (if \<not> tm_initialized s then s else s\<lparr>tm_pq := pq_free (tm_pq s), tm_initialized := False\<rparr>)"

definition iox_timer_add ::
  "int \<Rightarrow> bool \<Rightarrow> (nat \<Rightarrow> ('c, 'a) iox_timer_entry) \<Rightarrow> int \<Rightarrow> 'c option \<Rightarrow> 'a \<Rightarrow> ('c, 'a) iox_timers \<Rightarrow>
   (('c, 'a) iox_timers \<times> int) option" where
  "iox_timer_add now alloc junk ms cb arg s =
    (if \<not> tm_initialized s then Some (s, -1)
     else
       let e = \<lparr>te_deadline_ns = now + ms * 1000000, te_cb = cb, te_arg = arg, te_id = tm_next_id s\<rparr>;
           s1 = s\<lparr>tm_next_id := tm_next_id s + 1, tm_ub := tm_ub s \<or> 2 ^ 31 - 1 \<le> tm_next_id s\<rparr> in
       do {
         (q, ok) \<leftarrow> pq_enqueue timer_later e (tm_pq s1);
         if ok then Some (s1\<lparr>tm_pq := q\<rparr>, te_id e)
         else
           let (q1, grown) = pq_resize alloc junk (pq_max q * 2) q in
           if \<not> grown then Some (s1\<lparr>tm_pq := q1\<rparr>, -1)
           else do {
             (q2, ok2) \<leftarrow> pq_enqueue timer_later e q1;
             Some (s1\<lparr>tm_pq := q2\<rparr>, if ok2 then te_id e else -1) } })"

definition timer_index :: "int \<Rightarrow> ('c, 'a) iox_timer_entry pq \<Rightarrow> nat option" where
  "timer_index ident q =
    find (\<lambda>idx. case pq_peek (of_nat idx) q of Some e \<Rightarrow> te_id e = ident | None \<Rightarrow> False) [0..<nat (sint (pq_size q))]"

definition iox_timer_remove :: "int \<Rightarrow> ('c, 'a) iox_timers \<Rightarrow> ('c, 'a) iox_timers option" where
  "iox_timer_remove ident s =
    (if \<not> tm_initialized s then Some s
     else case timer_index ident (tm_pq s) of
       None \<Rightarrow> Some s
     | Some idx \<Rightarrow> do { (q, _) \<leftarrow> pq_remove timer_later (of_nat idx) (tm_pq s); Some (s\<lparr>tm_pq := q\<rparr>) })"

definition c_div :: "int \<Rightarrow> int \<Rightarrow> int" where
  "c_div a b = sgn a * sgn b * (\<bar>a\<bar> div \<bar>b\<bar>)"

definition iox_timer_next_ms :: "int \<Rightarrow> ('c, 'a) iox_timers \<Rightarrow> int" where
  "iox_timer_next_ms now s =
    (if \<not> tm_initialized s then -1
     else case pq_top (tm_pq s) of
       None \<Rightarrow> -1
     | Some first \<Rightarrow>
         let diff = c_div (te_deadline_ns first - now + 999999) 1000000;
             diff = (if diff < 0 then 0 else diff) in
         if 0x7FFFFFFF < diff then 0x7FFFFFFF else diff)"

text \<open>
  A callback may add and remove timers, so it acts on the timers and on the rest \<open>'w\<close> of the world.
  The loop ends when nothing is due; a callback that keeps arming due timers keeps it running.
\<close>

partial_function (option) dispatch_loop ::
  "('c \<Rightarrow> 'a \<Rightarrow> ('c, 'a) iox_timers \<times> 'w \<Rightarrow> ('c, 'a) iox_timers \<times> 'w) \<Rightarrow> int \<Rightarrow> ('c, 'a) iox_timers \<times> 'w \<Rightarrow>
   (('c, 'a) iox_timers \<times> 'w) option" where
  "dispatch_loop run t sw =
    (case pq_top (tm_pq (fst sw)) of
       None \<Rightarrow> Some sw
     | Some first \<Rightarrow>
         if te_deadline_ns first \<le> t
         then do {
           (q, r) \<leftarrow> pq_dequeue timer_later (tm_pq (fst sw));
           e \<leftarrow> r;
           let sw1 = ((fst sw)\<lparr>tm_pq := q\<rparr>, snd sw);
           dispatch_loop run t (case te_cb e of Some cb \<Rightarrow> run cb (te_arg e) sw1 | None \<Rightarrow> sw1) }
         else Some sw)"

definition iox_timer_dispatch ::
  "('c \<Rightarrow> 'a \<Rightarrow> ('c, 'a) iox_timers \<times> 'w \<Rightarrow> ('c, 'a) iox_timers \<times> 'w) \<Rightarrow> int \<Rightarrow> ('c, 'a) iox_timers \<times> 'w \<Rightarrow>
   (('c, 'a) iox_timers \<times> 'w) option" where
  "iox_timer_dispatch run now sw = (if \<not> tm_initialized (fst sw) then Some sw else dispatch_loop run now sw)"

section \<open>The order of deadlines\<close>

interpretation tq: pq_order timer_later
  by unfold_locales (auto simp: timer_later_def)

text \<open>
  The timers are well formed: the array is a heap whose capacity, doubled from 16, is a power of two up to
  \<open>2 ^ 31\<close> (or 0, where the first allocation failed), and the identifiers in use are distinct and were handed out before
  \<open>next_id\<close>.
\<close>

definition timer_heap :: "('c, 'a) iox_timers \<Rightarrow> bool" where
  "timer_heap s \<longleftrightarrow> pq_ok timer_later (tm_pq s) \<and> (pq_max (tm_pq s) = 0 \<or> (\<exists>j \<le> 31. unat (pq_max (tm_pq s)) = 2 ^ j))"

definition timer_ids :: "('c, 'a) iox_timers \<Rightarrow> int multiset" where
  "timer_ids s = image_mset te_id (pq_bag (tm_pq s))"

definition timers_ok :: "('c, 'a) iox_timers \<Rightarrow> bool" where
  "timers_ok s \<longleftrightarrow> tm_initialized s \<and> timer_heap s \<and> (\<forall>i. count (timer_ids s) i \<le> 1) \<and>
     (\<forall>i \<in># timer_ids s. i < tm_next_id s)"

definition due_timers :: "int \<Rightarrow> ('c, 'a) iox_timers \<Rightarrow> ('c, 'a) iox_timer_entry multiset" where
  "due_timers t s = filter_mset (\<lambda>e. te_deadline_ns e \<le> t) (pq_bag (tm_pq s))"

section \<open>The heap sorts\<close>

lemma fresh_queue:
  assumes "m \<le> 2 ^ 31"
  shows "pq_ok timer_later (fst (pq_init True z m)) \<and> pq_bag (fst (pq_init True z m)) = {#} \<and> pq_max (fst (pq_init True z m)) = m \<and>
    pq_nr (fst (pq_init True z m)) = 0"
  using assms by (simp add: pq_init_def pq_ok_def pq_bag_def heap_ok_def word_le_nat_alt)

text \<open>
  C26. The priority queue sorts. Entries inserted one by one into a fresh queue of capacity up to \<open>2 ^ 31\<close>
  leave an array that \<open>is_valid\<close> accepts, and removing as many gives each of them back exactly once in order
  of deadline. No access leaves the array, no index wraps and every loop ends.
\<close>

theorem heap_sorts:
  fixes es :: "('c, 'a) iox_timer_entry list"
  assumes "m \<le> 2 ^ 31" and "length es \<le> unat m"
  shows "\<exists>q q' out. fold (\<lambda>e s. Option.bind s (\<lambda>q. map_option fst (pq_enqueue timer_later e q))) es
      (Some (fst (pq_init True z m))) = Some q \<and> pq_is_valid timer_later q \<and>
    tq.heap.drain (length es) q = Some (q', out) \<and> mset out = mset es \<and> pq_bag q' = {#} \<and>
    sorted_wrt (\<lambda>a b. te_deadline_ns a \<le> te_deadline_ns b) out"
proof -
  let ?q0 = "fst (pq_init True z m)"
  let ?left = "\<lambda>q :: ('c, 'a) iox_timer_entry pq. unat (pq_max q) - unat (pq_nr q)"
  have "?left q = Suc (?left q')" if "pq_ok timer_later q" "pq_enqueue timer_later e q = Some (q', True)" for q q' e
  proof (cases "pq_nr q < pq_max q")
    case True
    then have "unat (pq_nr q + 1) = Suc (unat (pq_nr q))"
      using that(1) unat_Suc_nat [of "unat (pq_nr q)"] by (simp add: pq_ok_def word_less_nat_alt)
    then show ?thesis using tq.enqueue_ok [OF that(1) True, of e] that(2) True by (auto simp: word_less_nat_alt)
  qed (use that in \<open>simp add: pq_enqueue_def not_less\<close>)
  moreover have "pq_nr q < pq_max q \<longleftrightarrow> 0 < ?left q" for q by (auto simp: word_less_nat_alt)
  ultimately obtain q where q: "fold (\<lambda>e s. Option.bind s (\<lambda>q. map_option fst (pq_enqueue timer_later e q))) es (Some ?q0) = Some q"
      "pq_ok timer_later q" "pq_bag q = mset es"
    using tq.heap.enq_all [of ?q0 ?left es] fresh_queue [OF assms(1), of z] assms(2) by auto
  have "unat (pq_nr q) \<le> 2 ^ 31" using q(2) by (simp add: pq_ok_def word_le_nat_alt)
  from tq.is_valid_iff [OF this] have "pq_is_valid timer_later q" using q(2) by (simp add: pq_ok_def)
  with q tq.heap.drain_sorted [OF q(2)] show ?thesis
    by (auto simp: timer_later_def not_less)
qed

definition sample_entries :: "(nat, nat) iox_timer_entry list" where
  "sample_entries = [\<lparr>te_deadline_ns = 9, te_cb = Some 0, te_arg = 1, te_id = 0\<rparr>,
     \<lparr>te_deadline_ns = 4, te_cb = Some 0, te_arg = 2, te_id = 1\<rparr>, \<lparr>te_deadline_ns = 7, te_cb = None, te_arg = 3, te_id = 2\<rparr>]"

theorem heap_sorts_witness:
  "\<exists>q q' out. fold (\<lambda>e s. Option.bind s (\<lambda>q. map_option fst (pq_enqueue timer_later e q))) sample_entries
      (Some (fst (pq_init True (hd sample_entries) IOX_MAX_TIMERS))) = Some q \<and>
    tq.heap.drain (length sample_entries) q = Some (q', out) \<and> mset out = mset sample_entries"
proof -
  have "IOX_MAX_TIMERS \<le> 2 ^ 31" "length sample_entries \<le> unat IOX_MAX_TIMERS"
    by (simp_all add: IOX_MAX_TIMERS_def sample_entries_def word_le_nat_alt)
  from heap_sorts [OF this, of "hd sample_entries"] show ?thesis by blast
qed

section \<open>Firing\<close>

lemma heap_pq [simp]: "timer_heap s \<Longrightarrow> pq_ok timer_later (tm_pq s)"
  by (simp add: timer_heap_def)

lemma remove_max: "pq_remove cmp i q = Some (q', r) \<Longrightarrow> pq_max q' = pq_max q"
  by (auto simp: pq_remove_def Let_def split: if_splits bind_splits)

lemma heap_remove:
  "timer_heap s \<Longrightarrow> pq_remove timer_later i (tm_pq s) = Some (q, r) \<Longrightarrow> pq_ok timer_later q \<Longrightarrow> timer_heap (s\<lparr>tm_pq := q\<rparr>)"
  using remove_max by (fastforce simp: timer_heap_def)

lemma top_least:
  assumes "pq_ok timer_later q" and "pq_top q = Some e"
  shows "e \<in># pq_bag q" and "\<And>x. x \<in># pq_bag q \<Longrightarrow> te_deadline_ns e \<le> te_deadline_ns x"
proof -
  have "pq_bag q \<noteq> {#}" using tq.heap.deq_empty [OF assms(1)] assms(2) by auto
  from tq.heap.deq_least [OF assms(1) this] assms(2)
  show "e \<in># pq_bag q" "\<And>x. x \<in># pq_bag q \<Longrightarrow> te_deadline_ns e \<le> te_deadline_ns x"
    by (auto simp: timer_later_def)
qed

definition fire_world :: "('c \<Rightarrow> 'a \<Rightarrow> 'w \<Rightarrow> 'w) \<Rightarrow> ('c, 'a) iox_timer_entry \<Rightarrow> 'w \<Rightarrow> 'w" where
  "fire_world act e w = (case te_cb e of Some cb \<Rightarrow> act cb (te_arg e) w | None \<Rightarrow> w)"

text \<open>Callbacks that keep the timers well formed and arm or cancel only timers that are not yet due.\<close>

definition later_only ::
  "int \<Rightarrow> ('c \<Rightarrow> 'a \<Rightarrow> ('c, 'a) iox_timers \<times> 'w \<Rightarrow> ('c, 'a) iox_timers \<times> 'w) \<Rightarrow> ('c \<Rightarrow> 'a \<Rightarrow> 'w \<Rightarrow> 'w) \<Rightarrow> bool" where
  "later_only t run act \<longleftrightarrow> (\<forall>cb a s w. timer_heap s \<longrightarrow>
     timer_heap (fst (run cb a (s, w))) \<and> due_timers t (fst (run cb a (s, w))) = due_timers t s \<and>
     snd (run cb a (s, w)) = act cb a w)"

lemma dispatch_loop_fires:
  assumes keeps: "later_only t run act"
    and "timer_heap s"
  shows "\<exists>fired s'. dispatch_loop run t (s, w) = Some (s', fold (fire_world act) fired w) \<and> mset fired = due_timers t s \<and>
    sorted_wrt (\<lambda>a b. te_deadline_ns a \<le> te_deadline_ns b) fired \<and> timer_heap s' \<and> due_timers t s' = {#}"
  using assms(2)
proof (induction "size (due_timers t s)" arbitrary: s w)
  case 0
  have "dispatch_loop run t (s, w) = Some (s, w)"
  proof (cases "pq_top (tm_pq s)")
    case (Some e)
    with top_least(1) [OF heap_pq [OF 0(2)] this] 0(1) show ?thesis
      by (subst dispatch_loop.simps) (auto simp: due_timers_def filter_mset_eq_conv)
  qed (subst dispatch_loop.simps, simp)
  with 0 show ?case by (intro exI [of _ "[]"] exI [of _ s]) simp
next
  case (Suc n)
  let ?q = "tm_pq s"
  have "due_timers t s \<noteq> {#}" using Suc.hyps(2) by auto
  then obtain d where d: "d \<in># pq_bag ?q" "te_deadline_ns d \<le> t" by (auto simp: due_timers_def)
  then have "pq_bag ?q \<noteq> {#}" by auto
  from tq.heap.deq_least [OF heap_pq [OF Suc.prems] this] obtain q' e where e: "pq_dequeue timer_later ?q = Some (q', Some e)"
      "pq_top ?q = Some e" "pq_ok timer_later q'" "e \<in># pq_bag ?q" "pq_bag q' = pq_bag ?q - {#e#}" by blast
  have least: "te_deadline_ns e \<le> te_deadline_ns x" if "x \<in># pq_bag ?q" for x
    using top_least(2) [OF heap_pq [OF Suc.prems] e(2) that] .
  then have le: "te_deadline_ns e \<le> t" using d by force
  define s1 where "s1 = s\<lparr>tm_pq := q'\<rparr>"
  have due1: "due_timers t s = add_mset e (due_timers t s1)"
    using e(4,5) le by (simp add: due_timers_def s1_def)
  have h1: "timer_heap s1" using heap_remove [OF Suc.prems] e(1,3) by (simp add: s1_def pq_dequeue_def)
  define s2 where "s2 = (case te_cb e of Some cb \<Rightarrow> fst (run cb (te_arg e) (s1, w)) | None \<Rightarrow> s1)"
  have s2: "timer_heap s2" "due_timers t s2 = due_timers t s1"
      "(case te_cb e of Some cb \<Rightarrow> run cb (te_arg e) (s1, w) | None \<Rightarrow> (s1, w)) = (s2, fire_world act e w)"
    using keeps h1 by (cases "te_cb e"; simp add: later_only_def s2_def fire_world_def prod_eq_iff)+
  have "n = size (due_timers t s2)" using Suc.hyps(2) due1 s2(2) by simp
  from Suc.hyps(1) [OF this s2(1), of "fire_world act e w"] obtain fired s' where
    f: "dispatch_loop run t (s2, fire_world act e w) = Some (s', fold (fire_world act) fired (fire_world act e w))"
      "mset fired = due_timers t s2" "sorted_wrt (\<lambda>a b. te_deadline_ns a \<le> te_deadline_ns b) fired"
      "timer_heap s'" "due_timers t s' = {#}" by blast
  have "dispatch_loop run t (s, w) = dispatch_loop run t (s2, fire_world act e w)"
    using e(1,2) le s2(3) [unfolded s1_def] by (subst dispatch_loop.simps) (simp add: Let_def)
  moreover have "te_deadline_ns e \<le> te_deadline_ns x" if "x \<in> set fired" for x
  proof -
    have "x \<in># due_timers t s" using that f(2) s2(2) due1 by (metis set_mset_mset union_single_eq_member insert_noteq_member add_mset_add_single union_iff)
    then show ?thesis using least by (simp add: due_timers_def)
  qed
  ultimately show ?case
    using f due1 s2(2) by (intro exI [of _ "e # fired"] exI [of _ s']) simp
qed

text \<open>
  C21. Timers fire when due, once, and in order. Whatever the callbacks do to the rest of the world, and
  whatever timers they arm for later than \<open>t\<close>, a dispatch at time \<open>t\<close> ends, has run exactly the timers
  whose deadline had passed, earliest deadline first, and leaves none that is due.
\<close>

theorem timers_fire_due:
  assumes "tm_initialized s" and "timer_heap s"
    and "later_only t run act"
  shows "\<exists>fired s'. iox_timer_dispatch run t (s, w) = Some (s', fold (fire_world act) fired w) \<and>
    mset fired = due_timers t s \<and> sorted_wrt (\<lambda>a b. te_deadline_ns a \<le> te_deadline_ns b) fired \<and> due_timers t s' = {#}"
  using dispatch_loop_fires [OF assms(3,2), of w] assms(1) by (auto simp: iox_timer_dispatch_def)

section \<open>Arming and cancelling\<close>

text \<open>Growing a full queue doubles it and keeps its contents.\<close>

lemma double_max:
  assumes "timer_heap s" and "pq_max (tm_pq s) \<noteq> 0" and "unat (pq_max (tm_pq s)) \<noteq> 2 ^ 31"
  shows "\<exists>j \<le> 31. 2 * unat (pq_max (tm_pq s)) = 2 ^ j" and "2 * unat (pq_max (tm_pq s)) \<le> 2 ^ 31"
    and "unat (pq_max (tm_pq s) * 2) = 2 * unat (pq_max (tm_pq s))" and "\<not> pq_max (tm_pq s) * 2 < pq_max (tm_pq s)"
    and "0 < pq_max (tm_pq s) * 2"
proof -
  let ?m = "pq_max (tm_pq s)"
  obtain j where j: "unat ?m = 2 ^ j" "j \<le> 31" using assms(1,2) by (auto simp: timer_heap_def)
  then have "Suc j \<le> 31" using assms(3) by (cases "j = 31") auto
  then show d: "\<exists>j \<le> 31. 2 * unat ?m = 2 ^ j" using j(1) by (metis power_Suc)
  then show d': "2 * unat ?m \<le> 2 ^ 31" by (metis one_le_numeral power_increasing)
  then show u: "unat (?m * 2) = 2 * unat ?m" by (simp add: unat_word_ariths mult.commute)
  have "0 < unat ?m" using assms(2) by (simp add: unat_gt_0)
  then show "\<not> ?m * 2 < ?m" "0 < ?m * 2" by (simp_all only: word_less_nat_alt u) simp_all
qed

lemma grow_ok:
  assumes "timer_heap s" and "pq_max (tm_pq s) \<le> pq_nr (tm_pq s)" and "pq_max (tm_pq s) \<noteq> 0" and "unat (pq_max (tm_pq s)) \<noteq> 2 ^ 31"
    and "pq_resize alloc junk (pq_max (tm_pq s) * 2) (tm_pq s) = (q, True)"
  shows "timer_heap (s\<lparr>tm_pq := q\<rparr>) \<and> pq_bag q = pq_bag (tm_pq s) \<and> pq_nr q < pq_max q"
proof -
  let ?q = "tm_pq s" and ?n = "unat (pq_max (tm_pq s))"
  note d = double_max [OF assms(1,3,4)]
  have ok: "?n = length (pq_entry ?q)" "pq_nr ?q \<le> pq_max ?q" "heap_ok timer_later (unat (pq_nr ?q)) (pq_entry ?q)"
    using assms(1,3) by (auto simp: timer_heap_def pq_ok_def)
  then have nr: "pq_nr ?q = pq_max ?q" using assms(2) by simp
  note u = d(3)
  have pos: "0 < ?n" using assms(3) by (simp add: unat_gt_0)
  have q: "q = ?q\<lparr>pq_entry := take (2 * ?n) (pq_entry ?q) @ map junk [length (pq_entry ?q)..<2 * ?n], pq_max := pq_max ?q * 2\<rparr>"
    using assms(5) by (auto simp: pq_resize_def u split: if_splits)
  have "heap_ok timer_later ?n (pq_entry q)"
    unfolding heap_ok_def
  proof (intro allI impI)
    fix k assume k: "0 < k \<and> k < ?n"
    then have "par k < ?n" using par_less [of k] by simp
    with k ok show "\<not> timer_later (pq_entry q ! par k) (pq_entry q ! k)"
      by (simp add: q nth_append nr heap_ok_def)
  qed
  then show ?thesis
    using d pos ok by (simp add: timer_heap_def pq_ok_def pq_bag_def q nr u word_le_nat_alt word_less_nat_alt)
qed

abbreviation armed :: "int \<Rightarrow> int \<Rightarrow> 'c option \<Rightarrow> 'a \<Rightarrow> ('c, 'a) iox_timers \<Rightarrow> ('c, 'a) iox_timer_entry" where
  "armed now ms cb arg s \<equiv> \<lparr>te_deadline_ns = now + ms * 1000000, te_cb = cb, te_arg = arg, te_id = tm_next_id s\<rparr>"

definition adds :: "('c, 'a) iox_timer_entry multiset \<Rightarrow> ('c, 'a) iox_timers \<Rightarrow> ('c, 'a) iox_timers \<Rightarrow> bool" where
  "adds es s s' \<longleftrightarrow> timer_heap s' \<and> tm_initialized s' = tm_initialized s \<and> tm_next_id s' = tm_next_id s + 1 \<and>
     pq_bag (tm_pq s') = pq_bag (tm_pq s) + es"

lemma heap_enqueue:
  assumes "timer_heap s" and "pq_nr (tm_pq s) < pq_max (tm_pq s)"
  shows "\<exists>q. pq_enqueue timer_later e (tm_pq s) = Some (q, True) \<and> timer_heap (s\<lparr>tm_pq := q\<rparr>) \<and>
    pq_bag q = add_mset e (pq_bag (tm_pq s))"
  using tq.enqueue_ok [OF heap_pq [OF assms(1)] assms(2), of e] assms(1) by (auto simp: timer_heap_def)

lemma heap_more [simp]: "timer_heap (s\<lparr>tm_next_id := n, tm_ub := u, tm_pq := q\<rparr>) = timer_heap (s\<lparr>tm_pq := q\<rparr>)"
  by (simp add: timer_heap_def)

lemma add_room:
  assumes "tm_initialized s" and "timer_heap s" and "pq_nr (tm_pq s) < pq_max (tm_pq s)"
  shows "\<exists>s'. iox_timer_add now alloc junk ms cb arg s = Some (s', tm_next_id s) \<and> adds {#armed now ms cb arg s#} s s'"
  using heap_enqueue [OF assms(2,3), of "armed now ms cb arg s"] assms(1)
  by (auto simp: iox_timer_add_def adds_def Let_def)

lemma add_full:
  assumes "tm_initialized s" and "timer_heap s" and "pq_max (tm_pq s) \<le> pq_nr (tm_pq s)"
  shows "\<exists>s'. (if alloc \<and> pq_max (tm_pq s) \<noteq> 0 \<and> unat (pq_max (tm_pq s)) \<noteq> 2 ^ 31
      then iox_timer_add now alloc junk ms cb arg s = Some (s', tm_next_id s) \<and> adds {#armed now ms cb arg s#} s s'
      else iox_timer_add now alloc junk ms cb arg s = Some (s', -1) \<and> adds {#} s s')"
proof -
  let ?q = "tm_pq s" and ?e = "armed now ms cb arg s"
  obtain q1 g where r: "pq_resize alloc junk (pq_max ?q * 2) ?q = (q1, g)" by (metis surj_pair)
  have full: "pq_enqueue timer_later ?e ?q = Some (?q, False)" using assms(3) by (simp add: pq_enqueue_def)
  have nr: "pq_nr ?q = pq_max ?q" using assms(2,3) by (simp add: timer_heap_def pq_ok_def)
  consider (zero) "pq_max ?q = 0" | (top) "unat (pq_max ?q) = 2 ^ 31" | (grow) "pq_max ?q \<noteq> 0" "unat (pq_max ?q) \<noteq> 2 ^ 31" by blast
  then show ?thesis
  proof cases
    case zero
    then have "q1 = ?q" using r nr assms(2) by (auto simp: pq_resize_def timer_heap_def pq_ok_def split: if_splits)
    then show ?thesis using zero r full assms by (auto simp: iox_timer_add_def adds_def Let_def timer_heap_def)
  next
    case top
    then have "pq_max ?q * 2 = 0" "pq_max ?q \<noteq> 0" by (auto simp: word_unat_eq_iff unat_word_ariths)
    then have "q1 = ?q" "\<not> g" using r nr by (auto simp: pq_resize_def word_neq_0_conv split: if_splits)
    then show ?thesis using top r full assms by (auto simp: iox_timer_add_def adds_def Let_def timer_heap_def)
  next
    case grow
    show ?thesis
    proof (cases alloc)
      case False
      have "q1 = ?q" "\<not> g"
        using False r double_max [OF assms(2) grow] nr by (auto simp: pq_resize_def split: if_splits)
      then show ?thesis using False r full assms by (auto simp: iox_timer_add_def adds_def Let_def timer_heap_def)
    next
      case True
      have "g" using True r nr double_max [OF assms(2) grow] by (auto simp: pq_resize_def split: if_splits)
      then have h: "timer_heap (s\<lparr>tm_pq := q1\<rparr>)" "pq_bag q1 = pq_bag ?q" "pq_nr q1 < pq_max q1"
        using grow_ok [OF assms(2,3) grow] r by auto
      from heap_enqueue [OF h(1), of ?e] h(2,3) obtain q2 where
        "pq_enqueue timer_later ?e q1 = Some (q2, True)" "timer_heap (s\<lparr>tm_pq := q2\<rparr>)" "pq_bag q2 = add_mset ?e (pq_bag ?q)"
        by auto
      then show ?thesis using True \<open>g\<close> grow r full assms by (auto simp: iox_timer_add_def adds_def Let_def)
    qed
  qed
qed

lemma timer_index_spec:
  assumes "pq_ok timer_later q" and "unat (pq_nr q) < 2 ^ 31"
  shows "case timer_index ident q of
      None \<Rightarrow> ident \<notin># image_mset te_id (pq_bag q)
    | Some k \<Rightarrow> k < unat (pq_nr q) \<and> te_id (pq_entry q ! k) = ident"
proof -
  let ?n = "unat (pq_nr q)"
  have "int ?n < 2 ^ 31" using assms(2) by (simp del: of_nat_unat)
  then have "signed_take_bit 31 (int ?n) = int ?n" by (intro signed_take_bit_int_eq_self) (simp_all del: of_nat_unat)
  then have "sint (pq_nr q) = int ?n" unfolding sint_uint uint_nat by simp
  then have n: "nat (sint (pq_size q)) = ?n" by (simp add: pq_size_def)
  have len: "?n \<le> length (pq_entry q)" using assms(1) by (simp add: pq_ok_def word_le_nat_alt)
  have at: "pq_peek (of_nat k) q = Some (pq_entry q ! k)" if "k < ?n" for k
    using that len assms(2) by (simp add: pq_peek_def word_less_nat_alt unat_of_nat)
  have bag: "x \<in># pq_bag q \<longleftrightarrow> (\<exists>k < ?n. x = pq_entry q ! k)" for x
    using len by (auto simp: pq_bag_def in_set_conv_nth)
  show ?thesis
    unfolding timer_index_def n using at by (auto simp: bag find_None_iff find_Some_iff split: option.splits)
qed

lemma bag_size: "timer_heap s \<Longrightarrow> size (pq_bag (tm_pq s)) = unat (pq_nr (tm_pq s))"
  by (simp add: pq_bag_def timer_heap_def pq_ok_def word_le_nat_alt)

lemma filter_keep: "i \<notin># image_mset te_id B \<Longrightarrow> filter_mset (\<lambda>x. te_id x \<noteq> i) B = B"
  by (induction B) auto

lemma bag_remove_id:
  assumes "e \<in># B" and "te_id e = i" and "count (image_mset te_id B) i \<le> 1"
  shows "B - {#e#} = filter_mset (\<lambda>x. te_id x \<noteq> i) B"
proof -
  obtain M where M: "B = add_mset e M" using assms(1) by (metis insert_DiffM)
  then have "count (image_mset te_id M) i = 0" using assms(2,3) by simp
  then have "filter_mset (\<lambda>x. te_id x \<noteq> i) M = M" by (intro filter_keep) (simp only: not_in_iff)
  then show ?thesis using M assms(2) by simp
qed

text \<open>Cancelling removes the timer with that identifier, and is harmless when there is none.\<close>

lemma timer_remove_ok:
  assumes "timers_ok s" and "unat (pq_nr (tm_pq s)) < 2 ^ 31"
  shows "\<exists>s'. iox_timer_remove ident s = Some s' \<and> timers_ok s' \<and> tm_next_id s' = tm_next_id s \<and>
    pq_bag (tm_pq s') = filter_mset (\<lambda>e. te_id e \<noteq> ident) (pq_bag (tm_pq s))"
proof -
  let ?q = "tm_pq s"
  have ok: "tm_initialized s" "timer_heap s" "\<And>i. count (image_mset te_id (pq_bag ?q)) i \<le> 1"
      "\<And>i. i \<in># image_mset te_id (pq_bag ?q) \<Longrightarrow> i < tm_next_id s"
    using assms(1) by (auto simp: timers_ok_def timer_ids_def)
  show ?thesis
  proof (cases "timer_index ident ?q")
    case None
    then have "ident \<notin># image_mset te_id (pq_bag ?q)" using timer_index_spec [OF heap_pq [OF ok(2)] assms(2), of ident] by simp
    then have "filter_mset (\<lambda>e. te_id e \<noteq> ident) (pq_bag ?q) = pq_bag ?q"
      by (rule filter_keep)
    then show ?thesis using None assms(1) ok(1) by (simp add: iox_timer_remove_def)
  next
    case (Some k)
    then have k: "k < unat (pq_nr ?q)" "te_id (pq_entry ?q ! k) = ident"
      using timer_index_spec [OF heap_pq [OF ok(2)] assms(2), of ident] by auto
    have len: "unat (pq_nr ?q) \<le> length (pq_entry ?q)" using ok(2) by (simp add: timer_heap_def pq_ok_def word_le_nat_alt)
    have u: "unat (of_nat k :: u32) = k" using k assms(2) by (simp add: unat_of_nat)
    have mem: "pq_entry ?q ! k \<in># pq_bag ?q" using k len by (auto simp: pq_bag_def in_set_conv_nth)
    have "of_nat k < pq_nr ?q" using k(1) u by (simp add: word_less_nat_alt)
    from tq.remove_ok [OF heap_pq [OF ok(2)] this] obtain q where
      q: "pq_remove timer_later (of_nat k) ?q = Some (q, Some (pq_entry ?q ! k))" "pq_ok timer_later q"
        "pq_bag q = pq_bag ?q - {#pq_entry ?q ! k#}" unfolding u by blast
    have bag: "pq_bag q = filter_mset (\<lambda>e. te_id e \<noteq> ident) (pq_bag ?q)"
      unfolding q(3) by (rule bag_remove_id [OF mem k(2) ok(3)])
    have "count (image_mset te_id (pq_bag q)) i \<le> 1" for i
    proof -
      have "image_mset te_id (pq_bag q) \<subseteq># image_mset te_id (pq_bag ?q)" unfolding q(3) by (intro image_mset_subseteq_mono) simp
      then show ?thesis using ok(3) [of i] by (meson le_trans mset_subset_eq_count)
    qed
    moreover have "i < tm_next_id s" if "i \<in># image_mset te_id (pq_bag q)" for i
      using that ok(4) by (auto simp: bag)
    ultimately have "timers_ok (s\<lparr>tm_pq := q\<rparr>)"
      using heap_remove [OF ok(2) q(1,2)] ok(1) by (auto simp: timers_ok_def timer_ids_def)
    then show ?thesis using Some q(1) ok(1) bag by (simp add: iox_timer_remove_def)
  qed
qed

text \<open>
  C33. A timer can be cancelled. While the allocator gives memory, arming a timer hands out a fresh
  identifier and adds exactly that timer to those pending, however full the queue was; cancelling it
  takes exactly that timer out again and leaves every other one, and both keep the heap and the
  identifiers well formed.
\<close>

theorem timer_cancel:
  assumes "timers_ok s" and "unat (pq_nr (tm_pq s)) < 2 ^ 31 - 1" and "pq_max (tm_pq s) \<noteq> 0"
  shows "\<exists>s1 s2. iox_timer_add now True junk ms cb arg s = Some (s1, tm_next_id s) \<and> timers_ok s1 \<and>
    pq_bag (tm_pq s1) = add_mset (armed now ms cb arg s) (pq_bag (tm_pq s)) \<and>
    iox_timer_remove (tm_next_id s) s1 = Some s2 \<and> timers_ok s2 \<and> pq_bag (tm_pq s2) = pq_bag (tm_pq s)"
proof -
  let ?q = "tm_pq s" and ?e = "armed now ms cb arg s"
  have ok: "tm_initialized s" "timer_heap s" using assms(1) by (auto simp: timers_ok_def)
  have ids: "count (image_mset te_id (pq_bag ?q)) i \<le> 1" "i \<in># image_mset te_id (pq_bag ?q) \<Longrightarrow> i < tm_next_id s" for i
    using assms(1) by (auto simp: timers_ok_def timer_ids_def)
  have "unat (pq_max ?q) \<noteq> 2 ^ 31" if "pq_max ?q \<le> pq_nr ?q" using that assms(2) by (simp add: word_le_nat_alt)
  with add_room [OF ok] add_full [OF ok, of True] assms(3) obtain s1 where
    s1: "iox_timer_add now True junk ms cb arg s = Some (s1, tm_next_id s)" "adds {#?e#} s s1"
    by (metis not_le)
  have bag: "pq_bag (tm_pq s1) = add_mset ?e (pq_bag ?q)" using s1(2) by (simp add: adds_def)
  have fresh: "tm_next_id s \<notin># image_mset te_id (pq_bag ?q)" using ids(2) by blast
  then have fresh': "count (image_mset te_id (pq_bag ?q)) (tm_next_id s) = 0" by (simp only: not_in_iff)
  have "timers_ok s1"
    unfolding timers_ok_def timer_ids_def bag using s1(2) ok(1) ids(1) fresh'
    by (auto simp: adds_def dest: ids(2) [unfolded in_image_mset, OF imageI])
  moreover have "unat (pq_nr (tm_pq s1)) < 2 ^ 31"
  proof -
    have "unat (pq_nr (tm_pq s1)) = Suc (unat (pq_nr ?q))"
      using arg_cong [OF bag, of size] bag_size [OF ok(2)] bag_size [of s1] s1(2) by (simp add: adds_def)
    then show ?thesis using assms(2) by simp
  qed
  ultimately obtain s2 where "iox_timer_remove (tm_next_id s) s1 = Some s2" "timers_ok s2"
      "pq_bag (tm_pq s2) = filter_mset (\<lambda>e. te_id e \<noteq> tm_next_id s) (add_mset ?e (pq_bag ?q))"
    using timer_remove_ok [of s1 "tm_next_id s"] bag by auto
  moreover have "filter_mset (\<lambda>e. te_id e \<noteq> tm_next_id s) (pq_bag ?q) = pq_bag ?q"
    using fresh by (rule filter_keep)
  ultimately show ?thesis using s1 bag \<open>timers_ok s1\<close> by auto
qed

text \<open>A queue of two timers, and the state right after \<open>iox_timer_init\<close>.\<close>

definition two_timers :: "(nat, nat) iox_timers" where
  "two_timers = \<lparr>tm_pq = \<lparr>pq_nr = 2, pq_max = 2,
      pq_entry = [\<lparr>te_deadline_ns = 5, te_cb = Some 0, te_arg = 10, te_id = 1\<rparr>,
                  \<lparr>te_deadline_ns = 9, te_cb = Some 0, te_arg = 20, te_id = 0\<rparr>]\<rparr>,
    tm_next_id = 2, tm_initialized = True, tm_ub = False\<rparr>"

lemma two_timers_bag:
  "pq_bag (tm_pq two_timers) = {#\<lparr>te_deadline_ns = 5, te_cb = Some 0, te_arg = 10, te_id = 1\<rparr>,
     \<lparr>te_deadline_ns = 9, te_cb = Some 0, te_arg = 20, te_id = 0\<rparr>#}"
  by (simp add: pq_bag_def two_timers_def)

lemma two_timers_ok: "timers_ok two_timers" "timer_heap two_timers" "tm_initialized two_timers"
proof -
  have "heap_ok timer_later 2 (pq_entry (tm_pq two_timers))"
    by (auto simp: heap_ok_def two_timers_def timer_later_def par_def less_2_cases_iff)
  then show h: "timer_heap two_timers" by (auto simp: timer_heap_def pq_ok_def two_timers_def intro!: exI [of _ 1])
  show i: "tm_initialized two_timers" by (simp add: two_timers_def)
  show "timers_ok two_timers"
    unfolding timers_ok_def timer_ids_def two_timers_bag using h i by (auto simp: two_timers_def)
qed

text \<open>A periodic timer: its callback notes the argument and arms itself again, 50 ms later.\<close>

definition tick :: "int \<Rightarrow> nat \<Rightarrow> nat \<Rightarrow> (nat, nat) iox_timers \<times> nat list \<Rightarrow> (nat, nat) iox_timers \<times> nat list" where
  "tick now cb a = (\<lambda>(s, w).
    (case iox_timer_add now True (\<lambda>_. \<lparr>te_deadline_ns = 0, te_cb = None, te_arg = 0, te_id = 0\<rparr>) 50 (Some cb) a s of
       Some (s', _) \<Rightarrow> s' | None \<Rightarrow> s,
     w @ [a]))"

lemma tick_later: "later_only t (tick t) (\<lambda>cb a w. w @ [a])"
  unfolding later_only_def
proof (intro allI impI)
  fix cb a :: nat and s :: "(nat, nat) iox_timers" and w :: "nat list"
  assume h: "timer_heap s"
  let ?add = "iox_timer_add t True (\<lambda>_. \<lparr>te_deadline_ns = 0, te_cb = None, te_arg = 0, te_id = 0\<rparr>) 50 (Some cb) a s"
  have "\<exists>s' r es. ?add = Some (s', r) \<and> timer_heap s' \<and> pq_bag (tm_pq s') = pq_bag (tm_pq s) + es \<and>
      filter_mset (\<lambda>e. te_deadline_ns e \<le> t) es = {#}"
  proof (cases "tm_initialized s")
    case False
    then show ?thesis using h by (auto simp: iox_timer_add_def)
  next
    case True
    then obtain s' r es where "?add = Some (s', r)" "adds es s s'" "es = {#} \<or> es = {#armed t 50 (Some cb) a s#}"
      using add_room [OF True h] add_full [OF True h, of True] by (metis not_le)
    then show ?thesis by (auto simp: adds_def)
  qed
  then show "timer_heap (fst (tick t cb a (s, w))) \<and> due_timers t (fst (tick t cb a (s, w))) = due_timers t s \<and>
      snd (tick t cb a (s, w)) = w @ [a]"
    by (auto simp: tick_def due_timers_def)
qed

theorem timers_fire_due_witness:
  "\<exists>fired s'. iox_timer_dispatch (tick 6) 6 (two_timers, []) = Some (s', fold (fire_world (\<lambda>cb a w. w @ [a])) fired []) \<and>
    mset fired = due_timers 6 two_timers \<and> due_timers 6 s' = {#} \<and> size (due_timers 6 two_timers) = 1"
  using timers_fire_due [OF two_timers_ok(3,2) tick_later, of 6 "[]"]
  by (auto simp: due_timers_def two_timers_bag)

theorem timer_cancel_witness:
  "\<exists>s1 s2. iox_timer_add 100 True (\<lambda>_. \<lparr>te_deadline_ns = 0, te_cb = None, te_arg = 0, te_id = 0\<rparr>) 7 (Some 3) 30 two_timers =
      Some (s1, 2) \<and> iox_timer_remove 2 s1 = Some s2 \<and> pq_bag (tm_pq s2) = pq_bag (tm_pq two_timers)"
proof -
  have "unat (pq_nr (tm_pq two_timers)) < 2 ^ 31 - 1" "pq_max (tm_pq two_timers) \<noteq> 0" "tm_next_id two_timers = 2"
    by (simp_all add: two_timers_def)
  with timer_cancel [OF two_timers_ok(1), of 100 "\<lambda>_. \<lparr>te_deadline_ns = 0, te_cb = None, te_arg = 0, te_id = 0\<rparr>" 7 "Some 3" 30]
  show ?thesis by auto
qed

section \<open>The timeout of the poll\<close>

text \<open>
  C34. The loop sleeps neither too long nor too short. With a timer pending at most 2147483647 ms ahead, the
  timeout \<open>r\<close> that \<open>iox_timer_next_ms\<close> gives is the smallest number of milliseconds after which a timer is
  due: after \<open>r\<close> something is due, after one less nothing is, and it is 0 exactly when something is due now.
\<close>

theorem timeout_exact:
  assumes "tm_initialized s" and "timer_heap s" and "pq_top (tm_pq s) = Some e"
    and "te_deadline_ns e - now \<le> 2147483647 * 1000000"
  shows "let r = iox_timer_next_ms now s in 0 \<le> r \<and> due_timers (now + r * 1000000) s \<noteq> {#} \<and>
    (r = 0 \<longleftrightarrow> due_timers now s \<noteq> {#}) \<and> (if 0 < r then due_timers (now + (r - 1) * 1000000) s = {#} else True)"
proof -
  let ?x = "te_deadline_ns e - now"
  define r where "r = iox_timer_next_ms now s"
  have least: "e \<in># pq_bag (tm_pq s)" "\<And>x. x \<in># pq_bag (tm_pq s) \<Longrightarrow> te_deadline_ns e \<le> te_deadline_ns x"
    using top_least [OF heap_pq [OF assms(2)] assms(3)] by auto
  have any: "due_timers t s \<noteq> {#} \<longleftrightarrow> te_deadline_ns e \<le> t" for t
    using least by (auto simp: due_timers_def intro: order_trans)
  define y where "y = ?x + 999999"
  have "c_div y 1000000 = (if y < 0 then - (- y div 1000000) else y div 1000000)" by (simp add: c_div_def sgn_if)
  moreover have "y div 1000000 \<le> 2147483647" using assms(4) by (simp add: y_def)
  moreover have "\<not> 0 < - (- y div 1000000)" if "y < 0" using that by (simp add: pos_imp_zdiv_nonneg_iff)
  ultimately have r: "r = (if y < 0 then 0 else y div 1000000)"
    using assms(1,3) by (auto simp: r_def iox_timer_next_ms_def Let_def y_def [symmetric])
  have "0 \<le> r \<and> ?x \<le> r * 1000000 \<and> (r = 0 \<longleftrightarrow> ?x \<le> 0) \<and> (0 < r \<longrightarrow> (r - 1) * 1000000 < ?x)"
    unfolding r y_def by auto
  moreover have "due_timers t s = {#} \<longleftrightarrow> t < te_deadline_ns e" for t using any [of t] by auto
  ultimately show ?thesis unfolding r_def [symmetric] Let_def by simp linarith
qed

theorem timeout_exact_witness:
  "iox_timer_next_ms 2 two_timers = 1 \<and> due_timers (2 + 1 * 1000000) two_timers \<noteq> {#} \<and> due_timers 2 two_timers = {#}"
proof -
  have "pq_top (tm_pq two_timers) = Some \<lparr>te_deadline_ns = 5, te_cb = Some 0, te_arg = 10, te_id = 1\<rparr>"
    by (simp add: pq_top_def pq_peek_def entry_at_def two_timers_def)
  moreover from this have "iox_timer_next_ms 2 two_timers = 1" by (simp add: iox_timer_next_ms_def c_div_def two_timers_ok)
  ultimately show ?thesis using timeout_exact [OF two_timers_ok(3,2), of _ 2] by auto
qed

end
