(* ===== verification/Nc_Link.thy ===== *)
theory Nc_Link
  imports Nc_Login Nc_Session Iox_Timer
begin

text \<open>
  The authenticated link of \<open>auth_link.c\<close>: one record holds a netchan connection, an encrypted session and
  a login, and its functions run them in order on the socket and timer callbacks of iox, with the address
  packing of \<open>nc_udp.c\<close>. The application's callbacks are a record of functions, as in the code, and may call
  back into the link; a function that could run forever yields \<open>None\<close> where it does.

  The link keeps two histories that the code does not have and nothing reads: \<open>al_wire\<close>, the datagrams
  handed to \<open>sendto\<close>, and \<open>al_trace\<close>, what was reported to the application, written to the reliable
  channel and fed to the login. The socket is the list of datagrams that wait in it.
\<close>

section \<open>Addresses\<close>

text \<open>An IPv4 or IPv6 address and port in network order; any other family, or a length too short for its family.\<close>

datatype sockaddr = AF_INET "u8 list" "u8 list" | AF_INET6 "u8 list" "u8 list" | AF_OTHER

definition nc_udp_from_sockaddr :: "sockaddr \<Rightarrow> nc_addr option" where
  "nc_udp_from_sockaddr sa =
    (case sa of
       AF_INET addr port \<Rightarrow> Some (4 # take 4 addr @ take 2 port)
     | AF_INET6 addr port \<Rightarrow> Some (6 # take 16 addr @ take 2 port)
     | AF_OTHER \<Rightarrow> None)"

definition nc_udp_to_sockaddr :: "nc_addr \<Rightarrow> sockaddr option" where
  "nc_udp_to_sockaddr a =
    (if a = [] then None
     else if length a = 7 \<and> a ! 0 = 4 then Some (AF_INET (take 4 (drop 1 a)) (take 2 (drop 5 a)))
     else if length a = 19 \<and> a ! 0 = 6 then Some (AF_INET6 (take 16 (drop 1 a)) (take 2 (drop 17 a)))
     else None)"

section \<open>State\<close>

definition AL_TICK_MS :: int where "AL_TICK_MS = 50"
definition TAG_AUTH :: u8 where "TAG_AUTH = 0xa0"
definition TAG_APP :: u8 where "TAG_APP = 0xa1"
definition AL_BUF :: nat where "AL_BUF = 2048"

datatype al_down_reason = AL_DOWN_PEER | AL_DOWN_AUTH | AL_DOWN_HOSTKEY

datatype link_event =
    On_up
  | On_data "u8 list"
  | On_down al_down_reason
  | On_need nc_auth_need
  | Wrote u8 "u8 list"
  | Fed "u8 list"

datatype tick_cb = Tick

record auth_link =
  al_timers :: "(tick_cb, unit) iox_timers"
  al_conn :: netchan_conn
  al_tx :: "nat option"
  al_rx :: "nat option"
  al_server :: bool
  al_have_peer :: bool
  al_connect_sent :: bool
  al_accepted :: bool
  al_auth_started :: bool
  al_need_fired :: nc_auth_need
  al_up :: bool
  al_down :: bool
  al_closing :: bool
  al_timer_id :: int
  al_peer :: nc_addr
  al_crypto :: nc_crypto
  al_auth :: nc_auth
  al_scb :: nc_auth_server_cb
  al_user :: "u8 list"
  al_wire :: "(u8 list \<times> sockaddr) list"
  al_trace :: "link_event list"

record auth_link_cb =
  on_up :: "(auth_link \<Rightarrow> auth_link option) option"
  on_data :: "(u8 list \<Rightarrow> auth_link \<Rightarrow> auth_link option) option"
  on_down :: "(al_down_reason \<Rightarrow> auth_link \<Rightarrow> auth_link option) option"
  on_need :: "(nc_auth_need \<Rightarrow> auth_link \<Rightarrow> auth_link option) option"

record auth_link_cfg =
  lc_server :: bool
  lc_peer :: "nc_addr option"
  lc_static_sk :: "u8 list option"
  lc_psk :: "u8 list option"
  lc_require_peer_static :: bool
  lc_verify_peer :: "(u8 list option \<Rightarrow> int) option"
  lc_user :: "u8 list option"
  lc_scb :: nc_auth_server_cb

text \<open>Record in the history, then call the application where it gave a callback.\<close>

definition al_log :: "link_event \<Rightarrow> auth_link \<Rightarrow> auth_link" where
  "al_log e al = al\<lparr>al_trace := al_trace al @ [e]\<rparr>"

definition al_call :: "(auth_link \<Rightarrow> auth_link option) option \<Rightarrow> auth_link \<Rightarrow> auth_link option" where
  "al_call h al = (case h of Some f \<Rightarrow> f al | None \<Rightarrow> Some al)"

definition sendto :: "u8 list \<Rightarrow> sockaddr \<Rightarrow> auth_link \<Rightarrow> auth_link" where
  "sendto p sa al = al\<lparr>al_wire := al_wire al @ [(p, sa)]\<rparr>"

text \<open>\<open>now_ms\<close> reads the clock that netchan reads.\<close>

definition now_ms :: "auth_link \<Rightarrow> u32 \<times> auth_link" where
  "now_ms al = (let (t, c) = nc_now_ms (al_conn al) in (t, al\<lparr>al_conn := c\<rparr>))"

section \<open>Sending\<close>

definition fire_down :: "auth_link_cb \<Rightarrow> al_down_reason \<Rightarrow> auth_link \<Rightarrow> auth_link option" where
  "fire_down cb reason al =
    (if al_down al then Some al
     else al_call (map_option (\<lambda>f. f reason) (on_down cb)) (al_log (On_down reason) (al\<lparr>al_down := True\<rparr>)))"

definition send_hello :: "auth_link \<Rightarrow> auth_link" where
  "send_hello al =
    (if \<not> al_have_peer al then al
     else
       let hp = nc_crypto_handshake_packet (al_crypto al) NC_CRYPTO_HELLO_LEN in
       case nc_udp_to_sockaddr (al_peer al) of
         None \<Rightarrow> al
       | Some sa \<Rightarrow> if hp = [] then al else sendto hp sa al)"

definition seal_out :: "nc_prims \<Rightarrow> u8 list \<Rightarrow> nc_addr \<Rightarrow> auth_link \<Rightarrow> auth_link" where
  "seal_out P buf to al =
    (let (cr, sealed) = nc_crypto_seal P buf (AL_BUF + NC_CRYPTO_OVERHEAD) (al_crypto al);
         al = al\<lparr>al_crypto := cr\<rparr> in
     case sealed of
       None \<Rightarrow> al
     | Some p \<Rightarrow> (case nc_udp_to_sockaddr to of None \<Rightarrow> al | Some sa \<Rightarrow> sendto p sa al))"

partial_function (option) flush_out :: "nc_prims \<Rightarrow> auth_link \<Rightarrow> auth_link option" where [code]:
  "flush_out P al =
    (case netchan_send_next AL_BUF (al_conn al) of
       (None, c) \<Rightarrow> Some (al\<lparr>al_conn := c\<rparr>)
     | (Some (buf, to), c) \<Rightarrow> flush_out P (seal_out P buf to (al\<lparr>al_conn := c\<rparr>)))"

text \<open>The turns of \<open>for (spins = 0; spins < 64; spins++)\<close>; the result is what \<open>chan_send\<close> returns.\<close>

fun send_spins :: "nc_prims \<Rightarrow> nat \<Rightarrow> nat \<Rightarrow> u8 \<Rightarrow> u8 list \<Rightarrow> auth_link \<Rightarrow> (auth_link \<times> int) option" where
  "send_spins P 0 k tag data al = Some (al, -1)"
| "send_spins P (Suc n) k tag data al =
    (let (c, w) = netchan_chan_write k (tag # data) (al_conn al);
         al = al\<lparr>al_conn := c\<rparr> in
     if w = int (length data + 1)
     then do { al \<leftarrow> flush_out P (al_log (Wrote tag data) al); Some (al, 0) }
     else if w \<noteq> NETCHAN_ERR_FLOW \<and> w \<noteq> NETCHAN_ERR_AGAIN then Some (al, -1)
     else
       let (now, al) = now_ms al;
           al = al\<lparr>al_conn := fst (netchan_service now (al_conn al))\<rparr> in
       do { al \<leftarrow> flush_out P al; send_spins P n k tag data al })"

definition chan_send :: "nc_prims \<Rightarrow> u8 \<Rightarrow> u8 list \<Rightarrow> auth_link \<Rightarrow> (auth_link \<times> int) option" where
  "chan_send P tag data al =
    (case al_tx al of
       None \<Rightarrow> Some (al, -1)
     | Some k \<Rightarrow> if AL_BUF < length data + 1 then Some (al, -1) else send_spins P 64 k tag data al)"

section \<open>The login over the channel\<close>

definition auth_out :: "nc_prims \<Rightarrow> u8 list \<Rightarrow> auth_link \<Rightarrow> auth_link option" where
  "auth_out P msg al = map_option fst (chan_send P TAG_AUTH msg al)"

text \<open>
  A call of \<open>nc_auth.c\<close>. The messages it hands to its send callback are those it adds to \<open>au_sent\<close>; \<open>auth_out\<close>
  does not touch the login, so they go out after the call.
\<close>

fun auth_outs :: "nc_prims \<Rightarrow> u8 list list \<Rightarrow> auth_link \<Rightarrow> auth_link option" where
  "auth_outs P [] al = Some al"
| "auth_outs P (m # ms) al = do { al \<leftarrow> auth_out P m al; auth_outs P ms al }"

definition auth_call :: "nc_prims \<Rightarrow> (nc_auth \<Rightarrow> nc_auth) \<Rightarrow> auth_link \<Rightarrow> auth_link option" where
  "auth_call P f al =
    (let a = f (al_auth al) in
     auth_outs P (drop (length (au_sent (al_auth al))) (au_sent a)) (al\<lparr>al_auth := a\<rparr>))"

definition settle_need :: "auth_link_cb \<Rightarrow> auth_link \<Rightarrow> auth_link option" where
  "settle_need cb al =
    (if \<not> al_auth_started al \<or> al_server al \<or> al_up al \<or> al_down al then Some al
     else
       let need = nc_auth_needs (al_auth al) in
       if need = al_need_fired al then Some al
       else
         let al = al\<lparr>al_need_fired := need\<rparr> in
         if need \<noteq> NC_AUTH_NEED_NOTHING \<and> on_need cb \<noteq> None
         then al_call (map_option (\<lambda>f. f need) (on_need cb)) (al_log (On_need need) al)
         else Some al)"

definition settle_auth :: "auth_link_cb \<Rightarrow> auth_link \<Rightarrow> auth_link option" where
  "settle_auth cb al =
    (if \<not> al_auth_started al \<or> al_up al \<or> al_down al then Some al
     else do {
       al \<leftarrow> settle_need cb al;
       if au_state (al_auth al) = NC_AUTH_OK
       then al_call (on_up cb)
         (al_log On_up (al\<lparr>al_user := take NC_AUTH_MAX_USER (nc_auth_user (al_auth al)), al_up := True\<rparr>))
       else if au_state (al_auth al) = NC_AUTH_DENIED then fire_down cb AL_DOWN_AUTH al
       else Some al })"

text \<open>The three steps of \<open>advance\<close> after its first test: connect, open the channel, start the login.\<close>

definition advance_connect :: "auth_link \<Rightarrow> auth_link" where
  "advance_connect al =
    (if \<not> al_server al \<and> \<not> al_connect_sent al \<and> nc_crypto_ready (al_crypto al)
     then
       let (c, rc) = netchan_connect (al_peer al) (al_conn al) in
       al\<lparr>al_conn := c, al_connect_sent := al_connect_sent al \<or> rc = NETCHAN_OK\<rparr>
     else al)"

definition AUTH_CHANNEL :: "u8 list" where
  "AUTH_CHANNEL = [0x61, 0x75, 0x74, 0x68]"

definition advance_channel :: "auth_link \<Rightarrow> auth_link" where
  "advance_channel al =
    (if al_tx al = None \<and> netchan_state (al_conn al) = NETCHAN_STATE_CONNECTED
     then let (k, c) = netchan_chan_open NETCHAN_RELIABLE NETCHAN_DIR_SEND AUTH_CHANNEL (al_conn al) in
       al\<lparr>al_conn := c, al_tx := k\<rparr>
     else al)"

definition advance_login :: "nc_prims \<Rightarrow> auth_link \<Rightarrow> auth_link option" where
  "advance_login P al =
    (if al_tx al \<noteq> None \<and> \<not> al_auth_started al
     then case nc_crypto_session_id (al_crypto al) of
       None \<Rightarrow> Some al
     | Some sid \<Rightarrow>
         let a = (if al_server al then nc_auth_server_init sid (Some (al_scb al)) True
                  else nc_auth_client_init sid (Some (al_user al)) True);
             al = al\<lparr>al_auth := a, al_auth_started := True\<rparr> in
         if \<not> al_server al then auth_call P nc_auth_start al else Some al
     else Some al)"

definition advance :: "nc_prims \<Rightarrow> auth_link_cb \<Rightarrow> auth_link \<Rightarrow> auth_link option" where
  "advance P cb al =
    (if nc_crypto_failed (al_crypto al) then fire_down cb AL_DOWN_HOSTKEY al
     else do {
       al \<leftarrow> advance_login P (advance_channel (advance_connect al));
       settle_auth cb al })"

section \<open>Receiving\<close>

definition deliver :: "nc_prims \<Rightarrow> auth_link_cb \<Rightarrow> u8 list \<Rightarrow> auth_link \<Rightarrow> auth_link option" where
  "deliver P cb msg al =
    (if length msg < 1 then Some al
     else if hd msg = TAG_AUTH
     then do {
       al \<leftarrow> (if al_auth_started al
              then auth_call P (\<lambda>a. fst (nc_auth_feed P (tl msg) a)) (al_log (Fed (tl msg)) al) else Some al);
       settle_auth cb al }
     else if hd msg = TAG_APP \<and> al_up al \<and> on_data cb \<noteq> None
     then al_call (map_option (\<lambda>f. f (tl msg)) (on_data cb)) (al_log (On_data (tl msg)) al)
     else Some al)"

definition handle_event :: "auth_link_cb \<Rightarrow> netchan_event \<Rightarrow> auth_link \<Rightarrow> auth_link option" where
  "handle_event cb ev al =
    (if ev_type ev = NETCHAN_EV_CHAN_OPEN \<or> ev_type ev = NETCHAN_EV_DATA
     then Some (if ev_ch ev \<noteq> None then al\<lparr>al_rx := ev_ch ev\<rparr> else al)
     else if ev_type ev = NETCHAN_EV_DISCONNECTED then fire_down cb AL_DOWN_PEER al
     else Some al)"

partial_function (option) poll_loop :: "auth_link_cb \<Rightarrow> auth_link \<Rightarrow> auth_link option" where [code]:
  "poll_loop cb al =
    (case netchan_poll (al_conn al) of
       (None, c) \<Rightarrow> Some (al\<lparr>al_conn := c\<rparr>)
     | (Some ev, c) \<Rightarrow> do { al \<leftarrow> handle_event cb ev (al\<lparr>al_conn := c\<rparr>); poll_loop cb al })"

partial_function (option) read_loop :: "nc_prims \<Rightarrow> auth_link_cb \<Rightarrow> auth_link \<Rightarrow> auth_link option" where [code]:
  "read_loop P cb al =
    (case al_rx al of
       None \<Rightarrow> Some al
     | Some k \<Rightarrow>
         (case netchan_chan_read k AL_BUF (al_conn al) of
            ((msg, rd), c) \<Rightarrow>
              if 0 < rd then do { al \<leftarrow> deliver P cb msg (al\<lparr>al_conn := c\<rparr>); read_loop P cb al }
              else Some (al\<lparr>al_conn := c\<rparr>)))"

definition pump_events :: "nc_prims \<Rightarrow> auth_link_cb \<Rightarrow> auth_link \<Rightarrow> auth_link option" where
  "pump_events P cb al = do { al \<leftarrow> poll_loop cb al; read_loop P cb al }"

text \<open>
  One datagram in hand, read into the buffer of 2048 bytes. The flag tells that the loop stops: the session has
  failed.
\<close>

definition take_datagram :: "nc_prims \<Rightarrow> u8 list \<Rightarrow> nc_addr \<Rightarrow> auth_link \<Rightarrow> bool \<times> auth_link" where
  "take_datagram P buf from al =
    (let al = (if al_server al \<and> \<not> al_have_peer al then al\<lparr>al_peer := from, al_have_peer := True\<rparr> else al);
         was_hello = (hd buf = NC_CRYPTO_HELLO);
         (cr, pn, plain) = nc_crypto_open P buf AL_BUF (al_crypto al);
         al = al\<lparr>al_crypto := cr\<rparr> in
     if nc_crypto_failed cr then (True, al)
     else
       let al = (if was_hello \<and> al_server al then send_hello al else al) in
       if pn \<le> 0 then (False, al)
       else if al_server al \<and> \<not> al_accepted al
       then (False, al\<lparr>al_conn := fst (netchan_accept (fst (netchan_feed plain from (al_conn al)))), al_accepted := True\<rparr>)
       else (False, al\<lparr>al_conn := fst (netchan_feed plain from (al_conn al))\<rparr>))"

text \<open>
  The receive loop over the datagrams in the socket; it yields those it leaves there. A datagram of no bytes
  ends the loop as an empty socket does.
\<close>

fun recv_loop :: "nc_prims \<Rightarrow> (u8 list \<times> sockaddr) list \<Rightarrow> auth_link \<Rightarrow> (u8 list \<times> sockaddr) list \<times> auth_link" where
  "recv_loop P [] al = ([], al)"
| "recv_loop P ((pkt, sa) # rest) al =
    (let buf = take AL_BUF pkt in
     if buf = [] then (rest, al)
     else
       case nc_udp_from_sockaddr sa of
         None \<Rightarrow> recv_loop P rest al
       | Some from \<Rightarrow>
           let (stop, al) = take_datagram P buf from al in
           if stop then (rest, al) else recv_loop P rest al)"

definition on_readable ::
  "nc_prims \<Rightarrow> auth_link_cb \<Rightarrow> (u8 list \<times> sockaddr) list \<Rightarrow> auth_link \<Rightarrow> ((u8 list \<times> sockaddr) list \<times> auth_link) option" where
  "on_readable P cb socket al =
    (let (rest, al) = recv_loop P socket al in
     do { al \<leftarrow> pump_events P cb al; al \<leftarrow> advance P cb al; al \<leftarrow> flush_out P al; Some (rest, al) })"

section \<open>The tick and the interface\<close>

text \<open>What \<open>iox_timer_add\<close> takes from the system: the time, whether its allocation succeeds, fresh memory.\<close>

record tick_env =
  tk_now :: int
  tk_alloc :: bool
  tk_junk :: "nat \<Rightarrow> (tick_cb, unit) iox_timer_entry"

definition on_tick :: "nc_prims \<Rightarrow> auth_link_cb \<Rightarrow> tick_env \<Rightarrow> auth_link \<Rightarrow> auth_link option" where
  "on_tick P cb env al =
    (let al = (if \<not> al_server al \<and> \<not> nc_crypto_ready (al_crypto al) then send_hello al else al);
         (now, al) = now_ms al;
         al = al\<lparr>al_conn := fst (netchan_service now (al_conn al))\<rparr> in
     do {
       al \<leftarrow> pump_events P cb al;
       al \<leftarrow> advance P cb al;
       al \<leftarrow> flush_out P al;
       if \<not> al_closing al
       then do {
         (tm, i) \<leftarrow> iox_timer_add (tk_now env) (tk_alloc env) (tk_junk env) AL_TICK_MS (Some Tick) () (al_timers al);
         Some (al\<lparr>al_timers := tm, al_timer_id := i\<rparr>) }
       else Some (al\<lparr>al_timer_id := -1\<rparr>) })"

text \<open>
  What \<open>auth_link_open\<close> takes from the system: whether the two allocations and \<open>iox_fd_add\<close> succeed, random
  bytes, the clock and entropy of the connection. Inside the option that stands for not ending, \<open>None\<close> is the null
  pointer.
\<close>

record open_env =
  oe_calloc :: bool
  oe_conn :: bool
  oe_fd_add :: bool
  oe_random :: "u8 list option"
  oe_clock :: "nat \<Rightarrow> u32"
  oe_entropy :: "nat \<Rightarrow> u32"

definition fresh_link :: "auth_link_cfg \<Rightarrow> (tick_cb, unit) iox_timers \<Rightarrow> open_env \<Rightarrow> auth_link" where
  "fresh_link cfg timers oe = \<lparr>al_timers = timers,
     al_conn = netchan_open (lc_server cfg) (oe_clock oe) (oe_entropy oe),
     al_tx = None, al_rx = None, al_server = lc_server cfg, al_have_peer = (lc_peer cfg \<noteq> None), al_connect_sent = False,
     al_accepted = False, al_auth_started = False, al_need_fired = NC_AUTH_NEED_NOTHING, al_up = False, al_down = False,
     al_closing = False, al_timer_id = -1, al_peer = (case lc_peer cfg of Some a \<Rightarrow> a | None \<Rightarrow> []),
     al_crypto = zero_crypto, al_auth = zero_auth, al_scb = lc_scb cfg,
     al_user = (case lc_user cfg of Some u \<Rightarrow> take NC_AUTH_MAX_USER u | None \<Rightarrow> []), al_wire = [], al_trace = []\<rparr>"

definition auth_link_open ::
  "nc_prims \<Rightarrow> auth_link_cb \<Rightarrow> auth_link_cfg option \<Rightarrow> (tick_cb, unit) iox_timers \<Rightarrow> open_env \<Rightarrow> tick_env \<Rightarrow>
   auth_link option option" where
  "auth_link_open P cb config timers oe te =
    (case config of
       None \<Rightarrow> Some None
     | Some cfg \<Rightarrow>
         if \<not> lc_server cfg \<and> lc_peer cfg = None then Some None
         else if \<not> oe_calloc oe \<or> \<not> oe_conn oe then Some None
         else
           let ccfg = \<lparr>cc_eph_sk_seed = None, cc_psk = lc_psk cfg, cc_static_sk = lc_static_sk cfg,
                 cc_require_peer_static = lc_require_peer_static cfg, cc_verify_peer = lc_verify_peer cfg\<rparr>;
               (cr, rc) = nc_crypto_init P (oe_random oe) (if lc_server cfg then 1 else 0) (Some ccfg);
               al = (fresh_link cfg timers oe)\<lparr>al_crypto := cr\<rparr> in
           if rc \<noteq> 0 \<or> \<not> oe_fd_add oe then Some None
           else map_option Some (on_tick P cb te al))"

definition auth_link_supply_key ::
  "nc_prims \<Rightarrow> auth_link_cb \<Rightarrow> (u8 list \<times> u8 list) option \<Rightarrow> auth_link \<Rightarrow> auth_link option" where
  "auth_link_supply_key P cb key al =
    (if \<not> al_auth_started al \<or> al_server al then Some al
     else do {
       al \<leftarrow> auth_call P (nc_auth_supply_key P key) al;
       al \<leftarrow> settle_auth cb (al\<lparr>al_need_fired := NC_AUTH_NEED_NOTHING\<rparr>);
       flush_out P al })"

definition auth_link_supply_password ::
  "nc_prims \<Rightarrow> auth_link_cb \<Rightarrow> u8 list option \<Rightarrow> auth_link \<Rightarrow> auth_link option" where
  "auth_link_supply_password P cb password al =
    (if \<not> al_auth_started al \<or> al_server al then Some al
     else do {
       al \<leftarrow> auth_call P (nc_auth_supply_password password) al;
       al \<leftarrow> settle_auth cb (al\<lparr>al_need_fired := NC_AUTH_NEED_NOTHING\<rparr>);
       flush_out P al })"

definition auth_link_send :: "nc_prims \<Rightarrow> u8 list \<Rightarrow> auth_link \<Rightarrow> (auth_link \<times> int) option" where
  "auth_link_send P data al = (if \<not> al_up al then Some (al, -1) else chan_send P TAG_APP data al)"

definition auth_link_up :: "auth_link \<Rightarrow> bool" where
  "auth_link_up al = al_up al"

definition auth_link_user :: "auth_link \<Rightarrow> u8 list" where
  "auth_link_user al = al_user al"

text \<open>What is left of the link: the timers of the loop, and the connection as \<open>netchan_close\<close> leaves it.\<close>

definition auth_link_close :: "auth_link \<Rightarrow> ((tick_cb, unit) iox_timers \<times> netchan_conn) option" where
  "auth_link_close al = do {
     tm \<leftarrow> (if 0 \<le> al_timer_id al then iox_timer_remove (al_timer_id al) (al_timers al) else Some (al_timers al));
     Some (tm, netchan_close (al_conn al)) }"

end
