(* ===== verification/Nc_Fragments.thy ===== *)
theory Nc_Fragments
  imports Nc_Flaws
begin

text \<open>
  Reassembly: fragments cut at the size that both sides use are put together to the message in
  whatever order they arrive; fragments of another size may overrun the buffer.
\<close>

subsection \<open>Storing one fragment\<close>

definition stored_frag :: "nc_frag_asm \<Rightarrow> u8 \<Rightarrow> u8 list \<Rightarrow> nc_frag_asm" where
  "stored_frag f fi payload = f\<lparr>fa_offsets := (fa_offsets f)(unat fi := length payload),
     fa_bitmask := fa_bitmask f OR push_bit (unat fi) 1, fa_have := fa_have f + 1\<rparr>"

definition stored_conn :: "nat \<Rightarrow> nat \<Rightarrow> u8 \<Rightarrow> u8 list \<Rightarrow> netchan_conn \<Rightarrow> netchan_conn" where
  "stored_conn k j fi payload c =
    (let f = ch_frags (chan_at c k) j in
     upd_chan k (\<lambda>ch. ch\<lparr>ch_frags := (ch_frags ch)(j := stored_frag f fi payload)\<rparr>)
       (buf_write (fa_buf f) (unat fi * max_frag_payload c) payload c))"

text \<open>A fragment of a message already under reassembly in slot \<open>j\<close>.\<close>

lemma frag_store_known:
  assumes "frag_find (chan_at c k) seq = Some j" and "f = ch_frags (chan_at c k) j"
    and "fi < fa_total f" and "\<not> bit (fa_bitmask f) (unat fi)"
    and "unat fi * max_frag_payload c + length payload \<le> NC_MAX_MSG"
  shows "frag_store k seq fi ft payload c =
    (if fa_have f + 1 = fa_total f
     then (Some (j, fst (frag_compact (stored_frag f fi payload) (stored_conn k j fi payload c))),
           snd (frag_compact (stored_frag f fi payload) (stored_conn k j fi payload c)))
     else (None, stored_conn k j fi payload c))"
  using assms by (simp add: frag_store_def Let_def stored_conn_def stored_frag_def case_prod_beta)

text \<open>The first fragment of a message opens a slot and is then stored like any other.\<close>

lemma find_first:
  assumes "find P [0..<n] = Some j" and "\<And>i. i < n \<Longrightarrow> Q i \<longleftrightarrow> i = j"
  shows "find Q [0..<n] = Some j"
proof -
  have "j < n" using assms(1) by (auto simp: find_Some_iff)
  with assms(2) show ?thesis by (auto simp: find_Some_iff)
qed

lemma frag_store_new:
  assumes "frag_find (chan_at c k) seq = None" and "frag_alloc k seq ft c = (Some j, c1)"
  shows "frag_store k seq fi ft payload c = frag_store k seq fi ft payload c1 \<and> frag_find (chan_at c1 k) seq = Some j"
proof -
  obtain b c0 where g: "pool_get c = (Some b, c0)"
      and f: "find (\<lambda>i. \<not> fa_active (ch_frags (chan_at c k) i)) [0..<NC_FRAG_SLOTS] = Some j"
      and c1: "c1 = upd_chan k (\<lambda>ch. ch\<lparr>ch_frags := (ch_frags ch)(j := zero_frag\<lparr>fa_seq := seq,
                    fa_total := ft, fa_active := True, fa_buf := Some b\<rparr>)\<rparr>) c0"
    using assms(2) by (auto simp: frag_alloc_def split: if_splits option.splits prod.splits)
  have none: "\<not> (fa_active (ch_frags (chan_at c k) i) \<and> fa_seq (ch_frags (chan_at c k) i) = seq)" if "i < NC_FRAG_SLOTS" for i
    using assms(1) that by (auto simp: frag_find_def find_None_iff)
  have "frag_find (chan_at c1 k) seq = Some j"
    unfolding frag_find_def by (rule find_first [OF f]) (use none in \<open>auto simp: c1 pool_get_frame [OF g]\<close>)
  with assms show ?thesis by (simp add: frag_store_def)
qed

subsection \<open>Cutting and joining\<close>

definition chunk :: "nat \<Rightarrow> u8 list \<Rightarrow> nat \<Rightarrow> u8 list" where
  "chunk fp msg i = take fp (drop (i * fp) msg)"

text \<open>\<open>n\<close> is the number of fragments of size \<open>fp\<close> that \<open>msg\<close> is cut into.\<close>

definition cut_into :: "nat \<Rightarrow> u8 list \<Rightarrow> nat \<Rightarrow> bool" where
  "cut_into fp msg n \<longleftrightarrow> 0 < fp \<and> (n - 1) * fp < length msg \<and> length msg \<le> n * fp"

lemma chunk_end:
  assumes "cut_into fp msg n" and "i < n"
  shows "i * fp < length msg" and "i * fp + length (chunk fp msg i) = min (Suc i * fp) (length msg)"
proof -
  have "i * fp \<le> (n - 1) * fp" using assms(2) by (intro mult_right_mono) auto
  then show "i * fp < length msg" using assms(1) by (meson cut_into_def le_less_trans)
  moreover have "a + min (m - a) l = min (l + a) m" if "a < m" for a m l :: nat
    using that by auto
  ultimately show "i * fp + length (chunk fp msg i) = min (Suc i * fp) (length msg)"
    by (simp add: chunk_def)
qed

lemma chunk_nth: "x < length (chunk fp msg i) \<Longrightarrow> chunk fp msg i ! x = msg ! (i * fp + x)"
  by (cases "i * fp \<le> length msg") (simp_all add: chunk_def)

text \<open>When every fragment has its proper length, compaction moves nothing and adds up the lengths.\<close>

lemma compact_proper:
  assumes "cut_into fp msg n" and "\<forall>i<n. fa_offsets f i = length (chunk fp msg i)" and "m \<le> n"
  shows "fold (frag_move fp f) [0..<m] (0, c) = (min (m * fp) (length msg), c)"
  using assms(3)
proof (induction m)
  case (Suc m)
  then have "min (m * fp) (length msg) = m * fp" using chunk_end(1) [OF assms(1), of m] by simp
  with Suc chunk_end(2) [OF assms(1), of m] assms(2) show ?case by (simp add: frag_move_def)
qed simp

subsection \<open>Reassembly\<close>

text \<open>
  The fragments in \<open>S\<close> of \<open>msg\<close> have been stored in slot \<open>j\<close>, whose buffer is \<open>b\<close>.
\<close>

definition collected :: "netchan_conn \<Rightarrow> nat \<Rightarrow> u16 \<Rightarrow> nat \<Rightarrow> nat \<Rightarrow> u8 list \<Rightarrow> nat \<Rightarrow> nat set \<Rightarrow> bool" where
  "collected c k seq j b msg n S \<longleftrightarrow>
    (let f = ch_frags (chan_at c k) j; fp = max_frag_payload c in
     frag_find (chan_at c k) seq = Some j \<and> fa_buf f = Some b \<and> unat (fa_total f) = n \<and> unat (fa_have f) = card S \<and>
     S \<subseteq> {..<n} \<and> (\<forall>i<n. bit (fa_bitmask f) i \<longleftrightarrow> i \<in> S) \<and> (\<forall>i\<in>S. fa_offsets f i = length (chunk fp msg i)) \<and>
     (\<forall>i\<in>S. \<forall>x<length (chunk fp msg i). c_pool_store c (pool_ptr b + i * fp + x) = msg ! (i * fp + x)))"

lemma max_frag_upd [simp]: "max_frag_payload (upd_chan k f c) = max_frag_payload c"
  by (simp add: max_frag_payload_def upd_chan_def)

lemma stored_conn_frame:
  assumes "ch_frags (chan_at c k) j = f" and "fa_buf f = Some b"
  shows "max_frag_payload (stored_conn k j fi payload c) = max_frag_payload c"
    "ch_frags (chan_at (stored_conn k j fi payload c) k) j = stored_frag f fi payload"
    "frag_find (chan_at (stored_conn k j fi payload c) k) seq = frag_find (chan_at c k) seq"
    "c_pool_store (stored_conn k j fi payload c) i =
      (if pool_ptr b + unat fi * max_frag_payload c \<le> i \<and> i < pool_ptr b + unat fi * max_frag_payload c + length payload
       then payload ! (i - (pool_ptr b + unat fi * max_frag_payload c)) else c_pool_store c i)"
proof -
  have "frag_find (chan_at (stored_conn k j fi payload c) k) seq = frag_find (chan_at c k) seq"
    unfolding frag_find_def by (rule arg_cong2 [where f = find]) (auto simp: stored_conn_def stored_frag_def Let_def assms)
  then show "frag_find (chan_at (stored_conn k j fi payload c) k) seq = frag_find (chan_at c k) seq" .
qed (simp_all add: stored_conn_def Let_def assms store_write)

lemma chunk_apart:
  assumes "i \<noteq> i'" and "x < length (chunk fp msg i)" and "y < length (chunk fp msg i')"
  shows "i * fp + x \<noteq> i' * fp + y"
proof
  assume "i * fp + x = i' * fp + y"
  then have "(i * fp + x) div fp = (i' * fp + y) div fp" by simp
  moreover have "x < fp" "y < fp" using assms by (auto simp: chunk_def)
  ultimately show False using assms(1) by simp
qed

lemma collect_one:
  assumes "collected c k seq j b msg n S" and "i < n" and "i \<notin> S" and "n \<le> 32"
  shows "collected (stored_conn k j (of_nat i) (chunk (max_frag_payload c) msg i) c) k seq j b msg n (insert i S)"
proof -
  define f where "f = ch_frags (chan_at c k) j"
  define fp where "fp = max_frag_payload c"
  have c: "frag_find (chan_at c k) seq = Some j" "fa_buf f = Some b" "unat (fa_total f) = n" "unat (fa_have f) = card S"
      "S \<subseteq> {..<n}" "\<And>x. x < n \<Longrightarrow> bit (fa_bitmask f) x \<longleftrightarrow> x \<in> S" "\<And>x. x \<in> S \<Longrightarrow> fa_offsets f x = length (chunk fp msg x)"
      "\<And>s x. s \<in> S \<Longrightarrow> x < length (chunk fp msg s) \<Longrightarrow> c_pool_store c (pool_ptr b + s * fp + x) = msg ! (s * fp + x)"
    using assms(1) by (auto simp: collected_def Let_def f_def fp_def)
  note frame = stored_conn_frame [OF f_def [symmetric] c(2), of "of_nat i" "chunk fp msg i", folded fp_def]
  have i: "unat (of_nat i :: u8) = i" using assms(2,4) by (simp add: unsigned_of_nat take_bit_nat_eq_self)
  have "finite S" using c(5) finite_subset by blast
  have "card S \<le> 32" using card_mono [OF _ c(5)] assms(4) by simp
  then have "unat (fa_have f + 1) = card (insert i S)"
    using c(4) \<open>finite S\<close> assms(3) by (simp add: unat_word_ariths)
  moreover have "c_pool_store (stored_conn k j (of_nat i) (chunk fp msg i) c) (pool_ptr b + s * fp + x) = msg ! (s * fp + x)"
    if "s \<in> insert i S" "x < length (chunk fp msg s)" for s x
  proof (cases "s = i")
    case True
    then show ?thesis using that by (simp add: frame(4) i chunk_nth)
  next
    case False
    have "\<not> (i * fp \<le> s * fp + x \<and> s * fp + x < i * fp + length (chunk fp msg i))"
      using chunk_apart [OF False that(2)] le_Suc_ex by (metis nat_add_left_cancel_less)
    then show ?thesis using c(8) [of s x] that False by (auto simp: frame(4) i)
  qed
  moreover have "bit (fa_bitmask f OR push_bit i 1) x \<longleftrightarrow> x \<in> insert i S" if "x < n" for x
    using c(6) [OF that] that assms(2,4) by (auto simp: bit_simps)
  ultimately show ?thesis
    using c assms(2) unfolding collected_def Let_def fp_def [symmetric] frame(1,2,3)
    by (auto simp: stored_frag_def i)
qed


lemma collect_step:
  assumes "collected c k seq j b msg n S" and "i < n" and "i \<notin> S" and "n \<le> 32"
    and "cut_into (max_frag_payload c) msg n" and "length msg \<le> NC_MAX_MSG"
  shows "frag_store k seq (of_nat i) ft (chunk (max_frag_payload c) msg i) c =
    (if card S + 1 = n then Some (j, length msg) else None,
     stored_conn k j (of_nat i) (chunk (max_frag_payload c) msg i) c)"
proof -
  define f where "f = ch_frags (chan_at c k) j"
  define fp where "fp = max_frag_payload c"
  define c' where "c' = stored_conn k j (of_nat i) (chunk fp msg i) c"
  have c: "frag_find (chan_at c k) seq = Some j" "fa_buf f = Some b" "unat (fa_total f) = n" "unat (fa_have f) = card S"
      "S \<subseteq> {..<n}" "\<not> bit (fa_bitmask f) i"
    using assms(1-3) by (auto simp: collected_def Let_def f_def)
  have i: "unat (of_nat i :: u8) = i" using assms(2,4) by (simp add: unsigned_of_nat take_bit_nat_eq_self)
  have fits: "i * fp + length (chunk fp msg i) \<le> NC_MAX_MSG"
    using chunk_end(2) [OF assms(5,2)] assms(6) by (simp add: fp_def)
  have less: "(of_nat i :: u8) < fa_total f" using assms(2) c(3) i by (simp add: word_less_nat_alt)
  have "finite S" "card S \<le> 32" using c(5) finite_subset card_mono [OF _ c(5)] assms(4) by auto
  then have full: "fa_have f + 1 = fa_total f \<longleftrightarrow> card S + 1 = n"
    using c(3,4) by (simp add: word_unat_eq_iff unat_word_ariths)
  have coll: "collected c' k seq j b msg n (insert i S)"
    unfolding c'_def fp_def by (rule collect_one [OF assms(1-4)])
  have compact: "frag_compact (stored_frag f (of_nat i) (chunk fp msg i)) c' = (length msg, c')" if "card S + 1 = n"
  proof -
    have "insert i S = {..<n}"
      using that assms(2,3) c(5) \<open>finite S\<close> by (intro card_subset_eq) auto
    moreover have f': "ch_frags (chan_at c' k) j = stored_frag f (of_nat i) (chunk fp msg i)" "max_frag_payload c' = fp"
      using stored_conn_frame(1,2) [OF f_def [symmetric] c(2)] by (simp_all add: c'_def fp_def)
    ultimately have "\<forall>x<n. fa_offsets (stored_frag f (of_nat i) (chunk fp msg i)) x = length (chunk fp msg x)"
      using coll by (auto simp: collected_def Let_def)
    from compact_proper [OF assms(5) [folded fp_def] this order_refl] assms(5)
    show ?thesis by (simp add: frag_compact_def f' stored_frag_def c(3) cut_into_def fp_def)
  qed
  show ?thesis
    using frag_store_known [OF c(1) f_def less _ _, of "chunk fp msg i" ft] c(6) fits full compact
    by (simp add: i fp_def [symmetric] c'_def)
qed

lemma collected_full:
  assumes "collected c k seq j b msg n {..<n}" and "cut_into (max_frag_payload c) msg n"
  shows "fst (buf_read (fa_buf (ch_frags (chan_at c k) j)) 0 (length msg) c) = msg"
proof -
  define fp where "fp = max_frag_payload c"
  have "c_pool_store c (pool_ptr b + x) = msg ! x" if "x < length msg" for x
  proof -
    have fp: "0 < fp" "x < n * fp" using assms(2) that by (auto simp: fp_def cut_into_def)
    then have i: "x div fp < n" by (simp add: div_less_iff_less_mult)
    have inside: "r < l" if "a + r < m" "r < fp" "a + l = min (fp + a) m" for a r l m :: nat
      using that by auto
    have "x mod fp < length (chunk fp msg (x div fp))"
      by (rule inside [of "x div fp * fp" _ "length msg"])
        (use that fp chunk_end(2) [OF assms(2) i] in \<open>simp_all add: fp_def [symmetric]\<close>)
    with assms(1) i have "c_pool_store c (pool_ptr b + x div fp * fp + x mod fp) = msg ! (x div fp * fp + x mod fp)"
      unfolding collected_def Let_def fp_def by blast
    then show ?thesis by (simp add: add.assoc)
  qed
  then have "fst (buf_read (Some b) 0 (length msg) c) = msg"
    unfolding read_bytes_store by (intro nth_equalityI) simp_all
  then show ?thesis using assms(1) by (simp add: collected_def Let_def)
qed

text \<open>The fragments with the given numbers, in that order.\<close>

definition feed_fragments :: "nat \<Rightarrow> u16 \<Rightarrow> nat \<Rightarrow> nat \<Rightarrow> u8 list \<Rightarrow> nat list \<Rightarrow> netchan_conn \<Rightarrow> netchan_conn" where
  "feed_fragments k seq n fp msg is c =
    fold (\<lambda>i c'. snd (frag_store k seq (of_nat i) (of_nat n) (chunk fp msg i) c')) is c"

lemma collect_all:
  assumes "collected c k seq j b msg n S" and "distinct is" and "set is \<inter> S = {}" and "set is \<subseteq> {..<n}" and "n \<le> 32"
    and "cut_into (max_frag_payload c) msg n" and "length msg \<le> NC_MAX_MSG"
  shows "collected (feed_fragments k seq n (max_frag_payload c) msg is c) k seq j b msg n (set is \<union> S) \<and>
    max_frag_payload (feed_fragments k seq n (max_frag_payload c) msg is c) = max_frag_payload c"
  using assms
proof (induction "is" arbitrary: c S)
  case (Cons i "is")
  let ?c = "stored_conn k j (of_nat i) (chunk (max_frag_payload c) msg i) c"
  have fp: "max_frag_payload ?c = max_frag_payload c"
    using Cons.prems(1) stored_conn_frame(1) by (auto simp: collected_def Let_def)
  have one: "collected ?c k seq j b msg n (insert i S)"
    using Cons.prems by (intro collect_one) auto
  have "feed_fragments k seq n (max_frag_payload c) msg (i # is) c = feed_fragments k seq n (max_frag_payload ?c) msg is ?c"
    using collect_step [OF Cons.prems(1), of i] Cons.prems fp by (simp add: feed_fragments_def)
  with Cons.IH [OF one] Cons.prems fp show ?case by simp
qed (simp add: feed_fragments_def)

lemma collect_none:
  assumes "frag_find (chan_at c k) seq = None" and "frag_alloc k seq (of_nat n) c = (Some j, c1)" and "n \<le> 32"
  shows "\<exists>b. collected c1 k seq j b msg n {} \<and> max_frag_payload c1 = max_frag_payload c"
proof -
  obtain b c0 where g: "pool_get c = (Some b, c0)"
      and c1: "c1 = upd_chan k (\<lambda>ch. ch\<lparr>ch_frags := (ch_frags ch)(j := zero_frag\<lparr>fa_seq := seq,
                    fa_total := of_nat n, fa_active := True, fa_buf := Some b\<rparr>)\<rparr>) c0"
    using assms(2) by (auto simp: frag_alloc_def split: if_splits option.splits prod.splits)
  have "max_frag_payload c0 = max_frag_payload c" using g by (auto simp: pool_get_def split: list.splits)
  then show ?thesis
    using frag_store_new [OF assms(1,2)] assms(3)
    by (auto simp: collected_def Let_def c1 zero_frag_def unsigned_of_nat take_bit_nat_eq_self)
qed



lemma idle_receiver_fields:
  "frag_find (chan_at idle_receiver 0) seq = None" "max_frag_payload idle_receiver = 1185"
  "\<exists>c1. frag_alloc 0 seq 2 idle_receiver = (Some 0, c1) \<and> fa_buf (ch_frags (chan_at c1 0) 0) = Some 63"
proof -
  have ch: "ch_frags (chan_at idle_receiver 0) = (\<lambda>_. zero_frag)"
    by (simp add: idle_receiver_def fresh_chan_ok zero_chan_def)
  then show "frag_find (chan_at idle_receiver 0) seq = None"
    by (simp add: frag_find_def find_None_iff zero_frag_def)
  show "max_frag_payload idle_receiver = 1185"
    by (simp add: idle_receiver_def max_frag_payload_def upd_chan_def fresh_chan_ok netchan_cfg_default_def NC_DEFAULT_MTU_def)
  have "find (\<lambda>i. \<not> fa_active ((\<lambda>_. zero_frag) i)) [0..<NC_FRAG_SLOTS] = Some 0"
    by (simp add: NC_FRAG_SLOTS_def upt_conv_Cons zero_frag_def)
  moreover have "[0..<64] = [0..<63] @ [63]"
    using upt_Suc_append [of 0 63] by simp
  then have "c_pool_free idle_receiver = 63 # rev [0..<63]"
    by (simp add: idle_receiver_def upd_chan_def fresh_chan_def chan_new_def netchan_open_def pool_init_def NC_POOL_BUFS_def
        first_slot)
  ultimately show "\<exists>c1. frag_alloc 0 seq 2 idle_receiver = (Some 0, c1) \<and> fa_buf (ch_frags (chan_at c1 0) 0) = Some 63"
    by (simp add: frag_alloc_def NC_MAX_FRAGS_def ch pool_get_def)
qed


subsection \<open>Fragments of another size\<close>

lemma enqueue_too_big: "NC_MAX_MSG < length data \<Longrightarrow> fst (chan_recv_enqueue k data c) = c"
  by (simp add: chan_recv_enqueue_def Let_def)

text \<open>
  Fragments can overrun their buffer. The check on a fragment bounds where it is stored, not what it
  adds to the message when the fragments are moved together: two fragments that each pass the check,
  the first longer than the fragment size, are compacted to 2348 bytes, and the last 300 bytes of
  the second one land in the next message buffer, whoever owns it, or, from the last buffer, in
  whatever follows the pool.
\<close>

theorem fragments_overrun:
  assumes "frag_find (chan_at c k) seq = None" and "frag_alloc k seq 2 c = (Some j, c1)"
    and "fa_buf (ch_frags (chan_at c1 k) j) = Some b" and "max_frag_payload c = 1185"
    and "length p0 = 1485" and "length p1 = 863" and "x < 300"
  shows "c_pool_store (data_unreliable k seq 1 2 p1 (data_unreliable k seq 0 2 p0 c)) (pool_ptr (b + 1) + x) = p1 ! (563 + x)"
proof -
  define f where "f = ch_frags (chan_at c1 k) j"
  have "\<exists>b. collected c1 k seq j b [] 2 {} \<and> max_frag_payload c1 = max_frag_payload c"
    using collect_none [OF assms(1), of 2 j c1 "[]"] assms(2) by simp
  then have f: "frag_find (chan_at c1 k) seq = Some j" "fa_buf f = Some b" "fa_total f = 2" "fa_have f = 0"
      "\<not> bit (fa_bitmask f) 0" "\<not> bit (fa_bitmask f) 1" and fp1: "max_frag_payload c1 = 1185"
    using assms(3,4) by (auto simp: collected_def Let_def f_def word_unat_eq_iff)
  define c2 where "c2 = stored_conn k j 0 p0 c1"
  define f2 where "f2 = stored_frag f 0 p0"
  have "frag_store k seq 0 2 p0 c = (None, c2)"
    using frag_store_new [OF assms(1,2)] frag_store_known [OF f(1) f_def, of 0 p0 2] f assms(5)
    by (simp add: c2_def NC_MAX_MSG_def)
  moreover have two: "\<not> (2 :: u8) \<le> 1" by (simp add: word_le_nat_alt)
  ultimately have first: "data_unreliable k seq 0 2 p0 c = c2" by (simp add: data_unreliable_def)
  have c2: "ch_frags (chan_at c2 k) j = f2" "frag_find (chan_at c2 k) seq = Some j" "max_frag_payload c2 = 1185"
    using stored_conn_frame [OF f_def [symmetric] f(2)] f(1) fp1 by (simp_all add: c2_def f2_def)
  have f2: "fa_buf f2 = Some b" "fa_total f2 = 2" "fa_have f2 = 1" "\<not> bit (fa_bitmask f2) 1"
    using f by (simp_all add: f2_def stored_frag_def bit_simps)
  define f3 where "f3 = stored_frag f2 1 p1"
  define c3 where "c3 = stored_conn k j 1 p1 c2"
  have f3: "fa_buf f3 = Some b" "fa_total f3 = 2" "fa_offsets f3 0 = 1485" "fa_offsets f3 1 = 863"
    using f2 assms(5,6) by (simp_all add: f3_def stored_frag_def f2_def)
  have c3: "c_pool_store c3 i = (if pool_ptr b + 1185 \<le> i \<and> i < pool_ptr b + 2048 then p1 ! (i - (pool_ptr b + 1185)) else c_pool_store c2 i)"
      "max_frag_payload c3 = 1185" for i
    using stored_conn_frame(1,4) [OF c2(1) f2(1), of 1 p1] c2(3) assms(6) by (simp_all add: c3_def)
  define c4 where "c4 = buf_write (Some b) 1485 (fst (buf_read (Some b) 1185 863 c3)) (snd (buf_read (Some b) 1185 863 c3))"
  have "[0..<unat (2 :: u8)] = [0, 1]" by (simp add: upt_rec)
  then have "frag_compact f3 c3 = (2348, c4)"
    using f3(4) by (simp add: frag_compact_def c3(2) f3 frag_move_def case_prod_beta c4_def)
  then have store: "frag_store k seq 1 2 p1 c2 = (Some (j, 2348), c4)"
    using frag_store_known [OF c2(2) c2(1) [symmetric], of 1 p1 2] f2 c2(3) assms(6)
    by (simp add: NC_MAX_MSG_def f3_def [symmetric] c3_def [symmetric])
  have "c_pool_store (data_unreliable k seq 1 2 p1 c2) = c_pool_store c4"
    using two by (simp add: data_unreliable_def store Let_def case_prod_beta frag_free_def enqueue_too_big NC_MAX_MSG_def)
  moreover have "c_pool_store c4 (pool_ptr b + 1485 + t) = p1 ! t" if "t < 863" for t
    using that by (simp add: c4_def store_write read_bytes_store c3(1))
  from this [of "563 + x"] assms(7) have "c_pool_store c4 (pool_ptr (b + 1) + x) = p1 ! (563 + x)"
    by (simp add: pool_ptr_def NC_MAX_MSG_def ac_simps)
  ultimately show ?thesis by (simp add: first)
qed

theorem fragments_overrun_witness:
  "c_pool_store (data_unreliable 0 0 1 2 (replicate 863 0xAA) (data_unreliable 0 0 0 2 (replicate 1485 0) idle_receiver))
     (pool_ptr 64 + 299) = 0xAA"
proof -
  obtain c1 where "frag_alloc 0 0 2 idle_receiver = (Some 0, c1)" "fa_buf (ch_frags (chan_at c1 0) 0) = Some 63"
    using idle_receiver_fields(3) by blast
  from fragments_overrun [OF idle_receiver_fields(1) this, of "replicate 1485 0" "replicate 863 0xAA" 299]
  show ?thesis by (simp add: idle_receiver_fields)
qed

end
