(* ===== verification/Nc_Queue.thy ===== *)
theory Nc_Queue
  imports Nc_Fragments
begin

text \<open>
  The receive queue of a channel implements the bounded queue of \<open>Nc_Ring\<close> over the contents of the
  shared buffer pool: because every buffer has one owner, what is stored for one message is not
  disturbed by later ones, and the messages are read whole and in the order in which they came.
\<close>

definition rq_slots :: "netchan_chan \<Rightarrow> nat list" where
  "rq_slots ch = ring_slots 64 (ch_rq_head ch) (ch_rq_tail ch)"

definition rq_msg :: "netchan_conn \<Rightarrow> nc_recv_entry \<Rightarrow> u8 list" where
  "rq_msg c e = fst (buf_read (re_buf e) 0 (re_len e) c)"

definition rq_msgs :: "nat \<Rightarrow> netchan_conn \<Rightarrow> u8 list list" where
  "rq_msgs k c = map (\<lambda>i. rq_msg c (ch_recv_queue (chan_at c k) i)) (rq_slots (chan_at c k))"

definition rq_valid :: "nat \<Rightarrow> netchan_conn \<Rightarrow> bool" where
  "rq_valid k c \<longleftrightarrow> netchan_inv c \<and> in_use c k \<and> ch_role (chan_at c k) = 1 \<and>
     (\<forall>i \<in> set (rq_slots (chan_at c k)). re_len (ch_recv_queue (chan_at c k) i) \<le> 2048)"

definition rq_room :: "nat \<Rightarrow> u8 list \<Rightarrow> netchan_conn \<Rightarrow> bool" where
  "rq_room k m c \<longleftrightarrow> length (rq_msgs k c) < 63 \<and> length m \<le> 2048 \<and> c_pool_free c \<noteq> []"

definition rq_pop :: "nat \<Rightarrow> netchan_conn \<Rightarrow> u8 list option \<times> netchan_conn" where
  "rq_pop k c =
    (if ch_rq_head (chan_at c k) = ch_rq_tail (chan_at c k) then None else Some (fst (fst (netchan_chan_read k 2048 c))),
     snd (netchan_chan_read k 2048 c))"

text \<open>A buffer on the free stack is held by no slot.\<close>

lemma slot_member: "i < n \<Longrightarrow> g (a i) = Some b \<Longrightarrow> b \<in># slot_bufs n g a"
  by (simp add: slot_bufs_def sum.remove [of "{..<n}" i])

lemma owned_member: "in_use c k \<Longrightarrow> b \<in># chan_bufs (chan_at c k) \<Longrightarrow> b \<in># owned c"
  by (simp add: owned_def sum.remove [of "{k. in_use c k}" k])

lemma free_not_owned:
  assumes "netchan_inv c" and "b \<in> set (c_pool_free c)"
  shows "b \<notin># owned c" and "b < 64"
proof -
  have sum: "mset (c_pool_free c) + owned c = mset [0..<64]"
    using assms(1) by (simp add: netchan_inv_with_def NC_POOL_BUFS_def)
  have "count (mset [0..<64]) b \<le> 1" by (simp add: count_mset_set')
  moreover have "count (mset (c_pool_free c)) b \<ge> 1" using assms(2) by (simp add: Suc_le_eq)
  moreover have "count (mset (c_pool_free c)) b + count (owned c) b = count (mset [0..<64]) b"
    by (metis sum count_union)
  ultimately have "count (owned c) b = 0" by linarith
  then show "b \<notin># owned c" by (simp add: count_eq_zero_iff)
  have "b \<in># mset (c_pool_free c) + owned c" using assms(2) by simp
  then show "b < 64" unfolding sum by simp
qed

lemma queued_not_free:
  assumes "netchan_inv c" and "in_use c k" and "b \<in> set (c_pool_free c)" and "i < 64"
  shows "re_buf (ch_recv_queue (chan_at c k) i) \<noteq> Some b"
proof
  assume "re_buf (ch_recv_queue (chan_at c k) i) = Some b"
  with assms(4) have "b \<in># chan_bufs (chan_at c k)"
    using slot_member [of i 64 re_buf "ch_recv_queue (chan_at c k)" b] by (simp add: chan_bufs_def)
  with owned_member [OF assms(2)] free_not_owned(1) [OF assms(1,3)] show False by blast
qed

text \<open>Writing into one buffer leaves the messages in the others alone.\<close>

lemma rq_msg_write:
  assumes "re_buf e = Some b'" and "b' \<noteq> b" and "re_len e \<le> 2048" and "length d \<le> 2048"
  shows "rq_msg (buf_write (Some b) 0 d c) e = rq_msg c e"
proof -
  have "c_pool_store (buf_write (Some b) 0 d c) (pool_ptr b' + x) = c_pool_store c (pool_ptr b' + x)" if "x < 2048" for x
  proof -
    have "\<not> (pool_ptr b \<le> pool_ptr b' + x \<and> pool_ptr b' + x < pool_ptr b + length d)"
      using pool_ptr_apart [OF assms(2) that] assms(4) le_Suc_ex
      by (metis nat_add_left_cancel_less order_less_le_trans)
    then show ?thesis by (auto simp: store_write)
  qed
  then have "map (c_pool_store (buf_write (Some b) 0 d c)) [pool_ptr b'..<pool_ptr b' + re_len e] =
      map (c_pool_store c) [pool_ptr b'..<pool_ptr b' + re_len e]"
    using assms(3) by (intro nth_equalityI) simp_all
  then show ?thesis
    using assms(1) by (simp add: rq_msg_def read_bytes_store)
qed

lemma rq_slot_bound: "chan_ok ch \<Longrightarrow> i \<in> set (rq_slots ch) \<Longrightarrow> i < 64 \<and> re_buf (ch_recv_queue ch i) \<noteq> None"
  using ring_less [of i 64 "ch_rq_head ch" "ch_rq_tail ch"] by (auto simp: chan_ok_def rq_slots_def)

lemma rq_full: "chan_ok ch \<Longrightarrow> Suc (ch_rq_tail ch) mod 64 = ch_rq_head ch \<longleftrightarrow> length (rq_slots ch) = 63"
  using ring_full [of "ch_rq_head ch" 64 "ch_rq_tail ch"] by (simp add: chan_ok_def rq_slots_def)

lemma rq_bound: "chan_ok ch \<Longrightarrow> length (rq_slots ch) \<le> 63"
  using ring_room [of "ch_rq_head ch" 64 "ch_rq_tail ch"] by (simp add: chan_ok_def rq_slots_def)

lemma push_dropped:
  assumes "rq_valid k c" and "\<not> rq_room k m c"
  shows "fst (chan_recv_enqueue k m c) = c"
proof -
  have "chan_ok (chan_at c k)" using assms(1) inv_chan_ok by (auto simp: rq_valid_def)
  with rq_full rq_bound assms(2) show ?thesis
    by (force simp: rq_room_def rq_msgs_def chan_recv_enqueue_def Let_def NC_RECV_QUEUE_def NC_MAX_MSG_def pool_get_def)
qed


lemma push_queued:
  assumes "rq_valid k c" and "rq_room k m c"
  shows "rq_valid k (fst (chan_recv_enqueue k m c)) \<and> rq_msgs k (fst (chan_recv_enqueue k m c)) = rq_msgs k c @ [m] \<and>
    length (c_pool_free c) = Suc (length (c_pool_free (fst (chan_recv_enqueue k m c))))"
proof -
  let ?ch = "chan_at c k"
  have v: "netchan_inv c" "in_use c k" "ch_role ?ch = 1"
      "\<And>i. i \<in> set (rq_slots ?ch) \<Longrightarrow> re_len (ch_recv_queue ?ch i) \<le> 2048"
    using assms(1) by (auto simp: rq_valid_def)
  note ok = inv_chan_ok [OF v(1,2)]
  then have ht: "ch_rq_head ?ch < 64" "ch_rq_tail ?ch < 64" by (simp_all add: chan_ok_def)
  have m: "length m \<le> 2048" "Suc (ch_rq_tail ?ch) mod 64 \<noteq> ch_rq_head ?ch"
    using assms(2) rq_full [OF ok] by (auto simp: rq_room_def rq_msgs_def)
  obtain b bs where bs: "c_pool_free c = b # bs" using assms(2) by (auto simp: rq_room_def neq_Nil_conv)
  define c0 where "c0 = c\<lparr>c_pool_free := bs\<rparr>"
  have g: "pool_get c = (Some b, c0)" by (simp add: pool_get_def bs c0_def)
  define c' where "c' = fst (chan_recv_enqueue k m c)"
  have eq: "c' = upd_chan k (\<lambda>ch. ch\<lparr>
        ch_recv_queue := (ch_recv_queue ch)(ch_rq_tail ch := \<lparr>re_buf = Some b, re_len = length m\<rparr>),
        ch_rq_tail := Suc (ch_rq_tail ?ch) mod 64, ch_recv_buffered := ch_recv_buffered ch + of_nat (length m),
        ch_msgs_recv := ch_msgs_recv ch + 1\<rparr>) (buf_write (Some b) 0 m c0)"
    unfolding c'_def by (subst enqueue_accepted [OF g]) (use m in \<open>simp_all add: NC_MAX_MSG_def\<close>)
  have ch': "ch_rq_head (chan_at c' k) = ch_rq_head ?ch" "ch_rq_tail (chan_at c' k) = Suc (ch_rq_tail ?ch) mod 64"
      "ch_recv_queue (chan_at c' k) = (ch_recv_queue ?ch)(ch_rq_tail ?ch := \<lparr>re_buf = Some b, re_len = length m\<rparr>)"
      "ch_role (chan_at c' k) = 1"
    using v(3) by (simp_all add: eq pool_get_frame [OF g])
  have slots: "rq_slots (chan_at c' k) = rq_slots ?ch @ [ch_rq_tail ?ch]"
    unfolding rq_slots_def ch' by (rule ring_push [OF ht m(2)])
  have store: "rq_msg c' e = rq_msg (buf_write (Some b) 0 m c0) e" "rq_msg c0 e = rq_msg c e" for e
    by (cases "re_buf e"; simp add: rq_msg_def buf_read_def eq c0_def Let_def)+
  have old: "rq_msg c' (ch_recv_queue ?ch i) = rq_msg c (ch_recv_queue ?ch i)" if i: "i \<in> set (rq_slots ?ch)" for i
  proof -
    obtain b' where "re_buf (ch_recv_queue ?ch i) = Some b'" using rq_slot_bound [OF ok i] by auto
    moreover from this have "b' \<noteq> b" using queued_not_free [OF v(1,2), of b i] rq_slot_bound [OF ok i] bs by auto
    ultimately show ?thesis using rq_msg_write [of _ b' b m c0] v(4) [OF i] m(1) by (simp add: store)
  qed
  have tail: "ch_rq_tail ?ch \<notin> set (rq_slots ?ch)" using ht by (simp add: rq_slots_def)
  have "rq_msg c' \<lparr>re_buf = Some b, re_len = length m\<rparr> = m"
    unfolding store(1) by (simp add: rq_msg_def read_write_same)
  then have "rq_msgs k c' = rq_msgs k c @ [m]"
    using old tail by (auto simp: rq_msgs_def slots ch'(3))
  moreover have "rq_valid k c'"
    using enqueue_inv [OF v(1,2), of m] v tail m(1) by (auto simp: rq_valid_def slots ch' c'_def [symmetric]) (simp_all add: c'_def)
  moreover have "length (c_pool_free c) = Suc (length (c_pool_free c'))"
    by (simp add: bs eq c0_def buf_write_def Let_def)
  ultimately show ?thesis by (simp add: c'_def)
qed

lemma pop_head:
  assumes "rq_valid k c" and "rq_msgs k c = m # ms"
  shows "fst (rq_pop k c) = Some m \<and> rq_msgs k (snd (rq_pop k c)) = ms \<and> rq_valid k (snd (rq_pop k c))"
proof -
  let ?ch = "chan_at c k"
  have v: "netchan_inv c" "in_use c k" "ch_role ?ch = 1"
      "\<And>i. i \<in> set (rq_slots ?ch) \<Longrightarrow> re_len (ch_recv_queue ?ch i) \<le> 2048"
    using assms(1) by (auto simp: rq_valid_def)
  note ok = inv_chan_ok [OF v(1,2)]
  then have ht: "ch_rq_head ?ch < 64" "ch_rq_tail ?ch < 64" by (simp_all add: chan_ok_def)
  have ne: "ch_rq_head ?ch \<noteq> ch_rq_tail ?ch" using assms(2) by (auto simp: rq_msgs_def rq_slots_def)
  note pop = ring_pop [OF ht ne]
  define h where "h = ch_rq_head ?ch"
  define e where "e = ch_recv_queue ?ch h"
  have len: "re_len e \<le> 2048" using v(4) [of h] pop by (simp add: rq_slots_def e_def h_def)
  then have n: "min (re_len e) 2048 = re_len e" by simp
  define c' where "c' = snd (netchan_chan_read k 2048 c)"
  have c': "c' = upd_chan k (\<lambda>ch. ch\<lparr>ch_recv_queue := (ch_recv_queue ch)(ch_rq_head ch := \<lparr>re_buf = None, re_len = 0\<rparr>),
             ch_rq_head := Suc (ch_rq_head ch) mod 64, ch_recv_buffered := ch_recv_buffered ch - of_nat (re_len e),
             ch_need_window_update := True\<rparr>) (pool_put (re_buf e) (snd (buf_read (re_buf e) 0 (re_len e) c)))"
    using v(3) ne by (simp add: c'_def netchan_chan_read_def Let_def case_prod_beta NC_RECV_QUEUE_def n
        e_def [symmetric] h_def [symmetric])
  have first: "fst (fst (netchan_chan_read k 2048 c)) = rq_msg c e"
    using v(3) ne by (simp add: netchan_chan_read_def Let_def case_prod_beta rq_msg_def n e_def [symmetric] h_def [symmetric])
  have slots: "rq_slots ?ch = h # rq_slots (chan_at c' k)"
    using pop by (simp add: rq_slots_def c' h_def)
  have "h \<notin> set (rq_slots (chan_at c' k))"
    using ring_distinct [OF ht] slots by (simp add: rq_slots_def)
  moreover have "c_pool_store c' = c_pool_store c"
    by (simp add: c')
  then have "rq_msg c' x = rq_msg c x" for x
    by (cases "re_buf x") (simp_all add: rq_msg_def buf_read_def Let_def)
  ultimately have "rq_msgs k c' = map (\<lambda>i. rq_msg c (ch_recv_queue ?ch i)) (rq_slots (chan_at c' k))"
    by (auto simp: rq_msgs_def c' h_def)
  with assms(2) slots have "rq_msgs k c' = ms" "rq_msg c e = m"
    by (auto simp: rq_msgs_def e_def)
  moreover have "rq_valid k c'"
    using netchan_chan_read_inv [OF v(1,2), of 2048] v \<open>h \<notin> _\<close> slots
    by (auto simp: rq_valid_def c'_def [symmetric]) (auto simp: c' h_def)
  ultimately show ?thesis
    using ne first by (simp add: rq_pop_def c'_def)
qed

interpretation rq: bounded_queue "rq_valid k" "rq_msgs k" "rq_room k" "\<lambda>m c. fst (chan_recv_enqueue k m c)" "rq_pop k" for k
proof (unfold_locales, goal_cases)
  case (1 c m)
  then show ?case using push_queued [of k c m] push_dropped [of k c m] by (cases "rq_room k m c") auto
next
  case (2 c m)
  then show ?case using push_queued [of k c m] push_dropped [of k c m] by (cases "rq_room k m c") auto
next
  case empty: (4 c)
  then have "chan_ok (chan_at c k)" using inv_chan_ok by (auto simp: rq_valid_def)
  with empty have "ch_rq_head (chan_at c k) = ch_rq_tail (chan_at c k)"
    by (auto simp: rq_msgs_def rq_slots_def chan_ok_def ring_empty_iff)
  with empty show ?case by (simp add: rq_pop_def netchan_chan_read_def rq_valid_def)
next
  case (3 c)
  then have ok: "chan_ok (chan_at c k)" using inv_chan_ok by (auto simp: rq_valid_def)
  show ?case
  proof (cases "rq_msgs k c")
    case Nil
    with ok have "ch_rq_head (chan_at c k) = ch_rq_tail (chan_at c k)"
      by (auto simp: rq_msgs_def rq_slots_def chan_ok_def ring_empty_iff)
    with 3 show ?thesis by (simp add: rq_pop_def netchan_chan_read_def rq_valid_def)
  next
    case (Cons m ms)
    with pop_head [OF 3] show ?thesis by blast
  qed
next
  case (5 c m ms)
  then show ?case using pop_head by blast
qed

text \<open>While slots and buffers last, nothing is dropped.\<close>

lemma pushes_queued:
  assumes "rq_valid k c" and "length (rq_msgs k c) + length ms \<le> 63"
    and "length ms \<le> length (c_pool_free c)" and "list_all (\<lambda>m. length m \<le> 2048) ms"
  shows "rq_msgs k (fold (\<lambda>m c. fst (chan_recv_enqueue k m c)) ms c) = rq_msgs k c @ ms"
  using assms
proof (induction ms arbitrary: c)
  case (Cons m ms)
  then have "rq_room k m c" by (auto simp: rq_room_def)
  from push_queued [OF Cons.prems(1) this] Cons.prems Cons.IH [of "fst (chan_recv_enqueue k m c)"]
  show ?case by simp
qed simp

text \<open>
  C25. The receive queue refines a bounded queue. Up to 63 messages of at most 2048 bytes that arrive on
  a channel whose queue is empty, while the shared pool has a buffer for each, are read back whole
  and in order of arrival, however the reads are split; no message disturbs another although all
  are kept in one array.
\<close>

theorem recv_queue_fifo:
  assumes "rq_valid k c" and "rq_msgs k c = []" and "length ms \<le> 63"
    and "length ms \<le> length (c_pool_free c)" and "list_all (\<lambda>m. length m \<le> 2048) ms"
  shows "fst (rq.pops k n (fold (\<lambda>m c. fst (chan_recv_enqueue k m c)) ms c)) = take n ms \<and>
    rq_msgs k (snd (rq.pops k n (fold (\<lambda>m c. fst (chan_recv_enqueue k m c)) ms c))) = drop n ms"
  using rq.pops_contents [OF rq.pushes_valid [OF assms(1)]] pushes_queued [OF assms(1) _ assms(4,5)] assms(2,3)
  by simp

lemma idle_queue:
  "rq_valid 0 idle_receiver" "rq_msgs 0 idle_receiver = []" "length (c_pool_free idle_receiver) = 64"
proof -
  have inv: "netchan_inv idle_receiver" using idle_ready(2) by (simp add: receiver_ready_def Let_def)
  have ch: "chan_at idle_receiver 0 = (chan_at (fresh_chan 1) 0)\<lparr>ch_state := 1\<rparr>"
    by (simp add: idle_receiver_def)
  have use: "in_use idle_receiver 0" using fresh_chan_ok(2) by (simp add: idle_receiver_def)
  have slots: "rq_slots (chan_at idle_receiver 0) = []"
    by (simp add: rq_slots_def ch fresh_chan_ok zero_chan_def)
  show "rq_valid 0 idle_receiver"
    using inv use slots by (simp add: rq_valid_def) (simp add: ch fresh_chan_ok)
  show "rq_msgs 0 idle_receiver = []" by (simp add: rq_msgs_def slots)
  show "length (c_pool_free idle_receiver) = 64"
    by (simp add: idle_receiver_def upd_chan_def fresh_chan_def chan_new_def first_slot netchan_open_def pool_init_def NC_POOL_BUFS_def)
qed

theorem recv_queue_fifo_witness:
  "fst (rq.pops 0 2 (fold (\<lambda>m c. fst (chan_recv_enqueue 0 m c)) [[1, 2], [], [3]] idle_receiver)) = [[1, 2], []]"
  using recv_queue_fifo [OF idle_queue(1,2), of "[[1, 2], [], [3]]" 2] idle_queue(3) by (simp add: numeral_2_eq_2)

end
