(* ===== verification/Nc_Later.thy ===== *)
theory Nc_Later
  imports Nc_Queue
begin

text \<open>
  What the calls of netchan leave in place, for a caller that holds pointers to channels: the
  configuration stays, a channel in use stays in use, and every event names a channel in use. The sending
  half moreover leaves the receive queues alone.
\<close>

section \<open>Channels stay\<close>

definition nc_later :: "netchan_conn \<Rightarrow> netchan_conn \<Rightarrow> bool" where
  "nc_later c c' \<longleftrightarrow> c_cfg c' = c_cfg c \<and> (\<forall>k. in_use c k \<longrightarrow> in_use c' k) \<and>
     (\<forall>i k. ev_ch (c_events c' i) = Some k \<longrightarrow> ev_ch (c_events c i) = Some k \<or> in_use c' k)"

lemma later_refl [simp]: "nc_later c c"
  by (simp add: nc_later_def)

lemma later_trans: "nc_later a b \<Longrightarrow> nc_later b c \<Longrightarrow> nc_later a c"
  by (auto simp: nc_later_def) metis

lemma later_in_use: "nc_later c c' \<Longrightarrow> in_use c k \<Longrightarrow> in_use c' k"
  by (simp add: nc_later_def)

text \<open>Most primitives touch none of it.\<close>

lemma later_same:
  "c_cfg d = c_cfg c' \<Longrightarrow> in_use d = in_use c' \<Longrightarrow> c_events d = c_events c' \<Longrightarrow> nc_later c d = nc_later c c'"
  by (simp add: nc_later_def)

lemma later_fields [simp]:
  "nc_later c (c'\<lparr>c_local_id := a\<rparr>) = nc_later c c'" "nc_later c (c'\<lparr>c_remote_id := a\<rparr>) = nc_later c c'"
  "nc_later c (c'\<lparr>c_state := st\<rparr>) = nc_later c c'" "nc_later c (c'\<lparr>c_peer_addr := ad\<rparr>) = nc_later c c'"
  "nc_later c (c'\<lparr>c_next_pkt_num := pn\<rparr>) = nc_later c c'" "nc_later c (c'\<lparr>c_last_recv_ms := a\<rparr>) = nc_later c c'"
  "nc_later c (c'\<lparr>c_last_send_ms := a\<rparr>) = nc_later c c'" "nc_later c (c'\<lparr>c_connect_sent_ms := a\<rparr>) = nc_later c c'"
  "nc_later c (c'\<lparr>c_connect_attempts := ca\<rparr>) = nc_later c c'" "nc_later c (c'\<lparr>c_ping_sent_ms := a\<rparr>) = nc_later c c'"
  "nc_later c (c'\<lparr>c_ping_opaque := a\<rparr>) = nc_later c c'" "nc_later c (c'\<lparr>c_rtt_ms := a\<rparr>) = nc_later c c'"
  "nc_later c (c'\<lparr>c_rtt_min_ms := a\<rparr>) = nc_later c c'" "nc_later c (c'\<lparr>c_pkts_sent := a\<rparr>) = nc_later c c'"
  "nc_later c (c'\<lparr>c_pkts_recv := a\<rparr>) = nc_later c c'" "nc_later c (c'\<lparr>c_next_chan_id := ci\<rparr>) = nc_later c c'"
  "nc_later c (c'\<lparr>c_pool_free := pf\<rparr>) = nc_later c c'" "nc_later c (c'\<lparr>c_pool_store := ps\<rparr>) = nc_later c c'"
  "nc_later c (c'\<lparr>c_ev_head := h\<rparr>) = nc_later c c'" "nc_later c (c'\<lparr>c_ctrl_buf := bs\<rparr>) = nc_later c c'"
  "nc_later c (c'\<lparr>c_clock := ck\<rparr>) = nc_later c c'" "nc_later c (c'\<lparr>c_entropy := ck\<rparr>) = nc_later c c'"
  "nc_later c (c'\<lparr>nc_ub := u\<rparr>) = nc_later c c'" "nc_later c (upd_chan k f c') = nc_later c c'"
  by (rule later_same; simp add: fun_eq_iff in_use_def upd_chan_def)+

lemma later_prims [simp]:
  "nc_later c (ctrl_append fr c') = nc_later c c'" "nc_later c (buf_write b off d c') = nc_later c c'"
  "nc_later c (snd (buf_read b off n c')) = nc_later c c'" "nc_later c (snd (nc_now_ms c')) = nc_later c c'"
  "nc_later c (snd (nc_random_id c')) = nc_later c c'" "nc_later c (pool_put b c') = nc_later c c'"
  by (simp_all add: ctrl_append_def buf_write_def buf_read_def nc_now_ms_def nc_random_id_def pool_put_def Let_def
      split: option.split)

lemma later_ctrls [simp]:
  "nc_later c (ctrl_connect_init c') = nc_later c c'" "nc_later c (ctrl_connect_accept c') = nc_later c c'"
  "nc_later c (ctrl_ping x c') = nc_later c c'" "nc_later c (ctrl_pong x c') = nc_later c c'"
  "nc_later c (ctrl_channel_open ch c') = nc_later c c'" "nc_later c (ctrl_channel_close i r c') = nc_later c c'"
  "nc_later c (ctrl_window_update i x c') = nc_later c c'"
  by (simp_all add: ctrl_connect_init_def ctrl_connect_accept_def ctrl_ping_def ctrl_pong_def ctrl_channel_open_def
      ctrl_channel_close_def ctrl_window_update_def Let_def)

lemma later_pool_get: "pool_get c' = (x, d) \<Longrightarrow> nc_later c d = nc_later c c'"
  by (auto simp: pool_get_def split: list.splits)

lemma later_ev_put:
  assumes "nc_later c c'" and "\<And>k. ev_ch e = Some k \<Longrightarrow> in_use c' k"
  shows "nc_later c (ev_put e c')"
  using assms by (auto simp: nc_later_def ev_put_def Let_def in_use_def)

lemma later_evs [simp]:
  "nc_later c c' \<Longrightarrow> nc_later c (ev_push ty None c')"
  "nc_later c c' \<Longrightarrow> in_use c k \<Longrightarrow> nc_later c (ev_push ty (Some k) c')"
  "nc_later c c' \<Longrightarrow> nc_later c (ev_push_redirect ad i c')"
  by (auto simp: ev_push_def ev_push_redirect_def nc_zero_event_def intro!: later_ev_put intro: later_in_use)

subsection \<open>Receiving\<close>

lemma later_enqueue [simp]: "nc_later c (fst (chan_recv_enqueue k data c')) = nc_later c c'"
  by (cases k data c' rule: enqueue_cases) (simp_all add: later_pool_get)

lemma later_deliver_one [simp]: "nc_later c c' \<Longrightarrow> in_use c k \<Longrightarrow> nc_later c (deliver_one k c')"
  by (simp add: deliver_one_def Let_def case_prod_beta)

lemma later_deliver [simp]: "nc_later c c' \<Longrightarrow> in_use c k \<Longrightarrow> nc_later c (deliver_loop n k c')"
  by (induction n arbitrary: c') simp_all

lemma later_reorder [simp]: "nc_later c (reorder_store k seq data c') = nc_later c c'"
  by (auto simp: reorder_store_def Let_def later_pool_get split: prod.split option.split)

lemma later_reliable [simp]: "nc_later c c' \<Longrightarrow> in_use c k \<Longrightarrow> nc_later c (reliable_message k seq data c')"
  by (simp add: reliable_message_def Let_def chan_deliver_reordered_def)

lemma later_frag_alloc: "frag_alloc k seq tot c' = (r, d) \<Longrightarrow> nc_later c d = nc_later c c'"
  by (auto simp: frag_alloc_def later_pool_get split: if_splits option.splits prod.splits)

lemma later_frag_free [simp]: "nc_later c (frag_free k j c') = nc_later c c'"
  by (simp add: frag_free_def)

lemma later_compact: "nc_later c (snd (frag_compact f c')) = nc_later c c'"
proof -
  have "nc_later c (snd (fold (frag_move fp f) is s)) = nc_later c (snd s)" for fp "is" and s :: "nat \<times> netchan_conn"
    by (induction "is" arbitrary: s) (simp_all add: frag_move_def case_prod_beta Let_def)
  from this [of _ _ "(0, c')"] show ?thesis by (simp add: frag_compact_def)
qed

lemma later_frag_store [simp]: "nc_later c (snd (frag_store k seq fi ft payload c')) = nc_later c c'"
proof -
  obtain x c1 where s: "(case frag_find (chan_at c' k) seq of Some j \<Rightarrow> (Some j, c') | None \<Rightarrow> frag_alloc k seq ft c') = (x, c1)"
    by (metis surj_pair)
  then have 1: "nc_later c c1 = nc_later c c'" by (auto simp: later_frag_alloc split: option.splits)
  have "snd (frag_store k seq fi ft payload c') = c1 \<or>
      (\<exists>f b off. snd (frag_store k seq fi ft payload c') = upd_chan k f (buf_write b off payload c1) \<or>
        (\<exists>g. snd (frag_store k seq fi ft payload c') = snd (frag_compact g (upd_chan k f (buf_write b off payload c1)))))"
    using s unfolding frag_store_def Let_def by (auto simp: case_prod_beta split: option.split)
  with 1 show ?thesis by (auto simp: later_compact)
qed

lemma later_data [simp]:
  assumes "nc_later c c'" and "in_use c k"
  shows "nc_later c (data_unreliable k seq fi ft payload c')" "nc_later c (data_reliable k seq fi ft payload c')"
  using assms by (auto simp: data_unreliable_def data_reliable_def Let_def case_prod_beta split: option.split)

lemma later_ack_slots [simp]: "nc_later c (fold (ack_slot k seq) is c') = nc_later c c'"
  by (induction "is" arbitrary: c') (simp_all add: ack_slot_def Let_def)

lemma later_chan_new:
  assumes "nc_later c c'" and "chan_new i ty dir role ct c' = (r, d)"
  shows "nc_later c d \<and> (\<forall>k. r = Some k \<longrightarrow> in_use d k)"
proof (cases "find (\<lambda>i. \<not> c_chan_used c' i) [0..<NC_MAX_CHAN]")
  case (Some s)
  then show ?thesis
    using assms find_slot [OF Some] by (auto simp: chan_new_def nc_later_def in_use_def) blast+
qed (use assms in \<open>simp add: chan_new_def\<close>)

lemma later_channel_open: "nc_later c (fst (process_channel_open p c))"
proof -
  define role where "role = (if unat (p ! 3) = NETCHAN_DIR_SEND then 1 else 0 :: nat)"
  define n where "n = chan_new (p ! Suc 0) (unat (p ! 2)) (unat (p ! 3)) role (take (min (unat (p ! 4)) 63) (drop 5 p)) c"
  obtain r c1 where rc: "n = (r, c1)" by (cases n)
  note 1 = later_chan_new [OF later_refl rc [unfolded n_def]]
  show ?thesis
  proof (cases r)
    case None
    then show ?thesis
      using 1 rc by (simp add: process_channel_open_def Let_def flip: role_def, simp add: flip: n_def)
  next
    case (Some k)
    have "nc_later c (ev_push ty (Some k) d)" if "nc_later c1 d" for ty d
      using later_trans [of c c1 "ev_push ty (Some k) d"] 1 Some that by simp
    then show ?thesis
      using rc Some by (simp add: process_channel_open_def Let_def flip: role_def, simp add: Let_def flip: n_def)
  qed
qed

lemma later_frame:
  assumes "netchan_inv_with X Y c"
  shows "nc_later c (fst (process_frame p c))"
proof -
  note use = inv_channel [OF assms]
  have "nc_later c (fst (process_connect_init p c))" "nc_later c (fst (process_connect_accept p c))"
    "nc_later c (fst (process_connect_redirect p c))" "nc_later c (fst (process_disconnect p c))"
    "nc_later c (fst (process_ping p c))" "nc_later c (fst (process_pong p c))"
    by (simp_all add: frame_handlers Let_def case_prod_beta)
  moreover have "nc_later c (fst (process_channel_close p c))" "nc_later c (fst (process_data p c))"
    "nc_later c (fst (process_ack p c))" "nc_later c (fst (process_window_update p c))"
    using use by (auto simp: process_channel_close_def process_data_def process_ack_def process_window_update_def
        Let_def split: option.split)
  moreover note later_channel_open [of c p]
  ultimately show ?thesis unfolding process_frame_def Let_def by simp
qed

lemma later_parse: "netchan_inv_with X Y c \<Longrightarrow> nc_later c (fst (parse_frames p c))"
proof (induction p c rule: parse_frames.induct)
  case (2 b rest c)
  obtain c' n where f: "process_frame (b # rest) c = (c', n)" by (metis surj_pair)
  have c': "netchan_inv_with X Y c'" "nc_later c c'"
    using process_frame_inv [OF 2(3), of "b # rest"] later_frame [OF 2(3), of "b # rest"] f by simp_all
  have "nc_later c (fst (parse_frames (drop (nat n) (b # rest)) c'))" if "\<not> n < 0" "b \<noteq> NC_FRAME_PADDING"
    using later_trans [OF c'(2) 2(2) [OF that(2) f [symmetric] refl that(1) c'(1)]] .
  then show ?case
    unfolding parse_frames_step [OF f] using 2(1) [OF _ 2(3)] c' by (auto simp del: drop_Suc_Cons)
qed simp

lemma later_feed:
  assumes "netchan_inv_with X Y c"
  shows "nc_later c (fst (netchan_feed p from c))"
proof -
  have "netchan_inv_with X Y (feed_entry fr from c)" "nc_later c (feed_entry fr from c)" for fr
    using assms by (simp_all add: feed_entry_eq)
  from later_trans [OF this(2) later_parse [OF this(1)]] show ?thesis
    unfolding netchan_feed_alt by simp
qed

lemma later_calls:
  "nc_later c (fst (netchan_connect addr c))" "nc_later c (fst (netchan_accept c))" "nc_later c (snd (netchan_poll c))"
  by (simp_all add: netchan_connect_def netchan_accept_def netchan_poll_def Let_def case_prod_beta)

lemma later_chan_open: "nc_later c (snd (netchan_chan_open ty dir ct c))"
  and chan_open_in_use: "netchan_chan_open ty dir ct c = (Some k, c') \<Longrightarrow> in_use c' k"
proof -
  have n: "nc_later c d \<and> (\<forall>k. r = Some k \<longrightarrow> in_use d k)"
    if "chan_new (c_next_chan_id c) ty dir role ct (c\<lparr>c_next_chan_id := c_next_chan_id c + 2\<rparr>) = (r, d)" for role r d
    using later_chan_new [OF _ that, of c] by simp
  show "nc_later c (snd (netchan_chan_open ty dir ct c))"
    using n by (auto simp: netchan_chan_open_def Let_def split: option.split prod.split)
  show "in_use c' k" if "netchan_chan_open ty dir ct c = (Some k, c')"
    using that n by (auto simp: netchan_chan_open_def Let_def split: if_splits option.splits prod.splits)
qed

subsection \<open>Sending\<close>

text \<open>The receive queues stay, and so do the bytes of the messages in them.\<close>

definition rx_kept :: "netchan_conn \<Rightarrow> netchan_conn \<Rightarrow> bool" where
  "rx_kept c c' \<longleftrightarrow>
    (\<forall>k. ch_rq_head (chan_at c' k) = ch_rq_head (chan_at c k) \<and> ch_rq_tail (chan_at c' k) = ch_rq_tail (chan_at c k) \<and>
      ch_recv_queue (chan_at c' k) = ch_recv_queue (chan_at c k) \<and> ch_role (chan_at c' k) = ch_role (chan_at c k)) \<and>
    (\<forall>k i b x. in_use c k \<and> i < 64 \<and> re_buf (ch_recv_queue (chan_at c k) i) = Some b \<and> x < 2048 \<longrightarrow>
      c_pool_store c' (pool_ptr b + x) = c_pool_store c (pool_ptr b + x))"

lemma rx_refl [simp]: "rx_kept c c"
  by (simp add: rx_kept_def)

lemma rx_trans: "rx_kept a b \<Longrightarrow> rx_kept b c \<Longrightarrow> nc_later a b \<Longrightarrow> rx_kept a c"
  unfolding rx_kept_def nc_later_def by (metis (no_types, lifting))

lemma rx_same: "chan_at d = chan_at c' \<Longrightarrow> c_pool_store d = c_pool_store c' \<Longrightarrow> rx_kept c d = rx_kept c c'"
  by (simp add: rx_kept_def)

lemma rx_prims [simp]:
  "rx_kept c (ctrl_append fr c') = rx_kept c c'"
  "rx_kept c (snd (buf_read b off n c')) = rx_kept c c'" "rx_kept c (snd (nc_now_ms c')) = rx_kept c c'"
  "rx_kept c (snd (nc_random_id c')) = rx_kept c c'" "rx_kept c (pool_put b c') = rx_kept c c'"
  "rx_kept c (ev_push ty k c') = rx_kept c c'" "rx_kept c (c'\<lparr>nc_ub := u\<rparr>) = rx_kept c c'"
  by (simp_all add: rx_kept_def) (simp_all add: ctrl_append_def nc_random_id_def Let_def)

lemma rx_fields [simp]:
  "rx_kept c (c'\<lparr>c_state := st\<rparr>) = rx_kept c c'" "rx_kept c (c'\<lparr>c_connect_sent_ms := a\<rparr>) = rx_kept c c'"
  "rx_kept c (c'\<lparr>c_connect_attempts := ca\<rparr>) = rx_kept c c'" "rx_kept c (c'\<lparr>c_ping_sent_ms := a\<rparr>) = rx_kept c c'"
  "rx_kept c (c'\<lparr>c_ping_opaque := a\<rparr>) = rx_kept c c'" "rx_kept c (c'\<lparr>c_next_pkt_num := pn\<rparr>) = rx_kept c c'"
  "rx_kept c (c'\<lparr>c_last_send_ms := a\<rparr>) = rx_kept c c'" "rx_kept c (c'\<lparr>c_pkts_sent := a\<rparr>) = rx_kept c c'"
  "rx_kept c (c'\<lparr>c_ctrl_buf := bs\<rparr>) = rx_kept c c'" "rx_kept c (c'\<lparr>c_pool_free := pf\<rparr>) = rx_kept c c'"
  "rx_kept c (ctrl_connect_init c') = rx_kept c c'" "rx_kept c (ctrl_ping x c') = rx_kept c c'"
  by (simp_all add: rx_kept_def chan_at_def ctrl_connect_init_def ctrl_ping_def ctrl_append_def)

lemma rx_upd:
  "rx_kept c c' \<Longrightarrow> (\<And>ch. ch_rq_head (f ch) = ch_rq_head ch) \<Longrightarrow> (\<And>ch. ch_rq_tail (f ch) = ch_rq_tail ch) \<Longrightarrow>
     (\<And>ch. ch_recv_queue (f ch) = ch_recv_queue ch) \<Longrightarrow> (\<And>ch. ch_role (f ch) = ch_role ch) \<Longrightarrow> rx_kept c (upd_chan k f c')"
  by (auto simp: rx_kept_def chan_at_upd)

lemma advance_loop_rest:
  "ch_rq_head (advance_loop n ch) = ch_rq_head ch" "ch_rq_tail (advance_loop n ch) = ch_rq_tail ch"
  "ch_outgoing (advance_loop n ch) = ch_outgoing ch" "ch_need_ack (advance_loop n ch) = ch_need_ack ch"
  "ch_need_window_update (advance_loop n ch) = ch_need_window_update ch" "ch_recv_queue (advance_loop n ch) = ch_recv_queue ch"
  "ch_role (advance_loop n ch) = ch_role ch" "ch_type (advance_loop n ch) = ch_type ch"
  "ch_recv_seq (advance_loop n ch) = ch_recv_seq ch" "ch_reorder (advance_loop n ch) = ch_reorder ch"
  by (induction n arbitrary: ch) simp_all

lemmas advance_head_rest [simp] = advance_loop_rest [of NC_OUTGOING_SLOTS, folded advance_head_def]

definition sending :: "netchan_conn \<Rightarrow> netchan_conn \<Rightarrow> bool" where
  "sending c c' \<longleftrightarrow> nc_later c c' \<and> rx_kept c c'"

lemma sending_refl [simp]: "sending c c"
  by (simp add: sending_def)

lemma sending_trans: "sending a b \<Longrightarrow> sending b c \<Longrightarrow> sending a c"
  using later_trans rx_trans by (auto simp: sending_def)

lemma put_sending: "sending c (snd s) \<Longrightarrow> sending c (snd (put_ack mtu k s)) \<and> sending c (snd (put_window mtu k s))"
  by (auto simp: sending_def put_ack_def put_window_def Let_def case_prod_beta intro: rx_upd)

lemma flush_acks_sending: "sending c (snd s) \<Longrightarrow> sending c (snd (flush_acks is mtu s))"
  by (induction "is" mtu s rule: flush_acks.induct) (auto simp: put_sending split: option.split)

lemma send_fragment_sending: "sending c (snd s) \<Longrightarrow> sending c (snd (send_fragment k j s))"
  by (simp add: sending_def send_fragment_def Let_def case_prod_beta rx_upd)

lemma flush_data_sending: "sending c (snd s) \<Longrightarrow> sending c (snd (flush_data is mtu s))"
  by (induction "is" mtu s rule: flush_data.induct) (auto simp: Let_def send_fragment_sending split: option.split)

lemma header_sending: "sending c (snd (send_header c))" "sending c (snd s) \<Longrightarrow> sending c (snd (flush_ctrl buflen mtu s))"
  by (simp_all add: sending_def send_header_def flush_ctrl_def Let_def case_prod_beta)

lemma sending_fields [simp]:
  "sending c (c'\<lparr>c_last_send_ms := a, c_pkts_sent := b\<rparr>) = sending c c'" "sending c (snd (nc_now_ms c')) = sending c c'"
  "sending c (c'\<lparr>nc_ub := u\<rparr>) = sending c c'"
  by (simp_all add: sending_def)

lemma send_next_sending: "sending c (snd (netchan_send_next buflen c))"
  by (simp add: netchan_send_next_def Let_def case_prod_beta flush_data_sending flush_acks_sending header_sending)

lemma sending_if: "(b \<Longrightarrow> sending c (fst x)) \<Longrightarrow> (\<not> b \<Longrightarrow> sending c (fst y)) \<Longrightarrow> sending c (fst (if b then x else y))"
  by simp

lemma service_slots_sending:
  "sending c (fst s) \<Longrightarrow> in_use c k \<Longrightarrow> sending c (fst (service_slots js now k s))"
proof (induction js arbitrary: s)
  case (Cons j js)
  obtain d n where s: "s = (d, n)" by (cases s)
  show ?case
    unfolding s service_slots.simps Let_def prod.case
    by (intro sending_if Cons.IH) (use Cons.prems s in \<open>simp_all add: sending_def rx_upd\<close>)
qed simp

lemma service_sending:
  assumes "netchan_inv_with X Y c"
  shows "sending c (fst (netchan_service now c))"
proof -
  have 1: "sending c (fst (snd (service_connect now (c, n))))" for n
    by (simp add: service_connect_def Let_def sending_def)
  have 2: "sending c (fst (snd (service_idle now s)))" if "sending c (fst s)" for s
    using that by (cases s) (simp add: service_idle_def Let_def sending_def)
  have 3: "sending c (fst (service_ping now s))" if "sending c (fst s)" for s
    using that by (cases s) (simp add: service_ping_def Let_def case_prod_beta sending_def)
  have channels: "c_channels (fst s') = c_channels (fst s)" if "s' = service_channel now i s" for s s' i
  proof -
    have "c_channels (fst (service_slots js now k s)) = c_channels (fst s)" for js k and s :: "netchan_conn \<times> int"
      by (induction js arbitrary: s) (simp_all add: Let_def case_prod_beta)
    then show ?thesis by (simp add: that service_channel_def Let_def split: option.split)
  qed
  have 4: "sending c (fst (fold (service_channel now) is s))" if "sending c (fst s)" "c_channels (fst s) = c_channels c" for s "is"
    using that
  proof (induction "is" arbitrary: s)
    case (Cons i "is")
    have "sending c (fst (service_channel now i s))"
      using Cons.prems inv_channel [OF assms] by (auto simp: service_channel_def Let_def service_slots_sending split: option.split)
    then show ?case using Cons channels [OF refl, of i s] by simp
  qed simp
  have "c_channels (fst (service_ping now (snd (service_idle now (snd (service_connect now (c, n))))))) = c_channels c" for n
    by (simp add: service_ping_def service_idle_def service_connect_def Let_def case_prod_beta ctrl_ping_def ctrl_connect_init_def)
  then show ?thesis
    using 1 2 3 4 by (simp add: netchan_service_def Let_def case_prod_beta)
qed

lemma rx_write:
  assumes "netchan_inv c" and "pool_get c = (Some b, c1)" and "length d \<le> 2048"
  shows "rx_kept c (buf_write (Some b) 0 d c1)"
proof -
  have b: "b \<in> set (c_pool_free c)" and c1: "c_pool_store c1 = c_pool_store c"
    using assms(2) by (auto simp: pool_get_def split: list.splits)
  have "\<not> (pool_ptr b \<le> pool_ptr b' + x \<and> pool_ptr b' + x < pool_ptr b + length d)"
    if "in_use c k" "i < 64" "re_buf (ch_recv_queue (chan_at c k) i) = Some b'" "x < 2048" for k i b' x
  proof
    assume *: "pool_ptr b \<le> pool_ptr b' + x \<and> pool_ptr b' + x < pool_ptr b + length d"
    have "b' \<noteq> b" using queued_not_free [OF assms(1) that(1) b that(2)] that(3) by auto
    moreover have "pool_ptr b' + x - pool_ptr b < 2048" using * assms(3) by linarith
    ultimately show False using pool_ptr_apart [OF _ that(4), of b' b "pool_ptr b' + x - pool_ptr b"] * by simp
  qed
  then show ?thesis
    by (auto simp: rx_kept_def pool_get_frame [OF assms(2)] store_write c1)
qed

lemma write_sending:
  assumes "netchan_inv c"
  shows "sending c (fst (netchan_chan_write k data c))"
proof (cases k data c rule: write_cases)
  case (cut b c1)
  then show ?thesis using later_pool_get [OF cut(1), of c] rx_write [OF assms cut(1)]
    by (simp add: sending_def rx_upd NC_MAX_MSG_def)
next
  case (accepted b c1)
  then show ?thesis using later_pool_get [OF accepted(1), of c] rx_write [OF assms accepted(1)]
    by (simp add: sending_def rx_upd NC_MAX_MSG_def)
qed simp

text \<open>What waits to be read is still there, byte for byte.\<close>

lemma sending_msgs:
  assumes "sending c c'" and "netchan_inv c'" and "rq_valid k c"
  shows "rq_valid k c' \<and> rq_msgs k c' = rq_msgs k c"
proof -
  have v: "netchan_inv c" "in_use c k" "ch_role (chan_at c k) = 1"
      "\<And>i. i \<in> set (rq_slots (chan_at c k)) \<Longrightarrow> re_len (ch_recv_queue (chan_at c k) i) \<le> 2048"
    using assms(3) by (auto simp: rq_valid_def)
  have same: "ch_recv_queue (chan_at c' k) = ch_recv_queue (chan_at c k)" "rq_slots (chan_at c' k) = rq_slots (chan_at c k)"
      "ch_role (chan_at c' k) = 1" "in_use c' k"
    using assms(1) v by (auto simp: sending_def rx_kept_def rq_slots_def intro: later_in_use)
  have "rq_msg c' (ch_recv_queue (chan_at c k) i) = rq_msg c (ch_recv_queue (chan_at c k) i)" if i: "i \<in> set (rq_slots (chan_at c k))" for i
  proof -
    obtain b where b: "i < 64" "re_buf (ch_recv_queue (chan_at c k) i) = Some b"
      using rq_slot_bound [OF inv_chan_ok [OF v(1,2)] i] by auto
    have "c_pool_store c' (pool_ptr b + x) = c_pool_store c (pool_ptr b + x)" if "x < re_len (ch_recv_queue (chan_at c k) i)" for x
      using assms(1) v(2) v(4) [OF i] b that unfolding sending_def rx_kept_def by (meson order_less_le_trans)
    then have "map (c_pool_store c') [pool_ptr b..<pool_ptr b + re_len (ch_recv_queue (chan_at c k) i)] =
        map (c_pool_store c) [pool_ptr b..<pool_ptr b + re_len (ch_recv_queue (chan_at c k) i)]"
      by (intro nth_equalityI) simp_all
    then show ?thesis using b by (simp add: rq_msg_def read_bytes_store)
  qed
  then show ?thesis using same assms(2) v(4) by (auto simp: rq_valid_def rq_msgs_def)
qed

end
