(* ===== verification/Nc_Drain.thy ===== *)
theory Nc_Drain
  imports Nc_Later
begin

text \<open>
  The loop that calls \<open>netchan_send_next\<close> until it returns 0 ends: every packet takes something from
  what the connection owes, the bytes of the control queue, the acknowledgements and window updates of its
  channels, the fragments not yet sent. The packet must be able to hold one fragment, which the default MTU
  of 1200 bytes and the caller's buffer of 2048 allow.
\<close>

definition slot_owes :: "nc_outgoing \<Rightarrow> nat" where
  "slot_owes ou = (if o_active ou then unat (o_frag_total ou) - unat (o_frag_sent ou) else 0)"

definition chan_owes :: "netchan_chan \<Rightarrow> nat" where
  "chan_owes ch = (if ch_need_ack ch then 1 else 0) + (if ch_need_window_update ch then 1 else 0) +
     (\<Sum>j<64. slot_owes (ch_outgoing ch j))"

definition owes :: "netchan_conn \<Rightarrow> nat" where
  "owes c = length (c_ctrl_buf c) + (\<Sum>k<16. chan_owes (chan_at c k))"

lemma sum_less:
  fixes f g :: "nat \<Rightarrow> nat"
  assumes "k < n" and "f k < g k" and "\<And>j. j \<noteq> k \<Longrightarrow> f j = g j"
  shows "sum f {..<n} < sum g {..<n}"
  by (rule sum_strict_mono_ex1) (use assms in \<open>auto, metis order.refl less_imp_le\<close>)

lemma owes_upd:
  assumes "chan_owes (f (chan_at c k)) \<le> chan_owes (chan_at c k)"
  shows "owes (upd_chan k f c) \<le> owes c"
    and "in_use c k \<Longrightarrow> chan_owes (f (chan_at c k)) < chan_owes (chan_at c k) \<Longrightarrow> owes (upd_chan k f c) < owes c"
proof -
  have "(\<Sum>j<16. chan_owes (chan_at (upd_chan k f c) j)) \<le> (\<Sum>j<16. chan_owes (chan_at c j))"
    by (rule sum_mono) (simp add: chan_at_upd assms)
  then show "owes (upd_chan k f c) \<le> owes c" by (simp add: owes_def)
  assume "in_use c k" "chan_owes (f (chan_at c k)) < chan_owes (chan_at c k)"
  then show "owes (upd_chan k f c) < owes c"
    unfolding owes_def upd_chan_frame(7) by (intro add_strict_left_mono sum_less [of k]) (auto simp: in_use_def NC_MAX_CHAN_def)
qed

lemma owes_prims [simp]:
  "owes (pool_put b c) = owes c" "owes (snd (buf_read b off n c)) = owes c" "owes (snd (nc_now_ms c)) = owes c"
  "owes (c\<lparr>c_next_pkt_num := pn\<rparr>) = owes c" "owes (c\<lparr>c_last_send_ms := a, c_pkts_sent := d\<rparr>) = owes c"
  by (simp_all add: owes_def chan_at_def pool_put_def buf_read_def nc_now_ms_def Let_def split: option.split)

lemma owes_header [simp]: "owes (snd (send_header c)) = owes c"
  by (simp add: send_header_def)

lemma owes_ctrl:
  "owes (snd (flush_ctrl buflen mtu s)) \<le> owes (snd s)"
  "c_ctrl_buf (snd s) \<noteq> [] \<Longrightarrow> length (fst s) < mtu \<Longrightarrow> owes (snd (flush_ctrl buflen mtu s)) < owes (snd s)"
  by (auto simp: flush_ctrl_def Let_def case_prod_beta owes_def chan_at_def)

subsection \<open>Acknowledgements\<close>

lemma owes_ack:
  "owes (snd (put_ack mtu k s)) \<le> owes (snd s)" "owes (snd (put_window mtu k s)) \<le> owes (snd s)"
  by (auto simp: put_ack_def put_window_def Let_def case_prod_beta chan_owes_def intro!: owes_upd(1))

lemma owes_flags:
  assumes "in_use (snd s) k" and "length (fst s) + 6 \<le> mtu"
    and "ch_need_ack (chan_at (snd s) k) \<or> ch_need_window_update (chan_at (snd s) k)"
  shows "owes (snd (put_window mtu k (put_ack mtu k s))) < owes (snd s)"
proof (cases "ch_need_ack (chan_at (snd s) k)")
  case True
  then have "owes (snd (put_ack mtu k s)) < owes (snd s)"
    using assms by (auto simp: put_ack_def Let_def case_prod_beta chan_owes_def intro!: owes_upd(2))
  then show ?thesis using owes_ack(2) [of mtu k "put_ack mtu k s"] by simp
next
  case False
  then have "put_ack mtu k s = s" by (simp add: put_ack_def Let_def case_prod_beta)
  then show ?thesis
    using False assms by (auto simp: put_window_def Let_def case_prod_beta chan_owes_def intro!: owes_upd(2))
qed

lemma flush_acks_owes: "owes (snd (flush_acks is mtu s)) \<le> owes (snd s)"
proof (induction "is" mtu s rule: flush_acks.induct)
  case (2 i rest mtu s)
  have "owes (snd (put_window mtu k (put_ack mtu k s))) \<le> owes (snd s)" for k
    using owes_ack(1) [of mtu k s] owes_ack(2) [of mtu k "put_ack mtu k s"] by simp
  with 2 show ?case by (auto split: option.split intro: order_trans)
qed simp

definition flagged :: "netchan_conn \<Rightarrow> nat \<Rightarrow> bool" where
  "flagged c i \<longleftrightarrow> (\<exists>k. c_channels c (of_nat i) = Some k \<and> (ch_need_ack (chan_at c k) \<or> ch_need_window_update (chan_at c k)))"

lemma flush_acks_less:
  assumes "netchan_inv_with X Y (snd s)" and "length (fst s) + 6 \<le> mtu" and "\<exists>i \<in> set is. flagged (snd s) i"
  shows "owes (snd (flush_acks is mtu s)) < owes (snd s)"
  using assms(3)
proof (induction "is")
  case (Cons i "is")
  show ?case
  proof (cases "flagged (snd s) i")
    case True
    then obtain k where k: "c_channels (snd s) (of_nat i) = Some k"
        "ch_need_ack (chan_at (snd s) k) \<or> ch_need_window_update (chan_at (snd s) k)" by (auto simp: flagged_def)
    have "owes (snd (put_window mtu k (put_ack mtu k s))) < owes (snd s)"
      by (rule owes_flags [OF inv_channel [OF assms(1) k(1)] assms(2) k(2)])
    then show ?thesis
      using k(1) assms(2) flush_acks_owes [of "is" mtu "put_window mtu k (put_ack mtu k s)"] by simp
  next
    case False
    then have "(case c_channels (snd s) (of_nat i) of None \<Rightarrow> s | Some k \<Rightarrow> put_window mtu k (put_ack mtu k s)) = s"
      by (auto simp: flagged_def put_ack_def put_window_def Let_def case_prod_beta split: option.split)
    then show ?thesis using Cons False assms(2) by simp
  qed
qed simp

lemma flush_acks_none:
  assumes "\<forall>i \<in> set is. \<not> flagged (snd s) i"
  shows "flush_acks is mtu s = s"
  using assms
proof (induction "is")
  case (Cons i "is")
  then have "(case c_channels (snd s) (of_nat i) of None \<Rightarrow> s | Some k \<Rightarrow> put_window mtu k (put_ack mtu k s)) = s"
    by (auto simp: flagged_def put_ack_def put_window_def Let_def case_prod_beta split: option.split)
  with Cons show ?case by simp
qed simp

subsection \<open>Fragments\<close>

lemma sendable_fragment:
  "sendable_loop n idx ch = Some j \<Longrightarrow> o_active (ch_outgoing ch j) \<and> o_frag_sent (ch_outgoing ch j) < o_frag_total (ch_outgoing ch j)"
  by (induction n arbitrary: idx) (auto split: if_splits)

lemma send_fragment_owes:
  assumes "in_use (snd s) k" and "j < 64" and "o_active (ch_outgoing (chan_at (snd s) k) j)"
    and "o_frag_sent (ch_outgoing (chan_at (snd s) k) j) < o_frag_total (ch_outgoing (chan_at (snd s) k) j)"
  shows "owes (snd (send_fragment k j s)) < owes (snd s)"
proof -
  define ou where "ou = ch_outgoing (chan_at (snd s) k) j"
  define c1 where "c1 = snd (buf_read (o_buf ou) (fst (frag_at (max_frag_payload (snd s)) ou)) (snd (frag_at (max_frag_payload (snd s)) ou)) (snd s))"
  define ou' where "ou' = ou\<lparr>o_frag_sent := o_frag_sent ou + 1, o_sent_ms := fst (nc_now_ms c1),
               o_attempts := (if o_attempts ou = 0 then 1 else o_attempts ou)\<rparr>"
  define c2 where "c2 = upd_chan k (\<lambda>ch. ch\<lparr>ch_outgoing := (ch_outgoing ch)(j := ou')\<rparr>) (snd (nc_now_ms c1))"
  have at: "chan_at (snd (nc_now_ms c1)) k = chan_at (snd s) k" "in_use (snd (nc_now_ms c1)) k" "owes (snd (nc_now_ms c1)) = owes (snd s)"
    using assms(1) by (simp_all add: c1_def)
  have "unat (o_frag_sent ou + 1) = Suc (unat (o_frag_sent ou))"
  proof -
    have "o_frag_sent ou \<noteq> - 1" using assms(4) word_order.extremum_strict by (auto simp: ou_def)
    then show ?thesis using unatSuc [of "o_frag_sent ou"] by (metis add.commute add_eq_0_iff)
  qed
  then have o: "slot_owes ou' < slot_owes ou"
    using assms(3,4) by (simp add: slot_owes_def ou'_def ou_def word_less_nat_alt)
  have less: "chan_owes (ch\<lparr>ch_outgoing := (ch_outgoing ch)(j := x)\<rparr>) < chan_owes ch"
    if "slot_owes x < slot_owes (ch_outgoing ch j)" for ch x
    unfolding chan_owes_def by (simp, rule sum_less [of j]) (use assms(2) that in auto)
  have 2: "owes c2 < owes (snd s)"
    unfolding c2_def using owes_upd(2) [OF _ at(2)] less [of ou' "chan_at (snd s) k"] o at by (simp add: ou_def)
  have "chan_owes (advance_head (ch\<lparr>ch_outgoing := (ch_outgoing ch)(j := ou'\<lparr>o_buf := None, o_active := False\<rparr>)\<rparr>)) \<le> chan_owes ch" for ch
    by (auto simp: chan_owes_def slot_owes_def intro!: sum_mono)
  then have 3: "owes (upd_chan k (\<lambda>ch. advance_head (ch\<lparr>ch_outgoing := (ch_outgoing ch)(j := ou'\<lparr>o_buf := None,
                 o_active := False\<rparr>)\<rparr>)) (pool_put (o_buf ou') c2)) \<le> owes c2"
    using owes_upd(1) [of _ "pool_put (o_buf ou') c2" k] by simp
  have "snd (send_fragment k j s) =
      (if o_frag_total ou' \<le> o_frag_sent ou' \<and> ch_type (chan_at c2 k) = NETCHAN_UNRELIABLE
       then upd_chan k (\<lambda>ch. advance_head (ch\<lparr>ch_outgoing := (ch_outgoing ch)(j := ou'\<lparr>o_buf := None,
                 o_active := False\<rparr>)\<rparr>)) (pool_put (o_buf ou') c2) else c2)"
    unfolding send_fragment_def Let_def case_prod_beta c2_def ou'_def c1_def ou_def if_distrib [of snd] snd_conv ..
  with 2 3 show ?thesis by simp
qed

lemma next_sendable_owes:
  assumes "netchan_inv_with X Y (snd s)" and "c_channels (snd s) i = Some k" and "chan_next_sendable (chan_at (snd s) k) = Some j"
  shows "owes (snd (send_fragment k j s)) < owes (snd s)"
proof -
  note u = inv_channel [OF assms(1,2)]
  show ?thesis
    using send_fragment_owes [OF u] next_sendable_slot [OF inv_chan_ok [OF assms(1) u] assms(3)]
      sendable_fragment assms(3) by (auto simp: chan_next_sendable_def)
qed

lemma flush_data_owes: "netchan_inv_with X Y (snd s) \<Longrightarrow> owes (snd (flush_data is mtu s)) \<le> owes (snd s)"
proof (induction "is" mtu s rule: flush_data.induct)
  case (2 i rest mtu s)
  have "netchan_inv_with X Y (snd (send_fragment k j s)) \<and> owes (snd (send_fragment k j s)) < owes (snd s)"
    if "c_channels (snd s) (of_nat i) = Some k" "chan_next_sendable (chan_at (snd s) k) = Some j" for k j
    using send_fragment_inv [OF 2(5) inv_channel [OF 2(5) that(1)]] inv_chan_ok [OF 2(5) inv_channel [OF 2(5) that(1)]]
      next_sendable_slot next_sendable_owes [OF 2(5) that] that(2) by blast
  with 2 show ?case by (fastforce simp: Let_def split: option.split)
qed simp

definition has_fragment :: "netchan_conn \<Rightarrow> nat \<Rightarrow> bool" where
  "has_fragment c i \<longleftrightarrow> (\<exists>k. c_channels c (of_nat i) = Some k \<and> ch_role (chan_at c k) = 0 \<and> ch_state (chan_at c k) = 1 \<and>
     chan_next_sendable (chan_at c k) \<noteq> None)"

lemma flush_data_less:
  assumes "netchan_inv_with X Y (snd s)" and "\<exists>i \<in> set is. has_fragment (snd s) i"
    and "length (fst s) + max_frag_payload (snd s) + 8 \<le> mtu" and "0 < max_frag_payload (snd s)"
  shows "owes (snd (flush_data is mtu s)) < owes (snd s)"
  using assms(2)
proof (induction "is")
  case (Cons i "is")
  show ?case
  proof (cases "has_fragment (snd s) i")
    case True
    then obtain k j where k: "c_channels (snd s) (of_nat i) = Some k" "ch_role (chan_at (snd s) k) = 0"
        "ch_state (chan_at (snd s) k) = 1" "chan_next_sendable (chan_at (snd s) k) = Some j" by (auto simp: has_fragment_def)
    have "snd (frag_at (max_frag_payload (snd s)) (ch_outgoing (chan_at (snd s) k) j)) \<le> max_frag_payload (snd s)"
      by (auto simp: frag_at_def Let_def)
    then have "\<not> mtu - length (fst s) - 8 < snd (frag_at (max_frag_payload (snd s)) (ch_outgoing (chan_at (snd s) k) j))"
      using assms(3) by linarith
    then have "flush_data (i # is) mtu s = flush_data is mtu (send_fragment k j s)"
      using k assms(3,4) by (simp add: Let_def)
    moreover have "owes (snd (send_fragment k j s)) < owes (snd s)" by (rule next_sendable_owes [OF assms(1) k(1,4)])
    moreover have "netchan_inv_with X Y (snd (send_fragment k j s))"
      using send_fragment_inv [OF assms(1) inv_channel [OF assms(1) k(1)]]
        inv_chan_ok [OF assms(1) inv_channel [OF assms(1) k(1)]] next_sendable_slot k(4) by blast
    ultimately show ?thesis using flush_data_owes [of X Y "send_fragment k j s" "is" mtu] by simp
  next
    case False
    then have "flush_data (i # is) mtu s = flush_data is mtu s"
      using assms(3,4) by (auto simp: has_fragment_def Let_def split: option.split)
    then show ?thesis using Cons False by simp
  qed
qed simp

subsection \<open>Packets\<close>

lemma has_data_cases:
  assumes "nc_has_data c"
  obtains "c_ctrl_buf c \<noteq> []" | "\<exists>i \<in> set [0..<256]. flagged c i" | "\<exists>i \<in> set [0..<256]. has_fragment c i"
proof -
  have "flagged c i \<or> has_fragment c i"
    if "case c_channels c (of_nat i) of None \<Rightarrow> False
        | Some k \<Rightarrow> let ch = chan_at c k in ch_role ch = 0 \<and>
            (ch_state ch = 1 \<and> chan_next_sendable ch \<noteq> None \<or> ch_need_ack ch \<or> ch_need_window_update ch)" for i
    using that by (auto simp: flagged_def has_fragment_def Let_def split: option.splits)
  moreover have "flagged c i"
    if "case c_channels c (of_nat i) of None \<Rightarrow> False
        | Some k \<Rightarrow> let ch = chan_at c k in ch_role ch = 1 \<and> (ch_need_ack ch \<or> ch_need_window_update ch)" for i
    using that by (auto simp: flagged_def Let_def split: option.splits)
  ultimately have "c_ctrl_buf c \<noteq> [] \<or> (\<exists>i \<in> set [0..<256]. flagged c i \<or> has_fragment c i)"
    using assms unfolding nc_has_data_def list_ex_iff by blast
  then show ?thesis using that by blast
qed

text \<open>Every packet of a connection at the default MTU pays something of what is owed.\<close>

lemma send_next_pays:
  assumes "netchan_inv c" and "cfg_mtu (c_cfg c) = NC_DEFAULT_MTU" and "1200 \<le> buflen"
    and "netchan_send_next buflen c = (Some x, c')"
  shows "owes c' < owes c"
proof -
  define s0 where "s0 = send_header c"
  define s1 where "s1 = (if c_ctrl_buf c \<noteq> [] then flush_ctrl buflen 1200 s0 else s0)"
  define s2 where "s2 = flush_acks [0..<256] 1200 s1"
  have mtu: "min (unat (cfg_mtu (c_cfg c))) buflen = 1200" using assms(2,3) by (simp add: NC_DEFAULT_MTU_def)
  have data: "nc_has_data c" using assms(4) by (auto simp: netchan_send_next_def split: if_splits)
  have c': "owes c' = owes (snd (flush_data [0..<256] 1200 s2))"
    using assms(4) unfolding netchan_send_next_def Let_def mtu s0_def s1_def s2_def
    by (auto simp: case_prod_beta split: if_splits)
  have same: "c_channels (snd s0) = c_channels c" "chan_at (snd s0) = chan_at c" "c_ctrl_buf (snd s0) = c_ctrl_buf c"
      "max_frag_payload (snd s0) = 1185" "length (fst s0) \<le> 7"
    using assms(2) by (simp_all add: s0_def send_header_def chan_at_def fun_eq_iff max_frag_payload_def NC_DEFAULT_MTU_def wr16_def wr32_def)
  have inv: "netchan_inv (snd s0)" "netchan_inv (snd s1)" "netchan_inv (snd s2)"
    using assms(1) by (simp_all add: s0_def s1_def s2_def send_header_inv flush_ctrl_inv flush_acks_inv)
  have le: "owes (snd s1) \<le> owes c" "owes (snd s2) \<le> owes (snd s1)" "owes c' \<le> owes (snd s2)"
    using owes_ctrl(1) [of buflen 1200 s0] flush_acks_owes flush_data_owes [OF inv(3)]
    by (auto simp: s1_def s2_def s0_def c')
  show ?thesis
  proof (cases "c_ctrl_buf c = []")
    case False
    then show ?thesis using owes_ctrl(2) [of s0 1200 buflen] same le by (simp add: s1_def s0_def)
  next
    case True
    then have s1: "s1 = s0" by (simp add: s1_def)
    show ?thesis
    proof (cases "\<exists>i \<in> set [0..<256]. flagged c i")
      case True
      then have "owes (snd s2) < owes (snd s1)"
        unfolding s2_def by (intro flush_acks_less [OF inv(2)]) (use same s1 in \<open>auto simp: flagged_def\<close>)
      with le show ?thesis by simp
    next
      case False
      then have s2: "s2 = s0" unfolding s2_def s1 by (intro flush_acks_none) (auto simp: flagged_def same)
      have "\<exists>i \<in> set [0..<256]. has_fragment c i" using data True False by (cases rule: has_data_cases) auto
      then have "owes (snd (flush_data [0..<256] 1200 s2)) < owes (snd s2)"
        by (intro flush_data_less [OF inv(3)]) (use same s2 in \<open>auto simp: has_fragment_def\<close>)
      with le c' show ?thesis by simp
    qed
  qed
qed

end
