(* ===== verification/Nc_Link_Inv.thy ===== *)
theory Nc_Link_Inv
  imports Nc_Link Nc_Drain
begin

text \<open>
  The invariant of an authenticated link, and the operations below the callbacks: draining the connection
  into sealed datagrams and writing tagged messages. Each is shown to return, to keep the invariant, and to touch
  nothing but the connection, the counter of the session and the two histories.
\<close>

section \<open>What a link keeps\<close>

subsection \<open>The connection\<close>

definition conn_ok :: "auth_link \<Rightarrow> bool" where
  "conn_ok al \<longleftrightarrow> netchan_inv (al_conn al) \<and> cfg_mtu (c_cfg (al_conn al)) = NC_DEFAULT_MTU \<and>
     (\<forall>i k. ev_ch (c_events (al_conn al) i) = Some k \<longrightarrow> in_use (al_conn al) k) \<and>
     (\<forall>k. al_tx al = Some k \<or> al_rx al = Some k \<longrightarrow> in_use (al_conn al) k)"

lemma conn_ok_later:
  assumes "conn_ok al" and "nc_later (al_conn al) c" and "netchan_inv c" and "tx = al_tx al" and "rx = al_rx al"
  shows "netchan_inv c \<and> cfg_mtu (c_cfg c) = NC_DEFAULT_MTU \<and> (\<forall>i k. ev_ch (c_events c i) = Some k \<longrightarrow> in_use c k) \<and>
     (\<forall>k. tx = Some k \<or> rx = Some k \<longrightarrow> in_use c k)"
  using assms unfolding conn_ok_def nc_later_def by (metis (no_types, lifting))

lemma conn_ok_upd: "conn_ok al \<Longrightarrow> nc_later (al_conn al) c \<Longrightarrow> netchan_inv c \<Longrightarrow> conn_ok (al\<lparr>al_conn := c\<rparr>)"
  using conn_ok_later [of al c] by (simp add: conn_ok_def)

subsection \<open>The session\<close>

text \<open>The keys exist only after the application's verdict on the peer.\<close>

definition peer_ok :: "nc_crypto \<Rightarrow> bool" where
  "peer_ok c \<longleftrightarrow> (cr_have_key c \<longrightarrow> (cr_require_peer_static c \<longrightarrow> cr_peer_has_static c) \<and>
     (case cr_verify_peer c of
        Some verify \<Rightarrow> verify (if cr_peer_has_static c then Some (cr_peer_static_pk c) else None) = 0
      | None \<Rightarrow> True))"

definition crypto_kept :: "nc_crypto \<Rightarrow> nc_crypto \<Rightarrow> bool" where
  "crypto_kept c c' \<longleftrightarrow> cr_eph_pk c' = cr_eph_pk c \<and> cr_have_static c' = cr_have_static c \<and> cr_static_pk c' = cr_static_pk c \<and>
     cr_verify_peer c' = cr_verify_peer c \<and> cr_require_peer_static c' = cr_require_peer_static c \<and>
     (cr_have_key c \<longrightarrow> cr_have_key c' \<and> cr_sid c' = cr_sid c \<and> cr_tx_key c' = cr_tx_key c)"

lemma derive_fields:
  "cr_eph_pk (fst (derive_session P e c)) = cr_eph_pk c" "cr_have_static (fst (derive_session P e c)) = cr_have_static c"
  "cr_static_pk (fst (derive_session P e c)) = cr_static_pk c" "cr_verify_peer (fst (derive_session P e c)) = cr_verify_peer c"
  "cr_require_peer_static (fst (derive_session P e c)) = cr_require_peer_static c"
  "cr_peer_has_static (fst (derive_session P e c)) = cr_peer_has_static c"
  "cr_peer_static_pk (fst (derive_session P e c)) = cr_peer_static_pk c"
  "cr_tx_counter (fst (derive_session P e c)) = cr_tx_counter c"
  by (simp_all add: derive_session_def Let_def case_prod_beta)

lemma replay_fields:
  "\<exists>w m. fst (replay_check_and_update n c) = c\<lparr>cr_rx_window := w, cr_rx_max := m\<rparr>"
  by (intro exI [of _ "cr_rx_window (fst (replay_check_and_update n c))"] exI [of _ "cr_rx_max (fst (replay_check_and_update n c))"])
    (simp add: replay_check_and_update_def Let_def)

lemma hello_kept:
  assumes "\<not> cr_have_key c"
  shows "peer_ok (consume_hello P body c) \<and> crypto_kept c (consume_hello P body c) \<and>
    cr_tx_counter (consume_hello P body c) = cr_tx_counter c"
  using assms by (auto simp: consume_hello_def Let_def case_prod_beta peer_ok_def crypto_kept_def derive_fields split: option.split)

lemma open_kept:
  assumes "peer_ok c"
  shows "peer_ok (fst (nc_crypto_open P pkt cap c)) \<and> crypto_kept c (fst (nc_crypto_open P pkt cap c)) \<and>
    cr_tx_counter (fst (nc_crypto_open P pkt cap c)) = cr_tx_counter c"
proof -
  have r: "peer_ok (fst (replay_check_and_update n c)) \<and> crypto_kept c (fst (replay_check_and_update n c)) \<and>
      cr_tx_counter (fst (replay_check_and_update n c)) = cr_tx_counter c" for n
    using replay_fields [of n c] assms by (auto simp: peer_ok_def crypto_kept_def split: option.splits)
  obtain c' where c': "fst (nc_crypto_open P pkt cap c) = c'" by simp
  then have "c' = c \<or> (\<exists>n. c' = fst (replay_check_and_update n c)) \<or> \<not> cr_have_key c \<and> c' = consume_hello P (tl pkt) c"
    unfolding nc_crypto_open_def Let_def by (auto simp: case_prod_beta split: if_splits option.splits)
  then show ?thesis
    using assms r hello_kept [of c P "tl pkt"] unfolding c' by (auto simp: crypto_kept_def)
qed

subsection \<open>The wire\<close>

text \<open>The counters of the sealed datagrams, in the order in which they went out.\<close>

definition is_sealed :: "u8 list \<times> sockaddr \<Rightarrow> bool" where
  "is_sealed d \<longleftrightarrow> hd (fst d) = NC_CRYPTO_DATA"

definition counters :: "(u8 list \<times> sockaddr) list \<Rightarrow> u64 list" where
  "counters ds = map (\<lambda>d. rd64be (drop 1 (fst d))) (filter is_sealed ds)"

definition protected_by :: "nc_prims \<Rightarrow> nc_crypto \<Rightarrow> u8 list \<Rightarrow> bool" where
  "protected_by P c p \<longleftrightarrow> p = nc_crypto_handshake_packet c NC_CRYPTO_HELLO_LEN \<or>
     (cr_have_key c \<and> (\<exists>n m. p = sealed_packet P (cr_tx_key c) n m))"

definition wire_ok :: "nc_prims \<Rightarrow> auth_link \<Rightarrow> bool" where
  "wire_ok P al \<longleftrightarrow> (\<forall>d \<in> set (al_wire al). protected_by P (al_crypto al) (fst d)) \<and>
     sorted_wrt (<) (counters (al_wire al)) \<and> (\<forall>n \<in> set (counters (al_wire al)). n \<le> cr_tx_counter (al_crypto al))"

lemma counters_append [simp]: "counters (xs @ ys) = counters xs @ counters ys"
  by (simp add: counters_def)

lemma hello_same: "crypto_kept c c' \<Longrightarrow> nc_crypto_handshake_packet c' n = nc_crypto_handshake_packet c n"
  by (simp add: crypto_kept_def nc_crypto_handshake_packet_def)

lemma protected_kept:
  assumes "protected_by P c p" and "crypto_kept c c'"
  shows "protected_by P c' p"
  using assms hello_same [OF assms(2)] unfolding protected_by_def crypto_kept_def by metis

lemma wire_kept:
  "wire_ok P al \<Longrightarrow> crypto_kept (al_crypto al) c \<Longrightarrow> cr_tx_counter c = cr_tx_counter (al_crypto al) \<Longrightarrow>
     wire_ok P (al\<lparr>al_crypto := c\<rparr>)"
  using protected_kept by (auto simp: wire_ok_def)

lemma send_hello_eq: "\<exists>w. send_hello al = al\<lparr>al_wire := w\<rparr>"
  by (rule exI [of _ "al_wire (send_hello al)"]) (simp add: send_hello_def sendto_def Let_def split: option.split)

lemma hello_counter [simp]: "counters [(nc_crypto_handshake_packet c NC_CRYPTO_HELLO_LEN, sa)] = []"
  by (simp add: counters_def is_sealed_def nc_crypto_handshake_packet_def NC_CRYPTO_HELLO_def NC_CRYPTO_DATA_def)

lemma send_hello_wire: "wire_ok P al \<Longrightarrow> wire_ok P (send_hello al)"
  by (auto simp: send_hello_def sendto_def Let_def wire_ok_def protected_by_def split: option.split)

lemma seal_out_eq: "\<exists>n w. seal_out P buf to al = al\<lparr>al_crypto := (al_crypto al)\<lparr>cr_tx_counter := n\<rparr>, al_wire := w\<rparr>"
  by (intro exI [of _ "cr_tx_counter (al_crypto (seal_out P buf to al))"] exI [of _ "al_wire (seal_out P buf to al)"],
      cases P buf "AL_BUF + NC_CRYPTO_OVERHEAD" "al_crypto al" rule: seal_cases)
    (simp_all add: seal_out_def sendto_def Let_def split: option.split)

lemma seal_packet:
  assumes "nc_crypto_seal P m cap c = (c', Some p)"
  shows "cr_have_key c" and "p = sealed_packet P (cr_tx_key c) (unat (cr_tx_counter c + 1)) m"
    and "c' = c\<lparr>cr_tx_counter := cr_tx_counter c + 1\<rparr>" and "cr_tx_counter c < cr_tx_counter c + 1"
proof -
  have 1: "c' = c\<lparr>cr_tx_counter := cr_tx_counter c + 1\<rparr> \<and> unat (cr_tx_counter c + 1) = Suc (unat (cr_tx_counter c))"
    using assms by (cases P m cap c rule: seal_cases) auto
  then show "c' = c\<lparr>cr_tx_counter := cr_tx_counter c + 1\<rparr>" "cr_tx_counter c < cr_tx_counter c + 1"
    by (simp_all add: word_less_nat_alt)
  show "cr_have_key c" "p = sealed_packet P (cr_tx_key c) (unat (cr_tx_counter c + 1)) m"
    using assms by (auto simp: nc_crypto_seal_def sealed_packet_def Let_def case_prod_beta split: if_splits)
qed

lemma sealed_counter: "counters [(sealed_packet P k n m, sa)] = [of_nat n]"
  by (simp add: counters_def is_sealed_def sealed_packet_def rd64_wr64)

lemma seal_out_wire:
  assumes "wire_ok P al"
  shows "wire_ok P (seal_out P buf to al)"
proof (cases "nc_crypto_seal P buf (AL_BUF + NC_CRYPTO_OVERHEAD) (al_crypto al)")
  case (Pair c r)
  show ?thesis
  proof (cases r)
    case None
    then have "c = al_crypto al" using Pair by (cases P buf "AL_BUF + NC_CRYPTO_OVERHEAD" "al_crypto al" rule: seal_cases) auto
    then show ?thesis using assms Pair None by (simp add: seal_out_def)
  next
    case (Some p)
    note s = seal_packet [OF Pair [unfolded Some]]
    have kept: "crypto_kept (al_crypto al) c" by (simp add: s(3) crypto_kept_def)
    have le: "n < cr_tx_counter (al_crypto al) + 1" if "n \<le> cr_tx_counter (al_crypto al)" for n
      using that s(4) by (rule le_less_trans)
    have p: "protected_by P c p" using s unfolding protected_by_def by auto
    have old: "protected_by P c (fst d)" if "d \<in> set (al_wire al)" for d
      using assms that protected_kept [OF _ kept] by (simp add: wire_ok_def)
    have n: "counters [(p, sa)] = [cr_tx_counter (al_crypto al) + 1]" for sa unfolding s(2) sealed_counter by simp
    have out: "seal_out P buf to al = (case nc_udp_to_sockaddr to of None \<Rightarrow> al\<lparr>al_crypto := c\<rparr>
        | Some sa \<Rightarrow> al\<lparr>al_crypto := c, al_wire := al_wire al @ [(p, sa)]\<rparr>)"
      using Pair Some by (simp add: seal_out_def sendto_def Let_def split: option.split)
    show ?thesis
      unfolding out wire_ok_def using assms p old le
      by (auto simp: wire_ok_def n s(3) sorted_wrt_append intro: less_imp_le split: option.split)
  qed
qed

section \<open>Draining and writing\<close>

text \<open>What these operations may change; \<open>T\<close> are the tags of the messages they may write.\<close>

definition sent :: "u8 set \<Rightarrow> auth_link \<Rightarrow> auth_link \<Rightarrow> bool" where
  "sent T al al' \<longleftrightarrow> (\<exists>c n w ws. al' = al\<lparr>al_conn := c, al_crypto := (al_crypto al)\<lparr>cr_tx_counter := n\<rparr>, al_wire := w,
       al_trace := al_trace al @ ws\<rparr> \<and> sending (al_conn al) c \<and> (\<forall>e \<in> set ws. \<exists>tag d. e = Wrote tag d \<and> tag \<in> T))"

definition low_ok :: "nc_prims \<Rightarrow> auth_link \<Rightarrow> bool" where
  "low_ok P al \<longleftrightarrow> conn_ok al \<and> wire_ok P al"

lemma sentI:
  "al' = al\<lparr>al_conn := c, al_crypto := (al_crypto al)\<lparr>cr_tx_counter := n\<rparr>, al_wire := w, al_trace := al_trace al @ ws\<rparr> \<Longrightarrow>
     sending (al_conn al) c \<Longrightarrow> (\<And>e. e \<in> set ws \<Longrightarrow> \<exists>tag d. e = Wrote tag d \<and> tag \<in> T) \<Longrightarrow> sent T al al'"
  unfolding sent_def by blast

lemma sent_refl [simp]: "sent T al al"
  by (rule sentI [where c = "al_conn al" and n = "cr_tx_counter (al_crypto al)" and w = "al_wire al" and ws = "[]"]) simp_all

lemma sent_trans:
  assumes "sent T a b" and "sent T b c"
  shows "sent T a c"
proof -
  obtain c1 n1 w1 ws1 where 1: "b = a\<lparr>al_conn := c1, al_crypto := (al_crypto a)\<lparr>cr_tx_counter := n1\<rparr>, al_wire := w1,
       al_trace := al_trace a @ ws1\<rparr>" "sending (al_conn a) c1" "\<forall>e \<in> set ws1. \<exists>tag d. e = Wrote tag d \<and> tag \<in> T"
    using assms(1) unfolding sent_def by blast
  obtain c2 n2 w2 ws2 where 2: "c = b\<lparr>al_conn := c2, al_crypto := (al_crypto b)\<lparr>cr_tx_counter := n2\<rparr>, al_wire := w2,
       al_trace := al_trace b @ ws2\<rparr>" "sending (al_conn b) c2" "\<forall>e \<in> set ws2. \<exists>tag d. e = Wrote tag d \<and> tag \<in> T"
    using assms(2) unfolding sent_def by blast
  show ?thesis
    by (rule sentI [where c = c2 and n = n2 and w = w2 and ws = "ws1 @ ws2"])
      (use 1 2 in \<open>auto intro: sending_trans\<close>)
qed

lemma sent_mono: "sent T al al' \<Longrightarrow> T \<subseteq> U \<Longrightarrow> sent U al al'"
  unfolding sent_def by blast

lemma sent_conn: "sending (al_conn al) c \<Longrightarrow> sent T al (al\<lparr>al_conn := c\<rparr>)"
  by (rule sentI [where c = c and n = "cr_tx_counter (al_crypto al)" and w = "al_wire al" and ws = "[]"]) simp_all

lemma sent_log: "tag \<in> T \<Longrightarrow> sent T al (al_log (Wrote tag d) al)"
  by (rule sentI [where c = "al_conn al" and n = "cr_tx_counter (al_crypto al)" and w = "al_wire al" and ws = "[Wrote tag d]"])
    (simp_all add: al_log_def)

lemma sent_seal: "sent T al (seal_out P buf to al)"
proof -
  obtain n w where "seal_out P buf to al = al\<lparr>al_crypto := (al_crypto al)\<lparr>cr_tx_counter := n\<rparr>, al_wire := w\<rparr>"
    using seal_out_eq by blast
  then show ?thesis by (intro sentI [where c = "al_conn al" and n = n and w = w and ws = "[]"]) simp_all
qed

lemma low_conn: "low_ok P al \<Longrightarrow> sending (al_conn al) c \<Longrightarrow> netchan_inv c \<Longrightarrow> low_ok P (al\<lparr>al_conn := c\<rparr>)"
  by (simp add: low_ok_def conn_ok_upd sending_def wire_ok_def)

lemma low_log [simp]: "low_ok P (al_log e al) = low_ok P al"
  by (simp add: low_ok_def al_log_def conn_ok_def wire_ok_def)

lemma low_seal: "low_ok P al \<Longrightarrow> low_ok P (seal_out P buf to al)"
proof -
  obtain n w where "seal_out P buf to al = al\<lparr>al_crypto := (al_crypto al)\<lparr>cr_tx_counter := n\<rparr>, al_wire := w\<rparr>"
    using seal_out_eq by blast
  then show "low_ok P al \<Longrightarrow> low_ok P (seal_out P buf to al)"
    using seal_out_wire [of P al buf to] by (simp add: low_ok_def conn_ok_def)
qed

lemma seal_out_conn [simp]: "al_conn (seal_out P buf to al) = al_conn al"
  using seal_out_eq [of P buf to al] by auto

text \<open>The drain ends, with nothing left to send.\<close>

lemma flush_out_ok:
  assumes "low_ok P al"
  shows "\<exists>al'. flush_out P al = Some al' \<and> sent {} al al' \<and> low_ok P al' \<and> \<not> nc_has_data (al_conn al')"
  using assms
proof (induction "owes (al_conn al)" arbitrary: al rule: less_induct)
  case less
  obtain r c where s: "netchan_send_next AL_BUF (al_conn al) = (r, c)" by (metis surj_pair)
  have c: "sending (al_conn al) c" "netchan_inv c"
    using send_next_sending [of "al_conn al" AL_BUF] netchan_send_next_inv [of "{#}" "{#}" "al_conn al" AL_BUF] less.prems s
    by (simp_all add: low_ok_def conn_ok_def)
  note ok = sent_conn [OF c(1)] low_conn [OF less.prems c]
  show ?case
  proof (cases r)
    case None
    then have "\<not> nc_has_data c"
      using s by (auto simp: netchan_send_next_def AL_BUF_def NC_HDR_INIT_SIZE_def NC_HDR_FULL_SIZE_def Let_def case_prod_beta split: if_splits)
    then show ?thesis using None s ok by (subst flush_out.simps) simp
  next
    case (Some x)
    obtain buf to where x: "x = (buf, to)" by (cases x)
    let ?al = "seal_out P buf to (al\<lparr>al_conn := c\<rparr>)"
    have "owes (al_conn ?al) < owes (al_conn al)"
      using send_next_pays [of "al_conn al" AL_BUF x c] less.prems s Some by (simp add: low_ok_def conn_ok_def AL_BUF_def)
    from less.hyps [OF this low_seal [OF ok(2)]] obtain al' where
      "flush_out P ?al = Some al'" "sent {} ?al al'" "low_ok P al'" "\<not> nc_has_data (al_conn al')" by blast
    moreover have "flush_out P al = flush_out P ?al" using s Some x by (subst flush_out.simps) simp
    ultimately show ?thesis using sent_trans [OF sent_trans [OF ok(1) sent_seal]] by metis
  qed
qed

lemma now_ms_ok:
  assumes "low_ok P al"
  shows "sent T al (snd (now_ms al)) \<and> low_ok P (snd (now_ms al))"
proof -
  have "sending (al_conn al) (snd (nc_now_ms (al_conn al)))" by simp
  moreover have "netchan_inv (snd (nc_now_ms (al_conn al)))" using assms by (simp add: low_ok_def conn_ok_def)
  ultimately show ?thesis
    using sent_conn low_conn [OF assms] by (simp add: now_ms_def case_prod_beta)
qed

lemma service_ok:
  assumes "low_ok P al"
  shows "sent T al (al\<lparr>al_conn := fst (netchan_service now (al_conn al))\<rparr>) \<and>
    low_ok P (al\<lparr>al_conn := fst (netchan_service now (al_conn al))\<rparr>)"
proof -
  have inv: "netchan_inv (al_conn al)" using assms by (simp add: low_ok_def conn_ok_def)
  note s = service_sending [OF inv, of now]
  show ?thesis using sent_conn [OF s] low_conn [OF assms s netchan_service_inv [OF inv]] by simp
qed

lemma send_spins_ok:
  assumes "low_ok P al" and "in_use (al_conn al) k"
  shows "\<exists>al' r. send_spins P n k tag data al = Some (al', r) \<and> sent {tag} al al' \<and> low_ok P al'"
  using assms
proof (induction n arbitrary: al)
  case (Suc n)
  obtain c w where w: "netchan_chan_write k (tag # data) (al_conn al) = (c, w)" by (metis surj_pair)
  have c: "sending (al_conn al) c" "netchan_inv c"
    using write_sending [of "al_conn al" k "tag # data"]
      netchan_chan_write_inv [of "{#}" "{#}" "al_conn al" k "tag # data"] Suc.prems w
    by (simp_all add: low_ok_def conn_ok_def)
  define al1 where "al1 = al\<lparr>al_conn := c\<rparr>"
  have 1: "sent {tag} al al1" "low_ok P al1" unfolding al1_def by (rule sent_conn [OF c(1)], rule low_conn [OF Suc.prems(1) c])
  obtain al2 where 2: "flush_out P (al_log (Wrote tag data) al1) = Some al2" "sent {} (al_log (Wrote tag data) al1) al2" "low_ok P al2"
    using flush_out_ok [of P "al_log (Wrote tag data) al1"] 1 by auto
  then have s2: "sent {tag} al al2"
    using sent_trans [OF sent_trans [OF 1(1) sent_log]] sent_mono by blast
  obtain now al3 where 3: "now_ms al1 = (now, al3)" by (metis surj_pair)
  define al4 where "al4 = al3\<lparr>al_conn := fst (netchan_service now (al_conn al3))\<rparr>"
  have 4: "sent {tag} al al4" "low_ok P al4"
  proof -
    have 3: "sent {tag} al1 al3" "low_ok P al3" using now_ms_ok [OF 1(2), of "{tag}"] 3 by simp_all
    show "sent {tag} al al4" "low_ok P al4"
      using service_ok [OF 3(2), of "{tag}" now] sent_trans [OF sent_trans [OF 1(1) 3(1)]] by (simp_all add: al4_def)
  qed
  obtain al5 where 5: "flush_out P al4 = Some al5" "sent {tag} al al5" "low_ok P al5"
    using flush_out_ok [OF 4(2)] sent_trans [OF 4(1)] sent_mono by blast
  then have "in_use (al_conn al5) k" using Suc.prems(2) by (auto simp: sent_def sending_def intro: later_in_use)
  from Suc.IH [OF 5(3) this] obtain al6 r where 6: "send_spins P n k tag data al5 = Some (al6, r)" "sent {tag} al5 al6" "low_ok P al6"
    by blast
  have "send_spins P (Suc n) k tag data al =
      (if w = int (length data + 1) then Some (al2, 0)
       else if w \<noteq> NETCHAN_ERR_FLOW \<and> w \<noteq> NETCHAN_ERR_AGAIN then Some (al1, -1)
       else Some (al6, r))"
    unfolding send_spins.simps w Let_def prod.case al1_def [symmetric] 2(1) 3 al4_def [symmetric] 5(1) Option.bind.bind_lunit 6(1) ..
  then show ?case using 1 2 s2 6 sent_trans [OF 5(2)] by auto
qed simp

lemma chan_send_ok:
  assumes "low_ok P al"
  shows "\<exists>al' r. chan_send P tag data al = Some (al', r) \<and> sent {tag} al al' \<and> low_ok P al'"
  using assms send_spins_ok [OF assms] by (auto simp: chan_send_def low_ok_def conn_ok_def split: option.split)

lemma auth_outs_ok:
  "low_ok P al \<Longrightarrow> \<exists>al'. auth_outs P ms al = Some al' \<and> sent {TAG_AUTH} al al' \<and> low_ok P al'"
proof (induction ms arbitrary: al)
  case (Cons m ms)
  obtain al1 r where 1: "chan_send P TAG_AUTH m al = Some (al1, r)" "sent {TAG_AUTH} al al1" "low_ok P al1"
    using chan_send_ok [OF Cons.prems] by blast
  from Cons.IH [OF this(3)] obtain al2 where "auth_outs P ms al1 = Some al2" "sent {TAG_AUTH} al1 al2" "low_ok P al2" by blast
  with 1 show ?case by (auto simp: auth_out_def intro: sent_trans)
qed simp

end
