(* ===== verification/Nc_Link_Laws.thy ===== *)
theory Nc_Link_Laws
  imports Nc_Link_Inv
begin

text \<open>
  The link with its callbacks: the login and what is reported of it, the callbacks as an interface, and that
  every handler returns and keeps the invariant whatever the peer sends and whatever the application
  answers from inside a callback.
\<close>

section \<open>The login\<close>

lemma try_next_ok [simp]:
  "au_state (client_try_next a) = NC_AUTH_OK \<longleftrightarrow> au_state a = NC_AUTH_OK"
  "au_server (client_try_next a) = au_server a" "au_user (client_try_next a) = au_user a"
  by (auto simp: client_try_next_def)

lemma feed_fields:
  assumes "length (au_user a) \<le> NC_AUTH_MAX_USER"
  shows "au_server (fst (nc_auth_feed P m a)) = au_server a \<and> length (au_user (fst (nc_auth_feed P m a))) \<le> NC_AUTH_MAX_USER"
proof -
  have c: "au_server (fst (client_feed m a)) = au_server a" "au_user (fst (client_feed m a)) = au_user a"
    by (simp_all add: client_feed_def Let_def)
  have "length (cstr xs) \<le> length xs" for xs by (simp add: cstr_def length_takeWhile_le)
  then have "length (cstr (take n xs)) \<le> n" for n xs by (metis length_take min.boundedE order_trans)
  then have "length (cstr (take (unat (m ! 1)) (drop 2 m))) \<le> NC_AUTH_MAX_USER" if "\<not> NC_AUTH_MAX_USER < unat (m ! 1)"
    using that by (meson leI order_trans)
  then have s: "au_server (fst (server_feed P m a)) = au_server a" "length (au_user (fst (server_feed P m a))) \<le> NC_AUTH_MAX_USER"
    using assms by (auto simp: server_feed_def server_hello_def server_pubkey_def server_password_def Let_def)
  show ?thesis using assms c s by (auto simp: nc_auth_feed_def Let_def case_prod_beta)
qed

lemma client_accepted:
  assumes "\<not> au_server a" and "au_state (fst (nc_auth_feed P m a)) = NC_AUTH_OK" and "au_state a \<noteq> NC_AUTH_OK"
  shows "m \<noteq> [] \<and> hd m = MSG_OK \<and> au_need (fst (nc_auth_feed P m a)) = au_need a"
  using assms by (auto simp: nc_auth_feed_def client_feed_def Let_def msg_codes split: if_splits)

lemma feed_settled: "au_state a = NC_AUTH_OK \<Longrightarrow> fst (nc_auth_feed P m a) = a"
  by (simp add: nc_auth_feed_def)

lemma supply_fields:
  "au_server (nc_auth_supply_key P key a) = au_server a" "au_user (nc_auth_supply_key P key a) = au_user a"
  "au_state (nc_auth_supply_key P key a) = NC_AUTH_OK \<longleftrightarrow> au_state a = NC_AUTH_OK"
  "au_server (nc_auth_supply_password pw a) = au_server a" "au_user (nc_auth_supply_password pw a) = au_user a"
  "au_state (nc_auth_supply_password pw a) = NC_AUTH_OK \<longleftrightarrow> au_state a = NC_AUTH_OK"
  by (auto simp: nc_auth_supply_key_def nc_auth_supply_password_def Let_def split: option.split prod.split)

lemma feed_all_append: "feed_all P (ms @ ns) a = feed_all P ns (feed_all P ms a)"
  by (induction ms arbitrary: a) simp_all

section \<open>The history\<close>

fun fed :: "link_event list \<Rightarrow> u8 list list" where
  "fed [] = []"
| "fed (Fed m # es) = m # fed es"
| "fed (_ # es) = fed es"

fun is_down :: "link_event \<Rightarrow> bool" where
  "is_down (On_down r) = True"
| "is_down _ = False"

text \<open>What must not happen before the login has succeeded: application bytes in either direction.\<close>

fun needs_login :: "link_event \<Rightarrow> bool" where
  "needs_login (On_data d) = True"
| "needs_login (Wrote tag d) = (tag = TAG_APP)"
| "needs_login _ = False"

definition after_login :: "link_event list \<Rightarrow> bool" where
  "after_login tr \<longleftrightarrow> (\<forall>i < length tr. needs_login (tr ! i) \<longrightarrow> On_up \<in> set (take i tr))"

lemma fed_append [simp]: "fed (xs @ ys) = fed xs @ fed ys"
  by (induction xs rule: fed.induct) simp_all

lemma after_login_snoc [simp]: "after_login (tr @ [e]) \<longleftrightarrow> after_login tr \<and> (needs_login e \<longrightarrow> On_up \<in> set tr)"
  by (auto simp: after_login_def less_Suc_eq nth_append)

definition trace_ok :: "auth_link \<Rightarrow> bool" where
  "trace_ok al \<longleftrightarrow> after_login (al_trace al) \<and> (On_up \<in> set (al_trace al) \<longleftrightarrow> al_up al) \<and>
     count_list (al_trace al) On_up \<le> 1 \<and> length (filter is_down (al_trace al)) = (if al_down al then 1 else 0)"

section \<open>The invariant\<close>

definition login_ok :: "nc_prims \<Rightarrow> auth_link \<Rightarrow> bool" where
  "login_ok P al \<longleftrightarrow>
    (al_auth_started al \<longrightarrow> cr_have_key (al_crypto al) \<and> au_server (al_auth al) = al_server al \<and>
       length (au_user (al_auth al)) \<le> NC_AUTH_MAX_USER \<and>
       (al_server al \<longrightarrow> al_auth al = feed_all P (fed (al_trace al)) (nc_auth_server_init (cr_sid (al_crypto al)) (Some (al_scb al)) True)) \<and>
       (\<not> al_server al \<and> au_state (al_auth al) = NC_AUTH_OK \<longrightarrow> list_ex (\<lambda>m. m \<noteq> [] \<and> hd m = MSG_OK) (fed (al_trace al)))) \<and>
    (\<not> al_auth_started al \<longrightarrow> \<not> al_up al \<and> fed (al_trace al) = [] \<and> al_need_fired al = NC_AUTH_NEED_NOTHING) \<and>
    (al_up al \<longrightarrow> au_state (al_auth al) = NC_AUTH_OK \<and> al_user al = au_user (al_auth al))"

text \<open>Between two calls, a login that is decided has been reported, and so has what it needs.\<close>

definition settled :: "auth_link \<Rightarrow> bool" where
  "settled al \<longleftrightarrow> (al_auth_started al \<and> \<not> al_up al \<and> \<not> al_down al \<longrightarrow>
     au_state (al_auth al) \<noteq> NC_AUTH_OK \<and> (\<not> al_server al \<longrightarrow> au_need (al_auth al) = al_need_fired al))"

text \<open>What holds when \<open>settle_auth\<close> is called: a need that was not reported yet belongs to a login that is not decided.\<close>

definition unsettled :: "auth_link \<Rightarrow> bool" where
  "unsettled al \<longleftrightarrow> (al_auth_started al \<and> \<not> al_up al \<and> \<not> al_down al \<and> \<not> al_server al \<and> au_state (al_auth al) = NC_AUTH_OK \<longrightarrow>
     au_need (al_auth al) = al_need_fired al)"

definition core_ok :: "nc_prims \<Rightarrow> auth_link \<Rightarrow> bool" where
  "core_ok P al \<longleftrightarrow> low_ok P al \<and> peer_ok (al_crypto al) \<and> login_ok P al \<and> trace_ok al"

definition link_inv :: "nc_prims \<Rightarrow> auth_link \<Rightarrow> bool" where
  "link_inv P al \<longleftrightarrow> core_ok P al \<and> settled al"

text \<open>
  What a callback, and every call of the interface it can make, leaves in place; \<open>calm\<close> adds that it does
  not decide the login.
\<close>

definition kept :: "auth_link \<Rightarrow> auth_link \<Rightarrow> bool" where
  "kept al al' \<longleftrightarrow> sending (al_conn al) (al_conn al') \<and> al_tx al' = al_tx al \<and> al_rx al' = al_rx al \<and>
     al_server al' = al_server al \<and> al_scb al' = al_scb al \<and> al_auth_started al' = al_auth_started al \<and>
     (al_up al \<longrightarrow> al_up al') \<and> (al_down al \<longrightarrow> al_down al') \<and> al_timers al' = al_timers al \<and> al_closing al' = al_closing al \<and>
     cr_have_key (al_crypto al') = cr_have_key (al_crypto al) \<and> cr_sid (al_crypto al') = cr_sid (al_crypto al) \<and>
     (\<exists>es. al_trace al' = al_trace al @ es)"

definition calm :: "auth_link \<Rightarrow> auth_link \<Rightarrow> bool" where
  "calm al al' \<longleftrightarrow> kept al al' \<and> al_up al' = al_up al \<and>
     (au_state (al_auth al') = NC_AUTH_OK \<longleftrightarrow> au_state (al_auth al) = NC_AUTH_OK)"

lemma kept_refl [simp]: "kept al al"
  by (simp add: kept_def)

lemma kept_trans: "kept a b \<Longrightarrow> kept b c \<Longrightarrow> kept a c"
  unfolding kept_def by (elim conjE exE) (simp add: sending_trans [of "al_conn a" "al_conn b" "al_conn c"])

lemma calm_refl [simp]: "calm al al"
  by (simp add: calm_def)

lemma calm_trans: "calm a b \<Longrightarrow> calm b c \<Longrightarrow> calm a c"
  by (auto simp: calm_def intro: kept_trans)

lemma calm_kept: "calm a b \<Longrightarrow> kept a b"
  by (simp add: calm_def)

subsection \<open>Writing keeps it\<close>

lemma sent_calm: "sent T al al' \<Longrightarrow> calm al al'"
  by (auto simp: sent_def calm_def kept_def)

lemma wrote_events:
  assumes "\<forall>e \<in> set ws. \<exists>tag d. e = Wrote tag d \<and> tag \<in> T" and "TAG_APP \<in> T \<Longrightarrow> On_up \<in> set tr" and "after_login tr"
  shows "after_login (tr @ ws) \<and> fed ws = [] \<and> On_up \<notin> set ws \<and> filter is_down ws = []"
  using assms(1)
proof (induction ws rule: rev_induct)
  case (snoc e ws)
  then obtain tag d where "e = Wrote tag d" "tag \<in> T" by auto
  then show ?case
    using snoc assms(2) after_login_snoc [of "tr @ ws" e] by auto
qed (simp add: assms(3))

lemma sent_core:
  assumes "core_ok P al" and "sent T al al'" and "low_ok P al'" and "TAG_APP \<in> T \<Longrightarrow> al_up al"
  shows "core_ok P al' \<and> (settled al' \<longleftrightarrow> settled al) \<and> (unsettled al' \<longleftrightarrow> unsettled al)"
proof -
  obtain c n w ws where al': "al' = al\<lparr>al_conn := c, al_crypto := (al_crypto al)\<lparr>cr_tx_counter := n\<rparr>, al_wire := w,
       al_trace := al_trace al @ ws\<rparr>" "\<forall>e \<in> set ws. \<exists>tag d. e = Wrote tag d \<and> tag \<in> T"
    using assms(2) unfolding sent_def by blast
  have tr: "trace_ok al" "login_ok P al" "peer_ok (al_crypto al)" using assms(1) by (simp_all add: core_ok_def)
  have "after_login (al_trace al @ ws) \<and> fed ws = [] \<and> On_up \<notin> set ws \<and> filter is_down ws = []"
    by (rule wrote_events [OF al'(2)]) (use tr(1) assms(4) in \<open>auto simp: trace_ok_def\<close>)
  then have "trace_ok al'" "login_ok P al'"
    using tr(1,2) by (simp_all add: al'(1) trace_ok_def login_ok_def count_list_0_iff)
  moreover have "peer_ok (al_crypto al')" using tr(3) by (auto simp: al'(1) peer_ok_def split: option.splits)
  ultimately show ?thesis using assms(3) by (simp add: core_ok_def al'(1) settled_def unsettled_def)
qed

lemma core_low: "core_ok P al \<Longrightarrow> low_ok P al"
  by (simp add: core_ok_def)

lemma flush_inv:
  assumes "link_inv P al"
  shows "\<exists>al'. flush_out P al = Some al' \<and> link_inv P al' \<and> calm al al'"
proof -
  have core: "core_ok P al" "settled al" using assms by (simp_all add: link_inv_def)
  obtain al' where "flush_out P al = Some al'" "sent {} al al'" "low_ok P al'"
    using flush_out_ok [OF core_low [OF core(1)]] by blast
  with sent_core [OF core(1) this(2,3)] core(2) sent_calm show ?thesis by (auto simp: link_inv_def)
qed

subsection \<open>Calls of the login\<close>

lemma auth_call_ok:
  assumes "core_ok P (al\<lparr>al_auth := f (al_auth al)\<rparr>)"
  shows "\<exists>al'. auth_call P f al = Some al' \<and> core_ok P al' \<and> sent {TAG_AUTH} (al\<lparr>al_auth := f (al_auth al)\<rparr>) al' \<and>
    (unsettled al' \<longleftrightarrow> unsettled (al\<lparr>al_auth := f (al_auth al)\<rparr>))"
proof -
  let ?al = "al\<lparr>al_auth := f (al_auth al)\<rparr>"
  obtain al' where "auth_outs P (drop (length (au_sent (al_auth al))) (au_sent (f (al_auth al)))) ?al = Some al'"
      "sent {TAG_AUTH} ?al al'" "low_ok P al'"
    using auth_outs_ok [OF core_low [OF assms]] by blast
  with sent_core [OF assms this(2,3)] show ?thesis by (auto simp: auth_call_def TAG_AUTH_def TAG_APP_def)
qed

lemma low_auth [simp]: "low_ok P (al\<lparr>al_auth := a\<rparr>) = low_ok P al" "low_ok P (al\<lparr>al_need_fired := n\<rparr>) = low_ok P al"
  by (simp_all add: low_ok_def conn_ok_def wire_ok_def)

lemma supply_core:
  assumes "core_ok P al" and "al_auth_started al" and "\<not> al_server al"
    and "au_server a = au_server (al_auth al)" and "au_user a = au_user (al_auth al)"
    and "au_state a = NC_AUTH_OK \<longleftrightarrow> au_state (al_auth al) = NC_AUTH_OK"
  shows "core_ok P (al\<lparr>al_auth := a\<rparr>)"
  using assms by (simp add: core_ok_def login_ok_def trace_ok_def)

lemma feed_core:
  assumes "link_inv P al" and "al_auth_started al"
  shows "core_ok P (al_log (Fed m) (al\<lparr>al_auth := fst (nc_auth_feed P m (al_auth al))\<rparr>)) \<and>
    unsettled (al\<lparr>al_auth := fst (nc_auth_feed P m (al_auth al))\<rparr>)"
proof -
  let ?a = "fst (nc_auth_feed P m (al_auth al))"
  have inv: "login_ok P al" "trace_ok al" "peer_ok (al_crypto al)" "low_ok P al" "settled al"
    using assms(1) by (simp_all add: link_inv_def core_ok_def)
  have a: "au_server (al_auth al) = al_server al" "length (au_user (al_auth al)) \<le> NC_AUTH_MAX_USER"
    using inv(1) assms(2) by (simp_all add: login_ok_def)
  note f = feed_fields [OF a(2), of P m]
  have up: "al_up al \<Longrightarrow> ?a = al_auth al" using inv(1) by (simp add: login_ok_def feed_settled)
  have ok: "m \<noteq> [] \<and> hd m = MSG_OK \<or> list_ex (\<lambda>m. m \<noteq> [] \<and> hd m = MSG_OK) (fed (al_trace al))"
    if "\<not> al_server al" "au_state ?a = NC_AUTH_OK"
    using client_accepted [of "al_auth al" P m] a(1) that inv(1) assms(2) by (auto simp: login_ok_def)
  have need: "au_need ?a = al_need_fired al" if "\<not> al_server al" "\<not> al_up al" "\<not> al_down al" "au_state ?a = NC_AUTH_OK"
    using client_accepted [of "al_auth al" P m] a(1) that inv(5) assms(2) by (auto simp: settled_def)
  have "login_ok P (al_log (Fed m) (al\<lparr>al_auth := ?a\<rparr>))"
    using inv(1) assms(2) f a up ok by (auto simp: login_ok_def al_log_def feed_all_append)
  moreover have "trace_ok (al_log (Fed m) (al\<lparr>al_auth := ?a\<rparr>))"
    using inv(2) by (simp add: trace_ok_def al_log_def count_list_append)
  moreover have "peer_ok (al_crypto (al_log (Fed m) (al\<lparr>al_auth := ?a\<rparr>)))" using inv(3) by (simp add: al_log_def)
  ultimately show ?thesis using inv(4) need by (simp add: core_ok_def unsettled_def)
qed

section \<open>Callbacks\<close>

text \<open>A callback that returns, keeps the invariant and does not decide the login.\<close>

definition tame :: "nc_prims \<Rightarrow> (auth_link \<Rightarrow> auth_link option) \<Rightarrow> bool" where
  "tame P f \<longleftrightarrow> (\<forall>al. link_inv P al \<longrightarrow> (\<exists>al'. f al = Some al' \<and> link_inv P al' \<and> calm al al'))"

lemma tameI: "(\<And>al. link_inv P al \<Longrightarrow> \<exists>al'. f al = Some al' \<and> link_inv P al' \<and> calm al al') \<Longrightarrow> tame P f"
  by (simp add: tame_def)

lemma tameD: "tame P f \<Longrightarrow> link_inv P al \<Longrightarrow> \<exists>al'. f al = Some al' \<and> link_inv P al' \<and> calm al al'"
  by (simp add: tame_def)

lemma call_tame: "(\<And>f. h = Some f \<Longrightarrow> tame P f) \<Longrightarrow> tame P (al_call h)"
  by (cases h) (auto simp: al_call_def tame_def)

text \<open>Steps of the history that the state accounts for.\<close>

lemma down_inv:
  assumes "core_ok P al" and "\<not> al_down al"
  shows "link_inv P (al_log (On_down r) (al\<lparr>al_down := True\<rparr>)) \<and> calm al (al_log (On_down r) (al\<lparr>al_down := True\<rparr>))"
  using assms by (simp add: link_inv_def core_ok_def settled_def login_ok_def trace_ok_def low_ok_def conn_ok_def wire_ok_def al_log_def
      calm_def kept_def)

lemma up_inv:
  assumes "core_ok P al" and "al_auth_started al" and "\<not> al_up al" and "au_state (al_auth al) = NC_AUTH_OK"
  shows "link_inv P (al_log On_up (al\<lparr>al_user := take NC_AUTH_MAX_USER (nc_auth_user (al_auth al)), al_up := True\<rparr>)) \<and>
    kept al (al_log On_up (al\<lparr>al_user := take NC_AUTH_MAX_USER (nc_auth_user (al_auth al)), al_up := True\<rparr>))"
proof -
  let ?al = "al_log On_up (al\<lparr>al_user := take NC_AUTH_MAX_USER (nc_auth_user (al_auth al)), al_up := True\<rparr>)"
  have inv: "low_ok P al" "peer_ok (al_crypto al)" "login_ok P al" "trace_ok al" using assms(1) by (simp_all add: core_ok_def)
  have "low_ok P ?al" using inv(1) by (simp add: low_ok_def conn_ok_def wire_ok_def al_log_def)
  moreover have "login_ok P ?al" using inv(3) assms(2-4) by (auto simp: login_ok_def al_log_def nc_auth_user_def)
  moreover have "trace_ok ?al" using inv(4) assms(3) by (auto simp: trace_ok_def al_log_def)
  ultimately show ?thesis
    using inv(2) by (simp add: link_inv_def core_ok_def settled_def kept_def) (simp add: al_log_def)
qed

lemma log_inv:
  assumes "link_inv P al" and "\<not> is_down e" and "e \<noteq> On_up" and "fed [e] = []" and "needs_login e \<Longrightarrow> al_up al"
  shows "link_inv P (al_log e al) \<and> calm al (al_log e al)"
proof -
  have inv: "low_ok P al" "peer_ok (al_crypto al)" "login_ok P al" "trace_ok al" "settled al"
    using assms(1) by (simp_all add: link_inv_def core_ok_def)
  have "login_ok P (al_log e al)" using inv(3) assms(4) by (simp add: login_ok_def al_log_def)
  moreover have "trace_ok (al_log e al)" using inv(4) assms by (auto simp: trace_ok_def al_log_def)
  moreover have "settled (al_log e al)" using inv(5) by (simp add: settled_def al_log_def)
  ultimately show ?thesis
    using inv by (simp add: link_inv_def core_ok_def calm_def kept_def) (simp add: al_log_def)
qed

lemma need_fired_inv:
  assumes "core_ok P al" and "al_auth_started al"
  shows "core_ok P (al\<lparr>al_need_fired := n\<rparr>)"
  using assms by (simp add: core_ok_def login_ok_def trace_ok_def)

locale link_app =
  fixes P :: nc_prims and cb :: auth_link_cb
  assumes up_tame: "on_up cb = Some f \<Longrightarrow> tame P f"
    and data_tame: "on_data cb = Some g \<Longrightarrow> tame P (g d)"
    and down_tame: "on_down cb = Some h \<Longrightarrow> tame P (h r)"
    and need_tame: "on_need cb = Some i \<Longrightarrow> tame P (i n)"
begin

lemma fire_down_ok:
  assumes "core_ok P al"
  shows "\<exists>al'. fire_down cb r al = Some al' \<and> link_inv P al' \<and> calm al al' \<and> al_down al'"
proof (cases "al_down al")
  case True
  then show ?thesis using assms by (simp add: fire_down_def link_inv_def settled_def)
next
  case False
  let ?al = "al_log (On_down r) (al\<lparr>al_down := True\<rparr>)"
  have "tame P (al_call (map_option (\<lambda>f. f r) (on_down cb)))" by (rule call_tame) (auto intro: down_tame)
  from tameD [OF this, of ?al] down_inv [OF assms False, of r] obtain al' where
    al': "al_call (map_option (\<lambda>f. f r) (on_down cb)) ?al = Some al'" "link_inv P al'" "calm ?al al'" by blast
  have "al_down al'" using al'(3) by (simp add: calm_def kept_def al_log_def)
  then show ?thesis
    using al' False calm_trans [OF conjunct2 [OF down_inv [OF assms False, of r]] al'(3)] by (simp add: fire_down_def)
qed

lemma settle_need_decided:
  "unsettled al \<Longrightarrow> au_state (al_auth al) = NC_AUTH_OK \<Longrightarrow> settle_need cb al = Some al"
  by (auto simp: unsettled_def settle_need_def nc_auth_needs_def)

lemma settle_need_ok:
  assumes "core_ok P al" and "au_state (al_auth al) \<noteq> NC_AUTH_OK"
  shows "\<exists>al'. settle_need cb al = Some al' \<and> link_inv P al' \<and> calm al al'"
proof (cases "\<not> al_auth_started al \<or> al_server al \<or> al_up al \<or> al_down al \<or> au_need (al_auth al) = al_need_fired al")
  case True
  then have "settle_need cb al = Some al" by (auto simp: settle_need_def nc_auth_needs_def)
  moreover have "settled al" using True assms(2) by (auto simp: settled_def)
  ultimately show ?thesis using assms(1) by (simp add: link_inv_def)
next
  case False
  let ?need = "au_need (al_auth al)" and ?al = "al\<lparr>al_need_fired := au_need (al_auth al)\<rparr>"
  have al: "link_inv P ?al" "calm al ?al"
    using need_fired_inv [OF assms(1)] False assms(2) by (auto simp: link_inv_def settled_def calm_def kept_def)
  show ?thesis
  proof (cases "?need \<noteq> NC_AUTH_NEED_NOTHING \<and> on_need cb \<noteq> None")
    case True
    have "tame P (al_call (map_option (\<lambda>f. f ?need) (on_need cb)))" by (rule call_tame) (auto intro: need_tame)
    moreover have log: "link_inv P (al_log (On_need ?need) ?al)" "calm ?al (al_log (On_need ?need) ?al)"
      using log_inv [OF al(1), of "On_need ?need"] by simp_all
    ultimately show ?thesis
      using tameD [of P _ "al_log (On_need ?need) ?al"] True False calm_trans [OF calm_trans [OF al(2) log(2)]]
      by (fastforce simp: settle_need_def nc_auth_needs_def Let_def)
  qed (use al False in \<open>auto simp: settle_need_def nc_auth_needs_def Let_def\<close>)
qed

lemma settle_auth_ok:
  assumes "core_ok P al" and "unsettled al"
  shows "\<exists>al'. settle_auth cb al = Some al' \<and> link_inv P al' \<and> kept al al' \<and>
    (al_up al \<or> al_down al \<or> au_state (al_auth al) \<noteq> NC_AUTH_OK \<longrightarrow> calm al al')"
proof (cases "\<not> al_auth_started al \<or> al_up al \<or> al_down al")
  case True
  then show ?thesis using assms(1) by (auto simp: settle_auth_def link_inv_def settled_def)
next
  case False
  show ?thesis
  proof (cases "au_state (al_auth al) = NC_AUTH_OK")
    case True
    let ?al = "al_log On_up (al\<lparr>al_user := take NC_AUTH_MAX_USER (nc_auth_user (al_auth al)), al_up := True\<rparr>)"
    have al: "link_inv P ?al" "kept al ?al" using up_inv [OF assms(1)] False True by simp_all
    have "tame P (al_call (on_up cb))" by (rule call_tame) (rule up_tame)
    from tameD [OF this al(1)] obtain al' where "al_call (on_up cb) ?al = Some al'" "link_inv P al'" "calm ?al al'" by blast
    then show ?thesis
      using True False settle_need_decided [OF assms(2) True] kept_trans [OF al(2) calm_kept] by (auto simp: settle_auth_def)
  next
    case pending: False
    obtain al1 where 1: "settle_need cb al = Some al1" "link_inv P al1" "calm al al1"
      using settle_need_ok [OF assms(1) pending] by blast
    then have "au_state (al_auth al1) \<noteq> NC_AUTH_OK" using pending by (simp add: calm_def)
    moreover obtain al2 where "fire_down cb AL_DOWN_AUTH al1 = Some al2" "link_inv P al2" "calm al1 al2"
      using fire_down_ok [of al1 AL_DOWN_AUTH] 1(2) by (auto simp: link_inv_def)
    ultimately show ?thesis
      using 1 False pending calm_trans [OF 1(3)] by (auto simp: settle_auth_def calm_kept)
  qed
qed

subsection \<open>Calls from inside a callback\<close>

lemma supply_tame:
  assumes f: "\<And>a. au_server (f a) = au_server a" "\<And>a. au_user (f a) = au_user a"
    "\<And>a. au_state (f a) = NC_AUTH_OK \<longleftrightarrow> au_state a = NC_AUTH_OK"
  shows "tame P (\<lambda>al. if \<not> al_auth_started al \<or> al_server al then Some al
    else do { al \<leftarrow> auth_call P f al; al \<leftarrow> settle_auth cb (al\<lparr>al_need_fired := NC_AUTH_NEED_NOTHING\<rparr>); flush_out P al })"
proof (rule tameI, goal_cases)
  case (1 al)
  show ?case
  proof (cases "\<not> al_auth_started al \<or> al_server al")
    case False
    have inv: "core_ok P al" "settled al" using 1 by (simp_all add: link_inv_def)
    let ?al = "al\<lparr>al_auth := f (al_auth al)\<rparr>"
    have "core_ok P ?al" by (rule supply_core) (use inv(1) False f in simp_all)
    from auth_call_ok [where f = f and al = al, OF this] obtain al1 where 1: "auth_call P f al = Some al1" "core_ok P al1" "sent {TAG_AUTH} ?al al1" by blast
    have c1: "calm al al1" using calm_trans [OF _ sent_calm [OF 1(3)], of al] f(3) by (simp add: calm_def kept_def)
    let ?al1 = "al1\<lparr>al_need_fired := NC_AUTH_NEED_NOTHING\<rparr>"
    have st: "al_auth_started al1" using c1 False by (simp add: calm_def kept_def)
    have open1: "al_up al1 \<or> al_down al1 \<or> au_state (al_auth al1) \<noteq> NC_AUTH_OK"
      using c1 inv(2) False by (auto simp: calm_def kept_def settled_def)
    then have "unsettled ?al1" by (auto simp: unsettled_def)
    from settle_auth_ok [OF need_fired_inv [OF 1(2) st] this] open1 obtain al2 where
      2: "settle_auth cb ?al1 = Some al2" "link_inv P al2" "calm ?al1 al2" by auto
    obtain al3 where 3: "flush_out P al2 = Some al3" "link_inv P al3" "calm al2 al3" using flush_inv [OF 2(2)] by blast
    have "calm al1 ?al1" by (simp add: calm_def kept_def)
    then have "calm al al3" using calm_trans [OF calm_trans [OF calm_trans [OF c1]] 3(3)] 2(3) by blast
    then show ?thesis using 1 2 3 False by simp
  qed (use 1 in auto)
qed

lemma supply_key_tame: "tame P (auth_link_supply_key P cb key)"
  unfolding auth_link_supply_key_def [abs_def] by (rule supply_tame) (simp_all add: supply_fields)

lemma supply_password_tame: "tame P (auth_link_supply_password P cb pw)"
  unfolding auth_link_supply_password_def [abs_def] by (rule supply_tame) (simp_all add: supply_fields)

lemma send_tame: "tame P (\<lambda>al. map_option fst (auth_link_send P data al))"
proof (rule tameI, goal_cases)
  case (1 al)
  have inv: "core_ok P al" "settled al" using 1 by (simp_all add: link_inv_def)
  obtain al' r where s: "chan_send P TAG_APP data al = Some (al', r)" "sent {TAG_APP} al al'" "low_ok P al'"
    using chan_send_ok [OF core_low [OF inv(1)]] by blast
  show ?case
  proof (cases "al_up al")
    case True
    then show ?thesis using s sent_core [OF inv(1) s(2,3)] inv(2) sent_calm [OF s(2)] by (simp add: auth_link_send_def link_inv_def)
  qed (use 1 in \<open>simp add: auth_link_send_def\<close>)
qed

subsection \<open>Messages\<close>

lemma deliver_ok:
  assumes "link_inv P al"
  shows "\<exists>al'. deliver P cb msg al = Some al' \<and> link_inv P al' \<and> kept al al'"
proof -
  have inv: "core_ok P al" "unsettled al" using assms by (auto simp: link_inv_def settled_def unsettled_def)
  have calls: "\<exists>al'. al_call (map_option (\<lambda>f. f (tl msg)) (on_data cb)) (al_log (On_data (tl msg)) al) = Some al' \<and> link_inv P al' \<and> kept al al'"
    if "al_up al"
  proof -
    have "tame P (al_call (map_option (\<lambda>f. f (tl msg)) (on_data cb)))" by (rule call_tame) (auto intro: data_tame)
    moreover note log = log_inv [OF assms, of "On_data (tl msg)"] that
    ultimately show ?thesis using tameD [of P _ "al_log (On_data (tl msg)) al"] by (fastforce intro: calm_kept calm_trans)
  qed
  have feeds: "\<exists>al1. auth_call P (\<lambda>a. fst (nc_auth_feed P (tl msg) a)) (al_log (Fed (tl msg)) al) = Some al1 \<and> core_ok P al1 \<and>
      unsettled al1 \<and> kept al al1" if "al_auth_started al"
  proof -
    let ?f = "\<lambda>a. fst (nc_auth_feed P (tl msg) a)"
    have eq: "(al_log (Fed (tl msg)) al)\<lparr>al_auth := ?f (al_auth (al_log (Fed (tl msg)) al))\<rparr> =
        al_log (Fed (tl msg)) (al\<lparr>al_auth := ?f (al_auth al)\<rparr>)" by (simp add: al_log_def)
    note f = feed_core [OF assms that, of "tl msg"]
    obtain al1 where 1: "auth_call P ?f (al_log (Fed (tl msg)) al) = Some al1" "core_ok P al1"
        "sent {TAG_AUTH} (al_log (Fed (tl msg)) (al\<lparr>al_auth := ?f (al_auth al)\<rparr>)) al1"
        "unsettled al1 \<longleftrightarrow> unsettled (al_log (Fed (tl msg)) (al\<lparr>al_auth := ?f (al_auth al)\<rparr>))"
      using auth_call_ok [where P = P and al = "al_log (Fed (tl msg)) al" and f = ?f] f unfolding eq by blast
    moreover have "kept al (al_log (Fed (tl msg)) (al\<lparr>al_auth := ?f (al_auth al)\<rparr>))" by (simp add: kept_def al_log_def)
    moreover have "unsettled (al_log e al') = unsettled al'" for e al' by (simp add: unsettled_def al_log_def)
    ultimately show ?thesis using f kept_trans [OF _ calm_kept [OF sent_calm [OF 1(3)]]] by blast
  qed
  show ?thesis
  proof (cases "al_auth_started al \<and> hd msg = TAG_AUTH \<and> \<not> length msg < 1")
    case True
    then obtain al1 where 1: "auth_call P (\<lambda>a. fst (nc_auth_feed P (tl msg) a)) (al_log (Fed (tl msg)) al) = Some al1" "core_ok P al1"
        "unsettled al1" "kept al al1" using feeds by blast
    obtain al2 where "settle_auth cb al1 = Some al2" "link_inv P al2" "kept al1 al2" using settle_auth_ok [OF 1(2,3)] by blast
    then show ?thesis using 1 True kept_trans [OF 1(4)] by (auto simp: deliver_def)
  next
    case False
    then show ?thesis
      using settle_auth_ok [OF inv] calls assms by (auto simp: deliver_def)
  qed
qed

end

end
