(* ===== verification/Nc_Link_Run.thy ===== *)
theory Nc_Link_Run
  imports Nc_Link_Laws
begin

text \<open>
  The event and message loops, the receive loop and the two handlers of the event loop: each returns and keeps
  the invariant of the link.
\<close>

section \<open>The connection moves on\<close>

definition onward :: "auth_link \<Rightarrow> auth_link \<Rightarrow> bool" where
  "onward al al' \<longleftrightarrow> al_server al' = al_server al \<and> al_scb al' = al_scb al \<and> al_timers al' = al_timers al \<and>
     al_closing al' = al_closing al \<and>
     (cr_have_key (al_crypto al) \<longrightarrow> cr_have_key (al_crypto al') \<and> cr_sid (al_crypto al') = cr_sid (al_crypto al)) \<and>
     (\<exists>es. al_trace al' = al_trace al @ es)"

lemma onward_refl [simp]: "onward al al"
  by (simp add: onward_def)

lemma onward_trans: "onward a b \<Longrightarrow> onward b c \<Longrightarrow> onward a c"
  unfolding onward_def by (elim conjE exE) simp

lemma onward_conn [simp]: "onward (al\<lparr>al_conn := c\<rparr>) = onward al"
  by (simp add: fun_eq_iff onward_def)

lemma kept_onward: "kept al al' \<Longrightarrow> onward al al'"
  by (simp add: kept_def onward_def)

lemma calm_onward: "calm al al' \<Longrightarrow> onward al al'"
  by (simp add: calm_kept kept_onward)

text \<open>Updates that touch neither login nor history.\<close>

lemma conn_inv:
  assumes "link_inv P al" and "nc_later (al_conn al) c" and "netchan_inv c"
  shows "link_inv P (al\<lparr>al_conn := c\<rparr>)"
proof -
  have "low_ok P (al\<lparr>al_conn := c\<rparr>)"
    using assms by (simp add: link_inv_def core_ok_def low_ok_def conn_ok_upd wire_ok_def)
  then show ?thesis
    using assms(1) by (simp add: link_inv_def core_ok_def login_ok_def trace_ok_def settled_def)
qed

lemma rx_inv: "link_inv P al \<Longrightarrow> in_use (al_conn al) k \<Longrightarrow> link_inv P (al\<lparr>al_rx := Some k\<rparr>)"
  by (simp add: link_inv_def core_ok_def low_ok_def conn_ok_def wire_ok_def login_ok_def trace_ok_def settled_def)

lemma plain_inv [simp]:
  "link_inv P (al\<lparr>al_peer := a, al_have_peer := b\<rparr>) = link_inv P al"
  "link_inv P (al\<lparr>al_connect_sent := s\<rparr>) = link_inv P al" "link_inv P (al\<lparr>al_accepted := s\<rparr>) = link_inv P al"
  "link_inv P (al\<lparr>al_timers := t\<rparr>) = link_inv P al" "link_inv P (al\<lparr>al_timer_id := i\<rparr>) = link_inv P al"
  by (simp_all add: link_inv_def core_ok_def low_ok_def conn_ok_def wire_ok_def login_ok_def trace_ok_def settled_def)

lemma hello_inv:
  assumes "link_inv P al"
  shows "link_inv P (send_hello al)" and "onward al (send_hello al)"
proof -
  obtain w where w: "send_hello al = al\<lparr>al_wire := w\<rparr>" using send_hello_eq by blast
  have "wire_ok P (send_hello al)" using assms by (auto simp: link_inv_def core_ok_def low_ok_def intro: send_hello_wire)
  then show "link_inv P (send_hello al)" "onward al (send_hello al)"
    using assms unfolding w by (simp_all add: link_inv_def core_ok_def low_ok_def conn_ok_def login_ok_def trace_ok_def settled_def onward_def)
qed

lemma crypto_inv:
  assumes "link_inv P al"
  shows "link_inv P (al\<lparr>al_crypto := fst (nc_crypto_open P pkt cap (al_crypto al))\<rparr>)"
proof -
  let ?c = "fst (nc_crypto_open P pkt cap (al_crypto al))"
  have inv: "conn_ok al" "wire_ok P al" "peer_ok (al_crypto al)" "login_ok P al" "trace_ok al" "settled al"
    using assms by (simp_all add: link_inv_def core_ok_def low_ok_def)
  note k = open_kept [OF inv(3), of P pkt cap]
  have "wire_ok P (al\<lparr>al_crypto := ?c\<rparr>)" by (rule wire_kept [OF inv(2)]) (use k in simp_all)
  moreover have "login_ok P (al\<lparr>al_crypto := ?c\<rparr>)" using inv(4) k by (simp add: login_ok_def crypto_kept_def)
  ultimately show ?thesis
    using inv k by (simp add: link_inv_def core_ok_def low_ok_def conn_ok_def trace_ok_def settled_def)
qed

section \<open>Datagrams\<close>

lemma link_conn: "link_inv P al \<Longrightarrow> netchan_inv (al_conn al)"
  by (simp add: link_inv_def core_ok_def low_ok_def conn_ok_def)

lemma link_peer: "link_inv P al \<Longrightarrow> peer_ok (al_crypto al)"
  by (simp add: link_inv_def core_ok_def)

lemma take_datagram_inv:
  assumes "link_inv P al"
  shows "link_inv P (snd (take_datagram P buf from al)) \<and> onward al (snd (take_datagram P buf from al))"
proof -
  define al1 where "al1 = (if al_server al \<and> \<not> al_have_peer al then al\<lparr>al_peer := from, al_have_peer := True\<rparr> else al)"
  define cr where "cr = fst (nc_crypto_open P buf AL_BUF (al_crypto al1))"
  define plain where "plain = snd (snd (nc_crypto_open P buf AL_BUF (al_crypto al1)))"
  define al2 where "al2 = al1\<lparr>al_crypto := cr\<rparr>"
  define al3 where "al3 = (if hd buf = NC_CRYPTO_HELLO \<and> al_server al2 then send_hello al2 else al2)"
  have 1: "link_inv P al1" "onward al al1" using assms by (simp_all add: al1_def onward_def)
  have 2: "link_inv P al2" "onward al al2" 
    using crypto_inv [OF 1(1)] 1(2) open_kept [of "al_crypto al1" P buf AL_BUF] link_peer [OF 1(1)]
    by (simp_all add: al2_def cr_def onward_def crypto_kept_def)
  have 3: "link_inv P al3" "onward al al3" using 2 hello_inv [OF 2(1)] onward_trans by (auto simp: al3_def)
  let ?c = "fst (netchan_feed plain from (al_conn al3))"
  note inv = link_conn [OF 3(1)]
  have c: "nc_later (al_conn al3) ?c" "netchan_inv ?c" using later_feed [OF inv] netchan_feed_inv [OF inv] by auto
  have 4: "link_inv P (al3\<lparr>al_conn := ?c\<rparr>)" by (rule conn_inv [OF 3(1) c])
  have d: "nc_later (al_conn al3) (fst (netchan_accept ?c))" "netchan_inv (fst (netchan_accept ?c))"
    using later_trans [OF c(1) later_calls(2)] nc_step_inv [OF nc_step.accept c(2)] by auto
  have 5: "link_inv P (al3\<lparr>al_conn := fst (netchan_accept ?c)\<rparr>)" by (rule conn_inv [OF 3(1) d])
  have "snd (take_datagram P buf from al) \<in> {al2, al3, al3\<lparr>al_conn := ?c\<rparr>, al3\<lparr>al_conn := fst (netchan_accept ?c), al_accepted := True\<rparr>}"
    unfolding take_datagram_def Let_def case_prod_beta al1_def [symmetric] cr_def [symmetric] plain_def [symmetric]
      al2_def [symmetric] al3_def [symmetric] by simp
  moreover have "link_inv P (al3\<lparr>al_conn := fst (netchan_accept ?c), al_accepted := True\<rparr>)" using 5 plain_inv(3) by metis
  moreover have "onward al (al3\<lparr>al_conn := x\<rparr>)" "onward al (al3\<lparr>al_conn := x, al_accepted := True\<rparr>)" for x
    using 3(2) by (simp_all add: onward_def)
  ultimately show ?thesis using 2 3 4 by auto
qed

lemma recv_loop_inv:
  "link_inv P al \<Longrightarrow> link_inv P (snd (recv_loop P ds al)) \<and> onward al (snd (recv_loop P ds al))"
proof (induction P ds al rule: recv_loop.induct)
  case (2 P pkt sa rest al)
  show ?case
  proof (cases "nc_udp_from_sockaddr sa")
    case (Some ad)
    obtain stop al1 where t: "take_datagram P (take AL_BUF pkt) ad al = (stop, al1)" by (metis surj_pair)
    have 1: "link_inv P al1" "onward al al1" using take_datagram_inv [OF 2(3), of "take AL_BUF pkt" ad] t by simp_all
    show ?thesis
    proof (cases "take AL_BUF pkt = [] \<or> stop")
      case True
      then show ?thesis using 2(3) 1 Some t by (cases "take AL_BUF pkt = []") (simp_all add: Let_def)
    next
      case False
      then have "link_inv P (snd (recv_loop P rest al1)) \<and> onward al1 (snd (recv_loop P rest al1))"
        using 2(2) [OF refl _ Some t [symmetric] refl _ 1(1)] by simp
      then show ?thesis using False Some t onward_trans [OF 1(2)] by (simp add: Let_def)
    qed
  qed (use 2 in \<open>simp add: Let_def\<close>)
qed simp

section \<open>Events and messages\<close>

definition events_left :: "netchan_conn \<Rightarrow> nat" where
  "events_left c = length (ring_slots 16 (c_ev_head c) (c_ev_tail c))"

definition messages_left :: "netchan_conn \<Rightarrow> nat \<Rightarrow> nat" where
  "messages_left c k = length (ring_slots 64 (ch_rq_head (chan_at c k)) (ch_rq_tail (chan_at c k)))"

lemma inv_ev_16: "netchan_inv c \<Longrightarrow> c_ev_head c < 16 \<and> c_ev_tail c < 16"
  using inv_ev ev_ok_16 by blast

lemma events_bound: "netchan_inv c \<Longrightarrow> events_left c < 16"
  using ring_room [of "c_ev_head c" 16 "c_ev_tail c"] inv_ev_16 [of c] by (simp add: events_left_def)

lemma poll_one:
  assumes "netchan_inv c" and "netchan_poll c = (Some ev, c')"
  shows "events_left c = Suc (events_left c')" and "ev = c_events c (c_ev_head c)"
  using assms ring_pop [of "c_ev_head c" 16 "c_ev_tail c"] inv_ev_16 [OF assms(1)]
  by (auto simp: netchan_poll_def events_left_def NC_EVENT_QUEUE_def split: if_splits)

lemma read_one:
  assumes "netchan_inv c" and "in_use c k" and "netchan_chan_read k buflen c = ((msg, rd), c')"
  shows "nc_later c c'" and "netchan_inv c'" and "0 < rd \<Longrightarrow> messages_left c k = Suc (messages_left c' k)"
proof -
  show "netchan_inv c'" using netchan_chan_read_inv [OF assms(1,2), of buflen] assms(3) by simp
  show "nc_later c c'" using assms(3) by (auto simp: netchan_chan_read_def Let_def case_prod_beta split: if_splits)
  have h: "ch_rq_head (chan_at c k) < 64" "ch_rq_tail (chan_at c k) < 64"
    using inv_chan_ok [OF assms(1,2)] by (simp_all add: chan_ok_def)
  show "messages_left c k = Suc (messages_left c' k)" if "0 < rd"
    using assms(3) that ring_pop [OF h]
    by (auto simp: netchan_chan_read_def Let_def case_prod_beta messages_left_def NC_RECV_QUEUE_def NETCHAN_ERR_def split: if_splits)
qed

context link_app
begin

lemma handle_event_ok:
  assumes "link_inv P al" and "\<And>k. ev_ch ev = Some k \<Longrightarrow> in_use (al_conn al) k"
  shows "\<exists>al'. handle_event cb ev al = Some al' \<and> link_inv P al' \<and> onward al al' \<and>
    (al_conn al' = al_conn al \<and> al_down al' = al_down al \<or> \<not> al_down al \<and> al_down al')"
proof (cases "ev_type ev = NETCHAN_EV_DISCONNECTED")
  case True
  obtain al' where "fire_down cb AL_DOWN_PEER al = Some al'" "link_inv P al'" "calm al al'" "al_down al'"
    using fire_down_ok [of al AL_DOWN_PEER] assms(1) by (auto simp: link_inv_def)
  then show ?thesis using True assms(1) by (cases "al_down al") (auto simp: handle_event_def fire_down_def calm_onward)
next
  case False
  then show ?thesis using assms rx_inv [OF assms(1)] by (auto simp: handle_event_def onward_def)
qed

lemma poll_loop_ok:
  assumes "link_inv P al"
  shows "\<exists>al'. poll_loop cb al = Some al' \<and> link_inv P al' \<and> onward al al'"
  using assms
proof (induction "(if al_down al then 0 else 16) + events_left (al_conn al)" arbitrary: al rule: less_induct)
  case less
  obtain r c where p: "netchan_poll (al_conn al) = (r, c)" by (metis surj_pair)
  note inv = link_conn [OF less.prems]
  have c: "nc_later (al_conn al) c" "netchan_inv c"
    using later_calls(3) [of "al_conn al"] poll_inv [OF inv] p by simp_all
  note al = conn_inv [OF less.prems c]
  show ?case
  proof (cases r)
    case None
    then show ?thesis using p al by (subst poll_loop.simps) (simp add: onward_def)
  next
    case (Some ev)
    have "in_use c k" if "ev_ch ev = Some k" for k
      using that less.prems poll_one(2) [OF inv p [unfolded Some]] later_in_use [OF c(1)]
      by (auto simp: link_inv_def core_ok_def low_ok_def conn_ok_def)
    then obtain al1 where 1: "handle_event cb ev (al\<lparr>al_conn := c\<rparr>) = Some al1" "link_inv P al1" "onward (al\<lparr>al_conn := c\<rparr>) al1"
        "al_conn al1 = c \<and> al_down al1 = al_down al \<or> \<not> al_down al \<and> al_down al1"
      using handle_event_ok [OF al, of ev] by auto
    have "(if al_down al1 then 0 else 16) + events_left (al_conn al1) < (if al_down al then 0 else 16) + events_left (al_conn al)"
      using 1(4) poll_one(1) [OF inv p [unfolded Some]] events_bound [OF link_conn [OF 1(2)]] by auto
    from less.hyps [OF this 1(2)] obtain al2 where 2: "poll_loop cb al1 = Some al2" "link_inv P al2" "onward al1 al2" by blast
    have "onward al al2" using onward_trans [of al al1 al2] 1(3) 2(3) by simp
    then show ?thesis using p Some 1(1) 2(1,2) by (subst poll_loop.simps) simp
  qed
qed

lemma read_loop_ok:
  assumes "link_inv P al"
  shows "\<exists>al'. read_loop P cb al = Some al' \<and> link_inv P al' \<and> onward al al'"
proof (cases "al_rx al")
  case None
  then show ?thesis using assms by (subst read_loop.simps) simp
next
  case (Some k)
  then show ?thesis
    using assms
  proof (induction "messages_left (al_conn al) k" arbitrary: al rule: less_induct)
    case less
    obtain msg rd c where r: "netchan_chan_read k AL_BUF (al_conn al) = ((msg, rd), c)" by (metis surj_pair)
    have use: "in_use (al_conn al) k" using less.prems by (simp add: link_inv_def core_ok_def low_ok_def conn_ok_def)
    note one = read_one [OF link_conn [OF less.prems(2)] use r]
    note al = conn_inv [OF less.prems(2) one(1,2)]
    show ?case
    proof (cases "0 < rd")
      case True
      obtain al1 where 1: "deliver P cb msg (al\<lparr>al_conn := c\<rparr>) = Some al1" "link_inv P al1" "kept (al\<lparr>al_conn := c\<rparr>) al1"
        using deliver_ok [OF al] by blast
      have rx: "al_rx al1 = Some k" "messages_left (al_conn al1) k = messages_left c k"
        using 1(3) less.prems(1) by (simp_all add: kept_def sending_def rx_kept_def messages_left_def)
      have "messages_left (al_conn al1) k < messages_left (al_conn al) k" using one(3) [OF True] rx(2) by simp
      from less.hyps [OF this rx(1) 1(2)] obtain al2 where
        2: "read_loop P cb al1 = Some al2" "link_inv P al2" "onward al1 al2" by blast
      have "onward al al2" using onward_trans [of al al1 al2] kept_onward [OF 1(3)] 2(3) by simp
      then show ?thesis using r True 1(1) 2(1,2) less.prems(1) by (subst read_loop.simps) simp
    next
      case False
      then show ?thesis using r al less.prems(1) by (subst read_loop.simps) (simp add: onward_def)
    qed
  qed
qed

lemma pump_events_ok:
  assumes "link_inv P al"
  shows "\<exists>al'. pump_events P cb al = Some al' \<and> link_inv P al' \<and> onward al al'"
proof -
  obtain al1 where 1: "poll_loop cb al = Some al1" "link_inv P al1" "onward al al1" using poll_loop_ok [OF assms] by blast
  obtain al2 where "read_loop P cb al1 = Some al2" "link_inv P al2" "onward al1 al2" using read_loop_ok [OF 1(2)] by blast
  with 1(1) onward_trans [OF 1(3)] show ?thesis by (simp add: pump_events_def)
qed

end

section \<open>Advancing\<close>

lemma advance_connect_inv:
  assumes "link_inv P al"
  shows "link_inv P (advance_connect al) \<and> onward al (advance_connect al)"
proof -
  let ?c = "fst (netchan_connect (al_peer al) (al_conn al))"
  have "link_inv P (al\<lparr>al_conn := ?c\<rparr>)"
    by (rule conn_inv [OF assms later_calls(1) nc_step_inv [OF nc_step.connect link_conn [OF assms]]])
  then have "link_inv P (al\<lparr>al_conn := ?c, al_connect_sent := b\<rparr>)" for b using plain_inv(2) by metis
  then show ?thesis using assms by (simp add: advance_connect_def Let_def case_prod_beta onward_def)
qed

lemma advance_channel_inv:
  assumes "link_inv P al"
  shows "link_inv P (advance_channel al) \<and> onward al (advance_channel al)"
proof (cases "al_tx al = None \<and> netchan_state (al_conn al) = NETCHAN_STATE_CONNECTED")
  case True
  obtain k c where o: "netchan_chan_open NETCHAN_RELIABLE NETCHAN_DIR_SEND AUTH_CHANNEL (al_conn al) = (k, c)" by (metis surj_pair)
  have c: "nc_later (al_conn al) c" "netchan_inv c"
    using later_chan_open [of "al_conn al" NETCHAN_RELIABLE NETCHAN_DIR_SEND AUTH_CHANNEL]
      netchan_chan_open_inv [OF link_conn [OF assms], of NETCHAN_RELIABLE NETCHAN_DIR_SEND AUTH_CHANNEL] o by simp_all
  have k: "in_use c j" if "k = Some j" for j using chan_open_in_use o that by blast
  note al = conn_inv [OF assms c]
  have "link_inv P (al\<lparr>al_conn := c, al_tx := k\<rparr>)"
    using al k by (simp add: link_inv_def core_ok_def low_ok_def conn_ok_def wire_ok_def login_ok_def trace_ok_def settled_def)
  then show ?thesis using o True by (simp add: advance_channel_def onward_def)
qed (use assms in \<open>auto simp: advance_channel_def\<close>)

lemma started_core:
  assumes "link_inv P al" and "\<not> al_auth_started al" and "nc_crypto_session_id (al_crypto al) = Some sid"
    and "a = (if al_server al then nc_auth_server_init sid (Some (al_scb al)) True else nc_auth_client_init sid (Some (al_user al)) True)"
  shows "core_ok P (al\<lparr>al_auth := a, al_auth_started := True\<rparr>)" and "au_state a = NC_AUTH_PENDING"
proof -
  have inv: "low_ok P al" "peer_ok (al_crypto al)" "login_ok P al" "trace_ok al" using assms(1) by (simp_all add: link_inv_def core_ok_def)
  have sid: "cr_have_key (al_crypto al)" "cr_sid (al_crypto al) = sid" using assms(3) by (auto simp: nc_crypto_session_id_def split: if_splits)
  show st: "au_state a = NC_AUTH_PENDING" by (simp add: assms(4) nc_auth_server_init_def nc_auth_client_init_def)
  have "login_ok P (al\<lparr>al_auth := a, al_auth_started := True\<rparr>)"
    using inv(3) assms(2) sid st by (auto simp: login_ok_def assms(4) nc_auth_server_init_def nc_auth_client_init_def zero_auth_def)
  then show "core_ok P (al\<lparr>al_auth := a, al_auth_started := True\<rparr>)"
    using inv by (simp add: core_ok_def low_ok_def conn_ok_def wire_ok_def trace_ok_def)
qed

lemma start_fields:
  "au_server (nc_auth_start a) = au_server a" "au_user (nc_auth_start a) = au_user a" "au_state (nc_auth_start a) = au_state a"
  by (simp_all add: nc_auth_start_def)

lemma advance_login_ok:
  assumes "link_inv P al"
  shows "\<exists>al'. advance_login P al = Some al' \<and> core_ok P al' \<and> unsettled al' \<and> onward al al'"
proof (cases "al_tx al \<noteq> None \<and> \<not> al_auth_started al \<and> nc_crypto_session_id (al_crypto al) \<noteq> None")
  case True
  then obtain sid where sid: "nc_crypto_session_id (al_crypto al) = Some sid" by blast
  define a where "a = (if al_server al then nc_auth_server_init sid (Some (al_scb al)) True else nc_auth_client_init sid (Some (al_user al)) True)"
  define al1 where "al1 = al\<lparr>al_auth := a, al_auth_started := True\<rparr>"
  have 1: "core_ok P al1" "au_state a = NC_AUTH_PENDING"
    using started_core [OF assms _ sid a_def] True by (simp_all add: al1_def)
  have run: "advance_login P al = (if \<not> al_server al then auth_call P nc_auth_start al1 else Some al1)"
    using True sid by (simp add: advance_login_def a_def al1_def Let_def)
  show ?thesis
  proof (cases "al_server al")
    case True
    then show ?thesis using run 1 by (simp add: unsettled_def al1_def onward_def)
  next
    case False
    have "core_ok P (al1\<lparr>al_auth := nc_auth_start (al_auth al1)\<rparr>)"
      by (rule supply_core [OF 1(1)]) (use False in \<open>simp_all add: al1_def start_fields\<close>)
    from auth_call_ok [where f = nc_auth_start and al = al1, OF this] obtain al2 where
      2: "auth_call P nc_auth_start al1 = Some al2" "core_ok P al2" "sent {TAG_AUTH} (al1\<lparr>al_auth := nc_auth_start (al_auth al1)\<rparr>) al2"
         "unsettled al2 \<longleftrightarrow> unsettled (al1\<lparr>al_auth := nc_auth_start (al_auth al1)\<rparr>)" by blast
    have "unsettled (al1\<lparr>al_auth := nc_auth_start (al_auth al1)\<rparr>)" using 1(2) by (simp add: unsettled_def al1_def start_fields)
    moreover have "onward al al2"
      using calm_onward [OF sent_calm [OF 2(3)]] by (simp add: onward_def al1_def)
    ultimately show ?thesis using run False 2 by simp
  qed
next
  case False
  then have "advance_login P al = Some al" by (auto simp: advance_login_def)
  then show ?thesis using assms by (auto simp: link_inv_def settled_def unsettled_def)
qed

context link_app
begin

lemma advance_ok:
  assumes "link_inv P al"
  shows "\<exists>al'. advance P cb al = Some al' \<and> link_inv P al' \<and> onward al al'"
proof (cases "nc_crypto_failed (al_crypto al)")
  case True
  then show ?thesis using fire_down_ok [of al AL_DOWN_HOSTKEY] assms calm_onward by (auto simp: advance_def link_inv_def)
next
  case False
  have 1: "link_inv P (advance_channel (advance_connect al))" "onward al (advance_channel (advance_connect al))"
    using advance_connect_inv [OF assms] advance_channel_inv [of P "advance_connect al"] onward_trans by blast+
  obtain al2 where 2: "advance_login P (advance_channel (advance_connect al)) = Some al2" "core_ok P al2" "unsettled al2"
      "onward (advance_channel (advance_connect al)) al2" using advance_login_ok [OF 1(1)] by blast
  obtain al3 where "settle_auth cb al2 = Some al3" "link_inv P al3" "kept al2 al3" using settle_auth_ok [OF 2(2,3)] by blast
  then show ?thesis
    using False 2 onward_trans [OF onward_trans [OF 1(2) 2(4)] kept_onward] by (auto simp: advance_def)
qed

text \<open>The common end of both handlers.\<close>

lemma turn_ok:
  assumes "link_inv P al"
  shows "\<exists>al1 al2 al3. pump_events P cb al = Some al1 \<and> advance P cb al1 = Some al2 \<and> flush_out P al2 = Some al3 \<and>
    link_inv P al3 \<and> onward al al3"
proof -
  obtain al1 where 1: "pump_events P cb al = Some al1" "link_inv P al1" "onward al al1" using pump_events_ok [OF assms] by blast
  obtain al2 where 2: "advance P cb al1 = Some al2" "link_inv P al2" "onward al1 al2" using advance_ok [OF 1(2)] by blast
  obtain al3 where 3: "flush_out P al2 = Some al3" "link_inv P al3" "calm al2 al3" using flush_inv [OF 2(2)] by blast
  show ?thesis using 1 2 3 onward_trans [OF onward_trans [OF 1(3) 2(3)] calm_onward [OF 3(3)]] by blast
qed

lemma on_readable_ok:
  assumes "link_inv P al"
  shows "\<exists>rest al'. on_readable P cb socket al = Some (rest, al') \<and> link_inv P al' \<and> onward al al'"
proof -
  obtain rest al0 where r: "recv_loop P socket al = (rest, al0)" by (metis surj_pair)
  have 0: "link_inv P al0" "onward al al0" using recv_loop_inv [OF assms, of socket] r by simp_all
  from turn_ok [OF 0(1)] obtain al1 al2 al3 where "pump_events P cb al0 = Some al1" "advance P cb al1 = Some al2"
    "flush_out P al2 = Some al3" "link_inv P al3" "onward al0 al3" by blast
  with r onward_trans [OF 0(2)] show ?thesis by (simp add: on_readable_def)
qed

text \<open>Up to the timer, a tick returns too.\<close>

lemma on_tick_split:
  assumes "link_inv P al"
  shows "\<exists>al3. link_inv P al3 \<and> onward al al3 \<and> on_tick P cb env al =
    (if \<not> al_closing al
     then do {
       (tm, i) \<leftarrow> iox_timer_add (tk_now env) (tk_alloc env) (tk_junk env) AL_TICK_MS (Some Tick) () (al_timers al);
       Some (al3\<lparr>al_timers := tm, al_timer_id := i\<rparr>) }
     else Some (al3\<lparr>al_timer_id := -1\<rparr>))"
proof -
  define al0 where "al0 = (if \<not> al_server al \<and> \<not> nc_crypto_ready (al_crypto al) then send_hello al else al)"
  have 0: "link_inv P al0" "onward al al0" using assms hello_inv [OF assms] by (simp_all add: al0_def)
  obtain now al1 where n: "now_ms al0 = (now, al1)" by (metis surj_pair)
  define al2 where "al2 = al1\<lparr>al_conn := fst (netchan_service now (al_conn al1))\<rparr>"
  have core: "core_ok P al0" "settled al0" using 0(1) by (simp_all add: link_inv_def)
  have s: "sent {} al0 al2" "low_ok P al2"
    using now_ms_ok [OF core_low [OF core(1)], of "{}"] n service_ok [of P al1 "{}" now] sent_trans [of "{}" al0 al1]
    unfolding al2_def by simp_all
  have 2: "link_inv P al2" "onward al al2"
    using sent_core [OF core(1) s] core(2) onward_trans [OF 0(2) calm_onward [OF sent_calm [OF s(1)]]] by (simp_all add: link_inv_def)
  from turn_ok [OF 2(1)] obtain al3 al4 al5 where t: "pump_events P cb al2 = Some al3" "advance P cb al3 = Some al4"
    "flush_out P al4 = Some al5" "link_inv P al5" "onward al2 al5" by blast
  have 5: "onward al al5" by (rule onward_trans [OF 2(2) t(5)])
  then have same: "al_closing al5 = al_closing al" "al_timers al5 = al_timers al" by (simp_all add: onward_def)
  have "on_tick P cb env al = (if \<not> al_closing al5
     then do {
       (tm, i) \<leftarrow> iox_timer_add (tk_now env) (tk_alloc env) (tk_junk env) AL_TICK_MS (Some Tick) () (al_timers al5);
       Some (al5\<lparr>al_timers := tm, al_timer_id := i\<rparr>) }
     else Some (al5\<lparr>al_timer_id := -1\<rparr>))"
    unfolding on_tick_def al0_def [symmetric] n Let_def prod.case al2_def [symmetric] t(1-3) Option.bind.bind_lunit ..
  then show ?thesis using t(4) 5 unfolding same by blast
qed

end

end
