(* ===== verification/Nc_Link_Session.thy ===== *)
theory Nc_Link_Session
  imports Nc_Link_Run
begin

text \<open>
  Whole lives of an authenticated link. The application is a function that answers each callback with calls
  of the link's interface, to any depth of nesting; it satisfies the interface \<open>link_app\<close>, so the lemmas proved
  there hold of every link that such an application opens, whatever datagrams arrive and whenever the timer
  fires.
\<close>

section \<open>The application\<close>

datatype link_request =
    Supply_key "(u8 list \<times> u8 list) option"
  | Supply_password "u8 list option"
  | Send_data "u8 list"

fun run_request :: "nc_prims \<Rightarrow> auth_link_cb \<Rightarrow> link_request \<Rightarrow> auth_link \<Rightarrow> auth_link option" where
  "run_request P cb (Supply_key key) al = auth_link_supply_key P cb key al"
| "run_request P cb (Supply_password pw) al = auth_link_supply_password P cb pw al"
| "run_request P cb (Send_data data) al = map_option fst (auth_link_send P data al)"

fun run_requests :: "nc_prims \<Rightarrow> auth_link_cb \<Rightarrow> link_request list \<Rightarrow> auth_link \<Rightarrow> auth_link option" where
  "run_requests P cb [] al = Some al"
| "run_requests P cb (r # rs) al = do { al \<leftarrow> run_request P cb r al; run_requests P cb rs al }"

text \<open>
  The callbacks of an application that answers the event \<open>e\<close> with the calls \<open>app e al\<close>. A call made from inside
  a callback can raise the next callback; \<open>n\<close> bounds how deep the application goes, and at the bottom it
  only listens.
\<close>

primrec app_cb :: "nc_prims \<Rightarrow> (link_event \<Rightarrow> auth_link \<Rightarrow> link_request list) \<Rightarrow> nat \<Rightarrow> auth_link_cb" where
  "app_cb P app 0 = \<lparr>on_up = Some Some, on_data = Some (\<lambda>_. Some), on_down = Some (\<lambda>_. Some), on_need = Some (\<lambda>_. Some)\<rparr>"
| "app_cb P app (Suc n) = \<lparr>
     on_up = Some (\<lambda>al. run_requests P (app_cb P app n) (app On_up al) al),
     on_data = Some (\<lambda>d al. run_requests P (app_cb P app n) (app (On_data d) al) al),
     on_down = Some (\<lambda>r al. run_requests P (app_cb P app n) (app (On_down r) al) al),
     on_need = Some (\<lambda>w al. run_requests P (app_cb P app n) (app (On_need w) al) al)\<rparr>"

context link_app
begin

lemma run_request_tame: "tame P (run_request P cb r)"
  by (cases r) (use supply_key_tame supply_password_tame send_tame in \<open>simp_all add: tame_def\<close>)

lemma run_requests_tame: "tame P (run_requests P cb rs)"
proof (rule tameI, induction rs)
  case (Cons r rs)
  obtain al1 where 1: "run_request P cb r al = Some al1" "link_inv P al1" "calm al al1"
    using tameD [OF run_request_tame Cons.prems] by blast
  obtain al2 where 2: "run_requests P cb rs al1 = Some al2" "link_inv P al2" "calm al1 al2" using Cons.IH [OF 1(2)] by blast
  then show ?case using 1 calm_trans [OF 1(3) 2(3)] by simp
qed simp

end

lemma tame_choice: "(\<And>x. tame P (f x)) \<Longrightarrow> tame P (\<lambda>al. f (g al) al)"
  by (simp add: tame_def)

lemma app_cb_app: "link_app P (app_cb P app n)"
proof (induction n)
  case 0
  show ?case by unfold_locales (auto simp: tame_def)
next
  case (Suc n)
  have "tame P (\<lambda>al. run_requests P (app_cb P app n) (g al) al)" for g
    by (rule tame_choice) (rule link_app.run_requests_tame [OF Suc])
  then show ?case by unfold_locales auto
qed

interpretation app: link_app P "app_cb P app n" for P app n
  by (rule app_cb_app)

section \<open>Sessions\<close>

text \<open>
  What can happen to a link after it is opened: the socket becomes readable, the timer fires, the application
  calls the interface of its own accord, and the other users of the loop change its timers.
\<close>

definition timers_fine :: "(tick_cb, unit) iox_timers \<Rightarrow> bool" where
  "timers_fine tm \<longleftrightarrow> (tm_initialized tm \<longrightarrow> timer_heap tm)"

inductive link_session :: "nc_prims \<Rightarrow> auth_link_cb \<Rightarrow> auth_link \<Rightarrow> bool" for P cb where
  opened: "timers_fine tm \<Longrightarrow> auth_link_open P cb cfg tm oe te = Some (Some al) \<Longrightarrow> link_session P cb al"
| readable: "link_session P cb al \<Longrightarrow> on_readable P cb socket al = Some (rest, al') \<Longrightarrow> link_session P cb al'"
| tick: "link_session P cb al \<Longrightarrow> on_tick P cb env al = Some al' \<Longrightarrow> link_session P cb al'"
| request: "link_session P cb al \<Longrightarrow> run_request P cb r al = Some al' \<Longrightarrow> link_session P cb al'"
| others: "link_session P cb al \<Longrightarrow> timers_fine tm \<Longrightarrow> link_session P cb (al\<lparr>al_timers := tm\<rparr>)"

definition link_ok :: "nc_prims \<Rightarrow> auth_link \<Rightarrow> bool" where
  "link_ok P al \<longleftrightarrow> link_inv P al \<and> timers_fine (al_timers al) \<and> \<not> al_closing al"

lemma timer_add_fine:
  assumes "timers_fine tm"
  shows "\<exists>tm' i. iox_timer_add now alloc junk ms cb arg tm = Some (tm', i) \<and> timers_fine tm'"
proof (cases "tm_initialized tm")
  case True
  then have h: "timer_heap tm" using assms by (simp add: timers_fine_def)
  show ?thesis
  proof (cases "pq_nr (tm_pq tm) < pq_max (tm_pq tm)")
    case True
    then show ?thesis using add_room [OF \<open>tm_initialized tm\<close> h True, of now alloc junk ms cb arg] by (auto simp: adds_def timers_fine_def)
  next
    case False
    then show ?thesis
      using add_full [OF \<open>tm_initialized tm\<close> h, of alloc now junk ms cb arg] by (auto simp: adds_def timers_fine_def not_less split: if_splits)
  qed
qed (use assms in \<open>simp add: iox_timer_add_def\<close>)

lemma fresh_link_inv:
  assumes "nc_crypto_init P rnd role ccfg = (cr, 0)"
  shows "link_inv P ((fresh_link cfg tm oe)\<lparr>al_crypto := cr\<rparr>)"
proof -
  have "\<not> cr_have_key cr" using init_fresh [OF assms] by (simp add: fresh_session_def)
  moreover have "ev_ch (c_events (netchan_open s ck en) i) = None" "cfg_mtu (c_cfg (netchan_open s ck en)) = NC_DEFAULT_MTU" for s ck en i
    by (simp_all add: netchan_open_def pool_init_def nc_zero_event_def netchan_cfg_default_def)
  ultimately show ?thesis
    using netchan_open_inv by (simp add: link_inv_def core_ok_def low_ok_def conn_ok_def wire_ok_def peer_ok_def login_ok_def trace_ok_def
        settled_def fresh_link_def counters_def after_login_def)
qed

lemma on_tick_ok:
  assumes "link_ok P al"
  shows "\<exists>al'. on_tick P (app_cb P app n) env al = Some al' \<and> link_ok P al' \<and>
    (\<exists>tm. iox_timer_add (tk_now env) (tk_alloc env) (tk_junk env) AL_TICK_MS (Some Tick) () (al_timers al) = Some (tm, al_timer_id al') \<and>
      al_timers al' = tm)"
proof -
  have l: "link_inv P al" "timers_fine (al_timers al)" "\<not> al_closing al" using assms by (simp_all add: link_ok_def)
  obtain tm i where a: "iox_timer_add (tk_now env) (tk_alloc env) (tk_junk env) AL_TICK_MS (Some Tick) () (al_timers al) = Some (tm, i)"
      "timers_fine tm" using timer_add_fine [OF l(2)] by blast
  show ?thesis
    using app.on_tick_split [OF l(1), of app n env] a l(3) by (auto simp: link_ok_def onward_def)
qed

lemma open_ok:
  assumes "timers_fine tm"
  shows "\<exists>r. auth_link_open P (app_cb P app n) cfg tm oe te = Some r \<and> (\<forall>al. r = Some al \<longrightarrow> link_ok P al)"
proof -
  have "\<exists>al'. on_tick P (app_cb P app n) te ((fresh_link cf tm oe)\<lparr>al_crypto := cr\<rparr>) = Some al' \<and> link_ok P al'"
    if "nc_crypto_init P rnd role cc = (cr, 0)" for cf cr rnd role cc
    using on_tick_ok [of P "(fresh_link cf tm oe)\<lparr>al_crypto := cr\<rparr>" app n te] fresh_link_inv [OF that] assms
    by (auto simp: link_ok_def fresh_link_def)
  note tick = this
  show ?thesis
  proof (cases cfg)
    case (Some cf)
    let ?cc = "\<lparr>cc_eph_sk_seed = None, cc_psk = lc_psk cf, cc_static_sk = lc_static_sk cf,
      cc_require_peer_static = lc_require_peer_static cf, cc_verify_peer = lc_verify_peer cf\<rparr>"
    obtain cr rc where i: "nc_crypto_init P (oe_random oe) (if lc_server cf then 1 else 0) (Some ?cc) = (cr, rc)" by (metis surj_pair)
    show ?thesis
    proof (cases "(\<not> lc_server cf \<and> lc_peer cf = None) \<or> (\<not> oe_calloc oe \<or> \<not> oe_conn oe) \<or> (rc \<noteq> 0 \<or> \<not> oe_fd_add oe)")
      case True
      then show ?thesis using Some i by (auto simp: auth_link_open_def Let_def)
    next
      case False
      then obtain al where al: "on_tick P (app_cb P app n) te ((fresh_link cf tm oe)\<lparr>al_crypto := cr\<rparr>) = Some al" "link_ok P al"
        using tick i by blast
      have "auth_link_open P (app_cb P app n) cfg tm oe te = Some (Some al)"
        using Some i False al(1) by (auto simp: auth_link_open_def Let_def)
      then show ?thesis using al(2) by simp
    qed
  qed (simp add: auth_link_open_def)
qed

lemma session_ok: "link_session P (app_cb P app n) al \<Longrightarrow> link_ok P al"
proof (induction rule: link_session.induct)
  case (opened tm cfg oe te al)
  then show ?case using open_ok [OF opened(1), of P app n cfg oe te] by auto
next
  case (readable al socket rest al')
  then show ?case using app.on_readable_ok [of P al app n socket] by (auto simp: link_ok_def onward_def)
next
  case (tick al env al')
  then show ?case using on_tick_ok [of P al app n env] by auto
next
  case (request al r al')
  then show ?case using tameD [OF app.run_request_tame, of P al app n r] by (auto simp: link_ok_def calm_def kept_def)
next
  case (others al tm)
  then show ?case by (simp add: link_ok_def)
qed

section \<open>Properties\<close>

text \<open>
  C3. A link comes up only for a proved identity. Whatever datagrams arrive, whatever the application answers and
  however the loop interleaves them, a link that reports itself up has session keys, and the application's
  verdict on the peer's identity key was to accept it. On the server a message of this very connection then proved
  the name that the link reports, for the identifier of this very session: a signature by a key that the
  credential store authorises, or the password it accepts. On the client the server has said that the login
  succeeded.
\<close>

theorem link_up_proved:
  assumes "link_session P (app_cb P app n) al" and "auth_link_up al"
  shows "cr_have_key (al_crypto al) \<and> (cr_require_peer_static (al_crypto al) \<longrightarrow> cr_peer_has_static (al_crypto al)) \<and>
    (case cr_verify_peer (al_crypto al) of
       Some verify \<Rightarrow> verify (if cr_peer_has_static (al_crypto al) then Some (cr_peer_static_pk (al_crypto al)) else None) = 0
     | None \<Rightarrow> True) \<and>
    list_ex (\<lambda>m. if al_server al then proves P (cr_sid (al_crypto al)) (al_scb al) (auth_link_user al) m
      else m \<noteq> [] \<and> hd m = MSG_OK) (fed (al_trace al))"
proof -
  have inv: "login_ok P al" "peer_ok (al_crypto al)" using session_ok [OF assms(1)] by (simp_all add: link_ok_def link_inv_def core_ok_def)
  have st: "al_auth_started al" "cr_have_key (al_crypto al)" "au_state (al_auth al) = NC_AUTH_OK" "al_user al = au_user (al_auth al)"
    using inv(1) assms(2) by (auto simp: login_ok_def auth_link_up_def)
  have "list_ex (proves P (cr_sid (al_crypto al)) (al_scb al) (auth_link_user al)) (fed (al_trace al))" if "al_server al"
  proof -
    let ?a = "nc_auth_server_init (cr_sid (al_crypto al)) (Some (al_scb al)) True"
    have a: "al_auth al = feed_all P (fed (al_trace al)) ?a" using inv(1) st(1) that by (simp add: login_ok_def)
    have "au_server ?a" "au_state ?a = NC_AUTH_PENDING" by (simp_all add: nc_auth_server_init_def zero_auth_def)
    from feed_sound [OF this, of P "fed (al_trace al)"] show ?thesis
      using st(3,4) a by (auto simp: list_ex_iff auth_link_user_def nc_auth_server_init_def)
  qed
  moreover have "list_ex (\<lambda>m. m \<noteq> [] \<and> hd m = MSG_OK) (fed (al_trace al))" if "\<not> al_server al"
    using inv(1) st(1,3) that by (simp add: login_ok_def)
  ultimately have "list_ex (\<lambda>m. if al_server al then proves P (cr_sid (al_crypto al)) (al_scb al) (auth_link_user al) m
      else m \<noteq> [] \<and> hd m = MSG_OK) (fed (al_trace al))" by (cases "al_server al") simp_all
  with inv(2) st(2) show ?thesis unfolding peer_ok_def by blast
qed

text \<open>
  C7. No application bytes before the login. In every history of a link, a message delivered to the
  application and an application message written to the channel come after the report that the link is up;
  that report is made at most once, and exactly when the link is up; and at most one report says that the link is
  down. This holds even where the application answers a callback from inside it.
\<close>

theorem reports_in_order:
  assumes "link_session P (app_cb P app n) al"
  shows "after_login (al_trace al) \<and> (On_up \<in> set (al_trace al) \<longleftrightarrow> auth_link_up al) \<and>
    count_list (al_trace al) On_up \<le> 1 \<and> length (filter is_down (al_trace al)) \<le> 1"
  using session_ok [OF assms] by (simp add: link_ok_def link_inv_def core_ok_def trace_ok_def auth_link_up_def)

text \<open>
  C6. Everything on the wire is protected. Every datagram that a link sends is its HELLO or is sealed under the
  key of the session, so nothing of the connection, the login or the application travels in the clear; and no
  two sealed datagrams carry the same counter, so no nonce is used twice.
\<close>

theorem wire_protected:
  assumes "link_session P (app_cb P app n) al"
  shows "list_all (\<lambda>d. protected_by P (al_crypto al) (fst d)) (al_wire al) \<and> distinct (counters (al_wire al))"
proof -
  have "wire_ok P al" using session_ok [OF assms] by (simp add: link_ok_def link_inv_def core_ok_def low_ok_def)
  then show ?thesis by (simp add: wire_ok_def list_all_iff strict_sorted_iff)
qed


text \<open>
  C32. The tick keeps itself alive. Where the loop's timers are running and can hold one more, every tick arms
  the next one 50 milliseconds ahead, under the identifier that the link keeps to cancel it, and leaves the other
  timers of the loop alone.
\<close>

theorem tick_rearmed:
  assumes "link_session P (app_cb P app n) al" and "tm_initialized (al_timers al)"
    and "pq_nr (tm_pq (al_timers al)) < pq_max (tm_pq (al_timers al))"
  shows "\<exists>al'. on_tick P (app_cb P app n) env al = Some al' \<and>
    pq_bag (tm_pq (al_timers al')) = pq_bag (tm_pq (al_timers al)) +
      {#\<lparr>te_deadline_ns = tk_now env + 50 * 1000000, te_cb = Some Tick, te_arg = (), te_id = al_timer_id al'\<rparr>#}"
proof -
  have ok: "link_ok P al" by (rule session_ok [OF assms(1)])
  then have h: "timer_heap (al_timers al)" using assms(2) by (simp add: link_ok_def timers_fine_def)
  show ?thesis
    using on_tick_ok [OF ok, of app n env]
      add_room [OF assms(2) h assms(3), of "tk_now env" "tk_alloc env" "tk_junk env" AL_TICK_MS "Some Tick" "()"]
    by (auto simp: adds_def AL_TICK_MS_def)
qed

end
