(* ===== verification/Nc_Link_Login.thy ===== *)
theory Nc_Link_Login
  imports Nc_Link_Session
begin

text \<open>
  A login over the link: a server that waits for one is sent a datagram with a name and its password, and
  comes up. The messages of the datagram are followed through the connection, the receive queue and the
  login.
\<close>

section \<open>Messages into the queue\<close>

text \<open>A receiving channel that expects the sequence number \<open>seq\<close> and holds nothing back.\<close>

definition rx_idle :: "netchan_conn \<Rightarrow> nat \<Rightarrow> u8 \<Rightarrow> u16 \<Rightarrow> bool" where
  "rx_idle c k i seq \<longleftrightarrow> rq_valid k c \<and> c_channels c i = Some k \<and> ch_type (chan_at c k) \<noteq> NETCHAN_UNRELIABLE \<and>
     ch_recv_seq (chan_at c k) = seq \<and> (\<forall>j. \<not> ro_valid (ch_reorder (chan_at c k) j))"

definition data_event :: "nat \<Rightarrow> netchan_event" where
  "data_event k = nc_zero_event\<lparr>ev_type := NETCHAN_EV_DATA, ev_ch := Some k\<rparr>"

lemma enqueue_rest:
  "c_events (fst (chan_recv_enqueue k m c)) = c_events c" "c_ev_head (fst (chan_recv_enqueue k m c)) = c_ev_head c"
  "c_ev_tail (fst (chan_recv_enqueue k m c)) = c_ev_tail c" "c_local_id (fst (chan_recv_enqueue k m c)) = c_local_id c"
  "ch_type (chan_at (fst (chan_recv_enqueue k m c)) j) = ch_type (chan_at c j)"
  by (simp_all add: chan_recv_enqueue_def pool_get_def upd_chan_def buf_write_def chan_at_def Let_def split: list.split option.split)

lemma ev_list_same:
  "c_events c' = c_events c \<Longrightarrow> c_ev_head c' = c_ev_head c \<Longrightarrow> c_ev_tail c' = c_ev_tail c \<Longrightarrow> ev_list c' = ev_list c"
  by (simp add: ev_list_def)

lemma rx_idle_gets:
  assumes "rx_idle c k i seq" and "length (rq_msgs k c) < 63" and "c_pool_free c \<noteq> []" and "length m \<le> 2048" and "length (ev_list c) < 15"
  shows "\<exists>c'. parse_frames (data_frame i seq 0 1 m @ rest) c = parse_frames rest c' \<and> rx_idle c' k i (seq + 1) \<and>
    rq_msgs k c' = rq_msgs k c @ [m] \<and> length (c_pool_free c) = Suc (length (c_pool_free c')) \<and>
    ev_list c' = ev_list c @ [data_event k] \<and> c_local_id c' = c_local_id c"
proof -
  have w: "rq_valid k c" "c_channels c i = Some k" "ch_type (chan_at c k) \<noteq> NETCHAN_UNRELIABLE" "ch_recv_seq (chan_at c k) = seq"
      "\<And>j. \<not> ro_valid (ch_reorder (chan_at c k) j)" using assms(1) by (simp_all add: rx_idle_def)
  then have role: "ch_role (chan_at c k) = 1" and use: "in_use c k" and inv: "netchan_inv c" by (simp_all add: rq_valid_def)
  define c1 where "c1 = fst (chan_recv_enqueue k m c)"
  have "rq_room k m c" using assms by (simp add: rq_room_def)
  note q = push_queued [OF w(1) this, folded c1_def]
  have inv1: "netchan_inv c1" "in_use c1 k" using q by (simp_all add: rq_valid_def)
  define c2 where "c2 = upd_chan k (\<lambda>ch. ch\<lparr>ch_recv_seq := ch_recv_seq ch + 1\<rparr>) (ev_push NETCHAN_EV_DATA (Some k) c1)"
  have "\<not> reordered_ready (chan_at c2 k)" using w(5) by (simp add: c2_def c1_def reordered_ready_def)
  then have rel: "reliable_message k seq m c = c2"
    using w(4) by (simp add: reliable_message_def Let_def c1_def [symmetric] c2_def [symmetric] deliver_idle)
  define c3 where "c3 = data_reliable k seq 0 1 m c"
  have c3: "c3 = upd_chan k (\<lambda>ch. ch\<lparr>ch_need_ack := True, ch_ack_seq := (if 0 < ch_recv_seq ch then ch_recv_seq ch - 1 else 0)\<rparr>) c2"
    by (simp add: c3_def data_reliable_def rel)
  have s: "sending c1 c3" using inv1(2) by (simp add: c3 c2_def sending_def rx_upd)
  have inv3: "netchan_inv c3" unfolding c3_def by (rule data_reliable_inv [OF inv use])
  note rq = sending_msgs [OF s inv3 conjunct1 [OF q]]
  have "parse_frames (data_frame i seq 0 1 m @ rest) c = parse_frames rest c3"
    using parse_data [of c i k m seq 0 1 rest] w(2,3) role assms(4) by (simp add: c3_def)
  moreover have "ev_list c3 = ev_list c @ [data_event k]"
  proof -
    have "ev_list c1 = ev_list c" by (rule ev_list_same) (simp_all add: c1_def enqueue_rest)
    moreover have "ev_list c3 = ev_list (ev_push NETCHAN_EV_DATA (Some k) c1)"
      by (rule ev_list_same) (simp_all add: c3 c2_def upd_chan_def)
    ultimately show ?thesis
      using ev_put_list [of c1] inv_ev [OF inv1(1)] assms(5) by (simp add: ev_push_def data_event_def)
  qed
  moreover have "rx_idle c3 k i (seq + 1)"
    using rq w by (simp add: rx_idle_def) (simp add: c3 c2_def c1_def enqueue_rest)
  moreover have "length (c_pool_free c3) = length (c_pool_free c1)" "c_local_id c3 = c_local_id c"
    by (simp_all add: c3 c2_def c1_def enqueue_rest ev_push_def ev_put_def Let_def upd_chan_def)
  ultimately show ?thesis using rq q by auto
qed

text \<open>Two messages in one packet.\<close>

definition two_messages :: "u32 \<Rightarrow> u16 \<Rightarrow> u8 \<Rightarrow> u16 \<Rightarrow> u8 list \<Rightarrow> u8 list \<Rightarrow> u8 list" where
  "two_messages ident n i seq m1 m2 =
    NC_PKT_FLAG_PKTNUM # wr32 ident @ wr16 n @ data_frame i seq 0 1 m1 @ data_frame i (seq + 1) 0 1 m2"

lemma entry_rx_idle:
  assumes "rx_idle c k i seq" and "rq_msgs k c = []"
  shows "rx_idle (feed_entry fs from c) k i seq \<and> rq_msgs k (feed_entry fs from c) = [] \<and>
    c_pool_free (feed_entry fs from c) = c_pool_free c \<and> ev_list (feed_entry fs from c) = ev_list c \<and> c_local_id (feed_entry fs from c) = c_local_id c"
proof -
  let ?c = "feed_entry fs from c"
  have v: "rq_valid k c" using assms(1) by (simp add: rx_idle_def)
  have "sending c ?c" by (simp add: feed_entry_eq sending_def rx_kept_def chan_at_def)
  moreover have "netchan_inv ?c" using v by (auto simp: rq_valid_def intro: feed_entry_inv)
  ultimately have "rq_valid k ?c \<and> rq_msgs k ?c = []" using sending_msgs [OF _ _ v] assms(2) by simp
  then show ?thesis using assms(1) by (simp add: rx_idle_def) (simp add: feed_entry_eq ev_list_def)
qed

lemma two_fed:
  assumes "rx_idle c k i seq" and "rq_msgs k c = []" and "2 \<le> length (c_pool_free c)" and "ev_list c = []"
    and "length m1 \<le> 2048" and "length m2 \<le> 2048"
  shows "\<exists>c'. netchan_feed (two_messages (c_local_id c) n i seq m1 m2) from c = (c', NETCHAN_OK) \<and> rx_idle c' k i (seq + 2) \<and>
    rq_msgs k c' = [m1, m2] \<and> ev_list c' = [data_event k, data_event k]"
proof -
  let ?fs = "data_frame i seq 0 1 m1 @ data_frame i (seq + 1) 0 1 m2 @ []"
  define c0 where "c0 = feed_entry ?fs from c"
  note e = entry_rx_idle [OF assms(1,2), of ?fs "from", folded c0_def]
  have "c_pool_free c0 \<noteq> []" using e assms(3) by auto
  with e assms(4,5) obtain c1 where 1: "parse_frames ?fs c0 = parse_frames (data_frame i (seq + 1) 0 1 m2 @ []) c1"
      "rx_idle c1 k i (seq + 1)" "rq_msgs k c1 = [m1]" "length (c_pool_free c0) = Suc (length (c_pool_free c1))" "ev_list c1 = [data_event k]"
    using rx_idle_gets [of c0 k i seq m1 "data_frame i (seq + 1) 0 1 m2 @ []"] by auto
  have "c_pool_free c1 \<noteq> []" using 1(4) e assms(3) by auto
  with 1 assms(6) obtain c2 where 2: "parse_frames (data_frame i (seq + 1) 0 1 m2 @ []) c1 = parse_frames [] c2"
      "rx_idle c2 k i (seq + 1 + 1)" "rq_msgs k c2 = [m1, m2]" "ev_list c2 = [data_event k, data_event k]"
    using rx_idle_gets [of c1 k i "seq + 1" m2 "[]"] by auto
  have "netchan_feed (two_messages (c_local_id c) n i seq m1 m2) from c = parse_frames ?fs c0"
    unfolding two_messages_def c0_def append_Nil2 by (rule feed_full_packet)
  then have "netchan_feed (two_messages (c_local_id c) n i seq m1 m2) from c = (c2, NETCHAN_OK)"
    unfolding 1(1) 2(1) by simp
  then show ?thesis using 2 by (simp add: add.assoc)
qed

section \<open>Events and messages to the login\<close>

definition quiet_event :: "nat \<Rightarrow> netchan_event \<Rightarrow> bool" where
  "quiet_event k e \<longleftrightarrow> (ev_type e = NETCHAN_EV_DATA \<or> ev_type e = NETCHAN_EV_CHAN_OPEN) \<and> ev_ch e = Some k \<or>
     ev_type e = NETCHAN_EV_CONNECTED"

text \<open>Events of the peer's channel leave its number in \<open>rx\<close> and the queue empty.\<close>

lemma poll_quiet:
  assumes "ev_ok (al_conn al)" and "list_all (quiet_event k) (ev_list (al_conn al))"
  shows "\<exists>h. poll_loop cb al = Some (al\<lparr>al_conn := (al_conn al)\<lparr>c_ev_head := h\<rparr>,
      al_rx := if list_ex (\<lambda>e. ev_type e \<noteq> NETCHAN_EV_CONNECTED) (ev_list (al_conn al)) then Some k else al_rx al\<rparr>) \<and>
    ev_list ((al_conn al)\<lparr>c_ev_head := h\<rparr>) = []"
  using assms
proof (induction "ev_list (al_conn al)" arbitrary: al)
  case Nil
  have p: "netchan_poll (al_conn al) = (None, al_conn al)" by (rule evq.pop_empty [OF Nil(2) Nil(1) [symmetric]])
  have "(al_conn al)\<lparr>c_ev_head := c_ev_head (al_conn al)\<rparr> = al_conn al" by simp
  then show ?case using p Nil(1) [symmetric] by (intro exI [of _ "c_ev_head (al_conn al)"]) (simp add: poll_loop.simps [of cb al])
next
  case (Cons e es)
  let ?c = "al_conn al"
  obtain c where p: "netchan_poll ?c = (Some e, c)" "ev_list c = es"
    using evq.pop_first [OF Cons.prems(1) Cons.hyps(2) [symmetric]] by (metis prod.collapse)
  have c: "c = ?c\<lparr>c_ev_head := (c_ev_head ?c + 1) mod NC_EVENT_QUEUE\<rparr>" using p(1) by (auto simp: netchan_poll_def split: if_splits)
  have ok: "ev_ok c" using evq.pop_valid [OF Cons.prems(1)] p(1) by simp
  define al1 where "al1 = al\<lparr>al_conn := c, al_rx := if ev_type e \<noteq> NETCHAN_EV_CONNECTED then Some k else al_rx al\<rparr>"
  have "quiet_event k e" using Cons.prems(2) Cons.hyps(2) by (metis list.pred_inject(2))
  then have "handle_event cb e (al\<lparr>al_conn := c\<rparr>) = Some al1"
    by (auto simp: quiet_event_def handle_event_def al1_def)
  then have run: "poll_loop cb al = poll_loop cb al1" using p(1) by (subst poll_loop.simps) simp
  have l: "ev_list ?c = e # es" and c1: "al_conn al1 = c" using Cons.hyps(2) by (simp_all add: al1_def)
  have "list_all (quiet_event k) (ev_list c)" using Cons.prems(2) l p(2) by simp
  then obtain h where "poll_loop cb al1 = Some (al1\<lparr>al_conn := c\<lparr>c_ev_head := h\<rparr>,
      al_rx := if list_ex (\<lambda>e. ev_type e \<noteq> NETCHAN_EV_CONNECTED) es then Some k else al_rx al1\<rparr>)"
      "ev_list (c\<lparr>c_ev_head := h\<rparr>) = []"
    using Cons.hyps(1) [of al1] ok p(2) unfolding c1 by metis
  then show ?case using run c l by (intro exI [of _ h]) (simp add: al1_def)
qed

lemma open_data:
  assumes "nc_crypto_open P pkt cap c = (cr, pn, plain)" and "0 < pn"
  shows "pkt \<noteq> []" "hd pkt \<noteq> NC_CRYPTO_HELLO" "\<not> nc_crypto_failed cr" "crypto_kept c cr"
proof -
  have "cr_failed (fst (replay_check_and_update m x)) = cr_failed x \<and> crypto_kept x (fst (replay_check_and_update m x))" for m x
    using replay_fields [of m x] by (auto simp: crypto_kept_def)
  then show "pkt \<noteq> []" "hd pkt \<noteq> NC_CRYPTO_HELLO" "\<not> nc_crypto_failed cr" "crypto_kept c cr"
    using assms by (auto simp: nc_crypto_open_def Let_def case_prod_beta nc_crypto_failed_def split: if_splits option.splits)
qed

context link_app
begin

lemma read_deliver:
  assumes "link_inv P al" and "al_rx al = Some k" and "rq_valid k (al_conn al)" and "rq_msgs k (al_conn al) = m # ms" and "m \<noteq> []"
  shows "\<exists>c. read_loop P cb al = do { al \<leftarrow> deliver P cb m (al\<lparr>al_conn := c\<rparr>); read_loop P cb al } \<and>
    link_inv P (al\<lparr>al_conn := c\<rparr>) \<and> rq_valid k c \<and> rq_msgs k c = ms"
proof -
  obtain msg rd c where r: "netchan_chan_read k 2048 (al_conn al) = ((msg, rd), c)" by (metis surj_pair)
  have p: "fst (rq_pop k (al_conn al)) = Some m" "rq_msgs k c = ms" "rq_valid k c"
    using pop_head [OF assms(3,4)] r by (simp_all add: rq_pop_def)
  then have "msg = m" using r by (auto simp: rq_pop_def split: if_splits)
  moreover have "rd = int (length msg)"
  proof -
    have ne: "ch_rq_head (chan_at (al_conn al) k) \<noteq> ch_rq_tail (chan_at (al_conn al) k)" "ch_role (chan_at (al_conn al) k) = 1"
      using p(1) assms(3) by (auto simp: rq_pop_def rq_valid_def split: if_splits)
    have "length (fst (buf_read b off n d)) = n" for b off n d by (simp add: buf_read_def Let_def split: option.split)
    then show ?thesis using r ne by (auto simp: netchan_chan_read_def Let_def case_prod_beta)
  qed
  ultimately have "0 < rd" using assms(5) by simp
  note one = read_one [OF link_conn [OF assms(1)] _ r]
  have "in_use (al_conn al) k" using assms(3) by (simp add: rq_valid_def)
  from conn_inv [OF assms(1) one(1,2) [OF this]] have "link_inv P (al\<lparr>al_conn := c\<rparr>)" .
  moreover have "read_loop P cb al = do { al \<leftarrow> deliver P cb m (al\<lparr>al_conn := c\<rparr>); read_loop P cb al }"
    using r \<open>0 < rd\<close> \<open>msg = m\<close> assms(2) by (subst read_loop.simps) (simp add: AL_BUF_def)
  ultimately show ?thesis using p by blast
qed

lemma deliver_login:
  assumes "link_inv P al" and "al_server al" and "al_auth_started al" and "\<not> al_up al" and "\<not> al_down al"
    and "a = fst (nc_auth_feed P m (al_auth al))" and "au_state a \<noteq> NC_AUTH_DENIED"
  shows "\<exists>al'. deliver P cb (TAG_AUTH # m) al = Some al' \<and> link_inv P al' \<and> kept al al' \<and>
    (if au_state a = NC_AUTH_OK then al_up al' \<and> (\<exists>es. fed (al_trace al') = fed (al_trace al) @ m # es)
     else al_auth al' = a \<and> \<not> al_up al' \<and> \<not> al_down al' \<and> fed (al_trace al') = fed (al_trace al) @ [m])"
proof -
  let ?f = "\<lambda>a. fst (nc_auth_feed P m a)" and ?al = "al_log (Fed m) (al\<lparr>al_auth := a\<rparr>)"
  have eq: "(al_log (Fed m) al)\<lparr>al_auth := ?f (al_auth (al_log (Fed m) al))\<rparr> = ?al" by (simp add: al_log_def assms(6))
  have f: "core_ok P ?al" "unsettled (al\<lparr>al_auth := a\<rparr>)" using feed_core [OF assms(1,3), of m] assms(6) by simp_all
  obtain al1 where 1: "auth_call P ?f (al_log (Fed m) al) = Some al1" "core_ok P al1" "sent {TAG_AUTH} ?al al1"
      "unsettled al1 \<longleftrightarrow> unsettled ?al"
    using auth_call_ok [where P = P and al = "al_log (Fed m) al" and f = ?f] f(1) unfolding eq by blast
  have un: "unsettled al1" using 1(4) f(2) by (simp add: unsettled_def al_log_def)
  have k1: "kept al al1" using kept_trans [of al ?al al1] calm_kept [OF sent_calm [OF 1(3)]] by (simp add: kept_def al_log_def)
  have s: "al_auth al1 = a" "al_up al1 = al_up al" "al_down al1 = al_down al" "al_server al1" "al_auth_started al1"
    using 1(3) assms(2,3) by (auto simp: sent_def al_log_def)
  have tr: "fed (al_trace al1) = fed (al_trace al) @ [m]"
  proof -
    obtain ws where ws: "al_trace al1 = al_trace al @ [Fed m] @ ws" "\<forall>e \<in> set ws. \<exists>tag d. e = Wrote tag d \<and> tag \<in> {TAG_AUTH}"
      using 1(3) unfolding sent_def by (auto simp: al_log_def)
    have "fed ws = []" using ws(2) by (induction ws) auto
    then show ?thesis using ws(1) by simp
  qed
  obtain al2 where 2: "settle_auth cb al1 = Some al2" "link_inv P al2" "kept al1 al2" using settle_auth_ok [OF 1(2) un] by blast
  have "al2 = al1" if "au_state a \<noteq> NC_AUTH_OK"
    using 2(1) s assms(4,5,7) that by (auto simp: settle_auth_def settle_need_def)
  moreover have "al_up al2" if "au_state a = NC_AUTH_OK"
  proof -
    have need: "settle_need cb al1 = Some al1" using s(4) by (simp add: settle_need_def)
    let ?u = "al_log On_up (al1\<lparr>al_user := take NC_AUTH_MAX_USER (nc_auth_user (al_auth al1)), al_up := True\<rparr>)"
    have "al_call (on_up cb) ?u = Some al2" using 2(1) need s assms(4,5) that by (simp add: settle_auth_def)
    moreover have "link_inv P ?u" using up_inv [OF 1(2) s(5)] s assms(4) that by simp
    moreover have "tame P (al_call (on_up cb))" by (rule call_tame) (rule up_tame)
    ultimately have "calm ?u al2" using tameD by fastforce
    then show ?thesis by (simp add: calm_def al_log_def)
  qed
  moreover have "\<exists>es. fed (al_trace al2) = fed (al_trace al) @ m # es"
    using 2(3) tr by (auto simp: kept_def)
  moreover have "deliver P cb (TAG_AUTH # m) al = Some al2" using 1(1) 2(1) assms(3) by (simp add: deliver_def)
  ultimately show ?thesis using 2 s tr assms(4,5) kept_trans [OF k1 2(3)] by auto
qed

lemma login_read:
  assumes "link_inv P al" and "al_server al" and "al_auth_started al" and "\<not> al_up al" and "\<not> al_down al"
    and "al_rx al = Some k" and "rq_valid k (al_conn al)" and "rq_msgs k (al_conn al) = [TAG_AUTH # m1, TAG_AUTH # m2]"
    and "au_state (feed_all P [m1] (al_auth al)) = NC_AUTH_PENDING" and "au_state (feed_all P [m1, m2] (al_auth al)) = NC_AUTH_OK"
  shows "\<exists>al'. read_loop P cb al = Some al' \<and> link_inv P al' \<and> onward al al' \<and> On_up \<in> set (al_trace al') \<and>
    (\<exists>es. fed (al_trace al') = fed (al_trace al) @ [m1, m2] @ es)"
proof -
  obtain c1 where 1: "read_loop P cb al = do { al \<leftarrow> deliver P cb (TAG_AUTH # m1) (al\<lparr>al_conn := c1\<rparr>); read_loop P cb al }"
      "link_inv P (al\<lparr>al_conn := c1\<rparr>)" "rq_valid k c1" "rq_msgs k c1 = [TAG_AUTH # m2]"
    using read_deliver [OF assms(1,6,7,8)] by blast
  obtain al2 where 2: "deliver P cb (TAG_AUTH # m1) (al\<lparr>al_conn := c1\<rparr>) = Some al2" "link_inv P al2" "kept (al\<lparr>al_conn := c1\<rparr>) al2"
      "al_auth al2 = feed_all P [m1] (al_auth al)" "\<not> al_up al2" "\<not> al_down al2" "fed (al_trace al2) = fed (al_trace al) @ [m1]"
    using deliver_login [OF 1(2), of _ m1] assms(2-5,9) by auto
  have k2: "sending c1 (al_conn al2)" "al_rx al2 = Some k" "al_server al2" "al_auth_started al2"
    using 2(3) assms(2,3,6) by (simp_all add: kept_def)
  have q2: "rq_valid k (al_conn al2)" "rq_msgs k (al_conn al2) = [TAG_AUTH # m2]"
    using sending_msgs [OF k2(1) link_conn [OF 2(2)] 1(3)] 1(4) by simp_all
  obtain c3 where 3: "read_loop P cb al2 = do { al \<leftarrow> deliver P cb (TAG_AUTH # m2) (al2\<lparr>al_conn := c3\<rparr>); read_loop P cb al }"
      "link_inv P (al2\<lparr>al_conn := c3\<rparr>)"
    using read_deliver [OF 2(2) k2(2) q2] by blast
  have a3: "au_state (fst (nc_auth_feed P m2 (al_auth al2))) = NC_AUTH_OK" using assms(10) 2(4) by simp
  obtain al4 fs where 4: "deliver P cb (TAG_AUTH # m2) (al2\<lparr>al_conn := c3\<rparr>) = Some al4" "link_inv P al4" "kept (al2\<lparr>al_conn := c3\<rparr>) al4"
      "al_up al4" "fed (al_trace al4) = fed (al_trace al2) @ m2 # fs"
    using deliver_login [OF 3(2), of _ m2] k2(3,4) 2(5,6) a3 by auto
  have up: "On_up \<in> set (al_trace al4)" using 4(2,4) by (simp add: link_inv_def core_ok_def trace_ok_def)
  obtain al5 where 5: "read_loop P cb al4 = Some al5" "link_inv P al5" "onward al4 al5" using read_loop_ok [OF 4(2)] by blast
  have "onward al al4" using onward_trans [OF kept_onward [OF 2(3)], of al4] kept_onward [OF 4(3)] by simp
  moreover have "On_up \<in> set (al_trace al5)" "\<exists>es. fed (al_trace al5) = fed (al_trace al) @ [m1, m2] @ es"
    using 5(3) up 4(5) 2(7) by (auto simp: onward_def)
  ultimately show ?thesis using 1(1) 2(1) 3(1) 4(1) 5 onward_trans by auto
qed

lemma login_turn:
  assumes "link_inv P al" and "al_server al" and "al_accepted al" and "al_auth_started al" and "\<not> al_up al" and "\<not> al_down al"
    and "rx_idle (al_conn al) k i seq" and "rq_msgs k (al_conn al) = []" and "ev_list (al_conn al) = []" and "2 \<le> length (c_pool_free (al_conn al))"
    and "nc_udp_from_sockaddr sa = Some from" and "length pkt \<le> AL_BUF" and "length m1 < 2048" and "length m2 < 2048"
    and "plain = two_messages (c_local_id (al_conn al)) num i seq (TAG_AUTH # m1) (TAG_AUTH # m2)"
    and "nc_crypto_open P pkt AL_BUF (al_crypto al) = (cr, int (length plain), plain)"
    and "au_state (feed_all P [m1] (al_auth al)) = NC_AUTH_PENDING" and "au_state (feed_all P [m1, m2] (al_auth al)) = NC_AUTH_OK"
  shows "\<exists>al'. on_readable P cb [(pkt, sa)] al = Some ([], al') \<and> link_inv P al' \<and> onward al al' \<and> al_up al' \<and>
    (\<exists>es. fed (al_trace al') = fed (al_trace al) @ [m1, m2] @ es)"
proof -
  have pn: "0 < int (length plain)" by (simp add: assms(15) two_messages_def)
  note opened = open_data [OF assms(16) pn]
  obtain c where c: "netchan_feed plain from (al_conn al) = (c, NETCHAN_OK)" "rx_idle c k i (seq + 2)"
      "rq_msgs k c = [TAG_AUTH # m1, TAG_AUTH # m2]" "ev_list c = [data_event k, data_event k]"
    using two_fed [OF assms(7,8,10,9), of "TAG_AUTH # m1" "TAG_AUTH # m2" num "from"] assms(13,14) unfolding assms(15) by auto
  obtain p h where r: "recv_loop P [(pkt, sa)] al = ([], al\<lparr>al_peer := p, al_have_peer := h, al_crypto := cr, al_conn := c\<rparr>)"
      (is "_ = (_, ?al)")
  proof
    show "recv_loop P [(pkt, sa)] al = ([], al\<lparr>al_peer := if al_have_peer al then al_peer al else from, al_have_peer := True, al_crypto := cr, al_conn := c\<rparr>)"
      using opened assms(2,3,11,12,16) pn c(1) by (simp add: take_datagram_def Let_def)
  qed
  have 0: "link_inv P ?al" "onward al ?al" using recv_loop_inv [OF assms(1), of "[(pkt, sa)]"] r by simp_all
  have v: "rq_valid k c" using c(2) by (simp add: rx_idle_def)
  have "ev_ok c" using inv_ev [OF link_conn [OF 0(1)]] by simp
  then obtain hd where 1: "poll_loop cb ?al = Some (?al\<lparr>al_conn := c\<lparr>c_ev_head := hd\<rparr>, al_rx := Some k\<rparr>)" (is "_ = Some ?al1")
    using poll_quiet [of ?al k cb] c(4) by (auto simp: quiet_event_def data_event_def)
  have inv1: "link_inv P ?al1" "onward ?al ?al1" using poll_loop_ok [OF 0(1)] 1 by auto
  have "sending c (c\<lparr>c_ev_head := hd\<rparr>)" by (simp add: sending_def rx_kept_def chan_at_def)
  then have q: "rq_valid k (c\<lparr>c_ev_head := hd\<rparr>)" "rq_msgs k (c\<lparr>c_ev_head := hd\<rparr>) = [TAG_AUTH # m1, TAG_AUTH # m2]"
    using sending_msgs [OF _ _ v] link_conn [OF inv1(1)] c(3) by simp_all
  obtain al2 es where 2: "read_loop P cb ?al1 = Some al2" "link_inv P al2" "onward ?al1 al2" "On_up \<in> set (al_trace al2)"
      "fed (al_trace al2) = fed (al_trace al) @ [m1, m2] @ es"
    using login_read [OF inv1(1), of k m1 m2] assms(2,4-6,17,18) q by auto
  obtain al3 where 3: "advance P cb al2 = Some al3" "link_inv P al3" "onward al2 al3" using advance_ok [OF 2(2)] by blast
  obtain al4 where 4: "flush_out P al3 = Some al4" "link_inv P al4" "calm al3 al4" using flush_inv [OF 3(2)] by blast
  have o: "onward al2 al4" using onward_trans [OF 3(3) calm_onward [OF 4(3)]] .
  have "On_up \<in> set (al_trace al4)" "\<exists>es. fed (al_trace al4) = fed (al_trace al) @ [m1, m2] @ es"
    using o 2(4,5) by (auto simp: onward_def)
  moreover have "on_readable P cb [(pkt, sa)] al = Some ([], al4)"
    using r 1 2(1) 3(1) 4(1) by (simp add: on_readable_def pump_events_def)
  moreover have "onward al al4" using 0(2) inv1(2) 2(3) o onward_trans by blast
  ultimately show ?thesis using 4(2) by (auto simp: link_inv_def core_ok_def trace_ok_def)
qed

end

section \<open>The login over the link\<close>

text \<open>The link has its keys and its connection, and waits on channel \<open>i\<close> for a name and its proof.\<close>

definition awaits_login :: "nat \<Rightarrow> u8 \<Rightarrow> u16 \<Rightarrow> auth_link \<Rightarrow> bool" where
  "awaits_login k i seq al \<longleftrightarrow> al_server al \<and> al_accepted al \<and> al_auth_started al \<and> \<not> al_up al \<and> \<not> al_down al \<and>
     fed (al_trace al) = [] \<and> rx_idle (al_conn al) k i seq \<and> rq_msgs k (al_conn al) = [] \<and> ev_list (al_conn al) = [] \<and>
     2 \<le> length (c_pool_free (al_conn al))"

lemma login_completes:
  assumes "link_ok P al" and "awaits_login k i seq al" and "nc_udp_from_sockaddr sa = Some from"
    and "length pkt \<le> AL_BUF" and "length m1 < 2048" and "length m2 < 2048"
    and "plain = two_messages (c_local_id (al_conn al)) num i seq (TAG_AUTH # m1) (TAG_AUTH # m2)"
    and "nc_crypto_open P pkt AL_BUF (al_crypto al) = (cr, int (length plain), plain)"
    and "a = nc_auth_server_init (cr_sid (al_crypto al)) (Some (al_scb al)) True"
    and "au_state (feed_all P [m1] a) = NC_AUTH_PENDING" and "au_state (feed_all P [m1, m2] a) = NC_AUTH_OK"
  shows "\<exists>al'. on_readable P (app_cb P app n) [(pkt, sa)] al = Some ([], al') \<and> auth_link_up al' \<and>
    auth_link_user al' = nc_auth_user (feed_all P [m1, m2] a)"
proof -
  have w: "al_server al" "al_accepted al" "al_auth_started al" "\<not> al_up al" "\<not> al_down al" "rx_idle (al_conn al) k i seq"
      "rq_msgs k (al_conn al) = []" "ev_list (al_conn al) = []" "2 \<le> length (c_pool_free (al_conn al))" "fed (al_trace al) = []"
    using assms(2) by (simp_all add: awaits_login_def)
  have inv: "link_inv P al" "login_ok P al" using assms(1) by (simp_all add: link_ok_def link_inv_def core_ok_def)
  have a: "al_auth al = a" "cr_have_key (al_crypto al)" using inv(2) w assms(9) by (simp_all add: login_ok_def)
  obtain al' es where r: "on_readable P (app_cb P app n) [(pkt, sa)] al = Some ([], al')" "link_inv P al'" "onward al al'" "al_up al'"
      "fed (al_trace al') = [m1, m2] @ es"
    using app.login_turn [OF inv(1) w(1-9) assms(3-8), of app n] w(10) assms(10,11) a(1) by auto
  have l: "login_ok P al'" using r(2) by (simp add: link_inv_def core_ok_def)
  then have "al_auth_started al'" using r(4) by (auto simp: login_ok_def)
  then have "al_auth al' = feed_all P ([m1, m2] @ es) a"
    using l r(3,5) a(2) w(1) assms(9) by (simp add: login_ok_def onward_def)
  then have "al_auth al' = feed_all P [m1, m2] a" using assms(11) unfolding feed_all_append by simp
  then show ?thesis using l r(1,4) by (simp add: login_ok_def auth_link_up_def auth_link_user_def nc_auth_user_def)
qed

text \<open>
  C11. A login over the wire. A server link that waits for a login is handed one datagram, sealed under the
  session's key, whose packet carries two messages on the peer's channel. Where the two messages, given to the login
  one after the other, would be accepted, the handler of the socket returns with the link up and reports the name that the
  login proved: the messages travel through the session, the connection and its receive queue to the login
  unharmed and in order, and its verdict comes back to the application.
\<close>

theorem server_lets_in:
  assumes "link_session P (app_cb P app n) al" and "awaits_login k i seq al" and "nc_udp_from_sockaddr sa = Some from"
    and "length pkt \<le> AL_BUF" and "length m1 < 2048" and "length m2 < 2048"
    and "plain = two_messages (c_local_id (al_conn al)) num i seq (TAG_AUTH # m1) (TAG_AUTH # m2)"
    and "nc_crypto_open P pkt AL_BUF (al_crypto al) = (cr, int (length plain), plain)"
    and "a = nc_auth_server_init (cr_sid (al_crypto al)) (Some (al_scb al)) True"
    and "au_state (feed_all P [m1] a) = NC_AUTH_PENDING" and "au_state (feed_all P [m1, m2] a) = NC_AUTH_OK"
  shows "\<exists>al'. on_readable P (app_cb P app n) [(pkt, sa)] al = Some ([], al') \<and> auth_link_up al' \<and>
    auth_link_user al' = nc_auth_user (feed_all P [m1, m2] a)"
  by (rule login_completes [OF session_ok [OF assms(1)] assms(2-11)])

section \<open>What the drain leaves\<close>

text \<open>Sending packets leaves the receiving half, the events and the free buffers to the connection.\<close>

definition drained :: "netchan_conn \<Rightarrow> netchan_conn \<Rightarrow> bool" where
  "drained c c' \<longleftrightarrow> c_local_id c' = c_local_id c \<and> c_channels c' = c_channels c \<and> c_events c' = c_events c \<and>
     c_ev_head c' = c_ev_head c \<and> c_ev_tail c' = c_ev_tail c \<and> length (c_pool_free c) \<le> length (c_pool_free c') \<and>
     (\<forall>k. ch_type (chan_at c' k) = ch_type (chan_at c k) \<and> ch_recv_seq (chan_at c' k) = ch_recv_seq (chan_at c k) \<and>
       ch_reorder (chan_at c' k) = ch_reorder (chan_at c k))"

lemma drained_refl [simp]: "drained c c"
  by (simp add: drained_def)

lemma drained_trans: "drained a b \<Longrightarrow> drained b c \<Longrightarrow> drained a c"
  by (simp add: drained_def)

lemma drained_put: "drained (snd s) (snd (put_ack mtu k s))" "drained (snd s) (snd (put_window mtu k s))"
  by (simp_all add: drained_def put_ack_def put_window_def Let_def case_prod_beta chan_at_upd) (simp_all add: upd_chan_def)

lemma drained_acks: "drained c (snd s) \<Longrightarrow> drained c (snd (flush_acks is mtu s))"
proof (induction "is" mtu s rule: flush_acks.induct)
  case (2 i rest mtu s)
  have "drained c (snd (put_window mtu k (put_ack mtu k s)))" for k
    using drained_trans [OF drained_trans [OF 2(2) drained_put(1)] drained_put(2)] .
  with 2 show ?case by (auto split: option.split)
qed simp

lemma drained_fragment: "drained (snd s) (snd (send_fragment k j s))"
proof -
  have put: "length (c_pool_free c) \<le> length (c_pool_free (pool_put b c))" "c_pool_free (upd_chan k f c) = c_pool_free c"
    for b c k f by (simp_all add: pool_put_def upd_chan_def split: option.split)
  have rest: "c_local_id (pool_put b c) = c_local_id c" "c_events (pool_put b c) = c_events c" "c_ev_head (pool_put b c) = c_ev_head c"
      "c_ev_tail (pool_put b c) = c_ev_tail c" "c_local_id (upd_chan k f c) = c_local_id c" "c_events (upd_chan k f c) = c_events c"
      "c_ev_head (upd_chan k f c) = c_ev_head c" "c_ev_tail (upd_chan k f c) = c_ev_tail c" for b c k f
    by (simp_all add: pool_put_def upd_chan_def split: option.split)
  have read: "c_local_id (snd (buf_read b off n c)) = c_local_id c" "c_events (snd (buf_read b off n c)) = c_events c"
     "c_ev_head (snd (buf_read b off n c)) = c_ev_head c" "c_ev_tail (snd (buf_read b off n c)) = c_ev_tail c"
     "c_pool_free (snd (buf_read b off n c)) = c_pool_free c" "c_pool_free (snd (nc_now_ms c)) = c_pool_free c"
     "c_local_id (snd (nc_now_ms c)) = c_local_id c" "c_events (snd (nc_now_ms c)) = c_events c"
     "c_ev_head (snd (nc_now_ms c)) = c_ev_head c" "c_ev_tail (snd (nc_now_ms c)) = c_ev_tail c" for b off n c
    by (simp_all add: buf_read_def nc_now_ms_def Let_def split: option.split)
  show ?thesis
    by (simp add: drained_def send_fragment_def Let_def case_prod_beta chan_at_upd rest read put order_trans [OF _ put(1)])
qed

lemma drained_data: "drained c (snd s) \<Longrightarrow> drained c (snd (flush_data is mtu s))"
  by (induction "is" mtu s rule: flush_data.induct)
    (auto simp: Let_def drained_trans [OF _ drained_fragment] split: option.split)

lemma drained_packet: "drained c (snd (netchan_send_next buflen c))"
proof -
  have head: "drained c (snd (send_header c))" "drained (snd s) (snd (flush_ctrl buflen mtu s))" for mtu s
    by (simp_all add: drained_def send_header_def flush_ctrl_def chan_at_def Let_def case_prod_beta)
  define s1 where "s1 = (if c_ctrl_buf c \<noteq> [] then flush_ctrl buflen (min (unat (cfg_mtu (c_cfg c))) buflen) (send_header c) else send_header c)"
  have s1: "drained c (snd s1)" using head(1) head(2) [of "send_header c"] drained_trans by (auto simp: s1_def)
  define s2 where "s2 = flush_data [0..<256] (min (unat (cfg_mtu (c_cfg c))) buflen) (flush_acks [0..<256] (min (unat (cfg_mtu (c_cfg c))) buflen) s1)"
  have s2: "drained c (snd s2)" unfolding s2_def by (intro drained_data drained_acks s1)
  have last: "drained c (d\<lparr>c_last_send_ms := a, c_pkts_sent := b\<rparr>) = drained c d" "drained c (snd (nc_now_ms d)) = drained c d" for d a b
    by (simp_all add: drained_def chan_at_def nc_now_ms_def)
  show ?thesis
    using s2 unfolding netchan_send_next_def Let_def s1_def [symmetric] s2_def [symmetric] by (simp add: case_prod_beta last)
qed

lemma drained_flush:
  assumes "flush_out P al = Some al'"
  shows "drained (al_conn al) (al_conn al')"
proof (rule flush_out.raw_induct [where Pa = "\<lambda>x al'. drained (al_conn (snd x)) (al_conn al')", OF _ assms, simplified], goal_cases)
  case (1 f P al al')
  obtain r c where s: "netchan_send_next AL_BUF (al_conn al) = (r, c)" by (metis surj_pair)
  then have d: "drained (al_conn al) c" using drained_packet [of "al_conn al" AL_BUF] by simp
  show ?case
  proof (cases r)
    case None
    then show ?thesis using 1(2) s d by auto
  next
    case (Some x)
    obtain buf to where "x = (buf, to)" by (cases x)
    then have "f P (seal_out P buf to (al\<lparr>al_conn := c\<rparr>)) = Some al'" using 1(2) s Some by simp
    from drained_trans [OF d] 1(1) [OF this] show ?thesis by simp
  qed
qed

lemma rx_idle_drained:
  assumes "rx_idle c k i seq" and "rq_msgs k c = []" and "drained c c'" and "sending c c'" and "netchan_inv c'"
  shows "rx_idle c' k i seq \<and> rq_msgs k c' = [] \<and> c_local_id c' = c_local_id c \<and> ev_list c' = ev_list c \<and>
    length (c_pool_free c) \<le> length (c_pool_free c')"
proof -
  have "rq_valid k c" using assms(1) by (simp add: rx_idle_def)
  from sending_msgs [OF assms(4,5) this] show ?thesis
    using assms(1-3) ev_list_same [of c' c] by (simp add: rx_idle_def drained_def)
qed

end
