(* ===== verification/Nc_Link_Example.thy ===== *)
theory Nc_Link_Example
  imports Nc_Link_Login
begin

text \<open>
  The first turns of a server link: it is opened and waits; it is sent a HELLO and the packet that asks for a
  connection and opens the channel, derives its keys, accepts, opens its own channel and starts the login; the next
  datagram logs a name in. The turns are followed for any primitives and any application, and then put together
  to a concrete session, which witnesses the properties of the link.
\<close>

section \<open>An idle server\<close>

lemma service_idle_conn:
  assumes "c_state c = NETCHAN_STATE_NEW" and "c_channels c = (\<lambda>_. None)"
  shows "netchan_service now c = (c, -1)"
proof -
  have "fold (service_channel now) is (c, -1) = (c, -1)" for "is"
    by (induction "is") (simp_all add: service_channel_def assms(2))
  then show ?thesis
    using assms(1) by (simp add: netchan_service_def service_connect_def service_idle_def service_ping_def)
qed

definition idle_server :: "auth_link \<Rightarrow> bool" where
  "idle_server al \<longleftrightarrow> al_server al \<and> al_rx al = None \<and> al_tx al = None \<and> \<not> al_auth_started al \<and> \<not> nc_crypto_failed (al_crypto al) \<and>
     c_state (al_conn al) = NETCHAN_STATE_NEW \<and> c_channels (al_conn al) = (\<lambda>_. None) \<and> c_ctrl_buf (al_conn al) = [] \<and>
     c_ev_head (al_conn al) = c_ev_tail (al_conn al)"

lemma idle_tick:
  assumes "idle_server al" and "\<not> al_closing al"
    and "iox_timer_add (tk_now env) (tk_alloc env) (tk_junk env) AL_TICK_MS (Some Tick) () (al_timers al) = Some (tm, i)"
  shows "on_tick P cb env al = Some (al\<lparr>al_conn := snd (nc_now_ms (al_conn al)), al_timers := tm, al_timer_id := i\<rparr>)"
proof -
  let ?c = "snd (nc_now_ms (al_conn al))"
  let ?al = "al\<lparr>al_conn := ?c\<rparr>"
  have c: "c_state ?c = NETCHAN_STATE_NEW" "c_channels ?c = (\<lambda>_. None)" "c_ctrl_buf ?c = []" "c_ev_head ?c = c_ev_tail ?c"
    using assms(1) by (simp_all add: idle_server_def nc_now_ms_def)
  have "netchan_service now ?c = (?c, -1)" for now using service_idle_conn c by blast
  moreover have "pump_events P cb ?al = Some ?al"
    using assms(1) c(4) by (simp add: pump_events_def poll_loop.simps [of cb ?al] read_loop.simps [of P cb ?al] netchan_poll_def idle_server_def)
  moreover have "advance P cb ?al = Some ?al"
    using assms(1) c(1) by (simp add: advance_def advance_login_def advance_channel_def advance_connect_def settle_auth_def idle_server_def netchan_state_def)
  moreover have "flush_out P ?al = Some ?al"
  proof -
    have "\<not> nc_has_data ?c" using c(2,3) by (simp add: nc_has_data_def list_ex_iff)
    then show ?thesis by (subst flush_out.simps) (simp add: netchan_send_next_def)
  qed
  ultimately show ?thesis
    using assms by (simp add: on_tick_def idle_server_def now_ms_def Let_def case_prod_beta)
qed

lemma open_idle:
  assumes "lc_server cf" and "oe_calloc oe" and "oe_conn oe" and "oe_fd_add oe"
    and "nc_crypto_init P (oe_random oe) 1 (Some \<lparr>cc_eph_sk_seed = None, cc_psk = lc_psk cf, cc_static_sk = lc_static_sk cf,
           cc_require_peer_static = lc_require_peer_static cf, cc_verify_peer = lc_verify_peer cf\<rparr>) = (cr, 0)"
    and "iox_timer_add (tk_now te) (tk_alloc te) (tk_junk te) AL_TICK_MS (Some Tick) () tm = Some (tm', i)"
    and "al = (fresh_link cf tm oe)\<lparr>al_crypto := cr, al_conn := snd (nc_now_ms (netchan_open True (oe_clock oe) (oe_entropy oe))),
      al_timers := tm', al_timer_id := i\<rparr>"
  shows "auth_link_open P cb (Some cf) tm oe te = Some (Some al)" and "idle_server al"
proof -
  let ?al = "(fresh_link cf tm oe)\<lparr>al_crypto := cr\<rparr>"
  have f: "fresh_session P cr" using init_fresh [OF assms(5)] by simp
  have id: "idle_server ?al" using f assms(1)
    by (simp add: idle_server_def fresh_link_def fresh_session_def nc_crypto_failed_def netchan_open_def pool_init_def)
  have al: "al = ?al\<lparr>al_conn := snd (nc_now_ms (al_conn ?al)), al_timers := tm', al_timer_id := i\<rparr>"
    using assms(1) by (simp add: assms(7) fresh_link_def)
  have tm: "al_timers ?al = tm" "\<not> al_closing ?al" by (simp_all add: fresh_link_def)
  show "auth_link_open P cb (Some cf) tm oe te = Some (Some al)"
    using idle_tick [OF id tm(2), of te tm' i] assms tm(1) by (simp add: auth_link_open_def al)
  show "idle_server al" using id unfolding al by (simp add: idle_server_def nc_now_ms_def)
qed

section \<open>The first packet\<close>

definition channel_open_frame :: "u8 \<Rightarrow> u8 list" where
  "channel_open_frame i = [NC_FRAME_CHANNEL_OPEN, i, 0, 0, 4] @ AUTH_CHANNEL"

text \<open>The packet that asks for a connection and opens the channel \<open>auth\<close>.\<close>

definition first_packet :: "u32 \<Rightarrow> u8 list" where
  "first_packet x = NC_PKT_FLAG_INIT # wr32 x @ (NC_FRAME_CONNECT_INIT # wr32 x @ [NC_VERSION]) @ channel_open_frame 0"

lemma parse_channel_open:
  assumes "c_channels c i = None" and "\<not> c_chan_used c 0"
  shows "parse_frames (channel_open_frame i @ rest) c = parse_frames rest
    (ev_push NETCHAN_EV_CHAN_OPEN (Some 0) (ctrl_window_update i (cfg_chan_window (c_cfg c))
      (upd_chan 0 (\<lambda>ch. ch\<lparr>ch_state := 1\<rparr>) (snd (chan_new i NETCHAN_RELIABLE NETCHAN_DIR_SEND 1 AUTH_CHANNEL c)))))"
proof (rule parse_one)
  have "find (\<lambda>i. \<not> c_chan_used c i) [0..<NC_MAX_CHAN] = Some 0"
    using assms(2) by (simp add: NC_MAX_CHAN_def upt_conv_Cons)
  then show "process_frame (channel_open_frame i @ rest) c = (ev_push NETCHAN_EV_CHAN_OPEN (Some 0) (ctrl_window_update i (cfg_chan_window (c_cfg c))
      (upd_chan 0 (\<lambda>ch. ch\<lparr>ch_state := 1\<rparr>) (snd (chan_new i NETCHAN_RELIABLE NETCHAN_DIR_SEND 1 AUTH_CHANNEL c)))), int (length (channel_open_frame i)))"
    using assms by (simp add: process_frame_def process_channel_open_def channel_open_frame_def frame_codes AUTH_CHANNEL_def
        NETCHAN_DIR_SEND_def NETCHAN_RELIABLE_def chan_new_def zero_chan_def chan_at_def upd_chan_def Let_def)
qed (simp_all add: channel_open_frame_def frame_codes)

lemma append_ctrl: "\<exists>bs. ctrl_append f c = c\<lparr>c_ctrl_buf := bs\<rparr>"
  by (rule exI [of _ "c_ctrl_buf (ctrl_append f c)"]) (simp add: ctrl_append_def)

text \<open>What a fresh connection is after it: channel 0 waits for its first message, and the peer knows both identifiers.\<close>

lemma first_fed:
  assumes "c = snd (nc_now_ms (netchan_open True ck en))" and "from \<noteq> []" and "en 0 \<noteq> 0"
    and "c' = fst (netchan_accept (fst (netchan_feed (first_packet x) from c)))"
  shows "c_state c' = NETCHAN_STATE_CONNECTED \<and> c_local_id c' = en 0 \<and> c_next_chan_id c' = 1 \<and> c_channels c' = [0 \<mapsto> 0] \<and>
    c_chan_used c' = (\<lambda>j. j = 0) \<and> ch_role (chan_at c' 0) = 1 \<and> ch_type (chan_at c' 0) = NETCHAN_RELIABLE \<and>
    ch_recv_seq (chan_at c' 0) = 0 \<and> (\<forall>j. \<not> ro_valid (ch_reorder (chan_at c' 0) j)) \<and>
    ch_rq_head (chan_at c' 0) = 0 \<and> ch_rq_tail (chan_at c' 0) = 0 \<and> length (c_pool_free c') = 64 \<and>
    ev_list c' = [nc_zero_event\<lparr>ev_type := NETCHAN_EV_CHAN_OPEN, ev_ch := Some 0\<rparr>, nc_zero_event\<lparr>ev_type := NETCHAN_EV_CONNECTED\<rparr>]"
proof -
  have c: "c_server c" "c_state c = NETCHAN_STATE_NEW" "c_channels c = (\<lambda>_. None)" "c_chan_used c = (\<lambda>_. False)" "c_ctrl_buf c = []"
      "c_ev_head c = 0" "c_ev_tail c = 0" "c_entropy c = en" "c_next_chan_id c = 1" "length (c_pool_free c) = 64"
      "c_cfg c = netchan_cfg_default" "c_chan_pool c = (\<lambda>_. zero_chan)"
    by (simp_all add: assms(1) nc_now_ms_def netchan_open_def pool_init_def NC_POOL_BUFS_def)
  let ?fs = "(NC_FRAME_CONNECT_INIT # wr32 x @ [NC_VERSION]) @ channel_open_frame 0 @ []"
  define c1 where "c1 = feed_entry ?fs from c"
  define c2 where "c2 = (snd (nc_random_id (c1\<lparr>c_remote_id := x\<rparr>)))\<lparr>c_local_id := fst (nc_random_id c1), c_state := NETCHAN_STATE_CONNECTING\<rparr>"
  have 1: "netchan_feed (first_packet x) from c = parse_frames (channel_open_frame 0 @ []) c2"
    using feed_init_packet [of x ?fs "from" c] parse_connect_init [of c1 x "channel_open_frame 0 @ []"] c(1,2)
    by (simp add: first_packet_def c1_def c2_def)
  have c2: "c_channels c2 = (\<lambda>_. None)" "c_chan_used c2 = (\<lambda>_. False)" "c_local_id c2 = en 0" "c_ctrl_buf c2 = []" "c_server c2"
      "c_state c2 = NETCHAN_STATE_CONNECTING" "c_ev_head c2 = 0" "c_ev_tail c2 = 0" "c_next_chan_id c2 = 1" "length (c_pool_free c2) = 64"
      "c_cfg c2 = netchan_cfg_default" "c_chan_pool c2 = (\<lambda>_. zero_chan)"
    using c assms(3) by (simp_all add: c2_def c1_def nc_random_id_def Let_def feed_entry_eq)
  have f: "find (\<lambda>i. True) [0..<NC_MAX_CHAN] = Some 0" by (simp add: NC_MAX_CHAN_def upt_conv_Cons)
  define c3 where "c3 = upd_chan 0 (\<lambda>ch. ch\<lparr>ch_state := 1\<rparr>) (snd (chan_new 0 NETCHAN_RELIABLE NETCHAN_DIR_SEND 1 AUTH_CHANNEL c2))"
  have c3: "c_channels c3 = [0 \<mapsto> 0]" "c_chan_used c3 = (\<lambda>j. j = 0)" "c_local_id c3 = en 0" "c_server c3" "c_state c3 = NETCHAN_STATE_CONNECTING"
      "c_ev_head c3 = 0" "c_ev_tail c3 = 0" "c_next_chan_id c3 = 1" "length (c_pool_free c3) = 64"
      "ch_role (chan_at c3 0) = 1" "ch_type (chan_at c3 0) = NETCHAN_RELIABLE" "ch_recv_seq (chan_at c3 0) = 0"
      "ch_rq_head (chan_at c3 0) = 0" "ch_rq_tail (chan_at c3 0) = 0" "\<And>j. \<not> ro_valid (ch_reorder (chan_at c3 0) j)"
    by (simp_all add: c3_def chan_new_def f c2 upd_chan_def chan_at_def zero_chan_def fun_eq_iff)
  define c4 where "c4 = ctrl_window_update 0 (cfg_chan_window (c_cfg c2)) c3"
  obtain bs where c4: "c4 = c3\<lparr>c_ctrl_buf := bs\<rparr>" by (metis c4_def ctrl_window_update_def append_ctrl)
  define c5 where "c5 = ev_push NETCHAN_EV_CHAN_OPEN (Some 0) c4"
  have c5: "c5 = c4\<lparr>c_events := (c_events c4)(0 := nc_zero_event\<lparr>ev_type := NETCHAN_EV_CHAN_OPEN, ev_ch := Some 0\<rparr>), c_ev_tail := 1\<rparr>"
    by (simp add: c5_def c4 c3 ev_push_def ev_put_def NC_EVENT_QUEUE_def)
  obtain bs' where c6: "ctrl_connect_accept c5 = c5\<lparr>c_ctrl_buf := bs'\<rparr>" by (metis ctrl_connect_accept_def append_ctrl)
  have "netchan_feed (first_packet x) from c = (c5, NETCHAN_OK)"
    unfolding 1 using parse_channel_open [of c2 0 "[]"] c2(1,2) by (simp add: c5_def c4_def c3_def)
  then have "c' = ev_push NETCHAN_EV_CONNECTED None (c5\<lparr>c_ctrl_buf := bs', c_state := NETCHAN_STATE_CONNECTED\<rparr>)"
    using c3(4,5) unfolding assms(4) by (simp add: netchan_accept_def c6) (simp add: c5 c4)
  moreover have "(nc_zero_event\<lparr>ev_type := NETCHAN_EV_CONNECTED, ev_ch := None\<rparr>) = nc_zero_event\<lparr>ev_type := NETCHAN_EV_CONNECTED\<rparr>"
    by (simp add: nc_zero_event_def)
  ultimately have c': "c' = c3\<lparr>c_ctrl_buf := bs', c_state := NETCHAN_STATE_CONNECTED, c_events := (c_events c3)
      (0 := nc_zero_event\<lparr>ev_type := NETCHAN_EV_CHAN_OPEN, ev_ch := Some 0\<rparr>, 1 := nc_zero_event\<lparr>ev_type := NETCHAN_EV_CONNECTED\<rparr>), c_ev_tail := 2\<rparr>"
    by (simp add: ev_push_def ev_put_def c5 c4 c3 NC_EVENT_QUEUE_def)
  have ev: "ev_list c' = [nc_zero_event\<lparr>ev_type := NETCHAN_EV_CHAN_OPEN, ev_ch := Some 0\<rparr>, nc_zero_event\<lparr>ev_type := NETCHAN_EV_CONNECTED\<rparr>]"
    by (simp add: c' c3 ev_list_def ring_slots_def upt_rec)
  have "chan_at c' = chan_at c3" by (simp add: c' chan_at_def fun_eq_iff)
  then show ?thesis using ev c3 by simp (simp add: c')
qed

section \<open>The first turn\<close>

lemma greeted:
  assumes "idle_server al" and "al_conn al = snd (nc_now_ms (netchan_open True ck en))" and "en 0 \<noteq> 0" and "\<not> al_accepted al"
    and "crypto_laws P" and "fresh_session P (al_crypto al)" and "fresh_session P peer" and "accepts_peer (al_crypto al) peer"
    and "x25519 P (cr_eph_sk (al_crypto al)) (cr_eph_pk peer) \<noteq> zero32"
    and "nc_udp_from_sockaddr sa = Some from" and "from \<noteq> []"
    and "cr = fst (derive_session P (cr_eph_pk peer) (learned (al_crypto al) peer))"
  shows "\<exists>p w. recv_loop P [(nc_crypto_handshake_packet peer 65, sa), (sealed_packet P (cr_rx_key cr) 1 (first_packet x), sa)] al =
    ([], al\<lparr>al_peer := p, al_have_peer := True, al_crypto := cr\<lparr>cr_rx_window := 1, cr_rx_max := 1\<rparr>, al_wire := w,
      al_conn := fst (netchan_accept (fst (netchan_feed (first_packet x) from (al_conn al)))), al_accepted := True\<rparr>)"
proof -
  let ?h = "nc_crypto_handshake_packet peer 65" and ?m = "first_packet x"
  have srv: "al_server al" using assms(1) by (simp add: idle_server_def)
  have h: "length ?h = 65" "hd ?h = NC_CRYPTO_HELLO" "?h \<noteq> []"
    using hello_length [OF assms(5,7)] by (auto simp: nc_crypto_handshake_packet_def NC_CRYPTO_HELLO_LEN_def)
  have cr: "cr_have_key cr" "\<not> cr_failed cr" "cr_rx_max cr = 0" "cr_rx_window cr = 0"
    using assms(6,9) by (simp_all add: assms(12) derive_session_def learned_def is_zero32_def Let_def case_prod_beta fresh_session_def)
  have m: "length ?m = 20" by (simp add: first_packet_def channel_open_frame_def AUTH_CHANNEL_def wr32_def)
  have r: "replay_check_and_update 1 cr = (cr\<lparr>cr_rx_window := 1, cr_rx_max := 1\<rparr>, 0)"
    using cr(3,4) by (simp add: replay_check_and_update_def)
  have o2: "nc_crypto_open P (sealed_packet P (cr_rx_key cr) 1 ?m) AL_BUF cr = (cr\<lparr>cr_rx_window := 1, cr_rx_max := 1\<rparr>, 20, ?m)"
    using open_packet [OF assms(5) cr(1,2), of ?m AL_BUF 1] m r by (simp add: AL_BUF_def)
  have s: "length (sealed_packet P (cr_rx_key cr) 1 ?m) = 45" "hd (sealed_packet P (cr_rx_key cr) 1 ?m) \<noteq> NC_CRYPTO_HELLO"
    using assms(5) m by (simp_all add: sealed_packet_def crypto_laws_def NC_CRYPTO_DATA_def NC_CRYPTO_HELLO_def)
  then have s': "sealed_packet P (cr_rx_key cr) 1 ?m \<noteq> []" by auto
  define al1 where "al1 = (if \<not> al_have_peer al then al\<lparr>al_peer := from, al_have_peer := True\<rparr> else al)\<lparr>al_crypto := cr\<rparr>"
  have 1: "take_datagram P ?h from al = (False, send_hello al1)"
    using open_hello [OF assms(5-9), of AL_BUF] h(2) srv cr(2) by (simp add: take_datagram_def Let_def assms(12) [symmetric] nc_crypto_failed_def al1_def)
  obtain w where w: "send_hello al1 = al1\<lparr>al_wire := w\<rparr>" using send_hello_eq by blast
  have al1: "al_server al1" "al_have_peer al1" "\<not> al_accepted al1" "al_crypto al1 = cr" "al_conn al1 = al_conn al"
    using srv assms(4) by (simp_all add: al1_def)
  have 2: "take_datagram P (sealed_packet P (cr_rx_key cr) 1 ?m) from (al1\<lparr>al_wire := w\<rparr>) =
      (False, al1\<lparr>al_wire := w, al_crypto := cr\<lparr>cr_rx_window := 1, cr_rx_max := 1\<rparr>,
         al_conn := fst (netchan_accept (fst (netchan_feed ?m from (al_conn al)))), al_accepted := True\<rparr>)"
    using o2 s(2) cr(2) al1 by (simp add: take_datagram_def Let_def nc_crypto_failed_def)
  show ?thesis
    using 1 2 w h s s' assms(10) by (intro exI [of _ "al_peer al1"] exI [of _ w]) (simp add: AL_BUF_def al1_def)
qed

lemma server_channel:
  assumes "c_state c = NETCHAN_STATE_CONNECTED" and "c_next_chan_id c = 1" and "c_channels c = [0 \<mapsto> 0]" and "c_chan_used c = (\<lambda>j. j = 0)"
  shows "\<exists>c'. netchan_chan_open NETCHAN_RELIABLE NETCHAN_DIR_SEND AUTH_CHANNEL c = (Some 1, c') \<and> c_local_id c' = c_local_id c \<and>
    c_channels c' 0 = Some 0 \<and> chan_at c' 0 = chan_at c 0 \<and> c_pool_free c' = c_pool_free c \<and> ev_list c' = ev_list c"
proof -
  have f: "find (\<lambda>i. \<not> c_chan_used c i) [0..<NC_MAX_CHAN] = Some 1" by (simp add: assms(4) NC_MAX_CHAN_def upt_conv_Cons)
  show ?thesis
    using assms(1-3) f by (simp add: netchan_chan_open_def chan_new_def Let_def ctrl_channel_open_def ctrl_append_def ev_list_def chan_at_def
        NETCHAN_DIR_SEND_def)
qed

lemma empty_queue:
  assumes "netchan_inv c" and "in_use c k" and "ch_role (chan_at c k) = 1" and "ch_rq_head (chan_at c k) = ch_rq_tail (chan_at c k)"
  shows "rq_valid k c \<and> rq_msgs k c = [] \<and> fst (netchan_chan_read k n c) = ([], 0) \<and> snd (netchan_chan_read k n c) = c"
  using assms by (simp add: rq_valid_def rq_msgs_def rq_slots_def netchan_chan_read_def Let_def)

context link_app
begin

lemma first_received:
  assumes inv: "link_inv P al" and idle: "idle_server al" and conn: "al_conn al = snd (nc_now_ms (netchan_open True ck en))" "en 0 \<noteq> 0"
    and acc: "\<not> al_accepted al"
    and peer: "crypto_laws P" "fresh_session P (al_crypto al)" "fresh_session P peer" "accepts_peer (al_crypto al) peer"
      "x25519 P (cr_eph_sk (al_crypto al)) (cr_eph_pk peer) \<noteq> zero32"
    and sa: "nc_udp_from_sockaddr sa = Some from" "from \<noteq> []"
    and cr: "cr = fst (derive_session P (cr_eph_pk peer) (learned (al_crypto al) peer))"
    and c: "c = fst (netchan_accept (fst (netchan_feed (first_packet x) from (al_conn al))))"
  shows "\<exists>p w h al0 al1. recv_loop P [(nc_crypto_handshake_packet peer 65, sa), (sealed_packet P (cr_rx_key cr) 1 (first_packet x), sa)] al = ([], al0) \<and>
    pump_events P cb al0 = Some al1 \<and> link_inv P al1 \<and> ev_list (c\<lparr>c_ev_head := h\<rparr>) = [] \<and>
    al1 = al\<lparr>al_peer := p, al_have_peer := True, al_crypto := cr\<lparr>cr_rx_window := 1, cr_rx_max := 1\<rparr>, al_wire := w,
      al_conn := c\<lparr>c_ev_head := h\<rparr>, al_accepted := True, al_rx := Some 0\<rparr>"
proof -
  note fed = first_fed [OF conn(1) sa(2) conn(2) c]
  from greeted [OF idle conn acc peer sa cr, of x]
  obtain p w where r: "recv_loop P [(nc_crypto_handshake_packet peer 65, sa), (sealed_packet P (cr_rx_key cr) 1 (first_packet x), sa)] al =
    ([], al\<lparr>al_peer := p, al_have_peer := True, al_crypto := cr\<lparr>cr_rx_window := 1, cr_rx_max := 1\<rparr>, al_wire := w, al_conn := c, al_accepted := True\<rparr>)"
      (is "_ = (_, ?al0)") unfolding c by blast
  have i0: "link_inv P ?al0" using recv_loop_inv [OF inv] r by (metis snd_conv)
  have "ev_ok c" using inv_ev [OF link_conn [OF i0]] by simp
  then obtain h where 1: "poll_loop cb ?al0 = Some (?al0\<lparr>al_conn := c\<lparr>c_ev_head := h\<rparr>, al_rx := Some 0\<rparr>)" (is "_ = Some ?al1")
      "ev_list (c\<lparr>c_ev_head := h\<rparr>) = []"
    using poll_quiet [of ?al0 0 cb] fed by (auto simp: quiet_event_def)
  have "netchan_chan_read 0 AL_BUF (c\<lparr>c_ev_head := h\<rparr>) = (([], 0), c\<lparr>c_ev_head := h\<rparr>)"
    using fed by (simp add: netchan_chan_read_def chan_at_def)
  then have "read_loop P cb ?al1 = Some ?al1" by (subst read_loop.simps) simp
  moreover have "link_inv P ?al1" using poll_loop_ok [OF i0] 1(1) by auto
  ultimately show ?thesis
    using r 1 by (intro exI [of _ p] exI [of _ w] exI [of _ h] exI [of _ ?al0] exI [of _ ?al1]) (simp add: pump_events_def)
qed

text \<open>A connected server opens its channel and starts the login.\<close>

lemma login_begun:
  assumes "al_server al" and "al_tx al = None" and "\<not> al_auth_started al" and "\<not> al_up al" and "\<not> al_down al"
    and "cr_have_key (al_crypto al)" and "\<not> cr_failed (al_crypto al)" and "c_state (al_conn al) = NETCHAN_STATE_CONNECTED"
    and "netchan_chan_open NETCHAN_RELIABLE NETCHAN_DIR_SEND AUTH_CHANNEL (al_conn al) = (Some k, c)"
  shows "advance P cb al = Some (al\<lparr>al_conn := c, al_tx := Some k,
    al_auth := nc_auth_server_init (cr_sid (al_crypto al)) (Some (al_scb al)) True, al_auth_started := True\<rparr>)" (is "_ = Some ?al")
proof -
  have "advance_channel (advance_connect al) = al\<lparr>al_conn := c, al_tx := Some k\<rparr>"
    using assms by (simp add: advance_channel_def advance_connect_def netchan_state_def)
  moreover have "advance_login P (al\<lparr>al_conn := c, al_tx := Some k\<rparr>) = Some ?al"
    using assms by (simp add: advance_login_def nc_crypto_session_id_def)
  moreover have "settle_auth cb ?al = Some ?al"
    using assms by (simp add: settle_auth_def settle_need_def nc_auth_server_init_def)
  ultimately show ?thesis using assms(7) by (simp add: advance_def nc_crypto_failed_def)
qed

lemma first_turn:
  assumes inv: "link_inv P al" and idle: "idle_server al" and conn: "al_conn al = snd (nc_now_ms (netchan_open True ck en))" "en 0 \<noteq> 0"
    and flags: "\<not> al_accepted al" "\<not> al_up al" "\<not> al_down al" "fed (al_trace al) = []"
    and peer: "crypto_laws P" "fresh_session P (al_crypto al)" "fresh_session P peer" "accepts_peer (al_crypto al) peer"
      "x25519 P (cr_eph_sk (al_crypto al)) (cr_eph_pk peer) \<noteq> zero32"
    and sa: "nc_udp_from_sockaddr sa = Some from" "from \<noteq> []"
    and cr: "cr = fst (derive_session P (cr_eph_pk peer) (learned (al_crypto al) peer))"
  shows "\<exists>al' n. on_readable P cb [(nc_crypto_handshake_packet peer 65, sa), (sealed_packet P (cr_rx_key cr) 1 (first_packet x), sa)] al = Some ([], al') \<and>
    awaits_login 0 0 0 al' \<and> c_local_id (al_conn al') = en 0 \<and> al_scb al' = al_scb al \<and>
    al_crypto al' = cr\<lparr>cr_rx_window := 1, cr_rx_max := 1, cr_tx_counter := n\<rparr>"
proof -
  define c where "c = fst (netchan_accept (fst (netchan_feed (first_packet x) from (al_conn al))))"
  define crt where "crt = cr\<lparr>cr_rx_window := 1, cr_rx_max := 1\<rparr>"
  note fed = first_fed [OF conn(1) sa(2) conn(2) c_def]
  have idle': "al_server al" "al_tx al = None" "\<not> al_auth_started al" using idle by (simp_all add: idle_server_def)
  have crt: "cr_have_key crt" "\<not> cr_failed crt"
    using peer(2,5) by (simp_all add: crt_def cr derive_session_def learned_def is_zero32_def Let_def case_prod_beta fresh_session_def)
  obtain p w h al0 al1 where 1:
      "recv_loop P [(nc_crypto_handshake_packet peer 65, sa), (sealed_packet P (cr_rx_key cr) 1 (first_packet x), sa)] al = ([], al0)"
      "pump_events P cb al0 = Some al1" "link_inv P al1" "ev_list (c\<lparr>c_ev_head := h\<rparr>) = []"
      "al1 = al\<lparr>al_peer := p, al_have_peer := True, al_crypto := crt, al_wire := w, al_conn := c\<lparr>c_ev_head := h\<rparr>, al_accepted := True, al_rx := Some 0\<rparr>"
    using first_received [OF inv idle conn flags(1) peer sa cr c_def] unfolding crt_def by blast
  obtain c2 where c2: "netchan_chan_open NETCHAN_RELIABLE NETCHAN_DIR_SEND AUTH_CHANNEL (c\<lparr>c_ev_head := h\<rparr>) = (Some 1, c2)" "c_local_id c2 = en 0"
      "c_channels c2 0 = Some 0" "chan_at c2 0 = chan_at c 0" "length (c_pool_free c2) = 64" "ev_list c2 = []"
    using server_channel [of "c\<lparr>c_ev_head := h\<rparr>"] fed 1(4) by (auto simp: chan_at_def)
  define al2 where "al2 = al1\<lparr>al_conn := c2, al_tx := Some 1, al_auth := nc_auth_server_init (cr_sid crt) (Some (al_scb al)) True, al_auth_started := True\<rparr>"
  have 2: "advance P cb al1 = Some al2"
    using login_begun [of al1 1 c2] idle' flags crt fed c2(1) by (simp add: al2_def 1(5))
  have i2: "link_inv P al2" using advance_ok [OF 1(3)] 2 by auto
  then have low: "low_ok P al2" by (simp add: link_inv_def core_ok_def)
  obtain al3 where f: "flush_out P al2 = Some al3" "sent {} al2 al3" "low_ok P al3" using flush_out_ok [OF low] by blast
  then obtain c3 n w' where al3: "al3 = al2\<lparr>al_conn := c3, al_crypto := crt\<lparr>cr_tx_counter := n\<rparr>, al_wire := w'\<rparr>" "sending c2 c3"
    unfolding sent_def by (auto simp: al2_def 1(5))
  have inv2: "netchan_inv c2" using link_conn [OF i2] by (simp add: al2_def)
  have "rq_valid 0 c2 \<and> rq_msgs 0 c2 = []"
    using empty_queue [OF inv2, of 0 AL_BUF] inv_channel [OF inv2 c2(3)] c2(4) fed by simp
  then have w2: "rx_idle c2 0 0 0" "rq_msgs 0 c2 = []" using c2(3,4) fed by (simp_all add: rx_idle_def NETCHAN_RELIABLE_def NETCHAN_UNRELIABLE_def)
  have "drained c2 c3" "netchan_inv c3" using drained_flush [OF f(1)] f(3) by (simp_all add: al3(1) al2_def low_ok_def conn_ok_def)
  then have w3: "rx_idle c3 0 0 0" "rq_msgs 0 c3 = []" "c_local_id c3 = en 0" "ev_list c3 = []" "64 \<le> length (c_pool_free c3)"
    using rx_idle_drained [OF w2 _ al3(2)] c2 by auto
  have "awaits_login 0 0 0 al3" using w3 idle' flags by (simp add: awaits_login_def al3(1) al2_def 1(5))
  moreover have "on_readable P cb [(nc_crypto_handshake_packet peer 65, sa), (sealed_packet P (cr_rx_key cr) 1 (first_packet x), sa)] al = Some ([], al3)"
    unfolding on_readable_def 1(1) using 1(2) 2 f(1) by simp
  ultimately show ?thesis using w3(3) by (intro exI [of _ al3] exI [of _ n]) (simp add: al3(1) al2_def 1(5) crt_def)
qed

end

section \<open>A session\<close>

text \<open>A client with an identity, a server that asks for it, and an application that echoes what it is sent.\<close>

definition example_peer :: nc_crypto where
  "example_peer = fst (nc_crypto_init sample_prims (Some (replicate 32 3)) 0 (Some \<lparr>cc_eph_sk_seed = None, cc_psk = None,
     cc_static_sk = Some (replicate 32 9), cc_require_peer_static = False, cc_verify_peer = None\<rparr>))"

definition example_cfg :: auth_link_cfg where
  "example_cfg = \<lparr>lc_server = True, lc_peer = None, lc_static_sk = None, lc_psk = None, lc_require_peer_static = True,
     lc_verify_peer = Some (\<lambda>k. if k = Some (cr_static_pk example_peer) then 0 else 1), lc_user = None, lc_scb = sample_store []\<rparr>"

definition echo_app :: "link_event \<Rightarrow> auth_link \<Rightarrow> link_request list" where
  "echo_app e al = (case e of On_up \<Rightarrow> [Send_data [104, 105]] | On_data d \<Rightarrow> [Send_data d] | _ \<Rightarrow> [])"

definition example_timer :: "(tick_cb, unit) iox_timer_entry" where
  "example_timer = \<lparr>te_deadline_ns = 0, te_cb = None, te_arg = (), te_id = 0\<rparr>"

definition example_timers :: "(tick_cb, unit) iox_timers" where
  "example_timers = iox_timer_init True example_timer
     \<lparr>tm_pq = \<lparr>pq_nr = 0, pq_max = 0, pq_entry = []\<rparr>, tm_next_id = 0, tm_initialized = False, tm_ub = False\<rparr>"

definition example_oe :: open_env where
  "example_oe = \<lparr>oe_calloc = True, oe_conn = True, oe_fd_add = True, oe_random = Some (replicate 32 5), oe_clock = (\<lambda>_. 1000), oe_entropy = (\<lambda>_. 7)\<rparr>"

definition example_te :: tick_env where
  "example_te = \<lparr>tk_now = 0, tk_alloc = True, tk_junk = (\<lambda>_. example_timer)\<rparr>"

abbreviation "example_cb \<equiv> app_cb sample_prims echo_app 2"

lemma example_timers_fine: "tm_initialized example_timers" "timers_fine example_timers"
    "pq_nr (tm_pq example_timers) < pq_max (tm_pq example_timers)" "pq_bag (tm_pq example_timers) = {#}"
proof -
  have m: "(IOX_MAX_TIMERS :: u32) \<le> 2 ^ 31" "unat IOX_MAX_TIMERS = 2 ^ 4" by (simp_all add: IOX_MAX_TIMERS_def word_le_nat_alt)
  note f = fresh_queue [OF m(1), of example_timer]
  show "tm_initialized example_timers" "timers_fine example_timers"
      "pq_nr (tm_pq example_timers) < pq_max (tm_pq example_timers)" "pq_bag (tm_pq example_timers) = {#}"
    using f m(2) by (auto simp: example_timers_def iox_timer_init_def timers_fine_def timer_heap_def IOX_MAX_TIMERS_def intro!: exI [of _ 4])
qed

lemma example_opened:
  "\<exists>al. link_session sample_prims example_cb al \<and> link_ok sample_prims al \<and> idle_server al \<and>
     al_conn al = snd (nc_now_ms (netchan_open True (\<lambda>_. 1000) (\<lambda>_. 7))) \<and> \<not> al_accepted al \<and> \<not> al_up al \<and> \<not> al_down al \<and>
     fed (al_trace al) = [] \<and> al_scb al = sample_store [] \<and> fresh_session sample_prims (al_crypto al) \<and> accepts_peer (al_crypto al) example_peer"
proof -
  let ?ccfg = "\<lparr>cc_eph_sk_seed = None, cc_psk = lc_psk example_cfg, cc_static_sk = lc_static_sk example_cfg,
           cc_require_peer_static = lc_require_peer_static example_cfg, cc_verify_peer = lc_verify_peer example_cfg\<rparr>"
  obtain cr rc where i: "nc_crypto_init sample_prims (oe_random example_oe) 1 (Some ?ccfg) = (cr, rc)" by (metis surj_pair)
  then have rc: "rc = 0" "cr_require_peer_static cr" "cr_verify_peer cr = lc_verify_peer example_cfg"
    by (auto simp: nc_crypto_init_def example_oe_def example_cfg_def)
  have peer: "cr_have_static example_peer" by (simp add: example_peer_def nc_crypto_init_def)
  obtain tm i where t: "iox_timer_add (tk_now example_te) (tk_alloc example_te) (tk_junk example_te) AL_TICK_MS (Some Tick) () example_timers = Some (tm, i)"
    using timer_add_fine [OF example_timers_fine(2)] by blast
  define al where "al = (fresh_link example_cfg example_timers example_oe)\<lparr>al_crypto := cr,
    al_conn := snd (nc_now_ms (netchan_open True (oe_clock example_oe) (oe_entropy example_oe))), al_timers := tm, al_timer_id := i\<rparr>"
  note o = open_idle [of example_cfg example_oe sample_prims cr, OF _ _ _ _ i [unfolded rc(1)] t al_def]
  have s: "link_session sample_prims example_cb al"
    by (rule link_session.opened [OF example_timers_fine(2) o(1)]) (simp_all add: example_cfg_def example_oe_def)
  moreover have "idle_server al" by (rule o(2)) (simp_all add: example_cfg_def example_oe_def)
  moreover have "fresh_session sample_prims cr" using init_fresh [OF i [unfolded rc(1)]] by simp
  moreover have "accepts_peer cr example_peer" using rc peer by (simp add: accepts_peer_def example_cfg_def)
  ultimately show ?thesis
    using session_ok [OF s] by (intro exI [of _ al]) (simp add: al_def fresh_link_def example_oe_def example_cfg_def)
qed

definition example_address :: sockaddr where
  "example_address = AF_INET [127, 0, 0, 1] [48, 57]"

lemma example_waits:
  "\<exists>al. link_session sample_prims example_cb al \<and> link_ok sample_prims al \<and> awaits_login 0 0 0 al \<and> c_local_id (al_conn al) = 7 \<and>
     al_scb al = sample_store [] \<and> cr_have_key (al_crypto al) \<and> \<not> cr_failed (al_crypto al) \<and> cr_rx_max (al_crypto al) = 1 \<and>
     cr_rx_window (al_crypto al) = 1"
proof -
  obtain al where al: "link_session sample_prims example_cb al" "link_ok sample_prims al" "idle_server al"
     "al_conn al = snd (nc_now_ms (netchan_open True (\<lambda>_. 1000) (\<lambda>_. 7)))" "\<not> al_accepted al" "\<not> al_up al" "\<not> al_down al"
     "fed (al_trace al) = []" "al_scb al = sample_store []" "fresh_session sample_prims (al_crypto al)" "accepts_peer (al_crypto al) example_peer"
    using example_opened by blast
  have inv: "link_inv sample_prims al" using al(2) by (simp add: link_ok_def)
  have peer: "fresh_session sample_prims example_peer" "cr_eph_pk example_peer = 1 # pad 31 (replicate 32 3)"
    by (simp_all add: example_peer_def nc_crypto_init_def fresh_session_def zero_crypto_def sample_prims_def)
  have dh: "x25519 sample_prims (cr_eph_sk (al_crypto al)) (cr_eph_pk example_peer) \<noteq> zero32"
    by (simp add: sample_prims_def peer(2) zero32_def numeral_eq_Suc)
  define cr where "cr = fst (derive_session sample_prims (cr_eph_pk example_peer) (learned (al_crypto al) example_peer))"
  have cr: "cr_have_key cr" "\<not> cr_failed cr"
    using al(10) dh by (simp_all add: cr_def derive_session_def learned_def is_zero32_def Let_def case_prod_beta fresh_session_def)
  obtain ds al' n where t: "on_readable sample_prims example_cb ds al = Some ([], al')" "awaits_login 0 0 0 al'" "c_local_id (al_conn al') = 7"
      "al_scb al' = sample_store []" "al_crypto al' = cr\<lparr>cr_rx_window := 1, cr_rx_max := 1, cr_tx_counter := n\<rparr>"
    using app.first_turn [OF inv al(3,4) _ al(5-8) sample_laws al(10) peer(1) al(11) dh _ _ cr_def, of example_address
        "4 # [127, 0, 0, 1] @ [48, 57]" echo_app 2 1] al(9)
    by (auto simp: example_address_def nc_udp_from_sockaddr_def)
  have "link_session sample_prims example_cb al'" by (rule link_session.readable [OF al(1) t(1)])
  then show ?thesis using t(2-5) cr session_ok by auto
qed

definition example_login :: "nc_crypto \<Rightarrow> u8 list" where
  "example_login c = sealed_packet sample_prims (cr_rx_key c) 2
     (two_messages 7 0 0 0 [TAG_AUTH, MSG_HELLO, 1, 97] [TAG_AUTH, MSG_PASSWORD, 2, 112, 119])"

lemma example_accepts:
  "au_state (feed_all P [[MSG_HELLO, 1, 97]] (nc_auth_server_init sid (Some (sample_store [])) True)) = NC_AUTH_PENDING"
  "au_state (feed_all P [[MSG_HELLO, 1, 97], [MSG_PASSWORD, 2, 112, 119]] (nc_auth_server_init sid (Some (sample_store [])) True)) = NC_AUTH_OK"
  "nc_auth_user (feed_all P [[MSG_HELLO, 1, 97], [MSG_PASSWORD, 2, 112, 119]] (nc_auth_server_init sid (Some (sample_store [])) True)) = [97]"
  by (simp_all add: nc_auth_feed_def server_feed_def server_hello_def server_password_def Let_def cstr_def msg_codes auth_limits
      method_bits nc_auth_server_init_def zero_auth_def server_reply_def emit_def sample_store_def nc_auth_user_def)

lemma example_packet:
  assumes "cr_have_key c" and "\<not> cr_failed c" and "cr_rx_max c = 1" and "cr_rx_window c = 1"
    and "plain = two_messages 7 0 0 0 [TAG_AUTH, MSG_HELLO, 1, 97] [TAG_AUTH, MSG_PASSWORD, 2, 112, 119]"
  shows "length (example_login c) \<le> AL_BUF"
    and "nc_crypto_open sample_prims (example_login c) AL_BUF c = (c\<lparr>cr_rx_window := 3, cr_rx_max := 2\<rparr>, int (length plain), plain)"
proof -
  have len: "length plain = 32" by (simp add: assms(5) two_messages_def data_frame_def wr16_def wr32_def)
  then show "length (example_login c) \<le> AL_BUF"
    using sample_laws by (simp add: example_login_def sealed_packet_def crypto_laws_def AL_BUF_def flip: assms(5))
  have "replay_check_and_update 2 c = (c\<lparr>cr_rx_window := 3, cr_rx_max := 2\<rparr>, 0)"
    using assms(3,4) word_le_nat_alt [of "64 :: u64" 1] by (simp add: replay_check_and_update_def)
  then show "nc_crypto_open sample_prims (example_login c) AL_BUF c = (c\<lparr>cr_rx_window := 3, cr_rx_max := 2\<rparr>, int (length plain), plain)"
    using open_packet [OF sample_laws assms(1,2), of plain AL_BUF 2] len by (simp add: example_login_def AL_BUF_def flip: assms(5))
qed

lemma example_up: "\<exists>al. link_session sample_prims example_cb al \<and> auth_link_up al \<and> auth_link_user al = [97] \<and> al_server al"
proof -
  obtain al where al: "link_session sample_prims example_cb al" "link_ok sample_prims al" "awaits_login 0 0 0 al" "c_local_id (al_conn al) = 7"
     "al_scb al = sample_store []" "cr_have_key (al_crypto al)" "\<not> cr_failed (al_crypto al)" "cr_rx_max (al_crypto al) = 1"
     "cr_rx_window (al_crypto al) = 1" using example_waits by blast
  note p = example_packet [OF al(6-9) refl]
  obtain al' where r: "on_readable sample_prims example_cb [(example_login (al_crypto al), example_address)] al = Some ([], al')"
      "auth_link_up al'" "auth_link_user al' = [97]"
    using login_completes [OF al(2,3) _ p(1) _ _ _ p(2) refl, of example_address _ "[MSG_HELLO, 1, 97]" "[MSG_PASSWORD, 2, 112, 119]" 0 echo_app 2]
      example_accepts al(4,5) by (auto simp: example_address_def nc_udp_from_sockaddr_def)
  have s: "link_session sample_prims example_cb al'" by (rule link_session.readable [OF al(1) r(1)])
  have "onward al al'" using app.on_readable_ok [of sample_prims al echo_app 2 "[(example_login (al_crypto al), example_address)]"] al(2) r(1) by (auto simp: link_ok_def)
  then have "al_server al'" using al(3) by (simp add: onward_def awaits_login_def)
  with s r(2,3) show ?thesis by blast
qed

section \<open>The properties of that session\<close>

theorem server_lets_in_witness:
  "\<exists>al al' pkt. link_session sample_prims example_cb al \<and> \<not> auth_link_up al \<and>
     on_readable sample_prims example_cb [(pkt, example_address)] al = Some ([], al') \<and> auth_link_up al' \<and> auth_link_user al' = [97]"
proof -
  obtain al where al: "link_session sample_prims example_cb al" "awaits_login 0 0 0 al" "c_local_id (al_conn al) = 7"
     "al_scb al = sample_store []" "cr_have_key (al_crypto al)" "\<not> cr_failed (al_crypto al)" "cr_rx_max (al_crypto al) = 1"
     "cr_rx_window (al_crypto al) = 1" using example_waits by blast
  note p = example_packet [OF al(5-8) refl]
  have "\<not> auth_link_up al" using al(2) by (simp add: awaits_login_def auth_link_up_def)
  then show ?thesis
    using server_lets_in [OF al(1,2) _ p(1) _ _ _ p(2) refl, of example_address _ "[MSG_HELLO, 1, 97]" "[MSG_PASSWORD, 2, 112, 119]" 0]
      example_accepts al by (auto simp: example_address_def nc_udp_from_sockaddr_def)
qed

theorem link_up_proved_witness:
  "\<exists>al. link_session sample_prims example_cb al \<and> auth_link_up al \<and> cr_have_key (al_crypto al) \<and> auth_link_user al = [97] \<and>
     list_ex (proves sample_prims (cr_sid (al_crypto al)) (al_scb al) [97]) (fed (al_trace al))"
proof -
  obtain al where al: "link_session sample_prims example_cb al" "auth_link_up al" "auth_link_user al = [97]" "al_server al"
    using example_up by blast
  from link_up_proved [OF al(1,2)] show ?thesis using al by auto
qed

theorem reports_in_order_witness:
  "\<exists>al. link_session sample_prims example_cb al \<and> On_up \<in> set (al_trace al) \<and> after_login (al_trace al) \<and> count_list (al_trace al) On_up \<le> 1"
  using example_up reports_in_order by blast

theorem wire_protected_witness:
  "\<exists>al. link_session sample_prims example_cb al \<and> auth_link_up al \<and>
     list_all (\<lambda>d. protected_by sample_prims (al_crypto al) (fst d)) (al_wire al) \<and> distinct (counters (al_wire al))"
  using example_up wire_protected by blast


theorem tick_rearmed_witness:
  "\<exists>al al'. link_session sample_prims example_cb al \<and> on_tick sample_prims example_cb example_te al = Some al' \<and>
     pq_bag (tm_pq (al_timers al')) = {#\<lparr>te_deadline_ns = 50000000, te_cb = Some Tick, te_arg = (), te_id = al_timer_id al'\<rparr>#}"
proof -
  obtain al where "link_session sample_prims example_cb al" using example_up by blast
  then have "link_session sample_prims example_cb (al\<lparr>al_timers := example_timers\<rparr>)"
    by (rule link_session.others [OF _ example_timers_fine(2)])
  from tick_rearmed [OF this, of example_te] this show ?thesis
    using example_timers_fine by (auto simp: example_te_def)
qed

end
