(* ===== verification/Pc_Ir.thy ===== *)
theory Pc_Ir
  imports Rv_Prelude "HOL-Library.Monad_Syntax"
begin

text \<open>
  The intermediate representation of the portable compiler (\<open>ir/ir.h\<close>, \<open>ir/ir.c\<close>): three-address
  instructions over numbered temporaries, and the functions that hold them. The linked list of
  instructions from \<open>head\<close> to \<open>tail\<close> is a list, in order; the counters are C \<open>int\<close>s that only ever
  count up from zero and are integers here. The helpers that allocate are total: when memory runs out
  they end the compiler.
\<close>

section \<open>Data\<close>

datatype ir_op =
    IR_NOP | IR_LIC | IR_LEA | IR_ADL | IR_MOV
  | IR_ADD | IR_SUB | IR_MUL | IR_DIVS | IR_DIVU | IR_MODS | IR_MODU
  | IR_AND | IR_OR | IR_XOR | IR_SHL | IR_SHRS | IR_SHRU | IR_NEG | IR_NOT
  | IR_LB | IR_LBS | IR_LH | IR_LHS | IR_LW | IR_SB | IR_SH | IR_SW
  | IR_LDL | IR_STL
  | IR_CMPEQ | IR_CMPNE | IR_CMPLTS | IR_CMPLES | IR_CMPGTS | IR_CMPGES
  | IR_CMPLTU | IR_CMPLEU | IR_CMPGTU | IR_CMPGEU
  | IR_JMP | IR_BZ | IR_BNZ
  | IR_ARG | IR_CALL | IR_CALLI | IR_RET | IR_RETV
  | IR_FUNC | IR_ENDF | IR_LABEL
  | IR_MARK | IR_CAPTURE | IR_RESUME

record ir_insn =
  ii_op :: ir_op
  ii_dst :: int
  ii_a :: int
  ii_b :: int
  ii_imm :: int
  ii_sym :: string
  ii_slot :: int
  ii_label :: int
  ii_nargs :: int

record ir_func =
  fn_name :: string
  fn_nparams :: int
  fn_nslots :: int
  fn_slot_size :: "int list"
  fn_ntemps :: int
  fn_nlabels :: int
  fn_nspills :: int
  fn_temp_reg :: "int list"
  fn_temp_spill :: "int list"
  fn_insns :: "ir_insn list"

section \<open>Builders\<close>

definition ir_new_func :: "string \<Rightarrow> ir_func" where
  "ir_new_func name = \<lparr>fn_name = name, fn_nparams = 0, fn_nslots = 0, fn_slot_size = [], fn_ntemps = 0,
     fn_nlabels = 0, fn_nspills = 0, fn_temp_reg = [], fn_temp_spill = [], fn_insns = []\<rparr>"

definition ir_new_temp :: "ir_func \<Rightarrow> int \<times> ir_func" where
  "ir_new_temp fn = (fn_ntemps fn, fn\<lparr>fn_ntemps := fn_ntemps fn + 1\<rparr>)"

definition ir_new_label :: "ir_func \<Rightarrow> int \<times> ir_func" where
  "ir_new_label fn = (fn_nlabels fn, fn\<lparr>fn_nlabels := fn_nlabels fn + 1\<rparr>)"

text \<open>
  \<open>ir_emit\<close> returns the new instruction for its caller to fill in: \<open>fill\<close> is what the caller writes
  into it.
\<close>

definition blank_insn :: "ir_op \<Rightarrow> ir_insn" where
  "blank_insn op = \<lparr>ii_op = op, ii_dst = - 1, ii_a = - 1, ii_b = - 1, ii_imm = 0, ii_sym = [],
     ii_slot = - 1, ii_label = - 1, ii_nargs = 0\<rparr>"

definition ir_emit :: "ir_func \<Rightarrow> ir_op \<Rightarrow> (ir_insn \<Rightarrow> ir_insn) \<Rightarrow> ir_func" where
  "ir_emit fn op fill = fn\<lparr>fn_insns := fn_insns fn @ [fill (blank_insn op)]\<rparr>"

end
