(* ===== verification/Pc_Regalloc.thy ===== *)
theory Pc_Regalloc
  imports Pc_Ir "HOL-Library.Multiset"
begin

text \<open>
  The linear-scan register allocator \<open>backend/regalloc_cf.c\<close>. Arrays are lists, and an access outside
  one is the value \<open>None\<close>; \<open>active\<close>, an array of pointers into the array of intervals, is a list of
  indices. The library's \<open>qsort\<close> is a parameter.
\<close>

section \<open>Data\<close>

definition NUM_REGS :: nat where
  "NUM_REGS = 6"

definition FIRST_REG :: int where
  "FIRST_REG = 2"

record interval =
  iv_temp :: nat
  iv_start :: int
  iv_end :: int
  iv_reg :: int
  iv_spill :: int

definition sort_by_start :: "interval \<Rightarrow> interval \<Rightarrow> int" where
  "sort_by_start a b =
    (if iv_start a \<noteq> iv_start b then iv_start a - iv_start b else iv_end a - iv_end b)"

section \<open>Live intervals\<close>

text \<open>The first definition and the last occurrence of every temporary, -1 where there is none.\<close>

definition note_def :: "nat \<Rightarrow> int \<Rightarrow> int \<Rightarrow> int list \<Rightarrow> int list" where
  "note_def n pos t fd =
    (if 0 \<le> t \<and> t < int n \<and> fd ! nat t < 0 then fd[nat t := pos] else fd)"

definition note_use :: "nat \<Rightarrow> int \<Rightarrow> int \<Rightarrow> int list \<Rightarrow> int list" where
  "note_use n pos t lu =
    (if 0 \<le> t \<and> t < int n \<and> lu ! nat t < pos then lu[nat t := pos] else lu)"

fun scan_insns :: "nat \<Rightarrow> int \<Rightarrow> ir_insn list \<Rightarrow> int list \<Rightarrow> int list \<Rightarrow> int list \<times> int list" where
  "scan_insns n pos [] fd lu = (fd, lu)"
| "scan_insns n pos (i # is) fd lu =
    scan_insns n (pos + 1) is (note_def n pos (ii_dst i) fd)
      (note_use n pos (ii_b i) (note_use n pos (ii_a i) (note_use n pos (ii_dst i) lu)))"

definition make_intervals :: "nat \<Rightarrow> int list \<Rightarrow> int list \<Rightarrow> interval list" where
  "make_intervals n fd lu =
    map (\<lambda>t. \<lparr>iv_temp = t, iv_start = fd ! t, iv_end = (if fd ! t \<le> lu ! t then lu ! t else fd ! t),
              iv_reg = - 1, iv_spill = - 1\<rparr>)
      (filter (\<lambda>t. 0 \<le> fd ! t) [0..<n])"

section \<open>The scan\<close>

record lsra =
  ra_ivs :: "interval list"
  ra_active :: "nat list"
  ra_pool :: "bool list"
  ra_nspills :: int

fun expire :: "interval list \<Rightarrow> int \<Rightarrow> nat list \<Rightarrow> bool list \<Rightarrow> (nat list \<times> bool list) option" where
  "expire ivs start [] pool = Some ([], pool)"
| "expire ivs start (r # rs) pool =
    (if iv_end (ivs ! r) < start
     then let k = iv_reg (ivs ! r) - FIRST_REG in
       if 0 \<le> k \<and> k < int NUM_REGS then expire ivs start rs (pool[nat k := True]) else None
     else do { (act, pool') \<leftarrow> expire ivs start rs pool; Some (r # act, pool') })"

definition insert_active :: "interval list \<Rightarrow> nat \<Rightarrow> nat list \<Rightarrow> nat list option" where
  "insert_active ivs p act =
    (if length act < NUM_REGS + 1
     then let ins_at = length (takeWhile (\<lambda>r. \<not> iv_end (ivs ! p) < iv_end (ivs ! r)) act)
       in Some (take ins_at act @ p # drop ins_at act)
     else None)"

definition assign_reg :: "nat \<Rightarrow> nat \<Rightarrow> lsra \<Rightarrow> lsra option" where
  "assign_reg k p st = do {
     let ivs = (ra_ivs st)[p := (ra_ivs st ! p)\<lparr>iv_reg := int k + FIRST_REG\<rparr>];
     act \<leftarrow> insert_active ivs p (ra_active st);
     Some (st\<lparr>ra_ivs := ivs, ra_active := act, ra_pool := (ra_pool st)[k := False]\<rparr>) }"

definition spill_one :: "nat \<Rightarrow> lsra \<Rightarrow> lsra option" where
  "spill_one p st =
    (if ra_active st = [] then None
     else let s = last (ra_active st); sp = ra_ivs st ! s; iv = ra_ivs st ! p in
       if iv_end iv < iv_end sp
       then do {
         let ivs = (ra_ivs st)[p := iv\<lparr>iv_reg := iv_reg sp\<rparr>,
                               s := sp\<lparr>iv_reg := - 1, iv_spill := ra_nspills st * 4\<rparr>];
         act \<leftarrow> insert_active ivs p (butlast (ra_active st));
         Some (st\<lparr>ra_ivs := ivs, ra_active := act, ra_nspills := ra_nspills st + 1\<rparr>) }
       else Some (st\<lparr>ra_ivs := (ra_ivs st)[p := iv\<lparr>iv_spill := ra_nspills st * 4\<rparr>],
                     ra_nspills := ra_nspills st + 1\<rparr>))"

definition scan_one :: "nat \<Rightarrow> lsra \<Rightarrow> lsra option" where
  "scan_one p st = do {
     (act, pool) \<leftarrow> expire (ra_ivs st) (iv_start (ra_ivs st ! p)) (ra_active st) (ra_pool st);
     let st' = st\<lparr>ra_active := act, ra_pool := pool\<rparr>;
     case find (\<lambda>k. pool ! k) [0..<NUM_REGS] of
       Some k \<Rightarrow> assign_reg k p st'
     | None \<Rightarrow> spill_one p st' }"

fun scan_all :: "nat list \<Rightarrow> lsra \<Rightarrow> lsra option" where
  "scan_all [] st = Some st"
| "scan_all (p # ps) st = do { st' \<leftarrow> scan_one p st; scan_all ps st' }"

definition write_back :: "interval list \<Rightarrow> ir_func \<Rightarrow> ir_func" where
  "write_back ivs fn =
    fold (\<lambda>iv fn. fn\<lparr>fn_temp_reg := (fn_temp_reg fn)[iv_temp iv := iv_reg iv],
                     fn_temp_spill := (fn_temp_spill fn)[iv_temp iv := iv_spill iv]\<rparr>) ivs fn"

definition regalloc ::
  "((interval \<Rightarrow> interval \<Rightarrow> int) \<Rightarrow> interval list \<Rightarrow> interval list) \<Rightarrow> ir_func \<Rightarrow> ir_func option" where
  "regalloc qsort fn =
    (if fn_ntemps fn < 0 then None
     else let n = nat (fn_ntemps fn);
              fn0 = fn\<lparr>fn_temp_reg := replicate n (- 1), fn_temp_spill := replicate n (- 1)\<rparr> in
       if n = 0 then Some (fn0\<lparr>fn_nspills := 0\<rparr>)
       else do {
         let (fd, lu) = scan_insns n 0 (fn_insns fn) (replicate n (- 1)) (replicate n (- 1));
         let ivs = qsort sort_by_start (make_intervals n fd lu);
         st \<leftarrow> scan_all [0..<length ivs]
           \<lparr>ra_ivs = ivs, ra_active = [], ra_pool = replicate NUM_REGS True, ra_nspills = 0\<rparr>;
         Some ((write_back (ra_ivs st) fn0)\<lparr>fn_nspills := ra_nspills st\<rparr>) })"

end
