(* ===== verification/Pc_Text.thy ===== *)
theory Pc_Text
  imports Main
begin

text \<open>
  Numbers as \<open>printf\<close> writes them: the digits of a number in a base up to ten, and \<open>%d\<close>. The value of
  a string of decimal digits is the inverse.
\<close>

fun digits :: "nat \<Rightarrow> nat \<Rightarrow> string" where
  "digits base n = (if n < base \<or> base < 2 then [char_of (48 + n)] else digits base (n div base) @ [char_of (48 + n mod base)])"

declare digits.simps [simp del]

definition pr_int :: "int \<Rightarrow> string" where
  "pr_int i = (if i < 0 then ''-'' @ digits 10 (nat (- i)) else digits 10 (nat i))"

definition digit_value :: "char \<Rightarrow> nat" where
  "digit_value c = of_char c - 48"

definition decimal :: "string \<Rightarrow> nat" where
  "decimal ds = foldl (\<lambda>n c. n * 10 + digit_value c) 0 ds"

lemma digit_char: "n < 10 \<Longrightarrow> digit_value (char_of (48 + n)) = n"
  by (simp add: digit_value_def)

lemma decimal_digits: "decimal (digits 10 n) = n"
proof (induction "10 :: nat" n rule: digits.induct)
  case (1 n)
  then show ?case by (subst digits.simps) (simp add: decimal_def digit_char)
qed

definition isdigit :: "char \<Rightarrow> bool" where
  "isdigit c \<longleftrightarrow> c \<in> set ''0123456789''"

lemma digit_isdigit: "n < 10 \<Longrightarrow> isdigit (char_of (48 + n))" for n :: nat
proof -
  assume "n < 10"
  then have "n = 0 \<or> n = 1 \<or> n = 2 \<or> n = 3 \<or> n = 4 \<or> n = 5 \<or> n = 6 \<or> n = 7 \<or> n = 8 \<or> n = 9" by auto
  then show ?thesis by (elim disjE) (simp_all add: isdigit_def char_of_def bit_numeral_rec bit_Suc_0_iff)
qed

lemma digits_are_digits: "\<forall>c\<in>set (digits 10 n). isdigit c"
proof (induction "10 :: nat" n rule: digits.induct)
  case (1 n)
  then show ?case using digit_isdigit [of "n mod 10"] digit_isdigit [of n] by (subst digits.simps) simp
qed

lemma digits_some: "digits b n \<noteq> []"
  by (subst digits.simps) simp

text \<open>The first digit is not a zero unless the number is zero.\<close>

lemma digits_leading: "0 < n \<Longrightarrow> hd (digits 10 n) \<noteq> CHR ''0''"
proof (induction "10 :: nat" n rule: digits.induct)
  case (1 n)
  show ?case
  proof (cases "n < 10")
    case True
    have "char_of (48 + n) \<noteq> CHR ''0''"
    proof
      assume "char_of (48 + n) = CHR ''0''"
      then have "digit_value (char_of (48 + n)) = digit_value CHR ''0''" by simp
      then show False using True 1(2) digit_char [of n] by (simp add: digit_value_def)
    qed
    then show ?thesis using True by (subst digits.simps) simp
  next
    case False
    then show ?thesis using 1(1) by (subst digits.simps) (simp add: digits_some)
  qed
qed

end
