(* ===== verification/Pc_Emit.thy ===== *)
theory Pc_Emit
  imports Pc_Regalloc Pc_Text
begin

text \<open>
  The ColdFire back end \<open>backend/cf_emit.c\<close>. The code prints assembly text line by line; here every
  line is a value of \<open>asm\<close>, and \<open>print_asm\<close> is its text, format by format. Data registers are their
  numbers (the names in \<open>dregs\<close> are distinct, so \<open>strcmp\<close> on them is equality of numbers). An access
  outside an array and a call of \<open>die\<close> are the value \<open>None\<close>.
\<close>

section \<open>Lines of assembly\<close>

datatype ea =
    Dn nat | An | Fp | Sp | Ind | Fp_at int | Push | Pop | Num int | Sym string

datatype asm =
    Move string ea ea
  | Movea nat
  | Moveq int nat
  | Alu string nat nat
  | Una string nat
  | Cmp nat nat
  | Tst nat
  | Lea ea
  | Lea_sp int
  | Jsr ea
  | Link int
  | Movem_push
  | Movem_pop
  | Unlk
  | Rts
  | Branch string int int
  | Label int int
  | Lea_mark int int
  | Mark_label int int
  | Lea_0sp
  | Header
  | Func_header string
  | Data_header
  | Global_header string
  | Ascii "u8 list"
  | Byte int
  | Long int
  | Space int

section \<open>Printing\<close>

definition dregs :: "string list" where
  "dregs = [''%d0'', ''%d1'', ''%d2'', ''%d3'', ''%d4'', ''%d5'', ''%d6'', ''%d7'']"

definition NL :: string where "NL = [char_of (10 :: nat)]"
definition TAB :: string where "TAB = [char_of (9 :: nat)]"
definition QUOTE :: string where "QUOTE = [char_of (34 :: nat)]"
definition BSL :: string where "BSL = [char_of (92 :: nat)]"

fun pr_ea :: "ea \<Rightarrow> string" where
  "pr_ea (Dn r) = dregs ! r"
| "pr_ea An = ''%a0''"
| "pr_ea Fp = ''%fp''"
| "pr_ea Sp = ''%sp''"
| "pr_ea Ind = ''(%a0)''"
| "pr_ea (Fp_at d) = pr_int d @ ''(%fp)''"
| "pr_ea Push = ''-(%sp)''"
| "pr_ea Pop = ''(%sp)+''"
| "pr_ea (Num n) = ''#'' @ pr_int n"
| "pr_ea (Sym s) = s"

definition pr_line :: "string \<Rightarrow> string \<Rightarrow> string" where
  "pr_line mnem args = TAB @ mnem @ '' '' @ args @ NL"

definition pr_label :: "string \<Rightarrow> int \<Rightarrow> int \<Rightarrow> string" where
  "pr_label kind p l = kind @ pr_int p @ ''_'' @ pr_int l"

definition pr_octal :: "u8 \<Rightarrow> string" where
  "pr_octal c = (let d = digits 8 (unat c) in replicate (3 - length d) (CHR ''0'') @ d)"

definition pr_char :: "u8 \<Rightarrow> string" where
  "pr_char c =
    (if c = 92 then BSL @ BSL
     else if c = 34 then BSL @ QUOTE
     else if c = 10 then BSL @ ''n''
     else if c = 9 then BSL @ ''t''
     else if c = 13 then BSL @ ''r''
     else if 0x20 \<le> c \<and> c < 0x7f then [char_of (unat c)]
     else BSL @ pr_octal c)"

fun print_asm :: "asm \<Rightarrow> string" where
  "print_asm (Move sz s d) = pr_line (''move.'' @ sz) (pr_ea s @ '', '' @ pr_ea d)"
| "print_asm (Movea s) = pr_line ''movea.l'' (dregs ! s @ '', %a0'')"
| "print_asm (Moveq n d) = pr_line ''moveq'' (''#'' @ pr_int n @ '', '' @ dregs ! d)"
| "print_asm (Alu m s d) = pr_line m (dregs ! s @ '', '' @ dregs ! d)"
| "print_asm (Una m d) = pr_line m (dregs ! d)"
| "print_asm (Cmp s d) = pr_line ''cmp.l'' (dregs ! s @ '', '' @ dregs ! d)"
| "print_asm (Tst d) = pr_line ''tst.l'' (dregs ! d)"
| "print_asm (Lea e) = pr_line ''lea'' (pr_ea e @ '', %a0'')"
| "print_asm (Lea_sp n) = pr_line ''lea'' (pr_int n @ ''(%sp), %sp'')"
| "print_asm (Jsr e) = pr_line ''jsr'' (pr_ea e)"
| "print_asm (Link n) = pr_line ''link.w'' (''%fp, #'' @ pr_int n)"
| "print_asm Movem_push = pr_line ''movem.l'' ''%d2-%d7, -(%sp)''"
| "print_asm Movem_pop = pr_line ''movem.l'' ''(%sp)+, %d2-%d7''"
| "print_asm Unlk = pr_line ''unlk'' ''%fp''"
| "print_asm Rts = TAB @ ''rts'' @ NL"
| "print_asm (Branch m p l) = pr_line m (pr_label ''.L'' p l)"
| "print_asm (Label p l) = pr_label ''.L'' p l @ '':'' @ NL"
| "print_asm (Lea_mark p l) = pr_line ''lea'' (pr_label ''.Lmark'' p l @ '', %a0'')"
| "print_asm (Mark_label p l) = pr_label ''.Lmark'' p l @ '':'' @ NL"
| "print_asm Lea_0sp = pr_line ''lea'' ''0(%sp), %a0''"
| "print_asm Header = ''| tinc: generated ColdFire / m68k assembly'' @ NL"
| "print_asm (Func_header nm) = NL @ TAB @ ''.text'' @ NL @ TAB @ ''.align 2'' @ NL @ TAB @ ''.globl '' @ nm @ NL @ nm @ '':'' @ NL"
| "print_asm Data_header = NL @ TAB @ ''.data'' @ NL"
| "print_asm (Global_header nm) = TAB @ ''.align 2'' @ NL @ TAB @ ''.globl '' @ nm @ NL @ nm @ '':'' @ NL"
| "print_asm (Ascii cs) = TAB @ ''.ascii '' @ QUOTE @ concat (map pr_char cs) @ QUOTE @ NL"
| "print_asm (Byte n) = pr_line ''.byte'' (pr_int n)"
| "print_asm (Long n) = pr_line ''.long'' (pr_int n)"
| "print_asm (Space n) = pr_line ''.space'' (pr_int n)"

declare digits.simps [simp del]

section \<open>Frame layout\<close>

definition arr :: "'a list \<Rightarrow> int \<Rightarrow> 'a option" where
  "arr xs i = (if 0 \<le> i \<and> i < int (length xs) then Some (xs ! nat i) else None)"

definition round4 :: "int \<Rightarrow> int" where
  "round4 n = (n + 3) div 4 * 4"

fun sum_slots :: "int list \<Rightarrow> int list \<Rightarrow> int option" where
  "sum_slots sizes [] = Some 0"
| "sum_slots sizes (i # is) = do { sz \<leftarrow> arr sizes i; s \<leftarrow> sum_slots sizes is; Some (round4 sz + s) }"

definition locals_size :: "ir_func \<Rightarrow> int option" where
  "locals_size fn = sum_slots (fn_slot_size fn) [fn_nparams fn .. fn_nslots fn - 1]"

definition slot_offset :: "ir_func \<Rightarrow> int \<Rightarrow> int option" where
  "slot_offset fn slot =
    (if slot < fn_nparams fn then Some (8 + 4 * slot)
     else do { off \<leftarrow> sum_slots (fn_slot_size fn) [fn_nparams fn .. slot]; Some (- off) })"

definition spill_byte_offset :: "ir_func \<Rightarrow> int \<Rightarrow> int option" where
  "spill_byte_offset fn temp = do {
     ls \<leftarrow> locals_size fn; s \<leftarrow> arr (fn_temp_spill fn) temp; Some (- ls - (s + 4)) }"

section \<open>Temporaries in registers\<close>

text \<open>
  \<open>rs\<close> gives the register that holds a source, with the reload it prints for a spilled one; \<open>rd\<close> the
  register to compute a destination in; \<open>wd\<close> the line that stores a spilled destination.
\<close>

definition dreg :: "int \<Rightarrow> nat option" where
  "dreg r = (if r < int (length dregs) then Some (nat r) else None)"

definition rs :: "ir_func \<Rightarrow> int \<Rightarrow> nat \<Rightarrow> (nat \<times> asm list) option" where
  "rs fn t scratch = do {
     r \<leftarrow> arr (fn_temp_reg fn) t;
     if 0 \<le> r then do { d \<leftarrow> dreg r; Some (d, []) }
     else do { off \<leftarrow> spill_byte_offset fn t; Some (scratch, [Move ''l'' (Fp_at off) (Dn scratch)]) } }"

definition rd :: "ir_func \<Rightarrow> int \<Rightarrow> nat \<Rightarrow> nat option" where
  "rd fn t scratch = do {
     r \<leftarrow> arr (fn_temp_reg fn) t;
     if 0 \<le> r then dreg r else Some scratch }"

definition wd :: "ir_func \<Rightarrow> int \<Rightarrow> nat \<Rightarrow> asm list option" where
  "wd fn t reg = do {
     r \<leftarrow> arr (fn_temp_reg fn) t;
     if 0 \<le> r then Some []
     else do { off \<leftarrow> spill_byte_offset fn t; Some [Move ''l'' (Dn reg) (Fp_at off)] } }"

section \<open>Instruction patterns\<close>

definition emit_binop :: "ir_func \<Rightarrow> ir_insn \<Rightarrow> string \<Rightarrow> asm list option" where
  "emit_binop fn i mnem = do {
     (sa, la) \<leftarrow> rs fn (ii_a i) 0;
     (sb, lb) \<leftarrow> rs fn (ii_b i) 1;
     sd \<leftarrow> rd fn (ii_dst i) 0;
     let (sb', lc) = (if sb = sd \<and> sa \<noteq> sd then (1, [Move ''l'' (Dn sb) (Dn 1)]) else (sb, []));
     let ld = (if sa \<noteq> sd then [Move ''l'' (Dn sa) (Dn sd)] else []);
     lw \<leftarrow> wd fn (ii_dst i) sd;
     Some (la @ lb @ lc @ ld @ [Alu mnem sb' sd] @ lw) }"

definition emit_unop :: "ir_func \<Rightarrow> ir_insn \<Rightarrow> string \<Rightarrow> asm list option" where
  "emit_unop fn i mnem = do {
     (sa, la) \<leftarrow> rs fn (ii_a i) 0;
     sd \<leftarrow> rd fn (ii_dst i) 0;
     let ld = (if sa \<noteq> sd then [Move ''l'' (Dn sa) (Dn sd)] else []);
     lw \<leftarrow> wd fn (ii_dst i) sd;
     Some (la @ ld @ [Una mnem sd] @ lw) }"

definition emit_cmp :: "ir_func \<Rightarrow> ir_insn \<Rightarrow> string \<Rightarrow> asm list option" where
  "emit_cmp fn i scc = do {
     (sa, la) \<leftarrow> rs fn (ii_a i) 0;
     (sb, lb) \<leftarrow> rs fn (ii_b i) 1;
     sd \<leftarrow> rd fn (ii_dst i) 0;
     lw \<leftarrow> wd fn (ii_dst i) sd;
     Some (la @ lb @ [Moveq 0 sd, Cmp sb sa, Una scc sd, Una ''neg.b'' sd] @ lw) }"

definition emit_load :: "ir_func \<Rightarrow> ir_insn \<Rightarrow> string \<Rightarrow> bool \<Rightarrow> bool \<Rightarrow> asm list option" where
  "emit_load fn i sz sign_extend clear_first = do {
     (sa, la) \<leftarrow> rs fn (ii_a i) 0;
     sd \<leftarrow> rd fn (ii_dst i) 0;
     lw \<leftarrow> wd fn (ii_dst i) sd;
     Some (la @ [Movea sa] @ (if clear_first then [Moveq 0 sd] else []) @ [Move sz Ind (Dn sd)] @
       (if sign_extend then (if sz = ''b'' then [Una ''ext.w'' sd] else []) @ [Una ''ext.l'' sd] else []) @ lw) }"

definition emit_store :: "ir_func \<Rightarrow> ir_insn \<Rightarrow> string \<Rightarrow> asm list option" where
  "emit_store fn i sz = do {
     (sa, la) \<leftarrow> rs fn (ii_a i) 0;
     (sb, lb) \<leftarrow> rs fn (ii_b i) 1;
     Some (la @ lb @ [Movea sa, Move sz (Dn sb) Ind]) }"

definition emit_mod :: "ir_func \<Rightarrow> ir_insn \<Rightarrow> asm list option" where
  "emit_mod fn i = do {
     (sa, la) \<leftarrow> rs fn (ii_a i) 0;
     (sb, lb) \<leftarrow> rs fn (ii_b i) 1;
     sd \<leftarrow> rd fn (ii_dst i) 0;
     let divop = (if ii_op i = IR_MODS then ''divs.l'' else ''divu.l'');
     let lc = (if sb \<noteq> 1 then [Move ''l'' (Dn sb) (Dn 1)] else []);
     lw \<leftarrow> wd fn (ii_dst i) sd;
     Some (la @ lb @ lc @ [Move ''l'' (Dn sa) Push, Move ''l'' (Dn sa) (Dn 0), Alu divop 1 0,
       Alu ''muls.l'' 1 0, Move ''l'' Pop (Dn sd), Alu ''sub.l'' 0 sd] @ lw) }"

definition emit_prologue :: "ir_func \<Rightarrow> asm list option" where
  "emit_prologue fn = do { ls \<leftarrow> locals_size fn; Some [Link (- (ls + fn_nspills fn * 4)), Movem_push] }"

definition emit_epilogue :: "asm list" where
  "emit_epilogue = [Movem_pop, Unlk, Rts]"

definition result_from_d0 :: "ir_func \<Rightarrow> ir_insn \<Rightarrow> asm list option" where
  "result_from_d0 fn i = do {
     sd \<leftarrow> rd fn (ii_dst i) 0;
     lw \<leftarrow> wd fn (ii_dst i) sd;
     Some ((if sd \<noteq> 0 then [Move ''l'' (Dn 0) (Dn sd)] else []) @ lw) }"

section \<open>Emission of an instruction\<close>

text \<open>
  The file's static variables: the temporaries of the pending arguments (\<open>arg_temps\<close>, \<open>narg\<close>), the
  prefix of the current function's labels and the number of functions so far.
\<close>

record emit_st =
  es_args :: "int list"
  es_prefix :: int
  es_serial :: int

fun push_args :: "ir_func \<Rightarrow> int list \<Rightarrow> asm list option" where
  "push_args fn [] = Some []"
| "push_args fn (t # ts) = do {
     (sa, la) \<leftarrow> rs fn t 0;
     rest \<leftarrow> push_args fn ts;
     Some (la @ [Move ''l'' (Dn sa) Push] @ rest) }"

definition emit_call_flush :: "emit_st \<Rightarrow> ir_func \<Rightarrow> ir_insn \<Rightarrow> bool \<Rightarrow> (asm list \<times> emit_st) option" where
  "emit_call_flush es fn i indirect = do {
     pushes \<leftarrow> push_args fn (rev (es_args es));
     call \<leftarrow> (if indirect then do { (sa, la) \<leftarrow> rs fn (ii_a i) 0; Some (la @ [Movea sa, Jsr Ind]) }
             else Some [Jsr (Sym (ii_sym i))]);
     let pop = (if es_args es \<noteq> [] then [Lea_sp (4 * int (length (es_args es)))] else []);
     result \<leftarrow> (if 0 \<le> ii_dst i then result_from_d0 fn i else Some []);
     Some (pushes @ call @ pop @ result, es\<lparr>es_args := []\<rparr>) }"

definition emit_simple :: "ir_func \<Rightarrow> ir_insn \<Rightarrow> asm list option" where
  "emit_simple fn i = (case ii_op i of
     IR_NOP \<Rightarrow> Some []
   | IR_LIC \<Rightarrow> do {
       sd \<leftarrow> rd fn (ii_dst i) 0;
       lw \<leftarrow> wd fn (ii_dst i) sd;
       Some ((if - 128 \<le> ii_imm i \<and> ii_imm i \<le> 127 then [Moveq (ii_imm i) sd]
              else [Move ''l'' (Num (ii_imm i)) (Dn sd)]) @ lw) }
   | IR_LEA \<Rightarrow> do {
       sd \<leftarrow> rd fn (ii_dst i) 0;
       lw \<leftarrow> wd fn (ii_dst i) sd;
       Some ([Lea (Sym (ii_sym i)), Move ''l'' An (Dn sd)] @ lw) }
   | IR_ADL \<Rightarrow> do {
       sd \<leftarrow> rd fn (ii_dst i) 0;
       off \<leftarrow> slot_offset fn (ii_slot i);
       lw \<leftarrow> wd fn (ii_dst i) sd;
       Some ([Lea (Fp_at off), Move ''l'' An (Dn sd)] @ lw) }
   | IR_MOV \<Rightarrow> do {
       (sa, la) \<leftarrow> rs fn (ii_a i) 0;
       sd \<leftarrow> rd fn (ii_dst i) 0;
       lw \<leftarrow> wd fn (ii_dst i) sd;
       Some (la @ (if sa \<noteq> sd then [Move ''l'' (Dn sa) (Dn sd)] else []) @ lw) }
   | IR_ADD \<Rightarrow> emit_binop fn i ''add.l''
   | IR_SUB \<Rightarrow> emit_binop fn i ''sub.l''
   | IR_MUL \<Rightarrow> emit_binop fn i ''muls.l''
   | IR_AND \<Rightarrow> emit_binop fn i ''and.l''
   | IR_OR \<Rightarrow> emit_binop fn i ''or.l''
   | IR_XOR \<Rightarrow> emit_binop fn i ''eor.l''
   | IR_SHL \<Rightarrow> emit_binop fn i ''lsl.l''
   | IR_SHRS \<Rightarrow> emit_binop fn i ''asr.l''
   | IR_SHRU \<Rightarrow> emit_binop fn i ''lsr.l''
   | IR_DIVS \<Rightarrow> emit_binop fn i ''divs.l''
   | IR_DIVU \<Rightarrow> emit_binop fn i ''divu.l''
   | IR_MODS \<Rightarrow> emit_mod fn i
   | IR_MODU \<Rightarrow> emit_mod fn i
   | IR_NEG \<Rightarrow> emit_unop fn i ''neg.l''
   | IR_NOT \<Rightarrow> emit_unop fn i ''not.l''
   | IR_LB \<Rightarrow> emit_load fn i ''b'' False True
   | IR_LBS \<Rightarrow> emit_load fn i ''b'' True False
   | IR_LH \<Rightarrow> emit_load fn i ''w'' False True
   | IR_LHS \<Rightarrow> emit_load fn i ''w'' True False
   | IR_LW \<Rightarrow> emit_load fn i ''l'' False False
   | IR_SB \<Rightarrow> emit_store fn i ''b''
   | IR_SH \<Rightarrow> emit_store fn i ''w''
   | IR_SW \<Rightarrow> emit_store fn i ''l''
   | IR_LDL \<Rightarrow> do {
       sd \<leftarrow> rd fn (ii_dst i) 0;
       off \<leftarrow> slot_offset fn (ii_slot i);
       lw \<leftarrow> wd fn (ii_dst i) sd;
       Some ([Move ''l'' (Fp_at off) (Dn sd)] @ lw) }
   | IR_STL \<Rightarrow> do {
       (sa, la) \<leftarrow> rs fn (ii_a i) 0;
       off \<leftarrow> slot_offset fn (ii_slot i);
       Some (la @ [Move ''l'' (Dn sa) (Fp_at off)]) }
   | IR_CMPEQ \<Rightarrow> emit_cmp fn i ''seq''
   | IR_CMPNE \<Rightarrow> emit_cmp fn i ''sne''
   | IR_CMPLTS \<Rightarrow> emit_cmp fn i ''slt''
   | IR_CMPLES \<Rightarrow> emit_cmp fn i ''sle''
   | IR_CMPGTS \<Rightarrow> emit_cmp fn i ''sgt''
   | IR_CMPGES \<Rightarrow> emit_cmp fn i ''sge''
   | IR_CMPLTU \<Rightarrow> emit_cmp fn i ''scs''
   | IR_CMPLEU \<Rightarrow> emit_cmp fn i ''sls''
   | IR_CMPGTU \<Rightarrow> emit_cmp fn i ''shi''
   | IR_CMPGEU \<Rightarrow> emit_cmp fn i ''scc''
   | IR_FUNC \<Rightarrow> Some []
   | IR_ENDF \<Rightarrow> Some []
   | _ \<Rightarrow> None)"

definition emit_branch :: "emit_st \<Rightarrow> ir_func \<Rightarrow> ir_insn \<Rightarrow> string \<Rightarrow> asm list option" where
  "emit_branch es fn i mnem = do {
     (sa, la) \<leftarrow> rs fn (ii_a i) 0;
     Some (la @ [Tst sa, Branch mnem (es_prefix es) (ii_label i)]) }"

definition emit_mark :: "emit_st \<Rightarrow> ir_func \<Rightarrow> ir_insn \<Rightarrow> asm list option" where
  "emit_mark es fn i = do {
     off \<leftarrow> slot_offset fn (ii_slot i);
     result \<leftarrow> result_from_d0 fn i;
     Some ([Move ''l'' Fp (Fp_at off), Lea_0sp, Move ''l'' An (Fp_at (off + 4)),
       Lea_mark (es_prefix es) (ii_label i), Move ''l'' An (Fp_at (off + 8)), Lea (Fp_at off),
       Move ''l'' An (Sym ''__cont_mark_sp''), Moveq 0 0, Mark_label (es_prefix es) (ii_label i)] @ result) }"

definition emit_insn :: "emit_st \<Rightarrow> ir_func \<Rightarrow> ir_insn \<Rightarrow> (asm list \<times> emit_st) option" where
  "emit_insn es fn i = (case ii_op i of
     IR_JMP \<Rightarrow> Some ([Branch ''bra'' (es_prefix es) (ii_label i)], es)
   | IR_BZ \<Rightarrow> do { l \<leftarrow> emit_branch es fn i ''beq''; Some (l, es) }
   | IR_BNZ \<Rightarrow> do { l \<leftarrow> emit_branch es fn i ''bne''; Some (l, es) }
   | IR_LABEL \<Rightarrow> Some ([Label (es_prefix es) (ii_label i)], es)
   | IR_ARG \<Rightarrow>
       if 16 \<le> length (es_args es) then None
       else Some ([], es\<lparr>es_args := es_args es @ [ii_a i]\<rparr>)
   | IR_CALL \<Rightarrow> emit_call_flush es fn i False
   | IR_CALLI \<Rightarrow> emit_call_flush es fn i True
   | IR_RET \<Rightarrow> Some (emit_epilogue, es)
   | IR_RETV \<Rightarrow> do {
       (sa, la) \<leftarrow> rs fn (ii_a i) 0;
       Some (la @ (if sa \<noteq> 0 then [Move ''l'' (Dn sa) (Dn 0)] else []) @ emit_epilogue, es) }
   | IR_MARK \<Rightarrow> do { l \<leftarrow> emit_mark es fn i; Some (l, es) }
   | IR_CAPTURE \<Rightarrow> do {
       result \<leftarrow> result_from_d0 fn i;
       Some ([Movem_push, Jsr (Sym ''__cont_capture''), Movem_pop] @ result, es) }
   | IR_RESUME \<Rightarrow> do {
       (sa, la) \<leftarrow> rs fn (ii_a i) 0;
       (sb, lb) \<leftarrow> rs fn (ii_b i) 1;
       Some (la @ lb @ [Move ''l'' (Dn sb) Push, Move ''l'' (Dn sa) Push, Jsr (Sym ''__cont_resume'')], es) }
   | _ \<Rightarrow> do { l \<leftarrow> emit_simple fn i; Some (l, es) })"

section \<open>Functions, globals, programs\<close>

fun emit_body :: "emit_st \<Rightarrow> ir_func \<Rightarrow> ir_insn list \<Rightarrow> (asm list \<times> emit_st) option" where
  "emit_body es fn [] = Some ([], es)"
| "emit_body es fn (i # is) = do {
     (l, es') \<leftarrow> emit_insn es fn i;
     (rest, es'') \<leftarrow> emit_body es' fn is;
     Some (l @ rest, es'') }"

definition last_op :: "ir_insn list \<Rightarrow> ir_op option" where
  "last_op is = (case filter (\<lambda>i. ii_op i \<notin> {IR_FUNC, IR_ENDF, IR_LABEL}) is of
     [] \<Rightarrow> None | js \<Rightarrow> Some (ii_op (last js)))"

definition emit_function :: "emit_st \<Rightarrow> ir_func \<Rightarrow> (asm list \<times> emit_st) option" where
  "emit_function es fn = do {
     let es1 = es\<lparr>es_args := [], es_serial := es_serial es + 1, es_prefix := es_serial es + 1\<rparr>;
     prologue \<leftarrow> emit_prologue fn;
     (body, es2) \<leftarrow> emit_body es1 fn (fn_insns fn);
     let ending = (if last_op (fn_insns fn) \<in> {Some IR_RET, Some IR_RETV} then [] else emit_epilogue);
     Some (Func_header (fn_name fn) # prologue @ body @ ending, es2) }"

datatype ir_basetype = IR_I32 | IR_I8

record ir_global =
  gl_name :: string
  gl_base_type :: ir_basetype
  gl_arr_size :: int
  gl_init_ivals :: "int list"
  gl_init_string :: "u8 list option"

text \<open>\<open>init_count\<close> and \<open>init_strlen\<close> are the lengths of the two lists.\<close>

definition emit_global :: "ir_global \<Rightarrow> asm list" where
  "emit_global g =
    (let elsz = (if gl_base_type g = IR_I8 \<and> 0 < gl_arr_size g then 1 else 4);
         count = int (length (gl_init_ivals g)) in
     Global_header (gl_name g) #
     (case gl_init_string g of
        Some cs \<Rightarrow> [Ascii cs]
      | None \<Rightarrow>
          if 0 < count
          then map (\<lambda>n. if elsz = 1 then Byte n else Long n) (gl_init_ivals g) @
            (if count < gl_arr_size g then [Space ((gl_arr_size g - count) * elsz)] else [])
          else [Space (if 0 < gl_arr_size g then gl_arr_size g * elsz else 4)]))"

definition emit_globals :: "ir_global list \<Rightarrow> asm list" where
  "emit_globals gs = Data_header # concat (map emit_global gs)"

fun emit_functions :: "emit_st \<Rightarrow> ir_func list \<Rightarrow> (asm list \<times> emit_st) option" where
  "emit_functions es [] = Some ([], es)"
| "emit_functions es (fn # fns) = do {
     (l, es') \<leftarrow> emit_function es fn;
     (rest, es'') \<leftarrow> emit_functions es' fns;
     Some (l @ rest, es'') }"

definition cf_emit :: "emit_st \<Rightarrow> ir_func list \<Rightarrow> ir_global list \<Rightarrow> (string \<times> emit_st) option" where
  "cf_emit es funcs globals = do {
     (l, es') \<leftarrow> emit_functions es funcs;
     Some (concat (map print_asm (Header # l @ emit_globals globals)), es') }"

end
