(* ===== verification/Pc_Target.thy ===== *)
theory Pc_Target
  imports Pc_Emit
begin

text \<open>
  The two machines the back end translates between. The meaning of the straight-line part of the
  intermediate representation is that of the C operators it comes from, on 32-bit words. The target is
  the documented behaviour of the m68k instructions that \<open>cf_emit\<close> prints: data registers, the address
  registers it uses, big-endian memory, and the condition codes of a comparison. Both are partial: an
  operation without a meaning (division by zero, a shift by 32 or more, an access outside the memory the
  program may touch) is \<open>None\<close>.
\<close>

section \<open>Big-endian memory\<close>

type_synonym bytes = "u32 \<Rightarrow> u8"

definition load16 :: "bytes \<Rightarrow> u32 \<Rightarrow> u32" where
  "load16 mem a = push_bit 8 (ucast (mem a)) OR ucast (mem (a + 1))"

definition load32 :: "bytes \<Rightarrow> u32 \<Rightarrow> u32" where
  "load32 mem a = push_bit 24 (ucast (mem a)) OR push_bit 16 (ucast (mem (a + 1))) OR
     push_bit 8 (ucast (mem (a + 2))) OR ucast (mem (a + 3))"

definition store8 :: "bytes \<Rightarrow> u32 \<Rightarrow> u32 \<Rightarrow> bytes" where
  "store8 mem a v = mem(a := ucast v)"

definition store16 :: "bytes \<Rightarrow> u32 \<Rightarrow> u32 \<Rightarrow> bytes" where
  "store16 mem a v = mem(a := ucast (drop_bit 8 v), a + 1 := ucast v)"

definition store32 :: "bytes \<Rightarrow> u32 \<Rightarrow> u32 \<Rightarrow> bytes" where
  "store32 mem a v = mem(a := ucast (drop_bit 24 v), a + 1 := ucast (drop_bit 16 v),
     a + 2 := ucast (drop_bit 8 v), a + 3 := ucast v)"

text \<open>What the names of a program and the memory it may touch are is the business of the linker and of
  the program.\<close>

record env =
  e_sym :: "string \<Rightarrow> u32"
  e_fp :: u32
  e_ok :: "u32 \<Rightarrow> bool"

section \<open>Operators\<close>

definition sext_byte :: "u32 \<Rightarrow> u32" where
  "sext_byte v = scast (ucast v :: u8)"

definition sext_half :: "u32 \<Rightarrow> u32" where
  "sext_half v = scast (ucast v :: u16)"

definition c_sdiv :: "u32 \<Rightarrow> u32 \<Rightarrow> u32" where
  "c_sdiv a b = word_of_int (sint a sdiv sint b)"

definition c_smod :: "u32 \<Rightarrow> u32 \<Rightarrow> u32" where
  "c_smod a b = word_of_int (sint a smod sint b)"

fun ir_binop :: "ir_op \<Rightarrow> u32 \<Rightarrow> u32 \<Rightarrow> u32 option" where
  "ir_binop IR_ADD a b = Some (a + b)"
| "ir_binop IR_SUB a b = Some (a - b)"
| "ir_binop IR_MUL a b = Some (a * b)"
| "ir_binop IR_AND a b = Some (a AND b)"
| "ir_binop IR_OR a b = Some (a OR b)"
| "ir_binop IR_XOR a b = Some (a XOR b)"
| "ir_binop IR_SHL a b = (if b < 32 then Some (push_bit (unat b) a) else None)"
| "ir_binop IR_SHRS a b = (if b < 32 then Some (signed_drop_bit (unat b) a) else None)"
| "ir_binop IR_SHRU a b = (if b < 32 then Some (drop_bit (unat b) a) else None)"
| "ir_binop IR_DIVS a b = (if b = 0 then None else Some (c_sdiv a b))"
| "ir_binop IR_DIVU a b = (if b = 0 then None else Some (a div b))"
| "ir_binop IR_MODS a b = (if b = 0 then None else Some (c_smod a b))"
| "ir_binop IR_MODU a b = (if b = 0 then None else Some (a mod b))"
| "ir_binop IR_CMPEQ a b = Some (c_bool (a = b))"
| "ir_binop IR_CMPNE a b = Some (c_bool (a \<noteq> b))"
| "ir_binop IR_CMPLTS a b = Some (c_bool (sint a < sint b))"
| "ir_binop IR_CMPLES a b = Some (c_bool (sint a \<le> sint b))"
| "ir_binop IR_CMPGTS a b = Some (c_bool (sint b < sint a))"
| "ir_binop IR_CMPGES a b = Some (c_bool (sint b \<le> sint a))"
| "ir_binop IR_CMPLTU a b = Some (c_bool (a < b))"
| "ir_binop IR_CMPLEU a b = Some (c_bool (a \<le> b))"
| "ir_binop IR_CMPGTU a b = Some (c_bool (b < a))"
| "ir_binop IR_CMPGEU a b = Some (c_bool (b \<le> a))"
| "ir_binop _ a b = None"

fun ir_unop :: "ir_op \<Rightarrow> u32 \<Rightarrow> u32 option" where
  "ir_unop IR_MOV a = Some a"
| "ir_unop IR_NEG a = Some (- a)"
| "ir_unop IR_NOT a = Some (NOT a)"
| "ir_unop _ a = None"

section \<open>The intermediate representation\<close>

record ir_state =
  i_temp :: "int \<Rightarrow> u32"
  i_mem :: bytes

definition span_ok :: "env \<Rightarrow> u32 \<Rightarrow> nat \<Rightarrow> bool" where
  "span_ok env a n \<longleftrightarrow> (\<forall>j<n. e_ok env (a + of_nat j))"

fun ir_load :: "env \<Rightarrow> ir_op \<Rightarrow> bytes \<Rightarrow> u32 \<Rightarrow> u32 option" where
  "ir_load env IR_LB mem a = (if span_ok env a 1 then Some (ucast (mem a)) else None)"
| "ir_load env IR_LBS mem a = (if span_ok env a 1 then Some (scast (mem a)) else None)"
| "ir_load env IR_LH mem a = (if span_ok env a 2 then Some (load16 mem a) else None)"
| "ir_load env IR_LHS mem a = (if span_ok env a 2 then Some (sext_half (load16 mem a)) else None)"
| "ir_load env IR_LW mem a = (if span_ok env a 4 then Some (load32 mem a) else None)"
| "ir_load env _ mem a = None"

fun ir_store :: "env \<Rightarrow> ir_op \<Rightarrow> bytes \<Rightarrow> u32 \<Rightarrow> u32 \<Rightarrow> bytes option" where
  "ir_store env IR_SB mem a v = (if span_ok env a 1 then Some (store8 mem a v) else None)"
| "ir_store env IR_SH mem a v = (if span_ok env a 2 then Some (store16 mem a v) else None)"
| "ir_store env IR_SW mem a v = (if span_ok env a 4 then Some (store32 mem a v) else None)"
| "ir_store env _ mem a v = None"

definition slot_addr :: "env \<Rightarrow> ir_func \<Rightarrow> int \<Rightarrow> u32 option" where
  "slot_addr env fn slot = do { off \<leftarrow> slot_offset fn slot; Some (e_fp env + word_of_int off) }"

definition set_temp :: "ir_insn \<Rightarrow> u32 \<Rightarrow> ir_state \<Rightarrow> ir_state" where
  "set_temp i v st = st\<lparr>i_temp := (i_temp st)(ii_dst i := v)\<rparr>"

definition ir_step :: "env \<Rightarrow> ir_func \<Rightarrow> ir_insn \<Rightarrow> ir_state \<Rightarrow> ir_state option" where
  "ir_step env fn i st =
    (let a = i_temp st (ii_a i); b = i_temp st (ii_b i); op = ii_op i in
     if op \<in> {IR_NOP, IR_FUNC, IR_ENDF} then Some st
     else if op = IR_LIC then Some (set_temp i (word_of_int (ii_imm i)) st)
     else if op = IR_LEA then Some (set_temp i (e_sym env (ii_sym i)) st)
     else if op = IR_ADL then do { x \<leftarrow> slot_addr env fn (ii_slot i); Some (set_temp i x st) }
     else if op = IR_LDL then do {
       x \<leftarrow> slot_addr env fn (ii_slot i);
       v \<leftarrow> ir_load env IR_LW (i_mem st) x;
       Some (set_temp i v st) }
     else if op = IR_STL then do {
       x \<leftarrow> slot_addr env fn (ii_slot i);
       mem \<leftarrow> ir_store env IR_SW (i_mem st) x a;
       Some (st\<lparr>i_mem := mem\<rparr>) }
     else if op \<in> {IR_MOV, IR_NEG, IR_NOT} then do { v \<leftarrow> ir_unop op a; Some (set_temp i v st) }
     else if op \<in> {IR_LB, IR_LBS, IR_LH, IR_LHS, IR_LW} then do {
       v \<leftarrow> ir_load env op (i_mem st) a; Some (set_temp i v st) }
     else if op \<in> {IR_SB, IR_SH, IR_SW} then do {
       mem \<leftarrow> ir_store env op (i_mem st) a b; Some (st\<lparr>i_mem := mem\<rparr>) }
     else do { v \<leftarrow> ir_binop op a b; Some (set_temp i v st) })"

fun ir_run :: "env \<Rightarrow> ir_func \<Rightarrow> ir_insn list \<Rightarrow> ir_state \<Rightarrow> ir_state option" where
  "ir_run env fn [] st = Some st"
| "ir_run env fn (i # is) st = do { st' \<leftarrow> ir_step env fn i st; ir_run env fn is st' }"

section \<open>The target\<close>

record mach =
  m_d :: "nat \<Rightarrow> u32"
  m_a0 :: u32
  m_fp :: u32
  m_sp :: u32
  m_mem :: bytes
  m_cc :: "(u32 \<times> u32) option"
  m_ret :: "u32 option"

text \<open>
  \<open>m_cc\<close> holds the operands of the last comparison. Every other instruction also sets the condition
  codes; nothing the back end prints reads them then, so they are unknown. \<open>m_ret\<close> is the address
  the function returned to, once it has.
\<close>

definition cc_N :: "u32 \<Rightarrow> u32 \<Rightarrow> bool" where "cc_N s d \<longleftrightarrow> bit (d - s) 31"
definition cc_Z :: "u32 \<Rightarrow> u32 \<Rightarrow> bool" where "cc_Z s d \<longleftrightarrow> d - s = 0"
definition cc_C :: "u32 \<Rightarrow> u32 \<Rightarrow> bool" where "cc_C s d \<longleftrightarrow> d < s"
definition cc_V :: "u32 \<Rightarrow> u32 \<Rightarrow> bool" where
  "cc_V s d \<longleftrightarrow> bit d 31 \<noteq> bit s 31 \<and> bit (d - s) 31 \<noteq> bit d 31"

definition scc_holds :: "string \<Rightarrow> u32 \<Rightarrow> u32 \<Rightarrow> bool option" where
  "scc_holds m s d =
    (if m = ''seq'' then Some (cc_Z s d)
     else if m = ''sne'' then Some (\<not> cc_Z s d)
     else if m = ''slt'' then Some (cc_N s d \<noteq> cc_V s d)
     else if m = ''sle'' then Some (cc_Z s d \<or> cc_N s d \<noteq> cc_V s d)
     else if m = ''sgt'' then Some (\<not> cc_Z s d \<and> cc_N s d = cc_V s d)
     else if m = ''sge'' then Some (cc_N s d = cc_V s d)
     else if m = ''scs'' then Some (cc_C s d)
     else if m = ''sls'' then Some (cc_C s d \<or> cc_Z s d)
     else if m = ''shi'' then Some (\<not> cc_C s d \<and> \<not> cc_Z s d)
     else if m = ''scc'' then Some (\<not> cc_C s d)
     else None)"

definition low_byte :: "u32 \<Rightarrow> u32 \<Rightarrow> u32" where
  "low_byte d v = (d AND 0xFFFFFF00) OR (v AND 0xFF)"

definition low_half :: "u32 \<Rightarrow> u32 \<Rightarrow> u32" where
  "low_half d v = (d AND 0xFFFF0000) OR (v AND 0xFFFF)"

definition alu :: "string \<Rightarrow> u32 \<Rightarrow> u32 \<Rightarrow> u32 option" where
  "alu m s d =
    (if m = ''add.l'' then Some (d + s)
     else if m = ''sub.l'' then Some (d - s)
     else if m = ''muls.l'' then Some (d * s)
     else if m = ''and.l'' then Some (d AND s)
     else if m = ''or.l'' then Some (d OR s)
     else if m = ''eor.l'' then Some (d XOR s)
     else if m = ''lsl.l'' then Some (push_bit (unat (s AND 63)) d)
     else if m = ''asr.l'' then Some (signed_drop_bit (unat (s AND 63)) d)
     else if m = ''lsr.l'' then Some (drop_bit (unat (s AND 63)) d)
     else if m = ''divs.l'' then if s = 0 then None else Some (c_sdiv d s)
     else if m = ''divu.l'' then if s = 0 then None else Some (d div s)
     else None)"

definition una :: "string \<Rightarrow> (u32 \<times> u32) option \<Rightarrow> u32 \<Rightarrow> u32 option" where
  "una m cc d =
    (if m = ''neg.l'' then Some (- d)
     else if m = ''not.l'' then Some (NOT d)
     else if m = ''ext.w'' then Some (low_half d (sext_byte d))
     else if m = ''ext.l'' then Some (sext_half d)
     else if m = ''neg.b'' then Some (low_byte d (- d))
     else do { (s, x) \<leftarrow> cc; h \<leftarrow> scc_holds m s x; Some (low_byte d (if h then 0xFF else 0)) })"

definition set_d :: "nat \<Rightarrow> u32 \<Rightarrow> mach \<Rightarrow> mach" where
  "set_d r v m = m\<lparr>m_d := (m_d m)(r := v), m_cc := None\<rparr>"

definition fetch :: "ea \<Rightarrow> mach \<Rightarrow> (u32 \<times> mach) option" where
  "fetch e m = (case e of
     Dn r \<Rightarrow> Some (m_d m r, m)
   | An \<Rightarrow> Some (m_a0 m, m)
   | Ind \<Rightarrow> Some (load32 (m_mem m) (m_a0 m), m)
   | Fp_at off \<Rightarrow> Some (load32 (m_mem m) (m_fp m + word_of_int off), m)
   | Pop \<Rightarrow> Some (load32 (m_mem m) (m_sp m), m\<lparr>m_sp := m_sp m + 4\<rparr>)
   | Num n \<Rightarrow> Some (word_of_int n, m)
   | _ \<Rightarrow> None)"

definition put :: "ea \<Rightarrow> u32 \<Rightarrow> mach \<Rightarrow> mach option" where
  "put e v m = (case e of
     Dn r \<Rightarrow> Some (set_d r v m)
   | Ind \<Rightarrow> Some (m\<lparr>m_mem := store32 (m_mem m) (m_a0 m) v, m_cc := None\<rparr>)
   | Fp_at off \<Rightarrow> Some (m\<lparr>m_mem := store32 (m_mem m) (m_fp m + word_of_int off) v, m_cc := None\<rparr>)
   | Push \<Rightarrow> Some (m\<lparr>m_mem := store32 (m_mem m) (m_sp m - 4) v, m_sp := m_sp m - 4, m_cc := None\<rparr>)
   | _ \<Rightarrow> None)"

definition move_part :: "string \<Rightarrow> ea \<Rightarrow> ea \<Rightarrow> mach \<Rightarrow> mach option" where
  "move_part sz s d m = (case (s, d) of
     (Ind, Dn r) \<Rightarrow>
       if sz = ''b'' then Some (set_d r (low_byte (m_d m r) (ucast (m_mem m (m_a0 m)))) m)
       else if sz = ''w'' then Some (set_d r (low_half (m_d m r) (load16 (m_mem m) (m_a0 m))) m)
       else None
   | (Dn r, Ind) \<Rightarrow>
       if sz = ''b'' then Some (m\<lparr>m_mem := store8 (m_mem m) (m_a0 m) (m_d m r), m_cc := None\<rparr>)
       else if sz = ''w'' then Some (m\<lparr>m_mem := store16 (m_mem m) (m_a0 m) (m_d m r), m_cc := None\<rparr>)
       else None
   | _ \<Rightarrow> None)"

definition saved_regs :: "nat list" where
  "saved_regs = [2..<8]"

fun store_regs :: "bytes \<Rightarrow> u32 \<Rightarrow> u32 list \<Rightarrow> bytes" where
  "store_regs mem a [] = mem"
| "store_regs mem a (v # vs) = store_regs (store32 mem a v) (a + 4) vs"

definition exec_asm :: "env \<Rightarrow> asm \<Rightarrow> mach \<Rightarrow> mach option" where
  "exec_asm env x m = (case x of
     Move sz s d \<Rightarrow> if sz = ''l'' then do { (v, m') \<leftarrow> fetch s m; put d v m' } else move_part sz s d m
   | Movea r \<Rightarrow> Some (m\<lparr>m_a0 := m_d m r\<rparr>)
   | Moveq n r \<Rightarrow> Some (set_d r (word_of_int n) m)
   | Alu mn s d \<Rightarrow> do { v \<leftarrow> alu mn (m_d m s) (m_d m d); Some (set_d d v m) }
   | Una mn d \<Rightarrow> do {
       v \<leftarrow> una mn (m_cc m) (m_d m d);
       Some (m\<lparr>m_d := (m_d m)(d := v), m_cc := (if hd mn = CHR ''s'' then m_cc m else None)\<rparr>) }
   | Cmp s d \<Rightarrow> Some (m\<lparr>m_cc := Some (m_d m s, m_d m d)\<rparr>)
   | Lea e \<Rightarrow> (case e of
       Sym s \<Rightarrow> Some (m\<lparr>m_a0 := e_sym env s\<rparr>)
     | Fp_at off \<Rightarrow> Some (m\<lparr>m_a0 := m_fp m + word_of_int off\<rparr>)
     | _ \<Rightarrow> None)
   | Link n \<Rightarrow> Some (m\<lparr>m_mem := store32 (m_mem m) (m_sp m - 4) (m_fp m), m_fp := m_sp m - 4,
       m_sp := m_sp m - 4 + word_of_int n\<rparr>)
   | Movem_push \<Rightarrow> Some (m\<lparr>m_mem := store_regs (m_mem m) (m_sp m - 24) (map (m_d m) saved_regs),
       m_sp := m_sp m - 24\<rparr>)
   | Movem_pop \<Rightarrow> Some (m\<lparr>m_d := (\<lambda>r. if r \<in> set saved_regs
         then load32 (m_mem m) (m_sp m + 4 * of_nat (r - 2)) else m_d m r), m_sp := m_sp m + 24\<rparr>)
   | Unlk \<Rightarrow> Some (m\<lparr>m_sp := m_fp m + 4, m_fp := load32 (m_mem m) (m_fp m)\<rparr>)
   | Rts \<Rightarrow> Some (m\<lparr>m_ret := Some (load32 (m_mem m) (m_sp m)), m_sp := m_sp m + 4\<rparr>)
   | _ \<Rightarrow> None)"

fun exec_list :: "env \<Rightarrow> asm list \<Rightarrow> mach \<Rightarrow> mach option" where
  "exec_list env [] m = Some m"
| "exec_list env (x # xs) m =
    (if m_ret m \<noteq> None then Some m else do { m' \<leftarrow> exec_asm env x m; exec_list env xs m' })"

end
