(* ===== verification/Pc_Alloc.thy ===== *)
theory Pc_Alloc
  imports Pc_Regalloc
begin

text \<open>
  Correctness of the register allocator: the scan is total, temporaries whose lifetimes meet never share
  a register or a spill slot, and nothing is spilled unless more than six temporaries are live at once.
\<close>

section \<open>The invariant of the scan\<close>

text \<open>
  \<open>js\<close> is the sorted array before the scan and \<open>p\<close> the number of intervals placed. The scan changes
  only the places of intervals. The active intervals hold different registers, the pool offers the
  others, and the active array is ordered by end. An interval with a register that is not active ended
  before every interval still to come.
\<close>

definition same_shape :: "interval list \<Rightarrow> interval list \<Rightarrow> bool" where
  "same_shape js ivs \<longleftrightarrow> length ivs = length js \<and>
    (\<forall>i<length js. iv_temp (ivs ! i) = iv_temp (js ! i) \<and> iv_start (ivs ! i) = iv_start (js ! i) \<and>
       iv_end (ivs ! i) = iv_end (js ! i))"

definition in_reg :: "interval \<Rightarrow> bool" where
  "in_reg iv \<longleftrightarrow> FIRST_REG \<le> iv_reg iv \<and> iv_reg iv < FIRST_REG + int NUM_REGS \<and> iv_spill iv = - 1"

definition in_slot :: "int \<Rightarrow> interval \<Rightarrow> bool" where
  "in_slot ns iv \<longleftrightarrow> iv_reg iv = - 1 \<and> (\<exists>k. 0 \<le> k \<and> k < ns \<and> iv_spill iv = 4 * k)"

definition meet :: "interval \<Rightarrow> interval \<Rightarrow> bool" where
  "meet a b \<longleftrightarrow> iv_start a \<le> iv_end b \<and> iv_start b \<le> iv_end a"

definition pressure :: "interval list \<Rightarrow> bool" where
  "pressure js \<longleftrightarrow> (\<exists>q. NUM_REGS < card {i. i < length js \<and> iv_start (js ! i) \<le> q \<and> q \<le> iv_end (js ! i)})"

definition active_ok :: "interval list \<Rightarrow> nat list \<Rightarrow> bool list \<Rightarrow> bool" where
  "active_ok ivs act pool \<longleftrightarrow>
     distinct act \<and> (\<forall>r\<in>set act. in_reg (ivs ! r)) \<and> inj_on (\<lambda>r. iv_reg (ivs ! r)) (set act) \<and>
     sorted (map (\<lambda>r. iv_end (ivs ! r)) act) \<and> length pool = NUM_REGS \<and>
     (\<forall>k<NUM_REGS. pool ! k \<longleftrightarrow> (\<forall>r\<in>set act. iv_reg (ivs ! r) \<noteq> int k + FIRST_REG))"

definition places_legal :: "nat \<Rightarrow> interval list \<Rightarrow> int \<Rightarrow> bool" where
  "places_legal p ivs ns \<longleftrightarrow> (\<forall>i<p. in_reg (ivs ! i) \<or> in_slot ns (ivs ! i))"

definition regs_apart :: "nat \<Rightarrow> interval list \<Rightarrow> bool" where
  "regs_apart p ivs \<longleftrightarrow> (\<forall>i<p. \<forall>j<p. i \<noteq> j \<longrightarrow> meet (ivs ! i) (ivs ! j) \<longrightarrow>
     iv_reg (ivs ! i) = iv_reg (ivs ! j) \<longrightarrow> iv_reg (ivs ! i) = - 1)"

definition slots_apart :: "nat \<Rightarrow> interval list \<Rightarrow> bool" where
  "slots_apart p ivs \<longleftrightarrow> (\<forall>i<p. \<forall>j<p. i \<noteq> j \<longrightarrow> iv_reg (ivs ! i) = - 1 \<longrightarrow>
     iv_reg (ivs ! j) = - 1 \<longrightarrow> iv_spill (ivs ! i) \<noteq> iv_spill (ivs ! j))"

definition rest_ended :: "nat \<Rightarrow> interval list \<Rightarrow> nat list \<Rightarrow> bool" where
  "rest_ended p ivs act \<longleftrightarrow> (\<forall>i<p. \<forall>q<length ivs. i \<notin> set act \<longrightarrow> iv_reg (ivs ! i) \<noteq> - 1 \<longrightarrow>
     p \<le> q \<longrightarrow> iv_end (ivs ! i) < iv_start (ivs ! q))"

definition unplaced :: "nat \<Rightarrow> interval list \<Rightarrow> bool" where
  "unplaced p ivs \<longleftrightarrow> (\<forall>q<length ivs. p \<le> q \<longrightarrow> iv_reg (ivs ! q) = - 1 \<and> iv_spill (ivs ! q) = - 1)"

definition alloc_inv :: "interval list \<Rightarrow> nat \<Rightarrow> lsra \<Rightarrow> bool" where
  "alloc_inv js p st \<longleftrightarrow>
     same_shape js (ra_ivs st) \<and> p \<le> length js \<and> set (ra_active st) \<subseteq> {..<p} \<and>
     active_ok (ra_ivs st) (ra_active st) (ra_pool st) \<and>
     places_legal p (ra_ivs st) (ra_nspills st) \<and> regs_apart p (ra_ivs st) \<and>
     slots_apart p (ra_ivs st) \<and> rest_ended p (ra_ivs st) (ra_active st) \<and> unplaced p (ra_ivs st) \<and>
     0 \<le> ra_nspills st \<and> (ra_nspills st = 0 \<or> pressure js)"

definition ordered :: "interval list \<Rightarrow> bool" where
  "ordered js \<longleftrightarrow> sorted (map iv_start js) \<and> (\<forall>iv\<in>set js. iv_start iv \<le> iv_end iv)"

section \<open>Expiry\<close>

lemma reg_index:
  assumes "in_reg iv"
  shows "0 \<le> iv_reg iv - FIRST_REG \<and> iv_reg iv - FIRST_REG < int NUM_REGS"
  using assms by (simp add: in_reg_def)

lemma expire_result:
  assumes "\<forall>r\<in>set act. in_reg (ivs ! r)" "length pool = NUM_REGS"
  shows "\<exists>pool'. expire ivs s act pool = Some (filter (\<lambda>r. s \<le> iv_end (ivs ! r)) act, pool') \<and>
    length pool' = NUM_REGS \<and>
    (\<forall>k<NUM_REGS. pool' ! k \<longleftrightarrow>
       pool ! k \<or> (\<exists>r\<in>set act. iv_end (ivs ! r) < s \<and> iv_reg (ivs ! r) = int k + FIRST_REG))"
  using assms
proof (induction act arbitrary: pool)
  case Nil
  then show ?case by simp
next
  case (Cons r act)
  have k: "0 \<le> iv_reg (ivs ! r) - FIRST_REG" "iv_reg (ivs ! r) - FIRST_REG < int NUM_REGS"
    using Cons.prems(1) reg_index by auto
  show ?case
  proof (cases "iv_end (ivs ! r) < s")
    case True
    have "length (pool[nat (iv_reg (ivs ! r) - FIRST_REG) := True]) = NUM_REGS"
      using Cons.prems(2) by simp
    from Cons.IH [OF _ this] Cons.prems(1) True k Cons.prems(2)
    show ?thesis by (auto simp: Let_def nth_list_update)
  next
    case False
    with Cons.IH [OF _ Cons.prems(2)] Cons.prems(1) show ?thesis by fastforce
  qed
qed

lemma expire_active_ok:
  assumes ok: "active_ok ivs act pool"
  obtains pool' where "expire ivs s act pool = Some (filter (\<lambda>r. s \<le> iv_end (ivs ! r)) act, pool')"
    and "active_ok ivs (filter (\<lambda>r. s \<le> iv_end (ivs ! r)) act) pool'"
proof -
  have a: "\<forall>r\<in>set act. in_reg (ivs ! r)" "length pool = NUM_REGS"
    using ok by (simp_all add: active_ok_def)
  obtain pool' where e: "expire ivs s act pool = Some (filter (\<lambda>r. s \<le> iv_end (ivs ! r)) act, pool')"
    and l: "length pool' = NUM_REGS"
    and p: "\<forall>k<NUM_REGS. pool' ! k \<longleftrightarrow>
       pool ! k \<or> (\<exists>r\<in>set act. iv_end (ivs ! r) < s \<and> iv_reg (ivs ! r) = int k + FIRST_REG)"
    using expire_result [OF a, of s] by blast
  have inj: "r = r'" if "r \<in> set act" "r' \<in> set act" "iv_reg (ivs ! r) = iv_reg (ivs ! r')" for r r'
    using ok that by (auto simp: active_ok_def inj_on_def)
  have "pool' ! k \<longleftrightarrow>
      (\<forall>r\<in>set (filter (\<lambda>r. s \<le> iv_end (ivs ! r)) act). iv_reg (ivs ! r) \<noteq> int k + FIRST_REG)"
    if k: "k < NUM_REGS" for k
  proof -
    have "pool ! k \<longleftrightarrow> (\<forall>r\<in>set act. iv_reg (ivs ! r) \<noteq> int k + FIRST_REG)"
      using ok k by (simp add: active_ok_def)
    with p k have "pool' ! k \<longleftrightarrow> (\<forall>r\<in>set act. iv_reg (ivs ! r) \<noteq> int k + FIRST_REG) \<or>
       (\<exists>r\<in>set act. iv_end (ivs ! r) < s \<and> iv_reg (ivs ! r) = int k + FIRST_REG)"
      by simp
    then show ?thesis by (simp add: not_le) (metis inj linorder_not_less)
  qed
  then have "active_ok ivs (filter (\<lambda>r. s \<le> iv_end (ivs ! r)) act) pool'"
    using ok l by (auto simp: active_ok_def inj_on_def intro: sorted_filter)
  with e that show ?thesis by blast
qed


lemma start_mono:
  assumes "ordered js" "same_shape js ivs" "i \<le> j" "j < length js"
  shows "iv_start (ivs ! i) \<le> iv_start (ivs ! j)"
  using assms sorted_nth_mono [of "map iv_start js" i j] by (simp add: ordered_def same_shape_def)

lemma expire_inv:
  assumes inv: "alloc_inv js p st" and p: "p < length js" and ord: "ordered js"
  obtains act pool where
    "expire (ra_ivs st) (iv_start (ra_ivs st ! p)) (ra_active st) (ra_pool st) = Some (act, pool)"
    "alloc_inv js p (st\<lparr>ra_active := act, ra_pool := pool\<rparr>)"
    "\<forall>r\<in>set act. iv_start (ra_ivs st ! p) \<le> iv_end (ra_ivs st ! r)"
proof -
  define s where "s = iv_start (ra_ivs st ! p)"
  define act where "act = filter (\<lambda>r. s \<le> iv_end (ra_ivs st ! r)) (ra_active st)"
  obtain pool where e: "expire (ra_ivs st) s (ra_active st) (ra_pool st) = Some (act, pool)"
    and ok: "active_ok (ra_ivs st) act pool"
    using inv expire_active_ok [of "ra_ivs st" "ra_active st" "ra_pool st" s]
    by (auto simp: alloc_inv_def act_def)
  have sh: "same_shape js (ra_ivs st)" and len: "length (ra_ivs st) = length js"
    using inv by (simp_all add: alloc_inv_def same_shape_def)
  have "s \<le> iv_start (ra_ivs st ! q)" if "q < length (ra_ivs st)" "p \<le> q" for q
    using start_mono [OF ord sh that(2)] that(1) len by (simp add: s_def)
  moreover have "iv_end (ra_ivs st ! i) < s" if "i \<in> set (ra_active st)" "i \<notin> set act" for i
    using that by (simp add: act_def)
  ultimately have old: "iv_end (ra_ivs st ! i) < iv_start (ra_ivs st ! q)"
    if "i \<in> set (ra_active st)" "i \<notin> set act" "q < length (ra_ivs st)" "p \<le> q" for i q
    using that by (meson less_le_trans)
  have "rest_ended p (ra_ivs st) (ra_active st)"
    using inv by (simp add: alloc_inv_def)
  then have "rest_ended p (ra_ivs st) act"
    using old by (auto simp: rest_ended_def)
  then have "alloc_inv js p (st\<lparr>ra_active := act, ra_pool := pool\<rparr>)"
    using inv ok by (auto simp: alloc_inv_def act_def)
  moreover have "\<forall>r\<in>set act. iv_start (ra_ivs st ! p) \<le> iv_end (ra_ivs st ! r)"
    by (simp add: act_def s_def)
  ultimately show ?thesis using e that unfolding s_def by blast
qed

section \<open>Insertion\<close>

lemma dropWhile_above:
  assumes "sorted (map f xs)" "x \<in> set (dropWhile (\<lambda>r. \<not> c < f r) xs)"
  shows "(c::int) < f x"
  using assms by (induction xs) (force split: if_splits)+

lemma insert_active_result:
  assumes "sorted (map (\<lambda>r. iv_end (ivs ! r)) act)" "length act \<le> NUM_REGS"
  obtains act' where "insert_active ivs p act = Some act'" "mset act' = add_mset p (mset act)"
    "sorted (map (\<lambda>r. iv_end (ivs ! r)) act')"
proof -
  let ?P = "\<lambda>r. \<not> iv_end (ivs ! p) < iv_end (ivs ! r)"
  let ?act = "takeWhile ?P act @ p # dropWhile ?P act"
  have "insert_active ivs p act = Some ?act"
    using assms(2) by (simp add: insert_active_def Let_def takeWhile_eq_take [symmetric] dropWhile_eq_drop [symmetric])
  moreover have "mset ?act = add_mset p (mset act)"
    by (metis mset_append add_mset_add_single mset.simps(2) takeWhile_dropWhile_id union_mset_add_mset_right)
  moreover have "sorted (map (\<lambda>r. iv_end (ivs ! r)) ?act)"
  proof -
    have "sorted (map (\<lambda>r. iv_end (ivs ! r)) (takeWhile ?P act @ dropWhile ?P act))"
      using assms(1) by simp
    then have "sorted (map (\<lambda>r. iv_end (ivs ! r)) (takeWhile ?P act))"
      "sorted (map (\<lambda>r. iv_end (ivs ! r)) (dropWhile ?P act))"
      by (simp_all only: map_append sorted_append)
    moreover have "iv_end (ivs ! x) \<le> iv_end (ivs ! p)" if "x \<in> set (takeWhile ?P act)" for x
      using set_takeWhileD [OF that] by simp
    moreover have "iv_end (ivs ! p) \<le> iv_end (ivs ! x)" if "x \<in> set (dropWhile ?P act)" for x
      using dropWhile_above [OF assms(1) that] by simp
    ultimately show ?thesis
      by (simp add: sorted_append) (blast intro: order.trans)
  qed
  ultimately show ?thesis using that by blast
qed

section \<open>Placing one interval\<close>

lemma active_le:
  assumes "active_ok ivs act pool"
  shows "length act \<le> NUM_REGS"
proof -
  have "(\<lambda>r. iv_reg (ivs ! r)) ` set act \<subseteq> {FIRST_REG..<FIRST_REG + int NUM_REGS}"
    using assms by (auto simp: active_ok_def in_reg_def)
  then have "card ((\<lambda>r. iv_reg (ivs ! r)) ` set act) \<le> NUM_REGS"
    using card_mono [of "{FIRST_REG..<FIRST_REG + int NUM_REGS}"] by fastforce
  then show ?thesis
    using assms by (simp add: active_ok_def card_image distinct_card)
qed

lemma same_shape_update:
  assumes "same_shape js ivs" "iv_temp iv = iv_temp (ivs ! i)" "iv_start iv = iv_start (ivs ! i)"
    "iv_end iv = iv_end (ivs ! i)"
  shows "same_shape js (ivs[i := iv])"
  using assms by (cases "i < length ivs") (auto simp: same_shape_def nth_list_update)

lemma active_ok_assign:
  assumes ok: "active_ok ivs act pool" and k: "k < NUM_REGS" "pool ! k"
    and iv: "in_reg iv" "iv_reg iv = int k + FIRST_REG" and p: "p \<notin> set act" "p < length ivs"
    and act': "mset act' = add_mset p (mset act)"
    and sorted: "sorted (map (\<lambda>r. iv_end (ivs[p := iv] ! r)) act')"
  shows "active_ok (ivs[p := iv]) act' (pool[k := False])"
proof -
  have set: "set act' = insert p (set act)"
    using act' by (metis set_mset_add_mset_insert set_mset_mset)
  have "distinct act'"
    using act' ok p(1) by (metis active_ok_def distinct.simps(2) mset.simps(2) mset_eq_imp_distinct_iff)
  have other: "ivs[p := iv] ! r = ivs ! r" if "r \<in> set act" for r
    using that p(1) by (metis nth_list_update_neq)
  have self: "ivs[p := iv] ! p = iv" using p(2) by simp
  have free: "iv_reg (ivs ! r) \<noteq> int k + FIRST_REG" if "r \<in> set act" for r
    using ok k that by (simp add: active_ok_def)
  have "inj_on (\<lambda>r. iv_reg (ivs[p := iv] ! r)) (set act)"
    using ok by (simp add: active_ok_def other inj_on_def)
  moreover have "iv_reg (ivs[p := iv] ! p) \<notin> (\<lambda>r. iv_reg (ivs[p := iv] ! r)) ` set act"
    using free iv(2) by (auto simp: self other dest!: sym [of "iv_reg iv"])
  ultimately have "inj_on (\<lambda>r. iv_reg (ivs[p := iv] ! r)) (set act')"
    using p(1) by (simp add: set inj_on_insert)
  moreover have "(pool[k := False]) ! j \<longleftrightarrow> (\<forall>r\<in>set act'. iv_reg (ivs[p := iv] ! r) \<noteq> int j + FIRST_REG)"
    if "j < NUM_REGS" for j
  proof -
    have "pool ! j \<longleftrightarrow> (\<forall>r\<in>set act. iv_reg (ivs ! r) \<noteq> int j + FIRST_REG)" "length pool = NUM_REGS"
      using ok that by (simp_all add: active_ok_def)
    then show ?thesis using iv(2) that k(1) by (auto simp: set other self nth_list_update)
  qed
  ultimately show ?thesis
    using ok sorted iv(1) \<open>distinct act'\<close> by (auto simp: active_ok_def set other self)
qed

lemma assign_inv:
  assumes inv: "alloc_inv js p st" and k: "k < NUM_REGS" "ra_pool st ! k" and p: "p < length js"
  obtains st' where "assign_reg k p st = Some st'" "alloc_inv js (Suc p) st'"
proof -
  define ivs where "ivs = ra_ivs st"
  define iv where "iv = (ivs ! p)\<lparr>iv_reg := int k + FIRST_REG\<rparr>"
  note parts = inv [unfolded alloc_inv_def, folded ivs_def]
  have len: "length ivs = length js" using parts by (simp add: same_shape_def)
  have pn: "p \<notin> set (ra_active st)" using parts by auto
  have ok: "active_ok ivs (ra_active st) (ra_pool st)" using parts by simp
  have "map (\<lambda>r. iv_end (ivs[p := iv] ! r)) (ra_active st) = map (\<lambda>r. iv_end (ivs ! r)) (ra_active st)"
    using pn by (intro map_cong refl) (metis nth_list_update_neq)
  then have "sorted (map (\<lambda>r. iv_end (ivs[p := iv] ! r)) (ra_active st))"
    using ok by (simp only: active_ok_def)
  then obtain act' where act': "insert_active (ivs[p := iv]) p (ra_active st) = Some act'"
    "mset act' = add_mset p (mset (ra_active st))" "sorted (map (\<lambda>r. iv_end (ivs[p := iv] ! r)) act')"
    using insert_active_result [OF _ active_le [OF ok]] by blast
  have set: "set act' = insert p (set (ra_active st))"
    using act'(2) by (metis set_mset_add_mset_insert set_mset_mset)
  have iv: "in_reg iv" "iv_reg iv = int k + FIRST_REG" "iv_start iv = iv_start (ivs ! p)"
    "iv_end iv = iv_end (ivs ! p)" "iv_temp iv = iv_temp (ivs ! p)"
    using parts k(1) p len by (simp_all add: iv_def in_reg_def unplaced_def)
  have at: "ivs[p := iv] ! i = (if i = p then iv else ivs ! i)" for i
    using p len by (simp add: nth_list_update)
  have free: "iv_end (ivs ! i) < iv_start (ivs ! p)"
    if "i < p" "iv_reg (ivs ! i) = int k + FIRST_REG" for i
  proof -
    have "i \<notin> set (ra_active st)" using ok k that(2) by (auto simp: active_ok_def)
    moreover have "iv_reg (ivs ! i) \<noteq> - 1" using that(2) by (simp add: FIRST_REG_def)
    ultimately show ?thesis using parts that(1) p len by (simp add: rest_ended_def)
  qed
  have "alloc_inv js (Suc p) (st\<lparr>ra_ivs := ivs[p := iv], ra_active := act', ra_pool := (ra_pool st)[k := False]\<rparr>)"
    unfolding alloc_inv_def
  proof (simp, intro conjI)
    show "same_shape js (ivs[p := iv])" using parts iv by (intro same_shape_update) simp_all
    show "Suc p \<le> length js" using p by simp
    show "set act' \<subseteq> {..<Suc p}" using parts set by auto
    show "active_ok (ivs[p := iv]) act' ((ra_pool st)[k := False])"
      using ok k iv(1,2) pn p len act'(2,3) by (intro active_ok_assign) simp_all
    show "places_legal (Suc p) (ivs[p := iv]) (ra_nspills st)"
      using parts iv(1) by (simp add: places_legal_def at less_Suc_eq)
    have "\<not> meet (ivs ! i) iv" "\<not> meet iv (ivs ! i)" if "i < p" "iv_reg (ivs ! i) = iv_reg iv" for i
      using free that iv by (fastforce simp: meet_def)+
    then show "regs_apart (Suc p) (ivs[p := iv])"
      using parts by (auto simp: regs_apart_def at less_Suc_eq)
    show "slots_apart (Suc p) (ivs[p := iv])"
      using parts iv(2) by (auto simp: slots_apart_def at less_Suc_eq FIRST_REG_def)
    show "rest_ended (Suc p) (ivs[p := iv]) act'"
      using parts by (auto simp: rest_ended_def at set less_Suc_eq)
    show "unplaced (Suc p) (ivs[p := iv])"
      using parts by (simp add: unplaced_def at)
    show "0 \<le> ra_nspills st" "ra_nspills st = 0 \<or> pressure js" using parts by simp_all
  qed
  with act'(1) that show ?thesis by (simp add: assign_reg_def ivs_def iv_def)
qed

section \<open>Spilling\<close>

text \<open>
  A spill is needed only when the active intervals hold all six registers; with the interval to place,
  seven are then live where it starts.
\<close>

lemma full_pool_pressure:
  assumes inv: "alloc_inv js p st" and ord: "ordered js" and p: "p < length js"
    and full: "\<forall>k<NUM_REGS. \<not> ra_pool st ! k"
    and live: "\<forall>r\<in>set (ra_active st). iv_start (ra_ivs st ! p) \<le> iv_end (ra_ivs st ! r)"
  shows "pressure js" "ra_active st \<noteq> []"
proof -
  have ok: "active_ok (ra_ivs st) (ra_active st) (ra_pool st)" and sh: "same_shape js (ra_ivs st)"
    and sub: "set (ra_active st) \<subseteq> {..<p}" using inv by (simp_all add: alloc_inv_def)
  have "(\<lambda>k. int k + FIRST_REG) ` {..<NUM_REGS} \<subseteq> (\<lambda>r. iv_reg (ra_ivs st ! r)) ` set (ra_active st)"
  proof (rule image_subsetI)
    fix k assume "k \<in> {..<NUM_REGS}"
    then obtain r where "r \<in> set (ra_active st)" "iv_reg (ra_ivs st ! r) = int k + FIRST_REG"
      using ok full by (auto simp: active_ok_def)
    then show "int k + FIRST_REG \<in> (\<lambda>r. iv_reg (ra_ivs st ! r)) ` set (ra_active st)"
      by (metis imageI)
  qed
  then have "card ((\<lambda>k. int k + FIRST_REG) ` {..<NUM_REGS}) \<le> card (set (ra_active st))"
    by (meson List.finite_set card_image_le card_mono finite_imageI order.trans)
  then have six: "NUM_REGS \<le> card (set (ra_active st))"
    by (simp add: card_image inj_on_def)
  then show "ra_active st \<noteq> []" by (auto simp: NUM_REGS_def)
  define q where "q = iv_start (js ! p)"
  have "iv_start (js ! r) \<le> q \<and> q \<le> iv_end (js ! r)" if "r \<in> set (ra_active st)" for r
  proof -
    have "r < p" using that sub by auto
    then have "iv_end (ra_ivs st ! r) = iv_end (js ! r)" "iv_start (ra_ivs st ! r) = iv_start (js ! r)"
      "iv_start (ra_ivs st ! p) = iv_start (js ! p)"
      using sh p by (simp_all add: same_shape_def)
    then show ?thesis
      using bspec [OF live that] p \<open>r < p\<close> start_mono [OF ord sh, of r p] by (simp add: q_def)
  qed
  moreover have "iv_start (js ! p) \<le> q \<and> q \<le> iv_end (js ! p)"
    using ord p by (simp add: ordered_def q_def)
  ultimately have "insert p (set (ra_active st)) \<subseteq>
      {i. i < length js \<and> iv_start (js ! i) \<le> q \<and> q \<le> iv_end (js ! i)}"
    using sub p by auto
  then have "card (insert p (set (ra_active st))) \<le>
      card {i. i < length js \<and> iv_start (js ! i) \<le> q \<and> q \<le> iv_end (js ! i)}"
    by (intro card_mono) simp_all
  moreover have "p \<notin> set (ra_active st)" using sub by auto
  ultimately show "pressure js" using six by (auto simp: pressure_def intro!: exI [of _ q])
qed

definition evict :: "lsra \<Rightarrow> lsra" where
  "evict st = (let s = last (ra_active st); sp = ra_ivs st ! s in
     st\<lparr>ra_ivs := (ra_ivs st)[s := sp\<lparr>iv_reg := - 1, iv_spill := ra_nspills st * 4\<rparr>],
        ra_active := butlast (ra_active st),
        ra_pool := (ra_pool st)[nat (iv_reg sp - FIRST_REG) := True],
        ra_nspills := ra_nspills st + 1\<rparr>)"

lemma in_slot_more: "in_slot ns iv \<Longrightarrow> ns \<le> ns' \<Longrightarrow> in_slot ns' iv"
  by (auto simp: in_slot_def)

lemma slot_below: "in_slot ns iv \<Longrightarrow> iv_spill iv < ns * 4"
  by (auto simp: in_slot_def)

lemma in_reg_not_slot: "in_reg iv \<Longrightarrow> iv_reg iv \<noteq> - 1"
  by (simp add: in_reg_def FIRST_REG_def)

lemma active_ok_evict:
  assumes ok: "active_ok ivs (act @ [s]) pool" and s: "s < length ivs"
  shows "active_ok (ivs[s := iv]) act (pool[nat (iv_reg (ivs ! s) - FIRST_REG) := True])"
proof -
  define k where "k = nat (iv_reg (ivs ! s) - FIRST_REG)"
  have "in_reg (ivs ! s)" using ok by (simp add: active_ok_def)
  then have k: "k < NUM_REGS" "iv_reg (ivs ! s) = int k + FIRST_REG"
    using reg_index [of "ivs ! s"] by (auto simp: k_def)
  have other: "ivs[s := iv] ! r = ivs ! r" if "r \<in> set act" for r
    using that ok by (metis active_ok_def distinct.simps(2) distinct_append disjoint_insert(1) inf.commute
      list.simps(15) nth_list_update_neq)
  have gone: "iv_reg (ivs ! r) \<noteq> int k + FIRST_REG" if "r \<in> set act" for r
    using ok that k(2) by (auto simp: active_ok_def inj_on_def)
  have "(pool[k := True]) ! j \<longleftrightarrow> (\<forall>r\<in>set act. iv_reg (ivs[s := iv] ! r) \<noteq> int j + FIRST_REG)"
    if "j < NUM_REGS" for j
  proof -
    have "pool ! j \<longleftrightarrow> (\<forall>r\<in>set act. iv_reg (ivs ! r) \<noteq> int j + FIRST_REG) \<and> k \<noteq> j" "length pool = NUM_REGS"
      using ok that k(2) by (auto simp: active_ok_def)
    then show ?thesis using gone that k(1) by (auto simp: other nth_list_update)
  qed
  moreover have "sorted (map (\<lambda>r. iv_end (ivs[s := iv] ! r)) act)"
  proof -
    have "map (\<lambda>r. iv_end (ivs[s := iv] ! r)) act = map (\<lambda>r. iv_end (ivs ! r)) act"
      by (simp add: other)
    moreover have "sorted (map (\<lambda>r. iv_end (ivs ! r)) act)"
      using ok by (simp add: active_ok_def sorted_append)
    ultimately show ?thesis by (simp only:)
  qed
  moreover have "inj_on (\<lambda>r. iv_reg (ivs[s := iv] ! r)) (set act)"
    using ok by (simp add: active_ok_def other inj_on_def)
  ultimately show ?thesis
    using ok by (simp add: active_ok_def other k_def)
qed


lemma evict_inv:
  assumes inv: "alloc_inv js p st" and ne: "ra_active st \<noteq> []" and pr: "pressure js"
  shows "alloc_inv js p (evict st)"
proof -
  define ivs act s where "ivs = ra_ivs st" and "act = butlast (ra_active st)" and "s = last (ra_active st)"
  define iv where "iv = (ivs ! s)\<lparr>iv_reg := - 1, iv_spill := ra_nspills st * 4\<rparr>"
  have act: "ra_active st = act @ [s]" using ne by (simp add: act_def s_def)
  note parts = inv [unfolded alloc_inv_def, folded ivs_def, unfolded act]
  have len: "length ivs = length js" using parts by (simp add: same_shape_def)
  have s: "s < p" "s < length ivs" using parts len by auto
  have at: "ivs[s := iv] ! i = (if i = s then iv else ivs ! i)" for i
    using s by (simp add: nth_list_update)
  have iv: "iv_reg iv = - 1" "iv_spill iv = ra_nspills st * 4" "in_slot (ra_nspills st + 1) iv"
    using parts by (auto simp: iv_def in_slot_def)
  have other: "iv_spill (ivs ! i) \<noteq> ra_nspills st * 4" if "i < p" "iv_reg (ivs ! i) = - 1" for i
  proof -
    have "in_slot (ra_nspills st) (ivs ! i)"
      using parts that in_reg_not_slot by (auto simp: places_legal_def)
    then show ?thesis using slot_below by fastforce
  qed
  show ?thesis
    unfolding alloc_inv_def evict_def Let_def act last_snoc butlast_snoc ivs_def [symmetric] iv_def [symmetric]
  proof (simp, intro conjI)
    show "same_shape js (ivs[s := iv])" using parts by (intro same_shape_update) (simp_all add: iv_def)
    show "p \<le> length js" "set act \<subseteq> {..<p}" using parts by auto
    show "0 \<le> ra_nspills st + 1" "ra_nspills st + 1 = 0 \<or> pressure js" using parts pr by simp_all
    show "active_ok (ivs[s := iv]) act ((ra_pool st)[nat (iv_reg (ivs ! s) - FIRST_REG) := True])"
      using parts s by (intro active_ok_evict) simp_all
    show "places_legal p (ivs[s := iv]) (ra_nspills st + 1)"
      using parts iv(3) in_slot_more [of "ra_nspills st" _ "ra_nspills st + 1"]
      by (auto simp: places_legal_def at)
    show "regs_apart p (ivs[s := iv])" using parts iv(1) by (auto simp: regs_apart_def at)
    show "slots_apart p (ivs[s := iv])"
      using parts iv(2) other by (auto simp: slots_apart_def at dest: sym)
    show "rest_ended p (ivs[s := iv]) act" using parts iv(1) s by (auto simp: rest_ended_def at)
    show "unplaced p (ivs[s := iv])" using parts s by (auto simp: unplaced_def at)
  qed
qed

lemma spill_self_inv:
  assumes inv: "alloc_inv js p st" and p: "p < length js" and pr: "pressure js"
  shows "alloc_inv js (Suc p) (st\<lparr>ra_ivs := (ra_ivs st)[p := (ra_ivs st ! p)\<lparr>iv_spill := ra_nspills st * 4\<rparr>],
    ra_nspills := ra_nspills st + 1\<rparr>)"
proof -
  define ivs where "ivs = ra_ivs st"
  define iv where "iv = (ivs ! p)\<lparr>iv_spill := ra_nspills st * 4\<rparr>"
  note parts = inv [unfolded alloc_inv_def, folded ivs_def]
  have len: "length ivs = length js" using parts by (simp add: same_shape_def)
  have at: "ivs[p := iv] ! i = (if i = p then iv else ivs ! i)" for i
    using p len by (simp add: nth_list_update)
  have iv: "iv_reg iv = - 1" "iv_spill iv = ra_nspills st * 4" "in_slot (ra_nspills st + 1) iv"
    using parts p len by (auto simp: iv_def in_slot_def unplaced_def)
  have other: "iv_spill (ivs ! i) \<noteq> ra_nspills st * 4" if "i < p" "iv_reg (ivs ! i) = - 1" for i
  proof -
    have "in_slot (ra_nspills st) (ivs ! i)"
      using parts that in_reg_not_slot by (auto simp: places_legal_def)
    then show ?thesis using slot_below by fastforce
  qed
  have keep: "ivs[p := iv] ! r = ivs ! r" if "r \<in> set (ra_active st)" for r
    using that parts by (auto simp: at)
  show ?thesis
    unfolding alloc_inv_def ivs_def [symmetric] iv_def [symmetric]
  proof (simp, intro conjI)
    show "same_shape js (ivs[p := iv])" using parts by (intro same_shape_update) (simp_all add: iv_def)
    show "Suc p \<le> length js" "set (ra_active st) \<subseteq> {..<Suc p}" using parts p by auto
    show "0 \<le> ra_nspills st + 1" "ra_nspills st + 1 = 0 \<or> pressure js" using parts pr by simp_all
    show "active_ok (ivs[p := iv]) (ra_active st) (ra_pool st)"
      using parts keep by (auto simp: active_ok_def inj_on_def cong: map_cong)
    show "places_legal (Suc p) (ivs[p := iv]) (ra_nspills st + 1)"
      using parts iv(3) in_slot_more [of "ra_nspills st" _ "ra_nspills st + 1"]
      by (auto simp: places_legal_def at less_Suc_eq)
    show "regs_apart (Suc p) (ivs[p := iv])"
      using parts iv(1) by (auto simp: regs_apart_def at less_Suc_eq)
    show "slots_apart (Suc p) (ivs[p := iv])"
      using parts iv(2) other by (auto simp: slots_apart_def at less_Suc_eq dest: sym)
    show "rest_ended (Suc p) (ivs[p := iv]) (ra_active st)"
      using parts iv(1) by (auto simp: rest_ended_def at less_Suc_eq)
    show "unplaced (Suc p) (ivs[p := iv])" using parts by (simp add: unplaced_def at)
  qed
qed

lemma steal_is_evict_assign:
  assumes ok: "active_ok (ra_ivs st) (ra_active st) (ra_pool st)" and ne: "ra_active st \<noteq> []"
    and p: "p \<notin> set (ra_active st)" and k: "k = nat (iv_reg (ra_ivs st ! last (ra_active st)) - FIRST_REG)"
    and longer: "iv_end (ra_ivs st ! p) < iv_end (ra_ivs st ! last (ra_active st))"
  shows "spill_one p st = assign_reg k p (evict st)" "k < NUM_REGS" "\<not> ra_pool st ! k"
proof -
  define s where "s = last (ra_active st)"
  have s: "s \<in> set (ra_active st)" "s \<noteq> p" using ne p by (auto simp: s_def)
  have "in_reg (ra_ivs st ! s)" using ok s by (simp add: active_ok_def)
  then have r: "iv_reg (ra_ivs st ! s) = int k + FIRST_REG" and kb: "k < NUM_REGS"
    using reg_index [of "ra_ivs st ! s"] by (auto simp: k s_def)
  have used: "\<not> ra_pool st ! k" using ok s r kb by (auto simp: active_ok_def)
  then have pool: "(ra_pool st)[k := True, k := False] = ra_pool st"
    by (metis (full_types) list_update_id list_update_overwrite)
  let ?sp = "(ra_ivs st ! s)\<lparr>iv_reg := - 1, iv_spill := ra_nspills st * 4\<rparr>"
  let ?iv = "(ra_ivs st ! p)\<lparr>iv_reg := int k + FIRST_REG\<rparr>"
  have "(ra_ivs st)[s := ?sp, p := ?iv] = (ra_ivs st)[p := ?iv, s := ?sp]"
    using s(2) by (rule list_update_swap)
  moreover have order: "st\<lparr>ra_nspills := x, ra_ivs := y, ra_active := z\<rparr> =
      st\<lparr>ra_ivs := y, ra_active := z, ra_nspills := x\<rparr>" for x y z
    by simp
  ultimately show "spill_one p st = assign_reg k p (evict st)"
    using ne longer s(2) pool r
    by (simp add: spill_one_def assign_reg_def evict_def Let_def s_def [symmetric] order)
  show "k < NUM_REGS" "\<not> ra_pool st ! k" by (rule kb, rule used)
qed

lemma spill_inv:
  assumes inv: "alloc_inv js p st" and ord: "ordered js" and p: "p < length js"
    and full: "\<forall>k<NUM_REGS. \<not> ra_pool st ! k"
    and live: "\<forall>r\<in>set (ra_active st). iv_start (ra_ivs st ! p) \<le> iv_end (ra_ivs st ! r)"
  obtains st' where "spill_one p st = Some st'" "alloc_inv js (Suc p) st'"
proof -
  have pr: "pressure js" and ne: "ra_active st \<noteq> []"
    using full_pool_pressure [OF inv ord p full live] .
  have ok: "active_ok (ra_ivs st) (ra_active st) (ra_pool st)" and pn: "p \<notin> set (ra_active st)"
    using inv by (auto simp: alloc_inv_def)
  show ?thesis
  proof (cases "iv_end (ra_ivs st ! p) < iv_end (ra_ivs st ! last (ra_active st))")
    case True
    define k where "k = nat (iv_reg (ra_ivs st ! last (ra_active st)) - FIRST_REG)"
    note steal = steal_is_evict_assign [OF ok ne pn k_def True]
    have "ra_pool (evict st) ! k"
      using steal(2) ok by (simp add: evict_def Let_def active_ok_def k_def)
    then show ?thesis
      using assign_inv [OF evict_inv [OF inv ne pr] steal(2) _ p] steal(1) that by metis
  next
    case False
    with that spill_self_inv [OF inv p pr] ne show ?thesis by (simp add: spill_one_def Let_def)
  qed
qed

section \<open>The whole scan\<close>

lemma scan_one_inv:
  assumes inv: "alloc_inv js p st" and ord: "ordered js" and p: "p < length js"
  obtains st' where "scan_one p st = Some st'" "alloc_inv js (Suc p) st'"
proof -
  obtain act pool where e:
      "expire (ra_ivs st) (iv_start (ra_ivs st ! p)) (ra_active st) (ra_pool st) = Some (act, pool)"
    and inv': "alloc_inv js p (st\<lparr>ra_active := act, ra_pool := pool\<rparr>)" (is "alloc_inv _ _ ?st")
    and live: "\<forall>r\<in>set act. iv_start (ra_ivs st ! p) \<le> iv_end (ra_ivs st ! r)"
    using expire_inv [OF inv p ord] by blast
  show ?thesis
  proof (cases "find (\<lambda>k. pool ! k) [0..<NUM_REGS]")
    case None
    then have "\<forall>k<NUM_REGS. \<not> ra_pool ?st ! k" by (auto simp: find_None_iff)
    from spill_inv [OF inv' ord p this] live obtain st' where "spill_one p ?st = Some st'" "alloc_inv js (Suc p) st'"
      by auto
    with e None that show ?thesis by (simp add: scan_one_def)
  next
    case (Some k)
    then have "k < NUM_REGS" "ra_pool ?st ! k" by (auto simp: find_Some_iff)
    from assign_inv [OF inv' this p] obtain st' where "assign_reg k p ?st = Some st'" "alloc_inv js (Suc p) st'"
      by auto
    with e Some that show ?thesis by (simp add: scan_one_def)
  qed
qed

lemma scan_all_inv:
  assumes "alloc_inv js p st" "ordered js" "p \<le> length js"
  shows "\<exists>st'. scan_all [p..<length js] st = Some st' \<and> alloc_inv js (length js) st'"
  using assms
proof (induction "length js - p" arbitrary: p st)
  case 0
  then show ?case by simp
next
  case (Suc n)
  then have p: "p < length js" by simp
  obtain st' where "scan_one p st = Some st'" "alloc_inv js (Suc p) st'"
    using scan_one_inv [OF Suc.prems(1,2) p] by blast
  with Suc.hyps(1) [of "Suc p" st'] Suc.hyps(2) Suc.prems p show ?case
    by (simp add: upt_conv_Cons)
qed

lemma scan_start_inv:
  assumes "\<forall>iv\<in>set js. iv_reg iv = - 1 \<and> iv_spill iv = - 1"
  shows "alloc_inv js 0 \<lparr>ra_ivs = js, ra_active = [], ra_pool = replicate NUM_REGS True, ra_nspills = 0\<rparr>"
  using assms by (simp add: alloc_inv_def same_shape_def active_ok_def places_legal_def regs_apart_def
    slots_apart_def rest_ended_def unplaced_def)

section \<open>Lifetimes\<close>

text \<open>
  What the instructions say: a temporary is live at a position when it is defined there or before and
  occurs there or after.
\<close>

definition defs_at :: "ir_insn list \<Rightarrow> nat \<Rightarrow> nat \<Rightarrow> bool" where
  "defs_at xs t i \<longleftrightarrow> i < length xs \<and> ii_dst (xs ! i) = int t"

definition occurs_at :: "ir_insn list \<Rightarrow> nat \<Rightarrow> nat \<Rightarrow> bool" where
  "occurs_at xs t i \<longleftrightarrow>
     i < length xs \<and> (ii_dst (xs ! i) = int t \<or> ii_a (xs ! i) = int t \<or> ii_b (xs ! i) = int t)"

definition live_at :: "ir_insn list \<Rightarrow> nat \<Rightarrow> nat \<Rightarrow> bool" where
  "live_at xs t q \<longleftrightarrow> (\<exists>i j. i \<le> q \<and> q \<le> j \<and> defs_at xs t i \<and> occurs_at xs t j)"

text \<open>The two arrays after the first \<open>k\<close> instructions.\<close>

definition first_upto :: "ir_insn list \<Rightarrow> nat \<Rightarrow> nat \<Rightarrow> int \<Rightarrow> bool" where
  "first_upto xs k t f \<longleftrightarrow> (if \<exists>i<k. defs_at xs t i
     then \<exists>i<k. defs_at xs t i \<and> f = int i \<and> (\<forall>j<k. defs_at xs t j \<longrightarrow> i \<le> j) else f = - 1)"

definition last_upto :: "ir_insn list \<Rightarrow> nat \<Rightarrow> nat \<Rightarrow> int \<Rightarrow> bool" where
  "last_upto xs k t l \<longleftrightarrow> (if \<exists>i<k. occurs_at xs t i
     then \<exists>i<k. occurs_at xs t i \<and> l = int i \<and> (\<forall>j<k. occurs_at xs t j \<longrightarrow> j \<le> i) else l = - 1)"

lemma note_length [simp]: "length (note_def n pos t fd) = length fd" "length (note_use n pos t lu) = length lu"
  by (simp_all add: note_def_def note_use_def)

lemma note_def_nth:
  assumes "t < n" "length fd = n"
  shows "note_def n pos d fd ! t = (if d = int t \<and> fd ! t < 0 then pos else fd ! t)"
  using assms by (auto simp: note_def_def nth_list_update)

lemma note_use_nth:
  assumes "t < n" "length lu = n"
  shows "note_use n pos d lu ! t = (if d = int t \<and> lu ! t < pos then pos else lu ! t)"
  using assms by (auto simp: note_use_def nth_list_update)

lemma first_upto_step:
  assumes "first_upto xs k t f" "k < length xs"
  shows "first_upto xs (Suc k) t (if ii_dst (xs ! k) = int t \<and> f < 0 then int k else f)"
proof (cases "\<exists>i<k. defs_at xs t i")
  case True
  with assms obtain i where i: "i < k" "defs_at xs t i" "f = int i" "\<forall>j<k. defs_at xs t j \<longrightarrow> i \<le> j"
    by (auto simp: first_upto_def)
  then have "\<forall>j<Suc k. defs_at xs t j \<longrightarrow> i \<le> j" by (auto simp: less_Suc_eq)
  with i show ?thesis by (auto simp: first_upto_def less_Suc_eq)
next
  case False
  with assms show ?thesis by (auto simp: first_upto_def less_Suc_eq defs_at_def)
qed

lemma last_upto_step:
  assumes "last_upto xs k t l" "k < length xs"
  shows "last_upto xs (Suc k) t (if occurs_at xs t k then int k else l)"
proof (cases "occurs_at xs t k")
  case True
  then show ?thesis by (auto simp: last_upto_def less_Suc_eq)
next
  case False
  with assms show ?thesis by (auto simp: last_upto_def less_Suc_eq split: if_splits)
qed

lemma last_upto_less: "last_upto xs k t l \<Longrightarrow> l < int k"
  by (auto simp: last_upto_def split: if_splits)

lemma scan_insns_result:
  assumes "k \<le> length xs" "length fd = n" "length lu = n"
    "\<forall>t<n. first_upto xs k t (fd ! t) \<and> last_upto xs k t (lu ! t)"
    "scan_insns n (int k) (drop k xs) fd lu = (fd', lu')"
  shows "length fd' = n \<and> length lu' = n \<and>
    (\<forall>t<n. first_upto xs (length xs) t (fd' ! t) \<and> last_upto xs (length xs) t (lu' ! t))"
  using assms
proof (induction "length xs - k" arbitrary: k fd lu)
  case 0
  then show ?case by simp
next
  case (Suc m)
  then have k: "k < length xs" by simp
  let ?i = "xs ! k"
  let ?fd = "note_def n (int k) (ii_dst ?i) fd"
  let ?lu = "note_use n (int k) (ii_b ?i) (note_use n (int k) (ii_a ?i) (note_use n (int k) (ii_dst ?i) lu))"
  have "scan_insns n (int (Suc k)) (drop (Suc k) xs) ?fd ?lu = (fd', lu')"
    using Suc.prems(5) by (simp add: Cons_nth_drop_Suc [OF k, symmetric] add.commute)
  moreover have "first_upto xs (Suc k) t (?fd ! t) \<and> last_upto xs (Suc k) t (?lu ! t)" if t: "t < n" for t
  proof
    show "first_upto xs (Suc k) t (?fd ! t)"
      using Suc.prems(2,4) t first_upto_step [OF _ k] by (simp add: note_def_nth)
    have "lu ! t < int k" using Suc.prems(4) t last_upto_less by blast
    then have "?lu ! t = (if occurs_at xs t k then int k else lu ! t)"
      using Suc.prems(3) t k by (auto simp: note_use_nth occurs_at_def)
    then show "last_upto xs (Suc k) t (?lu ! t)"
      using Suc.prems(4) t last_upto_step [OF _ k] by simp
  qed
  ultimately show ?case using Suc.hyps k Suc.prems(2,3) by (intro Suc.hyps(1) [of "Suc k" ?fd ?lu]) auto
qed

lemma live_interval:
  assumes "first_upto xs (length xs) t f" "last_upto xs (length xs) t l" "0 \<le> f"
  shows "live_at xs t q \<longleftrightarrow> f \<le> int q \<and> int q \<le> l" "f \<le> l"
proof -
  obtain i where i: "defs_at xs t i" "f = int i" "\<forall>j<length xs. defs_at xs t j \<longrightarrow> i \<le> j"
    using assms(1,3) by (auto simp: first_upto_def split: if_splits)
  then have o: "occurs_at xs t i" "i < length xs" by (auto simp: defs_at_def occurs_at_def)
  then obtain m where m: "occurs_at xs t m" "l = int m" "\<forall>j<length xs. occurs_at xs t j \<longrightarrow> j \<le> m"
    using assms(2) by (auto simp: last_upto_def split: if_splits)
  show "f \<le> l" using i m o by simp
  show "live_at xs t q \<longleftrightarrow> f \<le> int q \<and> int q \<le> l"
    using i m by (auto simp: live_at_def) (meson defs_at_def occurs_at_def order.trans)+
qed

section \<open>The allocation\<close>

text \<open>
  What the C standard says of \<open>qsort\<close>: for a comparison that is a total preorder the array is permuted
  into order; elements that compare equal may come in any order.
\<close>

definition consistent :: "('e \<Rightarrow> 'e \<Rightarrow> int) \<Rightarrow> bool" where
  "consistent cmp \<longleftrightarrow> (\<forall>a b. cmp a b \<le> 0 \<or> cmp b a \<le> 0) \<and>
     (\<forall>a b c. cmp a b \<le> 0 \<longrightarrow> cmp b c \<le> 0 \<longrightarrow> cmp a c \<le> 0)"

definition qsort_ok :: "(('e \<Rightarrow> 'e \<Rightarrow> int) \<Rightarrow> 'e list \<Rightarrow> 'e list) \<Rightarrow> bool" where
  "qsort_ok qsort \<longleftrightarrow> (\<forall>cmp xs. consistent cmp \<longrightarrow>
     mset (qsort cmp xs) = mset xs \<and> sorted_wrt (\<lambda>a b. cmp a b \<le> 0) (qsort cmp xs))"

lemma sort_by_start_consistent: "consistent sort_by_start"
  by (auto simp: consistent_def sort_by_start_def)

datatype place = In_reg int | In_slot int

definition place_of :: "ir_func \<Rightarrow> nat \<Rightarrow> place" where
  "place_of fn t = (if 0 \<le> fn_temp_reg fn ! t then In_reg (fn_temp_reg fn ! t) else In_slot (fn_temp_spill fn ! t))"

definition place_legal :: "ir_func \<Rightarrow> place \<Rightarrow> bool" where
  "place_legal fn pl \<longleftrightarrow> (case pl of
     In_reg r \<Rightarrow> 2 \<le> r \<and> r \<le> 7
   | In_slot s \<Rightarrow> 0 \<le> s \<and> s + 4 \<le> 4 * fn_nspills fn \<and> 4 dvd s)"

lemma make_intervals_fields:
  assumes "iv \<in> set (make_intervals n fd lu)"
  shows "iv_temp iv < n" "0 \<le> fd ! iv_temp iv" "iv_start iv = fd ! iv_temp iv"
    "iv_end iv = max (fd ! iv_temp iv) (lu ! iv_temp iv)" "iv_reg iv = - 1" "iv_spill iv = - 1"
  using assms unfolding make_intervals_def by auto

lemma make_intervals_distinct: "distinct (map iv_temp (make_intervals n fd lu))"
proof -
  have "map iv_temp (make_intervals n fd lu) = filter (\<lambda>t. 0 \<le> fd ! t) [0..<n]"
    by (simp add: make_intervals_def comp_def)
  then show ?thesis by simp
qed

lemma sorted_intervals:
  assumes "qsort_ok qsort" "js = qsort sort_by_start (make_intervals n fd lu)"
  shows "set js = set (make_intervals n fd lu)" "distinct (map iv_temp js)" "ordered js"
proof -
  have m: "mset js = mset (make_intervals n fd lu)"
    and w: "sorted_wrt (\<lambda>a b. sort_by_start a b \<le> 0) js"
    using assms sort_by_start_consistent by (auto simp: qsort_ok_def)
  show st: "set js = set (make_intervals n fd lu)" using m by (rule mset_eq_setD)
  have "mset (map iv_temp js) = mset (map iv_temp (make_intervals n fd lu))" using m by simp
  then show "distinct (map iv_temp js)"
    using make_intervals_distinct by (metis mset_eq_imp_distinct_iff)
  have "sorted_wrt (\<lambda>a b. iv_start a \<le> iv_start b) js"
    by (rule sorted_wrt_mono_rel [OF _ w]) (auto simp: sort_by_start_def split: if_splits)
  moreover have "iv_start iv \<le> iv_end iv" if "iv \<in> set js" for iv
    using make_intervals_fields [of iv n fd lu] that st by simp
  ultimately show "ordered js" by (simp add: ordered_def sorted_map)
qed

lemma write_back_frame [simp]:
  "fn_insns (write_back ivs fn) = fn_insns fn" "fn_ntemps (write_back ivs fn) = fn_ntemps fn"
  "length (fn_temp_reg (write_back ivs fn)) = length (fn_temp_reg fn)"
  "length (fn_temp_spill (write_back ivs fn)) = length (fn_temp_spill fn)"
  unfolding write_back_def by (induction ivs arbitrary: fn) simp_all

lemma write_back_skip:
  assumes "t \<notin> iv_temp ` set ivs"
  shows "fn_temp_reg (write_back ivs fn) ! t = fn_temp_reg fn ! t"
    "fn_temp_spill (write_back ivs fn) ! t = fn_temp_spill fn ! t"
  using assms unfolding write_back_def by (induction ivs arbitrary: fn) auto

lemma write_back_at:
  assumes "distinct (map iv_temp ivs)" "iv \<in> set ivs"
    "iv_temp iv < length (fn_temp_reg fn)" "iv_temp iv < length (fn_temp_spill fn)"
  shows "fn_temp_reg (write_back ivs fn) ! iv_temp iv = iv_reg iv \<and>
    fn_temp_spill (write_back ivs fn) ! iv_temp iv = iv_spill iv"
  using assms
proof (induction ivs arbitrary: fn)
  case (Cons x ivs)
  let ?fn = "fn\<lparr>fn_temp_reg := (fn_temp_reg fn)[iv_temp x := iv_reg x],
                fn_temp_spill := (fn_temp_spill fn)[iv_temp x := iv_spill x]\<rparr>"
  have step: "write_back (x # ivs) fn = write_back ivs ?fn" by (simp add: write_back_def)
  show ?case
  proof (cases "iv = x")
    case True
    then show ?thesis
      using Cons.prems write_back_skip [of "iv_temp x" ivs ?fn] by (simp add: step)
  next
    case False
    then show ?thesis using Cons.IH [of ?fn] Cons.prems by (simp add: step)
  qed
qed simp

text \<open>The link between the scan and the function it allocates for: interval \<open>k\<close> is the lifetime of its temporary.\<close>

definition allocates :: "ir_func \<Rightarrow> interval list \<Rightarrow> lsra \<Rightarrow> ir_func \<Rightarrow> bool" where
  "allocates fn js st fn' \<longleftrightarrow>
     alloc_inv js (length js) st \<and> distinct (map iv_temp js) \<and> fn_insns fn' = fn_insns fn \<and>
     fn_ntemps fn' = fn_ntemps fn \<and> fn_nspills fn' = ra_nspills st \<and>
     (\<forall>k<length js. iv_temp (js ! k) < nat (fn_ntemps fn) \<and> 0 \<le> iv_start (js ! k) \<and>
        fn_temp_reg fn' ! iv_temp (js ! k) = iv_reg (ra_ivs st ! k) \<and>
        fn_temp_spill fn' ! iv_temp (js ! k) = iv_spill (ra_ivs st ! k)) \<and>
     (\<forall>k<length js. \<forall>q. live_at (fn_insns fn) (iv_temp (js ! k)) q \<longleftrightarrow>
        iv_start (js ! k) \<le> int q \<and> int q \<le> iv_end (js ! k)) \<and>
     (\<forall>t<nat (fn_ntemps fn). \<forall>i. defs_at (fn_insns fn) t i \<longrightarrow> (\<exists>k<length js. iv_temp (js ! k) = t))"

lemma upto_start: "first_upto xs 0 t (- 1)" "last_upto xs 0 t (- 1)"
  by (simp_all add: first_upto_def last_upto_def)

lemma scan_places:
  assumes inv: "alloc_inv js (length js) st" and d: "distinct (map iv_temp js)" and k: "k < length js"
    and n: "iv_temp (js ! k) < n"
  shows "fn_temp_reg (write_back (ra_ivs st) (fn\<lparr>fn_temp_reg := replicate n (- 1), fn_temp_spill := replicate n (- 1)\<rparr>)) !
      iv_temp (js ! k) = iv_reg (ra_ivs st ! k) \<and>
    fn_temp_spill (write_back (ra_ivs st) (fn\<lparr>fn_temp_reg := replicate n (- 1), fn_temp_spill := replicate n (- 1)\<rparr>)) !
      iv_temp (js ! k) = iv_spill (ra_ivs st ! k)"
proof -
  have sh: "same_shape js (ra_ivs st)" using inv by (simp add: alloc_inv_def)
  then have "map iv_temp (ra_ivs st) = map iv_temp js"
    by (intro nth_equalityI) (simp_all add: same_shape_def)
  with d have "distinct (map iv_temp (ra_ivs st))" by simp
  moreover have "ra_ivs st ! k \<in> set (ra_ivs st)" "iv_temp (ra_ivs st ! k) = iv_temp (js ! k)"
    using k sh by (simp_all add: same_shape_def)
  ultimately show ?thesis
    using n write_back_at [of "ra_ivs st" "ra_ivs st ! k"
      "fn\<lparr>fn_temp_reg := replicate n (- 1), fn_temp_spill := replicate n (- 1)\<rparr>"] by simp
qed

lemma regalloc_allocates:
  assumes q: "qsort_ok qsort" and n: "0 \<le> fn_ntemps fn"
  shows "\<exists>js st fn'. regalloc qsort fn = Some fn' \<and> allocates fn js st fn'"
proof (cases "nat (fn_ntemps fn) = 0")
  case True
  then show ?thesis
    using n scan_start_inv [of "[]"]
    by (intro exI [of _ "[]"] exI) (auto simp: regalloc_def allocates_def)
next
  case False
  define m xs where "m = nat (fn_ntemps fn)" and "xs = fn_insns fn"
  obtain fd lu where scan: "scan_insns m 0 xs (replicate m (- 1)) (replicate m (- 1)) = (fd, lu)"
    by fastforce
  then have arrays: "first_upto xs (length xs) t (fd ! t)" "last_upto xs (length xs) t (lu ! t)" if "t < m" for t
    using scan_insns_result [of 0 xs "replicate m (- 1)" m "replicate m (- 1)" fd lu] upto_start that by auto
  define js where "js = qsort sort_by_start (make_intervals m fd lu)"
  note srt = sorted_intervals [OF q js_def]
  have js: "iv_temp (js ! k) < m" "0 \<le> fd ! iv_temp (js ! k)" "iv_start (js ! k) = fd ! iv_temp (js ! k)"
    "iv_end (js ! k) = lu ! iv_temp (js ! k)" if "k < length js" for k
  proof -
    have "js ! k \<in> set (make_intervals m fd lu)" using that srt(1) nth_mem by blast
    note * = make_intervals_fields [OF this]
    show "iv_temp (js ! k) < m" "0 \<le> fd ! iv_temp (js ! k)" "iv_start (js ! k) = fd ! iv_temp (js ! k)"
      "iv_end (js ! k) = lu ! iv_temp (js ! k)"
      using * live_interval(2) [OF arrays [OF *(1)] *(2)] by simp_all
  qed
  have "\<forall>iv\<in>set js. iv_reg iv = - 1 \<and> iv_spill iv = - 1"
    using srt(1) make_intervals_fields(5,6) by blast
  from scan_all_inv [OF scan_start_inv [OF this] srt(3), simplified]
  obtain st where st: "scan_all [0..<length js]
      \<lparr>ra_ivs = js, ra_active = [], ra_pool = replicate NUM_REGS True, ra_nspills = 0\<rparr> = Some st"
    and inv: "alloc_inv js (length js) st" by blast
  let ?fn = "(write_back (ra_ivs st) (fn\<lparr>fn_temp_reg := replicate m (- 1), fn_temp_spill := replicate m (- 1)\<rparr>))
    \<lparr>fn_nspills := ra_nspills st\<rparr>"
  have "regalloc qsort fn = Some ?fn"
    using False n scan st by (simp add: regalloc_def Let_def m_def [symmetric] xs_def [symmetric] js_def [symmetric])
  moreover have "allocates fn js st ?fn"
    unfolding allocates_def m_def [symmetric] xs_def [symmetric]
  proof (intro conjI allI impI)
    fix k assume k: "k < length js"
    show "iv_temp (js ! k) < m" "0 \<le> iv_start (js ! k)" using js [OF k] by simp_all
    show "fn_temp_reg ?fn ! iv_temp (js ! k) = iv_reg (ra_ivs st ! k)"
      "fn_temp_spill ?fn ! iv_temp (js ! k) = iv_spill (ra_ivs st ! k)"
      using scan_places [OF inv srt(2) k js(1) [OF k]] by simp_all
    show "live_at xs (iv_temp (js ! k)) q \<longleftrightarrow> iv_start (js ! k) \<le> int q \<and> int q \<le> iv_end (js ! k)" for q
      using live_interval(1) [OF arrays [OF js(1) [OF k]] js(2) [OF k]] js [OF k] by simp
  next
    fix t i assume t: "t < m" and d: "defs_at xs t i"
    then have "0 \<le> fd ! t" using arrays(1) [OF t] by (auto simp: first_upto_def defs_at_def split: if_splits)
    then have "t \<in> set (map iv_temp (make_intervals m fd lu))"
      using t by (simp add: make_intervals_def comp_def image_image)
    then have "t \<in> iv_temp ` set js" using srt(1) by simp
    then show "\<exists>k<length js. iv_temp (js ! k) = t" by (auto simp: in_set_conv_nth)
  qed (use inv srt(2) in \<open>simp_all add: xs_def\<close>)
  ultimately show ?thesis by blast
qed

lemma places_at:
  assumes al: "allocates fn js st fn'" and k: "k < length js"
  shows "place_of fn' (iv_temp (js ! k)) =
      (if in_reg (ra_ivs st ! k) then In_reg (iv_reg (ra_ivs st ! k)) else In_slot (iv_spill (ra_ivs st ! k)))"
    and "in_reg (ra_ivs st ! k) \<or> in_slot (fn_nspills fn') (ra_ivs st ! k)"
proof -
  show legal: "in_reg (ra_ivs st ! k) \<or> in_slot (fn_nspills fn') (ra_ivs st ! k)"
    using al k by (simp add: allocates_def alloc_inv_def places_legal_def)
  then show "place_of fn' (iv_temp (js ! k)) =
      (if in_reg (ra_ivs st ! k) then In_reg (iv_reg (ra_ivs st ! k)) else In_slot (iv_spill (ra_ivs st ! k)))"
    using al k by (auto simp: allocates_def place_of_def in_reg_def in_slot_def FIRST_REG_def)
qed

lemma places_apart:
  assumes al: "allocates fn js st fn'" and k: "j < length js" "k < length js" "j \<noteq> k"
    and q: "live_at (fn_insns fn) (iv_temp (js ! j)) q" "live_at (fn_insns fn) (iv_temp (js ! k)) q"
  shows "place_of fn' (iv_temp (js ! j)) \<noteq> place_of fn' (iv_temp (js ! k))"
proof -
  have inv: "alloc_inv js (length js) st" using al by (simp add: allocates_def)
  have "meet (js ! j) (js ! k)" using al k q unfolding allocates_def meet_def by fastforce
  then have m: "meet (ra_ivs st ! j) (ra_ivs st ! k)"
    using inv k by (simp add: alloc_inv_def same_shape_def meet_def)
  show ?thesis
  proof (cases "in_reg (ra_ivs st ! j) \<and> in_reg (ra_ivs st ! k)")
    case True
    then show ?thesis
      using inv k m in_reg_not_slot by (auto simp: places_at [OF al] alloc_inv_def regs_apart_def)
  next
    case False
    have "iv_spill (ra_ivs st ! j) \<noteq> iv_spill (ra_ivs st ! k)"
      if "\<not> in_reg (ra_ivs st ! j)" "\<not> in_reg (ra_ivs st ! k)"
    proof -
      have "iv_reg (ra_ivs st ! j) = - 1" "iv_reg (ra_ivs st ! k) = - 1"
        using that places_at(2) [OF al] k by (auto simp: in_slot_def)
      then show ?thesis using inv k by (auto simp: alloc_inv_def slots_apart_def)
    qed
    with False k show ?thesis by (auto simp: places_at [OF al])
  qed
qed

lemma allocates_sound:
  assumes al: "allocates fn js st fn'"
  shows "\<And>t i. t < nat (fn_ntemps fn) \<Longrightarrow> defs_at (fn_insns fn) t i \<Longrightarrow> place_legal fn' (place_of fn' t)"
    and "\<And>t u q. t < nat (fn_ntemps fn) \<Longrightarrow> u < nat (fn_ntemps fn) \<Longrightarrow> live_at (fn_insns fn) t q \<Longrightarrow>
      live_at (fn_insns fn) u q \<Longrightarrow> t \<noteq> u \<Longrightarrow> place_of fn' t \<noteq> place_of fn' u"
proof -
  have index: "\<exists>k<length js. iv_temp (js ! k) = t" if "t < nat (fn_ntemps fn)" "defs_at (fn_insns fn) t i" for t i
    using al that by (auto simp: allocates_def)
  show "place_legal fn' (place_of fn' t)" if d: "t < nat (fn_ntemps fn)" "defs_at (fn_insns fn) t i" for t i
  proof -
    obtain k where k: "k < length js" "iv_temp (js ! k) = t" using index [OF d] by blast
    then show ?thesis
      using places_at [OF al k(1)]
      by (auto simp: place_legal_def in_reg_def in_slot_def FIRST_REG_def NUM_REGS_def)
  qed
  show "place_of fn' t \<noteq> place_of fn' u"
    if d: "t < nat (fn_ntemps fn)" "u < nat (fn_ntemps fn)" "live_at (fn_insns fn) t q" "live_at (fn_insns fn) u q" "t \<noteq> u"
    for t u q
  proof -
    have "\<exists>i. defs_at (fn_insns fn) t i" "\<exists>i. defs_at (fn_insns fn) u i"
      using d by (auto simp: live_at_def)
    then obtain j k where "j < length js" "iv_temp (js ! j) = t" "k < length js" "iv_temp (js ! k) = u"
      using index d(1,2) by meson
    then show ?thesis using places_apart [OF al, of j k q] d(3-5) by auto
  qed
qed

lemma regalloc_lengths:
  assumes "regalloc qsort fn = Some fn'"
  shows "length (fn_temp_reg fn') = nat (fn_ntemps fn')" "length (fn_temp_spill fn') = nat (fn_ntemps fn')"
  using assms by (auto simp: regalloc_def Let_def split: if_splits bind_splits prod.splits)

text \<open>
  C8. The register allocator always returns, and the allocation is sound: every temporary that is
  defined gets one of the registers \<open>d2\<close> to \<open>d7\<close> or an aligned slot inside the spill area, and two
  temporaries that are live at the same position never get the same place. This holds for every
  function and for every order in which the library's sort leaves equal intervals.
\<close>

theorem registers_never_clash:
  assumes "qsort_ok qsort" "0 \<le> fn_ntemps fn"
  shows "\<exists>fn'. regalloc qsort fn = Some fn' \<and> fn_insns fn' = fn_insns fn \<and>
    (\<forall>t<nat (fn_ntemps fn). (\<exists>i. defs_at (fn_insns fn) t i) \<longrightarrow> place_legal fn' (place_of fn' t)) \<and>
    (\<forall>t<nat (fn_ntemps fn). \<forall>u<nat (fn_ntemps fn). \<forall>q.
       live_at (fn_insns fn) t q \<longrightarrow> live_at (fn_insns fn) u q \<longrightarrow> t \<noteq> u \<longrightarrow>
       place_of fn' t \<noteq> place_of fn' u)"
proof -
  obtain js st fn' where r: "regalloc qsort fn = Some fn'" and al: "allocates fn js st fn'"
    using regalloc_allocates [OF assms] by blast
  have "fn_insns fn' = fn_insns fn" using al by (simp add: allocates_def)
  then show ?thesis using r allocates_sound [OF al] by blast
qed


section \<open>Witnesses\<close>

text \<open>An insertion sort does what the standard asks of \<open>qsort\<close>.\<close>

fun insert_by :: "('e \<Rightarrow> 'e \<Rightarrow> int) \<Rightarrow> 'e \<Rightarrow> 'e list \<Rightarrow> 'e list" where
  "insert_by cmp x [] = [x]"
| "insert_by cmp x (y # ys) = (if cmp x y \<le> 0 then x # y # ys else y # insert_by cmp x ys)"

fun sort_by :: "('e \<Rightarrow> 'e \<Rightarrow> int) \<Rightarrow> 'e list \<Rightarrow> 'e list" where
  "sort_by cmp [] = []"
| "sort_by cmp (x # xs) = insert_by cmp x (sort_by cmp xs)"

lemma insert_by_mset [simp]: "mset (insert_by cmp x xs) = add_mset x (mset xs)"
  by (induction xs) auto

lemma insert_by_set [simp]: "set (insert_by cmp x xs) = insert x (set xs)"
  by (induction xs) auto

lemma insert_by_sorted:
  assumes "consistent cmp" "sorted_wrt (\<lambda>a b. cmp a b \<le> 0) xs"
  shows "sorted_wrt (\<lambda>a b. cmp a b \<le> 0) (insert_by cmp x xs)"
  using assms(2)
proof (induction xs)
  case (Cons y ys)
  have "cmp x z \<le> 0" if "cmp x y \<le> 0" "z \<in> set ys" for z
    using that Cons.prems assms(1) by (auto simp: consistent_def)
  moreover have "cmp y x \<le> 0" if "\<not> cmp x y \<le> 0"
    using that assms(1) by (auto simp: consistent_def)
  ultimately show ?case using Cons by auto
qed simp

lemma sort_by_ok: "qsort_ok sort_by"
proof -
  have "mset (sort_by cmp xs) = mset xs \<and> sorted_wrt (\<lambda>a b. cmp a b \<le> 0) (sort_by cmp xs)"
    if "consistent cmp" for cmp :: "'a \<Rightarrow> 'a \<Rightarrow> int" and xs
    using insert_by_sorted [OF that] by (induction xs) auto
  then show ?thesis by (auto simp: qsort_ok_def)
qed

text \<open>Eight constants that are all live until they are added up.\<close>

definition sum_of_eight :: ir_func where
  "sum_of_eight = (ir_new_func ''sum'')\<lparr>fn_ntemps := 15, fn_insns :=
     map (\<lambda>t. (blank_insn IR_LIC)\<lparr>ii_dst := int t, ii_imm := int t\<rparr>) [0..<8] @
     map (\<lambda>t. (blank_insn IR_ADD)\<lparr>ii_dst := int (8 + t), ii_a := int (if t = 0 then 0 else 7 + t), ii_b := int (t + 1)\<rparr>) [0..<7]\<rparr>"

lemma sum_of_eight_lives:
  "live_at (fn_insns sum_of_eight) 0 7" "live_at (fn_insns sum_of_eight) 7 7"
  "defs_at (fn_insns sum_of_eight) 7 7"
proof -
  have i: "defs_at (fn_insns sum_of_eight) 0 0" "occurs_at (fn_insns sum_of_eight) 0 8"
    "defs_at (fn_insns sum_of_eight) 7 7" "occurs_at (fn_insns sum_of_eight) 7 14"
    by code_simp+
  show "live_at (fn_insns sum_of_eight) 0 7"
    unfolding live_at_def using i(1,2) by (intro exI [of _ 0] exI [of _ 8]) simp
  show "live_at (fn_insns sum_of_eight) 7 7"
    unfolding live_at_def using i(3,4) by (intro exI [of _ 7] exI [of _ 14]) simp
  show "defs_at (fn_insns sum_of_eight) 7 7" by (fact i)
qed

theorem registers_never_clash_witness:
  "\<exists>fn'. regalloc sort_by sum_of_eight = Some fn' \<and> place_legal fn' (place_of fn' 7) \<and>
     place_of fn' 0 \<noteq> place_of fn' 7"
proof -
  have n: "nat (fn_ntemps sum_of_eight) = 15" "0 \<le> fn_ntemps sum_of_eight"
    by (simp_all add: sum_of_eight_def)
  obtain fn' where r: "regalloc sort_by sum_of_eight = Some fn'"
    and legal: "\<forall>t<15. (\<exists>i. defs_at (fn_insns sum_of_eight) t i) \<longrightarrow> place_legal fn' (place_of fn' t)"
    and apart: "\<forall>t<15. \<forall>u<15. \<forall>q. live_at (fn_insns sum_of_eight) t q \<longrightarrow>
      live_at (fn_insns sum_of_eight) u q \<longrightarrow> t \<noteq> u \<longrightarrow> place_of fn' t \<noteq> place_of fn' u"
    using registers_never_clash [OF sort_by_ok n(2)] unfolding n(1) by blast
  have "place_legal fn' (place_of fn' 7)" using legal [rule_format, OF _ exI, OF _ sum_of_eight_lives(3)] by simp
  moreover have "place_of fn' 0 \<noteq> place_of fn' 7"
    using apart [rule_format, OF _ _ sum_of_eight_lives(1,2)] by simp
  ultimately show ?thesis using r by blast
qed


end
