(* ===== verification/Pc_Sim.thy ===== *)
theory Pc_Sim
  imports Pc_Target Pc_Alloc
begin

text \<open>
  The back end is correct on straight-line code: what \<open>cf_emit\<close> prints for an allocated function
  computes what the instructions mean. The first part holds the memory and arithmetic lemmas, then comes
  the relation between the two machines and a simulation lemma for every instruction pattern.
\<close>

section \<open>Memory\<close>

lemma byte_at [simp]:
  "a \<noteq> a + (1::u32)" "a \<noteq> a + (2::u32)" "a \<noteq> a + (3::u32)"
  "a + 1 \<noteq> a + (2::u32)" "a + 1 \<noteq> a + (3::u32)" "a + 2 \<noteq> a + (3::u32)"
  "a + 1 \<noteq> (a::u32)" "a + 2 \<noteq> (a::u32)" "a + 3 \<noteq> (a::u32)"
  "a + 2 \<noteq> a + (1::u32)" "a + 3 \<noteq> a + (1::u32)" "a + 3 \<noteq> a + (2::u32)"
  by simp_all

lemma join_bytes:
  fixes v :: u32
  shows "push_bit 24 (ucast (ucast (drop_bit 24 v) :: u8)) OR push_bit 16 (ucast (ucast (drop_bit 16 v) :: u8)) OR
    push_bit 8 (ucast (ucast (drop_bit 8 v) :: u8)) OR ucast (ucast v :: u8) = v"
  by (rule u32_eqI) (auto simp: bit_simps)

lemma load_store_same [simp]: "load32 (store32 mem a v) a = v"
  by (simp add: load32_def store32_def join_bytes)

lemma store32_outside:
  assumes "\<And>j. j < 4 \<Longrightarrow> x \<noteq> a + of_nat j"
  shows "store32 mem a v x = mem x"
  using assms [of 0] assms [of 1] assms [of 2] assms [of 3] by (simp add: store32_def)

lemma load32_cong:
  assumes "\<And>j. j < 4 \<Longrightarrow> mem (a + of_nat j) = mem' (a + of_nat j)"
  shows "load32 mem a = load32 mem' a"
  using assms [of 0] assms [of 1] assms [of 2] assms [of 3] by (simp add: load32_def)

section \<open>Operators\<close>

lemma sign_bit: "bit (w::u32) 31 \<longleftrightarrow> sint w < 0"
  by (simp add: bit_last_iff [symmetric])

lemma sint_diff:
  fixes d s :: u32
  shows "sint (d - s) = sint d - sint s \<or> sint (d - s) = sint d - sint s + 2 ^ 32 \<or>
    sint (d - s) = sint d - sint s - 2 ^ 32"
proof -
  obtain k where k: "sint (d - s) = sint d - sint s + k * 2 ^ 32"
  proof -
    have "(word_of_int (sint (d - s)) :: u32) = word_of_int (sint d - sint s)" by simp
    then have "sint (d - s) mod 2 ^ 32 = (sint d - sint s) mod 2 ^ 32"
      by (simp only: word_of_int_eq_iff take_bit_eq_mod) simp
    then show ?thesis using that by (metis mod_eqE mult.commute diff_add_cancel add.commute)
  qed
  have r: "- (2 ^ 31) \<le> sint w" "sint w < 2 ^ 31" for w :: u32
    using sint_greater_eq [of w] sint_less [of w] by simp_all
  have "k \<in> {- 1, 0, 1}"
    using k r [of "d - s"] r [of d] r [of s] by simp arith
  with k show ?thesis by auto
qed

lemma signed_less_flags: "(cc_N s d \<noteq> cc_V s d) \<longleftrightarrow> sint d < sint s"
proof -
  have r: "- (2 ^ 31) \<le> sint w" "sint w < 2 ^ 31" for w :: u32
    using sint_greater_eq [of w] sint_less [of w] by simp_all
  show ?thesis
    using sint_diff [of d s] r [of "d - s"] r [of d] r [of s]
    unfolding cc_N_def cc_V_def sign_bit by auto
qed

lemma zero_flag: "cc_Z s d \<longleftrightarrow> d = s"
  by (simp add: cc_Z_def)

lemmas flag_defs = signed_less_flags zero_flag cc_C_def

lemma set_and_negate:
  "low_byte (low_byte 0 (if h then 0xFF else 0)) (- low_byte 0 (if h then 0xFF else 0)) = c_bool h"
  by (cases h) (simp_all add: low_byte_def)

lemma shift_count: "b < 32 \<Longrightarrow> (b::u32) AND 63 = b"
proof -
  assume "b < 32"
  then have "unat b < 2 ^ 6" by (simp add: word_less_nat_alt)
  then have "unat (take_bit 6 b) = unat b"
    by (simp only: unsigned_take_bit_eq take_bit_nat_eq_self)
  then have "take_bit 6 b = b" by (rule unsigned_word_eqI)
  then show ?thesis by (simp add: take_bit_eq_mask mask_numeral)
qed

lemma mod_by_division: "b \<noteq> 0 \<Longrightarrow> a - c_sdiv a b * b = c_smod a b"
proof -
  have "c_smod a b = word_of_int (sint a - sint a sdiv sint b * sint b)"
    by (simp only: c_smod_def minus_sdiv_mult_eq_smod)
  then show ?thesis by (simp add: c_sdiv_def)
qed

lemma umod_by_division: "a - a div b * b = (a mod b :: u32)"
  by (rule minus_div_mult_eq_mod)

lemma byte_clear: "low_byte 0 (ucast (x::u8)) = ucast x"
  by (rule u32_eqI) (auto simp: low_byte_def bit_simps)


lemma half_clear: "low_half 0 (load16 mem a) = load16 mem a"
  by (rule u32_eqI) (auto simp: low_half_def load16_def bit_simps)

lemma half_extend: "sext_half (low_half d v) = sext_half v"
  by (rule u32_eqI) (auto simp: sext_half_def low_half_def bit_simps)

lemma byte_extend: "sext_half (sext_byte (low_byte d (ucast b))) = scast (b::u8)"
  by (rule u32_eqI) (auto simp: sext_half_def sext_byte_def low_byte_def bit_simps)

section \<open>The frame\<close>

text \<open>
  \<open>L\<close> is the size of the locals. Below them lie the spill slots, the six saved registers, and the four
  bytes that \<open>emit_mod\<close> pushes; above the frame pointer lie the caller's frame pointer and the return
  address. The program itself touches none of these: its memory is \<open>e_ok\<close>.
\<close>

definition frame_size :: "ir_func \<Rightarrow> int \<Rightarrow> int" where
  "frame_size fn L = L + fn_nspills fn * 4"

definition frame_ok :: "ir_func \<Rightarrow> int \<Rightarrow> bool" where
  "frame_ok fn L \<longleftrightarrow> locals_size fn = Some L \<and> 0 \<le> L \<and> 0 \<le> fn_nspills fn \<and> frame_size fn L + 28 < 2 ^ 31"

definition dist :: "env \<Rightarrow> u32 \<Rightarrow> int" where
  "dist env a = uint (e_fp env - a)"

definition in_spills :: "env \<Rightarrow> ir_func \<Rightarrow> int \<Rightarrow> u32 \<Rightarrow> bool" where
  "in_spills env fn L a \<longleftrightarrow> L < dist env a \<and> dist env a \<le> frame_size fn L"

definition in_saved :: "env \<Rightarrow> ir_func \<Rightarrow> int \<Rightarrow> u32 \<Rightarrow> bool" where
  "in_saved env fn L a \<longleftrightarrow>
     frame_size fn L < dist env a \<and> dist env a \<le> frame_size fn L + 24 \<or> uint (a - e_fp env) < 8"

definition in_push :: "env \<Rightarrow> ir_func \<Rightarrow> int \<Rightarrow> u32 \<Rightarrow> bool" where
  "in_push env fn L a \<longleftrightarrow> frame_size fn L + 24 < dist env a \<and> dist env a \<le> frame_size fn L + 28"

definition reserved :: "env \<Rightarrow> ir_func \<Rightarrow> int \<Rightarrow> u32 \<Rightarrow> bool" where
  "reserved env fn L a \<longleftrightarrow> in_spills env fn L a \<or> in_saved env fn L a \<or> in_push env fn L a"

definition below :: "env \<Rightarrow> int \<Rightarrow> u32" where
  "below env k = e_fp env + word_of_int (- k)"

definition stack_top :: "env \<Rightarrow> ir_func \<Rightarrow> int \<Rightarrow> u32" where
  "stack_top env fn L = below env (frame_size fn L + 24)"

lemma dist_below:
  assumes "0 \<le> k" "k < 2 ^ 32"
  shows "dist env (below env k) = k"
proof -
  have "e_fp env - below env k = (word_of_int k :: u32)" by (simp add: below_def)
  moreover have "uint (word_of_int k :: u32) = k"
    using assms by (simp add: uint_word_of_int)
  ultimately show ?thesis by (simp only: dist_def)
qed

lemma dist_bytes:
  assumes "int j \<le> k" "k < 2 ^ 32"
  shows "dist env (below env k + of_nat j) = k - int j"
proof -
  have "below env k + of_nat j = below env (k - int j)" by (simp add: below_def)
  then show ?thesis using assms dist_below [of "k - int j" env] by simp
qed

lemma store_below:
  assumes "4 \<le> k" "k < 2 ^ 32" "\<not> (k - 4 < dist env x \<and> dist env x \<le> k)"
  shows "store32 mem (below env k) v x = mem x"
proof (rule store32_outside)
  fix j :: nat assume "j < 4"
  then have "dist env (below env k + of_nat j) = k - int j"
    using assms(1,2) by (intro dist_bytes) simp_all
  with assms(3) \<open>j < 4\<close> show "x \<noteq> below env k + of_nat j" by force
qed

lemma load_below_cong:
  assumes "4 \<le> k" "k < 2 ^ 32" "\<And>x. k - 4 < dist env x \<Longrightarrow> dist env x \<le> k \<Longrightarrow> mem x = mem' x"
  shows "load32 mem (below env k) = load32 mem' (below env k)"
proof (rule load32_cong)
  fix j :: nat assume "j < 4"
  then have "dist env (below env k + of_nat j) = k - int j"
    using assms(1,2) by (intro dist_bytes) simp_all
  with \<open>j < 4\<close> show "mem (below env k + of_nat j) = mem' (below env k + of_nat j)"
    by (intro assms(3)) simp_all
qed

section \<open>Places\<close>

definition legal_temp :: "ir_func \<Rightarrow> nat \<Rightarrow> bool" where
  "legal_temp fn t \<longleftrightarrow> t < length (fn_temp_reg fn) \<and> t < length (fn_temp_spill fn) \<and>
     place_legal fn (place_of fn t)"

definition val_of :: "env \<Rightarrow> int \<Rightarrow> place \<Rightarrow> mach \<Rightarrow> u32" where
  "val_of env L pl m = (case pl of
     In_reg r \<Rightarrow> m_d m (nat r) | In_slot s \<Rightarrow> load32 (m_mem m) (below env (L + s + 4)))"

definition src :: "place \<Rightarrow> nat \<Rightarrow> nat" where
  "src pl sc = (case pl of In_reg r \<Rightarrow> nat r | In_slot s \<Rightarrow> sc)"

definition load_src :: "env \<Rightarrow> int \<Rightarrow> place \<Rightarrow> nat \<Rightarrow> mach \<Rightarrow> mach" where
  "load_src env L pl sc m = (case pl of In_reg r \<Rightarrow> m | In_slot s \<Rightarrow> set_d sc (val_of env L pl m) m)"

definition store_dst :: "env \<Rightarrow> int \<Rightarrow> place \<Rightarrow> mach \<Rightarrow> mach" where
  "store_dst env L pl m = (case pl of In_reg r \<Rightarrow> m
   | In_slot s \<Rightarrow> m\<lparr>m_mem := store32 (m_mem m) (below env (L + s + 4)) (m_d m 0), m_cc := None\<rparr>)"

definition reload :: "int \<Rightarrow> place \<Rightarrow> nat \<Rightarrow> asm list" where
  "reload L pl sc = (case pl of In_reg r \<Rightarrow> [] | In_slot s \<Rightarrow> [Move ''l'' (Fp_at (- L - (s + 4))) (Dn sc)])"

definition spillback :: "int \<Rightarrow> place \<Rightarrow> asm list" where
  "spillback L pl = (case pl of In_reg r \<Rightarrow> [] | In_slot s \<Rightarrow> [Move ''l'' (Dn 0) (Fp_at (- L - (s + 4)))])"

lemma rs_rd_wd:
  assumes "frame_ok fn L" "legal_temp fn t"
  shows "rs fn (int t) sc = Some (src (place_of fn t) sc, reload L (place_of fn t) sc)"
    "rd fn (int t) 0 = Some (src (place_of fn t) 0)"
    "wd fn (int t) (src (place_of fn t) 0) = Some (spillback L (place_of fn t))"
  using assms
  by (auto simp: rs_def rd_def wd_def arr_def legal_temp_def place_legal_def place_of_def src_def reload_def
    spillback_def dreg_def dregs_def spill_byte_offset_def frame_ok_def split: if_splits)


lemma fp_at_below:
  assumes "m_fp m = e_fp env"
  shows "m_fp m + word_of_int (- L - (s + 4)) = below env (L + s + 4)"
proof -
  have "- L - (s + 4) = - (L + s + 4)" by simp
  then show ?thesis using assms by (simp only: below_def)
qed

lemma exec_reload:
  assumes "m_fp m = e_fp env" "m_ret m = None"
  shows "exec_list env (reload L pl sc @ xs) m = exec_list env xs (load_src env L pl sc m)"
  using assms fp_at_below [OF assms(1)]
  by (auto simp: reload_def load_src_def exec_asm_def fetch_def put_def set_d_def val_of_def split: place.splits)

lemma exec_spillback:
  assumes "m_fp m = e_fp env" "m_ret m = None"
  shows "exec_list env (spillback L pl) m = Some (store_dst env L pl m)"
  using assms fp_at_below [OF assms(1)]
  by (auto simp: spillback_def store_dst_def exec_asm_def fetch_def put_def split: place.splits)

lemma load_src_fields [simp]:
  "m_fp (load_src env L pl sc m) = m_fp m" "m_sp (load_src env L pl sc m) = m_sp m"
  "m_ret (load_src env L pl sc m) = m_ret m" "m_mem (load_src env L pl sc m) = m_mem m"
  "r \<noteq> sc \<Longrightarrow> m_d (load_src env L pl sc m) r = m_d m r"
  by (auto simp: load_src_def set_d_def split: place.splits)

lemma load_src_value [simp]: "m_d (load_src env L pl sc m) (src pl sc) = val_of env L pl m"
  by (auto simp: load_src_def src_def set_d_def val_of_def split: place.splits)

lemma val_of_load_src:
  assumes "place_legal fn pl" "sc < 2"
  shows "val_of env L pl (load_src env L pl' sc m) = val_of env L pl m"
  using assms by (auto simp: val_of_def place_legal_def split: place.splits)

section \<open>Writing a destination\<close>

text \<open>
  \<open>computed\<close>: the value of a destination is in its register (\<open>d0\<close> for a spilled one) and nothing else
  that matters has changed. \<open>wrote\<close>: the value is in its place and all other places are as before.
\<close>

definition computed :: "env \<Rightarrow> ir_func \<Rightarrow> int \<Rightarrow> place \<Rightarrow> u32 \<Rightarrow> mach \<Rightarrow> mach \<Rightarrow> bool" where
  "computed env fn L pl v m m1 \<longleftrightarrow>
     m_fp m1 = m_fp m \<and> m_sp m1 = m_sp m \<and> m_ret m1 = m_ret m \<and> m_d m1 (src pl 0) = v \<and>
     (\<forall>r. 2 \<le> r \<longrightarrow> r \<noteq> src pl 0 \<longrightarrow> m_d m1 r = m_d m r) \<and>
     (\<forall>a. \<not> in_push env fn L a \<longrightarrow> m_mem m1 a = m_mem m a)"

definition wrote :: "env \<Rightarrow> ir_func \<Rightarrow> int \<Rightarrow> place \<Rightarrow> u32 \<Rightarrow> mach \<Rightarrow> mach \<Rightarrow> bool" where
  "wrote env fn L pl v m m' \<longleftrightarrow>
     m_fp m' = m_fp m \<and> m_sp m' = m_sp m \<and> m_ret m' = m_ret m \<and> val_of env L pl m' = v \<and>
     (\<forall>pl'. place_legal fn pl' \<longrightarrow> pl' \<noteq> pl \<longrightarrow> val_of env L pl' m' = val_of env L pl' m) \<and>
     (\<forall>a. \<not> in_spills env fn L a \<longrightarrow> \<not> in_push env fn L a \<longrightarrow> m_mem m' a = m_mem m a)"

lemma slot_span:
  assumes "frame_ok fn L" "place_legal fn (In_slot s)"
  shows "4 \<le> L + s + 4" "L + s + 4 < 2 ^ 32" "L + s + 4 \<le> frame_size fn L" "L \<le> L + s"
  using assms by (simp_all add: frame_ok_def place_legal_def frame_size_def)

lemma slot_value_cong:
  assumes "frame_ok fn L" "place_legal fn (In_slot s)" "\<And>a. \<not> in_push env fn L a \<Longrightarrow> mem a = mem' a"
  shows "load32 mem (below env (L + s + 4)) = load32 mem' (below env (L + s + 4))"
  using slot_span [OF assms(1,2)]
  by (intro load_below_cong assms(3)) (simp_all add: in_push_def)

lemma slots_disjoint:
  assumes "place_legal fn (In_slot s)" "place_legal fn (In_slot s')" "s \<noteq> s'"
  shows "s + 4 \<le> s' \<or> s' + 4 \<le> s"
proof -
  obtain j k where "s = 4 * j" "s' = 4 * k" using assms(1,2) by (auto simp: place_legal_def elim!: dvdE)
  with assms(3) show ?thesis by auto
qed

lemma slot_store_other:
  assumes "frame_ok fn L" "place_legal fn (In_slot s)" "place_legal fn (In_slot s')" "s \<noteq> s'"
  shows "load32 (store32 mem (below env (L + s + 4)) v) (below env (L + s' + 4)) = load32 mem (below env (L + s' + 4))"
  using slot_span [OF assms(1,2)] slot_span [OF assms(1,3)] slots_disjoint [OF assms(2-4)]
  by (intro load_below_cong store_below) auto

lemma wrote_reg:
  assumes "frame_ok fn L" "place_legal fn (In_reg r)" "computed env fn L (In_reg r) v m m1"
  shows "wrote env fn L (In_reg r) v m m1"
proof -
  have "val_of env L pl' m1 = val_of env L pl' m" if "place_legal fn pl'" "pl' \<noteq> In_reg r" for pl'
  proof (cases pl')
    case (In_reg r')
    then show ?thesis
      using that assms(2,3) by (auto simp: val_of_def computed_def src_def place_legal_def)
  next
    case (In_slot s')
    then show ?thesis
      using slot_value_cong [OF assms(1), of s' env "m_mem m1" "m_mem m"] that assms(3)
      by (simp add: val_of_def computed_def)
  qed
  then show ?thesis using assms(3) by (auto simp: wrote_def computed_def val_of_def src_def)
qed

lemma wrote_slot:
  assumes ok: "frame_ok fn L" and leg: "place_legal fn (In_slot s)" and c: "computed env fn L (In_slot s) v m m1"
  shows "wrote env fn L (In_slot s) v m (store_dst env L (In_slot s) m1)"
proof -
  let ?m = "store_dst env L (In_slot s) m1"
  have mem: "m_mem ?m = store32 (m_mem m1) (below env (L + s + 4)) v"
    using c by (simp add: store_dst_def computed_def src_def)
  have "val_of env L pl' ?m = val_of env L pl' m" if "place_legal fn pl'" "pl' \<noteq> In_slot s" for pl'
  proof (cases pl')
    case (In_reg r')
    then show ?thesis
      using that c by (auto simp: val_of_def computed_def src_def place_legal_def store_dst_def)
  next
    case (In_slot s')
    with that have l: "place_legal fn (In_slot s')" and n: "s \<noteq> s'" by simp_all
    have "load32 (m_mem m1) (below env (L + s' + 4)) = load32 (m_mem m) (below env (L + s' + 4))"
      using c by (intro slot_value_cong [OF ok l]) (simp add: computed_def)
    then show ?thesis
      using slot_store_other [OF ok leg l n] mem In_slot by (simp add: val_of_def)
  qed
  moreover have "m_mem ?m a = m_mem m a" if "\<not> in_spills env fn L a" "\<not> in_push env fn L a" for a
  proof -
    have "\<not> (L + s + 4 - 4 < dist env a \<and> dist env a \<le> L + s + 4)"
      using that(1) slot_span [OF ok leg] by (auto simp: in_spills_def)
    then have "m_mem ?m a = m_mem m1 a"
      unfolding mem using slot_span [OF ok leg] by (intro store_below)
    then show ?thesis using c that(2) by (simp add: computed_def)
  qed
  moreover have "m_fp ?m = m_fp m" "m_sp ?m = m_sp m" "m_ret ?m = m_ret m"
    using c by (simp_all add: computed_def store_dst_def)
  moreover have "val_of env L (In_slot s) ?m = v" using mem by (simp add: val_of_def)
  ultimately show ?thesis by (simp add: wrote_def)
qed

lemma exec_finish:
  assumes "frame_ok fn L" "place_legal fn pl" "computed env fn L pl v m m1" "m_fp m = e_fp env" "m_ret m = None"
  obtains m' where "exec_list env (spillback L pl) m1 = Some m'" "wrote env fn L pl v m m'"
proof
  have f: "m_fp m1 = e_fp env" "m_ret m1 = None" using assms(3-5) by (simp_all add: computed_def)
  show "exec_list env (spillback L pl) m1 = Some (store_dst env L pl m1)"
    using f by (rule exec_spillback)
  show "wrote env fn L pl v m (store_dst env L pl m1)"
    using wrote_reg [OF assms(1)] wrote_slot [OF assms(1)] assms(2,3)
    by (cases pl) (auto simp: store_dst_def)
qed

section \<open>Instruction patterns\<close>

lemma exec_stopped: "m_ret m \<noteq> None \<Longrightarrow> exec_list env xs m = Some m"
  by (cases xs) simp_all

lemma exec_append: "exec_list env (xs @ ys) m = do { m' \<leftarrow> exec_list env xs m; exec_list env ys m' }"
proof (induction xs arbitrary: m)
  case (Cons x xs)
  then show ?case by (cases "exec_asm env x m") (auto simp: exec_stopped)
qed simp

definition ready :: "mach \<Rightarrow> mach \<Rightarrow> bool" where
  "ready m m2 \<longleftrightarrow> m_fp m2 = m_fp m \<and> m_sp m2 = m_sp m \<and> m_ret m2 = None \<and> m_mem m2 = m_mem m \<and>
     (\<forall>r\<ge>2. m_d m2 r = m_d m r)"

lemma src_cases:
  assumes "place_legal fn pl"
  shows "src pl sc = sc \<or> 2 \<le> src pl sc"
  using assms by (auto simp: place_legal_def src_def split: place.splits)

lemma operand:
  assumes "place_legal fn pa" "m_fp m = e_fp env" "m_ret m = None"
  obtains m2 where "\<And>xs. exec_list env (reload L pa 0 @ xs) m = exec_list env xs m2"
    "m_d m2 (src pa 0) = val_of env L pa m" "ready m m2"
proof
  show "exec_list env (reload L pa 0 @ xs) m = exec_list env xs (load_src env L pa 0 m)" for xs
    using assms(2,3) by (rule exec_reload)
qed (use assms(3) in \<open>simp_all add: ready_def\<close>)

lemma operands:
  assumes legal: "place_legal fn pa" "place_legal fn pb" and m: "m_fp m = e_fp env" "m_ret m = None"
  obtains m2 where "\<And>xs. exec_list env (reload L pa 0 @ reload L pb 1 @ xs) m = exec_list env xs m2"
    "m_d m2 (src pa 0) = val_of env L pa m" "m_d m2 (src pb 1) = val_of env L pb m" "ready m m2"
proof
  let ?m = "load_src env L pb 1 (load_src env L pa 0 m)"
  show "exec_list env (reload L pa 0 @ reload L pb 1 @ xs) m = exec_list env xs ?m" for xs
    using m by (simp add: exec_reload)
  have "src pa 0 \<noteq> 1" using src_cases [OF legal(1), of 0] by auto
  then show "m_d ?m (src pa 0) = val_of env L pa m" by simp
  show "m_d ?m (src pb 1) = val_of env L pb m"
    using legal(2) by (simp add: val_of_load_src)
  show "ready m ?m" using m by (simp add: ready_def)
qed

lemma ready_computed:
  assumes "ready m m2" "m_ret m = None" "m_fp m3 = m_fp m2" "m_sp m3 = m_sp m2" "m_ret m3 = None"
    "m_mem m3 = m_mem m2" "m_d m3 (src pl 0) = v" "\<And>r. 2 \<le> r \<Longrightarrow> r \<noteq> src pl 0 \<Longrightarrow> m_d m3 r = m_d m2 r"
  shows "computed env fn L pl v m m3"
  using assms by (simp add: ready_def computed_def)

lemmas exec_defs = exec_asm_def fetch_def put_def set_d_def

lemma binop_exec:
  assumes "place_legal fn pa" "place_legal fn pb" "place_legal fn pd" "ready m m2" "m_ret m = None"
    "m_d m2 (src pa 0) = a" "m_d m2 (src pb 1) = b" "alu mnem b a = Some v"
    and sa_def: "sa = src pa 0" and sb_def: "sb = src pb 1" and sd_def: "sd = src pd 0"
  obtains m3 where
    "exec_list env ((if sb = sd \<and> sa \<noteq> sd then [Move ''l'' (Dn sb) (Dn 1)] else []) @
       (if sa \<noteq> sd then [Move ''l'' (Dn sa) (Dn sd)] else []) @
       [Alu mnem (if sb = sd \<and> sa \<noteq> sd then 1 else sb) sd]) m2 = Some m3"
    "computed env fn L pd v m m3"
proof -
  have sd: "sd \<noteq> 1" and sa: "sa \<noteq> 1" 
    using src_cases [OF assms(1), of 0] src_cases [OF assms(3), of 0] by (auto simp: sd_def sa_def)
  have m2: "m_d m2 sa = a" "m_d m2 sb = b" "m_ret m2 = None"
    using assms by (simp_all add: ready_def)
  consider "sa = sd" | "sa \<noteq> sd" "sb \<noteq> sd" | "sa \<noteq> sd" "sb = sd" by blast
  then show ?thesis
  proof cases
    case 1
    let ?m = "set_d sd v m2"
    have "computed env fn L pd v m ?m"
      using assms(4,5) m2 by (intro ready_computed) (simp_all add: set_d_def sd_def)
    with that 1 m2 assms(8) show ?thesis by (simp add: exec_defs)
  next
    case 2
    let ?m = "set_d sd v (set_d sd a m2)"
    have "computed env fn L pd v m ?m"
      using assms(4,5) m2 by (intro ready_computed) (simp_all add: set_d_def sd_def)
    with that 2 m2 assms(8) show ?thesis by (simp add: exec_defs)
  next
    case 3
    let ?m = "set_d sd v (set_d sd a (set_d 1 b m2))"
    have "computed env fn L pd v m ?m"
      using assms(4,5) m2 by (intro ready_computed) (auto simp: set_d_def sd_def)
    with that 3 m2 assms(8) sd sa show ?thesis by (simp add: exec_defs)
  qed
qed

definition writes :: "env \<Rightarrow> ir_func \<Rightarrow> int \<Rightarrow> nat \<Rightarrow> u32 \<Rightarrow> mach \<Rightarrow> asm list option \<Rightarrow> bool" where
  "writes env fn L t v m code \<longleftrightarrow>
     (\<exists>xs m'. code = Some xs \<and> exec_list env xs m = Some m' \<and> wrote env fn L (place_of fn t) v m m')"

lemma writes_by:
  assumes "frame_ok fn L" "legal_temp fn td" "m_fp m = e_fp env" "m_ret m = None"
    and pre: "exec_list env xs m = Some m3" "computed env fn L (place_of fn td) v m m3"
  shows "writes env fn L td v m (Some (xs @ spillback L (place_of fn td)))"
proof -
  have "place_legal fn (place_of fn td)" using assms(2) by (simp add: legal_temp_def)
  from exec_finish [OF assms(1) this pre(2) assms(3,4)]
  obtain m' where "exec_list env (spillback L (place_of fn td)) m3 = Some m'"
    "wrote env fn L (place_of fn td) v m m'" by blast
  then show ?thesis using pre(1) by (simp add: writes_def exec_append)
qed

lemma legal_place: "legal_temp fn t \<Longrightarrow> place_legal fn (place_of fn t)"
  by (simp add: legal_temp_def)

lemma emit_binop_writes:
  assumes ok: "frame_ok fn L" and t: "legal_temp fn ta" "legal_temp fn tb" "legal_temp fn td"
    and i: "ii_a i = int ta" "ii_b i = int tb" "ii_dst i = int td"
    and m: "m_fp m = e_fp env" "m_ret m = None"
    and v: "alu mnem (val_of env L (place_of fn tb) m) (val_of env L (place_of fn ta) m) = Some v"
  shows "writes env fn L td v m (emit_binop fn i mnem)"
proof -
  let ?pa = "place_of fn ta" and ?pb = "place_of fn tb" and ?pd = "place_of fn td"
  obtain m2 where m2: "\<And>xs. exec_list env (reload L ?pa 0 @ reload L ?pb 1 @ xs) m = exec_list env xs m2"
    "m_d m2 (src ?pa 0) = val_of env L ?pa m" "m_d m2 (src ?pb 1) = val_of env L ?pb m" "ready m m2"
    using operands [OF legal_place [OF t(1)] legal_place [OF t(2)] m] by blast
  obtain m3 where m3: "exec_list env
      ((if src ?pb 1 = src ?pd 0 \<and> src ?pa 0 \<noteq> src ?pd 0 then [Move ''l'' (Dn (src ?pb 1)) (Dn 1)] else []) @
       (if src ?pa 0 \<noteq> src ?pd 0 then [Move ''l'' (Dn (src ?pa 0)) (Dn (src ?pd 0))] else []) @
       [Alu mnem (if src ?pb 1 = src ?pd 0 \<and> src ?pa 0 \<noteq> src ?pd 0 then 1 else src ?pb 1) (src ?pd 0)]) m2 = Some m3"
    and c: "computed env fn L ?pd v m m3"
    using binop_exec [OF legal_place [OF t(1)] legal_place [OF t(2)] legal_place [OF t(3)] m2(4) m(2) m2(2,3) v]
    by metis
  have e: "emit_binop fn i mnem = Some ((reload L ?pa 0 @ reload L ?pb 1 @
      (if src ?pb 1 = src ?pd 0 \<and> src ?pa 0 \<noteq> src ?pd 0 then [Move ''l'' (Dn (src ?pb 1)) (Dn 1)] else []) @
       (if src ?pa 0 \<noteq> src ?pd 0 then [Move ''l'' (Dn (src ?pa 0)) (Dn (src ?pd 0))] else []) @
       [Alu mnem (if src ?pb 1 = src ?pd 0 \<and> src ?pa 0 \<noteq> src ?pd 0 then 1 else src ?pb 1) (src ?pd 0)]) @
      spillback L ?pd)"
    using rs_rd_wd [OF ok t(1)] rs_rd_wd [OF ok t(2)] rs_rd_wd [OF ok t(3)] i
    by (simp add: emit_binop_def)
  show ?thesis
    unfolding e using m3 by (intro writes_by [OF ok t(3) m _ c]) (simp only: m2(1))
qed

lemma emit_unop_writes:
  assumes ok: "frame_ok fn L" and t: "legal_temp fn ta" "legal_temp fn td"
    and i: "ii_a i = int ta" "ii_dst i = int td"
    and m: "m_fp m = e_fp env" "m_ret m = None"
    and v: "\<And>cc. una mnem cc (val_of env L (place_of fn ta) m) = Some v"
  shows "writes env fn L td v m (emit_unop fn i mnem)"
proof -
  let ?pa = "place_of fn ta" and ?pd = "place_of fn td"
  obtain m2 where m2: "\<And>xs. exec_list env (reload L ?pa 0 @ xs) m = exec_list env xs m2"
    "m_d m2 (src ?pa 0) = val_of env L ?pa m" "ready m m2"
    using operand [OF legal_place [OF t(1)] m] by blast
  let ?xs = "(if src ?pa 0 \<noteq> src ?pd 0 then [Move ''l'' (Dn (src ?pa 0)) (Dn (src ?pd 0))] else []) @
    [Una mnem (src ?pd 0)]"
  have "\<exists>m3. exec_list env ?xs m2 = Some m3 \<and> computed env fn L ?pd v m m3"
    using m2(2,3) m(2) v by (auto simp: exec_defs ready_def computed_def)
  then obtain m3 where m3: "exec_list env ?xs m2 = Some m3" and c: "computed env fn L ?pd v m m3" by blast
  have "emit_unop fn i mnem = Some ((reload L ?pa 0 @ ?xs) @ spillback L ?pd)"
    using rs_rd_wd [OF ok t(1)] rs_rd_wd [OF ok t(2)] i by (simp add: emit_unop_def)
  then show ?thesis using m3 by (simp only:) (intro writes_by [OF ok t(2) m _ c], simp only: m2(1))
qed

text \<open>
  A comparison clears its result before it compares. That is harmless unless the result's register
  holds an operand, as \<open>d0\<close> does when the left operand and the result are both spilled.
\<close>

lemma emit_cmp_writes:
  assumes ok: "frame_ok fn L" and t: "legal_temp fn ta" "legal_temp fn tb" "legal_temp fn td"
    and i: "ii_a i = int ta" "ii_b i = int tb" "ii_dst i = int td"
    and m: "m_fp m = e_fp env" "m_ret m = None"
    and apart: "src (place_of fn ta) 0 \<noteq> src (place_of fn td) 0" "src (place_of fn tb) 1 \<noteq> src (place_of fn td) 0"
    and v: "scc_holds scc (val_of env L (place_of fn tb) m) (val_of env L (place_of fn ta) m) = Some h"
    and scc: "hd scc = CHR ''s''" "\<And>cc d. una scc cc d =
      do { (s, x) \<leftarrow> cc; h \<leftarrow> scc_holds scc s x; Some (low_byte d (if h then 0xFF else 0)) }"
  shows "writes env fn L td (c_bool h) m (emit_cmp fn i scc)"
proof -
  let ?pa = "place_of fn ta" and ?pb = "place_of fn tb" and ?pd = "place_of fn td"
  obtain m2 where m2: "\<And>xs. exec_list env (reload L ?pa 0 @ reload L ?pb 1 @ xs) m = exec_list env xs m2"
    "m_d m2 (src ?pa 0) = val_of env L ?pa m" "m_d m2 (src ?pb 1) = val_of env L ?pb m" "ready m m2"
    using operands [OF legal_place [OF t(1)] legal_place [OF t(2)] m] by blast
  let ?xs = "[Moveq 0 (src ?pd 0), Cmp (src ?pb 1) (src ?pa 0), Una scc (src ?pd 0), Una ''neg.b'' (src ?pd 0)]"
  have neg: "una ''neg.b'' cc d = Some (low_byte d (- d))" for cc d by (simp add: una_def)
  have "\<exists>m3. exec_list env ?xs m2 = Some m3 \<and> computed env fn L ?pd (c_bool h) m m3"
    using m2(2-4) m(2) v apart scc set_and_negate [of h]
    by (simp add: exec_defs ready_def computed_def neg)
  then obtain m3 where m3: "exec_list env ?xs m2 = Some m3" and c: "computed env fn L ?pd (c_bool h) m m3" by blast
  have "emit_cmp fn i scc = Some ((reload L ?pa 0 @ reload L ?pb 1 @ ?xs) @ spillback L ?pd)"
    using rs_rd_wd [OF ok t(1)] rs_rd_wd [OF ok t(2)] rs_rd_wd [OF ok t(3)] i by (simp add: emit_cmp_def)
  then show ?thesis using m3 by (simp only:) (intro writes_by [OF ok t(3) m _ c], simp only: m2(1))
qed

lemma emit_load_writes:
  assumes ok: "frame_ok fn L" and t: "legal_temp fn ta" "legal_temp fn td"
    and i: "ii_a i = int ta" "ii_dst i = int td"
    and m: "m_fp m = e_fp env" "m_ret m = None"
    and v: "(sz = ''b'' \<and> clear \<and> \<not> sx \<and> v = ucast (m_mem m x)) \<or>
      (sz = ''b'' \<and> \<not> clear \<and> sx \<and> v = scast (m_mem m x)) \<or>
      (sz = ''w'' \<and> clear \<and> \<not> sx \<and> v = load16 (m_mem m) x) \<or>
      (sz = ''w'' \<and> \<not> clear \<and> sx \<and> v = sext_half (load16 (m_mem m) x)) \<or>
      (sz = ''l'' \<and> \<not> clear \<and> \<not> sx \<and> v = load32 (m_mem m) x)"
    and x: "x = val_of env L (place_of fn ta) m"
  shows "writes env fn L td v m (emit_load fn i sz sx clear)"
proof -
  let ?pa = "place_of fn ta" and ?pd = "place_of fn td"
  obtain m2 where m2: "\<And>xs. exec_list env (reload L ?pa 0 @ xs) m = exec_list env xs m2"
    "m_d m2 (src ?pa 0) = x" "ready m m2"
    using operand [OF legal_place [OF t(1)] m] x by metis
  let ?xs = "[Movea (src ?pa 0)] @ (if clear then [Moveq 0 (src ?pd 0)] else []) @ [Move sz Ind (Dn (src ?pd 0))] @
    (if sx then (if sz = ''b'' then [Una ''ext.w'' (src ?pd 0)] else []) @ [Una ''ext.l'' (src ?pd 0)] else [])"
  have "\<exists>m3. exec_list env ?xs m2 = Some m3 \<and> computed env fn L ?pd v m m3"
    using v m2(2,3) m(2)
    by (elim disjE conjE) (simp_all add: exec_defs move_part_def ready_def computed_def una_def
      byte_clear half_clear half_extend byte_extend)
  then obtain m3 where m3: "exec_list env ?xs m2 = Some m3" and c: "computed env fn L ?pd v m m3" by blast
  have "emit_load fn i sz sx clear = Some ((reload L ?pa 0 @ ?xs) @ spillback L ?pd)"
    using rs_rd_wd [OF ok t(1)] rs_rd_wd [OF ok t(2)] i by (simp add: emit_load_def)
  then show ?thesis using m3 by (simp only:) (intro writes_by [OF ok t(2) m _ c], simp only: m2(1))
qed

lemma direct_writes:
  assumes ok: "frame_ok fn L" "legal_temp fn td" "m_fp m = e_fp env" "m_ret m = None"
    and "exec_list env xs m = Some (m\<lparr>m_d := (m_d m)(src (place_of fn td) 0 := v), m_a0 := a, m_cc := c\<rparr>)"
  shows "writes env fn L td v m (Some (xs @ spillback L (place_of fn td)))"
  using assms by (intro writes_by [OF ok assms(5)]) (simp add: computed_def)

lemma mov_writes:
  assumes ok: "frame_ok fn L" and t: "legal_temp fn ta" "legal_temp fn td"
    and m: "m_fp m = e_fp env" "m_ret m = None"
  shows "writes env fn L td (val_of env L (place_of fn ta) m) m (Some (reload L (place_of fn ta) 0 @
    (if src (place_of fn ta) 0 \<noteq> src (place_of fn td) 0
     then [Move ''l'' (Dn (src (place_of fn ta) 0)) (Dn (src (place_of fn td) 0))] else []) @
    spillback L (place_of fn td)))"
proof -
  let ?pa = "place_of fn ta" and ?pd = "place_of fn td"
  obtain m2 where m2: "\<And>xs. exec_list env (reload L ?pa 0 @ xs) m = exec_list env xs m2"
    "m_d m2 (src ?pa 0) = val_of env L ?pa m" "ready m m2"
    using operand [OF legal_place [OF t(1)] m] by blast
  let ?xs = "if src ?pa 0 \<noteq> src ?pd 0 then [Move ''l'' (Dn (src ?pa 0)) (Dn (src ?pd 0))] else []"
  have "\<exists>m3. exec_list env ?xs m2 = Some m3 \<and> computed env fn L ?pd (val_of env L ?pa m) m m3"
    using m2(2,3) m(2) by (auto simp: exec_defs ready_def computed_def)
  then obtain m3 where m3: "exec_list env (reload L ?pa 0 @ ?xs) m = Some m3"
    and c: "computed env fn L ?pd (val_of env L ?pa m) m m3" unfolding m2(1) by blast
  show ?thesis using writes_by [OF ok t(2) m m3 c] by simp
qed

text \<open>
  A remainder saves the dividend on the stack and computes in \<open>d0\<close>, so its result must not be \<open>d0\<close>.
\<close>

lemma push_below:
  assumes "frame_ok fn L" "\<not> in_push env fn L a"
  shows "store32 mem (stack_top env fn L - 4) v a = mem a"
proof -
  have "stack_top env fn L - 4 = below env (frame_size fn L + 28)"
    by (simp add: stack_top_def below_def)
  moreover have "4 \<le> frame_size fn L + 28" "frame_size fn L + 28 < 2 ^ 32"
    using assms(1) by (simp_all add: frame_ok_def frame_size_def)
  ultimately show ?thesis using assms(2) by (simp only:) (rule store_below, auto simp: in_push_def)
qed

lemma emit_mod_writes:
  assumes ok: "frame_ok fn L" and t: "legal_temp fn ta" "legal_temp fn tb" "legal_temp fn td"
    and i: "ii_a i = int ta" "ii_b i = int tb" "ii_dst i = int td"
    and m: "m_fp m = e_fp env" "m_ret m = None" "m_sp m = stack_top env fn L"
    and d: "src (place_of fn td) 0 \<noteq> 0"
    and q: "alu (if ii_op i = IR_MODS then ''divs.l'' else ''divu.l'')
      (val_of env L (place_of fn tb) m) (val_of env L (place_of fn ta) m) = Some q"
  shows "writes env fn L td (val_of env L (place_of fn ta) m - q * val_of env L (place_of fn tb) m) m (emit_mod fn i)"
    (is "writes _ _ _ _ ?v _ _")
proof -
  let ?pa = "place_of fn ta" and ?pb = "place_of fn tb" and ?pd = "place_of fn td"
  let ?div = "if ii_op i = IR_MODS then ''divs.l'' else ''divu.l''"
  obtain m2 where m2: "\<And>xs. exec_list env (reload L ?pa 0 @ reload L ?pb 1 @ xs) m = exec_list env xs m2"
    "m_d m2 (src ?pa 0) = val_of env L ?pa m" "m_d m2 (src ?pb 1) = val_of env L ?pb m" "ready m m2"
    using operands [OF legal_place [OF t(1)] legal_place [OF t(2)] m(1,2)] by blast
  have s: "src ?pa 0 \<noteq> 1" "src ?pd 0 \<noteq> 1"
    using src_cases [OF legal_place [OF t(1)], of 0] src_cases [OF legal_place [OF t(3)], of 0] by auto
  let ?xs = "(if src ?pb 1 \<noteq> 1 then [Move ''l'' (Dn (src ?pb 1)) (Dn 1)] else []) @
    [Move ''l'' (Dn (src ?pa 0)) Push, Move ''l'' (Dn (src ?pa 0)) (Dn 0), Alu ?div 1 0,
     Alu ''muls.l'' 1 0, Move ''l'' Pop (Dn (src ?pd 0)), Alu ''sub.l'' 0 (src ?pd 0)]"
  have alus: "alu ''muls.l'' x y = Some (y * x)" "alu ''sub.l'' x y = Some (y - x)" for x y
    by (simp_all add: alu_def)
  have "\<exists>m3. exec_list env ?xs m2 = Some m3 \<and> computed env fn L ?pd ?v m m3"
    using m2(2-4) m(2,3) q s d push_below [OF ok]
    by (auto simp: exec_defs ready_def computed_def alus)
  then obtain m3 where m3: "exec_list env ?xs m2 = Some m3" and c: "computed env fn L ?pd ?v m m3" by blast
  have "emit_mod fn i = Some ((reload L ?pa 0 @ reload L ?pb 1 @ ?xs) @ spillback L ?pd)"
    using rs_rd_wd [OF ok t(1)] rs_rd_wd [OF ok t(2)] rs_rd_wd [OF ok t(3)] i by (simp add: emit_mod_def)
  then show ?thesis using m3 by (simp only:) (intro writes_by [OF ok t(3) m(1,2) _ c], simp only: m2(1))
qed

text \<open>Stores leave every place alone and change memory as the program does.\<close>

definition stores :: "env \<Rightarrow> mach \<Rightarrow> bytes \<Rightarrow> asm list option \<Rightarrow> bool" where
  "stores env m mem code \<longleftrightarrow> (\<exists>xs m'. code = Some xs \<and> exec_list env xs m = Some m' \<and> m_mem m' = mem \<and>
     m_fp m' = m_fp m \<and> m_sp m' = m_sp m \<and> m_ret m' = None \<and> (\<forall>r\<ge>2. m_d m' r = m_d m r))"

lemma emit_store_stores:
  assumes ok: "frame_ok fn L" and t: "legal_temp fn ta" "legal_temp fn tb"
    and i: "ii_a i = int ta" "ii_b i = int tb"
    and m: "m_fp m = e_fp env" "m_ret m = None"
    and v: "(sz = ''b'' \<and> mem = store8 (m_mem m) x v) \<or> (sz = ''w'' \<and> mem = store16 (m_mem m) x v) \<or>
      (sz = ''l'' \<and> mem = store32 (m_mem m) x v)"
    and x: "x = val_of env L (place_of fn ta) m" "v = val_of env L (place_of fn tb) m"
  shows "stores env m mem (emit_store fn i sz)"
proof -
  let ?pa = "place_of fn ta" and ?pb = "place_of fn tb"
  obtain m2 where m2: "\<And>xs. exec_list env (reload L ?pa 0 @ reload L ?pb 1 @ xs) m = exec_list env xs m2"
    "m_d m2 (src ?pa 0) = x" "m_d m2 (src ?pb 1) = v" "ready m m2"
    using operands [OF legal_place [OF t(1)] legal_place [OF t(2)] m] x by metis
  have "emit_store fn i sz = Some (reload L ?pa 0 @ reload L ?pb 1 @ [Movea (src ?pa 0), Move sz (Dn (src ?pb 1)) Ind])"
    using rs_rd_wd [OF ok t(1)] rs_rd_wd [OF ok t(2)] i by (simp add: emit_store_def)
  then show ?thesis
    using m2 v by (auto simp: stores_def exec_defs move_part_def ready_def)
qed

lemma stl_stores:
  assumes t: "legal_temp fn ta" and m: "m_fp m = e_fp env" "m_ret m = None"
    and mem: "mem = store32 (m_mem m) (e_fp env + word_of_int off) (val_of env L (place_of fn ta) m)"
  shows "stores env m mem (Some (reload L (place_of fn ta) 0 @ [Move ''l'' (Dn (src (place_of fn ta) 0)) (Fp_at off)]))"
proof -
  obtain m2 where "\<And>xs. exec_list env (reload L (place_of fn ta) 0 @ xs) m = exec_list env xs m2"
    "m_d m2 (src (place_of fn ta) 0) = val_of env L (place_of fn ta) m" "ready m m2"
    using operand [OF legal_place [OF t] m] by blast
  then show ?thesis using mem m by (auto simp: stores_def exec_defs ready_def)
qed

end
