(* ===== verification/Pc_Compile.thy ===== *)
theory Pc_Compile
  imports Pc_Sim
begin

text \<open>
  The back end as a whole: register allocation and emission together, instruction by instruction and
  then for functions, with the two patterns whose code is wrong when the result is spilled.
\<close>

section \<open>The relation between the machines\<close>

text \<open>
  A temporary that is live going into position \<open>p\<close> has its value in its place; memory agrees outside
  the reserved part of the frame.
\<close>

definition live_in :: "ir_insn list \<Rightarrow> nat \<Rightarrow> nat \<Rightarrow> bool" where
  "live_in xs p t \<longleftrightarrow> (\<exists>i<p. defs_at xs t i) \<and> (\<exists>j\<ge>p. occurs_at xs t j)"

definition related :: "env \<Rightarrow> ir_func \<Rightarrow> int \<Rightarrow> nat \<Rightarrow> ir_state \<Rightarrow> mach \<Rightarrow> bool" where
  "related env fn L p ist m \<longleftrightarrow>
     m_fp m = e_fp env \<and> m_sp m = stack_top env fn L \<and> m_ret m = None \<and>
     (\<forall>t<nat (fn_ntemps fn). live_in (fn_insns fn) p t \<longrightarrow> val_of env L (place_of fn t) m = i_temp ist (int t)) \<and>
     (\<forall>a. \<not> reserved env fn L a \<longrightarrow> m_mem m a = i_mem ist a)"

definition keeps_saved :: "env \<Rightarrow> ir_func \<Rightarrow> int \<Rightarrow> mach \<Rightarrow> mach \<Rightarrow> bool" where
  "keeps_saved env fn L m m' \<longleftrightarrow> (\<forall>a. in_saved env fn L a \<longrightarrow> m_mem m' a = m_mem m a)"

definition allocated :: "ir_func \<Rightarrow> bool" where
  "allocated fn \<longleftrightarrow>
     (\<forall>t<nat (fn_ntemps fn). (\<exists>i. defs_at (fn_insns fn) t i) \<longrightarrow> legal_temp fn t) \<and>
     (\<forall>t<nat (fn_ntemps fn). \<forall>u<nat (fn_ntemps fn). \<forall>q. live_at (fn_insns fn) t q \<longrightarrow>
        live_at (fn_insns fn) u q \<longrightarrow> t \<noteq> u \<longrightarrow> place_of fn t \<noteq> place_of fn u)"

definition env_ok :: "env \<Rightarrow> ir_func \<Rightarrow> int \<Rightarrow> bool" where
  "env_ok env fn L \<longleftrightarrow> (\<forall>a. e_ok env a \<longrightarrow> \<not> reserved env fn L a)"

section \<open>Well-formed straight-line code\<close>

definition simple_ops :: "ir_op set" where
  "simple_ops = {IR_NOP, IR_FUNC, IR_ENDF, IR_LIC, IR_LEA, IR_ADL, IR_LDL, IR_STL, IR_MOV, IR_NEG, IR_NOT,
     IR_LB, IR_LBS, IR_LH, IR_LHS, IR_LW, IR_SB, IR_SH, IR_SW, IR_ADD, IR_SUB, IR_MUL, IR_AND, IR_OR, IR_XOR,
     IR_SHL, IR_SHRS, IR_SHRU, IR_DIVS, IR_DIVU, IR_MODS, IR_MODU, IR_CMPEQ, IR_CMPNE, IR_CMPLTS, IR_CMPLES,
     IR_CMPGTS, IR_CMPGES, IR_CMPLTU, IR_CMPLEU, IR_CMPGTU, IR_CMPGEU}"

definition uses_none :: "ir_op set" where
  "uses_none = {IR_NOP, IR_FUNC, IR_ENDF, IR_LIC, IR_LEA, IR_ADL, IR_LDL}"

definition uses_one :: "ir_op set" where
  "uses_one = {IR_STL, IR_MOV, IR_NEG, IR_NOT, IR_LB, IR_LBS, IR_LH, IR_LHS, IR_LW}"

definition no_dst :: "ir_op set" where
  "no_dst = {IR_NOP, IR_FUNC, IR_ENDF, IR_STL, IR_SB, IR_SH, IR_SW}"

definition compares :: "ir_op set" where
  "compares = {IR_CMPEQ, IR_CMPNE, IR_CMPLTS, IR_CMPLES, IR_CMPGTS, IR_CMPGES, IR_CMPLTU, IR_CMPLEU,
     IR_CMPGTU, IR_CMPGEU}"

definition known_at :: "ir_func \<Rightarrow> nat \<Rightarrow> int \<Rightarrow> bool" where
  "known_at fn p t \<longleftrightarrow> 0 \<le> t \<and> t < fn_ntemps fn \<and> (\<exists>i<p. defs_at (fn_insns fn) (nat t) i)"

definition insn_ok :: "ir_func \<Rightarrow> nat \<Rightarrow> bool" where
  "insn_ok fn p \<longleftrightarrow> (let i = fn_insns fn ! p in
     ii_op i \<in> simple_ops \<and>
     (if ii_op i \<in> no_dst then ii_dst i = - 1 else 0 \<le> ii_dst i \<and> ii_dst i < fn_ntemps fn) \<and>
     (ii_op i \<in> uses_none \<or> known_at fn p (ii_a i)) \<and>
     (ii_op i \<in> uses_none \<union> uses_one \<or> known_at fn p (ii_b i)))"

definition spilled :: "ir_func \<Rightarrow> int \<Rightarrow> bool" where
  "spilled fn t \<longleftrightarrow> fn_temp_reg fn ! nat t < 0"

text \<open>The two shapes that are compiled wrongly: see the last section.\<close>

definition scratch_ok :: "ir_func \<Rightarrow> ir_insn \<Rightarrow> bool" where
  "scratch_ok fn i \<longleftrightarrow>
     (ii_op i \<in> compares \<longrightarrow> \<not> (spilled fn (ii_a i) \<and> spilled fn (ii_dst i)) \<and>
        ii_dst i \<noteq> ii_a i \<and> ii_dst i \<noteq> ii_b i) \<and>
     (ii_op i \<in> {IR_MODS, IR_MODU} \<longrightarrow> \<not> spilled fn (ii_dst i))"

section \<open>One instruction\<close>

lemma above_fp:
  assumes "uint (a - e_fp env) < 8"
  shows "dist env a = 0 \<or> 2 ^ 32 - 8 < dist env a"
proof -
  have "dist env a = (- uint (a - e_fp env)) mod 2 ^ 32"
    using uint_word_ariths(4) [of "a - e_fp env"] by (simp add: dist_def)
  moreover have "uint (a - e_fp env) \<in> {0, 1, 2, 3, 4, 5, 6, 7}"
  proof -
    have "k \<in> {0, 1, 2, 3, 4, 5, 6, 7}" if "0 \<le> k" "k < 8" for k :: int using that by auto
    then show ?thesis using assms by (simp only: uint_ge_0)
  qed
  ultimately show ?thesis by auto
qed

lemma saved_apart:
  assumes "frame_ok fn L" "in_saved env fn L a"
  shows "\<not> in_spills env fn L a" "\<not> in_push env fn L a"
  using assms above_fp [of a env]
  by (auto simp: in_saved_def in_spills_def in_push_def frame_ok_def frame_size_def)

lemma live_in_after:
  assumes "live_in (fn_insns fn) (Suc p) t" "p < length (fn_insns fn)" "int t \<noteq> ii_dst (fn_insns fn ! p)"
  shows "live_in (fn_insns fn) p t" "live_at (fn_insns fn) t p"
proof -
  obtain i j where ij: "i < Suc p" "defs_at (fn_insns fn) t i" "Suc p \<le> j" "occurs_at (fn_insns fn) t j"
    using assms(1) by (auto simp: live_in_def)
  then have "i \<noteq> p" using assms(3) by (auto simp: defs_at_def)
  with ij have "i < p" "p \<le> j" by auto
  with ij show "live_in (fn_insns fn) p t" "live_at (fn_insns fn) t p"
    unfolding live_in_def live_at_def by (blast intro: less_imp_le)+
qed

lemma dst_live:
  assumes "p < length xs" "ii_dst (xs ! p) = int t"
  shows "live_at xs t p" "defs_at xs t p"
proof -
  show "defs_at xs t p" using assms by (simp add: defs_at_def)
  moreover have "occurs_at xs t p" using assms by (simp add: occurs_at_def)
  ultimately show "live_at xs t p" by (auto simp: live_at_def)
qed

lemma step_writes:
  assumes al: "allocated fn" and ok: "frame_ok fn L" and r: "related env fn L p ist m"
    and p: "p < length (fn_insns fn)" and i: "fn_insns fn ! p = i" "ii_dst i = int td" "td < nat (fn_ntemps fn)"
    and w: "writes env fn L td v m code"
  shows "\<exists>xs m'. code = Some xs \<and> exec_list env xs m = Some m' \<and>
    related env fn L (Suc p) (set_temp i v ist) m' \<and> keeps_saved env fn L m m'"
proof -
  obtain xs m' where x: "code = Some xs" "exec_list env xs m = Some m'"
    and wr: "wrote env fn L (place_of fn td) v m m'" using w by (auto simp: writes_def)
  have d: "live_at (fn_insns fn) td p" using dst_live [OF p] i by simp
  have "val_of env L (place_of fn t) m' = i_temp (set_temp i v ist) (int t)"
    if t: "t < nat (fn_ntemps fn)" "live_in (fn_insns fn) (Suc p) t" for t
  proof (cases "t = td")
    case True
    then show ?thesis using wr i(2) by (simp add: wrote_def set_temp_def)
  next
    case False
    then have l: "live_in (fn_insns fn) p t" "live_at (fn_insns fn) t p"
      using live_in_after [OF t(2) p] i by simp_all
    have "place_of fn t \<noteq> place_of fn td" using al l(2) d t(1) i(3) False by (auto simp: allocated_def)
    moreover have "legal_temp fn t" using al t l(1) by (auto simp: allocated_def live_in_def)
    ultimately have "val_of env L (place_of fn t) m' = val_of env L (place_of fn t) m"
      using wr by (simp add: wrote_def legal_temp_def)
    then show ?thesis using r t(1) l(1) False i(2) by (simp add: related_def set_temp_def)
  qed
  moreover have "m_mem m' a = i_mem (set_temp i v ist) a" if "\<not> reserved env fn L a" for a
    using that wr r by (simp add: wrote_def related_def reserved_def set_temp_def)
  moreover have "keeps_saved env fn L m m'"
    using wr saved_apart [OF ok] by (simp add: keeps_saved_def wrote_def)
  ultimately show ?thesis using x wr r by (simp add: related_def wrote_def)
qed

lemma step_stores:
  assumes al: "allocated fn" and ok: "frame_ok fn L" and r: "related env fn L p ist m"
    and p: "p < length (fn_insns fn)" and nd: "\<And>t. t < nat (fn_ntemps fn) \<Longrightarrow> ii_dst (fn_insns fn ! p) \<noteq> int t"
    and s: "stores env m mem code"
    and mem: "\<And>a. reserved env fn L a \<Longrightarrow> mem a = m_mem m a" "\<And>a. \<not> reserved env fn L a \<Longrightarrow> mem a = mem' a"
  shows "\<exists>xs m'. code = Some xs \<and> exec_list env xs m = Some m' \<and>
    related env fn L (Suc p) (ist\<lparr>i_mem := mem'\<rparr>) m' \<and> keeps_saved env fn L m m'"
proof -
  obtain xs m' where x: "code = Some xs" "exec_list env xs m = Some m'" and m': "m_mem m' = mem"
    "m_fp m' = m_fp m" "m_sp m' = m_sp m" "m_ret m' = None" "\<forall>r\<ge>2. m_d m' r = m_d m r"
    using s by (auto simp: stores_def)
  have "val_of env L (place_of fn t) m' = i_temp ist (int t)"
    if t: "t < nat (fn_ntemps fn)" "live_in (fn_insns fn) (Suc p) t" for t
  proof -
    have l: "live_in (fn_insns fn) p t" using live_in_after(1) [OF t(2) p] nd [OF t(1)] by metis
    have leg: "place_legal fn (place_of fn t)"
      using al t l by (auto simp: allocated_def live_in_def legal_temp_def)
    have "val_of env L (place_of fn t) m' = val_of env L (place_of fn t) m"
    proof (cases "place_of fn t")
      case (In_reg x)
      then have "2 \<le> nat x" using leg by (simp add: place_legal_def) arith
      then show ?thesis using In_reg m'(5) by (simp add: val_of_def)
    next
      case (In_slot x)
      note span = slot_span [OF ok leg [unfolded In_slot]]
      have "load32 mem (below env (L + x + 4)) = load32 (m_mem m) (below env (L + x + 4))"
        using span by (intro load_below_cong mem(1)) (auto simp: reserved_def in_spills_def)
      then show ?thesis using In_slot m'(1) by (simp add: val_of_def)
    qed
    then show ?thesis using r t(1) l by (simp add: related_def)
  qed
  then show ?thesis
    using x m' r mem by (auto simp: related_def keeps_saved_def reserved_def)
qed

section \<open>Which pattern an operator takes\<close>

fun alu_of :: "ir_op \<Rightarrow> string option" where
  "alu_of IR_ADD = Some ''add.l''"
| "alu_of IR_SUB = Some ''sub.l''"
| "alu_of IR_MUL = Some ''muls.l''"
| "alu_of IR_AND = Some ''and.l''"
| "alu_of IR_OR = Some ''or.l''"
| "alu_of IR_XOR = Some ''eor.l''"
| "alu_of IR_SHL = Some ''lsl.l''"
| "alu_of IR_SHRS = Some ''asr.l''"
| "alu_of IR_SHRU = Some ''lsr.l''"
| "alu_of IR_DIVS = Some ''divs.l''"
| "alu_of IR_DIVU = Some ''divu.l''"
| "alu_of _ = None"

fun scc_of :: "ir_op \<Rightarrow> string option" where
  "scc_of IR_CMPEQ = Some ''seq''"
| "scc_of IR_CMPNE = Some ''sne''"
| "scc_of IR_CMPLTS = Some ''slt''"
| "scc_of IR_CMPLES = Some ''sle''"
| "scc_of IR_CMPGTS = Some ''sgt''"
| "scc_of IR_CMPGES = Some ''sge''"
| "scc_of IR_CMPLTU = Some ''scs''"
| "scc_of IR_CMPLEU = Some ''sls''"
| "scc_of IR_CMPGTU = Some ''shi''"
| "scc_of IR_CMPGEU = Some ''scc''"
| "scc_of _ = None"

lemma alu_of_emit: "alu_of (ii_op i) = Some mn \<Longrightarrow> emit_simple fn i = emit_binop fn i mn"
  by (cases "ii_op i") (simp_all add: emit_simple_def)

lemma alu_simps:
  "alu ''add.l'' s d = Some (d + s)" "alu ''sub.l'' s d = Some (d - s)" "alu ''muls.l'' s d = Some (d * s)"
  "alu ''and.l'' s d = Some (d AND s)" "alu ''or.l'' s d = Some (d OR s)" "alu ''eor.l'' s d = Some (d XOR s)"
  "alu ''lsl.l'' s d = Some (push_bit (unat (s AND 63)) d)"
  "alu ''asr.l'' s d = Some (signed_drop_bit (unat (s AND 63)) d)"
  "alu ''lsr.l'' s d = Some (drop_bit (unat (s AND 63)) d)"
  "alu ''divs.l'' s d = (if s = 0 then None else Some (c_sdiv d s))"
  "alu ''divu.l'' s d = (if s = 0 then None else Some (d div s))"
  by (simp_all add: alu_def)

lemma alu_of_means:
  assumes "alu_of op = Some mn" "ir_binop op a b = Some v"
  shows "alu mn b a = Some v"
  by (rule alu_of.elims [OF assms(1)])
    (use assms(2) in \<open>clarsimp simp: alu_simps shift_count split: if_splits\<close>)+

lemma scc_of_emit: "scc_of (ii_op i) = Some mn \<Longrightarrow> emit_simple fn i = emit_cmp fn i mn"
  by (cases "ii_op i") (simp_all add: emit_simple_def)

lemma una_scc:
  assumes "mn \<notin> {''neg.l'', ''not.l'', ''ext.w'', ''ext.l'', ''neg.b''}"
  shows "una mn cc d = do { (s, x) \<leftarrow> cc; h \<leftarrow> scc_holds mn s x; Some (low_byte d (if h then 0xFF else 0)) }"
  using assms unfolding una_def by simp

lemma scc_of_name:
  assumes "scc_of op = Some mn"
  shows "hd mn = CHR ''s''" "mn \<notin> {''neg.l'', ''not.l'', ''ext.w'', ''ext.l'', ''neg.b''}"
  by (rule scc_of.elims [OF assms]; clarsimp)+

lemma scc_simps:
  "scc_holds ''seq'' s d = Some (d = s)" "scc_holds ''sne'' s d = Some (d \<noteq> s)"
  "scc_holds ''slt'' s d = Some (sint d < sint s)" "scc_holds ''sle'' s d = Some (sint d \<le> sint s)"
  "scc_holds ''sgt'' s d = Some (sint s < sint d)" "scc_holds ''sge'' s d = Some (sint s \<le> sint d)"
  "scc_holds ''scs'' s d = Some (d < s)" "scc_holds ''sls'' s d = Some (d \<le> s)"
  "scc_holds ''shi'' s d = Some (s < d)" "scc_holds ''scc'' s d = Some (s \<le> d)"
proof -
  have inj: "sint d = sint s \<longleftrightarrow> d = s" "sint s = sint d \<longleftrightarrow> d = s"
    using signed_word_eqI [of d s] by (auto simp: eq_commute [of "sint s"])
  have ge: "cc_N s d = cc_V s d \<longleftrightarrow> \<not> sint d < sint s" using signed_less_flags [of s d] by blast
  show "scc_holds ''seq'' s d = Some (d = s)" "scc_holds ''sne'' s d = Some (d \<noteq> s)"
    "scc_holds ''slt'' s d = Some (sint d < sint s)" "scc_holds ''sle'' s d = Some (sint d \<le> sint s)"
    "scc_holds ''sgt'' s d = Some (sint s < sint d)" "scc_holds ''sge'' s d = Some (sint s \<le> sint d)"
    "scc_holds ''scs'' s d = Some (d < s)" "scc_holds ''sls'' s d = Some (d \<le> s)"
    "scc_holds ''shi'' s d = Some (s < d)" "scc_holds ''scc'' s d = Some (s \<le> d)"
    unfolding scc_holds_def zero_flag cc_C_def ge using inj by (auto simp: le_less not_less)
qed

lemma scc_of_means:
  assumes "scc_of op = Some mn" "ir_binop op a b = Some v"
  shows "\<exists>h. scc_holds mn b a = Some h \<and> v = c_bool h"
  by (rule scc_of.elims [OF assms(1)]) (use assms(2) in \<open>clarsimp simp: scc_simps\<close>)+

lemma simple_cases:
  assumes "op \<in> simple_ops"
  obtains (none) "op \<in> {IR_NOP, IR_FUNC, IR_ENDF}" | (direct) "op \<in> {IR_LIC, IR_LEA, IR_ADL, IR_LDL}"
  | (stl) "op = IR_STL" | (mov) "op = IR_MOV" | (una) "op \<in> {IR_NEG, IR_NOT}"
  | (load) "op \<in> {IR_LB, IR_LBS, IR_LH, IR_LHS, IR_LW}" | (store) "op \<in> {IR_SB, IR_SH, IR_SW}"
  | (alu) mn where "alu_of op = Some mn" | (scc) mn where "scc_of op = Some mn"
  | (modulo) "op \<in> {IR_MODS, IR_MODU}"
  using assms by (cases op) (auto simp: simple_ops_def)

section \<open>Simulation\<close>

lemma span_unreserved:
  assumes "env_ok env fn L" "span_ok env x n" "j < n"
  shows "\<not> reserved env fn L (x + of_nat j)"
  using assms by (auto simp: env_ok_def span_ok_def)

lemma ir_load_memory:
  assumes "env_ok env fn L" "\<And>a. \<not> reserved env fn L a \<Longrightarrow> mem a = mem' a" "ir_load env op mem' x = Some v"
  shows "ir_load env op mem x = Some v"
proof -
  have s: "mem (x + of_nat j) = mem' (x + of_nat j)" if "span_ok env x n" "j < n" for j n
    using assms(2) span_unreserved [OF assms(1) that] by blast
  show ?thesis
    using assms(3) s [of 1 0] s [of 2 0] s [of 2 1] s [of 4 0] s [of 4 1] s [of 4 2] s [of 4 3]
    by (cases op) (auto simp: load16_def load32_def split: if_splits)
qed

lemma ir_store_memory:
  assumes "env_ok env fn L" "\<And>a. \<not> reserved env fn L a \<Longrightarrow> mem a = mem' a" "ir_store env op mem' x v = Some new"
  obtains new' where "ir_store env op mem x v = Some new'" "\<And>a. reserved env fn L a \<Longrightarrow> new' a = mem a"
    "\<And>a. \<not> reserved env fn L a \<Longrightarrow> new' a = new a"
proof -
  have s: "a \<noteq> x + of_nat j" if "span_ok env x n" "j < n" "reserved env fn L a" for a j n
    using span_unreserved [OF assms(1) that(1,2)] that(3) by blast
  consider "op = IR_SB" | "op = IR_SH" | "op = IR_SW" using assms(3) by (cases op) auto
  then show ?thesis
  proof cases
    case 1
    with assms(2,3) s [of 1 0] show ?thesis by (intro that [of "store8 mem x v"]) (auto simp: store8_def split: if_splits)
  next
    case 2
    with assms(2,3) s [of 2 0] s [of 2 1] show ?thesis
      by (intro that [of "store16 mem x v"]) (auto simp: store16_def split: if_splits)
  next
    case 3
    with assms(2,3) s [of 4 0] s [of 4 1] s [of 4 2] s [of 4 3] show ?thesis
      by (intro that [of "store32 mem x v"]) (auto simp: store32_def split: if_splits)
  qed
qed

text \<open>What a related machine knows of the operands.\<close>

lemma operand_known:
  assumes al: "allocated fn" and r: "related env fn L p ist m" and k: "known_at fn p x"
    and occ: "occurs_at (fn_insns fn) (nat x) p"
  shows "legal_temp fn (nat x)" "x = int (nat x)" "val_of env L (place_of fn (nat x)) m = i_temp ist x"
proof -
  have "live_in (fn_insns fn) p (nat x)" using k occ by (auto simp: live_in_def known_at_def)
  moreover have lt: "nat x < nat (fn_ntemps fn)" and x: "x = int (nat x)" using k by (simp_all add: known_at_def)
  ultimately show "val_of env L (place_of fn (nat x)) m = i_temp ist x"
    using r unfolding related_def by (metis)
  obtain i where "defs_at (fn_insns fn) (nat x) i" using k by (auto simp: known_at_def)
  then show "legal_temp fn (nat x)" using al lt unfolding allocated_def by blast
  show "x = int (nat x)" by (rule x)
qed

lemma occurs_operand:
  assumes "p < length xs" "xs ! p = i"
  shows "0 \<le> ii_a i \<Longrightarrow> occurs_at xs (nat (ii_a i)) p" "0 \<le> ii_b i \<Longrightarrow> occurs_at xs (nat (ii_b i)) p"
  using assms by (simp_all add: occurs_at_def)

text \<open>The setting of one step, so that each pattern is a lemma of its own.\<close>

definition at_step :: "env \<Rightarrow> ir_func \<Rightarrow> int \<Rightarrow> nat \<Rightarrow> ir_insn \<Rightarrow> ir_state \<Rightarrow> mach \<Rightarrow> bool" where
  "at_step env fn L p i ist m \<longleftrightarrow> allocated fn \<and> frame_ok fn L \<and> env_ok env fn L \<and> related env fn L p ist m \<and>
     p < length (fn_insns fn) \<and> fn_insns fn ! p = i \<and> insn_ok fn p \<and> scratch_ok fn i"

definition simulated :: "env \<Rightarrow> ir_func \<Rightarrow> int \<Rightarrow> nat \<Rightarrow> asm list option \<Rightarrow> ir_state \<Rightarrow> mach \<Rightarrow> bool" where
  "simulated env fn L p code ist' m \<longleftrightarrow> (\<exists>xs m'. code = Some xs \<and> exec_list env xs m = Some m' \<and>
     related env fn L (Suc p) ist' m' \<and> keeps_saved env fn L m m')"

lemma at_step_base:
  assumes "at_step env fn L p i ist m"
  shows "frame_ok fn L" "m_fp m = e_fp env" "m_ret m = None" "m_sp m = stack_top env fn L"
  using assms by (simp_all add: at_step_def related_def)

lemma at_step_a:
  assumes "at_step env fn L p i ist m" "ii_op i \<notin> uses_none"
  obtains ta where "ii_a i = int ta" "legal_temp fn ta" "val_of env L (place_of fn ta) m = i_temp ist (ii_a i)"
proof -
  have k: "known_at fn p (ii_a i)" using assms by (auto simp: at_step_def insn_ok_def Let_def)
  then have "occurs_at (fn_insns fn) (nat (ii_a i)) p"
    using assms(1) by (intro occurs_operand) (simp_all add: at_step_def known_at_def)
  with k show ?thesis using that operand_known assms(1) unfolding at_step_def by metis
qed

lemma at_step_b:
  assumes "at_step env fn L p i ist m" "ii_op i \<notin> uses_none \<union> uses_one"
  obtains tb where "ii_b i = int tb" "legal_temp fn tb" "val_of env L (place_of fn tb) m = i_temp ist (ii_b i)"
proof -
  have k: "known_at fn p (ii_b i)" using assms by (auto simp: at_step_def insn_ok_def Let_def)
  then have "occurs_at (fn_insns fn) (nat (ii_b i)) p"
    using assms(1) by (intro occurs_operand) (simp_all add: at_step_def known_at_def)
  with k show ?thesis using that operand_known assms(1) unfolding at_step_def by metis
qed

lemma at_step_dst:
  assumes st: "at_step env fn L p i ist m" and op: "ii_op i \<notin> no_dst"
  obtains td where "ii_dst i = int td" "legal_temp fn td"
    "\<And>v code. writes env fn L td v m code \<Longrightarrow> simulated env fn L p code (set_temp i v ist) m"
proof -
  define td where "td = nat (ii_dst i)"
  have d: "ii_dst i = int td" "td < nat (fn_ntemps fn)"
    using st op by (auto simp: td_def at_step_def insn_ok_def Let_def)
  moreover have "defs_at (fn_insns fn) td p" using st d(1) by (intro dst_live) (simp_all add: at_step_def)
  ultimately have "legal_temp fn td" using st unfolding at_step_def allocated_def by blast
  moreover have "simulated env fn L p code (set_temp i v ist) m" if "writes env fn L td v m code" for v code
    using step_writes [OF _ _ _ _ _ d that, of p ist] st by (simp add: at_step_def simulated_def)
  ultimately show ?thesis using that d(1) by blast
qed

lemma at_step_store:
  assumes st: "at_step env fn L p i ist m" and op: "ii_op i \<in> no_dst" and s: "stores env m mem code"
    and mem: "\<And>a. reserved env fn L a \<Longrightarrow> mem a = m_mem m a" "\<And>a. \<not> reserved env fn L a \<Longrightarrow> mem a = mem' a"
  shows "simulated env fn L p code (ist\<lparr>i_mem := mem'\<rparr>) m"
proof -
  have "ii_dst (fn_insns fn ! p) \<noteq> int t" for t using st op by (auto simp: at_step_def insn_ok_def Let_def)
  then show ?thesis
    using step_stores [OF _ _ _ _ _ s mem, of fn L p ist] st by (simp add: at_step_def simulated_def)
qed

lemma binop_class:
  assumes "alu_of op = Some mn \<or> scc_of op = Some mn \<or> op \<in> {IR_MODS, IR_MODU}"
  shows "op \<notin> uses_none \<union> uses_one" "op \<notin> uses_none" "op \<notin> no_dst"
    and "ii_op i = op \<Longrightarrow> ir_step env fn i st =
      do { v \<leftarrow> ir_binop op (i_temp st (ii_a i)) (i_temp st (ii_b i)); Some (set_temp i v st) }"
  using assms by (cases op; simp add: uses_none_def uses_one_def no_dst_def ir_step_def)+

lemma sim_alu:
  assumes st: "at_step env fn L p i ist m" and mn: "alu_of (ii_op i) = Some mn"
    and step: "ir_step env fn i ist = Some ist'"
  shows "simulated env fn L p (emit_simple fn i) ist' m"
proof -
  note cls = binop_class [OF disjI1, OF mn]
  obtain v where v: "ir_binop (ii_op i) (i_temp ist (ii_a i)) (i_temp ist (ii_b i)) = Some v"
    and ist': "ist' = set_temp i v ist"
    using step cls(4) by (auto split: bind_splits)
  obtain ta where a: "ii_a i = int ta" "legal_temp fn ta" "val_of env L (place_of fn ta) m = i_temp ist (ii_a i)"
    using at_step_a [OF st cls(2)] by blast
  obtain tb where b: "ii_b i = int tb" "legal_temp fn tb" "val_of env L (place_of fn tb) m = i_temp ist (ii_b i)"
    using at_step_b [OF st cls(1)] by blast
  obtain td where d: "ii_dst i = int td" "legal_temp fn td"
    "\<And>v code. writes env fn L td v m code \<Longrightarrow> simulated env fn L p code (set_temp i v ist) m"
    using at_step_dst [OF st cls(3)] by blast
  note base = at_step_base [OF st]
  have "alu mn (val_of env L (place_of fn tb) m) (val_of env L (place_of fn ta) m) = Some v"
    unfolding a(3) b(3) by (rule alu_of_means [OF mn v])
  then have "writes env fn L td v m (emit_binop fn i mn)"
    by (rule emit_binop_writes [OF base(1) a(2) b(2) d(2) a(1) b(1) d(1) base(2,3)])
  then show ?thesis using d(3) alu_of_emit [OF mn] ist' by simp
qed

lemma src_apart:
  assumes "legal_temp fn t" "legal_temp fn u"
    "place_of fn t \<noteq> place_of fn u" "\<not> (spilled fn (int t) \<and> spilled fn (int u)) \<or> sc \<noteq> 0" "sc < 2"
  shows "src (place_of fn t) sc \<noteq> src (place_of fn u) 0"
  using assms by (auto simp: src_def place_of_def spilled_def legal_temp_def place_legal_def split: if_splits)

lemma operand_apart:
  assumes st: "at_step env fn L p i ist m" and d: "ii_dst i = int td" "td < nat (fn_ntemps fn)"
    and x: "known_at fn p x" "x \<noteq> ii_dst i" "occurs_at (fn_insns fn) (nat x) p"
  shows "place_of fn (nat x) \<noteq> place_of fn td"
proof -
  obtain j where "j < p" "defs_at (fn_insns fn) (nat x) j" using x(1) by (auto simp: known_at_def)
  with x(3) have "live_at (fn_insns fn) (nat x) p" unfolding live_at_def by (blast intro: less_imp_le)
  moreover have "live_at (fn_insns fn) td p" using st d(1) by (intro dst_live) (simp_all add: at_step_def)
  moreover have "nat x < nat (fn_ntemps fn)" "nat x \<noteq> td" using x(1,2) d(1) by (auto simp: known_at_def)
  ultimately show ?thesis using st d(2) unfolding at_step_def allocated_def by blast
qed

lemma sim_scc:
  assumes st: "at_step env fn L p i ist m" and mn: "scc_of (ii_op i) = Some mn"
    and step: "ir_step env fn i ist = Some ist'"
  shows "simulated env fn L p (emit_simple fn i) ist' m"
proof -
  note cls = binop_class [OF disjI2, OF disjI1, OF mn]
  have cmp: "ii_op i \<in> compares" using mn by (cases "ii_op i") (simp_all add: compares_def)
  obtain v where v: "ir_binop (ii_op i) (i_temp ist (ii_a i)) (i_temp ist (ii_b i)) = Some v"
    and ist': "ist' = set_temp i v ist"
    using step cls(4) by (auto split: bind_splits)
  obtain ta where a: "ii_a i = int ta" "legal_temp fn ta" "val_of env L (place_of fn ta) m = i_temp ist (ii_a i)"
    using at_step_a [OF st cls(2)] by blast
  obtain tb where b: "ii_b i = int tb" "legal_temp fn tb" "val_of env L (place_of fn tb) m = i_temp ist (ii_b i)"
    using at_step_b [OF st cls(1)] by blast
  obtain td where d: "ii_dst i = int td" "legal_temp fn td"
    "\<And>v code. writes env fn L td v m code \<Longrightarrow> simulated env fn L p code (set_temp i v ist) m"
    using at_step_dst [OF st cls(3)] by blast
  obtain h where h: "scc_holds mn (i_temp ist (ii_b i)) (i_temp ist (ii_a i)) = Some h" "v = c_bool h"
    using scc_of_means [OF mn v] by blast
  have k: "known_at fn p (ii_a i)" "known_at fn p (ii_b i)" "td < nat (fn_ntemps fn)"
    using st cls d(1) by (auto simp: at_step_def insn_ok_def Let_def split: if_splits)
  have o: "occurs_at (fn_insns fn) (nat (ii_a i)) p" "occurs_at (fn_insns fn) (nat (ii_b i)) p"
    using st k by (auto simp: at_step_def known_at_def intro!: occurs_operand)
  have ne: "ii_a i \<noteq> ii_dst i" "ii_b i \<noteq> ii_dst i" "\<not> (spilled fn (ii_a i) \<and> spilled fn (ii_dst i))"
    using st cmp by (auto simp: at_step_def scratch_ok_def)
  have pl: "place_of fn ta \<noteq> place_of fn td" "place_of fn tb \<noteq> place_of fn td"
    using operand_apart [OF st d(1) k(3) k(1) ne(1) o(1)] operand_apart [OF st d(1) k(3) k(2) ne(2) o(2)] a(1) b(1)
    by simp_all
  note base = at_step_base [OF st]
  have "src (place_of fn ta) 0 \<noteq> src (place_of fn td) 0"
    using ne(3) a(1) d(1) by (intro src_apart [OF a(2) d(2) pl(1)]) simp_all
  moreover have "src (place_of fn tb) 1 \<noteq> src (place_of fn td) 0"
    by (intro src_apart [OF b(2) d(2) pl(2)]) simp_all
  moreover have "scc_holds mn (val_of env L (place_of fn tb) m) (val_of env L (place_of fn ta) m) = Some h"
    unfolding a(3) b(3) by (rule h(1))
  ultimately have "writes env fn L td v m (emit_cmp fn i mn)"
    unfolding h(2) using scc_of_name(1) [OF mn] una_scc [OF scc_of_name(2) [OF mn]]
    by (rule emit_cmp_writes [OF base(1) a(2) b(2) d(2) a(1) b(1) d(1) base(2,3)])
  then show ?thesis using d(3) scc_of_emit [OF mn] ist' by simp
qed

lemma sim_mod:
  assumes st: "at_step env fn L p i ist m" and op: "ii_op i \<in> {IR_MODS, IR_MODU}"
    and step: "ir_step env fn i ist = Some ist'"
  shows "simulated env fn L p (emit_simple fn i) ist' m"
proof -
  note cls = binop_class [OF disjI2, OF disjI2, OF op]
  obtain v where v: "ir_binop (ii_op i) (i_temp ist (ii_a i)) (i_temp ist (ii_b i)) = Some v"
    and ist': "ist' = set_temp i v ist"
    using step cls(4) by (auto split: bind_splits)
  obtain ta where a: "ii_a i = int ta" "legal_temp fn ta" "val_of env L (place_of fn ta) m = i_temp ist (ii_a i)"
    using at_step_a [OF st cls(2)] by blast
  obtain tb where b: "ii_b i = int tb" "legal_temp fn tb" "val_of env L (place_of fn tb) m = i_temp ist (ii_b i)"
    using at_step_b [OF st cls(1)] by blast
  obtain td where d: "ii_dst i = int td" "legal_temp fn td"
    "\<And>v code. writes env fn L td v m code \<Longrightarrow> simulated env fn L p code (set_temp i v ist) m"
    using at_step_dst [OF st cls(3)] by blast
  note base = at_step_base [OF st]
  have "\<not> spilled fn (int td)" using st op d(1) by (auto simp: at_step_def scratch_ok_def)
  then have nz: "src (place_of fn td) 0 \<noteq> 0"
    using d(2) by (auto simp: src_def place_of_def spilled_def legal_temp_def place_legal_def)
  let ?A = "i_temp ist (ii_a i)" and ?B = "i_temp ist (ii_b i)"
  let ?q = "if ii_op i = IR_MODS then c_sdiv ?A ?B else ?A div ?B"
  have "?B \<noteq> 0" and val: "v = ?A - ?q * ?B"
    using v op mod_by_division [of ?B ?A] umod_by_division [of ?A ?B] by (auto split: if_splits)
  then have "alu (if ii_op i = IR_MODS then ''divs.l'' else ''divu.l'') ?B ?A = Some ?q"
    by (simp add: alu_simps)
  from emit_mod_writes [OF base(1) a(2) b(2) d(2) a(1) b(1) d(1) base(2,3,4) nz, unfolded a(3) b(3), OF this]
  have "writes env fn L td v m (emit_mod fn i)" unfolding val .
  moreover have "emit_simple fn i = emit_mod fn i" using op by (auto simp: emit_simple_def)
  ultimately show ?thesis using d(3) ist' by simp
qed

lemma sim_una:
  assumes st: "at_step env fn L p i ist m" and op: "ii_op i \<in> {IR_NEG, IR_NOT}"
    and step: "ir_step env fn i ist = Some ist'"
  shows "simulated env fn L p (emit_simple fn i) ist' m"
proof -
  have cls: "ii_op i \<notin> uses_none" "ii_op i \<notin> no_dst" using op by (auto simp: uses_none_def no_dst_def)
  obtain ta where a: "ii_a i = int ta" "legal_temp fn ta" "val_of env L (place_of fn ta) m = i_temp ist (ii_a i)"
    using at_step_a [OF st cls(1)] by blast
  obtain td where d: "ii_dst i = int td" "legal_temp fn td"
    "\<And>v code. writes env fn L td v m code \<Longrightarrow> simulated env fn L p code (set_temp i v ist) m"
    using at_step_dst [OF st cls(2)] by blast
  note base = at_step_base [OF st]
  define mn v where "mn = (if ii_op i = IR_NEG then ''neg.l'' else ''not.l'')"
    and "v = (if ii_op i = IR_NEG then - i_temp ist (ii_a i) else NOT (i_temp ist (ii_a i)))"
  have "una mn cc (val_of env L (place_of fn ta) m) = Some v" for cc
    unfolding a(3) by (simp add: mn_def v_def una_def)
  then have "writes env fn L td v m (emit_unop fn i mn)"
    by (rule emit_unop_writes [OF base(1) a(2) d(2) a(1) d(1) base(2,3)])
  moreover have "emit_simple fn i = emit_unop fn i mn" using op by (auto simp: emit_simple_def mn_def)
  moreover have "ist' = set_temp i v ist" using op step by (auto simp: ir_step_def v_def)
  ultimately show ?thesis using d(3) by simp
qed

lemma sim_mov:
  assumes st: "at_step env fn L p i ist m" and op: "ii_op i = IR_MOV"
    and step: "ir_step env fn i ist = Some ist'"
  shows "simulated env fn L p (emit_simple fn i) ist' m"
proof -
  have cls: "ii_op i \<notin> uses_none" "ii_op i \<notin> no_dst" using op by (auto simp: uses_none_def no_dst_def)
  obtain ta where a: "ii_a i = int ta" "legal_temp fn ta" "val_of env L (place_of fn ta) m = i_temp ist (ii_a i)"
    using at_step_a [OF st cls(1)] by blast
  obtain td where d: "ii_dst i = int td" "legal_temp fn td"
    "\<And>v code. writes env fn L td v m code \<Longrightarrow> simulated env fn L p code (set_temp i v ist) m"
    using at_step_dst [OF st cls(2)] by blast
  note base = at_step_base [OF st]
  note w = mov_writes [OF base(1) a(2) d(2) base(2,3), unfolded a(3)]
  have "ist' = set_temp i (i_temp ist (ii_a i)) ist" using op step by (simp add: ir_step_def)
  moreover have "emit_simple fn i = Some (reload L (place_of fn ta) 0 @
    (if src (place_of fn ta) 0 \<noteq> src (place_of fn td) 0
     then [Move ''l'' (Dn (src (place_of fn ta) 0)) (Dn (src (place_of fn td) 0))] else []) @
    spillback L (place_of fn td))"
    using rs_rd_wd [OF base(1) a(2)] rs_rd_wd [OF base(1) d(2)] a(1) d(1) op by (simp add: emit_simple_def)
  ultimately show ?thesis using d(3) [OF w] by (simp only:)
qed

lemma related_memory:
  assumes "at_step env fn L p i ist m" "\<not> reserved env fn L a"
  shows "m_mem m a = i_mem ist a"
  using assms by (simp add: at_step_def related_def)

lemma ir_step_memory:
  "ii_op i \<in> {IR_LB, IR_LBS, IR_LH, IR_LHS, IR_LW} \<Longrightarrow> ir_step env fn i st =
    do { v \<leftarrow> ir_load env (ii_op i) (i_mem st) (i_temp st (ii_a i)); Some (set_temp i v st) }"
  "ii_op i \<in> {IR_SB, IR_SH, IR_SW} \<Longrightarrow> ir_step env fn i st =
    do { mem \<leftarrow> ir_store env (ii_op i) (i_mem st) (i_temp st (ii_a i)) (i_temp st (ii_b i)); Some (st\<lparr>i_mem := mem\<rparr>) }"
  by (auto simp: ir_step_def Let_def)

lemma sim_load:
  assumes st: "at_step env fn L p i ist m" and op: "ii_op i \<in> {IR_LB, IR_LBS, IR_LH, IR_LHS, IR_LW}"
    and step: "ir_step env fn i ist = Some ist'"
  shows "simulated env fn L p (emit_simple fn i) ist' m"
proof -
  have cls: "ii_op i \<notin> uses_none" "ii_op i \<notin> no_dst" using op by (auto simp: uses_none_def no_dst_def)
  obtain ta where a: "ii_a i = int ta" "legal_temp fn ta" "val_of env L (place_of fn ta) m = i_temp ist (ii_a i)"
    using at_step_a [OF st cls(1)] by blast
  obtain td where d: "ii_dst i = int td" "legal_temp fn td"
    "\<And>v code. writes env fn L td v m code \<Longrightarrow> simulated env fn L p code (set_temp i v ist) m"
    using at_step_dst [OF st cls(2)] by blast
  note base = at_step_base [OF st]
  obtain v where v: "ir_load env (ii_op i) (i_mem ist) (i_temp ist (ii_a i)) = Some v"
    and ist': "ist' = set_temp i v ist"
    using step by (auto simp: ir_step_memory(1) [OF op] split: bind_splits)
  have eo: "env_ok env fn L" using st by (simp add: at_step_def)
  have ld: "ir_load env (ii_op i) (m_mem m) (i_temp ist (ii_a i)) = Some v"
    using ir_load_memory [OF eo related_memory [OF st] v] .
  define sz where "sz = (if ii_op i = IR_LW then ''l'' else if ii_op i \<in> {IR_LB, IR_LBS} then ''b'' else ''w'')"
  have "(sz = ''b'' \<and> ii_op i \<in> {IR_LB, IR_LH} \<and> \<not> ii_op i \<in> {IR_LBS, IR_LHS} \<and> v = ucast (m_mem m (i_temp ist (ii_a i)))) \<or>
      (sz = ''b'' \<and> \<not> ii_op i \<in> {IR_LB, IR_LH} \<and> ii_op i \<in> {IR_LBS, IR_LHS} \<and> v = scast (m_mem m (i_temp ist (ii_a i)))) \<or>
      (sz = ''w'' \<and> ii_op i \<in> {IR_LB, IR_LH} \<and> \<not> ii_op i \<in> {IR_LBS, IR_LHS} \<and> v = load16 (m_mem m) (i_temp ist (ii_a i))) \<or>
      (sz = ''w'' \<and> \<not> ii_op i \<in> {IR_LB, IR_LH} \<and> ii_op i \<in> {IR_LBS, IR_LHS} \<and> v = sext_half (load16 (m_mem m) (i_temp ist (ii_a i)))) \<or>
      (sz = ''l'' \<and> \<not> ii_op i \<in> {IR_LB, IR_LH} \<and> \<not> ii_op i \<in> {IR_LBS, IR_LHS} \<and> v = load32 (m_mem m) (i_temp ist (ii_a i)))"
    using op ld by (auto simp: sz_def split: if_splits)
  from emit_load_writes [OF base(1) a(2) d(2) a(1) d(1) base(2,3) this a(3) [symmetric]]
  have "writes env fn L td v m (emit_load fn i sz (ii_op i \<in> {IR_LBS, IR_LHS}) (ii_op i \<in> {IR_LB, IR_LH}))" .
  moreover have "emit_simple fn i = emit_load fn i sz (ii_op i \<in> {IR_LBS, IR_LHS}) (ii_op i \<in> {IR_LB, IR_LH})"
    using op by (auto simp: emit_simple_def sz_def)
  ultimately show ?thesis using d(3) ist' by simp
qed

lemma sim_store:
  assumes st: "at_step env fn L p i ist m" and op: "ii_op i \<in> {IR_SB, IR_SH, IR_SW}"
    and step: "ir_step env fn i ist = Some ist'"
  shows "simulated env fn L p (emit_simple fn i) ist' m"
proof -
  have cls: "ii_op i \<notin> uses_none" "ii_op i \<notin> uses_none \<union> uses_one" "ii_op i \<in> no_dst"
    using op by (auto simp: uses_none_def uses_one_def no_dst_def)
  obtain ta where a: "ii_a i = int ta" "legal_temp fn ta" "val_of env L (place_of fn ta) m = i_temp ist (ii_a i)"
    using at_step_a [OF st cls(1)] by blast
  obtain tb where b: "ii_b i = int tb" "legal_temp fn tb" "val_of env L (place_of fn tb) m = i_temp ist (ii_b i)"
    using at_step_b [OF st cls(2)] by blast
  note base = at_step_base [OF st]
  obtain mem' where mem': "ir_store env (ii_op i) (i_mem ist) (i_temp ist (ii_a i)) (i_temp ist (ii_b i)) = Some mem'"
    and ist': "ist' = ist\<lparr>i_mem := mem'\<rparr>"
    using step by (auto simp: ir_step_memory(2) [OF op] split: bind_splits)
  have eo: "env_ok env fn L" using st by (simp add: at_step_def)
  obtain mem where mem: "ir_store env (ii_op i) (m_mem m) (i_temp ist (ii_a i)) (i_temp ist (ii_b i)) = Some mem"
    "\<And>a. reserved env fn L a \<Longrightarrow> mem a = m_mem m a" "\<And>a. \<not> reserved env fn L a \<Longrightarrow> mem a = mem' a"
    using ir_store_memory [OF eo related_memory [OF st] mem'] by blast
  define sz where "sz = (if ii_op i = IR_SW then ''l'' else if ii_op i = IR_SB then ''b'' else ''w'')"
  have "(sz = ''b'' \<and> mem = store8 (m_mem m) (i_temp ist (ii_a i)) (i_temp ist (ii_b i))) \<or>
      (sz = ''w'' \<and> mem = store16 (m_mem m) (i_temp ist (ii_a i)) (i_temp ist (ii_b i))) \<or>
      (sz = ''l'' \<and> mem = store32 (m_mem m) (i_temp ist (ii_a i)) (i_temp ist (ii_b i)))"
    using op mem(1) by (auto simp: sz_def split: if_splits)
  from emit_store_stores [OF base(1) a(2) b(2) a(1) b(1) base(2,3) this a(3) [symmetric] b(3) [symmetric]]
  have "stores env m mem (emit_store fn i sz)" .
  moreover have "emit_simple fn i = emit_store fn i sz" using op by (auto simp: emit_simple_def sz_def)
  ultimately show ?thesis using at_step_store [OF st cls(3) _ mem(2,3)] ist' by simp
qed

lemma sim_stl:
  assumes st: "at_step env fn L p i ist m" and op: "ii_op i = IR_STL"
    and step: "ir_step env fn i ist = Some ist'"
  shows "simulated env fn L p (emit_simple fn i) ist' m"
proof -
  have cls: "ii_op i \<notin> uses_none" "ii_op i \<in> no_dst" using op by (auto simp: uses_none_def no_dst_def)
  obtain ta where a: "ii_a i = int ta" "legal_temp fn ta" "val_of env L (place_of fn ta) m = i_temp ist (ii_a i)"
    using at_step_a [OF st cls(1)] by blast
  note base = at_step_base [OF st]
  obtain off mem' where off: "slot_offset fn (ii_slot i) = Some off"
    and mem': "ir_store env IR_SW (i_mem ist) (e_fp env + word_of_int off) (i_temp ist (ii_a i)) = Some mem'"
    and ist': "ist' = ist\<lparr>i_mem := mem'\<rparr>"
    using op step by (auto simp: ir_step_def slot_addr_def split: bind_splits)
  have eo: "env_ok env fn L" using st by (simp add: at_step_def)
  obtain mem where mem: "ir_store env IR_SW (m_mem m) (e_fp env + word_of_int off) (i_temp ist (ii_a i)) = Some mem"
    "\<And>a. reserved env fn L a \<Longrightarrow> mem a = m_mem m a" "\<And>a. \<not> reserved env fn L a \<Longrightarrow> mem a = mem' a"
    using ir_store_memory [OF eo related_memory [OF st] mem'] by blast
  have "mem = store32 (m_mem m) (e_fp env + word_of_int off) (val_of env L (place_of fn ta) m)"
    unfolding a(3) using mem(1) by (simp split: if_splits)
  note s = stl_stores [OF a(2) base(2,3) this]
  have "emit_simple fn i = Some (reload L (place_of fn ta) 0 @ [Move ''l'' (Dn (src (place_of fn ta) 0)) (Fp_at off)])"
    using rs_rd_wd [OF base(1) a(2)] a(1) op off by (simp add: emit_simple_def)
  then show ?thesis using at_step_store [OF st cls(2) s mem(2,3)] ist' by simp
qed

lemma sim_direct:
  assumes st: "at_step env fn L p i ist m" and op: "ii_op i \<in> {IR_LIC, IR_LEA, IR_ADL, IR_LDL}"
    and step: "ir_step env fn i ist = Some ist'"
  shows "simulated env fn L p (emit_simple fn i) ist' m"
proof -
  have cls: "ii_op i \<notin> no_dst" using op by (auto simp: no_dst_def)
  obtain td where d: "ii_dst i = int td" "legal_temp fn td"
    "\<And>v code. writes env fn L td v m code \<Longrightarrow> simulated env fn L p code (set_temp i v ist) m"
    using at_step_dst [OF st cls] by blast
  note base = at_step_base [OF st]
  have eo: "env_ok env fn L" using st by (simp add: at_step_def)
  let ?sd = "src (place_of fn td) 0"
  let ?goal = "\<exists>xs v a c. emit_simple fn i = Some (xs @ spillback L (place_of fn td)) \<and> ist' = set_temp i v ist \<and>
    exec_list env xs m = Some (m\<lparr>m_d := (m_d m)(?sd := v), m_a0 := a, m_cc := c\<rparr>)"
  have direct: ?goal if "emit_simple fn i = Some (xs @ spillback L (place_of fn td))" "ist' = set_temp i v ist"
    "exec_list env xs m = Some (m\<lparr>m_d := (m_d m)(?sd := v), m_a0 := a, m_cc := c\<rparr>)" for xs v a c
    using that by blast
  note em = rs_rd_wd(2,3) [OF base(1) d(2)]
  consider "ii_op i = IR_LIC" | "ii_op i = IR_LEA" | "ii_op i = IR_ADL" | "ii_op i = IR_LDL" using op by blast
  then have ?goal
  proof cases
    case 1
    let ?xs = "if - 128 \<le> ii_imm i \<and> ii_imm i \<le> 127 then [Moveq (ii_imm i) ?sd] else [Move ''l'' (Num (ii_imm i)) (Dn ?sd)]"
    show ?thesis
    proof (rule direct)
      show "emit_simple fn i = Some (?xs @ spillback L (place_of fn td))"
        using em d(1) 1 by (simp add: emit_simple_def)
      show "ist' = set_temp i (word_of_int (ii_imm i)) ist" using step 1 by (simp add: ir_step_def)
      show "exec_list env ?xs m = Some (m\<lparr>m_d := (m_d m)(?sd := word_of_int (ii_imm i)), m_a0 := m_a0 m, m_cc := None\<rparr>)"
        using base(3) by (simp add: exec_defs)
    qed
  next
    case 2
    show ?thesis
    proof (rule direct)
      show "emit_simple fn i = Some ([Lea (Sym (ii_sym i)), Move ''l'' An (Dn ?sd)] @ spillback L (place_of fn td))"
        using em d(1) 2 by (simp add: emit_simple_def)
      show "ist' = set_temp i (e_sym env (ii_sym i)) ist" using step 2 by (simp add: ir_step_def)
      show "exec_list env [Lea (Sym (ii_sym i)), Move ''l'' An (Dn ?sd)] m =
          Some (m\<lparr>m_d := (m_d m)(?sd := e_sym env (ii_sym i)), m_a0 := e_sym env (ii_sym i), m_cc := None\<rparr>)"
        using base(3) by (simp add: exec_defs)
    qed
  next
    case 3
    then obtain off where off: "slot_offset fn (ii_slot i) = Some off"
      and ist': "ist' = set_temp i (e_fp env + word_of_int off) ist"
      using step by (auto simp: ir_step_def slot_addr_def split: bind_splits)
    show ?thesis
    proof (rule direct)
      show "emit_simple fn i = Some ([Lea (Fp_at off), Move ''l'' An (Dn ?sd)] @ spillback L (place_of fn td))"
        using em d(1) 3 off by (simp add: emit_simple_def)
      show "exec_list env [Lea (Fp_at off), Move ''l'' An (Dn ?sd)] m =
          Some (m\<lparr>m_d := (m_d m)(?sd := e_fp env + word_of_int off), m_a0 := e_fp env + word_of_int off, m_cc := None\<rparr>)"
        using base(2,3) by (simp add: exec_defs)
    qed (rule ist')
  next
    case 4
    then obtain off v where off: "slot_offset fn (ii_slot i) = Some off"
      and v: "ir_load env IR_LW (i_mem ist) (e_fp env + word_of_int off) = Some v" and ist': "ist' = set_temp i v ist"
      using step by (auto simp: ir_step_def slot_addr_def split: bind_splits)
    have ld: "load32 (m_mem m) (e_fp env + word_of_int off) = v"
      using ir_load_memory [OF eo related_memory [OF st] v] by (simp split: if_splits)
    show ?thesis
    proof (rule direct)
      show "emit_simple fn i = Some ([Move ''l'' (Fp_at off) (Dn ?sd)] @ spillback L (place_of fn td))"
        using em d(1) 4 off by (simp add: emit_simple_def)
      show "exec_list env [Move ''l'' (Fp_at off) (Dn ?sd)] m =
          Some (m\<lparr>m_d := (m_d m)(?sd := v), m_a0 := m_a0 m, m_cc := None\<rparr>)"
        using base(2,3) ld by (simp add: exec_defs)
    qed (rule ist')
  qed
  then obtain xs v a c where x: "emit_simple fn i = Some (xs @ spillback L (place_of fn td))" "ist' = set_temp i v ist"
    "exec_list env xs m = Some (m\<lparr>m_d := (m_d m)(src (place_of fn td) 0 := v), m_a0 := a, m_cc := c\<rparr>)" by blast
  show ?thesis unfolding x(1,2) by (rule d(3) [OF direct_writes [OF base(1) d(2) base(2,3) x(3)]])
qed

lemma sim_none:
  assumes st: "at_step env fn L p i ist m" and op: "ii_op i \<in> {IR_NOP, IR_FUNC, IR_ENDF}"
    and step: "ir_step env fn i ist = Some ist'"
  shows "simulated env fn L p (emit_simple fn i) ist' m"
proof -
  have cls: "ii_op i \<in> no_dst" using op by (auto simp: no_dst_def)
  have "stores env m (m_mem m) (emit_simple fn i)"
    using op at_step_base [OF st] by (auto simp: stores_def emit_simple_def)
  from at_step_store [OF st cls this _ related_memory [OF st]] show ?thesis
    using step op by (auto simp: ir_step_def)
qed

text \<open>Every straight-line instruction, compiled, does what it means.\<close>

lemma simulate_insn:
  assumes st: "at_step env fn L p i ist m" and step: "ir_step env fn i ist = Some ist'"
  shows "simulated env fn L p (emit_simple fn i) ist' m"
proof -
  have "ii_op i \<in> simple_ops" using st by (auto simp: at_step_def insn_ok_def Let_def)
  then show ?thesis
  proof (cases rule: simple_cases)
    case none
    then show ?thesis using st step by (intro sim_none)
  next
    case direct
    then show ?thesis using st step by (intro sim_direct)
  next
    case stl
    then show ?thesis using st step by (intro sim_stl)
  next
    case mov
    then show ?thesis using st step by (intro sim_mov)
  next
    case una
    then show ?thesis using st step by (intro sim_una)
  next
    case load
    then show ?thesis using st step by (intro sim_load)
  next
    case store
    then show ?thesis using st step by (intro sim_store)
  next
    case (alu mn)
    then show ?thesis using st step by (intro sim_alu)
  next
    case (scc mn)
    then show ?thesis using st step by (intro sim_scc)
  next
    case modulo
    then show ?thesis using st step by (intro sim_mod)
  qed
qed

section \<open>Function bodies\<close>

lemma emit_insn_simple:
  "ii_op i \<in> simple_ops \<Longrightarrow> emit_insn es fn i = do { l \<leftarrow> emit_simple fn i; Some (l, es) }"
  by (auto simp: simple_ops_def emit_insn_def)

lemma simulate_body:
  assumes al: "allocated fn" and ok: "frame_ok fn L" and eo: "env_ok env fn L"
    and xs: "fn_insns fn = body @ rest"
    and wf: "\<And>q. q < length body \<Longrightarrow> insn_ok fn q \<and> scratch_ok fn (body ! q)"
    and r: "related env fn L p ist m" and p: "p \<le> length body"
    and run: "ir_run env fn (drop p body) ist = Some ist'"
  shows "\<exists>code m'. emit_body es fn (drop p body) = Some (code, es) \<and> exec_list env code m = Some m' \<and>
    related env fn L (length body) ist' m' \<and> keeps_saved env fn L m m'"
  using r p run
proof (induction "length body - p" arbitrary: p ist m)
  case 0
  then show ?case by (simp add: keeps_saved_def)
next
  case (Suc n)
  then have p: "p < length body" by simp
  let ?i = "body ! p"
  obtain ist1 where step: "ir_step env fn ?i ist = Some ist1" and run: "ir_run env fn (drop (Suc p) body) ist1 = Some ist'"
    using Suc.prems(3) by (auto simp: Cons_nth_drop_Suc [OF p, symmetric] split: bind_splits)
  have st: "at_step env fn L p ?i ist m"
    using al ok eo Suc.prems(1) p xs wf [OF p] by (simp add: at_step_def nth_append)
  obtain code1 m1 where e1: "emit_simple fn ?i = Some code1" "exec_list env code1 m = Some m1"
    and r1: "related env fn L (Suc p) ist1 m1" and k1: "keeps_saved env fn L m m1"
    using simulate_insn [OF st step] by (auto simp: simulated_def)
  obtain code2 m2 where "emit_body es fn (drop (Suc p) body) = Some (code2, es)" "exec_list env code2 m1 = Some m2"
    "related env fn L (length body) ist' m2" "keeps_saved env fn L m1 m2"
    using Suc.hyps(1) [OF _ r1 _ run] Suc.hyps(2) p by fastforce
  moreover have "ii_op ?i \<in> simple_ops" using st by (auto simp: at_step_def insn_ok_def Let_def)
  ultimately show ?case
    using e1 k1 by (auto simp: Cons_nth_drop_Suc [OF p, symmetric] emit_insn_simple exec_append keeps_saved_def)
qed

end
