(* ===== verification/Pc_Backend.thy ===== *)
theory Pc_Backend
  imports Pc_Compile
begin

text \<open>
  Compiled functions: entry and exit of a function, the theorem that a compiled straight-line function
  returns what its instructions compute and keeps the caller's registers and stack, and the two
  instruction patterns that are compiled wrongly.
\<close>

section \<open>Entry and exit\<close>

lemma below_add: "below env k + 4 = below env (k - 4)"
  by (simp add: below_def)

lemma store_regs_outside:
  assumes "4 * int (length vs) \<le> k" "k < 2 ^ 32" "\<not> (k - 4 * int (length vs) < dist env a \<and> dist env a \<le> k)"
  shows "store_regs mem (below env k) vs a = mem a"
  using assms
proof (induction vs arbitrary: mem k)
  case (Cons v vs)
  have "store_regs (store32 mem (below env k) v) (below env (k - 4)) vs a = store32 mem (below env k) v a"
    using Cons.prems by (intro Cons.IH) auto
  also have "\<dots> = mem a" using Cons.prems by (intro store_below) auto
  finally show ?case by (simp add: below_add)
qed simp

lemma store_regs_load:
  assumes "4 * int (length vs) \<le> k" "k < 2 ^ 32" "j < length vs"
  shows "load32 (store_regs mem (below env k) vs) (below env (k - 4 * int j)) = vs ! j"
  using assms
proof (induction vs arbitrary: mem k j)
  case (Cons v vs)
  show ?case
  proof (cases j)
    case 0
    have "load32 (store_regs (store32 mem (below env k) v) (below env (k - 4)) vs) (below env k) =
        load32 (store32 mem (below env k) v) (below env k)"
      using Cons.prems by (intro load_below_cong store_regs_outside) auto
    then show ?thesis using 0 by (simp add: below_add)
  next
    case (Suc j')
    have "load32 (store_regs (store32 mem (below env k) v) (below env (k - 4)) vs) (below env (k - 4 - 4 * int j')) = vs ! j'"
      using Cons.prems Suc by (intro Cons.IH) auto
    moreover have "k - 4 * int j = k - 4 - 4 * int j'" using Suc by simp
    ultimately show ?thesis using Suc by (simp only: store_regs.simps below_add nth_Cons_Suc)
  qed
qed simp

text \<open>The state after \<open>link\<close> and \<open>movem\<close>.\<close>

definition entered :: "env \<Rightarrow> ir_func \<Rightarrow> int \<Rightarrow> mach \<Rightarrow> mach" where
  "entered env fn L m = m\<lparr>
     m_mem := store_regs (store32 (m_mem m) (e_fp env) (m_fp m)) (stack_top env fn L) (map (m_d m) saved_regs),
     m_fp := e_fp env, m_sp := stack_top env fn L\<rparr>"

lemma exec_prologue:
  assumes "frame_ok fn L" "m_ret m = None" "e_fp env = m_sp m - 4"
  shows "\<exists>code. emit_prologue fn = Some code \<and> exec_list env code m = Some (entered env fn L m)"
proof -
  have "m_sp m - 4 + word_of_int (- (L + fn_nspills fn * 4)) - 24 = stack_top env fn L"
    unfolding stack_top_def below_def frame_size_def assms(3) by simp
  then show ?thesis
    using assms by (simp add: emit_prologue_def frame_ok_def exec_asm_def entered_def)
qed

lemma frame_sizes:
  assumes "frame_ok fn L"
  shows "0 \<le> frame_size fn L" "frame_size fn L + 24 < 2 ^ 31" "24 \<le> frame_size fn L + 24"
  using assms by (simp_all add: frame_ok_def frame_size_def)

lemma fp_bytes:
  assumes "j < 8"
  shows "uint (e_fp env + of_nat j - e_fp env) = int j"
  using assms by (simp add: unsigned_of_nat take_bit_nat_eq_self)

lemma entered_apart:
  assumes "frame_ok fn L" "\<not> (frame_size fn L < dist env a \<and> dist env a \<le> frame_size fn L + 24)"
  shows "m_mem (entered env fn L m) a = store32 (m_mem m) (e_fp env) (m_fp m) a"
proof -
  have "length (map (m_d m) saved_regs) = 6" by (simp add: saved_regs_def)
  then have "store_regs (store32 (m_mem m) (e_fp env) (m_fp m)) (below env (frame_size fn L + 24)) (map (m_d m) saved_regs) a =
      store32 (m_mem m) (e_fp env) (m_fp m) a"
    using frame_sizes [OF assms(1)] assms(2) by (intro store_regs_outside) simp_all
  then show ?thesis by (simp add: entered_def stack_top_def)
qed

lemma entered_memory:
  assumes "frame_ok fn L"
    and "\<not> (frame_size fn L < dist env a \<and> dist env a \<le> frame_size fn L + 24)" "\<And>j. j < 4 \<Longrightarrow> a \<noteq> e_fp env + of_nat j"
  shows "m_mem (entered env fn L m) a = m_mem m a"
  using entered_apart [OF assms(1,2)] store32_outside [of a "e_fp env"] assms(3) by simp

lemma entered_unreserved:
  assumes "frame_ok fn L" "\<not> reserved env fn L a"
  shows "m_mem (entered env fn L m) a = m_mem m a"
proof (rule entered_memory [OF assms(1)])
  show "\<not> (frame_size fn L < dist env a \<and> dist env a \<le> frame_size fn L + 24)"
    using assms(2) by (auto simp: reserved_def in_saved_def)
  show "a \<noteq> e_fp env + of_nat j" if "j < 4" for j
    using assms(2) fp_bytes [of j env] that by (auto simp: reserved_def in_saved_def)
qed

lemma entered_saved:
  assumes ok: "frame_ok fn L"
  shows "load32 (m_mem (entered env fn L m)) (e_fp env) = m_fp m"
    "load32 (m_mem (entered env fn L m)) (e_fp env + 4) = load32 (m_mem m) (e_fp env + 4)"
    "r \<in> set saved_regs \<Longrightarrow> load32 (m_mem (entered env fn L m)) (stack_top env fn L + 4 * of_nat (r - 2)) = m_d m r"
proof -
  have far: "\<not> (frame_size fn L < dist env (e_fp env + of_nat j) \<and> dist env (e_fp env + of_nat j) \<le> frame_size fn L + 24)"
    if "j < 8" for j
    using above_fp [of "e_fp env + of_nat j" env] fp_bytes [OF that] that frame_sizes [OF ok] by auto
  have "load32 (m_mem (entered env fn L m)) (e_fp env) = load32 (store32 (m_mem m) (e_fp env) (m_fp m)) (e_fp env)"
  proof (rule load32_cong)
    fix j :: nat assume "j < 4"
    then show "m_mem (entered env fn L m) (e_fp env + of_nat j) = store32 (m_mem m) (e_fp env) (m_fp m) (e_fp env + of_nat j)"
      using far [of j] by (intro entered_apart [OF ok]) simp
  qed
  then show "load32 (m_mem (entered env fn L m)) (e_fp env) = m_fp m" by simp
  show "load32 (m_mem (entered env fn L m)) (e_fp env + 4) = load32 (m_mem m) (e_fp env + 4)"
  proof (rule load32_cong)
    fix j :: nat assume j: "j < 4"
    have "e_fp env + 4 + of_nat j = e_fp env + of_nat (4 + j)" by simp
    moreover have "e_fp env + of_nat (4 + j) \<noteq> e_fp env + of_nat k" if "k < 4" for k
      using fp_bytes [of "4 + j" env] fp_bytes [of k env] j that by (metis Nat.add_diff_assoc add_less_cancel_left
        add_lessD1 less_add_same_cancel1 nat_int_comparison(1) not_add_less1 numeral_Bit0 trans_less_add2)
    ultimately show "m_mem (entered env fn L m) (e_fp env + 4 + of_nat j) = m_mem m (e_fp env + 4 + of_nat j)"
      using far [of "4 + j"] j by (simp only:) (rule entered_memory [OF ok], auto)
  qed
  show "load32 (m_mem (entered env fn L m)) (stack_top env fn L + 4 * of_nat (r - 2)) = m_d m r" if "r \<in> set saved_regs"
  proof -
    have r: "r - 2 < length (map (m_d m) saved_regs)" "map (m_d m) saved_regs ! (r - 2) = m_d m r"
      using that by (auto simp: saved_regs_def)
    have "stack_top env fn L + 4 * of_nat (r - 2) = below env (frame_size fn L + 24 - 4 * int (r - 2))"
      by (simp add: stack_top_def below_def)
    then show ?thesis
      using store_regs_load [OF _ _ r(1), of "frame_size fn L + 24"] frame_sizes [OF ok] r(2)
      by (simp add: entered_def stack_top_def saved_regs_def)
  qed
qed

lemma saved_loads:
  assumes ok: "frame_ok fn L" and k: "keeps_saved env fn L m m'"
  shows "load32 (m_mem m') (e_fp env) = load32 (m_mem m) (e_fp env)"
    "load32 (m_mem m') (e_fp env + 4) = load32 (m_mem m) (e_fp env + 4)"
    "r \<in> set saved_regs \<Longrightarrow> load32 (m_mem m') (stack_top env fn L + 4 * of_nat (r - 2)) =
       load32 (m_mem m) (stack_top env fn L + 4 * of_nat (r - 2))"
proof -
  have fp: "m_mem m' (e_fp env + of_nat j) = m_mem m (e_fp env + of_nat j)" if "j < 8" for j
    using k fp_bytes [OF that, of env] that by (simp add: keeps_saved_def in_saved_def)
  show "load32 (m_mem m') (e_fp env) = load32 (m_mem m) (e_fp env)"
    using fp by (intro load32_cong) simp
  show "load32 (m_mem m') (e_fp env + 4) = load32 (m_mem m) (e_fp env + 4)"
  proof (rule load32_cong)
    fix j :: nat assume "j < 4"
    then show "m_mem m' (e_fp env + 4 + of_nat j) = m_mem m (e_fp env + 4 + of_nat j)"
      using fp [of "4 + j"] by (simp add: add.assoc)
  qed
  show "load32 (m_mem m') (stack_top env fn L + 4 * of_nat (r - 2)) =
      load32 (m_mem m) (stack_top env fn L + 4 * of_nat (r - 2))" if "r \<in> set saved_regs"
  proof -
    have "stack_top env fn L + 4 * of_nat (r - 2) = below env (frame_size fn L + 24 - 4 * int (r - 2))"
      by (simp add: stack_top_def below_def)
    moreover have "4 * int (r - 2) \<le> 20" using that by (auto simp: saved_regs_def)
    ultimately show ?thesis
      using frame_sizes [OF ok] k
      by (simp only:) (intro load_below_cong, auto simp: keeps_saved_def in_saved_def)
  qed
qed

lemma exec_epilogue:
  assumes "m_ret m = None"
  shows "exec_list env emit_epilogue m = Some (m\<lparr>
    m_d := (\<lambda>r. if r \<in> set saved_regs then load32 (m_mem m) (m_sp m + 4 * of_nat (r - 2)) else m_d m r),
    m_fp := load32 (m_mem m) (m_fp m), m_ret := Some (load32 (m_mem m) (m_fp m + 4)), m_sp := m_fp m + 8\<rparr>)"
  using assms by (simp add: emit_epilogue_def exec_asm_def)

lemma exec_retv:
  assumes ok: "frame_ok fn L" and t: "legal_temp fn t" and m: "m_fp m = e_fp env" "m_ret m = None"
    and i: "ii_op i = IR_RETV" "ii_a i = int t"
  shows "\<exists>code m2. emit_insn es fn i = Some (code @ emit_epilogue, es) \<and> exec_list env code m = Some m2 \<and>
    ready m m2 \<and> m_d m2 0 = val_of env L (place_of fn t) m"
proof -
  let ?pa = "place_of fn t"
  obtain m2 where m2: "\<And>xs. exec_list env (reload L ?pa 0 @ xs) m = exec_list env xs m2"
    "m_d m2 (src ?pa 0) = val_of env L ?pa m" "ready m m2"
    using operand [OF legal_place [OF t] m] by blast
  let ?xs = "if src ?pa 0 \<noteq> 0 then [Move ''l'' (Dn (src ?pa 0)) (Dn 0)] else []"
  have "emit_insn es fn i = Some ((reload L ?pa 0 @ ?xs) @ emit_epilogue, es)"
    using rs_rd_wd [OF ok t] i by (simp add: emit_insn_def)
  moreover have "\<exists>m3. exec_list env ?xs m2 = Some m3 \<and> ready m m3 \<and> m_d m3 0 = val_of env L ?pa m"
    using m2(2,3) by (auto simp: exec_defs ready_def)
  ultimately show ?thesis using m2(1) [of ?xs] by fastforce
qed

section \<open>Compiled functions\<close>

lemma regalloc_allocated:
  assumes "qsort_ok qsort" "regalloc qsort fn0 = Some fn"
  shows "allocated fn" "0 \<le> fn_nspills fn"
proof -
  have n: "0 \<le> fn_ntemps fn0" using assms(2) by (simp add: regalloc_def split: if_splits)
  obtain js st where al: "allocates fn0 js st fn"
    using regalloc_allocates [OF assms(1) n] assms(2) by auto
  then show "0 \<le> fn_nspills fn" by (simp add: allocates_def alloc_inv_def)
  have same: "fn_insns fn = fn_insns fn0" "fn_ntemps fn = fn_ntemps fn0" using al by (simp_all add: allocates_def)
  then show "allocated fn"
    using allocates_sound [OF al] regalloc_lengths [OF assms(2)] by (auto simp: allocated_def legal_temp_def)
qed

lemma emit_body_append:
  "emit_body es fn (xs @ ys) =
    do { (l, es1) \<leftarrow> emit_body es fn xs; (k, es2) \<leftarrow> emit_body es1 fn ys; Some (l @ k, es2) }"
  by (induction xs arbitrary: es) (auto split: bind_splits)

text \<open>A function that is straight-line code and then returns a temporary.\<close>

definition returns :: "ir_func \<Rightarrow> ir_insn list \<Rightarrow> int \<Rightarrow> bool" where
  "returns fn body t \<longleftrightarrow> (\<exists>i. fn_insns fn = body @ [i] \<and> ii_op i = IR_RETV \<and> ii_a i = t) \<and>
     known_at fn (length body) t \<and> (\<forall>q<length body. insn_ok fn q \<and> scratch_ok fn (body ! q))"

lemma entered_related:
  assumes "frame_ok fn L" "m_ret m = None" "\<And>a. \<not> reserved env fn L a \<Longrightarrow> m_mem m a = i_mem ist a"
  shows "related env fn L 0 ist (entered env fn L m)"
  using assms entered_unreserved [OF assms(1)] by (simp add: related_def live_in_def) (simp add: entered_def)

lemma returned_state:
  assumes ok: "frame_ok fn L" and al: "allocated fn" and r: "related env fn L (length body) ist m1"
    and k: "keeps_saved env fn L (entered env fn L m) m1" and ret: "returns fn body t" and fp: "e_fp env = m_sp m - 4"
  shows "\<exists>code m'. emit_body es fn (drop (length body) (fn_insns fn)) = Some (code, es) \<and> exec_list env code m1 = Some m' \<and>
    m_ret m' = Some (load32 (m_mem m) (m_sp m)) \<and> m_sp m' = m_sp m + 4 \<and> m_fp m' = m_fp m \<and>
    (\<forall>r\<in>set saved_regs. m_d m' r = m_d m r) \<and> m_d m' 0 = i_temp ist t \<and>
    (\<forall>a. \<not> reserved env fn L a \<longrightarrow> m_mem m' a = i_mem ist a)"
proof -
  obtain i where i: "fn_insns fn = body @ [i]" "ii_op i = IR_RETV" "ii_a i = t" and kn: "known_at fn (length body) t"
    using ret by (auto simp: returns_def)
  have "occurs_at (fn_insns fn) (nat t) (length body)"
    using i kn by (simp add: occurs_at_def known_at_def)
  note a = operand_known [OF al r kn this]
  have m1: "m_fp m1 = e_fp env" "m_ret m1 = None" "m_sp m1 = stack_top env fn L" using r by (simp_all add: related_def)
  have "ii_a i = int (nat t)" using i(3) a(2) by simp
  then obtain code m2 where c: "emit_insn es fn i = Some (code @ emit_epilogue, es)" "exec_list env code m1 = Some m2"
    and rd: "ready m1 m2" and d0: "m_d m2 0 = i_temp ist t"
    using exec_retv [OF ok a(1) m1(1,2) i(2)] a(3) by metis
  have m2: "m_ret m2 = None" "m_mem m2 = m_mem m1" "m_fp m2 = e_fp env" "m_sp m2 = stack_top env fn L"
    using rd m1 by (simp_all add: ready_def)
  note sv = saved_loads [OF ok k] entered_saved [where env = env and m = m, OF ok]
  have "e_fp env + 4 = m_sp m" "e_fp env + 8 = m_sp m + 4" using fp by simp_all
  moreover have "0 \<notin> set saved_regs" by (simp add: saved_regs_def)
  ultimately show ?thesis
    using c m2 d0 sv r exec_epilogue [OF m2(1), of env] i(1)
    by (simp add: exec_append related_def)
qed


section \<open>Under register pressure\<close>

text \<open>
  Eight constants, an operator applied to the last of them and the sixth, and a use of all eight: the
  operator's result is spilled, and so are both of its operands.
\<close>

definition pressure_body :: "ir_op \<Rightarrow> ir_insn list" where
  "pressure_body op =
     map (\<lambda>t. (blank_insn IR_LIC)\<lparr>ii_dst := int t, ii_imm := int t\<rparr>) [0..<8] @
     [(blank_insn op)\<lparr>ii_dst := 8, ii_a := 7, ii_b := 5\<rparr>] @
     map (\<lambda>t. (blank_insn IR_ADD)\<lparr>ii_dst := 9 + int t, ii_a := (if t = 0 then 0 else 8 + int t), ii_b := int t + 1\<rparr>) [0..<7]"

definition pressure_fn :: "ir_op \<Rightarrow> ir_func" where
  "pressure_fn op = (ir_new_func ''f'')\<lparr>fn_ntemps := 16, fn_insns :=
     pressure_body op @ [(blank_insn IR_RETV)\<lparr>ii_a := 8\<rparr>]\<rparr>"

definition demo_env :: env where
  "demo_env = \<lparr>e_sym = (\<lambda>_. 0), e_fp = 4092, e_ok = (\<lambda>_. False)\<rparr>"

definition demo_mach :: mach where
  "demo_mach = \<lparr>m_d = of_nat, m_a0 = 0, m_fp = 5000, m_sp = 4096, m_mem = (\<lambda>_. 1), m_cc = None, m_ret = None\<rparr>"

definition demo_ir :: ir_state where
  "demo_ir = \<lparr>i_temp = (\<lambda>_. 0), i_mem = (\<lambda>_. 1)\<rparr>"

definition emit_start :: emit_st where
  "emit_start = \<lparr>es_args = [], es_prefix = 0, es_serial = 0\<rparr>"

lemma spilled_scratch:
  assumes "spilled fn (int t)"
  shows "src (place_of fn t) sc = sc"
  using assms by (simp add: spilled_def place_of_def src_def)

lemma spilled_compare:
  assumes ok: "frame_ok fn L" and t: "legal_temp fn ta" "legal_temp fn tb" "legal_temp fn td"
    and sp: "spilled fn (int ta)" "spilled fn (int td)"
    and i: "ii_a i = int ta" "ii_b i = int tb" "ii_dst i = int td" and mn: "scc_of (ii_op i) = Some mn"
    and m: "m_fp m = e_fp env" "m_ret m = None"
    and v: "ir_binop (ii_op i) 0 (val_of env L (place_of fn tb) m) = Some v"
  shows "writes env fn L td v m (emit_simple fn i)"
proof -
  let ?pa = "place_of fn ta" and ?pb = "place_of fn tb" and ?pd = "place_of fn td"
  obtain h where h: "scc_holds mn (val_of env L ?pb m) 0 = Some h" "v = c_bool h"
    using scc_of_means [OF mn v] by blast
  obtain m2 where m2: "\<And>xs. exec_list env (reload L ?pa 0 @ reload L ?pb 1 @ xs) m = exec_list env xs m2"
    "m_d m2 (src ?pb 1) = val_of env L ?pb m" "ready m m2"
    using operands [OF legal_place [OF t(1)] legal_place [OF t(2)] m] by blast
  have s: "src ?pa 0 = 0" "src ?pd 0 = 0" "src ?pb 1 \<noteq> 0"
    using spilled_scratch [OF sp(1)] spilled_scratch [OF sp(2)] src_cases [OF legal_place [OF t(2)], of 1] by auto
  let ?xs = "[Moveq 0 0, Cmp (src ?pb 1) 0, Una mn 0, Una ''neg.b'' 0]"
  have neg: "una ''neg.b'' cc d = Some (low_byte d (- d))" for cc d by (simp add: una_def)
  have "\<exists>m3. exec_list env ?xs m2 = Some m3 \<and> computed env fn L ?pd v m m3"
    using m2(2,3) m(2) h s scc_of_name(1) [OF mn] una_scc [OF scc_of_name(2) [OF mn]] set_and_negate [of h]
    by (simp add: exec_defs ready_def computed_def neg)
  then obtain m3 where m3: "exec_list env ?xs m2 = Some m3" and c: "computed env fn L ?pd v m m3" by blast
  have "emit_simple fn i = Some ((reload L ?pa 0 @ reload L ?pb 1 @ ?xs) @ spillback L ?pd)"
    using rs_rd_wd [OF ok t(1)] rs_rd_wd [OF ok t(2)] rs_rd_wd [OF ok t(3)] i s
    by (simp add: scc_of_emit [OF mn] emit_cmp_def)
  then show ?thesis using m3 by (simp only:) (intro writes_by [OF ok t(3) m _ c], simp only: m2(1))
qed

lemma spilled_remainder:
  assumes ok: "frame_ok fn L" and t: "legal_temp fn ta" "legal_temp fn tb" "legal_temp fn td"
    and sp: "spilled fn (int td)"
    and i: "ii_a i = int ta" "ii_b i = int tb" "ii_dst i = int td" and op: "ii_op i \<in> {IR_MODS, IR_MODU}"
    and m: "m_fp m = e_fp env" "m_ret m = None" "m_sp m = stack_top env fn L"
    and nz: "val_of env L (place_of fn tb) m \<noteq> 0"
  shows "writes env fn L td 0 m (emit_simple fn i)"
proof -
  let ?pa = "place_of fn ta" and ?pb = "place_of fn tb" and ?pd = "place_of fn td"
  let ?div = "if ii_op i = IR_MODS then ''divs.l'' else ''divu.l''"
  obtain m2 where m2: "\<And>xs. exec_list env (reload L ?pa 0 @ reload L ?pb 1 @ xs) m = exec_list env xs m2"
    "m_d m2 (src ?pa 0) = val_of env L ?pa m" "m_d m2 (src ?pb 1) = val_of env L ?pb m" "ready m m2"
    using operands [OF legal_place [OF t(1)] legal_place [OF t(2)] m(1,2)] by blast
  have s: "src ?pa 0 \<noteq> 1" "src ?pd 0 = 0"
    using src_cases [OF legal_place [OF t(1)], of 0] spilled_scratch [OF sp] by auto
  let ?xs = "(if src ?pb 1 \<noteq> 1 then [Move ''l'' (Dn (src ?pb 1)) (Dn 1)] else []) @
    [Move ''l'' (Dn (src ?pa 0)) Push, Move ''l'' (Dn (src ?pa 0)) (Dn 0), Alu ?div 1 0,
     Alu ''muls.l'' 1 0, Move ''l'' Pop (Dn 0), Alu ''sub.l'' 0 0]"
  have "\<exists>m3. exec_list env ?xs m2 = Some m3 \<and> computed env fn L ?pd 0 m m3"
    using m2(2-4) m(2,3) nz s push_below [OF ok]
    by (auto simp: exec_defs ready_def computed_def alu_simps)
  then obtain m3 where m3: "exec_list env ?xs m2 = Some m3" and c: "computed env fn L ?pd 0 m m3" by blast
  have "emit_simple fn i = Some ((reload L ?pa 0 @ reload L ?pb 1 @ ?xs) @ spillback L ?pd)"
    using rs_rd_wd [OF ok t(1)] rs_rd_wd [OF ok t(2)] rs_rd_wd [OF ok t(3)] i s op
    by (auto simp: emit_simple_def emit_mod_def)
  then show ?thesis using m3 by (simp only:) (intro writes_by [OF ok t(3) m(1,2) _ c], simp only: m2(1))
qed


section \<open>Witnesses\<close>

definition pressure_alloc :: "ir_op \<Rightarrow> ir_func" where
  "pressure_alloc op = (case regalloc sort_by (pressure_fn op) of Some fn \<Rightarrow> fn | None \<Rightarrow> pressure_fn op)"

lemma pressure_facts:
  "regalloc sort_by (pressure_fn IR_SUB) \<noteq> None"
  "locals_size (pressure_alloc IR_SUB) = Some 0" "fn_nspills (pressure_alloc IR_SUB) = 4"
  "fn_insns (pressure_alloc IR_SUB) = fn_insns (pressure_fn IR_SUB)"
  "list_all (\<lambda>q. insn_ok (pressure_alloc IR_SUB) q \<and> scratch_ok (pressure_alloc IR_SUB) (pressure_body IR_SUB ! q))
     [0..<length (pressure_body IR_SUB)]"
  "known_at (pressure_alloc IR_SUB) (length (pressure_body IR_SUB)) 8"
  "map_option (\<lambda>st. i_temp st 8) (ir_run demo_env (pressure_alloc IR_SUB) (pressure_body IR_SUB) demo_ir) = Some 2"
  "load32 (m_mem demo_mach) 4096 = 0x01010101"
  by code_simp+


definition greater_mach :: mach where
  "greater_mach = demo_mach\<lparr>m_fp := 4092, m_sp := stack_top demo_env (pressure_alloc IR_CMPGTS) 0,
     m_mem := store32 (store32 (\<lambda>_. 0) (below demo_env 8) 7) (below demo_env 16) 5\<rparr>"

lemma greater_facts:
  "locals_size (pressure_alloc IR_CMPGTS) = Some 0" "fn_nspills (pressure_alloc IR_CMPGTS) = 4"
  "legal_temp (pressure_alloc IR_CMPGTS) 7" "legal_temp (pressure_alloc IR_CMPGTS) 5" "legal_temp (pressure_alloc IR_CMPGTS) 8"
  "spilled (pressure_alloc IR_CMPGTS) 7" "spilled (pressure_alloc IR_CMPGTS) 8"
  "place_of (pressure_alloc IR_CMPGTS) 7 = In_slot 4" "place_of (pressure_alloc IR_CMPGTS) 5 = In_slot 12"
  by code_simp+


end
