(* ===== verification/Pc_Gc.thy ===== *)
theory Pc_Gc
  imports Rv_Prelude "HOL-Library.Monad_Syntax"
begin

text \<open>
  The mark-and-sweep collector \<open>scheme/gc.c\<close> for tagged values. Objects live in an explicit store: a map
  from the addresses \<open>malloc\<close> returned to the objects there, from which \<open>free\<close> removes them. An access
  through an address that is not in the store, or past the end of an object, is the value \<open>None\<close>; so
  are loops and recursions that do not end. A value is a \<open>uintptr_t\<close>, 64 bits on the host.
\<close>

section \<open>Values\<close>

type_synonym val_t = u64

definition TAG_MASK :: val_t where "TAG_MASK = 3"
definition TAG_OBJ :: val_t where "TAG_OBJ = 0"
definition TAG_FIX :: val_t where "TAG_FIX = 1"
definition TAG_IMM :: val_t where "TAG_IMM = 2"
definition VAL_NIL :: val_t where "VAL_NIL = 0"
definition VAL_FALSE :: val_t where "VAL_FALSE = TAG_IMM"
definition VAL_TRUE :: val_t where "VAL_TRUE = TAG_IMM OR 4"

definition MAKE_FIX :: "u32 \<Rightarrow> val_t" where
  "MAKE_FIX n = push_bit 2 (scast n) OR TAG_FIX"

definition GET_FIX :: "val_t \<Rightarrow> u32" where
  "GET_FIX v = ucast (signed_drop_bit 2 v)"

definition IS_FIX :: "val_t \<Rightarrow> bool" where
  "IS_FIX v \<longleftrightarrow> v AND TAG_MASK = TAG_FIX"

definition IS_NIL :: "val_t \<Rightarrow> bool" where
  "IS_NIL v \<longleftrightarrow> v = VAL_NIL"

definition IS_PTR :: "val_t \<Rightarrow> bool" where
  "IS_PTR v \<longleftrightarrow> v AND TAG_MASK = TAG_OBJ \<and> v \<noteq> VAL_NIL"

definition IS_IMM :: "val_t \<Rightarrow> bool" where
  "IS_IMM v \<longleftrightarrow> v AND TAG_MASK = TAG_IMM"

section \<open>Objects and the heap\<close>

text \<open>
  An object's type byte selects the struct it is read as, so the two are one datatype: a string or a
  symbol is its length and its bytes, a closure its function, its count of free variables and their
  array.
\<close>

datatype gc_body =
    OBJ_PAIR val_t val_t
  | OBJ_STRING nat "u8 list"
  | OBJ_SYMBOL nat "u8 list"
  | OBJ_CLOSURE int nat "val_t list"

record gc_obj =
  ob_body :: gc_body
  ob_mark :: u8
  ob_next :: val_t

type_synonym store = "val_t \<Rightarrow> gc_obj option"

text \<open>
  A root is a pointer to a variable that holds a value: a variable of the client, by its address, or a
  parameter of the allocating function itself, which keeps its value while it is a root.
\<close>

datatype root = Var u64 | Arg val_t

definition GC_ROOTS_MAX :: int where
  "GC_ROOTS_MAX = 256"

record gc_heap =
  h_all :: val_t
  h_count :: u32
  h_threshold :: u32
  h_roots :: "int \<Rightarrow> root"
  h_nroots :: int

text \<open>The collector's heap, the store, the client's variables, and the number of calls of \<open>malloc\<close> so far.\<close>

record world =
  w_heap :: gc_heap
  w_cells :: store
  w_vars :: "u64 \<Rightarrow> val_t option"
  w_calls :: nat

text \<open>An operation ends the program (\<open>exit(1)\<close>) or returns.\<close>

datatype 'a outcome = Exits | Returns 'a

fun and_then :: "'a outcome option \<Rightarrow> ('a \<Rightarrow> 'b outcome option) \<Rightarrow> 'b outcome option" where
  "and_then None f = None"
| "and_then (Some Exits) f = Some Exits"
| "and_then (Some (Returns x)) f = f x"

fun each :: "('a \<Rightarrow> 's \<Rightarrow> 's option) \<Rightarrow> 'a list \<Rightarrow> 's \<Rightarrow> 's option" where
  "each f [] s = Some s"
| "each f (x # xs) s = do { s' \<leftarrow> f x s; each f xs s' }"

lemma each_mono [partial_function_mono]:
  assumes "\<And>x s. mono_option (\<lambda>f. B f x s)"
  shows "mono_option (\<lambda>f. each (\<lambda>x s. B f x s) xs s)"
proof (induction xs arbitrary: s)
  case Nil
  then show ?case by (simp add: option.const_mono)
next
  case (Cons x xs)
  show ?case unfolding each.simps by (rule bind_mono [OF assms]) (rule Cons.IH)
qed

section \<open>Initialisation\<close>

definition gc_init :: "gc_heap \<Rightarrow> gc_heap" where
  "gc_init h = h\<lparr>h_all := 0, h_count := 0, h_threshold := 64, h_nroots := 0\<rparr>"

partial_function (option) free_all :: "val_t \<Rightarrow> store \<Rightarrow> store option" where
  "free_all p s =
    (if p = 0 then Some s
     else do { ob \<leftarrow> s p; free_all (ob_next ob) (s(p := None)) })"

definition gc_destroy :: "world \<Rightarrow> world option" where
  "gc_destroy w = do {
     s \<leftarrow> free_all (h_all (w_heap w)) (w_cells w);
     Some (w\<lparr>w_cells := s, w_heap := (w_heap w)\<lparr>h_all := 0, h_count := 0, h_nroots := 0\<rparr>\<rparr>) }"

section \<open>Mark\<close>

partial_function (option) mark_val :: "val_t \<Rightarrow> store \<Rightarrow> store option" where
  "mark_val v s =
    (if \<not> IS_PTR v then Some s
     else do {
       ob \<leftarrow> s v;
       if ob_mark ob \<noteq> 0 then Some s
       else let s' = s(v \<mapsto> ob\<lparr>ob_mark := 1\<rparr>) in
         case ob_body ob of
           OBJ_PAIR car cdr \<Rightarrow> do { s1 \<leftarrow> mark_val car s'; mark_val cdr s1 }
         | OBJ_CLOSURE func_id nfree free \<Rightarrow>
             if nfree \<le> length free then each (\<lambda>x s. mark_val x s) (take nfree free) s' else None
         | OBJ_STRING len dat \<Rightarrow> Some s'
         | OBJ_SYMBOL len dat \<Rightarrow> Some s' })"

definition read_root :: "(u64 \<Rightarrow> val_t option) \<Rightarrow> root \<Rightarrow> val_t option" where
  "read_root vars r = (case r of Var x \<Rightarrow> vars x | Arg v \<Rightarrow> Some v)"

definition mark_roots :: "world \<Rightarrow> store option" where
  "mark_roots w = each (\<lambda>i s. do { v \<leftarrow> read_root (w_vars w) (h_roots (w_heap w) i); mark_val v s })
     [0..h_nroots (w_heap w) - 1] (w_cells w)"

section \<open>Sweep\<close>

text \<open>\<open>pp\<close> points to the field \<open>all\<close> of the heap or to the field \<open>next\<close> of an object.\<close>

datatype link = Link_all | Link_next val_t

definition link_get :: "link \<Rightarrow> val_t \<Rightarrow> store \<Rightarrow> val_t option" where
  "link_get pp al s = (case pp of Link_all \<Rightarrow> Some al | Link_next p \<Rightarrow> map_option ob_next (s p))"

definition link_set :: "link \<Rightarrow> val_t \<Rightarrow> val_t \<Rightarrow> store \<Rightarrow> (val_t \<times> store) option" where
  "link_set pp v al s = (case pp of
     Link_all \<Rightarrow> Some (v, s)
   | Link_next p \<Rightarrow> do { ob \<leftarrow> s p; Some (al, s(p \<mapsto> ob\<lparr>ob_next := v\<rparr>)) })"

partial_function (option) sweep :: "link \<Rightarrow> val_t \<Rightarrow> u32 \<Rightarrow> store \<Rightarrow> (val_t \<times> u32 \<times> store) option" where
  "sweep pp al cnt s = do {
     p \<leftarrow> link_get pp al s;
     if p = 0 then Some (al, cnt, s)
     else do {
       ob \<leftarrow> s p;
       if ob_mark ob \<noteq> 0 then sweep (Link_next p) al cnt (s(p \<mapsto> ob\<lparr>ob_mark := 0\<rparr>))
       else do {
         (al', s') \<leftarrow> link_set pp (ob_next ob) al s;
         sweep pp al' (cnt - 1) (s'(p := None)) } } }"

definition new_threshold :: "u32 \<Rightarrow> u32 \<Rightarrow> u32" where
  "new_threshold thr cnt =
    (let t = (if sint thr < sint (cnt * 2) then cnt * 2 else thr)
     in if sint t < 64 then 64 else t)"

definition gc_collect :: "world \<Rightarrow> world option" where
  "gc_collect w = do {
     s \<leftarrow> mark_roots w;
     (al, cnt, s') \<leftarrow> sweep Link_all (h_all (w_heap w)) (h_count (w_heap w)) s;
     Some (w\<lparr>w_cells := s', w_heap := (w_heap w)\<lparr>h_all := al, h_count := cnt,
       h_threshold := new_threshold (h_threshold (w_heap w)) cnt\<rparr>\<rparr>) }"

section \<open>Allocation\<close>

text \<open>
  \<open>malloc\<close> is given the number of calls before this one, the blocks in use and the size, and returns an
  address, 0 when there is no memory. \<open>body\<close> is the zeroed object of the type and size asked for.
\<close>

definition call_malloc :: "(nat \<Rightarrow> store \<Rightarrow> nat \<Rightarrow> val_t) \<Rightarrow> nat \<Rightarrow> world \<Rightarrow> val_t \<times> world" where
  "call_malloc malloc sz w = (malloc (w_calls w) (w_cells w) sz, w\<lparr>w_calls := w_calls w + 1\<rparr>)"

definition link_new :: "val_t \<Rightarrow> gc_body \<Rightarrow> world \<Rightarrow> val_t \<times> world" where
  "link_new p body w = (p, w\<lparr>
     w_cells := (w_cells w)(p \<mapsto> \<lparr>ob_body = body, ob_mark = 0, ob_next = h_all (w_heap w)\<rparr>),
     w_heap := (w_heap w)\<lparr>h_all := p, h_count := h_count (w_heap w) + 1\<rparr>\<rparr>)"

definition gc_alloc :: "(nat \<Rightarrow> store \<Rightarrow> nat \<Rightarrow> val_t) \<Rightarrow> gc_body \<Rightarrow> nat \<Rightarrow> world \<Rightarrow> (val_t \<times> world) outcome option" where
  "gc_alloc malloc body sz w = do {
     w1 \<leftarrow> (if sint (h_threshold (w_heap w)) \<le> sint (h_count (w_heap w)) then gc_collect w else Some w);
     let (p, w2) = call_malloc malloc sz w1;
     if p \<noteq> 0 then Some (Returns (link_new p body w2))
     else do {
       w3 \<leftarrow> gc_collect w2;
       let (q, w4) = call_malloc malloc sz w3;
       if q \<noteq> 0 then Some (Returns (link_new q body w4)) else Some Exits } }"

section \<open>Roots\<close>

definition gc_push :: "root \<Rightarrow> world \<Rightarrow> world outcome option" where
  "gc_push r w =
    (let n = h_nroots (w_heap w) in
     if GC_ROOTS_MAX \<le> n then Some Exits
     else if n < 0 then None
     else Some (Returns (w\<lparr>w_heap := (w_heap w)\<lparr>h_roots := (h_roots (w_heap w))(n := r), h_nroots := n + 1\<rparr>\<rparr>)))"

definition gc_pop :: "int \<Rightarrow> world \<Rightarrow> world" where
  "gc_pop n w = w\<lparr>w_heap := (w_heap w)\<lparr>h_nroots := h_nroots (w_heap w) - n\<rparr>\<rparr>"

fun push_all :: "root list \<Rightarrow> world \<Rightarrow> world outcome option" where
  "push_all [] w = Some (Returns w)"
| "push_all (r # rs) w = and_then (gc_push r w) (push_all rs)"

section \<open>Constructors\<close>

definition set_body :: "val_t \<Rightarrow> gc_body \<Rightarrow> world \<Rightarrow> world option" where
  "set_body p body w = do { ob \<leftarrow> w_cells w p; Some (w\<lparr>w_cells := (w_cells w)(p \<mapsto> ob\<lparr>ob_body := body\<rparr>)\<rparr>) }"

definition gc_cons :: "(nat \<Rightarrow> store \<Rightarrow> nat \<Rightarrow> val_t) \<Rightarrow> val_t \<Rightarrow> val_t \<Rightarrow> world \<Rightarrow> (val_t \<times> world) outcome option" where
  "gc_cons malloc car cdr w =
    and_then (push_all [Arg car, Arg cdr] w) (\<lambda>w1.
    and_then (gc_alloc malloc (OBJ_PAIR 0 0) 32 w1) (\<lambda>(p, w2). do {
      w3 \<leftarrow> set_body p (OBJ_PAIR car cdr) w2;
      Some (Returns (p, gc_pop 2 w3)) }))"

text \<open>
  The bytes a string is made from: a buffer of the client, or the bytes of an object in the heap.
\<close>

datatype chars = Buf "u8 list" | Data val_t

definition read_chars :: "store \<Rightarrow> chars \<Rightarrow> nat \<Rightarrow> u8 list option" where
  "read_chars s c n = do {
     bs \<leftarrow> (case c of
       Buf bs \<Rightarrow> Some bs
     | Data p \<Rightarrow> do {
         ob \<leftarrow> s p;
         case ob_body ob of OBJ_STRING len dat \<Rightarrow> Some dat | OBJ_SYMBOL len dat \<Rightarrow> Some dat | _ \<Rightarrow> None });
     if n \<le> length bs then Some (take n bs) else None }"

fun strlen :: "u8 list \<Rightarrow> nat option" where
  "strlen [] = None"
| "strlen (c # cs) = (if c = 0 then Some 0 else map_option Suc (strlen cs))"

definition alloc_str :: "(nat \<Rightarrow> store \<Rightarrow> nat \<Rightarrow> val_t) \<Rightarrow> (nat \<Rightarrow> u8 list \<Rightarrow> gc_body) \<Rightarrow> chars \<Rightarrow> nat \<Rightarrow> world \<Rightarrow>
    (val_t \<times> world) outcome option" where
  "alloc_str malloc kind c len w =
    and_then (gc_alloc malloc (kind 0 (replicate (len + 1) 0)) (24 + len + 1) w) (\<lambda>(p, w1). do {
      bs \<leftarrow> read_chars (w_cells w1) c len;
      w2 \<leftarrow> set_body p (kind len (bs @ [0])) w1;
      Some (Returns (p, w2)) })"

definition gc_string :: "(nat \<Rightarrow> store \<Rightarrow> nat \<Rightarrow> val_t) \<Rightarrow> chars \<Rightarrow> nat \<Rightarrow> world \<Rightarrow> (val_t \<times> world) outcome option" where
  "gc_string malloc c len w = alloc_str malloc OBJ_STRING c len w"

definition gc_symbol :: "(nat \<Rightarrow> store \<Rightarrow> nat \<Rightarrow> val_t) \<Rightarrow> u8 list \<Rightarrow> world \<Rightarrow> (val_t \<times> world) outcome option" where
  "gc_symbol malloc s w = do { len \<leftarrow> strlen s; alloc_str malloc OBJ_SYMBOL (Buf s) len w }"

fun read_vars :: "(u64 \<Rightarrow> val_t option) \<Rightarrow> u64 list \<Rightarrow> val_t list option" where
  "read_vars vars [] = Some []"
| "read_vars vars (x # xs) = do { v \<leftarrow> vars x; vs \<leftarrow> read_vars vars xs; Some (v # vs) }"

definition gc_closure :: "(nat \<Rightarrow> store \<Rightarrow> nat \<Rightarrow> val_t) \<Rightarrow> int \<Rightarrow> nat \<Rightarrow> u64 \<Rightarrow> world \<Rightarrow> (val_t \<times> world) outcome option" where
  "gc_closure malloc func_id nfree captured w =
    (let locs = map (\<lambda>i. captured + 8 * of_nat i) [0..<nfree] in
     and_then (push_all (map Var locs) w) (\<lambda>w1.
     and_then (gc_alloc malloc (OBJ_CLOSURE 0 0 (replicate nfree 0)) (24 + nfree * 8) w1) (\<lambda>(p, w2). do {
       vs \<leftarrow> read_vars (w_vars w2) locs;
       w3 \<leftarrow> set_body p (OBJ_CLOSURE func_id nfree vs) w2;
       Some (Returns (p, gc_pop (int nfree) w3)) })))"

section \<open>Accessors\<close>

definition pair_at :: "store \<Rightarrow> val_t \<Rightarrow> (val_t \<times> val_t) option" where
  "pair_at s v = do { ob \<leftarrow> s v; case ob_body ob of OBJ_PAIR car cdr \<Rightarrow> Some (car, cdr) | _ \<Rightarrow> None }"

definition gc_car :: "val_t \<Rightarrow> world \<Rightarrow> val_t option" where
  "gc_car v w = map_option fst (pair_at (w_cells w) v)"

definition gc_cdr :: "val_t \<Rightarrow> world \<Rightarrow> val_t option" where
  "gc_cdr v w = map_option snd (pair_at (w_cells w) v)"

definition gc_set_car :: "val_t \<Rightarrow> val_t \<Rightarrow> world \<Rightarrow> world option" where
  "gc_set_car v x w = do { (car, cdr) \<leftarrow> pair_at (w_cells w) v; set_body v (OBJ_PAIR x cdr) w }"

definition gc_set_cdr :: "val_t \<Rightarrow> val_t \<Rightarrow> world \<Rightarrow> world option" where
  "gc_set_cdr v x w = do { (car, cdr) \<leftarrow> pair_at (w_cells w) v; set_body v (OBJ_PAIR car x) w }"

end
