(* ===== verification/Pc_Lex.thy ===== *)
theory Pc_Lex
  imports Pc_Gc Pc_Text
begin

text \<open>
  The lexer \<open>scheme/lex.c\<close>. Its static variables are the record \<open>lexer\<close>; \<open>p\<close>, a pointer into the source, is
  the rest of the source, whose end reads as the terminating zero. A call of \<open>die\<close> is \<open>Exits\<close>. The
  buffers of token texts come from \<open>xmalloc\<close>, which ends the program when memory runs out and is total
  here; a text is the bytes written, with its terminator. A \<open>long\<close> has 64 bits and wraps.
\<close>

section \<open>Tokens\<close>

datatype tok_kind =
    TOK_EOF | TOK_LPAREN | TOK_RPAREN | TOK_DOT | TOK_QUOTE | TOK_NUM | TOK_STR | TOK_SYM | TOK_TRUE | TOK_FALSE

record token =
  tk_kind :: tok_kind
  tk_nval :: u64
  tk_sval :: "string option"
  tk_slen :: nat
  tk_line :: int

record lexer =
  lx_src :: string
  lx_file :: string
  lx_p :: string
  lx_line :: int
  lx_peeked :: bool
  lx_tok :: token

definition NUL :: char where "NUL = CHR 0x00"
definition TABC :: char where "TABC = CHR 0x09"
definition NLC :: char where "NLC = CHR 0x0A"
definition CRC :: char where "CRC = CHR 0x0D"
definition DQUOTE :: char where "DQUOTE = CHR 0x22"
definition SQUOTE :: char where "SQUOTE = CHR 0x27"
definition BACKSLASH :: char where "BACKSLASH = CHR 0x5C"

definition lex_init :: "string \<Rightarrow> string option \<Rightarrow> lexer \<Rightarrow> lexer" where
  "lex_init src filename lx = lx\<lparr>lx_src := src,
     lx_file := (case filename of Some f \<Rightarrow> f | None \<Rightarrow> ''<input>''),
     lx_p := src, lx_line := 1, lx_peeked := False\<rparr>"

text \<open>\<open>*p\<close>, where \<open>p\<close> is the rest of the source.\<close>

definition cur :: "string \<Rightarrow> char" where
  "cur p = (case p of [] \<Rightarrow> NUL | c # cs \<Rightarrow> c)"

section \<open>Characters\<close>

definition isxdigit :: "char \<Rightarrow> bool" where
  "isxdigit c \<longleftrightarrow> isdigit c \<or> c \<in> set ''abcdefABCDEF''"

definition isalnum :: "char \<Rightarrow> bool" where
  "isalnum c \<longleftrightarrow> isdigit c \<or> c \<in> set ''abcdefghijklmnopqrstuvwxyzABCDEFGHIJKLMNOPQRSTUVWXYZ''"

definition is_sym_char :: "char \<Rightarrow> bool" where
  "is_sym_char c \<longleftrightarrow> isalnum c \<or> c \<in> set ''!$%&*+-./:<=>?_~^''"

function skip_ws :: "string \<Rightarrow> int \<Rightarrow> string \<times> int" where
  "skip_ws p line =
    (let p1 = dropWhile (\<lambda>c. c = CHR '' '' \<or> c = TABC \<or> c = CRC) p in
     if cur p1 = NLC then skip_ws (tl p1) (line + 1)
     else if cur p1 = CHR '';'' then skip_ws (dropWhile (\<lambda>c. c \<noteq> NUL \<and> c \<noteq> NLC) p1) line
     else (p1, line))"
  by pat_completeness auto

lemma cur_cons: "cur p = c \<Longrightarrow> c \<noteq> NUL \<Longrightarrow> \<exists>cs. p = c # cs"
  by (cases p) (auto simp: cur_def)

lemma dropWhile_shorter: "length (dropWhile P xs) \<le> length xs"
  by (induction xs) auto

termination skip_ws
proof (relation "measure (\<lambda>(p, line). length p)", goal_cases)
  case 1
  show ?case by simp
next
  case (2 p line p1)
  then obtain cs where "p1 = NLC # cs" using cur_cons [of p1 NLC] by (auto simp: NLC_def NUL_def)
  moreover have "length p1 \<le> length p" unfolding 2(1) by (rule dropWhile_shorter)
  ultimately show ?case by simp
next
  case (3 p line p1)
  then obtain cs where p1: "p1 = CHR '';'' # cs" using cur_cons [of p1 "CHR '';''"] by (auto simp: NUL_def)
  have "length (dropWhile (\<lambda>c. c \<noteq> NUL \<and> c \<noteq> NLC) p1) \<le> length cs"
    using dropWhile_shorter by (simp add: p1 NUL_def NLC_def)
  moreover have "length p1 \<le> length p" unfolding 3(1) by (rule dropWhile_shorter)
  ultimately show ?case using p1 by simp
qed

declare skip_ws.simps [simp del]

section \<open>Scanning a token\<close>

definition make_token :: "tok_kind \<Rightarrow> lexer \<Rightarrow> token" where
  "make_token k lx = \<lparr>tk_kind = k, tk_nval = 0, tk_sval = None, tk_slen = 0, tk_line = lx_line lx\<rparr>"

definition escape_char :: "char \<Rightarrow> char option" where
  "escape_char c =
    (if c = CHR ''n'' then Some NLC
     else if c = CHR ''t'' then Some TABC
     else if c = CHR ''r'' then Some CRC
     else if c = BACKSLASH then Some BACKSLASH
     else if c = DQUOTE then Some DQUOTE
     else if c = CHR ''0'' then Some NUL
     else None)"

fun scan_string :: "string \<Rightarrow> string \<Rightarrow> (string \<times> string) outcome" where
  "scan_string [] buf = Exits"
| "scan_string (c # p) buf =
    (if c = NUL then Exits
     else if c = DQUOTE then Returns (buf, p)
     else if c = BACKSLASH then
       (case p of
          [] \<Rightarrow> Exits
        | e # q \<Rightarrow> (case escape_char e of None \<Rightarrow> Exits | Some ch \<Rightarrow> scan_string q (buf @ [ch])))
     else if c = NLC then Exits
     else scan_string p (buf @ [c]))"

definition xdigit_value :: "char \<Rightarrow> u64" where
  "xdigit_value c =
    (let n = (of_char c :: nat) in
     of_nat (if 48 \<le> n \<and> n \<le> 57 then n - 48 else if 97 \<le> n \<and> n \<le> 102 then 10 + n - 97 else 10 + n - 65))"

fun scan_hex :: "u64 \<Rightarrow> string \<Rightarrow> u64 \<times> string" where
  "scan_hex n p = (case p of
     [] \<Rightarrow> (n, p)
   | c # q \<Rightarrow> if isxdigit c then scan_hex (push_bit 4 n OR xdigit_value c) q else (n, p))"

fun scan_dec :: "u64 \<Rightarrow> string \<Rightarrow> u64 \<times> string" where
  "scan_dec n p = (case p of
     [] \<Rightarrow> (n, p)
   | c # q \<Rightarrow> if isdigit c then scan_dec (n * 10 + of_nat (digit_value c)) q else (n, p))"

declare scan_hex.simps [simp del] scan_dec.simps [simp del]

definition scan_number :: "string \<Rightarrow> (u64 \<times> string) outcome" where
  "scan_number p =
    (let c = cur p;
         sign = (if c = CHR ''-'' then - 1 else 1 :: u64);
         p1 = (if c = CHR ''-'' \<or> c = CHR ''+'' then tl p else p) in
     if cur p1 = CHR ''0'' \<and> (cur (tl p1) = CHR ''x'' \<or> cur (tl p1) = CHR ''X'') then
       let p2 = tl (tl p1) in
       if \<not> isxdigit (cur p2) then Exits
       else let (n, q) = scan_hex 0 p2 in Returns (sign * n, q)
     else let (n, q) = scan_dec 0 p1 in Returns (sign * n, q))"

definition lex_hash :: "lexer \<Rightarrow> (token \<times> lexer) outcome" where
  "lex_hash lx =
    (let q = tl (lx_p lx) in
     if cur q = CHR ''t'' then
       (if is_sym_char (cur (tl q)) then Exits else Returns (make_token TOK_TRUE lx, lx\<lparr>lx_p := tl q\<rparr>))
     else if cur q = CHR ''f'' then
       (if is_sym_char (cur (tl q)) then Exits else Returns (make_token TOK_FALSE lx, lx\<lparr>lx_p := tl q\<rparr>))
     else Exits)"

definition lex_string :: "lexer \<Rightarrow> (token \<times> lexer) outcome" where
  "lex_string lx = (case scan_string (tl (lx_p lx)) [] of
     Exits \<Rightarrow> Exits
   | Returns (buf, q) \<Rightarrow>
       Returns ((make_token TOK_STR lx)\<lparr>tk_sval := Some (buf @ [NUL]), tk_slen := length buf\<rparr>, lx\<lparr>lx_p := q\<rparr>))"

definition lex_number :: "lexer \<Rightarrow> (token \<times> lexer) outcome" where
  "lex_number lx = (case scan_number (lx_p lx) of
     Exits \<Rightarrow> Exits
   | Returns (n, q) \<Rightarrow> Returns ((make_token TOK_NUM lx)\<lparr>tk_nval := n\<rparr>, lx\<lparr>lx_p := q\<rparr>))"

definition lex_symbol :: "lexer \<Rightarrow> (token \<times> lexer) outcome" where
  "lex_symbol lx = Returns ((make_token TOK_SYM lx)\<lparr>tk_sval := Some (takeWhile is_sym_char (lx_p lx) @ [NUL])\<rparr>,
     lx\<lparr>lx_p := dropWhile is_sym_char (lx_p lx)\<rparr>)"

definition lex_one :: "lexer \<Rightarrow> (token \<times> lexer) outcome" where
  "lex_one lx0 =
    (let (p, line) = skip_ws (lx_p lx0) (lx_line lx0);
         lx = lx0\<lparr>lx_p := p, lx_line := line\<rparr>;
         c = cur p in
     if c = NUL then Returns (make_token TOK_EOF lx, lx)
     else if c = CHR ''('' then Returns (make_token TOK_LPAREN lx, lx\<lparr>lx_p := tl p\<rparr>)
     else if c = CHR '')'' then Returns (make_token TOK_RPAREN lx, lx\<lparr>lx_p := tl p\<rparr>)
     else if c = SQUOTE then Returns (make_token TOK_QUOTE lx, lx\<lparr>lx_p := tl p\<rparr>)
     else if c = CHR ''#'' then lex_hash lx
     else if c = DQUOTE then lex_string lx
     else if isdigit c \<or> (c = CHR ''-'' \<or> c = CHR ''+'') \<and> isdigit (cur (tl p)) then lex_number lx
     else if c = CHR ''.'' \<and> \<not> is_sym_char (cur (tl p)) then Returns (make_token TOK_DOT lx, lx\<lparr>lx_p := tl p\<rparr>)
     else if is_sym_char c then lex_symbol lx
     else Exits)"

definition lex_next :: "lexer \<Rightarrow> (token \<times> lexer) outcome" where
  "lex_next lx = (if lx_peeked lx then Returns (lx_tok lx, lx\<lparr>lx_peeked := False\<rparr>) else lex_one lx)"

definition lex_peek :: "lexer \<Rightarrow> (token \<times> lexer) outcome" where
  "lex_peek lx =
    (if lx_peeked lx then Returns (lx_tok lx, lx)
     else case lex_one lx of
       Exits \<Rightarrow> Exits
     | Returns (t, lx') \<Rightarrow> Returns (t, lx'\<lparr>lx_tok := t, lx_peeked := True\<rparr>))"

end
