(* ===== verification/Pc_Collect.thy ===== *)
theory Pc_Collect
  imports Pc_Gc
begin

text \<open>
  A collection keeps exactly the objects that can be reached from the roots. Marking is total and marks
  the reachable objects; sweeping is total, unlinks and frees the others, and clears the marks.
\<close>

section \<open>The object graph\<close>

definition kids :: "gc_body \<Rightarrow> val_t list" where
  "kids body = (case body of
     OBJ_PAIR car cdr \<Rightarrow> [car, cdr]
   | OBJ_CLOSURE func_id nfree free \<Rightarrow> take nfree free
   | OBJ_STRING len dat \<Rightarrow> []
   | OBJ_SYMBOL len dat \<Rightarrow> [])"

definition bodies :: "store \<Rightarrow> val_t \<Rightarrow> gc_body option" where
  "bodies s p = map_option ob_body (s p)"

definition edges :: "(val_t \<Rightarrow> gc_body option) \<Rightarrow> (val_t \<times> val_t) set" where
  "edges g = {(p, q). \<exists>body. g p = Some body \<and> q \<in> set (kids body) \<and> IS_PTR q}"

definition reach :: "(val_t \<Rightarrow> gc_body option) \<Rightarrow> val_t set \<Rightarrow> val_t set" where
  "reach g V = (edges g)\<^sup>* `` {v \<in> V. IS_PTR v}"

definition marked :: "store \<Rightarrow> val_t set" where
  "marked s = {p. \<exists>ob. s p = Some ob \<and> ob_mark ob \<noteq> 0}"

text \<open>No object refers to one that is gone, and closures hold as many values as they say.\<close>

definition valid :: "store \<Rightarrow> val_t \<Rightarrow> bool" where
  "valid s v \<longleftrightarrow> (IS_PTR v \<longrightarrow> v \<in> dom s)"

definition body_ok :: "store \<Rightarrow> gc_body \<Rightarrow> bool" where
  "body_ok s body \<longleftrightarrow> (\<forall>v\<in>set (kids body). valid s v) \<and>
     (case body of OBJ_CLOSURE func_id nfree free \<Rightarrow> nfree \<le> length free | _ \<Rightarrow> True)"

definition closed :: "store \<Rightarrow> bool" where
  "closed s \<longleftrightarrow> finite (dom s) \<and> (\<forall>p ob. s p = Some ob \<longrightarrow> body_ok s (ob_body ob))"

lemma reach_mono: "V \<subseteq> V' \<Longrightarrow> reach g V \<subseteq> reach g V'"
  by (auto simp: reach_def)

lemma reach_Un: "reach g (V \<union> V') = reach g V \<union> reach g V'"
  by (auto simp: reach_def)

lemma reach_step:
  assumes "g p = Some body" "IS_PTR p"
  shows "reach g {p} = insert p (reach g (set (kids body)))"
proof -
  have "(edges g)\<^sup>* `` {p} = insert p ((edges g)\<^sup>* `` (edges g `` {p}))"
    by (auto elim: converse_rtranclE intro: converse_rtrancl_into_rtrancl)
  moreover have "edges g `` {p} = {v \<in> set (kids body). IS_PTR v}"
    using assms(1) by (auto simp: edges_def)
  ultimately show ?thesis using assms(2) by (auto simp: reach_def)
qed

lemma closed_reach:
  assumes "\<And>v. v \<in> V \<Longrightarrow> IS_PTR v \<Longrightarrow> v \<in> M" "edges g `` M \<subseteq> M"
  shows "reach g V \<subseteq> M"
proof
  fix x assume "x \<in> reach g V"
  then obtain v where "v \<in> V" "IS_PTR v" "(v, x) \<in> (edges g)\<^sup>*" by (auto simp: reach_def)
  from this(3) show "x \<in> M"
    by (induction rule: rtrancl_induct) (use \<open>v \<in> V\<close> \<open>IS_PTR v\<close> assms in auto)
qed

section \<open>Marking\<close>

text \<open>What marking does to the store: it only sets marks, the marks it sets are of objects reachable
  from the values it is given, those are marked in the end, and no new mark has an unmarked successor.\<close>

definition marks :: "val_t set \<Rightarrow> store \<Rightarrow> store \<Rightarrow> bool" where
  "marks V s s' \<longleftrightarrow>
     (\<forall>p. map_option (\<lambda>ob. ob\<lparr>ob_mark := 0\<rparr>) (s' p) = map_option (\<lambda>ob. ob\<lparr>ob_mark := 0\<rparr>) (s p)) \<and>
     marked s \<subseteq> marked s' \<and> {v \<in> V. IS_PTR v} \<subseteq> marked s' \<and>
     marked s' \<subseteq> marked s \<union> reach (bodies s) V \<and>
     edges (bodies s) `` (marked s' - marked s) \<subseteq> marked s'"

definition unmarked :: "store \<Rightarrow> val_t set" where
  "unmarked s = dom s - marked s"

lemma marks_bodies:
  assumes "marks V s s'"
  shows "bodies s' = bodies s" "dom s' = dom s"
proof -
  have e: "map_option (\<lambda>ob. ob\<lparr>ob_mark := 0\<rparr>) (s' p) = map_option (\<lambda>ob. ob\<lparr>ob_mark := 0\<rparr>) (s p)" for p
    using assms by (simp add: marks_def)
  have f: "map_option ob_body x = map_option ob_body y"
    if "map_option (\<lambda>ob. ob\<lparr>ob_mark := 0\<rparr>) x = map_option (\<lambda>ob. ob\<lparr>ob_mark := 0\<rparr>) y" for x y :: "gc_obj option"
    using that by (cases x; cases y) (auto dest!: arg_cong [of _ _ ob_body])
  show "bodies s' = bodies s" using f [OF e] by (simp add: bodies_def fun_eq_iff)
  have "s' p = None \<longleftrightarrow> s p = None" for p using e [of p] by (metis map_option_is_None)
  then show "dom s' = dom s" by (simp add: dom_def)
qed

lemma closed_bodies:
  assumes "bodies s' = bodies s" "dom s' = dom s"
  shows "closed s' \<longleftrightarrow> closed s"
proof -
  have "body_ok s' = body_ok s" using assms(2) by (simp add: fun_eq_iff body_ok_def valid_def)
  moreover have "(\<forall>p ob. s p = Some ob \<longrightarrow> P (ob_body ob)) \<longleftrightarrow> (\<forall>p b. bodies s p = Some b \<longrightarrow> P b)" for s P
    by (auto simp: bodies_def)
  ultimately show ?thesis unfolding closed_def assms using assms(1) by metis
qed

lemma marks_refl: "{v \<in> V. IS_PTR v} \<subseteq> marked s \<Longrightarrow> marks V s s"
  by (simp add: marks_def)

lemma marks_trans:
  assumes "marks V s s'" "marks V' s' s''"
  shows "marks (V \<union> V') s s''"
proof -
  note b = marks_bodies [OF assms(1)]
  have "edges (bodies s) `` (marked s'' - marked s) \<subseteq> marked s''"
    using assms unfolding marks_def b by blast
  moreover have "marked s'' \<subseteq> marked s \<union> reach (bodies s) (V \<union> V')"
    using assms unfolding marks_def b reach_Un by blast
  ultimately show ?thesis using assms unfolding marks_def by auto
qed

lemma marked_set:
  assumes "s v = Some ob"
  shows "marked (s(v \<mapsto> ob\<lparr>ob_mark := 1\<rparr>)) = insert v (marked s)"
  using assms by (auto simp: marked_def)

lemma mark_then_kids:
  assumes v: "s v = Some ob" "IS_PTR v"
    and m: "marks (set (kids (ob_body ob))) (s(v \<mapsto> ob\<lparr>ob_mark := 1\<rparr>)) s''"
  shows "marks {v} s s''"
proof -
  let ?s = "s(v \<mapsto> ob\<lparr>ob_mark := 1\<rparr>)"
  have b: "bodies ?s = bodies s" using v(1) by (auto simp: bodies_def fun_eq_iff)
  have g: "bodies s v = Some (ob_body ob)" using v(1) by (simp add: bodies_def)
  note mk = marked_set [of s v ob, OF v(1)]
  have r: "reach (bodies s) {v} = insert v (reach (bodies s) (set (kids (ob_body ob))))"
    using g v(2) by (rule reach_step)
  have "edges (bodies s) `` {v} \<subseteq> marked s''"
    using m g by (auto simp: marks_def edges_def)
  then have "edges (bodies s) `` (marked s'' - marked s) \<subseteq> marked s''"
    using m unfolding marks_def b mk by blast
  moreover have "marked s'' \<subseteq> marked s \<union> reach (bodies s) {v}"
    using m unfolding marks_def b mk r by blast
  moreover have "map_option (\<lambda>ob. ob\<lparr>ob_mark := 0\<rparr>) (s'' p) = map_option (\<lambda>ob. ob\<lparr>ob_mark := 0\<rparr>) (s p)" for p
  proof -
    have "map_option (\<lambda>ob. ob\<lparr>ob_mark := 0\<rparr>) (s'' p) = map_option (\<lambda>ob. ob\<lparr>ob_mark := 0\<rparr>) (?s p)"
      using m unfolding marks_def by blast
    then show ?thesis using v(1) by (cases "p = v") simp_all
  qed
  moreover have "insert v (marked s) \<subseteq> marked s''" using m unfolding marks_def mk by blast
  ultimately show ?thesis by (auto simp: marks_def)
qed

lemma mark_list_total:
  assumes one: "\<And>v s. closed s \<Longrightarrow> valid s v \<Longrightarrow> card (unmarked s) \<le> n \<Longrightarrow>
      \<exists>s'. mark_val v s = Some s' \<and> marks {v} s s'"
    and "closed s" "\<forall>v\<in>set vs. valid s v" "card (unmarked s) \<le> n"
  shows "\<exists>s'. each (\<lambda>x s. mark_val x s) vs s = Some s' \<and> marks (set vs) s s'"
  using assms(2-)
proof (induction vs arbitrary: s)
  case Nil
  then show ?case by (simp add: marks_refl)
next
  case (Cons v vs)
  obtain s1 where s1: "mark_val v s = Some s1" "marks {v} s s1" using one [of s v] Cons.prems by auto
  note b = marks_bodies [OF s1(2)]
  have "unmarked s1 \<subseteq> unmarked s" using s1(2) b(2) by (auto simp: unmarked_def marks_def)
  then have "card (unmarked s1) \<le> n"
    using Cons.prems card_mono [of "unmarked s" "unmarked s1"] by (auto simp: closed_def unmarked_def)
  moreover have "\<forall>x\<in>set vs. valid s1 x" using Cons.prems(2) b(2) by (simp add: valid_def)
  moreover have "closed s1" using Cons.prems(1) closed_bodies [OF b] by simp
  ultimately obtain s2 where "each (\<lambda>x s. mark_val x s) vs s1 = Some s2" "marks (set vs) s1 s2"
    using Cons.IH [of s1] by blast
  then show ?case using s1 marks_trans [OF s1(2), of "set vs" s2] by simp
qed

lemma each_none [simp]: "each f [] = Some"
  by (simp add: fun_eq_iff)

lemma each_single [simp]: "each f [x] = f x"
  by (simp add: fun_eq_iff)

lemma mark_val_unfold:
  assumes "IS_PTR v" "s v = Some ob" "ob_mark ob = 0" "body_ok s (ob_body ob)"
  shows "mark_val v s = each (\<lambda>x s. mark_val x s) (kids (ob_body ob)) (s(v \<mapsto> ob\<lparr>ob_mark := 1\<rparr>))"
  using assms by (subst mark_val.simps) (auto simp: kids_def body_ok_def Let_def split: gc_body.splits)

lemma mark_val_total:
  assumes "closed s" "valid s v"
  shows "\<exists>s'. mark_val v s = Some s' \<and> marks {v} s s'"
  using assms
proof (induction "card (unmarked s)" arbitrary: s v rule: less_induct)
  case less
  show ?case
  proof (cases "IS_PTR v \<and> v \<notin> marked s")
    case False
    then have "mark_val v s = Some s"
      using less.prems(2) by (subst mark_val.simps) (auto simp: valid_def marked_def)
    with False show ?thesis by (auto intro!: marks_refl)
  next
    case True
    then obtain ob where ob: "s v = Some ob" "ob_mark ob = 0"
      using less.prems(2) by (auto simp: valid_def marked_def)
    let ?s = "s(v \<mapsto> ob\<lparr>ob_mark := 1\<rparr>)"
    have bd: "bodies ?s = bodies s" "dom ?s = dom s" using ob by (auto simp: bodies_def fun_eq_iff)
    have cl: "closed ?s" using less.prems(1) closed_bodies [OF bd] by simp
    have bo: "body_ok s (ob_body ob)" using less.prems(1) ob by (auto simp: closed_def)
    then have kv: "\<forall>x\<in>set (kids (ob_body ob)). valid ?s x" using bd(2) by (simp add: body_ok_def valid_def)
    have "unmarked ?s = unmarked s - {v}" "v \<in> unmarked s"
      using marked_set [of s v ob, OF ob(1)] bd(2) True ob(1) by (auto simp: unmarked_def)
    moreover have "finite (unmarked s)" using less.prems(1) by (simp add: closed_def unmarked_def)
    ultimately have card: "card (unmarked ?s) < card (unmarked s)" by (metis card_Diff1_less)
    have IH: "\<exists>s'. mark_val x t = Some s' \<and> marks {x} t s'"
      if "closed t" "valid t x" "card (unmarked t) \<le> card (unmarked ?s)" for x t
      using less.hyps [of t x] that card by simp
    obtain s'' where "each (\<lambda>x s. mark_val x s) (kids (ob_body ob)) ?s = Some s''" "marks (set (kids (ob_body ob))) ?s s''"
      using mark_list_total [OF IH cl kv] by blast
    then show ?thesis
      using mark_val_unfold [OF _ ob bo] mark_then_kids [of s v ob s'', OF ob(1)] True by auto
  qed
qed

section \<open>The invariant of the heap\<close>

text \<open>A list segment, from \<open>p\<close> through \<open>xs\<close> to \<open>q\<close>; all objects are on the list from \<open>all\<close> to \<open>NULL\<close>.\<close>

primrec seg :: "store \<Rightarrow> val_t \<Rightarrow> val_t list \<Rightarrow> val_t \<Rightarrow> bool" where
  "seg s p [] q \<longleftrightarrow> p = q"
| "seg s p (x # xs) q \<longleftrightarrow> p = x \<and> x \<noteq> 0 \<and> (\<exists>ob. s x = Some ob \<and> seg s (ob_next ob) xs q)"

definition root_vals :: "world \<Rightarrow> val_t option list" where
  "root_vals w = map (\<lambda>i. read_root (w_vars w) (h_roots (w_heap w) i)) [0..h_nroots (w_heap w) - 1]"

definition roots_of :: "world \<Rightarrow> val_t set" where
  "roots_of w = {v. Some v \<in> set (root_vals w)}"

definition roots_ok :: "world \<Rightarrow> bool" where
  "roots_ok w \<longleftrightarrow> 0 \<le> h_nroots (w_heap w) \<and> h_nroots (w_heap w) \<le> GC_ROOTS_MAX \<and> None \<notin> set (root_vals w) \<and>
     (\<forall>v\<in>roots_of w. valid (w_cells w) v)"

definition objects_ok :: "world \<Rightarrow> bool" where
  "objects_ok w \<longleftrightarrow> closed (w_cells w) \<and> marked (w_cells w) = {} \<and> (\<forall>p\<in>dom (w_cells w). IS_PTR p) \<and>
     (\<exists>xs. seg (w_cells w) (h_all (w_heap w)) xs 0 \<and> distinct xs \<and> set xs = dom (w_cells w) \<and>
        h_count (w_heap w) = of_nat (length xs) \<and> length xs < 2 ^ 30)"

definition gc_ok :: "world \<Rightarrow> bool" where
  "gc_ok w \<longleftrightarrow> objects_ok w \<and> roots_ok w"

definition live :: "world \<Rightarrow> val_t set" where
  "live w = reach (bodies (w_cells w)) (roots_of w)"

lemma mark_each_total:
  assumes "closed s" "None \<notin> set (map f is)" "\<forall>v. Some v \<in> set (map f is) \<longrightarrow> valid s v"
  shows "\<exists>s'. each (\<lambda>i s. do { v \<leftarrow> f i; mark_val v s }) is s = Some s' \<and> marks {v. Some v \<in> set (map f is)} s s'"
  using assms
proof (induction "is" arbitrary: s)
  case Nil
  then show ?case by (simp add: marks_refl)
next
  case (Cons i "is")
  obtain v where v: "f i = Some v" using Cons.prems(2) by (cases "f i") auto
  obtain s1 where s1: "mark_val v s = Some s1" "marks {v} s s1"
    using mark_val_total [OF Cons.prems(1), of v] Cons.prems(3) v by auto
  note b = marks_bodies [OF s1(2)]
  obtain s2 where s2: "each (\<lambda>i s. do { v \<leftarrow> f i; mark_val v s }) is s1 = Some s2" "marks {v. Some v \<in> set (map f is)} s1 s2"
    using Cons.IH [of s1] Cons.prems closed_bodies [OF b] b(2) by (auto simp: valid_def)
  have "{x. Some x \<in> set (map f (i # is))} = {v} \<union> {x. Some x \<in> set (map f is)}" using v by auto
  then show ?case using marks_trans [OF s1(2) s2(2)] s1(1) s2(1) v by simp
qed

lemma mark_roots_total:
  assumes "gc_ok w"
  shows "\<exists>s. mark_roots w = Some s \<and> marks (roots_of w) (w_cells w) s \<and> marked s = live w"
proof -
  have cl: "closed (w_cells w)" and none: "marked (w_cells w) = {}" using assms by (simp_all add: gc_ok_def objects_ok_def)
  obtain s where s: "mark_roots w = Some s" "marks (roots_of w) (w_cells w) s"
    using mark_each_total [OF cl, of "\<lambda>i. read_root (w_vars w) (h_roots (w_heap w) i)" "[0..h_nroots (w_heap w) - 1]"] assms
    by (auto simp: mark_roots_def gc_ok_def roots_ok_def roots_of_def root_vals_def)
  have "live w \<subseteq> marked s"
    unfolding live_def using s(2) none by (intro closed_reach) (auto simp: marks_def)
  moreover have "marked s \<subseteq> live w" using s(2) none by (auto simp: marks_def live_def)
  ultimately show ?thesis using s by blast
qed

section \<open>Sweeping\<close>

definition after :: "val_t list \<Rightarrow> link" where
  "after ys = (if ys = [] then Link_all else Link_next (last ys))"

lemma seg_append: "seg s p (ys @ xs) r \<longleftrightarrow> (\<exists>q. seg s p ys q \<and> seg s q xs r)"
  by (induction ys arbitrary: p) auto

lemma seg_cong:
  assumes "\<And>x. x \<in> set xs \<Longrightarrow> map_option ob_next (s' x) = map_option ob_next (s x)"
  shows "seg s' p xs q \<longleftrightarrow> seg s p xs q"
  using assms
proof (induction xs arbitrary: p)
  case (Cons x xs)
  have IH: "seg s' r xs q \<longleftrightarrow> seg s r xs q" for r using Cons by simp
  have "map_option ob_next (s' x) = map_option ob_next (s x)" using Cons.prems by simp
  then show ?case by (cases "s' x"; cases "s x") (auto simp: IH)
qed simp

lemma seg_upd: "x \<notin> set xs \<Longrightarrow> seg (s(x := ob)) p xs q \<longleftrightarrow> seg s p xs q"
  by (rule seg_cong) auto

text \<open>
  The effect of a sweep over \<open>xs\<close>, whose marked objects stay: bodies stay, marks are cleared, the rest is
  freed, and nothing outside changes but links.
\<close>

definition swept :: "val_t list \<Rightarrow> store \<Rightarrow> store \<Rightarrow> bool" where
  "swept xs s s' \<longleftrightarrow> (\<forall>p. p \<notin> set xs \<longrightarrow>
       bodies s' p = bodies s p \<and> map_option ob_mark (s' p) = map_option ob_mark (s p)) \<and>
     (\<forall>p\<in>set xs. if p \<in> marked s then bodies s' p = bodies s p \<and> map_option ob_mark (s' p) = Some 0
        else s' p = None)"

lemma link_after:
  assumes "seg s al ys q"
  shows "link_get (after ys) al s = Some q"
proof (cases ys rule: rev_cases)
  case Nil
  then show ?thesis using assms by (simp add: after_def link_get_def)
next
  case (snoc zs z)
  then show ?thesis using assms by (auto simp: after_def link_get_def seg_append)
qed

lemma link_after_set:
  assumes "seg s al ys q" "distinct ys"
  obtains al' s' where "link_set (after ys) r al s = Some (al', s')" "seg s' al' ys r"
    "\<And>p. map_option (\<lambda>ob. ob\<lparr>ob_next := 0\<rparr>) (s' p) = map_option (\<lambda>ob. ob\<lparr>ob_next := 0\<rparr>) (s p)"
    "\<And>p. p \<notin> set ys \<Longrightarrow> s' p = s p"
proof (cases ys rule: rev_cases)
  case Nil
  then show ?thesis using that [of r s] assms by (simp add: after_def link_set_def)
next
  case (snoc zs z)
  then obtain ob where z: "seg s al zs z" "z \<noteq> 0" "s z = Some ob" using assms(1) by (auto simp: seg_append)
  have "z \<notin> set zs" using assms(2) snoc by simp
  then have "seg (s(z \<mapsto> ob\<lparr>ob_next := r\<rparr>)) al (zs @ [z]) r"
    using z by (auto simp: seg_append seg_upd)
  then show ?thesis
    using that [of al "s(z \<mapsto> ob\<lparr>ob_next := r\<rparr>)"] snoc z(3) by (auto simp: after_def link_set_def)
qed

lemma sweep_kept:
  assumes "s x = Some ob" "ob_mark ob \<noteq> 0" "seg s al ys x" "x \<noteq> 0"
  shows "sweep (after ys) al cnt s = sweep (after (ys @ [x])) al cnt (s(x \<mapsto> ob\<lparr>ob_mark := 0\<rparr>))"
  using assms link_after [OF assms(3)] by (subst sweep.simps) (simp add: after_def)

lemma sweep_freed:
  assumes "s x = Some ob" "ob_mark ob = 0" "seg s al ys x" "x \<noteq> 0"
    "link_set (after ys) (ob_next ob) al s = Some (al', s')"
  shows "sweep (after ys) al cnt s = sweep (after ys) al' (cnt - 1) (s'(x := None))"
  using assms link_after [OF assms(3)] by (subst sweep.simps) simp

lemma swept_kept:
  assumes "s x = Some ob" "ob_mark ob \<noteq> 0" "x \<notin> set xs" "swept xs (s(x \<mapsto> ob\<lparr>ob_mark := 0\<rparr>)) s'"
  shows "swept (x # xs) s s'"
proof -
  let ?s = "s(x \<mapsto> ob\<lparr>ob_mark := 0\<rparr>)"
  have b: "bodies ?s = bodies s" using assms(1) by (auto simp: bodies_def fun_eq_iff)
  have m: "p \<in> marked ?s \<longleftrightarrow> p \<in> marked s" if "p \<noteq> x" for p using that by (simp add: marked_def)
  have "bodies s' p = bodies s p \<and> map_option ob_mark (s' p) = map_option ob_mark (s p)" if "p \<notin> set (x # xs)" for p
    using assms(4) that b unfolding swept_def by simp
  moreover have "if p \<in> marked s then bodies s' p = bodies s p \<and> map_option ob_mark (s' p) = Some 0 else s' p = None"
    if "p \<in> set (x # xs)" for p
  proof (cases "p = x")
    case True
    then show ?thesis using assms b by (auto simp: swept_def marked_def)
  next
    case False
    then show ?thesis using assms(4) b m [OF False] that unfolding swept_def by auto
  qed
  ultimately show ?thesis by (simp add: swept_def)
qed

lemma swept_freed:
  assumes "x \<notin> marked s" "x \<notin> set xs" "swept xs (s1(x := None)) s'"
    and e: "\<And>p. map_option (\<lambda>ob. ob\<lparr>ob_next := 0\<rparr>) (s1 p) = map_option (\<lambda>ob. ob\<lparr>ob_next := 0\<rparr>) (s p)"
  shows "swept (x # xs) s s'"
proof -
  have proj: "map_option f (s1 p) = map_option f (s p)" if "\<And>ob. f (ob\<lparr>ob_next := 0\<rparr>) = f ob" for f :: "gc_obj \<Rightarrow> 'b" and p
  proof -
    have "map_option f (map_option (\<lambda>ob. ob\<lparr>ob_next := 0\<rparr>) (s1 p)) = map_option f (map_option (\<lambda>ob. ob\<lparr>ob_next := 0\<rparr>) (s p))"
      using e by simp
    then show ?thesis using that by (simp add: option.map_comp comp_def)
  qed
  have b: "bodies s1 p = bodies s p" and k: "map_option ob_mark (s1 p) = map_option ob_mark (s p)" for p
    using proj [of ob_body p] proj [of ob_mark p] by (simp_all add: bodies_def)
  have "p \<in> marked s1 \<longleftrightarrow> p \<in> marked s" for p
    using k [of p] by (cases "s1 p"; cases "s p") (simp_all add: marked_def)
  then have m: "p \<in> marked (s1(x := None)) \<longleftrightarrow> p \<in> marked s" if "p \<noteq> x" for p using that by (simp add: marked_def)
  have nb: "bodies (s1(x := None)) p = bodies s p" if "p \<noteq> x" for p using that b by (simp add: bodies_def)
  have "bodies s' p = bodies s p \<and> map_option ob_mark (s' p) = map_option ob_mark (s p)" if "p \<notin> set (x # xs)" for p
    using assms(3) that nb [of p] k [of p] unfolding swept_def by auto
  moreover have "if p \<in> marked s then bodies s' p = bodies s p \<and> map_option ob_mark (s' p) = Some 0 else s' p = None"
    if "p \<in> set (x # xs)" for p
  proof (cases "p = x")
    case True
    then have "map_option ob_mark (s' p) = None" using assms(2,3) by (simp add: swept_def)
    then show ?thesis using assms(1) True by simp
  next
    case False
    then show ?thesis using assms(3) m [OF False] nb [OF False] that unfolding swept_def by auto
  qed
  ultimately show ?thesis by (simp add: swept_def)
qed

lemma sweep_total:
  assumes "seg s al ys q" "seg s q xs 0" "distinct (ys @ xs)"
  shows "\<exists>al' s'. sweep (after ys) al cnt s = Some (al', cnt - of_nat (length (filter (\<lambda>x. x \<notin> marked s) xs)), s') \<and>
    seg s' al' (ys @ filter (\<lambda>x. x \<in> marked s) xs) 0 \<and> swept xs s s'"
  using assms
proof (induction xs arbitrary: ys q al cnt s)
  case Nil
  then have "link_get (after ys) al s = Some 0" using link_after by fastforce
  then show ?case using Nil by (subst sweep.simps) (simp add: swept_def)
next
  case (Cons x xs)
  then obtain ob where x: "q = x" "x \<noteq> 0" "s x = Some ob" "seg s (ob_next ob) xs 0" by auto
  have d: "x \<notin> set xs" "x \<notin> set ys" "distinct ys" using Cons.prems(3) by auto
  show ?case
  proof (cases "ob_mark ob = 0")
    case False
    let ?s = "s(x \<mapsto> ob\<lparr>ob_mark := 0\<rparr>)"
    have sg: "seg ?s al (ys @ [x]) (ob_next ob)" "seg ?s (ob_next ob) xs 0"
      using Cons.prems(1) x d by (auto simp: seg_append seg_upd)
    have "distinct ((ys @ [x]) @ xs)" using Cons.prems(3) by simp
    from Cons.IH [OF sg this, of cnt] obtain al' s' where r: "sweep (after (ys @ [x])) al cnt ?s =
        Some (al', cnt - of_nat (length (filter (\<lambda>x. x \<notin> marked ?s) xs)), s')"
      "seg s' al' ((ys @ [x]) @ filter (\<lambda>x. x \<in> marked ?s) xs) 0" "swept xs ?s s'" by blast
    have f: "filter (\<lambda>x. x \<in> marked ?s) xs = filter (\<lambda>x. x \<in> marked s) xs"
      "filter (\<lambda>x. x \<notin> marked ?s) xs = filter (\<lambda>x. x \<notin> marked s) xs"
      using d(1) by (auto intro!: filter_cong simp: marked_def)
    have xm: "x \<in> marked s" using x(3) False by (simp add: marked_def)
    have "seg s al ys x" using Cons.prems(1) x(1) by simp
    from sweep_kept [OF x(3) False this x(2), of cnt] r(1,2) swept_kept [OF x(3) False d(1) r(3)]
    show ?thesis by (simp add: f xm)
  next
    case True
    have sx: "seg s al ys x" using Cons.prems(1) x(1) by simp
    obtain al1 s1 where l: "link_set (after ys) (ob_next ob) al s = Some (al1, s1)" "seg s1 al1 ys (ob_next ob)"
      "\<And>p. map_option (\<lambda>ob. ob\<lparr>ob_next := 0\<rparr>) (s1 p) = map_option (\<lambda>ob. ob\<lparr>ob_next := 0\<rparr>) (s p)"
      "\<And>p. p \<notin> set ys \<Longrightarrow> s1 p = s p"
      using link_after_set [OF sx d(3)] by blast
    let ?s = "s1(x := None)"
    have xm: "x \<notin> marked s" using x(3) True by (simp add: marked_def)
    have same: "s1 p = s p" if "p \<in> set xs" for p using that Cons.prems(3) by (intro l(4)) auto
    have sg: "seg ?s (ob_next ob) xs 0"
      using x(4) d(1) same by (simp add: seg_upd) (subst seg_cong [of xs s1 s], auto)
    have sg1: "seg ?s al1 ys (ob_next ob)" using l(2) d(2) by (simp add: seg_upd)
    have "distinct (ys @ xs)" using Cons.prems(3) by simp
    from Cons.IH [OF sg1 sg this, of "cnt - 1"] obtain al' s' where r: "sweep (after ys) al1 (cnt - 1) ?s =
        Some (al', cnt - 1 - of_nat (length (filter (\<lambda>x. x \<notin> marked ?s) xs)), s')"
      "seg s' al' (ys @ filter (\<lambda>x. x \<in> marked ?s) xs) 0" "swept xs ?s s'" by blast
    have f: "filter (\<lambda>x. x \<in> marked ?s) xs = filter (\<lambda>x. x \<in> marked s) xs"
      "filter (\<lambda>x. x \<notin> marked ?s) xs = filter (\<lambda>x. x \<notin> marked s) xs"
      using d(1) same by (auto intro!: filter_cong simp: marked_def)
    from sweep_freed [OF x(3) True sx x(2) l(1), of cnt] r(1,2) swept_freed [OF xm d(1) r(3) l(3)]
    show ?thesis by (simp add: f xm algebra_simps)
  qed
qed

section \<open>Collection\<close>

definition collected :: "world \<Rightarrow> world \<Rightarrow> bool" where
  "collected w w' \<longleftrightarrow> dom (w_cells w') = live w \<and> (\<forall>p\<in>live w. bodies (w_cells w') p = bodies (w_cells w) p) \<and>
     w_vars w' = w_vars w \<and> w_calls w' = w_calls w \<and>
     h_roots (w_heap w') = h_roots (w_heap w) \<and> h_nroots (w_heap w') = h_nroots (w_heap w)"

lemma marks_next:
  assumes "marks V s s'"
  shows "map_option ob_next (s' p) = map_option ob_next (s p)"
proof -
  have "map_option (\<lambda>ob. ob\<lparr>ob_mark := 0\<rparr>) (s' p) = map_option (\<lambda>ob. ob\<lparr>ob_mark := 0\<rparr>) (s p)"
    using assms by (simp add: marks_def)
  then show ?thesis by (cases "s' p"; cases "s p") (auto dest!: arg_cong [of _ _ ob_next])
qed

lemma live_known:
  assumes "gc_ok w"
  shows "live w \<subseteq> dom (w_cells w)" "edges (bodies (w_cells w)) `` live w \<subseteq> live w"
    "\<And>v. v \<in> roots_of w \<Longrightarrow> IS_PTR v \<Longrightarrow> v \<in> live w"
proof -
  have v: "\<And>v. v \<in> roots_of w \<Longrightarrow> IS_PTR v \<Longrightarrow> v \<in> dom (w_cells w)"
    using assms by (auto simp: gc_ok_def roots_ok_def valid_def)
  moreover have "edges (bodies (w_cells w)) `` dom (w_cells w) \<subseteq> dom (w_cells w)"
    using assms by (fastforce simp: gc_ok_def objects_ok_def closed_def body_ok_def valid_def edges_def bodies_def)
  ultimately show "live w \<subseteq> dom (w_cells w)" unfolding live_def by (intro closed_reach) auto
  show "edges (bodies (w_cells w)) `` live w \<subseteq> live w"
    by (auto simp: live_def reach_def intro: rtrancl_into_rtrancl)
  show "v \<in> live w" if "v \<in> roots_of w" "IS_PTR v" for v using that by (auto simp: live_def reach_def)
qed

lemma swept_store:
  assumes sw: "swept xs s s'" and xs: "set xs = dom s"
  shows "dom s' = marked s" "p \<in> marked s \<Longrightarrow> bodies s' p = bodies s p" "marked s' = {}"
proof -
  have md: "marked s \<subseteq> dom s" by (auto simp: marked_def)
  have out: "s' p = None" if "p \<notin> marked s" for p
  proof (cases "p \<in> dom s")
    case True
    then show ?thesis using sw xs that by (simp add: swept_def)
  next
    case False
    then have "bodies s' p = None" using sw xs by (simp add: swept_def bodies_def domIff)
    then show ?thesis by (simp add: bodies_def)
  qed
  have inn: "bodies s' p = bodies s p \<and> map_option ob_mark (s' p) = Some 0" if "p \<in> marked s" for p
  proof -
    have "p \<in> set xs" using md xs that by blast
    with sw have "if p \<in> marked s then bodies s' p = bodies s p \<and> map_option ob_mark (s' p) = Some 0 else s' p = None"
      unfolding swept_def by blast
    with that show ?thesis by simp
  qed
  show "p \<in> marked s \<Longrightarrow> bodies s' p = bodies s p" using inn by blast
  have "s' p \<noteq> None \<longleftrightarrow> p \<in> marked s" for p using inn [of p] out [of p] by (cases "p \<in> marked s") auto
  then show "dom s' = marked s" by (simp add: dom_def)
  show "marked s' = {}"
  proof -
    have "p \<notin> marked s'" for p using inn [of p] out [of p] by (cases "p \<in> marked s") (auto simp: marked_def)
    then show ?thesis by blast
  qed
qed

lemma gc_collect_total:
  assumes ok: "gc_ok w"
  shows "\<exists>w'. gc_collect w = Some w' \<and> gc_ok w' \<and> collected w w' \<and>
    h_threshold (w_heap w') = new_threshold (h_threshold (w_heap w)) (h_count (w_heap w'))"
proof -
  obtain s where s: "mark_roots w = Some s" and mk: "marks (roots_of w) (w_cells w) s" and m: "marked s = live w"
    using mark_roots_total [OF ok] by blast
  note b = marks_bodies [OF mk]
  obtain xs where xs: "seg (w_cells w) (h_all (w_heap w)) xs 0" "distinct xs" "set xs = dom (w_cells w)"
    "h_count (w_heap w) = of_nat (length xs)" "length xs < 2 ^ 30"
    using ok by (auto simp: gc_ok_def objects_ok_def)
  have "seg s (h_all (w_heap w)) xs 0" using xs(1) seg_cong [of xs s "w_cells w"] marks_next [OF mk] by simp
  with sweep_total [of s "h_all (w_heap w)" "[]" _ xs "h_count (w_heap w)"] xs(2)
  obtain al s' where sw: "sweep Link_all (h_all (w_heap w)) (h_count (w_heap w)) s =
      Some (al, h_count (w_heap w) - of_nat (length (filter (\<lambda>x. x \<notin> marked s) xs)), s')"
    "seg s' al (filter (\<lambda>x. x \<in> marked s) xs) 0" "swept xs s s'"
    by (auto simp: after_def)
  note st = swept_store [OF sw(3), unfolded b(2), OF xs(3), unfolded m b(1)]
  have "length xs = length (filter (\<lambda>x. x \<in> live w) xs) + length (filter (\<lambda>x. x \<notin> live w) xs)"
    by (rule sum_length_filter_compl [symmetric])
  then have cnt: "h_count (w_heap w) - of_nat (length (filter (\<lambda>x. x \<notin> live w) xs)) =
      of_nat (length (filter (\<lambda>x. x \<in> live w) xs))"
    unfolding xs(4) by simp
  let ?n = "of_nat (length (filter (\<lambda>x. x \<in> live w) xs)) :: u32"
  let ?w = "w\<lparr>w_cells := s', w_heap := (w_heap w)\<lparr>h_all := al, h_count := ?n,
    h_threshold := new_threshold (h_threshold (w_heap w)) ?n\<rparr>\<rparr>"
  have "gc_collect w = Some ?w" using s sw(1) by (simp add: gc_collect_def m cnt)
  moreover have c: "collected w ?w" using st by (simp add: collected_def)
  moreover have "gc_ok ?w"
  proof -
    note lk = live_known [OF ok]
    have "body_ok s' (ob_body ob)" if "s' p = Some ob" for p ob
    proof -
      have p: "p \<in> live w" using st(1) that by blast
      with st(2) that have "bodies (w_cells w) p = Some (ob_body ob)" by (metis bodies_def option.map(2))
      then obtain ob0 where ob0: "w_cells w p = Some ob0" "ob_body ob0 = ob_body ob" by (auto simp: bodies_def)
      have "valid s' v" if "v \<in> set (kids (ob_body ob))" for v
        using lk(2) p ob0 that st(1) by (fastforce simp: valid_def edges_def bodies_def)
      moreover have "body_ok (w_cells w) (ob_body ob)" using ok ob0 by (force simp: gc_ok_def objects_ok_def closed_def)
      ultimately show ?thesis by (simp add: body_ok_def split: gc_body.splits)
    qed
    moreover have "finite (dom s')" using lk(1) ok st(1) by (metis closed_def finite_subset gc_ok_def objects_ok_def)
    ultimately have "closed s'" by (simp add: closed_def)
    moreover have "\<forall>p\<in>dom s'. IS_PTR p" using ok lk(1) st(1) by (auto simp: gc_ok_def objects_ok_def)
    moreover have "set (filter (\<lambda>x. x \<in> live w) xs) = dom s'" using xs(3) lk(1) st(1) by auto
    moreover have "length (filter (\<lambda>x. x \<in> live w) xs) < 2 ^ 30" using xs(5) length_filter_le le_less_trans by blast
    ultimately have "objects_ok ?w"
      using sw(2) st(3) xs(2) by (auto simp: objects_ok_def m intro!: exI [of _ "filter (\<lambda>x. x \<in> live w) xs"])
    moreover have "root_vals ?w = root_vals w" "roots_of ?w = roots_of w"
      by (simp_all add: root_vals_def roots_of_def)
    moreover have "\<forall>v\<in>roots_of w. valid s' v" using lk(3) st(1) by (simp add: valid_def)
    ultimately show ?thesis using ok by (simp add: gc_ok_def roots_ok_def)
  qed
  ultimately show ?thesis by (intro exI [of _ ?w]) simp
qed

end
