(* ===== verification/Pc_Mutator.thy ===== *)
theory Pc_Mutator
  imports Pc_Collect
begin

text \<open>
  The collector and its client: every constructor keeps the heap's invariant and whatever can still be
  reached, and a client that reads only variables it has registered as roots never touches an object
  that is gone, whatever it allocates.
\<close>

section \<open>Roots\<close>

lemma upto_snoc: "0 \<le> n \<Longrightarrow> [0..n] = [0..n - 1] @ [n]" for n :: int
  by (rule upto_rec2) simp

lemma gc_push_ok:
  assumes ok: "gc_ok w" and v: "read_root (w_vars w) r = Some v" "valid (w_cells w) v"
    and n: "h_nroots (w_heap w) < GC_ROOTS_MAX"
  obtains w' where "gc_push r w = Some (Returns w')" "gc_ok w'" "roots_of w' = insert v (roots_of w)"
    "w_cells w' = w_cells w" "w_vars w' = w_vars w" "w_calls w' = w_calls w"
    "h_nroots (w_heap w') = h_nroots (w_heap w) + 1" "root_vals w' = root_vals w @ [Some v]"
    "\<And>i. i < h_nroots (w_heap w) \<Longrightarrow> h_roots (w_heap w') i = h_roots (w_heap w) i"
proof -
  have nn: "0 \<le> h_nroots (w_heap w)" using ok by (simp add: gc_ok_def roots_ok_def)
  let ?w = "w\<lparr>w_heap := (w_heap w)\<lparr>h_roots := (h_roots (w_heap w))(h_nroots (w_heap w) := r),
    h_nroots := h_nroots (w_heap w) + 1\<rparr>\<rparr>"
  have p: "gc_push r w = Some (Returns ?w)" using n nn by (simp add: gc_push_def Let_def)
  have rv: "root_vals ?w = root_vals w @ [Some v]"
    using v(1) nn by (simp add: root_vals_def upto_snoc)
  then have ro: "roots_of ?w = insert v (roots_of w)" by (auto simp: roots_of_def)
  have "gc_ok ?w"
    using ok v(2) n nn rv ro by (auto simp: gc_ok_def roots_ok_def objects_ok_def)
  with p rv ro show ?thesis using that [of ?w] by simp
qed

lemma gc_pop_ok:
  assumes ok: "gc_ok w" and n: "0 \<le> n" "n \<le> h_nroots (w_heap w)"
  shows "gc_ok (gc_pop n w)" "roots_of (gc_pop n w) \<subseteq> roots_of w"
proof -
  have sub: "set (root_vals (gc_pop n w)) \<subseteq> set (root_vals w)"
    using n by (auto simp: root_vals_def gc_pop_def)
  then show "roots_of (gc_pop n w) \<subseteq> roots_of w" by (auto simp: roots_of_def)
  then show "gc_ok (gc_pop n w)"
    using ok n sub unfolding gc_ok_def roots_ok_def objects_ok_def
    by (auto simp: gc_pop_def)
qed

section \<open>Bodies\<close>

lemma dom_body_upd: "s p = Some ob \<Longrightarrow> dom (s(p \<mapsto> ob\<lparr>ob_body := b\<rparr>)) = dom s"
  by auto

lemma set_body_objects:
  assumes ok: "objects_ok w" and p: "w_cells w p = Some ob" and b: "body_ok (w_cells w) b"
  obtains w' where "set_body p b w = Some w'" "objects_ok w'" "bodies (w_cells w') = (bodies (w_cells w))(p \<mapsto> b)"
    "dom (w_cells w') = dom (w_cells w)" "w_vars w' = w_vars w" "w_heap w' = w_heap w" "w_calls w' = w_calls w"
proof -
  let ?s = "(w_cells w)(p \<mapsto> ob\<lparr>ob_body := b\<rparr>)" and ?w = "w\<lparr>w_cells := (w_cells w)(p \<mapsto> ob\<lparr>ob_body := b\<rparr>)\<rparr>"
  have d: "dom ?s = dom (w_cells w)" using p by (rule dom_body_upd)
  have bo: "body_ok ?s = body_ok (w_cells w)" using d by (simp add: fun_eq_iff body_ok_def valid_def)
  have "closed ?s" using ok b d bo by (auto simp: objects_ok_def closed_def)
  moreover have "marked ?s = marked (w_cells w)" using p by (auto simp: marked_def)
  moreover have "seg ?s q xs r \<longleftrightarrow> seg (w_cells w) q xs r" for q xs r using p by (intro seg_cong) auto
  ultimately have "objects_ok ?w" using ok d by (simp add: objects_ok_def)
  moreover have "bodies ?s = (bodies (w_cells w))(p \<mapsto> b)" by (auto simp: bodies_def fun_eq_iff)
  ultimately show ?thesis using that [of ?w] p d by (simp add: set_body_def)
qed

lemma set_body_ok:
  assumes ok: "gc_ok w" and p: "w_cells w p = Some ob" and b: "body_ok (w_cells w) b"
  obtains w' where "set_body p b w = Some w'" "gc_ok w'" "bodies (w_cells w') = (bodies (w_cells w))(p \<mapsto> b)"
    "dom (w_cells w') = dom (w_cells w)" "w_vars w' = w_vars w" "w_heap w' = w_heap w" "w_calls w' = w_calls w"
proof -
  have "objects_ok w" using ok by (simp add: gc_ok_def)
  from set_body_objects [OF this p b] obtain w' where w': "set_body p b w = Some w'" "objects_ok w'"
    "bodies (w_cells w') = (bodies (w_cells w))(p \<mapsto> b)" "dom (w_cells w') = dom (w_cells w)" "w_vars w' = w_vars w"
    "w_heap w' = w_heap w" "w_calls w' = w_calls w" by metis
  then have "roots_ok w'" using ok by (simp add: gc_ok_def roots_ok_def root_vals_def roots_of_def valid_def)
  with w' show ?thesis using that [of w'] by (simp add: gc_ok_def)
qed

section \<open>Allocation\<close>

text \<open>The operation is defined, and unless it ends the program its result satisfies \<open>Q\<close>.\<close>

definition ends :: "'a outcome option \<Rightarrow> ('a \<Rightarrow> bool) \<Rightarrow> bool" where
  "ends m Q \<longleftrightarrow> m = Some Exits \<or> (\<exists>a. m = Some (Returns a) \<and> Q a)"

lemma ends_simps [simp]:
  "ends None Q \<longleftrightarrow> False" "ends (Some Exits) Q" "ends (Some (Returns a)) Q \<longleftrightarrow> Q a"
  by (simp_all add: ends_def)

lemma ends_and_then:
  assumes "ends m P" "\<And>a. P a \<Longrightarrow> ends (f a) Q"
  shows "ends (and_then m f) Q"
  using assms by (auto simp: ends_def [of m])

text \<open>What the standard promises of \<open>malloc\<close>: \<open>NULL\<close>, or an aligned block that is not in use.\<close>

definition malloc_ok :: "(nat \<Rightarrow> store \<Rightarrow> nat \<Rightarrow> val_t) \<Rightarrow> bool" where
  "malloc_ok malloc \<longleftrightarrow> (\<forall>n s sz. malloc n s sz \<noteq> 0 \<longrightarrow> s (malloc n s sz) = None \<and> malloc n s sz AND 3 = 0)"

definition roomy :: "world \<Rightarrow> bool" where
  "roomy w \<longleftrightarrow> card (dom (w_cells w)) + 1 < 2 ^ 30"

text \<open>After an allocation: everything live is still there, and nothing else is but the new object.\<close>

definition allocates_at :: "world \<Rightarrow> val_t \<Rightarrow> gc_body \<Rightarrow> world \<Rightarrow> bool" where
  "allocates_at w p body w' \<longleftrightarrow> gc_ok w' \<and> IS_PTR p \<and> bodies (w_cells w') p = Some body \<and> p \<notin> live w \<and>
     live w \<subseteq> dom (w_cells w') \<and> dom (w_cells w') \<subseteq> insert p (dom (w_cells w)) \<and>
     (\<forall>q\<in>dom (w_cells w'). q \<noteq> p \<longrightarrow> bodies (w_cells w') q = bodies (w_cells w) q) \<and>
     w_vars w' = w_vars w \<and> h_roots (w_heap w') = h_roots (w_heap w) \<and> h_nroots (w_heap w') = h_nroots (w_heap w)"

lemma link_new_objects:
  assumes ok: "objects_ok w" and p: "w_cells w p = None" "IS_PTR p" and b: "body_ok (w_cells w) body" and room: "roomy w"
  shows "objects_ok (snd (link_new p body w))"
proof -
  let ?ob = "\<lparr>ob_body = body, ob_mark = 0, ob_next = h_all (w_heap w)\<rparr>"
  let ?s = "(w_cells w)(p \<mapsto> ?ob)" and ?w = "snd (link_new p body w)"
  obtain xs where xs: "seg (w_cells w) (h_all (w_heap w)) xs 0" "distinct xs" "set xs = dom (w_cells w)"
    "h_count (w_heap w) = of_nat (length xs)"
    using ok by (auto simp: objects_ok_def)
  have px: "p \<notin> set xs" "p \<noteq> 0" using p xs(3) by (auto simp: IS_PTR_def VAL_NIL_def)
  have c: "w_cells ?w = ?s" "h_all (w_heap ?w) = p" "h_count (w_heap ?w) = h_count (w_heap w) + 1"
    by (simp_all add: link_new_def)
  have more: "body_ok ?s b'" if "body_ok (w_cells w) b'" for b' using that by (auto simp: body_ok_def valid_def)
  have "closed ?s" using ok b more by (auto simp: objects_ok_def closed_def)
  moreover have "marked ?s = {}" using ok p(1) by (auto simp: objects_ok_def marked_def)
  moreover have "seg ?s p (p # xs) 0" using xs(1) px by (simp add: seg_upd)
  moreover have "length (p # xs) < 2 ^ 30" using room xs(2,3) by (metis One_nat_def add.commute distinct_card length_Cons plus_1_eq_Suc roomy_def)
  ultimately show "objects_ok ?w"
    unfolding objects_ok_def c using ok xs px p(2)
    by (auto simp: objects_ok_def intro!: exI [of _ "p # xs"])
qed

lemma link_new_ok:
  assumes ok: "gc_ok w" and p: "w_cells w p = None" "IS_PTR p" and b: "body_ok (w_cells w) body" and room: "roomy w"
  shows "allocates_at w p body (snd (link_new p body w))" "fst (link_new p body w) = p"
proof -
  let ?w = "snd (link_new p body w)"
  have c: "w_cells ?w = (w_cells w)(p \<mapsto> \<lparr>ob_body = body, ob_mark = 0, ob_next = h_all (w_heap w)\<rparr>)"
    "w_vars ?w = w_vars w" "h_roots (w_heap ?w) = h_roots (w_heap w)" "h_nroots (w_heap ?w) = h_nroots (w_heap w)"
    by (simp_all add: link_new_def)
  have "objects_ok ?w" using ok p b room by (intro link_new_objects) (simp_all add: gc_ok_def)
  moreover have "root_vals ?w = root_vals w" "roots_of ?w = roots_of w" by (simp_all add: root_vals_def roots_of_def c)
  moreover have "\<forall>v\<in>roots_of w. valid (w_cells ?w) v" using ok by (auto simp: gc_ok_def roots_ok_def valid_def c)
  ultimately have "gc_ok ?w" using ok by (simp add: gc_ok_def roots_ok_def c)
  moreover have "p \<notin> live w" using live_known(1) [OF ok] p(1) by auto
  ultimately show "allocates_at w p body ?w"
    using p live_known(1) [OF ok] by (auto simp: allocates_at_def c bodies_def)
  show "fst (link_new p body w) = p" by (simp add: link_new_def)
qed

lemma reach_agree:
  assumes "\<And>p. p \<in> reach g V \<Longrightarrow> g' p = g p"
  shows "reach g' V = reach g V"
proof
  have e: "edges g `` reach g V \<subseteq> reach g V"
    by (auto simp: reach_def intro: rtrancl_into_rtrancl)
  have r: "{v \<in> V. IS_PTR v} \<subseteq> reach g V" by (auto simp: reach_def)
  have "edges g' `` reach g V \<subseteq> reach g V"
    using e assms by (fastforce simp: edges_def)
  then show "reach g' V \<subseteq> reach g V" using r by (intro closed_reach) auto
  have "(v, x) \<in> (edges g')\<^sup>*" if "(v, x) \<in> (edges g)\<^sup>*" "v \<in> V" "IS_PTR v" for v x
    using that(1)
  proof (induction rule: rtrancl_induct)
    case base
    then show ?case by simp
  next
    case (step y z)
    have "y \<in> reach g V" using step.hyps(1) that(2,3) by (auto simp: reach_def)
    with step.hyps(2) assms have "(y, z) \<in> edges g'" by (simp add: edges_def)
    with step.IH show ?case by (rule rtrancl_into_rtrancl)
  qed
  then show "reach g V \<subseteq> reach g' V" by (auto simp: reach_def)
qed

lemma collected_live:
  assumes "collected w w'"
  shows "roots_of w' = roots_of w" "live w' = live w"
proof -
  show r: "roots_of w' = roots_of w" using assms by (simp add: collected_def roots_of_def root_vals_def)
  show "live w' = live w" unfolding live_def r
    by (rule reach_agree) (use assms in \<open>auto simp: collected_def live_def\<close>)
qed

lemma collected_roomy:
  assumes "gc_ok w" "collected w w'" "roomy w"
  shows "roomy w'"
proof -
  have "dom (w_cells w') \<subseteq> dom (w_cells w)" using assms(2) live_known(1) [OF assms(1)] by (simp add: collected_def)
  moreover have "finite (dom (w_cells w))" using assms(1) by (simp add: gc_ok_def objects_ok_def closed_def)
  ultimately have "card (dom (w_cells w')) \<le> card (dom (w_cells w))" by (rule card_mono [rotated])
  with assms(3) show ?thesis by (simp add: roomy_def)
qed

lemma collected_allocates:
  assumes ok: "gc_ok w" and c: "collected w w'" and a: "allocates_at w' p body w''"
  shows "allocates_at w p body w''"
proof -
  have d: "dom (w_cells w') = live w" and b: "\<And>q. q \<in> live w \<Longrightarrow> bodies (w_cells w') q = bodies (w_cells w) q"
    using c by (auto simp: collected_def)
  have dd: "dom (w_cells w'') \<subseteq> insert p (live w)" using a d by (auto simp: allocates_at_def)
  then have "\<forall>q\<in>dom (w_cells w''). q \<noteq> p \<longrightarrow> bodies (w_cells w'') q = bodies (w_cells w) q"
    using a b unfolding allocates_at_def by auto
  moreover have "dom (w_cells w'') \<subseteq> insert p (dom (w_cells w))" using dd live_known(1) [OF ok] by blast
  ultimately show ?thesis
    using a c unfolding allocates_at_def collected_live(2) [OF c] by (simp add: collected_def)
qed

lemma calls_same [simp]:
  "gc_ok (w\<lparr>w_calls := n\<rparr>) = gc_ok w" "live (w\<lparr>w_calls := n\<rparr>) = live w"
  "roomy (w\<lparr>w_calls := n\<rparr>) = roomy w"
  by (simp_all add: gc_ok_def objects_ok_def roots_ok_def live_def roots_of_def root_vals_def roomy_def)

lemma calls_allocates [simp]:
  "allocates_at (w\<lparr>w_calls := n\<rparr>) p body w' = allocates_at w p body w'"
  by (simp add: allocates_at_def)

lemma malloc_link:
  assumes m: "malloc_ok malloc" and ok: "gc_ok w" and b: "body_ok (w_cells w) body" and room: "roomy w"
    and c: "call_malloc malloc sz w = (p, w1)" and p: "p \<noteq> 0"
  shows "\<exists>w'. link_new p body w1 = (p, w') \<and> allocates_at w p body w'"
proof -
  have w1: "w1 = w\<lparr>w_calls := w_calls w + 1\<rparr>" and pe: "p = malloc (w_calls w) (w_cells w) sz"
    using c by (auto simp: call_malloc_def)
  have f: "w_cells w p = None" "IS_PTR p"
    using m p unfolding pe malloc_ok_def by (simp_all add: IS_PTR_def TAG_MASK_def TAG_OBJ_def VAL_NIL_def)
  have "allocates_at w1 p body (snd (link_new p body w1))" "fst (link_new p body w1) = p"
    by (rule link_new_ok; use f b ok room in \<open>simp add: w1\<close>)+
  then show ?thesis by (auto simp: w1 prod_eq_iff)
qed

lemma gc_alloc_ok:
  assumes m: "malloc_ok malloc" and ok: "gc_ok w" and b: "\<And>s. body_ok s body" and room: "roomy w"
  shows "ends (gc_alloc malloc body sz w) (\<lambda>(p, w'). allocates_at w p body w')"
proof -
  obtain w1 where w1: "(if sint (h_threshold (w_heap w)) \<le> sint (h_count (w_heap w)) then gc_collect w else Some w) = Some w1"
    "w1 = w \<or> collected w w1" "gc_ok w1"
    using gc_collect_total [OF ok] ok by (cases "sint (h_threshold (w_heap w)) \<le> sint (h_count (w_heap w))") auto
  have room1: "roomy w1" using w1(2) room collected_roomy [OF ok] by blast
  have lift: "allocates_at w p body w'" if "allocates_at w1 p body w'" for p w'
    using w1(2) that collected_allocates [OF ok] by blast
  obtain p w2 where c: "call_malloc malloc sz w1 = (p, w2)" by fastforce
  then have w2: "w2 = w1\<lparr>w_calls := w_calls w1 + 1\<rparr>" by (simp add: call_malloc_def)
  show ?thesis
  proof (cases "p = 0")
    case False
    from malloc_link [OF m w1(3) b room1 c this] lift False show ?thesis
      using w1(1) c by (auto simp: gc_alloc_def)
  next
    case True
    have ok2: "gc_ok w2" "roomy w2" using w1(3) room1 by (simp_all add: w2)
    obtain w3 where w3: "gc_collect w2 = Some w3" "gc_ok w3" "collected w2 w3"
      using gc_collect_total [OF ok2(1)] by blast
    obtain q w4 where c': "call_malloc malloc sz w3 = (q, w4)" by fastforce
    show ?thesis
    proof (cases "q = 0")
      case True
      with \<open>p = 0\<close> show ?thesis using w1(1) c w3(1) c' by (simp add: gc_alloc_def)
    next
      case False
      from malloc_link [OF m w3(2) b collected_roomy [OF ok2(1) w3(3) ok2(2)] c' this]
      obtain w' where w': "link_new q body w4 = (q, w')" "allocates_at w3 q body w'" by blast
      have "allocates_at w2 q body w'" by (rule collected_allocates [OF ok2(1) w3(3) w'(2)])
      then have "allocates_at w q body w'" by (intro lift) (simp add: w2)
      with False \<open>p = 0\<close> w' show ?thesis using w1(1) c w3(1) c' by (auto simp: gc_alloc_def)
    qed
  qed
qed

section \<open>Constructors\<close>

text \<open>The objects that can be reached from the roots and from the values \<open>V\<close>.\<close>

definition held :: "val_t set \<Rightarrow> world \<Rightarrow> val_t set" where
  "held V w = reach (bodies (w_cells w)) (roots_of w \<union> V)"

definition same_roots :: "world \<Rightarrow> world \<Rightarrow> bool" where
  "same_roots w w' \<longleftrightarrow> w_vars w' = w_vars w \<and> h_nroots (w_heap w') = h_nroots (w_heap w) \<and>
     (\<forall>i. 0 \<le> i \<longrightarrow> i < h_nroots (w_heap w) \<longrightarrow> h_roots (w_heap w') i = h_roots (w_heap w) i)"

text \<open>A constructor builds a new object; what is held is as it was, and the roots are those before.\<close>

definition builds :: "val_t set \<Rightarrow> val_t \<Rightarrow> gc_body \<Rightarrow> world \<Rightarrow> world \<Rightarrow> bool" where
  "builds V p body w w' \<longleftrightarrow> gc_ok w' \<and> IS_PTR p \<and> p \<notin> held V w \<and> bodies (w_cells w') p = Some body \<and>
     (\<forall>q\<in>held V w. bodies (w_cells w') q = bodies (w_cells w) q) \<and>
     dom (w_cells w') \<subseteq> insert p (dom (w_cells w)) \<and> same_roots w w'"

lemma same_rootsD:
  assumes "same_roots w w'"
  shows "root_vals w' = root_vals w" "roots_of w' = roots_of w"
proof -
  show "root_vals w' = root_vals w" using assms by (auto simp: same_roots_def root_vals_def)
  then show "roots_of w' = roots_of w" by (simp add: roots_of_def)
qed

text \<open>\<open>w'\<close> is \<open>w\<close> with the roots \<open>rs\<close>, whose values are \<open>vs\<close>, pushed.\<close>

definition pushed :: "val_t list \<Rightarrow> world \<Rightarrow> world \<Rightarrow> bool" where
  "pushed vs w w' \<longleftrightarrow> gc_ok w' \<and> roots_of w' = roots_of w \<union> set vs \<and> w_cells w' = w_cells w \<and> w_vars w' = w_vars w \<and>
     h_nroots (w_heap w') = h_nroots (w_heap w) + int (length vs) \<and>
     (\<forall>i. i < h_nroots (w_heap w) \<longrightarrow> h_roots (w_heap w') i = h_roots (w_heap w) i)"

lemma push_all_ok:
  assumes "gc_ok w" "list_all2 (\<lambda>r v. read_root (w_vars w) r = Some v) rs vs" "\<forall>v\<in>set vs. valid (w_cells w) v"
  shows "ends (push_all rs w) (pushed vs w)"
  using assms
proof (induction rs arbitrary: w vs)
  case Nil
  then show ?case by (simp add: pushed_def)
next
  case (Cons r rs)
  then obtain v us where vs: "vs = v # us" "read_root (w_vars w) r = Some v"
    "list_all2 (\<lambda>r v. read_root (w_vars w) r = Some v) rs us" by (auto simp: list_all2_Cons1)
  show ?case
  proof (cases "GC_ROOTS_MAX \<le> h_nroots (w_heap w)")
    case True
    then show ?thesis by (simp add: gc_push_def)
  next
    case False
    obtain w1 where w1: "gc_push r w = Some (Returns w1)" "gc_ok w1" "roots_of w1 = insert v (roots_of w)"
      "w_cells w1 = w_cells w" "w_vars w1 = w_vars w" "h_nroots (w_heap w1) = h_nroots (w_heap w) + 1"
      "\<And>i. i < h_nroots (w_heap w) \<Longrightarrow> h_roots (w_heap w1) i = h_roots (w_heap w) i"
      using gc_push_ok [OF Cons.prems(1) vs(2)] Cons.prems(3) vs(1) False by (metis linorder_not_le list.set_intros(1))
    from Cons.IH [OF w1(2), of us] vs(1,3) Cons.prems(3) w1(4,5)
    have "ends (push_all rs w1) (pushed us w1)" by simp
    moreover have "pushed vs w w'" if "pushed us w1 w'" for w'
      using that w1(3-7) vs(1) by (simp add: pushed_def)
    ultimately show ?thesis using w1(1) by (auto simp: ends_def)
  qed
qed

lemma pushed_live: "pushed vs w w' \<Longrightarrow> live w' = held (set vs) w"
  by (simp add: pushed_def live_def held_def)

lemma construct_ok:
  assumes ok: "gc_ok w" and pu: "pushed vs w w1" and al: "allocates_at w1 p body0 w2"
    and k: "set (kids body) \<subseteq> set vs" and sz: "\<And>s. (\<forall>v\<in>set (kids body). valid s v) \<Longrightarrow> body_ok s body"
  shows "\<exists>w3. set_body p body w2 = Some w3 \<and> builds (set vs) p body w (gc_pop (int (length vs)) w3)"
proof -
  have l: "live w1 = held (set vs) w" by (rule pushed_live [OF pu])
  have ok1: "gc_ok w1" using pu by (simp add: pushed_def)
  have "valid (w_cells w2) v" if "v \<in> set vs" for v
    using live_known(3) [OF ok1, of v] al pu that by (auto simp: valid_def allocates_at_def pushed_def)
  with k sz have bo: "body_ok (w_cells w2) body" by blast
  obtain ob where ob: "w_cells w2 p = Some ob" using al by (auto simp: allocates_at_def bodies_def)
  have ok2: "gc_ok w2" using al by (simp add: allocates_at_def)
  obtain w3 where w3: "set_body p body w2 = Some w3" "gc_ok w3"
    "bodies (w_cells w3) = (bodies (w_cells w2))(p \<mapsto> body)"
    "dom (w_cells w3) = dom (w_cells w2)" "w_vars w3 = w_vars w2" "w_heap w3 = w_heap w2"
    using set_body_ok [OF ok2 ob bo] by metis
  have n: "h_nroots (w_heap w3) = h_nroots (w_heap w) + int (length vs)" "0 \<le> h_nroots (w_heap w)"
    using w3(6) al pu ok by (simp_all add: allocates_at_def pushed_def gc_ok_def roots_ok_def)
  let ?w = "gc_pop (int (length vs)) w3"
  have "gc_ok ?w" using w3(2) n by (intro gc_pop_ok) auto
  moreover have "p \<notin> held (set vs) w" "IS_PTR p" using al l by (auto simp: allocates_at_def)
  moreover have "bodies (w_cells ?w) q = bodies (w_cells w) q" if "q \<in> held (set vs) w" for q
  proof -
    have "q \<in> dom (w_cells w2)" "q \<noteq> p" using that al l by (auto simp: allocates_at_def)
    then show ?thesis using al pu w3(3) by (simp add: allocates_at_def pushed_def gc_pop_def)
  qed
  moreover have "bodies (w_cells ?w) p = Some body" using w3(3) by (simp add: gc_pop_def)
  moreover have "dom (w_cells ?w) \<subseteq> insert p (dom (w_cells w))" using w3(4) al pu by (auto simp: gc_pop_def allocates_at_def pushed_def)
  moreover have "same_roots w ?w" using w3(5,6) n(1) al pu by (simp add: same_roots_def gc_pop_def allocates_at_def pushed_def)
  ultimately show ?thesis using w3(1) by (simp add: builds_def)
qed

lemma zero_valid [simp]: "valid s 0"
  by (simp add: valid_def IS_PTR_def VAL_NIL_def)

lemma gc_cons_ok:
  assumes m: "malloc_ok malloc" and ok: "gc_ok w" and v: "valid (w_cells w) car" "valid (w_cells w) cdr" and room: "roomy w"
  shows "ends (gc_cons malloc car cdr w) (\<lambda>(p, w'). builds {car, cdr} p (OBJ_PAIR car cdr) w w')"
  unfolding gc_cons_def
proof (rule ends_and_then)
  show "ends (push_all [Arg car, Arg cdr] w) (pushed [car, cdr] w)"
    by (rule push_all_ok [OF ok]) (use v in \<open>simp_all add: read_root_def\<close>)
next
  fix w1 assume w1: "pushed [car, cdr] w w1"
  have ok1: "gc_ok w1" "roomy w1" using w1 room by (simp_all add: pushed_def roomy_def)
  have b0: "body_ok s (OBJ_PAIR 0 0)" for s by (simp add: body_ok_def kids_def)
  show "ends (and_then (gc_alloc malloc (OBJ_PAIR 0 0) 32 w1)
      (\<lambda>(p, w2). do { w3 \<leftarrow> set_body p (OBJ_PAIR car cdr) w2; Some (Returns (p, gc_pop 2 w3)) }))
    (\<lambda>(p, w'). builds {car, cdr} p (OBJ_PAIR car cdr) w w')"
  proof (rule ends_and_then [OF gc_alloc_ok [OF m ok1(1) b0 ok1(2)]], clarify)
    fix p w2 assume "allocates_at w1 p (OBJ_PAIR 0 0) w2"
    from construct_ok [OF ok w1 this, of "OBJ_PAIR car cdr"]
    show "ends (do { w3 \<leftarrow> set_body p (OBJ_PAIR car cdr) w2; Some (Returns (p, gc_pop 2 w3)) })
      (\<lambda>(p, w'). builds {car, cdr} p (OBJ_PAIR car cdr) w w')"
      by (auto simp: kids_def body_ok_def)
  qed
qed

lemma gc_pop_none [simp]: "gc_pop 0 w = w"
  by (simp add: gc_pop_def)

lemma alloc_str_ok:
  assumes m: "malloc_ok malloc" and ok: "gc_ok w" and room: "roomy w" and n: "n \<le> length bs"
    and k: "kind = OBJ_STRING \<or> kind = OBJ_SYMBOL"
  shows "ends (alloc_str malloc kind (Buf bs) n w) (\<lambda>(p, w'). builds {} p (kind n (take n bs @ [0])) w w')"
proof -
  have b: "body_ok s (kind l cs)" "kids (kind l cs) = []" for s l cs
    using k by (auto simp: body_ok_def kids_def)
  have pu: "pushed [] w w" using ok by (simp add: pushed_def)
  show ?thesis unfolding alloc_str_def
  proof (rule ends_and_then [OF gc_alloc_ok [OF m ok b(1) room]], clarify)
    fix p w1 assume "allocates_at w p (kind 0 (replicate (n + 1) 0)) w1"
    from construct_ok [OF ok pu this, of "kind n (take n bs @ [0])"] n
    show "ends (do { cs \<leftarrow> read_chars (w_cells w1) (Buf bs) n; w2 \<leftarrow> set_body p (kind n (cs @ [0])) w1; Some (Returns (p, w2)) })
      (\<lambda>(p, w'). builds {} p (kind n (take n bs @ [0])) w w')"
      by (auto simp: b read_chars_def)
  qed
qed

lemma strlen_bound: "strlen s = Some n \<Longrightarrow> n < length s"
  by (induction s arbitrary: n) (auto split: if_splits)

lemma strlen_defined: "0 \<in> set s \<Longrightarrow> \<exists>n. strlen s = Some n"
  by (induction s) auto

lemma read_vars_all2:
  "read_vars vars xs = Some vs \<longleftrightarrow> list_all2 (\<lambda>x v. vars x = Some v) xs vs"
  by (induction xs arbitrary: vs) (auto simp: list_all2_Cons1 bind_eq_Some_conv)

definition captured_at :: "u64 \<Rightarrow> nat \<Rightarrow> u64 list" where
  "captured_at captured n = map (\<lambda>i. captured + 8 * of_nat i) [0..<n]"

lemma gc_closure_ok:
  assumes m: "malloc_ok malloc" and ok: "gc_ok w" and room: "roomy w"
    and vs: "list_all2 (\<lambda>x v. w_vars w x = Some v) (captured_at captured n) vs" and v: "\<forall>v\<in>set vs. valid (w_cells w) v"
  shows "ends (gc_closure malloc f n captured w) (\<lambda>(p, w'). builds (set vs) p (OBJ_CLOSURE f n vs) w w')"
  unfolding gc_closure_def Let_def captured_at_def [symmetric]
proof (rule ends_and_then)
  show "ends (push_all (map Var (captured_at captured n)) w) (pushed vs w)"
    by (rule push_all_ok [OF ok]) (use vs v in \<open>simp_all add: read_root_def list.rel_map\<close>)
next
  fix w1 assume w1: "pushed vs w w1"
  have len: "length vs = n" using list_all2_lengthD [OF vs] by (simp add: captured_at_def)
  have ok1: "gc_ok w1" "roomy w1" using w1 room by (simp_all add: pushed_def roomy_def)
  have b0: "body_ok s (OBJ_CLOSURE 0 0 (replicate n 0))" for s by (simp add: body_ok_def kids_def)
  show "ends (and_then (gc_alloc malloc (OBJ_CLOSURE 0 0 (replicate n 0)) (24 + n * 8) w1)
      (\<lambda>(p, w2). do { vs \<leftarrow> read_vars (w_vars w2) (captured_at captured n);
        w3 \<leftarrow> set_body p (OBJ_CLOSURE f n vs) w2; Some (Returns (p, gc_pop (int n) w3)) }))
    (\<lambda>(p, w'). builds (set vs) p (OBJ_CLOSURE f n vs) w w')"
  proof (rule ends_and_then [OF gc_alloc_ok [OF m ok1(1) b0 ok1(2)]], clarify)
    fix p w2 assume a: "allocates_at w1 p (OBJ_CLOSURE 0 0 (replicate n 0)) w2"
    then have "read_vars (w_vars w2) (captured_at captured n) = Some vs"
      using vs w1 by (simp add: read_vars_all2 allocates_at_def pushed_def)
    with construct_ok [OF ok w1 a, of "OBJ_CLOSURE f n vs"] len
    show "ends (do { vs \<leftarrow> read_vars (w_vars w2) (captured_at captured n);
        w3 \<leftarrow> set_body p (OBJ_CLOSURE f n vs) w2; Some (Returns (p, gc_pop (int n) w3)) })
      (\<lambda>(p, w'). builds (set vs) p (OBJ_CLOSURE f n vs) w w')"
      by (auto simp: kids_def body_ok_def)
  qed
qed

section \<open>Clients\<close>

text \<open>
  What a client of the collector does: it assigns its variables (constants, copies, the results of the
  constructors and of the accessors), changes pairs, and registers and forgets roots.
\<close>

datatype action =
    Assign u64 val_t
  | Copy u64 u64
  | Push u64
  | Pop int
  | Collect
  | Pair u64 u64 u64
  | Text u64 "u8 list" nat
  | Symbol u64 "u8 list"
  | Closure u64 int nat u64
  | Car u64 u64
  | Cdr u64 u64
  | Set_car u64 u64
  | Set_cdr u64 u64

definition set_var :: "u64 \<Rightarrow> val_t \<Rightarrow> world \<Rightarrow> world" where
  "set_var x v w = w\<lparr>w_vars := (w_vars w)(x \<mapsto> v)\<rparr>"

definition store_result :: "u64 \<Rightarrow> (val_t \<times> world) outcome option \<Rightarrow> world outcome option" where
  "store_result x m = and_then m (\<lambda>(p, w). Some (Returns (set_var x p w)))"

fun do_action :: "(nat \<Rightarrow> store \<Rightarrow> nat \<Rightarrow> val_t) \<Rightarrow> action \<Rightarrow> world \<Rightarrow> world outcome option" where
  "do_action malloc (Assign x v) w = Some (Returns (set_var x v w))"
| "do_action malloc (Copy x y) w = do { v \<leftarrow> w_vars w y; Some (Returns (set_var x v w)) }"
| "do_action malloc (Push x) w = gc_push (Var x) w"
| "do_action malloc (Pop n) w = Some (Returns (gc_pop n w))"
| "do_action malloc Collect w = map_option Returns (gc_collect w)"
| "do_action malloc (Pair x y z) w = do { a \<leftarrow> w_vars w y; b \<leftarrow> w_vars w z; store_result x (gc_cons malloc a b w) }"
| "do_action malloc (Text x bs n) w = store_result x (gc_string malloc (Buf bs) n w)"
| "do_action malloc (Symbol x bs) w = store_result x (gc_symbol malloc bs w)"
| "do_action malloc (Closure x f n captured) w = store_result x (gc_closure malloc f n captured w)"
| "do_action malloc (Car x y) w = do { v \<leftarrow> w_vars w y; a \<leftarrow> gc_car v w; Some (Returns (set_var x a w)) }"
| "do_action malloc (Cdr x y) w = do { v \<leftarrow> w_vars w y; a \<leftarrow> gc_cdr v w; Some (Returns (set_var x a w)) }"
| "do_action malloc (Set_car y z) w = do { v \<leftarrow> w_vars w y; a \<leftarrow> w_vars w z; map_option Returns (gc_set_car v a w) }"
| "do_action malloc (Set_cdr y z) w = do { v \<leftarrow> w_vars w y; a \<leftarrow> w_vars w z; map_option Returns (gc_set_cdr v a w) }"

text \<open>
  The discipline: \<open>U\<close> is the set of variables the client may read, those that are registered or were
  assigned since the last allocation. Accessors are used on variables that hold a pointer to a pair, if
  they hold a pointer to an object at all.
\<close>

definition rooted :: "world \<Rightarrow> u64 set" where
  "rooted w = {x. \<exists>i. 0 \<le> i \<and> i < h_nroots (w_heap w) \<and> h_roots (w_heap w) i = Var x}"

definition holds_pair :: "world \<Rightarrow> u64 \<Rightarrow> bool" where
  "holds_pair w y \<longleftrightarrow> (case w_vars w y of None \<Rightarrow> True | Some v \<Rightarrow> IS_PTR v \<and>
     (case w_cells w v of None \<Rightarrow> True | Some ob \<Rightarrow> (case ob_body ob of OBJ_PAIR car cdr \<Rightarrow> True | _ \<Rightarrow> False)))"

fun sensible :: "u64 set \<Rightarrow> action \<Rightarrow> world \<Rightarrow> bool" where
  "sensible U (Assign x v) w \<longleftrightarrow> \<not> IS_PTR v"
| "sensible U (Copy x y) w \<longleftrightarrow> y \<in> U"
| "sensible U (Push x) w \<longleftrightarrow> x \<in> U"
| "sensible U (Pop n) w \<longleftrightarrow> 0 \<le> n \<and> n \<le> h_nroots (w_heap w)"
| "sensible U Collect w \<longleftrightarrow> True"
| "sensible U (Pair x y z) w \<longleftrightarrow> y \<in> U \<and> z \<in> U \<and> roomy w"
| "sensible U (Text x bs n) w \<longleftrightarrow> n \<le> length bs \<and> roomy w"
| "sensible U (Symbol x bs) w \<longleftrightarrow> 0 \<in> set bs \<and> roomy w"
| "sensible U (Closure x f n captured) w \<longleftrightarrow> set (captured_at captured n) \<subseteq> U \<and> roomy w"
| "sensible U (Car x y) w \<longleftrightarrow> y \<in> U \<and> holds_pair w y"
| "sensible U (Cdr x y) w \<longleftrightarrow> y \<in> U \<and> holds_pair w y"
| "sensible U (Set_car y z) w \<longleftrightarrow> y \<in> U \<and> z \<in> U \<and> holds_pair w y"
| "sensible U (Set_cdr y z) w \<longleftrightarrow> y \<in> U \<and> z \<in> U \<and> holds_pair w y"

fun readable :: "u64 set \<Rightarrow> action \<Rightarrow> world \<Rightarrow> u64 set" where
  "readable U (Assign x v) w = insert x U"
| "readable U (Copy x y) w = insert x U"
| "readable U (Car x y) w = insert x U"
| "readable U (Cdr x y) w = insert x U"
| "readable U Collect w = U \<inter> rooted w"
| "readable U (Pair x y z) w = insert x (U \<inter> rooted w)"
| "readable U (Text x bs n) w = insert x (U \<inter> rooted w)"
| "readable U (Symbol x bs) w = insert x (U \<inter> rooted w)"
| "readable U (Closure x f n captured) w = insert x (U \<inter> rooted w)"
| "readable U a w = U"

definition client_ok :: "u64 set \<Rightarrow> world \<Rightarrow> bool" where
  "client_ok U w \<longleftrightarrow> gc_ok w \<and> (\<forall>x\<in>U. \<exists>v. w_vars w x = Some v \<and> valid (w_cells w) v)"

lemma set_var_ok:
  assumes "gc_ok w" "valid (w_cells w) v"
  shows "gc_ok (set_var x v w)"
proof -
  have r: "read_root (w_vars (set_var x v w)) r \<in> {read_root (w_vars w) r, Some v}" for r
    by (cases r) (auto simp: read_root_def set_var_def)
  have "set (root_vals (set_var x v w)) \<subseteq> insert (Some v) (set (root_vals w))"
    using r by (auto simp: root_vals_def set_var_def)
  then have "None \<notin> set (root_vals (set_var x v w))" "\<forall>u\<in>roots_of (set_var x v w). valid (w_cells w) u"
    using assms by (auto simp: gc_ok_def roots_ok_def roots_of_def)
  then show ?thesis
    using assms(1) by (simp add: gc_ok_def objects_ok_def roots_ok_def) (simp add: set_var_def)
qed

lemma client_assign:
  assumes "client_ok U w" "valid (w_cells w) v"
  shows "client_ok (insert x U) (set_var x v w)"
  using assms set_var_ok [of w v x] by (auto simp: client_ok_def set_var_def)

lemma rooted_value:
  assumes "x \<in> rooted w" "w_vars w x = Some v"
  shows "v \<in> roots_of w"
proof -
  obtain i where i: "0 \<le> i" "i < h_nroots (w_heap w)" "h_roots (w_heap w) i = Var x"
    using assms(1) by (auto simp: rooted_def)
  then have "read_root (w_vars w) (h_roots (w_heap w) i) = Some v" using assms(2) by (simp add: read_root_def)
  with i(1,2) show ?thesis unfolding roots_of_def root_vals_def by force
qed

lemma client_builds:
  assumes c: "client_ok U w" and b: "builds V p body w w'"
  shows "client_ok (insert x (U \<inter> rooted w)) (set_var x p w')"
proof (rule client_assign)
  have "valid (w_cells w') v" if v: "w_vars w y = Some v" "y \<in> U" "y \<in> rooted w" for y v
  proof -
    have "bodies (w_cells w') v = bodies (w_cells w) v" if "IS_PTR v"
      using rooted_value [OF v(3,1)] that b by (auto simp: builds_def held_def reach_def)
    moreover have "valid (w_cells w) v" using c v by (auto simp: client_ok_def)
    ultimately show ?thesis by (auto simp: valid_def bodies_def)
  qed
  moreover have "\<exists>v. w_vars w y = Some v" if "y \<in> U" for y using c that by (auto simp: client_ok_def)
  ultimately show "client_ok (U \<inter> rooted w) w'"
    using b by (fastforce simp: client_ok_def builds_def same_roots_def)
  show "valid (w_cells w') p" using b by (auto simp: builds_def valid_def bodies_def)
qed

text \<open>
  What the client relies on of a constructor of the heap: it ends the program or builds an object from
  its arguments \<open>x\<close>, whose values \<open>V\<close> it keeps alive while it allocates. Storing the result in a variable is
  then safe.
\<close>

locale heap_constructor =
  fixes construct :: "'a \<Rightarrow> world \<Rightarrow> (val_t \<times> world) outcome option"
    and fits :: "'a \<Rightarrow> world \<Rightarrow> bool"
    and uses :: "'a \<Rightarrow> world \<Rightarrow> val_t set"
    and result :: "'a \<Rightarrow> world \<Rightarrow> gc_body"
  assumes construct_builds: "gc_ok w \<Longrightarrow> roomy w \<Longrightarrow> fits x w \<Longrightarrow>
    ends (construct x w) (\<lambda>(p, w'). builds (uses x w) p (result x w) w w')"
begin

lemma result_stored:
  assumes c: "client_ok U w" and r: "roomy w" "fits x w"
  shows "ends (store_result y (construct x w)) (client_ok (insert y (U \<inter> rooted w)))"
proof -
  have "gc_ok w" using c by (simp add: client_ok_def)
  then show ?thesis unfolding store_result_def
    by (rule ends_and_then [OF construct_builds [OF _ r]]) (use client_builds [OF c] in auto)
qed

lemma live_kept:
  assumes "gc_ok w" "roomy w" "fits x w" "construct x w = Some (Returns (p, w'))" "q \<in> live w"
  shows "bodies (w_cells w') q = bodies (w_cells w) q"
proof -
  have b: "builds (uses x w) p (result x w) w w'" using construct_builds [OF assms(1-3)] assms(4) by simp
  have "live w \<subseteq> held (uses x w) w" unfolding live_def held_def by (rule reach_mono) simp
  then show ?thesis using b assms(5) by (auto simp: builds_def)
qed

end

lemma client_collect:
  assumes c: "client_ok U w"
  shows "ends (map_option Returns (gc_collect w)) (client_ok (U \<inter> rooted w))"
proof -
  have ok: "gc_ok w" using c by (simp add: client_ok_def)
  obtain w' where w': "gc_collect w = Some w'" "gc_ok w'" "collected w w'" using gc_collect_total [OF ok] by blast
  have "valid (w_cells w') v" if "w_vars w y = Some v" "y \<in> rooted w" for y v
    using rooted_value [OF that(2,1)] live_known(3) [OF ok] w'(3) by (auto simp: valid_def collected_def)
  then show ?thesis using c w' by (fastforce simp: client_ok_def collected_def)
qed

lemma readable_pair:
  assumes "client_ok U w" "y \<in> U" "holds_pair w y"
  shows "\<exists>v a b ob. w_vars w y = Some v \<and> w_cells w v = Some ob \<and>
    pair_at (w_cells w) v = Some (a, b) \<and> valid (w_cells w) a \<and> valid (w_cells w) b"
proof -
  obtain v where v: "w_vars w y = Some v" "valid (w_cells w) v" using assms(1,2) by (auto simp: client_ok_def)
  then obtain ob where ob: "w_cells w v = Some ob" using assms(3) by (auto simp: holds_pair_def valid_def)
  then obtain a b where ab: "ob_body ob = OBJ_PAIR a b"
    using assms(3) v(1) by (auto simp: holds_pair_def split: gc_body.splits)
  have "body_ok (w_cells w) (OBJ_PAIR a b)"
    using assms(1) ob ab by (force simp: client_ok_def gc_ok_def objects_ok_def closed_def)
  then have "pair_at (w_cells w) v = Some (a, b)" "valid (w_cells w) a" "valid (w_cells w) b"
    using ob ab by (simp_all add: pair_at_def body_ok_def kids_def)
  with v(1) ob show ?thesis by blast
qed

lemma client_set_body:
  assumes c: "client_ok U w" and p: "w_cells w p = Some ob" and b: "body_ok (w_cells w) b"
  shows "ends (map_option Returns (set_body p b w)) (client_ok U)"
proof -
  have "gc_ok w" using c by (simp add: client_ok_def)
  from set_body_ok [OF this p b] obtain w' where "set_body p b w = Some w'" "gc_ok w'"
    "dom (w_cells w') = dom (w_cells w)" "w_vars w' = w_vars w" by metis
  then show ?thesis using c by (simp add: client_ok_def valid_def)
qed

lemma readable_values:
  assumes "client_ok U w" "set xs \<subseteq> U"
  shows "\<exists>vs. list_all2 (\<lambda>x v. w_vars w x = Some v) xs vs \<and> (\<forall>v\<in>set vs. valid (w_cells w) v)"
  using assms(2)
proof (induction xs)
  case Nil
  then show ?case by simp
next
  case (Cons x xs)
  then obtain vs where "list_all2 (\<lambda>x v. w_vars w x = Some v) xs vs" "\<forall>v\<in>set vs. valid (w_cells w) v" by auto
  moreover obtain v where "w_vars w x = Some v" "valid (w_cells w) v" using assms(1) Cons.prems by (auto simp: client_ok_def)
  ultimately show ?case by (intro exI [of _ "v # vs"]) simp
qed

lemma gc_string_ok:
  assumes "malloc_ok malloc" "gc_ok w" "roomy w" "n \<le> length bs"
  shows "ends (gc_string malloc (Buf bs) n w) (\<lambda>(p, w'). builds {} p (OBJ_STRING n (take n bs @ [0])) w w')"
  unfolding gc_string_def by (rule alloc_str_ok) (use assms in simp_all)

lemma gc_symbol_ok:
  assumes "malloc_ok malloc" "gc_ok w" "roomy w" "strlen bs = Some n"
  shows "ends (gc_symbol malloc bs w) (\<lambda>(p, w'). builds {} p (OBJ_SYMBOL n (take n bs @ [0])) w w')"
  using alloc_str_ok [OF assms(1-3), of n bs OBJ_SYMBOL] strlen_bound [OF assms(4)] assms(4) by (simp add: gc_symbol_def)

text \<open>The four constructors meet the contract.\<close>

interpretation cons: heap_constructor "\<lambda>(malloc, car, cdr). gc_cons malloc car cdr"
  "\<lambda>(malloc, car, cdr) w. malloc_ok malloc \<and> valid (w_cells w) car \<and> valid (w_cells w) cdr"
  "\<lambda>(malloc, car, cdr) w. {car, cdr}" "\<lambda>(malloc, car, cdr) w. OBJ_PAIR car cdr"
  by unfold_locales (auto intro: gc_cons_ok)

interpretation str: heap_constructor "\<lambda>(malloc, bs, n). gc_string malloc (Buf bs) n"
  "\<lambda>(malloc, bs, n) w. malloc_ok malloc \<and> n \<le> length bs"
  "\<lambda>(malloc, bs, n) w. {}" "\<lambda>(malloc, bs, n) w. OBJ_STRING n (take n bs @ [0])"
  by unfold_locales (auto intro: gc_string_ok)

interpretation sym: heap_constructor "\<lambda>(malloc, bs). gc_symbol malloc bs"
  "\<lambda>(malloc, bs) w. malloc_ok malloc \<and> strlen bs \<noteq> None"
  "\<lambda>(malloc, bs) w. {}" "\<lambda>(malloc, bs) w. OBJ_SYMBOL (the (strlen bs)) (take (the (strlen bs)) bs @ [0])"
  by unfold_locales (auto intro: gc_symbol_ok)

interpretation clo: heap_constructor "\<lambda>(malloc, f, n, captured). gc_closure malloc f n captured"
  "\<lambda>(malloc, f, n, captured) w. malloc_ok malloc \<and> (\<exists>vs. read_vars (w_vars w) (captured_at captured n) = Some vs \<and>
     (\<forall>v\<in>set vs. valid (w_cells w) v))"
  "\<lambda>(malloc, f, n, captured) w. set (the (read_vars (w_vars w) (captured_at captured n)))"
  "\<lambda>(malloc, f, n, captured) w. OBJ_CLOSURE f n (the (read_vars (w_vars w) (captured_at captured n)))"
  by unfold_locales (auto intro: gc_closure_ok simp flip: read_vars_all2)

theorem action_ok:
  assumes m: "malloc_ok malloc" and c: "client_ok U w" and a: "sensible U a w"
  shows "ends (do_action malloc a w) (client_ok (readable U a w))"
proof -
  have ok: "gc_ok w" using c by (simp add: client_ok_def)
  have val: "\<exists>v. w_vars w x = Some v \<and> valid (w_cells w) v" if "x \<in> U" for x using c that by (auto simp: client_ok_def)
  show ?thesis
  proof (cases a)
    case (Assign x v)
    then show ?thesis using a client_assign [OF c] by (simp add: valid_def)
  next
    case (Copy x y)
    then show ?thesis using a val [of y] client_assign [OF c] by auto
  next
    case (Push x)
    obtain v where v: "read_root (w_vars w) (Var x) = Some v" "valid (w_cells w) v"
      using a Push val [of x] by (auto simp: read_root_def)
    have "ends (gc_push (Var x) w) (client_ok U)"
    proof (cases "h_nroots (w_heap w) < GC_ROOTS_MAX")
      case True
      from gc_push_ok [OF ok v True] obtain w' where "gc_push (Var x) w = Some (Returns w')" "gc_ok w'"
        "w_cells w' = w_cells w" "w_vars w' = w_vars w" by metis
      then show ?thesis using c by (simp add: client_ok_def)
    next
      case False
      then show ?thesis by (simp add: gc_push_def)
    qed
    then show ?thesis using Push by simp
  next
    case (Pop n)
    then show ?thesis using a c gc_pop_ok(1) [OF ok, of n] by (simp add: client_ok_def) (simp add: gc_pop_def)
  next
    case Collect
    then show ?thesis using client_collect [OF c] by simp
  next
    case (Pair x y z)
    then obtain u v where uv: "w_vars w y = Some u" "valid (w_cells w) u" "w_vars w z = Some v" "valid (w_cells w) v"
      using a val [of y] val [of z] by auto
    then show ?thesis using cons.result_stored [OF c, of "(malloc, u, v)"] m a Pair by simp
  next
    case (Text x bs n)
    then show ?thesis using str.result_stored [OF c, of "(malloc, bs, n)"] m a by simp
  next
    case (Symbol x bs)
    then show ?thesis using sym.result_stored [OF c, of "(malloc, bs)"] m a strlen_defined [of bs] by simp
  next
    case (Closure x f n captured)
    then obtain vs where "list_all2 (\<lambda>x v. w_vars w x = Some v) (captured_at captured n) vs" "\<forall>v\<in>set vs. valid (w_cells w) v"
      using readable_values [OF c, of "captured_at captured n"] a by auto
    then show ?thesis using clo.result_stored [OF c, of "(malloc, f, n, captured)"] m a Closure by (auto simp: read_vars_all2)
  next
    case (Car x y)
    then obtain v p q where "w_vars w y = Some v" "pair_at (w_cells w) v = Some (p, q)" "valid (w_cells w) p"
      using readable_pair [OF c, of y] a by auto
    then show ?thesis using Car client_assign [OF c] by (simp add: gc_car_def)
  next
    case (Cdr x y)
    then obtain v p q where "w_vars w y = Some v" "pair_at (w_cells w) v = Some (p, q)" "valid (w_cells w) q"
      using readable_pair [OF c, of y] a by auto
    then show ?thesis using Cdr client_assign [OF c] by (simp add: gc_cdr_def)
  next
    case (Set_car y z)
    then obtain v p q ob where r: "w_vars w y = Some v" "w_cells w v = Some ob" "pair_at (w_cells w) v = Some (p, q)" "valid (w_cells w) q"
      using readable_pair [OF c, of y] a by auto
    obtain u where u: "w_vars w z = Some u" "valid (w_cells w) u" using a Set_car val [of z] by auto
    have "body_ok (w_cells w) (OBJ_PAIR u q)" using r(4) u(2) by (simp add: body_ok_def kids_def)
    then show ?thesis using r(1,3) u(1) Set_car client_set_body [OF c r(2)] by (simp add: gc_set_car_def)
  next
    case (Set_cdr y z)
    then obtain v p q ob where r: "w_vars w y = Some v" "w_cells w v = Some ob" "pair_at (w_cells w) v = Some (p, q)" "valid (w_cells w) p"
      using readable_pair [OF c, of y] a by auto
    obtain u where u: "w_vars w z = Some u" "valid (w_cells w) u" using a Set_cdr val [of z] by auto
    have "body_ok (w_cells w) (OBJ_PAIR p u)" using r(4) u(2) by (simp add: body_ok_def kids_def)
    then show ?thesis using r(1,3) u(1) Set_cdr client_set_body [OF c r(2)] by (simp add: gc_set_cdr_def)
  qed
qed

end
