(* ===== verification/Pc_Reader.thy ===== *)
theory Pc_Reader
  imports Pc_Lex Pc_Mutator
begin

text \<open>
  The reader \<open>scheme/parse.c\<close> and the printer \<open>scheme/print.c\<close>. A call's local variables that are
  registered as roots are variables of the world, at addresses from the frame \<open>fp\<close> of the call up; a
  nested call has its frame above. A local without an initialiser has no value until it is assigned:
  reading it, or collecting while it is a root, is \<open>None\<close>. Recursion and loops have fuel; running out of
  it is \<open>None\<close> too.
\<close>

definition bytes :: "string \<Rightarrow> u8 list" where
  "bytes s = map of_char s"

section \<open>The reader\<close>

text \<open>The end of the loops of \<open>read_list\<close> and of \<open>scm_read_all\<close>: a cell for the element, at the tail.\<close>

definition append_cell :: "(nat \<Rightarrow> store \<Rightarrow> nat \<Rightarrow> val_t) \<Rightarrow> u64 \<Rightarrow> val_t \<Rightarrow> world \<Rightarrow> world outcome option" where
  "append_cell malloc fp elem w =
    and_then (gc_cons malloc elem VAL_NIL (set_var (fp + 16) elem w)) (\<lambda>(cell, w1).
    let w2 = set_var (fp + 24) cell w1 in do {
      head \<leftarrow> w_vars w2 fp;
      w3 \<leftarrow> (if IS_NIL head then Some (set_var fp cell w2)
            else do { tail \<leftarrow> w_vars w2 (fp + 8); gc_set_cdr tail cell w2 });
      Some (Returns (set_var (fp + 8) cell w3)) })"

definition open_frame :: "u64 \<Rightarrow> world \<Rightarrow> world outcome option" where
  "open_frame fp w =
    push_all [Var fp, Var (fp + 8), Var (fp + 16), Var (fp + 24)]
      (w\<lparr>w_vars := (w_vars w)(fp := Some VAL_NIL, fp + 8 := Some VAL_NIL, fp + 16 := None, fp + 24 := None)\<rparr>)"

definition close_frame :: "u64 \<Rightarrow> lexer \<times> world \<Rightarrow> (val_t \<times> lexer \<times> world) outcome option" where
  "close_frame fp st = (case st of (lx, w) \<Rightarrow>
     do { head \<leftarrow> w_vars w fp; Some (Returns (head, lx, gc_pop 4 w)) })"

definition with_lexer :: "lexer \<Rightarrow> (val_t \<times> world) outcome option \<Rightarrow> (val_t \<times> lexer \<times> world) outcome option" where
  "with_lexer lx m = and_then m (\<lambda>(v, w). Some (Returns (v, lx, w)))"

fun read_datum :: "(nat \<Rightarrow> store \<Rightarrow> nat \<Rightarrow> val_t) \<Rightarrow> nat \<Rightarrow> u64 \<Rightarrow> lexer \<times> world \<Rightarrow> (val_t \<times> lexer \<times> world) outcome option"
and list_loop :: "(nat \<Rightarrow> store \<Rightarrow> nat \<Rightarrow> val_t) \<Rightarrow> nat \<Rightarrow> u64 \<Rightarrow> lexer \<times> world \<Rightarrow> (lexer \<times> world) outcome option"
and read_list :: "(nat \<Rightarrow> store \<Rightarrow> nat \<Rightarrow> val_t) \<Rightarrow> nat \<Rightarrow> u64 \<Rightarrow> lexer \<times> world \<Rightarrow> (val_t \<times> lexer \<times> world) outcome option" where
  "read_datum malloc 0 fp st = None"
| "read_datum malloc (Suc n) fp (lx, w) =
    and_then (Some (lex_next lx)) (\<lambda>(t, lx1).
    case tk_kind t of
      TOK_NUM \<Rightarrow> Some (Returns (MAKE_FIX (ucast (tk_nval t)), lx1, w))
    | TOK_STR \<Rightarrow> do { s \<leftarrow> tk_sval t; with_lexer lx1 (gc_string malloc (Buf (bytes s)) (tk_slen t) w) }
    | TOK_SYM \<Rightarrow> do { s \<leftarrow> tk_sval t; with_lexer lx1 (gc_symbol malloc (bytes s) w) }
    | TOK_TRUE \<Rightarrow> Some (Returns (VAL_TRUE, lx1, w))
    | TOK_FALSE \<Rightarrow> Some (Returns (VAL_FALSE, lx1, w))
    | TOK_LPAREN \<Rightarrow> read_list malloc n fp (lx1, w)
    | TOK_QUOTE \<Rightarrow>
        and_then (gc_push (Var fp) (set_var fp VAL_NIL w)) (\<lambda>w1.
        and_then (read_datum malloc n (fp + 16) (lx1, w1)) (\<lambda>(quoted, lx2, w2).
        and_then (gc_cons malloc quoted VAL_NIL w2) (\<lambda>(v, w3).
        and_then (gc_symbol malloc (bytes (''quote'' @ [NUL])) (set_var fp v w3)) (\<lambda>(sym, w4). do {
          v' \<leftarrow> w_vars w4 fp;
          and_then (gc_cons malloc sym v' w4) (\<lambda>(v'', w5).
            Some (Returns (v'', lx2, gc_pop 1 (set_var fp v'' w5)))) }))))
    | TOK_RPAREN \<Rightarrow> Some Exits
    | TOK_DOT \<Rightarrow> Some Exits
    | TOK_EOF \<Rightarrow> Some Exits)"
| "list_loop malloc 0 fp st = None"
| "list_loop malloc (Suc n) fp (lx, w) =
    and_then (Some (lex_peek lx)) (\<lambda>(t, lx1).
    if tk_kind t = TOK_EOF then Some Exits
    else if tk_kind t = TOK_RPAREN then and_then (Some (lex_next lx1)) (\<lambda>(t', lx2). Some (Returns (lx2, w)))
    else if tk_kind t = TOK_DOT then
      and_then (Some (lex_next lx1)) (\<lambda>(t', lx2). do {
        head \<leftarrow> w_vars w fp;
        if IS_NIL head then Some Exits
        else and_then (read_datum malloc n (fp + 32) (lx2, w)) (\<lambda>(elem, lx3, w1).
          let w2 = set_var (fp + 16) elem w1 in
          and_then (Some (lex_next lx3)) (\<lambda>(t'', lx4).
          if tk_kind t'' \<noteq> TOK_RPAREN then Some Exits
          else do {
            tail \<leftarrow> w_vars w2 (fp + 8);
            w3 \<leftarrow> gc_set_cdr tail elem w2;
            Some (Returns (lx4, w3)) })) })
    else
      and_then (read_datum malloc n (fp + 32) (lx1, w)) (\<lambda>(elem, lx2, w1).
      and_then (append_cell malloc fp elem w1) (\<lambda>w2. list_loop malloc n fp (lx2, w2))))"
| "read_list malloc 0 fp st = None"
| "read_list malloc (Suc n) fp (lx, w) =
    and_then (open_frame fp w) (\<lambda>w1. and_then (list_loop malloc n fp (lx, w1)) (close_frame fp))"

definition scm_read :: "(nat \<Rightarrow> store \<Rightarrow> nat \<Rightarrow> val_t) \<Rightarrow> nat \<Rightarrow> u64 \<Rightarrow> lexer \<times> world \<Rightarrow> (val_t \<times> lexer \<times> world) outcome option" where
  "scm_read malloc n fp st = (case st of (lx, w) \<Rightarrow>
    and_then (Some (lex_peek lx)) (\<lambda>(t, lx1).
      if tk_kind t = TOK_EOF then Some (Returns (VAL_NIL, lx1, w)) else read_datum malloc n fp (lx1, w)))"

fun read_all_loop :: "(nat \<Rightarrow> store \<Rightarrow> nat \<Rightarrow> val_t) \<Rightarrow> nat \<Rightarrow> u64 \<Rightarrow> lexer \<times> world \<Rightarrow> (lexer \<times> world) outcome option" where
  "read_all_loop malloc 0 fp st = None"
| "read_all_loop malloc (Suc n) fp (lx, w) =
    and_then (Some (lex_peek lx)) (\<lambda>(t, lx1).
    if tk_kind t = TOK_EOF then Some (Returns (lx1, w))
    else
      and_then (read_datum malloc n (fp + 32) (lx1, w)) (\<lambda>(form, lx2, w1).
      and_then (append_cell malloc fp form w1) (\<lambda>w2. read_all_loop malloc n fp (lx2, w2))))"

definition scm_read_all :: "(nat \<Rightarrow> store \<Rightarrow> nat \<Rightarrow> val_t) \<Rightarrow> nat \<Rightarrow> u64 \<Rightarrow> lexer \<times> world \<Rightarrow> (val_t \<times> lexer \<times> world) outcome option" where
  "scm_read_all malloc n fp st = (case st of (lx, w) \<Rightarrow>
    and_then (open_frame fp w) (\<lambda>w1. and_then (read_all_loop malloc n fp (lx, w1)) (close_frame fp)))"

section \<open>The printer\<close>

text \<open>What \<open>%s\<close> writes of the bytes of an object: up to their terminator.\<close>

definition cstr :: "u8 list \<Rightarrow> string option" where
  "cstr dat = do { n \<leftarrow> strlen dat; Some (map (\<lambda>b. char_of (unat b)) (take n dat)) }"

fun scm_print :: "nat \<Rightarrow> store \<Rightarrow> val_t \<Rightarrow> string option"
and print_rest :: "nat \<Rightarrow> store \<Rightarrow> val_t \<Rightarrow> string option" where
  "scm_print 0 s v = None"
| "scm_print (Suc n) s v =
    (if IS_NIL v then Some ''()''
     else if v = VAL_TRUE then Some ''#t''
     else if v = VAL_FALSE then Some ''#f''
     else if IS_FIX v then Some (pr_int (sint (GET_FIX v)))
     else if \<not> IS_PTR v then Some ''#<unknown>''
     else do {
       ob \<leftarrow> s v;
       case ob_body ob of
         OBJ_SYMBOL len dat \<Rightarrow> cstr dat
       | OBJ_STRING len dat \<Rightarrow> do { t \<leftarrow> cstr dat; Some ([DQUOTE] @ t @ [DQUOTE]) }
       | OBJ_PAIR car cdr \<Rightarrow> do {
           t \<leftarrow> scm_print n s car;
           r \<leftarrow> print_rest n s cdr;
           Some (''('' @ t @ r @ '')'') }
       | OBJ_CLOSURE func_id nfree free \<Rightarrow> Some ''#<closure>'' })"
| "print_rest 0 s rest = None"
| "print_rest (Suc n) s rest = do {
     pair \<leftarrow> (if IS_PTR rest then map_option (\<lambda>ob. case ob_body ob of OBJ_PAIR car cdr \<Rightarrow> Some (car, cdr) | _ \<Rightarrow> None) (s rest)
             else Some None);
     case pair of
       Some (car, cdr) \<Rightarrow> do {
         t \<leftarrow> scm_print n s car;
         r \<leftarrow> print_rest n s cdr;
         Some ('' '' @ t @ r) }
     | None \<Rightarrow>
         if IS_NIL rest then Some ''''
         else do { t \<leftarrow> scm_print n s rest; Some ('' . '' @ t) } }"

definition scm_println :: "nat \<Rightarrow> store \<Rightarrow> val_t \<Rightarrow> string option" where
  "scm_println n s v = do { t \<leftarrow> scm_print n s v; Some (t @ [NLC]) }"

end
