(* ===== verification/Pc_Heap.thy ===== *)
theory Pc_Heap
  imports Pc_Mutator
begin

text \<open>
  The properties of the collector, over the lemmas of \<open>Pc_Collect\<close> and \<open>Pc_Mutator\<close>: what a collection
  keeps and frees, what a constructor keeps, that a disciplined client never follows a dangling
  pointer, that \<open>gc_destroy\<close> frees everything, and what fixnums survive tagging.
\<close>

section \<open>Concrete instances\<close>

text \<open>An allocator with three blocks, and a heap with a pair in use and a string nobody refers to.\<close>

definition three_blocks :: "nat \<Rightarrow> store \<Rightarrow> nat \<Rightarrow> val_t" where
  "three_blocks n s sz = (if s 64 = None then 64 else if s 128 = None then 128 else if s 192 = None then 192 else 0)"

definition small_heap :: gc_heap where
  "small_heap = \<lparr>h_all = 128, h_count = 2, h_threshold = 64, h_roots = (\<lambda>_. Var 8), h_nroots = 1\<rparr>"

definition small_world :: world where
  "small_world = \<lparr>w_heap = small_heap,
     w_cells = [64 \<mapsto> \<lparr>ob_body = OBJ_PAIR 5 64, ob_mark = 0, ob_next = 0\<rparr>,
                128 \<mapsto> \<lparr>ob_body = OBJ_STRING 1 [65, 0], ob_mark = 0, ob_next = 64\<rparr>],
     w_vars = [8 \<mapsto> 64], w_calls = 2\<rparr>"

lemma three_blocks_ok: "malloc_ok three_blocks"
  by (simp add: malloc_ok_def three_blocks_def)

lemma IS_PTR_simps [simp]: "IS_PTR 64" "IS_PTR 128" "\<not> IS_PTR 5" "\<not> IS_PTR 0"
  by (simp_all add: IS_PTR_def TAG_MASK_def TAG_OBJ_def VAL_NIL_def)

lemma small_roots: "root_vals small_world = [Some 64]" "roots_of small_world = {64}"
  by (simp_all add: root_vals_def roots_of_def small_world_def small_heap_def read_root_def)

lemma small_dom: "dom (w_cells small_world) = {64, 128}"
  by (auto simp: small_world_def)

lemma small_closed: "closed (w_cells small_world)"
  unfolding closed_def body_ok_def valid_def small_dom
  by (auto simp: small_world_def kids_def split: if_splits)

lemma small_ok: "gc_ok small_world"
proof -
  have "seg (w_cells small_world) 128 [128, 64] 0" by (simp add: small_world_def)
  moreover have "marked (w_cells small_world) = {}" by (auto simp: marked_def small_world_def)
  moreover have "h_all (w_heap small_world) = 128" "h_count (w_heap small_world) = 2" "h_nroots (w_heap small_world) = 1"
    by (simp_all add: small_world_def small_heap_def)
  ultimately show ?thesis
    unfolding gc_ok_def objects_ok_def roots_ok_def small_roots small_dom
    by (auto simp: small_closed small_dom valid_def GC_ROOTS_MAX_def intro!: exI [of _ "[128, 64]"])
qed

lemma small_live: "live small_world = {64}"
proof
  show "live small_world \<subseteq> {64}"
    unfolding live_def small_roots
    by (rule closed_reach) (auto simp: edges_def bodies_def small_world_def kids_def)
  show "{64} \<subseteq> live small_world" by (auto simp: live_def small_roots reach_def)
qed

section \<open>Collection\<close>

lemma threshold_bounds:
  assumes "n < 2 ^ 30"
  shows "64 \<le> sint (new_threshold t (of_nat n))" "2 * int n \<le> sint (new_threshold t (of_nat n))"
proof -
  have "of_nat n * 2 = (word_of_int (2 * int n) :: u32)" by simp
  moreover have "sint (word_of_int (2 * int n) :: u32) = 2 * int n"
    unfolding sint_sbintrunc' using assms by (intro signed_take_bit_int_eq_self) simp_all
  ultimately have "sint (of_nat n * 2 :: u32) = 2 * int n" by metis
  then show "64 \<le> sint (new_threshold t (of_nat n))" "2 * int n \<le> sint (new_threshold t (of_nat n))"
    by (simp_all add: new_threshold_def Let_def)
qed

text \<open>
  C10. A collection returns, frees exactly the objects that no root leads to and leaves the others as they
  were, on a list of their number; and the next one is due only after at least as many allocations as
  there are objects left, and no sooner than at 64 objects.
\<close>

theorem gc_collects_garbage:
  assumes "gc_ok w"
  shows "\<exists>w'. gc_collect w = Some w' \<and> gc_ok w' \<and> dom (w_cells w') = live w \<and>
    (\<forall>p\<in>live w. bodies (w_cells w') p = bodies (w_cells w) p) \<and>
    h_count (w_heap w') = of_nat (card (live w)) \<and>
    64 \<le> sint (h_threshold (w_heap w')) \<and> 2 * int (card (live w)) \<le> sint (h_threshold (w_heap w'))"
proof -
  obtain w' where w': "gc_collect w = Some w'" "gc_ok w'" "collected w w'"
    "h_threshold (w_heap w') = new_threshold (h_threshold (w_heap w)) (h_count (w_heap w'))"
    using gc_collect_total [OF assms] by blast
  obtain xs where xs: "distinct xs" "set xs = live w" "h_count (w_heap w') = of_nat (length xs)" "length xs < 2 ^ 30"
    using w'(2,3) by (auto simp: gc_ok_def objects_ok_def collected_def)
  then have "length xs = card (live w)" by (metis distinct_card)
  with xs w' threshold_bounds [of "length xs"] show ?thesis by (auto simp: collected_def)
qed

theorem gc_collects_garbage_witness:
  "\<exists>w'. gc_collect small_world = Some w' \<and> dom (w_cells w') = {64} \<and> h_count (w_heap w') = 1 \<and>
     bodies (w_cells w') 64 = Some (OBJ_PAIR 5 64)"
  using gc_collects_garbage [OF small_ok] unfolding small_live
  by (auto simp: bodies_def small_world_def)

section \<open>Constructors\<close>

text \<open>
  C22. \<open>gc_cons\<close> protects its arguments: it ends the program, or returns a pair of the two values that was
  not in use before, with every object that a root, the car or the cdr leads to as it was, whether or
  not it collected; the roots are those before the call.
\<close>

theorem cons_protects:
  assumes "malloc_ok malloc" "gc_ok w" "roomy w"
    "IS_PTR car \<longrightarrow> car \<in> dom (w_cells w)" "IS_PTR cdr \<longrightarrow> cdr \<in> dom (w_cells w)"
  shows "gc_cons malloc car cdr w = Some Exits \<or>
    (\<exists>p w'. gc_cons malloc car cdr w = Some (Returns (p, w')) \<and> gc_ok w' \<and> p \<notin> held {car, cdr} w \<and>
       gc_car p w' = Some car \<and> gc_cdr p w' = Some cdr \<and>
       (\<forall>q\<in>held {car, cdr} w. bodies (w_cells w') q = bodies (w_cells w) q) \<and>
       root_vals w' = root_vals w)"
proof -
  have "gc_car p w' = Some car \<and> gc_cdr p w' = Some cdr \<and> root_vals w' = root_vals w"
    if "builds {car, cdr} p (OBJ_PAIR car cdr) w w'" for p w'
    using that same_rootsD [of w w'] by (auto simp: builds_def gc_car_def gc_cdr_def pair_at_def bodies_def)
  with gc_cons_ok [OF assms(1,2) _ _ assms(3), of car cdr] assms(4,5) show ?thesis
    unfolding ends_def valid_def by (fastforce simp: builds_def)
qed

lemma small_roomy: "roomy small_world"
  by (simp add: roomy_def small_dom)

theorem cons_protects_witness:
  "\<exists>p w'. gc_cons three_blocks 64 128 small_world = Some (Returns (p, w')) \<and> gc_ok w' \<and>
     gc_car p w' = Some 64 \<and> gc_cdr p w' = Some 128"
proof -
  have "gc_cons three_blocks 64 128 small_world \<noteq> Some Exits"
    by (simp add: gc_cons_def gc_push_def gc_alloc_def call_malloc_def link_new_def set_body_def three_blocks_def
      small_world_def small_heap_def GC_ROOTS_MAX_def)
  then show ?thesis
    using cons_protects [OF three_blocks_ok small_ok small_roomy, of 64 128] small_dom by auto
qed

section \<open>Clients\<close>

text \<open>A client starts on an initialised heap without objects and variables.\<close>

definition fresh_world :: "gc_heap \<Rightarrow> world" where
  "fresh_world h = \<lparr>w_heap = gc_init h, w_cells = Map.empty, w_vars = Map.empty, w_calls = 0\<rparr>"

inductive client_run :: "(nat \<Rightarrow> store \<Rightarrow> nat \<Rightarrow> val_t) \<Rightarrow> u64 set \<Rightarrow> world \<Rightarrow> bool" for malloc where
  start: "client_run malloc {} (fresh_world h)"
| step: "client_run malloc U w \<Longrightarrow> sensible U a w \<Longrightarrow> do_action malloc a w = Some (Returns w') \<Longrightarrow>
    client_run malloc (readable U a w) w'"

lemma fresh_ok: "client_ok {} (fresh_world h)"
  by (auto simp: client_ok_def gc_ok_def objects_ok_def roots_ok_def fresh_world_def gc_init_def closed_def marked_def
    root_vals_def roots_of_def GC_ROOTS_MAX_def intro!: exI [of _ "[]"])

lemma client_run_ok:
  assumes "malloc_ok malloc" "client_run malloc U w"
  shows "client_ok U w"
  using assms(2)
proof (induction rule: client_run.induct)
  case (start h)
  show ?case by (rule fresh_ok)
next
  case (step U w a w')
  from action_ok [OF assms(1) step.IH step.hyps(2)] step.hyps(3) show ?case by simp
qed

text \<open>
  C18. No dangling pointers. At every point of a client's run, whatever it allocates, changes and
  collects, a variable that is registered as a root, or was assigned since the last allocation, holds no
  pointer to an object that is gone; so the client's next operation on such variables touches no freed
  memory and returns.
\<close>

theorem no_dangling:
  assumes "malloc_ok malloc" "client_run malloc U w"
  shows "gc_ok w \<and> (\<forall>x\<in>U. \<exists>v. w_vars w x = Some v \<and> (IS_PTR v \<longrightarrow> v \<in> dom (w_cells w))) \<and>
    (\<forall>a. sensible U a w \<longrightarrow> do_action malloc a w \<noteq> None)"
proof -
  have c: "client_ok U w" by (rule client_run_ok [OF assms])
  have "do_action malloc a w \<noteq> None" if "sensible U a w" for a
    using action_ok [OF assms(1) c that] by (auto simp: ends_def)
  with c show ?thesis by (simp add: client_ok_def valid_def)
qed

text \<open>A client's first steps: it registers a variable and stores a pair there.\<close>

definition first_heap :: gc_heap where
  "first_heap = \<lparr>h_all = 0, h_count = 0, h_threshold = 64, h_roots = (\<lambda>_. Var 0), h_nroots = 0\<rparr>"

definition paired_world :: world where
  "paired_world = \<lparr>w_heap = \<lparr>h_all = 64, h_count = 1, h_threshold = 64,
       h_roots = (((\<lambda>_. Var 0)(0 := Var 8))(1 := Arg 5))(2 := Arg 5), h_nroots = 1\<rparr>,
     w_cells = [64 \<mapsto> \<lparr>ob_body = OBJ_PAIR 5 5, ob_mark = 0, ob_next = 0\<rparr>], w_vars = [8 \<mapsto> 64], w_calls = 1\<rparr>"

lemma paired_run: "client_run three_blocks {8} paired_world"
proof -
  let ?w0 = "fresh_world first_heap"
  let ?w1 = "set_var 8 5 ?w0"
  have s1: "client_run three_blocks {8} ?w1"
    using client_run.step [OF client_run.start [of three_blocks first_heap], of "Assign 8 5" ?w1] by simp
  let ?w2 = "?w1\<lparr>w_heap := (w_heap ?w1)\<lparr>h_roots := (h_roots (w_heap ?w1))(0 := Var 8), h_nroots := 1\<rparr>\<rparr>"
  have p: "gc_push (Var 8) ?w1 = Some (Returns ?w2)"
    by (simp add: gc_push_def set_var_def fresh_world_def gc_init_def first_heap_def GC_ROOTS_MAX_def)
  have s2: "client_run three_blocks {8} ?w2"
    using client_run.step [OF s1, of "Push 8" ?w2] p by simp
  have r: "rooted ?w2 = {8}" "roomy ?w2" "w_vars ?w2 8 = Some 5"
    by (auto simp: rooted_def roomy_def set_var_def fresh_world_def gc_init_def first_heap_def intro: exI [of _ 0])
  have c: "do_action three_blocks (Pair 8 8 8) ?w2 = Some (Returns paired_world)"
    by (simp add: store_result_def gc_cons_def gc_push_def gc_alloc_def call_malloc_def link_new_def set_body_def
      three_blocks_def set_var_def fresh_world_def gc_init_def first_heap_def GC_ROOTS_MAX_def gc_pop_def paired_world_def)
  show ?thesis using client_run.step [OF s2 _ c] r by simp
qed

theorem no_dangling_witness:
  "gc_ok paired_world \<and> do_action three_blocks Collect paired_world \<noteq> None \<and>
   do_action three_blocks (Cdr 16 8) paired_world \<noteq> None"
proof -
  have "sensible {8} (Cdr 16 8) paired_world" by (simp add: holds_pair_def paired_world_def)
  moreover have "sensible {8} Collect paired_world" by simp
  ultimately show ?thesis using no_dangling [OF three_blocks_ok paired_run] by blast
qed

section \<open>The end of a heap\<close>

lemma free_all_total:
  assumes "seg s p xs 0" "distinct xs"
  shows "free_all p s = Some (\<lambda>q. if q \<in> set xs then None else s q)"
  using assms
proof (induction xs arbitrary: p s)
  case Nil
  then show ?case by (subst free_all.simps) simp
next
  case (Cons x xs)
  then obtain ob where x: "p = x" "x \<noteq> 0" "s x = Some ob" "seg s (ob_next ob) xs 0" by auto
  have "seg (s(x := None)) (ob_next ob) xs 0" using x(4) Cons.prems(2) by (simp add: seg_upd)
  with Cons have "free_all (ob_next ob) (s(x := None)) = Some (\<lambda>q. if q \<in> set xs then None else (s(x := None)) q)" by simp
  moreover have "(\<lambda>q. if q \<in> set xs then None else (s(x := None)) q) = (\<lambda>q. if q \<in> set (x # xs) then None else s q)"
    by (auto simp: fun_eq_iff)
  ultimately show ?case using x by (subst free_all.simps) (simp del: fun_upd_apply)
qed

lemma gc_destroy_frees:
  assumes "gc_ok w"
  obtains w' where "gc_destroy w = Some w'" "w_cells w' = Map.empty" "h_all (w_heap w') = 0" "h_count (w_heap w') = 0" "gc_ok w'"
proof -
  obtain xs where xs: "seg (w_cells w) (h_all (w_heap w)) xs 0" "distinct xs" "set xs = dom (w_cells w)"
    using assms by (auto simp: gc_ok_def objects_ok_def)
  have "(\<lambda>q. if q \<in> set xs then None else w_cells w q) = Map.empty" using xs(3) by (auto simp: fun_eq_iff)
  then have f: "free_all (h_all (w_heap w)) (w_cells w) = Some Map.empty" using free_all_total [OF xs(1,2)] by simp
  let ?w = "w\<lparr>w_cells := Map.empty, w_heap := (w_heap w)\<lparr>h_all := 0, h_count := 0, h_nroots := 0\<rparr>\<rparr>"
  have "gc_ok ?w"
    by (auto simp: gc_ok_def objects_ok_def roots_ok_def closed_def marked_def root_vals_def roots_of_def GC_ROOTS_MAX_def
      intro!: exI [of _ "[]"])
  then show ?thesis using that [of ?w] f by (simp add: gc_destroy_def)
qed

section \<open>Fixnums\<close>

lemma fix_tag: "IS_FIX (MAKE_FIX n)" "\<not> IS_PTR (MAKE_FIX n)" "\<not> IS_IMM (MAKE_FIX n)"
proof -
  have "MAKE_FIX n AND TAG_MASK = TAG_FIX"
  proof (rule bit_word_eqI)
    fix i assume "i < LENGTH(64)"
    have "bit (3 :: u64) i \<longleftrightarrow> i < 2" by (cases "i < 2") (auto simp: less_2_cases_iff bit_numeral_rec bit_1_iff split: nat.splits)
    then show "bit (MAKE_FIX n AND TAG_MASK) i = bit TAG_FIX i"
      by (auto simp: MAKE_FIX_def TAG_MASK_def TAG_FIX_def bit_simps)
  qed
  then show "IS_FIX (MAKE_FIX n)" "\<not> IS_PTR (MAKE_FIX n)" "\<not> IS_IMM (MAKE_FIX n)"
    by (simp_all add: IS_FIX_def IS_PTR_def IS_IMM_def TAG_FIX_def TAG_OBJ_def TAG_IMM_def)
qed

lemma fix_roundtrip: "GET_FIX (MAKE_FIX n) = n"
proof (rule bit_word_eqI)
  fix i assume i: "i < LENGTH(32)"
  show "bit (GET_FIX (MAKE_FIX n)) i = bit n i"
    using i by (cases "i = 31") (auto simp: GET_FIX_def MAKE_FIX_def TAG_FIX_def bit_simps min_def)
qed

end
