(* ===== verification/Pc_Read.thy ===== *)
theory Pc_Read
  imports Pc_Reader Pc_Heap
begin

text \<open>
  What the reader promises: on a source whose tokens spell a datum it builds that datum in the heap, as
  long as no collection is due. The tokens a lexer will deliver, the grammar of data over tokens and
  the data a value stands for are specified here; the operations of \<open>Pc_Reader\<close> are shown to implement
  the grammar.
\<close>

section \<open>Tokens to come\<close>

datatype tok =
    T_LPAREN | T_RPAREN | T_DOT | T_QUOTE | T_NUM u64 | T_STR string | T_SYM string | T_TRUE | T_FALSE

fun is_tok :: "tok \<Rightarrow> token \<Rightarrow> bool" where
  "is_tok T_LPAREN t \<longleftrightarrow> tk_kind t = TOK_LPAREN"
| "is_tok T_RPAREN t \<longleftrightarrow> tk_kind t = TOK_RPAREN"
| "is_tok T_DOT t \<longleftrightarrow> tk_kind t = TOK_DOT"
| "is_tok T_QUOTE t \<longleftrightarrow> tk_kind t = TOK_QUOTE"
| "is_tok (T_NUM n) t \<longleftrightarrow> tk_kind t = TOK_NUM \<and> tk_nval t = n"
| "is_tok (T_STR s) t \<longleftrightarrow> tk_kind t = TOK_STR \<and> tk_sval t = Some (s @ [NUL]) \<and> tk_slen t = length s"
| "is_tok (T_SYM s) t \<longleftrightarrow> tk_kind t = TOK_SYM \<and> tk_sval t = Some (s @ [NUL]) \<and> NUL \<notin> set s"
| "is_tok T_TRUE t \<longleftrightarrow> tk_kind t = TOK_TRUE"
| "is_tok T_FALSE t \<longleftrightarrow> tk_kind t = TOK_FALSE"

primrec feeds :: "tok list \<Rightarrow> lexer \<Rightarrow> bool" where
  "feeds [] lx \<longleftrightarrow> (\<exists>t lx'. lex_next lx = Returns (t, lx') \<and> tk_kind t = TOK_EOF)"
| "feeds (k # ks) lx \<longleftrightarrow> (\<exists>t lx'. lex_next lx = Returns (t, lx') \<and> is_tok k t \<and> feeds ks lx')"

lemma lex_parts_tok:
  "lex_hash (lx\<lparr>lx_tok := u\<rparr>) = map_outcome (\<lambda>(t, l). (t, l\<lparr>lx_tok := u\<rparr>)) (lex_hash lx)"
  "lex_string (lx\<lparr>lx_tok := u\<rparr>) = map_outcome (\<lambda>(t, l). (t, l\<lparr>lx_tok := u\<rparr>)) (lex_string lx)"
  "lex_number (lx\<lparr>lx_tok := u\<rparr>) = map_outcome (\<lambda>(t, l). (t, l\<lparr>lx_tok := u\<rparr>)) (lex_number lx)"
  "lex_symbol (lx\<lparr>lx_tok := u\<rparr>) = map_outcome (\<lambda>(t, l). (t, l\<lparr>lx_tok := u\<rparr>)) (lex_symbol lx)"
  "make_token k (lx\<lparr>lx_tok := u\<rparr>) = make_token k lx"
  by (simp_all add: lex_hash_def lex_string_def lex_number_def lex_symbol_def make_token_def Let_def
    split: prod.split outcome.split)

lemma lex_one_tok:
  "lex_one (lx\<lparr>lx_tok := u\<rparr>) = map_outcome (\<lambda>(t, l). (t, l\<lparr>lx_tok := u\<rparr>)) (lex_one lx)"
proof -
  obtain p line where s: "skip_ws (lx_p lx) (lx_line lx) = (p, line)" by fastforce
  have e: "lx\<lparr>lx_tok := u, lx_p := p, lx_line := line\<rparr> = (lx\<lparr>lx_p := p, lx_line := line\<rparr>)\<lparr>lx_tok := u\<rparr>" by simp
  show ?thesis unfolding lex_one_def Let_def
    by (auto simp: s e lex_parts_tok)
qed

lemma lex_one_peeked: "lex_one lx = Returns (t, lx') \<Longrightarrow> lx_peeked lx' = lx_peeked lx"
  by (auto simp: lex_one_def lex_hash_def lex_string_def lex_number_def lex_symbol_def Let_def
    split: prod.splits outcome.splits if_splits)

lemma feeds_tok:
  assumes "\<not> lx_peeked lx" "feeds ks lx"
  shows "feeds ks (lx\<lparr>lx_tok := u\<rparr>)"
  using assms
proof (induction ks arbitrary: lx)
  case Nil
  then show ?case by (auto simp: lex_next_def lex_one_tok)
next
  case (Cons k ks)
  then obtain t lx' where t: "lex_one lx = Returns (t, lx')" "is_tok k t" "feeds ks lx'"
    by (auto simp: lex_next_def)
  have "feeds ks (lx'\<lparr>lx_tok := u\<rparr>)" using Cons.IH [of lx'] Cons.prems(1) t lex_one_peeked [OF t(1)] by simp
  then show ?case using Cons.prems(1) t by (auto simp: lex_next_def lex_one_tok)
qed

lemma peek_feeds:
  assumes "feeds (k # ks) lx"
  obtains t lx' where "lex_peek lx = Returns (t, lx')" "is_tok k t" "feeds (k # ks) lx'"
proof (cases "lx_peeked lx")
  case True
  then show ?thesis using assms that [of "lx_tok lx" lx] by (auto simp: lex_next_def lex_peek_def)
next
  case False
  then obtain t lx' where t: "lex_one lx = Returns (t, lx')" "is_tok k t" "feeds ks lx'"
    using assms by (auto simp: lex_next_def)
  have e: "lx'\<lparr>lx_tok := t, lx_peeked := False\<rparr> = lx'\<lparr>lx_tok := t\<rparr>"
    using lex_one_peeked [OF t(1)] False by (cases lx') simp
  have "feeds ks (lx'\<lparr>lx_tok := t\<rparr>)" using feeds_tok t lex_one_peeked [OF t(1)] False by simp
  then show ?thesis
    using False t e that [of t "lx'\<lparr>lx_tok := t, lx_peeked := True\<rparr>"] by (simp add: lex_next_def lex_peek_def)
qed

lemma peek_end:
  assumes "feeds [] lx"
  obtains t lx' where "lex_peek lx = Returns (t, lx')" "tk_kind t = TOK_EOF"
  using assms that by (cases "lx_peeked lx") (auto simp: lex_next_def lex_peek_def)

section \<open>Data\<close>

datatype datum =
    D_num u32 | D_str string | D_sym string | D_bool bool | D_nil | D_pair datum datum

text \<open>The number of objects a datum takes, and the datum a value stands for in a heap.\<close>

primrec objs :: "datum \<Rightarrow> nat" where
  "objs (D_num n) = 0"
| "objs (D_str s) = 1"
| "objs (D_sym s) = 1"
| "objs (D_bool b) = 0"
| "objs D_nil = 0"
| "objs (D_pair a d) = 1 + objs a + objs d"

primrec repr :: "datum \<Rightarrow> (val_t \<Rightarrow> gc_body option) \<Rightarrow> val_t \<Rightarrow> bool" where
  "repr (D_num n) g v \<longleftrightarrow> v = MAKE_FIX n"
| "repr (D_str s) g v \<longleftrightarrow> IS_PTR v \<and> g v = Some (OBJ_STRING (length s) (bytes (s @ [NUL])))"
| "repr (D_sym s) g v \<longleftrightarrow> IS_PTR v \<and> g v = Some (OBJ_SYMBOL (length s) (bytes (s @ [NUL])))"
| "repr (D_bool b) g v \<longleftrightarrow> v = (if b then VAL_TRUE else VAL_FALSE)"
| "repr D_nil g v \<longleftrightarrow> v = VAL_NIL"
| "repr (D_pair a d) g v \<longleftrightarrow> IS_PTR v \<and> (\<exists>x y. g v = Some (OBJ_PAIR x y) \<and> repr a g x \<and> repr d g y)"

lemma repr_mono: "repr d g v \<Longrightarrow> g \<subseteq>\<^sub>m g' \<Longrightarrow> repr d g' v"
  by (induction d arbitrary: v) (auto simp: map_le_def dom_def; metis)+

text \<open>
  The grammar, over tokens: \<open>reads k ts d r\<close> says that \<open>ts\<close> begins with the tokens of \<open>d\<close>, nested at most \<open>k\<close>
  deep, and \<open>r\<close> is what follows.
\<close>

inductive reads :: "nat \<Rightarrow> tok list \<Rightarrow> datum \<Rightarrow> tok list \<Rightarrow> bool"
and reads_list :: "nat \<Rightarrow> tok list \<Rightarrow> datum \<Rightarrow> tok list \<Rightarrow> bool"
and reads_tail :: "nat \<Rightarrow> tok list \<Rightarrow> datum \<Rightarrow> tok list \<Rightarrow> bool" where
  num: "reads k (T_NUM n # r) (D_num (ucast n)) r"
| str: "reads k (T_STR s # r) (D_str s) r"
| sym: "reads k (T_SYM s # r) (D_sym s) r"
| true: "reads k (T_TRUE # r) (D_bool True) r"
| false: "reads k (T_FALSE # r) (D_bool False) r"
| quote: "reads k ts d r \<Longrightarrow> reads (Suc k) (T_QUOTE # ts) (D_pair (D_sym ''quote'') (D_pair d D_nil)) r"
| list: "reads_list k ts d r \<Longrightarrow> reads (Suc k) (T_LPAREN # ts) d r"
| empty: "reads_list k (T_RPAREN # r) D_nil r"
| first: "reads k ts a ts' \<Longrightarrow> reads_tail k ts' d r \<Longrightarrow> reads_list k ts (D_pair a d) r"
| close: "reads_tail k (T_RPAREN # r) D_nil r"
| dotted: "reads k ts d (T_RPAREN # r) \<Longrightarrow> reads_tail k (T_DOT # ts) d r"
| more: "reads k ts a ts' \<Longrightarrow> reads_tail k ts' d r \<Longrightarrow> reads_tail k ts (D_pair a d) r"

lemma reads_starts:
  assumes "reads k ts d r"
  shows "\<exists>x xs. ts = x # xs \<and> x \<noteq> T_RPAREN \<and> x \<noteq> T_DOT"
  using assms by cases auto

section \<open>Allocation when no collection is due\<close>

text \<open>\<open>malloc\<close> finds memory while fewer than \<open>K\<close> objects are in use.\<close>

definition serves :: "(nat \<Rightarrow> store \<Rightarrow> nat \<Rightarrow> val_t) \<Rightarrow> nat \<Rightarrow> bool" where
  "serves malloc K \<longleftrightarrow> (\<forall>n s sz. finite (dom s) \<longrightarrow> card (dom s) < K \<longrightarrow> malloc n s sz \<noteq> 0)"

definition spare :: "nat \<Rightarrow> world \<Rightarrow> nat \<Rightarrow> bool" where
  "spare K w n \<longleftrightarrow> card (dom (w_cells w)) + n \<le> K \<and> int (card (dom (w_cells w)) + n) \<le> sint (h_threshold (w_heap w)) \<and>
     card (dom (w_cells w)) + n < 2 ^ 30"

definition still :: "world \<Rightarrow> world \<Rightarrow> bool" where
  "still w w' \<longleftrightarrow> h_nroots (w_heap w') = h_nroots (w_heap w) \<and> h_threshold (w_heap w') = h_threshold (w_heap w) \<and>
     (\<forall>i<h_nroots (w_heap w). h_roots (w_heap w') i = h_roots (w_heap w) i)"

definition adds :: "val_t \<Rightarrow> gc_body \<Rightarrow> world \<Rightarrow> world \<Rightarrow> bool" where
  "adds p body w w' \<longleftrightarrow> objects_ok w' \<and> w_cells w p = None \<and> IS_PTR p \<and>
     bodies (w_cells w') = (bodies (w_cells w))(p \<mapsto> body) \<and> w_vars w' = w_vars w \<and> still w w'"

lemma sint_small: "n < 2 ^ 30 \<Longrightarrow> sint (of_nat n :: u32) = int n"
  using signed_take_bit_int_eq_self [of 31 "int n"] sint_sbintrunc' [where 'a = 32, of "int n"] by simp

lemma count_card:
  assumes "objects_ok w"
  shows "sint (h_count (w_heap w)) = int (card (dom (w_cells w)))" "finite (dom (w_cells w))"
proof -
  obtain xs where "distinct xs" "set xs = dom (w_cells w)" "h_count (w_heap w) = of_nat (length xs)" "length xs < 2 ^ 30"
    using assms by (auto simp: objects_ok_def)
  then show "sint (h_count (w_heap w)) = int (card (dom (w_cells w)))" by (metis distinct_card sint_small)
  show "finite (dom (w_cells w))" using assms by (simp add: objects_ok_def closed_def)
qed

lemma dom_bodies [simp]: "dom (bodies s) = dom s"
  by (auto simp: bodies_def)

lemma alloc_adds:
  assumes m: "malloc_ok malloc" "serves malloc K" and ok: "objects_ok w" and sp: "spare K w (Suc n)"
    and b: "\<And>s. body_ok s body"
  shows "\<exists>p w'. gc_alloc malloc body sz w = Some (Returns (p, w')) \<and> adds p body w w'"
proof -
  let ?p = "malloc (w_calls w) (w_cells w) sz"
  have "\<not> sint (h_threshold (w_heap w)) \<le> sint (h_count (w_heap w))"
    using sp count_card(1) [OF ok] by (simp add: spare_def)
  moreover have p0: "?p \<noteq> 0" using m(2) sp count_card(2) [OF ok] by (simp add: serves_def spare_def)
  ultimately have a: "gc_alloc malloc body sz w = Some (Returns (link_new ?p body (w\<lparr>w_calls := w_calls w + 1\<rparr>)))"
    by (simp add: gc_alloc_def call_malloc_def)
  have p: "w_cells w ?p = None" "IS_PTR ?p"
    using m(1) p0 by (simp_all add: malloc_ok_def IS_PTR_def TAG_MASK_def TAG_OBJ_def VAL_NIL_def)
  let ?w = "w\<lparr>w_calls := w_calls w + 1\<rparr>"
  have "objects_ok ?w" "roomy ?w" using ok sp by (simp_all add: objects_ok_def spare_def roomy_def)
  then have "objects_ok (snd (link_new ?p body ?w))" using p b by (intro link_new_objects) simp_all
  then have "adds ?p body w (snd (link_new ?p body ?w))"
    using p by (auto simp: adds_def link_new_def still_def bodies_def fun_eq_iff)
  with a show ?thesis by (auto simp: link_new_def)
qed

lemma adds_facts:
  assumes "adds p body w w'" "objects_ok w"
  shows "dom (w_cells w') = insert p (dom (w_cells w))" "card (dom (w_cells w')) = Suc (card (dom (w_cells w)))"
    "bodies (w_cells w) \<subseteq>\<^sub>m bodies (w_cells w')"
proof -
  have "dom (bodies (w_cells w')) = insert p (dom (bodies (w_cells w)))" using assms(1) by (simp add: adds_def)
  then show d: "dom (w_cells w') = insert p (dom (w_cells w))" by simp
  show "card (dom (w_cells w')) = Suc (card (dom (w_cells w)))"
    unfolding d using assms count_card(2) [OF assms(2)] by (intro card_insert_disjoint) (auto simp: adds_def)
  show "bodies (w_cells w) \<subseteq>\<^sub>m bodies (w_cells w')" using assms(1) by (auto simp: adds_def map_le_def bodies_def)
qed

lemma set_adds:
  assumes a: "adds p body0 w w1" and b: "body_ok (w_cells w) body"
  obtains w2 where "set_body p body w1 = Some w2" "adds p body w w2"
proof -
  have "dom (bodies (w_cells w1)) = insert p (dom (bodies (w_cells w)))" using a by (simp add: adds_def)
  then have d: "dom (w_cells w1) = insert p (dom (w_cells w))" by simp
  then obtain ob where ob: "w_cells w1 p = Some ob" by blast
  have b1: "body_ok (w_cells w1) body" using b d by (auto simp: body_ok_def valid_def)
  have ok1: "objects_ok w1" using a by (simp add: adds_def)
  obtain w2 where "set_body p body w1 = Some w2" "objects_ok w2" "bodies (w_cells w2) = (bodies (w_cells w1))(p \<mapsto> body)"
    "w_vars w2 = w_vars w1" "w_heap w2 = w_heap w1" using set_body_objects [OF ok1 ob b1] by metis
  then show ?thesis using that [of w2] a by (simp add: adds_def still_def)
qed

lemma objects_roots [simp]:
  "objects_ok (w\<lparr>w_heap := (w_heap w)\<lparr>h_roots := r, h_nroots := k\<rparr>\<rparr>) = objects_ok w"
  "objects_ok (gc_pop k w) = objects_ok w" "objects_ok (set_var x v w) = objects_ok w"
  by (simp_all add: objects_ok_def gc_pop_def set_var_def)

lemma cons_adds:
  assumes m: "malloc_ok malloc" "serves malloc K" and ok: "objects_ok w" and sp: "spare K w (Suc n)"
    and v: "valid (w_cells w) car" "valid (w_cells w) cdr" and r: "0 \<le> h_nroots (w_heap w)" "h_nroots (w_heap w) + 2 \<le> GC_ROOTS_MAX"
  shows "\<exists>p w'. gc_cons malloc car cdr w = Some (Returns (p, w')) \<and> adds p (OBJ_PAIR car cdr) w w'"
proof -
  let ?h = "w_heap w"
  let ?w = "w\<lparr>w_heap := ?h\<lparr>h_roots := (h_roots ?h)(h_nroots ?h := Arg car, h_nroots ?h + 1 := Arg cdr), h_nroots := h_nroots ?h + 2\<rparr>\<rparr>"
  have pu: "push_all [Arg car, Arg cdr] w = Some (Returns ?w)" using r by (simp add: gc_push_def Let_def)
  have "objects_ok ?w" "spare K ?w (Suc n)" using ok sp by (simp_all add: spare_def)
  from alloc_adds [OF m this, of "OBJ_PAIR 0 0" 32]
  obtain p w1 where w1: "gc_alloc malloc (OBJ_PAIR 0 0) 32 ?w = Some (Returns (p, w1))" "adds p (OBJ_PAIR 0 0) ?w w1"
    by (auto simp: body_ok_def kids_def)
  have "body_ok (w_cells ?w) (OBJ_PAIR car cdr)" using v by (simp add: body_ok_def kids_def)
  from set_adds [OF w1(2) this] obtain w2 where w2: "set_body p (OBJ_PAIR car cdr) w1 = Some w2" "adds p (OBJ_PAIR car cdr) ?w w2" .
  have "adds p (OBJ_PAIR car cdr) w (gc_pop 2 w2)"
    using w2(2) unfolding adds_def still_def objects_roots by (auto simp: gc_pop_def)
  then show ?thesis using pu w1(1) w2(1) by (simp add: gc_cons_def del: push_all.simps)
qed

lemma bytes_nul: "bytes (s @ [NUL]) = bytes s @ [0]"
  by (simp add: bytes_def NUL_def)

lemma byte_char: "unat (of_char c :: u8) = of_char c"
proof -
  have "unat (of_nat (of_char c) :: u8) = of_char c" by (simp add: unat_of_nat)
  then show ?thesis by (simp add: of_nat_of_char)
qed

lemma byte_zero: "(of_char c :: u8) = 0 \<longleftrightarrow> c = NUL"
proof -
  have "(of_char c :: u8) = 0 \<longleftrightarrow> (of_char c :: nat) = of_char NUL"
    unfolding byte_char [symmetric] NUL_def by (simp add: unat_eq_0)
  then show ?thesis by simp
qed

lemma strlen_bytes: "NUL \<notin> set s \<Longrightarrow> strlen (bytes (s @ [NUL])) = Some (length s)"
  by (induction s) (auto simp: bytes_def byte_zero)

lemma str_adds:
  assumes m: "malloc_ok malloc" "serves malloc K" and ok: "objects_ok w" and sp: "spare K w (Suc n)"
    and k: "kind = OBJ_STRING \<or> kind = OBJ_SYMBOL"
  shows "\<exists>p w'. alloc_str malloc kind (Buf (bytes (s @ [NUL]))) (length s) w = Some (Returns (p, w')) \<and>
    adds p (kind (length s) (bytes (s @ [NUL]))) w w'"
proof -
  have b: "body_ok st (kind l cs)" for st l cs using k by (auto simp: body_ok_def kids_def)
  obtain p w1 where w1: "gc_alloc malloc (kind 0 (replicate (length s + 1) 0)) (24 + length s + 1) w = Some (Returns (p, w1))"
    "adds p (kind 0 (replicate (length s + 1) 0)) w w1"
    using alloc_adds [OF m ok sp, of "kind 0 (replicate (length s + 1) 0)" "24 + length s + 1"] b by blast
  obtain w2 where "set_body p (kind (length s) (bytes (s @ [NUL]))) w1 = Some w2" "adds p (kind (length s) (bytes (s @ [NUL]))) w w2"
    using set_adds [OF w1(2) b] by blast
  then show ?thesis using w1(1) by (simp add: alloc_str_def read_chars_def bytes_nul) (simp add: bytes_def)
qed

lemma string_adds:
  assumes "malloc_ok malloc" "serves malloc K" "objects_ok w" "spare K w (Suc n)"
  shows "\<exists>p w'. gc_string malloc (Buf (bytes (s @ [NUL]))) (length s) w = Some (Returns (p, w')) \<and>
    adds p (OBJ_STRING (length s) (bytes (s @ [NUL]))) w w'"
  using str_adds [OF assms, of OBJ_STRING] by (simp add: gc_string_def)

lemma symbol_adds:
  assumes "malloc_ok malloc" "serves malloc K" "objects_ok w" "spare K w (Suc n)" "NUL \<notin> set s"
  shows "\<exists>p w'. gc_symbol malloc (bytes (s @ [NUL])) w = Some (Returns (p, w')) \<and>
    adds p (OBJ_SYMBOL (length s) (bytes (s @ [NUL]))) w w'"
  using str_adds [OF assms(1-4), of OBJ_SYMBOL s] strlen_bytes [OF assms(5)] by (simp add: gc_symbol_def)

section \<open>Reading\<close>

text \<open>
  What an operation with its frame at \<open>fp\<close> leaves as it was: the variables below the frame, the roots,
  and all objects but those in \<open>X\<close>.
\<close>

definition grows :: "val_t set \<Rightarrow> u64 \<Rightarrow> world \<Rightarrow> world \<Rightarrow> bool" where
  "grows X fp w w' \<longleftrightarrow> objects_ok w' \<and> still w w' \<and> (\<forall>a<fp. w_vars w' a = w_vars w a) \<and>
     (\<forall>q\<in>dom (w_cells w) - X. bodies (w_cells w') q = bodies (w_cells w) q) \<and> dom (w_cells w) \<subseteq> dom (w_cells w')"

text \<open>The value stands for the datum, in objects that are all new.\<close>

definition made :: "u64 \<Rightarrow> datum \<Rightarrow> world \<Rightarrow> val_t \<Rightarrow> world \<Rightarrow> bool" where
  "made fp d w v w' \<longleftrightarrow> grows {} fp w w' \<and> repr d (bodies (w_cells w') |` (- dom (w_cells w))) v \<and>
     card (dom (w_cells w')) = card (dom (w_cells w)) + objs d"

text \<open>The pair at \<open>t\<close> got a new tail that stands for the datum.\<close>

definition extended :: "val_t \<Rightarrow> val_t \<Rightarrow> u64 \<Rightarrow> datum \<Rightarrow> world \<Rightarrow> world \<Rightarrow> bool" where
  "extended t x fp d w w' \<longleftrightarrow> grows {t} fp w w' \<and> w_vars w' fp = w_vars w fp \<and>
     (\<exists>v. bodies (w_cells w') t = Some (OBJ_PAIR x v) \<and> repr d (bodies (w_cells w') |` (- dom (w_cells w))) v) \<and>
     card (dom (w_cells w')) = card (dom (w_cells w)) + objs d"

lemma imm_not_ptr [simp]: "\<not> IS_PTR VAL_TRUE" "\<not> IS_PTR VAL_FALSE" "\<not> IS_PTR VAL_NIL"
  by (simp_all add: IS_PTR_def VAL_TRUE_def VAL_FALSE_def VAL_NIL_def TAG_IMM_def TAG_MASK_def TAG_OBJ_def)

lemma repr_ptr: "repr d g v \<Longrightarrow> IS_PTR v \<Longrightarrow> v \<in> dom g"
  by (cases d) (auto simp: fix_tag(2))

lemma made_valid: "made fp d w v w' \<Longrightarrow> valid (w_cells w') v"
  using repr_ptr [of d "bodies (w_cells w') |` (- dom (w_cells w))" v] by (auto simp: made_def valid_def)

lemma grows_refl: "objects_ok w \<Longrightarrow> grows X fp w w"
  by (simp add: grows_def still_def)

lemma adds_made:
  assumes "adds p body w w'" "objects_ok w" "repr d [p \<mapsto> body] p" "objs d = 1"
  shows "made fp d w p w'"
proof -
  note f = adds_facts [OF assms(1,2)]
  have "[p \<mapsto> body] \<subseteq>\<^sub>m bodies (w_cells w') |` (- dom (w_cells w))"
    using assms(1) by (auto simp: adds_def map_le_def restrict_map_def domIff)
  moreover have "grows {} fp w w'"
    using assms(1) f by (auto simp: grows_def adds_def)
  ultimately show ?thesis using assms(3,4) f(2) repr_mono [of d] by (simp add: made_def)
qed

lemma frame_offsets:
  fixes fp :: u64
  assumes "unat fp + 32 < 2 ^ 64"
  shows "unat (fp + 8) = unat fp + 8" "unat (fp + 16) = unat fp + 16" "unat (fp + 24) = unat fp + 24"
    "unat (fp + 32) = unat fp + 32"
  using assms by (simp_all add: unat_word_ariths)

lemma frame_distinct:
  fixes fp :: u64
  assumes "unat fp + 32 < 2 ^ 64"
  shows "fp \<noteq> fp + 8" "fp \<noteq> fp + 16" "fp \<noteq> fp + 24" "fp + 8 \<noteq> fp + 16" "fp + 8 \<noteq> fp + 24"
    "fp < fp + 8" "fp < fp + 16" "fp < fp + 24" "fp < fp + 32" "fp + 8 < fp + 32"
  using frame_offsets [OF assms] by (auto simp: word_less_nat_alt dest!: arg_cong [of _ _ unat])

lemma pair_at_bodies: "bodies s t = Some (OBJ_PAIR x y) \<Longrightarrow> pair_at s t = Some (x, y)"
  by (auto simp: bodies_def pair_at_def)

lemma set_cdr_ok:
  assumes ok: "objects_ok w" and t: "bodies (w_cells w) t = Some (OBJ_PAIR x y)" and v: "valid (w_cells w) v"
  obtains w' where "gc_set_cdr t v w = Some w'" "objects_ok w'" "bodies (w_cells w') = (bodies (w_cells w))(t \<mapsto> OBJ_PAIR x v)"
    "w_vars w' = w_vars w" "w_heap w' = w_heap w"
proof -
  obtain ob where ob: "w_cells w t = Some ob" "ob_body ob = OBJ_PAIR x y" using t by (auto simp: bodies_def)
  then have "body_ok (w_cells w) (OBJ_PAIR x y)" using ok by (force simp: objects_ok_def closed_def)
  then have bo: "body_ok (w_cells w) (OBJ_PAIR x v)" using v by (simp add: body_ok_def kids_def)
  have e: "gc_set_cdr t v w = set_body t (OBJ_PAIR x v) w" using pair_at_bodies [OF t] by (simp add: gc_set_cdr_def)
  show ?thesis by (rule set_body_objects [OF ok ob(1) bo]) (metis e that)
qed

definition frame_ready :: "nat \<Rightarrow> u64 \<Rightarrow> world \<Rightarrow> bool" where
  "frame_ready k fp w \<longleftrightarrow> objects_ok w \<and> 0 \<le> h_nroots (w_heap w) \<and>
     h_nroots (w_heap w) + 4 * int k + 2 \<le> GC_ROOTS_MAX \<and> unat fp + 32 * k + 32 < 2 ^ 64"

text \<open>A new pair \<open>c\<close> of \<open>v\<close>, the first of a list.\<close>

definition began :: "val_t \<Rightarrow> val_t \<Rightarrow> u64 \<Rightarrow> world \<Rightarrow> world \<Rightarrow> bool" where
  "began c v fp w w' \<longleftrightarrow> objects_ok w' \<and> w_cells w c = None \<and> IS_PTR c \<and>
     bodies (w_cells w') = (bodies (w_cells w))(c \<mapsto> OBJ_PAIR v VAL_NIL) \<and> still w w' \<and> (\<forall>a<fp. w_vars w' a = w_vars w a)"

lemma append_first:
  assumes m: "malloc_ok malloc" "serves malloc K" and fr: "frame_ready k fp w" and sp: "spare K w (Suc n)"
    and v: "valid (w_cells w) v" and h: "w_vars w fp = Some VAL_NIL"
  shows "\<exists>c w'. append_cell malloc fp v w = Some (Returns w') \<and> began c v fp w w' \<and> w_vars w' fp = Some c \<and> w_vars w' (fp + 8) = Some c"
proof -
  have o: "unat fp + 32 < 2 ^ 64" and r: "0 \<le> h_nroots (w_heap w)" "h_nroots (w_heap w) + 2 \<le> GC_ROOTS_MAX" and ok: "objects_ok w"
    using fr by (simp_all add: frame_ready_def)
  note fo = frame_distinct [OF o]
  let ?w = "set_var (fp + 16) v w"
  have same: "w_cells ?w = w_cells w" "w_heap ?w = w_heap w" by (simp_all add: set_var_def)
  have "objects_ok ?w" "spare K ?w (Suc n)" using ok sp by (simp_all add: spare_def same)
  from cons_adds [OF m this, of v VAL_NIL] v r
  obtain c w1 where c: "gc_cons malloc v VAL_NIL ?w = Some (Returns (c, w1))" "adds c (OBJ_PAIR v VAL_NIL) ?w w1"
    by (auto simp: same valid_def)
  let ?w' = "set_var (fp + 8) c (set_var fp c (set_var (fp + 24) c w1))"
  have "append_cell malloc fp v w = Some (Returns ?w')"
    using c h fo by (simp add: append_cell_def adds_def set_var_def IS_NIL_def)
  moreover have "\<forall>a<fp. w_vars ?w' a = w_vars w a"
    using c(2) fo by (auto simp: adds_def set_var_def)
  ultimately show ?thesis
    using c(2) fo unfolding began_def
    by (intro exI [of _ c] exI [of _ ?w']) (simp add: adds_def still_def same, simp add: set_var_def)
qed

text \<open>A new pair \<open>c\<close> of \<open>v\<close>, linked to the pair \<open>t\<close>.\<close>

definition linked :: "val_t \<Rightarrow> val_t \<Rightarrow> val_t \<Rightarrow> val_t \<Rightarrow> u64 \<Rightarrow> world \<Rightarrow> world \<Rightarrow> bool" where
  "linked c v t x fp w w' \<longleftrightarrow> objects_ok w' \<and> w_cells w c = None \<and> IS_PTR c \<and> t \<in> dom (w_cells w) \<and>
     bodies (w_cells w') = (bodies (w_cells w))(c \<mapsto> OBJ_PAIR v VAL_NIL, t \<mapsto> OBJ_PAIR x c) \<and> still w w' \<and>
     (\<forall>a<fp. w_vars w' a = w_vars w a)"

lemma append_next:
  assumes m: "malloc_ok malloc" "serves malloc K" and fr: "frame_ready k fp w" and sp: "spare K w (Suc n)"
    and v: "valid (w_cells w) v" and h: "w_vars w fp = Some h" "h \<noteq> VAL_NIL" and t: "w_vars w (fp + 8) = Some t"
    "bodies (w_cells w) t = Some (OBJ_PAIR x y)"
  shows "\<exists>c w'. append_cell malloc fp v w = Some (Returns w') \<and> linked c v t x fp w w' \<and> w_vars w' fp = Some h \<and> w_vars w' (fp + 8) = Some c"
proof -
  have o: "unat fp + 32 < 2 ^ 64" and r: "0 \<le> h_nroots (w_heap w)" "h_nroots (w_heap w) + 2 \<le> GC_ROOTS_MAX" and ok: "objects_ok w"
    using fr by (simp_all add: frame_ready_def)
  note fo = frame_distinct [OF o]
  let ?w = "set_var (fp + 16) v w"
  have same: "w_cells ?w = w_cells w" "w_heap ?w = w_heap w" by (simp_all add: set_var_def)
  have "objects_ok ?w" "spare K ?w (Suc n)" using ok sp by (simp_all add: spare_def same)
  from cons_adds [OF m this, of v VAL_NIL] v r
  obtain c w1 where c: "gc_cons malloc v VAL_NIL ?w = Some (Returns (c, w1))" "adds c (OBJ_PAIR v VAL_NIL) ?w w1"
    by (auto simp: same valid_def)
  let ?w2 = "set_var (fp + 24) c w1"
  have s2: "w_cells ?w2 = w_cells w1" "w_heap ?w2 = w_heap w1" by (simp_all add: set_var_def)
  have tc: "t \<noteq> c" using t(2) c(2) by (auto simp: adds_def bodies_def same)
  have "objects_ok ?w2" using c(2) by (simp add: adds_def)
  moreover have "bodies (w_cells ?w2) t = Some (OBJ_PAIR x y)" using c(2) t(2) tc by (simp add: adds_def s2 same)
  moreover have "c \<in> dom (bodies (w_cells ?w2))" using c(2) by (simp add: adds_def s2)
  then have "valid (w_cells ?w2) c" unfolding dom_bodies valid_def by blast
  ultimately obtain w3 where w3: "gc_set_cdr t c ?w2 = Some w3" "objects_ok w3"
    "bodies (w_cells w3) = (bodies (w_cells ?w2))(t \<mapsto> OBJ_PAIR x c)" "w_vars w3 = w_vars ?w2" "w_heap w3 = w_heap ?w2"
    using set_cdr_ok by blast
  let ?w' = "set_var (fp + 8) c w3"
  have "append_cell malloc fp v w = Some (Returns ?w')"
    using c h fo t(1) w3(1) by (simp add: append_cell_def adds_def IS_NIL_def) (simp add: set_var_def)
  moreover have "\<forall>a<fp. w_vars ?w' a = w_vars w a"
    using c(2) fo w3(4) by (auto simp: adds_def set_var_def)
  moreover have "w_vars ?w' fp = Some h" "w_vars ?w' (fp + 8) = Some c"
    using c(2) fo w3(4) h(1) by (auto simp: adds_def set_var_def)
  moreover have "still w ?w'" using c(2) w3(5) by (simp add: adds_def still_def same s2) (simp add: set_var_def)
  moreover have "bodies (w_cells ?w') = (bodies (w_cells w))(c \<mapsto> OBJ_PAIR v VAL_NIL, t \<mapsto> OBJ_PAIR x c)"
    using c(2) w3(3) by (simp add: adds_def same s2) (simp add: set_var_def)
  moreover have "w_cells w c = None" "IS_PTR c" using c(2) by (simp_all add: adds_def same)
  moreover have "t \<in> dom (bodies (w_cells w))" using t(2) by blast
  ultimately show ?thesis using w3(2) unfolding linked_def by (intro exI [of _ c] exI [of _ ?w']) simp
qed

text \<open>
  The statements of the induction over the grammar: a datum, the elements of a list up to its end, and
  the rest of a list whose first elements end at the pair \<open>t\<close>.
\<close>

definition in_frame :: "nat \<Rightarrow> u64 \<Rightarrow> world \<Rightarrow> bool" where
  "in_frame k fp w \<longleftrightarrow> frame_ready k (fp + 32) w \<and> unat fp + 32 < 2 ^ 64"

definition datum_read :: "(nat \<Rightarrow> store \<Rightarrow> nat \<Rightarrow> val_t) \<Rightarrow> nat \<Rightarrow> nat \<Rightarrow> tok list \<Rightarrow> datum \<Rightarrow> tok list \<Rightarrow> bool" where
  "datum_read malloc K k ts d r \<longleftrightarrow> (\<forall>fp lx w. feeds ts lx \<longrightarrow> frame_ready k fp w \<longrightarrow> spare K w (objs d) \<longrightarrow>
     (\<exists>N v lx' w'. (\<forall>m\<ge>N. read_datum malloc m fp (lx, w) = Some (Returns (v, lx', w'))) \<and>
        feeds r lx' \<and> made fp d w v w'))"

definition list_read :: "(nat \<Rightarrow> store \<Rightarrow> nat \<Rightarrow> val_t) \<Rightarrow> nat \<Rightarrow> nat \<Rightarrow> tok list \<Rightarrow> datum \<Rightarrow> tok list \<Rightarrow> bool" where
  "list_read malloc K k ts d r \<longleftrightarrow> (\<forall>fp lx w. feeds ts lx \<longrightarrow> in_frame k fp w \<longrightarrow> spare K w (objs d) \<longrightarrow>
     w_vars w fp = Some VAL_NIL \<longrightarrow>
     (\<exists>N v lx' w'. (\<forall>m\<ge>N. list_loop malloc m fp (lx, w) = Some (Returns (lx', w'))) \<and>
        feeds r lx' \<and> w_vars w' fp = Some v \<and> made fp d w v w'))"

definition tail_read :: "(nat \<Rightarrow> store \<Rightarrow> nat \<Rightarrow> val_t) \<Rightarrow> nat \<Rightarrow> nat \<Rightarrow> tok list \<Rightarrow> datum \<Rightarrow> tok list \<Rightarrow> bool" where
  "tail_read malloc K k ts d r \<longleftrightarrow> (\<forall>fp lx w h t x. feeds ts lx \<longrightarrow> in_frame k fp w \<longrightarrow> spare K w (objs d) \<longrightarrow>
     w_vars w fp = Some h \<longrightarrow> h \<noteq> VAL_NIL \<longrightarrow> w_vars w (fp + 8) = Some t \<longrightarrow>
     bodies (w_cells w) t = Some (OBJ_PAIR x VAL_NIL) \<longrightarrow>
     (\<exists>N lx' w'. (\<forall>m\<ge>N. list_loop malloc m fp (lx, w) = Some (Returns (lx', w'))) \<and>
        feeds r lx' \<and> extended t x fp d w w'))"

lemma in_frame_ready: "in_frame k fp w \<Longrightarrow> frame_ready k fp w"
  by (auto simp: in_frame_def frame_ready_def unat_word_ariths)

lemma still_in_frame: "in_frame k fp w \<Longrightarrow> still w w' \<Longrightarrow> objects_ok w' \<Longrightarrow> in_frame k fp w'"
  by (simp add: in_frame_def frame_ready_def still_def)

lemma spare_after:
  assumes "spare K w n" "still w w'" "card (dom (w_cells w')) = card (dom (w_cells w)) + a" "a + b \<le> n"
  shows "spare K w' b"
  using assms by (simp add: spare_def still_def)

lemma still_trans: "still w w' \<Longrightarrow> still w' w'' \<Longrightarrow> still w w''"
  by (auto simp: still_def)

lemma madeD:
  assumes "made fp d w v w'"
  shows "objects_ok w'" "still w w'" "\<And>a. a < fp \<Longrightarrow> w_vars w' a = w_vars w a"
    "\<And>q. q \<in> dom (w_cells w) \<Longrightarrow> bodies (w_cells w') q = bodies (w_cells w) q" "dom (w_cells w) \<subseteq> dom (w_cells w')"
    "repr d (bodies (w_cells w') |` (- dom (w_cells w))) v" "card (dom (w_cells w')) = card (dom (w_cells w)) + objs d"
  using assms by (simp_all add: made_def grows_def)

lemma growsD:
  assumes "grows X fp w w'"
  shows "objects_ok w'" "still w w'" "\<And>a. a < fp \<Longrightarrow> w_vars w' a = w_vars w a"
    "\<And>q. q \<in> dom (w_cells w) \<Longrightarrow> q \<notin> X \<Longrightarrow> bodies (w_cells w') q = bodies (w_cells w) q" "dom (w_cells w) \<subseteq> dom (w_cells w')"
  using assms by (simp_all add: grows_def)

lemma body_in_dom: "bodies s q = Some b \<Longrightarrow> q \<in> dom s"
  by (auto simp: bodies_def)

lemma repr_fresh:
  assumes "repr d (bodies s |` (- B)) v" "\<And>q. q \<in> dom s \<Longrightarrow> q \<notin> B \<Longrightarrow> bodies s' q = bodies s q \<and> q \<notin> A"
  shows "repr d (bodies s' |` (- A)) v"
proof (rule repr_mono [OF assms(1)])
  have "(bodies s |` (- B)) q = (bodies s' |` (- A)) q" if "q \<in> dom (bodies s |` (- B))" for q
    using that assms(2) [of q] by auto
  then show "bodies s |` (- B) \<subseteq>\<^sub>m bodies s' |` (- A)" by (simp add: map_le_def)
qed

lemma linked_dom:
  assumes "linked c v t x fp w w'"
  shows "dom (w_cells w') = insert c (dom (w_cells w))" "c \<notin> dom (w_cells w)" "t \<noteq> c"
    "\<And>q. q \<in> dom (w_cells w) \<Longrightarrow> q \<noteq> t \<Longrightarrow> bodies (w_cells w') q = bodies (w_cells w) q"
proof -
  have "dom (bodies (w_cells w')) = insert c (dom (bodies (w_cells w)))" using assms by (auto simp: linked_def)
  then show "dom (w_cells w') = insert c (dom (w_cells w))" by simp
  show "c \<notin> dom (w_cells w)" "t \<noteq> c" using assms by (auto simp: linked_def)
  then show "bodies (w_cells w') q = bodies (w_cells w) q" if "q \<in> dom (w_cells w)" "q \<noteq> t" for q
    using assms that by (auto simp: linked_def)
qed

lemma linked_card:
  assumes "linked c v t x fp w w'" "objects_ok w"
  shows "card (dom (w_cells w')) = card (dom (w_cells w)) + 1"
  using linked_dom(1,2) [OF assms(1)] count_card(2) [OF assms(2)] by simp

lemma extended_more:
  assumes m: "made (fp + 32) a w v w1" and l: "linked c v t x fp w1 w2" and e: "extended c v fp d w2 w3"
    and t: "t \<in> dom (w_cells w)" and o: "unat fp + 32 < 2 ^ 64" and h: "w_vars w2 fp = w_vars w fp"
  shows "extended t x fp (D_pair a d) w w3"
proof -
  note g1 = madeD [OF m] and g2 = linked_dom [OF l]
  obtain v2 where v2: "bodies (w_cells w3) c = Some (OBJ_PAIR v v2)" "repr d (bodies (w_cells w3) |` (- dom (w_cells w2))) v2"
    and g3: "grows {c} fp w2 w3" "w_vars w3 fp = w_vars w2 fp" "card (dom (w_cells w3)) = card (dom (w_cells w2)) + objs d"
    using e by (auto simp: extended_def)
  have keep: "bodies (w_cells w3) q = bodies (w_cells w2) q" if "q \<in> dom (w_cells w2)" "q \<noteq> c" for q
    using growsD(4) [OF g3(1) that(1)] that(2) by simp
  have keep1: "bodies (w_cells w3) q = bodies (w_cells w1) q" if "q \<in> dom (w_cells w1)" "q \<noteq> t" for q
  proof -
    have "q \<in> dom (w_cells w2)" "q \<noteq> c" using that(1) g2(1,2) by auto
    then show ?thesis using keep [of q] g2(4) [OF that] by simp
  qed
  have "t \<in> dom (w_cells w1)" using g1(5) t by blast
  then have "bodies (w_cells w3) t = Some (OBJ_PAIR x c)" using keep [of t] g2(1,3) l by (simp add: linked_def)
  moreover have "repr a (bodies (w_cells w3) |` (- dom (w_cells w))) v"
    by (rule repr_fresh [OF g1(6)]) (use keep1 t in blast)
  moreover have "repr d (bodies (w_cells w3) |` (- dom (w_cells w))) v2"
    by (rule repr_fresh [OF v2(2)]) (use g1(5) g2(1) in blast)
  moreover have "IS_PTR c" "c \<notin> dom (w_cells w)" using l g1(5) g2(2) by (auto simp: linked_def)
  moreover have "grows {t} fp w w3"
  proof -
    have "bodies (w_cells w3) q = bodies (w_cells w) q" if "q \<in> dom (w_cells w)" "q \<noteq> t" for q
    proof -
      have "q \<in> dom (w_cells w1)" using g1(5) that(1) by blast
      then show ?thesis using keep1 [OF _ that(2)] g1(4) [OF that(1)] by simp
    qed
    then have "\<forall>q\<in>dom (w_cells w) - {t}. bodies (w_cells w3) q = bodies (w_cells w) q" by blast
    moreover have "\<forall>a<fp. w_vars w3 a = w_vars w a"
      using growsD(3) [OF g3(1)] l g1(3) frame_distinct(9) [OF o] by (auto simp: linked_def)
    moreover have "dom (w_cells w) \<subseteq> dom (w_cells w3)" using subset_trans [OF g1(5)] growsD(5) [OF g3(1)] g2(1) by simp
    moreover have "still w1 w2" using l by (simp add: linked_def)
    then have "still w w3" by (rule still_trans [OF still_trans [OF g1(2)] growsD(2) [OF g3(1)]])
    ultimately show ?thesis using growsD(1) [OF g3(1)] by (simp add: grows_def)
  qed
  moreover have "card (dom (w_cells w3)) = card (dom (w_cells w)) + objs (D_pair a d)"
    using g3(3) linked_card [OF l g1(1)] g1(7) by simp
  ultimately show ?thesis using v2(1) g3(2) h unfolding extended_def by auto
qed

lemma loop_reads:
  assumes "feeds ts lx" "reads k ts a ts'" "datum_read malloc K k ts a ts'" "in_frame k fp w" "spare K w (objs a)"
  obtains N v lx' w' where "feeds ts' lx'" "made (fp + 32) a w v w'"
    "\<And>m. m > N \<Longrightarrow> list_loop malloc m fp (lx, w) =
      and_then (append_cell malloc fp v w') (\<lambda>w2. list_loop malloc (m - 1) fp (lx', w2))"
proof -
  obtain z zs where z: "ts = z # zs" "z \<noteq> T_RPAREN" "z \<noteq> T_DOT" using reads_starts [OF assms(2)] by blast
  obtain tk lx1 where lx1: "lex_peek lx = Returns (tk, lx1)" "is_tok z tk" "feeds ts lx1"
    using peek_feeds assms(1) z(1) by metis
  have kind: "tk_kind tk \<noteq> TOK_EOF" "tk_kind tk \<noteq> TOK_RPAREN" "tk_kind tk \<noteq> TOK_DOT"
    using lx1(2) z(2,3) by (cases z; simp)+
  have "frame_ready k (fp + 32) w" using assms(4) by (simp add: in_frame_def)
  then obtain N v lx2 w1 where r: "\<And>m. m \<ge> N \<Longrightarrow> read_datum malloc m (fp + 32) (lx1, w) = Some (Returns (v, lx2, w1))"
    "feeds ts' lx2" "made (fp + 32) a w v w1"
    using assms(3,5) lx1(3) unfolding datum_read_def by blast
  have "list_loop malloc m fp (lx, w) = and_then (append_cell malloc fp v w1) (\<lambda>w2. list_loop malloc (m - 1) fp (lx2, w2))"
    if "m > N" for m
    using that lx1(1) kind r(1) by (cases m) simp_all
  then show ?thesis using that r(2,3) by blast
qed

lemma tail_more:
  assumes m: "malloc_ok malloc" "serves malloc K" and st: "reads k ts a ts'"
    and a: "datum_read malloc K k ts a ts'" and d: "tail_read malloc K k ts' d r"
  shows "tail_read malloc K k ts (D_pair a d) r"
  unfolding tail_read_def
proof (intro allI impI)
  fix fp lx w h t x
  assume f: "feeds ts lx" and fr: "in_frame k fp w" and sp: "spare K w (objs (D_pair a d))" and h: "w_vars w fp = Some h" "h \<noteq> VAL_NIL"
    and t: "w_vars w (fp + 8) = Some t" "bodies (w_cells w) t = Some (OBJ_PAIR x VAL_NIL)"
  have o: "unat fp + 32 < 2 ^ 64" using fr by (simp add: in_frame_def)
  note fo = frame_distinct [OF o]
  have "spare K w (objs a)" using sp by (simp add: spare_def)
  from loop_reads [OF f st a fr this] obtain N1 v lx2 w1 where r1: "feeds ts' lx2" "made (fp + 32) a w v w1"
    and l1: "\<And>m. m > N1 \<Longrightarrow> list_loop malloc m fp (lx, w) =
      and_then (append_cell malloc fp v w1) (\<lambda>w2. list_loop malloc (m - 1) fp (lx2, w2))" by metis
  note g1 = madeD [OF r1(2)]
  have td: "t \<in> dom (w_cells w)" by (rule body_in_dom [OF t(2)])
  have v1: "w_vars w1 fp = Some h" "w_vars w1 (fp + 8) = Some t" "bodies (w_cells w1) t = Some (OBJ_PAIR x VAL_NIL)"
    using g1(3) fo h t g1(4) [OF td] by auto
  have fr1: "in_frame k fp w1" by (rule still_in_frame [OF fr g1(2,1)])
  have sp1: "spare K w1 (Suc (objs d))" by (rule spare_after [OF sp g1(2,7)]) simp
  obtain c w2 where w2: "append_cell malloc fp v w1 = Some (Returns w2)" "linked c v t x fp w1 w2"
    "w_vars w2 fp = Some h" "w_vars w2 (fp + 8) = Some c"
    using append_next [OF m in_frame_ready [OF fr1] sp1 made_valid [OF r1(2)] v1(1) h(2) v1(2,3)] by blast
  have w2': "still w1 w2" "objects_ok w2" "bodies (w_cells w2) c = Some (OBJ_PAIR v VAL_NIL)"
    using w2(2) linked_dom(3) [OF w2(2)] by (simp_all add: linked_def)
  have "spare K w2 (objs d)" by (rule spare_after [OF sp1 w2'(1) linked_card [OF w2(2) g1(1)]]) simp
  then obtain N2 lx3 w3 where r3: "\<And>m. m \<ge> N2 \<Longrightarrow> list_loop malloc m fp (lx2, w2) = Some (Returns (lx3, w3))" "feeds r lx3"
    "extended c v fp d w2 w3"
    using d r1(1) still_in_frame [OF fr1 w2'(1,2)] w2(3,4) w2'(3) h(2) unfolding tail_read_def by blast
  have "list_loop malloc mm fp (lx, w) = Some (Returns (lx3, w3))" if "mm \<ge> Suc (max N1 N2)" for mm
    using that l1 [of mm] r3(1) [of "mm - 1"] w2(1) by simp
  moreover have "extended t x fp (D_pair a d) w w3"
    by (rule extended_more [OF r1(2) w2(2) r3(3) td o]) (simp add: w2(3) h(1))
  ultimately show "\<exists>N lx' w'. (\<forall>m\<ge>N. list_loop malloc m fp (lx, w) = Some (Returns (lx', w'))) \<and> feeds r lx' \<and> extended t x fp (D_pair a d) w w'"
    using r3(2) by blast
qed

lemma tail_close: "tail_read malloc K k (T_RPAREN # r) D_nil r"
  unfolding tail_read_def
proof (intro allI impI)
  fix fp lx w h t x
  assume f: "feeds (T_RPAREN # r) lx" and fr: "in_frame k fp w" and t: "bodies (w_cells w) t = Some (OBJ_PAIR x VAL_NIL)"
  obtain tk lx1 where lx1: "lex_peek lx = Returns (tk, lx1)" "is_tok T_RPAREN tk" "feeds (T_RPAREN # r) lx1"
    by (rule peek_feeds [OF f])
  then obtain tk' lx2 where lx2: "lex_next lx1 = Returns (tk', lx2)" "feeds r lx2" by auto
  have "list_loop malloc m fp (lx, w) = Some (Returns (lx2, w))" if "m \<ge> 1" for m
    using that lx1(1,2) lx2(1) by (cases m) simp_all
  moreover have "extended t x fp D_nil w w"
    using t fr by (simp add: extended_def grows_refl in_frame_def frame_ready_def)
  ultimately show "\<exists>N lx' w'. (\<forall>m\<ge>N. list_loop malloc m fp (lx, w) = Some (Returns (lx', w'))) \<and> feeds r lx' \<and> extended t x fp D_nil w w'"
    using lx2(2) by blast
qed

lemma made_extended:
  assumes m: "made (fp + 32) d w v w1" and o: "unat fp + 32 < 2 ^ 64" and t: "t \<in> dom (w_cells w)"
    and w2: "objects_ok w2" "bodies (w_cells w2) = (bodies (w_cells w1))(t \<mapsto> OBJ_PAIR x v)" "w_heap w2 = w_heap w1"
      "w_vars w2 = (w_vars w1)(fp + 16 \<mapsto> v)"
  shows "extended t x fp d w w2"
proof -
  note g = madeD [OF m] and fo = frame_distinct [OF o]
  have t1: "t \<in> dom (w_cells w1)" using t g(5) by blast
  have "dom (bodies (w_cells w2)) = dom (bodies (w_cells w1))" unfolding w2(2) using t1 by auto
  then have d: "dom (w_cells w2) = dom (w_cells w1)" by simp
  have "bodies (w_cells w2) q = bodies (w_cells w) q" if "q \<in> dom (w_cells w)" "q \<noteq> t" for q using that w2(2) g(4) by simp
  moreover have "repr d (bodies (w_cells w2) |` (- dom (w_cells w))) v"
    by (rule repr_fresh [OF g(6)]) (use w2(2) t in auto)
  moreover have "\<forall>a\<le>fp. w_vars w2 a = w_vars w a"
  proof (intro allI impI)
    fix a assume a: "a \<le> fp"
    then have "a < fp + 32" "a \<noteq> fp + 16" using fo(7,9) by auto
    then show "w_vars w2 a = w_vars w a" using w2(4) g(3) by simp
  qed
  moreover have "still w w2" using g(2) w2(3) by (simp add: still_def)
  ultimately show ?thesis using w2(1,2) d g(5,7) unfolding extended_def grows_def by auto
qed

lemma tail_dotted:
  assumes d: "datum_read malloc K k ts d (T_RPAREN # r)"
  shows "tail_read malloc K k (T_DOT # ts) d r"
  unfolding tail_read_def
proof (intro allI impI)
  fix fp lx w h t x
  assume f: "feeds (T_DOT # ts) lx" and fr: "in_frame k fp w" and sp: "spare K w (objs d)" and h: "w_vars w fp = Some h" "h \<noteq> VAL_NIL"
    and t: "w_vars w (fp + 8) = Some t" "bodies (w_cells w) t = Some (OBJ_PAIR x VAL_NIL)"
  have o: "unat fp + 32 < 2 ^ 64" and fr': "frame_ready k (fp + 32) w" using fr by (simp_all add: in_frame_def)
  note fo = frame_distinct [OF o]
  obtain tk lx1 where lx1: "lex_peek lx = Returns (tk, lx1)" "is_tok T_DOT tk" "feeds (T_DOT # ts) lx1"
    by (rule peek_feeds [OF f])
  then obtain tk' lx2 where lx2: "lex_next lx1 = Returns (tk', lx2)" "feeds ts lx2" by auto
  obtain N v lx3 w1 where r: "\<And>m. m \<ge> N \<Longrightarrow> read_datum malloc m (fp + 32) (lx2, w) = Some (Returns (v, lx3, w1))"
    "feeds (T_RPAREN # r) lx3" "made (fp + 32) d w v w1"
    using d lx2(2) fr' sp unfolding datum_read_def by blast
  obtain tk'' lx4 where lx4: "lex_next lx3 = Returns (tk'', lx4)" "tk_kind tk'' = TOK_RPAREN" "feeds r lx4" using r(2) by auto
  note g = madeD [OF r(3)]
  have td: "t \<in> dom (w_cells w)" by (rule body_in_dom [OF t(2)])
  let ?w = "set_var (fp + 16) v w1"
  have same: "w_cells ?w = w_cells w1" "w_heap ?w = w_heap w1" "w_vars ?w = (w_vars w1)(fp + 16 \<mapsto> v)" by (simp_all add: set_var_def)
  have "objects_ok ?w" "bodies (w_cells ?w) t = Some (OBJ_PAIR x VAL_NIL)" "valid (w_cells ?w) v"
    using g(1) g(4) [OF td] t(2) made_valid [OF r(3)] by (simp_all add: same)
  from set_cdr_ok [OF this] obtain w2 where w2: "gc_set_cdr t v ?w = Some w2" "objects_ok w2"
    "bodies (w_cells w2) = (bodies (w_cells w1))(t \<mapsto> OBJ_PAIR x v)" "w_vars w2 = (w_vars w1)(fp + 16 \<mapsto> v)" "w_heap w2 = w_heap w1"
    unfolding same by blast
  have t1: "w_vars ?w (fp + 8) = Some t" using g(3) [OF fo(10)] t(1) fo(4) by (simp add: same)
  have "list_loop malloc m fp (lx, w) = Some (Returns (lx4, w2))" if "m \<ge> Suc N" for m
    using that lx1(1,2) lx2(1) h r(1) [of "m - 1"] lx4(1,2) t1 w2(1) by (cases m) (simp_all add: IS_NIL_def Let_def)
  moreover have "extended t x fp d w w2" by (rule made_extended [OF r(3) o td w2(2,3,5,4)])
  ultimately show "\<exists>N lx' w'. (\<forall>m\<ge>N. list_loop malloc m fp (lx, w) = Some (Returns (lx', w'))) \<and> feeds r lx' \<and> extended t x fp d w w'"
    using lx4(3) by blast
qed

lemma list_empty: "list_read malloc K k (T_RPAREN # r) D_nil r"
  unfolding list_read_def
proof (intro allI impI)
  fix fp lx w
  assume f: "feeds (T_RPAREN # r) lx" and fr: "in_frame k fp w" and h: "w_vars w fp = Some VAL_NIL"
  obtain tk lx1 where lx1: "lex_peek lx = Returns (tk, lx1)" "is_tok T_RPAREN tk" "feeds (T_RPAREN # r) lx1"
    by (rule peek_feeds [OF f])
  then obtain tk' lx2 where lx2: "lex_next lx1 = Returns (tk', lx2)" "feeds r lx2" by auto
  have "list_loop malloc m fp (lx, w) = Some (Returns (lx2, w))" if "m \<ge> 1" for m
    using that lx1(1,2) lx2(1) by (cases m) simp_all
  moreover have "made fp D_nil w VAL_NIL w"
    using fr by (simp add: made_def grows_refl in_frame_def frame_ready_def)
  ultimately show "\<exists>N v lx' w'. (\<forall>m\<ge>N. list_loop malloc m fp (lx, w) = Some (Returns (lx', w'))) \<and>
      feeds r lx' \<and> w_vars w' fp = Some v \<and> made fp D_nil w v w'"
    using lx2(2) h by blast
qed

lemma began_dom:
  assumes "began c v fp w w'" "objects_ok w"
  shows "dom (w_cells w') = insert c (dom (w_cells w))" "c \<notin> dom (w_cells w)"
    "card (dom (w_cells w')) = card (dom (w_cells w)) + 1"
    "\<And>q. q \<in> dom (w_cells w) \<Longrightarrow> bodies (w_cells w') q = bodies (w_cells w) q"
proof -
  have "dom (bodies (w_cells w')) = insert c (dom (bodies (w_cells w)))" using assms by (auto simp: began_def)
  then show d: "dom (w_cells w') = insert c (dom (w_cells w))" by simp
  show c: "c \<notin> dom (w_cells w)" using assms by (auto simp: began_def)
  show "card (dom (w_cells w')) = card (dom (w_cells w)) + 1" using c d count_card(2) [OF assms(2)] by simp
  show "bodies (w_cells w') q = bodies (w_cells w) q" if "q \<in> dom (w_cells w)" for q
    using assms(1) c that by (auto simp: began_def)
qed

lemma made_first:
  assumes m: "made (fp + 32) a w v w1" and l: "began c v fp w1 w2" and e: "extended c v fp d w2 w3"
    and o: "unat fp + 32 < 2 ^ 64"
  shows "made fp (D_pair a d) w c w3"
proof -
  note g1 = madeD [OF m]
  note g2 = began_dom [OF l g1(1)]
  obtain v2 where v2: "bodies (w_cells w3) c = Some (OBJ_PAIR v v2)" "repr d (bodies (w_cells w3) |` (- dom (w_cells w2))) v2"
    and g3: "grows {c} fp w2 w3" "card (dom (w_cells w3)) = card (dom (w_cells w2)) + objs d"
    using e by (auto simp: extended_def)
  have keep: "bodies (w_cells w3) q = bodies (w_cells w1) q" if "q \<in> dom (w_cells w1)" for q
  proof -
    have "q \<in> dom (w_cells w2)" "q \<notin> {c}" using that g2(1,2) by auto
    then show ?thesis using growsD(4) [OF g3(1)] g2(4) [OF that] by simp
  qed
  have "repr a (bodies (w_cells w3) |` (- dom (w_cells w))) v"
    by (rule repr_fresh [OF g1(6)]) (use keep in blast)
  moreover have "repr d (bodies (w_cells w3) |` (- dom (w_cells w))) v2"
    by (rule repr_fresh [OF v2(2)]) (use g1(5) g2(1) in blast)
  moreover have c: "IS_PTR c" "c \<notin> dom (w_cells w)" using l g1(5) g2(2) by (auto simp: began_def)
  moreover have "grows {} fp w w3"
  proof -
    have "bodies (w_cells w3) q = bodies (w_cells w) q" if "q \<in> dom (w_cells w)" for q
    proof -
      have "q \<in> dom (w_cells w1)" using g1(5) that by blast
      then show ?thesis using keep [of q] g1(4) [OF that] by simp
    qed
    moreover have "\<forall>a<fp. w_vars w3 a = w_vars w a"
      using growsD(3) [OF g3(1)] l g1(3) frame_distinct(9) [OF o] by (auto simp: began_def)
    moreover have "dom (w_cells w) \<subseteq> dom (w_cells w3)" using subset_trans [OF g1(5)] growsD(5) [OF g3(1)] g2(1) by simp
    moreover have "still w1 w2" using l by (simp add: began_def)
    then have "still w w3" by (rule still_trans [OF still_trans [OF g1(2)] growsD(2) [OF g3(1)]])
    ultimately show ?thesis using growsD(1) [OF g3(1)] by (simp add: grows_def)
  qed
  ultimately show ?thesis using v2(1) g3(2) g2(3) g1(7) unfolding made_def by simp
qed

lemma list_first:
  assumes m: "malloc_ok malloc" "serves malloc K" and st: "reads k ts a ts'"
    and a: "datum_read malloc K k ts a ts'" and d: "tail_read malloc K k ts' d r"
  shows "list_read malloc K k ts (D_pair a d) r"
  unfolding list_read_def
proof (intro allI impI)
  fix fp lx w
  assume f: "feeds ts lx" and fr: "in_frame k fp w" and sp: "spare K w (objs (D_pair a d))" and h: "w_vars w fp = Some VAL_NIL"
  have o: "unat fp + 32 < 2 ^ 64" using fr by (simp add: in_frame_def)
  have "spare K w (objs a)" using sp by (simp add: spare_def)
  from loop_reads [OF f st a fr this] obtain N1 v lx2 w1 where r1: "feeds ts' lx2" "made (fp + 32) a w v w1"
    and l1: "\<And>m. m > N1 \<Longrightarrow> list_loop malloc m fp (lx, w) =
      and_then (append_cell malloc fp v w1) (\<lambda>w2. list_loop malloc (m - 1) fp (lx2, w2))" by metis
  note g1 = madeD [OF r1(2)]
  have v1: "w_vars w1 fp = Some VAL_NIL" using g1(3) frame_distinct(9) [OF o] h by simp
  have fr1: "in_frame k fp w1" by (rule still_in_frame [OF fr g1(2,1)])
  have sp1: "spare K w1 (Suc (objs d))" by (rule spare_after [OF sp g1(2,7)]) simp
  obtain c w2 where w2: "append_cell malloc fp v w1 = Some (Returns w2)" "began c v fp w1 w2"
    "w_vars w2 fp = Some c" "w_vars w2 (fp + 8) = Some c"
    using append_first [OF m in_frame_ready [OF fr1] sp1 made_valid [OF r1(2)] v1] by blast
  have w2': "still w1 w2" "objects_ok w2" "bodies (w_cells w2) c = Some (OBJ_PAIR v VAL_NIL)" "IS_PTR c"
    using w2(2) by (simp_all add: began_def)
  then have "c \<noteq> VAL_NIL" by (auto simp: IS_PTR_def)
  moreover have "spare K w2 (objs d)" by (rule spare_after [OF sp1 w2'(1) began_dom(3) [OF w2(2) g1(1)]]) simp
  ultimately obtain N2 lx3 w3 where r3: "\<And>m. m \<ge> N2 \<Longrightarrow> list_loop malloc m fp (lx2, w2) = Some (Returns (lx3, w3))" "feeds r lx3"
    "extended c v fp d w2 w3"
    using d r1(1) still_in_frame [OF fr1 w2'(1,2)] w2(3,4) w2'(3) unfolding tail_read_def by blast
  have "list_loop malloc mm fp (lx, w) = Some (Returns (lx3, w3))" if "mm \<ge> Suc (max N1 N2)" for mm
    using that l1 [of mm] r3(1) [of "mm - 1"] w2(1) by simp
  moreover have "made fp (D_pair a d) w c w3" by (rule made_first [OF r1(2) w2(2) r3(3) o])
  moreover have "w_vars w3 fp = Some c" using r3(3) w2(3) by (simp add: extended_def)
  ultimately show "\<exists>N v lx' w'. (\<forall>m\<ge>N. list_loop malloc m fp (lx, w) = Some (Returns (lx', w'))) \<and>
      feeds r lx' \<and> w_vars w' fp = Some v \<and> made fp (D_pair a d) w v w'"
    using r3(2) by blast
qed

lemma open_frame_ok:
  assumes "objects_ok w" "0 \<le> h_nroots (w_heap w)" "h_nroots (w_heap w) + 4 \<le> GC_ROOTS_MAX"
  obtains w' where "open_frame fp w = Some (Returns w')" "w_cells w' = w_cells w" "objects_ok w'"
    "w_vars w' = (w_vars w)(fp := Some VAL_NIL, fp + 8 := Some VAL_NIL, fp + 16 := None, fp + 24 := None)"
    "h_nroots (w_heap w') = h_nroots (w_heap w) + 4" "h_threshold (w_heap w') = h_threshold (w_heap w)"
    "\<forall>i<h_nroots (w_heap w). h_roots (w_heap w') i = h_roots (w_heap w) i"
proof -
  have "\<exists>w'. open_frame fp w = Some (Returns w') \<and> w_cells w' = w_cells w \<and> objects_ok w' \<and>
    w_vars w' = (w_vars w)(fp := Some VAL_NIL, fp + 8 := Some VAL_NIL, fp + 16 := None, fp + 24 := None) \<and>
    h_nroots (w_heap w') = h_nroots (w_heap w) + 4 \<and> h_threshold (w_heap w') = h_threshold (w_heap w) \<and>
    (\<forall>i<h_nroots (w_heap w). h_roots (w_heap w') i = h_roots (w_heap w) i)"
    using assms by (simp add: open_frame_def gc_push_def Let_def objects_ok_def)
  then show ?thesis using that by blast
qed

lemma datum_list:
  assumes l: "list_read malloc K k ts d r"
  shows "datum_read malloc K (Suc k) (T_LPAREN # ts) d r"
  unfolding datum_read_def
proof (intro allI impI)
  fix fp lx w
  assume f: "feeds (T_LPAREN # ts) lx" and fr: "frame_ready (Suc k) fp w" and sp: "spare K w (objs d)"
  obtain tk lx1 where lx1: "lex_next lx = Returns (tk, lx1)" "tk_kind tk = TOK_LPAREN" "feeds ts lx1" using f by auto
  have o: "unat fp + 32 < 2 ^ 64" using fr by (simp add: frame_ready_def)
  note fo = frame_distinct [OF o]
  have ok: "objects_ok w" "0 \<le> h_nroots (w_heap w)" "h_nroots (w_heap w) + 4 \<le> GC_ROOTS_MAX" using fr by (simp_all add: frame_ready_def)
  obtain w1 where w1: "open_frame fp w = Some (Returns w1)" "w_cells w1 = w_cells w" "objects_ok w1"
    "w_vars w1 = (w_vars w)(fp := Some VAL_NIL, fp + 8 := Some VAL_NIL, fp + 16 := None, fp + 24 := None)"
    "h_nroots (w_heap w1) = h_nroots (w_heap w) + 4" "h_threshold (w_heap w1) = h_threshold (w_heap w)"
    "\<forall>i<h_nroots (w_heap w). h_roots (w_heap w1) i = h_roots (w_heap w) i"
    by (rule open_frame_ok [OF ok, of fp])
  have "in_frame k fp w1" using fr w1(3,5) frame_offsets(4) [OF o] by (simp add: in_frame_def frame_ready_def)
  moreover have "spare K w1 (objs d)" using sp w1(2,6) by (simp add: spare_def)
  moreover have "w_vars w1 fp = Some VAL_NIL" using w1(4) fo by simp
  ultimately obtain N v lx2 w2 where r: "\<And>m. m \<ge> N \<Longrightarrow> list_loop malloc m fp (lx1, w1) = Some (Returns (lx2, w2))"
    "feeds r lx2" "w_vars w2 fp = Some v" "made fp d w1 v w2"
    using l lx1(3) unfolding list_read_def by blast
  note g = madeD [OF r(4)]
  have "read_datum malloc m fp (lx, w) = Some (Returns (v, lx2, gc_pop 4 w2))" if "m \<ge> Suc (Suc N)" for m
  proof -
    define m' where "m' = m - 2"
    have m': "m = Suc (Suc m')" "m' \<ge> N" using that by (simp_all add: m'_def)
    then show ?thesis using lx1(1,2) w1(1) r(1) [OF m'(2)] r(3) by (simp add: close_frame_def)
  qed
  moreover have "made fp d w v (gc_pop 4 w2)"
  proof -
    have c: "w_cells (gc_pop 4 w2) = w_cells w2" "w_vars (gc_pop 4 w2) = w_vars w2" by (simp_all add: gc_pop_def)
    have "\<forall>a<fp. w_vars w1 a = w_vars w a" using w1(4) fo by auto
    then have "\<forall>a<fp. w_vars w2 a = w_vars w a" using g(3) by simp
    moreover have "still w (gc_pop 4 w2)" using g(2) w1(5-7) by (simp add: still_def gc_pop_def)
    ultimately have "grows {} fp w (gc_pop 4 w2)"
      using g(1) g(4,5) [unfolded w1(2)] unfolding grows_def c objects_roots by blast
    then show ?thesis using g(6,7) by (simp add: made_def c w1(2))
  qed
  ultimately show "\<exists>N v lx' w'. (\<forall>m\<ge>N. read_datum malloc m fp (lx, w) = Some (Returns (v, lx', w'))) \<and> feeds r lx' \<and> made fp d w v w'"
    using r(2) by blast
qed

lemma repr_adds:
  assumes "repr d (bodies (w_cells w1) |` (- A)) v" "adds p body w1 w2"
  shows "repr d (bodies (w_cells w2) |` (- A)) v"
  by (rule repr_fresh [OF assms(1)]) (use assms(2) in \<open>auto simp: adds_def\<close>)

lemma pair_adds:
  assumes "adds p (OBJ_PAIR x y) w1 w2" "A \<subseteq> dom (w_cells w1)"
    "repr a (bodies (w_cells w1) |` (- A)) x" "repr d (bodies (w_cells w1) |` (- A)) y"
  shows "repr (D_pair a d) (bodies (w_cells w2) |` (- A)) p"
proof -
  have "p \<notin> A" "IS_PTR p" "bodies (w_cells w2) p = Some (OBJ_PAIR x y)" using assms(1,2) by (auto simp: adds_def)
  then show ?thesis using repr_adds [OF assms(3,1)] repr_adds [OF assms(4,1)] by simp
qed

lemma adds_grows:
  assumes g: "grows X fp w w1" and a: "adds p body w1' w2" and same: "w_cells w1' = w_cells w1" "w_heap w1' = w_heap w1"
    "\<And>a. a < fp \<Longrightarrow> w_vars w1' a = w_vars w1 a"
  shows "grows X fp w w2"
proof -
  note gd = growsD [OF g]
  have ok: "objects_ok w1'" using gd(1) by (simp add: objects_ok_def same)
  note f = adds_facts [OF a ok]
  have "bodies (w_cells w2) q = bodies (w_cells w) q" if "q \<in> dom (w_cells w)" "q \<notin> X" for q
  proof -
    have "q \<noteq> p" using gd(5) that(1) a same(1) by (auto simp: adds_def)
    then show ?thesis using gd(4) [OF that] a by (simp add: adds_def same(1))
  qed
  moreover have "still w w2" using gd(2) a by (simp add: still_def adds_def same(2))
  moreover have "\<forall>b<fp. w_vars w2 b = w_vars w b" using gd(3) a same(3) by (simp add: adds_def)
  moreover have "dom (w_cells w) \<subseteq> dom (w_cells w2)" using gd(5) f(1) same(1) by auto
  ultimately show ?thesis using a unfolding grows_def by (simp add: adds_def)
qed

lemma atom_reads:
  assumes "lex_next lx = Returns (tk, lx')" "feeds r lx'" "objects_ok w"
    "\<And>m. read_datum malloc (Suc m) fp (lx, w) = Some (Returns (v, lx', w))" "repr d Map.empty v" "objs d = 0"
  shows "\<exists>N v lx' w'. (\<forall>m\<ge>N. read_datum malloc m fp (lx, w) = Some (Returns (v, lx', w'))) \<and> feeds r lx' \<and> made fp d w v w'"
proof -
  have "read_datum malloc m fp (lx, w) = Some (Returns (v, lx', w))" if "m \<ge> 1" for m using that assms(4) by (cases m) auto
  moreover have "made fp d w v w"
    using assms(3,6) repr_mono [OF assms(5)] by (simp add: made_def grows_refl)
  ultimately show ?thesis using assms(2) by blast
qed

lemma datum_atoms:
  "datum_read malloc K k (T_NUM n # r) (D_num (ucast n)) r" "datum_read malloc K k (T_TRUE # r) (D_bool True) r"
  "datum_read malloc K k (T_FALSE # r) (D_bool False) r"
  unfolding datum_read_def
  by (intro allI impI, clarsimp simp del: read_datum.simps, rule atom_reads;
    simp add: frame_ready_def del: One_nat_def)+

lemma datum_texts:
  assumes m: "malloc_ok malloc" "serves malloc K"
  shows "datum_read malloc K k (T_STR s # r) (D_str s) r" "datum_read malloc K k (T_SYM s # r) (D_sym s) r"
proof -
  have "\<exists>N v lx' w'. (\<forall>m\<ge>N. read_datum malloc m fp (lx, w) = Some (Returns (v, lx', w'))) \<and> feeds r lx' \<and> made fp d w v w'"
    if z: "d = D_str s \<and> z = T_STR s \<or> d = D_sym s \<and> z = T_SYM s" and f: "feeds (z # r) lx" and fr: "frame_ready k fp w"
      and sp: "spare K w 1" for d z fp lx w
  proof -
    have ok: "objects_ok w" using fr by (simp add: frame_ready_def)
    have sp': "spare K w (Suc 0)" using sp by simp
    obtain tk lx1 where lx1: "lex_next lx = Returns (tk, lx1)" "is_tok z tk" "feeds r lx1" using f by auto
    define body where "body = (if d = D_str s then OBJ_STRING (length s) (bytes (s @ [NUL])) else OBJ_SYMBOL (length s) (bytes (s @ [NUL])))"
    obtain p w1 where w1: "\<And>mm. read_datum malloc (Suc mm) fp (lx, w) = Some (Returns (p, lx1, w1))" "adds p body w w1"
      using z
    proof
      assume z: "d = D_str s \<and> z = T_STR s"
      then show ?thesis using string_adds [OF m ok sp', of s] lx1 that by (auto simp: with_lexer_def body_def)
    next
      assume z: "d = D_sym s \<and> z = T_SYM s"
      then show ?thesis using symbol_adds [OF m ok sp', of s] lx1 that by (auto simp: with_lexer_def body_def)
    qed
    have "read_datum malloc mm fp (lx, w) = Some (Returns (p, lx1, w1))" if "mm \<ge> 1" for mm using that w1(1) by (cases mm) auto
    moreover have "made fp d w p w1"
      using w1(2) ok z by (intro adds_made [of p body]) (auto simp: body_def adds_def)
    ultimately show ?thesis using lx1(3) by blast
  qed
  then show "datum_read malloc K k (T_STR s # r) (D_str s) r" "datum_read malloc K k (T_SYM s # r) (D_sym s) r"
    unfolding datum_read_def by simp_all
qed

lemma quote_frame:
  assumes fr: "frame_ready (Suc k) fp w"
  obtains w' where "gc_push (Var fp) (set_var fp VAL_NIL w) = Some (Returns w')" "w_cells w' = w_cells w"
    "frame_ready k (fp + 16) w'" "\<And>a. a < fp \<Longrightarrow> w_vars w' a = w_vars w a" "h_nroots (w_heap w') = h_nroots (w_heap w) + 1"
    "h_threshold (w_heap w') = h_threshold (w_heap w)" "\<forall>i<h_nroots (w_heap w). h_roots (w_heap w') i = h_roots (w_heap w) i"
proof -
  let ?h = "w_heap w"
  let ?w = "(set_var fp VAL_NIL w)\<lparr>w_heap := ?h\<lparr>h_roots := (h_roots ?h)(h_nroots ?h := Var fp), h_nroots := h_nroots ?h + 1\<rparr>\<rparr>"
  have o: "unat fp + 32 < 2 ^ 64" using fr by (simp add: frame_ready_def)
  have "gc_push (Var fp) (set_var fp VAL_NIL w) = Some (Returns ?w)"
    using fr by (simp add: gc_push_def Let_def frame_ready_def set_var_def)
  moreover have "frame_ready k (fp + 16) ?w"
    using fr frame_offsets(2) [OF o] by (simp add: frame_ready_def objects_ok_def set_var_def)
  moreover have "w_cells ?w = w_cells w" "\<And>a. a < fp \<Longrightarrow> w_vars ?w a = w_vars w a" by (auto simp: set_var_def)
  ultimately show ?thesis using that [of ?w] by simp
qed

text \<open>The three objects of a quotation, after the datum.\<close>

lemma quote_adds:
  assumes m: "malloc_ok malloc" "serves malloc K" and md: "made (fp + 16) d w1 q w2" and fr: "frame_ready k (fp + 16) w2"
    and sp: "spare K w2 3" and o: "unat fp + 32 < 2 ^ 64"
  obtains c w3 s w4 p w5 where "gc_cons malloc q VAL_NIL w2 = Some (Returns (c, w3))"
    "gc_symbol malloc (bytes (''quote'' @ [NUL])) (set_var fp c w3) = Some (Returns (s, w4))" "w_vars w4 fp = Some c"
    "gc_cons malloc s c w4 = Some (Returns (p, w5))"
    "made fp (D_pair (D_sym ''quote'') (D_pair d D_nil)) w1 p w5"
proof -
  note g = madeD [OF md]
  have r: "0 \<le> h_nroots (w_heap w2)" "h_nroots (w_heap w2) + 2 \<le> GC_ROOTS_MAX" using fr by (simp_all add: frame_ready_def)
  have sp2: "spare K w2 (Suc 2)" using sp by simp
  obtain c w3 where c: "gc_cons malloc q VAL_NIL w2 = Some (Returns (c, w3))" "adds c (OBJ_PAIR q VAL_NIL) w2 w3"
    using cons_adds [OF m g(1) sp2 made_valid [OF md] _ r, of VAL_NIL] by (auto simp: valid_def)
  note f3 = adds_facts [OF c(2) g(1)]
  have s3: "still w2 w3" "objects_ok w3" using c(2) by (simp_all add: adds_def)
  let ?w = "set_var fp c w3"
  have same: "w_cells ?w = w_cells w3" "w_heap ?w = w_heap w3" by (simp_all add: set_var_def)
  have "spare K w3 (Suc 1)" by (rule spare_after [OF sp s3(1), of 1]) (use f3(2) in simp_all)
  then have sp3: "spare K ?w (Suc 1)" by (simp add: spare_def same)
  have ok3: "objects_ok ?w" using s3(2) by simp
  obtain s w4 where s: "gc_symbol malloc (bytes (''quote'' @ [NUL])) ?w = Some (Returns (s, w4))"
    "adds s (OBJ_SYMBOL (length ''quote'') (bytes (''quote'' @ [NUL]))) ?w w4"
    using symbol_adds [OF m ok3 sp3, of "''quote''"] by (auto simp: NUL_def)
  note f4 = adds_facts [OF s(2) ok3]
  have s4: "still ?w w4" "objects_ok w4" "w_vars w4 fp = Some c" using s(2) by (simp_all add: adds_def set_var_def)
  have sp4: "spare K w4 (Suc 0)" by (rule spare_after [OF sp3 s4(1), of 1]) (use f4(2) in simp_all)
  have dc: "c \<in> dom (w_cells w4)" "s \<in> dom (w_cells w4)" using f4(1) f3(1) same(1) by auto
  have "0 \<le> h_nroots (w_heap w4)" "h_nroots (w_heap w4) + 2 \<le> GC_ROOTS_MAX" using r s3(1) s4(1) by (simp_all add: still_def same)
  then obtain p w5 where p: "gc_cons malloc s c w4 = Some (Returns (p, w5))" "adds p (OBJ_PAIR s c) w4 w5"
    using cons_adds [OF m s4(2) sp4, of s c] dc by (auto simp: valid_def)
  note f5 = adds_facts [OF p(2) s4(2)]
  have fpo: "fp < fp + 16" by (rule frame_distinct(7) [OF o])
  have g2: "grows {} fp w1 w2" using g(1-5) fpo by (auto simp: grows_def)
  have g3: "grows {} fp w1 w3" by (rule adds_grows [OF g2 c(2)]) simp_all
  have g4: "grows {} fp w1 w4" by (rule adds_grows [OF g3 s(2) same]) (auto simp: set_var_def)
  have g5: "grows {} fp w1 w5" by (rule adds_grows [OF g4 p(2)]) simp_all
  have A: "dom (w_cells w1) \<subseteq> dom (w_cells w2)" "dom (w_cells w1) \<subseteq> dom (w_cells w4)" using growsD(5) [OF g2] growsD(5) [OF g4] by simp_all
  have "repr (D_pair d D_nil) (bodies (w_cells w3) |` (- dom (w_cells w1))) c"
    by (rule pair_adds [OF c(2) A(1) g(6)]) simp
  then have "repr (D_pair d D_nil) (bodies (w_cells w4) |` (- dom (w_cells w1))) c"
    using repr_adds [OF _ s(2), unfolded same(1)] by blast
  moreover have "repr (D_sym ''quote'') (bodies (w_cells w4) |` (- dom (w_cells w1))) s"
    using s(2) growsD(5) [OF g3] same(1) by (auto simp: adds_def)
  ultimately have "repr (D_pair (D_sym ''quote'') (D_pair d D_nil)) (bodies (w_cells w5) |` (- dom (w_cells w1))) p"
    by (intro pair_adds [OF p(2) A(2)])
  moreover have "card (dom (w_cells w5)) = card (dom (w_cells w1)) + objs (D_pair (D_sym ''quote'') (D_pair d D_nil))"
    using f5(2) f4(2) f3(2) g(7) same(1) by simp
  ultimately have "made fp (D_pair (D_sym ''quote'') (D_pair d D_nil)) w1 p w5" using g5 by (simp add: made_def)
  then show ?thesis using that c(1) s(1) s4(3) p(1) by blast
qed

lemma datum_quote:
  assumes m: "malloc_ok malloc" "serves malloc K" and d: "datum_read malloc K k ts d r"
  shows "datum_read malloc K (Suc k) (T_QUOTE # ts) (D_pair (D_sym ''quote'') (D_pair d D_nil)) r"
  unfolding datum_read_def
proof (intro allI impI)
  let ?d = "D_pair (D_sym ''quote'') (D_pair d D_nil)"
  fix fp lx w
  assume f: "feeds (T_QUOTE # ts) lx" and fr: "frame_ready (Suc k) fp w" and sp: "spare K w (objs ?d)"
  obtain tk lx1 where lx1: "lex_next lx = Returns (tk, lx1)" "tk_kind tk = TOK_QUOTE" "feeds ts lx1" using f by auto
  have o: "unat fp + 32 < 2 ^ 64" using fr by (simp add: frame_ready_def)
  obtain w1 where w1: "gc_push (Var fp) (set_var fp VAL_NIL w) = Some (Returns w1)" "w_cells w1 = w_cells w"
    "frame_ready k (fp + 16) w1" "\<And>a. a < fp \<Longrightarrow> w_vars w1 a = w_vars w a" "h_nroots (w_heap w1) = h_nroots (w_heap w) + 1"
    "h_threshold (w_heap w1) = h_threshold (w_heap w)" "\<forall>i<h_nroots (w_heap w). h_roots (w_heap w1) i = h_roots (w_heap w) i"
    by (rule quote_frame [OF fr]) blast
  have sp1: "spare K w1 (objs d + 3)" using sp w1(2,6) by (simp add: spare_def)
  then have "spare K w1 (objs d)" by (simp add: spare_def)
  then obtain N q lx2 w2 where r: "\<And>m. m \<ge> N \<Longrightarrow> read_datum malloc m (fp + 16) (lx1, w1) = Some (Returns (q, lx2, w2))"
    "feeds r lx2" "made (fp + 16) d w1 q w2"
    using d lx1(3) w1(3) unfolding datum_read_def by blast
  note g = madeD [OF r(3)]
  have "frame_ready k (fp + 16) w2" using w1(3) g(1,2) by (simp add: frame_ready_def still_def)
  moreover have "spare K w2 3" by (rule spare_after [OF sp1 g(2,7)]) simp
  ultimately obtain c w3 s w4 p w5 where q: "gc_cons malloc q VAL_NIL w2 = Some (Returns (c, w3))"
    "gc_symbol malloc (bytes (''quote'' @ [NUL])) (set_var fp c w3) = Some (Returns (s, w4))" "w_vars w4 fp = Some c"
    "gc_cons malloc s c w4 = Some (Returns (p, w5))" "made fp ?d w1 p w5"
    using quote_adds [OF m r(3) _ _ o] by metis
  let ?w = "gc_pop 1 (set_var fp p w5)"
  have "read_datum malloc m fp (lx, w) = Some (Returns (p, lx2, ?w))" if "m \<ge> Suc N" for m
    using that lx1(1,2) w1(1) r(1) q(1-4) by (cases m) simp_all
  moreover have "made fp ?d w p ?w"
  proof -
    note g5 = madeD [OF q(5)]
    have c: "w_cells ?w = w_cells w5" by (simp add: gc_pop_def set_var_def)
    have "\<forall>a<fp. w_vars ?w a = w_vars w a" using g5(3) w1(4) by (auto simp: gc_pop_def set_var_def)
    moreover have "still w ?w" using g5(2) w1(5-7) by (simp add: still_def gc_pop_def set_var_def)
    ultimately have "grows {} fp w ?w"
      using g5(1) g5(4,5) [unfolded w1(2)] unfolding grows_def c objects_roots by blast
    then show ?thesis using g5(6,7) by (simp add: made_def c w1(2))
  qed
  ultimately show "\<exists>N v lx' w'. (\<forall>m\<ge>N. read_datum malloc m fp (lx, w) = Some (Returns (v, lx', w'))) \<and> feeds r lx' \<and> made fp ?d w v w'"
    using r(2) by blast
qed

lemma grammar_read:
  assumes m: "malloc_ok malloc" "serves malloc K"
  shows "reads k ts d r \<Longrightarrow> datum_read malloc K k ts d r" "reads_list k ts d r \<Longrightarrow> list_read malloc K k ts d r"
    "reads_tail k ts d r \<Longrightarrow> tail_read malloc K k ts d r"
proof (induction rule: reads_reads_list_reads_tail.inducts)
  case (quote k ts d r)
  then show ?case by (intro datum_quote m)
next
  case (list k ts d r)
  then show ?case by (intro datum_list)
next
  case (first k ts a ts' d r)
  then show ?case by (intro list_first m)
next
  case (dotted k ts d r)
  then show ?case by (intro tail_dotted)
next
  case (more k ts a ts' d r)
  then show ?case by (intro tail_more m)
qed (rule datum_atoms datum_texts [OF m] list_empty tail_close)+

end
