(* ===== verification/Pc_Roundtrip.thy ===== *)
theory Pc_Roundtrip
  imports Pc_Read
begin

text \<open>
  The printer and the reader together: what \<open>scm_print\<close> writes of a datum, \<open>scm_read\<close> reads back. And what
  happens when a collection comes while \<open>read_list\<close> has registered its variables and not yet given
  them a value.
\<close>

section \<open>The text of a datum\<close>

fun text_of :: "datum \<Rightarrow> string" and rest_of :: "datum \<Rightarrow> string" where
  "text_of (D_num n) = pr_int (sint n)"
| "text_of (D_str s) = [DQUOTE] @ s @ [DQUOTE]"
| "text_of (D_sym s) = s"
| "text_of (D_bool b) = (if b then ''#t'' else ''#f'')"
| "text_of D_nil = ''()''"
| "text_of (D_pair a d) = ''('' @ text_of a @ rest_of d @ '')''"
| "rest_of (D_num n) = '' . '' @ pr_int (sint n)"
| "rest_of (D_str s) = '' . '' @ [DQUOTE] @ s @ [DQUOTE]"
| "rest_of (D_sym s) = '' . '' @ s"
| "rest_of (D_bool b) = '' . '' @ (if b then ''#t'' else ''#f'')"
| "rest_of D_nil = ''''"
| "rest_of (D_pair a d) = '' '' @ text_of a @ rest_of d"

text \<open>What the syntax can express: symbols that lex as symbols, strings without characters that need an escape.\<close>

definition good_symbol :: "string \<Rightarrow> bool" where
  "good_symbol s \<longleftrightarrow> s \<noteq> [] \<and> (\<forall>c\<in>set s. is_sym_char c) \<and> \<not> isdigit (hd s) \<and> s \<noteq> ''.'' \<and>
     \<not> ((hd s = CHR ''-'' \<or> hd s = CHR ''+'') \<and> isdigit (cur (tl s)))"

definition good_string :: "string \<Rightarrow> bool" where
  "good_string s \<longleftrightarrow> (\<forall>c\<in>set s. c \<noteq> NUL \<and> c \<noteq> DQUOTE \<and> c \<noteq> BACKSLASH \<and> c \<noteq> NLC)"

primrec expressible :: "datum \<Rightarrow> bool" where
  "expressible (D_num n) \<longleftrightarrow> True"
| "expressible (D_str s) \<longleftrightarrow> good_string s"
| "expressible (D_sym s) \<longleftrightarrow> good_symbol s"
| "expressible (D_bool b) \<longleftrightarrow> True"
| "expressible D_nil \<longleftrightarrow> True"
| "expressible (D_pair a d) \<longleftrightarrow> expressible a \<and> expressible d"

lemma char_facts [simp]:
  "\<not> isdigit NUL" "\<not> is_sym_char NUL" "\<not> is_sym_char CHR '' ''" "\<not> is_sym_char CHR ''(''" "\<not> is_sym_char CHR '')''"
  "\<not> is_sym_char DQUOTE" "\<not> is_sym_char SQUOTE" "\<not> is_sym_char CHR ''#''" "\<not> is_sym_char CHR '';''" "\<not> is_sym_char TABC"
  "\<not> is_sym_char NLC" "\<not> is_sym_char CRC"
  by (simp_all add: isdigit_def is_sym_char_def isalnum_def NUL_def DQUOTE_def SQUOTE_def TABC_def NLC_def CRC_def)

lemma digit_sym: "isdigit c \<Longrightarrow> is_sym_char c"
  by (simp add: is_sym_char_def isalnum_def)

section \<open>Printing\<close>

lemma cstr_bytes: "NUL \<notin> set s \<Longrightarrow> cstr (bytes (s @ [NUL])) = Some s"
proof -
  assume a: "NUL \<notin> set s"
  have "map (\<lambda>b. char_of (unat b)) (bytes s) = s" "length (bytes s) = length s"
    by (induction s) (simp_all add: bytes_def byte_char)
  then show ?thesis unfolding cstr_def strlen_bytes [OF a] by (simp add: bytes_nul)
qed

lemma imm_facts [simp]: "VAL_TRUE \<noteq> VAL_NIL" "VAL_FALSE \<noteq> VAL_NIL" "VAL_FALSE \<noteq> VAL_TRUE" "\<not> IS_FIX VAL_TRUE" "\<not> IS_FIX VAL_FALSE" "\<not> IS_FIX VAL_NIL"
  by (simp_all add: VAL_TRUE_def VAL_FALSE_def VAL_NIL_def IS_FIX_def TAG_IMM_def TAG_MASK_def TAG_FIX_def)

lemma fix_not_imm: "MAKE_FIX n \<noteq> VAL_TRUE" "MAKE_FIX n \<noteq> VAL_FALSE" "MAKE_FIX n \<noteq> VAL_NIL"
  using fix_tag(1) [of n] imm_facts(4-6) by metis+

lemma ptr_not_imm: "IS_PTR v \<Longrightarrow> v \<noteq> VAL_TRUE \<and> v \<noteq> VAL_FALSE \<and> v \<noteq> VAL_NIL \<and> \<not> IS_FIX v"
  by (auto simp: IS_PTR_def IS_FIX_def VAL_TRUE_def VAL_FALSE_def VAL_NIL_def TAG_IMM_def TAG_MASK_def TAG_OBJ_def TAG_FIX_def)

lemma good_no_nul: "good_symbol s \<Longrightarrow> NUL \<notin> set s" "good_string s \<Longrightarrow> NUL \<notin> set s"
  by (auto simp: good_symbol_def good_string_def)

lemma print_text:
  assumes "repr d (bodies s) v" "expressible d"
  shows "(\<exists>N. \<forall>m\<ge>N. scm_print m s v = Some (text_of d)) \<and> (\<exists>N. \<forall>m\<ge>N. print_rest m s v = Some (rest_of d))"
  using assms
proof (induction d arbitrary: v)
  case (D_num n)
  have p: "scm_print m s v = Some (text_of (D_num n))" if "m \<ge> 1" for m
    using that D_num by (cases m) (simp_all add: fix_tag fix_not_imm fix_roundtrip IS_NIL_def)
  have "print_rest m s v = Some (rest_of (D_num n))" if "m \<ge> 2" for m
    using that D_num p [of "m - 1"] by (cases m) (simp_all add: fix_tag fix_not_imm IS_NIL_def)
  with p show ?case by blast
next
  case (D_str t)
  then obtain ob where ob: "s v = Some ob" "ob_body ob = OBJ_STRING (length t) (bytes (t @ [NUL]))" "IS_PTR v"
    by (auto simp: bodies_def)
  have p: "scm_print m s v = Some (text_of (D_str t))" if "m \<ge> 1" for m
    using that ob D_str(2) ptr_not_imm [OF ob(3)] by (cases m) (simp_all add: IS_NIL_def cstr_bytes good_no_nul)
  have "print_rest m s v = Some (rest_of (D_str t))" if "m \<ge> 2" for m
    using that ob p [of "m - 1"] ptr_not_imm [OF ob(3)] by (cases m) (simp_all add: IS_NIL_def)
  with p show ?case by blast
next
  case (D_sym t)
  then obtain ob where ob: "s v = Some ob" "ob_body ob = OBJ_SYMBOL (length t) (bytes (t @ [NUL]))" "IS_PTR v"
    by (auto simp: bodies_def)
  have p: "scm_print m s v = Some (text_of (D_sym t))" if "m \<ge> 1" for m
    using that ob D_sym(2) ptr_not_imm [OF ob(3)] by (cases m) (simp_all add: IS_NIL_def cstr_bytes good_no_nul)
  have "print_rest m s v = Some (rest_of (D_sym t))" if "m \<ge> 2" for m
    using that ob p [of "m - 1"] ptr_not_imm [OF ob(3)] by (cases m) (simp_all add: IS_NIL_def)
  with p show ?case by blast
next
  case (D_bool b)
  have p: "scm_print m s v = Some (text_of (D_bool b))" if "m \<ge> 1" for m
    using that D_bool by (cases m) (simp_all add: IS_NIL_def)
  have "print_rest m s v = Some (rest_of (D_bool b))" if "m \<ge> 2" for m
    using that D_bool p [of "m - 1"] by (cases m) (simp_all add: IS_NIL_def)
  with p show ?case by blast
next
  case D_nil
  have p: "scm_print m s v = Some (text_of D_nil)" "print_rest m s v = Some (rest_of D_nil)" if "m \<ge> 1" for m
    using that D_nil by (cases m; simp add: IS_NIL_def)+
  then show ?case by blast
next
  case (D_pair a d)
  then obtain x y where xy: "bodies s v = Some (OBJ_PAIR x y)" "repr a (bodies s) x" "repr d (bodies s) y" "IS_PTR v" by auto
  then obtain ob where ob: "s v = Some ob" "ob_body ob = OBJ_PAIR x y" by (auto simp: bodies_def)
  obtain N1 where n1: "\<And>m. m \<ge> N1 \<Longrightarrow> scm_print m s x = Some (text_of a)" using D_pair.IH(1) [OF xy(2)] D_pair.prems(2) by auto
  obtain N2 where n2: "\<And>m. m \<ge> N2 \<Longrightarrow> print_rest m s y = Some (rest_of d)" using D_pair.IH(2) [OF xy(3)] D_pair.prems(2) by auto
  have p: "scm_print m s v = Some (text_of (D_pair a d))" "print_rest m s v = Some (rest_of (D_pair a d))" if "m \<ge> Suc (max N1 N2)" for m
    using that ob n1 [of "m - 1"] n2 [of "m - 1"] ptr_not_imm [OF xy(4)] xy(4) by (cases m; simp add: IS_NIL_def)+
  then show ?case by blast
qed

section \<open>Lexing what was printed\<close>

text \<open>Where the rest of the source is \<open>p\<close>, the tokens to come are \<open>ks\<close>.\<close>

definition lexes :: "string \<Rightarrow> tok list \<Rightarrow> bool" where
  "lexes p ks \<longleftrightarrow> (\<forall>lx. lx_p lx = p \<longrightarrow> \<not> lx_peeked lx \<longrightarrow> feeds ks lx)"

definition plain :: "char \<Rightarrow> bool" where
  "plain c \<longleftrightarrow> c \<noteq> CHR '' '' \<and> c \<noteq> TABC \<and> c \<noteq> CRC \<and> c \<noteq> NLC \<and> c \<noteq> CHR '';''"

lemma skip_plain: "plain (cur p) \<Longrightarrow> skip_ws p line = (p, line)"
  by (cases p) (simp_all add: skip_ws.simps plain_def cur_def)

lemma skip_space: "skip_ws (CHR '' '' # p) line = skip_ws p line"
  by (simp add: skip_ws.simps [of "CHR '' '' # p"] skip_ws.simps [of p])

lemma lexes_space: "lexes p ks \<Longrightarrow> lexes (CHR '' '' # p) ks"
  unfolding lexes_def
proof (intro allI impI)
  fix lx :: lexer assume a: "\<forall>lx. lx_p lx = p \<longrightarrow> \<not> lx_peeked lx \<longrightarrow> feeds ks lx" "lx_p lx = CHR '' '' # p" "\<not> lx_peeked lx"
  have "lex_one lx = lex_one (lx\<lparr>lx_p := p\<rparr>)" using a(2) by (simp add: lex_one_def skip_space)
  moreover have "feeds ks (lx\<lparr>lx_p := p\<rparr>)" using a by simp
  ultimately show "feeds ks lx" using a(3) by (cases ks) (simp_all add: lex_next_def)
qed

lemma lexes_token:
  assumes "plain (cur q)" "lexes p ks"
    and "\<And>lx. lx_p lx = q \<Longrightarrow> \<exists>t. lex_one lx = Returns (t, lx\<lparr>lx_p := p\<rparr>) \<and> is_tok k t"
  shows "lexes q (k # ks)"
  unfolding lexes_def
proof (intro allI impI)
  fix lx :: lexer assume a: "lx_p lx = q" "\<not> lx_peeked lx"
  then show "feeds (k # ks) lx" using assms(2) assms(3) [OF a(1)] by (auto simp: lexes_def lex_next_def)
qed

lemma lex_one_at:
  assumes "plain (cur (lx_p lx))"
  shows "lex_one lx = (let p = lx_p lx; c = cur p in
     if c = NUL then Returns (make_token TOK_EOF lx, lx)
     else if c = CHR ''('' then Returns (make_token TOK_LPAREN lx, lx\<lparr>lx_p := tl p\<rparr>)
     else if c = CHR '')'' then Returns (make_token TOK_RPAREN lx, lx\<lparr>lx_p := tl p\<rparr>)
     else if c = SQUOTE then Returns (make_token TOK_QUOTE lx, lx\<lparr>lx_p := tl p\<rparr>)
     else if c = CHR ''#'' then lex_hash lx
     else if c = DQUOTE then lex_string lx
     else if isdigit c \<or> (c = CHR ''-'' \<or> c = CHR ''+'') \<and> isdigit (cur (tl p)) then lex_number lx
     else if c = CHR ''.'' \<and> \<not> is_sym_char (cur (tl p)) then Returns (make_token TOK_DOT lx, lx\<lparr>lx_p := tl p\<rparr>)
     else if is_sym_char c then lex_symbol lx
     else Exits)"
proof -
  have "lx\<lparr>lx_p := lx_p lx, lx_line := lx_line lx\<rparr> = lx" by simp
  then show ?thesis unfolding lex_one_def skip_plain [OF assms] by (simp only: Let_def prod.case)
qed

lemma cur_Cons [simp]: "cur (c # p) = c"
  by (simp add: cur_def)

lemma cur_append: "s \<noteq> [] \<Longrightarrow> cur (s @ p) = hd s"
  by (cases s) (simp_all add: cur_def)

lemma lexes_end: "lexes [] []"
  by (simp add: lexes_def lex_next_def lex_one_at plain_def cur_def NUL_def TABC_def CRC_def NLC_def make_token_def)

lemma lexes_marks:
  assumes "lexes p ks"
  shows "lexes (CHR ''('' # p) (T_LPAREN # ks)" "lexes (CHR '')'' # p) (T_RPAREN # ks)"
    "\<not> is_sym_char (cur p) \<Longrightarrow> lexes (CHR ''#'' # CHR ''t'' # p) (T_TRUE # ks)"
    "\<not> is_sym_char (cur p) \<Longrightarrow> lexes (CHR ''#'' # CHR ''f'' # p) (T_FALSE # ks)"
    "\<not> is_sym_char (cur p) \<Longrightarrow> lexes (CHR ''.'' # p) (T_DOT # ks)"
  by (rule lexes_token [OF _ assms];
    simp add: plain_def TABC_def CRC_def NLC_def lex_one_at NUL_def SQUOTE_def DQUOTE_def make_token_def lex_hash_def isdigit_def)+

lemma sym_plain: "is_sym_char c \<Longrightarrow> plain c \<and> c \<noteq> NUL \<and> c \<noteq> CHR ''('' \<and> c \<noteq> CHR '')'' \<and> c \<noteq> SQUOTE \<and> c \<noteq> CHR ''#'' \<and> c \<noteq> DQUOTE"
  unfolding plain_def using char_facts by metis

lemma lexes_symbol:
  assumes "good_symbol s" "\<not> is_sym_char (cur p)" "lexes p ks"
  shows "lexes (s @ p) (T_SYM s # ks)"
proof (rule lexes_token [OF _ assms(3)])
  obtain c cs where s: "s = c # cs" using assms(1) by (cases s) (auto simp: good_symbol_def)
  have c: "is_sym_char c" "\<not> isdigit c" using assms(1) s by (auto simp: good_symbol_def)
  show "plain (cur (s @ p))" using sym_plain [OF c(1)] s by simp
  have tw: "takeWhile is_sym_char (s @ p) = s" "dropWhile is_sym_char (s @ p) = p"
    using assms(1,2) by (simp_all add: good_symbol_def takeWhile_append dropWhile_append takeWhile_eq_Nil_iff dropWhile_eq_self_iff)
      (cases p; simp add: cur_def)+
  have nn: "\<not> ((c = CHR ''-'' \<or> c = CHR ''+'') \<and> isdigit (cur (cs @ p)))"
  proof (cases cs)
    case Nil
    then show ?thesis using assms(2) digit_sym by auto
  next
    case (Cons x xs)
    then show ?thesis using assms(1) s by (auto simp: good_symbol_def)
  qed
  have nd: "\<not> (c = CHR ''.'' \<and> \<not> is_sym_char (cur (cs @ p)))"
    using assms(1) s by (cases cs) (auto simp: good_symbol_def)
  fix lx :: lexer assume "lx_p lx = s @ p"
  then show "\<exists>t. lex_one lx = Returns (t, lx\<lparr>lx_p := p\<rparr>) \<and> is_tok (T_SYM s) t"
    using sym_plain [OF c(1)] c nn nd tw good_no_nul(1) [OF assms(1)] s
    by (auto simp: lex_one_at lex_symbol_def make_token_def Let_def)
qed

lemma scan_good_string: "good_string s \<Longrightarrow> scan_string (s @ DQUOTE # p) buf = Returns (buf @ s, p)"
  by (induction s arbitrary: buf) (auto simp: good_string_def NUL_def DQUOTE_def)

lemma lexes_string:
  assumes "good_string s" "lexes p ks"
  shows "lexes (DQUOTE # s @ DQUOTE # p) (T_STR s # ks)"
  by (rule lexes_token [OF _ assms(2)])
    (simp_all add: plain_def lex_one_at lex_string_def scan_good_string [OF assms(1), unfolded DQUOTE_def] make_token_def
      DQUOTE_def TABC_def CRC_def NLC_def NUL_def SQUOTE_def)

lemma scan_dec_digits:
  assumes "\<forall>c\<in>set ds. isdigit c" "\<not> isdigit (cur p)"
  shows "scan_dec (of_nat n) (ds @ p) = (of_nat (foldl (\<lambda>n c. n * 10 + digit_value c) n ds), p)"
  using assms(1)
proof (induction ds arbitrary: n)
  case Nil
  then show ?case using assms(2) by (cases p) (simp_all add: scan_dec.simps)
next
  case (Cons c ds)
  have "scan_dec (of_nat n) ((c # ds) @ p) = scan_dec (of_nat (n * 10 + digit_value c)) (ds @ p)"
    using Cons.prems by (subst scan_dec.simps) simp
  then show ?case using Cons.IH [of "n * 10 + digit_value c"] Cons.prems by (simp del: of_nat_add of_nat_mult)
qed

lemma scan_digits:
  assumes "\<not> is_sym_char (cur p)"
  shows "scan_dec 0 (digits 10 n @ p) = (of_nat n, p)"
    "\<not> (cur (digits 10 n @ p) = CHR ''0'' \<and> (cur (tl (digits 10 n @ p)) = CHR ''x'' \<or> cur (tl (digits 10 n @ p)) = CHR ''X''))"
    "isdigit (cur (digits 10 n @ p))"
proof -
  have nd: "\<not> isdigit (cur p)" using assms digit_sym by blast
  show "scan_dec 0 (digits 10 n @ p) = (of_nat n, p)"
    using scan_dec_digits [OF digits_are_digits nd, of 0 n] decimal_digits [of n] by (simp add: decimal_def)
  show "isdigit (cur (digits 10 n @ p))"
    using digits_are_digits [of n] digits_some [of 10 n] by (simp add: cur_append)
  have "is_sym_char CHR ''x''" "is_sym_char CHR ''X''" by (simp_all add: is_sym_char_def isalnum_def)
  then have x: "cur p \<noteq> CHR ''x''" "cur p \<noteq> CHR ''X''" using assms by metis+
  show "\<not> (cur (digits 10 n @ p) = CHR ''0'' \<and> (cur (tl (digits 10 n @ p)) = CHR ''x'' \<or> cur (tl (digits 10 n @ p)) = CHR ''X''))"
  proof (cases "n = 0")
    case True
    have "digits 10 0 = ''0''" by (simp add: digits.simps char_of_def bit_numeral_rec bit_Suc_0_iff)
    then show ?thesis using x True by simp
  next
    case False
    then show ?thesis using digits_leading [of n] by (simp add: cur_append digits_some)
  qed
qed

lemma scan_printed:
  assumes "\<not> is_sym_char (cur p)"
  shows "scan_number (pr_int i @ p) = Returns (of_int i, p)"
proof -
  note d = scan_digits [OF assms]
  have nm: "cur (digits 10 n @ p) \<noteq> CHR ''-''" "cur (digits 10 n @ p) \<noteq> CHR ''+''" for n
    using d(3) [of n] by (auto simp: isdigit_def)
  show ?thesis
  proof (cases "i < 0")
    case True
    then have "of_nat (nat (- i)) = (- of_int i :: u64)" by (simp add: of_nat_nat)
    then show ?thesis using True d(1,2) [of "nat (- i)"] by (auto simp: scan_number_def pr_int_def Let_def)
  next
    case False
    then have "of_nat (nat i) = (of_int i :: u64)" by (simp add: of_nat_nat)
    then show ?thesis using False d(1,2) [of "nat i"] nm by (auto simp: scan_number_def pr_int_def Let_def)
  qed
qed

lemma lexes_number:
  assumes "\<not> is_sym_char (cur p)" "lexes p ks"
  shows "lexes (pr_int i @ p) (T_NUM (of_int i) # ks)"
proof (rule lexes_token [OF _ assms(2)])
  note d = scan_digits(3) [OF assms(1)]
  let ?q = "pr_int i @ p"
  have c: "isdigit (cur ?q) \<or> cur ?q = CHR ''-'' \<and> isdigit (cur (tl ?q))"
    using d by (simp add: pr_int_def)
  then have s: "is_sym_char (cur ?q)" using digit_sym by (auto simp: is_sym_char_def)
  show "plain (cur ?q)" using sym_plain [OF s] by simp
  fix lx :: lexer assume "lx_p lx = ?q"
  then show "\<exists>t. lex_one lx = Returns (t, lx\<lparr>lx_p := p\<rparr>) \<and> is_tok (T_NUM (of_int i)) t"
    using sym_plain [OF s] c scan_printed [OF assms(1), of i]
    by (auto simp: lex_one_at Let_def lex_number_def make_token_def)
qed

section \<open>The tokens of a datum\<close>

fun toks :: "datum \<Rightarrow> tok list" and toks_rest :: "datum \<Rightarrow> tok list" where
  "toks (D_num n) = [T_NUM (of_int (sint n))]"
| "toks (D_str s) = [T_STR s]"
| "toks (D_sym s) = [T_SYM s]"
| "toks (D_bool b) = [if b then T_TRUE else T_FALSE]"
| "toks D_nil = [T_LPAREN, T_RPAREN]"
| "toks (D_pair a d) = T_LPAREN # toks a @ toks_rest d"
| "toks_rest D_nil = [T_RPAREN]"
| "toks_rest (D_pair a d) = toks a @ toks_rest d"
| "toks_rest d = T_DOT # toks d @ [T_RPAREN]"

lemma text_lexes:
  assumes "expressible d" "lexes p ks"
  shows "\<not> is_sym_char (cur p) \<Longrightarrow> lexes (text_of d @ p) (toks d @ ks)"
    "lexes (rest_of d @ CHR '')'' # p) (toks_rest d @ ks)"
  using assms
proof (induction d arbitrary: p ks)
  case (D_num n)
  { case 1 then show ?case using lexes_number [of p ks "sint n"] by simp }
  { case 2
    have "lexes (CHR '')'' # p) (T_RPAREN # ks)" by (rule lexes_marks) (rule 2)
    from lexes_marks(5) [OF lexes_space [OF lexes_number [OF _ this, of "sint n"]]] show ?case by (simp add: lexes_space) }
next
  case (D_str s)
  { case 1 then show ?case using lexes_string [of s p ks] by simp }
  { case 2
    have "lexes (CHR '')'' # p) (T_RPAREN # ks)" by (rule lexes_marks) (rule 2)
    from lexes_marks(5) [OF lexes_space [OF lexes_string [OF _ this, of s]]] 2 show ?case by (simp add: lexes_space) }
next
  case (D_sym s)
  { case 1 then show ?case using lexes_symbol [of s p ks] by simp }
  { case 2
    have "lexes (CHR '')'' # p) (T_RPAREN # ks)" by (rule lexes_marks) (rule 2)
    from lexes_marks(5) [OF lexes_space [OF lexes_symbol [OF _ _ this, of s]]] 2 show ?case by (simp add: lexes_space) }
next
  case (D_bool b)
  { case 1 then show ?case using lexes_marks(3,4) [of p ks] by simp }
  { case 2
    have "lexes (CHR '')'' # p) (T_RPAREN # ks)" by (rule lexes_marks) (rule 2)
    from lexes_marks(5) [OF lexes_space [OF lexes_marks(3) [OF this]]] lexes_marks(5) [OF lexes_space [OF lexes_marks(4) [OF this]]]
    show ?case by (simp add: lexes_space) }
next
  case D_nil
  { case 1 then show ?case using lexes_marks(1) [OF lexes_marks(2)] by simp }
  { case 2 then show ?case using lexes_marks(2) by simp }
next
  case (D_pair a d)
  have nc: "\<not> is_sym_char (cur (rest_of d @ CHR '')'' # q))" for q by (cases d) simp_all
  have both: "lexes (text_of a @ rest_of d @ CHR '')'' # p) (toks a @ toks_rest d @ ks)" if "lexes p ks" "expressible (D_pair a d)" for p ks
    using D_pair.IH(1) [OF nc] D_pair.IH(4) that by simp
  { case 1 then show ?case using lexes_marks(1) [OF both [of p ks]] by simp }
  { case 2 then show ?case using lexes_space [OF both [of p ks]] by simp }
qed

primrec nest :: "datum \<Rightarrow> nat" where
  "nest (D_num n) = 0"
| "nest (D_str s) = 0"
| "nest (D_sym s) = 0"
| "nest (D_bool b) = 0"
| "nest D_nil = 1"
| "nest (D_pair a d) = max (Suc (nest a)) (nest d)"

lemma num_token: "D_num (ucast (of_int (sint n) :: u64)) = D_num n"
proof -
  have "(ucast (word_of_int (sint n) :: u64) :: u32) = word_of_int (sint n)"
    by (rule bit_word_eqI) (simp add: bit_simps)
  then show ?thesis by simp
qed

lemma toks_read:
  shows "nest d \<le> k \<Longrightarrow> reads k (toks d @ r) d r" "nest d \<le> Suc k \<Longrightarrow> reads_tail k (toks_rest d @ r) d r"
proof (induction d arbitrary: k r)
  case (D_num n)
  have a: "reads k (toks (D_num n) @ r) (D_num n) r" for k r
    using reads_reads_list_reads_tail.num [of k "of_int (sint n)" r] unfolding num_token by simp
  { case 1 show ?case by (rule a) }
  { case 2 show ?case using reads_reads_list_reads_tail.dotted [OF a] by simp }
next
  case (D_str s)
  { case 1 show ?case using reads_reads_list_reads_tail.str by simp }
  { case 2 show ?case using reads_reads_list_reads_tail.dotted [OF reads_reads_list_reads_tail.str] by simp }
next
  case (D_sym s)
  { case 1 show ?case using reads_reads_list_reads_tail.sym by simp }
  { case 2 show ?case using reads_reads_list_reads_tail.dotted [OF reads_reads_list_reads_tail.sym] by simp }
next
  case (D_bool b)
  have a: "reads k ((if b then T_TRUE else T_FALSE) # r) (D_bool b) r" for k r
    using reads_reads_list_reads_tail.true reads_reads_list_reads_tail.false by (cases b) simp_all
  { case 1 show ?case using a by simp }
  { case 2 show ?case using reads_reads_list_reads_tail.dotted [OF a] by simp }
next
  case D_nil
  { case 1 then show ?case using reads_reads_list_reads_tail.list [OF reads_reads_list_reads_tail.empty] by (cases k) simp_all }
  { case 2 show ?case using reads_reads_list_reads_tail.close by simp }
next
  case (D_pair a d)
  have e: "reads k (toks a @ toks_rest d @ r) a (toks_rest d @ r)" "reads_tail k (toks_rest d @ r) d r"
    if "nest (D_pair a d) \<le> Suc k" for k r
    using D_pair.IH(1,4) that by simp_all
  { case 1
    then obtain k' where k: "k = Suc k'" by (cases k) auto
    then show ?case
      using reads_reads_list_reads_tail.list [OF reads_reads_list_reads_tail.first [OF e [of k' r]]] 1 by simp }
  { case 2 then show ?case using reads_reads_list_reads_tail.more [OF e [of k r]] by simp }
qed

section \<open>The round trip\<close>

lemma toks_some: "\<exists>k ks. toks d @ r = k # ks"
  by (cases d) auto


text \<open>A heap with the pair \<open>(5 . a)\<close>.\<close>

definition sample_store :: store where
  "sample_store = [64 \<mapsto> \<lparr>ob_body = OBJ_PAIR (MAKE_FIX 5) 128, ob_mark = 0, ob_next = 128\<rparr>,
     128 \<mapsto> \<lparr>ob_body = OBJ_SYMBOL 1 (bytes (''a'' @ [NUL])), ob_mark = 0, ob_next = 0\<rparr>]"

definition sample_lexer :: lexer where
  "sample_lexer = \<lparr>lx_src = [], lx_file = [], lx_p = [], lx_line = 0, lx_peeked = False,
     lx_tok = \<lparr>tk_kind = TOK_EOF, tk_nval = 0, tk_sval = None, tk_slen = 0, tk_line = 0\<rparr>\<rparr>"

lemma three_serve: "serves three_blocks 3"
  unfolding serves_def
proof (intro allI impI)
  fix n sz and s :: store assume s: "finite (dom s)" "card (dom s) < 3"
  show "three_blocks n s sz \<noteq> 0"
  proof
    assume "three_blocks n s sz = 0"
    then have "{64, 128, 192} \<subseteq> dom s" by (auto simp: three_blocks_def split: if_splits)
    then have "card {64, 128, 192 :: val_t} \<le> card (dom s)" by (rule card_mono [OF s(1)])
    then show False using s(2) by simp
  qed
qed


section \<open>Collections while a list is read\<close>

lemma each_fails: "x \<in> set xs \<Longrightarrow> (\<And>s. f x s = None) \<Longrightarrow> each f xs s = None"
proof (induction xs arbitrary: s)
  case (Cons y ys)
  then show ?case by (cases "y = x") (auto simp: bind_eq_None_conv)
qed simp

lemma collect_uninitialised:
  assumes "0 \<le> i" "i < h_nroots (w_heap w)" "h_roots (w_heap w) i = Var x" "w_vars w x = None"
  shows "gc_collect w = None"
proof -
  have "mark_roots w = None" unfolding mark_roots_def
    by (rule each_fails [of i]) (use assms in \<open>auto simp: read_root_def\<close>)
  then show ?thesis by (simp add: gc_collect_def)
qed

lemma alloc_collects:
  assumes "sint (h_threshold (w_heap w)) \<le> sint (h_count (w_heap w))" "gc_collect w = None"
  shows "gc_alloc malloc body sz w = None"
  using assms by (simp add: gc_alloc_def)

text \<open>
  C38. \<open>read_list\<close> registers \<open>elem\<close> and \<open>cell\<close> as roots before it has given them a value. When a collection is
  due and the first element of the list is a symbol, the collector follows whatever the two variables
  happen to hold: the reader's behaviour is undefined, whatever its fuel.
\<close>

theorem list_roots_uninitialised:
  assumes f: "feeds (T_LPAREN # T_SYM s # ks) lx" and due: "sint (h_threshold (w_heap w)) \<le> sint (h_count (w_heap w))"
    and r: "0 \<le> h_nroots (w_heap w)" "h_nroots (w_heap w) + 4 \<le> GC_ROOTS_MAX" and o: "unat fp + 32 < 2 ^ 64"
  shows "\<exists>w'. open_frame fp w = Some (Returns w') \<and> gc_collect w' = None \<and> (\<forall>n. read_datum malloc n fp (lx, w) = None)"
proof -
  obtain tk lx1 where lx1: "lex_next lx = Returns (tk, lx1)" "tk_kind tk = TOK_LPAREN" "feeds (T_SYM s # ks) lx1" using f by auto
  obtain tk2 lx2 where lx2: "lex_peek lx1 = Returns (tk2, lx2)" "is_tok (T_SYM s) tk2" "feeds (T_SYM s # ks) lx2"
    by (rule peek_feeds [OF lx1(3)])
  then obtain tk3 lx3 where lx3: "lex_next lx2 = Returns (tk3, lx3)" "is_tok (T_SYM s) tk3" by auto
  let ?n = "h_nroots (w_heap w)"
  have w1: "\<exists>w1. open_frame fp w = Some (Returns w1) \<and> h_threshold (w_heap w1) = h_threshold (w_heap w) \<and>
      h_count (w_heap w1) = h_count (w_heap w) \<and> h_nroots (w_heap w1) = ?n + 4 \<and> h_roots (w_heap w1) (?n + 2) = Var (fp + 16) \<and>
      w_vars w1 (fp + 16) = None"
    using r frame_distinct [OF o] by (simp add: open_frame_def gc_push_def Let_def)
  then obtain w1 where w1: "open_frame fp w = Some (Returns w1)" "sint (h_threshold (w_heap w1)) \<le> sint (h_count (w_heap w1))"
    "gc_collect w1 = None"
    using collect_uninitialised [of "?n + 2" _ "fp + 16"] r due by auto
  have al: "gc_alloc malloc body sz w1 = None" for body sz by (rule alloc_collects [OF w1(2,3)])
  have "NUL \<notin> set s" using lx3(2) by simp
  then have "gc_symbol malloc (bytes (s @ [NUL])) w1 = None" by (simp add: gc_symbol_def strlen_bytes alloc_str_def al)
  then have rd: "read_datum malloc n (fp + 32) (lx2, w1) = None" for n
    using lx3 by (cases n) (simp_all add: with_lexer_def)
  have lp: "list_loop malloc n fp (lx1, w1) = None" for n
    using lx2(1,2) rd by (cases n) simp_all
  have rl: "read_list malloc n fp (lx1, w) = None" for n using w1(1) lp by (cases n) simp_all
  have "read_datum malloc n fp (lx, w) = None" for n using lx1(1,2) rl by (cases n) simp_all
  then show ?thesis using w1(1,3) by blast
qed

definition full_heap :: world where
  "full_heap = small_world\<lparr>w_heap := small_heap\<lparr>h_threshold := 2\<rparr>\<rparr>"

theorem list_roots_uninitialised_witness:
  "\<forall>n. read_datum three_blocks n 4096 (lex_init ''(a)'' None sample_lexer, full_heap) = None"
proof -
  have "lexes (text_of (D_pair (D_sym ''a'') D_nil) @ []) (toks (D_pair (D_sym ''a'') D_nil) @ [])"
    by (rule text_lexes(1) [OF _ lexes_end])
      (simp_all add: cur_def good_symbol_def is_sym_char_def isalnum_def isdigit_def NUL_def)
  then have "feeds [T_LPAREN, T_SYM ''a'', T_RPAREN] (lex_init ''(a)'' None sample_lexer)"
    by (simp add: lexes_def lex_init_def sample_lexer_def)
  moreover have "sint (h_threshold (w_heap full_heap)) \<le> sint (h_count (w_heap full_heap))" "0 \<le> h_nroots (w_heap full_heap)"
    "h_nroots (w_heap full_heap) + 4 \<le> GC_ROOTS_MAX" "unat (4096 :: u64) + 32 < 2 ^ 64"
    by (simp_all add: full_heap_def small_world_def small_heap_def GC_ROOTS_MAX_def)
  ultimately show ?thesis using list_roots_uninitialised by blast
qed

end
